(* ===== verification/Tink_Prelude.thy ===== *)
theory Tink_Prelude
  imports Main "HOL-Library.Word"
begin

unbundle bit_operations_syntax

text \<open>
  Shared vocabulary of the development: bytes and machine integers, the status values that
  \<^verbatim>\<open>absl::Status\<close> and \<^verbatim>\<open>absl::StatusOr\<close> carry, the bit-width function the wire format uses, and
  the generic lemmas on lists, options and words the component theories rely on.

  An \<^verbatim>\<open>absl::StatusOr<T>\<close> is a sum: \<open>Inl\<close> holds the status code of the failure, \<open>Inr\<close> the value.
  An \<^verbatim>\<open>absl::Status\<close> is the same sum over \<^typ>\<open>unit\<close>. The text of an error message is not modelled;
  its code is.
\<close>

type_synonym byte = "8 word"
type_synonym bytes = "byte list"
type_synonym u32 = "32 word"
type_synonym u64 = "64 word"

datatype absl_code =
    kUnknown
  | kInvalidArgument
  | kNotFound
  | kAlreadyExists
  | kFailedPrecondition
  | kOutOfRange
  | kUnimplemented
  | kInternal
  | kUnavailable
  | kDataLoss
  | kUnauthenticated
  | kPermissionDenied

type_synonym 'a StatusOr = "absl_code + 'a"
type_synonym Status = "unit StatusOr"

abbreviation OkStatus :: Status where
  "OkStatus \<equiv> Inr ()"

abbreviation status_ok :: "'a StatusOr \<Rightarrow> bool" where
  "status_ok s \<equiv> \<not> isl s"

text \<open>A string literal as the bytes of its characters.\<close>

definition ascii :: "string \<Rightarrow> bytes" where
  "ascii s = map of_char s"

lemma of_char_byte: "(of_char c :: byte) = of_char d \<longleftrightarrow> c = d"
proof
  assume "(of_char c :: byte) = of_char d"
  then have "bit (of_char c :: byte) n = bit (of_char d :: byte) n" for n by simp
  from this [of 0] this [of 1] this [of 2] this [of 3] this [of 4] this [of 5] this [of 6] this [of 7] show "c = d"
    by (cases c; cases d) (simp only: of_char_def bit_horner_sum_bit_word_iff, simp)
qed simp

lemma ascii_eq: "ascii s = ascii t \<longleftrightarrow> s = t"
  unfolding ascii_def by (auto dest!: map_injective simp: inj_def of_char_byte)

named_theorems proto_simps \<open>unfolding rules of the wire format\<close>
named_theorems keyset_simps \<open>unfolding rules of the keyset operations\<close>

subsection \<open>Bit width\<close>

text \<open>\<^verbatim>\<open>std::bit_width\<close>: the number of bits needed to write the value.\<close>

fun bit_width_nat :: "nat \<Rightarrow> nat" where
  "bit_width_nat n = (if n = 0 then 0 else Suc (bit_width_nat (n div 2)))"

declare bit_width_nat.simps [simp del]

definition bit_width :: "'a::len word \<Rightarrow> nat" where
  "bit_width w = bit_width_nat (unat w)"

lemma bit_width_nat_0 [simp]: "bit_width_nat 0 = 0"
  by (subst bit_width_nat.simps) simp

lemma bit_width_nat_pos: "0 < n \<Longrightarrow> bit_width_nat n = Suc (bit_width_nat (n div 2))"
  by (subst bit_width_nat.simps) simp

lemma bit_width_nat_bounds: "0 < n \<Longrightarrow> 2 ^ (bit_width_nat n - 1) \<le> n \<and> n < 2 ^ bit_width_nat n"
proof (induction n rule: bit_width_nat.induct)
  case (1 n)
  show ?case
  proof (cases "n div 2 = 0")
    case True
    with 1 have "n = 1" by auto
    then show ?thesis by (simp add: bit_width_nat_pos)
  next
    case False
    with 1 have ih: "2 ^ (bit_width_nat (n div 2) - 1) \<le> n div 2" "n div 2 < 2 ^ bit_width_nat (n div 2)"
      by auto
    obtain k where k: "bit_width_nat (n div 2) = Suc k"
      using False by (cases "bit_width_nat (n div 2)") (auto simp: bit_width_nat_pos)
    from 1 k have "bit_width_nat n = Suc (Suc k)" by (simp add: bit_width_nat_pos)
    moreover have "2 * 2 ^ k \<le> n" and "n < 2 * (2 * 2 ^ k)" using ih k by auto
    ultimately show ?thesis by simp
  qed
qed

lemma bit_width_nat_le_iff: "bit_width_nat n \<le> k \<longleftrightarrow> n < 2 ^ k"
proof (cases "n = 0")
  case False
  then have b: "2 ^ (bit_width_nat n - 1) \<le> n" "n < 2 ^ bit_width_nat n" and p: "0 < bit_width_nat n"
    using bit_width_nat_bounds [of n] by (auto simp: bit_width_nat_pos)
  show ?thesis
  proof
    assume "bit_width_nat n \<le> k"
    then have "(2::nat) ^ bit_width_nat n \<le> 2 ^ k" by simp
    with b show "n < 2 ^ k" by linarith
  next
    assume "n < 2 ^ k"
    with b have "(2::nat) ^ (bit_width_nat n - 1) < 2 ^ k" by linarith
    then have "bit_width_nat n - 1 < k" by simp
    with p show "bit_width_nat n \<le> k" by linarith
  qed
qed simp

lemma bit_width_nat_mono: "m \<le> n \<Longrightarrow> bit_width_nat m \<le> bit_width_nat n"
  by (metis bit_width_nat_le_iff order.refl order_le_less_trans)

lemma bit_width_nat_shift: "0 < n \<Longrightarrow> bit_width_nat (n * 2 ^ k) = bit_width_nat n + k"
  by (induction k) (simp_all add: bit_width_nat_pos ac_simps)

lemma bit_width_nat_div: "bit_width_nat (n div 2 ^ k) = bit_width_nat n - k"
proof (induction k arbitrary: n)
  case 0
  then show ?case by simp
next
  case (Suc k)
  have "bit_width_nat (n div 2 ^ Suc k) = bit_width_nat (n div 2) - k"
    using Suc.IH [of "n div 2"] by (simp add: div_mult2_eq)
  also have "\<dots> = bit_width_nat n - Suc k"
    by (cases "n = 0") (simp_all add: bit_width_nat_pos)
  finally show ?case .
qed

subsection \<open>Lists\<close>

lemma take_Suc_append_nth: "i < length xs \<Longrightarrow> take (Suc i) (xs[i := x]) = take i xs @ [x]"
  by (simp add: take_Suc_conv_app_nth)

end
