(* ===== verification/Proto_Wire.thy ===== *)
theory Proto_Wire
  imports Tink_Prelude
begin

unbundle bit_operations_syntax

text \<open>
  The wire format of protocol buffers as \<^verbatim>\<open>tink/internal/proto_parsing_helpers.cc\<close> reads and
  writes it, over the parsing and serialization states of \<^verbatim>\<open>tink/internal/proto_parser_state.h\<close>.

  A \<^verbatim>\<open>ParsingState\<close> is the view of the bytes still to be parsed and, when the caller asked for it,
  the CRC of the bytes consumed so far. A \<^verbatim>\<open>SerializationState\<close> is the span still to be written;
  the model also records the bytes the span has already been advanced over, since those are what
  the caller finds in its buffer. The CRC functions belong to Abseil and are a parameter.

  The boolean functions of the source become functions into \<^typ>\<open>'a option\<close>: \<open>None\<close> is \<^verbatim>\<open>false\<close>.
  A caller never looks at a state again after \<^verbatim>\<open>false\<close>, so the state is dropped there.
\<close>

section \<open>Definitions\<close>

subsection \<open>CRC functions and states (proto\_parser\_state.h)\<close>

record crc_fns =
  ComputeCrc32c :: "bytes \<Rightarrow> u32"
  ConcatCrc32c :: "u32 \<Rightarrow> u32 \<Rightarrow> nat \<Rightarrow> u32"

record ParsingState =
  remaining_view :: bytes
  crc_to_update :: "u32 option"

definition ParsingDone :: "ParsingState \<Rightarrow> bool" where
  "ParsingDone st \<longleftrightarrow> remaining_view st = []"

definition PeekByte :: "ParsingState \<Rightarrow> byte" where
  "PeekByte st = hd (remaining_view st)"

definition Advance :: "crc_fns \<Rightarrow> nat \<Rightarrow> ParsingState \<Rightarrow> ParsingState" where
  "Advance C len st =
     \<lparr>remaining_view = drop len (remaining_view st),
      crc_to_update = (case crc_to_update st of
          None \<Rightarrow> None
        | Some c \<Rightarrow> Some (ConcatCrc32c C c (ComputeCrc32c C (take len (remaining_view st))) len))\<rparr>"

definition AdvanceAndGetCrc :: "crc_fns \<Rightarrow> nat \<Rightarrow> ParsingState \<Rightarrow> u32 \<times> ParsingState" where
  "AdvanceAndGetCrc C len st =
     (let result = ComputeCrc32c C (take len (remaining_view st)) in
      (result,
       \<lparr>remaining_view = drop len (remaining_view st),
        crc_to_update = (case crc_to_update st of
            None \<Rightarrow> None
          | Some c \<Rightarrow> Some (ConcatCrc32c C c result len))\<rparr>))"

text \<open>
  The submessage state shares the CRC with its parent: the parent continues with the CRC the
  submessage leaves behind (see \<open>ConsumeIntoMember\<close> in the theory of messages).
\<close>

definition SplitOffSubmessageState :: "nat \<Rightarrow> ParsingState \<Rightarrow> ParsingState \<times> ParsingState" where
  "SplitOffSubmessageState len st =
     (\<lparr>remaining_view = take len (remaining_view st), crc_to_update = crc_to_update st\<rparr>,
      st\<lparr>remaining_view := drop len (remaining_view st)\<rparr>)"

record SerializationState =
  written :: bytes
  output_buffer :: bytes
  out_crc :: "u32 option"

definition AdvanceWithCrc :: "crc_fns \<Rightarrow> nat \<Rightarrow> u32 \<Rightarrow> SerializationState \<Rightarrow> SerializationState" where
  "AdvanceWithCrc C len crc out =
     \<lparr>written = written out @ take len (output_buffer out),
      output_buffer = drop len (output_buffer out),
      out_crc = (case out_crc out of
          None \<Rightarrow> None
        | Some c \<Rightarrow> Some (ConcatCrc32c C c crc len))\<rparr>"

definition AdvanceOut :: "crc_fns \<Rightarrow> nat \<Rightarrow> SerializationState \<Rightarrow> SerializationState" where
  "AdvanceOut C len out =
     (case out_crc out of
        None \<Rightarrow> out\<lparr>written := written out @ take len (output_buffer out),
                    output_buffer := drop len (output_buffer out)\<rparr>
      | Some _ \<Rightarrow> AdvanceWithCrc C len (ComputeCrc32c C (take len (output_buffer out))) out)"

text \<open>\<^verbatim>\<open>memcpy\<close> of a view to the start of the span; the caller has checked that it fits.\<close>

definition CopyToBuffer :: "bytes \<Rightarrow> SerializationState \<Rightarrow> SerializationState" where
  "CopyToBuffer bs out = out\<lparr>output_buffer := bs @ drop (length bs) (output_buffer out)\<rparr>"

subsection \<open>Varints\<close>

definition kMax64BitVarintLength :: nat where "kMax64BitVarintLength = 10"
definition kMax32BitVarintLength :: nat where "kMax32BitVarintLength = 5"
definition kSkipGroupLimit :: nat where "kSkipGroupLimit = 100"

text \<open>
  The loop of \<^verbatim>\<open>ConsumeVarintForTag\<close> and of \<^verbatim>\<open>ConsumeVarintIntoUint64\<close>, for a result of any
  width: \<open>n\<close> iterations are left, \<open>i\<close> is the loop variable.
\<close>

fun varint_loop :: "crc_fns \<Rightarrow> nat \<Rightarrow> nat \<Rightarrow> 'a::len word \<Rightarrow> ParsingState \<Rightarrow> ('a word \<times> ParsingState) option" where
  "varint_loop C 0 i result st = None"
| "varint_loop C (Suc n) i result st =
     (if ParsingDone st then None
      else let b = PeekByte st;
               st' = Advance C 1 st;
               result' = result OR push_bit (i * 7) (ucast b AND 0x7F)
           in if b AND 0x80 = 0 then Some (result', st')
              else varint_loop C n (Suc i) result' st')"

definition ConsumeVarintForTag :: "crc_fns \<Rightarrow> ParsingState \<Rightarrow> (u32 \<times> ParsingState) option" where
  "ConsumeVarintForTag C st = varint_loop C kMax32BitVarintLength 0 0 st"

fun varint_size_loop :: "crc_fns \<Rightarrow> nat \<Rightarrow> nat \<Rightarrow> u32 \<Rightarrow> ParsingState \<Rightarrow> (u32 \<times> ParsingState) option" where
  "varint_size_loop C 0 i result st = None"
| "varint_size_loop C (Suc n) i result st =
     (if ParsingDone st then None
      else let b = PeekByte st in
        if i = kMax32BitVarintLength - 1 \<and> drop_bit (i * 7) (- 1) < (ucast b AND 0x7F :: u32) then None
        else let st' = Advance C 1 st;
                 result' = result OR push_bit (i * 7) (ucast b AND 0x7F)
             in if b AND 0x80 = 0 then Some (result', st')
                else varint_size_loop C n (Suc i) result' st')"

definition ConsumeVarintForSize :: "crc_fns \<Rightarrow> ParsingState \<Rightarrow> (u32 \<times> ParsingState) option" where
  "ConsumeVarintForSize C st = varint_size_loop C kMax32BitVarintLength 0 0 st"

definition ConsumeVarintIntoUint64 :: "crc_fns \<Rightarrow> ParsingState \<Rightarrow> (u64 \<times> ParsingState) option" where
  "ConsumeVarintIntoUint64 C st = varint_loop C kMax64BitVarintLength 0 0 st"

definition ConsumeVarintIntoUint32 :: "crc_fns \<Rightarrow> ParsingState \<Rightarrow> (u32 \<times> ParsingState) option" where
  "ConsumeVarintIntoUint32 C st =
     (case ConsumeVarintIntoUint64 C st of
        None \<Rightarrow> None
      | Some (result64bit, st') \<Rightarrow> Some (ucast result64bit, st'))"

definition VarintLength :: "u64 \<Rightarrow> nat" where
  "VarintLength value = (let w = bit_width value in if w = 0 then 1 else (w + 6) div 7)"

function varint_write :: "bytes \<Rightarrow> nat \<Rightarrow> u64 \<Rightarrow> bytes \<times> nat" where
  "varint_write buf i value =
     (if 0x80 \<le> value
      then varint_write (buf[i := (ucast value AND 0x7F) OR 0x80]) (Suc i) (drop_bit 7 value)
      else (buf[i := ucast value], Suc i))"
  by pat_completeness auto
termination
  by (relation "measure (\<lambda>(buf, i, v). unat v)")
    (auto simp: word_le_nat_alt drop_bit_eq_div unat_div)

definition SerializeVarint :: "crc_fns \<Rightarrow> u64 \<Rightarrow> SerializationState \<Rightarrow> SerializationState option" where
  "SerializeVarint C value out =
     (let size = VarintLength value in
      if length (output_buffer out) < size then None
      else let (buf, _) = varint_write (output_buffer out) 0 value
           in Some (AdvanceOut C size (out\<lparr>output_buffer := buf\<rparr>)))"

subsection \<open>Tags\<close>

text \<open>
  \<^verbatim>\<open>enum class WireType : uint8_t\<close>. A tag may carry the values 6 and 7, which name no
  enumerator; the cast of the source keeps them, and so does the last constructor.
\<close>

datatype WireType =
    kVarint
  | kFixed64
  | kLengthDelimited
  | kStartGroup
  | kEndGroup
  | kFixed32
  | kOtherWireType u32

fun WireType_to_uint32 :: "WireType \<Rightarrow> u32" where
  "WireType_to_uint32 kVarint = 0"
| "WireType_to_uint32 kFixed64 = 1"
| "WireType_to_uint32 kLengthDelimited = 2"
| "WireType_to_uint32 kStartGroup = 3"
| "WireType_to_uint32 kEndGroup = 4"
| "WireType_to_uint32 kFixed32 = 5"
| "WireType_to_uint32 (kOtherWireType w) = w"

definition WireType_of_uint32 :: "u32 \<Rightarrow> WireType" where
  "WireType_of_uint32 w =
     (if w = 0 then kVarint
      else if w = 1 then kFixed64
      else if w = 2 then kLengthDelimited
      else if w = 3 then kStartGroup
      else if w = 4 then kEndGroup
      else if w = 5 then kFixed32
      else kOtherWireType w)"

definition ConsumeIntoWireTypeAndFieldNumber ::
    "crc_fns \<Rightarrow> ParsingState \<Rightarrow> (WireType \<times> u32 \<times> ParsingState) option" where
  "ConsumeIntoWireTypeAndFieldNumber C st =
     (case ConsumeVarintForTag C st of
        None \<Rightarrow> None
      | Some (result, st') \<Rightarrow>
          let field_number = drop_bit 3 result;
              wire_type = WireType_of_uint32 (result AND 7)
          in if field_number = 0 then None else Some (wire_type, field_number, st'))"

text \<open>\<^verbatim>\<open>int field_number\<close> is the two's complement reading of the 32-bit word.\<close>

definition SerializeWireTypeAndFieldNumber ::
    "crc_fns \<Rightarrow> WireType \<Rightarrow> u32 \<Rightarrow> SerializationState \<Rightarrow> SerializationState option" where
  "SerializeWireTypeAndFieldNumber C wire_type field_number out =
     (if sint field_number \<le> 0 \<or> 2 ^ 29 \<le> sint field_number then None
      else let shifted = push_bit 3 field_number
           in SerializeVarint C (ucast (shifted OR WireType_to_uint32 wire_type)) out)"

definition WireTypeAndFieldNumberLength :: "WireType \<Rightarrow> u32 \<Rightarrow> nat" where
  "WireTypeAndFieldNumberLength wire_type field_number = (bit_width field_number + 3 + 6) div 7"

subsection \<open>Length-delimited and skipped fields\<close>

definition ConsumeBytesReturnStringView :: "crc_fns \<Rightarrow> ParsingState \<Rightarrow> (bytes \<times> ParsingState) option" where
  "ConsumeBytesReturnStringView C st =
     (case ConsumeVarintForSize C st of
        None \<Rightarrow> None
      | Some (result, st') \<Rightarrow>
          if length (remaining_view st') < unat result then None
          else Some (take (unat result) (remaining_view st'), Advance C (unat result) st'))"

definition ConsumeFixed32 :: "crc_fns \<Rightarrow> ParsingState \<Rightarrow> ParsingState option" where
  "ConsumeFixed32 C st = (if length (remaining_view st) < 4 then None else Some (Advance C 4 st))"

definition ConsumeFixed64 :: "crc_fns \<Rightarrow> ParsingState \<Rightarrow> ParsingState option" where
  "ConsumeFixed64 C st = (if length (remaining_view st) < 8 then None else Some (Advance C 8 st))"

definition SkipField :: "crc_fns \<Rightarrow> WireType \<Rightarrow> ParsingState \<Rightarrow> ParsingState option" where
  "SkipField C wire_type st =
     (if wire_type = kVarint then map_option snd (ConsumeVarintIntoUint64 C st)
      else if wire_type = kLengthDelimited then map_option snd (ConsumeBytesReturnStringView C st)
      else if wire_type = kFixed32 then ConsumeFixed32 C st
      else if wire_type = kFixed64 then ConsumeFixed64 C st
      else None)"

text \<open>
  One iteration of the loop of \<^verbatim>\<open>SkipGroup\<close> on the stack of open groups (top first).
\<close>

definition SkipGroup_step ::
    "crc_fns \<Rightarrow> u32 list \<Rightarrow> ParsingState \<Rightarrow> (u32 list \<times> ParsingState) option" where
  "SkipGroup_step C stack st =
     (case ConsumeIntoWireTypeAndFieldNumber C st of
        None \<Rightarrow> None
      | Some (wire_type, field_number, st') \<Rightarrow>
          if wire_type = kStartGroup then
            (if kSkipGroupLimit < length (field_number # stack) then None
             else Some (field_number # stack, st'))
          else if wire_type = kEndGroup then
            (if hd stack \<noteq> field_number then None else Some (tl stack, st'))
          else map_option (Pair stack) (SkipField C wire_type st'))"


section \<open>What the consumers do to the parsing state\<close>

text \<open>
  \<open>advances C st n st'\<close>: the state moved over exactly \<open>n\<close> bytes by calls of \<^verbatim>\<open>Advance\<close>. Every
  consumer of this file is such a move, which gives termination of the parsing loops, and, under
  the laws of the CRC functions, that the maintained CRC is the CRC of the consumed bytes.
\<close>

inductive advances :: "crc_fns \<Rightarrow> ParsingState \<Rightarrow> nat \<Rightarrow> ParsingState \<Rightarrow> bool" for C where
  advances_refl: "advances C st 0 st"
| advances_step: "k \<le> length (remaining_view st) \<Longrightarrow> advances C (Advance C k st) n st' \<Longrightarrow>
     advances C st (k + n) st'"

lemma remaining_view_Advance [simp]: "remaining_view (Advance C k st) = drop k (remaining_view st)"
  by (simp add: Advance_def)

lemma AdvanceAndGetCrc_eq:
  "AdvanceAndGetCrc C len st = (ComputeCrc32c C (take len (remaining_view st)), Advance C len st)"
  by (simp add: AdvanceAndGetCrc_def Advance_def Let_def)

lemma advances_one: "k \<le> length (remaining_view st) \<Longrightarrow> advances C st k (Advance C k st)"
  using advances_step [of k st C 0] by (simp add: advances_refl)

lemma advances_trans: "advances C st m st' \<Longrightarrow> advances C st' n st'' \<Longrightarrow> advances C st (m + n) st''"
  by (induction rule: advances.induct) (auto simp: add.assoc intro: advances_step)

lemma advances_remaining:
  "advances C st n st' \<Longrightarrow> n \<le> length (remaining_view st) \<and> remaining_view st' = drop n (remaining_view st)"
  by (induction rule: advances.induct) (auto simp: add.commute)

lemma advances_frame:
  "advances C sub n sub' \<Longrightarrow> remaining_view sub @ r = remaining_view st \<Longrightarrow>
   crc_to_update st = crc_to_update sub \<Longrightarrow>
   advances C st n \<lparr>remaining_view = remaining_view sub' @ r, crc_to_update = crc_to_update sub'\<rparr>"
proof (induction arbitrary: st rule: advances.induct)
  case (advances_refl sub)
  then have "st = \<lparr>remaining_view = remaining_view sub @ r, crc_to_update = crc_to_update sub\<rparr>"
    by (cases st) simp
  then show ?case by (simp add: advances.advances_refl)
next
  case (advances_step k sub n sub')
  note eq = advances_step.prems(1) [symmetric] and k = advances_step.hyps(1)
  have "advances C (Advance C k st) n
      \<lparr>remaining_view = remaining_view sub' @ r, crc_to_update = crc_to_update sub'\<rparr>"
    by (rule advances_step.IH) (use k advances_step.prems(2) in \<open>simp_all add: Advance_def eq split: option.split\<close>)
  then show ?case using k by (intro advances.advances_step) (simp_all add: eq)
qed

lemma advances_pos_shrinks:
  "advances C st n st' \<Longrightarrow> 0 < n \<Longrightarrow> length (remaining_view st') < length (remaining_view st)"
  using advances_remaining [of C st n st'] by auto

lemma not_done_length: "\<not> ParsingDone st \<Longrightarrow> Suc 0 \<le> length (remaining_view st)"
  by (cases "remaining_view st") (auto simp: ParsingDone_def)

lemma varint_loop_advances:
  "varint_loop C n i r st = Some (v, st') \<Longrightarrow> \<exists>k > 0. advances C st k st'"
proof (induction n arbitrary: i r st)
  case (Suc n)
  then have nd: "\<not> ParsingDone st" by (auto split: if_splits)
  note one = advances_one [OF not_done_length [OF nd], of C]
  show ?case
  proof (cases "PeekByte st AND 0x80 = 0")
    case True
    with Suc.prems nd one show ?thesis by (auto simp: Let_def intro!: exI [of _ "1::nat"])
  next
    case False
    with Suc.prems nd obtain k where "advances C (Advance C 1 st) k st'" "k > 0"
      using Suc.IH by (simp add: Let_def) blast
    with one show ?thesis by (metis One_nat_def advances_trans add_gr_0)
  qed
qed simp

lemma varint_size_loop_advances:
  "varint_size_loop C n i r st = Some (v, st') \<Longrightarrow> \<exists>k > 0. advances C st k st'"
proof (induction n arbitrary: i r st)
  case (Suc n)
  then have nd: "\<not> ParsingDone st" by (auto split: if_splits)
  note one = advances_one [OF not_done_length [OF nd], of C]
  show ?case
  proof (cases "PeekByte st AND 0x80 = 0")
    case True
    with Suc.prems nd one show ?thesis by (auto simp: Let_def intro!: exI [of _ "1::nat"] split: if_splits)
  next
    case False
    with Suc.prems nd obtain k where "advances C (Advance C 1 st) k st'" "k > 0"
      using Suc.IH by (auto simp: Let_def split: if_splits)
    with one show ?thesis by (metis One_nat_def advances_trans add_gr_0)
  qed
qed simp

lemma ConsumeVarintForSize_advances:
  "ConsumeVarintForSize C st = Some (v, st') \<Longrightarrow> \<exists>k > 0. advances C st k st'"
  by (simp add: ConsumeVarintForSize_def varint_size_loop_advances)

lemma ConsumeVarintIntoUint64_advances:
  "ConsumeVarintIntoUint64 C st = Some (v, st') \<Longrightarrow> \<exists>k > 0. advances C st k st'"
  by (simp add: ConsumeVarintIntoUint64_def varint_loop_advances)

lemma ConsumeVarintIntoUint32_advances:
  "ConsumeVarintIntoUint32 C st = Some (v, st') \<Longrightarrow> \<exists>k > 0. advances C st k st'"
  by (auto simp: ConsumeVarintIntoUint32_def ConsumeVarintIntoUint64_def
      dest: varint_loop_advances split: option.splits)

lemma ConsumeIntoWireTypeAndFieldNumber_advances:
  "ConsumeIntoWireTypeAndFieldNumber C st = Some (wt, n, st') \<Longrightarrow> \<exists>k > 0. advances C st k st'"
  by (auto simp: ConsumeIntoWireTypeAndFieldNumber_def ConsumeVarintForTag_def Let_def
      dest: varint_loop_advances split: option.splits if_splits)

lemma ConsumeBytesReturnStringView_advances:
  "ConsumeBytesReturnStringView C st = Some (v, st') \<Longrightarrow> \<exists>k > 0. advances C st k st'"
  by (auto simp: ConsumeBytesReturnStringView_def split: option.splits if_splits
      dest!: ConsumeVarintForSize_advances)
    (metis add_gr_0 advances_one advances_trans not_less)

lemma SkipField_advances:
  "SkipField C wt st = Some st' \<Longrightarrow> \<exists>k > 0. advances C st k st'"
  by (auto simp: SkipField_def ConsumeFixed32_def ConsumeFixed64_def not_less split: if_splits
      dest: ConsumeVarintIntoUint64_advances ConsumeBytesReturnStringView_advances advances_one)
    (use advances_one zero_less_numeral in blast)+

lemma SkipGroup_step_advances:
  assumes "SkipGroup_step C stack st = Some (stack', st')"
  shows "\<exists>k > 0. advances C st k st'"
proof -
  from assms obtain wt n st1 where t: "ConsumeIntoWireTypeAndFieldNumber C st = Some (wt, n, st1)"
    by (auto simp: SkipGroup_step_def split: option.splits)
  with assms have "st1 = st' \<or> SkipField C wt st1 = Some st'"
    by (auto simp: SkipGroup_step_def split: if_splits)
  with ConsumeIntoWireTypeAndFieldNumber_advances [OF t] show ?thesis
    by (metis SkipField_advances add_gr_0 advances_trans)
qed

lemmas consumer_advances =
  ConsumeVarintForSize_advances ConsumeVarintIntoUint64_advances ConsumeVarintIntoUint32_advances
  ConsumeIntoWireTypeAndFieldNumber_advances ConsumeBytesReturnStringView_advances
  SkipField_advances SkipGroup_step_advances


section \<open>SkipGroup and its termination\<close>

text \<open>
  The loop of \<^verbatim>\<open>SkipGroup\<close>. Each iteration consumes at least the tag it reads, so the remaining
  view shrinks and the loop ends on every input.
\<close>

function SkipGroup_loop :: "crc_fns \<Rightarrow> u32 list \<Rightarrow> ParsingState \<Rightarrow> ParsingState option" where
  "SkipGroup_loop C stack st =
     (if stack = [] then Some st
      else case SkipGroup_step C stack st of
             None \<Rightarrow> None
           | Some (stack', st') \<Rightarrow> SkipGroup_loop C stack' st')"
  by pat_completeness auto
termination
  by (relation "measure (\<lambda>(C, stack, st). length (remaining_view st))")
    (auto dest!: SkipGroup_step_advances intro: advances_pos_shrinks)

declare SkipGroup_loop.simps [simp del]

definition SkipGroup :: "crc_fns \<Rightarrow> u32 \<Rightarrow> ParsingState \<Rightarrow> ParsingState option" where
  "SkipGroup C field_number st = SkipGroup_loop C [field_number] st"

lemma SkipGroup_loop_advances:
  "SkipGroup_loop C stack st = Some st' \<Longrightarrow> \<exists>k. advances C st k st'"
proof (induction C stack st rule: SkipGroup_loop.induct)
  case (1 C stack st)
  show ?case
  proof (cases "stack = []")
    case True
    with 1 show ?thesis by (auto simp: SkipGroup_loop.simps [of C "[]" st] intro: advances_refl)
  next
    case False
    with "1.prems" obtain stack' st1 where s: "SkipGroup_step C stack st = Some (stack', st1)"
      and r: "SkipGroup_loop C stack' st1 = Some st'"
      by (auto simp: SkipGroup_loop.simps [of C stack st] split: option.splits)
    with "1.IH" [OF False s refl] SkipGroup_step_advances [OF s] show ?thesis
      by (blast intro: advances_trans)
  qed
qed

lemma SkipGroup_advances: "SkipGroup C n st = Some st' \<Longrightarrow> \<exists>k. advances C st k st'"
  by (auto simp: SkipGroup_def dest: SkipGroup_loop_advances)

section \<open>The maintained CRC\<close>

text \<open>
  What Abseil documents of \<^verbatim>\<open>ComputeCrc32c\<close> and \<^verbatim>\<open>ConcatCrc32c\<close>: the CRC of the empty string is 0,
  and concatenating the CRCs of two strings gives the CRC of their concatenation.
\<close>

definition crc_laws :: "crc_fns \<Rightarrow> bool" where
  "crc_laws C \<longleftrightarrow>
     ComputeCrc32c C [] = 0 \<and>
     (\<forall>a b. ConcatCrc32c C (ComputeCrc32c C a) (ComputeCrc32c C b) (length b) = ComputeCrc32c C (a @ b))"

lemma crc_laws_empty: "crc_laws C \<Longrightarrow> ComputeCrc32c C [] = 0"
  by (simp add: crc_laws_def)

lemma crc_laws_concat:
  "crc_laws C \<Longrightarrow> length b = n \<Longrightarrow> ConcatCrc32c C (ComputeCrc32c C a) (ComputeCrc32c C b) n = ComputeCrc32c C (a @ b)"
  by (auto simp: crc_laws_def)

lemma advances_crc:
  "advances C st n st' \<Longrightarrow> crc_laws C \<Longrightarrow> crc_to_update st = Some (ComputeCrc32c C x) \<Longrightarrow>
   crc_to_update st' = Some (ComputeCrc32c C (x @ take n (remaining_view st)))"
proof (induction arbitrary: x rule: advances.induct)
  case (advances_step k st n st')
  have "crc_to_update (Advance C k st) = Some (ComputeCrc32c C (x @ take k (remaining_view st)))"
    using advances_step.prems advances_step.hyps(1) by (simp add: Advance_def crc_laws_concat)
  from advances_step.IH [OF advances_step.prems(1) this] show ?case
    by (simp add: take_add)
qed simp

lemma advances_no_crc: "advances C st n st' \<Longrightarrow> crc_to_update st = None \<Longrightarrow> crc_to_update st' = None"
  by (induction rule: advances.induct) (simp_all add: Advance_def)

section \<open>Varints: the encoding and its round trip\<close>

text \<open>
  The bytes \<^verbatim>\<open>SerializeVarint\<close> writes, seven bits at a time, least significant group first.
\<close>

function varint_bytes :: "u64 \<Rightarrow> bytes" where
  "varint_bytes value =
     (if 0x80 \<le> value then ((ucast value AND 0x7F) OR 0x80) # varint_bytes (drop_bit 7 value)
      else [ucast value])"
  by pat_completeness auto
termination
  by (relation "measure unat") (auto simp: word_le_nat_alt drop_bit_eq_div unat_div)

declare varint_bytes.simps [simp del] varint_write.simps [simp del]

lemma and_127_word: "(x :: 'a::len word) AND 127 = take_bit 7 x"
  by (simp add: take_bit_eq_mask mask_eq_exp_minus_1)

lemma and_128_byte: "(b :: byte) AND 128 = 0 \<longleftrightarrow> \<not> bit b 7"
  using and_exp_eq_0_iff_not_bit [of b 7] by simp

lemma bit_128_D: "bit (128 :: 'a::semiring_bits) n \<Longrightarrow> n = 7"
proof -
  assume "bit (128 :: 'a) n"
  then have "bit (2 ^ 7 :: 'a) n" by simp
  then show ?thesis by (simp only: bit_exp_iff)
qed

lemma varint_bytes_nonempty [simp]: "varint_bytes v \<noteq> []"
  by (subst varint_bytes.simps) simp

lemma varint_bytes_length: "length (varint_bytes v) = VarintLength v"
proof (induction v rule: varint_bytes.induct)
  case (1 v)
  show ?case
  proof (cases "0x80 \<le> v")
    case True
    then have n: "128 \<le> unat v" by (simp add: word_le_nat_alt)
    then have "bit_width_nat (unat v) \<ge> 8"
      using bit_width_nat_le_iff [of "unat v" 7] by simp
    with n 1 True show ?thesis
      by (subst varint_bytes.simps)
        (auto simp: VarintLength_def bit_width_def drop_bit_eq_div unat_div Let_def
          bit_width_nat_div [of _ 7, simplified])
  next
    case False
    then have "bit_width_nat (unat v) \<le> 7"
      using bit_width_nat_le_iff [of "unat v" 7] by (simp add: word_le_nat_alt)
    with False show ?thesis
      by (subst varint_bytes.simps) (auto simp: VarintLength_def bit_width_def Let_def)
  qed
qed


lemma varint_write_eq:
  "i + length (varint_bytes v) \<le> length buf \<Longrightarrow>
   varint_write buf i v =
     (take i buf @ varint_bytes v @ drop (i + length (varint_bytes v)) buf, i + length (varint_bytes v))"
proof (induction buf i v rule: varint_write.induct)
  case (1 buf i v)
  show ?case
  proof (cases "0x80 \<le> v")
    case True
    then have bs: "varint_bytes v = ((ucast v AND 0x7F) OR 0x80) # varint_bytes (drop_bit 7 v)"
      by (subst varint_bytes.simps) simp
    with "1.prems" have i: "i < length buf" by simp
    from True "1.IH" "1.prems" bs show ?thesis
      by (subst varint_write.simps) (simp add: take_Suc_append_nth [OF i])
  next
    case False
    then have bs: "varint_bytes v = [ucast v]"
      by (subst varint_bytes.simps) simp
    with "1.prems" have i: "i < length buf" by simp
    from False bs i show ?thesis
      by (subst varint_write.simps) (simp add: upd_conv_take_nth_drop)
  qed
qed

lemma small_varint: "\<not> 0x80 \<le> (v::u64) \<Longrightarrow> take_bit 7 v = v"
  by (simp add: take_bit_eq_mod word_le_nat_alt word_arith_nat_defs(7))

lemma last_byte_stop: "\<not> 0x80 \<le> (v::u64) \<Longrightarrow> (ucast v :: byte) AND 0x80 = 0"
  unfolding and_128_byte by (subst small_varint [symmetric]) (simp_all add: bit_simps)

lemma last_byte_value:
  "\<not> 0x80 \<le> (v::u64) \<Longrightarrow> (ucast (ucast v :: byte) AND 0x7F :: 'a::len word) = ucast v"
  unfolding and_127_word
  by (subst (2) small_varint [symmetric]) (assumption, rule bit_word_eqI, auto simp: bit_simps)

lemma push_bit_7_split:
  "push_bit (7 * i) (take_bit 7 (ucast (v::u64))) OR push_bit (7 * Suc i) (ucast (drop_bit 7 v)) =
   (push_bit (7 * i) (ucast v) :: 'a::len word)"
proof (rule bit_word_eqI)
  fix n
  assume n: "n < LENGTH('a)"
  show "bit (push_bit (7 * i) (take_bit 7 (ucast v)) OR push_bit (7 * Suc i) (ucast (drop_bit 7 v)) :: 'a word) n
      = bit (push_bit (7 * i) (ucast v) :: 'a word) n"
  proof (cases "n < 7 * Suc i")
    case True
    with n show ?thesis by (auto simp: bit_simps)
  next
    case False
    then obtain k where "n = 7 * Suc i + k" by (metis le_Suc_ex not_less)
    with n show ?thesis by (auto simp: bit_simps)
  qed
qed

lemma ucast_cont_byte:
  "(ucast ((ucast (v::u64) AND 0x7F) OR 0x80 :: byte) AND 0x7F :: 'a::len word) = take_bit 7 (ucast v)"
  unfolding and_127_word by (rule bit_word_eqI) (auto simp: bit_simps dest: bit_128_D)

lemma varint_loop_varint_bytes:
  "length (varint_bytes v) \<le> n \<Longrightarrow> remaining_view st = varint_bytes v @ rest \<Longrightarrow>
   \<exists>st'. varint_loop C n i r st = Some (r OR push_bit (7 * i) (ucast v :: 'a::len word), st')
       \<and> remaining_view st' = rest"
proof (induction v arbitrary: n i r st rule: varint_bytes.induct)
  case (1 v)
  then obtain m where n: "n = Suc m" by (cases n) auto
  have nd: "\<not> ParsingDone st" using "1.prems" by (simp add: ParsingDone_def)
  show ?case
  proof (cases "0x80 \<le> v")
    case True
    then have bs: "varint_bytes v = ((ucast v AND 0x7F) OR 0x80) # varint_bytes (drop_bit 7 v)"
      by (subst varint_bytes.simps) simp
    have len: "length (varint_bytes (drop_bit 7 v)) \<le> m" using "1.prems" n bs by simp
    have rem: "remaining_view (Advance C (Suc 0) st) = varint_bytes (drop_bit 7 v) @ rest"
      using "1.prems" bs by simp
    have pk: "PeekByte st = (ucast v AND 0x7F) OR 0x80" using "1.prems" bs by (simp add: PeekByte_def)
    have cont: "(PeekByte st AND 0x80 = 0) = False" unfolding pk and_128_byte by (simp add: bit_simps)
    let ?r = "r OR push_bit (i * 7) (ucast (PeekByte st) AND 0x7F)"
    obtain st' where st': "varint_loop C m (Suc i) ?r (Advance C (Suc 0) st) =
        Some (?r OR push_bit (7 * Suc i) (ucast (drop_bit 7 v)), st')" "remaining_view st' = rest"
      using "1.IH" [OF True len rem] by blast
    have "?r OR push_bit (7 * Suc i) (ucast (drop_bit 7 v)) = r OR push_bit (7 * i) (ucast v)"
      unfolding pk ucast_cont_byte using push_bit_7_split [where 'a = 'a, of i v]
      by (simp add: or.assoc mult.commute)
    with st' nd n cont show ?thesis by (auto simp: Let_def simp del: push_bit_and)
  next
    case False
    then have bs: "varint_bytes v = [ucast v]" by (subst varint_bytes.simps) simp
    have pk: "PeekByte st = ucast v" and rem: "remaining_view (Advance C (Suc 0) st) = rest"
      using "1.prems" bs by (simp_all add: PeekByte_def)
    from last_byte_stop [OF False] have "PeekByte st AND 0x80 = 0" by (simp add: pk)
    moreover have "(ucast (PeekByte st) AND 0x7F :: 'a word) = ucast v"
      unfolding pk by (rule last_byte_value [OF False])
    ultimately show ?thesis using nd n rem by (simp add: Let_def mult.commute del: push_bit_and)
  qed
qed


lemma VarintLength_le: "unat v < 2 ^ (7 * n) \<Longrightarrow> 0 < n \<Longrightarrow> VarintLength v \<le> n"
proof -
  assume "unat v < 2 ^ (7 * n)" "0 < n"
  then have "bit_width_nat (unat v) \<le> 7 * n" by (simp add: bit_width_nat_le_iff)
  with \<open>0 < n\<close> show ?thesis by (auto simp: VarintLength_def bit_width_def Let_def)
qed

lemma VarintLength_pos: "0 < VarintLength v"
  by (auto simp: VarintLength_def Let_def)

lemma VarintLength_uint64: "VarintLength v \<le> 10"
proof (rule VarintLength_le)
  have "unat v < 2 ^ 64" using unsigned_less [of v, where 'a = nat] by simp
  then show "unat v < 2 ^ (7 * 10)" by simp
qed simp

lemma VarintLength_uint32: "unat v < 2 ^ 32 \<Longrightarrow> VarintLength v \<le> 5"
  by (rule VarintLength_le) simp_all

lemma ConsumeVarintIntoUint64_varint_bytes:
  "remaining_view st = varint_bytes v @ rest \<Longrightarrow>
   \<exists>st'. ConsumeVarintIntoUint64 C st = Some (v, st') \<and> remaining_view st' = rest"
  using varint_loop_varint_bytes [of v 10 st rest C 0 "0::u64"]
  by (simp add: ConsumeVarintIntoUint64_def kMax64BitVarintLength_def varint_bytes_length VarintLength_uint64)

lemma ucast_ucast_u32: "(ucast (ucast (v::u32) :: u64) :: u32) = v"
  by (rule bit_word_eqI) (auto simp: bit_simps)

lemma ConsumeVarintIntoUint32_varint_bytes:
  "remaining_view st = varint_bytes (ucast (v::u32)) @ rest \<Longrightarrow>
   \<exists>st'. ConsumeVarintIntoUint32 C st = Some (v, st') \<and> remaining_view st' = rest"
  using ConsumeVarintIntoUint64_varint_bytes [of st "ucast v" rest C]
  by (auto simp: ConsumeVarintIntoUint32_def ucast_ucast_u32)

lemma ConsumeVarintForTag_varint_bytes:
  "remaining_view st = varint_bytes (ucast (v::u32)) @ rest \<Longrightarrow>
   \<exists>st'. ConsumeVarintForTag C st = Some (v, st') \<and> remaining_view st' = rest"
proof -
  assume r: "remaining_view st = varint_bytes (ucast v) @ rest"
  have "unat (ucast v :: u64) < 2 ^ 32" using unsigned_less [of v, where 'a = nat] by (simp add: unsigned_ucast_eq take_bit_nat_eq_self)
  then have "length (varint_bytes (ucast v)) \<le> 5" by (simp add: varint_bytes_length VarintLength_uint32)
  from varint_loop_varint_bytes [OF this r, of C 0 "0::u32"] show ?thesis
    by (simp add: ConsumeVarintForTag_def kMax32BitVarintLength_def ucast_ucast_u32)
qed

text \<open>
  The strict variant for sizes differs from the lenient loop only in the fifth byte, where it
  refuses bits that do not fit; on the encoding of a 32-bit value that test never fires.
\<close>

lemma varint_size_loop_eq:
  "length (varint_bytes v) \<le> n \<Longrightarrow> n + i = kMax32BitVarintLength \<Longrightarrow> unat v < 2 ^ (32 - 7 * i) \<Longrightarrow>
   remaining_view st = varint_bytes v @ rest \<Longrightarrow>
   varint_size_loop C n i r st = varint_loop C n i r st"
proof (induction v arbitrary: n i r st rule: varint_bytes.induct)
  case (1 v)
  then obtain m where n: "n = Suc m" by (cases n) auto
  from n "1.prems"(2) have i: "i \<le> 4" by (simp add: kMax32BitVarintLength_def)
  have nd: "\<not> ParsingDone st" using "1.prems" by (simp add: ParsingDone_def)
  show ?case
  proof (cases "0x80 \<le> v")
    case True
    then have bs: "varint_bytes v = ((ucast v AND 0x7F) OR 0x80) # varint_bytes (drop_bit 7 v)"
      by (subst varint_bytes.simps) simp
    from True have big: "128 \<le> unat v" by (simp add: word_le_nat_alt)
    with "1.prems"(3) i have i4: "i < 4" by (cases "i = 4") auto
    have "unat (drop_bit 7 v) = unat v div 2 ^ 7" by (simp add: drop_bit_eq_div unat_div)
    moreover have "(2::nat) ^ (32 - 7 * i) = 2 ^ (32 - 7 * Suc i) * 2 ^ 7"
    proof -
      have "32 - 7 * i = (32 - 7 * Suc i) + 7" using i4 by simp
      then show ?thesis by (simp only: power_add)
    qed
    ultimately have small: "unat (drop_bit 7 v) < 2 ^ (32 - 7 * Suc i)"
      using "1.prems"(3) by (simp add: less_mult_imp_div_less)
    have len: "length (varint_bytes (drop_bit 7 v)) \<le> m" and mi: "m + Suc i = kMax32BitVarintLength"
      using "1.prems" n bs by simp_all
    have rem: "remaining_view (Advance C (Suc 0) st) = varint_bytes (drop_bit 7 v) @ rest"
      using "1.prems" bs by simp
    from "1.IH" [OF True len mi small rem] n i4 nd show ?thesis
      by (simp add: Let_def kMax32BitVarintLength_def del: push_bit_and)
  next
    case False
    then have bs: "varint_bytes v = [ucast v]" by (subst varint_bytes.simps) simp
    have pk: "PeekByte st = ucast v" using "1.prems" bs by (simp add: PeekByte_def)
    have u: "unat v < 128" using False by (simp add: word_le_nat_alt)
    then have ub: "unat (ucast v :: byte) = unat v"
      by (simp add: unsigned_ucast_eq take_bit_nat_eq_self)
    have "\<not> (drop_bit (i * 7) (- 1) < (ucast (PeekByte st) AND 0x7F :: u32))" if "i = 4"
      using that "1.prems"(3) ub u
      by (simp add: pk and_127_word word_less_nat_alt unsigned_take_bit_eq unsigned_ucast_eq take_bit_nat_eq_self mask_eq_exp_minus_1)
    with n nd have "\<not> (i = kMax32BitVarintLength - 1 \<and> drop_bit (i * 7) (- 1) < (ucast (PeekByte st) AND 0x7F :: u32))"
      by (auto simp: kMax32BitVarintLength_def)
    moreover have "PeekByte st AND 0x80 = 0"
      unfolding pk by (rule last_byte_stop [OF False])
    ultimately show ?thesis using n nd by (simp add: Let_def del: push_bit_and)
  qed
qed


lemma ConsumeVarintForSize_varint_bytes:
  assumes "n < 2 ^ 32" and "remaining_view st = varint_bytes (word_of_nat n) @ rest"
  shows "\<exists>st'. ConsumeVarintForSize C st = Some (word_of_nat n, st') \<and> remaining_view st' = rest"
proof -
  have u: "unat (word_of_nat n :: u64) = n" using assms(1) by (simp add: unsigned_of_nat take_bit_nat_eq_self)
  then have len: "length (varint_bytes (word_of_nat n)) \<le> 5"
    using assms(1) by (simp add: varint_bytes_length VarintLength_uint32)
  have eq: "varint_size_loop C 5 0 0 st = varint_loop C 5 0 0 st"
    by (rule varint_size_loop_eq [OF len _ _ assms(2)]) (use assms(1) u in \<open>simp_all add: kMax32BitVarintLength_def\<close>)
  have "(ucast (word_of_nat n :: u64) :: u32) = word_of_nat n"
    using u assms(1) by (intro word_unat_eq_iff [THEN iffD2]) (simp add: unsigned_ucast_eq unsigned_of_nat take_bit_nat_eq_self)
  with varint_loop_varint_bytes [OF len assms(2), of C 0 "0::u32"] eq show ?thesis
    by (simp add: ConsumeVarintForSize_def kMax32BitVarintLength_def)
qed

section \<open>Tags: round trip\<close>

lemma WireType_roundtrip:
  "WireType_of_uint32 (WireType_to_uint32 wt) = wt \<longleftrightarrow>
     (case wt of kOtherWireType w \<Rightarrow> 5 < w | _ \<Rightarrow> True)"
proof (cases wt)
  case (kOtherWireType w)
  then show ?thesis by (auto simp: WireType_of_uint32_def) unat_arith
qed (simp_all add: WireType_of_uint32_def)

definition valid_field_number :: "u32 \<Rightarrow> bool" where
  "valid_field_number n \<longleftrightarrow> 0 < n \<and> n < 2 ^ 29"

definition known_wire_type :: "WireType \<Rightarrow> bool" where
  "known_wire_type wt \<longleftrightarrow> (\<forall>w. wt \<noteq> kOtherWireType w)"

definition tag_bytes :: "WireType \<Rightarrow> u32 \<Rightarrow> bytes" where
  "tag_bytes wt n = varint_bytes (ucast (push_bit 3 n OR WireType_to_uint32 wt))"

lemma valid_field_number_sint: "sint n \<le> 0 \<or> 2 ^ 29 \<le> sint n \<longleftrightarrow> \<not> valid_field_number n"
proof -
  have b: "uint n < 2 ^ 32" "0 \<le> uint n" using unsigned_less [of n, where 'a = int] by simp_all
  have v: "valid_field_number n \<longleftrightarrow> 0 < uint n \<and> uint n < 2 ^ 29"
    by (simp add: valid_field_number_def word_less_def)
  show ?thesis
  proof (cases "uint n < 2 ^ 31")
    case True
    have "- (2 ^ 31) \<le> uint n" by (rule order_trans [OF _ b(2)]) simp
    with True have "sint n = uint n" by (simp add: sint_uint) (rule signed_take_bit_int_eq_self, simp_all)
    with v b(2) show ?thesis by linarith
  next
    case False
    with b have "uint n div 2 ^ 31 = 1" 
      by (intro int_div_pos_eq [where r = "uint n - 2 ^ 31"]) simp_all
    then have "bit (uint n) 31" by (simp add: bit_iff_odd)
    then have "bit n 31" by (simp add: bit_uint_iff)
    then have "sint n < 0" using bit_last_iff [of n] by simp
    with v False show ?thesis by auto
  qed
qed

lemma known_wire_type_small: "known_wire_type wt \<Longrightarrow> take_bit 3 (WireType_to_uint32 wt) = WireType_to_uint32 wt"
  by (cases wt) (simp_all add: known_wire_type_def take_bit_eq_mod)

lemma valid_field_number_small: "valid_field_number n \<Longrightarrow> take_bit 29 n = n"
  by (simp add: valid_field_number_def take_bit_eq_mod word_less_nat_alt word_arith_nat_defs(7))

lemma tag_word_parts:
  assumes "valid_field_number n" and "known_wire_type wt"
  defines "t \<equiv> push_bit 3 n OR WireType_to_uint32 wt"
  shows "drop_bit 3 t = n" and "t AND 7 = WireType_to_uint32 wt"
proof -
  define w where "w = WireType_to_uint32 wt"
  have w: "w = take_bit 3 w" using known_wire_type_small [OF assms(2)] by (simp add: w_def)
  have n: "n = take_bit 29 n" using valid_field_number_small [OF assms(1)] by simp
  have t: "t = push_bit 3 (take_bit 29 n) OR take_bit 3 w" using w n by (simp add: t_def w_def)
  have "drop_bit 3 t = take_bit 29 n" unfolding t by (rule bit_word_eqI) (auto simp: bit_simps)
  then show "drop_bit 3 t = n" using n by simp
  have "t AND mask 3 = take_bit 3 w" unfolding t by (rule bit_word_eqI) (auto simp: bit_simps)
  then show "t AND 7 = WireType_to_uint32 wt" using w by (simp add: mask_eq_exp_minus_1 w_def)
qed

lemma ConsumeIntoWireTypeAndFieldNumber_tag_bytes:
  assumes "valid_field_number n" and "known_wire_type wt" and "remaining_view st = tag_bytes wt n @ rest"
  shows "\<exists>st'. ConsumeIntoWireTypeAndFieldNumber C st = Some (wt, n, st') \<and> remaining_view st' = rest"
proof -
  from ConsumeVarintForTag_varint_bytes [OF assms(3) [unfolded tag_bytes_def]] obtain st'
    where "ConsumeVarintForTag C st = Some (push_bit 3 n OR WireType_to_uint32 wt, st')"
      and "remaining_view st' = rest" by blast
  moreover have "WireType_of_uint32 (WireType_to_uint32 wt) = wt"
    using assms(2) by (simp add: WireType_roundtrip known_wire_type_def split: WireType.split)
  moreover have "n \<noteq> 0" using assms(1) by (auto simp: valid_field_number_def)
  ultimately show ?thesis
    by (simp add: ConsumeIntoWireTypeAndFieldNumber_def tag_word_parts [OF assms(1,2)] Let_def
        del: drop_bit_or)
qed

lemma tag_bytes_length:
  assumes "valid_field_number n" and "known_wire_type wt"
  shows "length (tag_bytes wt n) = WireTypeAndFieldNumberLength wt n"
proof -
  let ?t = "push_bit 3 n OR WireType_to_uint32 wt"
  have "unat (drop_bit 3 ?t) = unat ?t div 2 ^ 3" by (simp add: drop_bit_eq_div unat_div)
  then have "bit_width_nat (unat n) = bit_width_nat (unat ?t) - 3"
    using tag_word_parts(1) [OF assms] bit_width_nat_div [of "unat ?t" 3] by simp
  moreover have "0 < unat n" using assms(1) by (simp add: valid_field_number_def word_less_nat_alt)
  ultimately have "bit_width_nat (unat ?t) = bit_width_nat (unat n) + 3" "0 < bit_width_nat (unat n)"
    by (auto simp: bit_width_nat_pos)
  moreover have "unat (ucast ?t :: u64) = unat ?t"
    using unsigned_less [of ?t, where 'a = nat] by (simp add: unsigned_ucast_eq take_bit_nat_eq_self)
  ultimately show ?thesis
    by (simp add: tag_bytes_def varint_bytes_length VarintLength_def WireTypeAndFieldNumberLength_def
        bit_width_def Let_def)
qed

section \<open>What the serializers do to the serialization state\<close>

text \<open>
  \<open>emits C ok out bs out'\<close>: exactly the bytes \<open>bs\<close> were written to the front of the span and the
  span was advanced over them. If the CRC laws hold and \<open>ok\<close> (the CRCs that callers passed in were
  right), a maintained CRC stays the CRC of everything written.
\<close>

definition emits :: "crc_fns \<Rightarrow> bool \<Rightarrow> SerializationState \<Rightarrow> bytes \<Rightarrow> SerializationState \<Rightarrow> bool" where
  "emits C ok out bs out' \<longleftrightarrow>
     length bs \<le> length (output_buffer out) \<and>
     written out' = written out @ bs \<and>
     output_buffer out' = drop (length bs) (output_buffer out) \<and>
     (out_crc out = None \<longrightarrow> out_crc out' = None) \<and>
     (crc_laws C \<and> ok \<longrightarrow>
        (\<forall>x. out_crc out = Some (ComputeCrc32c C x) \<longrightarrow> out_crc out' = Some (ComputeCrc32c C (x @ bs))))"

lemma emits_refl: "emits C ok out [] out"
  by (simp add: emits_def)

lemma emits_trans:
  "emits C ok1 out bs out1 \<Longrightarrow> emits C ok2 out1 cs out2 \<Longrightarrow> emits C (ok1 \<and> ok2) out (bs @ cs) out2"
  by (auto simp: emits_def add.commute)

lemma emits_weaken: "emits C ok out bs out' \<Longrightarrow> (ok' \<longrightarrow> ok) \<Longrightarrow> emits C ok' out bs out'"
  by (auto simp: emits_def)

lemma emits_buffer: "emits C ok out bs out' \<Longrightarrow> output_buffer out' = drop (length bs) (output_buffer out)"
  by (simp add: emits_def)

lemma AdvanceOut_emits:
  assumes "length bs \<le> length (output_buffer out)"
    and "buf = bs @ drop (length bs) (output_buffer out)"
  shows "emits C ok out bs (AdvanceOut C (length bs) (out\<lparr>output_buffer := buf\<rparr>))"
  using assms by (auto simp: emits_def AdvanceOut_def AdvanceWithCrc_def crc_laws_concat split: option.split)

lemma AdvanceWithCrc_emits:
  assumes "length bs \<le> length (output_buffer out)"
  shows "emits C (crc = ComputeCrc32c C bs) out bs (AdvanceWithCrc C (length bs) crc (CopyToBuffer bs out))"
  using assms by (auto simp: emits_def CopyToBuffer_def AdvanceWithCrc_def crc_laws_concat split: option.split)

lemma CopyToBuffer_emits:
  assumes "length bs \<le> length (output_buffer out)"
  shows "emits C ok out bs (AdvanceOut C (length bs) (CopyToBuffer bs out))"
  using AdvanceOut_emits [OF assms refl] by (simp add: CopyToBuffer_def)

lemma SerializeVarint_emits:
  assumes "VarintLength v \<le> length (output_buffer out)"
  shows "\<exists>out'. SerializeVarint C v out = Some out' \<and> emits C ok out (varint_bytes v) out'"
proof -
  from assms have "SerializeVarint C v out =
      Some (AdvanceOut C (length (varint_bytes v))
        (out\<lparr>output_buffer := varint_bytes v @ drop (length (varint_bytes v)) (output_buffer out)\<rparr>))"
    by (simp add: SerializeVarint_def Let_def varint_write_eq varint_bytes_length)
  moreover have "emits C ok out (varint_bytes v) (AdvanceOut C (length (varint_bytes v))
        (out\<lparr>output_buffer := varint_bytes v @ drop (length (varint_bytes v)) (output_buffer out)\<rparr>))"
    by (rule AdvanceOut_emits) (use assms in \<open>simp_all add: varint_bytes_length\<close>)
  ultimately show ?thesis by blast
qed

lemma SerializeVarint_too_small:
  "length (output_buffer out) < VarintLength v \<Longrightarrow> SerializeVarint C v out = None"
  by (simp add: SerializeVarint_def Let_def)

lemma SerializeWireTypeAndFieldNumber_emits:
  assumes "valid_field_number n" and "known_wire_type wt"
    and "WireTypeAndFieldNumberLength wt n \<le> length (output_buffer out)"
  shows "\<exists>out'. SerializeWireTypeAndFieldNumber C wt n out = Some out' \<and> emits C ok out (tag_bytes wt n) out'"
proof -
  have "VarintLength (ucast (push_bit 3 n OR WireType_to_uint32 wt)) \<le> length (output_buffer out)"
    using assms(3) tag_bytes_length [OF assms(1,2)] by (simp add: tag_bytes_def varint_bytes_length)
  from SerializeVarint_emits [OF this, of C ok] show ?thesis
    using assms(1) valid_field_number_sint [of n]
    by (simp add: SerializeWireTypeAndFieldNumber_def tag_bytes_def Let_def)
qed

lemma SerializeWireTypeAndFieldNumber_invalid:
  "\<not> valid_field_number n \<Longrightarrow> SerializeWireTypeAndFieldNumber C wt n out = None"
  using valid_field_number_sint [of n] by (simp add: SerializeWireTypeAndFieldNumber_def)

section \<open>Skipping unknown groups\<close>

text \<open>
  The fields a group may contain, with the bytes they are encoded as, and how deep groups nest.
\<close>

datatype item =
    VarintItem u32 u64
  | Fixed64Item u32 bytes
  | BytesItem u32 bytes
  | Fixed32Item u32 bytes
  | GroupItem u32 "item list"

fun item_bytes :: "item \<Rightarrow> bytes" where
  "item_bytes (VarintItem n v) = tag_bytes kVarint n @ varint_bytes v"
| "item_bytes (Fixed64Item n bs) = tag_bytes kFixed64 n @ bs"
| "item_bytes (BytesItem n bs) = tag_bytes kLengthDelimited n @ varint_bytes (word_of_nat (length bs)) @ bs"
| "item_bytes (Fixed32Item n bs) = tag_bytes kFixed32 n @ bs"
| "item_bytes (GroupItem n items) =
     tag_bytes kStartGroup n @ concat (map item_bytes items) @ tag_bytes kEndGroup n"

fun item_ok :: "item \<Rightarrow> bool" where
  "item_ok (VarintItem n v) \<longleftrightarrow> valid_field_number n"
| "item_ok (Fixed64Item n bs) \<longleftrightarrow> valid_field_number n \<and> length bs = 8"
| "item_ok (BytesItem n bs) \<longleftrightarrow> valid_field_number n \<and> length bs < 2 ^ 32"
| "item_ok (Fixed32Item n bs) \<longleftrightarrow> valid_field_number n \<and> length bs = 4"
| "item_ok (GroupItem n items) \<longleftrightarrow> valid_field_number n \<and> list_all item_ok items"

fun item_depth :: "item \<Rightarrow> nat" where
  "item_depth (GroupItem n items) = Suc (foldr max (map item_depth items) 0)"
| "item_depth _ = 0"

definition items_depth :: "item list \<Rightarrow> nat" where
  "items_depth items = foldr max (map item_depth items) 0"

lemma items_depth_simps [simp]:
  "items_depth [] = 0" "items_depth (x # xs) = max (item_depth x) (items_depth xs)"
  by (simp_all add: items_depth_def)

lemma item_depth_group [simp]: "item_depth (GroupItem n items) = Suc (items_depth items)"
  by (simp add: items_depth_def)

declare item_depth.simps(1) [simp del]

text \<open>On a stack of open groups, the loop passes over an item, unless the item nests too deeply.\<close>

definition skips :: "crc_fns \<Rightarrow> u32 list \<Rightarrow> nat \<Rightarrow> bytes \<Rightarrow> bool" where
  "skips C stack depth bs \<longleftrightarrow>
     (\<forall>st rest. remaining_view st = bs @ rest \<longrightarrow>
        (if length stack + depth \<le> kSkipGroupLimit
         then \<exists>st'. SkipGroup_loop C stack st = SkipGroup_loop C stack st' \<and> remaining_view st' = rest
         else SkipGroup_loop C stack st = None))"

lemma SkipGroup_loop_step:
  "stack \<noteq> [] \<Longrightarrow> SkipGroup_loop C stack st =
     (case SkipGroup_step C stack st of None \<Rightarrow> None | Some (stack', st') \<Rightarrow> SkipGroup_loop C stack' st')"
  by (subst SkipGroup_loop.simps) simp

lemma tag_read:
  assumes "valid_field_number n" and "known_wire_type wt" and "remaining_view st = tag_bytes wt n @ rest"
  obtains st' where "ConsumeIntoWireTypeAndFieldNumber C st = Some (wt, n, st')" "remaining_view st' = rest"
  using ConsumeIntoWireTypeAndFieldNumber_tag_bytes [OF assms] by blast

lemma skips_plain:
  assumes "stack \<noteq> []" and "length stack \<le> kSkipGroupLimit" and "valid_field_number n" and "known_wire_type wt"
    and "wt \<noteq> kStartGroup" and "wt \<noteq> kEndGroup"
    and "\<And>st rest. remaining_view st = body @ rest \<Longrightarrow> \<exists>st'. SkipField C wt st = Some st' \<and> remaining_view st' = rest"
  shows "skips C stack 0 (tag_bytes wt n @ body)"
  unfolding skips_def
proof (intro allI impI)
  fix st :: ParsingState and rest
  assume "remaining_view st = (tag_bytes wt n @ body) @ rest"
  then have "remaining_view st = tag_bytes wt n @ body @ rest" by simp
  from tag_read [OF assms(3,4) this, of C] obtain st1
    where t: "ConsumeIntoWireTypeAndFieldNumber C st = Some (wt, n, st1)" and r: "remaining_view st1 = body @ rest" .
  from assms(7) [OF r] obtain st2 where "SkipField C wt st1 = Some st2" "remaining_view st2 = rest" by blast
  then have "SkipGroup_loop C stack st = SkipGroup_loop C stack st2"
    using SkipGroup_loop_step [OF assms(1), of C st] t assms(5,6) by (simp add: SkipGroup_step_def)
  with \<open>remaining_view st2 = rest\<close> assms(2)
  show "if length stack + 0 \<le> kSkipGroupLimit
     then \<exists>st'. SkipGroup_loop C stack st = SkipGroup_loop C stack st' \<and> remaining_view st' = rest
     else SkipGroup_loop C stack st = None" by auto
qed

lemma skips_append:
  assumes "skips C stack d bs" and "skips C stack e cs"
  shows "skips C stack (max d e) (bs @ cs)"
  unfolding skips_def
proof (intro allI impI)
  fix st :: ParsingState and rest
  assume "remaining_view st = (bs @ cs) @ rest"
  then have 1: "if length stack + d \<le> kSkipGroupLimit
      then \<exists>st'. SkipGroup_loop C stack st = SkipGroup_loop C stack st' \<and> remaining_view st' = cs @ rest
      else SkipGroup_loop C stack st = None"
    using assms(1) by (simp add: skips_def)
  have 2: "if length stack + e \<le> kSkipGroupLimit
      then \<exists>st''. SkipGroup_loop C stack st' = SkipGroup_loop C stack st'' \<and> remaining_view st'' = rest
      else SkipGroup_loop C stack st' = None" if "remaining_view st' = cs @ rest" for st'
    using assms(2) that by (simp add: skips_def)
  show "if length stack + max d e \<le> kSkipGroupLimit
      then \<exists>st'. SkipGroup_loop C stack st = SkipGroup_loop C stack st' \<and> remaining_view st' = rest
      else SkipGroup_loop C stack st = None"
    using 1 2 by (auto split: if_splits)
qed

lemma group_body_skips:
  assumes "length stack < kSkipGroupLimit" and "valid_field_number n" and "stack \<noteq> []"
    and "skips C (n # stack) d bs"
  shows "skips C stack (Suc d) (tag_bytes kStartGroup n @ bs @ tag_bytes kEndGroup n)"
  unfolding skips_def
proof (intro allI impI)
  fix st :: ParsingState and rest
  assume "remaining_view st = (tag_bytes kStartGroup n @ bs @ tag_bytes kEndGroup n) @ rest"
  then have "remaining_view st = tag_bytes kStartGroup n @ bs @ tag_bytes kEndGroup n @ rest" by simp
  from tag_read [OF assms(2) _ this, of C] obtain st1
    where t: "ConsumeIntoWireTypeAndFieldNumber C st = Some (kStartGroup, n, st1)"
      and r: "remaining_view st1 = bs @ tag_bytes kEndGroup n @ rest" by (auto simp: known_wire_type_def)
  have "SkipGroup_loop C stack st = SkipGroup_loop C (n # stack) st1"
    using SkipGroup_loop_step [OF assms(3), of C st] t assms(1) by (simp add: SkipGroup_step_def)
  moreover have "SkipGroup_loop C (n # stack) st1 = None" if "\<not> length stack + Suc d \<le> kSkipGroupLimit"
    using assms(4) r that by (simp add: skips_def)
  moreover have "\<exists>st'. SkipGroup_loop C (n # stack) st1 = SkipGroup_loop C stack st' \<and> remaining_view st' = rest"
    if "length stack + Suc d \<le> kSkipGroupLimit"
  proof -
    from assms(4) r that obtain st2 where 2: "SkipGroup_loop C (n # stack) st1 = SkipGroup_loop C (n # stack) st2"
      "remaining_view st2 = tag_bytes kEndGroup n @ rest" by (auto simp: skips_def)
    from tag_read [OF assms(2) _ 2(2), of C] obtain st3
      where "ConsumeIntoWireTypeAndFieldNumber C st2 = Some (kEndGroup, n, st3)" "remaining_view st3 = rest"
      by (auto simp: known_wire_type_def)
    with 2 SkipGroup_loop_step [of "n # stack" C st2] show ?thesis by (auto simp: SkipGroup_step_def)
  qed
  ultimately show "if length stack + Suc d \<le> kSkipGroupLimit
     then \<exists>st'. SkipGroup_loop C stack st = SkipGroup_loop C stack st' \<and> remaining_view st' = rest
     else SkipGroup_loop C stack st = None" by auto
qed

lemma group_too_deep:
  assumes "length stack = kSkipGroupLimit" and "valid_field_number n" and "stack \<noteq> []"
  shows "skips C stack (Suc d) (tag_bytes kStartGroup n @ bs)"
  unfolding skips_def
proof (intro allI impI)
  fix st :: ParsingState and rest
  assume "remaining_view st = (tag_bytes kStartGroup n @ bs) @ rest"
  then have "remaining_view st = tag_bytes kStartGroup n @ bs @ rest" by simp
  from tag_read [OF assms(2) _ this, of C] obtain st1
    where t: "ConsumeIntoWireTypeAndFieldNumber C st = Some (kStartGroup, n, st1)" by (auto simp: known_wire_type_def)
  then have "SkipGroup_loop C stack st = None"
    using SkipGroup_loop_step [OF assms(3), of C st] assms(1) by (simp add: SkipGroup_step_def)
  then show "if length stack + Suc d \<le> kSkipGroupLimit
     then \<exists>st'. SkipGroup_loop C stack st = SkipGroup_loop C stack st' \<and> remaining_view st' = rest
     else SkipGroup_loop C stack st = None" using assms(1) by simp
qed

lemma item_skips:
  "item_ok x \<Longrightarrow> stack \<noteq> [] \<Longrightarrow> length stack \<le> kSkipGroupLimit \<Longrightarrow> skips C stack (item_depth x) (item_bytes x)"
proof (induction x arbitrary: stack)
  case (VarintItem n v)
  have "\<exists>st'. SkipField C kVarint st = Some st' \<and> remaining_view st' = rest"
    if "remaining_view st = varint_bytes v @ rest" for st rest
    using ConsumeVarintIntoUint64_varint_bytes [OF that, of C] by (auto simp: SkipField_def)
  with VarintItem show ?case by (auto intro!: skips_plain simp: known_wire_type_def)
next
  case (Fixed64Item n bs)
  then show ?case by (auto intro!: skips_plain simp: known_wire_type_def SkipField_def ConsumeFixed64_def)
next
  case (BytesItem n bs)
  have "\<exists>st'. SkipField C kLengthDelimited st = Some st' \<and> remaining_view st' = rest"
    if "remaining_view st = (varint_bytes (word_of_nat (length bs)) @ bs) @ rest" for st rest
    using ConsumeVarintForSize_varint_bytes [of "length bs" st "bs @ rest" C] that BytesItem.prems(1)
    by (auto simp: SkipField_def ConsumeBytesReturnStringView_def unsigned_of_nat take_bit_nat_eq_self)
  with BytesItem show ?case by (auto intro!: skips_plain simp: known_wire_type_def)
next
  case (Fixed32Item n bs)
  then show ?case by (auto intro!: skips_plain simp: known_wire_type_def SkipField_def ConsumeFixed32_def)
next
  case (GroupItem n items)
  then have n: "valid_field_number n" and ok: "\<And>x. x \<in> set items \<Longrightarrow> item_ok x" by (auto simp: list_all_iff)
  show ?case
  proof (cases "length stack < kSkipGroupLimit")
    case True
    have "skips C (n # stack) (items_depth xs) (concat (map item_bytes xs))" if "set xs \<subseteq> set items" for xs
      using that
    proof (induction xs)
      case Nil
      with True show ?case by (auto simp: skips_def)
    next
      case (Cons x xs)
      have "skips C (n # stack) (item_depth x) (item_bytes x)"
        by (rule GroupItem.IH) (use Cons.prems ok True in auto)
      moreover have "skips C (n # stack) (items_depth xs) (concat (map item_bytes xs))"
        using Cons by auto
      ultimately show ?case by (simp add: skips_append)
    qed
    with group_body_skips [OF True n GroupItem.prems(2)] show ?thesis by simp
  next
    case False
    with GroupItem.prems group_too_deep [OF _ n] show ?thesis by simp
  qed
qed

lemma items_skip:
  assumes "list_all item_ok items" and "stack \<noteq> []" and "length stack \<le> kSkipGroupLimit"
  shows "skips C stack (items_depth items) (concat (map item_bytes items))"
  using assms
proof (induction items)
  case Nil
  then show ?case by (auto simp: skips_def)
next
  case (Cons x xs)
  then show ?case using skips_append [OF item_skips [of x stack C] Cons.IH] by simp
qed


subsection \<open>The properties of the wire format\<close>

text \<open>A CRC with the laws, for the witnesses: the sum of the bytes.\<close>

definition sum_crc :: crc_fns where
  "sum_crc = \<lparr>ComputeCrc32c = (\<lambda>bs. sum_list (map ucast bs)), ConcatCrc32c = (\<lambda>a b n. a + b)\<rparr>"

lemma sum_crc_laws: "crc_laws sum_crc"
  by (simp add: crc_laws_def sum_crc_def)

lemma state_with_view: "remaining_view st = r \<Longrightarrow> \<exists>crc. st = \<lparr>remaining_view = r, crc_to_update = crc\<rparr>"
  by (cases st) auto

text \<open>
  Varints: \<^verbatim>\<open>SerializeVarint\<close> succeeds exactly when \<^verbatim>\<open>VarintLength\<close> bytes are left in the span; it
  then writes that many bytes, one to ten, and \<^verbatim>\<open>ConsumeVarintIntoUint64\<close> reads the value back from
  them and stops right behind them.
\<close>

theorem varint_roundtrip:
  "(case SerializeVarint C v out of
      None \<Rightarrow> length (output_buffer out) < VarintLength v
    | Some out' \<Rightarrow>
        \<exists>bs. written out' = written out @ bs \<and> output_buffer out' = drop (length bs) (output_buffer out) \<and>
          length bs = VarintLength v \<and> 1 \<le> length bs \<and> length bs \<le> kMax64BitVarintLength \<and>
          (\<forall>rest crc. \<exists>crc'. ConsumeVarintIntoUint64 C \<lparr>remaining_view = bs @ rest, crc_to_update = crc\<rparr> =
             Some (v, \<lparr>remaining_view = rest, crc_to_update = crc'\<rparr>)))"
proof (cases "VarintLength v \<le> length (output_buffer out)")
  case True
  from SerializeVarint_emits [OF True, of C True] obtain out'
    where s: "SerializeVarint C v out = Some out'" and e: "emits C True out (varint_bytes v) out'" by blast
  have "\<exists>crc'. ConsumeVarintIntoUint64 C \<lparr>remaining_view = varint_bytes v @ rest, crc_to_update = crc\<rparr> =
      Some (v, \<lparr>remaining_view = rest, crc_to_update = crc'\<rparr>)" for rest crc
    using ConsumeVarintIntoUint64_varint_bytes [of "\<lparr>remaining_view = varint_bytes v @ rest, crc_to_update = crc\<rparr>" v rest C]
    by (auto intro: state_with_view [OF refl])
  moreover have "1 \<le> VarintLength v" "VarintLength v \<le> kMax64BitVarintLength"
    using VarintLength_pos [of v] VarintLength_uint64 [of v] by (simp_all add: kMax64BitVarintLength_def)
  ultimately show ?thesis using s e
    by (auto simp: emits_def varint_bytes_length intro!: exI [of _ "varint_bytes v"])
next
  case False
  then show ?thesis by (simp add: SerializeVarint_too_small)
qed

text \<open>
  Tags: \<^verbatim>\<open>SerializeWireTypeAndFieldNumber\<close> fails exactly for field numbers outside 1 to
  \<open>2\<^sup>2\<^sup>9 - 1\<close> and for too small a span. Otherwise it writes as many bytes as
  \<^verbatim>\<open>WireTypeAndFieldNumberLength\<close> announces, and \<^verbatim>\<open>ConsumeIntoWireTypeAndFieldNumber\<close> reads wire type
  and field number back from them.
\<close>

theorem tag_roundtrip:
  assumes "known_wire_type wt"
  shows "case SerializeWireTypeAndFieldNumber C wt n out of
      None \<Rightarrow> \<not> (0 < n \<and> n < 2 ^ 29) \<or> length (output_buffer out) < WireTypeAndFieldNumberLength wt n
    | Some out' \<Rightarrow>
        \<exists>bs. written out' = written out @ bs \<and> output_buffer out' = drop (length bs) (output_buffer out) \<and>
          length bs = WireTypeAndFieldNumberLength wt n \<and>
          (\<forall>rest crc. \<exists>crc'. ConsumeIntoWireTypeAndFieldNumber C \<lparr>remaining_view = bs @ rest, crc_to_update = crc\<rparr> =
             Some (wt, n, \<lparr>remaining_view = rest, crc_to_update = crc'\<rparr>))"
proof (cases "valid_field_number n \<and> WireTypeAndFieldNumberLength wt n \<le> length (output_buffer out)")
  case True
  then have n: "valid_field_number n" and len: "WireTypeAndFieldNumberLength wt n \<le> length (output_buffer out)" by simp_all
  from SerializeWireTypeAndFieldNumber_emits [OF n assms len, of C True] obtain out'
    where s: "SerializeWireTypeAndFieldNumber C wt n out = Some out'" and e: "emits C True out (tag_bytes wt n) out'" by blast
  have "\<exists>crc'. ConsumeIntoWireTypeAndFieldNumber C \<lparr>remaining_view = tag_bytes wt n @ rest, crc_to_update = crc\<rparr> =
      Some (wt, n, \<lparr>remaining_view = rest, crc_to_update = crc'\<rparr>)" for rest crc
    using ConsumeIntoWireTypeAndFieldNumber_tag_bytes [OF n assms, of "\<lparr>remaining_view = tag_bytes wt n @ rest, crc_to_update = crc\<rparr>" rest C]
    by (auto intro: state_with_view [OF refl])
  with s e tag_bytes_length [OF n assms] show ?thesis
    by (auto simp: emits_def intro!: exI [of _ "tag_bytes wt n"])
next
  case False
  then show ?thesis
  proof (cases "valid_field_number n")
    case True
    with False have "length (output_buffer out) < VarintLength (ucast (push_bit 3 n OR WireType_to_uint32 wt))"
      using tag_bytes_length [OF True assms] by (simp add: tag_bytes_def varint_bytes_length)
    then have "SerializeWireTypeAndFieldNumber C wt n out = None"
      by (simp add: SerializeWireTypeAndFieldNumber_def SerializeVarint_too_small)
    with True False show ?thesis by simp
  qed (simp add: SerializeWireTypeAndFieldNumber_invalid valid_field_number_def)
qed

theorem tag_roundtrip_witness:
  "case SerializeWireTypeAndFieldNumber sum_crc kVarint 5 \<lparr>written = [], output_buffer = [0, 0], out_crc = None\<rparr> of
     None \<Rightarrow> \<not> (0 < (5::u32) \<and> (5::u32) < 2 ^ 29) \<or> length [0, 0::byte] < WireTypeAndFieldNumberLength kVarint 5
   | Some out' \<Rightarrow>
       \<exists>bs. written out' = bs \<and> output_buffer out' = drop (length bs) [0, 0] \<and>
         length bs = WireTypeAndFieldNumberLength kVarint 5"
  using tag_roundtrip [where wt = kVarint and C = sum_crc and n = 5 and
      out = "\<lparr>written = [], output_buffer = [0, 0], out_crc = None\<rparr>"]
  by (simp add: known_wire_type_def split: option.split) auto

text \<open>
  (C5) Unknown groups: behind the start tag of group \<open>n\<close>, on any sequence of well-formed fields closed
  by the end tag of \<open>n\<close>, \<^verbatim>\<open>SkipGroup\<close> stops right behind that end tag if the groups in the sequence nest
  less than 100 deep, and otherwise fails: the depth limit is enforced exactly.
\<close>

theorem SkipGroup_correct:
  assumes "valid_field_number n" and "list_all item_ok items"
    and "remaining_view st = concat (map item_bytes items) @ tag_bytes kEndGroup n @ rest"
  shows "if items_depth items < kSkipGroupLimit
     then \<exists>st'. SkipGroup C n st = Some st' \<and> remaining_view st' = rest
     else SkipGroup C n st = None"
proof -
  have "skips C [n] (items_depth items) (concat (map item_bytes items))"
    by (rule items_skip [OF assms(2)]) (simp_all add: kSkipGroupLimit_def)
  with assms(3) have s: "if items_depth items < kSkipGroupLimit
      then \<exists>st'. SkipGroup_loop C [n] st = SkipGroup_loop C [n] st' \<and> remaining_view st' = tag_bytes kEndGroup n @ rest
      else SkipGroup_loop C [n] st = None" by (auto simp: skips_def)
  have "\<exists>st''. SkipGroup_loop C [n] st' = Some st'' \<and> remaining_view st'' = rest"
    if r: "remaining_view st' = tag_bytes kEndGroup n @ rest" for st'
  proof -
    from tag_read [OF assms(1) _ r, of C] obtain st''
      where "ConsumeIntoWireTypeAndFieldNumber C st' = Some (kEndGroup, n, st'')" "remaining_view st'' = rest"
      by (auto simp: known_wire_type_def)
    then show ?thesis using SkipGroup_loop_step [of "[n]" C st']
      by (simp add: SkipGroup_step_def SkipGroup_loop.simps [of C "[]"])
  qed
  with s show ?thesis by (auto simp: SkipGroup_def split: if_splits)
qed

theorem SkipGroup_correct_witness:
  "\<exists>st'. SkipGroup sum_crc 3 \<lparr>remaining_view = item_bytes (GroupItem 4 [VarintItem 1 9]) @ tag_bytes kEndGroup 3 @ [1, 2],
      crc_to_update = None\<rparr> = Some st' \<and> remaining_view st' = [1, 2]"
  using SkipGroup_correct [of 3 "[GroupItem 4 [VarintItem 1 9]]"
      "\<lparr>remaining_view = item_bytes (GroupItem 4 [VarintItem 1 9]) @ tag_bytes kEndGroup 3 @ [1, 2], crc_to_update = None\<rparr>"
      "[1, 2]" sum_crc]
  by (simp add: valid_field_number_def kSkipGroupLimit_def)

end
