(* ===== verification/Proto_Message.thy ===== *)
theory Proto_Message
  imports Proto_Wire
begin

unbundle bit_operations_syntax

text \<open>
  Fields and messages of the proto parser: \<^verbatim>\<open>tink/internal/proto_parser_*_field*\<close> and
  \<^verbatim>\<open>tink/internal/proto_parser_message.{h,cc}\<close>, with the \<^verbatim>\<open>SecretData\<close> they store.

  A message is the list of its fields, in the order \<^verbatim>\<open>Message::field(i)\<close> gives them. The field
  classes are the constructors of one datatype; the virtual methods dispatch on it. A message
  field also carries the default-constructed message of its type, which is what \<^verbatim>\<open>emplace()\<close>
  constructs. \<^verbatim>\<open>std::optional\<close> is \<^typ>\<open>'a option\<close>. Dereferencing an empty optional is undefined
  behaviour and modelled by \<^const>\<open>the\<close>; the invariant \<open>field_ok\<close> shows that it never happens.
\<close>

section \<open>Definitions\<close>

subsection \<open>SecretData (tink/util/secret\_data\_internal\_class.h)\<close>

text \<open>The buffer and the CRC stored behind it; an empty buffer has no room for a CRC.\<close>

record SecretData =
  sd_buffer :: bytes
  sd_crc :: u32

definition SecretData_default :: SecretData where
  "SecretData_default = \<lparr>sd_buffer = [], sd_crc = 0\<rparr>"

definition SecretData_of_view_and_crc :: "bytes \<Rightarrow> u32 \<Rightarrow> SecretData" where
  "SecretData_of_view_and_crc view crc32c =
     \<lparr>sd_buffer = view, sd_crc = (if view = [] then 0 else crc32c)\<rparr>"

definition SecretDataFromStringView :: "crc_fns \<Rightarrow> bytes \<Rightarrow> SecretData" where
  "SecretDataFromStringView C view =
     \<lparr>sd_buffer = view, sd_crc = (if view = [] then 0 else ComputeCrc32c C view)\<rparr>"

definition GetCrc32c :: "SecretData \<Rightarrow> u32" where
  "GetCrc32c s = (if sd_buffer s = [] then 0 else sd_crc s)"

definition ValidateCrc32c :: "crc_fns \<Rightarrow> SecretData \<Rightarrow> Status" where
  "ValidateCrc32c C s =
     (if ComputeCrc32c C (sd_buffer s) \<noteq> GetCrc32c s then Inl kDataLoss else OkStatus)"

definition SecretDataEquals :: "SecretData \<Rightarrow> SecretData \<Rightarrow> bool" where
  "SecretDataEquals lhs rhs \<longleftrightarrow>
     length (sd_buffer lhs) = length (sd_buffer rhs) \<and> sd_buffer lhs = sd_buffer rhs"

subsection \<open>Fields\<close>

datatype ProtoFieldOptions = kImplicit | kExplicit | kAlwaysPresent

datatype field =
    Uint32Field u32 ProtoFieldOptions "u32 option"
  | Uint64Field u32 ProtoFieldOptions "u64 option"
  | BytesField u32 ProtoFieldOptions "bytes option"
  | EnumField u32 "u32 \<Rightarrow> bool" u32 ProtoFieldOptions "u32 option"
  | SecretDataField u32 ProtoFieldOptions "SecretData option"
  | RepeatedSecretDataField u32 "SecretData list"
  | MessageField u32 ProtoFieldOptions "field list" "field list option"
  | RepeatedMessageField u32 "field list" "field list list"

type_synonym message = "field list"

fun FieldNumber :: "field \<Rightarrow> u32" where
  "FieldNumber (Uint32Field n _ _) = n"
| "FieldNumber (Uint64Field n _ _) = n"
| "FieldNumber (BytesField n _ _) = n"
| "FieldNumber (EnumField n _ _ _ _) = n"
| "FieldNumber (SecretDataField n _ _) = n"
| "FieldNumber (RepeatedSecretDataField n _) = n"
| "FieldNumber (MessageField n _ _ _) = n"
| "FieldNumber (RepeatedMessageField n _ _) = n"

text \<open>The wire type each constructor passes to \<^verbatim>\<open>Field\<close>.\<close>

fun GetWireType :: "field \<Rightarrow> WireType" where
  "GetWireType (Uint32Field _ _ _) = kVarint"
| "GetWireType (Uint64Field _ _ _) = kVarint"
| "GetWireType (EnumField _ _ _ _ _) = kVarint"
| "GetWireType _ = kLengthDelimited"

definition value_or :: "'a \<Rightarrow> 'a option \<Rightarrow> 'a" where
  "value_or d v = (case v of None \<Rightarrow> d | Some x \<Rightarrow> x)"

subsubsection \<open>Uint32Field\<close>

definition Uint32Field_RequiresSerialization :: "ProtoFieldOptions \<Rightarrow> u32 option \<Rightarrow> bool" where
  "Uint32Field_RequiresSerialization options v =
     (case options of
        kExplicit \<Rightarrow> v \<noteq> None
      | kAlwaysPresent \<Rightarrow> True
      | kImplicit \<Rightarrow> value_or 0 v \<noteq> 0)"

definition Uint32Field_Clear :: "ProtoFieldOptions \<Rightarrow> u32 option" where
  "Uint32Field_Clear options = (if options = kAlwaysPresent \<or> options = kImplicit then Some 0 else None)"

definition Uint32Field_ConsumeIntoMember ::
    "crc_fns \<Rightarrow> ParsingState \<Rightarrow> (u32 option \<times> ParsingState) option" where
  "Uint32Field_ConsumeIntoMember C serialized =
     (case ConsumeVarintIntoUint32 C serialized of
        None \<Rightarrow> None
      | Some (result, serialized') \<Rightarrow> Some (Some result, serialized'))"

definition Uint32Field_SerializeWithTagInto ::
    "crc_fns \<Rightarrow> u32 \<Rightarrow> ProtoFieldOptions \<Rightarrow> u32 option \<Rightarrow> SerializationState \<Rightarrow> SerializationState option" where
  "Uint32Field_SerializeWithTagInto C n options v out =
     (if \<not> Uint32Field_RequiresSerialization options v then Some out
      else case SerializeWireTypeAndFieldNumber C kVarint n out of
             None \<Rightarrow> None
           | Some out' \<Rightarrow> SerializeVarint C (ucast (the v)) out')"

definition Uint32Field_GetSerializedSizeIncludingTag :: "u32 \<Rightarrow> ProtoFieldOptions \<Rightarrow> u32 option \<Rightarrow> nat" where
  "Uint32Field_GetSerializedSizeIncludingTag n options v =
     (if \<not> Uint32Field_RequiresSerialization options v then 0
      else WireTypeAndFieldNumberLength kVarint n + VarintLength (ucast (the v)))"

subsubsection \<open>Uint64Field\<close>

definition Uint64Field_RequiresSerialization :: "ProtoFieldOptions \<Rightarrow> u64 option \<Rightarrow> bool" where
  "Uint64Field_RequiresSerialization options v =
     (case options of
        kExplicit \<Rightarrow> v \<noteq> None
      | kAlwaysPresent \<Rightarrow> True
      | kImplicit \<Rightarrow> value_or 0 v \<noteq> 0)"

definition Uint64Field_Clear :: "ProtoFieldOptions \<Rightarrow> u64 option" where
  "Uint64Field_Clear options = (if options = kAlwaysPresent \<or> options = kImplicit then Some 0 else None)"

definition Uint64Field_ConsumeIntoMember ::
    "crc_fns \<Rightarrow> ParsingState \<Rightarrow> (u64 option \<times> ParsingState) option" where
  "Uint64Field_ConsumeIntoMember C serialized =
     (case ConsumeVarintIntoUint64 C serialized of
        None \<Rightarrow> None
      | Some (result, serialized') \<Rightarrow> Some (Some result, serialized'))"

definition Uint64Field_SerializeWithTagInto ::
    "crc_fns \<Rightarrow> u32 \<Rightarrow> ProtoFieldOptions \<Rightarrow> u64 option \<Rightarrow> SerializationState \<Rightarrow> SerializationState option" where
  "Uint64Field_SerializeWithTagInto C n options v out =
     (if \<not> Uint64Field_RequiresSerialization options v then Some out
      else case SerializeWireTypeAndFieldNumber C kVarint n out of
             None \<Rightarrow> None
           | Some out' \<Rightarrow> SerializeVarint C (the v) out')"

definition Uint64Field_GetSerializedSizeIncludingTag :: "u32 \<Rightarrow> ProtoFieldOptions \<Rightarrow> u64 option \<Rightarrow> nat" where
  "Uint64Field_GetSerializedSizeIncludingTag n options v =
     (if \<not> Uint64Field_RequiresSerialization options v then 0
      else WireTypeAndFieldNumberLength kVarint n + VarintLength (the v))"

subsubsection \<open>BytesField\<close>

definition BytesField_RequiresSerialization :: "ProtoFieldOptions \<Rightarrow> bytes option \<Rightarrow> bool" where
  "BytesField_RequiresSerialization options v =
     (case options of
        kExplicit \<Rightarrow> v \<noteq> None
      | kAlwaysPresent \<Rightarrow> True
      | kImplicit \<Rightarrow> the v \<noteq> [])"

definition BytesField_Clear :: "ProtoFieldOptions \<Rightarrow> bytes option" where
  "BytesField_Clear options = (if options = kAlwaysPresent \<or> options = kImplicit then Some [] else None)"

definition BytesField_ConsumeIntoMember ::
    "crc_fns \<Rightarrow> ParsingState \<Rightarrow> (bytes option \<times> ParsingState) option" where
  "BytesField_ConsumeIntoMember C serialized =
     (case ConsumeBytesReturnStringView C serialized of
        None \<Rightarrow> None
      | Some (result, serialized') \<Rightarrow> Some (Some result, serialized'))"

definition BytesField_SerializeWithTagInto ::
    "crc_fns \<Rightarrow> u32 \<Rightarrow> ProtoFieldOptions \<Rightarrow> bytes option \<Rightarrow> SerializationState \<Rightarrow> SerializationState option" where
  "BytesField_SerializeWithTagInto C n options v out =
     (if \<not> BytesField_RequiresSerialization options v then Some out
      else case SerializeWireTypeAndFieldNumber C kLengthDelimited n out of
             None \<Rightarrow> None
           | Some out1 \<Rightarrow>
               let size = length (the v) in
               case SerializeVarint C (word_of_nat size) out1 of
                 None \<Rightarrow> None
               | Some out2 \<Rightarrow>
                   if length (output_buffer out2) < size then None
                   else Some (AdvanceOut C size (CopyToBuffer (the v) out2)))"

definition BytesField_GetSerializedSizeIncludingTag :: "u32 \<Rightarrow> ProtoFieldOptions \<Rightarrow> bytes option \<Rightarrow> nat" where
  "BytesField_GetSerializedSizeIncludingTag n options v =
     (if \<not> BytesField_RequiresSerialization options v then 0
      else let size = length (the v)
           in WireTypeAndFieldNumberLength kLengthDelimited n + VarintLength (word_of_nat size) + size)"

subsubsection \<open>EnumFieldBase\<close>

definition EnumField_Clear :: "u32 \<Rightarrow> ProtoFieldOptions \<Rightarrow> u32 option" where
  "EnumField_Clear default_value options =
     (if options = kAlwaysPresent \<or> options = kImplicit then Some default_value else None)"

definition EnumField_RequiresSerialization :: "u32 \<Rightarrow> ProtoFieldOptions \<Rightarrow> u32 option \<Rightarrow> bool" where
  "EnumField_RequiresSerialization default_value options v =
     (case options of
        kExplicit \<Rightarrow> v \<noteq> None
      | kAlwaysPresent \<Rightarrow> True
      | kImplicit \<Rightarrow> value_or default_value v \<noteq> default_value)"

definition EnumField_ConsumeIntoMember ::
    "crc_fns \<Rightarrow> (u32 \<Rightarrow> bool) \<Rightarrow> u32 option \<Rightarrow> ParsingState \<Rightarrow> (u32 option \<times> ParsingState) option" where
  "EnumField_ConsumeIntoMember C is_valid v serialized =
     (case ConsumeVarintIntoUint32 C serialized of
        None \<Rightarrow> None
      | Some (result, serialized') \<Rightarrow>
          if \<not> is_valid result then Some (v, serialized') else Some (Some result, serialized'))"

definition EnumField_SerializeWithTagInto ::
    "crc_fns \<Rightarrow> u32 \<Rightarrow> u32 \<Rightarrow> ProtoFieldOptions \<Rightarrow> u32 option \<Rightarrow> SerializationState \<Rightarrow> SerializationState option" where
  "EnumField_SerializeWithTagInto C n default_value options v out =
     (if \<not> EnumField_RequiresSerialization default_value options v then Some out
      else case SerializeWireTypeAndFieldNumber C kVarint n out of
             None \<Rightarrow> None
           | Some out' \<Rightarrow> SerializeVarint C (ucast (value_or default_value v)) out')"

definition EnumField_GetSerializedSizeIncludingTag :: "u32 \<Rightarrow> u32 \<Rightarrow> ProtoFieldOptions \<Rightarrow> u32 option \<Rightarrow> nat" where
  "EnumField_GetSerializedSizeIncludingTag n default_value options v =
     (if \<not> EnumField_RequiresSerialization default_value options v then 0
      else WireTypeAndFieldNumberLength kVarint n + VarintLength (ucast (value_or default_value v)))"

subsubsection \<open>SecretDataField\<close>

definition SecretDataField_Clear :: "ProtoFieldOptions \<Rightarrow> SecretData option" where
  "SecretDataField_Clear options =
     (if options = kAlwaysPresent \<or> options = kImplicit then Some SecretData_default else None)"

definition SecretDataField_RequiresSerialization :: "ProtoFieldOptions \<Rightarrow> SecretData option \<Rightarrow> bool" where
  "SecretDataField_RequiresSerialization options v =
     (case options of
        kExplicit \<Rightarrow> v \<noteq> None
      | kAlwaysPresent \<Rightarrow> True
      | kImplicit \<Rightarrow> \<not> SecretDataEquals (the v) SecretData_default)"

definition SecretDataField_ConsumeIntoMember ::
    "crc_fns \<Rightarrow> ParsingState \<Rightarrow> (SecretData option \<times> ParsingState) option" where
  "SecretDataField_ConsumeIntoMember C serialized =
     (case ConsumeVarintForSize C serialized of
        None \<Rightarrow> None
      | Some (len, st) \<Rightarrow>
          if length (remaining_view st) < unat len then None
          else let secret_bytes = take (unat len) (remaining_view st);
                   (crc, st') = AdvanceAndGetCrc C (unat len) st
               in Some (Some (SecretData_of_view_and_crc secret_bytes crc), st'))"

definition SecretDataField_SerializeWithTagInto ::
    "crc_fns \<Rightarrow> u32 \<Rightarrow> ProtoFieldOptions \<Rightarrow> SecretData option \<Rightarrow> SerializationState \<Rightarrow> SerializationState option" where
  "SecretDataField_SerializeWithTagInto C n options v out =
     (if \<not> SecretDataField_RequiresSerialization options v then Some out
      else case SerializeWireTypeAndFieldNumber C kLengthDelimited n out of
             None \<Rightarrow> None
           | Some out1 \<Rightarrow>
               let data_view = sd_buffer (the v) in
               case SerializeVarint C (word_of_nat (length data_view)) out1 of
                 None \<Rightarrow> None
               | Some out2 \<Rightarrow>
                   if length (output_buffer out2) < length data_view then None
                   else Some (AdvanceWithCrc C (length data_view) (GetCrc32c (the v)) (CopyToBuffer data_view out2)))"

definition SecretDataField_GetSerializedSizeIncludingTag :: "u32 \<Rightarrow> ProtoFieldOptions \<Rightarrow> SecretData option \<Rightarrow> nat" where
  "SecretDataField_GetSerializedSizeIncludingTag n options v =
     (if \<not> SecretDataField_RequiresSerialization options v then 0
      else let value_size = length (sd_buffer (the v))
           in WireTypeAndFieldNumberLength kLengthDelimited n + VarintLength (word_of_nat value_size) + value_size)"

subsubsection \<open>RepeatedSecretDataField\<close>

definition RepeatedSecretDataField_ConsumeIntoMember ::
    "crc_fns \<Rightarrow> SecretData list \<Rightarrow> ParsingState \<Rightarrow> (SecretData list \<times> ParsingState) option" where
  "RepeatedSecretDataField_ConsumeIntoMember C vs parsing_state =
     (case ConsumeVarintForSize C parsing_state of
        None \<Rightarrow> None
      | Some (len, st) \<Rightarrow>
          if length (remaining_view st) < unat len then None
          else let data = take (unat len) (remaining_view st);
                   (crc, st') = AdvanceAndGetCrc C (unat len) st
               in Some (vs @ [SecretData_of_view_and_crc data crc], st'))"

fun RepeatedSecretDataField_SerializeWithTagInto ::
    "crc_fns \<Rightarrow> u32 \<Rightarrow> SecretData list \<Rightarrow> SerializationState \<Rightarrow> SerializationState option" where
  "RepeatedSecretDataField_SerializeWithTagInto C n [] out = Some out"
| "RepeatedSecretDataField_SerializeWithTagInto C n (secret_data # vs) out =
     (case SerializeWireTypeAndFieldNumber C kLengthDelimited n out of
        None \<Rightarrow> None
      | Some out1 \<Rightarrow>
          let data_view = sd_buffer secret_data in
          case SerializeVarint C (word_of_nat (length data_view)) out1 of
            None \<Rightarrow> None
          | Some out2 \<Rightarrow>
              if length (output_buffer out2) < length data_view then None
              else RepeatedSecretDataField_SerializeWithTagInto C n vs
                     (AdvanceWithCrc C (length data_view) (GetCrc32c secret_data) (CopyToBuffer data_view out2)))"

fun RepeatedSecretDataField_GetSerializedSizeIncludingTag :: "u32 \<Rightarrow> SecretData list \<Rightarrow> nat" where
  "RepeatedSecretDataField_GetSerializedSizeIncludingTag n [] = 0"
| "RepeatedSecretDataField_GetSerializedSizeIncludingTag n (secret_data # vs) =
     (let cur_size = length (sd_buffer secret_data)
      in WireTypeAndFieldNumberLength kLengthDelimited n + VarintLength (word_of_nat cur_size) + cur_size
         + RepeatedSecretDataField_GetSerializedSizeIncludingTag n vs)"

subsection \<open>Messages\<close>

text \<open>
  \<^verbatim>\<open>Clear\<close> of each field class; a message field that is always present is reset to the
  default-constructed message.
\<close>

fun Field_Clear :: "field \<Rightarrow> field" where
  "Field_Clear (Uint32Field n options v) = Uint32Field n options (Uint32Field_Clear options)"
| "Field_Clear (Uint64Field n options v) = Uint64Field n options (Uint64Field_Clear options)"
| "Field_Clear (BytesField n options v) = BytesField n options (BytesField_Clear options)"
| "Field_Clear (EnumField n is_valid d options v) = EnumField n is_valid d options (EnumField_Clear d options)"
| "Field_Clear (SecretDataField n options v) = SecretDataField n options (SecretDataField_Clear options)"
| "Field_Clear (RepeatedSecretDataField n vs) = RepeatedSecretDataField n []"
| "Field_Clear (MessageField n options proto v) =
     MessageField n options proto (if options = kAlwaysPresent then Some proto else None)"
| "Field_Clear (RepeatedMessageField n proto vs) = RepeatedMessageField n proto []"

definition Message_Clear :: "message \<Rightarrow> message" where
  "Message_Clear m = map Field_Clear m"

fun GetSerializedSizeIncludingTag :: "field \<Rightarrow> nat"
and ByteSizeLong :: "message \<Rightarrow> nat"
and RepeatedMessageField_size :: "u32 \<Rightarrow> message list \<Rightarrow> nat" where
  "GetSerializedSizeIncludingTag (Uint32Field n options v) = Uint32Field_GetSerializedSizeIncludingTag n options v"
| "GetSerializedSizeIncludingTag (Uint64Field n options v) = Uint64Field_GetSerializedSizeIncludingTag n options v"
| "GetSerializedSizeIncludingTag (BytesField n options v) = BytesField_GetSerializedSizeIncludingTag n options v"
| "GetSerializedSizeIncludingTag (EnumField n is_valid d options v) =
     EnumField_GetSerializedSizeIncludingTag n d options v"
| "GetSerializedSizeIncludingTag (SecretDataField n options v) =
     SecretDataField_GetSerializedSizeIncludingTag n options v"
| "GetSerializedSizeIncludingTag (RepeatedSecretDataField n vs) =
     RepeatedSecretDataField_GetSerializedSizeIncludingTag n vs"
| "GetSerializedSizeIncludingTag (MessageField n options proto None) = 0"
| "GetSerializedSizeIncludingTag (MessageField n options proto (Some msg)) =
     WireTypeAndFieldNumberLength kLengthDelimited n + VarintLength (word_of_nat (ByteSizeLong msg)) + ByteSizeLong msg"
| "GetSerializedSizeIncludingTag (RepeatedMessageField n proto msgs) = RepeatedMessageField_size n msgs"
| "ByteSizeLong [] = 0"
| "ByteSizeLong (f # fs) = GetSerializedSizeIncludingTag f + ByteSizeLong fs"
| "RepeatedMessageField_size n [] = 0"
| "RepeatedMessageField_size n (msg # msgs) =
     ByteSizeLong msg + VarintLength (word_of_nat (ByteSizeLong msg)) + WireTypeAndFieldNumberLength kLengthDelimited n
     + RepeatedMessageField_size n msgs"

fun SerializeWithTagInto :: "crc_fns \<Rightarrow> field \<Rightarrow> SerializationState \<Rightarrow> SerializationState option"
and Serialize :: "crc_fns \<Rightarrow> message \<Rightarrow> SerializationState \<Rightarrow> SerializationState option"
and RepeatedMessageField_SerializeWithTagInto ::
    "crc_fns \<Rightarrow> u32 \<Rightarrow> message list \<Rightarrow> SerializationState \<Rightarrow> SerializationState option" where
  "SerializeWithTagInto C (Uint32Field n options v) out = Uint32Field_SerializeWithTagInto C n options v out"
| "SerializeWithTagInto C (Uint64Field n options v) out = Uint64Field_SerializeWithTagInto C n options v out"
| "SerializeWithTagInto C (BytesField n options v) out = BytesField_SerializeWithTagInto C n options v out"
| "SerializeWithTagInto C (EnumField n is_valid d options v) out = EnumField_SerializeWithTagInto C n d options v out"
| "SerializeWithTagInto C (SecretDataField n options v) out = SecretDataField_SerializeWithTagInto C n options v out"
| "SerializeWithTagInto C (RepeatedSecretDataField n vs) out = RepeatedSecretDataField_SerializeWithTagInto C n vs out"
| "SerializeWithTagInto C (MessageField n options proto None) out = Some out"
| "SerializeWithTagInto C (MessageField n options proto (Some msg)) out =
     (case SerializeWireTypeAndFieldNumber C kLengthDelimited n out of
        None \<Rightarrow> None
      | Some out1 \<Rightarrow>
          let size = ByteSizeLong msg in
          case SerializeVarint C (word_of_nat size) out1 of
            None \<Rightarrow> None
          | Some out2 \<Rightarrow> if length (output_buffer out2) < size then None else Serialize C msg out2)"
| "SerializeWithTagInto C (RepeatedMessageField n proto msgs) out =
     RepeatedMessageField_SerializeWithTagInto C n msgs out"
| "Serialize C [] out = Some out"
| "Serialize C (f # fs) out =
     (case SerializeWithTagInto C f out of
        None \<Rightarrow> None
      | Some out' \<Rightarrow> Serialize C fs out')"
| "RepeatedMessageField_SerializeWithTagInto C n [] out = Some out"
| "RepeatedMessageField_SerializeWithTagInto C n (msg # msgs) out =
     (case SerializeWireTypeAndFieldNumber C kLengthDelimited n out of
        None \<Rightarrow> None
      | Some out1 \<Rightarrow>
          let size = ByteSizeLong msg in
          case SerializeVarint C (word_of_nat size) out1 of
            None \<Rightarrow> None
          | Some out2 \<Rightarrow>
              if length (output_buffer out2) < size then None
              else case Serialize C msg out2 of
                     None \<Rightarrow> None
                   | Some out3 \<Rightarrow> RepeatedMessageField_SerializeWithTagInto C n msgs out3)"

text \<open>
  The two entry points allocate \<^verbatim>\<open>ByteSizeLong()\<close> bytes (their contents before the serialization
  are arbitrary: the argument \<open>junk\<close>). \<open>None\<close> is a failed \<^verbatim>\<open>ABSL_QCHECK\<close>, which aborts.
\<close>

definition SerializeAsString :: "crc_fns \<Rightarrow> (nat \<Rightarrow> byte) \<Rightarrow> message \<Rightarrow> bytes option" where
  "SerializeAsString C junk m =
     (case Serialize C m \<lparr>written = [], output_buffer = map junk [0..<ByteSizeLong m], out_crc = None\<rparr> of
        None \<Rightarrow> None
      | Some out \<Rightarrow> if output_buffer out \<noteq> [] then None else Some (written out))"

definition SerializeAsSecretData :: "crc_fns \<Rightarrow> (nat \<Rightarrow> byte) \<Rightarrow> message \<Rightarrow> SecretData option" where
  "SerializeAsSecretData C junk m =
     (case Serialize C m \<lparr>written = [], output_buffer = map junk [0..<ByteSizeLong m], out_crc = Some 0\<rparr> of
        None \<Rightarrow> None
      | Some out \<Rightarrow>
          if output_buffer out \<noteq> [] then None
          else Some (SecretData_of_view_and_crc (written out) (the (out_crc out))))"

text \<open>\<^verbatim>\<open>FieldWithNumber\<close> returns a pointer to a field of the message: here its index.\<close>

definition FieldsAreSorted :: "message \<Rightarrow> bool" where
  "FieldsAreSorted m \<longleftrightarrow> (\<forall>i \<in> set [1..<length m]. FieldNumber (m ! (i - 1)) < FieldNumber (m ! i))"

function FieldWithNumber_loop :: "message \<Rightarrow> u32 \<Rightarrow> int \<Rightarrow> int \<Rightarrow> nat option" where
  "FieldWithNumber_loop m field_number low high =
     (if low \<le> high
      then let mid = low + (high - low) div 2;
               n = FieldNumber (m ! nat mid)
           in if n = field_number then Some (nat mid)
              else if n < field_number then FieldWithNumber_loop m field_number (mid + 1) high
              else FieldWithNumber_loop m field_number low (mid - 1)
      else None)"
  by pat_completeness auto
termination
  by (relation "measure (\<lambda>(m, n, low, high). nat (high - low + 1))") auto

declare FieldWithNumber_loop.simps [simp del]

definition FieldWithNumber :: "message \<Rightarrow> u32 \<Rightarrow> nat option" where
  "FieldWithNumber m field_number = FieldWithNumber_loop m field_number 0 (int (length m) - 1)"

text \<open>
  \<^verbatim>\<open>ConsumeIntoMember\<close> of the two message field classes, over the parser of the submessage. The
  submessage shares its CRC with the parent state.
\<close>

type_synonym message_parser = "message \<Rightarrow> ParsingState \<Rightarrow> (message \<times> ParsingState) option"

definition ConsumeSubmessage ::
    "crc_fns \<Rightarrow> message_parser \<Rightarrow> message \<Rightarrow> ParsingState \<Rightarrow> (message \<times> ParsingState) option" where
  "ConsumeSubmessage C parse msg serialized =
     (case ConsumeVarintForSize C serialized of
        None \<Rightarrow> None
      | Some (len, st) \<Rightarrow>
          if length (remaining_view st) < unat len then None
          else let (sub, st') = SplitOffSubmessageState (unat len) st in
               case parse msg sub of
                 None \<Rightarrow> None
               | Some (msg', sub') \<Rightarrow>
                   if \<not> ParsingDone sub' then None
                   else Some (msg', st'\<lparr>crc_to_update := crc_to_update sub'\<rparr>))"

definition MessageField_ConsumeIntoMember ::
    "crc_fns \<Rightarrow> message_parser \<Rightarrow> message \<Rightarrow> message option \<Rightarrow> ParsingState \<Rightarrow> (message option \<times> ParsingState) option" where
  "MessageField_ConsumeIntoMember C parse proto v serialized =
     (case ConsumeSubmessage C parse (value_or proto v) serialized of
        None \<Rightarrow> None
      | Some (msg, st) \<Rightarrow> Some (Some msg, st))"

definition RepeatedMessageField_ConsumeIntoMember ::
    "crc_fns \<Rightarrow> message_parser \<Rightarrow> message \<Rightarrow> message list \<Rightarrow> ParsingState \<Rightarrow> (message list \<times> ParsingState) option" where
  "RepeatedMessageField_ConsumeIntoMember C parse proto vs serialized =
     (case ConsumeSubmessage C parse proto serialized of
        None \<Rightarrow> None
      | Some (msg, st) \<Rightarrow> Some (vs @ [msg], st))"

fun ConsumeIntoMember :: "crc_fns \<Rightarrow> message_parser \<Rightarrow> field \<Rightarrow> ParsingState \<Rightarrow> (field \<times> ParsingState) option" where
  "ConsumeIntoMember C parse (Uint32Field n options v) st =
     map_option (map_prod (Uint32Field n options) id) (Uint32Field_ConsumeIntoMember C st)"
| "ConsumeIntoMember C parse (Uint64Field n options v) st =
     map_option (map_prod (Uint64Field n options) id) (Uint64Field_ConsumeIntoMember C st)"
| "ConsumeIntoMember C parse (BytesField n options v) st =
     map_option (map_prod (BytesField n options) id) (BytesField_ConsumeIntoMember C st)"
| "ConsumeIntoMember C parse (EnumField n is_valid d options v) st =
     map_option (map_prod (EnumField n is_valid d options) id) (EnumField_ConsumeIntoMember C is_valid v st)"
| "ConsumeIntoMember C parse (SecretDataField n options v) st =
     map_option (map_prod (SecretDataField n options) id) (SecretDataField_ConsumeIntoMember C st)"
| "ConsumeIntoMember C parse (RepeatedSecretDataField n vs) st =
     map_option (map_prod (RepeatedSecretDataField n) id) (RepeatedSecretDataField_ConsumeIntoMember C vs st)"
| "ConsumeIntoMember C parse (MessageField n options proto v) st =
     map_option (map_prod (MessageField n options proto) id) (MessageField_ConsumeIntoMember C parse proto v st)"
| "ConsumeIntoMember C parse (RepeatedMessageField n proto vs) st =
     map_option (map_prod (RepeatedMessageField n proto) id)
       (RepeatedMessageField_ConsumeIntoMember C parse proto vs st)"

text \<open>
  One iteration of the loop of \<^verbatim>\<open>Message::Parse\<close>. The hook \<^verbatim>\<open>BeforeFieldSet\<close> does nothing in
  \<^verbatim>\<open>Message\<close> and is not overridden by the messages of the library.
\<close>

definition ParseStep :: "crc_fns \<Rightarrow> message_parser \<Rightarrow> message_parser" where
  "ParseStep C parse m st =
     (case ConsumeIntoWireTypeAndFieldNumber C st of
        None \<Rightarrow> None
      | Some (wire_type, field_number, st1) \<Rightarrow>
          let fld = FieldWithNumber m field_number in
          if fld = None \<or> GetWireType (m ! the fld) \<noteq> wire_type
          then (if wire_type = kStartGroup
                then map_option (Pair m) (SkipGroup C field_number st1)
                else map_option (Pair m) (SkipField C wire_type st1))
          else case ConsumeIntoMember C parse (m ! the fld) st1 of
                 None \<Rightarrow> None
               | Some (f, st2) \<Rightarrow> Some (m[the fld := f], st2))"

text \<open>
  A recursive call gets fewer bytes than there are, and an iteration leaves fewer bytes than it finds,
  whatever the parser of submessages does; so the loop and the recursion of \<^verbatim>\<open>Message::Parse\<close> end. The
  first fact is a congruence rule, which makes it available when \<open>Parse\<close> is defined.
\<close>

lemma ConsumeSubmessage_cong:
  assumes "\<And>m s. length (remaining_view s) < length (remaining_view st) \<Longrightarrow> p m s = q m s"
  shows "ConsumeSubmessage C p msg st = ConsumeSubmessage C q msg st"
proof (cases "ConsumeVarintForSize C st")
  case (Some r)
  then obtain len st1 where r: "ConsumeVarintForSize C st = Some (len, st1)" by (cases r) auto
  then obtain k where "advances C st k st1" "0 < k" using ConsumeVarintForSize_advances by blast
  then have "length (remaining_view st1) < length (remaining_view st)" by (rule advances_pos_shrinks)
  then have "p msg (fst (SplitOffSubmessageState (unat len) st1)) = q msg (fst (SplitOffSubmessageState (unat len) st1))"
    by (intro assms) (simp add: SplitOffSubmessageState_def)
  with r show ?thesis by (auto simp: ConsumeSubmessage_def split: prod.split)
qed (simp add: ConsumeSubmessage_def)

lemma ConsumeIntoMember_cong:
  assumes "\<And>m s. length (remaining_view s) < length (remaining_view st) \<Longrightarrow> p m s = q m s"
  shows "ConsumeIntoMember C p f st = ConsumeIntoMember C q f st"
  using ConsumeSubmessage_cong [of st p q C, OF assms]
  by (cases f) (simp_all add: MessageField_ConsumeIntoMember_def RepeatedMessageField_ConsumeIntoMember_def)

lemma ParseStep_cong_parser:
  assumes "\<And>m s. length (remaining_view s) < length (remaining_view st) \<Longrightarrow> p m s = q m s"
  shows "ParseStep C p m st = ParseStep C q m st"
proof (cases "ConsumeIntoWireTypeAndFieldNumber C st")
  case (Some r)
  then obtain wt n st1 where r: "ConsumeIntoWireTypeAndFieldNumber C st = Some (wt, n, st1)" by (cases r) auto
  then obtain k where "advances C st k st1" "0 < k" using ConsumeIntoWireTypeAndFieldNumber_advances by blast
  then have "length (remaining_view st1) < length (remaining_view st)" by (rule advances_pos_shrinks)
  then have "ConsumeIntoMember C p f st1 = ConsumeIntoMember C q f st1" for f
    by (intro ConsumeIntoMember_cong assms) simp
  with r show ?thesis by (simp add: ParseStep_def Let_def)
qed (simp add: ParseStep_def)

lemma ParseStep_cong [fundef_cong]:
  assumes "C = C'" and "m = m'" and "st = st'"
    and "\<And>x s. length (remaining_view s) < length (remaining_view st') \<Longrightarrow> p x s = q x s"
  shows "ParseStep C p m st = ParseStep C' q m' st'"
  using ParseStep_cong_parser [of st' p q, OF assms(4)] assms(1-3) by simp

lemma ConsumeSubmessage_shrinks:
  assumes "ConsumeSubmessage C p msg st = Some (msg', st')"
  shows "length (remaining_view st') < length (remaining_view st)"
proof -
  from assms obtain len st1 where s: "ConsumeVarintForSize C st = Some (len, st1)"
    and "remaining_view st' = drop (unat len) (remaining_view st1)"
    by (auto simp: ConsumeSubmessage_def SplitOffSubmessageState_def split: option.splits if_splits)
  moreover obtain k where "advances C st k st1" "0 < k" using ConsumeVarintForSize_advances [OF s] by blast
  then have "length (remaining_view st1) < length (remaining_view st)" by (rule advances_pos_shrinks)
  ultimately show ?thesis by simp
qed

lemma consume_secret_advances:
  assumes "ConsumeVarintForSize C st = Some (len, st1)" and "\<not> length (remaining_view st1) < unat len"
  shows "\<exists>k > 0. advances C st k (Advance C (unat len) st1)"
  using ConsumeVarintForSize_advances [OF assms(1)] advances_one [of "unat len" st1 C] assms(2)
  by (metis add_gr_0 advances_trans not_less)

lemma ConsumeIntoMember_shrinks:
  assumes "ConsumeIntoMember C p f st = Some (f', st')"
  shows "length (remaining_view st') < length (remaining_view st)"
proof -
  have "(\<exists>k > 0. advances C st k st') \<or> length (remaining_view st') < length (remaining_view st)"
    using assms
    by (cases f) (auto simp: Uint32Field_ConsumeIntoMember_def Uint64Field_ConsumeIntoMember_def
      BytesField_ConsumeIntoMember_def EnumField_ConsumeIntoMember_def SecretDataField_ConsumeIntoMember_def
      RepeatedSecretDataField_ConsumeIntoMember_def MessageField_ConsumeIntoMember_def
      RepeatedMessageField_ConsumeIntoMember_def AdvanceAndGetCrc_eq
      split: option.splits if_splits dest: consumer_advances ConsumeSubmessage_shrinks consume_secret_advances)
  then show ?thesis using advances_pos_shrinks by blast
qed

lemma ParseStep_shrinks:
  assumes "ParseStep C p m st = Some (m', st')"
  shows "length (remaining_view st') < length (remaining_view st)"
proof -
  from assms obtain wt n st1 where t: "ConsumeIntoWireTypeAndFieldNumber C st = Some (wt, n, st1)"
    by (auto simp: ParseStep_def split: option.splits)
  obtain k where "advances C st k st1" "0 < k" using ConsumeIntoWireTypeAndFieldNumber_advances [OF t] by blast
  then have st1: "length (remaining_view st1) < length (remaining_view st)" by (rule advances_pos_shrinks)
  from t assms have "SkipGroup C n st1 = Some st' \<or> SkipField C wt st1 = Some st' \<or>
      (\<exists>f f'. ConsumeIntoMember C p f st1 = Some (f', st'))"
    by (auto simp: ParseStep_def Let_def split: option.splits if_splits)
  then have "length (remaining_view st') \<le> length (remaining_view st1)"
    using SkipGroup_advances SkipField_advances ConsumeIntoMember_shrinks by (fastforce dest: advances_remaining)
  with st1 show ?thesis by simp
qed

function Parse :: "crc_fns \<Rightarrow> message_parser" where
  "Parse C m st =
     (if ParsingDone st then Some (m, st)
      else case ParseStep C (\<lambda>x s. Parse C x s) m st of
             None \<Rightarrow> None
           | Some (m', st') \<Rightarrow> Parse C m' st')"
  by pat_completeness auto
termination
  by (relation "measure (\<lambda>(C, m, st). length (remaining_view st))") (auto dest: ParseStep_shrinks)

declare Parse.simps [simp del]

lemmas Parse_loop = Parse.simps

definition ParseFromStringImpl :: "crc_fns \<Rightarrow> message \<Rightarrow> bytes \<Rightarrow> u32 option \<Rightarrow> (message \<times> u32 option) option" where
  "ParseFromStringImpl C m view result_crc =
     (case Parse C (Message_Clear m) \<lparr>remaining_view = view, crc_to_update = result_crc\<rparr> of
        None \<Rightarrow> None
      | Some (m', st) \<Rightarrow>
          if \<not> ParsingDone st \<or> remaining_view st \<noteq> [] then None  \<comment> \<open>a failed \<^verbatim>\<open>ABSL_QCHECK\<close>\<close>
          else Some (m', crc_to_update st))"

definition ParseFromString :: "crc_fns \<Rightarrow> message \<Rightarrow> bytes \<Rightarrow> message option" where
  "ParseFromString C m view = map_option fst (ParseFromStringImpl C m view None)"

definition ParseFromStringWithCrc :: "crc_fns \<Rightarrow> message \<Rightarrow> bytes \<Rightarrow> (message \<times> u32) StatusOr" where
  "ParseFromStringWithCrc C m view =
     (case ParseFromStringImpl C m view (Some 0) of
        None \<Rightarrow> Inl kInvalidArgument
      | Some (m', crc) \<Rightarrow> Inr (m', the crc))"


section \<open>How far the parser advances\<close>

definition parser_advances :: "crc_fns \<Rightarrow> message_parser \<Rightarrow> bool" where
  "parser_advances C p \<longleftrightarrow> (\<forall>m st m' st'. p m st = Some (m', st') \<longrightarrow> (\<exists>k. advances C st k st'))"

lemma ConsumeSubmessage_advances:
  assumes p: "parser_advances C p" and c: "ConsumeSubmessage C p msg st = Some (msg', st')"
  shows "\<exists>k > 0. advances C st k st'"
proof -
  from c obtain len st1 where s: "ConsumeVarintForSize C st = Some (len, st1)"
    and fits: "unat len \<le> length (remaining_view st1)"
    by (auto simp: ConsumeSubmessage_def split: option.splits if_splits)
  let ?sub = "\<lparr>remaining_view = take (unat len) (remaining_view st1), crc_to_update = crc_to_update st1\<rparr>"
  from c s fits obtain sub' where q: "p msg ?sub = Some (msg', sub')" and d: "remaining_view sub' = []"
    and st': "st' = \<lparr>remaining_view = drop (unat len) (remaining_view st1), crc_to_update = crc_to_update sub'\<rparr>"
    by (auto simp: ConsumeSubmessage_def SplitOffSubmessageState_def ParsingDone_def split: option.splits if_splits)
  from p q obtain k where "advances C ?sub k sub'" unfolding parser_advances_def by blast
  from advances_frame [OF this, of "drop (unat len) (remaining_view st1)" st1]
  have "advances C st1 k st'" using st' d by simp
  with ConsumeVarintForSize_advances [OF s] show ?thesis
    by (metis add_gr_0 advances_trans)
qed

lemma ConsumeIntoMember_advances:
  assumes p: "parser_advances C p" and c: "ConsumeIntoMember C p f st = Some (f', st')"
  shows "\<exists>k > 0. advances C st k st'"
  using c
  by (cases f) (auto simp: Uint32Field_ConsumeIntoMember_def Uint64Field_ConsumeIntoMember_def
      BytesField_ConsumeIntoMember_def EnumField_ConsumeIntoMember_def SecretDataField_ConsumeIntoMember_def
      RepeatedSecretDataField_ConsumeIntoMember_def MessageField_ConsumeIntoMember_def
      RepeatedMessageField_ConsumeIntoMember_def AdvanceAndGetCrc_eq
      split: option.splits if_splits dest: consumer_advances ConsumeSubmessage_advances [OF p] consume_secret_advances)

lemma ParseStep_advances:
  assumes p: "parser_advances C p" and c: "ParseStep C p m st = Some (m', st')"
  shows "\<exists>k > 0. advances C st k st'"
proof -
  from c obtain wt n st1 where t: "ConsumeIntoWireTypeAndFieldNumber C st = Some (wt, n, st1)"
    by (auto simp: ParseStep_def split: option.splits)
  with c have "SkipGroup C n st1 = Some st' \<or> SkipField C wt st1 = Some st' \<or>
      (\<exists>f f'. ConsumeIntoMember C p f st1 = Some (f', st'))"
    by (auto simp: ParseStep_def Let_def split: option.splits if_splits)
  then have "\<exists>k. advances C st1 k st'"
    using SkipGroup_advances SkipField_advances ConsumeIntoMember_advances [OF p] by blast
  with ConsumeIntoWireTypeAndFieldNumber_advances [OF t] show ?thesis
    by (metis add_gr_0 advances_trans)
qed

lemma Parse_advances: "Parse C m st = Some (m', st') \<Longrightarrow> \<exists>k. advances C st k st'"
proof (induction "length (remaining_view st)" arbitrary: m st m' st' rule: less_induct)
  case less
  show ?case
  proof (cases "ParsingDone st")
    case True
    with less.prems show ?thesis by (auto simp: Parse_loop [of C m st] intro: advances_refl)
  next
    case False
    then obtain m1 st1 where s: "ParseStep C (Parse C) m st = Some (m1, st1)" and r: "Parse C m1 st1 = Some (m', st')"
      using less.prems by (subst (asm) Parse_loop) (auto split: option.splits)
    let ?p = "\<lambda>x s. if length (remaining_view s) < length (remaining_view st) then Parse C x s else None"
    have "parser_advances C ?p" using less.hyps by (auto simp: parser_advances_def split: if_splits)
    moreover have "ParseStep C ?p m st = Some (m1, st1)" using s by (simp cong: ParseStep_cong)
    ultimately obtain k where "advances C st k st1" using ParseStep_advances by blast
    moreover obtain j where "advances C st1 j st'" using less.hyps [OF ParseStep_shrinks [OF s] r] by blast
    ultimately show ?thesis using advances_trans by blast
  qed
qed

lemma parser_advances_Parse: "parser_advances C (Parse C)"
  by (simp add: parser_advances_def Parse_advances)

lemma Parse_induct [consumes 1, case_names finish step]:
  assumes r: "Parse C m st = Some (m', st')"
    and finish: "\<And>m st. ParsingDone st \<Longrightarrow> Q m st m st"
    and step: "\<And>m st m1 st1 m' st'. \<not> ParsingDone st \<Longrightarrow> ParseStep C (Parse C) m st = Some (m1, st1) \<Longrightarrow>
      (\<And>x s x' s'. length (remaining_view s) < length (remaining_view st) \<Longrightarrow>
         Parse C x s = Some (x', s') \<Longrightarrow> Q x s x' s') \<Longrightarrow> Q m1 st1 m' st' \<Longrightarrow> Q m st m' st'"
  shows "Q m st m' st'"
  using r
proof (induction "length (remaining_view st)" arbitrary: m st m' st' rule: less_induct)
  case less
  show ?case
  proof (cases "ParsingDone st")
    case True
    with less.prems finish show ?thesis by (simp add: Parse_loop [of C m st])
  next
    case False
    with less.prems obtain m1 st1 where s: "ParseStep C (Parse C) m st = Some (m1, st1)"
      and rest: "Parse C m1 st1 = Some (m', st')"
      by (subst (asm) Parse_loop) (auto split: option.splits)
    obtain i where "advances C st i st1" "0 < i"
      using ParseStep_advances [OF parser_advances_Parse s] by blast
    then have "length (remaining_view st1) < length (remaining_view st)" by (rule advances_pos_shrinks)
    then have "Q m1 st1 m' st'" using rest by (rule less.hyps)
    with step [OF False s] less.hyps show ?thesis by blast
  qed
qed

lemma Parse_done: "Parse C m st = Some (m', st') \<Longrightarrow> ParsingDone st'"
  by (induction rule: Parse_induct)

section \<open>The binary search for a field\<close>

lemma FieldsAreSorted_iff: "FieldsAreSorted m \<longleftrightarrow> sorted_wrt (<) (map FieldNumber m)"
proof -
  have "FieldsAreSorted m \<longleftrightarrow> (\<forall>i. Suc i < length m \<longrightarrow> FieldNumber (m ! i) < FieldNumber (m ! Suc i))"
    unfolding FieldsAreSorted_def
  proof (intro iffI allI impI ballI)
    fix i assume "\<forall>i \<in> set [1..<length m]. FieldNumber (m ! (i - 1)) < FieldNumber (m ! i)" "Suc i < length m"
    then show "FieldNumber (m ! i) < FieldNumber (m ! Suc i)" by (auto dest: bspec [of _ _ "Suc i"])
  next
    fix i assume "\<forall>i. Suc i < length m \<longrightarrow> FieldNumber (m ! i) < FieldNumber (m ! Suc i)" "i \<in> set [1..<length m]"
    then show "FieldNumber (m ! (i - 1)) < FieldNumber (m ! i)" by (cases i) auto
  qed
  then show ?thesis by (simp add: sorted_wrt_iff_nth_Suc_transp)
qed

lemma FieldsAreSorted_less:
  "FieldsAreSorted m \<Longrightarrow> i < j \<Longrightarrow> j < length m \<Longrightarrow> FieldNumber (m ! i) < FieldNumber (m ! j)"
  using sorted_wrt_nth_less [of "(<)" "map FieldNumber m" i j] by (simp add: FieldsAreSorted_iff)

lemma FieldWithNumber_loop_spec:
  "FieldsAreSorted m \<Longrightarrow> 0 \<le> low \<Longrightarrow> high < int (length m) \<Longrightarrow>
   FieldWithNumber_loop m n low high = Some i \<longleftrightarrow> low \<le> int i \<and> int i \<le> high \<and> FieldNumber (m ! i) = n"
proof (induction m n low high rule: FieldWithNumber_loop.induct)
  case (1 m n low high)
  show ?case
  proof (cases "low \<le> high")
    case False
    then show ?thesis by (subst FieldWithNumber_loop.simps) auto
  next
    case True
    define mid where "mid = low + (high - low) div 2"
    have b: "low \<le> mid" "mid \<le> high" "nat mid < length m" "0 \<le> mid" using True "1.prems" by (auto simp: mid_def)
    note lt = FieldsAreSorted_less [OF \<open>FieldsAreSorted m\<close>]
    have mono: "i < nat mid \<Longrightarrow> FieldNumber (m ! i) < FieldNumber (m ! nat mid)"
      "int i \<le> high \<Longrightarrow> nat mid < i \<Longrightarrow> FieldNumber (m ! nat mid) < FieldNumber (m ! i)"
      using lt [of i "nat mid"] lt [of "nat mid" i] b "1.prems" by auto
    have unf: "FieldWithNumber_loop m n low high =
        (if FieldNumber (m ! nat mid) = n then Some (nat mid)
         else if FieldNumber (m ! nat mid) < n then FieldWithNumber_loop m n (mid + 1) high
         else FieldWithNumber_loop m n low (mid - 1))"
      using True by (subst FieldWithNumber_loop.simps) (simp add: Let_def mid_def)
    consider "FieldNumber (m ! nat mid) = n" | "FieldNumber (m ! nat mid) < n"
      | "FieldNumber (m ! nat mid) > n" by fastforce
    then show ?thesis
    proof cases
      case 1
      with unf mono b show ?thesis by (cases i "nat mid" rule: linorder_cases) auto
    next
      case 2
      have "FieldWithNumber_loop m n (mid + 1) high = Some i \<longleftrightarrow> mid + 1 \<le> int i \<and> int i \<le> high \<and> FieldNumber (m ! i) = n"
        using "1.IH"(1) [OF True mid_def refl] 2 "1.prems" b by auto
      with 2 unf mono b show ?thesis by (cases i "nat mid" rule: linorder_cases) auto
    next
      case 3
      have "FieldWithNumber_loop m n low (mid - 1) = Some i \<longleftrightarrow> low \<le> int i \<and> int i \<le> mid - 1 \<and> FieldNumber (m ! i) = n"
        using "1.IH"(2) [OF True mid_def refl] 3 "1.prems" b by auto
      with 3 unf mono b show ?thesis by (cases i "nat mid" rule: linorder_cases) auto
    qed
  qed
qed

lemma FieldWithNumber_Some_iff:
  "FieldsAreSorted m \<Longrightarrow> FieldWithNumber m n = Some i \<longleftrightarrow> i < length m \<and> FieldNumber (m ! i) = n"
  by (auto simp: FieldWithNumber_def FieldWithNumber_loop_spec)

lemma FieldWithNumber_None_iff:
  assumes "FieldsAreSorted m"
  shows "FieldWithNumber m n = None \<longleftrightarrow> n \<notin> FieldNumber ` set m"
proof -
  have "n \<in> FieldNumber ` set m \<longleftrightarrow> (\<exists>i. i < length m \<and> FieldNumber (m ! i) = n)"
    by (metis (mono_tags) image_iff in_set_conv_nth)
  then show ?thesis using FieldWithNumber_Some_iff [OF assms] by (metis not_Some_eq)
qed


section \<open>Well-formed messages\<close>

text \<open>
  What the constructors of the field classes establish and every operation keeps: field numbers
  are legal and strictly increasing, a field that is implicit or always present has a value, a
  stored enum value is one the parser accepts (or the default), a submessage is of the type of
  its field, and every \<^verbatim>\<open>SecretData\<close> carries the CRC of its bytes.
\<close>

definition secret_ok :: "crc_fns \<Rightarrow> SecretData \<Rightarrow> bool" where
  "secret_ok C s \<longleftrightarrow> s = SecretDataFromStringView C (sd_buffer s)"

fun wf_field :: "crc_fns \<Rightarrow> field \<Rightarrow> bool" where
  "wf_field C (Uint32Field n options v) \<longleftrightarrow> valid_field_number n \<and> (options = kExplicit \<or> v \<noteq> None)"
| "wf_field C (Uint64Field n options v) \<longleftrightarrow> valid_field_number n \<and> (options = kExplicit \<or> v \<noteq> None)"
| "wf_field C (BytesField n options v) \<longleftrightarrow> valid_field_number n \<and> (options = kExplicit \<or> v \<noteq> None)"
| "wf_field C (EnumField n is_valid d options v) \<longleftrightarrow>
     valid_field_number n \<and> (options = kExplicit \<or> v \<noteq> None) \<and> (options = kImplicit \<longrightarrow> d = 0) \<and>
     (case v of None \<Rightarrow> True | Some x \<Rightarrow> is_valid x \<or> (options \<noteq> kExplicit \<and> x = d))"
| "wf_field C (SecretDataField n options v) \<longleftrightarrow>
     valid_field_number n \<and> (options = kExplicit \<or> v \<noteq> None) \<and> list_all (secret_ok C) (case v of None \<Rightarrow> [] | Some s \<Rightarrow> [s])"
| "wf_field C (RepeatedSecretDataField n vs) \<longleftrightarrow> valid_field_number n \<and> list_all (secret_ok C) vs"
| "wf_field C (MessageField n options proto v) \<longleftrightarrow>
     valid_field_number n \<and> options \<noteq> kImplicit \<and> (options = kExplicit \<or> v \<noteq> None) \<and>
     FieldsAreSorted proto \<and> list_all (wf_field C) proto \<and> Message_Clear proto = proto \<and>
     (case v of None \<Rightarrow> True | Some m \<Rightarrow> list_all (wf_field C) m \<and> Message_Clear m = proto)"
| "wf_field C (RepeatedMessageField n proto vs) \<longleftrightarrow>
     valid_field_number n \<and> FieldsAreSorted proto \<and> list_all (wf_field C) proto \<and> Message_Clear proto = proto \<and>
     list_all (\<lambda>m. list_all (wf_field C) m \<and> Message_Clear m = proto) vs"

definition wf_message :: "crc_fns \<Rightarrow> message \<Rightarrow> bool" where
  "wf_message C m \<longleftrightarrow> FieldsAreSorted m \<and> list_all (wf_field C) m"

lemma options_cases [simp]: "options = kAlwaysPresent \<or> options = kImplicit \<longleftrightarrow> options \<noteq> kExplicit"
  by (cases options) simp_all

lemma FieldNumber_Clear [simp]: "FieldNumber (Field_Clear f) = FieldNumber f"
  by (cases f) simp_all

lemma GetWireType_Clear [simp]: "GetWireType (Field_Clear f) = GetWireType f"
  by (cases f) simp_all

lemma Field_Clear_idem [simp]: "Field_Clear (Field_Clear f) = Field_Clear f"
  by (cases f) simp_all

lemma Message_Clear_idem [simp]: "Message_Clear (Message_Clear m) = Message_Clear m"
  by (simp add: Message_Clear_def)

lemma length_Message_Clear [simp]: "length (Message_Clear m) = length m"
  by (simp add: Message_Clear_def)

lemma Clear_eq_numbers: "Message_Clear m = Message_Clear m' \<Longrightarrow> map FieldNumber m = map FieldNumber m'"
proof -
  assume "Message_Clear m = Message_Clear m'"
  then have "map FieldNumber (Message_Clear m) = map FieldNumber (Message_Clear m')" by simp
  then show ?thesis by (simp add: Message_Clear_def comp_def)
qed

lemma Clear_eq_sorted: "Message_Clear m = Message_Clear m' \<Longrightarrow> FieldsAreSorted m = FieldsAreSorted m'"
  unfolding FieldsAreSorted_iff by (drule Clear_eq_numbers) (simp only:)

lemma FieldsAreSorted_Clear [simp]: "FieldsAreSorted (Message_Clear m) = FieldsAreSorted m"
  by (rule Clear_eq_sorted) simp

lemma wf_field_number: "wf_field C f \<Longrightarrow> valid_field_number (FieldNumber f)"
  by (cases f) auto

lemma secret_ok_default [simp]: "secret_ok C SecretData_default"
  by (simp add: secret_ok_def SecretData_default_def SecretDataFromStringView_def)

lemma secret_ok_view [simp]: "secret_ok C (SecretData_of_view_and_crc v (ComputeCrc32c C v))"
  by (simp add: secret_ok_def SecretData_of_view_and_crc_def SecretDataFromStringView_def)

lemma secret_ok_crc: "secret_ok C s \<Longrightarrow> crc_laws C \<Longrightarrow> GetCrc32c s = ComputeCrc32c C (sd_buffer s)"
  unfolding secret_ok_def
  by (cases s) (auto simp: GetCrc32c_def SecretDataFromStringView_def crc_laws_empty)

lemma secret_ok_validates: "secret_ok C s \<Longrightarrow> crc_laws C \<Longrightarrow> ValidateCrc32c C s = OkStatus"
  by (simp add: ValidateCrc32c_def secret_ok_crc)

lemma wf_field_Clear: "wf_field C f \<Longrightarrow> wf_field C (Field_Clear f)"
  by (cases f) (auto simp: Uint32Field_Clear_def Uint64Field_Clear_def BytesField_Clear_def EnumField_Clear_def
      SecretDataField_Clear_def split: option.split, metis ProtoFieldOptions.exhaust)

lemma wf_message_Clear: "wf_message C m \<Longrightarrow> wf_message C (Message_Clear m)"
  using FieldsAreSorted_Clear [of m]
  by (simp add: wf_message_def) (simp add: Message_Clear_def list_all_iff wf_field_Clear)

lemma wf_messageI: "list_all (wf_field C) m \<Longrightarrow> Message_Clear m = p \<Longrightarrow> FieldsAreSorted p \<Longrightarrow> wf_message C m"
  by (auto simp: wf_message_def)

lemma wf_message_update:
  "wf_message C m \<Longrightarrow> i < length m \<Longrightarrow> wf_field C f \<Longrightarrow> Field_Clear f = Field_Clear (m ! i) \<Longrightarrow>
   wf_message C (m[i := f]) \<and> Message_Clear (m[i := f]) = Message_Clear m"
proof -
  assume a: "wf_message C m" "i < length m" "wf_field C f" "Field_Clear f = Field_Clear (m ! i)"
  then have c: "Message_Clear (m[i := f]) = Message_Clear m"
    by (simp add: Message_Clear_def map_update list_update_same_conv)
  have "list_all (wf_field C) (m[i := f])"
    using a set_update_subset_insert [of m i f] by (auto simp: wf_message_def list_all_iff)
  with a c show ?thesis using Clear_eq_sorted [OF c] by (simp add: wf_message_def)
qed

lemma ConsumeSubmessage_Some:
  assumes "ConsumeSubmessage C p msg st = Some (msg', st')"
  obtains sub sub' where "p msg sub = Some (msg', sub')" "length (remaining_view sub) < length (remaining_view st)"
proof -
  from assms obtain len st1 where s: "ConsumeVarintForSize C st = Some (len, st1)"
    by (auto simp: ConsumeSubmessage_def split: option.splits)
  with assms obtain sub' where q: "p msg (fst (SplitOffSubmessageState (unat len) st1)) = Some (msg', sub')"
    by (auto simp: ConsumeSubmessage_def split: option.splits if_splits prod.splits)
  obtain k where "advances C st k st1" "0 < k" using ConsumeVarintForSize_advances [OF s] by blast
  then have "length (remaining_view st1) < length (remaining_view st)" by (rule advances_pos_shrinks)
  then have "length (remaining_view (fst (SplitOffSubmessageState (unat len) st1))) < length (remaining_view st)"
    by (simp add: SplitOffSubmessageState_def)
  with q that show ?thesis by blast
qed

lemma ConsumeIntoMember_wf:
  assumes c: "ConsumeIntoMember C p f st = Some (f', st')" and w: "wf_field C f"
    and p: "\<And>x s x' s'. length (remaining_view s) < length (remaining_view st) \<Longrightarrow> p x s = Some (x', s') \<Longrightarrow>
      wf_message C x \<Longrightarrow> wf_message C x' \<and> Message_Clear x' = Message_Clear x"
  shows "wf_field C f' \<and> Field_Clear f' = Field_Clear f"
proof -
  have sub: "list_all (wf_field C) msg' \<and> Message_Clear msg' = Message_Clear msg"
    if "ConsumeSubmessage C p msg st = Some (msg', st')" "wf_message C msg" for msg msg'
    using that(1) by (rule ConsumeSubmessage_Some) (use p that(2) in \<open>auto simp: wf_message_def\<close>)
  show ?thesis
  proof (cases f)
    case (MessageField n options proto v)
    from c MessageField obtain msg' where "ConsumeSubmessage C p (value_or proto v) st = Some (msg', st')"
      and f': "f' = MessageField n options proto (Some msg')"
      by (auto simp: MessageField_ConsumeIntoMember_def split: option.splits)
    moreover have "wf_message C (value_or proto v) \<and> Message_Clear (value_or proto v) = proto"
      using w MessageField by (auto simp: value_or_def wf_message_def split: option.splits)
    ultimately have "list_all (wf_field C) msg' \<and> Message_Clear msg' = proto" using sub by simp
    with w MessageField f' show ?thesis by auto
  next
    case (RepeatedMessageField n proto vs)
    from c RepeatedMessageField obtain msg' where "ConsumeSubmessage C p proto st = Some (msg', st')"
      and f': "f' = RepeatedMessageField n proto (vs @ [msg'])"
      by (auto simp: RepeatedMessageField_ConsumeIntoMember_def split: option.splits)
    moreover have "wf_message C proto \<and> Message_Clear proto = proto"
      using w RepeatedMessageField by (auto simp: wf_message_def)
    ultimately have "list_all (wf_field C) msg' \<and> Message_Clear msg' = proto" using sub by simp
    with w RepeatedMessageField f' show ?thesis by auto
  qed (use c w in \<open>auto simp: Uint32Field_ConsumeIntoMember_def Uint64Field_ConsumeIntoMember_def
      BytesField_ConsumeIntoMember_def EnumField_ConsumeIntoMember_def SecretDataField_ConsumeIntoMember_def
      RepeatedSecretDataField_ConsumeIntoMember_def AdvanceAndGetCrc_eq split: option.splits if_splits\<close>)
qed

lemma ParseStep_wf:
  assumes c: "ParseStep C p m st = Some (m', st')" and w: "wf_message C m"
    and p: "\<And>x s x' s'. length (remaining_view s) < length (remaining_view st) \<Longrightarrow> p x s = Some (x', s') \<Longrightarrow>
      wf_message C x \<Longrightarrow> wf_message C x' \<and> Message_Clear x' = Message_Clear x"
  shows "wf_message C m' \<and> Message_Clear m' = Message_Clear m"
proof -
  from c obtain wt n st1 where t: "ConsumeIntoWireTypeAndFieldNumber C st = Some (wt, n, st1)"
    by (auto simp: ParseStep_def split: option.splits)
  then obtain k where "advances C st k st1" "0 < k" using ConsumeIntoWireTypeAndFieldNumber_advances by blast
  then have len: "length (remaining_view st1) < length (remaining_view st)" by (rule advances_pos_shrinks)
  show ?thesis
  proof (cases "FieldWithNumber m n = None \<or> GetWireType (m ! the (FieldWithNumber m n)) \<noteq> wt")
    case True
    with c t have "m' = m" by (simp add: ParseStep_def Let_def split: if_splits)
    with w show ?thesis by simp
  next
    case False
    then obtain i where f: "FieldWithNumber m n = Some i" by auto
    with c t False obtain f st2 where 2: "FieldWithNumber m n = Some i" "m' = m[i := f]"
      "ConsumeIntoMember C p (m ! i) st1 = Some (f, st2)"
      by (simp add: ParseStep_def split: option.splits) auto
    from w 2(1) have i: "i < length m" by (simp add: wf_message_def FieldWithNumber_Some_iff)
    then have "wf_field C (m ! i)" using w by (simp add: wf_message_def list_all_iff)
    with 2(3) have "wf_field C f \<and> Field_Clear f = Field_Clear (m ! i)"
      by (rule ConsumeIntoMember_wf) (rule p, use len in simp_all)
    with wf_message_update [OF w i] 2(2) show ?thesis by simp
  qed
qed

lemma Parse_wf:
  "Parse C m st = Some (m', st') \<Longrightarrow> wf_message C m \<Longrightarrow> wf_message C m' \<and> Message_Clear m' = Message_Clear m"
proof (induction rule: Parse_induct)
  case (step m st m1 st1 m' st')
  have "wf_message C m1 \<and> Message_Clear m1 = Message_Clear m"
    by (rule ParseStep_wf [OF step.hyps(2) step.prems]) (use step.IH in blast)
  with step show ?case by simp
qed simp


section \<open>The bytes of a message\<close>

text \<open>
  The abstract encoding the serializer implements and the parser inverts: the concatenation of the
  fields that are present, each a tag followed by a varint or by a length and that many bytes.
\<close>

definition length_delimited :: "u32 \<Rightarrow> bytes \<Rightarrow> bytes" where
  "length_delimited n bs = tag_bytes kLengthDelimited n @ varint_bytes (word_of_nat (length bs)) @ bs"

fun field_bytes :: "field \<Rightarrow> bytes" where
  "field_bytes (Uint32Field n options v) =
     (if Uint32Field_RequiresSerialization options v then tag_bytes kVarint n @ varint_bytes (ucast (the v)) else [])"
| "field_bytes (Uint64Field n options v) =
     (if Uint64Field_RequiresSerialization options v then tag_bytes kVarint n @ varint_bytes (the v) else [])"
| "field_bytes (BytesField n options v) =
     (if BytesField_RequiresSerialization options v then length_delimited n (the v) else [])"
| "field_bytes (EnumField n is_valid d options v) =
     (if EnumField_RequiresSerialization d options v then tag_bytes kVarint n @ varint_bytes (ucast (value_or d v)) else [])"
| "field_bytes (SecretDataField n options v) =
     (if SecretDataField_RequiresSerialization options v then length_delimited n (sd_buffer (the v)) else [])"
| "field_bytes (RepeatedSecretDataField n vs) = concat (map (\<lambda>s. length_delimited n (sd_buffer s)) vs)"
| "field_bytes (MessageField n options proto v) =
     (case v of None \<Rightarrow> [] | Some m \<Rightarrow> length_delimited n (concat (map field_bytes m)))"
| "field_bytes (RepeatedMessageField n proto vs) =
     concat (map (\<lambda>m. length_delimited n (concat (map field_bytes m))) vs)"

definition message_bytes :: "message \<Rightarrow> bytes" where
  "message_bytes m = concat (map field_bytes m)"

lemma message_bytes_simps [simp]:
  "message_bytes [] = []"
  "message_bytes (f # fs) = field_bytes f @ message_bytes fs"
  by (simp_all add: message_bytes_def)

lemma field_bytes_MessageField [simp]:
  "field_bytes (MessageField n options proto None) = []"
  "field_bytes (MessageField n options proto (Some m)) = length_delimited n (message_bytes m)"
  "field_bytes (RepeatedMessageField n proto []) = []"
  "field_bytes (RepeatedMessageField n proto (m # ms)) =
     length_delimited n (message_bytes m) @ field_bytes (RepeatedMessageField n proto ms)"
  by (simp_all add: message_bytes_def)

declare field_bytes.simps(7,8) [simp del]

lemma known_wire_types [simp]: "known_wire_type kVarint" "known_wire_type kLengthDelimited"
  by (simp_all add: known_wire_type_def)

lemma length_length_delimited:
  "valid_field_number n \<Longrightarrow> length (length_delimited n bs) =
     WireTypeAndFieldNumberLength kLengthDelimited n + VarintLength (word_of_nat (length bs)) + length bs"
  by (simp add: length_delimited_def tag_bytes_length varint_bytes_length)

lemma RepeatedSecretDataField_size_eq:
  "valid_field_number n \<Longrightarrow>
   RepeatedSecretDataField_GetSerializedSizeIncludingTag n vs = length (field_bytes (RepeatedSecretDataField n vs))"
  by (induction vs) (simp_all add: length_length_delimited Let_def)

lemma size_eq_bytes:
  "wf_field C f \<Longrightarrow> GetSerializedSizeIncludingTag f = length (field_bytes f)"
  "list_all (wf_field C) m \<Longrightarrow> ByteSizeLong m = length (message_bytes m)"
  "valid_field_number n \<Longrightarrow> list_all (list_all (wf_field C)) ms \<Longrightarrow>
   RepeatedMessageField_size n ms = length (field_bytes (RepeatedMessageField n proto ms))"
proof (induction f and m and n ms rule: GetSerializedSizeIncludingTag_ByteSizeLong_RepeatedMessageField_size.induct)
  case (9 n proto' msgs)
  have "list_all (list_all (wf_field C)) msgs" using 9 by (auto simp: list_all_iff)
  with 9 show ?case by (simp add: field_bytes.simps(8))
qed (simp_all add: Uint32Field_GetSerializedSizeIncludingTag_def Uint64Field_GetSerializedSizeIncludingTag_def
    BytesField_GetSerializedSizeIncludingTag_def EnumField_GetSerializedSizeIncludingTag_def
    SecretDataField_GetSerializedSizeIncludingTag_def RepeatedSecretDataField_size_eq tag_bytes_length
    varint_bytes_length length_length_delimited Let_def)

section \<open>Serialization writes these bytes\<close>

lemma write_tag_varint:
  assumes "valid_field_number n" and "known_wire_type wt"
    and "length (tag_bytes wt n @ varint_bytes v) \<le> length (output_buffer out)"
  obtains out1 out2 where "SerializeWireTypeAndFieldNumber C wt n out = Some out1"
    and "SerializeVarint C v out1 = Some out2" and "emits C True out (tag_bytes wt n @ varint_bytes v) out2"
proof -
  have "WireTypeAndFieldNumberLength wt n \<le> length (output_buffer out)"
    using assms by (simp add: tag_bytes_length)
  from SerializeWireTypeAndFieldNumber_emits [OF assms(1,2) this, of C True] obtain out1
    where 1: "SerializeWireTypeAndFieldNumber C wt n out = Some out1" and e1: "emits C True out (tag_bytes wt n) out1"
    by blast
  have "VarintLength v \<le> length (output_buffer out1)"
    using assms(3) emits_buffer [OF e1] by (simp add: varint_bytes_length)
  from SerializeVarint_emits [OF this, of C True] obtain out2
    where 2: "SerializeVarint C v out1 = Some out2" and e2: "emits C True out1 (varint_bytes v) out2"
    by blast
  show thesis by (rule that [OF 1 2]) (use emits_trans [OF e1 e2] in simp)
qed

lemma write_length_prefix:
  assumes "valid_field_number n" and "length (length_delimited n bs) \<le> length (output_buffer out)"
  obtains out1 out2 where "SerializeWireTypeAndFieldNumber C kLengthDelimited n out = Some out1"
    and "SerializeVarint C (word_of_nat (length bs)) out1 = Some out2"
    and "length bs \<le> length (output_buffer out2)"
    and "\<And>out3. emits C True out2 bs out3 \<Longrightarrow> emits C True out (length_delimited n bs) out3"
proof -
  have "length (tag_bytes kLengthDelimited n @ varint_bytes (word_of_nat (length bs))) \<le> length (output_buffer out)"
    using assms(2) by (simp add: length_delimited_def)
  from write_tag_varint [OF assms(1) known_wire_types(2) this, of C] obtain out1 out2
    where 1: "SerializeWireTypeAndFieldNumber C kLengthDelimited n out = Some out1"
      and 2: "SerializeVarint C (word_of_nat (length bs)) out1 = Some out2"
      and e: "emits C True out (tag_bytes kLengthDelimited n @ varint_bytes (word_of_nat (length bs))) out2" by blast
  show thesis
  proof (rule that [OF 1 2])
    show "length bs \<le> length (output_buffer out2)"
      using assms(2) emits_buffer [OF e] by (simp add: length_delimited_def)
    show "emits C True out (length_delimited n bs) out3" if "emits C True out2 bs out3" for out3
      using emits_trans [OF e that] by (simp add: length_delimited_def)
  qed
qed

lemma write_secret_emits:
  assumes "secret_ok C s" and "length (sd_buffer s) \<le> length (output_buffer out)"
  shows "emits C True out (sd_buffer s)
    (AdvanceWithCrc C (length (sd_buffer s)) (GetCrc32c s) (CopyToBuffer (sd_buffer s) out))"
  using AdvanceWithCrc_emits [OF assms(2), of C "GetCrc32c s"] secret_ok_crc [OF assms(1)]
  by (auto simp: emits_def)

lemma RepeatedSecretDataField_emits:
  "valid_field_number n \<Longrightarrow> list_all (secret_ok C) vs \<Longrightarrow>
   length (field_bytes (RepeatedSecretDataField n vs)) \<le> length (output_buffer out) \<Longrightarrow>
   \<exists>out'. RepeatedSecretDataField_SerializeWithTagInto C n vs out = Some out' \<and>
     emits C True out (field_bytes (RepeatedSecretDataField n vs)) out'"
proof (induction vs arbitrary: out)
  case Nil
  then show ?case by (simp add: emits_refl)
next
  case (Cons s vs)
  from Cons.prems have "length (length_delimited n (sd_buffer s)) \<le> length (output_buffer out)" by simp
  from write_length_prefix [OF Cons.prems(1) this, of C] obtain out1 out2
    where w: "SerializeWireTypeAndFieldNumber C kLengthDelimited n out = Some out1"
      "SerializeVarint C (word_of_nat (length (sd_buffer s))) out1 = Some out2"
      "length (sd_buffer s) \<le> length (output_buffer out2)"
      and e: "\<And>out3. emits C True out2 (sd_buffer s) out3 \<Longrightarrow> emits C True out (length_delimited n (sd_buffer s)) out3"
    by blast
  let ?out3 = "AdvanceWithCrc C (length (sd_buffer s)) (GetCrc32c s) (CopyToBuffer (sd_buffer s) out2)"
  have e3: "emits C True out (length_delimited n (sd_buffer s)) ?out3"
    using write_secret_emits [OF _ w(3), of C] Cons.prems(2) by (intro e) simp
  then have "length (field_bytes (RepeatedSecretDataField n vs)) \<le> length (output_buffer ?out3)"
    using Cons.prems(3) emits_buffer [OF e3] by simp
  with Cons.IH [OF Cons.prems(1), of ?out3] Cons.prems(2) obtain out'
    where r: "RepeatedSecretDataField_SerializeWithTagInto C n vs ?out3 = Some out'"
      and e4: "emits C True ?out3 (field_bytes (RepeatedSecretDataField n vs)) out'" by auto
  from w r emits_trans [OF e3 e4] show ?case by (simp add: Let_def)
qed


lemma len_add_le: "length (a @ b) \<le> length (output_buffer out) \<Longrightarrow> emits C ok out a out' \<Longrightarrow>
  length b \<le> length (output_buffer out')"
  using emits_buffer [of C ok out a out'] by simp

lemma Serialize_emits:
  "wf_field C f \<Longrightarrow> length (field_bytes f) \<le> length (output_buffer out) \<Longrightarrow>
     \<exists>out'. SerializeWithTagInto C f out = Some out' \<and> emits C True out (field_bytes f) out'"
  "list_all (wf_field C) m \<Longrightarrow> length (message_bytes m) \<le> length (output_buffer out) \<Longrightarrow>
     \<exists>out'. Serialize C m out = Some out' \<and> emits C True out (message_bytes m) out'"
  "valid_field_number n \<Longrightarrow> list_all (list_all (wf_field C)) ms \<Longrightarrow>
   length (field_bytes (RepeatedMessageField n [] ms)) \<le> length (output_buffer out) \<Longrightarrow>
     \<exists>out'. RepeatedMessageField_SerializeWithTagInto C n ms out = Some out' \<and>
       emits C True out (field_bytes (RepeatedMessageField n [] ms)) out'"
proof (induction C f out and C m out and C n ms out
    rule: SerializeWithTagInto_Serialize_RepeatedMessageField_SerializeWithTagInto.induct)
  case (1 C n options v out)
  show ?case
  proof (cases "Uint32Field_RequiresSerialization options v")
    case True
    with 1 show ?thesis
      using write_tag_varint [of n kVarint "ucast (the v)" out C]
      by (fastforce simp: Uint32Field_SerializeWithTagInto_def)
  qed (simp add: Uint32Field_SerializeWithTagInto_def emits_refl)
next
  case (2 C n options v out)
  show ?case
  proof (cases "Uint64Field_RequiresSerialization options v")
    case True
    with 2 show ?thesis
      using write_tag_varint [of n kVarint "the v" out C]
      by (fastforce simp: Uint64Field_SerializeWithTagInto_def)
  qed (simp add: Uint64Field_SerializeWithTagInto_def emits_refl)
next
  case (3 C n options v out)
  show ?case
  proof (cases "BytesField_RequiresSerialization options v")
    case True
    with 3 obtain out1 out2 where "SerializeWireTypeAndFieldNumber C kLengthDelimited n out = Some out1"
      "SerializeVarint C (word_of_nat (length (the v))) out1 = Some out2"
      and "length (the v) \<le> length (output_buffer out2)"
      and "\<And>out3. emits C True out2 (the v) out3 \<Longrightarrow> emits C True out (length_delimited n (the v)) out3"
      using write_length_prefix [of n "the v" out C] by auto
    with True CopyToBuffer_emits [of "the v" out2 C True] show ?thesis
      by (simp add: BytesField_SerializeWithTagInto_def Let_def)
  qed (simp add: BytesField_SerializeWithTagInto_def emits_refl)
next
  case (4 C n is_valid d options v out)
  show ?case
  proof (cases "EnumField_RequiresSerialization d options v")
    case True
    with 4 show ?thesis
      using write_tag_varint [of n kVarint "ucast (value_or d v)" out C]
      by (fastforce simp: EnumField_SerializeWithTagInto_def)
  qed (simp add: EnumField_SerializeWithTagInto_def emits_refl)
next
  case (5 C n options v out)
  show ?case
  proof (cases "SecretDataField_RequiresSerialization options v")
    case True
    with 5 obtain s where s: "v = Some s" "secret_ok C s"
      by (auto simp: SecretDataField_RequiresSerialization_def split: ProtoFieldOptions.splits)
    with True 5 obtain out1 out2 where "SerializeWireTypeAndFieldNumber C kLengthDelimited n out = Some out1"
      "SerializeVarint C (word_of_nat (length (sd_buffer s))) out1 = Some out2"
      and "length (sd_buffer s) \<le> length (output_buffer out2)"
      and "\<And>out3. emits C True out2 (sd_buffer s) out3 \<Longrightarrow> emits C True out (length_delimited n (sd_buffer s)) out3"
      using write_length_prefix [of n "sd_buffer s" out C] by auto
    with True s write_secret_emits [of C s out2] show ?thesis
      by (simp add: SecretDataField_SerializeWithTagInto_def Let_def)
  qed (simp add: SecretDataField_SerializeWithTagInto_def emits_refl)
next
  case (6 C n vs out)
  then show ?case by (simp only: SerializeWithTagInto.simps wf_field.simps RepeatedSecretDataField_emits)
next
  case (7 C n options proto out)
  then show ?case by (simp add: emits_refl)
next
  case (8 C n options proto msg out)
  then have n: "valid_field_number n" and w: "list_all (wf_field C) msg"
    and fits: "length (length_delimited n (message_bytes msg)) \<le> length (output_buffer out)" by auto
  have size: "ByteSizeLong msg = length (message_bytes msg)" using size_eq_bytes(2) [OF w] .
  from write_length_prefix [OF n fits, of C] obtain out1 out2
    where 1: "SerializeWireTypeAndFieldNumber C kLengthDelimited n out = Some out1"
      and 2: "SerializeVarint C (word_of_nat (ByteSizeLong msg)) out1 = Some out2"
      and 3: "\<not> length (output_buffer out2) < ByteSizeLong msg"
      and e: "\<And>out3. emits C True out2 (message_bytes msg) out3 \<Longrightarrow> emits C True out (length_delimited n (message_bytes msg)) out3"
    unfolding size by (metis not_less)
  from "8.IH" [OF 1 refl 2 3 w] 1 2 3 e size show ?case by (fastforce simp: Let_def)
next
  case (9 C n proto msgs out)
  have "list_all (list_all (wf_field C)) msgs" using 9 by (auto simp: list_all_iff)
  with 9 show ?case by (simp add: field_bytes.simps(8))
next
  case (10 C out)
  then show ?case by (simp add: emits_refl)
next
  case (11 C f fs out)
  then obtain out1 where 1: "SerializeWithTagInto C f out = Some out1" and e1: "emits C True out (field_bytes f) out1" by auto
  with 11 len_add_le [OF _ e1, of "message_bytes fs"] obtain out2 where 2: "Serialize C fs out1 = Some out2"
    and e2: "emits C True out1 (message_bytes fs) out2" by auto
  from 1 2 emits_trans [OF e1 e2] show ?case by simp
next
  case (12 C n out)
  then show ?case by (simp add: emits_refl)
next
  case (13 C n msg msgs out)
  then have n: "valid_field_number n" and w: "list_all (wf_field C) msg" and ws: "list_all (list_all (wf_field C)) msgs"
    and fits: "length (length_delimited n (message_bytes msg)) \<le> length (output_buffer out)" by auto
  have size: "ByteSizeLong msg = length (message_bytes msg)" using size_eq_bytes(2) [OF w] .
  from write_length_prefix [OF n fits, of C] obtain out1 out2
    where 1: "SerializeWireTypeAndFieldNumber C kLengthDelimited n out = Some out1"
      and 2: "SerializeVarint C (word_of_nat (ByteSizeLong msg)) out1 = Some out2"
      and 3: "\<not> length (output_buffer out2) < ByteSizeLong msg"
      and e: "\<And>out3. emits C True out2 (message_bytes msg) out3 \<Longrightarrow> emits C True out (length_delimited n (message_bytes msg)) out3"
    unfolding size by (metis not_less)
  from "13.IH"(1) [OF 1 refl 2 3 w] 3 size e obtain out3 where 4: "Serialize C msg out2 = Some out3"
    and e4: "emits C True out (length_delimited n (message_bytes msg)) out3" by fastforce
  have "length (field_bytes (RepeatedMessageField n [] msgs)) \<le> length (output_buffer out3)"
    using "13.prems"(3) e4 by (simp add: emits_buffer)
  from "13.IH"(2) [OF 1 refl 2 3 4 n ws this] 1 2 3 4 e4 show ?case by (auto simp: Let_def dest: emits_trans [OF e4])
qed

section \<open>Parsing inverts serialization\<close>

lemma parse_item:
  assumes sorted: "FieldsAreSorted m" and i: "i < length m" and valid: "valid_field_number (FieldNumber (m ! i))"
    and view: "remaining_view st = tag_bytes (GetWireType (m ! i)) (FieldNumber (m ! i)) @ after_tag"
    and consume: "\<And>st1. remaining_view st1 = after_tag \<Longrightarrow>
      \<exists>st2. ConsumeIntoMember C (Parse C) (m ! i) st1 = Some (f', st2) \<and> remaining_view st2 = rest"
  shows "\<exists>st2. Parse C m st = Parse C (m[i := f']) st2 \<and> remaining_view st2 = rest"
proof -
  have "known_wire_type (GetWireType (m ! i))" by (cases "m ! i") simp_all
  from ConsumeIntoWireTypeAndFieldNumber_tag_bytes [OF valid this view, of C] obtain st1
    where t: "ConsumeIntoWireTypeAndFieldNumber C st = Some (GetWireType (m ! i), FieldNumber (m ! i), st1)"
      and r1: "remaining_view st1 = after_tag" by blast
  from consume [OF r1] obtain st2 where c: "ConsumeIntoMember C (Parse C) (m ! i) st1 = Some (f', st2)"
    and r2: "remaining_view st2 = rest" by blast
  have fld: "FieldWithNumber m (FieldNumber (m ! i)) = Some i"
    using sorted i by (simp add: FieldWithNumber_Some_iff)
  have "\<not> ParsingDone st" using view by (simp add: ParsingDone_def tag_bytes_def)
  then have "Parse C m st = Parse C (m[i := f']) st2"
    by (subst Parse_loop) (simp add: ParseStep_def t fld c)
  with r2 show ?thesis by blast
qed

lemma consume_length:
  assumes "length bs < 2 ^ 32" and "remaining_view st = varint_bytes (word_of_nat (length bs)) @ bs @ rest"
  obtains st1 where "ConsumeVarintForSize C st = Some (word_of_nat (length bs), st1)"
    and "remaining_view st1 = bs @ rest" and "unat (word_of_nat (length bs) :: u32) = length bs"
  using ConsumeVarintForSize_varint_bytes [OF assms, of C] assms(1)
  by (auto simp: unsigned_of_nat take_bit_nat_eq_self)

lemma consume_bytes:
  assumes "length bs < 2 ^ 32" and "remaining_view st = varint_bytes (word_of_nat (length bs)) @ bs @ rest"
  shows "\<exists>st'. ConsumeBytesReturnStringView C st = Some (bs, st') \<and> remaining_view st' = rest"
  by (rule consume_length [OF assms, of C]) (simp add: ConsumeBytesReturnStringView_def)

lemma consume_secret:
  assumes "length bs < 2 ^ 32" and "remaining_view st = varint_bytes (word_of_nat (length bs)) @ bs @ rest"
  shows "\<exists>st'. SecretDataField_ConsumeIntoMember C st = Some (Some (SecretDataFromStringView C bs), st') \<and>
      remaining_view st' = rest"
    and "\<exists>st'. RepeatedSecretDataField_ConsumeIntoMember C vs st = Some (vs @ [SecretDataFromStringView C bs], st') \<and>
      remaining_view st' = rest"
  by (rule consume_length [OF assms, of C], simp add: SecretDataField_ConsumeIntoMember_def
      RepeatedSecretDataField_ConsumeIntoMember_def AdvanceAndGetCrc_eq SecretData_of_view_and_crc_def
      SecretDataFromStringView_def)+

text \<open>What parsing does at a field \<open>f\<close>, from the cleared field, on the bytes of \<open>f\<close>.\<close>

definition field_parses :: "crc_fns \<Rightarrow> field \<Rightarrow> bool" where
  "field_parses C f \<longleftrightarrow>
     (\<forall>m i st rest. FieldsAreSorted m \<longrightarrow> i < length m \<longrightarrow> m ! i = Field_Clear f \<longrightarrow>
        remaining_view st = field_bytes f @ rest \<longrightarrow>
        (\<exists>st'. Parse C m st = Parse C (m[i := f]) st' \<and> remaining_view st' = rest))"

lemma field_parsesD:
  "field_parses C f \<Longrightarrow> FieldsAreSorted m \<Longrightarrow> i < length m \<Longrightarrow> m ! i = Field_Clear f \<Longrightarrow>
   remaining_view st = field_bytes f @ rest \<Longrightarrow>
   \<exists>st'. Parse C m st = Parse C (m[i := f]) st' \<and> remaining_view st' = rest"
  unfolding field_parses_def by blast

lemma fields_parse:
  "list_all (field_parses C) fs \<Longrightarrow> FieldsAreSorted (pre @ map Field_Clear fs) \<Longrightarrow>
   remaining_view st = message_bytes fs @ rest \<Longrightarrow>
   \<exists>st'. Parse C (pre @ map Field_Clear fs) st = Parse C (pre @ fs) st' \<and> remaining_view st' = rest"
proof (induction fs arbitrary: pre st)
  case Nil
  then show ?case by auto
next
  case (Cons f fs)
  let ?m = "pre @ map Field_Clear (f # fs)"
  have "field_parses C f" using Cons.prems by simp
  then have "\<exists>st'. Parse C ?m st = Parse C (?m[length pre := f]) st' \<and> remaining_view st' = message_bytes fs @ rest"
    by (rule field_parsesD) (use Cons.prems in \<open>simp_all add: nth_append\<close>)
  then obtain st1 where 1: "Parse C ?m st = Parse C ((pre @ [f]) @ map Field_Clear fs) st1"
    and r1: "remaining_view st1 = message_bytes fs @ rest" by auto
  have "FieldsAreSorted ((pre @ [f]) @ map Field_Clear fs)"
    using Cons.prems(2) by (simp add: FieldsAreSorted_iff)
  from Cons.IH [OF _ this r1] Cons.prems(1) 1 show ?case by simp
qed

lemma message_parses:
  assumes "list_all (field_parses C) m" and "FieldsAreSorted m" and "remaining_view st = message_bytes m"
  shows "\<exists>st'. Parse C (Message_Clear m) st = Some (m, st') \<and> ParsingDone st'"
proof -
  have "FieldsAreSorted ([] @ map Field_Clear m)" using assms(2) FieldsAreSorted_Clear [of m] by (simp add: Message_Clear_def)
  from fields_parse [OF assms(1) this, of st "[]"] assms(3) obtain st'
    where "Parse C (Message_Clear m) st = Parse C m st'" "remaining_view st' = []"
    by (auto simp: Message_Clear_def)
  then show ?thesis by (subst (asm) Parse_loop [of C m st']) (auto simp: ParsingDone_def)
qed

lemma consume_submessage:
  assumes parses: "list_all (field_parses C) msg" and sorted: "FieldsAreSorted msg"
    and small: "length (message_bytes msg) < 2 ^ 32"
    and view: "remaining_view st = varint_bytes (word_of_nat (length (message_bytes msg))) @ message_bytes msg @ rest"
  shows "\<exists>st'. ConsumeSubmessage C (Parse C) (Message_Clear msg) st = Some (msg, st') \<and> remaining_view st' = rest"
proof -
  from consume_length [OF small view, of C] obtain st1
    where s: "ConsumeVarintForSize C st = Some (word_of_nat (length (message_bytes msg)), st1)"
      and r: "remaining_view st1 = message_bytes msg @ rest"
      and u: "unat (word_of_nat (length (message_bytes msg)) :: u32) = length (message_bytes msg)" by blast
  let ?sub = "\<lparr>remaining_view = message_bytes msg, crc_to_update = crc_to_update st1\<rparr>"
  from message_parses [OF parses sorted, of ?sub] obtain sub'
    where "Parse C (Message_Clear msg) ?sub = Some (msg, sub')" "ParsingDone sub'" by auto
  with s r u show ?thesis by (simp add: ConsumeSubmessage_def SplitOffSubmessageState_def)
qed

lemma empty_field_parses: "field_bytes f = [] \<Longrightarrow> Field_Clear f = f \<Longrightarrow> field_parses C f"
  unfolding field_parses_def by (auto simp: list_update_same_conv)

lemma single_field_parses:
  assumes "valid_field_number (FieldNumber f)"
    and "field_bytes f = tag_bytes (GetWireType f) (FieldNumber f) @ body"
    and "\<And>st rest. remaining_view st = body @ rest \<Longrightarrow>
      \<exists>st'. ConsumeIntoMember C (Parse C) (Field_Clear f) st = Some (f, st') \<and> remaining_view st' = rest"
  shows "field_parses C f"
  unfolding field_parses_def
proof (intro allI impI)
  fix m i and st :: ParsingState and rest
  assume a: "FieldsAreSorted m" "i < length m" "m ! i = Field_Clear f" "remaining_view st = field_bytes f @ rest"
  show "\<exists>st'. Parse C m st = Parse C (m[i := f]) st' \<and> remaining_view st' = rest"
    by (rule parse_item [where after_tag = "body @ rest"]) (use a assms in simp_all)
qed

lemma Uint32Field_parses: "wf_field C (Uint32Field n options v) \<Longrightarrow> field_parses C (Uint32Field n options v)"
proof -
  assume w: "wf_field C (Uint32Field n options v)"
  show ?thesis
  proof (cases "Uint32Field_RequiresSerialization options v")
    case True
    then obtain x where x: "v = Some x" using w by (cases v) (auto simp: Uint32Field_RequiresSerialization_def)
    show ?thesis
      by (rule single_field_parses [where body = "varint_bytes (ucast (the v))"])
        (use True w x in \<open>auto simp: Uint32Field_ConsumeIntoMember_def dest: ConsumeVarintIntoUint32_varint_bytes [of _ _ _ C]\<close>)
  next
    case False
    with w show ?thesis
      by (intro empty_field_parses) (auto simp: Uint32Field_RequiresSerialization_def Uint32Field_Clear_def value_or_def
          split: ProtoFieldOptions.splits option.splits)
  qed
qed

lemma Uint64Field_parses: "wf_field C (Uint64Field n options v) \<Longrightarrow> field_parses C (Uint64Field n options v)"
proof -
  assume w: "wf_field C (Uint64Field n options v)"
  show ?thesis
  proof (cases "Uint64Field_RequiresSerialization options v")
    case True
    then obtain x where x: "v = Some x" using w by (cases v) (auto simp: Uint64Field_RequiresSerialization_def)
    show ?thesis
      by (rule single_field_parses [where body = "varint_bytes (the v)"])
        (use True w x in \<open>auto simp: Uint64Field_ConsumeIntoMember_def dest: ConsumeVarintIntoUint64_varint_bytes [of _ _ _ C]\<close>)
  next
    case False
    with w show ?thesis
      by (intro empty_field_parses) (auto simp: Uint64Field_RequiresSerialization_def Uint64Field_Clear_def value_or_def
          split: ProtoFieldOptions.splits option.splits)
  qed
qed

lemma BytesField_parses:
  assumes w: "wf_field C (BytesField n options v)" and small: "length (field_bytes (BytesField n options v)) < 2 ^ 32"
  shows "field_parses C (BytesField n options v)"
proof (cases "BytesField_RequiresSerialization options v")
  case True
  then obtain x where x: "v = Some x" using w by (cases v) (auto simp: BytesField_RequiresSerialization_def)
  show ?thesis
    by (rule single_field_parses [where body = "varint_bytes (word_of_nat (length x)) @ x"])
      (use True w x small in \<open>auto simp: length_delimited_def BytesField_ConsumeIntoMember_def dest: consume_bytes [of x _ _ C, rotated]\<close>)
next
  case False
  with w show ?thesis
    by (intro empty_field_parses) (auto simp: BytesField_RequiresSerialization_def BytesField_Clear_def
        split: ProtoFieldOptions.splits option.splits)
qed

lemma EnumField_parses:
  assumes w: "wf_field C (EnumField n is_valid d options v)"
  shows "field_parses C (EnumField n is_valid d options v)"
proof (cases "EnumField_RequiresSerialization d options v")
  case True
  then obtain x where x: "v = Some x" using w by (cases v) (auto simp: EnumField_RequiresSerialization_def)
  show ?thesis
    by (rule single_field_parses [where body = "varint_bytes (ucast x)"])
      (use True w x in \<open>auto simp: EnumField_ConsumeIntoMember_def EnumField_Clear_def value_or_def
         dest: ConsumeVarintIntoUint32_varint_bytes [of _ _ _ C]\<close>)
next
  case False
  with w show ?thesis
    by (intro empty_field_parses) (auto simp: EnumField_RequiresSerialization_def EnumField_Clear_def value_or_def
        split: ProtoFieldOptions.splits option.splits)
qed

lemma SecretDataField_parses:
  assumes w: "wf_field C (SecretDataField n options v)"
    and small: "length (field_bytes (SecretDataField n options v)) < 2 ^ 32"
  shows "field_parses C (SecretDataField n options v)"
proof (cases "SecretDataField_RequiresSerialization options v")
  case True
  then obtain x where x: "v = Some x" using w by (cases v) (auto simp: SecretDataField_RequiresSerialization_def)
  with w have "SecretDataFromStringView C (sd_buffer x) = x" by (simp add: secret_ok_def)
  then show ?thesis using True w x small
    by (intro single_field_parses [where body = "varint_bytes (word_of_nat (length (sd_buffer x))) @ sd_buffer x"])
      (auto simp: length_delimited_def dest: consume_secret(1) [of "sd_buffer x" _ _ C, rotated])
next
  case False
  with w show ?thesis
    by (intro empty_field_parses) (auto simp: SecretDataField_RequiresSerialization_def SecretDataField_Clear_def
        SecretDataEquals_def SecretData_default_def secret_ok_def SecretDataFromStringView_def
        split: ProtoFieldOptions.splits option.splits)
qed


text \<open>
  A repeated field is parsed one element at a time, each appended to the elements already there.
\<close>

lemma repeated_parses:
  assumes valid: "valid_field_number n"
    and mk: "\<And>vs. FieldNumber (mk vs) = n" "\<And>vs. GetWireType (mk vs) = kLengthDelimited"
    and one: "\<And>v pre st rest. v \<in> set vs \<Longrightarrow>
      remaining_view st = varint_bytes (word_of_nat (length (enc v))) @ enc v @ rest \<Longrightarrow>
      \<exists>st'. ConsumeIntoMember C (Parse C) (mk pre) st = Some (mk (pre @ [v]), st') \<and> remaining_view st' = rest"
  shows "FieldsAreSorted m \<Longrightarrow> i < length m \<Longrightarrow> m ! i = mk pre \<Longrightarrow>
    remaining_view st = concat (map (\<lambda>v. length_delimited n (enc v)) vs) @ rest \<Longrightarrow>
    \<exists>st'. Parse C m st = Parse C (m[i := mk (pre @ vs)]) st' \<and> remaining_view st' = rest"
  using one
proof (induction vs arbitrary: m pre st)
  case Nil
  then have "m[i := mk (pre @ [])] = m" by (metis append_Nil2 list_update_id)
  with Nil show ?case by auto
next
  case (Cons v vs)
  let ?tail = "concat (map (\<lambda>v. length_delimited n (enc v)) vs) @ rest"
  have "\<exists>st'. Parse C m st = Parse C (m[i := mk (pre @ [v])]) st' \<and> remaining_view st' = ?tail"
    by (rule parse_item [where after_tag = "varint_bytes (word_of_nat (length (enc v))) @ enc v @ ?tail"])
      (use Cons.prems valid mk in \<open>simp_all add: length_delimited_def\<close>)
  then obtain st1 where 1: "Parse C m st = Parse C (m[i := mk (pre @ [v])]) st1" and r: "remaining_view st1 = ?tail"
    by blast
  let ?m = "m[i := mk (pre @ [v])]"
  have "map FieldNumber ?m = map FieldNumber m"
    using Cons.prems(2,3) mk(1) by (metis list_update_id map_update)
  then have "FieldsAreSorted ?m" using Cons.prems(1) by (simp add: FieldsAreSorted_iff)
  then have "\<exists>st'. Parse C ?m st1 = Parse C (?m[i := mk ((pre @ [v]) @ vs)]) st' \<and> remaining_view st' = rest"
    by (rule Cons.IH) (use Cons.prems r in simp_all)
  with 1 show ?case by simp
qed

lemma RepeatedSecretDataField_parses:
  assumes w: "wf_field C (RepeatedSecretDataField n vs)"
    and small: "length (field_bytes (RepeatedSecretDataField n vs)) < 2 ^ 32"
  shows "field_parses C (RepeatedSecretDataField n vs)"
  unfolding field_parses_def
proof (intro allI impI)
  fix m i and st :: ParsingState and rest
  assume a: "FieldsAreSorted m" "i < length m" "m ! i = Field_Clear (RepeatedSecretDataField n vs)"
    "remaining_view st = field_bytes (RepeatedSecretDataField n vs) @ rest"
  have len: "length (sd_buffer s) < 2 ^ 32" if "s \<in> set vs" for s
  proof -
    have "length (length_delimited n (sd_buffer s)) \<le> length (field_bytes (RepeatedSecretDataField n vs))"
      using that by (auto simp: length_concat comp_def intro!: member_le_sum_list)
    with small show ?thesis by (simp add: length_delimited_def)
  qed
  have "\<exists>st'. Parse C m st = Parse C (m[i := RepeatedSecretDataField n ([] @ vs)]) st' \<and> remaining_view st' = rest"
  proof (rule repeated_parses [where enc = sd_buffer])
    fix s pre and st :: ParsingState and rest
    assume s: "s \<in> set vs" and v: "remaining_view st = varint_bytes (word_of_nat (length (sd_buffer s))) @ sd_buffer s @ rest"
    have "SecretDataFromStringView C (sd_buffer s) = s" using w s by (simp add: list_all_iff secret_ok_def)
    with consume_secret(2) [OF len [OF s] v, of C pre]
    show "\<exists>st'. ConsumeIntoMember C (Parse C) (RepeatedSecretDataField n pre) st =
        Some (RepeatedSecretDataField n (pre @ [s]), st') \<and> remaining_view st' = rest" by auto
  qed (use a w in simp_all)
  then show "\<exists>st'. Parse C m st = Parse C (m[i := RepeatedSecretDataField n vs]) st' \<and> remaining_view st' = rest"
    by simp
qed

lemma RepeatedMessageField_parses:
  assumes w: "wf_field C (RepeatedMessageField n proto vs)"
    and small: "length (field_bytes (RepeatedMessageField n proto vs)) < 2 ^ 32"
    and ih: "\<And>x. x \<in> set vs \<Longrightarrow> length (message_bytes x) < 2 ^ 32 \<Longrightarrow> list_all (field_parses C) x"
  shows "field_parses C (RepeatedMessageField n proto vs)"
  unfolding field_parses_def
proof (intro allI impI)
  fix m i and st :: ParsingState and rest
  assume a: "FieldsAreSorted m" "i < length m" "m ! i = Field_Clear (RepeatedMessageField n proto vs)"
    "remaining_view st = field_bytes (RepeatedMessageField n proto vs) @ rest"
  have bytes: "field_bytes (RepeatedMessageField n proto vs) = concat (map (\<lambda>x. length_delimited n (message_bytes x)) vs)"
    by (simp add: field_bytes.simps(8) message_bytes_def)
  have len: "length (message_bytes x) < 2 ^ 32" if "x \<in> set vs" for x
  proof -
    have "length (length_delimited n (message_bytes x)) \<le> length (field_bytes (RepeatedMessageField n proto vs))"
      using that by (auto simp: bytes length_concat comp_def intro!: member_le_sum_list)
    with small show ?thesis by (simp add: length_delimited_def)
  qed
  have "\<exists>st'. Parse C m st = Parse C (m[i := RepeatedMessageField n proto ([] @ vs)]) st' \<and> remaining_view st' = rest"
  proof (rule repeated_parses [where enc = message_bytes])
    fix x pre and st :: ParsingState and rest
    assume x: "x \<in> set vs"
      and v: "remaining_view st = varint_bytes (word_of_nat (length (message_bytes x))) @ message_bytes x @ rest"
    have c: "Message_Clear x = proto" and s: "FieldsAreSorted x"
      using w x by (auto simp: list_all_iff)
    from consume_submessage [OF ih [OF x len [OF x]] s len [OF x] v] c
    show "\<exists>st'. ConsumeIntoMember C (Parse C) (RepeatedMessageField n proto pre) st =
        Some (RepeatedMessageField n proto (pre @ [x]), st') \<and> remaining_view st' = rest"
      by (auto simp: RepeatedMessageField_ConsumeIntoMember_def)
  qed (use a w bytes in simp_all)
  then show "\<exists>st'. Parse C m st = Parse C (m[i := RepeatedMessageField n proto vs]) st' \<and> remaining_view st' = rest"
    by simp
qed

lemma MessageField_parses:
  assumes w: "wf_field C (MessageField n options proto v)"
    and small: "length (field_bytes (MessageField n options proto v)) < 2 ^ 32"
    and ih: "\<And>x. v = Some x \<Longrightarrow> length (message_bytes x) < 2 ^ 32 \<Longrightarrow> list_all (field_parses C) x"
  shows "field_parses C (MessageField n options proto v)"
proof (cases v)
  case None
  with w show ?thesis by (intro empty_field_parses) auto
next
  case (Some x)
  with w have c: "Message_Clear x = proto" and s: "FieldsAreSorted x" by auto
  from small Some have len: "length (message_bytes x) < 2 ^ 32" by (simp add: length_delimited_def)
  note sub = consume_submessage [OF ih [OF Some len] s len]
  have vo: "value_or proto (if options = kAlwaysPresent then Some proto else None) = Message_Clear x"
    using c by (simp add: value_or_def)
  show ?thesis
    by (rule single_field_parses [where body = "varint_bytes (word_of_nat (length (message_bytes x))) @ message_bytes x"])
      (use w Some vo in \<open>auto simp: length_delimited_def MessageField_ConsumeIntoMember_def dest!: sub\<close>)
qed

lemma message_bytes_member: "f \<in> set m \<Longrightarrow> length (field_bytes f) \<le> length (message_bytes m)"
  by (auto simp: message_bytes_def length_concat comp_def intro!: member_le_sum_list)

lemma wf_field_parses: "wf_field C f \<Longrightarrow> length (field_bytes f) < 2 ^ 32 \<Longrightarrow> field_parses C f"
proof (induction f)
  case (MessageField n options proto v)
  show ?case
  proof (rule MessageField_parses [OF MessageField.prems])
    fix x assume x: "v = Some x" and len: "length (message_bytes x) < 2 ^ 32"
    show "list_all (field_parses C) x"
      unfolding list_all_iff
    proof
      fix f assume f: "f \<in> set x"
      show "field_parses C f"
        by (rule MessageField.IH(2) [of x]) (use x f len MessageField.prems message_bytes_member [OF f] in \<open>auto simp: list_all_iff\<close>)
    qed
  qed
next
  case (RepeatedMessageField n proto vs)
  show ?case
  proof (rule RepeatedMessageField_parses [OF RepeatedMessageField.prems])
    fix x assume x: "x \<in> set vs" and len: "length (message_bytes x) < 2 ^ 32"
    show "list_all (field_parses C) x"
      unfolding list_all_iff
    proof
      fix f assume f: "f \<in> set x"
      show "field_parses C f"
        by (rule RepeatedMessageField.IH(2) [of x]) (use x f len RepeatedMessageField.prems message_bytes_member [OF f] in \<open>auto simp: list_all_iff\<close>)
    qed
  qed
qed (simp_all only: Uint32Field_parses Uint64Field_parses BytesField_parses EnumField_parses SecretDataField_parses
    RepeatedSecretDataField_parses)

lemma Parse_message_bytes:
  assumes "wf_message C m" and "length (message_bytes m) < 2 ^ 32" and "remaining_view st = message_bytes m"
  shows "\<exists>st'. Parse C (Message_Clear m) st = Some (m, st') \<and> ParsingDone st'"
proof (rule message_parses)
  show "list_all (field_parses C) m"
    unfolding list_all_iff
  proof
    fix f assume f: "f \<in> set m"
    show "field_parses C f"
      using assms f message_bytes_member [OF f] by (intro wf_field_parses) (auto simp: wf_message_def list_all_iff)
  qed
qed (use assms in \<open>simp_all add: wf_message_def\<close>)

lemma ParseFromStringImpl_message_bytes:
  assumes "wf_message C m" and "length (message_bytes m) < 2 ^ 32" and "Message_Clear m0 = Message_Clear m"
  shows "\<exists>crc'. ParseFromStringImpl C m0 (message_bytes m) crc = Some (m, crc')"
  using Parse_message_bytes [OF assms(1,2), of "\<lparr>remaining_view = message_bytes m, crc_to_update = crc\<rparr>"] assms(3)
  by (auto simp: ParseFromStringImpl_def ParsingDone_def)

lemma ByteSizeLong_eq: "wf_message C m \<Longrightarrow> ByteSizeLong m = length (message_bytes m)"
  unfolding wf_message_def using size_eq_bytes(2) by blast

lemma SerializeAsString_bytes: "wf_message C m \<Longrightarrow> SerializeAsString C junk m = Some (message_bytes m)"
  using Serialize_emits(2) [of C m "\<lparr>written = [], output_buffer = map junk [0..<ByteSizeLong m], out_crc = None\<rparr>"]
  by (auto simp: SerializeAsString_def wf_message_def size_eq_bytes(2) emits_def)

lemma SerializeAsSecretData_bytes:
  assumes "wf_message C m" and "crc_laws C"
  shows "SerializeAsSecretData C junk m = Some (SecretDataFromStringView C (message_bytes m))"
proof -
  let ?out = "\<lparr>written = [], output_buffer = map junk [0..<ByteSizeLong m], out_crc = Some 0\<rparr>"
  from Serialize_emits(2) [of C m ?out] assms obtain out'
    where s: "Serialize C m ?out = Some out'" and e: "emits C True ?out (message_bytes m) out'"
    by (auto simp: wf_message_def size_eq_bytes(2))
  have "out_crc ?out = Some (ComputeCrc32c C [])" using assms(2) by (simp add: crc_laws_empty)
  with e assms(2) have "out_crc out' = Some (ComputeCrc32c C ([] @ message_bytes m))"
    unfolding emits_def by blast
  moreover have "ByteSizeLong m = length (message_bytes m)"
    by (rule ByteSizeLong_eq [OF assms(1)])
  ultimately show ?thesis using s e
    by (simp add: SerializeAsSecretData_def emits_def SecretData_of_view_and_crc_def SecretDataFromStringView_def)
qed


lemma ParseFromStringWithCrc_crc:
  assumes laws: "crc_laws C" and p: "ParseFromStringWithCrc C m0 view = Inr (m, crc)"
  shows "crc = ComputeCrc32c C view"
proof -
  let ?st = "\<lparr>remaining_view = view, crc_to_update = Some 0\<rparr>"
  from p obtain st' where r: "Parse C (Message_Clear m0) ?st = Some (m, st')" and c: "crc = the (crc_to_update st')"
    by (auto simp: ParseFromStringWithCrc_def ParseFromStringImpl_def split: option.splits if_splits)
  from Parse_advances [OF r] obtain k where a: "advances C ?st k st'" by blast
  have "crc_to_update ?st = Some (ComputeCrc32c C [])" using laws by (simp add: crc_laws_empty)
  from advances_crc [OF a laws this] have "crc_to_update st' = Some (ComputeCrc32c C (take k view))" by simp
  moreover have "take k view = view"
    using advances_remaining [OF a] Parse_done [OF r] by (simp add: ParsingDone_def)
  ultimately show ?thesis using c by simp
qed

lemma ParseFromStringWithCrc_wf:
  "ParseFromStringWithCrc C m0 view = Inr (m, crc) \<Longrightarrow> wf_message C m0 \<Longrightarrow>
   wf_message C m \<and> Message_Clear m = Message_Clear m0"
  by (auto simp: ParseFromStringWithCrc_def ParseFromStringImpl_def wf_message_Clear dest!: Parse_wf
      split: option.splits if_splits)

subsection \<open>The properties of messages\<close>

text \<open>
  (C1) Round trip: a well-formed message whose serialized size fits a 32-bit length serializes to
  exactly \<^verbatim>\<open>ByteSizeLong()\<close> bytes, whatever the fresh buffer held, and parsing these bytes into any
  message of the same type gives the message back.
\<close>

theorem serialize_parse_roundtrip:
  assumes "wf_message C m" and "ByteSizeLong m < 2 ^ 32" and "Message_Clear m0 = Message_Clear m"
  shows "\<exists>bs. SerializeAsString C junk m = Some bs \<and> length bs = ByteSizeLong m \<and> ParseFromString C m0 bs = Some m"
proof -
  have size: "ByteSizeLong m = length (message_bytes m)"
    by (rule ByteSizeLong_eq [OF assms(1)])
  with ParseFromStringImpl_message_bytes [OF assms(1) _ assms(3), of None] assms(2)
  have "ParseFromString C m0 (message_bytes m) = Some m" by (auto simp: ParseFromString_def)
  with size SerializeAsString_bytes [OF assms(1)] show ?thesis by auto
qed

definition sample_message :: "message" where
  "sample_message =
     [Uint32Field 1 kImplicit (Some 300),
      SecretDataField 2 kImplicit (Some (SecretDataFromStringView sum_crc [1, 2, 3])),
      MessageField 5 kExplicit [BytesField 1 kExplicit None] (Some [BytesField 1 kExplicit (Some [7])])]"

lemma sample_message_wf: "wf_message sum_crc sample_message"
  by (simp add: wf_message_def sample_message_def FieldsAreSorted_def valid_field_number_def secret_ok_def
      SecretDataFromStringView_def Message_Clear_def BytesField_Clear_def upt_rec)

lemma sample_message_size: "ByteSizeLong sample_message = 13"
  by code_simp

theorem serialize_parse_roundtrip_witness:
  "\<exists>bs. SerializeAsString sum_crc (\<lambda>_. 0) sample_message = Some bs \<and> length bs = ByteSizeLong sample_message \<and>
     ParseFromString sum_crc (Message_Clear sample_message) bs = Some sample_message"
  using serialize_parse_roundtrip [OF sample_message_wf, of "Message_Clear sample_message" "\<lambda>_. 0"]
  by (simp add: sample_message_size)

text \<open>
  (C2) End-to-end CRC: serializing a well-formed message as \<^verbatim>\<open>SecretData\<close> never aborts and stores the
  CRC of the bytes it wrote, composed from the CRCs the fields already carried; parsing these bytes
  returns that same CRC and the message.
\<close>

theorem secret_data_roundtrip:
  assumes "crc_laws C" and "wf_message C m" and "ByteSizeLong m < 2 ^ 32" and "Message_Clear m0 = Message_Clear m"
  shows "\<exists>s. SerializeAsSecretData C junk m = Some s \<and> length (sd_buffer s) = ByteSizeLong m \<and>
     ValidateCrc32c C s = OkStatus \<and> ParseFromStringWithCrc C m0 (sd_buffer s) = Inr (m, GetCrc32c s)"
proof -
  let ?s = "SecretDataFromStringView C (message_bytes m)"
  have size: "ByteSizeLong m = length (message_bytes m)"
    by (rule ByteSizeLong_eq [OF assms(2)])
  have ok: "secret_ok C ?s" by (simp add: secret_ok_def SecretDataFromStringView_def)
  from ParseFromStringImpl_message_bytes [OF assms(2) _ assms(4), of "Some 0"] assms(3) size obtain crc
    where p: "ParseFromStringWithCrc C m0 (message_bytes m) = Inr (m, crc)" by (auto simp: ParseFromStringWithCrc_def)
  have "crc = GetCrc32c ?s"
    using ParseFromStringWithCrc_crc [OF assms(1) p] secret_ok_crc [OF ok assms(1)] by (simp add: SecretDataFromStringView_def)
  moreover have "sd_buffer ?s = message_bytes m" by (simp add: SecretDataFromStringView_def)
  ultimately show ?thesis
    using SerializeAsSecretData_bytes [OF assms(2,1)] p size secret_ok_validates [OF ok assms(1)] by auto
qed

theorem secret_data_roundtrip_witness:
  "\<exists>s. SerializeAsSecretData sum_crc (\<lambda>_. 0) sample_message = Some s \<and>
     length (sd_buffer s) = ByteSizeLong sample_message \<and> ValidateCrc32c sum_crc s = OkStatus \<and>
     ParseFromStringWithCrc sum_crc (Message_Clear sample_message) (sd_buffer s) = Inr (sample_message, GetCrc32c s)"
  using secret_data_roundtrip [OF sum_crc_laws sample_message_wf, of "Message_Clear sample_message" "\<lambda>_. 0"]
  by (simp add: sample_message_size)

text \<open>
  (C3) Whatever bytes are parsed with a CRC: the returned CRC is the CRC of the whole input, the
  message still satisfies the class invariant (in particular every \<^verbatim>\<open>SecretData\<close> in it, at any depth,
  carries the CRC of its own bytes, and no optional a field relies on is empty) and it has the type
  of the message that was parsed into.
\<close>

theorem parse_with_crc_sound:
  assumes "crc_laws C" and "wf_message C m0" and "ParseFromStringWithCrc C m0 view = Inr (m, crc)"
  shows "crc = ComputeCrc32c C view \<and> wf_message C m \<and> Message_Clear m = Message_Clear m0"
  using ParseFromStringWithCrc_crc [OF assms(1,3)] ParseFromStringWithCrc_wf [OF assms(3,2)] by simp

theorem parse_with_crc_sound_witness:
  "\<exists>m. ParseFromStringWithCrc sum_crc sample_message [0x10, 9, 0x12, 2, 4, 5, 8, 200, 1] = Inr (m, 263) \<and>
     wf_message sum_crc m \<and> Message_Clear m = Message_Clear sample_message"
proof -
  have "\<exists>m. ParseFromStringWithCrc sum_crc sample_message [0x10, 9, 0x12, 2, 4, 5, 8, 200, 1] = Inr (m, 263)"
  proof -
    have "case ParseFromStringWithCrc sum_crc sample_message [0x10, 9, 0x12, 2, 4, 5, 8, 200, 1] of
        Inl _ \<Rightarrow> False | Inr (m, crc) \<Rightarrow> crc = 263"
      by code_simp
    then show ?thesis by (auto split: sum.splits)
  qed
  then show ?thesis using parse_with_crc_sound [OF sum_crc_laws sample_message_wf] by blast
qed

text \<open>
  The binary search of \<^verbatim>\<open>FieldWithNumber\<close> over sorted fields finds the field with the number, and
  reports that there is none exactly when no field has it.
\<close>

theorem FieldWithNumber_correct:
  assumes "FieldsAreSorted m"
  shows "(FieldWithNumber m n = Some i \<longleftrightarrow> i < length m \<and> FieldNumber (m ! i) = n) \<and>
     (FieldWithNumber m n = None \<longleftrightarrow> n \<notin> FieldNumber ` set m)"
  using FieldWithNumber_Some_iff [OF assms] FieldWithNumber_None_iff [OF assms] by blast

theorem FieldWithNumber_correct_witness:
  "FieldWithNumber sample_message 5 = Some 2 \<and> FieldWithNumber sample_message 4 = None"
  using sample_message_wf FieldWithNumber_correct [of sample_message 5 2] FieldWithNumber_correct [of sample_message 4 0]
  by (simp add: wf_message_def sample_message_def)

end
