(* ===== verification/Tink_Proto.thy ===== *)
theory Tink_Proto
  imports Proto_Message
begin

text \<open>
  The messages of \<^verbatim>\<open>proto/tink.proto\<close>: as records, which is how the keyset code uses them, and as the
  messages of the proto parser (\<^verbatim>\<open>proto/tink.tinkpb.h\<close>), with the fields, field numbers, options and
  enum validators declared there. Type URLs are byte strings, as in the source. An enum of proto3
  is open: a value that names no enumerator is kept, hence the last constructor of each enum.
\<close>

section \<open>Definitions\<close>

subsection \<open>Enums\<close>

datatype KeyStatusType = UNKNOWN_STATUS | ENABLED | DISABLED | DESTROYED | OtherStatus u32

datatype OutputPrefixType =
  UNKNOWN_PREFIX | TINK | LEGACY | RAW | CRUNCHY | WITH_ID_REQUIREMENT | OtherPrefix u32

datatype KeyMaterialType =
  UNKNOWN_KEYMATERIAL | SYMMETRIC | ASYMMETRIC_PRIVATE | ASYMMETRIC_PUBLIC | REMOTE | OtherMaterial u32

definition KeyStatusTypeTP_IsValid :: "u32 \<Rightarrow> bool" where
  "KeyStatusTypeTP_IsValid v \<longleftrightarrow> v \<in> {0, 1, 2, 3}"

definition OutputPrefixTypeTP_IsValid :: "u32 \<Rightarrow> bool" where
  "OutputPrefixTypeTP_IsValid v \<longleftrightarrow> v \<in> {0, 1, 2, 3, 4, 5}"

definition KeyMaterialTypeTP_IsValid :: "u32 \<Rightarrow> bool" where
  "KeyMaterialTypeTP_IsValid v \<longleftrightarrow> v \<in> {0, 1, 2, 3, 4}"

fun KeyStatusTypeTP_value :: "KeyStatusType \<Rightarrow> u32" where
  "KeyStatusTypeTP_value UNKNOWN_STATUS = 0"
| "KeyStatusTypeTP_value ENABLED = 1"
| "KeyStatusTypeTP_value DISABLED = 2"
| "KeyStatusTypeTP_value DESTROYED = 3"
| "KeyStatusTypeTP_value (OtherStatus v) = v"

definition KeyStatusTypeTP_of :: "u32 \<Rightarrow> KeyStatusType" where
  "KeyStatusTypeTP_of v =
     (if v = 0 then UNKNOWN_STATUS else if v = 1 then ENABLED else if v = 2 then DISABLED
      else if v = 3 then DESTROYED else OtherStatus v)"

fun OutputPrefixTypeTP_value :: "OutputPrefixType \<Rightarrow> u32" where
  "OutputPrefixTypeTP_value UNKNOWN_PREFIX = 0"
| "OutputPrefixTypeTP_value TINK = 1"
| "OutputPrefixTypeTP_value LEGACY = 2"
| "OutputPrefixTypeTP_value RAW = 3"
| "OutputPrefixTypeTP_value CRUNCHY = 4"
| "OutputPrefixTypeTP_value WITH_ID_REQUIREMENT = 5"
| "OutputPrefixTypeTP_value (OtherPrefix v) = v"

definition OutputPrefixTypeTP_of :: "u32 \<Rightarrow> OutputPrefixType" where
  "OutputPrefixTypeTP_of v =
     (if v = 0 then UNKNOWN_PREFIX else if v = 1 then TINK else if v = 2 then LEGACY
      else if v = 3 then RAW else if v = 4 then CRUNCHY else if v = 5 then WITH_ID_REQUIREMENT
      else OtherPrefix v)"

fun KeyMaterialTypeTP_value :: "KeyMaterialType \<Rightarrow> u32" where
  "KeyMaterialTypeTP_value UNKNOWN_KEYMATERIAL = 0"
| "KeyMaterialTypeTP_value SYMMETRIC = 1"
| "KeyMaterialTypeTP_value ASYMMETRIC_PRIVATE = 2"
| "KeyMaterialTypeTP_value ASYMMETRIC_PUBLIC = 3"
| "KeyMaterialTypeTP_value REMOTE = 4"
| "KeyMaterialTypeTP_value (OtherMaterial v) = v"

definition KeyMaterialTypeTP_of :: "u32 \<Rightarrow> KeyMaterialType" where
  "KeyMaterialTypeTP_of v =
     (if v = 0 then UNKNOWN_KEYMATERIAL else if v = 1 then SYMMETRIC else if v = 2 then ASYMMETRIC_PRIVATE
      else if v = 3 then ASYMMETRIC_PUBLIC else if v = 4 then REMOTE else OtherMaterial v)"

subsection \<open>Messages as records\<close>

record KeyTemplate =
  kt_type_url :: bytes
  kt_value :: bytes
  kt_output_prefix_type :: OutputPrefixType

record KeyData =
  type_url :: bytes
  key_value :: bytes
  key_material_type :: KeyMaterialType

record Key =
  key_data :: "KeyData option"
  status :: KeyStatusType
  key_id :: u32
  output_prefix_type :: OutputPrefixType

record Keyset =
  primary_key_id :: u32
  keys :: "Key list"

record KeyInfo =
  ki_type_url :: bytes
  ki_status :: KeyStatusType
  ki_key_id :: u32
  ki_output_prefix_type :: OutputPrefixType

record KeysetInfo =
  ki_primary_key_id :: u32
  key_info :: "KeyInfo list"

record EncryptedKeyset =
  encrypted_keyset :: bytes
  keyset_info :: "KeysetInfo option"

definition KeyData_default :: KeyData where
  "KeyData_default = \<lparr>type_url = [], key_value = [], key_material_type = UNKNOWN_KEYMATERIAL\<rparr>"

definition Key_default :: Key where
  "Key_default = \<lparr>key_data = None, status = UNKNOWN_STATUS, key_id = 0, output_prefix_type = UNKNOWN_PREFIX\<rparr>"

definition Keyset_default :: Keyset where
  "Keyset_default = \<lparr>primary_key_id = 0, keys = []\<rparr>"

definition KeysetInfo_default :: KeysetInfo where
  "KeysetInfo_default = \<lparr>ki_primary_key_id = 0, key_info = []\<rparr>"

definition EncryptedKeyset_default :: EncryptedKeyset where
  "EncryptedKeyset_default = \<lparr>encrypted_keyset = [], keyset_info = None\<rparr>"

text \<open>\<^verbatim>\<open>key.key_data()\<close> of a key without key data is the default instance.\<close>

definition get_key_data :: "Key \<Rightarrow> KeyData" where
  "get_key_data k = value_or KeyData_default (key_data k)"

subsection \<open>MergeFrom and CopyFrom\<close>

definition KeyDataTP_MergeFrom :: "KeyData \<Rightarrow> KeyData \<Rightarrow> KeyData" where
  "KeyDataTP_MergeFrom self other =
     self\<lparr>type_url := type_url other, key_value := key_value other, key_material_type := key_material_type other\<rparr>"

definition KeyTP_MergeFrom :: "Key \<Rightarrow> Key \<Rightarrow> Key" where
  "KeyTP_MergeFrom self other =
     (let self1 = (case key_data other of
                     None \<Rightarrow> self
                   | Some kd \<Rightarrow> self\<lparr>key_data := Some (KeyDataTP_MergeFrom (get_key_data self) kd)\<rparr>)
      in self1\<lparr>status := status other, key_id := key_id other, output_prefix_type := output_prefix_type other\<rparr>)"

definition KeysetTP_MergeFrom :: "Keyset \<Rightarrow> Keyset \<Rightarrow> Keyset" where
  "KeysetTP_MergeFrom self other =
     self\<lparr>primary_key_id := primary_key_id other, keys := keys self @ keys other\<rparr>"

definition KeyTP_CopyFrom :: "Key \<Rightarrow> Key \<Rightarrow> Key" where
  "KeyTP_CopyFrom self other = KeyTP_MergeFrom Key_default other"

definition KeysetTP_CopyFrom :: "Keyset \<Rightarrow> Keyset \<Rightarrow> Keyset" where
  "KeysetTP_CopyFrom self other = KeysetTP_MergeFrom Keyset_default other"

definition KeysetInfoTP_MergeFrom :: "KeysetInfo \<Rightarrow> KeysetInfo \<Rightarrow> KeysetInfo" where
  "KeysetInfoTP_MergeFrom self other =
     self\<lparr>ki_primary_key_id := ki_primary_key_id other, key_info := key_info self @ key_info other\<rparr>"

definition EncryptedKeysetTP_MergeFrom :: "EncryptedKeyset \<Rightarrow> EncryptedKeyset \<Rightarrow> EncryptedKeyset" where
  "EncryptedKeysetTP_MergeFrom self other =
     (let self1 = self\<lparr>encrypted_keyset := encrypted_keyset other\<rparr>
      in case keyset_info other of
           None \<Rightarrow> self1
         | Some ki \<Rightarrow> self1\<lparr>keyset_info :=
             Some (KeysetInfoTP_MergeFrom (value_or KeysetInfo_default (keyset_info self)) ki)\<rparr>)"

definition EncryptedKeysetTP_CopyFrom :: "EncryptedKeyset \<Rightarrow> EncryptedKeyset \<Rightarrow> EncryptedKeyset" where
  "EncryptedKeysetTP_CopyFrom self other = EncryptedKeysetTP_MergeFrom EncryptedKeyset_default other"

subsection \<open>Messages of the proto parser\<close>

text \<open>The fields of a message object that holds the given values.\<close>

definition KeyTemplateTP :: "KeyTemplate \<Rightarrow> message" where
  "KeyTemplateTP t =
     [BytesField 1 kImplicit (Some (kt_type_url t)),
      BytesField 2 kImplicit (Some (kt_value t)),
      EnumField 3 OutputPrefixTypeTP_IsValid 0 kImplicit (Some (OutputPrefixTypeTP_value (kt_output_prefix_type t)))]"

definition KeyDataTP :: "crc_fns \<Rightarrow> KeyData \<Rightarrow> message" where
  "KeyDataTP C d =
     [BytesField 1 kImplicit (Some (type_url d)),
      SecretDataField 2 kImplicit (Some (SecretDataFromStringView C (key_value d))),
      EnumField 3 KeyMaterialTypeTP_IsValid 0 kImplicit (Some (KeyMaterialTypeTP_value (key_material_type d)))]"

definition KeyTP :: "crc_fns \<Rightarrow> Key \<Rightarrow> message" where
  "KeyTP C k =
     [MessageField 1 kExplicit (KeyDataTP C KeyData_default) (map_option (KeyDataTP C) (key_data k)),
      EnumField 2 KeyStatusTypeTP_IsValid 0 kImplicit (Some (KeyStatusTypeTP_value (status k))),
      Uint32Field 3 kImplicit (Some (key_id k)),
      EnumField 4 OutputPrefixTypeTP_IsValid 0 kImplicit (Some (OutputPrefixTypeTP_value (output_prefix_type k)))]"

definition KeysetTP :: "crc_fns \<Rightarrow> Keyset \<Rightarrow> message" where
  "KeysetTP C ks =
     [Uint32Field 1 kImplicit (Some (primary_key_id ks)),
      RepeatedMessageField 2 (KeyTP C Key_default) (map (KeyTP C) (keys ks))]"

definition KeyInfo_default :: KeyInfo where
  "KeyInfo_default =
     \<lparr>ki_type_url = [], ki_status = UNKNOWN_STATUS, ki_key_id = 0, ki_output_prefix_type = UNKNOWN_PREFIX\<rparr>"

definition KeyInfoTP :: "KeyInfo \<Rightarrow> message" where
  "KeyInfoTP i =
     [BytesField 1 kImplicit (Some (ki_type_url i)),
      EnumField 2 KeyStatusTypeTP_IsValid 0 kImplicit (Some (KeyStatusTypeTP_value (ki_status i))),
      Uint32Field 3 kImplicit (Some (ki_key_id i)),
      EnumField 4 OutputPrefixTypeTP_IsValid 0 kImplicit (Some (OutputPrefixTypeTP_value (ki_output_prefix_type i)))]"

definition KeysetInfoTP :: "KeysetInfo \<Rightarrow> message" where
  "KeysetInfoTP i =
     [Uint32Field 1 kImplicit (Some (ki_primary_key_id i)),
      RepeatedMessageField 2 (KeyInfoTP KeyInfo_default) (map KeyInfoTP (key_info i))]"

definition EncryptedKeysetTP :: "EncryptedKeyset \<Rightarrow> message" where
  "EncryptedKeysetTP e =
     [BytesField 2 kImplicit (Some (encrypted_keyset e)),
      MessageField 3 kExplicit (KeysetInfoTP KeysetInfo_default) (map_option KeysetInfoTP (keyset_info e))]"

text \<open>The accessors, read off the fields of a message object.\<close>

fun bytes_at :: "message \<Rightarrow> nat \<Rightarrow> bytes" where
  "bytes_at m i = (case m ! i of BytesField _ _ v \<Rightarrow> value_or [] v
     | SecretDataField _ _ v \<Rightarrow> sd_buffer (value_or SecretData_default v) | _ \<Rightarrow> [])"

fun uint_at :: "message \<Rightarrow> nat \<Rightarrow> u32" where
  "uint_at m i = (case m ! i of Uint32Field _ _ v \<Rightarrow> value_or 0 v | EnumField _ _ d _ v \<Rightarrow> value_or d v | _ \<Rightarrow> 0)"

fun message_at :: "message \<Rightarrow> nat \<Rightarrow> message option" where
  "message_at m i = (case m ! i of MessageField _ _ _ v \<Rightarrow> v | _ \<Rightarrow> None)"

fun messages_at :: "message \<Rightarrow> nat \<Rightarrow> message list" where
  "messages_at m i = (case m ! i of RepeatedMessageField _ _ vs \<Rightarrow> vs | _ \<Rightarrow> [])"

definition KeyTemplate_of :: "message \<Rightarrow> KeyTemplate" where
  "KeyTemplate_of m = \<lparr>kt_type_url = bytes_at m 0, kt_value = bytes_at m 1,
     kt_output_prefix_type = OutputPrefixTypeTP_of (uint_at m 2)\<rparr>"

definition KeyData_of :: "message \<Rightarrow> KeyData" where
  "KeyData_of m = \<lparr>type_url = bytes_at m 0, key_value = bytes_at m 1,
     key_material_type = KeyMaterialTypeTP_of (uint_at m 2)\<rparr>"

definition Key_of :: "message \<Rightarrow> Key" where
  "Key_of m = \<lparr>key_data = map_option KeyData_of (message_at m 0), status = KeyStatusTypeTP_of (uint_at m 1),
     key_id = uint_at m 2, output_prefix_type = OutputPrefixTypeTP_of (uint_at m 3)\<rparr>"

definition Keyset_of :: "message \<Rightarrow> Keyset" where
  "Keyset_of m = \<lparr>primary_key_id = uint_at m 0, keys = map Key_of (messages_at m 1)\<rparr>"

definition KeyInfo_of :: "message \<Rightarrow> KeyInfo" where
  "KeyInfo_of m = \<lparr>ki_type_url = bytes_at m 0, ki_status = KeyStatusTypeTP_of (uint_at m 1),
     ki_key_id = uint_at m 2, ki_output_prefix_type = OutputPrefixTypeTP_of (uint_at m 3)\<rparr>"

definition KeysetInfo_of :: "message \<Rightarrow> KeysetInfo" where
  "KeysetInfo_of m = \<lparr>ki_primary_key_id = uint_at m 0, key_info = map KeyInfo_of (messages_at m 1)\<rparr>"

definition EncryptedKeyset_of :: "message \<Rightarrow> EncryptedKeyset" where
  "EncryptedKeyset_of m = \<lparr>encrypted_keyset = bytes_at m 0, keyset_info = map_option KeysetInfo_of (message_at m 1)\<rparr>"

section \<open>The records and the messages agree\<close>

text \<open>
  The values of the enums that the validators accept; a record with other values does not survive
  a round trip, since the parser drops them.
\<close>

definition prefix_known :: "OutputPrefixType \<Rightarrow> bool" where
  "prefix_known p \<longleftrightarrow> (\<forall>v. p \<noteq> OtherPrefix v)"

definition status_known :: "KeyStatusType \<Rightarrow> bool" where
  "status_known s \<longleftrightarrow> (\<forall>v. s \<noteq> OtherStatus v)"

definition material_known :: "KeyMaterialType \<Rightarrow> bool" where
  "material_known t \<longleftrightarrow> (\<forall>v. t \<noteq> OtherMaterial v)"

definition key_data_known :: "KeyData \<Rightarrow> bool" where
  "key_data_known d \<longleftrightarrow> material_known (key_material_type d)"

definition key_known :: "Key \<Rightarrow> bool" where
  "key_known k \<longleftrightarrow> status_known (status k) \<and> prefix_known (output_prefix_type k) \<and> pred_option key_data_known (key_data k)"

definition key_info_known :: "KeyInfo \<Rightarrow> bool" where
  "key_info_known k \<longleftrightarrow> status_known (ki_status k) \<and> prefix_known (ki_output_prefix_type k)"

definition keyset_info_known :: "KeysetInfo \<Rightarrow> bool" where
  "keyset_info_known i \<longleftrightarrow> list_all key_info_known (key_info i)"

lemma prefix_known [simp]:
  "prefix_known p \<Longrightarrow> OutputPrefixTypeTP_IsValid (OutputPrefixTypeTP_value p)"
  "prefix_known p \<Longrightarrow> OutputPrefixTypeTP_of (OutputPrefixTypeTP_value p) = p"
  by (cases p; simp add: prefix_known_def OutputPrefixTypeTP_IsValid_def OutputPrefixTypeTP_of_def)+

lemma status_known [simp]:
  "status_known s \<Longrightarrow> KeyStatusTypeTP_IsValid (KeyStatusTypeTP_value s)"
  "status_known s \<Longrightarrow> KeyStatusTypeTP_of (KeyStatusTypeTP_value s) = s"
  by (cases s; simp add: status_known_def KeyStatusTypeTP_IsValid_def KeyStatusTypeTP_of_def)+

lemma material_known [simp]:
  "material_known t \<Longrightarrow> KeyMaterialTypeTP_IsValid (KeyMaterialTypeTP_value t)"
  "material_known t \<Longrightarrow> KeyMaterialTypeTP_of (KeyMaterialTypeTP_value t) = t"
  by (cases t; simp add: material_known_def KeyMaterialTypeTP_IsValid_def KeyMaterialTypeTP_of_def)+

lemma small_field_numbers [simp]:
  "valid_field_number 1" "valid_field_number 2" "valid_field_number 3" "valid_field_number 4"
  by (simp_all add: valid_field_number_def)

lemma upto_small [simp]: "[Suc 0..<2] = [1]" "[Suc 0..<3] = [1, 2]" "[Suc 0..<4] = [1, 2, 3]"
  by (simp_all add: upt_rec)

lemma secret_ok_fresh [simp]: "secret_ok C (SecretDataFromStringView C v)"
  by (simp add: secret_ok_def SecretDataFromStringView_def)

lemma sd_buffer_fresh [simp]: "sd_buffer (SecretDataFromStringView C v) = v"
  by (simp add: SecretDataFromStringView_def)

lemma clear_implicit [simp]:
  "BytesField_Clear kImplicit = Some []" "Uint32Field_Clear kImplicit = Some 0"
  "EnumField_Clear d kImplicit = Some d" "SecretDataField_Clear kImplicit = Some SecretData_default"
  by (simp_all add: BytesField_Clear_def Uint32Field_Clear_def EnumField_Clear_def SecretDataField_Clear_def)

lemma fresh_empty_secret [simp]: "SecretDataFromStringView C [] = SecretData_default"
  by (simp add: SecretDataFromStringView_def SecretData_default_def)

lemma wf_KeyTemplateTP [simp]:
  "prefix_known (kt_output_prefix_type t) \<Longrightarrow> wf_message C (KeyTemplateTP t)"
  by (simp add: wf_message_def KeyTemplateTP_def FieldsAreSorted_def)

lemma wf_KeyDataTP [simp]: "key_data_known d \<Longrightarrow> wf_message C (KeyDataTP C d)"
  by (simp add: wf_message_def KeyDataTP_def FieldsAreSorted_def key_data_known_def)

lemma default_known [simp]: "key_data_known KeyData_default" "key_known Key_default" "key_info_known KeyInfo_default"
    "keyset_info_known KeysetInfo_default"
  by (simp_all add: key_data_known_def key_known_def KeyData_default_def Key_default_def material_known_def
      status_known_def prefix_known_def key_info_known_def KeyInfo_default_def keyset_info_known_def KeysetInfo_default_def)

lemma Clear_KeyDataTP [simp]: "Message_Clear (KeyDataTP C d) = KeyDataTP C KeyData_default"
  by (simp add: KeyDataTP_def Message_Clear_def KeyData_default_def)

lemma Clear_KeyTP [simp]: "Message_Clear (KeyTP C k) = KeyTP C Key_default"
  by (simp add: KeyTP_def Message_Clear_def Key_default_def)

lemma Clear_KeyInfoTP [simp]: "Message_Clear (KeyInfoTP k) = KeyInfoTP KeyInfo_default"
  by (simp add: KeyInfoTP_def Message_Clear_def KeyInfo_default_def)

lemma Clear_KeysetInfoTP [simp]: "Message_Clear (KeysetInfoTP k) = KeysetInfoTP KeysetInfo_default"
  by (simp add: KeysetInfoTP_def Message_Clear_def KeysetInfo_default_def)

lemma Clear_KeysetTP [simp]: "Message_Clear (KeysetTP C k) = KeysetTP C Keyset_default"
  by (simp add: KeysetTP_def Message_Clear_def Keyset_default_def)

lemma Clear_EncryptedKeysetTP [simp]: "Message_Clear (EncryptedKeysetTP k) = EncryptedKeysetTP EncryptedKeyset_default"
  by (simp add: EncryptedKeysetTP_def Message_Clear_def EncryptedKeyset_default_def)

lemma wf_message_parts: "wf_message C m \<Longrightarrow> FieldsAreSorted m \<and> list_all (wf_field C) m"
  by (simp add: wf_message_def)

lemma wf_KeyTP [simp]: "key_known k \<Longrightarrow> wf_message C (KeyTP C k)"
  unfolding wf_message_def KeyTP_def
  using wf_message_parts [OF wf_KeyDataTP, of _ C]
  by (auto simp: FieldsAreSorted_def key_known_def split: option.split)

lemma wf_KeyInfoTP [simp]: "key_info_known k \<Longrightarrow> wf_message C (KeyInfoTP k)"
  by (simp add: wf_message_def KeyInfoTP_def FieldsAreSorted_def key_info_known_def)

lemma wf_KeysetTP: "list_all key_known (keys ks) \<Longrightarrow> wf_message C (KeysetTP C ks)"
  unfolding wf_message_def KeysetTP_def
  using wf_message_parts [OF wf_KeyTP, of _ C] wf_message_parts [OF wf_KeyTP [OF default_known(2)], of C]
  by (auto simp: FieldsAreSorted_def list_all_iff)

lemma wf_KeysetInfoTP: "keyset_info_known i \<Longrightarrow> wf_message C (KeysetInfoTP i)"
  unfolding wf_message_def KeysetInfoTP_def
  using wf_message_parts [OF wf_KeyInfoTP, of _ C] wf_message_parts [OF wf_KeyInfoTP [OF default_known(3)], of C]
  by (auto simp: FieldsAreSorted_def list_all_iff keyset_info_known_def)

lemma wf_EncryptedKeysetTP: "pred_option keyset_info_known (keyset_info e) \<Longrightarrow> wf_message C (EncryptedKeysetTP e)"
  unfolding wf_message_def EncryptedKeysetTP_def
  using wf_message_parts [OF wf_KeysetInfoTP, of _ C]
  by (auto simp: FieldsAreSorted_def split: option.split)

lemma KeyData_of_KeyDataTP: "key_data_known d \<Longrightarrow> KeyData_of (KeyDataTP C d) = d"
  by (simp add: KeyData_of_def KeyDataTP_def key_data_known_def value_or_def)

lemma Key_of_KeyTP: "key_known k \<Longrightarrow> Key_of (KeyTP C k) = k"
  by (cases k) (auto simp: Key_of_def KeyTP_def key_known_def value_or_def KeyData_of_KeyDataTP numeral_3_eq_3
      option.map_comp pred_option_def intro!: option.map_ident_strong)

lemma Keyset_of_KeysetTP: "list_all key_known (keys ks) \<Longrightarrow> Keyset_of (KeysetTP C ks) = ks"
  by (cases ks) (auto simp: Keyset_of_def KeysetTP_def value_or_def list_all_iff Key_of_KeyTP intro!: map_idI)

lemma KeyInfo_of_KeyInfoTP: "key_info_known k \<Longrightarrow> KeyInfo_of (KeyInfoTP k) = k"
  by (cases k) (simp add: KeyInfo_of_def KeyInfoTP_def key_info_known_def value_or_def numeral_3_eq_3)

lemma KeysetInfo_of_KeysetInfoTP: "keyset_info_known k \<Longrightarrow> KeysetInfo_of (KeysetInfoTP k) = k"
  by (cases k) (auto simp: KeysetInfo_of_def KeysetInfoTP_def value_or_def keyset_info_known_def list_all_iff
      KeyInfo_of_KeyInfoTP intro!: map_idI)

lemma EncryptedKeyset_of_EncryptedKeysetTP:
  "pred_option keyset_info_known (keyset_info e) \<Longrightarrow> EncryptedKeyset_of (EncryptedKeysetTP e) = e"
  by (cases e) (auto simp: EncryptedKeyset_of_def EncryptedKeysetTP_def value_or_def option.map_comp pred_option_def
      KeysetInfo_of_KeysetInfoTP intro!: option.map_ident_strong)


section \<open>Properties\<close>

definition sample_keyset :: Keyset where
  "sample_keyset =
     \<lparr>primary_key_id = 42,
      keys = [\<lparr>key_data = Some \<lparr>type_url = [1, 2], key_value = [3], key_material_type = SYMMETRIC\<rparr>,
               status = ENABLED, key_id = 42, output_prefix_type = TINK\<rparr>]\<rparr>"

definition sample_encrypted_keyset :: EncryptedKeyset where
  "sample_encrypted_keyset =
     \<lparr>encrypted_keyset = [9, 9],
      keyset_info = Some \<lparr>ki_primary_key_id = 5,
        key_info = [\<lparr>ki_type_url = [1], ki_status = ENABLED, ki_key_id = 5, ki_output_prefix_type = RAW\<rparr>]\<rparr>\<rparr>"

text \<open>
  (C6) A keyset with known enum values, written by \<^verbatim>\<open>KeysetTP\<close> as \<^verbatim>\<open>SecretData\<close> and parsed back into any
  \<^verbatim>\<open>KeysetTP\<close>, is the keyset that was written: primary key id, every key with its id, status, output
  prefix and key material, in order.
\<close>

theorem KeysetTP_roundtrip:
  assumes "crc_laws C" and "list_all key_known (keys ks)" and "ByteSizeLong (KeysetTP C ks) < 2 ^ 32"
  shows "\<exists>s m crc. SerializeAsSecretData C junk (KeysetTP C ks) = Some s \<and>
     ParseFromStringWithCrc C (KeysetTP C old) (sd_buffer s) = Inr (m, crc) \<and> Keyset_of m = ks"
proof -
  have w: "wf_message C (KeysetTP C ks)" by (rule wf_KeysetTP [OF assms(2)])
  have p: "\<exists>crc'. ParseFromStringImpl C (KeysetTP C old) (message_bytes (KeysetTP C ks)) (Some 0) = Some (KeysetTP C ks, crc')"
    by (rule ParseFromStringImpl_message_bytes [OF w]) (use assms(3) ByteSizeLong_eq [OF w] in simp_all)
  then show ?thesis
    using SerializeAsSecretData_bytes [OF w assms(1), of junk] Keyset_of_KeysetTP [OF assms(2), of C]
    by (auto simp: ParseFromStringWithCrc_def)
qed

theorem KeysetTP_roundtrip_witness:
  "\<exists>s m crc. SerializeAsSecretData sum_crc (\<lambda>_. 0) (KeysetTP sum_crc sample_keyset) = Some s \<and>
     ParseFromStringWithCrc sum_crc (KeysetTP sum_crc Keyset_default) (sd_buffer s) = Inr (m, crc) \<and>
     Keyset_of m = sample_keyset"
proof (rule KeysetTP_roundtrip [OF sum_crc_laws])
  show "list_all key_known (keys sample_keyset)"
    by (simp add: sample_keyset_def key_known_def status_known_def prefix_known_def key_data_known_def material_known_def)
  have "ByteSizeLong (KeysetTP sum_crc sample_keyset) = 21" by code_simp
  then show "ByteSizeLong (KeysetTP sum_crc sample_keyset) < 2 ^ 32" by simp
qed

text \<open>
  An encrypted keyset written by \<^verbatim>\<open>EncryptedKeysetTP\<close> and parsed back is the encrypted keyset that
  was written, the keyset info included.
\<close>

theorem EncryptedKeysetTP_roundtrip:
  assumes "pred_option keyset_info_known (keyset_info e)" and "ByteSizeLong (EncryptedKeysetTP e) < 2 ^ 32"
  shows "\<exists>bs m. SerializeAsString C junk (EncryptedKeysetTP e) = Some bs \<and>
     ParseFromString C (EncryptedKeysetTP old) bs = Some m \<and> EncryptedKeyset_of m = e"
proof -
  have w: "wf_message C (EncryptedKeysetTP e)" by (rule wf_EncryptedKeysetTP [OF assms(1)])
  have p: "\<exists>crc'. ParseFromStringImpl C (EncryptedKeysetTP old) (message_bytes (EncryptedKeysetTP e)) None = Some (EncryptedKeysetTP e, crc')"
    by (rule ParseFromStringImpl_message_bytes [OF w]) (use assms(2) ByteSizeLong_eq [OF w] in simp_all)
  then show ?thesis
    using SerializeAsString_bytes [OF w, of junk] EncryptedKeyset_of_EncryptedKeysetTP [OF assms(1)]
    by (auto simp: ParseFromString_def)
qed

theorem EncryptedKeysetTP_roundtrip_witness:
  "\<exists>bs m. SerializeAsString sum_crc (\<lambda>_. 0) (EncryptedKeysetTP sample_encrypted_keyset) = Some bs \<and>
     ParseFromString sum_crc (EncryptedKeysetTP EncryptedKeyset_default) bs = Some m \<and>
     EncryptedKeyset_of m = sample_encrypted_keyset"
proof (rule EncryptedKeysetTP_roundtrip)
  show "pred_option keyset_info_known (keyset_info sample_encrypted_keyset)"
    by (simp add: sample_encrypted_keyset_def keyset_info_known_def key_info_known_def status_known_def prefix_known_def)
  have "ByteSizeLong (EncryptedKeysetTP sample_encrypted_keyset) = 19" by code_simp
  then show "ByteSizeLong (EncryptedKeysetTP sample_encrypted_keyset) < 2 ^ 32" by simp
qed

lemma KeyTP_CopyFrom_copies: "KeyTP_CopyFrom self k = k"
  by (simp add: KeyTP_CopyFrom_def KeyTP_MergeFrom_def KeyDataTP_MergeFrom_def get_key_data_def Key_default_def
      Let_def split: option.split)

text \<open>
  \<^verbatim>\<open>CopyFrom\<close> makes a message equal to its argument whatever it held before, for keys with and without
  key data and for keysets and encrypted keysets, although it is written as a clear and a merge.
\<close>

theorem CopyFrom_copies:
  "KeyTP_CopyFrom self k = k \<and> KeysetTP_CopyFrom old ks = ks \<and> EncryptedKeysetTP_CopyFrom olde e = e"
proof (intro conjI)
  show "KeyTP_CopyFrom self k = k" by (rule KeyTP_CopyFrom_copies)
  show "KeysetTP_CopyFrom old ks = ks"
    by (simp add: KeysetTP_CopyFrom_def KeysetTP_MergeFrom_def Keyset_default_def)
  show "EncryptedKeysetTP_CopyFrom olde e = e"
    by (cases e) (simp add: EncryptedKeysetTP_CopyFrom_def EncryptedKeysetTP_MergeFrom_def KeysetInfoTP_MergeFrom_def
      EncryptedKeyset_default_def KeysetInfo_default_def value_or_def Let_def split: option.split)
qed

end
