(* ===== verification/Keyset_Manager.thy ===== *)
theory Keyset_Manager
  imports Tink_Proto
begin

text \<open>
  Keyset validation (\<^verbatim>\<open>tink/util/validation.cc\<close>), key ids (\<^verbatim>\<open>tink/util/keyset_util.cc\<close>), key info
  (\<^verbatim>\<open>tink/internal/key_info.cc\<close>), \<^verbatim>\<open>KeysetHandle::AddToKeyset\<close> and the keyset manager
  (\<^verbatim>\<open>tink/core/keyset_manager.cc\<close>).

  The manager holds its mutex for the whole of every operation, so its executions are sequences of
  operations. Random key ids come from a source \<open>ids\<close>, of which the state records how many values
  were drawn; \<^verbatim>\<open>GenerateUnusedKeyId\<close> draws until it finds an unused id and may in principle never
  return, so it is a partial function, and so is what calls it.
\<close>

section \<open>Definitions\<close>

subsection \<open>Validation\<close>

definition ValidateAesKeySize :: "u32 \<Rightarrow> Status" where
  "ValidateAesKeySize key_size = (if key_size \<noteq> 16 \<and> key_size \<noteq> 32 then Inl kInvalidArgument else OkStatus)"

definition ValidateKey :: "Key \<Rightarrow> Status" where
  "ValidateKey key =
     (if key_data key = None then Inl kInvalidArgument
      else if output_prefix_type key = UNKNOWN_PREFIX then Inl kInvalidArgument
      else if status key = UNKNOWN_STATUS then Inl kInvalidArgument
      else OkStatus)"

text \<open>
  The loop of \<^verbatim>\<open>ValidateKeyset\<close>: whether a primary was seen, whether all key material was public,
  and the number of enabled keys.
\<close>

fun ValidateKeyset_loop :: "u32 \<Rightarrow> Key list \<Rightarrow> bool \<times> bool \<times> nat \<Rightarrow> (bool \<times> bool \<times> nat) StatusOr" where
  "ValidateKeyset_loop primary [] acc = Inr acc"
| "ValidateKeyset_loop primary (key # ks) (has_primary_key, only_public, enabled_keys) =
     (if status key \<noteq> ENABLED then ValidateKeyset_loop primary ks (has_primary_key, only_public, enabled_keys)
      else case ValidateKey key of
             Inl e \<Rightarrow> Inl e
           | Inr _ \<Rightarrow>
               let is_primary = (status key = ENABLED \<and> key_id key = primary);
                   only_public' = (if key_material_type (get_key_data key) \<noteq> ASYMMETRIC_PUBLIC then False else only_public)
               in if is_primary \<and> has_primary_key then Inl kInvalidArgument
                  else ValidateKeyset_loop primary ks
                         (has_primary_key \<or> is_primary, only_public', enabled_keys + 1))"

definition ValidateKeyset :: "Keyset \<Rightarrow> Status" where
  "ValidateKeyset ks =
     (if length (keys ks) < 1 then Inl kInvalidArgument
      else case ValidateKeyset_loop (primary_key_id ks) (keys ks) (False, True, 0) of
             Inl e \<Rightarrow> Inl e
           | Inr (has_primary_key, only_public, enabled_keys) \<Rightarrow>
               if enabled_keys = 0 then Inl kInvalidArgument
               else if \<not> has_primary_key \<and> \<not> only_public then Inl kInvalidArgument
               else OkStatus)"

definition ValidateVersion :: "u32 \<Rightarrow> u32 \<Rightarrow> Status" where
  "ValidateVersion candidate max_expected =
     (if max_expected < candidate then Inl kInvalidArgument else OkStatus)"

subsection \<open>Key info\<close>

definition KeyInfoFromKey :: "Key \<Rightarrow> KeyInfo" where
  "KeyInfoFromKey key =
     \<lparr>ki_type_url = type_url (get_key_data key), ki_status = status key, ki_key_id = key_id key,
      ki_output_prefix_type = output_prefix_type key\<rparr>"

definition KeysetInfoFromKeyset :: "Keyset \<Rightarrow> KeysetInfo" where
  "KeysetInfoFromKeyset ks =
     \<lparr>ki_primary_key_id = primary_key_id ks, key_info = map KeyInfoFromKey (keys ks)\<rparr>"

subsection \<open>Adding a key\<close>

partial_function (option) GenerateUnusedKeyId :: "(nat \<Rightarrow> u32) \<Rightarrow> Keyset \<Rightarrow> nat \<Rightarrow> (u32 \<times> nat) option" where
  [code]: "GenerateUnusedKeyId ids ks n =
     (let new_id = ids n
      in if list_ex (\<lambda>key. key_id key = new_id) (keys ks) then GenerateUnusedKeyId ids ks (Suc n)
         else Some (new_id, Suc n))"

text \<open>
  Where key generation looks up key types: the global registry, or the key type store of the
  configuration, from a type URL to the key factory. Only the factory of a private key type can
  also derive public key data.
\<close>

record KeyFactory =
  factory_NewKeyData :: "bytes \<Rightarrow> KeyData StatusOr"
  factory_GetPublicKeyData :: "(bytes \<Rightarrow> KeyData StatusOr) option"

datatype KeyGenConfiguration =
    GlobalRegistryMode
  | KeyTypeInfoStoreMode "bytes \<Rightarrow> KeyFactory StatusOr"

definition NewKeyData_from :: "(KeyTemplate \<Rightarrow> KeyData StatusOr) \<Rightarrow> KeyGenConfiguration \<Rightarrow> KeyTemplate \<Rightarrow> KeyData StatusOr" where
  "NewKeyData_from registry config key_template =
     (case config of
        GlobalRegistryMode \<Rightarrow> registry key_template
      | KeyTypeInfoStoreMode store \<Rightarrow>
          (case store (kt_type_url key_template) of
             Inl e \<Rightarrow> Inl e
           | Inr factory \<Rightarrow> factory_NewKeyData factory (kt_value key_template)))"

definition AddToKeyset ::
    "(KeyTemplate \<Rightarrow> KeyData StatusOr) \<Rightarrow> (nat \<Rightarrow> u32) \<Rightarrow> KeyTemplate \<Rightarrow> bool \<Rightarrow> KeyGenConfiguration \<Rightarrow>
     Keyset \<Rightarrow> nat \<Rightarrow> (u32 StatusOr \<times> Keyset \<times> nat) option" where
  "AddToKeyset registry ids key_template as_primary config keyset n =
     (if kt_output_prefix_type key_template = UNKNOWN_PREFIX then Some (Inl kInvalidArgument, keyset, n)
      else if kt_output_prefix_type key_template = WITH_ID_REQUIREMENT then Some (Inl kInvalidArgument, keyset, n)
      else case NewKeyData_from registry config key_template of
             Inl e \<Rightarrow> Some (Inl e, keyset, n)
           | Inr kd \<Rightarrow>
               let key = Key_default\<lparr>key_data := Some kd, status := ENABLED,
                           output_prefix_type := kt_output_prefix_type key_template\<rparr>;
                   keyset1 = keyset\<lparr>keys := keys keyset @ [key]\<rparr>
               in case GenerateUnusedKeyId ids keyset1 n of
                    None \<Rightarrow> None
                  | Some (new_id, n') \<Rightarrow>
                      let keyset2 = keyset\<lparr>keys := keys keyset @ [key\<lparr>key_id := new_id\<rparr>]\<rparr>;
                          keyset3 = (if as_primary then keyset2\<lparr>primary_key_id := new_id\<rparr> else keyset2)
                      in Some (Inr new_id, keyset3, n'))"

subsection \<open>The keyset manager\<close>

record KeysetManager =
  mgr_keyset :: Keyset
  mgr_drawn :: nat

definition KeysetManager_Add ::
    "(KeyTemplate \<Rightarrow> KeyData StatusOr) \<Rightarrow> (nat \<Rightarrow> u32) \<Rightarrow> KeyTemplate \<Rightarrow> bool \<Rightarrow> KeysetManager \<Rightarrow>
     (u32 StatusOr \<times> KeysetManager) option" where
  "KeysetManager_Add registry ids key_template as_primary mgr =
     (case AddToKeyset registry ids key_template as_primary GlobalRegistryMode (mgr_keyset mgr) (mgr_drawn mgr) of
        None \<Rightarrow> None
      | Some (r, keyset, n) \<Rightarrow> Some (r, \<lparr>mgr_keyset = keyset, mgr_drawn = n\<rparr>))"

definition KeysetManager_Rotate ::
    "(KeyTemplate \<Rightarrow> KeyData StatusOr) \<Rightarrow> (nat \<Rightarrow> u32) \<Rightarrow> KeyTemplate \<Rightarrow> KeysetManager \<Rightarrow>
     (u32 StatusOr \<times> KeysetManager) option" where
  "KeysetManager_Rotate registry ids key_template mgr = KeysetManager_Add registry ids key_template True mgr"

definition KeysetManager_New ::
    "(KeyTemplate \<Rightarrow> KeyData StatusOr) \<Rightarrow> (nat \<Rightarrow> u32) \<Rightarrow> KeyTemplate \<Rightarrow> nat \<Rightarrow> KeysetManager StatusOr option" where
  "KeysetManager_New registry ids key_template n =
     (case KeysetManager_Rotate registry ids key_template \<lparr>mgr_keyset = Keyset_default, mgr_drawn = n\<rparr> of
        None \<Rightarrow> None
      | Some (Inl e, _) \<Rightarrow> Some (Inl e)
      | Some (Inr _, mgr) \<Rightarrow> Some (Inr mgr))"

definition KeysetManager_NewFromHandle :: "Keyset \<Rightarrow> nat \<Rightarrow> KeysetManager" where
  "KeysetManager_NewFromHandle keyset n = \<lparr>mgr_keyset = keyset, mgr_drawn = n\<rparr>"

text \<open>
  The loops of the other operations stop at the first key with the id. Their body works on a
  reference to that key: it returns a status together with what it left in the key, and whatever it
  wrote stays in the keyset, also when it returns an error.
\<close>

fun update_key :: "u32 \<Rightarrow> (Key \<Rightarrow> Status \<times> Key) \<Rightarrow> Key list \<Rightarrow> Status \<times> Key list" where
  "update_key i f [] = (Inl kNotFound, [])"
| "update_key i f (key # ks) =
     (if key_id key = i then (case f key of (st, key') \<Rightarrow> (st, key' # ks))
      else case update_key i f ks of (st, ks') \<Rightarrow> (st, key # ks'))"

fun erase_key :: "u32 \<Rightarrow> Key list \<Rightarrow> Status \<times> Key list" where
  "erase_key i [] = (Inl kNotFound, [])"
| "erase_key i (key # ks) =
     (if key_id key = i then (OkStatus, ks)
      else case erase_key i ks of (st, ks') \<Rightarrow> (st, key # ks'))"

definition store_keys :: "Keyset \<Rightarrow> Status \<times> Key list \<Rightarrow> Status \<times> Keyset" where
  "store_keys keyset r = (fst r, keyset\<lparr>keys := snd r\<rparr>)"

definition Enable :: "u32 \<Rightarrow> Keyset \<Rightarrow> Status \<times> Keyset" where
  "Enable i keyset =
     store_keys keyset (update_key i (\<lambda>key.
       if status key \<noteq> DISABLED \<and> status key \<noteq> ENABLED then (Inl kInvalidArgument, key)
       else (OkStatus, key\<lparr>status := ENABLED\<rparr>)) (keys keyset))"

definition Disable :: "u32 \<Rightarrow> Keyset \<Rightarrow> Status \<times> Keyset" where
  "Disable i keyset =
     (if primary_key_id keyset = i then (Inl kInvalidArgument, keyset)
      else store_keys keyset (update_key i (\<lambda>key.
        if status key \<noteq> DISABLED \<and> status key \<noteq> ENABLED then (Inl kInvalidArgument, key)
        else (OkStatus, key\<lparr>status := DISABLED\<rparr>)) (keys keyset)))"

definition Delete :: "u32 \<Rightarrow> Keyset \<Rightarrow> Status \<times> Keyset" where
  "Delete i keyset =
     (if primary_key_id keyset = i then (Inl kInvalidArgument, keyset)
      else store_keys keyset (erase_key i (keys keyset)))"

definition Destroy :: "u32 \<Rightarrow> Keyset \<Rightarrow> Status \<times> Keyset" where
  "Destroy i keyset =
     (if primary_key_id keyset = i then (Inl kInvalidArgument, keyset)
      else store_keys keyset (update_key i (\<lambda>key.
        if status key \<noteq> DISABLED \<and> status key \<noteq> DESTROYED \<and> status key \<noteq> ENABLED
        then (Inl kInvalidArgument, key)
        else let key1 = key\<lparr>key_data := None\<rparr> in (OkStatus, key1\<lparr>status := DESTROYED\<rparr>)) (keys keyset)))"

definition SetPrimary :: "u32 \<Rightarrow> Keyset \<Rightarrow> Status \<times> Keyset" where
  "SetPrimary i keyset =
     (case find (\<lambda>key. key_id key = i) (keys keyset) of
        None \<Rightarrow> (Inl kNotFound, keyset)
      | Some key \<Rightarrow>
          if status key \<noteq> ENABLED then (Inl kInvalidArgument, keyset)
          else (OkStatus, keyset\<lparr>primary_key_id := i\<rparr>))"

definition KeyCount :: "Keyset \<Rightarrow> nat" where
  "KeyCount keyset = length (keys keyset)"

text \<open>
  The operations of a manager as a step relation: every public operation, whether it succeeds or
  fails, from the state it finds to the state it leaves.
\<close>

inductive manager_step ::
    "(KeyTemplate \<Rightarrow> KeyData StatusOr) \<Rightarrow> (nat \<Rightarrow> u32) \<Rightarrow> KeysetManager \<Rightarrow> KeysetManager \<Rightarrow> bool"
  for registry ids where
  step_add: "KeysetManager_Add registry ids t as_primary mgr = Some (r, mgr') \<Longrightarrow> manager_step registry ids mgr mgr'"
| step_enable: "manager_step registry ids mgr (mgr\<lparr>mgr_keyset := snd (Enable i (mgr_keyset mgr))\<rparr>)"
| step_disable: "manager_step registry ids mgr (mgr\<lparr>mgr_keyset := snd (Disable i (mgr_keyset mgr))\<rparr>)"
| step_delete: "manager_step registry ids mgr (mgr\<lparr>mgr_keyset := snd (Delete i (mgr_keyset mgr))\<rparr>)"
| step_destroy: "manager_step registry ids mgr (mgr\<lparr>mgr_keyset := snd (Destroy i (mgr_keyset mgr))\<rparr>)"
| step_set_primary: "manager_step registry ids mgr (mgr\<lparr>mgr_keyset := snd (SetPrimary i (mgr_keyset mgr))\<rparr>)"

inductive manager_reachable ::
    "(KeyTemplate \<Rightarrow> KeyData StatusOr) \<Rightarrow> (nat \<Rightarrow> u32) \<Rightarrow> KeysetManager \<Rightarrow> bool"
  for registry ids where
  reachable_new: "KeysetManager_New registry ids t n = Some (Inr mgr) \<Longrightarrow> manager_reachable registry ids mgr"
| reachable_step: "manager_reachable registry ids mgr \<Longrightarrow> manager_step registry ids mgr mgr' \<Longrightarrow>
     manager_reachable registry ids mgr'"

section \<open>Generating key ids\<close>

definition key_ids :: "Keyset \<Rightarrow> u32 set" where
  "key_ids ks = key_id ` set (keys ks)"

lemma GenerateUnusedKeyId_unfold:
  "GenerateUnusedKeyId ids ks n =
     (if ids n \<in> key_ids ks then GenerateUnusedKeyId ids ks (Suc n) else Some (ids n, Suc n))"
  by (subst GenerateUnusedKeyId.simps) (force simp: Let_def key_ids_def list_ex_iff)

lemma GenerateUnusedKeyId_fresh_aux:
  "GenerateUnusedKeyId ids ks n = Some y \<Longrightarrow> fst y \<notin> key_ids ks \<and> n < snd y"
  by (erule GenerateUnusedKeyId.raw_induct [rotated, where P = "\<lambda>ids ks n y. fst y \<notin> key_ids ks \<and> n < snd y"])
    (force simp: Let_def key_ids_def list_ex_iff split: if_splits)

lemma GenerateUnusedKeyId_fresh:
  "GenerateUnusedKeyId ids ks n = Some (new_id, n') \<Longrightarrow> new_id \<notin> key_ids ks"
  using GenerateUnusedKeyId_fresh_aux by fastforce

lemma GenerateUnusedKeyId_returns:
  "ids (n + d) \<notin> key_ids ks \<Longrightarrow> \<exists>new_id n'. GenerateUnusedKeyId ids ks n = Some (new_id, n')"
proof (induction d arbitrary: n)
  case 0
  then show ?case by (subst GenerateUnusedKeyId_unfold) simp
next
  case (Suc d)
  then have "\<exists>new_id n'. GenerateUnusedKeyId ids ks (Suc n) = Some (new_id, n')" by simp
  then show ?case by (subst GenerateUnusedKeyId_unfold) simp
qed

section \<open>What validation accepts\<close>

definition enabled_keys :: "Keyset \<Rightarrow> Key list" where
  "enabled_keys ks = filter (\<lambda>k. status k = ENABLED) (keys ks)"

lemma ValidateKey_error: "ValidateKey k = Inl e \<Longrightarrow> e = kInvalidArgument"
  by (auto simp: ValidateKey_def split: if_splits)

lemma ValidateKey_cases: "ValidateKey k = OkStatus \<or> ValidateKey k = Inl kInvalidArgument"
  by (simp add: ValidateKey_def)

lemma ValidateKeyset_loop_spec:
  "ValidateKeyset_loop p ks (h, u, n) =
     (let E = filter (\<lambda>k. status k = ENABLED) ks; P = filter (\<lambda>k. key_id k = p) E in
      if (\<forall>k \<in> set E. ValidateKey k = OkStatus) \<and> length P + (if h then 1 else 0) \<le> 1
      then Inr (h \<or> P \<noteq> [], u \<and> (\<forall>k \<in> set E. key_material_type (get_key_data k) = ASYMMETRIC_PUBLIC), n + length E)
      else Inl kInvalidArgument)"
proof (induction ks arbitrary: h u n)
  case Nil
  then show ?case by simp
next
  case (Cons k ks)
  show ?case
  proof (cases "status k = ENABLED \<and> ValidateKey k = OkStatus")
    case True
    then show ?thesis by (simp add: Cons.IH Let_def)
  next
    case False
    with ValidateKey_cases [of k] show ?thesis by (auto simp: Cons.IH Let_def)
  qed
qed

section \<open>The operations of the manager\<close>

lemma update_key_cases:
  obtains (missing) "i \<notin> key_id ` set ks" "update_key i f ks = (Inl kNotFound, ks)"
    | (found) pre k post where "ks = pre @ k # post" "key_id k = i" "i \<notin> key_id ` set pre"
        "update_key i f ks = (fst (f k), pre @ snd (f k) # post)"
proof (induction ks arbitrary: thesis)
  case (Cons k ks)
  show ?case
  proof (cases "key_id k = i")
    case True
    show ?thesis by (rule Cons.prems(2) [of "[]"]) (use True in \<open>simp_all add: case_prod_beta\<close>)
  next
    case False
    show ?thesis
    proof (rule Cons.IH)
      fix pre k1 post
      assume "ks = pre @ k1 # post" "key_id k1 = i" "i \<notin> key_id ` set pre"
        "update_key i f ks = (fst (f k1), pre @ snd (f k1) # post)"
      then show ?thesis using False Cons.prems(2) [of "k # pre" k1 post] by simp
    qed (use False Cons.prems(1) in simp)
  qed
qed simp

lemma erase_key_cases:
  obtains (missing) "i \<notin> key_id ` set ks" "erase_key i ks = (Inl kNotFound, ks)"
    | (found) pre k post where "ks = pre @ k # post" "key_id k = i" "i \<notin> key_id ` set pre"
        "erase_key i ks = (OkStatus, pre @ post)"
proof (induction ks arbitrary: thesis)
  case (Cons k ks)
  show ?case
  proof (cases "key_id k = i")
    case True
    show ?thesis by (rule Cons.prems(2) [of "[]"]) (use True in simp_all)
  next
    case False
    show ?thesis
    proof (rule Cons.IH)
      fix pre k1 post
      assume "ks = pre @ k1 # post" "key_id k1 = i" "i \<notin> key_id ` set pre" "erase_key i ks = (OkStatus, pre @ post)"
      then show ?thesis using False Cons.prems(2) [of "k # pre" k1 post] by simp
    qed (use False Cons.prems(1) in simp)
  qed
qed simp

text \<open>
  The invariant of a keyset under management: distinct nonzero ids, an output prefix that can be
  used, a known status, key data exactly in the keys that are not destroyed, and a primary key
  that is enabled.
\<close>

definition managed_key :: "Key \<Rightarrow> bool" where
  "managed_key k \<longleftrightarrow> key_id k \<noteq> 0 \<and> output_prefix_type k \<noteq> UNKNOWN_PREFIX \<and>
     output_prefix_type k \<noteq> WITH_ID_REQUIREMENT \<and> status k \<in> {ENABLED, DISABLED, DESTROYED} \<and>
     (key_data k = None \<longleftrightarrow> status k = DESTROYED)"

definition has_enabled_primary :: "Keyset \<Rightarrow> bool" where
  "has_enabled_primary ks \<longleftrightarrow> (\<exists>k \<in> set (keys ks). key_id k = primary_key_id ks \<and> status k = ENABLED)"

definition manager_inv :: "Keyset \<Rightarrow> bool" where
  "manager_inv ks \<longleftrightarrow> distinct (map key_id (keys ks)) \<and> (\<forall>k \<in> set (keys ks). managed_key k) \<and> has_enabled_primary ks"

lemma manager_inv_update:
  assumes "manager_inv ks" and "keys ks = pre @ k # post" and "key_id k' = key_id k" and "managed_key k'"
    and "key_id k = primary_key_id ks \<longrightarrow> status k' = ENABLED"
  shows "manager_inv (ks\<lparr>keys := pre @ k' # post\<rparr>)"
  using assms by (auto simp: manager_inv_def has_enabled_primary_def)

lemma store_update_inv:
  assumes inv: "manager_inv ks"
    and f: "\<And>k. k \<in> set (keys ks) \<Longrightarrow> key_id k = i \<Longrightarrow>
      key_id (snd (f k)) = key_id k \<and> managed_key (snd (f k)) \<and> (i = primary_key_id ks \<longrightarrow> status (snd (f k)) = ENABLED)"
  shows "manager_inv (snd (store_keys ks (update_key i f (keys ks))))"
proof (cases i f "keys ks" rule: update_key_cases)
  case missing
  then show ?thesis using inv by (simp add: store_keys_def)
next
  case (found pre k post)
  with f [of k] manager_inv_update [OF inv, of pre k post "snd (f k)"] show ?thesis
    by (simp add: store_keys_def)
qed

lemma store_update_error:
  assumes "\<And>k. k \<in> set (keys ks) \<Longrightarrow> isl (fst (f k)) \<Longrightarrow> snd (f k) = k"
  shows "isl (fst (store_keys ks (update_key i f (keys ks)))) \<Longrightarrow> snd (store_keys ks (update_key i f (keys ks))) = ks"
proof (cases i f "keys ks" rule: update_key_cases)
  case missing
  then show ?thesis by (simp add: store_keys_def)
next
  case (found pre k post)
  moreover assume "isl (fst (store_keys ks (update_key i f (keys ks))))"
  ultimately have "snd (f k) = k" using assms [of k] by (simp add: store_keys_def)
  with found show ?thesis by (simp add: store_keys_def found(1) [symmetric])
qed

lemma managed_key_status: "managed_key k \<Longrightarrow> status k = DISABLED \<or> status k = ENABLED \<Longrightarrow> s = DISABLED \<or> s = ENABLED \<Longrightarrow>
  managed_key (k\<lparr>status := s\<rparr>)"
  by (auto simp: managed_key_def)

lemma primary_enabled: "manager_inv ks \<Longrightarrow> k \<in> set (keys ks) \<Longrightarrow> key_id k = primary_key_id ks \<Longrightarrow> status k = ENABLED"
  unfolding manager_inv_def has_enabled_primary_def distinct_map by (metis inj_onD)

lemma Enable_inv: "manager_inv ks \<Longrightarrow> manager_inv (snd (Enable i ks))"
  unfolding Enable_def
  by (rule store_update_inv) (auto simp: primary_enabled managed_key_status manager_inv_def)

lemma Disable_inv: "manager_inv ks \<Longrightarrow> manager_inv (snd (Disable i ks))"
  unfolding Disable_def
  by (cases "primary_key_id ks = i", simp, simp, rule store_update_inv)
    (auto simp: manager_inv_def managed_key_status split: if_splits)

lemma Destroy_inv: "manager_inv ks \<Longrightarrow> manager_inv (snd (Destroy i ks))"
  unfolding Destroy_def
  by (cases "primary_key_id ks = i", simp, simp, rule store_update_inv)
    (auto simp: manager_inv_def managed_key_def split: if_splits)

lemma Delete_inv:
  assumes "manager_inv ks"
  shows "manager_inv (snd (Delete i ks))"
  using assms
  by (cases i "keys ks" rule: erase_key_cases) (auto simp: Delete_def store_keys_def manager_inv_def has_enabled_primary_def)

lemma SetPrimary_inv: "manager_inv ks \<Longrightarrow> manager_inv (snd (SetPrimary i ks))"
  by (auto simp: SetPrimary_def manager_inv_def has_enabled_primary_def find_Some_iff split: option.split)

subsection \<open>The contract of the operations on one key\<close>

text \<open>
  What every operation on a key id promises: a failed call leaves the keyset alone, a call for an
  id that is not there fails, and the invariant is kept. Clients that run such an operation over
  many ids rely on nothing else.
\<close>

locale keyset_operation =
  fixes oper :: "u32 \<Rightarrow> Keyset \<Rightarrow> Status \<times> Keyset"
  assumes error_unchanged: "isl (fst (oper i ks)) \<Longrightarrow> snd (oper i ks) = ks"
    and missing: "i \<notin> key_ids ks \<Longrightarrow> isl (fst (oper i ks))"
    and keeps_inv: "manager_inv ks \<Longrightarrow> manager_inv (snd (oper i ks))"
begin

lemma ok_member: "fst (oper i ks) = OkStatus \<Longrightarrow> i \<in> key_ids ks"
  using missing by force

lemma missing_unchanged: "i \<notin> key_ids ks \<Longrightarrow> snd (oper i ks) = ks"
  by (simp add: error_unchanged missing)

lemma iterated_inv: "manager_inv ks \<Longrightarrow> manager_inv (fold (\<lambda>i ks. snd (oper i ks)) is ks)"
  by (induction "is" arbitrary: ks) (simp_all add: keeps_inv)

end

lemma store_update_missing: "i \<notin> key_ids ks \<Longrightarrow> isl (fst (store_keys ks (update_key i f (keys ks))))"
  by (cases i f "keys ks" rule: update_key_cases) (auto simp: store_keys_def key_ids_def)

interpretation enable: keyset_operation Enable
  by unfold_locales
    (simp_all add: Enable_inv, simp_all add: Enable_def store_update_missing, rule store_update_error, auto split: if_splits)

interpretation disable: keyset_operation Disable
  by unfold_locales
    (simp_all add: Disable_inv, simp_all add: Disable_def store_update_missing split: if_splits, rule store_update_error,
     auto split: if_splits)

interpretation delete: keyset_operation Delete
proof
  fix i ks
  show "isl (fst (Delete i ks)) \<Longrightarrow> snd (Delete i ks) = ks"
    by (cases i "keys ks" rule: erase_key_cases) (auto simp: Delete_def store_keys_def split: if_splits)
  show "i \<notin> key_ids ks \<Longrightarrow> isl (fst (Delete i ks))"
    by (cases i "keys ks" rule: erase_key_cases) (auto simp: Delete_def store_keys_def key_ids_def)
qed (rule Delete_inv)

interpretation destroy: keyset_operation Destroy
  by unfold_locales
    (simp_all add: Destroy_inv, simp_all add: Destroy_def Let_def store_update_missing split: if_splits,
     rule store_update_error, auto split: if_splits)

interpretation set_primary: keyset_operation SetPrimary
proof
  fix i ks
  show "isl (fst (SetPrimary i ks)) \<Longrightarrow> snd (SetPrimary i ks) = ks"
    by (simp add: SetPrimary_def split: option.splits if_splits)
  show "i \<notin> key_ids ks \<Longrightarrow> isl (fst (SetPrimary i ks))"
    by (auto simp: SetPrimary_def key_ids_def find_Some_iff split: option.split)
  show "manager_inv ks \<Longrightarrow> manager_inv (snd (SetPrimary i ks))"
    by (rule SetPrimary_inv)
qed

subsection \<open>Adding a key keeps the invariant\<close>

lemma AddToKeyset_Inr:
  assumes "AddToKeyset registry ids t as_primary config ks n = Some (Inr new_id, ks', n')"
  shows "\<exists>kd key. NewKeyData_from registry config t = Inr kd \<and>
     key = \<lparr>key_data = Some kd, status = ENABLED, key_id = new_id, output_prefix_type = kt_output_prefix_type t\<rparr> \<and>
     keys ks' = keys ks @ [key] \<and> primary_key_id ks' = (if as_primary then new_id else primary_key_id ks) \<and>
     new_id \<noteq> 0 \<and> new_id \<notin> key_ids ks \<and>
     kt_output_prefix_type t \<noteq> UNKNOWN_PREFIX \<and> kt_output_prefix_type t \<noteq> WITH_ID_REQUIREMENT"
  using assms
  by (auto simp: AddToKeyset_def Let_def Key_default_def key_ids_def dest!: GenerateUnusedKeyId_fresh
      split: if_splits sum.splits option.splits)

lemma AddToKeyset_error:
  "AddToKeyset registry ids t as_primary config ks n = Some (Inl e, ks', n') \<Longrightarrow> ks' = ks"
  by (auto simp: AddToKeyset_def Let_def split: if_splits sum.splits option.splits)

lemma KeysetManager_Add_error: "KeysetManager_Add registry ids t as_primary mgr = Some (Inl e, mgr') \<Longrightarrow> mgr' = mgr"
  by (auto simp: KeysetManager_Add_def AddToKeyset_def Let_def split: if_split_asm sum.split_asm option.split_asm)

lemma AddToKeyset_inv:
  assumes a: "AddToKeyset registry ids t as_primary config ks n = Some (r, ks', n')"
    and inv: "manager_inv ks"
  shows "manager_inv ks'"
proof (cases r)
  case (Inl e)
  with a inv show ?thesis using AddToKeyset_error by blast
next
  case (Inr new_id)
  from AddToKeyset_Inr [OF a [unfolded Inr]] inv show ?thesis
    by (auto simp: manager_inv_def has_enabled_primary_def managed_key_def key_ids_def)
qed

lemma KeysetManager_Add_inv:
  "KeysetManager_Add registry ids t as_primary mgr = Some (r, mgr') \<Longrightarrow> manager_inv (mgr_keyset mgr) \<Longrightarrow>
   manager_inv (mgr_keyset mgr')"
  by (auto simp: KeysetManager_Add_def dest: AddToKeyset_inv split: option.splits)

lemma KeysetManager_New_inv:
  assumes "KeysetManager_New registry ids t n = Some (Inr mgr)"
  shows "manager_inv (mgr_keyset mgr)"
proof -
  from assms obtain new_id where
    "AddToKeyset registry ids t True GlobalRegistryMode Keyset_default n = Some (Inr new_id, mgr_keyset mgr, mgr_drawn mgr)"
    by (auto simp: KeysetManager_New_def KeysetManager_Rotate_def KeysetManager_Add_def split: option.splits sum.splits)
  from AddToKeyset_Inr [OF this] show ?thesis
    by (auto simp: manager_inv_def has_enabled_primary_def managed_key_def Keyset_default_def)
qed

inductive_cases manager_stepE: "manager_step registry ids mgr mgr'"

lemma manager_step_inv:
  "manager_step registry ids mgr mgr' \<Longrightarrow> manager_inv (mgr_keyset mgr) \<Longrightarrow> manager_inv (mgr_keyset mgr')"
  by (induction rule: manager_step.induct)
    (auto simp: KeysetManager_Add_inv enable.keeps_inv disable.keeps_inv delete.keeps_inv destroy.keeps_inv
      set_primary.keeps_inv)

lemma manager_reachable_inv: "manager_reachable registry ids mgr \<Longrightarrow> manager_inv (mgr_keyset mgr)"
  by (induction rule: manager_reachable.induct) (auto intro: KeysetManager_New_inv manager_step_inv)

lemma distinct_filter_id:
  "distinct (map key_id ks) \<Longrightarrow> length (filter (\<lambda>k. key_id k = p) ks) \<le> 1"
proof (induction ks)
  case (Cons k ks)
  have "filter (\<lambda>x. key_id x = p) ks = []" if "key_id k = p"
    using Cons.prems that by (auto simp: filter_empty_conv) (metis image_eqI)
  with Cons show ?case by auto
qed simp

lemma ValidateKeyset_iff:
  "ValidateKeyset ks = OkStatus \<longleftrightarrow>
     enabled_keys ks \<noteq> [] \<and> (\<forall>k \<in> set (enabled_keys ks). ValidateKey k = OkStatus) \<and>
     (let primaries = filter (\<lambda>k. key_id k = primary_key_id ks) (enabled_keys ks) in
        length primaries = 1 \<or>
        primaries = [] \<and> (\<forall>k \<in> set (enabled_keys ks). key_material_type (get_key_data k) = ASYMMETRIC_PUBLIC))"
proof -
  have nonempty: "\<not> length (keys ks) < 1" if "enabled_keys ks \<noteq> []"
    using that by (cases "keys ks") (auto simp: enabled_keys_def)
  have one: "length xs \<le> 1 \<and> xs \<noteq> [] \<longleftrightarrow> length xs = 1" for xs :: "Key list"
    by (cases xs) auto
  show ?thesis
  proof (cases "enabled_keys ks = []")
    case True
    then show ?thesis by (auto simp: ValidateKeyset_def ValidateKeyset_loop_spec Let_def enabled_keys_def)
  next
    case False
    with nonempty one [of "filter (\<lambda>k. key_id k = primary_key_id ks) (enabled_keys ks)"] show ?thesis
      by (auto simp: ValidateKeyset_def ValidateKeyset_loop_spec Let_def enabled_keys_def)
  qed
qed

lemma manager_inv_valid: "manager_inv ks \<Longrightarrow> ValidateKeyset ks = OkStatus"
proof -
  assume inv: "manager_inv ks"
  let ?P = "filter (\<lambda>k. key_id k = primary_key_id ks) (enabled_keys ks)"
  obtain k where k: "k \<in> set (keys ks)" "key_id k = primary_key_id ks" "status k = ENABLED"
    using inv by (auto simp: manager_inv_def has_enabled_primary_def)
  then have ne: "?P \<noteq> []" "enabled_keys ks \<noteq> []" by (auto simp: enabled_keys_def filter_empty_conv)
  have "distinct (map key_id (enabled_keys ks))"
    using inv by (auto simp: manager_inv_def enabled_keys_def distinct_map_filter)
  from distinct_filter_id [OF this] have "length ?P \<le> 1" .
  with ne have "length ?P = 1" by (cases ?P) auto
  moreover have "\<forall>k \<in> set (enabled_keys ks). ValidateKey k = OkStatus"
    using inv by (auto simp: manager_inv_def managed_key_def enabled_keys_def ValidateKey_def)
  ultimately show ?thesis using ne by (simp add: ValidateKeyset_iff Let_def)
qed

section \<open>Properties\<close>

definition sample_registry :: "KeyTemplate \<Rightarrow> KeyData StatusOr" where
  "sample_registry t =
     (if kt_type_url t = [1] then Inr \<lparr>type_url = [1], key_value = kt_value t, key_material_type = SYMMETRIC\<rparr>
      else Inl kNotFound)"

definition sample_template :: KeyTemplate where
  "sample_template = \<lparr>kt_type_url = [1], kt_value = [2], kt_output_prefix_type = TINK\<rparr>"

definition sample_key :: "u32 \<Rightarrow> KeyStatusType \<Rightarrow> Key" where
  "sample_key i s = \<lparr>key_data = Some \<lparr>type_url = [1], key_value = [2], key_material_type = SYMMETRIC\<rparr>,
     status = s, key_id = i, output_prefix_type = TINK\<rparr>"

text \<open>
  (C7) A keyset manager made from a key template never holds a keyset that \<^verbatim>\<open>ValidateKeyset\<close> rejects:
  after any sequence of operations, successful or not, ids are distinct and nonzero, the primary key
  is present and enabled, and exactly the destroyed keys have lost their key material.
\<close>

theorem manager_keyset_valid:
  assumes "manager_reachable registry ids mgr"
  shows "ValidateKeyset (mgr_keyset mgr) = OkStatus \<and> manager_inv (mgr_keyset mgr)"
  using manager_reachable_inv [OF assms] manager_inv_valid by blast

lemma sample_manager_new:
  "KeysetManager_New sample_registry (\<lambda>n. of_nat n) sample_template 0 =
     Some (Inr \<lparr>mgr_keyset = \<lparr>primary_key_id = 1, keys = [sample_key 1 ENABLED]\<rparr>, mgr_drawn = 2\<rparr>)"
  by (simp add: KeysetManager_New_def KeysetManager_Rotate_def KeysetManager_Add_def AddToKeyset_def NewKeyData_from_def
      sample_registry_def sample_template_def sample_key_def Keyset_default_def Key_default_def
      GenerateUnusedKeyId_unfold key_ids_def)

theorem manager_keyset_valid_witness:
  "ValidateKeyset \<lparr>primary_key_id = 1, keys = [sample_key 1 ENABLED]\<rparr> = OkStatus \<and>
   manager_inv \<lparr>primary_key_id = 1, keys = [sample_key 1 ENABLED]\<rparr>"
  using manager_keyset_valid [OF reachable_new [OF sample_manager_new]] by simp

text \<open>
  (C8) Every operation of the manager is atomic: when \<^verbatim>\<open>Enable\<close>, \<^verbatim>\<open>Disable\<close>, \<^verbatim>\<open>Delete\<close>, \<^verbatim>\<open>Destroy\<close> or
  \<^verbatim>\<open>SetPrimary\<close> fails, in particular for an id that is not in the keyset, and when \<^verbatim>\<open>Add\<close> or \<^verbatim>\<open>Rotate\<close>
  fails, the keyset is what it was, although the loops write into the keys in place.
\<close>

theorem manager_errors_atomic:
  "(\<forall>oper \<in> {Enable, Disable, Delete, Destroy, SetPrimary}.
      (isl (fst (oper i ks)) \<longrightarrow> snd (oper i ks) = ks) \<and> (i \<notin> key_ids ks \<longrightarrow> isl (fst (oper i ks)))) \<and>
   (KeysetManager_Add registry ids t as_primary mgr = Some (Inl e, mgr') \<longrightarrow> mgr' = mgr) \<and>
   (KeysetManager_Rotate registry ids t mgr = Some (Inl e, mgr') \<longrightarrow> mgr' = mgr)"
  using enable.error_unchanged enable.missing disable.error_unchanged disable.missing delete.error_unchanged
    delete.missing destroy.error_unchanged destroy.missing set_primary.error_unchanged set_primary.missing
    KeysetManager_Add_error
  by (auto simp: KeysetManager_Rotate_def)

theorem manager_errors_atomic_witness:
  "snd (Destroy 7 \<lparr>primary_key_id = 1, keys = [sample_key 1 ENABLED]\<rparr>) =
     \<lparr>primary_key_id = 1, keys = [sample_key 1 ENABLED]\<rparr>"
  using manager_errors_atomic [of 7 "\<lparr>primary_key_id = 1, keys = [sample_key 1 ENABLED]\<rparr>"]
  by (simp add: key_ids_def sample_key_def)

text \<open>
  The primary key cannot be disabled, deleted or destroyed: these calls fail with
  \<^verbatim>\<open>kInvalidArgument\<close> and change nothing; and \<^verbatim>\<open>SetPrimary\<close> succeeds exactly for an id whose first key is
  enabled.
\<close>

theorem primary_protected:
  "Disable (primary_key_id ks) ks = (Inl kInvalidArgument, ks) \<and>
   Delete (primary_key_id ks) ks = (Inl kInvalidArgument, ks) \<and>
   Destroy (primary_key_id ks) ks = (Inl kInvalidArgument, ks) \<and>
   (fst (SetPrimary i ks) = OkStatus \<longleftrightarrow>
      (\<exists>k. find (\<lambda>k. key_id k = i) (keys ks) = Some k \<and> status k = ENABLED))"
  by (simp add: Disable_def Delete_def Destroy_def SetPrimary_def split: option.split)

lemma kept_by_update:
  assumes "snd (f k) = k" and "k \<in> set (keys ks)"
  shows "k \<in> set (keys (snd (store_keys ks (update_key i f (keys ks)))))"
  using assms by (cases i f "keys ks" rule: update_key_cases) (auto simp: store_keys_def)

text \<open>
  (C9) Destruction is final: no operation of the manager other than the
  deletion of the key brings a destroyed key back or changes it, and a destroyed key has no key data.
\<close>

theorem destroyed_forever:
  assumes inv: "manager_inv ks" and k: "k \<in> set (keys ks)" and d: "status k = DESTROYED"
  shows "key_data k = None \<and> k \<in> set (keys (snd (Enable i ks))) \<and> k \<in> set (keys (snd (Disable i ks))) \<and>
     k \<in> set (keys (snd (Destroy i ks))) \<and> k \<in> set (keys (snd (SetPrimary i ks))) \<and>
     (i \<noteq> key_id k \<longrightarrow> k \<in> set (keys (snd (Delete i ks)))) \<and>
     (\<forall>registry ids t as_primary config n r ks' n'.
        AddToKeyset registry ids t as_primary config ks n = Some (r, ks', n') \<longrightarrow> k \<in> set (keys ks'))"
proof (intro conjI allI impI)
  from inv k d show none: "key_data k = None" by (auto simp: manager_inv_def managed_key_def)
  show "k \<in> set (keys (snd (Enable i ks)))"
    unfolding Enable_def by (rule kept_by_update) (simp_all add: k d)
  show "k \<in> set (keys (snd (Disable i ks)))"
    by (simp add: Disable_def k) (intro impI kept_by_update, simp_all add: k d)
  have "k\<lparr>key_data := None, status := DESTROYED\<rparr> = k" using none d by (cases k) simp
  then show "k \<in> set (keys (snd (Destroy i ks)))"
    by (simp add: Destroy_def k) (intro impI kept_by_update, simp_all add: k d Let_def)
  show "k \<in> set (keys (snd (SetPrimary i ks)))"
    using k by (auto simp: SetPrimary_def split: option.split)
  show "k \<in> set (keys (snd (Delete i ks)))" if "i \<noteq> key_id k"
    using k that by (cases i "keys ks" rule: erase_key_cases) (auto simp: Delete_def store_keys_def)
  show "k \<in> set (keys ks')" if "AddToKeyset registry ids t as_primary config ks n = Some (r, ks', n')"
    for registry ids t as_primary config n r ks' n'
  proof (cases r)
    case (Inl e)
    with that k AddToKeyset_error show ?thesis by blast
  next
    case (Inr new_id)
    with that have "\<exists>key. keys ks' = keys ks @ [key]" using AddToKeyset_Inr by blast
    with k show ?thesis by auto
  qed
qed

theorem destroyed_forever_witness:
  "sample_key 2 DESTROYED\<lparr>key_data := None\<rparr>
     \<in> set (keys (snd (Enable 2 \<lparr>primary_key_id = 1, keys = [sample_key 1 ENABLED, sample_key 2 DESTROYED\<lparr>key_data := None\<rparr>]\<rparr>)))"
  using destroyed_forever [of "\<lparr>primary_key_id = 1, keys = [sample_key 1 ENABLED, sample_key 2 DESTROYED\<lparr>key_data := None\<rparr>]\<rparr>"
      "sample_key 2 DESTROYED\<lparr>key_data := None\<rparr>" 2]
  by (simp add: manager_inv_def managed_key_def has_enabled_primary_def sample_key_def)

text \<open>
  (C10) Adding a key returns: if the key type can be generated and the random source ever yields a
  nonzero id that the keyset does not use, then \<^verbatim>\<open>AddToKeyset\<close> ends, with one new enabled key at the
  end of the keyset, under an id that no other key has; it becomes the primary exactly if asked for.
\<close>

theorem AddToKeyset_adds:
  assumes "NewKeyData_from registry config t = Inr kd"
    and "kt_output_prefix_type t \<noteq> UNKNOWN_PREFIX" and "kt_output_prefix_type t \<noteq> WITH_ID_REQUIREMENT"
    and "ids (n + d) \<noteq> 0" and "ids (n + d) \<notin> key_ids ks"
  shows "\<exists>new_id ks' n'. AddToKeyset registry ids t as_primary config ks n = Some (Inr new_id, ks', n') \<and>
     new_id \<notin> key_ids ks \<and>
     keys ks' = keys ks @ [\<lparr>key_data = Some kd, status = ENABLED, key_id = new_id,
                            output_prefix_type = kt_output_prefix_type t\<rparr>] \<and>
     primary_key_id ks' = (if as_primary then new_id else primary_key_id ks)"
proof -
  let ?key = "Key_default\<lparr>key_data := Some kd, status := ENABLED, output_prefix_type := kt_output_prefix_type t\<rparr>"
  have "ids (n + d) \<notin> key_ids (ks\<lparr>keys := keys ks @ [?key]\<rparr>)"
    using assms(4,5) by (simp add: key_ids_def Key_default_def)
  from GenerateUnusedKeyId_returns [where ids = ids and n = n and d = d, OF this] obtain new_id n'
    where g: "GenerateUnusedKeyId ids (ks\<lparr>keys := keys ks @ [?key]\<rparr>) n = Some (new_id, n')" by blast
  from GenerateUnusedKeyId_fresh [OF g] have "new_id \<notin> key_ids ks" by (simp add: key_ids_def)
  with g assms(1-3) show ?thesis
    by (simp add: AddToKeyset_def Let_def Key_default_def)
qed

theorem AddToKeyset_adds_witness:
  "\<exists>new_id ks' n'. AddToKeyset sample_registry of_nat sample_template False GlobalRegistryMode sample_keyset 42 =
      Some (Inr new_id, ks', n') \<and> new_id \<notin> key_ids sample_keyset \<and>
     keys ks' = keys sample_keyset @ [\<lparr>key_data = Some \<lparr>type_url = [1], key_value = [2], key_material_type = SYMMETRIC\<rparr>,
        status = ENABLED, key_id = new_id, output_prefix_type = kt_output_prefix_type sample_template\<rparr>] \<and>
     primary_key_id ks' = (if False then new_id else primary_key_id sample_keyset)"
  by (rule AddToKeyset_adds [where d = 1])
    (simp_all add: NewKeyData_from_def sample_registry_def sample_template_def sample_keyset_def key_ids_def)

text \<open>
  (C11) \<^verbatim>\<open>ValidateKeyset\<close> accepts exactly the keysets with at least one enabled key, in which every enabled
  key has key data and a known prefix, and of the enabled keys one has the primary id, or none has and
  all of them are public keys. The loop with its early returns decides this property.
\<close>

theorem ValidateKeyset_accepts:
  "ValidateKeyset ks =
     (if enabled_keys ks \<noteq> [] \<and>
         (\<forall>k \<in> set (enabled_keys ks). key_data k \<noteq> None \<and> output_prefix_type k \<noteq> UNKNOWN_PREFIX) \<and>
         (let primaries = filter (\<lambda>k. key_id k = primary_key_id ks) (enabled_keys ks) in
            length primaries = 1 \<or>
            primaries = [] \<and> (\<forall>k \<in> set (enabled_keys ks). key_material_type (get_key_data k) = ASYMMETRIC_PUBLIC))
      then OkStatus else Inl kInvalidArgument)"
proof -
  have "ValidateKey k = OkStatus \<longleftrightarrow> key_data k \<noteq> None \<and> output_prefix_type k \<noteq> UNKNOWN_PREFIX"
    if "k \<in> set (enabled_keys ks)" for k
    using that by (simp add: ValidateKey_def enabled_keys_def)
  then have iff: "ValidateKeyset ks = OkStatus \<longleftrightarrow> enabled_keys ks \<noteq> [] \<and>
         (\<forall>k \<in> set (enabled_keys ks). key_data k \<noteq> None \<and> output_prefix_type k \<noteq> UNKNOWN_PREFIX) \<and>
         (let primaries = filter (\<lambda>k. key_id k = primary_key_id ks) (enabled_keys ks) in
            length primaries = 1 \<or>
            primaries = [] \<and> (\<forall>k \<in> set (enabled_keys ks). key_material_type (get_key_data k) = ASYMMETRIC_PUBLIC))"
    unfolding ValidateKeyset_iff by (metis (no_types, lifting))
  have "ValidateKeyset ks = OkStatus \<or> ValidateKeyset ks = Inl kInvalidArgument"
    by (simp add: ValidateKeyset_def ValidateKeyset_loop_spec Let_def)
  with iff show ?thesis by auto
qed

theorem ValidateKeyset_accepts_witness:
  "ValidateKeyset sample_keyset = OkStatus \<and> ValidateKeyset Keyset_default = Inl kInvalidArgument"
  using ValidateKeyset_accepts [of sample_keyset] ValidateKeyset_accepts [of Keyset_default]
  by (simp add: sample_keyset_def enabled_keys_def Keyset_default_def)

end
