(* ===== verification/Keyset_Handle.thy ===== *)
theory Keyset_Handle
  imports Keyset_Manager
begin

text \<open>
  Keyset handles (\<^verbatim>\<open>tink/core/keyset_handle.cc\<close>), the key serializations they are made of
  (\<^verbatim>\<open>tink/internal/proto_key_serialization.cc\<close>, \<^verbatim>\<open>tink/internal/key_status_util.cc\<close>) and the keyset
  formats (\<^verbatim>\<open>tink/core/proto_keyset_format.cc\<close>).

  Key objects are abstract, of a type \<open>'k\<close>: what the handle does with them goes through the
  serialization registry, here the record \<open>key_fns\<close>. The protocol buffer library's serialization of
  a keyset and the keyset encryption AEAD are parameters as well. A failed \<^verbatim>\<open>ABSL_CHECK\<close> ends the
  program; the functions that contain one return an option, \<open>None\<close> standing for the crash. Key ids
  are 32-bit words, read as signed by some interfaces of the source and as unsigned by others.
\<close>

section \<open>Definitions\<close>

subsection \<open>Key status and key serializations\<close>

datatype KeyStatus = kEnabled | kDisabled | kDestroyed | kOtherKeyStatus

fun FromKeyStatusType :: "KeyStatusType \<Rightarrow> KeyStatus StatusOr" where
  "FromKeyStatusType ENABLED = Inr kEnabled"
| "FromKeyStatusType DISABLED = Inr kDisabled"
| "FromKeyStatusType DESTROYED = Inr kDestroyed"
| "FromKeyStatusType _ = Inl kInvalidArgument"

fun ToKeyStatusType :: "KeyStatus \<Rightarrow> KeyStatusType StatusOr" where
  "ToKeyStatusType kEnabled = Inr ENABLED"
| "ToKeyStatusType kDisabled = Inr DISABLED"
| "ToKeyStatusType kDestroyed = Inr DESTROYED"
| "ToKeyStatusType kOtherKeyStatus = Inl kInvalidArgument"

text \<open>\<^verbatim>\<open>absl::ascii_isprint\<close> accepts the codes 32 to 126, of which 32 is a space.\<close>

definition IsPrintableAscii :: "bytes \<Rightarrow> bool" where
  "IsPrintableAscii s \<longleftrightarrow> list_all (\<lambda>c. 32 < c \<and> c < 127) s"

record ProtoKeySerialization =
  pks_type_url :: bytes
  pks_serialized_key :: bytes
  pks_key_material_type :: KeyMaterialType
  pks_output_prefix_type :: OutputPrefixType
  pks_id_requirement :: "u32 option"

definition ProtoKeySerialization_Create ::
    "bytes \<Rightarrow> bytes \<Rightarrow> KeyMaterialType \<Rightarrow> OutputPrefixType \<Rightarrow> u32 option \<Rightarrow> ProtoKeySerialization StatusOr" where
  "ProtoKeySerialization_Create url serialized_key material prefix id_requirement =
     (if \<not> IsPrintableAscii url then Inl kInvalidArgument
      else if prefix = RAW \<and> id_requirement \<noteq> None then Inl kInvalidArgument
      else if prefix \<noteq> RAW \<and> id_requirement = None then Inl kInvalidArgument
      else Inr \<lparr>pks_type_url = url, pks_serialized_key = serialized_key, pks_key_material_type = material,
                pks_output_prefix_type = prefix, pks_id_requirement = id_requirement\<rparr>)"

definition ToProtoKeySerialization :: "Key \<Rightarrow> ProtoKeySerialization StatusOr" where
  "ToProtoKeySerialization key =
     (let id_requirement = (if output_prefix_type key \<noteq> RAW then Some (key_id key) else None)
      in ProtoKeySerialization_Create (type_url (get_key_data key)) (key_value (get_key_data key))
           (key_material_type (get_key_data key)) (output_prefix_type key) id_requirement)"

text \<open>
  What the serialization registry and the key classes provide: parsing (with the fallback to a
  legacy key), serializing, the serialization stored in a legacy key (\<open>None\<close>: not a legacy key),
  and the public key of a private key (\<open>None\<close>: not a private key).
\<close>

record 'k key_fns =
  ParseKeyWithLegacyFallback :: "ProtoKeySerialization \<Rightarrow> 'k StatusOr"
  SerializeKey :: "'k \<Rightarrow> ProtoKeySerialization StatusOr"
  LegacySerialization :: "'k \<Rightarrow> ProtoKeySerialization StatusOr option"
  GetPublicKey :: "'k \<Rightarrow> 'k option"

definition SerializeLegacyKey :: "'k key_fns \<Rightarrow> 'k \<Rightarrow> ProtoKeySerialization StatusOr" where
  "SerializeLegacyKey K key =
     (case LegacySerialization K key of None \<Rightarrow> Inl kInvalidArgument | Some s \<Rightarrow> s)"

definition GetProtoKeySerialization :: "'k key_fns \<Rightarrow> 'k \<Rightarrow> ProtoKeySerialization StatusOr" where
  "GetProtoKeySerialization K key =
     (let serialization = SerializeKey K key
      in if serialization = Inl kNotFound then SerializeLegacyKey K key else serialization)"

definition ToKeysetKey :: "u32 \<Rightarrow> KeyStatusType \<Rightarrow> ProtoKeySerialization \<Rightarrow> Key" where
  "ToKeysetKey i st serialization =
     \<lparr>key_data = Some \<lparr>type_url = pks_type_url serialization, key_value = pks_serialized_key serialization,
                       key_material_type = pks_key_material_type serialization\<rparr>,
      status = st, key_id = i, output_prefix_type = pks_output_prefix_type serialization\<rparr>"

definition CreateKeysetKeyFromProtoKeySerialization ::
    "ProtoKeySerialization \<Rightarrow> u32 \<Rightarrow> KeyStatusType \<Rightarrow> Key StatusOr" where
  "CreateKeysetKeyFromProtoKeySerialization s i st =
     (case pks_id_requirement s of
        Some r \<Rightarrow> if r \<noteq> i then Inl kInvalidArgument else Inr (ToKeysetKey i st s)
      | None \<Rightarrow> Inr (ToKeysetKey i st s))"

definition CreateKeysetKey :: "'k key_fns \<Rightarrow> 'k \<Rightarrow> u32 \<Rightarrow> KeyStatusType \<Rightarrow> Key StatusOr" where
  "CreateKeysetKey K key i st =
     (case GetProtoKeySerialization K key of
        Inl e \<Rightarrow> Inl e
      | Inr s \<Rightarrow> CreateKeysetKeyFromProtoKeySerialization s i st)"

subsection \<open>The handle\<close>

record 'k Entry =
  entry_key :: 'k
  entry_status :: KeyStatus
  entry_id :: u32
  is_primary :: bool

text \<open>The annotations of a handle: the monitoring annotations, if there are any.\<close>

type_synonym annotations = "(bytes \<times> bytes) list"

record 'k KeysetHandle =
  kh_keyset :: Keyset
  kh_entries :: "'k Entry list"
  kh_annotations :: "annotations option"

definition handle_size :: "'k KeysetHandle \<Rightarrow> nat" where
  "handle_size h = length (keys (kh_keyset h))"

definition ValidateNoSecret :: "Keyset \<Rightarrow> Status" where
  "ValidateNoSecret keyset =
     (if list_ex (\<lambda>key. key_material_type (get_key_data key) = UNKNOWN_KEYMATERIAL \<or>
                        key_material_type (get_key_data key) = SYMMETRIC \<or>
                        key_material_type (get_key_data key) = ASYMMETRIC_PRIVATE) (keys keyset)
      then Inl kFailedPrecondition else OkStatus)"

definition ValidateAt :: "'k KeysetHandle \<Rightarrow> nat \<Rightarrow> Status" where
  "ValidateAt h index =
     (let proto_key = keys (kh_keyset h) ! index
      in if \<not> IsPrintableAscii (type_url (get_key_data proto_key)) then Inl kFailedPrecondition
         else case FromKeyStatusType (status proto_key) of Inl e \<Rightarrow> Inl e | Inr _ \<Rightarrow> OkStatus)"

text \<open>The loop of \<^verbatim>\<open>Validate\<close> over the indices, counting the primaries.\<close>

fun Validate_loop :: "'k KeysetHandle \<Rightarrow> nat list \<Rightarrow> nat \<Rightarrow> nat StatusOr" where
  "Validate_loop h [] num_primary = Inr num_primary"
| "Validate_loop h (i # is) num_primary =
     (case ValidateAt h i of
        Inl e \<Rightarrow> Inl e
      | Inr _ \<Rightarrow>
          let proto_key = keys (kh_keyset h) ! i
          in if key_id proto_key = primary_key_id (kh_keyset h)
             then (if status proto_key \<noteq> ENABLED then Inl kFailedPrecondition
                   else Validate_loop h is (num_primary + 1))
             else Validate_loop h is num_primary)"

definition Validate :: "'k KeysetHandle \<Rightarrow> Status" where
  "Validate h =
     (case Validate_loop h [0..<handle_size h] 0 of
        Inl e \<Rightarrow> Inl e
      | Inr num_primary \<Rightarrow>
          if num_primary < 1 then Inl kFailedPrecondition
          else if 1 < num_primary then Inl kFailedPrecondition
          else OkStatus)"

definition CreateEntry :: "'k key_fns \<Rightarrow> Key \<Rightarrow> u32 \<Rightarrow> 'k Entry StatusOr" where
  "CreateEntry K proto_key primary =
     (case ToProtoKeySerialization proto_key of
        Inl e \<Rightarrow> Inl e
      | Inr serialization \<Rightarrow>
          (case ParseKeyWithLegacyFallback K serialization of
             Inl e \<Rightarrow> Inl e
           | Inr key \<Rightarrow>
               (case FromKeyStatusType (status proto_key) of
                  Inl e \<Rightarrow> Inl e
                | Inr key_status \<Rightarrow>
                    Inr \<lparr>entry_key = key, entry_status = key_status, entry_id = key_id proto_key,
                         is_primary = (key_id proto_key = primary)\<rparr>)))"

definition CreateEntryAt :: "'k key_fns \<Rightarrow> 'k KeysetHandle \<Rightarrow> nat \<Rightarrow> 'k Entry option" where
  "CreateEntryAt K h index =
     (if \<not> index < handle_size h then None
      else if isl (ValidateAt h index) then None
      else case CreateEntry K (keys (kh_keyset h) ! index) (primary_key_id (kh_keyset h)) of
             Inl _ \<Rightarrow> None
           | Inr entry \<Rightarrow> Some entry)"

definition handle_nth :: "'k key_fns \<Rightarrow> 'k KeysetHandle \<Rightarrow> nat \<Rightarrow> 'k Entry option" where
  "handle_nth K h index =
     (if \<not> index < handle_size h then None
      else if kh_entries h \<noteq> [] \<and> index < length (kh_entries h) then Some (kh_entries h ! index)
      else CreateEntryAt K h index)"

fun GetPrimary_loop :: "'k key_fns \<Rightarrow> 'k KeysetHandle \<Rightarrow> nat list \<Rightarrow> 'k Entry option" where
  "GetPrimary_loop K h [] = None"
| "GetPrimary_loop K h (i # is) =
     (if key_id (keys (kh_keyset h) ! i) = primary_key_id (kh_keyset h) then handle_nth K h i
      else GetPrimary_loop K h is)"

definition GetPrimary :: "'k key_fns \<Rightarrow> 'k KeysetHandle \<Rightarrow> 'k Entry option" where
  "GetPrimary K h = (if isl (Validate h) then None else GetPrimary_loop K h [0..<handle_size h])"

fun GetEntries_loop :: "'k key_fns \<Rightarrow> u32 \<Rightarrow> Key list \<Rightarrow> 'k Entry list StatusOr" where
  "GetEntries_loop K primary [] = Inr []"
| "GetEntries_loop K primary (key # ks) =
     (case CreateEntry K key primary of
        Inl e \<Rightarrow> Inl e
      | Inr entry \<Rightarrow>
          (case GetEntries_loop K primary ks of
             Inl e \<Rightarrow> Inl e
           | Inr entries \<Rightarrow> Inr (entry # entries)))"

definition GetEntriesFromKeyset :: "'k key_fns \<Rightarrow> Keyset \<Rightarrow> 'k Entry list StatusOr" where
  "GetEntriesFromKeyset K keyset = GetEntries_loop K (primary_key_id keyset) (keys keyset)"

subsection \<open>Reading and writing\<close>

record AeadFns =
  aead_Encrypt :: "bytes \<Rightarrow> bytes \<Rightarrow> bytes StatusOr"
  aead_Decrypt :: "bytes \<Rightarrow> bytes \<Rightarrow> bytes StatusOr"

text \<open>The protocol buffer library's (de)serialization of \<^verbatim>\<open>Keyset\<close>.\<close>

record keyset_proto =
  Keyset_SerializeAsString :: "Keyset \<Rightarrow> bytes"
  Keyset_ParseFromString :: "bytes \<Rightarrow> Keyset option"

definition Encrypt_keyset :: "keyset_proto \<Rightarrow> Keyset \<Rightarrow> AeadFns \<Rightarrow> bytes \<Rightarrow> EncryptedKeyset StatusOr" where
  "Encrypt_keyset P keyset master_key_aead associated_data =
     (case aead_Encrypt master_key_aead (Keyset_SerializeAsString P keyset) associated_data of
        Inl e \<Rightarrow> Inl e
      | Inr ct \<Rightarrow> Inr (EncryptedKeyset_default\<lparr>encrypted_keyset := ct\<rparr>))"

definition Decrypt_keyset :: "keyset_proto \<Rightarrow> EncryptedKeyset \<Rightarrow> AeadFns \<Rightarrow> bytes \<Rightarrow> Keyset StatusOr" where
  "Decrypt_keyset P enc_keyset master_key_aead associated_data =
     (case aead_Decrypt master_key_aead (encrypted_keyset enc_keyset) associated_data of
        Inl e \<Rightarrow> Inl e
      | Inr pt \<Rightarrow>
          (case Keyset_ParseFromString P pt of
             None \<Rightarrow> Inl kInvalidArgument
           | Some keyset \<Rightarrow> Inr keyset))"

text \<open>\<open>make_annotations\<close>: the annotations map has an element only if there is something to store.\<close>

definition make_annotations :: "annotations \<Rightarrow> annotations option" where
  "make_annotations a = (if a \<noteq> [] then Some a else None)"

definition make_handle ::
    "'k key_fns \<Rightarrow> Keyset \<Rightarrow> annotations \<Rightarrow> 'k KeysetHandle StatusOr" where
  "make_handle K keyset monitoring_annotations =
     (case GetEntriesFromKeyset K keyset of
        Inl e \<Rightarrow> Inl e
      | Inr entries \<Rightarrow>
          if length entries \<noteq> length (keys keyset) then Inl kInternal
          else Inr \<lparr>kh_keyset = keyset, kh_entries = entries, kh_annotations = make_annotations monitoring_annotations\<rparr>)"

definition ReadWithAssociatedData ::
    "'k key_fns \<Rightarrow> keyset_proto \<Rightarrow> EncryptedKeyset StatusOr \<Rightarrow> AeadFns \<Rightarrow> bytes \<Rightarrow> annotations \<Rightarrow> 'k KeysetHandle StatusOr" where
  "ReadWithAssociatedData K P read_encrypted master_key_aead associated_data monitoring_annotations =
     (case read_encrypted of
        Inl _ \<Rightarrow> Inl kInvalidArgument
      | Inr enc_keyset \<Rightarrow>
          (case Decrypt_keyset P enc_keyset master_key_aead associated_data of
             Inl _ \<Rightarrow> Inl kInvalidArgument
           | Inr keyset \<Rightarrow> make_handle K keyset monitoring_annotations))"

definition ReadNoSecret ::
    "'k key_fns \<Rightarrow> keyset_proto \<Rightarrow> bytes \<Rightarrow> annotations \<Rightarrow> 'k KeysetHandle StatusOr" where
  "ReadNoSecret K P serialized_keyset monitoring_annotations =
     (case Keyset_ParseFromString P serialized_keyset of
        None \<Rightarrow> Inl kInvalidArgument
      | Some keyset \<Rightarrow>
          (case ValidateNoSecret keyset of
             Inl e \<Rightarrow> Inl e
           | Inr _ \<Rightarrow> make_handle K keyset monitoring_annotations))"

text \<open>
  A writer is null or takes what is written and its own state to a status and its next state.
\<close>

definition WriteWithAssociatedData ::
    "keyset_proto \<Rightarrow> 'k KeysetHandle \<Rightarrow> (EncryptedKeyset \<Rightarrow> 'w \<Rightarrow> Status \<times> 'w) option \<Rightarrow> AeadFns \<Rightarrow> bytes \<Rightarrow> 'w \<Rightarrow> Status \<times> 'w" where
  "WriteWithAssociatedData P h writer master_key_aead associated_data w =
     (case writer of
        None \<Rightarrow> (Inl kInvalidArgument, w)
      | Some write \<Rightarrow>
          (case Encrypt_keyset P (kh_keyset h) master_key_aead associated_data of
             Inl _ \<Rightarrow> (Inl kInvalidArgument, w)
           | Inr enc \<Rightarrow> write enc w))"

definition WriteNoSecret ::
    "'k KeysetHandle \<Rightarrow> (Keyset \<Rightarrow> 'w \<Rightarrow> Status \<times> 'w) option \<Rightarrow> 'w \<Rightarrow> Status \<times> 'w" where
  "WriteNoSecret h writer w =
     (case writer of
        None \<Rightarrow> (Inl kInvalidArgument, w)
      | Some write \<Rightarrow>
          (case ValidateNoSecret (kh_keyset h) of
             Inl e \<Rightarrow> (Inl e, w)
           | Inr _ \<Rightarrow> write (kh_keyset h) w))"

definition ParseKeysetFromProtoKeysetFormat :: "'k key_fns \<Rightarrow> keyset_proto \<Rightarrow> bytes \<Rightarrow> 'k KeysetHandle StatusOr" where
  "ParseKeysetFromProtoKeysetFormat K P serialized_keyset =
     (case Keyset_ParseFromString P serialized_keyset of
        None \<Rightarrow> Inl kInternal
      | Some keyset \<Rightarrow> make_handle K keyset [])"

definition SerializeKeysetToProtoKeysetFormat :: "keyset_proto \<Rightarrow> 'k KeysetHandle \<Rightarrow> bytes" where
  "SerializeKeysetToProtoKeysetFormat P h = Keyset_SerializeAsString P (kh_keyset h)"

subsection \<open>Generating keys\<close>

definition AddKey ::
    "'k key_fns \<Rightarrow> (KeyTemplate \<Rightarrow> KeyData StatusOr) \<Rightarrow> (nat \<Rightarrow> u32) \<Rightarrow> KeyTemplate \<Rightarrow> bool \<Rightarrow> KeyGenConfiguration \<Rightarrow>
     'k KeysetHandle \<Rightarrow> nat \<Rightarrow> (u32 StatusOr \<times> 'k KeysetHandle \<times> nat) option" where
  "AddKey K registry ids key_template as_primary config h n =
     (case AddToKeyset registry ids key_template as_primary config (kh_keyset h) n of
        None \<Rightarrow> None
      | Some (Inl e, keyset, n') \<Rightarrow> Some (Inl e, h\<lparr>kh_keyset := keyset\<rparr>, n')
      | Some (Inr new_id, keyset, n') \<Rightarrow>
          (case CreateEntry K (keys keyset ! (length (keys keyset) - 1)) (primary_key_id keyset) of
             Inl e \<Rightarrow> Some (Inl e, h\<lparr>kh_keyset := keyset\<rparr>, n')
           | Inr entry \<Rightarrow> Some (Inr new_id, h\<lparr>kh_keyset := keyset, kh_entries := kh_entries h @ [entry]\<rparr>, n')))"

definition GenerateNew ::
    "'k key_fns \<Rightarrow> (KeyTemplate \<Rightarrow> KeyData StatusOr) \<Rightarrow> (nat \<Rightarrow> u32) \<Rightarrow> KeyTemplate \<Rightarrow> KeyGenConfiguration \<Rightarrow>
     annotations \<Rightarrow> nat \<Rightarrow> ('k KeysetHandle StatusOr \<times> nat) option" where
  "GenerateNew K registry ids key_template config monitoring_annotations n =
     (case AddKey K registry ids key_template True config
             \<lparr>kh_keyset = Keyset_default, kh_entries = [], kh_annotations = make_annotations monitoring_annotations\<rparr> n of
        None \<Rightarrow> None
      | Some (Inl e, _, n') \<Rightarrow> Some (Inl e, n')
      | Some (Inr _, h, n') \<Rightarrow> Some (Inr h, n'))"

subsection \<open>Public keysets\<close>

definition ExtractPublicKey ::
    "(bytes \<Rightarrow> bytes \<Rightarrow> KeyData StatusOr) \<Rightarrow> KeyGenConfiguration \<Rightarrow> Key \<Rightarrow> Key StatusOr" where
  "ExtractPublicKey registry_public config key =
     (if key_material_type (get_key_data key) \<noteq> ASYMMETRIC_PRIVATE then Inl kInvalidArgument
      else let kd = get_key_data key;
               public_data =
                 (case config of
                    GlobalRegistryMode \<Rightarrow> registry_public (type_url kd) (key_value kd)
                  | KeyTypeInfoStoreMode store \<Rightarrow>
                      (case store (type_url kd) of
                         Inl e \<Rightarrow> Inl e
                       | Inr factory \<Rightarrow>
                           (case factory_GetPublicKeyData factory of
                              None \<Rightarrow> Inl kInvalidArgument
                            | Some get_public \<Rightarrow> get_public (key_value kd))))
           in case public_data of
                Inl e \<Rightarrow> Inl e
              | Inr data \<Rightarrow>
                  Inr \<lparr>key_data = Some data, status = status key, key_id = key_id key,
                       output_prefix_type = output_prefix_type key\<rparr>)"

text \<open>One iteration of \<^verbatim>\<open>GetPublicKeysetHandle\<close>; the outer option is the check in \<^verbatim>\<open>operator[]\<close>.\<close>

definition public_entry ::
    "'k key_fns \<Rightarrow> (bytes \<Rightarrow> bytes \<Rightarrow> KeyData StatusOr) \<Rightarrow> KeyGenConfiguration \<Rightarrow> 'k KeysetHandle \<Rightarrow> nat \<Rightarrow>
     (Key \<times> 'k Entry) StatusOr option" where
  "public_entry K registry_public config h i =
     (case handle_nth K h i of
        None \<Rightarrow> None
      | Some entry \<Rightarrow>
          (case GetPublicKey K (entry_key entry) of
             Some public_key \<Rightarrow>
               (case ToKeyStatusType (entry_status entry) of
                  Inl e \<Rightarrow> Some (Inl e)
                | Inr key_status \<Rightarrow>
                    (case CreateKeysetKey K public_key (entry_id entry) key_status of
                       Inl e \<Rightarrow> Some (Inl e)
                     | Inr proto_key \<Rightarrow> Some (Inr (proto_key, entry\<lparr>entry_key := public_key\<rparr>))))
           | None \<Rightarrow>
               (case ExtractPublicKey registry_public config (keys (kh_keyset h) ! i) of
                  Inl e \<Rightarrow> Some (Inl e)
                | Inr proto_key \<Rightarrow>
                    (case CreateEntry K proto_key (primary_key_id (kh_keyset h)) of
                       Inl e \<Rightarrow> Some (Inl e)
                     | Inr new_entry \<Rightarrow> Some (Inr (proto_key, new_entry))))))"

fun public_loop ::
    "'k key_fns \<Rightarrow> (bytes \<Rightarrow> bytes \<Rightarrow> KeyData StatusOr) \<Rightarrow> KeyGenConfiguration \<Rightarrow> 'k KeysetHandle \<Rightarrow> nat list \<Rightarrow>
     (Key list \<times> 'k Entry list) StatusOr option" where
  "public_loop K registry_public config h [] = Some (Inr ([], []))"
| "public_loop K registry_public config h (i # is) =
     (case public_entry K registry_public config h i of
        None \<Rightarrow> None
      | Some (Inl e) \<Rightarrow> Some (Inl e)
      | Some (Inr (proto_key, entry)) \<Rightarrow>
          (case public_loop K registry_public config h is of
             None \<Rightarrow> None
           | Some (Inl e) \<Rightarrow> Some (Inl e)
           | Some (Inr (ks, es)) \<Rightarrow> Some (Inr (proto_key # ks, entry # es))))"

definition GetPublicKeysetHandle ::
    "'k key_fns \<Rightarrow> (bytes \<Rightarrow> bytes \<Rightarrow> KeyData StatusOr) \<Rightarrow> KeyGenConfiguration \<Rightarrow> 'k KeysetHandle \<Rightarrow>
     'k KeysetHandle StatusOr option" where
  "GetPublicKeysetHandle K registry_public config h =
     (case public_loop K registry_public config h [0..<handle_size h] of
        None \<Rightarrow> None
      | Some (Inl e) \<Rightarrow> Some (Inl e)
      | Some (Inr (ks, es)) \<Rightarrow>
          if length es \<noteq> length ks then Some (Inl kInternal)
          else Some (Inr \<lparr>kh_keyset = \<lparr>primary_key_id = primary_key_id (kh_keyset h), keys = ks\<rparr>,
                          kh_entries = es, kh_annotations = None\<rparr>))"

section \<open>Entries describe the keys of the keyset\<close>

text \<open>
  The relation the class documents between \<^verbatim>\<open>entries_\<close> and \<^verbatim>\<open>keyset_\<close>: there are no entries, or one
  for each key, in order, with its id and status, primary exactly for the primary key id.
\<close>

definition entry_matches :: "u32 \<Rightarrow> Key \<Rightarrow> 'k Entry \<Rightarrow> bool" where
  "entry_matches primary key e \<longleftrightarrow>
     entry_id e = key_id key \<and> FromKeyStatusType (status key) = Inr (entry_status e) \<and>
     (is_primary e \<longleftrightarrow> key_id key = primary)"

definition entries_match :: "'k KeysetHandle \<Rightarrow> bool" where
  "entries_match h \<longleftrightarrow> kh_entries h = [] \<or>
     list_all2 (entry_matches (primary_key_id (kh_keyset h))) (keys (kh_keyset h)) (kh_entries h)"

lemma FromToKeyStatusType: "FromKeyStatusType s = Inr t \<longleftrightarrow> ToKeyStatusType t = Inr s"
  by (cases s; cases t) auto

lemma CreateEntry_matches: "CreateEntry K key primary = Inr e \<Longrightarrow> entry_matches primary key e"
  by (auto simp: CreateEntry_def entry_matches_def split: sum.splits)

lemma GetEntries_loop_match:
  "GetEntries_loop K primary ks = Inr es \<Longrightarrow> list_all2 (entry_matches primary) ks es"
  by (induction ks arbitrary: es) (auto split: sum.splits dest: CreateEntry_matches)

lemma make_handle_Inr:
  "make_handle K ks a = Inr h \<longleftrightarrow>
     (\<exists>es. GetEntriesFromKeyset K ks = Inr es \<and>
        h = \<lparr>kh_keyset = ks, kh_entries = es, kh_annotations = make_annotations a\<rparr>)"
proof -
  have "length es = length (keys ks)" if "GetEntriesFromKeyset K ks = Inr es" for es
    using GetEntries_loop_match [OF that [unfolded GetEntriesFromKeyset_def]] by (simp add: list_all2_lengthD)
  then show ?thesis by (auto simp: make_handle_def split: sum.splits)
qed

lemma make_handle_matches: "make_handle K ks a = Inr h \<Longrightarrow> entries_match h"
  by (auto simp: make_handle_Inr entries_match_def GetEntriesFromKeyset_def dest: GetEntries_loop_match)

lemma make_handle_error: "make_handle K ks a = Inl e \<longleftrightarrow> GetEntriesFromKeyset K ks = Inl e"
proof -
  have "length es = length (keys ks)" if "GetEntriesFromKeyset K ks = Inr es" for es
    using GetEntries_loop_match [OF that [unfolded GetEntriesFromKeyset_def]] by (simp add: list_all2_lengthD)
  then show ?thesis by (auto simp: make_handle_def split: sum.splits)
qed

lemma handle_nth_matches:
  assumes "entries_match h" and "handle_nth K h i = Some e"
  shows "i < handle_size h \<and> entry_matches (primary_key_id (kh_keyset h)) (keys (kh_keyset h) ! i) e"
proof (cases "kh_entries h \<noteq> [] \<and> i < length (kh_entries h)")
  case True
  with assms show ?thesis
    by (auto simp: entries_match_def handle_nth_def list_all2_conv_all_nth split: if_splits)
next
  case False
  with assms(2) show ?thesis
    by (auto simp: handle_nth_def CreateEntryAt_def CreateEntry_matches split: if_splits sum.splits)
qed

section \<open>Validation\<close>

lemma Validate_loop_spec:
  "Validate_loop h is n = Inr m \<longleftrightarrow>
     (\<forall>i \<in> set is. ValidateAt h i = OkStatus \<and>
        (key_id (keys (kh_keyset h) ! i) = primary_key_id (kh_keyset h) \<longrightarrow> status (keys (kh_keyset h) ! i) = ENABLED)) \<and>
     m = n + length (filter (\<lambda>i. key_id (keys (kh_keyset h) ! i) = primary_key_id (kh_keyset h)) is)"
proof (induction "is" arbitrary: n)
  case (Cons i "is")
  show ?case
  proof (cases "ValidateAt h i")
    case (Inl e)
    then show ?thesis by simp
  next
    case (Inr u)
    then show ?thesis by (auto simp: Let_def Cons.IH)
  qed
qed auto

lemma Validate_ok:
  assumes "Validate h = OkStatus"
  obtains i where "i < handle_size h" "key_id (keys (kh_keyset h) ! i) = primary_key_id (kh_keyset h)"
    "status (keys (kh_keyset h) ! i) = ENABLED" "\<And>j. j < handle_size h \<Longrightarrow> ValidateAt h j = OkStatus"
    "\<And>j. j < handle_size h \<Longrightarrow> key_id (keys (kh_keyset h) ! j) = primary_key_id (kh_keyset h) \<Longrightarrow> j = i"
proof -
  let ?p = "\<lambda>i. key_id (keys (kh_keyset h) ! i) = primary_key_id (kh_keyset h)"
  let ?f = "filter ?p [0..<handle_size h]"
  from assms obtain m where m: "Validate_loop h [0..<handle_size h] 0 = Inr m" and "m = 1"
    by (auto simp: Validate_def split: sum.splits if_splits)
  with Validate_loop_spec [of h "[0..<handle_size h]" 0 m] have
    all: "\<forall>i < handle_size h. ValidateAt h i = OkStatus \<and> (?p i \<longrightarrow> status (keys (kh_keyset h) ! i) = ENABLED)"
    and "length ?f = 1" by auto
  then obtain i where i: "?f = [i]" by (auto simp: length_Suc_conv)
  have mem: "j < handle_size h \<and> ?p j \<longleftrightarrow> j = i" for j
  proof -
    have "j < handle_size h \<and> ?p j \<longleftrightarrow> j \<in> set ?f" by auto
    then show ?thesis unfolding i by simp
  qed
  show thesis by (rule that [of i]) (use all mem in auto)
qed

lemma GetPrimary_loop_at:
  "distinct is \<Longrightarrow> i \<in> set is \<Longrightarrow>
   (\<And>j. j \<in> set is \<Longrightarrow> key_id (keys (kh_keyset h) ! j) = primary_key_id (kh_keyset h) \<longleftrightarrow> j = i) \<Longrightarrow>
   GetPrimary_loop K h is = handle_nth K h i"
  by (induction "is") auto

section \<open>Properties\<close>

definition sample_keys :: "bytes key_fns" where
  "sample_keys =
     \<lparr>ParseKeyWithLegacyFallback = (\<lambda>s. Inr (pks_serialized_key s)),
      SerializeKey = (\<lambda>k. Inl kNotFound),
      LegacySerialization = (\<lambda>k. Some (ProtoKeySerialization_Create [65] k ASYMMETRIC_PUBLIC RAW None)),
      GetPublicKey = (\<lambda>k. Some (0 # k))\<rparr>"

definition sample_private_keyset :: Keyset where
  "sample_private_keyset =
     \<lparr>primary_key_id = 7,
      keys = [\<lparr>key_data = Some \<lparr>type_url = [65], key_value = [3], key_material_type = ASYMMETRIC_PRIVATE\<rparr>,
               status = ENABLED, key_id = 7, output_prefix_type = RAW\<rparr>]\<rparr>"

definition sample_handle :: "bytes KeysetHandle" where
  "sample_handle =
     \<lparr>kh_keyset = sample_private_keyset,
      kh_entries = [\<lparr>entry_key = [3], entry_status = kEnabled, entry_id = 7, is_primary = True\<rparr>],
      kh_annotations = None\<rparr>"

lemma sample_entries: "GetEntriesFromKeyset sample_keys sample_private_keyset =
   Inr [\<lparr>entry_key = [3], entry_status = kEnabled, entry_id = 7, is_primary = True\<rparr>]"
  by (simp add: GetEntriesFromKeyset_def sample_private_keyset_def sample_keys_def CreateEntry_def ToProtoKeySerialization_def
      ProtoKeySerialization_Create_def IsPrintableAscii_def get_key_data_def value_or_def)

lemma sample_handle_matches: "entries_match sample_handle"
  by (simp add: entries_match_def sample_handle_def sample_private_keyset_def entry_matches_def)

text \<open>
  (C12) Writing a handle encrypted and reading it back: with a keyset encryption AEAD that decrypts what
  it encrypted and a protocol buffer library that parses what it serialized, the handle that is read
  has the keyset that was written, entries that describe it, and the annotations given to the read.
\<close>

theorem encrypted_keyset_roundtrip:
  assumes "aead_Encrypt A (Keyset_SerializeAsString P (kh_keyset h)) ad = Inr ct"
    and "aead_Decrypt A ct ad = Inr (Keyset_SerializeAsString P (kh_keyset h))"
    and "Keyset_ParseFromString P (Keyset_SerializeAsString P (kh_keyset h)) = Some (kh_keyset h)"
    and "GetEntriesFromKeyset K (kh_keyset h) = Inr entries"
  shows "\<exists>enc. WriteWithAssociatedData P h (Some (\<lambda>e w. (OkStatus, Some e))) A ad None = (OkStatus, Some enc) \<and>
     ReadWithAssociatedData K P (Inr enc) A ad annotations =
       Inr \<lparr>kh_keyset = kh_keyset h, kh_entries = entries, kh_annotations = make_annotations annotations\<rparr>"
  using assms
  by (auto simp: WriteWithAssociatedData_def Encrypt_keyset_def ReadWithAssociatedData_def Decrypt_keyset_def
      make_handle_Inr EncryptedKeyset_default_def)

theorem encrypted_keyset_roundtrip_witness:
  "\<exists>enc. WriteWithAssociatedData \<lparr>Keyset_SerializeAsString = \<lambda>_. [1], Keyset_ParseFromString = \<lambda>_. Some sample_private_keyset\<rparr>
       sample_handle (Some (\<lambda>e w. (OkStatus, Some e)))
       \<lparr>aead_Encrypt = (\<lambda>p ad. Inr (0 # p)), aead_Decrypt = (\<lambda>c ad. Inr (tl c))\<rparr> [] None = (OkStatus, Some enc) \<and>
     ReadWithAssociatedData sample_keys
       \<lparr>Keyset_SerializeAsString = \<lambda>_. [1], Keyset_ParseFromString = \<lambda>_. Some sample_private_keyset\<rparr> (Inr enc)
       \<lparr>aead_Encrypt = (\<lambda>p ad. Inr (0 # p)), aead_Decrypt = (\<lambda>c ad. Inr (tl c))\<rparr> [] [] =
       Inr \<lparr>kh_keyset = kh_keyset sample_handle,
            kh_entries = [\<lparr>entry_key = [3], entry_status = kEnabled, entry_id = 7, is_primary = True\<rparr>],
            kh_annotations = make_annotations []\<rparr>"
  by (rule encrypted_keyset_roundtrip [where ct = "[0, 1]"]) (simp_all add: sample_handle_def sample_entries)

definition secret_material :: "Key \<Rightarrow> bool" where
  "secret_material k \<longleftrightarrow> key_material_type (get_key_data k) \<in> {UNKNOWN_KEYMATERIAL, SYMMETRIC, ASYMMETRIC_PRIVATE}"

lemma ValidateNoSecret_iff: "ValidateNoSecret ks = OkStatus \<longleftrightarrow> (\<forall>k \<in> set (keys ks). \<not> secret_material k)"
  by (auto simp: ValidateNoSecret_def secret_material_def list_ex_iff)

text \<open>
  (C13) No secret key material passes through the unencrypted paths: a keyset is read by \<^verbatim>\<open>ReadNoSecret\<close>
  only if none of its keys has secret or unknown key material, and \<^verbatim>\<open>WriteNoSecret\<close> hands a keyset with
  such a key to no writer (the writer's state stays as it was) and fails.
\<close>

theorem no_secret_leaves_or_enters:
  "(ReadNoSecret K P bs a = Inr h \<longrightarrow> (\<forall>k \<in> set (keys (kh_keyset h)). \<not> secret_material k)) \<and>
   ((\<exists>k \<in> set (keys (kh_keyset h')). secret_material k) \<longrightarrow>
      (\<exists>e. WriteNoSecret h' writer w = (Inl e, w)))"
proof (intro conjI impI)
  assume "ReadNoSecret K P bs a = Inr h"
  then show "\<forall>k \<in> set (keys (kh_keyset h)). \<not> secret_material k"
    by (auto simp: ReadNoSecret_def make_handle_Inr ValidateNoSecret_iff [symmetric] split: option.splits sum.splits)
next
  assume "\<exists>k \<in> set (keys (kh_keyset h')). secret_material k"
  then have "ValidateNoSecret (kh_keyset h') \<noteq> OkStatus" by (simp add: ValidateNoSecret_iff)
  then show "\<exists>e. WriteNoSecret h' writer w = (Inl e, w)"
    by (auto simp: WriteNoSecret_def split: option.split sum.split)
qed

theorem no_secret_leaves_or_enters_witness:
  "\<exists>e. WriteNoSecret sample_handle (Some (\<lambda>k w. (OkStatus, Some k))) None = (Inl e, None)"
proof -
  have "\<exists>k \<in> set (keys (kh_keyset sample_handle)). secret_material k"
    by (simp add: sample_handle_def sample_private_keyset_def secret_material_def get_key_data_def value_or_def)
  with no_secret_leaves_or_enters [where h' = sample_handle and writer = "Some (\<lambda>k w. (OkStatus, Some k))" and w = None]
  show ?thesis by blast
qed

text \<open>The entry a validated handle returns as primary is the one at the only index with the primary id.\<close>

lemma GetPrimary_validated:
  assumes "entries_match h" and "Validate h = OkStatus"
  obtains i where "i < handle_size h" "key_id (keys (kh_keyset h) ! i) = primary_key_id (kh_keyset h)"
    "status (keys (kh_keyset h) ! i) = ENABLED"
    "\<And>j. j < handle_size h \<Longrightarrow> key_id (keys (kh_keyset h) ! j) = primary_key_id (kh_keyset h) \<Longrightarrow> j = i"
    "GetPrimary K h = (if kh_entries h \<noteq> [] then Some (kh_entries h ! i)
       else case CreateEntry K (keys (kh_keyset h) ! i) (primary_key_id (kh_keyset h)) of Inl _ \<Rightarrow> None | Inr e \<Rightarrow> Some e)"
proof -
  from Validate_ok [OF assms(2)] obtain i where i: "i < handle_size h"
      "key_id (keys (kh_keyset h) ! i) = primary_key_id (kh_keyset h)" "status (keys (kh_keyset h) ! i) = ENABLED"
    and v: "ValidateAt h i = OkStatus"
    and u: "\<And>j. j < handle_size h \<Longrightarrow> key_id (keys (kh_keyset h) ! j) = primary_key_id (kh_keyset h) \<Longrightarrow> j = i"
    by (metis (no_types, lifting))
  have "GetPrimary_loop K h [0..<handle_size h] = handle_nth K h i"
  proof (rule GetPrimary_loop_at)
    show "i \<in> set [0..<handle_size h]" using i(1) by simp
    show "(key_id (keys (kh_keyset h) ! j) = primary_key_id (kh_keyset h)) = (j = i)"
      if "j \<in> set [0..<handle_size h]" for j
      using that u [of j] i(2) by auto
  qed simp
  moreover have "kh_entries h \<noteq> [] \<longrightarrow> length (kh_entries h) = handle_size h"
    using assms(1) by (auto simp: entries_match_def handle_size_def dest: list_all2_lengthD)
  ultimately have "GetPrimary K h = (if kh_entries h \<noteq> [] then Some (kh_entries h ! i)
       else case CreateEntry K (keys (kh_keyset h) ! i) (primary_key_id (kh_keyset h)) of Inl _ \<Rightarrow> None | Inr e \<Rightarrow> Some e)"
    using i(1) v assms(2) by (auto simp: GetPrimary_def handle_nth_def CreateEntryAt_def)
  with i u show ?thesis by (rule that)
qed

text \<open>
  (C14) When \<^verbatim>\<open>GetPrimary\<close> crashes: exactly if \<^verbatim>\<open>Validate\<close> does not accept the handle, or the handle stores no
  entries and no entry can be made from the key under the primary id. When it does not crash, it
  returns an entry that is primary, enabled, and has the primary key id.
\<close>

theorem validated_handle_has_primary:
  assumes "entries_match h"
  shows "(GetPrimary K h = None \<longleftrightarrow> Validate h \<noteq> OkStatus \<or>
       kh_entries h = [] \<and> (\<exists>key \<in> set (keys (kh_keyset h)). key_id key = primary_key_id (kh_keyset h) \<and>
         isl (CreateEntry K key (primary_key_id (kh_keyset h))))) \<and>
     (\<forall>e. GetPrimary K h = Some e \<longrightarrow> is_primary e \<and> entry_status e = kEnabled \<and>
       entry_id e = primary_key_id (kh_keyset h))"
proof (cases "Validate h = OkStatus")
  case False
  then have "isl (Validate h)" by (cases "Validate h") auto
  with False show ?thesis by (simp add: GetPrimary_def)
next
  case True
  obtain i where i: "i < handle_size h" "key_id (keys (kh_keyset h) ! i) = primary_key_id (kh_keyset h)"
      "status (keys (kh_keyset h) ! i) = ENABLED"
    and u: "\<And>j. j < handle_size h \<Longrightarrow> key_id (keys (kh_keyset h) ! j) = primary_key_id (kh_keyset h) \<Longrightarrow> j = i"
    and g: "GetPrimary K h = (if kh_entries h \<noteq> [] then Some (kh_entries h ! i)
       else case CreateEntry K (keys (kh_keyset h) ! i) (primary_key_id (kh_keyset h)) of Inl _ \<Rightarrow> None | Inr e \<Rightarrow> Some e)"
    using GetPrimary_validated [OF assms True, of K] by blast
  have "(\<exists>key \<in> set (keys (kh_keyset h)). key_id key = primary_key_id (kh_keyset h) \<and>
         isl (CreateEntry K key (primary_key_id (kh_keyset h)))) \<longleftrightarrow>
       isl (CreateEntry K (keys (kh_keyset h) ! i) (primary_key_id (kh_keyset h)))"
    using i(1,2) u by (metis handle_size_def in_set_conv_nth nth_mem)
  moreover have "entry_matches (primary_key_id (kh_keyset h)) (keys (kh_keyset h) ! i) e" if "GetPrimary K h = Some e" for e
  proof (cases "kh_entries h = []")
    case True
    with that g have "CreateEntry K (keys (kh_keyset h) ! i) (primary_key_id (kh_keyset h)) = Inr e"
      by (simp split: sum.split_asm)
    then show ?thesis by (rule CreateEntry_matches)
  next
    case False
    with that g assms i(1) show ?thesis by (auto simp: entries_match_def list_all2_conv_all_nth handle_size_def)
  qed
  ultimately show ?thesis using True g i by (auto simp: entry_matches_def split: sum.splits)
qed

theorem validated_handle_has_primary_witness:
  "\<exists>e. GetPrimary sample_keys sample_handle = Some e \<and> is_primary e \<and> entry_status e = kEnabled \<and>
     entry_id e = primary_key_id (kh_keyset sample_handle)"
proof -
  have "Validate sample_handle = OkStatus"
    by (simp add: Validate_def sample_handle_def sample_private_keyset_def handle_size_def ValidateAt_def IsPrintableAscii_def
        get_key_data_def value_or_def)
  then have "GetPrimary sample_keys sample_handle \<noteq> None"
    using validated_handle_has_primary [OF sample_handle_matches, of sample_keys] by (simp add: sample_handle_def)
  then show ?thesis using validated_handle_has_primary [OF sample_handle_matches, of sample_keys] by blast
qed

lemma public_entry_keeps:
  assumes m: "entries_match h" and p: "public_entry K rp config h i = Some (Inr (k, e))"
  shows "key_id k = key_id (keys (kh_keyset h) ! i) \<and> status k = status (keys (kh_keyset h) ! i) \<and>
     entry_matches (primary_key_id (kh_keyset h)) k e"
proof -
  from p obtain entry where n: "handle_nth K h i = Some entry"
    by (auto simp: public_entry_def split: option.splits)
  note em = handle_nth_matches [OF m n]
  show ?thesis
  proof (cases "GetPublicKey K (entry_key entry)")
    case None
    with p n obtain "ExtractPublicKey rp config (keys (kh_keyset h) ! i) = Inr k"
      "CreateEntry K k (primary_key_id (kh_keyset h)) = Inr e"
      by (auto simp: public_entry_def split: sum.splits)
    then show ?thesis
      by (auto simp: ExtractPublicKey_def Let_def dest: CreateEntry_matches split: if_splits sum.splits)
  next
    case (Some pk)
    with p n obtain ks where ks: "ToKeyStatusType (entry_status entry) = Inr ks"
      "CreateKeysetKey K pk (entry_id entry) ks = Inr k" "e = entry\<lparr>entry_key := pk\<rparr>"
      by (auto simp: public_entry_def split: sum.splits)
    then have "key_id k = entry_id entry" "status k = ks"
      by (auto simp: CreateKeysetKey_def CreateKeysetKeyFromProtoKeySerialization_def ToKeysetKey_def
          split: sum.splits option.splits if_splits)
    with ks em show ?thesis by (auto simp: entry_matches_def FromToKeyStatusType)
  qed
qed

lemma map_keys_nth: "map (\<lambda>i. f (keys (kh_keyset h) ! i)) [0..<handle_size h] = map f (keys (kh_keyset h))"
  using arg_cong [OF map_nth, of "map f" "keys (kh_keyset h)"] by (simp add: comp_def handle_size_def)

lemma public_loop_keeps:
  "entries_match h \<Longrightarrow> public_loop K rp config h is = Some (Inr (ks, es)) \<Longrightarrow>
   map key_id ks = map (\<lambda>i. key_id (keys (kh_keyset h) ! i)) is \<and>
   map status ks = map (\<lambda>i. status (keys (kh_keyset h) ! i)) is \<and>
   list_all2 (entry_matches (primary_key_id (kh_keyset h))) ks es"
proof (induction "is" arbitrary: ks es)
  case (Cons i "is")
  from Cons.prems(2) obtain k e ks1 es1 where p: "public_entry K rp config h i = Some (Inr (k, e))"
    and l: "public_loop K rp config h is = Some (Inr (ks1, es1))" and "ks = k # ks1" "es = e # es1"
    by (auto split: option.splits sum.splits)
  with public_entry_keeps [OF Cons.prems(1) p] Cons.IH [OF Cons.prems(1) l] show ?case by simp
qed simp

text \<open>
  (C15) \<^verbatim>\<open>GetPublicKeysetHandle\<close>, when it succeeds, returns a keyset with the same primary key id and, in the
  same order, the same key ids and key statuses, with entries that describe it, for key types with key
  classes and for legacy key types alike.
\<close>

theorem public_keyset_handle_keeps_ids:
  assumes "entries_match h" and "GetPublicKeysetHandle K rp config h = Some (Inr h')"
  shows "primary_key_id (kh_keyset h') = primary_key_id (kh_keyset h) \<and>
     map key_id (keys (kh_keyset h')) = map key_id (keys (kh_keyset h)) \<and>
     map status (keys (kh_keyset h')) = map status (keys (kh_keyset h)) \<and> entries_match h'"
proof -
  from assms(2) obtain ks es where l: "public_loop K rp config h [0..<handle_size h] = Some (Inr (ks, es))"
    and h': "h' = \<lparr>kh_keyset = \<lparr>primary_key_id = primary_key_id (kh_keyset h), keys = ks\<rparr>,
                   kh_entries = es, kh_annotations = None\<rparr>"
    by (auto simp: GetPublicKeysetHandle_def split: option.splits sum.splits if_splits)
  show ?thesis using public_loop_keeps [OF assms(1) l] h'
    by (simp add: entries_match_def map_keys_nth)
qed

theorem public_keyset_handle_keeps_ids_witness:
  "\<exists>h'. GetPublicKeysetHandle sample_keys (\<lambda>_ _. Inl kNotFound) GlobalRegistryMode sample_handle = Some (Inr h') \<and>
     map key_id (keys (kh_keyset h')) = [7] \<and> entries_match h'"
proof -
  have "\<exists>h'. GetPublicKeysetHandle sample_keys (\<lambda>_ _. Inl kNotFound) GlobalRegistryMode sample_handle = Some (Inr h')"
    by (simp add: GetPublicKeysetHandle_def handle_size_def sample_handle_def sample_private_keyset_def public_entry_def
        handle_nth_def sample_keys_def CreateKeysetKey_def GetProtoKeySerialization_def SerializeLegacyKey_def Let_def
        ProtoKeySerialization_Create_def IsPrintableAscii_def CreateKeysetKeyFromProtoKeySerialization_def)
  with public_keyset_handle_keeps_ids [OF sample_handle_matches, of sample_keys "\<lambda>_ _. Inl kNotFound" GlobalRegistryMode]
  show ?thesis by (auto simp: sample_handle_def sample_private_keyset_def)
qed

text \<open>
  \<^verbatim>\<open>GenerateNew\<close> returns a handle with exactly one key: enabled, primary, under a nonzero id, with
  the output prefix of the template, one entry that describes it and the annotations it was given.
\<close>

theorem GenerateNew_handle:
  assumes "GenerateNew K registry ids t config a n = Some (Inr h, n')"
  shows "entries_match h \<and> kh_annotations h = make_annotations a \<and>
     (\<exists>kd e. NewKeyData_from registry config t = Inr kd \<and> kh_entries h = [e] \<and> is_primary e \<and>
        entry_status e = kEnabled \<and> entry_id e \<noteq> 0 \<and>
        kh_keyset h = \<lparr>primary_key_id = entry_id e,
          keys = [\<lparr>key_data = Some kd, status = ENABLED, key_id = entry_id e,
                   output_prefix_type = kt_output_prefix_type t\<rparr>]\<rparr>)"
proof -
  from assms obtain new_id keyset e where
    a: "AddToKeyset registry ids t True config Keyset_default n = Some (Inr new_id, keyset, n')"
    and c: "CreateEntry K (keys keyset ! (length (keys keyset) - 1)) (primary_key_id keyset) = Inr e"
    and h: "h = \<lparr>kh_keyset = keyset, kh_entries = [e], kh_annotations = make_annotations a\<rparr>"
    by (auto simp: GenerateNew_def AddKey_def split: option.splits sum.splits)
  from AddToKeyset_Inr [OF a] obtain kd where kd: "NewKeyData_from registry config t = Inr kd"
    and k: "keys keyset = [\<lparr>key_data = Some kd, status = ENABLED, key_id = new_id, output_prefix_type = kt_output_prefix_type t\<rparr>]"
    and p: "primary_key_id keyset = new_id" "new_id \<noteq> 0" by (auto simp: Keyset_default_def)
  from CreateEntry_matches [OF c] k p have m: "entry_matches new_id (hd (keys keyset)) e" by simp
  have "keyset = \<lparr>primary_key_id = new_id, keys = keys keyset\<rparr>" using p by simp
  with m k p kd h show ?thesis by (auto simp: entries_match_def entry_matches_def)
qed

theorem GenerateNew_handle_witness:
  "\<exists>h n'. GenerateNew sample_keys (\<lambda>_. Inr \<lparr>type_url = [65], key_value = [2], key_material_type = SYMMETRIC\<rparr>) of_nat
      sample_template GlobalRegistryMode [] 5 = Some (Inr h, n') \<and> entries_match h"
proof -
  have "\<exists>h n'. GenerateNew sample_keys (\<lambda>_. Inr \<lparr>type_url = [65], key_value = [2], key_material_type = SYMMETRIC\<rparr>) of_nat
      sample_template GlobalRegistryMode [] 5 = Some (Inr h, n')"
    by (simp add: GenerateNew_def AddKey_def AddToKeyset_def sample_template_def NewKeyData_from_def GenerateUnusedKeyId_unfold
        key_ids_def Keyset_default_def Key_default_def CreateEntry_def ToProtoKeySerialization_def sample_keys_def
        ProtoKeySerialization_Create_def IsPrintableAscii_def get_key_data_def value_or_def)
  with GenerateNew_handle [of sample_keys "\<lambda>_. Inr \<lparr>type_url = [65], key_value = [2], key_material_type = SYMMETRIC\<rparr>" of_nat
      sample_template GlobalRegistryMode "[]" 5] show ?thesis by blast
qed

end
