(* ===== verification/Keyset_Builder.thy ===== *)
theory Keyset_Builder
  imports Keyset_Handle
begin

text \<open>
  The keyset handle builder: \<^verbatim>\<open>tink/core/keyset_handle_builder.cc\<close>, the class \<^verbatim>\<open>KeysetHandleBuilder\<close> in
  \<^verbatim>\<open>tink/keyset_handle.h\<close> and the entries in \<^verbatim>\<open>tink/internal/keyset_handle_builder_entry.{h,cc}\<close>.

  An entry holds a key object or a parameters object; what the builder needs of these classes and of
  the serialization registry is the record \<open>builder_fns\<close>. Of the annotations of a builder, which are
  keyed by their C++ type, the monitoring annotations are modelled.
\<close>

section \<open>Definitions\<close>

datatype KeyIdStrategyEnum = kFixedId | kRandomId | kOtherStrategy

datatype ('k, 'p) builder_source = KeyEntry 'k | ParametersEntry 'p

record ('k, 'p) BuilderEntry =
  be_source :: "('k, 'p) builder_source"
  be_status :: KeyStatus
  be_primary :: bool
  be_strategy :: KeyIdStrategyEnum
  be_id_requirement :: "u32 option"
  be_added :: bool

text \<open>
  The serialization of parameters is a key template. \<open>CreateKey\<close> is the key creator map of the
  configuration: it fails with \<^verbatim>\<open>kUnimplemented\<close> if it has no creator for the parameters.
\<close>

record ('k, 'p) builder_fns =
  bf_keys :: "'k key_fns"
  GetIdRequirement :: "'k \<Rightarrow> u32 option"
  HasIdRequirement :: "'p \<Rightarrow> bool"
  SerializeParameters :: "'p \<Rightarrow> KeyTemplate StatusOr"
  LegacyParameters :: "'p \<Rightarrow> KeyTemplate option"
  CreateKey :: "'p \<Rightarrow> u32 option \<Rightarrow> 'k StatusOr"

subsection \<open>Entries\<close>

definition new_builder_entry :: "('k, 'p) builder_source \<Rightarrow> ('k, 'p) BuilderEntry" where
  "new_builder_entry s =
     \<lparr>be_source = s, be_status = kDisabled, be_primary = False, be_strategy = kRandomId,
      be_id_requirement = None, be_added = False\<rparr>"

definition SetFixedId :: "u32 \<Rightarrow> ('k, 'p) BuilderEntry \<Rightarrow> ('k, 'p) BuilderEntry" where
  "SetFixedId i e = e\<lparr>be_strategy := kFixedId, be_id_requirement := Some i\<rparr>"

definition SetRandomId :: "('k, 'p) BuilderEntry \<Rightarrow> ('k, 'p) BuilderEntry" where
  "SetRandomId e = e\<lparr>be_strategy := kRandomId, be_id_requirement := None\<rparr>"

definition SetBuilderEntryAttributes ::
    "KeyStatus \<Rightarrow> bool \<Rightarrow> u32 option \<Rightarrow> ('k, 'p) BuilderEntry \<Rightarrow> ('k, 'p) BuilderEntry" where
  "SetBuilderEntryAttributes st primary i e =
     (let e1 = e\<lparr>be_status := st\<rparr>;
          e2 = (if primary then e1\<lparr>be_primary := True\<rparr> else e1\<lparr>be_primary := False\<rparr>)
      in case i of Some v \<Rightarrow> SetFixedId v e2 | None \<Rightarrow> SetRandomId e2)"

definition CreateFromKey :: "('k, 'p) builder_fns \<Rightarrow> 'k \<Rightarrow> KeyStatus \<Rightarrow> bool \<Rightarrow> ('k, 'p) BuilderEntry" where
  "CreateFromKey B key st primary =
     SetBuilderEntryAttributes st primary (GetIdRequirement B key) (new_builder_entry (KeyEntry key))"

definition CreateFromParams :: "'p \<Rightarrow> KeyStatus \<Rightarrow> bool \<Rightarrow> u32 option \<Rightarrow> ('k, 'p) BuilderEntry" where
  "CreateFromParams parameters st primary i =
     SetBuilderEntryAttributes st primary i (new_builder_entry (ParametersEntry parameters))"

definition GetProtoParametersSerialization :: "('k, 'p) builder_fns \<Rightarrow> 'p \<Rightarrow> KeyTemplate StatusOr" where
  "GetProtoParametersSerialization B params =
     (let serialization = SerializeParameters B params
      in if serialization = Inl kNotFound
         then (case LegacyParameters B params of None \<Rightarrow> Inl kInvalidArgument | Some t \<Rightarrow> Inr t)
         else serialization)"

definition CreateKeysetKeyFromProtoParametersSerialization ::
    "(KeyTemplate \<Rightarrow> KeyData StatusOr) \<Rightarrow> KeyTemplate \<Rightarrow> u32 \<Rightarrow> KeyStatusType \<Rightarrow> KeyGenConfiguration \<Rightarrow> Key StatusOr" where
  "CreateKeysetKeyFromProtoParametersSerialization registry key_template i st config =
     (case NewKeyData_from registry config key_template of
        Inl e \<Rightarrow> Inl e
      | Inr kd \<Rightarrow> Inr \<lparr>key_data = Some kd, status = st, key_id = i,
                      output_prefix_type = kt_output_prefix_type key_template\<rparr>)"

definition CreateKeysetKeyFromParameters ::
    "('k, 'p) builder_fns \<Rightarrow> (KeyTemplate \<Rightarrow> KeyData StatusOr) \<Rightarrow> 'p \<Rightarrow> u32 \<Rightarrow> KeyStatusType \<Rightarrow> KeyGenConfiguration \<Rightarrow> Key StatusOr" where
  "CreateKeysetKeyFromParameters B registry parameters i st config =
     (case GetProtoParametersSerialization B parameters of
        Inl e \<Rightarrow> Inl e
      | Inr key_template \<Rightarrow> CreateKeysetKeyFromProtoParametersSerialization registry key_template i st config)"

definition KeyEntry_CreateKeysetKey ::
    "('k, 'p) builder_fns \<Rightarrow> ('k, 'p) BuilderEntry \<Rightarrow> 'k \<Rightarrow> u32 \<Rightarrow> Key StatusOr" where
  "KeyEntry_CreateKeysetKey B e key i =
     (case ToKeyStatusType (be_status e) of
        Inl err \<Rightarrow> Inl err
      | Inr key_status \<Rightarrow>
          if be_id_requirement e \<noteq> None \<and> be_id_requirement e \<noteq> Some i then Inl kInvalidArgument
          else CreateKeysetKey (bf_keys B) key i key_status)"

definition ParametersEntry_CreateKeysetKey ::
    "('k, 'p) builder_fns \<Rightarrow> (KeyTemplate \<Rightarrow> KeyData StatusOr) \<Rightarrow> ('k, 'p) BuilderEntry \<Rightarrow> 'p \<Rightarrow> u32 \<Rightarrow> KeyGenConfiguration \<Rightarrow> Key StatusOr" where
  "ParametersEntry_CreateKeysetKey B registry e parameters i config =
     (case ToKeyStatusType (be_status e) of
        Inl err \<Rightarrow> Inl err
      | Inr key_status \<Rightarrow>
          if be_id_requirement e \<noteq> None \<and> be_id_requirement e \<noteq> Some i then Inl kInvalidArgument
          else case config of
                 KeyTypeInfoStoreMode _ \<Rightarrow>
                   (case CreateKey B parameters (if HasIdRequirement B parameters then Some i else None) of
                      Inr key \<Rightarrow> CreateKeysetKey (bf_keys B) key i key_status
                    | Inl err \<Rightarrow>
                        if err \<noteq> kUnimplemented then Inl err
                        else CreateKeysetKeyFromParameters B registry parameters i key_status config)
               | GlobalRegistryMode \<Rightarrow> CreateKeysetKeyFromParameters B registry parameters i key_status config)"

definition entry_CreateKeysetKey ::
    "('k, 'p) builder_fns \<Rightarrow> (KeyTemplate \<Rightarrow> KeyData StatusOr) \<Rightarrow> ('k, 'p) BuilderEntry \<Rightarrow> u32 \<Rightarrow> KeyGenConfiguration \<Rightarrow> Key StatusOr" where
  "entry_CreateKeysetKey B registry e i config =
     (case be_source e of
        KeyEntry key \<Rightarrow> KeyEntry_CreateKeysetKey B e key i
      | ParametersEntry parameters \<Rightarrow> ParametersEntry_CreateKeysetKey B registry e parameters i config)"

subsection \<open>The builder\<close>

record ('k, 'p) KeysetHandleBuilder =
  kb_entries :: "('k, 'p) BuilderEntry list"
  kb_annotations :: "annotations option"
  kb_annotations_status :: Status
  kb_build_called :: bool

definition new_builder :: "('k, 'p) KeysetHandleBuilder" where
  "new_builder = \<lparr>kb_entries = [], kb_annotations = None, kb_annotations_status = OkStatus, kb_build_called = False\<rparr>"

definition ClearPrimary :: "('k, 'p) BuilderEntry list \<Rightarrow> ('k, 'p) BuilderEntry list" where
  "ClearPrimary es = map (\<lambda>e. e\<lparr>be_primary := False\<rparr>) es"

definition AddEntry :: "('k, 'p) BuilderEntry \<Rightarrow> ('k, 'p) KeysetHandleBuilder \<Rightarrow> ('k, 'p) KeysetHandleBuilder option" where
  "AddEntry e b =
     (if be_added e then None
      else let es = (if be_primary e then ClearPrimary (kb_entries b) else kb_entries b)
           in Some (b\<lparr>kb_entries := es @ [e\<lparr>be_added := True\<rparr>]\<rparr>))"

definition RemoveEntry :: "nat \<Rightarrow> ('k, 'p) KeysetHandleBuilder \<Rightarrow> ('k, 'p) KeysetHandleBuilder option" where
  "RemoveEntry index b =
     (if \<not> index < length (kb_entries b) then None
      else Some (b\<lparr>kb_entries := take index (kb_entries b) @ drop (Suc index) (kb_entries b)\<rparr>))"

text \<open>\<^verbatim>\<open>operator[]\<close> returns a reference: the caller may change the entry through it.\<close>

definition modify_entry ::
    "nat \<Rightarrow> (('k, 'p) BuilderEntry \<Rightarrow> ('k, 'p) BuilderEntry) \<Rightarrow> ('k, 'p) KeysetHandleBuilder \<Rightarrow> ('k, 'p) KeysetHandleBuilder" where
  "modify_entry index f b = b\<lparr>kb_entries := (kb_entries b)[index := f (kb_entries b ! index)]\<rparr>"

definition SetMonitoringAnnotations :: "annotations \<Rightarrow> ('k, 'p) KeysetHandleBuilder \<Rightarrow> ('k, 'p) KeysetHandleBuilder" where
  "SetMonitoringAnnotations a b =
     (if kb_annotations b \<noteq> None then b\<lparr>kb_annotations_status := Inl kInvalidArgument\<rparr>
      else b\<lparr>kb_annotations := Some a\<rparr>)"

fun from_handle_loop ::
    "('k, 'p) builder_fns \<Rightarrow> 'k KeysetHandle \<Rightarrow> nat list \<Rightarrow> ('k, 'p) KeysetHandleBuilder \<Rightarrow> ('k, 'p) KeysetHandleBuilder option" where
  "from_handle_loop B h [] b = Some b"
| "from_handle_loop B h (i # is) b =
     (case handle_nth (bf_keys B) h i of
        None \<Rightarrow> None
      | Some entry \<Rightarrow>
          (case AddEntry (SetFixedId (entry_id entry)
                  (CreateFromKey B (entry_key entry) (entry_status entry) (is_primary entry))) b of
             None \<Rightarrow> None
           | Some b' \<Rightarrow> from_handle_loop B h is b'))"

definition builder_from_handle :: "('k, 'p) builder_fns \<Rightarrow> 'k KeysetHandle \<Rightarrow> ('k, 'p) KeysetHandleBuilder option" where
  "builder_from_handle B h = from_handle_loop B h [0..<handle_size h] new_builder"

definition CheckIdAssignments :: "('k, 'p) BuilderEntry list \<Rightarrow> Status" where
  "CheckIdAssignments es =
     (if es = [] then Inl kFailedPrecondition
      else if list_ex (\<lambda>i. be_strategy (es ! i) = kRandomId \<and> be_strategy (es ! (i + 1)) \<noteq> kRandomId) [0..<length es - 1]
           then Inl kFailedPrecondition
           else OkStatus)"

partial_function (option) random_id_loop :: "(nat \<Rightarrow> u32) \<Rightarrow> u32 set \<Rightarrow> u32 \<Rightarrow> nat \<Rightarrow> (u32 \<times> nat) option" where
  [code]: "random_id_loop ids ids_so_far i n =
     (if i = 0 \<or> i \<in> ids_so_far then random_id_loop ids ids_so_far (ids n) (Suc n) else Some (i, n))"

definition NextIdFromKeyIdStrategy ::
    "(nat \<Rightarrow> u32) \<Rightarrow> ('k, 'p) BuilderEntry \<Rightarrow> u32 set \<Rightarrow> nat \<Rightarrow> (u32 StatusOr \<times> nat) option" where
  "NextIdFromKeyIdStrategy ids e ids_so_far n =
     (if be_strategy e = kFixedId
      then (case be_id_requirement e of
              None \<Rightarrow> Some (Inl kInvalidArgument, n)
            | Some i \<Rightarrow> Some (Inr i, n))
      else if be_strategy e = kRandomId
      then (case random_id_loop ids ids_so_far 0 n of
              None \<Rightarrow> None
            | Some (i, n') \<Rightarrow> Some (Inr i, n'))
      else Some (Inl kInvalidArgument, n))"

text \<open>
  The loop of \<^verbatim>\<open>Build\<close>: the ids used so far, the keys added and the id of the primary, if it was seen.
\<close>

fun Build_loop ::
    "('k, 'p) builder_fns \<Rightarrow> (KeyTemplate \<Rightarrow> KeyData StatusOr) \<Rightarrow> (nat \<Rightarrow> u32) \<Rightarrow> KeyGenConfiguration \<Rightarrow>
     ('k, 'p) BuilderEntry list \<Rightarrow> u32 set \<Rightarrow> Key list \<Rightarrow> u32 option \<Rightarrow> nat \<Rightarrow>
     ((Key list \<times> u32 option) StatusOr \<times> nat) option" where
  "Build_loop B registry ids config [] ids_so_far ks primary_id n = Some (Inr (ks, primary_id), n)"
| "Build_loop B registry ids config (e # es) ids_so_far ks primary_id n =
     (case NextIdFromKeyIdStrategy ids e ids_so_far n of
        None \<Rightarrow> None
      | Some (Inl err, n') \<Rightarrow> Some (Inl err, n')
      | Some (Inr i, n') \<Rightarrow>
          if i \<in> ids_so_far then Some (Inl kAlreadyExists, n')
          else (case entry_CreateKeysetKey B registry e i config of
                  Inl err \<Rightarrow> Some (Inl err, n')
                | Inr key \<Rightarrow>
                    if be_primary e \<and> primary_id \<noteq> None then Some (Inl kInternal, n')
                    else Build_loop B registry ids config es (insert i ids_so_far) (ks @ [key])
                           (if be_primary e then Some i else primary_id) n'))"

definition Build ::
    "('k, 'p) builder_fns \<Rightarrow> (KeyTemplate \<Rightarrow> KeyData StatusOr) \<Rightarrow> (nat \<Rightarrow> u32) \<Rightarrow> KeyGenConfiguration \<Rightarrow>
     ('k, 'p) KeysetHandleBuilder \<Rightarrow> nat \<Rightarrow> ('k KeysetHandle StatusOr \<times> ('k, 'p) KeysetHandleBuilder \<times> nat) option" where
  "Build B registry ids config b n =
     (if kb_build_called b then Some (Inl kFailedPrecondition, b, n)
      else case kb_annotations_status b of
             Inl err \<Rightarrow> Some (Inl err, b, n)
           | Inr _ \<Rightarrow>
               let b' = b\<lparr>kb_build_called := True\<rparr> in
               case CheckIdAssignments (kb_entries b) of
                 Inl err \<Rightarrow> Some (Inl err, b', n)
               | Inr _ \<Rightarrow>
                   (case Build_loop B registry ids config (kb_entries b) {} [] None n of
                      None \<Rightarrow> None
                    | Some (Inl err, n') \<Rightarrow> Some (Inl err, b', n')
                    | Some (Inr (ks, None), n') \<Rightarrow> Some (Inl kFailedPrecondition, b', n')
                    | Some (Inr (ks, Some p), n') \<Rightarrow>
                        let keyset = \<lparr>primary_key_id = p, keys = ks\<rparr> in
                        (case GetEntriesFromKeyset (bf_keys B) keyset of
                           Inl err \<Rightarrow> Some (Inl err, b', n')
                         | Inr entries \<Rightarrow>
                             Some (Inr \<lparr>kh_keyset = keyset, kh_entries = entries, kh_annotations = kb_annotations b\<rparr>,
                                   b'\<lparr>kb_annotations := None\<rparr>, n'))))"

section \<open>Building\<close>

lemma random_id_loop_fresh_aux:
  "random_id_loop ids S i n = Some y \<Longrightarrow> fst y \<noteq> 0 \<and> fst y \<notin> S"
  by (erule random_id_loop.raw_induct [rotated, where P = "\<lambda>ids S i n y. fst y \<noteq> 0 \<and> fst y \<notin> S"])
    (auto split: if_splits)

lemma random_id_loop_returns:
  "ids (n + d) \<noteq> 0 \<Longrightarrow> ids (n + d) \<notin> S \<Longrightarrow> \<exists>r. random_id_loop ids S i n = Some r"
proof (induction d arbitrary: i n)
  case 0
  then show ?case by (subst random_id_loop.simps) (simp add: random_id_loop.simps [of ids S "ids n"])
next
  case (Suc d)
  from Suc.IH [of "Suc n" "ids n"] Suc.prems show ?case by (subst random_id_loop.simps) simp
qed

definition assigned :: "('k, 'p) BuilderEntry \<Rightarrow> Key \<Rightarrow> bool" where
  "assigned e k \<longleftrightarrow> FromKeyStatusType (status k) = Inr (be_status e) \<and>
     (be_strategy e = kFixedId \<longrightarrow> be_id_requirement e = Some (key_id k)) \<and>
     (be_strategy e = kRandomId \<longrightarrow> key_id k \<noteq> 0)"

lemma NextId_Inr:
  "NextIdFromKeyIdStrategy ids e S n = Some (Inr i, n') \<Longrightarrow>
   (be_strategy e = kFixedId \<longrightarrow> be_id_requirement e = Some i) \<and> (be_strategy e = kRandomId \<longrightarrow> i \<noteq> 0)"
  using random_id_loop_fresh_aux [of ids S 0 n]
  by (auto simp: NextIdFromKeyIdStrategy_def split: if_splits option.splits)

lemma CreateKeysetKey_id_status:
  "CreateKeysetKey K key i st = Inr k \<Longrightarrow> key_id k = i \<and> status k = st"
  by (auto simp: CreateKeysetKey_def CreateKeysetKeyFromProtoKeySerialization_def ToKeysetKey_def
      split: sum.splits option.splits if_splits)

lemma CreateKeysetKeyFromParameters_id_status:
  "CreateKeysetKeyFromParameters B registry p i st config = Inr k \<Longrightarrow> key_id k = i \<and> status k = st"
  by (auto simp: CreateKeysetKeyFromParameters_def CreateKeysetKeyFromProtoParametersSerialization_def split: sum.splits)

lemma entry_CreateKeysetKey_id_status:
  "entry_CreateKeysetKey B registry e i config = Inr k \<Longrightarrow> key_id k = i \<and> FromKeyStatusType (status k) = Inr (be_status e)"
  by (auto simp: entry_CreateKeysetKey_def KeyEntry_CreateKeysetKey_def ParametersEntry_CreateKeysetKey_def FromToKeyStatusType
      dest!: CreateKeysetKey_id_status CreateKeysetKeyFromParameters_id_status
      split: builder_source.splits sum.splits if_splits KeyGenConfiguration.splits)

lemma Build_loop_Cons:
  assumes "Build_loop B registry ids config (e # es) S ks pid n = Some (Inr (ks', pid'), n')"
  obtains i n1 key where "NextIdFromKeyIdStrategy ids e S n = Some (Inr i, n1)" "i \<notin> S"
    "entry_CreateKeysetKey B registry e i config = Inr key" "\<not> (be_primary e \<and> pid \<noteq> None)"
    "Build_loop B registry ids config es (insert i S) (ks @ [key]) (if be_primary e then Some i else pid) n1 =
       Some (Inr (ks', pid'), n')"
  using assms by (auto split: option.splits sum.splits if_splits)

lemma Build_loop_ok:
  "Build_loop B registry ids config es S ks pid n = Some (Inr (ks', pid'), n') \<Longrightarrow>
   \<exists>new. ks' = ks @ new \<and> list_all2 assigned es new \<and> distinct (map key_id new) \<and> key_id ` set new \<inter> S = {} \<and>
     (let P = map (\<lambda>(e, k). key_id k) (filter (\<lambda>(e, k). be_primary e) (zip es new)) in
        case pid of None \<Rightarrow> P = (case pid' of None \<Rightarrow> [] | Some p \<Rightarrow> [p]) | Some p \<Rightarrow> P = [] \<and> pid' = Some p)"
proof (induction es arbitrary: S ks pid n)
  case Nil
  then show ?case by (auto split: option.split)
next
  case (Cons e es)
  from Cons.prems obtain i n1 key where i: "NextIdFromKeyIdStrategy ids e S n = Some (Inr i, n1)" "i \<notin> S"
    and k: "entry_CreateKeysetKey B registry e i config = Inr key" and np: "\<not> (be_primary e \<and> pid \<noteq> None)"
    and l: "Build_loop B registry ids config es (insert i S) (ks @ [key]) (if be_primary e then Some i else pid) n1 =
       Some (Inr (ks', pid'), n')"
    by (rule Build_loop_Cons)
  from Cons.IH [OF l] obtain new where new: "ks' = (ks @ [key]) @ new" "list_all2 assigned es new"
      "distinct (map key_id new)" "key_id ` set new \<inter> insert i S = {}"
    and P: "let P = map (\<lambda>(e, k). key_id k) (filter (\<lambda>(e, k). be_primary e) (zip es new)) in
        case (if be_primary e then Some i else pid) of
          None \<Rightarrow> P = (case pid' of None \<Rightarrow> [] | Some p \<Rightarrow> [p]) | Some p \<Rightarrow> P = [] \<and> pid' = Some p" by blast
  have key: "key_id key = i" "assigned e key"
    using entry_CreateKeysetKey_id_status [OF k] NextId_Inr [OF i(1)] by (auto simp: assigned_def)
  show ?case
    by (rule exI [of _ "key # new"]) (use new P key i np in \<open>auto simp: Let_def split: if_splits option.splits\<close>)
qed

section \<open>Properties\<close>

definition sample_builder_fns :: "(bytes, nat) builder_fns" where
  "sample_builder_fns =
     \<lparr>bf_keys = sample_keys, GetIdRequirement = (\<lambda>k. None), HasIdRequirement = (\<lambda>p. False),
      SerializeParameters = (\<lambda>p. Inl kNotFound), LegacyParameters = (\<lambda>p. None), CreateKey = (\<lambda>p i. Inl kUnimplemented)\<rparr>"

definition sample_builder_entry :: "bool \<Rightarrow> u32 \<Rightarrow> (bytes, nat) BuilderEntry" where
  "sample_builder_entry primary i = SetFixedId i (CreateFromKey sample_builder_fns [9] kEnabled primary)"

lemmas sample_builder_simps =
  sample_builder_fns_def sample_builder_entry_def sample_keys_def CreateFromKey_def SetBuilderEntryAttributes_def
  new_builder_entry_def SetFixedId_def SetRandomId_def Let_def Build_def CheckIdAssignments_def
  NextIdFromKeyIdStrategy_def entry_CreateKeysetKey_def KeyEntry_CreateKeysetKey_def CreateKeysetKey_def
  GetProtoKeySerialization_def SerializeLegacyKey_def ProtoKeySerialization_Create_def IsPrintableAscii_def
  CreateKeysetKeyFromProtoKeySerialization_def ToKeysetKey_def GetEntriesFromKeyset_def CreateEntry_def
  ToProtoKeySerialization_def get_key_data_def value_or_def new_builder_def AddEntry_def ClearPrimary_def
  modify_entry_def SetMonitoringAnnotations_def

text \<open>
  (C16) A keyset that \<^verbatim>\<open>Build\<close> returns: one key per builder entry, in order, each with the status of its
  entry, with the fixed id if the entry has one and a nonzero id if it has a random one; all ids are
  distinct; exactly one builder entry was primary, and its id is the primary key id; the handle's
  entries describe its keys. Building a second time always fails.
\<close>

theorem Build_result:
  assumes "Build B registry ids config b n = Some (Inr h, b', n')"
  shows "list_all2 assigned (kb_entries b) (keys (kh_keyset h)) \<and> distinct (map key_id (keys (kh_keyset h))) \<and>
     map (\<lambda>(e, k). key_id k) (filter (\<lambda>(e, k). be_primary e) (zip (kb_entries b) (keys (kh_keyset h)))) =
       [primary_key_id (kh_keyset h)] \<and>
     entries_match h \<and> kh_annotations h = kb_annotations b \<and>
     Build B registry ids config b' m = Some (Inl kFailedPrecondition, b', m)"
proof -
  from assms obtain ks p entries where
    l: "Build_loop B registry ids config (kb_entries b) {} [] None n = Some (Inr (ks, Some p), n')"
    and e: "GetEntriesFromKeyset (bf_keys B) \<lparr>primary_key_id = p, keys = ks\<rparr> = Inr entries"
    and h: "h = \<lparr>kh_keyset = \<lparr>primary_key_id = p, keys = ks\<rparr>, kh_entries = entries, kh_annotations = kb_annotations b\<rparr>"
    and b': "b' = b\<lparr>kb_build_called := True, kb_annotations := None\<rparr>"
    by (auto simp: Build_def Let_def split: if_splits sum.splits option.splits)
  have "entries_match h"
    using GetEntries_loop_match [OF e [unfolded GetEntriesFromKeyset_def]] h by (simp add: entries_match_def)
  with Build_loop_ok [OF l] h b' show ?thesis by (auto simp: Build_def)
qed

theorem Build_result_witness:
  "\<exists>b h b' n'. AddEntry (sample_builder_entry True 5) new_builder = Some b \<and>
     Build sample_builder_fns (\<lambda>_. Inl kNotFound) of_nat GlobalRegistryMode b 0 = Some (Inr h, b', n') \<and>
     list_all2 assigned (kb_entries b) (keys (kh_keyset h)) \<and> distinct (map key_id (keys (kh_keyset h)))"
proof -
  obtain b where b: "AddEntry (sample_builder_entry True 5) new_builder = Some b"
    by (simp add: sample_builder_simps)
  then have "\<exists>h b' n'. Build sample_builder_fns (\<lambda>_. Inl kNotFound) of_nat GlobalRegistryMode b 0 = Some (Inr h, b', n')"
    by (auto simp: sample_builder_simps)
  with b Build_result show ?thesis by blast
qed

text \<open>
  Ids are found: if all entries before it have been given ids, an entry with a random id gets one as
  soon as the random source yields a nonzero id that is not used yet, and it is nonzero and unused.
\<close>

theorem NextId_random_returns:
  assumes "be_strategy e = kRandomId" and "ids (n + d) \<noteq> 0" and "ids (n + d) \<notin> ids_so_far"
  shows "\<exists>i n'. NextIdFromKeyIdStrategy ids e ids_so_far n = Some (Inr i, n') \<and> i \<noteq> 0 \<and> i \<notin> ids_so_far"
proof -
  from random_id_loop_returns [where ids = ids and n = n and d = d, OF assms(2,3)] obtain i n'
    where r: "random_id_loop ids ids_so_far 0 n = Some (i, n')" by force
  with random_id_loop_fresh_aux [OF r] assms(1) show ?thesis by (simp add: NextIdFromKeyIdStrategy_def)
qed

theorem NextId_random_returns_witness:
  "\<exists>i n'. NextIdFromKeyIdStrategy of_nat (new_builder_entry (KeyEntry [1::nat]) :: (nat list, nat) BuilderEntry) {1, 2} 0 =
     Some (Inr i, n') \<and> i \<noteq> 0 \<and> i \<notin> {1, 2}"
  by (rule NextId_random_returns [where d = 3]) (simp_all add: new_builder_entry_def)

text \<open>
  Setting the monitoring annotations twice does not replace the first value: from then on every
  \<^verbatim>\<open>Build\<close> that was not already called fails with \<^verbatim>\<open>kInvalidArgument\<close>.
\<close>

theorem SetMonitoringAnnotations_twice:
  assumes "\<not> kb_build_called b"
  shows "Build B registry ids config (SetMonitoringAnnotations a2 (SetMonitoringAnnotations a1 b)) n =
     Some (Inl kInvalidArgument, SetMonitoringAnnotations a2 (SetMonitoringAnnotations a1 b), n)"
  using assms by (auto simp: SetMonitoringAnnotations_def Build_def)

theorem SetMonitoringAnnotations_twice_witness:
  "Build sample_builder_fns (\<lambda>_. Inl kNotFound) of_nat GlobalRegistryMode
      (SetMonitoringAnnotations [([1], [2])] (SetMonitoringAnnotations [] new_builder)) 0 =
     Some (Inl kInvalidArgument, SetMonitoringAnnotations [([1], [2])] (SetMonitoringAnnotations [] new_builder), 0)"
  by (rule SetMonitoringAnnotations_twice) (simp add: new_builder_def)

lemma entry_CreateKeysetKey_store:
  "entry_CreateKeysetKey B registry e i (KeyTypeInfoStoreMode store) =
   entry_CreateKeysetKey B registry' e i (KeyTypeInfoStoreMode store)"
  by (simp add: entry_CreateKeysetKey_def ParametersEntry_CreateKeysetKey_def CreateKeysetKeyFromParameters_def
      CreateKeysetKeyFromProtoParametersSerialization_def NewKeyData_from_def split: builder_source.split sum.split)

lemma Build_loop_store:
  "Build_loop B registry ids (KeyTypeInfoStoreMode store) es S ks pid n =
   Build_loop B registry' ids (KeyTypeInfoStoreMode store) es S ks pid n"
  by (induction es arbitrary: S ks pid n)
    (simp_all add: entry_CreateKeysetKey_store [of B registry _ _ store registry'] split: option.split sum.split)

text \<open>
  With a configuration that has its own key type store, \<^verbatim>\<open>Build\<close> never consults the global registry:
  its outcome does not depend on what the registry would generate.
\<close>

theorem Build_store_ignores_registry:
  "Build B registry ids (KeyTypeInfoStoreMode store) b n = Build B registry' ids (KeyTypeInfoStoreMode store) b n"
  by (simp only: Build_def Build_loop_store [of B registry ids store "kb_entries b" "{}" "[]" None n registry'])

definition primaries :: "('k, 'p) KeysetHandleBuilder \<Rightarrow> nat" where
  "primaries b = length (filter be_primary (kb_entries b))"

text \<open>
  \<^verbatim>\<open>AddEntry\<close> and \<^verbatim>\<open>RemoveEntry\<close> keep at most one primary entry, whatever entry is added.
\<close>

theorem builder_one_primary:
  assumes "primaries b \<le> 1"
  shows "(AddEntry e b = Some b1 \<longrightarrow> primaries b1 \<le> 1 \<and> (be_primary e \<longrightarrow> primaries b1 = 1)) \<and>
     (RemoveEntry i b = Some b2 \<longrightarrow> primaries b2 \<le> 1)"
proof (intro conjI impI)
  have clear: "filter be_primary (ClearPrimary es) = []" for es :: "('a, 'b) BuilderEntry list"
    by (induction es) (simp_all add: ClearPrimary_def)
  assume a: "AddEntry e b = Some b1"
  show "primaries b1 \<le> 1" using a assms clear by (auto simp: AddEntry_def primaries_def Let_def split: if_splits)
  show "primaries b1 = 1" if "be_primary e"
    using a that clear by (auto simp: AddEntry_def primaries_def Let_def split: if_splits)
next
  assume r: "RemoveEntry i b = Some b2"
  then have i: "i < length (kb_entries b)" and b2: "kb_entries b2 = take i (kb_entries b) @ drop (Suc i) (kb_entries b)"
    by (auto simp: RemoveEntry_def split: if_splits)
  have "primaries b = length (filter be_primary (take i (kb_entries b) @ kb_entries b ! i # drop (Suc i) (kb_entries b)))"
    using i by (simp add: primaries_def id_take_nth_drop [symmetric])
  with assms b2 show "primaries b2 \<le> 1" by (simp add: primaries_def split: if_splits)
qed

theorem builder_one_primary_witness:
  "\<exists>b. AddEntry (sample_builder_entry True 5) new_builder = Some b \<and> primaries b \<le> 1"
proof -
  obtain b where "AddEntry (sample_builder_entry True 5) new_builder = Some b" by (simp add: sample_builder_simps)
  moreover have "primaries (new_builder :: (bytes, nat) KeysetHandleBuilder) \<le> 1" by (simp add: primaries_def new_builder_def)
  ultimately show ?thesis using builder_one_primary by blast
qed

text \<open>
  The branch of \<^verbatim>\<open>Build\<close> that reports a second primary is reachable all the same: \<^verbatim>\<open>operator[]\<close> hands out
  a mutable reference, and \<^verbatim>\<open>SetPrimary\<close> on it does not clear the other entries.
\<close>

lemma two_primaries_reach_internal_error:
  "\<exists>b1 b2. AddEntry (sample_builder_entry True 5) new_builder = Some b1 \<and>
     AddEntry (sample_builder_entry False 6) b1 = Some b2 \<and>
     (\<exists>b' n'. Build sample_builder_fns (\<lambda>_. Inl kNotFound) of_nat GlobalRegistryMode
        (modify_entry 1 (\<lambda>e. e\<lparr>be_primary := True\<rparr>) b2) 0 = Some (Inl kInternal, b', n'))"
  by (simp add: sample_builder_simps)

end
