(* ===== verification/Primitive_Set.thy ===== *)
theory Primitive_Set
  imports Keyset_Handle "HOL-Library.Multiset"
begin

text \<open>
  Primitive sets (\<^verbatim>\<open>tink/internal/primitive_set.h\<close>): the primitives of the enabled keys of a keyset,
  found by the output prefix of their key (\<^verbatim>\<open>tink/core/crypto_format.cc\<close>), and how
  \<^verbatim>\<open>KeysetWrapperImpl\<close> makes one out of a keyset (\<^verbatim>\<open>tink/internal/keyset_wrapper_impl.h\<close>).

  Primitives are abstract, of a type \<open>'p\<close>. Entries are heap objects that never change after they
  are made; they are values here, with an address for the comparison of pointers. A fresh entry
  gets as its address the number of entries the set has, so that the entries of a set are distinct
  objects. The hash map from identifiers to entries is a map; the order in which it is
  traversed is unspecified and a parameter of \<open>get_all\<close>. The mutex of a set makes its
  operations atomic.

  The abstract specification of a set is its list of entries in keyset order: \<open>pset_inv\<close> says that
  the map is the classification of that list by identifier.
\<close>

section \<open>Definitions\<close>

subsection \<open>Output prefixes\<close>

definition kNonRawPrefixSize :: nat where
  "kNonRawPrefixSize = 5"

definition kLegacyStartByte :: byte where
  "kLegacyStartByte = 0"

definition kTinkStartByte :: byte where
  "kTinkStartByte = 1"

definition kRawPrefix :: bytes where
  "kRawPrefix = []"

definition StoreBigEndian32 :: "u32 \<Rightarrow> bytes" where
  "StoreBigEndian32 value =
     [ucast (0xff AND drop_bit 24 value), ucast (0xff AND drop_bit 16 value),
      ucast (0xff AND drop_bit 8 value), ucast (0xff AND drop_bit 0 value)]"

definition GetOutputPrefix :: "KeyInfo \<Rightarrow> bytes StatusOr" where
  "GetOutputPrefix info =
     (case ki_output_prefix_type info of
        TINK \<Rightarrow> Inr (kTinkStartByte # StoreBigEndian32 (ki_key_id info))
      | CRUNCHY \<Rightarrow> Inr (kLegacyStartByte # StoreBigEndian32 (ki_key_id info))
      | LEGACY \<Rightarrow> Inr (kLegacyStartByte # StoreBigEndian32 (ki_key_id info))
      | RAW \<Rightarrow> Inr kRawPrefix
      | _ \<Rightarrow> Inl kInvalidArgument)"

text \<open>The key classes compute their prefix themselves, with the id as a signed \<^verbatim>\<open>int\<close>: its shifts are arithmetic.\<close>

definition ComputeOutputPrefix :: "byte \<Rightarrow> 32 word \<Rightarrow> bytes" where
  "ComputeOutputPrefix prefix_byte i =
     [prefix_byte, ucast (signed_drop_bit 24 i AND 0xff), ucast (signed_drop_bit 16 i AND 0xff),
      ucast (signed_drop_bit 8 i AND 0xff), ucast (i AND 0xff)]"

subsection \<open>Entries\<close>

record 'p PEntry =
  pe_address :: nat
  pe_primitive :: 'p
  pe_identifier :: bytes
  pe_key_id :: u32
  pe_status :: KeyStatusType
  pe_output_prefix_type :: OutputPrefixType
  pe_key_type_url :: bytes

text \<open>A primitive is passed as a pointer, which may be null.\<close>

definition Entry_New :: "nat \<Rightarrow> 'p option \<Rightarrow> KeyInfo \<Rightarrow> 'p PEntry StatusOr" where
  "Entry_New address p info =
     (if ki_status info \<noteq> ENABLED then Inl kInvalidArgument
      else case (if ki_output_prefix_type info = WITH_ID_REQUIREMENT then Inr [] else GetOutputPrefix info) of
             Inl e \<Rightarrow> Inl e
           | Inr identifier \<Rightarrow>
               (case p of
                  None \<Rightarrow> Inl kInvalidArgument
                | Some primitive \<Rightarrow>
                    Inr \<lparr>pe_address = address, pe_primitive = primitive, pe_identifier = identifier,
                         pe_key_id = ki_key_id info, pe_status = ki_status info,
                         pe_output_prefix_type = ki_output_prefix_type info,
                         pe_key_type_url = ki_type_url info\<rparr>))"

type_synonym 'p Primitives = "'p PEntry list"
type_synonym 'p prefix_map = "bytes \<rightharpoonup> 'p PEntry list"

definition SetPrimaryImpl :: "'p PEntry option \<Rightarrow> 'p prefix_map \<Rightarrow> 'p PEntry StatusOr" where
  "SetPrimaryImpl primary primitives =
     (case primary of
        None \<Rightarrow> Inl kInvalidArgument
      | Some e \<Rightarrow>
          if pe_status e \<noteq> ENABLED then Inl kInvalidArgument
          else if primitives (pe_identifier e) = None then Inl kInvalidArgument
          else Inr e)"

definition AddPrimitiveImpl ::
    "'p option \<Rightarrow> KeyInfo \<Rightarrow> 'p prefix_map \<Rightarrow> 'p PEntry list \<Rightarrow> ('p PEntry \<times> 'p prefix_map \<times> 'p PEntry list) StatusOr" where
  "AddPrimitiveImpl p info primitives in_keyset_order =
     (case Entry_New (length in_keyset_order) p info of
        Inl e \<Rightarrow> Inl e
      | Inr entry \<Rightarrow>
          let primitives_for_identifier =
                (case primitives (pe_identifier entry) of None \<Rightarrow> [] | Some es \<Rightarrow> es) @ [entry]
          in Inr (entry, primitives(pe_identifier entry \<mapsto> primitives_for_identifier), in_keyset_order @ [entry]))"

subsection \<open>Builder\<close>

record 'p PBuilder =
  pb_primary :: "'p PEntry option"
  pb_primitives :: "'p prefix_map"
  pb_in_keyset_order :: "'p PEntry list"
  pb_annotations :: annotations
  pb_status :: Status

definition PBuilder_default :: "'p PBuilder" where
  "PBuilder_default =
     \<lparr>pb_primary = None, pb_primitives = Map.empty, pb_in_keyset_order = [], pb_annotations = [], pb_status = OkStatus\<rparr>"

definition Builder_AddPrimitive :: "'p option \<Rightarrow> KeyInfo \<Rightarrow> 'p PBuilder \<Rightarrow> 'p PBuilder" where
  "Builder_AddPrimitive p info b =
     (if isl (pb_status b) then b
      else case AddPrimitiveImpl p info (pb_primitives b) (pb_in_keyset_order b) of
             Inl e \<Rightarrow> b\<lparr>pb_status := Inl e\<rparr>
           | Inr (_, primitives, in_order) \<Rightarrow>
               b\<lparr>pb_primitives := primitives, pb_in_keyset_order := in_order, pb_status := OkStatus\<rparr>)"

definition Builder_AddPrimaryPrimitive :: "'p option \<Rightarrow> KeyInfo \<Rightarrow> 'p PBuilder \<Rightarrow> 'p PBuilder" where
  "Builder_AddPrimaryPrimitive p info b =
     (if isl (pb_status b) then b
      else case AddPrimitiveImpl p info (pb_primitives b) (pb_in_keyset_order b) of
             Inl e \<Rightarrow> b\<lparr>pb_status := Inl e\<rparr>
           | Inr (entry, primitives, in_order) \<Rightarrow>
               let b' = b\<lparr>pb_primitives := primitives, pb_in_keyset_order := in_order\<rparr>
               in case SetPrimaryImpl (Some entry) primitives of
                    Inl e \<Rightarrow> b'\<lparr>pb_status := Inl e\<rparr>
                  | Inr primary \<Rightarrow> b'\<lparr>pb_primary := Some primary, pb_status := OkStatus\<rparr>)"

text \<open>\<open>merge\<close> of hash maps: an element is moved unless its key is there already.\<close>

definition merge_annotations :: "annotations \<Rightarrow> annotations \<Rightarrow> annotations" where
  "merge_annotations old added = old @ filter (\<lambda>(k, v). k \<notin> fst ` set old) added"

definition Builder_AddAnnotations :: "annotations \<Rightarrow> 'p PBuilder \<Rightarrow> 'p PBuilder" where
  "Builder_AddAnnotations annotations b = b\<lparr>pb_annotations := merge_annotations (pb_annotations b) annotations\<rparr>"

subsection \<open>Primitive sets\<close>

record 'p PrimitiveSet =
  ps_primary :: "'p PEntry option"
  is_mutable :: bool
  ps_primitives :: "'p prefix_map"
  ps_in_keyset_order :: "'p PEntry list"
  ps_annotations :: annotations

definition Builder_Build :: "'p PBuilder \<Rightarrow> 'p PrimitiveSet StatusOr" where
  "Builder_Build b =
     (case pb_status b of
        Inl e \<Rightarrow> Inl e
      | Inr _ \<Rightarrow> Inr \<lparr>ps_primary = pb_primary b, is_mutable = False, ps_primitives = pb_primitives b,
                     ps_in_keyset_order = pb_in_keyset_order b, ps_annotations = pb_annotations b\<rparr>)"

text \<open>The deprecated constructor makes an empty set that can be changed.\<close>

definition PrimitiveSet_new :: "annotations \<Rightarrow> 'p PrimitiveSet" where
  "PrimitiveSet_new annotations =
     \<lparr>ps_primary = None, is_mutable = True, ps_primitives = Map.empty, ps_in_keyset_order = [], ps_annotations = annotations\<rparr>"

definition AddPrimitive :: "'p option \<Rightarrow> KeyInfo \<Rightarrow> 'p PrimitiveSet \<Rightarrow> 'p PEntry StatusOr \<times> 'p PrimitiveSet" where
  "AddPrimitive p info S =
     (if \<not> is_mutable S then (Inl kFailedPrecondition, S)
      else case AddPrimitiveImpl p info (ps_primitives S) (ps_in_keyset_order S) of
             Inl e \<Rightarrow> (Inl e, S)
           | Inr (entry, primitives, in_order) \<Rightarrow>
               (Inr entry, S\<lparr>ps_primitives := primitives, ps_in_keyset_order := in_order\<rparr>))"

definition get_primitives :: "'p PrimitiveSet \<Rightarrow> bytes \<Rightarrow> 'p Primitives StatusOr" where
  "get_primitives S identifier =
     (case ps_primitives S identifier of None \<Rightarrow> Inl kNotFound | Some es \<Rightarrow> Inr es)"

definition get_raw_primitives :: "'p PrimitiveSet \<Rightarrow> 'p Primitives StatusOr" where
  "get_raw_primitives S = get_primitives S kRawPrefix"

definition set_primary :: "'p PEntry option \<Rightarrow> 'p PrimitiveSet \<Rightarrow> Status \<times> 'p PrimitiveSet" where
  "set_primary primary S =
     (if \<not> is_mutable S then (Inl kFailedPrecondition, S)
      else case SetPrimaryImpl primary (ps_primitives S) of
             Inl e \<Rightarrow> (Inl e, S)
           | Inr e \<Rightarrow> (OkStatus, S\<lparr>ps_primary := Some e\<rparr>))"

definition get_primary :: "'p PrimitiveSet \<Rightarrow> 'p PEntry option" where
  "get_primary S = ps_primary S"

text \<open>\<open>hash_order\<close> is the order in which the hash map is traversed.\<close>

definition get_all :: "bytes list \<Rightarrow> 'p PrimitiveSet \<Rightarrow> 'p PEntry list" where
  "get_all hash_order S =
     concat (map (\<lambda>identifier. case ps_primitives S identifier of None \<Rightarrow> [] | Some es \<Rightarrow> es) hash_order)"

definition get_all_in_keyset_order :: "'p PrimitiveSet \<Rightarrow> 'p PEntry list" where
  "get_all_in_keyset_order S = ps_in_keyset_order S"

text \<open>
  \<open>release_loop\<close>: the first entry of its list at the address of the raw pointer is moved to the
  result; the null pointer it leaves behind is equal to none of the later raw pointers.
\<close>

fun take_entry :: "nat \<Rightarrow> 'p PEntry list \<Rightarrow> 'p PEntry option \<times> 'p PEntry list" where
  "take_entry address [] = (None, [])"
| "take_entry address (e # es) =
     (if pe_address e = address then (Some e, es)
      else let (found, rest) = take_entry address es in (found, e # rest))"

fun release_loop :: "'p PEntry list \<Rightarrow> 'p prefix_map \<Rightarrow> 'p PEntry list" where
  "release_loop [] primitives = []"
| "release_loop (raw_entry # rest) primitives =
     (let i = pe_identifier raw_entry;
          es = (case primitives i of None \<Rightarrow> [] | Some es \<Rightarrow> es);
          (found, left) = take_entry (pe_address raw_entry) es;
          result = release_loop rest (primitives(i \<mapsto> left))
      in case found of None \<Rightarrow> result | Some e \<Rightarrow> e # result)"

definition ReleaseAllEntries :: "'p PrimitiveSet \<Rightarrow> 'p PEntry list \<times> 'p PrimitiveSet" where
  "ReleaseAllEntries S =
     (release_loop (ps_in_keyset_order S) (ps_primitives S),
      S\<lparr>ps_primitives := Map.empty, ps_in_keyset_order := [], ps_primary := None\<rparr>)"

subsection \<open>From a keyset to a primitive set\<close>

text \<open>
  What makes primitives: the serialization registry's parser for keys, and the functions that make
  a primitive of a key object and of key data.
\<close>

record ('k, 'p) primitive_fns =
  ParseKey :: "ProtoKeySerialization \<Rightarrow> 'k StatusOr"
  primitive_getter_from_key :: "'k \<Rightarrow> 'p option StatusOr"
  primitive_getter :: "KeyData \<Rightarrow> 'p option StatusOr"

definition get_key_primitive :: "('k, 'p) primitive_fns \<Rightarrow> Key \<Rightarrow> 'p option StatusOr" where
  "get_key_primitive F proto_key =
     (case ProtoKeySerialization_Create (type_url (get_key_data proto_key)) (key_value (get_key_data proto_key))
             (key_material_type (get_key_data proto_key)) RAW None of
        Inl e \<Rightarrow> Inl e
      | Inr serialization \<Rightarrow>
          (case ParseKey F serialization of
             Inl _ \<Rightarrow> primitive_getter F (get_key_data proto_key)
           | Inr key \<Rightarrow>
               if primitive_getter_from_key F key = Inl kNotFound then primitive_getter F (get_key_data proto_key)
               else primitive_getter_from_key F key))"

fun Wrap_loop :: "('k, 'p) primitive_fns \<Rightarrow> u32 \<Rightarrow> Key list \<Rightarrow> 'p PBuilder \<Rightarrow> 'p PBuilder StatusOr" where
  "Wrap_loop F primary [] b = Inr b"
| "Wrap_loop F primary (proto_key # rest) b =
     (if status proto_key \<noteq> ENABLED then Wrap_loop F primary rest b
      else case get_key_primitive F proto_key of
             Inl e \<Rightarrow> Inl e
           | Inr p \<Rightarrow>
               Wrap_loop F primary rest
                 (if key_id proto_key = primary then Builder_AddPrimaryPrimitive p (KeyInfoFromKey proto_key) b
                  else Builder_AddPrimitive p (KeyInfoFromKey proto_key) b))"

definition make_primitive_set :: "('k, 'p) primitive_fns \<Rightarrow> Keyset \<Rightarrow> annotations \<Rightarrow> 'p PrimitiveSet StatusOr" where
  "make_primitive_set F keyset annotations =
     (case ValidateKeyset keyset of
        Inl e \<Rightarrow> Inl e
      | Inr _ \<Rightarrow>
          (case Wrap_loop F (primary_key_id keyset) (keys keyset) (Builder_AddAnnotations annotations PBuilder_default) of
             Inl e \<Rightarrow> Inl e
           | Inr b \<Rightarrow> Builder_Build b))"

text \<open>\<open>KeysetWrapperImpl::Wrap\<close>, for the wrapper of one primitive.\<close>

definition KeysetWrapperImpl_Wrap ::
    "('k, 'p) primitive_fns \<Rightarrow> ('p PrimitiveSet \<Rightarrow> 'q StatusOr) \<Rightarrow> Keyset \<Rightarrow> annotations \<Rightarrow> 'q StatusOr" where
  "KeysetWrapperImpl_Wrap F transforming_wrapper keyset annotations =
     (case make_primitive_set F keyset annotations of Inl e \<Rightarrow> Inl e | Inr S \<Rightarrow> transforming_wrapper S)"

section \<open>Output prefixes\<close>

lemma prefix_byte_bit: "bit (ucast (0xff AND drop_bit k (v :: u32)) :: byte) n \<longleftrightarrow> n < 8 \<and> bit v (k + n)"
proof -
  have m: "(0xff :: u32) = mask 8" by (simp add: mask_eq_exp_minus_1)
  show ?thesis unfolding m by (auto simp: bit_simps)
qed

lemma StoreBigEndian32_inj: "StoreBigEndian32 v = StoreBigEndian32 w \<longleftrightarrow> v = w"
proof
  assume "StoreBigEndian32 v = StoreBigEndian32 w"
  then have b: "bit v (k + n) = bit w (k + n)" if "k \<in> {0, 8, 16, 24}" "n < 8" for k n
    using that prefix_byte_bit [of k v n] prefix_byte_bit [of k w n]
    unfolding StoreBigEndian32_def by auto
  show "v = w"
  proof (rule bit_word_eqI)
    fix n assume "n < LENGTH(32)"
    then have "8 * (n div 8) \<in> {0, 8, 16, 24}" by auto
    then show "bit v n = bit w n" using b [of "8 * (n div 8)" "n mod 8"] by auto
  qed
qed simp

lemma length_StoreBigEndian32 [simp]: "length (StoreBigEndian32 v) = 4"
  by (simp add: StoreBigEndian32_def)

text \<open>
  (C17) The two computations of an output prefix agree: for the key info of a TINK key,
  \<^verbatim>\<open>CryptoFormat::GetOutputPrefix\<close> gives what \<^verbatim>\<open>ComputeOutputPrefix\<close>, which takes the id as a signed
  integer, gives for the start byte 1, and for CRUNCHY and LEGACY keys for the start byte 0. Such
  a prefix has five bytes, and two of them are equal only for the same start byte and the same id.
\<close>

theorem output_prefixes_agree:
  "GetOutputPrefix \<lparr>ki_type_url = u, ki_status = s, ki_key_id = i, ki_output_prefix_type = TINK\<rparr> = Inr (ComputeOutputPrefix 1 i) \<and>
   GetOutputPrefix \<lparr>ki_type_url = u, ki_status = s, ki_key_id = i, ki_output_prefix_type = CRUNCHY\<rparr> = Inr (ComputeOutputPrefix 0 i) \<and>
   GetOutputPrefix \<lparr>ki_type_url = u, ki_status = s, ki_key_id = i, ki_output_prefix_type = LEGACY\<rparr> = Inr (ComputeOutputPrefix 0 i) \<and>
   length (ComputeOutputPrefix b i) = kNonRawPrefixSize \<and>
   (ComputeOutputPrefix b i = ComputeOutputPrefix b' i' \<longleftrightarrow> b = b' \<and> i = i')"
proof -
  have m: "(0xff :: u32) = mask 8" by (simp add: mask_eq_exp_minus_1)
  have "(ucast (signed_drop_bit k i AND 0xff) :: byte) = ucast (0xff AND drop_bit k i)" if "k \<le> 24" for k :: nat and i :: u32
    using that unfolding m by (intro bit_word_eqI) (auto simp: bit_simps)
  from this [of 24] this [of 16] this [of 8]
  have eq: "ComputeOutputPrefix b i = b # StoreBigEndian32 i" for b i
    by (simp add: ComputeOutputPrefix_def StoreBigEndian32_def and.commute)
  show ?thesis
    by (simp add: eq GetOutputPrefix_def kTinkStartByte_def kLegacyStartByte_def kNonRawPrefixSize_def StoreBigEndian32_inj)
qed

section \<open>The set is its list of entries\<close>

definition with_identifier :: "bytes \<Rightarrow> 'p PEntry list \<Rightarrow> 'p PEntry list" where
  "with_identifier i es = filter (\<lambda>e. pe_identifier e = i) es"

definition entry_ok :: "'p PEntry \<Rightarrow> bool" where
  "entry_ok e \<longleftrightarrow>
     pe_status e = ENABLED \<and>
     (if pe_output_prefix_type e = WITH_ID_REQUIREMENT then pe_identifier e = []
      else GetOutputPrefix \<lparr>ki_type_url = pe_key_type_url e, ki_status = pe_status e, ki_key_id = pe_key_id e,
                            ki_output_prefix_type = pe_output_prefix_type e\<rparr> = Inr (pe_identifier e))"

definition classified :: "'p PEntry list \<Rightarrow> 'p prefix_map \<Rightarrow> bool" where
  "classified es m \<longleftrightarrow>
     map pe_address es = [0..<length es] \<and> (\<forall>e \<in> set es. entry_ok e) \<and>
     (\<forall>i. m i = (if with_identifier i es = [] then None else Some (with_identifier i es)))"

definition builder_inv :: "'p PBuilder \<Rightarrow> bool" where
  "builder_inv b \<longleftrightarrow>
     classified (pb_in_keyset_order b) (pb_primitives b) \<and>
     (\<forall>e. pb_primary b = Some e \<longrightarrow> e \<in> set (pb_in_keyset_order b))"

definition pset_inv :: "'p PrimitiveSet \<Rightarrow> bool" where
  "pset_inv S \<longleftrightarrow>
     classified (ps_in_keyset_order S) (ps_primitives S) \<and>
     (\<forall>e. ps_primary S = Some e \<longrightarrow> e \<in> set (ps_in_keyset_order S))"

lemma entry_ok_identifier:
  assumes "entry_ok e"
  shows "pe_identifier e = [] \<or> length (pe_identifier e) = kNonRawPrefixSize"
  using assms
  by (auto simp: entry_ok_def GetOutputPrefix_def kNonRawPrefixSize_def kRawPrefix_def
      split: OutputPrefixType.splits if_splits dest!: arg_cong [of "_ # _" _ length])

lemma Entry_New_ok: "Entry_New a p info = Inr e \<Longrightarrow> entry_ok e \<and> pe_address e = a"
  by (cases info) (auto simp: Entry_New_def entry_ok_def split: if_splits sum.splits option.splits)

lemma with_identifier_append [simp]:
  "with_identifier i (es @ [e]) = with_identifier i es @ (if pe_identifier e = i then [e] else [])"
  by (simp add: with_identifier_def)

lemma with_identifier_empty [simp]: "with_identifier i [] = []"
  by (simp add: with_identifier_def)

lemma set_with_identifier [simp]: "e \<in> set (with_identifier i es) \<longleftrightarrow> e \<in> set es \<and> pe_identifier e = i"
  by (simp add: with_identifier_def)

lemma AddPrimitiveImpl_classified:
  assumes c: "classified es m" and add: "AddPrimitiveImpl p info m es = Inr (e, m', es')"
  shows "classified es' m' \<and> es' = es @ [e] \<and> entry_ok e"
proof -
  from add have new: "Entry_New (length es) p info = Inr e" and es': "es' = es @ [e]"
    and m': "m' = m(pe_identifier e \<mapsto> (case m (pe_identifier e) of None \<Rightarrow> [] | Some xs \<Rightarrow> xs) @ [e])"
    by (auto simp: AddPrimitiveImpl_def Let_def split: sum.splits)
  from Entry_New_ok [OF new] c show ?thesis
    unfolding es' m' classified_def by auto
qed

lemma classified_Nil [simp]: "classified [] Map.empty"
  by (simp add: classified_def)

lemma builder_inv_default [simp]: "builder_inv PBuilder_default"
  by (simp add: builder_inv_def PBuilder_default_def)

lemma builder_inv_annotations [simp]: "builder_inv (Builder_AddAnnotations a b) = builder_inv b"
  by (simp add: builder_inv_def Builder_AddAnnotations_def)

lemma builder_inv_add: "builder_inv b \<Longrightarrow> builder_inv (Builder_AddPrimitive p info b)"
  by (auto simp: Builder_AddPrimitive_def builder_inv_def dest: AddPrimitiveImpl_classified split: sum.splits)

lemma SetPrimaryImpl_new:
  assumes "classified es m" and "AddPrimitiveImpl p info m es = Inr (e, m', es')"
  shows "SetPrimaryImpl (Some e) m' = Inr e"
  using AddPrimitiveImpl_classified [OF assms] assms(2)
  by (auto simp: SetPrimaryImpl_def entry_ok_def AddPrimitiveImpl_def Let_def split: sum.splits)

lemma builder_inv_add_primary:
  assumes b: "builder_inv b"
  shows "builder_inv (Builder_AddPrimaryPrimitive p info b)"
proof (cases "AddPrimitiveImpl p info (pb_primitives b) (pb_in_keyset_order b)")
  case (Inl a)
  with b show ?thesis by (simp add: Builder_AddPrimaryPrimitive_def builder_inv_def)
next
  case (Inr r)
  obtain e m es where r: "AddPrimitiveImpl p info (pb_primitives b) (pb_in_keyset_order b) = Inr (e, m, es)"
    using Inr by (cases r) simp
  from b have c: "classified (pb_in_keyset_order b) (pb_primitives b)" by (simp add: builder_inv_def)
  from AddPrimitiveImpl_classified [OF c r] SetPrimaryImpl_new [OF c r] b show ?thesis
    by (auto simp: Builder_AddPrimaryPrimitive_def builder_inv_def Let_def r)
qed

subsection \<open>Lookup as a classification\<close>

text \<open>
  The interface of a set for the wrappers: its entries in keyset order, and a lookup by prefix
  that is a selection of them.
\<close>

locale primitive_lookup =
  fixes valid :: "'s \<Rightarrow> bool"
    and entries :: "'s \<Rightarrow> 'p PEntry list"
    and lookup :: "'s \<Rightarrow> bytes \<Rightarrow> 'p Primitives StatusOr"
  assumes lookup_found: "\<lbrakk>valid S; lookup S i = Inr es\<rbrakk> \<Longrightarrow> es = with_identifier i (entries S) \<and> es \<noteq> []"
    and lookup_missing: "\<lbrakk>valid S; lookup S i = Inl c\<rbrakk> \<Longrightarrow> c = kNotFound \<and> with_identifier i (entries S) = []"
begin

lemma lookup_eq:
  assumes "valid S"
  shows "lookup S i = (if with_identifier i (entries S) = [] then Inl kNotFound else Inr (with_identifier i (entries S)))"
  using lookup_found [OF assms] lookup_missing [OF assms] by (cases "lookup S i") fastforce+

lemma lookup_default:
  assumes "valid S"
  shows "(case lookup S i of Inl e \<Rightarrow> f [] | Inr es \<Rightarrow> f es) = f (with_identifier i (entries S))"
  by (simp add: lookup_eq [OF assms])

lemma lookup_entry:
  assumes "valid S" and "e \<in> set (entries S)"
  shows "\<exists>es. lookup S (pe_identifier e) = Inr es \<and> e \<in> set es"
proof -
  from assms have "e \<in> set (with_identifier (pe_identifier e) (entries S))" by simp
  moreover from this have "with_identifier (pe_identifier e) (entries S) \<noteq> []" by force
  ultimately show ?thesis using assms by (simp add: lookup_eq)
qed

end

interpretation pset: primitive_lookup pset_inv ps_in_keyset_order get_primitives
  by unfold_locales (auto simp: pset_inv_def classified_def get_primitives_def split: option.splits if_splits)

lemma get_all_perm:
  assumes c: "classified es m" and h: "distinct hs" "set hs = dom m"
  shows "mset (concat (map (\<lambda>i. case m i of None \<Rightarrow> [] | Some xs \<Rightarrow> xs) hs)) = mset es"
proof -
  have "mset (concat (map (\<lambda>i. with_identifier i es) hs)) = filter_mset (\<lambda>e. pe_identifier e \<in> set hs) (mset es)"
    using h(1)
  proof (induction hs)
    case (Cons i hs)
    then have "i \<notin> set hs" by simp
    then have "filter_mset (\<lambda>e. pe_identifier e \<in> set (i # hs)) (mset es)
        = filter_mset (\<lambda>e. pe_identifier e = i) (mset es) + filter_mset (\<lambda>e. pe_identifier e \<in> set hs) (mset es)"
      by (induction es) auto
    with Cons show ?case by (simp add: with_identifier_def)
  qed simp
  moreover have "filter_mset (\<lambda>e. pe_identifier e \<in> set hs) (mset es) = mset es"
    using c h(2) by (auto simp: classified_def dom_def filter_empty_conv with_identifier_def split: if_splits
        intro!: filter_mset_eq_conv [THEN iffD2])
  moreover have "(case m i of None \<Rightarrow> [] | Some xs \<Rightarrow> xs) = with_identifier i es" for i
    using c by (simp add: classified_def)
  ultimately show ?thesis by simp
qed

lemma take_entry_other:
  "\<forall>e \<in> set es. pe_address e \<noteq> a \<Longrightarrow> take_entry a (es @ xs) = (fst (take_entry a xs), es @ snd (take_entry a xs))"
  by (induction es) (auto split: prod.split)

text \<open>When every list of the map holds the entries still to come, in order, each is found first in its list.\<close>

lemma release_loop_all:
  assumes "distinct (map pe_address es)"
    and "\<forall>e \<in> set es. (case m (pe_identifier e) of None \<Rightarrow> [] | Some xs \<Rightarrow> xs) = with_identifier (pe_identifier e) es"
  shows "release_loop es m = es"
  using assms
proof (induction es arbitrary: m)
  case (Cons e es)
  let ?i = "pe_identifier e"
  have now: "(case m ?i of None \<Rightarrow> [] | Some xs \<Rightarrow> xs) = e # with_identifier ?i es"
    using Cons.prems(2) by (simp add: with_identifier_def)
  have later: "(case (m(?i \<mapsto> with_identifier ?i es)) (pe_identifier x) of None \<Rightarrow> [] | Some xs \<Rightarrow> xs)
      = with_identifier (pe_identifier x) es" if "x \<in> set es" for x
    using Cons.prems(2) that by (auto simp: with_identifier_def)
  have "release_loop es (m(?i \<mapsto> with_identifier ?i es)) = es"
    using Cons.prems(1) later by (intro Cons.IH) auto
  then show ?case by (simp add: now Let_def)
qed simp

lemma release_all:
  assumes "pset_inv S"
  shows "fst (ReleaseAllEntries S) = ps_in_keyset_order S"
proof -
  from assms have c: "classified (ps_in_keyset_order S) (ps_primitives S)" by (simp add: pset_inv_def)
  then have "distinct (map pe_address (ps_in_keyset_order S))" by (simp add: classified_def)
  with c show ?thesis unfolding ReleaseAllEntries_def
    by (simp add: classified_def release_loop_all)
qed

subsection \<open>Sets made by a builder\<close>

datatype 'p builder_op =
    OpAddPrimitive "'p option" KeyInfo
  | OpAddPrimaryPrimitive "'p option" KeyInfo
  | OpAddAnnotations annotations

fun run_builder_op :: "'p builder_op \<Rightarrow> 'p PBuilder \<Rightarrow> 'p PBuilder" where
  "run_builder_op (OpAddPrimitive p info) = Builder_AddPrimitive p info"
| "run_builder_op (OpAddPrimaryPrimitive p info) = Builder_AddPrimaryPrimitive p info"
| "run_builder_op (OpAddAnnotations a) = Builder_AddAnnotations a"

lemma builder_inv_run: "builder_inv b \<Longrightarrow> builder_inv (fold run_builder_op ops b)"
proof (induction ops arbitrary: b)
  case (Cons op ops)
  then show ?case by (cases op) (simp_all add: builder_inv_add builder_inv_add_primary)
qed simp

lemma Builder_Build_inv: "\<lbrakk>builder_inv b; Builder_Build b = Inr S\<rbrakk> \<Longrightarrow> pset_inv S \<and> \<not> is_mutable S"
  by (auto simp: Builder_Build_def builder_inv_def pset_inv_def split: sum.splits)

text \<open>
  (C18) A primitive set that a builder made, by any sequence of its operations, is the list of its
  entries in the order they were added: \<^verbatim>\<open>get_primitives\<close> returns exactly the entries with the
  identifier, in that order, and fails with \<^verbatim>\<open>kNotFound\<close> if there is none; \<^verbatim>\<open>get_all\<close> returns
  all of them once, in whatever order the hash map is traversed; \<^verbatim>\<open>ReleaseAllEntries\<close> hands out
  every entry, in keyset order, and leaves the set empty; the primary is one of them; every entry
  is enabled and has an identifier of five bytes or none; and the set cannot be changed.
\<close>

theorem built_set_refines_list:
  assumes "Builder_Build (fold run_builder_op ops PBuilder_default) = Inr S"
  shows "(\<forall>i. get_primitives S i =
            (let es = filter (\<lambda>e. pe_identifier e = i) (get_all_in_keyset_order S)
             in if es = [] then Inl kNotFound else Inr es)) \<and>
         (\<forall>hs. distinct hs \<and> set hs = dom (ps_primitives S) \<longrightarrow> mset (get_all hs S) = mset (get_all_in_keyset_order S)) \<and>
         fst (ReleaseAllEntries S) = get_all_in_keyset_order S \<and> get_all_in_keyset_order (snd (ReleaseAllEntries S)) = [] \<and>
         (\<forall>e. get_primary S = Some e \<longrightarrow> e \<in> set (get_all_in_keyset_order S)) \<and>
         (\<forall>e \<in> set (get_all_in_keyset_order S).
            pe_status e = ENABLED \<and> (pe_identifier e = [] \<or> length (pe_identifier e) = kNonRawPrefixSize)) \<and>
         (\<forall>p info q. AddPrimitive p info S = (Inl kFailedPrecondition, S) \<and> set_primary q S = (Inl kFailedPrecondition, S))"
proof (intro conjI)
  have inv: "pset_inv S" and imm: "\<not> is_mutable S"
    using Builder_Build_inv [OF builder_inv_run assms] by simp_all
  then have c: "classified (ps_in_keyset_order S) (ps_primitives S)" by (simp add: pset_inv_def)
  show "\<forall>i. get_primitives S i =
           (let es = filter (\<lambda>e. pe_identifier e = i) (get_all_in_keyset_order S)
            in if es = [] then Inl kNotFound else Inr es)"
    using pset.lookup_eq [OF inv] by (simp add: get_all_in_keyset_order_def with_identifier_def Let_def)
  show "\<forall>hs. distinct hs \<and> set hs = dom (ps_primitives S) \<longrightarrow> mset (get_all hs S) = mset (get_all_in_keyset_order S)"
    using get_all_perm [OF c] by (simp add: get_all_def get_all_in_keyset_order_def)
  show "fst (ReleaseAllEntries S) = get_all_in_keyset_order S"
    using release_all [OF inv] by (simp add: get_all_in_keyset_order_def)
  show "get_all_in_keyset_order (snd (ReleaseAllEntries S)) = []"
    by (simp add: get_all_in_keyset_order_def ReleaseAllEntries_def)
  show "\<forall>e. get_primary S = Some e \<longrightarrow> e \<in> set (get_all_in_keyset_order S)"
    using inv by (simp add: pset_inv_def get_primary_def get_all_in_keyset_order_def)
  show "\<forall>e \<in> set (get_all_in_keyset_order S).
           pe_status e = ENABLED \<and> (pe_identifier e = [] \<or> length (pe_identifier e) = kNonRawPrefixSize)"
    using c entry_ok_identifier by (auto simp: get_all_in_keyset_order_def classified_def entry_ok_def)
  show "\<forall>p info q. AddPrimitive p info S = (Inl kFailedPrecondition, S) \<and> set_primary q S = (Inl kFailedPrecondition, S)"
    using imm by (simp add: AddPrimitive_def set_primary_def)
qed

definition sample_info :: "u32 \<Rightarrow> OutputPrefixType \<Rightarrow> KeyInfo" where
  "sample_info i prefix = \<lparr>ki_type_url = [65], ki_status = ENABLED, ki_key_id = i, ki_output_prefix_type = prefix\<rparr>"

definition sample_ops :: "nat builder_op list" where
  "sample_ops =
     [OpAddPrimitive (Some 10) (sample_info 1 RAW), OpAddPrimaryPrimitive (Some 20) (sample_info 2 TINK),
      OpAddPrimitive (Some 30) (sample_info 3 RAW)]"

definition sample_set :: "nat PrimitiveSet" where
  "sample_set = projr (Builder_Build (fold run_builder_op sample_ops PBuilder_default))"

lemmas builder_simps = Builder_Build_def Builder_AddPrimitive_def Builder_AddPrimaryPrimitive_def AddPrimitiveImpl_def
  SetPrimaryImpl_def Entry_New_def GetOutputPrefix_def PBuilder_default_def

lemma sample_set_built: "Builder_Build (fold run_builder_op sample_ops PBuilder_default) = Inr sample_set"
  by (simp add: sample_set_def sample_ops_def sample_info_def builder_simps)

theorem built_set_refines_list_witness:
  "get_primitives sample_set kRawPrefix = Inr (filter (\<lambda>e. pe_identifier e = []) (get_all_in_keyset_order sample_set)) \<and>
   map pe_primitive (fst (ReleaseAllEntries sample_set)) = [10, 20, 30]"
proof -
  have order: "map pe_primitive (get_all_in_keyset_order sample_set) = [10, 20, 30]"
    and raw: "filter (\<lambda>e. pe_identifier e = []) (get_all_in_keyset_order sample_set) \<noteq> []"
    by (simp_all add: get_all_in_keyset_order_def sample_set_def sample_ops_def sample_info_def builder_simps kRawPrefix_def)
  have "fst (ReleaseAllEntries sample_set) = get_all_in_keyset_order sample_set"
    and "get_primitives sample_set kRawPrefix =
            (let es = filter (\<lambda>e. pe_identifier e = kRawPrefix) (get_all_in_keyset_order sample_set)
             in if es = [] then Inl kNotFound else Inr es)"
    using built_set_refines_list [OF sample_set_built] by blast+
  with order raw show ?thesis by (simp add: kRawPrefix_def)
qed

text \<open>
  The deprecated \<^verbatim>\<open>set_primary\<close> of a set that can be changed looks only at the identifier of its
  argument: an entry of another set is accepted when some entry here has the same identifier.
\<close>

lemma set_primary_foreign_entry:
  assumes "is_mutable S" and "pset_inv S" and "f \<in> set (ps_in_keyset_order S)"
    and "pe_status e = ENABLED" and "pe_identifier e = pe_identifier f"
  shows "set_primary (Some e) S = (OkStatus, S\<lparr>ps_primary := Some e\<rparr>)"
  using assms pset.lookup_entry [OF assms(2,3)]
  by (auto simp: set_primary_def SetPrimaryImpl_def get_primitives_def split: option.splits)

subsection \<open>Sets made of a keyset\<close>

definition key_entry :: "('k, 'p) primitive_fns \<Rightarrow> Key \<Rightarrow> 'p PEntry \<Rightarrow> bool" where
  "key_entry F k e \<longleftrightarrow>
     get_key_primitive F k = Inr (Some (pe_primitive e)) \<and> pe_key_id e = key_id k \<and>
     pe_output_prefix_type e = output_prefix_type k \<and> pe_key_type_url e = type_url (get_key_data k)"

definition addable :: "('k, 'p) primitive_fns \<Rightarrow> Key \<Rightarrow> bool" where
  "addable F k \<longleftrightarrow>
     (\<exists>p. get_key_primitive F k = Inr (Some p)) \<and>
     output_prefix_type k \<in> {TINK, LEGACY, RAW, CRUNCHY, WITH_ID_REQUIREMENT}"

abbreviation add_key_primitive :: "u32 \<Rightarrow> 'p option \<Rightarrow> Key \<Rightarrow> 'p PBuilder \<Rightarrow> 'p PBuilder" where
  "add_key_primitive primary p k b \<equiv>
     (if key_id k = primary then Builder_AddPrimaryPrimitive p (KeyInfoFromKey k) b
      else Builder_AddPrimitive p (KeyInfoFromKey k) b)"

lemma add_key_primitive_inv: "builder_inv b \<Longrightarrow> builder_inv (add_key_primitive primary p k b)"
  by (simp add: builder_inv_add builder_inv_add_primary)

lemma add_key_primitive_fails:
  assumes "status k = ENABLED" and "get_key_primitive F k = Inr p" and "\<not> addable F k"
  shows "isl (pb_status (add_key_primitive primary p k b))"
  using assms
  by (auto simp: addable_def KeyInfoFromKey_def Builder_AddPrimitive_def Builder_AddPrimaryPrimitive_def
      AddPrimitiveImpl_def Entry_New_def GetOutputPrefix_def split: OutputPrefixType.splits option.splits)

lemma add_key_primitive_adds:
  assumes b: "builder_inv b" "status_ok (pb_status b)" and k: "status k = ENABLED" "addable F k" "get_key_primitive F k = Inr p"
  shows "\<exists>e. key_entry F k e \<and> status_ok (pb_status (add_key_primitive primary p k b)) \<and>
             pb_in_keyset_order (add_key_primitive primary p k b) = pb_in_keyset_order b @ [e] \<and>
             pb_primary (add_key_primitive primary p k b) = (if key_id k = primary then Some e else pb_primary b)"
proof -
  from b have c: "classified (pb_in_keyset_order b) (pb_primitives b)" by (simp add: builder_inv_def)
  have "status_ok (Entry_New (length (pb_in_keyset_order b)) p (KeyInfoFromKey k))"
    using k by (auto simp: addable_def KeyInfoFromKey_def Entry_New_def GetOutputPrefix_def)
  then obtain e where new: "Entry_New (length (pb_in_keyset_order b)) p (KeyInfoFromKey k) = Inr e"
    by (cases "Entry_New (length (pb_in_keyset_order b)) p (KeyInfoFromKey k)") auto
  with k(3) have e: "key_entry F k e"
    by (auto simp: KeyInfoFromKey_def Entry_New_def key_entry_def split: if_splits sum.splits option.splits)
  from new obtain m es where add: "AddPrimitiveImpl p (KeyInfoFromKey k) (pb_primitives b) (pb_in_keyset_order b) = Inr (e, m, es)"
    by (auto simp: AddPrimitiveImpl_def Let_def)
  from AddPrimitiveImpl_classified [OF c add] SetPrimaryImpl_new [OF c add] b e show ?thesis
    by (auto simp: Builder_AddPrimitive_def Builder_AddPrimaryPrimitive_def add Let_def intro!: exI [of _ e])
qed

lemma Wrap_loop_error_stays:
  "isl (pb_status b) \<Longrightarrow> Wrap_loop F primary ks b = Inr b' \<Longrightarrow> isl (pb_status b')"
proof (induction ks arbitrary: b)
  case (Cons k ks)
  then show ?case
    by (auto simp: Builder_AddPrimitive_def Builder_AddPrimaryPrimitive_def split: if_splits sum.splits)
qed simp

text \<open>The last entry of a list with the given key id, or the previous primary.\<close>

definition last_primary :: "u32 \<Rightarrow> 'p PEntry list \<Rightarrow> 'p PEntry option \<Rightarrow> 'p PEntry option" where
  "last_primary primary es old =
     (let ps = filter (\<lambda>e. pe_key_id e = primary) es in if ps = [] then old else Some (last ps))"

lemma Wrap_loop_entries:
  assumes "builder_inv b" and "status_ok (pb_status b)"
  shows "(\<forall>k \<in> set ks. status k = ENABLED \<longrightarrow> addable F k) \<Longrightarrow>
     \<exists>b' es. Wrap_loop F primary ks b = Inr b' \<and> status_ok (pb_status b') \<and> builder_inv b' \<and>
             pb_annotations b' = pb_annotations b \<and> pb_in_keyset_order b' = pb_in_keyset_order b @ es \<and>
             list_all2 (key_entry F) (filter (\<lambda>k. status k = ENABLED) ks) es \<and>
             pb_primary b' = last_primary primary es (pb_primary b)"
  using assms
proof (induction ks arbitrary: b)
  case Nil
  then show ?case by (simp add: last_primary_def)
next
  case (Cons k ks)
  show ?case
  proof (cases "status k = ENABLED")
    case False
    with Cons show ?thesis by simp
  next
    case en: True
    with Cons.prems have add: "addable F k" by simp
    then obtain p where p: "get_key_primitive F k = Inr p" by (auto simp: addable_def)
    let ?b = "add_key_primitive primary p k b"
    obtain e where e: "key_entry F k e" "status_ok (pb_status ?b)" "pb_in_keyset_order ?b = pb_in_keyset_order b @ [e]"
      "pb_primary ?b = (if key_id k = primary then Some e else pb_primary b)"
      using add_key_primitive_adds [OF Cons.prems(2,3) en add p] by blast
    have ann: "pb_annotations ?b = pb_annotations b"
      by (auto simp: Builder_AddPrimitive_def Builder_AddPrimaryPrimitive_def Let_def split: sum.split)
    obtain b' es where ih: "Wrap_loop F primary ks ?b = Inr b'" "status_ok (pb_status b')" "builder_inv b'"
      "pb_annotations b' = pb_annotations ?b" "pb_in_keyset_order b' = pb_in_keyset_order ?b @ es"
      "list_all2 (key_entry F) (filter (\<lambda>k. status k = ENABLED) ks) es" "pb_primary b' = last_primary primary es (pb_primary ?b)"
      using Cons.IH [of ?b] Cons.prems(1) e(2) add_key_primitive_inv [OF Cons.prems(2)] by auto
    have "pe_key_id e = key_id k" using e(1) by (simp add: key_entry_def)
    with ih e ann en p show ?thesis
      by (intro exI [of _ b'] exI [of _ "e # es"]) (auto simp: last_primary_def Let_def)
  qed
qed

lemma Wrap_loop_needs_addable:
  assumes "Wrap_loop F primary ks b = Inr b'" and "status_ok (pb_status b')" and "k \<in> set ks" and "status k = ENABLED"
  shows "addable F k"
  using assms
proof (induction ks arbitrary: b)
  case (Cons x ks)
  show ?case
  proof (cases "status x = ENABLED")
    case False
    with Cons show ?thesis by auto
  next
    case True
    with Cons.prems(1) obtain p where p: "get_key_primitive F x = Inr p"
      and l: "Wrap_loop F primary ks (add_key_primitive primary p x b) = Inr b'"
      by (auto split: sum.splits)
    show ?thesis
    proof (cases "k = x")
      case True
      with add_key_primitive_fails [OF Cons.prems(4), of F p] p Wrap_loop_error_stays [OF _ l] Cons.prems(2)
      show ?thesis by blast
    qed (use Cons l in auto)
  qed
qed simp

lemma list_all2_filter_key_id:
  "list_all2 (key_entry F) ks es \<Longrightarrow>
     list_all2 (key_entry F) (filter (\<lambda>k. key_id k = i) ks) (filter (\<lambda>e. pe_key_id e = i) es)"
  by (induction rule: list_all2_induct) (auto simp: key_entry_def)

definition primary_of_keyset :: "Keyset \<Rightarrow> 'p PrimitiveSet \<Rightarrow> bool" where
  "primary_of_keyset ks S \<longleftrightarrow>
     (case get_primary S of
        Some e \<Rightarrow> filter (\<lambda>e. pe_key_id e = primary_key_id ks) (get_all_in_keyset_order S) = [e]
      | None \<Rightarrow> \<forall>k \<in> set (enabled_keys ks).
                  key_id k \<noteq> primary_key_id ks \<and> key_material_type (get_key_data k) = ASYMMETRIC_PUBLIC)"

lemma last_primary_of_keyset:
  assumes v: "ValidateKeyset ks = OkStatus" and es: "list_all2 (key_entry F) (enabled_keys ks) es"
    and S: "get_primary S = last_primary (primary_key_id ks) es None" "get_all_in_keyset_order S = es"
  shows "primary_of_keyset ks S"
proof -
  let ?K = "filter (\<lambda>k. key_id k = primary_key_id ks) (enabled_keys ks)"
  let ?E = "filter (\<lambda>e. pe_key_id e = primary_key_id ks) es"
  have len: "length ?E = length ?K" using list_all2_lengthD [OF list_all2_filter_key_id [OF es, of "primary_key_id ks"]] by simp
  from v consider "length ?K = 1" | "?K = []" "\<forall>k \<in> set (enabled_keys ks). key_material_type (get_key_data k) = ASYMMETRIC_PUBLIC"
    by (auto simp: ValidateKeyset_iff Let_def)
  then show ?thesis
  proof cases
    case 1
    with len obtain e where "?E = [e]" by (metis One_nat_def length_0_conv length_Suc_conv)
    then show ?thesis by (simp add: primary_of_keyset_def S last_primary_def Let_def)
  next
    case 2
    with len have "?E = []" by simp
    with 2 show ?thesis by (auto simp: primary_of_keyset_def S last_primary_def Let_def filter_empty_conv)
  qed
qed

lemma make_primitive_set_succeeds:
  assumes v: "ValidateKeyset ks = OkStatus" and add: "\<forall>k \<in> set (enabled_keys ks). addable F k"
  shows "\<exists>S. make_primitive_set F ks a = Inr S \<and> list_all2 (key_entry F) (enabled_keys ks) (get_all_in_keyset_order S) \<and>
             pset_inv S \<and> ps_annotations S = a \<and> primary_of_keyset ks S"
proof -
  let ?b = "Builder_AddAnnotations a (PBuilder_default :: 'b PBuilder)"
  have b: "builder_inv ?b" "status_ok (pb_status ?b)" "pb_annotations ?b = a" "pb_in_keyset_order ?b = []" "pb_primary ?b = None"
    by (simp_all add: Builder_AddAnnotations_def PBuilder_default_def builder_inv_def merge_annotations_def)
  obtain b' es where l: "Wrap_loop F (primary_key_id ks) (keys ks) ?b = Inr b'" "status_ok (pb_status b')" "builder_inv b'"
    "pb_annotations b' = a" "pb_in_keyset_order b' = es" "list_all2 (key_entry F) (enabled_keys ks) es"
    "pb_primary b' = last_primary (primary_key_id ks) es None"
    using Wrap_loop_entries [OF b(1,2), of "keys ks" F "primary_key_id ks"] add b(3-5) by (auto simp: enabled_keys_def)
  obtain S where S: "Builder_Build b' = Inr S" "get_primary S = pb_primary b'" "get_all_in_keyset_order S = es" "ps_annotations S = a"
    using l(2,4,5) by (cases "pb_status b'") (simp_all add: Builder_Build_def get_primary_def get_all_in_keyset_order_def)
  from Builder_Build_inv [OF l(3) S(1)] last_primary_of_keyset [OF v l(6)] S l v show ?thesis
    by (intro exI [of _ S]) (simp add: make_primitive_set_def)
qed

lemma make_primitive_set_needs:
  assumes "make_primitive_set F ks a = Inr S"
  shows "ValidateKeyset ks = OkStatus \<and> (\<forall>k \<in> set (enabled_keys ks). addable F k)"
  using assms
  by (auto simp: make_primitive_set_def Builder_Build_def enabled_keys_def split: sum.splits
      intro: Wrap_loop_needs_addable)

text \<open>
  (C19) \<^verbatim>\<open>KeysetWrapperImpl\<close> makes a primitive set of a keyset exactly when the keyset is valid and
  every enabled key has a primitive and a known output prefix type. The entries of the set are
  then the enabled keys, in keyset order, each with the primitive, the id and the prefix type of
  its key; the annotations are those passed in; and the primary is the entry of the one enabled
  key with the primary key id, or is missing, when all enabled keys are public keys and none
  of them has that id.
\<close>

theorem keyset_to_primitive_set:
  "((\<exists>S. make_primitive_set F ks a = Inr S) \<longleftrightarrow>
      ValidateKeyset ks = OkStatus \<and> (\<forall>k \<in> set (enabled_keys ks). addable F k)) \<and>
   (make_primitive_set F ks a = Inr S \<longrightarrow>
      list_all2 (key_entry F) (enabled_keys ks) (get_all_in_keyset_order S) \<and> ps_annotations S = a \<and>
      (case get_primary S of
         Some e \<Rightarrow> filter (\<lambda>e. pe_key_id e = primary_key_id ks) (get_all_in_keyset_order S) = [e]
       | None \<Rightarrow> \<forall>k \<in> set (enabled_keys ks).
                   key_id k \<noteq> primary_key_id ks \<and> key_material_type (get_key_data k) = ASYMMETRIC_PUBLIC))"
proof -
  have "\<exists>S'. make_primitive_set F ks a = Inr S' \<and> list_all2 (key_entry F) (enabled_keys ks) (get_all_in_keyset_order S') \<and>
             ps_annotations S' = a \<and> primary_of_keyset ks S'"
    if "ValidateKeyset ks = OkStatus" "\<forall>k \<in> set (enabled_keys ks). addable F k"
    using make_primitive_set_succeeds [OF that] by blast
  with make_primitive_set_needs [of F ks a] show ?thesis
    unfolding primary_of_keyset_def by fastforce
qed

definition sample_fns :: "(bytes, bytes) primitive_fns" where
  "sample_fns =
     \<lparr>ParseKey = (\<lambda>s. Inl kNotFound), primitive_getter_from_key = (\<lambda>k. Inl kNotFound),
      primitive_getter = (\<lambda>d. Inr (Some (key_value d)))\<rparr>"

lemma sample_private_keyset_addable:
  "ValidateKeyset sample_private_keyset = OkStatus \<and> (\<forall>k \<in> set (enabled_keys sample_private_keyset). addable sample_fns k)"
  by (simp add: ValidateKeyset_iff enabled_keys_def sample_private_keyset_def ValidateKey_def addable_def sample_fns_def
      get_key_primitive_def ProtoKeySerialization_Create_def IsPrintableAscii_def get_key_data_def value_or_def)

theorem keyset_to_primitive_set_witness:
  "\<exists>S e. make_primitive_set sample_fns sample_private_keyset [] = Inr S \<and>
         get_all_in_keyset_order S = [e] \<and> pe_primitive e = [3] \<and> pe_key_id e = 7"
proof -
  obtain S where S: "make_primitive_set sample_fns sample_private_keyset [] = Inr S"
    using keyset_to_primitive_set [of sample_fns sample_private_keyset "[]"] sample_private_keyset_addable by blast
  then have "list_all2 (key_entry sample_fns) (enabled_keys sample_private_keyset) (get_all_in_keyset_order S)"
    using keyset_to_primitive_set [of sample_fns sample_private_keyset "[]" S] by blast
  then obtain e where "get_all_in_keyset_order S = [e]" "pe_primitive e = [3]" "pe_key_id e = 7"
    by (auto simp: enabled_keys_def sample_private_keyset_def list_all2_Cons1 key_entry_def get_key_primitive_def
        ProtoKeySerialization_Create_def IsPrintableAscii_def get_key_data_def value_or_def sample_fns_def)
  with S show ?thesis by blast
qed

end
