(* ===== verification/Primitive_Wrappers.thy ===== *)
theory Primitive_Wrappers
  imports Primitive_Set
begin

text \<open>
  The wrappers that turn a primitive set into one primitive: \<^verbatim>\<open>aead/aead_wrapper.cc\<close>,
  \<^verbatim>\<open>daead/deterministic_aead_wrapper.cc\<close>, \<^verbatim>\<open>mac/mac_wrapper.cc\<close>, \<^verbatim>\<open>hybrid/hybrid_encrypt_wrapper.cc\<close>,
  \<^verbatim>\<open>hybrid/hybrid_decrypt_wrapper.cc\<close>, \<^verbatim>\<open>signature/public_key_sign_wrapper.cc\<close>,
  \<^verbatim>\<open>signature/public_key_verify_wrapper.cc\<close> and \<^verbatim>\<open>prf/prf_set_wrapper.cc\<close>, with the monitoring
  they do (\<^verbatim>\<open>internal/monitoring_util.h\<close>).

  The primitives of the single keys are functions, parameters of the model. A call of a wrapper
  returns its result and the events it sends to its monitoring client. The operations that use the
  primary dereference the pointer \<^verbatim>\<open>get_primary()\<close> without a test: they return an option, \<open>None\<close>
  standing for the null dereference, and it is proved that a wrapper made by \<^verbatim>\<open>Wrap\<close> never gets there.
  \<^verbatim>\<open>EnsureStringNonNull\<close> changes the pointer of an empty view and not its contents.
\<close>

section \<open>Definitions\<close>

subsection \<open>Monitoring\<close>

datatype log_event = Log u32 nat | LogFailure

type_synonym 'c log = "('c \<times> log_event) list"

text \<open>A call on a client pointer, guarded by the test for null.\<close>

definition log_to :: "'c option \<Rightarrow> log_event \<Rightarrow> 'c log" where
  "log_to client event = (case client of None \<Rightarrow> [] | Some c \<Rightarrow> [(c, event)])"

definition kKeyTypePrefix :: bytes where
  "kKeyTypePrefix = ascii ''type.googleapis.com/google.crypto.''"

definition StripPrefix :: "bytes \<Rightarrow> bytes \<Rightarrow> bytes" where
  "StripPrefix s prefix = (if take (length prefix) s = prefix then drop (length prefix) s else s)"

record MonitoringEntry =
  me_status :: KeyStatus
  me_key_id :: u32
  me_key_type :: bytes
  me_key_prefix :: bytes

record MonitoringKeySetInfo =
  mk_annotations :: annotations
  mk_entries :: "MonitoringEntry list"
  mk_primary_key_id :: u32

record MonitoringContext =
  mc_primitive :: string
  mc_api_function :: string
  mc_keyset_info :: MonitoringKeySetInfo

text \<open>
  What the wrappers take from outside: the monitoring factory of the global registry, the order in
  which a hash map is traversed, and the names the protocol buffer library gives to output prefix types.
\<close>

record 'c wrap_env =
  MonitoringClientFactory_New :: "(MonitoringContext \<Rightarrow> 'c StatusOr) option"
  hash_order :: "bytes list"
  OutputPrefixType_Name :: "OutputPrefixType \<Rightarrow> bytes"

fun monitoring_entries :: "(OutputPrefixType \<Rightarrow> bytes) \<Rightarrow> 'p PEntry list \<Rightarrow> MonitoringEntry list StatusOr" where
  "monitoring_entries name [] = Inr []"
| "monitoring_entries name (e # es) =
     (case FromKeyStatusType (pe_status e) of
        Inl c \<Rightarrow> Inl c
      | Inr st \<Rightarrow>
          (case monitoring_entries name es of
             Inl c \<Rightarrow> Inl c
           | Inr rest \<Rightarrow>
               Inr (\<lparr>me_status = st, me_key_id = pe_key_id e, me_key_type = StripPrefix (pe_key_type_url e) kKeyTypePrefix,
                     me_key_prefix = name (pe_output_prefix_type e)\<rparr> # rest)))"

definition MonitoringKeySetInfoFromPrimitiveSet :: "'c wrap_env \<Rightarrow> 'p PrimitiveSet \<Rightarrow> MonitoringKeySetInfo StatusOr" where
  "MonitoringKeySetInfoFromPrimitiveSet env S =
     (let entries = get_all (hash_order env) S
      in if entries = [] then Inl kInvalidArgument
         else case get_primary S of
                None \<Rightarrow> Inl kInvalidArgument
              | Some primary \<Rightarrow>
                  (case monitoring_entries (OutputPrefixType_Name env) entries of
                     Inl c \<Rightarrow> Inl c
                   | Inr keyset_info_entries \<Rightarrow>
                       Inr \<lparr>mk_annotations = ps_annotations S, mk_entries = keyset_info_entries,
                            mk_primary_key_id = pe_key_id primary\<rparr>))"

text \<open>\<open>monitoring_client\<close>: the keyset info and one client made for it, as every \<^verbatim>\<open>Wrap\<close> does.\<close>

definition monitoring_client ::
    "(MonitoringContext \<Rightarrow> 'c StatusOr) \<Rightarrow> string \<Rightarrow> string \<Rightarrow> MonitoringKeySetInfo \<Rightarrow> 'c StatusOr" where
  "monitoring_client factory primitive api info =
     factory \<lparr>mc_primitive = primitive, mc_api_function = api, mc_keyset_info = info\<rparr>"

subsection \<open>Trying entries\<close>

text \<open>The loops of the wrappers return at the first entry whose primitive succeeds.\<close>

fun first_success :: "('a \<Rightarrow> 'r StatusOr) \<Rightarrow> 'a list \<Rightarrow> ('a \<times> 'r) option" where
  "first_success f [] = None"
| "first_success f (x # xs) = (case f x of Inl _ \<Rightarrow> first_success f xs | Inr r \<Rightarrow> Some (x, r))"

text \<open>The entries found for a prefix; a failed lookup skips the loop.\<close>

definition found_primitives :: "'p Primitives StatusOr \<Rightarrow> 'p Primitives" where
  "found_primitives r = (case r of Inl _ \<Rightarrow> [] | Inr es \<Rightarrow> es)"

subsection \<open>AEAD\<close>

record 'c AeadSetWrapper =
  aead_set :: "AeadFns PrimitiveSet"
  aead_encryption_client :: "'c option"
  aead_decryption_client :: "'c option"

definition Aead_Validate :: "AeadFns PrimitiveSet option \<Rightarrow> Status" where
  "Aead_Validate set_ptr =
     (case set_ptr of
        None \<Rightarrow> Inl kInternal
      | Some S \<Rightarrow> if get_primary S = None then Inl kInvalidArgument else OkStatus)"

definition AeadSetWrapper_Encrypt :: "'c AeadSetWrapper \<Rightarrow> bytes \<Rightarrow> bytes \<Rightarrow> (bytes StatusOr \<times> 'c log) option" where
  "AeadSetWrapper_Encrypt w plaintext associated_data =
     (case get_primary (aead_set w) of
        None \<Rightarrow> None
      | Some primary \<Rightarrow>
          Some (case aead_Encrypt (pe_primitive primary) plaintext associated_data of
                  Inl e \<Rightarrow> (Inl e, log_to (aead_encryption_client w) LogFailure)
                | Inr ciphertext \<Rightarrow>
                    (Inr (pe_identifier primary @ ciphertext),
                     log_to (aead_encryption_client w) (Log (pe_key_id primary) (length plaintext)))))"

definition AeadSetWrapper_Decrypt :: "'c AeadSetWrapper \<Rightarrow> bytes \<Rightarrow> bytes \<Rightarrow> bytes StatusOr \<times> 'c log" where
  "AeadSetWrapper_Decrypt w ciphertext associated_data =
     (let raw_ciphertext = drop kNonRawPrefixSize ciphertext;
          by_prefix =
            (if kNonRawPrefixSize < length ciphertext
             then first_success (\<lambda>e. aead_Decrypt (pe_primitive e) raw_ciphertext associated_data)
                    (found_primitives (get_primitives (aead_set w) (take kNonRawPrefixSize ciphertext)))
             else None)
      in case by_prefix of
           Some (e, plaintext) \<Rightarrow>
             (Inr plaintext, log_to (aead_decryption_client w) (Log (pe_key_id e) (length raw_ciphertext)))
         | None \<Rightarrow>
             (case first_success (\<lambda>e. aead_Decrypt (pe_primitive e) ciphertext associated_data)
                     (found_primitives (get_raw_primitives (aead_set w))) of
                Some (e, plaintext) \<Rightarrow>
                  (Inr plaintext, log_to (aead_decryption_client w) (Log (pe_key_id e) (length ciphertext)))
              | None \<Rightarrow> (Inl kInvalidArgument, log_to (aead_decryption_client w) LogFailure)))"

definition AeadWrapper_Wrap :: "'c wrap_env \<Rightarrow> AeadFns PrimitiveSet option \<Rightarrow> 'c AeadSetWrapper StatusOr" where
  "AeadWrapper_Wrap env set_ptr =
     (case Aead_Validate set_ptr of
        Inl e \<Rightarrow> Inl e
      | Inr _ \<Rightarrow>
          let S = the set_ptr
          in case MonitoringClientFactory_New env of
               None \<Rightarrow> Inr \<lparr>aead_set = S, aead_encryption_client = None, aead_decryption_client = None\<rparr>
             | Some factory \<Rightarrow>
                 (case MonitoringKeySetInfoFromPrimitiveSet env S of
                    Inl e \<Rightarrow> Inl e
                  | Inr info \<Rightarrow>
                      (case monitoring_client factory ''aead'' ''encrypt'' info of
                         Inl e \<Rightarrow> Inl e
                       | Inr enc \<Rightarrow>
                           (case monitoring_client factory ''aead'' ''decrypt'' info of
                              Inl e \<Rightarrow> Inl e
                            | Inr dec \<Rightarrow>
                                Inr \<lparr>aead_set = S, aead_encryption_client = Some enc, aead_decryption_client = Some dec\<rparr>))))"

subsection \<open>Deterministic AEAD\<close>

record DaeadFns =
  EncryptDeterministically :: "bytes \<Rightarrow> bytes \<Rightarrow> bytes StatusOr"
  DecryptDeterministically :: "bytes \<Rightarrow> bytes \<Rightarrow> bytes StatusOr"

record 'c DaeadSetWrapper =
  daead_set :: "DaeadFns PrimitiveSet"
  daead_encryption_client :: "'c option"
  daead_decryption_client :: "'c option"

definition Daead_Validate :: "DaeadFns PrimitiveSet option \<Rightarrow> Status" where
  "Daead_Validate set_ptr =
     (case set_ptr of
        None \<Rightarrow> Inl kInternal
      | Some S \<Rightarrow> if get_primary S = None then Inl kInvalidArgument else OkStatus)"

definition DaeadSetWrapper_Encrypt :: "'c DaeadSetWrapper \<Rightarrow> bytes \<Rightarrow> bytes \<Rightarrow> (bytes StatusOr \<times> 'c log) option" where
  "DaeadSetWrapper_Encrypt w plaintext associated_data =
     (case get_primary (daead_set w) of
        None \<Rightarrow> None
      | Some primary \<Rightarrow>
          Some (case EncryptDeterministically (pe_primitive primary) plaintext associated_data of
                  Inl e \<Rightarrow> (Inl e, log_to (daead_encryption_client w) LogFailure)
                | Inr ciphertext \<Rightarrow>
                    (Inr (pe_identifier primary @ ciphertext),
                     log_to (daead_encryption_client w) (Log (pe_key_id primary) (length plaintext)))))"

definition DaeadSetWrapper_Decrypt :: "'c DaeadSetWrapper \<Rightarrow> bytes \<Rightarrow> bytes \<Rightarrow> bytes StatusOr \<times> 'c log" where
  "DaeadSetWrapper_Decrypt w ciphertext associated_data =
     (let raw_ciphertext = drop kNonRawPrefixSize ciphertext;
          by_prefix =
            (if kNonRawPrefixSize < length ciphertext
             then first_success (\<lambda>e. DecryptDeterministically (pe_primitive e) raw_ciphertext associated_data)
                    (found_primitives (get_primitives (daead_set w) (take kNonRawPrefixSize ciphertext)))
             else None)
      in case by_prefix of
           Some (e, plaintext) \<Rightarrow>
             (Inr plaintext, log_to (daead_decryption_client w) (Log (pe_key_id e) (length raw_ciphertext)))
         | None \<Rightarrow>
             (case first_success (\<lambda>e. DecryptDeterministically (pe_primitive e) ciphertext associated_data)
                     (found_primitives (get_raw_primitives (daead_set w))) of
                Some (e, plaintext) \<Rightarrow>
                  (Inr plaintext, log_to (daead_decryption_client w) (Log (pe_key_id e) (length ciphertext)))
              | None \<Rightarrow> (Inl kInvalidArgument, log_to (daead_decryption_client w) LogFailure)))"

definition DaeadWrapper_Wrap :: "'c wrap_env \<Rightarrow> DaeadFns PrimitiveSet option \<Rightarrow> 'c DaeadSetWrapper StatusOr" where
  "DaeadWrapper_Wrap env set_ptr =
     (case Daead_Validate set_ptr of
        Inl e \<Rightarrow> Inl e
      | Inr _ \<Rightarrow>
          let S = the set_ptr
          in case MonitoringClientFactory_New env of
               None \<Rightarrow> Inr \<lparr>daead_set = S, daead_encryption_client = None, daead_decryption_client = None\<rparr>
             | Some factory \<Rightarrow>
                 (case MonitoringKeySetInfoFromPrimitiveSet env S of
                    Inl e \<Rightarrow> Inl e
                  | Inr info \<Rightarrow>
                      (case monitoring_client factory ''daead'' ''encrypt'' info of
                         Inl e \<Rightarrow> Inl e
                       | Inr enc \<Rightarrow>
                           (case monitoring_client factory ''daead'' ''decrypt'' info of
                              Inl e \<Rightarrow> Inl e
                            | Inr dec \<Rightarrow>
                                Inr \<lparr>daead_set = S, daead_encryption_client = Some enc, daead_decryption_client = Some dec\<rparr>))))"

subsection \<open>MAC\<close>

record MacFns =
  mac_ComputeMac :: "bytes \<Rightarrow> bytes StatusOr"
  mac_VerifyMac :: "bytes \<Rightarrow> bytes \<Rightarrow> Status"

record 'c MacSetWrapper =
  mac_set :: "MacFns PrimitiveSet"
  mac_compute_client :: "'c option"
  mac_verify_client :: "'c option"

definition Mac_Validate :: "MacFns PrimitiveSet option \<Rightarrow> Status" where
  "Mac_Validate set_ptr =
     (case set_ptr of
        None \<Rightarrow> Inl kInternal
      | Some S \<Rightarrow> if get_primary S = None then Inl kInvalidArgument else OkStatus)"

text \<open>LEGACY keys authenticate the data followed by a zero byte.\<close>

definition legacy_data :: "OutputPrefixType \<Rightarrow> bytes \<Rightarrow> bytes" where
  "legacy_data prefix_type data = (if prefix_type = LEGACY then data @ [kLegacyStartByte] else data)"

definition MacSetWrapper_ComputeMac :: "'c MacSetWrapper \<Rightarrow> bytes \<Rightarrow> (bytes StatusOr \<times> 'c log) option" where
  "MacSetWrapper_ComputeMac w data =
     (case get_primary (mac_set w) of
        None \<Rightarrow> None
      | Some primary \<Rightarrow>
          let data' = legacy_data (pe_output_prefix_type primary) data
          in Some (case mac_ComputeMac (pe_primitive primary) data' of
                     Inl e \<Rightarrow> (Inl e, log_to (mac_compute_client w) LogFailure)
                   | Inr mac_value \<Rightarrow>
                       (Inr (pe_identifier primary @ mac_value),
                        log_to (mac_compute_client w) (Log (pe_key_id primary) (length data')))))"

definition MacSetWrapper_VerifyMac :: "'c MacSetWrapper \<Rightarrow> bytes \<Rightarrow> bytes \<Rightarrow> Status \<times> 'c log" where
  "MacSetWrapper_VerifyMac w mac_value data =
     (let raw_mac_value = drop kNonRawPrefixSize mac_value;
          by_prefix =
            (if kNonRawPrefixSize < length mac_value
             then first_success
                    (\<lambda>e. mac_VerifyMac (pe_primitive e) raw_mac_value (legacy_data (pe_output_prefix_type e) data))
                    (found_primitives (get_primitives (mac_set w) (take kNonRawPrefixSize mac_value)))
             else None)
      in case by_prefix of
           Some (e, _) \<Rightarrow> (OkStatus, log_to (mac_verify_client w) (Log (pe_key_id e) (length data)))
         | None \<Rightarrow>
             (case first_success (\<lambda>e. mac_VerifyMac (pe_primitive e) mac_value data)
                     (found_primitives (get_raw_primitives (mac_set w))) of
                Some (e, _) \<Rightarrow> (OkStatus, log_to (mac_verify_client w) (Log (pe_key_id e) (length data)))
              | None \<Rightarrow> (Inl kInvalidArgument, log_to (mac_verify_client w) LogFailure)))"

definition MacWrapper_Wrap :: "'c wrap_env \<Rightarrow> MacFns PrimitiveSet option \<Rightarrow> 'c MacSetWrapper StatusOr" where
  "MacWrapper_Wrap env set_ptr =
     (case Mac_Validate set_ptr of
        Inl e \<Rightarrow> Inl e
      | Inr _ \<Rightarrow>
          let S = the set_ptr
          in case MonitoringClientFactory_New env of
               None \<Rightarrow> Inr \<lparr>mac_set = S, mac_compute_client = None, mac_verify_client = None\<rparr>
             | Some factory \<Rightarrow>
                 (case MonitoringKeySetInfoFromPrimitiveSet env S of
                    Inl e \<Rightarrow> Inl e
                  | Inr info \<Rightarrow>
                      (case monitoring_client factory ''mac'' ''compute'' info of
                         Inl e \<Rightarrow> Inl e
                       | Inr compute \<Rightarrow>
                           (case monitoring_client factory ''mac'' ''verify'' info of
                              Inl e \<Rightarrow> Inl e
                            | Inr verify \<Rightarrow>
                                Inr \<lparr>mac_set = S, mac_compute_client = Some compute, mac_verify_client = Some verify\<rparr>))))"

subsection \<open>Hybrid encryption\<close>

type_synonym HybridEncrypt = "bytes \<Rightarrow> bytes \<Rightarrow> bytes StatusOr"
type_synonym HybridDecrypt = "bytes \<Rightarrow> bytes \<Rightarrow> bytes StatusOr"

record 'c HybridEncryptSetWrapper =
  hybrid_encrypt_set :: "HybridEncrypt PrimitiveSet"
  hybrid_encryption_client :: "'c option"

record 'c HybridDecryptSetWrapper =
  hybrid_decrypt_set :: "HybridDecrypt PrimitiveSet"
  hybrid_decryption_client :: "'c option"

definition HybridEncrypt_Validate :: "HybridEncrypt PrimitiveSet option \<Rightarrow> Status" where
  "HybridEncrypt_Validate set_ptr =
     (case set_ptr of
        None \<Rightarrow> Inl kInternal
      | Some S \<Rightarrow> if get_primary S = None then Inl kInvalidArgument else OkStatus)"

definition HybridDecrypt_Validate :: "HybridDecrypt PrimitiveSet option \<Rightarrow> Status" where
  "HybridDecrypt_Validate set_ptr =
     (case set_ptr of
        None \<Rightarrow> Inl kInternal
      | Some S \<Rightarrow> if get_primary S = None then Inl kInvalidArgument else OkStatus)"

definition HybridEncryptSetWrapper_Encrypt ::
    "'c HybridEncryptSetWrapper \<Rightarrow> bytes \<Rightarrow> bytes \<Rightarrow> (bytes StatusOr \<times> 'c log) option" where
  "HybridEncryptSetWrapper_Encrypt w plaintext context_info =
     (case get_primary (hybrid_encrypt_set w) of
        None \<Rightarrow> None
      | Some primary \<Rightarrow>
          Some (case (pe_primitive primary) plaintext context_info of
                  Inl e \<Rightarrow> (Inl e, log_to (hybrid_encryption_client w) LogFailure)
                | Inr ciphertext \<Rightarrow>
                    (Inr (pe_identifier primary @ ciphertext),
                     log_to (hybrid_encryption_client w) (Log (pe_key_id primary) (length plaintext)))))"

text \<open>The size logged is that of the whole ciphertext, and a RAW key that succeeds is not logged.\<close>

definition HybridDecryptSetWrapper_Decrypt ::
    "'c HybridDecryptSetWrapper \<Rightarrow> bytes \<Rightarrow> bytes \<Rightarrow> bytes StatusOr \<times> 'c log" where
  "HybridDecryptSetWrapper_Decrypt w ciphertext context_info =
     (let raw_ciphertext = drop kNonRawPrefixSize ciphertext;
          by_prefix =
            (if kNonRawPrefixSize < length ciphertext
             then first_success (\<lambda>e. (pe_primitive e) raw_ciphertext context_info)
                    (found_primitives (get_primitives (hybrid_decrypt_set w) (take kNonRawPrefixSize ciphertext)))
             else None)
      in case by_prefix of
           Some (e, plaintext) \<Rightarrow>
             (Inr plaintext, log_to (hybrid_decryption_client w) (Log (pe_key_id e) (length ciphertext)))
         | None \<Rightarrow>
             (case first_success (\<lambda>e. (pe_primitive e) ciphertext context_info)
                     (found_primitives (get_raw_primitives (hybrid_decrypt_set w))) of
                Some (e, plaintext) \<Rightarrow> (Inr plaintext, [])
              | None \<Rightarrow> (Inl kInvalidArgument, log_to (hybrid_decryption_client w) LogFailure)))"

definition HybridEncryptWrapper_Wrap ::
    "'c wrap_env \<Rightarrow> HybridEncrypt PrimitiveSet option \<Rightarrow> 'c HybridEncryptSetWrapper StatusOr" where
  "HybridEncryptWrapper_Wrap env set_ptr =
     (case HybridEncrypt_Validate set_ptr of
        Inl e \<Rightarrow> Inl e
      | Inr _ \<Rightarrow>
          let S = the set_ptr
          in case MonitoringClientFactory_New env of
               None \<Rightarrow> Inr \<lparr>hybrid_encrypt_set = S, hybrid_encryption_client = None\<rparr>
             | Some factory \<Rightarrow>
                 (case MonitoringKeySetInfoFromPrimitiveSet env S of
                    Inl e \<Rightarrow> Inl e
                  | Inr info \<Rightarrow>
                      (case monitoring_client factory ''hybrid_encrypt'' ''encrypt'' info of
                         Inl e \<Rightarrow> Inl e
                       | Inr enc \<Rightarrow> Inr \<lparr>hybrid_encrypt_set = S, hybrid_encryption_client = Some enc\<rparr>)))"

definition HybridDecryptWrapper_Wrap ::
    "'c wrap_env \<Rightarrow> HybridDecrypt PrimitiveSet option \<Rightarrow> 'c HybridDecryptSetWrapper StatusOr" where
  "HybridDecryptWrapper_Wrap env set_ptr =
     (case HybridDecrypt_Validate set_ptr of
        Inl e \<Rightarrow> Inl e
      | Inr _ \<Rightarrow>
          let S = the set_ptr
          in case MonitoringClientFactory_New env of
               None \<Rightarrow> Inr \<lparr>hybrid_decrypt_set = S, hybrid_decryption_client = None\<rparr>
             | Some factory \<Rightarrow>
                 (case MonitoringKeySetInfoFromPrimitiveSet env S of
                    Inl e \<Rightarrow> Inl e
                  | Inr info \<Rightarrow>
                      (case monitoring_client factory ''hybrid_decrypt'' ''decrypt'' info of
                         Inl e \<Rightarrow> Inl e
                       | Inr dec \<Rightarrow> Inr \<lparr>hybrid_decrypt_set = S, hybrid_decryption_client = Some dec\<rparr>)))"

subsection \<open>Signatures\<close>

type_synonym PublicKeySign = "bytes \<Rightarrow> bytes StatusOr"
type_synonym PublicKeyVerify = "bytes \<Rightarrow> bytes \<Rightarrow> Status"

record 'c PublicKeySignSetWrapper =
  sign_set :: "PublicKeySign PrimitiveSet"
  sign_client :: "'c option"

definition Sign_Validate :: "PublicKeySign PrimitiveSet option \<Rightarrow> Status" where
  "Sign_Validate set_ptr =
     (case set_ptr of
        None \<Rightarrow> Inl kInternal
      | Some S \<Rightarrow> if get_primary S = None then Inl kInvalidArgument else OkStatus)"

definition PublicKeySignSetWrapper_Sign :: "'c PublicKeySignSetWrapper \<Rightarrow> bytes \<Rightarrow> (bytes StatusOr \<times> 'c log) option" where
  "PublicKeySignSetWrapper_Sign w data =
     (case get_primary (sign_set w) of
        None \<Rightarrow> None
      | Some primary \<Rightarrow>
          let data' = legacy_data (pe_output_prefix_type primary) data
          in Some (case (pe_primitive primary) data' of
                     Inl e \<Rightarrow> (Inl e, log_to (sign_client w) LogFailure)
                   | Inr signature \<Rightarrow>
                       (Inr (pe_identifier primary @ signature),
                        log_to (sign_client w) (Log (pe_key_id primary) (length data')))))"

definition PublicKeySignWrapper_Wrap ::
    "'c wrap_env \<Rightarrow> PublicKeySign PrimitiveSet option \<Rightarrow> 'c PublicKeySignSetWrapper StatusOr" where
  "PublicKeySignWrapper_Wrap env set_ptr =
     (case Sign_Validate set_ptr of
        Inl e \<Rightarrow> Inl e
      | Inr _ \<Rightarrow>
          let S = the set_ptr
          in case MonitoringClientFactory_New env of
               None \<Rightarrow> Inr \<lparr>sign_set = S, sign_client = None\<rparr>
             | Some factory \<Rightarrow>
                 (case MonitoringKeySetInfoFromPrimitiveSet env S of
                    Inl e \<Rightarrow> Inl e
                  | Inr info \<Rightarrow>
                      (case monitoring_client factory ''public_key_sign'' ''sign'' info of
                         Inl e \<Rightarrow> Inl e
                       | Inr c \<Rightarrow> Inr \<lparr>sign_set = S, sign_client = Some c\<rparr>)))"

record VerifyEntry =
  ve_primitive :: PublicKeyVerify
  ve_key_id :: u32
  ve_output_prefix_type :: OutputPrefixType
  ve_has_prefix :: bool
  ve_prefix :: bytes

record 'c PublicKeyVerifySetWrapper =
  verify_entries :: "VerifyEntry list"
  verify_client :: "'c option"

definition Verify_Validate :: "PublicKeyVerify PrimitiveSet option \<Rightarrow> Status" where
  "Verify_Validate set_ptr =
     (case set_ptr of
        None \<Rightarrow> Inl kInternal
      | Some S \<Rightarrow> if get_primary S = None then Inl kInvalidArgument else OkStatus)"

text \<open>The prefix is copied into an array of five zero bytes, reading five bytes of the identifier.\<close>

definition unpack_entry :: "PublicKeyVerify PEntry \<Rightarrow> VerifyEntry" where
  "unpack_entry e =
     \<lparr>ve_primitive = pe_primitive e, ve_key_id = pe_key_id e, ve_output_prefix_type = pe_output_prefix_type e,
      ve_has_prefix = (pe_identifier e \<noteq> []),
      ve_prefix = (if pe_identifier e \<noteq> [] then map (\<lambda>i. pe_identifier e ! i) [0..<kNonRawPrefixSize]
                   else replicate kNonRawPrefixSize 0)\<rparr>"

definition UnpackPrimitives :: "PublicKeyVerify PEntry list \<Rightarrow> VerifyEntry list" where
  "UnpackPrimitives set_entries = map unpack_entry set_entries"

definition PublicKeyVerifySetWrapper_Verify :: "'c PublicKeyVerifySetWrapper \<Rightarrow> bytes \<Rightarrow> bytes \<Rightarrow> Status \<times> 'c log" where
  "PublicKeyVerifySetWrapper_Verify w signature data =
     (if length signature \<le> kNonRawPrefixSize then (Inl kInvalidArgument, [])
      else
        let raw_signature = drop kNonRawPrefixSize signature;
            matching = filter (\<lambda>e. ve_has_prefix e \<and> ve_prefix e = take kNonRawPrefixSize signature) (verify_entries w);
            raw = filter (\<lambda>e. \<not> ve_has_prefix e) (verify_entries w)
        in case first_success (\<lambda>e. ve_primitive e raw_signature (legacy_data (ve_output_prefix_type e) data)) matching of
             Some (e, _) \<Rightarrow> (OkStatus, log_to (verify_client w) (Log (ve_key_id e) (length data)))
           | None \<Rightarrow>
               (case first_success (\<lambda>e. ve_primitive e signature data) raw of
                  Some (e, _) \<Rightarrow> (OkStatus, log_to (verify_client w) (Log (ve_key_id e) (length data)))
                | None \<Rightarrow> (Inl kInvalidArgument, log_to (verify_client w) LogFailure)))"

definition PublicKeyVerifyWrapper_Wrap ::
    "'c wrap_env \<Rightarrow> PublicKeyVerify PrimitiveSet option \<Rightarrow> 'c PublicKeyVerifySetWrapper StatusOr" where
  "PublicKeyVerifyWrapper_Wrap env set_ptr =
     (case Verify_Validate set_ptr of
        Inl e \<Rightarrow> Inl e
      | Inr _ \<Rightarrow>
          let S = the set_ptr
          in case MonitoringClientFactory_New env of
               None \<Rightarrow>
                 Inr \<lparr>verify_entries = UnpackPrimitives (fst (ReleaseAllEntries S)), verify_client = None\<rparr>
             | Some factory \<Rightarrow>
                 (case MonitoringKeySetInfoFromPrimitiveSet env S of
                    Inl e \<Rightarrow> Inl e
                  | Inr info \<Rightarrow>
                      (case monitoring_client factory ''public_key_verify'' ''verify'' info of
                         Inl e \<Rightarrow> Inl e
                       | Inr c \<Rightarrow>
                           Inr \<lparr>verify_entries = UnpackPrimitives (fst (ReleaseAllEntries S)), verify_client = Some c\<rparr>)))"

subsection \<open>PRF sets\<close>

type_synonym Prf = "bytes \<Rightarrow> nat \<Rightarrow> bytes StatusOr"

record 'c MonitoredPrf =
  mp_key_id :: u32
  mp_prf :: Prf
  mp_client :: "'c option"

definition MonitoredPrf_Compute :: "'c MonitoredPrf \<Rightarrow> bytes \<Rightarrow> nat \<Rightarrow> bytes StatusOr \<times> 'c log" where
  "MonitoredPrf_Compute m input output_length =
     (case mp_prf m input output_length of
        Inl e \<Rightarrow> (Inl e, log_to (mp_client m) LogFailure)
      | Inr r \<Rightarrow> (Inr r, log_to (mp_client m) (Log (mp_key_id m) (length input))))"

record 'c PrfSetPrimitiveWrapper =
  prf_set :: "Prf PrimitiveSet"
  prfs :: "u32 \<rightharpoonup> 'c MonitoredPrf"

text \<open>
  The constructor reads the raw primitives without testing that there are any, which
  aborts if there is none (\<open>None\<close>); \<open>insert\<close> of \<^verbatim>\<open>std::map\<close> keeps the first element with a key.
\<close>

definition insert_prf :: "'c option \<Rightarrow> Prf PEntry \<Rightarrow> (u32 \<rightharpoonup> 'c MonitoredPrf) \<Rightarrow> (u32 \<rightharpoonup> 'c MonitoredPrf)" where
  "insert_prf client e m =
     (if m (pe_key_id e) \<noteq> None then m
      else m(pe_key_id e \<mapsto> \<lparr>mp_key_id = pe_key_id e, mp_prf = pe_primitive e, mp_client = client\<rparr>))"

definition PrfSetPrimitiveWrapper_new :: "Prf PrimitiveSet \<Rightarrow> 'c option \<Rightarrow> 'c PrfSetPrimitiveWrapper option" where
  "PrfSetPrimitiveWrapper_new S client =
     (case get_raw_primitives S of
        Inl _ \<Rightarrow> None
      | Inr es \<Rightarrow> Some \<lparr>prf_set = S, prfs = fold (insert_prf client) es Map.empty\<rparr>)"

definition GetPrimaryId :: "'c PrfSetPrimitiveWrapper \<Rightarrow> u32 option" where
  "GetPrimaryId w = map_option pe_key_id (get_primary (prf_set w))"

definition Prf_Validate :: "'c wrap_env \<Rightarrow> Prf PrimitiveSet option \<Rightarrow> Status" where
  "Prf_Validate env set_ptr =
     (case set_ptr of
        None \<Rightarrow> Inl kInternal
      | Some S \<Rightarrow>
          if get_primary S = None then Inl kInvalidArgument
          else if list_ex (\<lambda>e. pe_output_prefix_type e \<noteq> RAW) (get_all (hash_order env) S) then Inl kInvalidArgument
          else OkStatus)"

definition PrfSetWrapper_Wrap ::
    "'c wrap_env \<Rightarrow> Prf PrimitiveSet option \<Rightarrow> 'c PrfSetPrimitiveWrapper option StatusOr" where
  "PrfSetWrapper_Wrap env set_ptr =
     (case Prf_Validate env set_ptr of
        Inl e \<Rightarrow> Inl e
      | Inr _ \<Rightarrow>
          let S = the set_ptr
          in case MonitoringClientFactory_New env of
               None \<Rightarrow> Inr (PrfSetPrimitiveWrapper_new S None)
             | Some factory \<Rightarrow>
                 (case MonitoringKeySetInfoFromPrimitiveSet env S of
                    Inl e \<Rightarrow> Inl e
                  | Inr info \<Rightarrow>
                      (case monitoring_client factory ''prf'' ''compute'' info of
                         Inl e \<Rightarrow> Inl e
                       | Inr c \<Rightarrow> Inr (PrfSetPrimitiveWrapper_new S (Some c)))))"

section \<open>What a consuming wrapper accepts\<close>

lemma first_success_append:
  "first_success f (xs @ ys) = (case first_success f xs of None \<Rightarrow> first_success f ys | Some s \<Rightarrow> Some s)"
  by (induction xs) (auto split: sum.split)

lemma first_success_None: "first_success f xs = None \<longleftrightarrow> (\<forall>x \<in> set xs. isl (f x))"
  by (induction xs) (auto split: sum.split)

lemma first_success_Some: "first_success f xs = Some (x, r) \<Longrightarrow> x \<in> set xs \<and> f x = Inr r"
  by (induction xs) (auto split: sum.splits)

lemma first_success_map:
  "first_success f (map g xs) = map_option (\<lambda>(x, r). (g x, r)) (first_success (\<lambda>x. f (g x)) xs)"
  by (induction xs) (auto split: sum.split)

text \<open>
  The entries a wrapper tries on an input, in order, each with the part of the input it is given:
  those whose prefix the input starts with, and then the RAW ones.
\<close>

definition candidates :: "'p PEntry list \<Rightarrow> bytes \<Rightarrow> ('p PEntry \<times> bytes) list" where
  "candidates es c =
     (if kNonRawPrefixSize < length c
      then map (\<lambda>e. (e, drop kNonRawPrefixSize c)) (with_identifier (take kNonRawPrefixSize c) es) else []) @
     map (\<lambda>e. (e, c)) (with_identifier kRawPrefix es)"

lemma candidates_iff:
  assumes ok: "\<forall>e \<in> set es. entry_ok e"
  shows "(e, x) \<in> set (candidates es c) \<longleftrightarrow>
           e \<in> set es \<and> c = pe_identifier e @ x \<and> (pe_identifier e = [] \<or> x \<noteq> [])"
proof (cases "e \<in> set es")
  case True
  with ok consider "pe_identifier e = []" | "length (pe_identifier e) = 5"
    using entry_ok_identifier by (auto simp: kNonRawPrefixSize_def)
  then show ?thesis
  proof cases
    case 1
    then show ?thesis using True by (auto simp: candidates_def kNonRawPrefixSize_def kRawPrefix_def)
  next
    case 2
    then have "c = pe_identifier e @ x \<longleftrightarrow> take 5 c = pe_identifier e \<and> drop 5 c = x"
      by (metis append_eq_conv_conj append_take_drop_id)
    with 2 True show ?thesis
      by (auto simp: candidates_def kNonRawPrefixSize_def kRawPrefix_def)
  qed
qed (auto simp: candidates_def)

text \<open>
  The contract of the operations that decrypt or verify: the result is that of the first
  candidate that accepts, and \<^verbatim>\<open>kInvalidArgument\<close> if there is none.
\<close>

locale keyset_consumer =
  fixes valid :: "'w \<Rightarrow> bool"
    and cands :: "'w \<Rightarrow> bytes \<Rightarrow> ('e \<times> bytes) list"
    and accept :: "'i \<Rightarrow> 'e \<Rightarrow> bytes \<Rightarrow> 'o StatusOr"
    and consume :: "'w \<Rightarrow> bytes \<Rightarrow> 'i \<Rightarrow> 'o StatusOr"
  assumes consume_result: "valid w \<Longrightarrow> consume w c i =
      (case first_success (\<lambda>(e, x). accept i e x) (cands w c) of None \<Rightarrow> Inl kInvalidArgument | Some (_, r) \<Rightarrow> Inr r)"
begin

lemma consume_sound:
  assumes "valid w" and "consume w c i = Inr r"
  shows "\<exists>(e, x) \<in> set (cands w c). accept i e x = Inr r"
  using assms by (auto simp: consume_result split: option.splits dest!: first_success_Some)

lemma consume_fails:
  assumes "valid w" and "consume w c i = Inl k"
  shows "k = kInvalidArgument \<and> (\<forall>(e, x) \<in> set (cands w c). isl (accept i e x))"
  using assms by (auto simp: consume_result first_success_None split: option.splits)

lemma consume_complete:
  assumes "valid w" and "(e, x) \<in> set (cands w c)" and "accept i e x = Inr r"
  shows "\<exists>r'. consume w c i = Inr r'"
  using consume_fails [OF assms(1), of c i] assms(2,3) by (cases "consume w c i") force+

lemma consume_unique:
  assumes "valid w" and "(e, x) \<in> set (cands w c)" and "accept i e x = Inr r"
    and "\<forall>(e', x') \<in> set (cands w c). \<forall>r'. accept i e' x' = Inr r' \<longrightarrow> r' = r"
  shows "consume w c i = Inr r"
  using consume_complete [OF assms(1-3)] consume_sound [OF assms(1), of c i] assms(4) by fastforce

lemma consume_dichotomy:
  assumes "valid w"
  shows "(\<exists>r. consume w c i = Inr r \<and> (\<exists>(e, x) \<in> set (cands w c). accept i e x = Inr r)) \<or>
         consume w c i = Inl kInvalidArgument \<and> (\<forall>(e, x) \<in> set (cands w c). isl (accept i e x))"
  using consume_sound [OF assms, of c i] consume_fails [OF assms, of c i] by (cases "consume w c i") auto

end

lemma found_primitives_get: "pset_inv S \<Longrightarrow> found_primitives (get_primitives S i) = with_identifier i (ps_in_keyset_order S)"
  by (simp add: found_primitives_def pset.lookup_eq)

lemma pset_entries_ok: "pset_inv S \<Longrightarrow> \<forall>e \<in> set (ps_in_keyset_order S). entry_ok e"
  by (simp add: pset_inv_def classified_def)

lemma legacy_data_raw: "\<lbrakk>entry_ok e; pe_identifier e = []\<rbrakk> \<Longrightarrow> legacy_data (pe_output_prefix_type e) data = data"
  by (auto simp: legacy_data_def entry_ok_def GetOutputPrefix_def)

lemma first_success_cong: "(\<And>x. x \<in> set xs \<Longrightarrow> f x = g x) \<Longrightarrow> first_success f xs = first_success g xs"
  by (induction xs) (auto split: sum.split)

lemma candidates_first_success:
  "first_success (\<lambda>(e, x). f e x) (candidates es c) =
     (case (if kNonRawPrefixSize < length c
            then first_success (\<lambda>e. f e (drop kNonRawPrefixSize c)) (with_identifier (take kNonRawPrefixSize c) es) else None) of
        Some (e, r) \<Rightarrow> Some ((e, drop kNonRawPrefixSize c), r)
      | None \<Rightarrow> map_option (\<lambda>(e, r). ((e, c), r)) (first_success (\<lambda>e. f e c) (with_identifier kRawPrefix es)))"
  by (auto simp: candidates_def first_success_append first_success_map split: option.split)

lemmas wrapper_simps = Let_def found_primitives_get get_raw_primitives_def candidates_first_success

interpretation aead: keyset_consumer
  "\<lambda>w. pset_inv (aead_set w)" "\<lambda>w. candidates (ps_in_keyset_order (aead_set w))"
  "\<lambda>ad e x. aead_Decrypt (pe_primitive e) x ad" "\<lambda>w c ad. fst (AeadSetWrapper_Decrypt w c ad)"
  by unfold_locales (auto simp: AeadSetWrapper_Decrypt_def wrapper_simps split: option.split)

interpretation daead: keyset_consumer
  "\<lambda>w. pset_inv (daead_set w)" "\<lambda>w. candidates (ps_in_keyset_order (daead_set w))"
  "\<lambda>ad e x. DecryptDeterministically (pe_primitive e) x ad" "\<lambda>w c ad. fst (DaeadSetWrapper_Decrypt w c ad)"
  by unfold_locales (auto simp: DaeadSetWrapper_Decrypt_def wrapper_simps split: option.split)

interpretation hybrid: keyset_consumer
  "\<lambda>w. pset_inv (hybrid_decrypt_set w)" "\<lambda>w. candidates (ps_in_keyset_order (hybrid_decrypt_set w))"
  "\<lambda>info e x. pe_primitive e x info" "\<lambda>w c info. fst (HybridDecryptSetWrapper_Decrypt w c info)"
  by unfold_locales (auto simp: HybridDecryptSetWrapper_Decrypt_def wrapper_simps split: option.split)

lemma raw_legacy_first_success:
  assumes "pset_inv S"
  shows "first_success (\<lambda>e. f (pe_primitive e) (legacy_data (pe_output_prefix_type e) data)) (with_identifier kRawPrefix (ps_in_keyset_order S))
       = first_success (\<lambda>e. f (pe_primitive e) data) (with_identifier kRawPrefix (ps_in_keyset_order S))"
  using pset_entries_ok [OF assms] by (intro first_success_cong) (simp add: legacy_data_raw kRawPrefix_def)

interpretation mac: keyset_consumer
  "\<lambda>w. pset_inv (mac_set w)" "\<lambda>w. candidates (ps_in_keyset_order (mac_set w))"
  "\<lambda>data e x. mac_VerifyMac (pe_primitive e) x (legacy_data (pe_output_prefix_type e) data)"
  "\<lambda>w c data. fst (MacSetWrapper_VerifyMac w c data)"
  by unfold_locales
    (auto simp: MacSetWrapper_VerifyMac_def wrapper_simps raw_legacy_first_success [where f = "\<lambda>p. mac_VerifyMac p _"]
      split: option.split)

subsection \<open>Signature verification\<close>

lemma unpack_entry_prefix:
  assumes "entry_ok e" and "length p = kNonRawPrefixSize"
  shows "ve_has_prefix (unpack_entry e) \<and> ve_prefix (unpack_entry e) = p \<longleftrightarrow> pe_identifier e = p"
    and "\<not> ve_has_prefix (unpack_entry e) \<longleftrightarrow> pe_identifier e = kRawPrefix"
  using entry_ok_identifier [OF assms(1)] assms(2) map_nth [of "pe_identifier e"]
  by (auto simp: unpack_entry_def kRawPrefix_def kNonRawPrefixSize_def)

lemma unpack_filters:
  assumes "\<forall>e \<in> set es. entry_ok e" and "length p = kNonRawPrefixSize"
  shows "filter (\<lambda>v. ve_has_prefix v \<and> ve_prefix v = p) (UnpackPrimitives es) = map unpack_entry (with_identifier p es)"
    and "filter (\<lambda>v. \<not> ve_has_prefix v) (UnpackPrimitives es) = map unpack_entry (with_identifier kRawPrefix es)"
  using assms(1) unpack_entry_prefix [OF _ assms(2)]
  by (induction es) (auto simp: UnpackPrimitives_def with_identifier_def)

definition verify_candidates :: "PublicKeyVerify PEntry list \<Rightarrow> bytes \<Rightarrow> (PublicKeyVerify PEntry \<times> bytes) list" where
  "verify_candidates es sig = (if length sig \<le> kNonRawPrefixSize then [] else candidates es sig)"

definition verify_valid :: "PublicKeyVerify PrimitiveSet \<times> 'c PublicKeyVerifySetWrapper \<Rightarrow> bool" where
  "verify_valid Sw \<longleftrightarrow> pset_inv (fst Sw) \<and> verify_entries (snd Sw) = UnpackPrimitives (ps_in_keyset_order (fst Sw))"

lemma unpack_first_success:
  "first_success f (map unpack_entry es) = map_option (\<lambda>(e, r). (unpack_entry e, r)) (first_success (\<lambda>e. f (unpack_entry e)) es)"
  by (simp add: first_success_map)

interpretation verify: keyset_consumer
  verify_valid "\<lambda>Sw. verify_candidates (ps_in_keyset_order (fst Sw))"
  "\<lambda>data e x. pe_primitive e x (legacy_data (pe_output_prefix_type e) data)"
  "\<lambda>Sw c data. fst (PublicKeyVerifySetWrapper_Verify (snd Sw) c data)"
proof unfold_locales
  fix Sw :: "PublicKeyVerify PrimitiveSet \<times> 'c PublicKeyVerifySetWrapper" and c data :: bytes
  assume v: "verify_valid Sw"
  then have inv: "pset_inv (fst Sw)" and es: "verify_entries (snd Sw) = UnpackPrimitives (ps_in_keyset_order (fst Sw))"
    by (simp_all add: verify_valid_def)
  show "fst (PublicKeyVerifySetWrapper_Verify (snd Sw) c data) =
       (case first_success (\<lambda>(e, x). pe_primitive e x (legacy_data (pe_output_prefix_type e) data))
               (verify_candidates (ps_in_keyset_order (fst Sw)) c) of
          None \<Rightarrow> Inl kInvalidArgument | Some (_, r) \<Rightarrow> Inr r)"
  proof (cases "length c \<le> kNonRawPrefixSize")
    case True
    then show ?thesis by (simp add: PublicKeyVerifySetWrapper_Verify_def verify_candidates_def)
  next
    case False
    then have "length (take kNonRawPrefixSize c) = kNonRawPrefixSize" by simp
    from unpack_filters [OF pset_entries_ok [OF inv] this] False show ?thesis
      using raw_legacy_first_success [OF inv, where f = "\<lambda>p. p c" and data = data]
      by (auto simp: PublicKeyVerifySetWrapper_Verify_def es verify_candidates_def wrapper_simps unpack_first_success
          unpack_entry_def split: option.split)
  qed
qed

section \<open>Wrappers made by Wrap\<close>

lemma Wrap_aead:
  "AeadWrapper_Wrap env (Some S) = Inr w \<Longrightarrow>
     aead_set w = S \<and> get_primary S \<noteq> None \<and> (aead_encryption_client w = None \<longleftrightarrow> MonitoringClientFactory_New env = None) \<and>
     (aead_decryption_client w = None \<longleftrightarrow> MonitoringClientFactory_New env = None)"
  by (auto simp: AeadWrapper_Wrap_def Aead_Validate_def Let_def split: if_splits option.splits sum.splits)

lemma Wrap_daead:
  "DaeadWrapper_Wrap env (Some S) = Inr w \<Longrightarrow>
     daead_set w = S \<and> get_primary S \<noteq> None \<and> (daead_encryption_client w = None \<longleftrightarrow> MonitoringClientFactory_New env = None) \<and>
     (daead_decryption_client w = None \<longleftrightarrow> MonitoringClientFactory_New env = None)"
  by (auto simp: DaeadWrapper_Wrap_def Daead_Validate_def Let_def split: if_splits option.splits sum.splits)

lemma Wrap_mac:
  "MacWrapper_Wrap env (Some S) = Inr w \<Longrightarrow>
     mac_set w = S \<and> get_primary S \<noteq> None \<and> (mac_compute_client w = None \<longleftrightarrow> MonitoringClientFactory_New env = None) \<and>
     (mac_verify_client w = None \<longleftrightarrow> MonitoringClientFactory_New env = None)"
  by (auto simp: MacWrapper_Wrap_def Mac_Validate_def Let_def split: if_splits option.splits sum.splits)

lemma Wrap_hybrid_encrypt:
  "HybridEncryptWrapper_Wrap env (Some S) = Inr w \<Longrightarrow>
     hybrid_encrypt_set w = S \<and> get_primary S \<noteq> None \<and>
     (hybrid_encryption_client w = None \<longleftrightarrow> MonitoringClientFactory_New env = None)"
  by (auto simp: HybridEncryptWrapper_Wrap_def HybridEncrypt_Validate_def Let_def split: if_splits option.splits sum.splits)

lemma Wrap_hybrid_decrypt:
  "HybridDecryptWrapper_Wrap env (Some S) = Inr w \<Longrightarrow>
     hybrid_decrypt_set w = S \<and> get_primary S \<noteq> None \<and>
     (hybrid_decryption_client w = None \<longleftrightarrow> MonitoringClientFactory_New env = None)"
  by (auto simp: HybridDecryptWrapper_Wrap_def HybridDecrypt_Validate_def Let_def split: if_splits option.splits sum.splits)

lemma Wrap_sign:
  "PublicKeySignWrapper_Wrap env (Some S) = Inr w \<Longrightarrow>
     sign_set w = S \<and> get_primary S \<noteq> None \<and> (sign_client w = None \<longleftrightarrow> MonitoringClientFactory_New env = None)"
  by (auto simp: PublicKeySignWrapper_Wrap_def Sign_Validate_def Let_def split: if_splits option.splits sum.splits)

lemma Wrap_verify:
  assumes "pset_inv S" and "PublicKeyVerifyWrapper_Wrap env (Some S) = Inr w"
  shows "verify_valid (S, w) \<and> get_primary S \<noteq> None \<and> (verify_client w = None \<longleftrightarrow> MonitoringClientFactory_New env = None)"
  using assms release_all [OF assms(1)]
  by (auto simp: PublicKeyVerifyWrapper_Wrap_def Verify_Validate_def verify_valid_def Let_def
      split: if_splits option.splits sum.splits)

text \<open>Every \<open>Wrap\<close> refuses a set without a primary, also those that only verify or encrypt.\<close>

lemma Wrap_verify_no_primary:
  "get_primary S = None \<Longrightarrow> PublicKeyVerifyWrapper_Wrap env (Some S) = Inl kInvalidArgument"
  by (simp add: PublicKeyVerifyWrapper_Wrap_def Verify_Validate_def)

text \<open>With monitoring on, \<open>Wrap\<close> of a set with a primary fails only if the client factory does.\<close>

lemma monitoring_entries_enabled:
  "\<forall>e \<in> set es. pe_status e = ENABLED \<Longrightarrow> \<exists>r. monitoring_entries name es = Inr r \<and> length r = length es"
  by (induction es) auto

lemma monitoring_info_made:
  assumes inv: "pset_inv S" and p: "get_primary S = Some e"
    and h: "distinct (hash_order env)" "set (hash_order env) = dom (ps_primitives S)"
  shows "\<exists>info. MonitoringKeySetInfoFromPrimitiveSet env S = Inr info \<and> mk_primary_key_id info = pe_key_id e \<and>
                length (mk_entries info) = length (ps_in_keyset_order S)"
proof -
  from inv have c: "classified (ps_in_keyset_order S) (ps_primitives S)" by (simp add: pset_inv_def)
  have perm: "mset (get_all (hash_order env) S) = mset (ps_in_keyset_order S)"
    using get_all_perm [OF c h] by (simp add: get_all_def)
  then have same: "set (get_all (hash_order env) S) = set (ps_in_keyset_order S)"
    "length (get_all (hash_order env) S) = length (ps_in_keyset_order S)"
    by (metis set_mset_mset, metis size_mset)
  have "get_all (hash_order env) S \<noteq> []"
    using inv p same by (auto simp: pset_inv_def get_primary_def)
  moreover have "\<forall>x \<in> set (get_all (hash_order env) S). pe_status x = ENABLED"
    using pset_entries_ok [OF inv] same by (simp add: entry_ok_def)
  ultimately show ?thesis
    using monitoring_entries_enabled [of "get_all (hash_order env) S" "OutputPrefixType_Name env"] p same
    by (auto simp: MonitoringKeySetInfoFromPrimitiveSet_def Let_def)
qed

section \<open>Wrapped keysets\<close>

text \<open>The output prefix of a key; keys that require an id but have no prefix are handled as RAW keys.\<close>

definition key_prefix :: "Key \<Rightarrow> bytes" where
  "key_prefix k =
     (if output_prefix_type k = WITH_ID_REQUIREMENT then []
      else case GetOutputPrefix (KeyInfoFromKey k) of Inl _ \<Rightarrow> [] | Inr p \<Rightarrow> p)"

text \<open>
  \<open>key_accepts\<close>: the input is the output prefix of the key and a rest (not empty, if there
  is a prefix) that the key's primitive accepts. \<open>result_by_keys\<close>: a result comes from an enabled
  key that accepts the input; an error is \<^verbatim>\<open>kInvalidArgument\<close> and means that no enabled key accepts it.
\<close>

definition key_accepts ::
    "('k, 'p) primitive_fns \<Rightarrow> (Key \<Rightarrow> 'p \<Rightarrow> bytes \<Rightarrow> 'o StatusOr) \<Rightarrow> bytes \<Rightarrow> Key \<Rightarrow> 'o \<Rightarrow> bool" where
  "key_accepts F run c k r \<longleftrightarrow>
     (\<exists>p x. get_key_primitive F k = Inr (Some p) \<and> c = key_prefix k @ x \<and> (key_prefix k = [] \<or> x \<noteq> []) \<and> run k p x = Inr r)"

definition result_by_keys ::
    "('k, 'p) primitive_fns \<Rightarrow> (Key \<Rightarrow> 'p \<Rightarrow> bytes \<Rightarrow> 'o StatusOr) \<Rightarrow> Keyset \<Rightarrow> bytes \<Rightarrow> 'o StatusOr \<Rightarrow> bool" where
  "result_by_keys F run ks c res \<longleftrightarrow>
     (case res of
        Inr r \<Rightarrow> \<exists>k \<in> set (enabled_keys ks). key_accepts F run c k r
      | Inl e \<Rightarrow> e = kInvalidArgument \<and> (\<forall>k \<in> set (enabled_keys ks). \<forall>r. \<not> key_accepts F run c k r))"

lemma result_by_keys_unique:
  assumes "result_by_keys F run ks c res" and "k \<in> set (enabled_keys ks)" and "key_accepts F run c k r"
    and "\<forall>k' \<in> set (enabled_keys ks). \<forall>r'. key_accepts F run c k' r' \<longrightarrow> r' = r"
  shows "res = Inr r"
proof (cases res)
  case (Inl e)
  with assms(1-3) show ?thesis unfolding result_by_keys_def by simp
next
  case (Inr r')
  with assms(1) obtain k' where "k' \<in> set (enabled_keys ks)" "key_accepts F run c k' r'"
    unfolding result_by_keys_def by auto
  with assms(4) Inr show ?thesis by blast
qed

lemma made_set:
  assumes "make_primitive_set F ks a = Inr S"
  shows "pset_inv S \<and> list_all2 (key_entry F) (enabled_keys ks) (ps_in_keyset_order S) \<and> primary_of_keyset ks S"
  using make_primitive_set_needs [OF assms] make_primitive_set_succeeds [of ks F a] assms
  by (auto simp: get_all_in_keyset_order_def)

lemma list_all2_ex2: "\<lbrakk>list_all2 P xs ys; y \<in> set ys\<rbrakk> \<Longrightarrow> \<exists>x \<in> set xs. P x y"
  by (induction rule: list_all2_induct) auto

lemma list_all2_ex1: "\<lbrakk>list_all2 P xs ys; x \<in> set xs\<rbrakk> \<Longrightarrow> \<exists>y \<in> set ys. P x y"
  by (induction rule: list_all2_induct) auto

lemma key_entry_prefix:
  assumes "key_entry F k e" and "entry_ok e"
  shows "pe_identifier e = key_prefix k"
  using assms
  by (auto simp: key_entry_def entry_ok_def key_prefix_def GetOutputPrefix_def KeyInfoFromKey_def
      split: OutputPrefixType.splits if_splits)

lemma candidates_of_keys:
  assumes S: "make_primitive_set F ks a = Inr S"
    and run: "\<And>k e x. key_entry F k e \<Longrightarrow> run k (pe_primitive e) x = accept e x"
  shows "(\<exists>(e, x) \<in> set (candidates (ps_in_keyset_order S) c). accept e x = Inr r) \<longleftrightarrow>
         (\<exists>k \<in> set (enabled_keys ks). key_accepts F run c k r)"
proof -
  from made_set [OF S] have inv: "pset_inv S" and all: "list_all2 (key_entry F) (enabled_keys ks) (ps_in_keyset_order S)"
    by auto
  note ok = pset_entries_ok [OF inv]
  show ?thesis
  proof
    assume "\<exists>(e, x) \<in> set (candidates (ps_in_keyset_order S) c). accept e x = Inr r"
    then obtain e x where e: "e \<in> set (ps_in_keyset_order S)" "c = pe_identifier e @ x" "pe_identifier e = [] \<or> x \<noteq> []" "accept e x = Inr r"
      by (auto simp: candidates_iff [OF ok])
    from list_all2_ex2 [OF all e(1)] obtain k where k: "k \<in> set (enabled_keys ks)" "key_entry F k e"
      by blast
    with e ok run [OF k(2)] key_entry_prefix [OF k(2)] show "\<exists>k \<in> set (enabled_keys ks). key_accepts F run c k r"
      by (auto simp: key_accepts_def key_entry_def intro!: bexI [of _ k])
  next
    assume "\<exists>k \<in> set (enabled_keys ks). key_accepts F run c k r"
    then obtain k p x where k: "k \<in> set (enabled_keys ks)" "get_key_primitive F k = Inr (Some p)" "c = key_prefix k @ x"
      "key_prefix k = [] \<or> x \<noteq> []" "run k p x = Inr r" by (auto simp: key_accepts_def)
    from list_all2_ex1 [OF all k(1)] obtain e where e: "e \<in> set (ps_in_keyset_order S)" "key_entry F k e"
      by blast
    with k ok run [OF e(2)] key_entry_prefix [OF e(2)]
    show "\<exists>(e, x) \<in> set (candidates (ps_in_keyset_order S) c). accept e x = Inr r"
      by (auto simp: candidates_iff [OF ok] key_entry_def intro!: bexI [of _ "(e, x)"])
  qed
qed

lemma result_by_keysI:
  assumes S: "make_primitive_set F ks a = Inr S"
    and run: "\<And>k e x. key_entry F k e \<Longrightarrow> run k (pe_primitive e) x = accept e x"
    and dich: "(\<exists>r. res = Inr r \<and> (\<exists>(e, x) \<in> set (candidates (ps_in_keyset_order S) c). accept e x = Inr r)) \<or>
               res = Inl kInvalidArgument \<and> (\<forall>(e, x) \<in> set (candidates (ps_in_keyset_order S) c). isl (accept e x))"
  shows "result_by_keys F run ks c res"
proof -
  have iff: "(\<exists>(e, x) \<in> set (candidates (ps_in_keyset_order S) c). accept e x = Inr r) \<longleftrightarrow>
         (\<exists>k \<in> set (enabled_keys ks). key_accepts F run c k r)" for r
    by (rule candidates_of_keys [OF S]) (rule run)
  from dich show ?thesis
  proof
    assume none: "res = Inl kInvalidArgument \<and> (\<forall>(e, x) \<in> set (candidates (ps_in_keyset_order S) c). isl (accept e x))"
    then have "\<not> (\<exists>(e, x) \<in> set (candidates (ps_in_keyset_order S) c). accept e x = Inr r)" for r by force
    with iff none show ?thesis by (simp add: result_by_keys_def)
  qed (use iff in \<open>auto simp: result_by_keys_def\<close>)
qed

lemma KeysetWrapperImpl_Wrap_made:
  "KeysetWrapperImpl_Wrap F wrap ks a = Inr w \<Longrightarrow> \<exists>S. make_primitive_set F ks a = Inr S \<and> wrap S = Inr w"
  by (auto simp: KeysetWrapperImpl_Wrap_def split: sum.splits)

definition aead_of_keyset ::
    "('k, AeadFns) primitive_fns \<Rightarrow> 'c wrap_env \<Rightarrow> Keyset \<Rightarrow> annotations \<Rightarrow> 'c AeadSetWrapper StatusOr" where
  "aead_of_keyset F env = KeysetWrapperImpl_Wrap F (\<lambda>S. AeadWrapper_Wrap env (Some S))"

definition daead_of_keyset ::
    "('k, DaeadFns) primitive_fns \<Rightarrow> 'c wrap_env \<Rightarrow> Keyset \<Rightarrow> annotations \<Rightarrow> 'c DaeadSetWrapper StatusOr" where
  "daead_of_keyset F env = KeysetWrapperImpl_Wrap F (\<lambda>S. DaeadWrapper_Wrap env (Some S))"

definition hybrid_decrypt_of_keyset ::
    "('k, HybridDecrypt) primitive_fns \<Rightarrow> 'c wrap_env \<Rightarrow> Keyset \<Rightarrow> annotations \<Rightarrow> 'c HybridDecryptSetWrapper StatusOr" where
  "hybrid_decrypt_of_keyset F env = KeysetWrapperImpl_Wrap F (\<lambda>S. HybridDecryptWrapper_Wrap env (Some S))"

definition mac_of_keyset ::
    "('k, MacFns) primitive_fns \<Rightarrow> 'c wrap_env \<Rightarrow> Keyset \<Rightarrow> annotations \<Rightarrow> 'c MacSetWrapper StatusOr" where
  "mac_of_keyset F env = KeysetWrapperImpl_Wrap F (\<lambda>S. MacWrapper_Wrap env (Some S))"

definition sign_of_keyset ::
    "('k, PublicKeySign) primitive_fns \<Rightarrow> 'c wrap_env \<Rightarrow> Keyset \<Rightarrow> annotations \<Rightarrow> 'c PublicKeySignSetWrapper StatusOr" where
  "sign_of_keyset F env = KeysetWrapperImpl_Wrap F (\<lambda>S. PublicKeySignWrapper_Wrap env (Some S))"

definition verify_of_keyset ::
    "('k, PublicKeyVerify) primitive_fns \<Rightarrow> 'c wrap_env \<Rightarrow> Keyset \<Rightarrow> annotations \<Rightarrow> 'c PublicKeyVerifySetWrapper StatusOr" where
  "verify_of_keyset F env = KeysetWrapperImpl_Wrap F (\<lambda>S. PublicKeyVerifyWrapper_Wrap env (Some S))"

lemma aead_result:
  assumes "aead_of_keyset F env ks a = Inr w"
  shows "result_by_keys F (\<lambda>k p x. aead_Decrypt p x ad) ks c (fst (AeadSetWrapper_Decrypt w c ad))"
proof -
  obtain S where S: "make_primitive_set F ks a = Inr S" and w: "aead_set w = S"
    using KeysetWrapperImpl_Wrap_made [OF assms [unfolded aead_of_keyset_def]] Wrap_aead by metis
  from made_set [OF S] w aead.consume_dichotomy [of w c ad] show ?thesis
    by (intro result_by_keysI [OF S, where accept = "\<lambda>e x. aead_Decrypt (pe_primitive e) x ad"]) auto
qed

lemma daead_result:
  assumes "daead_of_keyset F env ks a = Inr w"
  shows "result_by_keys F (\<lambda>k p x. DecryptDeterministically p x ad) ks c (fst (DaeadSetWrapper_Decrypt w c ad))"
proof -
  obtain S where S: "make_primitive_set F ks a = Inr S" and w: "daead_set w = S"
    using KeysetWrapperImpl_Wrap_made [OF assms [unfolded daead_of_keyset_def]] Wrap_daead by metis
  from made_set [OF S] w daead.consume_dichotomy [of w c ad] show ?thesis
    by (intro result_by_keysI [OF S, where accept = "\<lambda>e x. DecryptDeterministically (pe_primitive e) x ad"]) auto
qed

lemma hybrid_result:
  assumes "hybrid_decrypt_of_keyset F env ks a = Inr w"
  shows "result_by_keys F (\<lambda>k p x. p x ad) ks c (fst (HybridDecryptSetWrapper_Decrypt w c ad))"
proof -
  obtain S where S: "make_primitive_set F ks a = Inr S" and w: "hybrid_decrypt_set w = S"
    using KeysetWrapperImpl_Wrap_made [OF assms [unfolded hybrid_decrypt_of_keyset_def]] Wrap_hybrid_decrypt by metis
  from made_set [OF S] w hybrid.consume_dichotomy [of w c ad] show ?thesis
    by (intro result_by_keysI [OF S, where accept = "\<lambda>e x. pe_primitive e x ad"]) auto
qed

lemma mac_result:
  assumes "mac_of_keyset F env ks a = Inr w"
  shows "result_by_keys F (\<lambda>k p x. mac_VerifyMac p x (legacy_data (output_prefix_type k) data)) ks c
           (fst (MacSetWrapper_VerifyMac w c data))"
proof -
  obtain S where S: "make_primitive_set F ks a = Inr S" and w: "mac_set w = S"
    using KeysetWrapperImpl_Wrap_made [OF assms [unfolded mac_of_keyset_def]] Wrap_mac by metis
  from made_set [OF S] w mac.consume_dichotomy [of w c data] show ?thesis
    by (intro result_by_keysI [OF S,
          where accept = "\<lambda>e x. mac_VerifyMac (pe_primitive e) x (legacy_data (pe_output_prefix_type e) data)"])
      (auto simp: key_entry_def)
qed

lemma verify_result:
  assumes "verify_of_keyset F env ks a = Inr w"
  shows "if length c \<le> kNonRawPrefixSize then fst (PublicKeyVerifySetWrapper_Verify w c data) = Inl kInvalidArgument
         else result_by_keys F (\<lambda>k p x. p x (legacy_data (output_prefix_type k) data)) ks c
                (fst (PublicKeyVerifySetWrapper_Verify w c data))"
proof (cases "length c \<le> kNonRawPrefixSize")
  case True
  then show ?thesis by (simp add: PublicKeyVerifySetWrapper_Verify_def)
next
  case False
  obtain S where S: "make_primitive_set F ks a = Inr S" and wrap: "PublicKeyVerifyWrapper_Wrap env (Some S) = Inr w"
    using KeysetWrapperImpl_Wrap_made [OF assms [unfolded verify_of_keyset_def]] by metis
  from made_set [OF S] have "verify_valid (S, w)" using Wrap_verify [OF _ wrap] by simp
  from verify.consume_dichotomy [OF this, of c data] False
  have "result_by_keys F (\<lambda>k p x. p x (legacy_data (output_prefix_type k) data)) ks c
          (fst (PublicKeyVerifySetWrapper_Verify w c data))"
    by (intro result_by_keysI [OF S, where accept = "\<lambda>e x. pe_primitive e x (legacy_data (pe_output_prefix_type e) data)"])
      (auto simp: key_entry_def verify_candidates_def)
  with False show ?thesis by simp
qed

lemma made_primary:
  assumes S: "make_primitive_set F ks a = Inr S" and k: "k \<in> set (enabled_keys ks)" "key_id k = primary_key_id ks"
  shows "\<exists>e. get_primary S = Some e \<and> key_entry F k e \<and> pe_identifier e = key_prefix k"
proof -
  from made_set [OF S] have all: "list_all2 (key_entry F) (enabled_keys ks) (ps_in_keyset_order S)"
    and inv: "pset_inv S" and prim: "primary_of_keyset ks S" by auto
  from list_all2_ex1 [OF all k(1)] obtain e where e: "e \<in> set (ps_in_keyset_order S)" "key_entry F k e" by blast
  from prim k obtain e' where e': "get_primary S = Some e'"
    "filter (\<lambda>e. pe_key_id e = primary_key_id ks) (ps_in_keyset_order S) = [e']"
    by (auto simp: primary_of_keyset_def get_all_in_keyset_order_def split: option.splits)
  have "e \<in> set (filter (\<lambda>e. pe_key_id e = primary_key_id ks) (ps_in_keyset_order S))"
    using e k(2) by (simp add: key_entry_def)
  with e' have "e = e'" by simp
  with e e' key_entry_prefix [OF e(2)] pset_entries_ok [OF inv] show ?thesis by blast
qed

lemma aead_encrypts:
  assumes w: "aead_of_keyset F env ks a = Inr w" and k: "k \<in> set (enabled_keys ks)" "key_id k = primary_key_id ks"
    and p: "get_key_primitive F k = Inr (Some p)" "aead_Encrypt p pt ad = Inr raw"
  shows "\<exists>log. AeadSetWrapper_Encrypt w pt ad = Some (Inr (key_prefix k @ raw), log)"
proof -
  obtain S where S: "make_primitive_set F ks a = Inr S" and w: "aead_set w = S"
    using KeysetWrapperImpl_Wrap_made [OF w [unfolded aead_of_keyset_def]] Wrap_aead by metis
  from made_primary [OF S k] p w show ?thesis by (auto simp: AeadSetWrapper_Encrypt_def key_entry_def)
qed

lemma mac_computes:
  assumes w: "mac_of_keyset F env ks a = Inr w" and k: "k \<in> set (enabled_keys ks)" "key_id k = primary_key_id ks"
    and p: "get_key_primitive F k = Inr (Some p)" "mac_ComputeMac p (legacy_data (output_prefix_type k) data) = Inr raw"
  shows "\<exists>log. MacSetWrapper_ComputeMac w data = Some (Inr (key_prefix k @ raw), log)"
proof -
  obtain S where S: "make_primitive_set F ks a = Inr S" and w: "mac_set w = S"
    using KeysetWrapperImpl_Wrap_made [OF w [unfolded mac_of_keyset_def]] Wrap_mac by metis
  from made_primary [OF S k] p w show ?thesis by (auto simp: MacSetWrapper_ComputeMac_def key_entry_def Let_def)
qed

lemma sign_signs:
  assumes w: "sign_of_keyset F env ks a = Inr w" and k: "k \<in> set (enabled_keys ks)" "key_id k = primary_key_id ks"
    and p: "get_key_primitive F k = Inr (Some p)" "p (legacy_data (output_prefix_type k) data) = Inr raw"
  shows "\<exists>log. PublicKeySignSetWrapper_Sign w data = Some (Inr (key_prefix k @ raw), log)"
proof -
  obtain S where S: "make_primitive_set F ks a = Inr S" and w: "sign_set w = S"
    using KeysetWrapperImpl_Wrap_made [OF w [unfolded sign_of_keyset_def]] Wrap_sign by metis
  from made_primary [OF S k] p w show ?thesis by (auto simp: PublicKeySignSetWrapper_Sign_def key_entry_def Let_def)
qed

section \<open>Properties\<close>

text \<open>A primitive per key: the ciphertext is the key value, the associated data and the plaintext.\<close>

definition toy_aead :: "bytes \<Rightarrow> AeadFns" where
  "toy_aead kv =
     \<lparr>aead_Encrypt = (\<lambda>pt ad. Inr (kv @ ad @ pt)),
      aead_Decrypt = (\<lambda>c ad. if take (length (kv @ ad)) c = kv @ ad then Inr (drop (length (kv @ ad)) c) else Inl kInvalidArgument)\<rparr>"

definition toy_mac :: "bytes \<Rightarrow> MacFns" where
  "toy_mac kv =
     \<lparr>mac_ComputeMac = (\<lambda>d. Inr (kv @ d)),
      mac_VerifyMac = (\<lambda>m d. if m = kv @ d then OkStatus else Inl kInvalidArgument)\<rparr>"

definition by_key_value :: "(bytes \<Rightarrow> 'p) \<Rightarrow> (bytes, 'p) primitive_fns" where
  "by_key_value mk =
     \<lparr>ParseKey = (\<lambda>s. Inr (pks_serialized_key s)), primitive_getter_from_key = (\<lambda>kv. Inr (Some (mk kv))),
      primitive_getter = (\<lambda>d. Inl kNotFound)\<rparr>"

definition no_monitoring :: "unit wrap_env" where
  "no_monitoring = \<lparr>MonitoringClientFactory_New = None, hash_order = [], OutputPrefixType_Name = (\<lambda>t. [])\<rparr>"

definition rotation_key :: "u32 \<Rightarrow> OutputPrefixType \<Rightarrow> Key" where
  "rotation_key i prefix =
     \<lparr>key_data = Some \<lparr>type_url = [65], key_value = [ucast i], key_material_type = SYMMETRIC\<rparr>,
      status = ENABLED, key_id = i, output_prefix_type = prefix\<rparr>"

definition keyset_before :: Keyset where
  "keyset_before = \<lparr>primary_key_id = 7, keys = [rotation_key 7 LEGACY]\<rparr>"

definition keyset_after :: Keyset where
  "keyset_after = \<lparr>primary_key_id = 9, keys = [rotation_key 9 RAW, rotation_key 7 LEGACY]\<rparr>"

lemma by_key_value_primitive: "get_key_primitive (by_key_value mk) (rotation_key i prefix) = Inr (Some (mk [ucast i]))"
  by (simp add: by_key_value_def get_key_primitive_def ProtoKeySerialization_Create_def rotation_key_def get_key_data_def
      value_or_def IsPrintableAscii_def)

lemma rotation_key_simps [simp]:
  "key_id (rotation_key i prefix) = i" "status (rotation_key i prefix) = ENABLED"
  "output_prefix_type (rotation_key i prefix) = prefix"
  by (simp_all add: rotation_key_def)

lemma rotation_keysets:
  "enabled_keys keyset_before = [rotation_key 7 LEGACY]" "enabled_keys keyset_after = [rotation_key 9 RAW, rotation_key 7 LEGACY]"
  "primary_key_id keyset_before = 7"
  by (simp_all add: enabled_keys_def keyset_before_def keyset_after_def)

lemma rotation_keysets_valid: "ValidateKeyset keyset_before = OkStatus" "ValidateKeyset keyset_after = OkStatus"
  by (simp_all add: ValidateKeyset_iff rotation_keysets ValidateKey_def)
    (simp_all add: rotation_key_def keyset_before_def keyset_after_def)

lemma rotation_prefixes: "key_prefix (rotation_key 9 RAW) = []" "key_prefix (rotation_key 7 LEGACY) = [0, 0, 0, 0, 7]"
  by (simp_all add: key_prefix_def GetOutputPrefix_def KeyInfoFromKey_def kRawPrefix_def kLegacyStartByte_def StoreBigEndian32_def)

lemma wrapped_rotation_set:
  assumes "ks \<in> {keyset_before, keyset_after}"
  shows "\<exists>S e. make_primitive_set (by_key_value mk) ks a = Inr S \<and> get_primary S = Some e"
proof -
  have v: "ValidateKeyset ks = OkStatus" using assms rotation_keysets_valid by auto
  have add: "\<forall>k \<in> set (enabled_keys ks). addable (by_key_value mk) k"
    using assms by (auto simp: rotation_keysets addable_def by_key_value_primitive)
  obtain S where S: "make_primitive_set (by_key_value mk) ks a = Inr S"
    using make_primitive_set_succeeds [OF v add] by blast
  have "\<exists>k \<in> set (enabled_keys ks). key_id k = primary_key_id ks"
    using assms by (auto simp: rotation_keysets) (simp_all add: keyset_after_def)
  with S made_primary [OF S] show ?thesis by blast
qed

lemma toy_aead_wrapped:
  assumes "ks \<in> {keyset_before, keyset_after}"
  shows "\<exists>w. aead_of_keyset (by_key_value toy_aead) no_monitoring ks [] = Inr w"
  using wrapped_rotation_set [OF assms, of toy_aead "[]"]
  by (auto simp: aead_of_keyset_def KeysetWrapperImpl_Wrap_def AeadWrapper_Wrap_def Aead_Validate_def no_monitoring_def)

text \<open>
  (C20) Key rotation: what the AEAD of a keyset encrypts with its primary key, the AEAD of any
  later keyset decrypts, as long as the key is still in it and enabled, whatever other keys it has,
  whichever is its primary and whichever is monitored. The ciphertext is the output prefix of the
  key followed by what the key's primitive encrypts. It is assumed that the key's primitive
  decrypts what it encrypts, that its ciphertexts are not empty, and that no key of the later
  keyset accepts the ciphertext and decrypts it to something else.
\<close>

theorem aead_key_rotation:
  assumes "aead_of_keyset F env ks a = Inr w" and "aead_of_keyset F env' ks' a' = Inr w'"
    and "k \<in> set (enabled_keys ks)" and "key_id k = primary_key_id ks" and "k \<in> set (enabled_keys ks')"
    and "get_key_primitive F k = Inr (Some p)"
    and "aead_Encrypt p pt ad = Inr raw" and "raw \<noteq> []" and "aead_Decrypt p raw ad = Inr pt"
    and "\<forall>k' \<in> set (enabled_keys ks'). \<forall>r. key_accepts F (\<lambda>k p x. aead_Decrypt p x ad) (key_prefix k @ raw) k' r \<longrightarrow> r = pt"
  shows "(\<exists>log. AeadSetWrapper_Encrypt w pt ad = Some (Inr (key_prefix k @ raw), log)) \<and>
         fst (AeadSetWrapper_Decrypt w' (key_prefix k @ raw) ad) = Inr pt"
proof
  show "\<exists>log. AeadSetWrapper_Encrypt w pt ad = Some (Inr (key_prefix k @ raw), log)"
    using aead_encrypts assms(1,3,4,6,7) by blast
  have "key_accepts F (\<lambda>k p x. aead_Decrypt p x ad) (key_prefix k @ raw) k pt"
    using assms(6,8,9) by (auto simp: key_accepts_def)
  then show "fst (AeadSetWrapper_Decrypt w' (key_prefix k @ raw) ad) = Inr pt"
    by (rule result_by_keys_unique [OF aead_result [OF assms(2)] assms(5) _ assms(10)])
qed

theorem aead_key_rotation_witness:
  "\<exists>w w'. aead_of_keyset (by_key_value toy_aead) no_monitoring keyset_before [] = Inr w \<and>
          aead_of_keyset (by_key_value toy_aead) no_monitoring keyset_after [] = Inr w' \<and>
          fst (AeadSetWrapper_Decrypt w' [0, 0, 0, 0, 7, 7, 1, 42] [1]) = Inr [42]"
proof -
  let ?F = "by_key_value toy_aead"
  obtain w w' where w: "aead_of_keyset ?F no_monitoring keyset_before [] = Inr w"
    and w': "aead_of_keyset ?F no_monitoring keyset_after [] = Inr w'"
    using toy_aead_wrapped by blast
  have auth: "\<forall>k' \<in> set (enabled_keys keyset_after). \<forall>r.
      key_accepts ?F (\<lambda>k p x. aead_Decrypt p x [1]) (key_prefix (rotation_key 7 LEGACY) @ [7, 1, 42]) k' r \<longrightarrow> r = [42]"
    by (simp add: rotation_keysets key_accepts_def by_key_value_primitive rotation_prefixes toy_aead_def)
  have "fst (AeadSetWrapper_Decrypt w' (key_prefix (rotation_key 7 LEGACY) @ [7, 1, 42]) [1]) = Inr [42]"
    using aead_key_rotation [OF w w' _ _ _ by_key_value_primitive _ _ _ auth]
    by (simp add: rotation_keysets toy_aead_def)
  with w w' show ?thesis by (simp add: rotation_prefixes)
qed

text \<open>
  (C21) What the AEAD, deterministic AEAD and hybrid decryption wrappers of a keyset decrypt: the
  result is the plaintext an enabled key's primitive returns for the input without the output
  prefix of that key, which the input starts with; the error is \<^verbatim>\<open>kInvalidArgument\<close>, and
  there is one exactly when no enabled key accepts the input so.
\<close>

theorem decrypt_accepts_exactly:
  "(aead_of_keyset Fa env ks a = Inr wa \<longrightarrow>
      result_by_keys Fa (\<lambda>k p x. aead_Decrypt p x ad) ks c (fst (AeadSetWrapper_Decrypt wa c ad))) \<and>
   (daead_of_keyset Fd env ks a = Inr wd \<longrightarrow>
      result_by_keys Fd (\<lambda>k p x. DecryptDeterministically p x ad) ks c (fst (DaeadSetWrapper_Decrypt wd c ad))) \<and>
   (hybrid_decrypt_of_keyset Fh env ks a = Inr wh \<longrightarrow>
      result_by_keys Fh (\<lambda>k p x. p x ad) ks c (fst (HybridDecryptSetWrapper_Decrypt wh c ad)))"
  by (intro conjI impI; rule aead_result daead_result hybrid_result; assumption)

theorem decrypt_accepts_exactly_witness:
  "\<exists>w. aead_of_keyset (by_key_value toy_aead) no_monitoring keyset_before [] = Inr w \<and>
       fst (AeadSetWrapper_Decrypt w [7, 1, 42] [1]) = Inl kInvalidArgument"
proof -
  let ?F = "by_key_value toy_aead"
  obtain w where w: "aead_of_keyset ?F no_monitoring keyset_before [] = Inr w"
    using toy_aead_wrapped by blast
  then have "result_by_keys ?F (\<lambda>k p x. aead_Decrypt p x [1]) keyset_before [7, 1, 42] (fst (AeadSetWrapper_Decrypt w [7, 1, 42] [1]))"
    using decrypt_accepts_exactly [of ?F no_monitoring keyset_before "[]" w "[1]" "[7, 1, 42]"] by blast
  with w show ?thesis
    by (auto simp: result_by_keys_def rotation_keysets key_accepts_def rotation_prefixes split: sum.splits)
qed

text \<open>
  (C22) What the MAC and signature verification wrappers of a keyset accept: an input that starts with
  the output prefix of an enabled key and whose rest the key's primitive accepts for the data,
  followed by a zero byte for LEGACY keys; everything else is refused with \<^verbatim>\<open>kInvalidArgument\<close>. A
  signature of at most five bytes is refused even if a RAW key would accept it.
\<close>

theorem verify_accepts_exactly:
  "(mac_of_keyset Fm env ks a = Inr wm \<longrightarrow>
      result_by_keys Fm (\<lambda>k p x. mac_VerifyMac p x (legacy_data (output_prefix_type k) data)) ks c
        (fst (MacSetWrapper_VerifyMac wm c data))) \<and>
   (verify_of_keyset Fv env ks a = Inr wv \<longrightarrow>
      (if length c \<le> kNonRawPrefixSize then fst (PublicKeyVerifySetWrapper_Verify wv c data) = Inl kInvalidArgument
       else result_by_keys Fv (\<lambda>k p x. p x (legacy_data (output_prefix_type k) data)) ks c
              (fst (PublicKeyVerifySetWrapper_Verify wv c data))))"
  by (intro conjI impI; rule mac_result verify_result; assumption)

lemma toy_mac_wrapped:
  assumes "ks \<in> {keyset_before, keyset_after}"
  shows "\<exists>w. mac_of_keyset (by_key_value toy_mac) no_monitoring ks [] = Inr w"
  using wrapped_rotation_set [OF assms, of toy_mac "[]"]
  by (auto simp: mac_of_keyset_def KeysetWrapperImpl_Wrap_def MacWrapper_Wrap_def Mac_Validate_def no_monitoring_def)

theorem verify_accepts_exactly_witness:
  "\<exists>w. mac_of_keyset (by_key_value toy_mac) no_monitoring keyset_after [] = Inr w \<and>
       fst (MacSetWrapper_VerifyMac w [9, 42] [42]) = OkStatus"
proof -
  let ?F = "by_key_value toy_mac"
  obtain w where w: "mac_of_keyset ?F no_monitoring keyset_after [] = Inr w"
    using toy_mac_wrapped by blast
  then have "result_by_keys ?F (\<lambda>k p x. mac_VerifyMac p x (legacy_data (output_prefix_type k) [42])) keyset_after [9, 42]
       (fst (MacSetWrapper_VerifyMac w [9, 42] [42]))"
    using verify_accepts_exactly [of ?F no_monitoring keyset_after "[]" w "[42]" "[9, 42]"] by blast
  with w show ?thesis
    by (auto simp: result_by_keys_def rotation_keysets key_accepts_def rotation_prefixes by_key_value_primitive toy_mac_def
        legacy_data_def split: sum.splits)
qed

text \<open>
  (C23) A tag or a signature made with a keyset is accepted by every keyset that still has the key.
  The MAC of the first keyset computes the output prefix of its primary key followed by the tag
  that key's primitive computes, and the MAC of any keyset in which the key is enabled accepts it
  for the same data. The signatures of a private keyset are accepted by every
  keyset that has the matching public key, enabled and with the same prefix, if they are longer
  than five bytes. LEGACY keys included, the data the primitives see is the same on both sides.
\<close>

theorem mac_and_signature_rotation:
  "(mac_of_keyset F env ks a = Inr w \<and> mac_of_keyset F env' ks' a' = Inr w' \<and>
    k \<in> set (enabled_keys ks) \<and> key_id k = primary_key_id ks \<and> k \<in> set (enabled_keys ks') \<and>
    get_key_primitive F k = Inr (Some p) \<and> raw \<noteq> [] \<and>
    mac_ComputeMac p (legacy_data (output_prefix_type k) data) = Inr raw \<and>
    mac_VerifyMac p raw (legacy_data (output_prefix_type k) data) = OkStatus
    \<longrightarrow> (\<exists>log. MacSetWrapper_ComputeMac w data = Some (Inr (key_prefix k @ raw), log)) \<and>
        fst (MacSetWrapper_VerifyMac w' (key_prefix k @ raw) data) = OkStatus) \<and>
   (sign_of_keyset Fs env ks a = Inr ws \<and> verify_of_keyset Fv env' ks' a' = Inr wv \<and>
    k \<in> set (enabled_keys ks) \<and> key_id k = primary_key_id ks \<and> k' \<in> set (enabled_keys ks') \<and>
    key_id k' = key_id k \<and> output_prefix_type k' = output_prefix_type k \<and>
    get_key_primitive Fs k = Inr (Some sign) \<and> get_key_primitive Fv k' = Inr (Some verify) \<and>
    raw \<noteq> [] \<and> kNonRawPrefixSize < length (key_prefix k @ raw) \<and>
    sign (legacy_data (output_prefix_type k) data) = Inr raw \<and>
    verify raw (legacy_data (output_prefix_type k) data) = OkStatus
    \<longrightarrow> (\<exists>log. PublicKeySignSetWrapper_Sign ws data = Some (Inr (key_prefix k @ raw), log)) \<and>
        fst (PublicKeyVerifySetWrapper_Verify wv (key_prefix k @ raw) data) = OkStatus)"
proof (intro conjI impI; elim conjE)
  assume w: "mac_of_keyset F env ks a = Inr w" "mac_of_keyset F env' ks' a' = Inr w'"
    and k: "k \<in> set (enabled_keys ks)" "key_id k = primary_key_id ks" "k \<in> set (enabled_keys ks')"
    and p: "get_key_primitive F k = Inr (Some p)" "raw \<noteq> []" "mac_ComputeMac p (legacy_data (output_prefix_type k) data) = Inr raw"
      "mac_VerifyMac p raw (legacy_data (output_prefix_type k) data) = OkStatus"
  show "\<exists>log. MacSetWrapper_ComputeMac w data = Some (Inr (key_prefix k @ raw), log)"
    by (rule mac_computes [OF w(1) k(1,2) p(1,3)])
  show "fst (MacSetWrapper_VerifyMac w' (key_prefix k @ raw) data) = OkStatus"
    using p by (intro result_by_keys_unique [OF mac_result [OF w(2)] k(3)]) (auto simp: key_accepts_def)
next
  assume w: "sign_of_keyset Fs env ks a = Inr ws" "verify_of_keyset Fv env' ks' a' = Inr wv"
    and k: "k \<in> set (enabled_keys ks)" "key_id k = primary_key_id ks" "k' \<in> set (enabled_keys ks')"
      "key_id k' = key_id k" "output_prefix_type k' = output_prefix_type k"
    and p: "get_key_primitive Fs k = Inr (Some sign)" "sign (legacy_data (output_prefix_type k) data) = Inr raw"
    and v: "get_key_primitive Fv k' = Inr (Some verify)" "raw \<noteq> []" "kNonRawPrefixSize < length (key_prefix k @ raw)"
      "verify raw (legacy_data (output_prefix_type k) data) = OkStatus"
  show "\<exists>log. PublicKeySignSetWrapper_Sign ws data = Some (Inr (key_prefix k @ raw), log)"
    by (rule sign_signs [OF w(1) k(1,2) p])
  have same: "key_prefix k' = key_prefix k"
    using k(4,5) by (cases "output_prefix_type k") (simp_all add: key_prefix_def GetOutputPrefix_def KeyInfoFromKey_def)
  have "result_by_keys Fv (\<lambda>k p x. p x (legacy_data (output_prefix_type k) data)) ks' (key_prefix k @ raw)
          (fst (PublicKeyVerifySetWrapper_Verify wv (key_prefix k @ raw) data))"
    using verify_result [OF w(2), of "key_prefix k @ raw" data] v(3) by (simp split: if_splits)
  then show "fst (PublicKeyVerifySetWrapper_Verify wv (key_prefix k @ raw) data) = OkStatus"
    using v k(5) same by (intro result_by_keys_unique [OF _ k(3)]) (auto simp: key_accepts_def)
qed

theorem mac_and_signature_rotation_witness:
  "\<exists>w. mac_of_keyset (by_key_value toy_mac) no_monitoring keyset_after [] = Inr w \<and>
       fst (MacSetWrapper_VerifyMac w [0, 0, 0, 0, 7, 7, 42, 0] [42]) = OkStatus"
proof -
  let ?F = "by_key_value toy_mac"
  obtain w w' where w: "mac_of_keyset ?F no_monitoring keyset_before [] = Inr w"
    and w': "mac_of_keyset ?F no_monitoring keyset_after [] = Inr w'"
    using toy_mac_wrapped by blast
  have "fst (MacSetWrapper_VerifyMac w' (key_prefix (rotation_key 7 LEGACY) @ [7, 42, 0]) [42]) = OkStatus"
    by (rule mac_and_signature_rotation [where k = "rotation_key 7 LEGACY" and p = "toy_mac [7]" and F = ?F and
          ks = keyset_before and ks' = keyset_after and w = w, THEN conjunct1, THEN mp, THEN conjunct2])
      (use w w' in \<open>simp add: rotation_keysets by_key_value_primitive toy_mac_def legacy_data_def kLegacyStartByte_def\<close>)
  with w' show ?thesis by (auto simp: rotation_prefixes)
qed

text \<open>\<open>reports\<close>: the client, if there is one, gets one event, a failure exactly if the operation failed.\<close>

definition reports :: "'c option \<Rightarrow> 'o StatusOr \<times> 'c log \<Rightarrow> bool" where
  "reports client res \<longleftrightarrow> (\<exists>ev. snd res = log_to client ev \<and> (ev = LogFailure \<longleftrightarrow> isl (fst res)))"

lemma reports_simps [simp]:
  "reports client (Inl e, log_to client LogFailure)" "reports client (Inr r, log_to client (Log i n))"
  by (auto simp: reports_def)

text \<open>
  (C24) Monitoring: every call of the operations of the AEAD, deterministic AEAD, MAC, signing,
  hybrid encryption and PRF wrappers sends exactly one event to its client, if there is one: a failure
  if the call fails and a success otherwise. Two operations differ. Hybrid decryption sends nothing
  when a RAW key decrypts, and signature verification sends nothing when
  the signature has at most five bytes.
\<close>

theorem monitoring_events:
  "(AeadSetWrapper_Encrypt wa pt ad = Some ra \<longrightarrow> reports (aead_encryption_client wa) ra) \<and>
   reports (aead_decryption_client wa) (AeadSetWrapper_Decrypt wa c ad) \<and>
   (DaeadSetWrapper_Encrypt wd pt ad = Some rd \<longrightarrow> reports (daead_encryption_client wd) rd) \<and>
   reports (daead_decryption_client wd) (DaeadSetWrapper_Decrypt wd c ad) \<and>
   (MacSetWrapper_ComputeMac wm data = Some rm \<longrightarrow> reports (mac_compute_client wm) rm) \<and>
   reports (mac_verify_client wm) (MacSetWrapper_VerifyMac wm c data) \<and>
   (PublicKeySignSetWrapper_Sign ws data = Some rs \<longrightarrow> reports (sign_client ws) rs) \<and>
   (HybridEncryptSetWrapper_Encrypt we pt ad = Some re \<longrightarrow> reports (hybrid_encryption_client we) re) \<and>
   reports (mp_client m) (MonitoredPrf_Compute m input n) \<and>
   (if length c \<le> kNonRawPrefixSize then snd (PublicKeyVerifySetWrapper_Verify wv c data) = []
    else reports (verify_client wv) (PublicKeyVerifySetWrapper_Verify wv c data)) \<and>
   (reports (hybrid_decryption_client wh) (HybridDecryptSetWrapper_Decrypt wh c ad) \<or>
    snd (HybridDecryptSetWrapper_Decrypt wh c ad) = [] \<and>
    (\<exists>e \<in> set (found_primitives (get_raw_primitives (hybrid_decrypt_set wh))). \<exists>r.
       pe_primitive e c ad = Inr r \<and> fst (HybridDecryptSetWrapper_Decrypt wh c ad) = Inr r))"
proof (intro conjI impI)
  show "reports (aead_encryption_client wa) ra" if "AeadSetWrapper_Encrypt wa pt ad = Some ra"
    using that by (auto simp: AeadSetWrapper_Encrypt_def split: option.splits sum.splits)
  show "reports (aead_decryption_client wa) (AeadSetWrapper_Decrypt wa c ad)"
    by (simp add: AeadSetWrapper_Decrypt_def Let_def split: option.split)
  show "reports (daead_encryption_client wd) rd" if "DaeadSetWrapper_Encrypt wd pt ad = Some rd"
    using that by (auto simp: DaeadSetWrapper_Encrypt_def split: option.splits sum.splits)
  show "reports (daead_decryption_client wd) (DaeadSetWrapper_Decrypt wd c ad)"
    by (simp add: DaeadSetWrapper_Decrypt_def Let_def split: option.split)
  show "reports (mac_compute_client wm) rm" if "MacSetWrapper_ComputeMac wm data = Some rm"
    using that by (auto simp: MacSetWrapper_ComputeMac_def Let_def split: option.splits sum.splits)
  show "reports (mac_verify_client wm) (MacSetWrapper_VerifyMac wm c data)"
    by (simp add: MacSetWrapper_VerifyMac_def Let_def split: option.split)
  show "reports (sign_client ws) rs" if "PublicKeySignSetWrapper_Sign ws data = Some rs"
    using that by (auto simp: PublicKeySignSetWrapper_Sign_def Let_def split: option.splits sum.splits)
  show "reports (hybrid_encryption_client we) re" if "HybridEncryptSetWrapper_Encrypt we pt ad = Some re"
    using that by (auto simp: HybridEncryptSetWrapper_Encrypt_def split: option.splits sum.splits)
  show "reports (mp_client m) (MonitoredPrf_Compute m input n)"
    by (simp add: MonitoredPrf_Compute_def split: sum.split)
  show "if length c \<le> kNonRawPrefixSize then snd (PublicKeyVerifySetWrapper_Verify wv c data) = []
        else reports (verify_client wv) (PublicKeyVerifySetWrapper_Verify wv c data)"
    by (simp add: PublicKeyVerifySetWrapper_Verify_def Let_def split: option.split)
  show "reports (hybrid_decryption_client wh) (HybridDecryptSetWrapper_Decrypt wh c ad) \<or>
    snd (HybridDecryptSetWrapper_Decrypt wh c ad) = [] \<and>
    (\<exists>e \<in> set (found_primitives (get_raw_primitives (hybrid_decrypt_set wh))). \<exists>r.
       pe_primitive e c ad = Inr r \<and> fst (HybridDecryptSetWrapper_Decrypt wh c ad) = Inr r)"
    by (auto simp: HybridDecryptSetWrapper_Decrypt_def Let_def dest!: first_success_Some split: option.split)
qed

definition raw_hybrid_entry :: "HybridDecrypt PEntry" where
  "raw_hybrid_entry =
     \<lparr>pe_address = 0, pe_primitive = (\<lambda>c info. Inr c), pe_identifier = [], pe_key_id = 5, pe_status = ENABLED,
      pe_output_prefix_type = RAW, pe_key_type_url = [65]\<rparr>"

definition raw_hybrid_wrapper :: "nat HybridDecryptSetWrapper" where
  "raw_hybrid_wrapper =
     \<lparr>hybrid_decrypt_set =
        \<lparr>ps_primary = Some raw_hybrid_entry, is_mutable = False, ps_primitives = [[] \<mapsto> [raw_hybrid_entry]],
         ps_in_keyset_order = [raw_hybrid_entry], ps_annotations = []\<rparr>,
      hybrid_decryption_client = Some 1\<rparr>"

theorem monitoring_events_witness:
  "HybridDecryptSetWrapper_Decrypt raw_hybrid_wrapper [1, 2] [] = (Inr [1, 2], []) \<and>
   AeadSetWrapper_Encrypt
     \<lparr>aead_set = \<lparr>ps_primary = Some \<lparr>pe_address = 0, pe_primitive = toy_aead [7], pe_identifier = [], pe_key_id = 5,
                                    pe_status = ENABLED, pe_output_prefix_type = RAW, pe_key_type_url = []\<rparr>,
                  is_mutable = False, ps_primitives = Map.empty, ps_in_keyset_order = [], ps_annotations = []\<rparr>,
      aead_encryption_client = Some (1 :: nat), aead_decryption_client = None\<rparr> [2] [3] = Some (Inr [7, 3, 2], [(1, Log 5 1)]) \<and>
   reports (Some (1 :: nat)) (Inr [7, 3, 2 :: byte], [(1, Log 5 1)])"
proof (intro conjI)
  let ?w = "\<lparr>aead_set = \<lparr>ps_primary = Some \<lparr>pe_address = 0, pe_primitive = toy_aead [7], pe_identifier = [], pe_key_id = 5,
                                    pe_status = ENABLED, pe_output_prefix_type = RAW, pe_key_type_url = []\<rparr>,
                  is_mutable = False, ps_primitives = Map.empty, ps_in_keyset_order = [], ps_annotations = []\<rparr>,
      aead_encryption_client = Some (1 :: nat), aead_decryption_client = None\<rparr>"
  show "HybridDecryptSetWrapper_Decrypt raw_hybrid_wrapper [1, 2] [] = (Inr [1, 2], [])"
    by (simp add: HybridDecryptSetWrapper_Decrypt_def raw_hybrid_wrapper_def raw_hybrid_entry_def kNonRawPrefixSize_def
        found_primitives_def get_raw_primitives_def get_primitives_def kRawPrefix_def Let_def)
  show enc: "AeadSetWrapper_Encrypt ?w [2] [3] = Some (Inr [7, 3, 2], [(1, Log 5 1)])"
    by (simp add: AeadSetWrapper_Encrypt_def get_primary_def toy_aead_def log_to_def)
  show "reports (Some (1 :: nat)) (Inr [7, 3, 2 :: byte], [(1, Log 5 1)])"
    using monitoring_events [THEN conjunct1, rule_format, OF enc] by simp
qed

lemma insert_prfs:
  "fold (insert_prf client) es m i =
     (case m i of Some q \<Rightarrow> Some q
      | None \<Rightarrow> map_option (\<lambda>e. \<lparr>mp_key_id = pe_key_id e, mp_prf = pe_primitive e, mp_client = client\<rparr>)
                  (find (\<lambda>e. pe_key_id e = i) es))"
  by (induction es arbitrary: m) (auto simp: insert_prf_def split: option.splits)
lemma all_raw_entries:
  assumes "pset_inv S" and "\<forall>e \<in> set (ps_in_keyset_order S). pe_output_prefix_type e = RAW"
  shows "with_identifier kRawPrefix (ps_in_keyset_order S) = ps_in_keyset_order S"
  using assms pset_entries_ok [OF assms(1)]
  by (auto simp: with_identifier_def filter_id_conv entry_ok_def GetOutputPrefix_def)

lemma PrfSetWrapper_new_raw:
  assumes inv: "pset_inv S" and raw: "\<forall>e \<in> set (ps_in_keyset_order S). pe_output_prefix_type e = RAW" and p: "get_primary S = Some e"
  shows "PrfSetPrimitiveWrapper_new S c = Some \<lparr>prf_set = S, prfs = fold (insert_prf c) (ps_in_keyset_order S) Map.empty\<rparr>"
proof -
  have "ps_in_keyset_order S \<noteq> []" using inv p by (auto simp: pset_inv_def get_primary_def)
  then show ?thesis
    using all_raw_entries [OF inv raw] by (simp add: PrfSetPrimitiveWrapper_new_def get_raw_primitives_def pset.lookup_eq [OF inv])
qed

lemma PrfSetWrapper_Wrap_cases:
  assumes "PrfSetWrapper_Wrap env (Some S) = Inr r"
  shows "\<exists>e c. get_primary S = Some e \<and> (\<forall>x \<in> set (get_all (hash_order env) S). pe_output_prefix_type x = RAW) \<and>
               r = PrfSetPrimitiveWrapper_new S c"
  using assms
  by (auto simp: PrfSetWrapper_Wrap_def Prf_Validate_def Let_def list_ex_iff split: if_splits option.splits sum.splits)

text \<open>
  A PRF set is made without a crash: for a set made of a keyset, whatever the order in which the hash map
  is traversed, \<^verbatim>\<open>Wrap\<close> either reports an error, because a key is not RAW or the monitoring
  client cannot be made, or returns a wrapper. It offers a PRF under exactly the ids of the enabled keys, the
  one under an id is made of a key with this id, and the primary id is one of them.
\<close>

theorem prf_set_of_keyset:
  assumes S: "make_primitive_set F ks a = Inr S"
    and h: "distinct (hash_order env)" "set (hash_order env) = dom (ps_primitives S)"
    and wrap: "PrfSetWrapper_Wrap env (Some S) = Inr r"
  shows "\<exists>w. r = Some w \<and> dom (prfs w) = key_id ` set (enabled_keys ks) \<and>
             (\<forall>i q. prfs w i = Some q \<longrightarrow> (\<exists>k \<in> set (enabled_keys ks). key_id k = i \<and> get_key_primitive F k = Inr (Some (mp_prf q)))) \<and>
             (\<exists>i \<in> dom (prfs w). GetPrimaryId w = Some i \<and> i = primary_key_id ks)"
proof -
  from made_set [OF S] have inv: "pset_inv S" and all: "list_all2 (key_entry F) (enabled_keys ks) (ps_in_keyset_order S)"
    and prim: "primary_of_keyset ks S" by auto
  from PrfSetWrapper_Wrap_cases [OF wrap] obtain e c where e: "get_primary S = Some e"
    and raw: "\<forall>x \<in> set (get_all (hash_order env) S). pe_output_prefix_type x = RAW" and r: "r = PrfSetPrimitiveWrapper_new S c"
    by blast
  have "set (get_all (hash_order env) S) = set (ps_in_keyset_order S)"
    using get_all_perm [of "ps_in_keyset_order S" "ps_primitives S", OF _ h] inv
    by (metis get_all_def pset_inv_def set_mset_mset)
  with raw r PrfSetWrapper_new_raw [OF inv _ e]
  have w: "r = Some \<lparr>prf_set = S, prfs = fold (insert_prf c) (ps_in_keyset_order S) Map.empty\<rparr>" (is "r = Some ?w") by simp
  have prfs: "prfs ?w i = map_option (\<lambda>e. \<lparr>mp_key_id = pe_key_id e, mp_prf = pe_primitive e, mp_client = c\<rparr>)
                  (find (\<lambda>e. pe_key_id e = i) (ps_in_keyset_order S))" for i
    by (simp add: insert_prfs)
  have "map key_id (enabled_keys ks) = map pe_key_id (ps_in_keyset_order S)"
    using all by (induction rule: list_all2_induct) (auto simp: key_entry_def)
  then have ids: "key_id ` set (enabled_keys ks) = pe_key_id ` set (ps_in_keyset_order S)" by (metis set_map)
  have dom: "dom (prfs ?w) = key_id ` set (enabled_keys ks)"
    unfolding ids dom_def prfs by (auto simp: find_None_iff find_Some_iff image_iff)
  have key: "\<exists>k \<in> set (enabled_keys ks). key_id k = i \<and> get_key_primitive F k = Inr (Some (mp_prf q))" if "prfs ?w i = Some q" for i q
  proof -
    from that obtain x where x: "x \<in> set (ps_in_keyset_order S)" "pe_key_id x = i" "mp_prf q = pe_primitive x"
      unfolding prfs by (auto simp: find_Some_iff) (metis nth_mem)
    from list_all2_ex2 [OF all x(1)] x show ?thesis by (auto simp: key_entry_def)
  qed
  have pid: "GetPrimaryId ?w = Some (primary_key_id ks)" and "e \<in> set (ps_in_keyset_order S)" "pe_key_id e = primary_key_id ks"
    using prim e inv by (auto simp: GetPrimaryId_def primary_of_keyset_def pset_inv_def get_primary_def filter_eq_Cons_iff)
  then have "primary_key_id ks \<in> dom (prfs ?w)" unfolding dom ids by (metis image_eqI)
  with w dom key pid show ?thesis by blast
qed

definition raw_keyset :: Keyset where
  "raw_keyset = \<lparr>primary_key_id = 9, keys = [rotation_key 9 RAW]\<rparr>"

definition toy_prf :: "bytes \<Rightarrow> Prf" where
  "toy_prf kv = (\<lambda>input n. Inr (take n (kv @ input)))"

definition prf_env :: "unit wrap_env" where
  "prf_env = no_monitoring\<lparr>hash_order := [[]]\<rparr>"

theorem prf_set_of_keyset_witness:
  "\<exists>S w. make_primitive_set (by_key_value toy_prf) raw_keyset [] = Inr S \<and>
         PrfSetWrapper_Wrap prf_env (Some S) = Inr (Some w) \<and> dom (prfs w) = {9} \<and> GetPrimaryId w = Some 9"
proof -
  let ?F = "by_key_value toy_prf"
  have ks: "enabled_keys raw_keyset = [rotation_key 9 RAW]" "primary_key_id raw_keyset = 9"
    by (simp_all add: raw_keyset_def enabled_keys_def)
  have v: "ValidateKeyset raw_keyset = OkStatus"
    by (simp add: ValidateKeyset_iff ks ValidateKey_def) (simp add: rotation_key_def)
  have add: "\<forall>k \<in> set (enabled_keys raw_keyset). addable ?F k" by (simp add: ks addable_def by_key_value_primitive)
  obtain S where S: "make_primitive_set ?F raw_keyset [] = Inr S"
    and all: "list_all2 (key_entry ?F) (enabled_keys raw_keyset) (ps_in_keyset_order S)" and inv: "pset_inv S"
    using make_primitive_set_succeeds [OF v add, of "[]"] by (auto simp: get_all_in_keyset_order_def)
  from all obtain e where order: "ps_in_keyset_order S = [e]" and e: "key_entry ?F (rotation_key 9 RAW) e"
    by (auto simp: ks list_all2_Cons1)
  from e inv have raw: "pe_output_prefix_type e = RAW" and i: "pe_identifier e = []"
    using key_entry_prefix [OF e] pset_entries_ok [OF inv] order by (auto simp: key_entry_def rotation_prefixes)
  have prims: "ps_primitives S = [[] \<mapsto> [e]]"
    using inv i by (auto simp: pset_inv_def classified_def order with_identifier_def)
  then have h: "distinct (hash_order prf_env)" "set (hash_order prf_env) = dom (ps_primitives S)"
    by (simp_all add: prf_env_def)
  obtain p where "get_primary S = Some p" using made_primary [OF S, of "rotation_key 9 RAW"] ks by auto
  then have "\<exists>r. PrfSetWrapper_Wrap prf_env (Some S) = Inr r"
    by (simp add: PrfSetWrapper_Wrap_def Prf_Validate_def get_all_def prims prf_env_def raw no_monitoring_def)
  then obtain r where r: "PrfSetWrapper_Wrap prf_env (Some S) = Inr r" by blast
  from prf_set_of_keyset [OF S h r] S r ks show ?thesis by auto
qed

end
