(* ===== verification/Registry.thy ===== *)
theory Registry
  imports Primitive_Set
begin

text \<open>
  The registry (\<^verbatim>\<open>tink/internal/registry_impl.{h,cc}\<close>) with its two stores: the key types
  (\<^verbatim>\<open>tink/internal/key_type_info_store.{h,cc}\<close>) and the keyset wrappers
  (\<^verbatim>\<open>tink/internal/keyset_wrapper_store.h\<close>), and the FIPS restrictions that
  \<^verbatim>\<open>tink/internal/fips_utils.cc\<close> checks when a key manager is registered.

  Key managers and primitive wrappers are code outside these files and come as records of what the
  registry reads of them. \<^verbatim>\<open>std::type_index\<close> values are numbers. A primitive of any class is
  a value of one type \<open>'p\<close>, as the registry's \<^verbatim>\<open>void*\<close>. The mutexes make every operation atomic, so
  that an execution is a sequence of operations. \<^verbatim>\<open>Info\<close> objects are shared by pointer, and
  the only member that changes is \<^verbatim>\<open>new_key_allowed_\<close>.
\<close>

section \<open>Definitions\<close>

subsection \<open>FIPS restrictions\<close>

datatype FipsCompatibility = kNotFips | kRequiresBoringCrypto | OtherFips nat

text \<open>How Tink and the crypto library were built.\<close>

record fips_build =
  kUseOnlyFips :: bool
  IsFipsEnabledInSsl :: bool

definition IsFipsModeEnabled :: "fips_build \<Rightarrow> bool \<Rightarrow> bool" where
  "IsFipsModeEnabled build is_fips_restricted \<longleftrightarrow> kUseOnlyFips build \<or> is_fips_restricted"

definition ChecksFipsCompatibility :: "fips_build \<Rightarrow> bool \<Rightarrow> FipsCompatibility \<Rightarrow> Status" where
  "ChecksFipsCompatibility build restricted fips_status =
     (case fips_status of
        kNotFips \<Rightarrow> if IsFipsModeEnabled build restricted then Inl kInternal else OkStatus
      | kRequiresBoringCrypto \<Rightarrow>
          if IsFipsModeEnabled build restricted \<and> \<not> IsFipsEnabledInSsl build then Inl kInternal else OkStatus
      | OtherFips _ \<Rightarrow> Inl kInternal)"

subsection \<open>Key managers\<close>

text \<open>
  What a key manager is for the registry: its class, its key type, the primitives it makes, its
  key factory, which may be a private key factory, and whether it derives keys.
\<close>

record 'p Manager =
  km_type_index :: nat
  get_key_type :: bytes
  DoesSupport :: "bytes \<Rightarrow> bool"
  FipsStatus :: FipsCompatibility
  km_primitives :: "nat \<rightharpoonup> (KeyData \<Rightarrow> 'p option StatusOr)"
  km_NewKeyData :: "bytes \<Rightarrow> KeyData StatusOr"
  km_GetPublicKeyData :: "(bytes \<Rightarrow> KeyData StatusOr) option"
  km_key_deriver :: "(bytes \<Rightarrow> bytes \<Rightarrow> KeyData StatusOr) option"

record 'p Info =
  key_manager_type_index :: nat
  public_key_type_manager_type_index :: "nat option"
  new_key_allowed :: bool
  primitive_to_manager :: "nat \<rightharpoonup> (KeyData \<Rightarrow> 'p option StatusOr)"
  key_factory :: "bytes \<Rightarrow> KeyData StatusOr"
  private_key_factory :: "(bytes \<Rightarrow> KeyData StatusOr) option"
  key_deriver :: "(bytes \<Rightarrow> bytes \<Rightarrow> KeyData StatusOr) option"

definition Info_of_KeyTypeManager :: "'p Manager \<Rightarrow> bool \<Rightarrow> 'p Info" where
  "Info_of_KeyTypeManager m allowed =
     \<lparr>key_manager_type_index = km_type_index m, public_key_type_manager_type_index = None, new_key_allowed = allowed,
      primitive_to_manager = km_primitives m, key_factory = km_NewKeyData m, private_key_factory = None,
      key_deriver = km_key_deriver m\<rparr>"

definition Info_of_PrivateKeyTypeManager :: "'p Manager \<Rightarrow> 'p Manager \<Rightarrow> bool \<Rightarrow> 'p Info" where
  "Info_of_PrivateKeyTypeManager priv pub allowed =
     \<lparr>key_manager_type_index = km_type_index priv, public_key_type_manager_type_index = Some (km_type_index pub),
      new_key_allowed = allowed, primitive_to_manager = km_primitives priv, key_factory = km_NewKeyData priv,
      private_key_factory = km_GetPublicKeyData priv, key_deriver = km_key_deriver priv\<rparr>"

text \<open>A legacy key manager brings its own factory, has no deriver, and serves one primitive.\<close>

definition Info_of_KeyManager :: "'p Manager \<Rightarrow> bool \<Rightarrow> 'p Info" where
  "Info_of_KeyManager m allowed =
     \<lparr>key_manager_type_index = km_type_index m, public_key_type_manager_type_index = None, new_key_allowed = allowed,
      primitive_to_manager = km_primitives m, key_factory = km_NewKeyData m, private_key_factory = km_GetPublicKeyData m,
      key_deriver = None\<rparr>"

definition Info_get_key_manager :: "'p Info \<Rightarrow> nat \<Rightarrow> (KeyData \<Rightarrow> 'p option StatusOr) StatusOr" where
  "Info_get_key_manager info primitive =
     (case primitive_to_manager info primitive of None \<Rightarrow> Inl kInvalidArgument | Some f \<Rightarrow> Inr f)"

definition Info_GetPrimitive :: "'p Info \<Rightarrow> nat \<Rightarrow> KeyData \<Rightarrow> 'p option StatusOr" where
  "Info_GetPrimitive info primitive kd =
     (case Info_get_key_manager info primitive of Inl e \<Rightarrow> Inl e | Inr get \<Rightarrow> get kd)"

subsection \<open>Key type store\<close>

type_synonym 'p KeyTypeInfoStore = "bytes \<rightharpoonup> 'p Info"

definition store_Get :: "'p KeyTypeInfoStore \<Rightarrow> bytes \<Rightarrow> 'p Info StatusOr" where
  "store_Get store url = (case store url of None \<Rightarrow> Inl kNotFound | Some info \<Rightarrow> Inr info)"

definition IsInsertable :: "'p KeyTypeInfoStore \<Rightarrow> bytes \<Rightarrow> nat \<Rightarrow> bool \<Rightarrow> Status" where
  "IsInsertable store url manager_type_index allowed =
     (case store url of
        None \<Rightarrow> OkStatus
      | Some info \<Rightarrow>
          if key_manager_type_index info \<noteq> manager_type_index then Inl kAlreadyExists
          else if \<not> new_key_allowed info \<and> allowed then Inl kAlreadyExists
          else OkStatus)"

definition store_Add :: "bytes \<Rightarrow> 'p Info \<Rightarrow> bool \<Rightarrow> 'p KeyTypeInfoStore \<Rightarrow> 'p KeyTypeInfoStore" where
  "store_Add url info allowed store =
     (case store url of
        Some old \<Rightarrow> store(url \<mapsto> old\<lparr>new_key_allowed := allowed\<rparr>)
      | None \<Rightarrow> store(url \<mapsto> info))"

definition AddKeyManager :: "'p Manager \<Rightarrow> bool \<Rightarrow> 'p KeyTypeInfoStore \<Rightarrow> Status \<times> 'p KeyTypeInfoStore" where
  "AddKeyManager manager allowed store =
     (let url = get_key_type manager
      in if \<not> DoesSupport manager url then (Inl kInvalidArgument, store)
         else case IsInsertable store url (km_type_index manager) allowed of
                Inl e \<Rightarrow> (Inl e, store)
              | Inr _ \<Rightarrow> (OkStatus, store_Add url (Info_of_KeyManager manager allowed) allowed store))"

definition AddKeyTypeManager ::
    "fips_build \<Rightarrow> bool \<Rightarrow> 'p Manager \<Rightarrow> bool \<Rightarrow> 'p KeyTypeInfoStore \<Rightarrow> Status \<times> 'p KeyTypeInfoStore" where
  "AddKeyTypeManager build restricted manager allowed store =
     (if isl (ChecksFipsCompatibility build restricted (FipsStatus manager)) then (Inl kInternal, store)
      else
        let url = get_key_type manager
        in case IsInsertable store url (km_type_index manager) allowed of
             Inl e \<Rightarrow> (Inl e, store)
           | Inr _ \<Rightarrow> (OkStatus, store_Add url (Info_of_KeyTypeManager manager allowed) allowed store))"

definition AddAsymmetricKeyTypeManagers ::
    "fips_build \<Rightarrow> bool \<Rightarrow> 'p Manager \<Rightarrow> 'p Manager \<Rightarrow> bool \<Rightarrow> 'p KeyTypeInfoStore \<Rightarrow> Status \<times> 'p KeyTypeInfoStore" where
  "AddAsymmetricKeyTypeManagers build restricted priv pub allowed store =
     (let private_url = get_key_type priv; public_url = get_key_type pub
      in if private_url = public_url then (Inl kInvalidArgument, store)
         else if isl (ChecksFipsCompatibility build restricted (FipsStatus priv)) then (Inl kInternal, store)
         else if isl (ChecksFipsCompatibility build restricted (FipsStatus pub)) then (Inl kInternal, store)
         else case IsInsertable store private_url (km_type_index priv) allowed of
                Inl e \<Rightarrow> (Inl e, store)
              | Inr _ \<Rightarrow>
                  (case IsInsertable store public_url (km_type_index pub) allowed of
                     Inl e \<Rightarrow> (Inl e, store)
                   | Inr _ \<Rightarrow>
                       (case (store_Get store private_url, store_Get store public_url) of
                          (Inr _, Inl _) \<Rightarrow> (Inl kInvalidArgument, store)
                        | (Inl _, Inr _) \<Rightarrow> (Inl kInvalidArgument, store)
                        | (Inr private_found, Inr _) \<Rightarrow>
                            if public_key_type_manager_type_index private_found = None then (Inl kInvalidArgument, store)
                            else if public_key_type_manager_type_index private_found \<noteq> Some (km_type_index pub)
                              then (Inl kInvalidArgument, store)
                            else (OkStatus, store(private_url \<mapsto> private_found\<lparr>new_key_allowed := allowed\<rparr>))
                        | (Inl _, Inl _) \<Rightarrow>
                            (OkStatus,
                             store_Add public_url (Info_of_KeyTypeManager pub allowed) allowed
                               (store_Add private_url (Info_of_PrivateKeyTypeManager priv pub allowed) allowed store)))))"

subsection \<open>Keyset wrapper store\<close>

text \<open>
  A primitive wrapper from a class \<open>P\<close> of primitives to a class \<open>Q\<close>. The keyset wrapper that
  is stored for it gets the primitives of keys by the two getters stored with it; the registry
  stores \<^verbatim>\<open>GetPrimitive<P>\<close> of itself, which is why the class \<open>P\<close> is kept here and the getter is looked up in the call.
  The \<^verbatim>\<open>Wrap\<close> functions read the monitoring client factory of \<^verbatim>\<open>RegistryImpl::GlobalInstance()\<close> when they
  are called, so \<open>wr_Wrap\<close> takes it as an argument; the registry modelled here is that instance.
\<close>

record ('p, 'f) Wrapper =
  wrapper_type_index :: nat
  wr_P :: nat
  wr_Q :: nat
  wr_Wrap :: "'f option \<Rightarrow> 'p PrimitiveSet \<Rightarrow> 'p StatusOr"

record ('p, 'f) WInfo =
  is_same_primitive_wrapping :: bool
  wi_wrapper_type_index :: nat
  q_type_index :: nat
  original_wrapper :: "('p, 'f) Wrapper"

type_synonym ('p, 'f) KeysetWrapperStore = "nat \<rightharpoonup> ('p, 'f) WInfo"

definition WInfo_new :: "('p, 'f) Wrapper \<Rightarrow> ('p, 'f) WInfo" where
  "WInfo_new w =
     \<lparr>is_same_primitive_wrapping = (wr_P w = wr_Q w), wi_wrapper_type_index = wrapper_type_index w,
      q_type_index = wr_Q w, original_wrapper = w\<rparr>"

definition WrapperStore_Add :: "('p, 'f) Wrapper option \<Rightarrow> ('p, 'f) KeysetWrapperStore \<Rightarrow> Status \<times> ('p, 'f) KeysetWrapperStore" where
  "WrapperStore_Add wrapper store =
     (case wrapper of
        None \<Rightarrow> (Inl kInvalidArgument, store)
      | Some w \<Rightarrow>
          (case store (wr_Q w) of
             Some info \<Rightarrow>
               if wi_wrapper_type_index info \<noteq> wrapper_type_index w then (Inl kAlreadyExists, store) else (OkStatus, store)
           | None \<Rightarrow> (OkStatus, store(wr_Q w \<mapsto> WInfo_new w))))"

definition GetPrimitiveWrapper :: "('p, 'f) KeysetWrapperStore \<Rightarrow> nat \<Rightarrow> ('p, 'f) Wrapper StatusOr" where
  "GetPrimitiveWrapper store primitive =
     (case store primitive of
        None \<Rightarrow> Inl kNotFound
      | Some info \<Rightarrow>
          if \<not> is_same_primitive_wrapping info then Inl kFailedPrecondition
          else if q_type_index info \<noteq> primitive then Inl kInternal
          else Inr (original_wrapper info))"

definition WrapperStore_Get :: "('p, 'f) KeysetWrapperStore \<Rightarrow> nat \<Rightarrow> ('p, 'f) WInfo StatusOr" where
  "WrapperStore_Get store primitive = (case store primitive of None \<Rightarrow> Inl kNotFound | Some info \<Rightarrow> Inr info)"

subsection \<open>The registry\<close>

record ('p, 'f) Registry =
  key_type_info_store :: "'p KeyTypeInfoStore"
  keyset_wrapper_store :: "('p, 'f) KeysetWrapperStore"
  monitoring_factory :: "'f option"
  fips_restricted :: bool

definition Registry_empty :: "('p, 'f) Registry" where
  "Registry_empty =
     \<lparr>key_type_info_store = Map.empty, keyset_wrapper_store = Map.empty, monitoring_factory = None, fips_restricted = False\<rparr>"

definition RegisterKeyManager :: "'p Manager option \<Rightarrow> bool \<Rightarrow> ('p, 'f) Registry \<Rightarrow> Status \<times> ('p, 'f) Registry" where
  "RegisterKeyManager manager allowed R =
     (case manager of
        None \<Rightarrow> (Inl kInvalidArgument, R)
      | Some m \<Rightarrow>
          let (status, store) = AddKeyManager m allowed (key_type_info_store R)
          in (status, R\<lparr>key_type_info_store := store\<rparr>))"

definition RegisterKeyTypeManager ::
    "fips_build \<Rightarrow> 'p Manager option \<Rightarrow> bool \<Rightarrow> ('p, 'f) Registry \<Rightarrow> Status \<times> ('p, 'f) Registry" where
  "RegisterKeyTypeManager build manager allowed R =
     (case manager of
        None \<Rightarrow> (Inl kInvalidArgument, R)
      | Some m \<Rightarrow>
          let (status, store) = AddKeyTypeManager build (fips_restricted R) m allowed (key_type_info_store R)
          in (status, R\<lparr>key_type_info_store := store\<rparr>))"

definition RegisterAsymmetricKeyManagers ::
    "fips_build \<Rightarrow> 'p Manager option \<Rightarrow> 'p Manager option \<Rightarrow> bool \<Rightarrow> ('p, 'f) Registry \<Rightarrow> Status \<times> ('p, 'f) Registry" where
  "RegisterAsymmetricKeyManagers build priv pub allowed R =
     (case priv of
        None \<Rightarrow> (Inl kInvalidArgument, R)
      | Some private_manager \<Rightarrow>
          (case pub of
             None \<Rightarrow> (Inl kInvalidArgument, R)
           | Some public_manager \<Rightarrow>
               let (status, store) =
                     AddAsymmetricKeyTypeManagers build (fips_restricted R) private_manager public_manager allowed
                       (key_type_info_store R)
               in (status, R\<lparr>key_type_info_store := store\<rparr>)))"

definition RegisterPrimitiveWrapper :: "('p, 'f) Wrapper option \<Rightarrow> ('p, 'f) Registry \<Rightarrow> Status \<times> ('p, 'f) Registry" where
  "RegisterPrimitiveWrapper wrapper R =
     (case wrapper of
        None \<Rightarrow> (Inl kInvalidArgument, R)
      | Some w \<Rightarrow>
          let (status, store) = WrapperStore_Add (Some w) (keyset_wrapper_store R)
          in (status, R\<lparr>keyset_wrapper_store := store\<rparr>))"

definition get_key_type_info :: "('p, 'f) Registry \<Rightarrow> bytes \<Rightarrow> 'p Info StatusOr" where
  "get_key_type_info R url = store_Get (key_type_info_store R) url"

definition Registry_get_key_manager :: "('p, 'f) Registry \<Rightarrow> nat \<Rightarrow> bytes \<Rightarrow> (KeyData \<Rightarrow> 'p option StatusOr) StatusOr" where
  "Registry_get_key_manager R primitive url =
     (case get_key_type_info R url of Inl e \<Rightarrow> Inl e | Inr info \<Rightarrow> Info_get_key_manager info primitive)"

definition GetPrimitive :: "('p, 'f) Registry \<Rightarrow> nat \<Rightarrow> KeyData \<Rightarrow> 'p option StatusOr" where
  "GetPrimitive R primitive kd =
     (case get_key_type_info R (type_url kd) of Inl e \<Rightarrow> Inl e | Inr info \<Rightarrow> Info_GetPrimitive info primitive kd)"

definition Registry_NewKeyData :: "('p, 'f) Registry \<Rightarrow> KeyTemplate \<Rightarrow> KeyData StatusOr" where
  "Registry_NewKeyData R key_template =
     (case get_key_type_info R (kt_type_url key_template) of
        Inl e \<Rightarrow> Inl e
      | Inr info \<Rightarrow> if \<not> new_key_allowed info then Inl kInvalidArgument else key_factory info (kt_value key_template))"

definition Registry_GetPublicKeyData :: "('p, 'f) Registry \<Rightarrow> bytes \<Rightarrow> bytes \<Rightarrow> KeyData StatusOr" where
  "Registry_GetPublicKeyData R url serialized_private_key =
     (case get_key_type_info R url of
        Inl e \<Rightarrow> Inl e
      | Inr info \<Rightarrow>
          (case private_key_factory info of None \<Rightarrow> Inl kInvalidArgument | Some f \<Rightarrow> f serialized_private_key))"

definition DeriveKey :: "('p, 'f) Registry \<Rightarrow> KeyTemplate \<Rightarrow> bytes \<Rightarrow> KeyData StatusOr" where
  "DeriveKey R key_template randomness =
     (case get_key_type_info R (kt_type_url key_template) of
        Inl e \<Rightarrow> Inl e
      | Inr info \<Rightarrow>
          (case key_deriver info of None \<Rightarrow> Inl kInvalidArgument | Some f \<Rightarrow> f (kt_value key_template) randomness))"

definition Registry_Wrap :: "('p, 'f) Registry \<Rightarrow> nat \<Rightarrow> 'p PrimitiveSet option \<Rightarrow> 'p StatusOr" where
  "Registry_Wrap R primitive set_ptr =
     (case set_ptr of
        None \<Rightarrow> Inl kInvalidArgument
      | Some S \<Rightarrow>
          (case GetPrimitiveWrapper (keyset_wrapper_store R) primitive of Inl e \<Rightarrow> Inl e | Inr w \<Rightarrow> wr_Wrap w (monitoring_factory R) S))"

text \<open>The getter for key objects that the registry stores always fails with \<^verbatim>\<open>kNotFound\<close>.\<close>

definition registry_fns :: "(ProtoKeySerialization \<Rightarrow> 'k StatusOr) \<Rightarrow> ('p, 'f) Registry \<Rightarrow> nat \<Rightarrow> ('k, 'p) primitive_fns" where
  "registry_fns parse R primitive =
     \<lparr>ParseKey = parse, primitive_getter_from_key = (\<lambda>key. Inl kNotFound), primitive_getter = GetPrimitive R primitive\<rparr>"

definition WrapKeyset ::
    "(ProtoKeySerialization \<Rightarrow> 'k StatusOr) \<Rightarrow> ('p, 'f) Registry \<Rightarrow> Keyset \<Rightarrow> annotations \<Rightarrow> nat \<Rightarrow> 'p StatusOr" where
  "WrapKeyset parse R keyset annotations type_index =
     (case WrapperStore_Get (keyset_wrapper_store R) type_index of
        Inl e \<Rightarrow> Inl e
      | Inr info \<Rightarrow>
          KeysetWrapperImpl_Wrap (registry_fns parse R (wr_P (original_wrapper info)))
            (wr_Wrap (original_wrapper info) (monitoring_factory R)) keyset annotations)"

definition RegisterMonitoringClientFactory :: "'f option \<Rightarrow> ('p, 'f) Registry \<Rightarrow> Status \<times> ('p, 'f) Registry" where
  "RegisterMonitoringClientFactory factory R =
     (case factory of
        None \<Rightarrow> (Inl kInvalidArgument, R)
      | Some f \<Rightarrow>
          if monitoring_factory R \<noteq> None then (Inl kAlreadyExists, R)
          else (OkStatus, R\<lparr>monitoring_factory := Some f\<rparr>))"

definition RestrictToFipsIfEmpty :: "fips_build \<Rightarrow> ('p, 'f) Registry \<Rightarrow> Status \<times> ('p, 'f) Registry" where
  "RestrictToFipsIfEmpty build R =
     (if IsFipsModeEnabled build (fips_restricted R) then (OkStatus, R)
      else if key_type_info_store R = Map.empty then (OkStatus, R\<lparr>fips_restricted := True\<rparr>)
      else (Inl kInternal, R))"

text \<open>\<open>Reset\<close> forgets the stores and the factory; the FIPS restriction is a variable of its own and stays.\<close>

definition Reset :: "('p, 'f) Registry \<Rightarrow> ('p, 'f) Registry" where
  "Reset R = R\<lparr>key_type_info_store := Map.empty, keyset_wrapper_store := Map.empty, monitoring_factory := None\<rparr>"

subsection \<open>Executions\<close>

datatype ('p, 'f) registry_op =
    OpRegisterKeyManager "'p Manager option" bool
  | OpRegisterKeyTypeManager "'p Manager option" bool
  | OpRegisterAsymmetricKeyManagers "'p Manager option" "'p Manager option" bool
  | OpRegisterPrimitiveWrapper "('p, 'f) Wrapper option"
  | OpRegisterMonitoringClientFactory "'f option"
  | OpRestrictToFipsIfEmpty

fun run_registry_op :: "fips_build \<Rightarrow> ('p, 'f) registry_op \<Rightarrow> ('p, 'f) Registry \<Rightarrow> Status \<times> ('p, 'f) Registry" where
  "run_registry_op build (OpRegisterKeyManager m allowed) R = RegisterKeyManager m allowed R"
| "run_registry_op build (OpRegisterKeyTypeManager m allowed) R = RegisterKeyTypeManager build m allowed R"
| "run_registry_op build (OpRegisterAsymmetricKeyManagers m m' allowed) R = RegisterAsymmetricKeyManagers build m m' allowed R"
| "run_registry_op build (OpRegisterPrimitiveWrapper w) R = RegisterPrimitiveWrapper w R"
| "run_registry_op build (OpRegisterMonitoringClientFactory f) R = RegisterMonitoringClientFactory f R"
| "run_registry_op build OpRestrictToFipsIfEmpty R = RestrictToFipsIfEmpty build R"

inductive registry_steps :: "fips_build \<Rightarrow> ('p, 'f) Registry \<Rightarrow> ('p, 'f) Registry \<Rightarrow> bool" for build where
  steps_refl: "registry_steps build R R"
| steps_step: "registry_steps build R (snd (run_registry_op build op R'))" if "registry_steps build R R'"

section \<open>What is registered stays\<close>

text \<open>
  \<open>registry_le\<close>: every key type of the first registry is in the second with the same manager, and
  creation of new keys is allowed in the second only if it is in the first; wrappers, the
  monitoring factory and the FIPS restriction are kept.
\<close>

definition info_le :: "'p Info \<Rightarrow> 'p Info \<Rightarrow> bool" where
  "info_le info info' \<longleftrightarrow> info' = info\<lparr>new_key_allowed := new_key_allowed info'\<rparr> \<and> (new_key_allowed info' \<longrightarrow> new_key_allowed info)"

definition store_le :: "'p KeyTypeInfoStore \<Rightarrow> 'p KeyTypeInfoStore \<Rightarrow> bool" where
  "store_le s s' \<longleftrightarrow> (\<forall>url info. s url = Some info \<longrightarrow> (\<exists>info'. s' url = Some info' \<and> info_le info info'))"

definition registry_le :: "('p, 'f) Registry \<Rightarrow> ('p, 'f) Registry \<Rightarrow> bool" where
  "registry_le R R' \<longleftrightarrow>
     store_le (key_type_info_store R) (key_type_info_store R') \<and>
     (\<forall>q info. keyset_wrapper_store R q = Some info \<longrightarrow> keyset_wrapper_store R' q = Some info) \<and>
     (\<forall>f. monitoring_factory R = Some f \<longrightarrow> monitoring_factory R' = Some f) \<and>
     (fips_restricted R \<longrightarrow> fips_restricted R')"

lemma info_le_refl [simp]: "info_le info info"
  by (simp add: info_le_def)

lemma info_le_trans:
  assumes "info_le a b" and "info_le b c"
  shows "info_le a c"
proof -
  from assms have "b = a\<lparr>new_key_allowed := new_key_allowed b\<rparr>" and c: "c = b\<lparr>new_key_allowed := new_key_allowed c\<rparr>"
    and allowed: "new_key_allowed c \<longrightarrow> new_key_allowed a" by (auto simp: info_le_def)
  then have "c = a\<lparr>new_key_allowed := new_key_allowed c\<rparr>" by (cases a; cases b; cases c) simp
  with allowed show ?thesis by (simp add: info_le_def)
qed

lemma store_le_refl [simp]: "store_le s s"
  by (auto simp: store_le_def intro: info_le_refl)

lemma store_le_trans: "store_le a b \<Longrightarrow> store_le b c \<Longrightarrow> store_le a c"
  unfolding store_le_def by (metis info_le_trans)

lemma registry_le_refl [simp]: "registry_le R R"
  by (simp add: registry_le_def)

lemma registry_le_trans: "registry_le a b \<Longrightarrow> registry_le b c \<Longrightarrow> registry_le a c"
  unfolding registry_le_def by (meson store_le_trans)

lemma store_le_allowed:
  "\<lbrakk>s url = Some info; b \<longrightarrow> new_key_allowed info\<rbrakk> \<Longrightarrow> store_le s (s(url \<mapsto> info\<lparr>new_key_allowed := b\<rparr>))"
  by (auto simp: store_le_def info_le_def)

lemma store_le_new: "s url = None \<Longrightarrow> store_le s (s(url \<mapsto> info))"
  by (auto simp: store_le_def)

lemma store_Add_le:
  assumes "IsInsertable s url i allowed = OkStatus"
  shows "store_le s (store_Add url info allowed s)"
  using assms
  by (auto simp: IsInsertable_def store_Add_def store_le_new intro!: store_le_allowed split: option.splits if_splits)

lemma AddKeyManager_le: "store_le s (snd (AddKeyManager m allowed s))"
  by (auto simp: AddKeyManager_def Let_def intro!: store_Add_le split: sum.split)

lemma AddKeyTypeManager_le: "store_le s (snd (AddKeyTypeManager build restricted m allowed s))"
  by (auto simp: AddKeyTypeManager_def Let_def intro!: store_Add_le split: sum.split)

lemma store_Add_other: "url \<noteq> url' \<Longrightarrow> store_Add url info allowed s url' = s url'"
  by (simp add: store_Add_def split: option.split)

lemma IsInsertable_other: "url \<noteq> url' \<Longrightarrow> IsInsertable (store_Add url info b s) url' i allowed = IsInsertable s url' i allowed"
  by (simp add: IsInsertable_def store_Add_other)

lemma AddAsymmetric_le: "store_le s (snd (AddAsymmetricKeyTypeManagers build restricted priv pub allowed s))"
proof -
  have both: "store_le s (store_Add u' i' allowed (store_Add u i allowed s))"
    if "u \<noteq> u'" "IsInsertable s u t allowed = OkStatus" "IsInsertable s u' t' allowed = OkStatus" for u u' i i' t t'
    using that store_le_trans [OF store_Add_le store_Add_le] by (metis IsInsertable_other)
  have flag: "store_le s (s(u \<mapsto> found\<lparr>new_key_allowed := allowed\<rparr>))"
    if "IsInsertable s u t allowed = OkStatus" "store_Get s u = Inr found" for u t found
    using that by (auto simp: IsInsertable_def store_Get_def intro!: store_le_allowed split: option.splits if_splits)
  show ?thesis
    by (auto simp: AddAsymmetricKeyTypeManagers_def Let_def intro: both flag split: sum.split)
qed

text \<open>The contract of an operation that registers something: what is there stays, and a failure changes nothing.\<close>

locale registry_operation =
  fixes run :: "('p, 'f) Registry \<Rightarrow> Status \<times> ('p, 'f) Registry"
  assumes grows: "registry_le R (snd (run R))"
    and atomic: "isl (fst (run R)) \<Longrightarrow> snd (run R) = R"
begin

lemma keeps_info:
  "get_key_type_info R url = Inr info \<Longrightarrow> \<exists>info'. get_key_type_info (snd (run R)) url = Inr info' \<and> info_le info info'"
  using grows [of R] unfolding registry_le_def store_le_def get_key_type_info_def store_Get_def
  by (cases "key_type_info_store R url") fastforce+

lemma keeps_order: "registry_le R0 R \<Longrightarrow> registry_le R0 (snd (run R))"
  using grows registry_le_trans by blast

end

interpretation key_manager: registry_operation "RegisterKeyManager m allowed"
proof unfold_locales
  show "registry_le R (snd (RegisterKeyManager m allowed R))" for R :: "('a, 'b) Registry"
    by (simp add: RegisterKeyManager_def registry_le_def case_prod_beta Let_def AddKeyManager_le split: option.split)
  show "snd (RegisterKeyManager m allowed R) = R" if "isl (fst (RegisterKeyManager m allowed R))" for R :: "('a, 'b) Registry"
    using that by (auto simp: RegisterKeyManager_def AddKeyManager_def Let_def split: option.splits sum.splits if_splits)
qed

interpretation key_type_manager: registry_operation "RegisterKeyTypeManager build m allowed"
proof unfold_locales
  show "registry_le R (snd (RegisterKeyTypeManager build m allowed R))" for R :: "('a, 'b) Registry"
    by (simp add: RegisterKeyTypeManager_def registry_le_def case_prod_beta Let_def AddKeyTypeManager_le split: option.split)
  show "snd (RegisterKeyTypeManager build m allowed R) = R" if "isl (fst (RegisterKeyTypeManager build m allowed R))"
    for R :: "('a, 'b) Registry"
    using that by (auto simp: RegisterKeyTypeManager_def AddKeyTypeManager_def Let_def split: option.splits sum.splits if_splits)
qed

interpretation asymmetric: registry_operation "RegisterAsymmetricKeyManagers build m m' allowed"
proof unfold_locales
  show "registry_le R (snd (RegisterAsymmetricKeyManagers build m m' allowed R))" for R :: "('a, 'b) Registry"
    by (simp add: RegisterAsymmetricKeyManagers_def registry_le_def case_prod_beta Let_def AddAsymmetric_le split: option.split)
  show "snd (RegisterAsymmetricKeyManagers build m m' allowed R) = R" if "isl (fst (RegisterAsymmetricKeyManagers build m m' allowed R))"
    for R :: "('a, 'b) Registry"
    using that
    by (auto simp: RegisterAsymmetricKeyManagers_def AddAsymmetricKeyTypeManagers_def Let_def split: option.splits sum.splits if_splits)
qed

interpretation primitive_wrapper: registry_operation "RegisterPrimitiveWrapper w"
  by unfold_locales
    (auto simp: RegisterPrimitiveWrapper_def WrapperStore_Add_def registry_le_def Let_def split: option.splits if_splits)

interpretation monitoring: registry_operation "RegisterMonitoringClientFactory f"
  by unfold_locales (auto simp: RegisterMonitoringClientFactory_def registry_le_def split: option.splits if_splits)

interpretation fips: registry_operation "RestrictToFipsIfEmpty build"
  by unfold_locales (auto simp: RestrictToFipsIfEmpty_def registry_le_def)

lemma run_registry_op_le: "registry_le R0 R \<Longrightarrow> registry_le R0 (snd (run_registry_op build op R))"
  by (cases op)
    (simp_all add: key_manager.keeps_order key_type_manager.keeps_order asymmetric.keeps_order
      primitive_wrapper.keeps_order monitoring.keeps_order fips.keeps_order)

lemma run_registry_op_atomic: "isl (fst (run_registry_op build op R)) \<Longrightarrow> snd (run_registry_op build op R) = R"
  by (cases op)
    (simp_all add: key_manager.atomic key_type_manager.atomic asymmetric.atomic primitive_wrapper.atomic
      monitoring.atomic fips.atomic)

lemma registry_steps_le: "registry_steps build R R' \<Longrightarrow> registry_le R R'"
  by (induction rule: registry_steps.induct) (auto intro: run_registry_op_le)

lemma registry_le_info:
  "\<lbrakk>registry_le R R'; get_key_type_info R url = Inr info\<rbrakk> \<Longrightarrow> \<exists>info'. get_key_type_info R' url = Inr info' \<and> info_le info info'"
  unfolding registry_le_def store_le_def get_key_type_info_def store_Get_def
  by (cases "key_type_info_store R url") fastforce+

lemma info_le_simps:
  assumes "info_le info info'"
  shows "primitive_to_manager info' = primitive_to_manager info" "key_factory info' = key_factory info"
    "private_key_factory info' = private_key_factory info" "key_deriver info' = key_deriver info"
    "new_key_allowed info' \<Longrightarrow> new_key_allowed info"
proof -
  from assms have "info' = info\<lparr>new_key_allowed := new_key_allowed info'\<rparr>" and a: "new_key_allowed info' \<longrightarrow> new_key_allowed info"
    by (simp_all add: info_le_def)
  then show "primitive_to_manager info' = primitive_to_manager info" "key_factory info' = key_factory info"
    "private_key_factory info' = private_key_factory info" "key_deriver info' = key_deriver info"
    by (metis Info.surjective Info.update_convs(3) Info.select_convs)+
  show "new_key_allowed info' \<Longrightarrow> new_key_allowed info" using a by blast
qed

lemma GetPrimitive_stable:
  assumes "registry_le R R'" and "GetPrimitive R p kd = Inr x"
  shows "GetPrimitive R' p kd = Inr x"
proof -
  from assms(2) obtain info where i: "get_key_type_info R (type_url kd) = Inr info" "Info_GetPrimitive info p kd = Inr x"
    by (auto simp: GetPrimitive_def split: sum.splits)
  with registry_le_info [OF assms(1)] obtain info' where "get_key_type_info R' (type_url kd) = Inr info'" and le: "info_le info info'"
    by blast
  with i info_le_simps(1) [OF le] show ?thesis by (simp add: GetPrimitive_def Info_GetPrimitive_def Info_get_key_manager_def)
qed

lemma get_key_primitive_stable:
  assumes "registry_le R R'" and "get_key_primitive (registry_fns parse R p) k = Inr x"
  shows "get_key_primitive (registry_fns parse R' p) k = Inr x"
  using assms GetPrimitive_stable [OF assms(1)]
  by (auto simp: get_key_primitive_def registry_fns_def split: sum.splits)

lemma Wrap_loop_mono:
  assumes "\<And>k x. get_key_primitive F k = Inr x \<Longrightarrow> get_key_primitive F' k = Inr x"
  shows "Wrap_loop F primary ks b = Inr b' \<Longrightarrow> Wrap_loop F' primary ks b = Inr b'"
proof (induction ks arbitrary: b)
  case (Cons k ks)
  then show ?case using assms by (auto split: if_splits sum.splits)
qed simp

lemma make_primitive_set_mono:
  assumes "\<And>k x. get_key_primitive F k = Inr x \<Longrightarrow> get_key_primitive F' k = Inr x" and "make_primitive_set F ks a = Inr S"
  shows "make_primitive_set F' ks a = Inr S"
  using assms(2) Wrap_loop_mono [of F F', OF assms(1)]
  by (auto simp: make_primitive_set_def split: sum.splits)

text \<open>
  A keyset that could be wrapped is wrapped by the same wrapper, from the same primitives, with the
  monitoring factory there is now.
\<close>

definition wrapped_by :: "(ProtoKeySerialization \<Rightarrow> 'k StatusOr) \<Rightarrow> ('p, 'f) Registry \<Rightarrow> Keyset \<Rightarrow> annotations \<Rightarrow> nat \<Rightarrow>
    ('p, 'f) Wrapper \<Rightarrow> 'p PrimitiveSet \<Rightarrow> bool" where
  "wrapped_by parse R ks a q w S \<longleftrightarrow>
     (\<exists>info. keyset_wrapper_store R q = Some info \<and> original_wrapper info = w) \<and>
     make_primitive_set (registry_fns parse R (wr_P w)) ks a = Inr S"

lemma wrapped_by_Wrap: "wrapped_by parse R ks a q w S \<Longrightarrow> WrapKeyset parse R ks a q = wr_Wrap w (monitoring_factory R) S"
  by (auto simp: wrapped_by_def WrapKeyset_def WrapperStore_Get_def KeysetWrapperImpl_Wrap_def)

lemma WrapKeyset_wrapped_by:
  assumes "WrapKeyset parse R ks a q = Inr x"
  obtains w S where "wrapped_by parse R ks a q w S" "wr_Wrap w (monitoring_factory R) S = Inr x"
  using assms
  by (auto simp: wrapped_by_def WrapKeyset_def WrapperStore_Get_def KeysetWrapperImpl_Wrap_def
      split: option.split_asm sum.split_asm)

lemma wrapped_by_stable:
  assumes le: "registry_le R R'" and w: "wrapped_by parse R ks a q w S"
  shows "wrapped_by parse R' ks a q w S"
proof -
  have "make_primitive_set (registry_fns parse R' (wr_P w)) ks a = Inr S"
    by (rule make_primitive_set_mono [where F = "registry_fns parse R (wr_P w)"])
      (use w in \<open>auto simp: wrapped_by_def intro: get_key_primitive_stable [OF le]\<close>)
  with le w show ?thesis by (auto simp: wrapped_by_def registry_le_def)
qed

lemma WrapKeyset_stable:
  assumes le: "registry_le R R'" and x: "WrapKeyset parse R ks a q = Inr x"
  shows "\<exists>w S. wrapped_by parse R ks a q w S \<and> WrapKeyset parse R' ks a q = wr_Wrap w (monitoring_factory R') S"
    and "monitoring_factory R' = monitoring_factory R \<Longrightarrow> WrapKeyset parse R' ks a q = Inr x"
proof -
  obtain w S where w: "wrapped_by parse R ks a q w S" "wr_Wrap w (monitoring_factory R) S = Inr x"
    using WrapKeyset_wrapped_by [OF x] by blast
  note w' = wrapped_by_Wrap [OF wrapped_by_stable [OF le w(1)]]
  from w w' show "\<exists>w S. wrapped_by parse R ks a q w S \<and> WrapKeyset parse R' ks a q = wr_Wrap w (monitoring_factory R') S" by blast
  from w w' show "monitoring_factory R' = monitoring_factory R \<Longrightarrow> WrapKeyset parse R' ks a q = Inr x" by simp
qed

lemma NewKeyData_only_less:
  assumes "registry_le R R'" and "get_key_type_info R (kt_type_url t) = Inr info"
  shows "Registry_NewKeyData R' t = Registry_NewKeyData R t \<or> Registry_NewKeyData R' t = Inl kInvalidArgument"
    and "\<not> new_key_allowed info \<Longrightarrow> Registry_NewKeyData R' t = Inl kInvalidArgument"
proof -
  obtain info' where "get_key_type_info R' (kt_type_url t) = Inr info'" and le: "info_le info info'"
    using registry_le_info [OF assms] by blast
  with assms(2) info_le_simps [OF le]
  show "Registry_NewKeyData R' t = Registry_NewKeyData R t \<or> Registry_NewKeyData R' t = Inl kInvalidArgument"
    and "\<not> new_key_allowed info \<Longrightarrow> Registry_NewKeyData R' t = Inl kInvalidArgument"
    by (auto simp: Registry_NewKeyData_def)
qed

section \<open>Properties\<close>

text \<open>
  (C25) Nothing that is registered is replaced. After any sequence of registrations, of key managers,
  wrappers, a monitoring factory or the FIPS restriction, successful or not: a primitive the
  registry could make for key data it still makes, the same one. A keyset it could wrap is still
  wrapped by the same wrapper and from the same primitive set, with the monitoring factory there is
  now; the result is the same unless a factory has been registered since. New keys of a known
  type are made as before or, once their creation is forbidden, never again; the monitoring
  factory and the FIPS restriction stay. A registration that fails changes nothing.
\<close>

theorem registrations_are_permanent:
  assumes "registry_steps build R R'"
  shows "(\<forall>p kd x. GetPrimitive R p kd = Inr x \<longrightarrow> GetPrimitive R' p kd = Inr x) \<and>
         (\<forall>parse :: ProtoKeySerialization \<Rightarrow> 'k StatusOr. \<forall>ks a q x. WrapKeyset parse R ks a q = Inr x \<longrightarrow>
            (\<exists>w S. wrapped_by parse R ks a q w S \<and> WrapKeyset parse R' ks a q = wr_Wrap w (monitoring_factory R') S) \<and>
            (monitoring_factory R \<noteq> None \<or> monitoring_factory R' = None \<longrightarrow> WrapKeyset parse R' ks a q = Inr x)) \<and>
         (\<forall>t info. get_key_type_info R (kt_type_url t) = Inr info \<longrightarrow>
            (Registry_NewKeyData R' t = Registry_NewKeyData R t \<or> Registry_NewKeyData R' t = Inl kInvalidArgument) \<and>
            (\<not> new_key_allowed info \<longrightarrow> Registry_NewKeyData R' t = Inl kInvalidArgument)) \<and>
         (\<forall>f. monitoring_factory R = Some f \<longrightarrow> monitoring_factory R' = Some f) \<and>
         (fips_restricted R \<longrightarrow> fips_restricted R') \<and>
         (\<forall>op. isl (fst (run_registry_op build op R')) \<longrightarrow> snd (run_registry_op build op R') = R')"
proof -
  have le: "registry_le R R'" by (rule registry_steps_le [OF assms])
  then have f: "(\<forall>f. monitoring_factory R = Some f \<longrightarrow> monitoring_factory R' = Some f) \<and> (fips_restricted R \<longrightarrow> fips_restricted R')"
    by (simp add: registry_le_def)
  have same: "monitoring_factory R' = monitoring_factory R" if "monitoring_factory R \<noteq> None \<or> monitoring_factory R' = None"
    using that f by (cases "monitoring_factory R") auto
  have "(\<exists>w S. wrapped_by parse R ks a q w S \<and> WrapKeyset parse R' ks a q = wr_Wrap w (monitoring_factory R') S) \<and>
      (monitoring_factory R \<noteq> None \<or> monitoring_factory R' = None \<longrightarrow> WrapKeyset parse R' ks a q = Inr x)"
    if "WrapKeyset parse R ks a q = Inr x" for parse :: "ProtoKeySerialization \<Rightarrow> 'k StatusOr" and ks a q x
    using WrapKeyset_stable [OF le that] same by blast
  with f GetPrimitive_stable [OF le] NewKeyData_only_less [OF le] run_registry_op_atomic
  show ?thesis by blast
qed

definition sample_manager :: "nat \<Rightarrow> FipsCompatibility \<Rightarrow> nat Manager" where
  "sample_manager i fips =
     \<lparr>km_type_index = i, get_key_type = [65], DoesSupport = (\<lambda>u. True), FipsStatus = fips,
      km_primitives = [1 \<mapsto> (\<lambda>kd. Inr (Some 42))],
      km_NewKeyData = (\<lambda>v. Inr \<lparr>type_url = [65], key_value = v, key_material_type = SYMMETRIC\<rparr>),
      km_GetPublicKeyData = None, km_key_deriver = None\<rparr>"

definition no_fips :: fips_build where
  "no_fips = \<lparr>kUseOnlyFips = False, IsFipsEnabledInSsl = False\<rparr>"

definition registry_before :: "(nat, unit) Registry" where
  "registry_before =
     snd (run_registry_op no_fips (OpRegisterKeyTypeManager (Some (sample_manager 5 kNotFips)) False) Registry_empty)"

definition registry_after :: "(nat, unit) Registry" where
  "registry_after =
     snd (run_registry_op no_fips (OpRegisterKeyTypeManager (Some (sample_manager 5 kNotFips)) True) registry_before)"

lemmas registry_simps = RegisterKeyTypeManager_def AddKeyTypeManager_def ChecksFipsCompatibility_def IsFipsModeEnabled_def
  IsInsertable_def store_Add_def Registry_empty_def Info_of_KeyTypeManager_def get_key_type_info_def store_Get_def

theorem registrations_are_permanent_witness:
  "GetPrimitive registry_after 1 \<lparr>type_url = [65], key_value = [], key_material_type = SYMMETRIC\<rparr> = Inr (Some 42) \<and>
   Registry_NewKeyData registry_after \<lparr>kt_type_url = [65], kt_value = [], kt_output_prefix_type = RAW\<rparr> = Inl kInvalidArgument"
proof -
  let ?kd = "\<lparr>type_url = [65], key_value = [], key_material_type = SYMMETRIC\<rparr>"
  let ?t = "\<lparr>kt_type_url = [65], kt_value = [], kt_output_prefix_type = RAW\<rparr>"
  have steps: "registry_steps no_fips registry_before registry_after"
    unfolding registry_after_def by (rule steps_step) (rule steps_refl)
  obtain info where info: "get_key_type_info registry_before [65] = Inr info" "\<not> new_key_allowed info"
    by (simp add: registry_before_def registry_simps sample_manager_def no_fips_def)
  have "GetPrimitive registry_before 1 ?kd = Inr (Some 42)"
    by (simp add: GetPrimitive_def Info_GetPrimitive_def Info_get_key_manager_def registry_before_def registry_simps
        sample_manager_def no_fips_def)
  then have "GetPrimitive registry_after 1 ?kd = Inr (Some 42)"
    using registrations_are_permanent [OF steps] by blast
  moreover have "Registry_NewKeyData registry_after ?t = Inl kInvalidArgument"
    using registrations_are_permanent [OF steps] info by (metis KeyTemplate.select_convs(1))
  ultimately show ?thesis by blast
qed

text \<open>The key managers an operation is called with.\<close>

fun op_managers :: "('p, 'f) registry_op \<Rightarrow> 'p Manager set" where
  "op_managers (OpRegisterKeyManager m allowed) = set_option m"
| "op_managers (OpRegisterKeyTypeManager m allowed) = set_option m"
| "op_managers (OpRegisterAsymmetricKeyManagers m m' allowed) = set_option m \<union> set_option m'"
| "op_managers _ = {}"

text \<open>
  \<open>fips_checked\<close>: every key type comes from one of the given managers, one that passes the FIPS check of
  the mode the registry is in.
\<close>

definition info_from :: "'p Info \<Rightarrow> 'p Manager \<Rightarrow> bool" where
  "info_from info m \<longleftrightarrow> key_manager_type_index info = km_type_index m \<and> primitive_to_manager info = km_primitives m \<and>
     key_factory info = km_NewKeyData m"

definition store_checked :: "('p Manager \<Rightarrow> bool) \<Rightarrow> 'p KeyTypeInfoStore \<Rightarrow> bool" where
  "store_checked ok s \<longleftrightarrow>
     (\<forall>url info. s url = Some info \<longrightarrow> (\<exists>m. get_key_type m = url \<and> info_from info m \<and> ok m))"

definition fips_checked :: "fips_build \<Rightarrow> 'p Manager set \<Rightarrow> ('p, 'f) Registry \<Rightarrow> bool" where
  "fips_checked build M R \<longleftrightarrow>
     store_checked (\<lambda>m. m \<in> M \<and> ChecksFipsCompatibility build (fips_restricted R) (FipsStatus m) = OkStatus) (key_type_info_store R)"

lemma store_checked_mono: "store_checked ok s \<Longrightarrow> (\<And>m. ok m \<Longrightarrow> ok' m) \<Longrightarrow> store_checked ok' s"
  unfolding store_checked_def by blast

lemma store_checked_Add:
  assumes s: "store_checked ok s" and ok: "ok m" and info: "info_from info m"
  shows "store_checked ok (store_Add (get_key_type m) info allowed s)"
  unfolding store_checked_def
proof (intro allI impI)
  fix url x
  assume x: "store_Add (get_key_type m) info allowed s url = Some x"
  show "\<exists>m'. get_key_type m' = url \<and> info_from x m' \<and> ok m'"
  proof (cases "url = get_key_type m \<and> s url = None")
    case True
    with x have "x = info" by (auto simp: store_Add_def)
    with True ok info show ?thesis by blast
  next
    case False
    with x obtain y where "s url = Some y" "info_from x = info_from y"
      by (cases "s (get_key_type m)") (auto simp: store_Add_def info_from_def fun_eq_iff split: if_splits)
    with s show ?thesis unfolding store_checked_def by metis
  qed
qed

lemma store_checked_flag:
  "\<lbrakk>store_checked ok s; s url = Some info\<rbrakk> \<Longrightarrow> store_checked ok (s(url \<mapsto> info\<lparr>new_key_allowed := b\<rparr>))"
  unfolding store_checked_def info_from_def by (auto split: if_splits)

lemma status_cases: "\<not> isl (st :: Status) \<longleftrightarrow> st = OkStatus"
  by (cases st) auto

lemma AddKeyTypeManager_checked:
  assumes "store_checked ok s" and "ChecksFipsCompatibility build restricted (FipsStatus m) = OkStatus \<Longrightarrow> ok m"
  shows "store_checked ok (snd (AddKeyTypeManager build restricted m allowed s))"
  using assms
  by (cases "ChecksFipsCompatibility build restricted (FipsStatus m)")
    (auto simp: AddKeyTypeManager_def Let_def Info_of_KeyTypeManager_def info_from_def intro!: store_checked_Add split: sum.split)

lemma AddAsymmetric_checked:
  assumes s: "store_checked ok s"
    and ok: "\<And>m. m \<in> {priv, pub} \<Longrightarrow> ChecksFipsCompatibility build restricted (FipsStatus m) = OkStatus \<Longrightarrow> ok m"
  shows "store_checked ok (snd (AddAsymmetricKeyTypeManagers build restricted priv pub allowed s))"
proof -
  have both: "store_checked ok (store_Add (get_key_type pub) (Info_of_KeyTypeManager pub allowed) allowed
       (store_Add (get_key_type priv) (Info_of_PrivateKeyTypeManager priv pub allowed) allowed s))"
    if "ok priv" "ok pub"
    using s that
    by (intro store_checked_Add) (simp_all add: Info_of_KeyTypeManager_def Info_of_PrivateKeyTypeManager_def info_from_def)
  have flag: "store_checked ok (s(get_key_type priv \<mapsto> found\<lparr>new_key_allowed := allowed\<rparr>))"
    if "store_Get s (get_key_type priv) = Inr found" for found
    using that s by (auto simp: store_Get_def intro!: store_checked_flag split: option.splits)
  show ?thesis
    using s both flag ok [of priv] ok [of pub]
    by (auto simp: AddAsymmetricKeyTypeManagers_def Let_def status_cases split: sum.split)
qed

lemma run_registry_op_fips:
  assumes R: "fips_checked build M R" and op: "\<forall>m allowed. op \<noteq> OpRegisterKeyManager m allowed"
  shows "fips_checked build (M \<union> op_managers op) (snd (run_registry_op build op R))"
proof -
  note R = R [unfolded fips_checked_def, THEN store_checked_mono]
  show ?thesis
  proof (cases op)
    case (OpRegisterKeyTypeManager m allowed)
    then show ?thesis
      by (auto simp: RegisterKeyTypeManager_def fips_checked_def case_prod_beta Let_def intro!: AddKeyTypeManager_checked R
          split: option.split)
  next
    case (OpRegisterAsymmetricKeyManagers m m' allowed)
    then show ?thesis
      by (auto simp: RegisterAsymmetricKeyManagers_def fips_checked_def case_prod_beta Let_def intro!: AddAsymmetric_checked R
          split: option.split)
  next
    case OpRestrictToFipsIfEmpty
    then show ?thesis by (auto simp: RestrictToFipsIfEmpty_def fips_checked_def store_checked_def [of _ Map.empty] intro: R)
  qed (use op R in \<open>auto simp: RegisterPrimitiveWrapper_def RegisterMonitoringClientFactory_def fips_checked_def case_prod_beta
        Let_def split: option.split\<close>)
qed

lemma fold_registry_ops_fips:
  assumes "\<forall>op \<in> set ops. \<forall>m allowed. op \<noteq> OpRegisterKeyManager m allowed" and "fips_checked build M R"
  shows "fips_checked build (M \<union> \<Union> (op_managers ` set ops)) (fold (\<lambda>op R. snd (run_registry_op build op R)) ops R)"
  using assms
proof (induction ops arbitrary: M R)
  case (Cons op ops)
  then show ?case
    using Cons.IH [OF _ run_registry_op_fips [of build M R op]] by (simp add: Un_assoc [symmetric])
qed simp

text \<open>
  (C26) FIPS mode: in a registry filled by any sequence of registrations that uses no legacy
  \<^verbatim>\<open>KeyManager\<close>, also one that turns the FIPS restriction on in between, every key type
  belongs to one of the managers that were registered, and this manager is admissible in the mode the
  registry is now in. In FIPS mode this means that its algorithm needs BoringCrypto and the crypto
  library was built with it.
\<close>

theorem fips_mode_is_enforced:
  assumes ops: "\<forall>op \<in> set ops. \<forall>m allowed. op \<noteq> OpRegisterKeyManager m allowed"
    and R: "(R :: ('p, 'f) Registry) = fold (\<lambda>op R. snd (run_registry_op build op R)) ops Registry_empty"
    and info: "get_key_type_info R url = Inr info"
  shows "\<exists>op \<in> set ops. \<exists>m \<in> op_managers op. get_key_type m = url \<and> info_from info m \<and>
             (IsFipsModeEnabled build (fips_restricted R) \<longrightarrow> FipsStatus m = kRequiresBoringCrypto \<and> IsFipsEnabledInSsl build)"
proof -
  have "fips_checked build {} (Registry_empty :: ('p, 'f) Registry)"
    by (simp add: fips_checked_def store_checked_def Registry_empty_def)
  from fold_registry_ops_fips [OF ops this] have "fips_checked build (\<Union> (op_managers ` set ops)) R" by (simp add: R)
  moreover have "key_type_info_store R url = Some info"
    using info by (simp add: get_key_type_info_def store_Get_def split: option.splits)
  ultimately obtain op m where m: "op \<in> set ops" "m \<in> op_managers op" "get_key_type m = url" "info_from info m"
    "ChecksFipsCompatibility build (fips_restricted R) (FipsStatus m) = OkStatus"
    unfolding fips_checked_def store_checked_def by blast
  from m(5) have "IsFipsModeEnabled build (fips_restricted R) \<longrightarrow> FipsStatus m = kRequiresBoringCrypto \<and> IsFipsEnabledInSsl build"
    by (auto simp: ChecksFipsCompatibility_def split: FipsCompatibility.splits if_splits)
  with m show ?thesis by blast
qed

definition boring_build :: fips_build where
  "boring_build = \<lparr>kUseOnlyFips = False, IsFipsEnabledInSsl = True\<rparr>"

definition fips_ops :: "(nat, unit) registry_op list" where
  "fips_ops =
     [OpRestrictToFipsIfEmpty, OpRegisterKeyTypeManager (Some (sample_manager 5 kRequiresBoringCrypto)) True]"

theorem fips_mode_is_enforced_witness:
  "\<exists>R info. R = fold (\<lambda>op R. snd (run_registry_op boring_build op R)) fips_ops Registry_empty \<and>
            fips_restricted R \<and> get_key_type_info R [65] = Inr info \<and>
            (\<exists>op \<in> set fips_ops. \<exists>m \<in> op_managers op. info_from info m \<and> FipsStatus m = kRequiresBoringCrypto)"
proof -
  let ?R = "fold (\<lambda>op R. snd (run_registry_op boring_build op R)) fips_ops Registry_empty"
  have ops: "\<forall>op \<in> set fips_ops. \<forall>m allowed. op \<noteq> OpRegisterKeyManager m allowed" by (simp add: fips_ops_def)
  have r: "fips_restricted ?R"
    by (simp add: fips_ops_def RestrictToFipsIfEmpty_def registry_simps sample_manager_def boring_build_def Let_def)
  obtain info where i: "get_key_type_info ?R [65] = Inr info"
    by (simp add: fips_ops_def RestrictToFipsIfEmpty_def registry_simps sample_manager_def boring_build_def Let_def)
  from fips_mode_is_enforced [OF ops refl i] r i show ?thesis unfolding IsFipsModeEnabled_def by blast
qed

text \<open>The legacy way to register a key manager does not check FIPS compatibility.\<close>

lemma legacy_manager_escapes_fips:
  assumes "DoesSupport m (get_key_type m)" and "key_type_info_store R (get_key_type m) = None"
  shows "fst (RegisterKeyManager (Some m) True R) = OkStatus \<and>
         get_key_type_info (snd (RegisterKeyManager (Some m) True R)) (get_key_type m) = Inr (Info_of_KeyManager m True)"
  using assms
  by (simp add: RegisterKeyManager_def AddKeyManager_def IsInsertable_def store_Add_def get_key_type_info_def store_Get_def)

end
