(* ===== verification/Streams.thy ===== *)
theory Streams
  imports Tink_Prelude "HOL-Library.Monad_Syntax"
begin

text \<open>
  Byte streams. \<^verbatim>\<open>OutputStream\<close> and \<^verbatim>\<open>InputStream\<close> (\<^verbatim>\<open>tink/output_stream.h\<close>,
  \<^verbatim>\<open>tink/input_stream.h\<close>) are interfaces: here a record of operations over the state of
  the stream, and a locale with the laws the header files promise. A stream hands out a buffer that the
  caller fills (or reads) and of which it may give back the end. The helpers of the streaming AEAD that
  copy whole strings through such buffers are proved correct once, in the locales; the adapters for
  \<^verbatim>\<open>std::ostream\<close> and \<^verbatim>\<open>std::istream\<close> (\<^verbatim>\<open>tink/util/ostream_output_stream.cc\<close>,
  \<^verbatim>\<open>tink/util/istream_input_stream.cc\<close>) are shown to satisfy the laws.

  A call that does not return is \<open>None\<close>: the copying loops run forever if the stream keeps
  handing out empty buffers. Buffer sizes are natural numbers; in the source they are \<^verbatim>\<open>int\<close>s that
  come from positive \<^verbatim>\<open>int\<close> parameters. A position is the number of bytes, as \<^verbatim>\<open>int\<close>.
\<close>

section \<open>Definitions\<close>

subsection \<open>Interfaces\<close>

text \<open>\<open>os_Store\<close> stands for the caller's \<^verbatim>\<open>memcpy\<close> to the start of the buffer that \<^verbatim>\<open>Next\<close> returned last.\<close>

record 's OutputStream =
  os_Next :: "'s \<Rightarrow> (nat StatusOr \<times> 's) option"
  os_Store :: "bytes \<Rightarrow> 's \<Rightarrow> 's"
  os_BackUp :: "int \<Rightarrow> 's \<Rightarrow> 's"
  os_Close :: "'s \<Rightarrow> (Status \<times> 's) option"

text \<open>\<open>is_Next\<close> returns the contents of the buffer.\<close>

record 's InputStream =
  is_Next :: "'s \<Rightarrow> (bytes StatusOr \<times> 's) option"
  is_BackUp :: "int \<Rightarrow> 's \<Rightarrow> 's"

subsection \<open>Copying to and from a stream\<close>

text \<open>The loop of \<^verbatim>\<open>WriteToStream\<close>: what is still to be written, and \<^verbatim>\<open>available_space\<close> and \<^verbatim>\<open>available_bytes\<close>.\<close>

partial_function (option) write_loop ::
    "'s OutputStream \<Rightarrow> bytes \<Rightarrow> nat \<Rightarrow> nat \<Rightarrow> 's \<Rightarrow> ((nat \<times> nat) StatusOr \<times> 's) option" where
  "write_loop ops contents available_space available_bytes s =
     (if contents = [] then Some (Inr (available_space, available_bytes), s)
      else do {
        (r, s') \<leftarrow> os_Next ops s;
        (case r of
           Inl e \<Rightarrow> Some (Inl e, s')
         | Inr n \<Rightarrow>
             write_loop ops (drop (min n (length contents)) contents) n (min n (length contents))
               (os_Store ops (take (min n (length contents)) contents) s'))
      })"

definition WriteToStream :: "'s OutputStream \<Rightarrow> bytes \<Rightarrow> 's \<Rightarrow> (Status \<times> 's) option" where
  "WriteToStream ops contents s =
     do {
       (r, s') \<leftarrow> write_loop ops contents 0 0 s;
       (case r of
          Inl e \<Rightarrow> Some (Inl e, s')
        | Inr (available_space, available_bytes) \<Rightarrow>
            Some (OkStatus,
                  if available_space > available_bytes
                  then os_BackUp ops (int (available_space - available_bytes)) s' else s'))
     }"

text \<open>
  The loop of \<^verbatim>\<open>ReadFromStream\<close>: the bytes still to be read, those read so far, and
  \<^verbatim>\<open>read_bytes\<close> and \<^verbatim>\<open>needed_bytes\<close>. The result is the status, what was read, and how much is to be given back.
\<close>

partial_function (option) read_loop ::
    "'s InputStream \<Rightarrow> nat \<Rightarrow> bytes \<Rightarrow> nat \<Rightarrow> nat \<Rightarrow> 's \<Rightarrow> (Status \<times> bytes \<times> nat \<times> nat \<times> 's) option" where
  "read_loop ops bytes_to_be_read out read_bytes needed_bytes s =
     (if bytes_to_be_read = 0 then Some (OkStatus, out, read_bytes, needed_bytes, s)
      else do {
        (r, s') \<leftarrow> is_Next ops s;
        (case r of
           Inl e \<Rightarrow> Some (Inl e, out, read_bytes, needed_bytes, s')
         | Inr buffer \<Rightarrow>
             read_loop ops (bytes_to_be_read - min (length buffer) bytes_to_be_read)
               (out @ take (min (length buffer) bytes_to_be_read) buffer) (length buffer)
               (min (length buffer) bytes_to_be_read) s')
      })"

text \<open>After an error other than the end of the stream the output has its full size and is not used.\<close>

definition ReadFromStream :: "'s InputStream \<Rightarrow> int \<Rightarrow> 's \<Rightarrow> (Status \<times> bytes \<times> 's) option" where
  "ReadFromStream ops count s =
     (if count \<le> 0 then Some (Inl kInternal, [], s)
      else do {
        (st, out, read_bytes, needed_bytes, s') \<leftarrow> read_loop ops (nat count) [] 0 0 s;
        (case st of
           Inl e \<Rightarrow> Some (Inl e, out, s')
         | Inr _ \<Rightarrow>
             Some (OkStatus, out,
                   if read_bytes > needed_bytes then is_BackUp ops (int (read_bytes - needed_bytes)) s' else s'))
      })"

subsection \<open>Adapter for std::ostream\<close>

text \<open>
  What is used of \<^verbatim>\<open>std::ostream\<close>: the bytes its buffer took, how many bytes its \<open>k\<close>-th write accepts, and its
  state. \<^verbatim>\<open>sputn\<close> on the stream buffer does not change the state of the stream; \<^verbatim>\<open>write\<close> makes it bad if not
  everything could be written.
\<close>

record ostream =
  os_written :: bytes
  os_accepts :: "nat \<Rightarrow> nat"
  os_calls :: nat
  os_good :: bool
  os_flushes :: bool

definition sputn :: "bytes \<Rightarrow> ostream \<Rightarrow> nat \<times> ostream" where
  "sputn bs out =
     (let k = min (length bs) (os_accepts out (os_calls out))
      in (k, out\<lparr>os_written := os_written out @ take k bs, os_calls := Suc (os_calls out)\<rparr>))"

definition ostream_write :: "bytes \<Rightarrow> ostream \<Rightarrow> ostream" where
  "ostream_write bs out =
     (if \<not> os_good out then out
      else let (k, out') = sputn bs out in out'\<lparr>os_good := (k = length bs)\<rparr>)"

definition ostream_flush :: "ostream \<Rightarrow> ostream" where
  "ostream_flush out = (if os_good out \<and> \<not> os_flushes out then out\<lparr>os_good := False\<rparr> else out)"

record OstreamOutputStream =
  oo_buffer_size :: nat
  oo_output :: ostream
  oo_buffer :: "bytes option"
  oo_count_in_buffer :: nat
  oo_count_backedup :: nat
  oo_position :: int
  oo_buffer_offset :: nat
  oo_status :: Status

definition OstreamOutputStream_new :: "ostream \<Rightarrow> int \<Rightarrow> OstreamOutputStream" where
  "OstreamOutputStream_new out n_bytes =
     \<lparr>oo_buffer_size = (if n_bytes > 0 then nat n_bytes else 128 * 1024), oo_output = out, oo_buffer = None,
      oo_count_in_buffer = 0, oo_count_backedup = 0, oo_position = 0, oo_buffer_offset = 0, oo_status = OkStatus\<rparr>"

definition OstreamOutputStream_Next :: "OstreamOutputStream \<Rightarrow> nat StatusOr \<times> OstreamOutputStream" where
  "OstreamOutputStream_Next s =
     (case oo_status s of
        Inl e \<Rightarrow> (Inl e, s)
      | Inr _ \<Rightarrow>
          (case oo_buffer s of
             None \<Rightarrow>
               (Inr (oo_buffer_size s),
                s\<lparr>oo_buffer := Some (replicate (oo_buffer_size s) 0), oo_count_in_buffer := oo_buffer_size s,
                  oo_position := int (oo_buffer_size s)\<rparr>)
           | Some buffer \<Rightarrow>
               if oo_count_backedup s > 0
               then (Inr (oo_count_backedup s),
                     s\<lparr>oo_position := oo_position s + int (oo_count_backedup s), oo_buffer_offset := oo_count_in_buffer s,
                       oo_count_in_buffer := oo_count_in_buffer s + oo_count_backedup s, oo_count_backedup := 0\<rparr>)
               else
                 let (write_result, out) = sputn buffer (oo_output s)
                 in if write_result = 0
                    then if os_good out then (Inr 0, s\<lparr>oo_output := out\<rparr>)
                         else (Inl kInternal, s\<lparr>oo_output := out, oo_status := Inl kInternal\<rparr>)
                    else
                      let offset = oo_buffer_size s - write_result
                      in (Inr write_result,
                          s\<lparr>oo_output := out, oo_position := oo_position s + int write_result,
                            oo_count_in_buffer := oo_buffer_size s, oo_count_backedup := 0, oo_buffer_offset := offset,
                            oo_buffer := Some (take offset (drop write_result buffer) @ drop offset buffer)\<rparr>)))"

definition OstreamOutputStream_Store :: "bytes \<Rightarrow> OstreamOutputStream \<Rightarrow> OstreamOutputStream" where
  "OstreamOutputStream_Store bs s =
     (case oo_buffer s of
        None \<Rightarrow> s
      | Some buffer \<Rightarrow>
          s\<lparr>oo_buffer := Some (take (oo_buffer_offset s) buffer @ bs @ drop (oo_buffer_offset s + length bs) buffer)\<rparr>)"

definition OstreamOutputStream_BackUp :: "int \<Rightarrow> OstreamOutputStream \<Rightarrow> OstreamOutputStream" where
  "OstreamOutputStream_BackUp count s =
     (if isl (oo_status s) \<or> count < 1 \<or> oo_count_in_buffer s = 0 then s
      else
        let curr_buffer_size = oo_buffer_size s - oo_buffer_offset s;
            actual_count = min (nat count) (curr_buffer_size - oo_count_backedup s)
        in s\<lparr>oo_count_backedup := oo_count_backedup s + actual_count,
             oo_count_in_buffer := oo_count_in_buffer s - actual_count,
             oo_position := oo_position s - int actual_count\<rparr>)"

definition OstreamOutputStream_Close :: "OstreamOutputStream \<Rightarrow> Status \<times> OstreamOutputStream" where
  "OstreamOutputStream_Close s =
     (case oo_status s of
        Inl e \<Rightarrow> (Inl e, s)
      | Inr _ \<Rightarrow>
          let out = (if oo_count_in_buffer s > 0
                     then ostream_write (take (oo_count_in_buffer s) (the (oo_buffer s))) (oo_output s) else oo_output s)
          in if oo_count_in_buffer s > 0 \<and> \<not> os_good out
             then (Inl kInternal, s\<lparr>oo_output := out, oo_status := Inl kInternal\<rparr>)
             else
               let out' = ostream_flush out
               in if \<not> os_good out' then (Inl kInternal, s\<lparr>oo_output := out', oo_status := Inl kInternal\<rparr>)
                  else (OkStatus, s\<lparr>oo_output := out', oo_status := Inl kFailedPrecondition\<rparr>))"

definition Ostream_ops :: "OstreamOutputStream OutputStream" where
  "Ostream_ops =
     \<lparr>os_Next = (\<lambda>s. Some (OstreamOutputStream_Next s)), os_Store = OstreamOutputStream_Store,
      os_BackUp = OstreamOutputStream_BackUp, os_Close = (\<lambda>s. Some (OstreamOutputStream_Close s))\<rparr>"

subsection \<open>Adapter for std::istream\<close>

text \<open>
  What is used of \<^verbatim>\<open>std::istream\<close>: the bytes still to come, whether the device fails after them (or the file
  ends), and the state bits. A \<^verbatim>\<open>read\<close> that gets fewer bytes than it asked for sets one of the bits; the
  bytes it got are counted by \<^verbatim>\<open>gcount\<close>. A stream with a bit set reads nothing.
\<close>

record istream =
  in_rest :: bytes
  in_fails :: bool
  in_at_eof :: bool
  in_bad :: bool

definition istream_read :: "nat \<Rightarrow> istream \<Rightarrow> bytes \<times> istream" where
  "istream_read n inp =
     (if in_at_eof inp \<or> in_bad inp then ([], inp)
      else (take n (in_rest inp),
            inp\<lparr>in_rest := drop n (in_rest inp), in_at_eof := (length (in_rest inp) < n \<and> \<not> in_fails inp),
                in_bad := (length (in_rest inp) < n \<and> in_fails inp)\<rparr>))"

text \<open>The buffer is modelled by the bytes the last read put into it.\<close>

record IstreamInputStream =
  ii_buffer_size :: nat
  ii_input :: istream
  ii_buffer :: bytes
  ii_count_in_buffer :: nat
  ii_count_backedup :: nat
  ii_position :: int
  ii_buffer_offset :: nat
  ii_status :: Status

definition IstreamInputStream_new :: "istream \<Rightarrow> int \<Rightarrow> IstreamInputStream" where
  "IstreamInputStream_new inp n_bytes =
     \<lparr>ii_buffer_size = (if n_bytes > 0 then nat n_bytes else 128 * 1024), ii_input = inp, ii_buffer = [],
      ii_count_in_buffer = 0, ii_count_backedup = 0, ii_position = 0, ii_buffer_offset = 0, ii_status = OkStatus\<rparr>"

definition IstreamInputStream_Next :: "IstreamInputStream \<Rightarrow> bytes StatusOr \<times> IstreamInputStream" where
  "IstreamInputStream_Next s =
     (case ii_status s of
        Inl e \<Rightarrow> (Inl e, s)
      | Inr _ \<Rightarrow>
          if ii_count_backedup s > 0
          then let offset = ii_buffer_offset s + (ii_count_in_buffer s - ii_count_backedup s)
               in (Inr (take (ii_count_backedup s) (drop offset (ii_buffer s))),
                   s\<lparr>ii_buffer_offset := offset, ii_count_in_buffer := ii_count_backedup s, ii_count_backedup := 0,
                     ii_position := ii_position s + int (ii_count_backedup s)\<rparr>)
          else
            let (chunk, inp) = istream_read (ii_buffer_size s) (ii_input s)
            in if chunk = []
               then if \<not> in_at_eof inp \<and> \<not> in_bad inp then (Inr [], s\<lparr>ii_input := inp\<rparr>)
                    else if in_at_eof inp then (Inl kOutOfRange, s\<lparr>ii_input := inp, ii_status := Inl kOutOfRange\<rparr>)
                    else (Inl kInternal, s\<lparr>ii_input := inp, ii_status := Inl kInternal\<rparr>)
               else (Inr chunk,
                     s\<lparr>ii_input := inp, ii_buffer := chunk, ii_buffer_offset := 0, ii_count_backedup := 0,
                       ii_count_in_buffer := length chunk, ii_position := ii_position s + int (length chunk)\<rparr>))"

definition IstreamInputStream_BackUp :: "int \<Rightarrow> IstreamInputStream \<Rightarrow> IstreamInputStream" where
  "IstreamInputStream_BackUp count s =
     (if isl (ii_status s) \<or> count < 1 \<or> ii_count_backedup s = ii_count_in_buffer s then s
      else
        let actual_count = min (nat count) (ii_count_in_buffer s - ii_count_backedup s)
        in s\<lparr>ii_count_backedup := ii_count_backedup s + actual_count, ii_position := ii_position s - int actual_count\<rparr>)"

definition Istream_ops :: "IstreamInputStream InputStream" where
  "Istream_ops =
     \<lparr>is_Next = (\<lambda>s. Some (IstreamInputStream_Next s)), is_BackUp = IstreamInputStream_BackUp\<rparr>"

section \<open>Contracts\<close>

text \<open>
  \<open>rep s d n\<close>: the data written to the stream so far is \<open>d\<close>, of which the last \<open>n\<close> bytes are in the
  buffer returned last and can still be changed or given back. \<open>final s d\<close>: the stream was closed
  and has passed on \<open>d\<close>.
\<close>

lemma take_drop_append: "take k c @ drop k c @ x = c @ x"
  by (metis append.assoc append_take_drop_id)

locale output_stream =
  fixes ops :: "'s OutputStream"
    and rep :: "'s \<Rightarrow> bytes \<Rightarrow> nat \<Rightarrow> bool"
    and final :: "'s \<Rightarrow> bytes \<Rightarrow> bool"
  assumes next_buffer: "\<lbrakk>rep s d n; os_Next ops s = Some (Inr k, s')\<rbrakk> \<Longrightarrow> \<exists>g. length g = k \<and> rep s' (d @ g) k"
    and store: "\<lbrakk>rep s (d @ g) n; length g = n; length bs \<le> n\<rbrakk> \<Longrightarrow> rep (os_Store ops bs s) (d @ bs @ drop (length bs) g) n"
    and back_up: "\<lbrakk>rep s (d @ g) n; length g = n; nat j \<le> n\<rbrakk> \<Longrightarrow> rep (os_BackUp ops j s) (d @ take (n - nat j) g) (n - nat j)"
    and close: "\<lbrakk>rep s d n; os_Close ops s = Some (OkStatus, s')\<rbrakk> \<Longrightarrow> final s' d"
begin

lemma write_loop_rep:
  assumes "write_loop ops c a u s = Some (Inr (a', u'), s')" and "rep s d n" and "c \<noteq> []"
  shows "u' \<le> a' \<and> u' \<le> length c \<and> (\<exists>g. length g = a' - u' \<and> rep s' (d @ c @ g) a')"
proof -
  let ?P = "\<lambda>ops' c a u s (y :: (nat \<times> nat) StatusOr \<times> 's). ops' = ops \<longrightarrow> (\<forall>a' u' s' d n. y = (Inr (a', u'), s') \<and> rep s d n \<longrightarrow>
      (c = [] \<and> a' = a \<and> u' = u \<and> s' = s) \<or> (c \<noteq> [] \<and> u' \<le> a' \<and> u' \<le> length c \<and> (\<exists>g. length g = a' - u' \<and> rep s' (d @ c @ g) a')))"
  have "?P ops c a u s (Inr (a', u'), s')"
  proof (rule write_loop.raw_induct [where P = ?P, OF _ assms(1)])
    fix loop :: "'s OutputStream \<Rightarrow> bytes \<Rightarrow> nat \<Rightarrow> nat \<Rightarrow> 's \<Rightarrow> ((nat \<times> nat) StatusOr \<times> 's) option" and ops' c a u s y
    assume IH: "\<And>ops' c a u s y. loop ops' c a u s = Some y \<Longrightarrow> ?P ops' c a u s y"
      and body: "(if c = [] then Some (Inr (a, u), s)
         else do {
           (r, s') \<leftarrow> os_Next ops' s;
           (case r of Inl e \<Rightarrow> Some (Inl e, s')
            | Inr n \<Rightarrow> loop ops' (drop (min n (length c)) c) n (min n (length c)) (os_Store ops' (take (min n (length c)) c) s'))
         }) = Some y"
    show "?P ops' c a u s y"
    proof (intro impI allI; elim conjE)
      fix a' u' t' d n assume o: "ops' = ops" and y: "y = (Inr (a', u'), t')" and r: "rep s d n"
      show "(c = [] \<and> a' = a \<and> u' = u \<and> t' = s) \<or> (c \<noteq> [] \<and> u' \<le> a' \<and> u' \<le> length c \<and> (\<exists>g. length g = a' - u' \<and> rep t' (d @ c @ g) a'))"
      proof (cases "c = []")
        case True
        with body y show ?thesis by simp
      next
        case False
        with body y o obtain k s1 where nx: "os_Next ops s = Some (Inr k, s1)"
          and l: "loop ops (drop (min k (length c)) c) k (min k (length c)) (os_Store ops (take (min k (length c)) c) s1) = Some y"
          by (auto simp: bind_eq_Some_conv split: sum.splits) (metis sum.exhaust)
        from next_buffer [OF r nx] obtain g where g: "length g = k" "rep s1 (d @ g) k" by blast
        let ?m = "min k (length c)"
        have st: "rep (os_Store ops (take ?m c) s1) (d @ take ?m c @ drop ?m g) k"
          using store [OF g(2,1), of "take ?m c"] by simp
        show ?thesis
        proof (cases "drop ?m c = []")
          case True
          then have m: "take ?m c = c" "?m = length c" by auto
          from IH [OF l] y st have "a' = k \<and> u' = ?m \<and> t' = os_Store ops (take ?m c) s1"
            using True by (simp, blast)
          with st m g(1) False show ?thesis by (intro disjI2) (auto intro!: exI [of _ "drop ?m g"])
        next
          case more: False
          then have m: "?m = k" by auto
          have st': "rep (os_Store ops (take ?m c) s1) (d @ take k c) k" using st g(1) m by simp
          have "y = (Inr (a', u'), t') \<and> rep (os_Store ops (take ?m c) s1) (d @ take k c) k" using y st' by blast
          with IH [OF l] more
          have "u' \<le> a' \<and> u' \<le> length (drop ?m c) \<and> (\<exists>g. length g = a' - u' \<and> rep t' ((d @ take k c) @ drop ?m c @ g) a')" by blast
          then have "u' \<le> a' \<and> u' \<le> length c \<and> (\<exists>g. length g = a' - u' \<and> rep t' ((d @ take k c) @ drop k c @ g) a')" unfolding m by auto
          then show ?thesis using False by (simp add: take_drop_append)
        qed
      qed
    qed
  qed
  with assms(2,3) show ?thesis by blast
qed

text \<open>What \<^verbatim>\<open>WriteToStream\<close> wrote is appended to the data, whatever buffers the stream handed out.\<close>

lemma WriteToStream_rep:
  assumes w: "WriteToStream ops c s = Some (OkStatus, s')" and r: "rep s d n"
  shows "\<exists>n'. rep s' (d @ c) n'"
proof (cases "c = []")
  case True
  with w have "s' = s" by (auto simp: WriteToStream_def write_loop.simps)
  with r True show ?thesis by auto
next
  case False
  from w obtain a u t where l: "write_loop ops c 0 0 s = Some (Inr (a, u), t)"
    and s': "s' = (if a > u then os_BackUp ops (int (a - u)) t else t)"
    by (auto simp: WriteToStream_def bind_eq_Some_conv split: sum.splits prod.splits) (metis surj_pair sum.exhaust)
  from write_loop_rep [OF l r False] obtain g where g: "length g = a - u" "rep t (d @ c @ g) a" and le: "u \<le> a" "u \<le> length c" by blast
  show ?thesis
  proof (cases "a > u")
    case True
    let ?x = "drop (length c - u) c"
    have "rep t ((d @ take (length c - u) c) @ ?x @ g) a" using g(2) by (simp add: take_drop_append)
    moreover have "length (?x @ g) = a" "nat (int (a - u)) \<le> a" "a - nat (int (a - u)) = u" using g(1) le by simp_all
    ultimately have "rep (os_BackUp ops (int (a - u)) t) ((d @ take (length c - u) c) @ take u (?x @ g)) u"
      using back_up by metis
    moreover have "take u (?x @ g) = ?x" using le by simp
    ultimately have "rep (os_BackUp ops (int (a - u)) t) ((d @ take (length c - u) c) @ ?x) u" by metis
    then have "rep (os_BackUp ops (int (a - u)) t) (d @ c) u" by simp
    with True s' show ?thesis by auto
  next
    case False
    with s' g show ?thesis by auto
  qed
qed

end

text \<open>
  A stream that is never stuck: every call returns, and a buffer it hands out is not empty. Then
  \<^verbatim>\<open>WriteToStream\<close> returns too. The invariant holds after errors as well.
\<close>

locale live_output_stream =
  fixes ops :: "'s OutputStream"
    and live :: "'s \<Rightarrow> bool"
  assumes next_returns: "live s \<Longrightarrow> \<exists>r s'. os_Next ops s = Some (r, s') \<and> r \<noteq> Inr 0 \<and> live s'"
    and store_live: "live s \<Longrightarrow> live (os_Store ops bs s)"
    and back_up_live: "live s \<Longrightarrow> live (os_BackUp ops j s)"
    and close_returns: "live s \<Longrightarrow> \<exists>r s'. os_Close ops s = Some (r, s') \<and> live s'"
begin

lemma write_loop_returns: "live s \<Longrightarrow> \<exists>r s'. write_loop ops c a u s = Some (r, s') \<and> live s'"
proof (induction "length c" arbitrary: c a u s rule: less_induct)
  case less
  obtain r s1 where nx: "os_Next ops s = Some (r, s1)" "r \<noteq> Inr 0" "live s1" using next_returns [OF less.prems] by blast
  consider "c = []" | e where "c \<noteq> []" "r = Inl e" | k where "c \<noteq> []" "r = Inr k" "0 < k"
    using nx(2) by (cases r) auto
  then show ?case
  proof cases
    case (3 k)
    have "length (drop (min k (length c)) c) < length c" using 3 by simp
    from less.hyps [OF this store_live [OF nx(3)]] show ?thesis using 3 nx by (subst write_loop.simps) simp
  qed (use nx less.prems in \<open>simp_all add: write_loop.simps\<close>)
qed

lemma WriteToStream_returns:
  assumes "live s"
  shows "\<exists>r s'. WriteToStream ops c s = Some (r, s') \<and> live s'"
proof -
  from write_loop_returns [OF assms] obtain r s' where "write_loop ops c 0 0 s = Some (r, s')" "live s'" by blast
  then show ?thesis by (cases r) (auto simp: WriteToStream_def back_up_live)
qed

end

text \<open>
  \<open>rep s l d e\<close>: the part of the buffer returned last that was not given back is \<open>l\<close>, the stream has yet to
  return \<open>d\<close>, and then it ends with status \<open>e\<close>: \<^verbatim>\<open>kOutOfRange\<close> at its end, or an error. An empty buffer is
  handed out at most once, at the very end.
\<close>

locale input_stream =
  fixes ops :: "'s InputStream"
    and rep :: "'s \<Rightarrow> bytes \<Rightarrow> bytes \<Rightarrow> absl_code \<Rightarrow> bool"
  assumes next_data: "\<lbrakk>rep s l d e; is_Next ops s = Some (Inr b, s')\<rbrakk> \<Longrightarrow> \<exists>d'. d = b @ d' \<and> rep s' b d' e"
    and next_error: "\<lbrakk>rep s l d e; is_Next ops s = Some (Inl e', s')\<rbrakk> \<Longrightarrow> d = [] \<and> e' = e"
    and next_returns: "rep s l d e \<Longrightarrow> is_Next ops s \<noteq> None"
    and next_empty: "\<lbrakk>rep s l d e; is_Next ops s = Some (Inr [], s')\<rbrakk> \<Longrightarrow> \<exists>s''. is_Next ops s' = Some (Inl e, s'')"
    and give_back: "\<lbrakk>rep s (l @ g) d e; nat j = length g\<rbrakk> \<Longrightarrow> rep (is_BackUp ops j s) l (g @ d) e"
begin

text \<open>The two ways a call of \<^verbatim>\<open>Next\<close> can come out, with the stuttering step of an empty buffer removed.\<close>

lemma next_cases:
  assumes r: "rep s l d e"
  obtains (error) s' where "is_Next ops s = Some (Inl e, s')" "d = []"
  | (empty) s' s'' where "is_Next ops s = Some (Inr [], s')" "is_Next ops s' = Some (Inl e, s'')" "d = []"
  | (data) b s' d' where "is_Next ops s = Some (Inr b, s')" "b \<noteq> []" "d = b @ d'" "rep s' b d' e"
proof -
  from next_returns [OF r] obtain x s' where nx: "is_Next ops s = Some (x, s')" by auto
  show ?thesis
  proof (cases x)
    case (Inl e')
    with next_error [OF r] nx show ?thesis using error by blast
  next
    case (Inr b)
    from next_data [OF r nx [unfolded Inr]] obtain d' where d: "d = b @ d'" "rep s' b d' e" by blast
    show ?thesis
    proof (cases "b = []")
      case True
      from next_empty [OF r] nx Inr True obtain s'' where n2: "is_Next ops s' = Some (Inl e, s'')" by blast
      with next_error [OF d(2)] d(1) True nx Inr show ?thesis using empty by blast
    next
      case False
      with nx Inr d show ?thesis using data by blast
    qed
  qed
qed

lemma read_loop_data:
  assumes "rep s l d e" and "0 < k" and "k \<le> length d"
  shows "\<exists>a' u' l' g s'. read_loop ops k out a u s = Some (OkStatus, out @ take k d, a', u', s') \<and> u' \<le> a' \<and>
           length g = a' - u' \<and> rep s' (l' @ g) (drop (k + (a' - u')) d) e \<and> drop k d = g @ drop (k + (a' - u')) d"
  using assms
proof (induction k arbitrary: out a u s l d rule: less_induct)
  case (less k)
  from less.prems(1) show ?case
  proof (cases rule: next_cases)
    case (data b s1 d1)
    let ?m = "min (length b) k"
    have l: "read_loop ops k out a u s = read_loop ops (k - ?m) (out @ take ?m b) (length b) ?m s1"
      using less.prems(2) data(1) by (simp add: read_loop.simps [of _ k])
    show ?thesis
    proof (cases "k \<le> length b")
      case True
      then have "?m = k" by simp
      then have e: "read_loop ops k out a u s = Some (OkStatus, out @ take k d, length b, k, s1)"
        using l data(3) True by (simp add: read_loop.simps)
      have "rep s1 (take k b @ drop k b) (drop (k + (length b - k)) d) e" "drop k d = drop k b @ drop (k + (length b - k)) d"
        "length (drop k b) = length b - k" using data True by simp_all
      with e True show ?thesis by blast
    next
      case False
      then have m: "?m = length b" by simp
      have "0 < k - length b" "k - length b < k" "k - length b \<le> length d1" using False data(2,3) less.prems(3) by auto
      from less.IH [OF this(2) data(4) this(1,3), of "out @ b" "length b" "length b"] obtain a' u' l' g s' where
        h: "read_loop ops (k - length b) (out @ b) (length b) (length b) s1 = Some (OkStatus, (out @ b) @ take (k - length b) d1, a', u', s')"
        "u' \<le> a'" "length g = a' - u'" "rep s' (l' @ g) (drop (k - length b + (a' - u')) d1) e"
        "drop (k - length b) d1 = g @ drop (k - length b + (a' - u')) d1" by blast
      have "drop (k - length b + (a' - u')) d1 = drop (k + (a' - u')) d" "drop (k - length b) d1 = drop k d"
        "(out @ b) @ take (k - length b) d1 = out @ take k d" using data(3) False by simp_all
      with h l [unfolded m] have "read_loop ops k out a u s = Some (OkStatus, out @ take k d, a', u', s')"
        "rep s' (l' @ g) (drop (k + (a' - u')) d) e" "drop k d = g @ drop (k + (a' - u')) d" by simp_all
      with h(2,3) show ?thesis by blast
    qed
  qed (use less.prems(2,3) in simp_all)
qed

lemma read_loop_end:
  assumes "rep s l d e" and "length d < k"
  shows "\<exists>a' u' s'. read_loop ops k out a u s = Some (Inl e, out @ d, a', u', s')"
  using assms
proof (induction k arbitrary: out a u s l d rule: less_induct)
  case (less k)
  from less.prems(1) show ?case
  proof (cases rule: next_cases)
    case (data b s1 d1)
    then have m: "min (length b) k = length b" "k - length b < k" "length d1 < k - length b" using less.prems(2) by auto
    have "read_loop ops k out a u s = read_loop ops (k - length b) (out @ b) (length b) (length b) s1"
      using less.prems(2) data(1) m(1) by (simp add: read_loop.simps [of _ k])
    with less.IH [OF m(2) data(4) m(3), of "out @ b" "length b" "length b"] data(3) show ?thesis by simp
  qed (use less.prems(2) in \<open>simp_all add: read_loop.simps\<close>)
qed

text \<open>
  \<^verbatim>\<open>ReadFromStream\<close> returns, and what it reads are the next bytes. If there are too few, it returns those there are,
  with the status the stream ends with.
\<close>

lemma ReadFromStream_data:
  assumes r: "rep s l d e" and k: "0 < k" "nat k \<le> length d"
  shows "\<exists>s' l'. ReadFromStream ops k s = Some (OkStatus, take (nat k) d, s') \<and> rep s' l' (drop (nat k) d) e"
proof -
  from read_loop_data [OF r _ k(2), of "[]" 0 0] k(1) obtain a u l' g t where
    h: "read_loop ops (nat k) [] 0 0 s = Some (OkStatus, take (nat k) d, a, u, t)" "u \<le> a" "length g = a - u"
    "rep t (l' @ g) (drop (nat k + (a - u)) d) e" "drop (nat k) d = g @ drop (nat k + (a - u)) d" by auto
  let ?s = "if a > u then is_BackUp ops (int (a - u)) t else t"
  have "ReadFromStream ops k s = Some (OkStatus, take (nat k) d, ?s)" using h(1) k(1) by (simp add: ReadFromStream_def)
  moreover have "rep ?s l' (drop (nat k) d) e"
  proof (cases "a > u")
    case True
    have "nat (int (a - u)) = length g" using h(3) by simp
    from give_back [OF h(4) this] show ?thesis unfolding h(5) [symmetric] using True by simp
  next
    case False
    then have "a - u = 0" by simp
    moreover from this h(3) have "g = []" by simp
    ultimately show ?thesis using h(4) False by simp
  qed
  ultimately show ?thesis by blast
qed

lemma ReadFromStream_end:
  assumes r: "rep s l d e" and k: "length d < nat k"
  shows "\<exists>s'. ReadFromStream ops k s = Some (Inl e, d, s')"
  using read_loop_end [OF r k, of "[]" 0 0] k by (auto simp: ReadFromStream_def)

end

section \<open>The adapters satisfy the contracts\<close>

definition ostream_rep :: "OstreamOutputStream \<Rightarrow> bytes \<Rightarrow> nat \<Rightarrow> bool" where
  "ostream_rep s d n \<longleftrightarrow>
     oo_status s = OkStatus \<and> 0 < oo_buffer_size s \<and>
     (case oo_buffer s of
        None \<Rightarrow> d = os_written (oo_output s) \<and> n = 0 \<and> oo_count_in_buffer s = 0 \<and> oo_count_backedup s = 0 \<and> oo_buffer_offset s = 0
      | Some b \<Rightarrow>
          length b = oo_buffer_size s \<and> oo_count_in_buffer s + oo_count_backedup s = oo_buffer_size s \<and>
          oo_buffer_offset s \<le> oo_count_in_buffer s \<and> d = os_written (oo_output s) @ take (oo_count_in_buffer s) b \<and>
          (n = oo_count_in_buffer s - oo_buffer_offset s \<or> n = 0))"

definition ostream_final :: "OstreamOutputStream \<Rightarrow> bytes \<Rightarrow> bool" where
  "ostream_final s d \<longleftrightarrow> os_written (oo_output s) = d \<and> oo_status s = Inl kFailedPrecondition"

lemma ostream_rep_new: "ostream_rep (OstreamOutputStream_new out k) (os_written out) 0"
  by (simp add: ostream_rep_def OstreamOutputStream_new_def)

lemma sputn_result:
  assumes "sputn bs out = (k, out')"
  shows "k \<le> length bs \<and> os_written out' = os_written out @ take k bs \<and> os_accepts out' = os_accepts out \<and> os_good out' = os_good out"
  using assms by (auto simp: sputn_def Let_def)

lemma Ostream_Next_rep:
  assumes r: "ostream_rep s d n" and nx: "OstreamOutputStream_Next s = (Inr k, s')"
  shows "\<exists>g. length g = k \<and> ostream_rep s' (d @ g) k"
proof (cases "oo_buffer s")
  case None
  with r nx have "length (replicate k (0 :: byte)) = k" "ostream_rep s' (d @ replicate k 0) k"
    by (auto simp: ostream_rep_def OstreamOutputStream_Next_def)
  then show ?thesis by blast
next
  case (Some b)
  note R = r [unfolded ostream_rep_def Some option.case]
  show ?thesis
  proof (cases "oo_count_backedup s > 0")
    case True
    with R nx Some have "length (drop (oo_count_in_buffer s) b) = k"
      "ostream_rep s' (d @ drop (oo_count_in_buffer s) b) k"
      by (auto simp: ostream_rep_def OstreamOutputStream_Next_def)
    then show ?thesis by blast
  next
    case False
    obtain w out where w: "sputn b (oo_output s) = (w, out)" by fastforce
    let ?o = "oo_buffer_size s - w"
    have "length (drop ?o b) = k" "ostream_rep s' (d @ drop ?o b) k"
      using sputn_result [OF w] R nx Some False w
      by (auto simp: ostream_rep_def OstreamOutputStream_Next_def Let_def split: if_splits)
    then show ?thesis by blast
  qed
qed

text \<open>Storing at offset \<open>k\<close> of a buffer of which the first \<open>c\<close> bytes are in use.\<close>

lemma buffer_store:
  assumes d: "d @ g = w @ take c b" and l: "length g = n" "length bs \<le> n" and c: "k \<le> c" "c \<le> length b" "n = c - k"
  shows "d @ bs @ drop (length bs) g = w @ take c (take k b @ bs @ drop (k + length bs) b)"
    and "length (take k b @ bs @ drop (k + length bs) b) = length b"
proof -
  have "d @ g = (w @ take k b) @ take n (drop k b)" using d c take_add [of k n b] by simp
  moreover have "length (take n (drop k b)) = length g" using c l by simp
  ultimately have "d = w @ take k b \<and> g = take n (drop k b)"
    using append_eq_append_conv [of d "w @ take k b" g "take n (drop k b)"] by metis
  then have e: "d = w @ take k b" "g = take n (drop k b)" by blast+
  have "take c (take k b @ bs @ drop (k + length bs) b) = take k b @ bs @ drop (length bs) g"
    using c l(2) unfolding e(2) by (simp add: drop_take add.commute)
  then show "d @ bs @ drop (length bs) g = w @ take c (take k b @ bs @ drop (k + length bs) b)" using e(1) by simp
  show "length (take k b @ bs @ drop (k + length bs) b) = length b" using c l(2) by simp
qed

text \<open>Giving back the end of what is in use of a buffer \<open>b\<close>, that is, of what lies between offset \<open>k\<close> and the last \<open>u\<close> bytes.\<close>

lemma buffer_give_back:
  assumes lg: "l @ g = take (length b - k - u) (drop k b)" and len: "length l + length g = length b - k - u"
  shows "l = take (length b - k - (u + length g)) (drop k b)"
    and "k + u \<le> length b \<Longrightarrow> g @ drop (length b - u) b = drop (length b - (u + length g)) b"
proof -
  have ll: "length l = length b - k - (u + length g)" using len by simp
  have "l = take (length l) (l @ g)" by simp
  also have "\<dots> = take (length l) (drop k b)" unfolding lg using len by (simp add: min_def)
  finally show "l = take (length b - k - (u + length g)) (drop k b)" unfolding ll .
  assume ku: "k + u \<le> length b"
  have "g = drop (length l) (l @ g)" by simp
  also have "\<dots> = take (length g) (drop (length l + k) b)" 
  proof -
    have "length b - k - u - length l = length g" using len by simp
    then show ?thesis unfolding lg drop_take drop_drop by simp
  qed
  finally have g: "g = take (length g) (drop (length l + k) b)" .
  have e: "length b - (u + length g) = length l + k" "length b - u = length g + (length l + k)" using len ku by simp_all
  have "drop (length l + k) b = take (length g) (drop (length l + k) b) @ drop (length g) (drop (length l + k) b)"
    by (rule append_take_drop_id [symmetric])
  then show "g @ drop (length b - u) b = drop (length b - (u + length g)) b" unfolding e drop_drop using g by metis
qed

lemma Ostream_Store_rep:
  assumes r: "ostream_rep s (d @ g) n" and l: "length g = n" "length bs \<le> n"
  shows "ostream_rep (OstreamOutputStream_Store bs s) (d @ bs @ drop (length bs) g) n"
proof (cases "oo_buffer s")
  case None
  with r l show ?thesis by (auto simp: ostream_rep_def OstreamOutputStream_Store_def)
next
  case (Some b)
  note R = r [unfolded ostream_rep_def Some option.case]
  let ?o = "oo_buffer_offset s" and ?c = "oo_count_in_buffer s"
  have c: "?c \<le> length b" "?o \<le> ?c" using R by auto
  show ?thesis
  proof (cases "n = 0")
    case True
    with R Some l show ?thesis by (auto simp: ostream_rep_def OstreamOutputStream_Store_def)
  next
    case False
    then have n: "n = ?c - ?o" using R by simp
    from R have "d @ g = os_written (oo_output s) @ take ?c b" by blast
    note e = buffer_store [OF this l c(2,1) n]
    show ?thesis unfolding e(1) using R Some n e(2) by (simp add: ostream_rep_def OstreamOutputStream_Store_def)
  qed
qed

lemma Ostream_BackUp_rep:
  assumes r: "ostream_rep s (d @ g) n" and l: "length g = n" "nat j \<le> n"
  shows "ostream_rep (OstreamOutputStream_BackUp j s) (d @ take (n - nat j) g) (n - nat j)"
proof (cases "nat j = 0")
  case True
  then show ?thesis using r l by (simp add: OstreamOutputStream_BackUp_def)
next
  case False
  then obtain b where b: "oo_buffer s = Some b" using r l by (cases "oo_buffer s") (auto simp: ostream_rep_def)
  note R = r [unfolded ostream_rep_def b option.case]
  let ?o = "oo_buffer_offset s" and ?c = "oo_count_in_buffer s"
  have n: "n = ?c - ?o" using R l False by auto
  have m: "min (nat j) (oo_buffer_size s - ?o - oo_count_backedup s) = nat j" using R l n by auto
  have "d @ take (n - nat j) g = take (length (d @ g) - nat j) (d @ g)" using l by simp
  also have "\<dots> = os_written (oo_output s) @ take (?c - nat j) b" using R l n by auto
  finally have e: "d @ take (n - nat j) g = os_written (oo_output s) @ take (?c - nat j) b" .
  show ?thesis unfolding e using R b l n False m
    by (auto simp: ostream_rep_def OstreamOutputStream_BackUp_def Let_def)
qed

lemma ostream_write_ok: "os_good (ostream_write bs out) \<Longrightarrow> os_written (ostream_write bs out) = os_written out @ bs"
  by (auto simp: ostream_write_def Let_def split: prod.splits dest!: sputn_result split: if_splits)

lemma ostream_flush_written [simp]: "os_written (ostream_flush out) = os_written out"
  by (simp add: ostream_flush_def)

lemma ostream_flush_good: "os_good (ostream_flush out) \<Longrightarrow> os_good out"
  by (auto simp: ostream_flush_def split: if_splits)

lemma Ostream_Close_final:
  assumes r: "ostream_rep s d n" and c: "OstreamOutputStream_Close s = (OkStatus, s')"
  shows "ostream_final s' d"
proof (cases "oo_count_in_buffer s = 0")
  case True
  with r c show ?thesis
    by (auto simp: ostream_rep_def ostream_final_def OstreamOutputStream_Close_def Let_def split: if_splits option.splits)
next
  case False
  with r obtain b where b: "oo_buffer s = Some b" by (cases "oo_buffer s") (auto simp: ostream_rep_def)
  with r c False show ?thesis
    by (auto simp: ostream_rep_def ostream_final_def OstreamOutputStream_Close_def Let_def ostream_write_ok split: if_splits)
qed

interpretation ostream: output_stream Ostream_ops ostream_rep ostream_final
  by unfold_locales
    (auto simp: Ostream_ops_def intro: Ostream_Next_rep Ostream_Store_rep Ostream_BackUp_rep Ostream_Close_final)

text \<open>If the stream buffer takes at least one byte of every write, the adapter is never stuck.\<close>

definition ostream_live :: "OstreamOutputStream \<Rightarrow> bool" where
  "ostream_live s \<longleftrightarrow>
     0 < oo_buffer_size s \<and> (\<forall>k. 0 < os_accepts (oo_output s) k) \<and>
     (case oo_buffer s of None \<Rightarrow> True | Some b \<Rightarrow> oo_buffer_size s \<le> length b)"

lemma ostream_live_new: "\<forall>k. 0 < os_accepts out k \<Longrightarrow> ostream_live (OstreamOutputStream_new out n)"
  by (simp add: ostream_live_def OstreamOutputStream_new_def)

lemma ostream_write_accepts [simp]: "os_accepts (ostream_write bs out) = os_accepts out"
  by (auto simp: ostream_write_def sputn_def Let_def)

lemma ostream_flush_accepts [simp]: "os_accepts (ostream_flush out) = os_accepts out"
  by (simp add: ostream_flush_def)

lemma Ostream_Next_live:
  assumes "ostream_live s" and nx: "OstreamOutputStream_Next s = (r, s')"
  shows "r \<noteq> Inr 0 \<and> ostream_live s'"
proof (cases "oo_buffer s")
  case None
  with assms show ?thesis by (auto simp: ostream_live_def OstreamOutputStream_Next_def split: sum.splits)
next
  case (Some b)
  obtain w out where w: "sputn b (oo_output s) = (w, out)" by fastforce
  have "0 < w" "os_accepts out = os_accepts (oo_output s)" "w \<le> length b"
    using w assms(1) Some by (auto simp: sputn_def Let_def ostream_live_def)
  with assms Some w show ?thesis
    by (auto simp: ostream_live_def OstreamOutputStream_Next_def Let_def split: sum.splits if_splits)
qed

interpretation live_ostream: live_output_stream Ostream_ops ostream_live
proof (unfold_locales, goal_cases)
  case (1 s)
  then show ?case using Ostream_Next_live [of s] by (cases "OstreamOutputStream_Next s") (auto simp: Ostream_ops_def)
next
  case (4 s)
  then show ?case
    by (auto simp: Ostream_ops_def OstreamOutputStream_Close_def ostream_live_def Let_def split: sum.splits option.splits)
qed (auto simp: Ostream_ops_def ostream_live_def OstreamOutputStream_Store_def OstreamOutputStream_BackUp_def Let_def
    split: option.splits)

text \<open>The input adapter: what was given back comes first, then the rest of the file.\<close>

definition istream_rep :: "IstreamInputStream \<Rightarrow> bytes \<Rightarrow> bytes \<Rightarrow> absl_code \<Rightarrow> bool" where
  "istream_rep s l d e \<longleftrightarrow>
     ii_status s = OkStatus \<and> 0 < ii_buffer_size s \<and> ii_count_backedup s \<le> ii_count_in_buffer s \<and>
     ii_buffer_offset s + ii_count_in_buffer s \<le> length (ii_buffer s) \<and>
     e = (if in_fails (ii_input s) then kInternal else kOutOfRange) \<and>
     (in_at_eof (ii_input s) \<longrightarrow> in_rest (ii_input s) = [] \<and> \<not> in_fails (ii_input s)) \<and>
     (in_bad (ii_input s) \<longrightarrow> in_rest (ii_input s) = [] \<and> in_fails (ii_input s)) \<and>
     l = take (ii_count_in_buffer s - ii_count_backedup s) (drop (ii_buffer_offset s) (ii_buffer s)) \<and>
     d = take (ii_count_backedup s)
           (drop (ii_buffer_offset s + (ii_count_in_buffer s - ii_count_backedup s)) (ii_buffer s)) @ in_rest (ii_input s)"

lemma istream_rep_new:
  assumes "\<not> in_at_eof inp" and "\<not> in_bad inp"
  shows "istream_rep (IstreamInputStream_new inp k) [] (in_rest inp) (if in_fails inp then kInternal else kOutOfRange)"
  using assms by (simp add: istream_rep_def IstreamInputStream_new_def)

lemma take_min_length: "take (min (length xs) n) xs = take n xs"
  by (simp add: min_def)

lemma Istream_Next_data:
  "\<lbrakk>istream_rep s l d e; IstreamInputStream_Next s = (Inr b, s')\<rbrakk> \<Longrightarrow> \<exists>d'. d = b @ d' \<and> istream_rep s' b d' e"
  by (auto simp: istream_rep_def IstreamInputStream_Next_def istream_read_def Let_def take_min_length split: if_splits)

lemma Istream_Next_error:
  "\<lbrakk>istream_rep s l d e; IstreamInputStream_Next s = (Inl e', s')\<rbrakk> \<Longrightarrow> d = [] \<and> e' = e"
  by (auto simp: istream_rep_def IstreamInputStream_Next_def istream_read_def Let_def split: if_splits)

lemma Istream_Next_nonempty: "istream_rep s l d e \<Longrightarrow> IstreamInputStream_Next s \<noteq> (Inr [], s')"
  by (auto simp: istream_rep_def IstreamInputStream_Next_def istream_read_def Let_def split: if_splits)

lemma Istream_BackUp_rep:
  assumes r: "istream_rep s (l @ g) d e" and j: "nat j = length g"
  shows "istream_rep (IstreamInputStream_BackUp j s) l (g @ d) e"
proof (cases "g = []")
  case True
  with r j show ?thesis by (simp add: IstreamInputStream_BackUp_def)
next
  case False
  let ?c = "ii_count_in_buffer s" and ?u = "ii_count_backedup s" and ?o = "ii_buffer_offset s"
  let ?x = "drop ?o (ii_buffer s)"
  note R = r [unfolded istream_rep_def]
  have "l @ g = take (?c - ?u) ?x" using R by blast
  moreover have "?c - ?u \<le> length ?x" using R by (simp, linarith)
  ultimately have lg: "length l + length g = ?c - ?u" by (metis length_append length_take min.absorb2)
  have l: "l = take (?c - ?u - length g) ?x" "g = take (length g) (drop (?c - ?u - length g) ?x)"
  proof -
    have e: "l @ g = take (?c - ?u) ?x" using R by blast
    have "l = take (length l) (l @ g)" by simp
    also have "\<dots> = take (?c - ?u - length g) ?x"
    proof -
      have "length l = ?c - ?u - length g" "length l \<le> ?c - ?u" using lg by simp_all
      then show ?thesis unfolding e by (simp only: take_take min.absorb1)
    qed
    finally show "l = take (?c - ?u - length g) ?x" .
    have "g = drop (length l) (l @ g)" by simp
    also have "\<dots> = take (length g) (drop (?c - ?u - length g) ?x)" unfolding e drop_take
      using lg by (metis add_diff_cancel_left' add_diff_cancel_right')
    finally show "g = take (length g) (drop (?c - ?u - length g) ?x)" .
  qed
  have d: "g @ d = take (?u + length g) (drop (?c - ?u - length g) ?x) @ in_rest (ii_input s)"
  proof -
    have "take (?u + length g) (drop (?c - ?u - length g) ?x) =
        take (length g) (drop (?c - ?u - length g) ?x) @ take ?u (drop (?c - ?u) ?x)"
    proof -
      have "length g + (?c - ?u - length g) = ?c - ?u" using lg by simp
      then have "drop (length g) (drop (?c - ?u - length g) ?x) = drop (?c - ?u) ?x" by (metis drop_drop add.commute)
      then show ?thesis by (simp only: add.commute [of ?u] take_add)
    qed
    moreover have "d = take ?u (drop (?c - ?u) ?x) @ in_rest (ii_input s)" using R by (simp add: add.commute)
    ultimately show ?thesis using l(2) by simp
  qed
  have m: "min (nat j) (?c - ?u) = length g" "\<not> j < 1" "?u \<noteq> ?c" using j lg False by auto
  have st: "\<not> isl (ii_status s)" using R by simp
  have s': "IstreamInputStream_BackUp j s = s\<lparr>ii_count_backedup := ?u + length g, ii_position := ii_position s - int (length g)\<rparr>"
    using m st by (simp add: IstreamInputStream_BackUp_def Let_def)
  have u: "?u + length g \<le> ?c" "?c - ?u - length g = ?c - (?u + length g)" using lg m(3) R by linarith+
  have d': "g @ d = take (?u + length g) (drop (?o + (?c - (?u + length g))) (ii_buffer s)) @ in_rest (ii_input s)"
    using d unfolding u(2) drop_drop by (simp only: add.commute)
  show ?thesis unfolding s' istream_rep_def using R l(1) d' u by simp
qed

interpretation istream: input_stream Istream_ops istream_rep
  by unfold_locales
    (auto simp: Istream_ops_def Istream_Next_nonempty intro: Istream_Next_data Istream_BackUp_rep dest: Istream_Next_error)

end
