(* ===== verification/Streaming_Aead.thy ===== *)
theory Streaming_Aead
  imports Streams
begin

text \<open>
  Streaming AEAD (\<^verbatim>\<open>tink/subtle/streaming_aead_encrypting_stream.cc\<close>,
  \<^verbatim>\<open>streaming_aead_decrypting_stream.cc\<close>). A plaintext is cut into segments that are encrypted one by one;
  \<^verbatim>\<open>StreamSegmentEncrypter\<close> and \<^verbatim>\<open>StreamSegmentDecrypter\<close> are interfaces, here records of
  operations over the state of the encrypter, with their contracts as locales. The encrypting stream is an
  \<^verbatim>\<open>OutputStream\<close> over another one: it is proved to satisfy the contract of \<open>Streams\<close> over any
  destination that does, and to pass on exactly the reference ciphertext \<open>enc_from\<close> of what was written to it. The
  decrypting stream is an \<^verbatim>\<open>InputStream\<close> that returns the plaintext \<open>dec_from\<close> of its source.

  Buffer sizes are natural numbers, segment numbers natural numbers (\<^verbatim>\<open>int64_t\<close>, starting at 0 and bounded by
  \<open>2 ^ 32\<close> in the implementations).
\<close>

section \<open>Definitions\<close>

definition vector_resize :: "nat \<Rightarrow> bytes \<Rightarrow> bytes" where
  "vector_resize n xs = take n xs @ replicate (n - length xs) 0"

subsection \<open>Encrypting stream\<close>

record 'e SegmentEncrypter =
  se_EncryptSegment :: "bytes \<Rightarrow> bool \<Rightarrow> 'e \<Rightarrow> bytes StatusOr \<times> 'e"
  se_get_header :: "'e \<Rightarrow> bytes"
  se_get_plaintext_segment_size :: "'e \<Rightarrow> int"
  se_get_ciphertext_offset :: "'e \<Rightarrow> int"

record ('e, 'd) EncStream =
  es_segment_encrypter :: 'e
  es_ct_destination :: 'd
  es_pt_buffer :: bytes
  es_pt_to_encrypt :: bytes
  es_position :: int
  es_is_first_segment :: bool
  es_count_backedup :: nat
  es_pt_buffer_offset :: nat
  es_status :: Status

definition Enc_New :: "'e SegmentEncrypter \<Rightarrow> 'e option \<Rightarrow> 'd option \<Rightarrow> ('e, 'd) EncStream StatusOr" where
  "Enc_New sops segment_encrypter ciphertext_destination =
     (case segment_encrypter of
        None \<Rightarrow> Inl kInvalidArgument
      | Some enc \<Rightarrow>
          (case ciphertext_destination of
             None \<Rightarrow> Inl kInvalidArgument
           | Some dest \<Rightarrow>
               let first_segment_size =
                     se_get_plaintext_segment_size sops enc - se_get_ciphertext_offset sops enc - int (length (se_get_header sops enc))
               in if first_segment_size \<le> 0 then Inl kInternal
                  else Inr \<lparr>es_segment_encrypter = enc, es_ct_destination = dest,
                            es_pt_buffer = vector_resize (nat first_segment_size) [], es_pt_to_encrypt = [], es_position = 0,
                            es_is_first_segment = True, es_count_backedup = nat first_segment_size, es_pt_buffer_offset = 0,
                            es_status = OkStatus\<rparr>))"

text \<open>The steps of \<^verbatim>\<open>Next\<close> and \<^verbatim>\<open>Close\<close> that set \<^verbatim>\<open>status_\<close>: write the header, and encrypt a segment and write it.\<close>

definition Enc_write_header ::
    "'e SegmentEncrypter \<Rightarrow> 'd OutputStream \<Rightarrow> ('e, 'd) EncStream \<Rightarrow> (Status \<times> ('e, 'd) EncStream) option" where
  "Enc_write_header sops dops s =
     do {
       (st, dest) \<leftarrow> WriteToStream dops (se_get_header sops (es_segment_encrypter s)) (es_ct_destination s);
       Some (st, s\<lparr>es_ct_destination := dest, es_status := st\<rparr>)
     }"

definition Enc_write_segment ::
    "'e SegmentEncrypter \<Rightarrow> 'd OutputStream \<Rightarrow> bytes \<Rightarrow> bool \<Rightarrow> ('e, 'd) EncStream \<Rightarrow> (Status \<times> ('e, 'd) EncStream) option" where
  "Enc_write_segment sops dops pt is_last_segment s =
     (let (r, enc) = se_EncryptSegment sops pt is_last_segment (es_segment_encrypter s)
      in case r of
           Inl e \<Rightarrow> Some (Inl e, s\<lparr>es_segment_encrypter := enc, es_status := Inl e\<rparr>)
         | Inr ct_buffer \<Rightarrow>
             do {
               (st, dest) \<leftarrow> WriteToStream dops ct_buffer (es_ct_destination s);
               Some (st, s\<lparr>es_segment_encrypter := enc, es_ct_destination := dest, es_status := st\<rparr>)
             })"

definition Enc_Next ::
    "'e SegmentEncrypter \<Rightarrow> 'd OutputStream \<Rightarrow> ('e, 'd) EncStream \<Rightarrow> (nat StatusOr \<times> ('e, 'd) EncStream) option" where
  "Enc_Next sops dops s =
     (case es_status s of
        Inl e \<Rightarrow> Some (Inl e, s)
      | Inr _ \<Rightarrow>
          if es_is_first_segment s
          then do {
                 (st, s') \<leftarrow> Enc_write_header sops dops (s\<lparr>es_is_first_segment := False, es_count_backedup := 0\<rparr>);
                 (case st of
                    Inl e \<Rightarrow> Some (Inl e, s')
                  | Inr _ \<Rightarrow> Some (Inr (length (es_pt_buffer s')), s'\<lparr>es_position := int (length (es_pt_buffer s'))\<rparr>))
               }
          else if es_count_backedup s > 0
          then Some (Inr (es_count_backedup s),
                     s\<lparr>es_position := es_position s + int (es_count_backedup s),
                       es_pt_buffer_offset := length (es_pt_buffer s) - es_count_backedup s, es_count_backedup := 0\<rparr>)
          else do {
                 (st, s') \<leftarrow> (if es_pt_to_encrypt s \<noteq> [] then Enc_write_segment sops dops (es_pt_to_encrypt s) False s
                              else Some (OkStatus, s));
                 (case st of
                    Inl e \<Rightarrow> Some (Inl e, s')
                  | Inr _ \<Rightarrow>
                      let n = nat (se_get_plaintext_segment_size sops (es_segment_encrypter s'))
                      in Some (Inr n,
                               s'\<lparr>es_pt_to_encrypt := es_pt_buffer s', es_pt_buffer := vector_resize n (es_pt_to_encrypt s'),
                                  es_pt_buffer_offset := 0, es_position := es_position s' + int n\<rparr>))
               })"

definition Enc_Store :: "bytes \<Rightarrow> ('e, 'd) EncStream \<Rightarrow> ('e, 'd) EncStream" where
  "Enc_Store bs s =
     s\<lparr>es_pt_buffer := take (es_pt_buffer_offset s) (es_pt_buffer s) @ bs @ drop (es_pt_buffer_offset s + length bs) (es_pt_buffer s)\<rparr>"

definition Enc_BackUp :: "int \<Rightarrow> ('e, 'd) EncStream \<Rightarrow> ('e, 'd) EncStream" where
  "Enc_BackUp count s =
     (if es_is_first_segment s \<or> isl (es_status s) \<or> count < 1 then s
      else
        let curr_buffer_size = length (es_pt_buffer s) - es_pt_buffer_offset s;
            actual_count = min (nat count) (curr_buffer_size - es_count_backedup s)
        in s\<lparr>es_count_backedup := es_count_backedup s + actual_count, es_position := es_position s - int actual_count\<rparr>)"

text \<open>After an error while the last segments are written, the destination is closed and the result of that ignored.\<close>

definition Enc_or_close ::
    "'d OutputStream \<Rightarrow> Status \<times> ('e, 'd) EncStream \<Rightarrow> (('e, 'd) EncStream \<Rightarrow> (Status \<times> ('e, 'd) EncStream) option) \<Rightarrow>
     (Status \<times> ('e, 'd) EncStream) option" where
  "Enc_or_close dops r k =
     (case r of
        (Inl e, s) \<Rightarrow> do { (_, dest) \<leftarrow> os_Close dops (es_ct_destination s); Some (Inl e, s\<lparr>es_ct_destination := dest\<rparr>) }
      | (Inr _, s) \<Rightarrow> k s)"

definition Enc_close_destination :: "'d OutputStream \<Rightarrow> ('e, 'd) EncStream \<Rightarrow> (Status \<times> ('e, 'd) EncStream) option" where
  "Enc_close_destination dops s =
     do {
       (st, dest) \<leftarrow> os_Close dops (es_ct_destination s);
       Some (st, s\<lparr>es_ct_destination := dest, es_status := Inl kFailedPrecondition\<rparr>)
     }"

definition Enc_finish ::
    "'e SegmentEncrypter \<Rightarrow> 'd OutputStream \<Rightarrow> ('e, 'd) EncStream \<Rightarrow> (Status \<times> ('e, 'd) EncStream) option" where
  "Enc_finish sops dops s =
     (let in_buffer = es_pt_buffer s \<noteq> [] \<and> es_count_backedup s < length (es_pt_buffer s);
          s1 = (if in_buffer
                then s\<lparr>es_pt_buffer := vector_resize (length (es_pt_buffer s) - es_count_backedup s) (es_pt_buffer s)\<rparr> else s);
          pt_last_segment = (if in_buffer then es_pt_buffer s1 else es_pt_to_encrypt s1)
      in do {
           r \<leftarrow> (if in_buffer \<and> es_pt_to_encrypt s1 \<noteq> [] then Enc_write_segment sops dops (es_pt_to_encrypt s1) False s1
                 else Some (OkStatus, s1));
           Enc_or_close dops r (\<lambda>s2.
             do {
               r' \<leftarrow> Enc_write_segment sops dops pt_last_segment True s2;
               Enc_or_close dops r' (Enc_close_destination dops)
             })
         })"

definition Enc_Close ::
    "'e SegmentEncrypter \<Rightarrow> 'd OutputStream \<Rightarrow> ('e, 'd) EncStream \<Rightarrow> (Status \<times> ('e, 'd) EncStream) option" where
  "Enc_Close sops dops s =
     (case es_status s of
        Inl e \<Rightarrow> Some (Inl e, s)
      | Inr _ \<Rightarrow>
          do {
            (st, s') \<leftarrow> (if es_is_first_segment s then Enc_write_header sops dops s else Some (OkStatus, s));
            (case st of Inl e \<Rightarrow> Some (Inl e, s') | Inr _ \<Rightarrow> Enc_finish sops dops s')
          })"

definition Enc_ops :: "'e SegmentEncrypter \<Rightarrow> 'd OutputStream \<Rightarrow> ('e, 'd) EncStream OutputStream" where
  "Enc_ops sops dops =
     \<lparr>os_Next = Enc_Next sops dops, os_Store = Enc_Store, os_BackUp = Enc_BackUp, os_Close = Enc_Close sops dops\<rparr>"

subsection \<open>Decrypting stream\<close>

record 'e SegmentDecrypter =
  sd_DecryptSegment :: "bytes \<Rightarrow> nat \<Rightarrow> bool \<Rightarrow> 'e \<Rightarrow> bytes StatusOr"
  sd_Init :: "bytes \<Rightarrow> 'e \<Rightarrow> Status \<times> 'e"
  sd_get_header_size :: "'e \<Rightarrow> int"
  sd_get_plaintext_segment_size :: "'e \<Rightarrow> int"
  sd_get_ciphertext_segment_size :: "'e \<Rightarrow> int"
  sd_get_ciphertext_offset :: "'e \<Rightarrow> int"

record ('e, 's) DecStream =
  ds_segment_decrypter :: 'e
  ds_ct_source :: 's
  ds_ct_buffer :: bytes
  ds_pt_buffer :: bytes
  ds_position :: int
  ds_segment_number :: nat
  ds_is_initialized :: bool
  ds_read_last_segment :: bool
  ds_count_backedup :: nat
  ds_pt_buffer_offset :: nat
  ds_status :: Status

definition Dec_New :: "'e SegmentDecrypter \<Rightarrow> 'e option \<Rightarrow> 's option \<Rightarrow> ('e, 's) DecStream StatusOr" where
  "Dec_New sops segment_decrypter ciphertext_source =
     (case segment_decrypter of
        None \<Rightarrow> Inl kInvalidArgument
      | Some dec \<Rightarrow>
          (case ciphertext_source of
             None \<Rightarrow> Inl kInvalidArgument
           | Some src \<Rightarrow>
               let first_segment_size =
                     sd_get_ciphertext_segment_size sops dec - sd_get_ciphertext_offset sops dec - sd_get_header_size sops dec
               in if first_segment_size \<le> 0 then Inl kInternal
                  else Inr \<lparr>ds_segment_decrypter = dec, ds_ct_source = src, ds_ct_buffer = vector_resize (nat first_segment_size) [],
                            ds_pt_buffer = [], ds_position = 0, ds_segment_number = 0, ds_is_initialized = False,
                            ds_read_last_segment = False, ds_count_backedup = nat first_segment_size, ds_pt_buffer_offset = 0,
                            ds_status = OkStatus\<rparr>))"

text \<open>
  The part of \<^verbatim>\<open>Next\<close> that reads a segment of the size of \<^verbatim>\<open>ct_buffer_\<close> and decrypts it, as a last segment too if
  it was not short.
\<close>

definition Dec_read_segment ::
    "'e SegmentDecrypter \<Rightarrow> 's InputStream \<Rightarrow> ('e, 's) DecStream \<Rightarrow> (Status \<times> ('e, 's) DecStream) option" where
  "Dec_read_segment sops iops s =
     do {
       (st, ct, src) \<leftarrow> ReadFromStream iops (int (length (ds_ct_buffer s))) (ds_ct_source s);
       (let s1 = s\<lparr>ds_ct_source := src, ds_ct_buffer := ct, ds_status := st\<rparr>
        in if st \<noteq> OkStatus \<and> st \<noteq> Inl kOutOfRange then Some (st, s1)
           else
             let last = (st = Inl kOutOfRange);
                 r = sd_DecryptSegment sops ct (ds_segment_number s) last (ds_segment_decrypter s);
                 (last', r') = (if isl r \<and> \<not> last
                                then (True, sd_DecryptSegment sops ct (ds_segment_number s) True (ds_segment_decrypter s))
                                else (last, r));
                 s2 = s1\<lparr>ds_read_last_segment := last'\<rparr>
             in case r' of
                  Inl e \<Rightarrow> Some (Inl e, s2\<lparr>ds_status := Inl e\<rparr>)
                | Inr pt \<Rightarrow> Some (OkStatus, s2\<lparr>ds_status := OkStatus, ds_pt_buffer := pt\<rparr>))
     }"

definition Dec_read_header ::
    "'e SegmentDecrypter \<Rightarrow> 's InputStream \<Rightarrow> ('e, 's) DecStream \<Rightarrow> (Status \<times> ('e, 's) DecStream) option" where
  "Dec_read_header sops iops s =
     do {
       (st, header, src) \<leftarrow> ReadFromStream iops (sd_get_header_size sops (ds_segment_decrypter s)) (ds_ct_source s);
       (let s1 = s\<lparr>ds_ct_source := src\<rparr>
        in case (if st = Inl kOutOfRange then Inl kInvalidArgument else st) of
             Inl e \<Rightarrow> Some (Inl e, s1\<lparr>ds_status := Inl e\<rparr>)
           | Inr _ \<Rightarrow>
               let (st', dec) = sd_Init sops header (ds_segment_decrypter s)
               in Some (st', s1\<lparr>ds_segment_decrypter := dec, ds_status := st'\<rparr>))
     }"

definition Dec_Next ::
    "'e SegmentDecrypter \<Rightarrow> 's InputStream \<Rightarrow> ('e, 's) DecStream \<Rightarrow> (bytes StatusOr \<times> ('e, 's) DecStream) option" where
  "Dec_Next sops iops s =
     (case ds_status s of
        Inl e \<Rightarrow> Some (Inl e, s)
      | Inr _ \<Rightarrow>
          if \<not> ds_is_initialized s
          then do {
                 (st, s1) \<leftarrow> Dec_read_header sops iops s;
                 (case st of
                    Inl e \<Rightarrow> Some (Inl e, s1)
                  | Inr _ \<Rightarrow>
                      do {
                        (st', s2) \<leftarrow> Dec_read_segment sops iops (s1\<lparr>ds_is_initialized := True, ds_count_backedup := 0\<rparr>);
                        (case st' of
                           Inl e \<Rightarrow> Some (Inl e, s2)
                         | Inr _ \<Rightarrow> Some (Inr (ds_pt_buffer s2), s2\<lparr>ds_position := int (length (ds_pt_buffer s2))\<rparr>))
                      })
               }
          else if ds_count_backedup s > 0
          then let offset = length (ds_pt_buffer s) - ds_count_backedup s
               in Some (Inr (drop offset (ds_pt_buffer s)),
                        s\<lparr>ds_position := ds_position s + int (ds_count_backedup s), ds_pt_buffer_offset := offset,
                          ds_count_backedup := 0\<rparr>)
          else if ds_read_last_segment s then Some (Inl kOutOfRange, s\<lparr>ds_status := Inl kOutOfRange\<rparr>)
          else do {
                 (st, s1) \<leftarrow> Dec_read_segment sops iops
                   (s\<lparr>ds_segment_number := Suc (ds_segment_number s),
                      ds_ct_buffer :=
                        vector_resize (nat (sd_get_ciphertext_segment_size sops (ds_segment_decrypter s))) (ds_ct_buffer s)\<rparr>);
                 (case st of
                    Inl e \<Rightarrow> Some (Inl e, s1)
                  | Inr _ \<Rightarrow>
                      Some (Inr (ds_pt_buffer s1),
                            s1\<lparr>ds_pt_buffer_offset := 0, ds_position := ds_position s1 + int (length (ds_pt_buffer s1))\<rparr>))
               })"

definition Dec_BackUp :: "int \<Rightarrow> ('e, 's) DecStream \<Rightarrow> ('e, 's) DecStream" where
  "Dec_BackUp count s =
     (if \<not> ds_is_initialized s \<or> isl (ds_status s) \<or> count < 1 then s
      else
        let curr_buffer_size = length (ds_pt_buffer s) - ds_pt_buffer_offset s;
            actual_count = min (nat count) (curr_buffer_size - ds_count_backedup s)
        in s\<lparr>ds_count_backedup := ds_count_backedup s + actual_count, ds_position := ds_position s - int actual_count\<rparr>)"

definition Dec_ops :: "'e SegmentDecrypter \<Rightarrow> 's InputStream \<Rightarrow> ('e, 's) DecStream InputStream" where
  "Dec_ops sops iops = \<lparr>is_Next = Dec_Next sops iops, is_BackUp = Dec_BackUp\<rparr>"

section \<open>Reference ciphertext\<close>

lemma length_vector_resize [simp]: "length (vector_resize n xs) = n"
  by (simp add: vector_resize_def)

text \<open>
  The ciphertext of a plaintext, with segments from number \<open>i\<close> on: the first takes \<open>f\<close> bytes, the others \<open>p\<close>. The last
  segment is empty only if the plaintext is. \<open>E i last\<close> encrypts one segment, if its number is allowed.
\<close>

fun enc_from :: "(nat \<Rightarrow> bool \<Rightarrow> bytes \<Rightarrow> bytes option) \<Rightarrow> nat \<Rightarrow> nat \<Rightarrow> nat \<Rightarrow> bytes \<Rightarrow> bytes option" where
  "enc_from E i f p pt =
     (if f = 0 \<or> length pt \<le> f then E i True pt
      else do {
        c \<leftarrow> E i False (take f pt);
        cs \<leftarrow> enc_from E (Suc i) p p (drop f pt);
        Some (c @ cs)
      })"

declare enc_from.simps [simp del]

text \<open>The plaintext of a ciphertext and the status that it ends with, if the source ends with status \<open>e\<close>.\<close>

fun dec_from :: "(nat \<Rightarrow> bool \<Rightarrow> bytes \<Rightarrow> bytes StatusOr) \<Rightarrow> nat \<Rightarrow> nat \<Rightarrow> nat \<Rightarrow> absl_code \<Rightarrow> bytes \<Rightarrow> bytes \<times> absl_code" where
  "dec_from D i f p e c =
     (if f = 0 then ([], kInternal)
      else if length c < f
      then if e \<noteq> kOutOfRange then ([], e)
           else case D i True c of Inl x \<Rightarrow> ([], x) | Inr pt \<Rightarrow> (pt, kOutOfRange)
      else case D i False (take f c) of
             Inr pt \<Rightarrow> let (r, e') = dec_from D (Suc i) p p e (drop f c) in (pt @ r, e')
           | Inl _ \<Rightarrow> (case D i True (take f c) of Inl x \<Rightarrow> ([], x) | Inr pt \<Rightarrow> (pt, kOutOfRange)))"

declare dec_from.simps [simp del]

lemma enc_from_append:
  assumes "length x = f" and "0 < f" and "r \<noteq> []"
  shows "enc_from E i f p (x @ r) = do { c \<leftarrow> E i False x; cs \<leftarrow> enc_from E (Suc i) p p r; Some (c @ cs) }"
  using assms by (subst enc_from.simps) simp

lemma enc_from_last: "length x \<le> f \<Longrightarrow> enc_from E i f p x = E i True x"
  by (subst enc_from.simps) simp

text \<open>The number and the plaintext of the last segment.\<close>

fun last_segment :: "nat \<Rightarrow> nat \<Rightarrow> nat \<Rightarrow> bytes \<Rightarrow> nat \<times> bytes" where
  "last_segment i f p pt = (if f = 0 \<or> length pt \<le> f then (i, pt) else last_segment (Suc i) p p (drop f pt))"

declare last_segment.simps [simp del]

text \<open>
  Decryption inverts encryption, if every segment decrypts under its number, and the last segment does not decrypt as one
  that is not last: the decrypting stream tries the latter first when the last segment happens to be full.
\<close>

lemma dec_from_enc_from:
  assumes dec: "\<And>i last pt c. E i last pt = Some c \<Longrightarrow> D i last c = Inr pt \<and> length c = length pt + ov"
    and "\<And>n x c. last_segment i f p pt = (n, x) \<Longrightarrow> E n True x = Some c \<Longrightarrow> isl (D n False c)"
    and "0 < f" and "0 < p" and "enc_from E i f p pt = Some c"
  shows "dec_from D i (f + ov) (p + ov) kOutOfRange c = (pt, kOutOfRange)"
  using assms(2-)
proof (induction "length pt" arbitrary: i f pt c rule: less_induct)
  case less
  show ?case
  proof (cases "length pt \<le> f")
    case True
    with less.prems have E: "E i True pt = Some c" by (simp add: enc_from_last)
    from dec [OF this] have D: "D i True c = Inr pt" "length c = length pt + ov" by blast+
    have "last_segment i f p pt = (i, pt)" using True by (subst last_segment.simps) simp
    from less.prems(1) [OF this E] obtain x where "D i False c = Inl x" by (auto simp: isl_def)
    with D True less.prems(2) show ?thesis by (subst dec_from.simps) (auto simp: not_less)
  next
    case False
    with less.prems(2,4) obtain c1 c2 where E: "E i False (take f pt) = Some c1" and
      r: "enc_from E (Suc i) p p (drop f pt) = Some c2" and c: "c = c1 @ c2"
      by (subst (asm) enc_from.simps) (auto simp: bind_eq_Some_conv)
    from dec [OF E] False have D: "D i False c1 = Inr (take f pt)" "length c1 = f + ov" by auto
    have shorter: "length (drop f pt) < length pt" using False less.prems(2) by simp
    have "last_segment i f p pt = last_segment (Suc i) p p (drop f pt)"
      using False less.prems(2) by (subst last_segment.simps) simp
    from less.hyps [OF shorter less.prems(1) [unfolded this] \<open>0 < p\<close> \<open>0 < p\<close> r]
    show ?thesis using D c less.prems(2) by (subst dec_from.simps) simp
  qed
qed

section \<open>The encrypting stream\<close>

text \<open>
  The contract of a segment encrypter: \<open>srep e n\<close> says that the next segment has number \<open>n\<close>. What it returns is \<open>E\<close> of
  the segment under the current number, which goes up. \<open>p\<close> and \<open>f\<close> are the sizes of a plaintext segment and of the first.
\<close>

locale segment_encrypter =
  fixes sops :: "'e SegmentEncrypter"
    and srep :: "'e \<Rightarrow> nat \<Rightarrow> bool"
    and E :: "nat \<Rightarrow> bool \<Rightarrow> bytes \<Rightarrow> bytes option"
    and h :: bytes
    and f p :: nat
  assumes encrypt: "\<lbrakk>srep e n; se_EncryptSegment sops pt lst e = (Inr ct, e')\<rbrakk> \<Longrightarrow> srep e' (Suc n) \<and> E n lst pt = Some ct"
    and header: "srep e n \<Longrightarrow> se_get_header sops e = h"
    and segment_size: "srep e n \<Longrightarrow> se_get_plaintext_segment_size sops e = int p"
    and first_size: "srep e n \<Longrightarrow> int p - se_get_ciphertext_offset sops e - int (length h) = int f"
    and sizes_positive: "srep e n \<Longrightarrow> 0 < f \<and> 0 < p"

text \<open>The stream over a segment encrypter and a destination to which \<open>c0\<close> was already written.\<close>

locale encrypting_stream =
  segment_encrypter sops srep E h f p + dst: output_stream dops drep dfinal
  for sops :: "'e SegmentEncrypter" and srep E h f p and dops :: "'d OutputStream" and drep dfinal +
  fixes c0 :: bytes
begin

text \<open>
  Of the data, \<open>dn\<close> is encrypted and written as \<open>ct\<close>, then come the segment that waits and the current buffer. Whatever
  follows \<open>dn\<close>, its ciphertext follows \<open>ct\<close>.
\<close>

definition encrypted :: "bytes \<Rightarrow> bytes \<Rightarrow> nat \<Rightarrow> nat \<Rightarrow> bool" where
  "encrypted dn ct k f' \<longleftrightarrow> (\<forall>r. r \<noteq> [] \<longrightarrow> enc_from E 0 f p (dn @ r) = map_option ((@) ct) (enc_from E k f' p r))"

definition enc_rep :: "('e, 'd) EncStream \<Rightarrow> bytes \<Rightarrow> nat \<Rightarrow> bool" where
  "enc_rep s d n \<longleftrightarrow>
     es_status s = OkStatus \<and>
     (if es_is_first_segment s
      then d = [] \<and> n = 0 \<and> es_pt_to_encrypt s = [] \<and> length (es_pt_buffer s) = f \<and> es_count_backedup s = f \<and>
           es_pt_buffer_offset s = 0 \<and> srep (es_segment_encrypter s) 0 \<and> (\<exists>m. drep (es_ct_destination s) c0 m)
      else
        es_pt_buffer_offset s + es_count_backedup s \<le> length (es_pt_buffer s) \<and>
        n = length (es_pt_buffer s) - es_count_backedup s - es_pt_buffer_offset s \<and>
        (\<exists>dn ct k m. srep (es_segment_encrypter s) k \<and> drep (es_ct_destination s) (c0 @ h @ ct) m \<and>
           d = dn @ es_pt_to_encrypt s @ take (length (es_pt_buffer s) - es_count_backedup s) (es_pt_buffer s) \<and>
           (es_pt_to_encrypt s = [] \<and> dn = [] \<and> ct = [] \<and> k = 0 \<and> length (es_pt_buffer s) = f \<or>
            es_pt_to_encrypt s \<noteq> [] \<and> encrypted dn ct k (length (es_pt_to_encrypt s)) \<and> length (es_pt_buffer s) = p)))"

definition enc_final :: "('e, 'd) EncStream \<Rightarrow> bytes \<Rightarrow> bool" where
  "enc_final s d \<longleftrightarrow> (\<exists>ct. enc_from E 0 f p d = Some ct \<and> dfinal (es_ct_destination s) (c0 @ h @ ct))"

lemma encrypted_step:
  assumes e: "encrypted dn ct k (length q)" and q: "q \<noteq> []" and c: "E k False q = Some c"
  shows "encrypted (dn @ q) (ct @ c) (Suc k) p"
  unfolding encrypted_def
proof (intro allI impI)
  fix r :: bytes assume r: "r \<noteq> []"
  have "enc_from E 0 f p (dn @ q @ r) = map_option ((@) ct) (enc_from E k (length q) p (q @ r))"
    using e q by (simp add: encrypted_def)
  also have "enc_from E k (length q) p (q @ r) = map_option ((@) c) (enc_from E (Suc k) p p r)"
    using c q r by (simp add: enc_from_append map_conv_bind_option comp_def)
  finally show "enc_from E 0 f p ((dn @ q) @ r) = map_option ((@) (ct @ c)) (enc_from E (Suc k) p p r)"
    by (cases "enc_from E (Suc k) p p r") simp_all
qed

lemma Enc_write_header_ok:
  assumes "Enc_write_header sops dops s = Some (OkStatus, s')" and "srep (es_segment_encrypter s) k"
    and "drep (es_ct_destination s) x m"
  shows "\<exists>dest m'. s' = s\<lparr>es_ct_destination := dest, es_status := OkStatus\<rparr> \<and> drep dest (x @ h) m'"
  using assms dst.WriteToStream_rep by (fastforce simp: Enc_write_header_def bind_eq_Some_conv header)

lemma Enc_write_segment_ok:
  assumes w: "Enc_write_segment sops dops pt lst s = Some (OkStatus, s')" and r: "srep (es_segment_encrypter s) k"
    and d: "drep (es_ct_destination s) x m"
  shows "\<exists>e dest ct m'. s' = s\<lparr>es_segment_encrypter := e, es_ct_destination := dest, es_status := OkStatus\<rparr> \<and>
           srep e (Suc k) \<and> E k lst pt = Some ct \<and> drep dest (x @ ct) m'"
proof -
  from w obtain e dest ct where enc: "se_EncryptSegment sops pt lst (es_segment_encrypter s) = (Inr ct, e)"
    and wr: "WriteToStream dops ct (es_ct_destination s) = Some (OkStatus, dest)"
    and s': "s' = s\<lparr>es_segment_encrypter := e, es_ct_destination := dest, es_status := OkStatus\<rparr>"
    by (auto simp: Enc_write_segment_def bind_eq_Some_conv split: prod.splits sum.splits)
  from encrypt [OF r enc] dst.WriteToStream_rep [OF wr d] s' show ?thesis by blast
qed

lemma enc_rep_New:
  assumes "Enc_New sops (Some e) (Some dest) = Inr s" and "srep e 0" and "drep dest c0 m"
  shows "enc_rep s [] 0"
  using assms by (auto simp: Enc_New_def Let_def enc_rep_def segment_size header first_size split: if_splits)

end

context encrypting_stream
begin

lemma Enc_Next_first:
  assumes f: "es_is_first_segment s" and r: "enc_rep s d n" and nx: "Enc_Next sops dops s = Some (Inr k, s')"
  shows "\<exists>g. length g = k \<and> enc_rep s' (d @ g) k"
proof -
  note R = r [unfolded enc_rep_def if_P [OF f]]
  let ?s = "s\<lparr>es_is_first_segment := False, es_count_backedup := 0\<rparr>"
  obtain s1 where w: "Enc_write_header sops dops ?s = Some (OkStatus, s1)"
    and s': "s' = s1\<lparr>es_position := int (length (es_pt_buffer s1))\<rparr>" and k: "k = length (es_pt_buffer s1)"
    using nx f R by (auto simp: Enc_Next_def bind_eq_Some_conv split: sum.splits) (metis old.unit.exhaust sum.exhaust)
  from R obtain m where "srep (es_segment_encrypter ?s) 0" "drep (es_ct_destination ?s) c0 m" by auto
  from Enc_write_header_ok [OF w this] obtain dest m' where
    s1: "s1 = ?s\<lparr>es_ct_destination := dest, es_status := OkStatus\<rparr>" and m': "drep dest (c0 @ h) m'" by blast
  have "enc_rep s' (d @ es_pt_buffer s) k" unfolding s' s1 enc_rep_def using R k s1 m' by auto
  moreover have "length (es_pt_buffer s) = k" using k s1 by simp
  ultimately show ?thesis by blast
qed

lemma Enc_Next_again:
  assumes f: "\<not> es_is_first_segment s" and b: "0 < es_count_backedup s" and r: "enc_rep s d n"
    and nx: "Enc_Next sops dops s = Some (Inr k, s')"
  shows "\<exists>g. length g = k \<and> enc_rep s' (d @ g) k"
proof -
  note R = r [unfolded enc_rep_def if_not_P [OF f]]
  let ?b = "es_pt_buffer s" and ?u = "es_count_backedup s"
  have s': "s' = s\<lparr>es_position := es_position s + int ?u, es_pt_buffer_offset := length ?b - ?u, es_count_backedup := 0\<rparr>"
    and k: "k = ?u" using nx f b R by (auto simp: Enc_Next_def)
  from R obtain dn ct j m where D: "srep (es_segment_encrypter s) j" "drep (es_ct_destination s) (c0 @ h @ ct) m"
    "d = dn @ es_pt_to_encrypt s @ take (length ?b - ?u) ?b"
    "es_pt_to_encrypt s = [] \<and> dn = [] \<and> ct = [] \<and> j = 0 \<and> length ?b = f \<or>
     es_pt_to_encrypt s \<noteq> [] \<and> encrypted dn ct j (length (es_pt_to_encrypt s)) \<and> length ?b = p" by blast
  have "d @ drop (length ?b - ?u) ?b = dn @ es_pt_to_encrypt s @ ?b" unfolding D(3) by simp
  with R D(1,2,4) f k have "enc_rep s' (d @ drop (length ?b - ?u) ?b) k" unfolding s' enc_rep_def by auto
  moreover have "length (drop (length ?b - ?u) ?b) = k" using k R by simp
  ultimately show ?thesis by blast
qed

lemma Enc_Next_fresh:
  assumes f: "\<not> es_is_first_segment s" and b: "es_count_backedup s = 0" and r: "enc_rep s d n"
    and nx: "Enc_Next sops dops s = Some (Inr k, s')"
  shows "\<exists>g. length g = k \<and> enc_rep s' (d @ g) k"
proof -
  note R = r [unfolded enc_rep_def if_not_P [OF f]]
  let ?b = "es_pt_buffer s" and ?q = "es_pt_to_encrypt s"
  from R obtain dn ct j m where D: "srep (es_segment_encrypter s) j" "drep (es_ct_destination s) (c0 @ h @ ct) m"
    "d = dn @ ?q @ ?b" "?q = [] \<and> dn = [] \<and> ct = [] \<and> j = 0 \<and> length ?b = f \<or>
     ?q \<noteq> [] \<and> encrypted dn ct j (length ?q) \<and> length ?b = p" using b by auto
  define w where "w = (if ?q \<noteq> [] then Enc_write_segment sops dops ?q False s else Some (OkStatus, s))"
  obtain s1 where w1: "w = Some (OkStatus, s1)"
    and k: "k = nat (se_get_plaintext_segment_size sops (es_segment_encrypter s1))"
    and s': "s' = s1\<lparr>es_pt_to_encrypt := es_pt_buffer s1, es_pt_buffer := vector_resize k (es_pt_to_encrypt s1),
               es_pt_buffer_offset := 0, es_position := es_position s1 + int k\<rparr>"
    using nx f b R unfolding w_def
    by (auto simp: Enc_Next_def bind_eq_Some_conv Let_def split: sum.splits simp del: not_gr_zero)
      (metis old.unit.exhaust sum.exhaust)+
  have "\<exists>ct' j' e dest m'. s1 = s\<lparr>es_segment_encrypter := e, es_ct_destination := dest\<rparr> \<and> srep e j' \<and>
      drep dest (c0 @ h @ ct') m' \<and> encrypted (dn @ ?q) ct' j' (length ?b)"
  proof (cases "?q = []")
    case True
    with D w1 have "s1 = s\<lparr>es_segment_encrypter := es_segment_encrypter s, es_ct_destination := es_ct_destination s\<rparr>"
      "encrypted (dn @ ?q) [] 0 (length ?b)"
      using True by (auto simp: w_def encrypted_def) (metis append_Nil option.map_ident_strong)
    moreover have "drep (es_ct_destination s) (c0 @ h @ []) m" "srep (es_segment_encrypter s) 0" using D True by simp_all
    ultimately show ?thesis by blast
  next
    case False
    then have "Enc_write_segment sops dops ?q False s = Some (OkStatus, s1)" using w1 by (simp add: w_def)
    from Enc_write_segment_ok [OF this D(1,2)] obtain e dest c m' where
      s1: "s1 = s\<lparr>es_segment_encrypter := e, es_ct_destination := dest, es_status := OkStatus\<rparr>" and
      c: "srep e (Suc j)" "E j False ?q = Some c" "drep dest ((c0 @ h @ ct) @ c) m'" by blast
    have "encrypted (dn @ ?q) (ct @ c) (Suc j) (length ?b)" using encrypted_step [OF _ False c(2)] D(4) False by auto
    moreover have "s1 = s\<lparr>es_segment_encrypter := e, es_ct_destination := dest\<rparr>" using s1 R by simp
    moreover have "drep dest (c0 @ h @ (ct @ c)) m'" using c(3) by simp
    ultimately show ?thesis using c(1) by blast
  qed
  then obtain ct' j' e dest m' where s1: "s1 = s\<lparr>es_segment_encrypter := e, es_ct_destination := dest\<rparr>" and
    c: "srep e j'" "drep dest (c0 @ h @ ct') m'" "encrypted (dn @ ?q) ct' j' (length ?b)" by blast
  have kp: "k = p" using k s1 segment_size [OF c(1)] by simp
  have bne: "?b \<noteq> []" using D(4) sizes_positive [OF D(1)] by auto
  let ?g = "vector_resize k ?q"
  have "enc_rep s' (d @ ?g) k"
    unfolding enc_rep_def s' s1 using R f b D(3) c kp bne
    by (simp, blast)
  then show ?thesis by (metis length_vector_resize)
qed

lemma Enc_Next_rep:
  "\<lbrakk>enc_rep s d n; Enc_Next sops dops s = Some (Inr k, s')\<rbrakk> \<Longrightarrow> \<exists>g. length g = k \<and> enc_rep s' (d @ g) k"
  using Enc_Next_first Enc_Next_again Enc_Next_fresh by blast

lemma Enc_Store_rep:
  assumes r: "enc_rep s (d @ g) n" and l: "length g = n" "length bs \<le> n"
  shows "enc_rep (Enc_Store bs s) (d @ bs @ drop (length bs) g) n"
proof (cases "es_is_first_segment s")
  case True
  with r l show ?thesis by (auto simp: enc_rep_def Enc_Store_def)
next
  case False
  note R = r [unfolded enc_rep_def if_not_P [OF False]]
  let ?b = "es_pt_buffer s" and ?q = "es_pt_to_encrypt s" and ?o = "es_pt_buffer_offset s"
    and ?c = "length (es_pt_buffer s) - es_count_backedup s"
  from R obtain dn ct j m where D: "srep (es_segment_encrypter s) j" "drep (es_ct_destination s) (c0 @ h @ ct) m"
    "d @ g = (dn @ ?q) @ take ?c ?b" "?q = [] \<and> dn = [] \<and> ct = [] \<and> j = 0 \<and> length ?b = f \<or>
     ?q \<noteq> [] \<and> encrypted dn ct j (length ?q) \<and> length ?b = p" by auto
  have c: "?o \<le> ?c" "?c \<le> length ?b" "n = ?c - ?o" using R by auto
  note e = buffer_store [OF D(3) l c]
  show ?thesis unfolding e(1) using R False D(1,2,4) e(2) c l(2)
    by (auto simp: enc_rep_def Enc_Store_def)
qed

lemma Enc_BackUp_rep:
  assumes r: "enc_rep s (d @ g) n" and l: "length g = n" "nat j \<le> n"
  shows "enc_rep (Enc_BackUp j s) (d @ take (n - nat j) g) (n - nat j)"
proof (cases "nat j = 0")
  case True
  then show ?thesis using r l by (simp add: Enc_BackUp_def)
next
  case j: False
  have f: "\<not> es_is_first_segment s" using r l j by (auto simp: enc_rep_def)
  note R = r [unfolded enc_rep_def if_not_P [OF f]]
  let ?b = "es_pt_buffer s" and ?q = "es_pt_to_encrypt s" and ?u = "es_count_backedup s"
  from R obtain dn ct i m where D: "srep (es_segment_encrypter s) i" "drep (es_ct_destination s) (c0 @ h @ ct) m"
    "d @ g = dn @ ?q @ take (length ?b - ?u) ?b" "?q = [] \<and> dn = [] \<and> ct = [] \<and> i = 0 \<and> length ?b = f \<or>
     ?q \<noteq> [] \<and> encrypted dn ct i (length ?q) \<and> length ?b = p" by auto
  have m: "min (nat j) (length ?b - es_pt_buffer_offset s - ?u) = nat j" using R l by auto
  have "d @ take (n - nat j) g = take (length (d @ g) - nat j) (d @ g)" using l by simp
  also have "\<dots> = dn @ ?q @ take (length ?b - (?u + nat j)) ?b" unfolding D(3) using R l by auto
  finally have e: "d @ take (n - nat j) g = dn @ ?q @ take (length ?b - (?u + nat j)) ?b" .
  have s': "Enc_BackUp j s = s\<lparr>es_count_backedup := ?u + nat j, es_position := es_position s - int (nat j)\<rparr>"
    using m f R j by (simp add: Enc_BackUp_def Let_def)
  show ?thesis unfolding e s' enc_rep_def using R f D(1,2,4) l by auto
qed

end

context encrypting_stream
begin

text \<open>Closing: the last segment is the current buffer, or the waiting segment if nothing was written to the buffer.\<close>

lemma Enc_or_close_ok: "Enc_or_close dops r k = Some (OkStatus, s') \<Longrightarrow> \<exists>s. r = (OkStatus, s) \<and> k s = Some (OkStatus, s')"
  by (auto simp: Enc_or_close_def bind_eq_Some_conv split: prod.splits sum.splits)

lemma Enc_last_segment:
  assumes w: "Enc_write_segment sops dops pt True s = Some (OkStatus, s3)"
    and c: "Enc_close_destination dops s3 = Some (OkStatus, s')"
    and R: "srep (es_segment_encrypter s) k" "drep (es_ct_destination s) x m"
  shows "\<exists>ct. E k True pt = Some ct \<and> dfinal (es_ct_destination s') (x @ ct)"
proof -
  from c obtain dest where cl: "os_Close dops (es_ct_destination s3) = Some (OkStatus, dest)"
    and s': "es_ct_destination s' = dest" by (auto simp: bind_eq_Some_conv Enc_close_destination_def)
  from Enc_write_segment_ok [OF w R] obtain ct m' where "E k True pt = Some ct"
    and "drep (es_ct_destination s3) (x @ ct) m'" by auto
  with dst.close [OF _ cl] s' show ?thesis by blast
qed

lemma Enc_finish_final:
  assumes fin: "Enc_finish sops dops s = Some (OkStatus, s')"
    and R: "srep (es_segment_encrypter s) k" "drep (es_ct_destination s) (c0 @ h @ ct) m"
    and u: "es_count_backedup s \<le> length (es_pt_buffer s)"
    and q: "es_pt_to_encrypt s = [] \<and> dn = [] \<and> ct = [] \<and> k = 0 \<and> length (es_pt_buffer s) = f \<or>
      es_pt_to_encrypt s \<noteq> [] \<and> encrypted dn ct k (length (es_pt_to_encrypt s)) \<and> length (es_pt_buffer s) = p"
  shows "enc_final s' (dn @ es_pt_to_encrypt s @ take (length (es_pt_buffer s) - es_count_backedup s) (es_pt_buffer s))"
proof -
  let ?q = "es_pt_to_encrypt s" and ?c = "length (es_pt_buffer s) - es_count_backedup s"
  let ?x = "take ?c (es_pt_buffer s)"
  show ?thesis
  proof (cases "?x = []")
    case True
    then have nb: "\<not> (es_pt_buffer s \<noteq> [] \<and> es_count_backedup s < length (es_pt_buffer s))" by auto
    from fin nb obtain s3 where w: "Enc_write_segment sops dops ?q True s = Some (OkStatus, s3)"
      and c: "Enc_close_destination dops s3 = Some (OkStatus, s')"
      unfolding Enc_finish_def Let_def by (auto simp: bind_eq_Some_conv dest!: Enc_or_close_ok split: if_splits)
    from Enc_last_segment [OF w c R] obtain c1 where c1: "E k True ?q = Some c1"
      "dfinal (es_ct_destination s') ((c0 @ h @ ct) @ c1)" by blast
    have "enc_from E 0 f p (dn @ ?q) = Some (ct @ c1)"
      using q c1(1) by (auto simp: enc_from_last encrypted_def)
    with c1(2) True show ?thesis by (auto simp: enc_final_def)
  next
    case False
    then have nb: "es_pt_buffer s \<noteq> [] \<and> es_count_backedup s < length (es_pt_buffer s)" by auto
    let ?s1 = "s\<lparr>es_pt_buffer := ?x\<rparr>"
    have rs: "vector_resize ?c (es_pt_buffer s) = ?x" by (simp add: vector_resize_def)
    define w where "w = (if ?q \<noteq> [] then Enc_write_segment sops dops ?q False ?s1 else Some (OkStatus, ?s1))"
    from fin nb obtain s2 s3 where w: "w = Some (OkStatus, s2)"
      and w2: "Enc_write_segment sops dops ?x True s2 = Some (OkStatus, s3)"
      and c: "Enc_close_destination dops s3 = Some (OkStatus, s')"
      unfolding Enc_finish_def Let_def w_def rs by (auto simp: bind_eq_Some_conv dest!: Enc_or_close_ok split: if_splits)
    have lx: "length ?x \<le> length (es_pt_buffer s)" by simp
    have "\<exists>ct2 k2 m2. srep (es_segment_encrypter s2) k2 \<and> drep (es_ct_destination s2) (c0 @ h @ ct2) m2 \<and>
        (\<forall>c2. E k2 True ?x = Some c2 \<longrightarrow> enc_from E 0 f p (dn @ ?q @ ?x) = Some (ct2 @ c2))"
    proof (cases "?q = []")
      case True
      then have "s2 = ?s1" using w by (simp add: w_def)
      moreover have "\<forall>c2. E k True ?x = Some c2 \<longrightarrow> enc_from E 0 f p (dn @ ?q @ ?x) = Some (ct @ c2)"
        using q True lx by (simp add: enc_from_last)
      ultimately show ?thesis using R by auto
    next
      case qne: False
      have "srep (es_segment_encrypter ?s1) k" "drep (es_ct_destination ?s1) (c0 @ h @ ct) m" using R by simp_all
      from Enc_write_segment_ok [OF w [unfolded w_def if_P [OF qne]] this] obtain c2 m2 where
        s2: "srep (es_segment_encrypter s2) (Suc k)" "E k False ?q = Some c2" "drep (es_ct_destination s2) ((c0 @ h @ ct) @ c2) m2" by auto
      from q qne have "encrypted dn ct k (length ?q)" "length (es_pt_buffer s) = p" by auto
      from encrypted_step [OF this(1) qne s2(2)] False this(2) lx
      have "\<forall>c3. E (Suc k) True ?x = Some c3 \<longrightarrow> enc_from E 0 f p (dn @ ?q @ ?x) = Some ((ct @ c2) @ c3)"
        by (auto simp: encrypted_def enc_from_last)
      moreover have "drep (es_ct_destination s2) (c0 @ h @ (ct @ c2)) m2" using s2(3) by simp
      ultimately show ?thesis using s2(1) by blast
    qed
    then obtain ct2 k2 m2 where s2: "srep (es_segment_encrypter s2) k2" "drep (es_ct_destination s2) (c0 @ h @ ct2) m2"
      "\<And>c2. E k2 True ?x = Some c2 \<Longrightarrow> enc_from E 0 f p (dn @ ?q @ ?x) = Some (ct2 @ c2)" by blast
    from Enc_last_segment [OF w2 c s2(1,2)] obtain c3 where "E k2 True ?x = Some c3"
      "dfinal (es_ct_destination s') ((c0 @ h @ ct2) @ c3)" by blast
    with s2(3) show ?thesis by (auto simp: enc_final_def)
  qed
qed

lemma Enc_Close_final:
  assumes r: "enc_rep s d n" and c: "Enc_Close sops dops s = Some (OkStatus, s')"
  shows "enc_final s' d"
proof (cases "es_is_first_segment s")
  case True
  note R = r [unfolded enc_rep_def if_P [OF True]]
  from c R True obtain s1 where w: "Enc_write_header sops dops s = Some (OkStatus, s1)"
    and fin: "Enc_finish sops dops s1 = Some (OkStatus, s')"
    by (auto simp: Enc_Close_def bind_eq_Some_conv split: sum.splits) (metis old.unit.exhaust sum.exhaust)
  from R obtain m where "srep (es_segment_encrypter s) 0" "drep (es_ct_destination s) c0 m" by auto
  from Enc_write_header_ok [OF w this] obtain dest m' where
    s1: "s1 = s\<lparr>es_ct_destination := dest, es_status := OkStatus\<rparr>" and m': "drep dest (c0 @ h) m'" by blast
  have "srep (es_segment_encrypter s1) 0" "drep (es_ct_destination s1) (c0 @ h @ []) m'"
    "es_count_backedup s1 \<le> length (es_pt_buffer s1)" "es_pt_to_encrypt s1 = []" "length (es_pt_buffer s1) = f"
    "length (es_pt_buffer s1) - es_count_backedup s1 = 0" "d = []" using R s1 m' by simp_all
  with Enc_finish_final [OF fin this(1-3), of "[]"] show ?thesis by simp
next
  case False
  note R = r [unfolded enc_rep_def if_not_P [OF False]]
  from R obtain dn ct k m where D: "srep (es_segment_encrypter s) k" "drep (es_ct_destination s) (c0 @ h @ ct) m"
    "d = dn @ es_pt_to_encrypt s @ take (length (es_pt_buffer s) - es_count_backedup s) (es_pt_buffer s)"
    "es_pt_to_encrypt s = [] \<and> dn = [] \<and> ct = [] \<and> k = 0 \<and> length (es_pt_buffer s) = f \<or>
      es_pt_to_encrypt s \<noteq> [] \<and> encrypted dn ct k (length (es_pt_to_encrypt s)) \<and> length (es_pt_buffer s) = p" by blast
  from c R False have fin: "Enc_finish sops dops s = Some (OkStatus, s')" by (simp add: Enc_Close_def)
  have "es_count_backedup s \<le> length (es_pt_buffer s)" using R by simp
  from Enc_finish_final [OF fin D(1,2) this D(4)] show ?thesis unfolding D(3) .
qed

end

text \<open>So an encrypting stream is an output stream over whatever output stream it writes to.\<close>

sublocale encrypting_stream \<subseteq> enc: output_stream "Enc_ops sops dops" enc_rep enc_final
  by unfold_locales
    (auto simp: Enc_ops_def intro: Enc_Next_rep Enc_Store_rep Enc_BackUp_rep Enc_Close_final)

text \<open>It is never stuck if its destination never is.\<close>

locale live_encrypting_stream =
  segment_encrypter sops srep E h f p + dst: live_output_stream dops dlive
  for sops :: "'e SegmentEncrypter" and srep E h f p and dops :: "'d OutputStream" and dlive
begin

definition enc_live :: "('e, 'd) EncStream \<Rightarrow> bool" where
  "enc_live s \<longleftrightarrow> dlive (es_ct_destination s) \<and>
     (es_status s = OkStatus \<longrightarrow> es_pt_buffer s \<noteq> [] \<and> (\<exists>k. srep (es_segment_encrypter s) k))"

lemma enc_live_New: "\<lbrakk>Enc_New sops (Some e) (Some dest) = Inr s; srep e 0; dlive dest\<rbrakk> \<Longrightarrow> enc_live s"
  by (auto simp: Enc_New_def Let_def enc_live_def vector_resize_def split: if_splits)

lemma Enc_write_header_returns:
  assumes "dlive (es_ct_destination s)"
  shows "\<exists>st dest. Enc_write_header sops dops s = Some (st, s\<lparr>es_ct_destination := dest, es_status := st\<rparr>) \<and> dlive dest"
  using dst.WriteToStream_returns [OF assms, of "se_get_header sops (es_segment_encrypter s)"]
  by (auto simp: Enc_write_header_def)

lemma Enc_write_segment_returns:
  assumes d: "dlive (es_ct_destination s)" and r: "srep (es_segment_encrypter s) k"
  shows "\<exists>st e dest. Enc_write_segment sops dops pt lst s =
           Some (st, s\<lparr>es_segment_encrypter := e, es_ct_destination := dest, es_status := st\<rparr>) \<and> dlive dest \<and>
           (st = OkStatus \<longrightarrow> (\<exists>k. srep e k))"
proof -
  obtain x e where e: "se_EncryptSegment sops pt lst (es_segment_encrypter s) = (x, e)" by fastforce
  show ?thesis
  proof (cases x)
    case (Inl er)
    have "s\<lparr>es_segment_encrypter := e, es_status := Inl er\<rparr> =
        s\<lparr>es_segment_encrypter := e, es_ct_destination := es_ct_destination s, es_status := Inl er\<rparr>" by simp
    then have "Enc_write_segment sops dops pt lst s = Some (Inl er,
        s\<lparr>es_segment_encrypter := e, es_ct_destination := es_ct_destination s, es_status := Inl er\<rparr>)"
      using e Inl by (simp add: Enc_write_segment_def)
    with d show ?thesis by blast
  next
    case (Inr ct)
    from dst.WriteToStream_returns [OF d, of ct] obtain st dest where
      "WriteToStream dops ct (es_ct_destination s) = Some (st, dest)" "dlive dest" by blast
    moreover have "srep e (Suc k)" using encrypt [OF r] e Inr by blast
    moreover from this e Inr have "Enc_write_segment sops dops pt lst s =
        Some (st, s\<lparr>es_segment_encrypter := e, es_ct_destination := dest, es_status := st\<rparr>)"
      using calculation(1) by (simp add: Enc_write_segment_def)
    ultimately show ?thesis by blast
  qed
qed

lemma Enc_Next_returns:
  assumes l: "enc_live s"
  shows "\<exists>r s'. Enc_Next sops dops s = Some (r, s') \<and> r \<noteq> Inr 0 \<and> enc_live s'"
proof (cases "es_status s")
  case (Inl e)
  with l show ?thesis by (simp add: Enc_Next_def)
next
  case (Inr u)
  with l obtain k where L: "dlive (es_ct_destination s)" "es_pt_buffer s \<noteq> []" "srep (es_segment_encrypter s) k" "es_status s = OkStatus"
    by (auto simp: enc_live_def)
  consider "es_is_first_segment s" | "\<not> es_is_first_segment s" "0 < es_count_backedup s"
    | "\<not> es_is_first_segment s" "es_count_backedup s = 0" by blast
  then show ?thesis
  proof cases
    case 1
    from L(1) have "dlive (es_ct_destination (s\<lparr>es_is_first_segment := False, es_count_backedup := 0\<rparr>))" by simp
    from Enc_write_header_returns [OF this] obtain st dest where
      "Enc_write_header sops dops (s\<lparr>es_is_first_segment := False, es_count_backedup := 0\<rparr>) =
        Some (st, s\<lparr>es_is_first_segment := False, es_count_backedup := 0, es_ct_destination := dest, es_status := st\<rparr>)"
      "dlive dest" by auto
    with 1 L show ?thesis by (cases st) (auto simp: Enc_Next_def enc_live_def)
  next
    case 2
    with L show ?thesis by (auto simp: Enc_Next_def enc_live_def)
  next
    case 3
    have "\<exists>st e dest. (if es_pt_to_encrypt s \<noteq> [] then Enc_write_segment sops dops (es_pt_to_encrypt s) False s
        else Some (OkStatus, s)) = Some (st, s\<lparr>es_segment_encrypter := e, es_ct_destination := dest, es_status := st\<rparr>) \<and> dlive dest \<and>
           (st = OkStatus \<longrightarrow> (\<exists>k. srep e k))"
    proof (cases "es_pt_to_encrypt s = []")
      case True
      have "s = s\<lparr>es_segment_encrypter := es_segment_encrypter s, es_ct_destination := es_ct_destination s, es_status := OkStatus\<rparr>"
        using L(4) by simp
      with True L show ?thesis by metis
    qed (use Enc_write_segment_returns [OF L(1,3)] in simp)
    then obtain st e dest where w: "(if es_pt_to_encrypt s \<noteq> [] then Enc_write_segment sops dops (es_pt_to_encrypt s) False s
        else Some (OkStatus, s)) = Some (st, s\<lparr>es_segment_encrypter := e, es_ct_destination := dest, es_status := st\<rparr>)"
      "dlive dest" "st = OkStatus \<longrightarrow> (\<exists>k. srep e k)" by blast
    show ?thesis
    proof (cases st)
      case (Inl er)
      with w 3 L show ?thesis by (simp add: Enc_Next_def enc_live_def)
    next
      case (Inr u)
      with w(3) obtain k' where k': "srep e k'" by auto
      have "vector_resize p (es_pt_to_encrypt s) \<noteq> []" using sizes_positive [OF k'] by (metis length_vector_resize list.size(3) less_irrefl)
      with Inr w 3 L k' sizes_positive [OF k'] show ?thesis
        by (auto simp: Enc_Next_def enc_live_def Let_def segment_size)
    qed
  qed
qed

lemma Enc_or_close_returns:
  assumes "r = Some (st, s)" and "dlive (es_ct_destination s)"
    and k: "st = OkStatus \<Longrightarrow> \<exists>r s'. k s = Some (r, s') \<and> dlive (es_ct_destination s') \<and> isl (es_status s')"
    and e: "isl st \<Longrightarrow> isl (es_status s)"
  shows "\<exists>r' s'. r \<bind> (\<lambda>r. Enc_or_close dops r k) = Some (r', s') \<and> dlive (es_ct_destination s') \<and> isl (es_status s')"
proof (cases st)
  case (Inl x)
  from dst.close_returns [OF assms(2)] e Inl assms(1) show ?thesis by (auto simp: Enc_or_close_def)
next
  case (Inr u)
  with k assms(1) show ?thesis by (auto simp: Enc_or_close_def)
qed

lemma Enc_finish_returns:
  assumes d: "dlive (es_ct_destination s)" and r: "srep (es_segment_encrypter s) k" and ok: "es_status s = OkStatus"
  shows "\<exists>r s'. Enc_finish sops dops s = Some (r, s') \<and> dlive (es_ct_destination s') \<and> isl (es_status s')"
proof -
  define ib where "ib = (es_pt_buffer s \<noteq> [] \<and> es_count_backedup s < length (es_pt_buffer s))"
  define s1 where "s1 = (if ib then s\<lparr>es_pt_buffer := vector_resize (length (es_pt_buffer s) - es_count_backedup s) (es_pt_buffer s)\<rparr> else s)"
  define pl where "pl = (if ib then es_pt_buffer s1 else es_pt_to_encrypt s1)"
  define fin where "fin s2 = Enc_write_segment sops dops pl True s2 \<bind> (\<lambda>r. Enc_or_close dops r (Enc_close_destination dops))" for s2
  have s1: "dlive (es_ct_destination s1)" "srep (es_segment_encrypter s1) k" "es_status s1 = OkStatus"
    using d r ok by (simp_all add: s1_def)
  have close: "\<exists>r s'. Enc_close_destination dops t = Some (r, s') \<and> dlive (es_ct_destination s') \<and> isl (es_status s')"
    if "dlive (es_ct_destination t)" for t
    using dst.close_returns [OF that] by (fastforce simp: Enc_close_destination_def)
  have fin: "\<exists>r s'. fin t = Some (r, s') \<and> dlive (es_ct_destination s') \<and> isl (es_status s')"
    if "dlive (es_ct_destination t)" "srep (es_segment_encrypter t) k'" for t k'
    using Enc_write_segment_returns [OF that, of pl True] unfolding fin_def
    by (elim exE conjE) (rule Enc_or_close_returns, assumption, auto intro: close)
  have e: "Enc_finish sops dops s = (if ib \<and> es_pt_to_encrypt s1 \<noteq> [] then Enc_write_segment sops dops (es_pt_to_encrypt s1) False s1
      else Some (OkStatus, s1)) \<bind> (\<lambda>r. Enc_or_close dops r fin)"
    by (simp add: Enc_finish_def Let_def ib_def s1_def pl_def fin_def [abs_def])
  show ?thesis
  proof (cases "ib \<and> es_pt_to_encrypt s1 \<noteq> []")
    case True
    from Enc_write_segment_returns [OF s1(1,2), of "es_pt_to_encrypt s1" False] show ?thesis
      unfolding e if_P [OF True] by (elim exE conjE) (rule Enc_or_close_returns, assumption, auto intro: fin)
  next
    case False
    show ?thesis unfolding e if_not_P [OF False] by (rule Enc_or_close_returns [OF refl s1(1)]) (use fin s1 in auto)
  qed
qed

lemma Enc_Close_returns:
  assumes l: "enc_live s"
  shows "\<exists>r s'. Enc_Close sops dops s = Some (r, s') \<and> enc_live s'"
proof (cases "es_status s")
  case (Inl e)
  with l show ?thesis by (simp add: Enc_Close_def)
next
  case (Inr u)
  with l obtain k where L: "dlive (es_ct_destination s)" "srep (es_segment_encrypter s) k" "es_status s = OkStatus"
    by (auto simp: enc_live_def)
  have fin: "\<exists>r s'. Enc_finish sops dops t = Some (r, s') \<and> enc_live s'"
    if "dlive (es_ct_destination t)" "srep (es_segment_encrypter t) k" "es_status t = OkStatus" for t
    using Enc_finish_returns [OF that] by (auto simp: enc_live_def)
  show ?thesis
  proof (cases "es_is_first_segment s")
    case True
    from Enc_write_header_returns [OF L(1)] obtain st dest where
      w: "Enc_write_header sops dops s = Some (st, s\<lparr>es_ct_destination := dest, es_status := st\<rparr>)" "dlive dest" by blast
    then show ?thesis using True L fin [of "s\<lparr>es_ct_destination := dest, es_status := OkStatus\<rparr>"]
      by (cases st) (auto simp: Enc_Close_def enc_live_def)
  next
    case False
    with fin [OF L] L show ?thesis by (simp add: Enc_Close_def)
  qed
qed

end

sublocale live_encrypting_stream \<subseteq> enc: live_output_stream "Enc_ops sops dops" enc_live
  by unfold_locales
    (auto simp: Enc_ops_def Enc_Store_def Enc_BackUp_def enc_live_def Let_def
      intro: Enc_Next_returns [unfolded enc_live_def] Enc_Close_returns [unfolded enc_live_def])

section \<open>The decrypting stream\<close>

text \<open>
  The plaintext of a whole ciphertext stream: a header of \<open>hs\<close> bytes, with which the decrypter is initialized, and the
  segments.
\<close>

definition dec_all ::
    "'e SegmentDecrypter \<Rightarrow> 'e \<Rightarrow> nat \<Rightarrow> nat \<Rightarrow> nat \<Rightarrow> absl_code \<Rightarrow> bytes \<Rightarrow> bytes \<times> absl_code" where
  "dec_all sops dec hs f p e x =
     (if length x < hs then ([], if e = kOutOfRange then kInvalidArgument else e)
      else case sd_Init sops (take hs x) dec of
             (Inl er, _) \<Rightarrow> ([], er)
           | (Inr _, dec') \<Rightarrow> dec_from (\<lambda>i lst c. sd_DecryptSegment sops c i lst dec') 0 f p e (drop hs x))"

text \<open>
  The contract of a segment decrypter: sizes are constant, and a full segment that is not the last one is not empty. \<open>f\<close> and
  \<open>p\<close> are the sizes of the first and of the other ciphertext segments.
\<close>

locale segment_decrypter =
  fixes sops :: "'e SegmentDecrypter"
    and inv :: "'e \<Rightarrow> bool"
    and hs f p :: nat
  assumes header_size: "inv e \<Longrightarrow> sd_get_header_size sops e = int hs"
    and segment_size: "inv e \<Longrightarrow> sd_get_ciphertext_segment_size sops e = int p"
    and first_size: "inv e \<Longrightarrow> int p - sd_get_ciphertext_offset sops e - int hs = int f"
    and sizes_positive: "inv e \<Longrightarrow> 0 < hs \<and> 0 < f \<and> 0 < p"
    and init: "\<lbrakk>inv e; sd_Init sops x e = (OkStatus, e')\<rbrakk> \<Longrightarrow> inv e'"
    and not_empty: "\<lbrakk>inv e; length c = f \<or> length c = p\<rbrakk> \<Longrightarrow> sd_DecryptSegment sops c i False e \<noteq> Inr []"

locale decrypting_stream =
  segment_decrypter sops inv hs f p + src: input_stream iops irep
  for sops :: "'e SegmentDecrypter" and inv hs f p and iops :: "'s InputStream" and irep
begin

abbreviation dec_segment :: "'e \<Rightarrow> nat \<Rightarrow> bool \<Rightarrow> bytes \<Rightarrow> bytes StatusOr" where
  "dec_segment dec \<equiv> \<lambda>i lst c. sd_DecryptSegment sops c i lst dec"

definition to_come :: "('e, 's) DecStream \<Rightarrow> bytes \<Rightarrow> absl_code \<Rightarrow> bool" where
  "to_come s r e \<longleftrightarrow>
     (if ds_read_last_segment s then r = [] \<and> e = kOutOfRange
      else \<exists>l x es. irep (ds_ct_source s) l x es \<and>
             (r, e) = dec_from (dec_segment (ds_segment_decrypter s)) (Suc (ds_segment_number s)) p p es x)"

definition dec_rep :: "('e, 's) DecStream \<Rightarrow> bytes \<Rightarrow> bytes \<Rightarrow> absl_code \<Rightarrow> bool" where
  "dec_rep s l d e \<longleftrightarrow>
     ds_status s = OkStatus \<and> inv (ds_segment_decrypter s) \<and>
     (if ds_is_initialized s
      then ds_pt_buffer_offset s + ds_count_backedup s \<le> length (ds_pt_buffer s) \<and>
           l = take (length (ds_pt_buffer s) - ds_pt_buffer_offset s - ds_count_backedup s)
                 (drop (ds_pt_buffer_offset s) (ds_pt_buffer s)) \<and>
           (\<exists>r. to_come s r e \<and> d = drop (length (ds_pt_buffer s) - ds_count_backedup s) (ds_pt_buffer s) @ r)
      else l = [] \<and> ds_segment_number s = 0 \<and> length (ds_ct_buffer s) = f \<and> ds_pt_buffer_offset s = 0 \<and>
           (\<exists>l x es. irep (ds_ct_source s) l x es \<and> (d, e) = dec_all sops (ds_segment_decrypter s) hs f p es x))"

lemma dec_rep_New:
  assumes n: "Dec_New sops (Some dec) (Some src) = Inr s" and "inv dec" and "irep src l x es"
    and "dec_all sops dec hs f p es x = (d, e)"
  shows "dec_rep s [] d e"
proof -
  have "ds_segment_decrypter s = dec" "ds_ct_source s = src" "ds_status s = OkStatus" "\<not> ds_is_initialized s"
    "ds_segment_number s = 0" "length (ds_ct_buffer s) = f" "ds_pt_buffer_offset s = 0"
    using n assms(2) by (auto simp: Dec_New_def Let_def segment_size header_size first_size split: if_splits)
  moreover have "\<exists>l x es. irep src l x es \<and> (d, e) = dec_all sops dec hs f p es x" using assms(3,4) by metis
  ultimately show ?thesis using assms(2) unfolding dec_rep_def by simp
qed

lemma Dec_read_segment_result:
  assumes r: "irep (ds_ct_source s) l x es" and g: "length (ds_ct_buffer s) = g" "0 < g"
    and d: "dec_from (dec_segment (ds_segment_decrypter s)) (ds_segment_number s) g p es x = (d, e)"
  obtains (error) s' where "Dec_read_segment sops iops s = Some (Inl e, s')" "d = []"
  | (data) pt src ct b d' where
      "Dec_read_segment sops iops s = Some (OkStatus, s\<lparr>ds_ct_source := src, ds_ct_buffer := ct, ds_read_last_segment := b,
         ds_status := OkStatus, ds_pt_buffer := pt\<rparr>)"
      "d = pt @ d'"
      "to_come (s\<lparr>ds_ct_source := src, ds_ct_buffer := ct, ds_read_last_segment := b, ds_status := OkStatus, ds_pt_buffer := pt\<rparr>) d' e"
      "\<not> b \<Longrightarrow> \<exists>c. length c = g \<and> sd_DecryptSegment sops c (ds_segment_number s) False (ds_segment_decrypter s) = Inr pt"
proof (cases "length x < g")
  case True
  have "length x < nat (int (length (ds_ct_buffer s)))" using True g by simp
  from src.ReadFromStream_end [OF r this] obtain src where
    rd: "ReadFromStream iops (int (length (ds_ct_buffer s))) (ds_ct_source s) = Some (Inl es, x, src)" by blast
  show ?thesis
  proof (cases "es = kOutOfRange")
    case eof: True
    show ?thesis
    proof (cases "sd_DecryptSegment sops x (ds_segment_number s) True (ds_segment_decrypter s)")
      case (Inl er)
      with rd eof d True g(2) show ?thesis
        by (intro error) (auto simp: Dec_read_segment_def Let_def dec_from.simps [of _ _ g])
    next
      case (Inr pt)
      with rd eof d True g(2) show ?thesis
        by (intro data [where src = src and ct = "x" and b = True and pt = pt and d' = "[]"]) (auto simp: Dec_read_segment_def Let_def dec_from.simps [of _ _ g] to_come_def)
    qed
  next
    case False
    with rd d True g(2) show ?thesis
      by (intro error) (auto simp: Dec_read_segment_def Let_def dec_from.simps [of _ _ g])
  qed
next
  case False
  let ?c = "take g x"
  have "0 < int (length (ds_ct_buffer s))" "nat (int (length (ds_ct_buffer s))) \<le> length x" using False g by simp_all
  from src.ReadFromStream_data [OF r this] g(1) obtain src l' where
    rd: "ReadFromStream iops (int (length (ds_ct_buffer s))) (ds_ct_source s) = Some (OkStatus, ?c, src)"
    and r': "irep src l' (drop g x) es" by auto
  show ?thesis
  proof (cases "sd_DecryptSegment sops ?c (ds_segment_number s) False (ds_segment_decrypter s)")
    case (Inr pt)
    obtain d' e' where d': "dec_from (dec_segment (ds_segment_decrypter s)) (Suc (ds_segment_number s)) p p es (drop g x) = (d', e')"
      by fastforce
    have "d = pt @ d'" "e' = e" using d d' Inr False g(2) by (auto simp: dec_from.simps [of _ _ g])
    have "\<exists>l x es. irep src l x es \<and>
        (d', e) = dec_from (dec_segment (ds_segment_decrypter s)) (Suc (ds_segment_number s)) p p es x"
      using r' d' \<open>e' = e\<close> by metis
    with rd Inr \<open>d = pt @ d'\<close> False show ?thesis
      by (intro data [where src = src and ct = "?c" and b = False and pt = pt and d' = d'])
        (auto simp: Dec_read_segment_def Let_def to_come_def intro: exI [of _ ?c])
  next
    case (Inl er)
    note nl = this
    show ?thesis
    proof (cases "sd_DecryptSegment sops ?c (ds_segment_number s) True (ds_segment_decrypter s)")
      case (Inl er')
      with nl rd d False g(2) show ?thesis
        by (intro error) (auto simp: Dec_read_segment_def Let_def dec_from.simps [of _ _ g])
    next
      case (Inr pt)
      with nl rd d False g(2) show ?thesis
        by (intro data [where src = src and ct = "?c" and b = True and pt = pt and d' = "[]"]) (auto simp: Dec_read_segment_def Let_def dec_from.simps [of _ _ g] to_come_def)
    qed
  qed
qed

end

context decrypting_stream
begin

lemma to_come_cong:
  assumes "to_come s r e" and "ds_read_last_segment t = ds_read_last_segment s" and "ds_ct_source t = ds_ct_source s"
    and "ds_segment_decrypter t = ds_segment_decrypter s" and "ds_segment_number t = ds_segment_number s"
  shows "to_come t r e"
  using assms by (simp add: to_come_def)

text \<open>What a call of \<^verbatim>\<open>Next\<close> may return: the status at the end, or the next bytes; none only before the end.\<close>

definition next_ok :: "('e, 's) DecStream \<Rightarrow> bytes \<Rightarrow> absl_code \<Rightarrow> bool" where
  "next_ok s d e \<longleftrightarrow>
     (\<exists>s'. Dec_Next sops iops s = Some (Inl e, s') \<and> d = []) \<or>
     (\<exists>b d' s'. Dec_Next sops iops s = Some (Inr b, s') \<and> d = b @ d' \<and> dec_rep s' b d' e \<and>
        (b = [] \<longrightarrow> ds_is_initialized s' \<and> ds_read_last_segment s' \<and> ds_count_backedup s' = 0 \<and> e = kOutOfRange))"

lemma Dec_read_header_result:
  assumes r: "irep (ds_ct_source s) l x es" and i: "inv (ds_segment_decrypter s)"
    and d: "dec_all sops (ds_segment_decrypter s) hs f p es x = (d, e)"
  obtains (error) s' where "Dec_read_header sops iops s = Some (Inl e, s')" "d = []"
  | (ready) src dec l' where "Dec_read_header sops iops s = Some (OkStatus, s\<lparr>ds_ct_source := src, ds_segment_decrypter := dec, ds_status := OkStatus\<rparr>)"
      "inv dec" "irep src l' (drop hs x) es" "dec_from (dec_segment dec) 0 f p es (drop hs x) = (d, e)"
proof (cases "length x < hs")
  case True
  then have "length x < nat (sd_get_header_size sops (ds_segment_decrypter s))" by (simp add: header_size [OF i])
  from src.ReadFromStream_end [OF r this] obtain src where
    rd: "ReadFromStream iops (sd_get_header_size sops (ds_segment_decrypter s)) (ds_ct_source s) = Some (Inl es, x, src)" by blast
  with d True show ?thesis
    by (cases "es = kOutOfRange") (auto intro!: error simp: Dec_read_header_def dec_all_def Let_def)
next
  case False
  have "0 < sd_get_header_size sops (ds_segment_decrypter s)" "nat (sd_get_header_size sops (ds_segment_decrypter s)) \<le> length x"
    using False sizes_positive [OF i] by (simp_all add: header_size [OF i])
  from src.ReadFromStream_data [OF r this] obtain src l' where
    rd: "ReadFromStream iops (sd_get_header_size sops (ds_segment_decrypter s)) (ds_ct_source s) = Some (OkStatus, take hs x, src)"
    and r': "irep src l' (drop hs x) es" by (auto simp: header_size [OF i])
  obtain st dec where I: "sd_Init sops (take hs x) (ds_segment_decrypter s) = (st, dec)" by fastforce
  show ?thesis
  proof (cases st)
    case (Inl er)
    with rd d False I show ?thesis by (intro error) (auto simp: Dec_read_header_def dec_all_def Let_def)
  next
    case (Inr u)
    have "inv dec" using init [OF i] I Inr by simp
    with rd d False I Inr r' show ?thesis by (intro ready [OF _ _ r']) (auto simp: Dec_read_header_def dec_all_def Let_def)
  qed
qed

lemma Dec_Next_first:
  assumes n: "\<not> ds_is_initialized s" and r: "dec_rep s l d e"
  shows "next_ok s d e"
proof -
  note R = r [unfolded dec_rep_def if_not_P [OF n]]
  then obtain l x es where "irep (ds_ct_source s) l x es" and i: "inv (ds_segment_decrypter s)"
    and "dec_all sops (ds_segment_decrypter s) hs f p es x = (d, e)" by metis
  then show ?thesis
  proof (cases rule: Dec_read_header_result)
    case (error s')
    with R n show ?thesis by (simp add: next_ok_def Dec_Next_def)
  next
    case (ready src dec l')
    let ?s = "s\<lparr>ds_ct_source := src, ds_segment_decrypter := dec, ds_status := OkStatus, ds_is_initialized := True, ds_count_backedup := 0\<rparr>"
    have "irep (ds_ct_source ?s) l' (drop hs x) es" "length (ds_ct_buffer ?s) = f" "0 < f"
      "dec_from (dec_segment (ds_segment_decrypter ?s)) (ds_segment_number ?s) f p es (drop hs x) = (d, e)"
      using ready R sizes_positive [OF i] by simp_all
    then show ?thesis
    proof (cases rule: Dec_read_segment_result)
      case (error s')
      with ready R n show ?thesis by (simp add: next_ok_def Dec_Next_def)
    next
      case (data pt src' ct b d')
      let ?t = "?s\<lparr>ds_ct_source := src', ds_ct_buffer := ct, ds_read_last_segment := b, ds_status := OkStatus, ds_pt_buffer := pt\<rparr>"
      have nx: "Dec_Next sops iops s = Some (Inr pt, ?t\<lparr>ds_position := int (length pt)\<rparr>)"
        using ready(1) data(1) R n by (simp add: Dec_Next_def)
      have "dec_rep (?t\<lparr>ds_position := int (length pt)\<rparr>) pt d' e"
        using to_come_cong [OF data(3), of "?t\<lparr>ds_position := int (length pt)\<rparr>"] R ready(2) by (simp add: dec_rep_def)
      moreover have "b \<and> e = kOutOfRange" if "pt = []"
      proof -
        from that data(4) not_empty [OF ready(2)] have b by fastforce
        with data(3) show ?thesis by (simp add: to_come_def)
      qed
      ultimately show ?thesis using nx data(2) by (auto simp: next_ok_def)
    qed
  qed
qed

lemma Dec_Next_more:
  assumes n: "ds_is_initialized s" and r: "dec_rep s l d e"
  shows "next_ok s d e"
proof -
  note R = r [unfolded dec_rep_def if_P [OF n]]
  let ?b = "ds_pt_buffer s" and ?u = "ds_count_backedup s"
  consider "0 < ?u" | "?u = 0" "ds_read_last_segment s" | "?u = 0" "\<not> ds_read_last_segment s" by blast
  then show ?thesis
  proof cases
    case 1
    let ?s = "s\<lparr>ds_position := ds_position s + int ?u, ds_pt_buffer_offset := length ?b - ?u, ds_count_backedup := 0\<rparr>"
    from R obtain x where x: "to_come s x e" "d = drop (length ?b - ?u) ?b @ x" by blast
    have "dec_rep ?s (drop (length ?b - ?u) ?b) x e" using R n to_come_cong [OF x(1), of ?s] by (simp add: dec_rep_def)
    moreover have "Dec_Next sops iops s = Some (Inr (drop (length ?b - ?u) ?b), ?s)" using 1 n R by (simp add: Dec_Next_def Let_def)
    moreover have "drop (length ?b - ?u) ?b \<noteq> []" using 1 R by auto
    ultimately show ?thesis unfolding next_ok_def using x(2) by blast
  next
    case 2
    with R n show ?thesis by (auto simp: next_ok_def to_come_def Dec_Next_def)
  next
    case 3
    let ?s = "s\<lparr>ds_segment_number := Suc (ds_segment_number s), ds_ct_buffer := vector_resize p (ds_ct_buffer s)\<rparr>"
    from R 3 have i: "inv (ds_segment_decrypter s)" and tc: "to_come s d e" by auto
    from tc 3 obtain l x es where "irep (ds_ct_source ?s) l x es" "length (ds_ct_buffer ?s) = p" "0 < p"
      "dec_from (dec_segment (ds_segment_decrypter ?s)) (ds_segment_number ?s) p p es x = (d, e)"
      using sizes_positive [OF i] unfolding to_come_def by auto
    then show ?thesis
    proof (cases rule: Dec_read_segment_result)
      case (error s')
      with R n 3 show ?thesis by (simp add: next_ok_def Dec_Next_def segment_size [OF i])
    next
      case (data pt src' ct b d')
      let ?t = "?s\<lparr>ds_ct_source := src', ds_ct_buffer := ct, ds_read_last_segment := b, ds_status := OkStatus, ds_pt_buffer := pt\<rparr>"
      let ?t' = "?t\<lparr>ds_pt_buffer_offset := 0, ds_position := ds_position s + int (length pt)\<rparr>"
      have nx: "Dec_Next sops iops s = Some (Inr pt, ?t')"
        using data(1) R n 3 by (simp add: Dec_Next_def segment_size [OF i])
      have "dec_rep ?t' pt d' e" using to_come_cong [OF data(3), of ?t'] R n 3 i by (simp add: dec_rep_def)
      moreover have "b \<and> e = kOutOfRange" if "pt = []"
      proof -
        from that data(4) not_empty [OF i] have b by fastforce
        with data(3) show ?thesis by (simp add: to_come_def)
      qed
      ultimately show ?thesis using nx data(2) n 3 by (auto simp: next_ok_def)
    qed
  qed
qed

lemma Dec_Next_ok: "dec_rep s l d e \<Longrightarrow> next_ok s d e"
  using Dec_Next_first Dec_Next_more by blast

lemma Dec_BackUp_rep:
  assumes r: "dec_rep s (l @ g) d e" and j: "nat j = length g"
  shows "dec_rep (Dec_BackUp j s) l (g @ d) e"
proof (cases "g = []")
  case True
  with r j show ?thesis by (simp add: Dec_BackUp_def)
next
  case False
  then have n: "ds_is_initialized s" using r by (auto simp: dec_rep_def split: if_splits)
  note R = r [unfolded dec_rep_def if_P [OF n]]
  let ?b = "ds_pt_buffer s" and ?u = "ds_count_backedup s" and ?o = "ds_pt_buffer_offset s"
  from R have lg: "l @ g = take (length ?b - ?o - ?u) (drop ?o ?b)" by blast
  then have len: "length l + length g = length ?b - ?o - ?u" by (metis length_append length_take length_drop min.absorb2 diff_le_self)
  from R obtain x where x: "to_come s x e" "d = drop (length ?b - ?u) ?b @ x" by blast
  note B = buffer_give_back [OF lg len]
  have j1: "\<not> j < 1" using j False by (cases g) auto
  have s': "Dec_BackUp j s = s\<lparr>ds_count_backedup := ?u + length g, ds_position := ds_position s - int (length g)\<rparr>"
    using j j1 n R len by (simp add: Dec_BackUp_def Let_def min_def)
  have "to_come (Dec_BackUp j s) x e" using to_come_cong [OF x(1), of "Dec_BackUp j s"] unfolding s' by simp
  moreover have "g @ d = drop (length ?b - (?u + length g)) ?b @ x" using B(2) x(2) R len by simp
  ultimately show ?thesis using R n B(1) len unfolding s' by (auto simp: dec_rep_def)
qed

end

sublocale decrypting_stream \<subseteq> dec: input_stream "Dec_ops sops iops" dec_rep
proof (unfold_locales, goal_cases)
  case (1 s l d e b s')
  from Dec_Next_ok [OF 1(1)] 1(2) show ?case by (auto simp: next_ok_def Dec_ops_def)
next
  case (2 s l d e e' s')
  from Dec_Next_ok [OF 2(1)] 2(2) show ?case by (auto simp: next_ok_def Dec_ops_def)
next
  case (3 s l d e)
  from Dec_Next_ok [OF 3] show ?case by (auto simp: next_ok_def Dec_ops_def)
next
  case (4 s l d e s')
  with Dec_Next_ok [OF 4(1)] have "ds_status s' = OkStatus" "ds_is_initialized s'" "ds_read_last_segment s'"
    "ds_count_backedup s' = 0" "e = kOutOfRange" by (auto simp: next_ok_def Dec_ops_def dec_rep_def)
  then show ?case by (simp add: Dec_ops_def Dec_Next_def)
next
  case (5 s l g d e j)
  then show ?case using Dec_BackUp_rep by (simp add: Dec_ops_def)
qed

end
