(* ===== verification/Subtle_Aead.thy ===== *)
theory Subtle_Aead
  imports Registry Primitive_Wrappers
begin

text \<open>
  The primitives of \<^verbatim>\<open>tink/subtle\<close> that wrap BoringSSL: HKDF, HMAC, one-shot AEADs
  (\<^verbatim>\<open>tink/aead/internal/ssl_aead.cc\<close>), AES-GCM, AES-GCM-SIV, XChaCha20-Poly1305, AES-CTR and
  encrypt-then-authenticate, and envelope encryption with a remote key
  (\<^verbatim>\<open>tink/aead/kms_envelope_aead.cc\<close>). BoringSSL itself is a parameter, a record of its functions,
  and what the code relies on is stated as named hypotheses about it. The definitions follow the branches that a build with
  BoringSSL takes.

  Core-dump protection, clearing of taint labels and wiping of buffers do not change results and are left out. Whether
  two buffers overlap is an argument where the code checks it. Random bytes are arguments too: a call that fills a
  buffer may fail, the one that returns a string aborts instead.
\<close>

section \<open>Definitions\<close>

subsection \<open>BoringSSL\<close>

datatype HashType = UNKNOWN_HASH | SHA1 | SHA384 | SHA256 | SHA512 | SHA224

datatype EvpAead = EVP_aead_aes_128_gcm | EVP_aead_aes_256_gcm | EVP_aead_aes_128_gcm_siv | EVP_aead_aes_256_gcm_siv
  | EVP_aead_xchacha20_poly1305

record Ssl =
  EVP_AEAD_CTX_new :: "EvpAead \<Rightarrow> bytes \<Rightarrow> nat \<Rightarrow> bool"
  EVP_AEAD_CTX_seal :: "EvpAead \<Rightarrow> bytes \<Rightarrow> bytes \<Rightarrow> bytes \<Rightarrow> bytes \<Rightarrow> bytes option"
  EVP_AEAD_CTX_open :: "EvpAead \<Rightarrow> bytes \<Rightarrow> bytes \<Rightarrow> bytes \<Rightarrow> bytes \<Rightarrow> bytes option"
  ssl_HKDF :: "HashType \<Rightarrow> bytes \<Rightarrow> bytes \<Rightarrow> bytes \<Rightarrow> nat \<Rightarrow> bytes option"
  ssl_HMAC :: "HashType \<Rightarrow> bytes \<Rightarrow> bytes \<Rightarrow> bytes option"
  ssl_ctr_Encrypt :: "bytes \<Rightarrow> bytes \<Rightarrow> bytes \<Rightarrow> bytes option"
  ssl_ctr_Decrypt :: "bytes \<Rightarrow> bytes \<Rightarrow> bytes \<Rightarrow> bytes option"
  EVP_MD_size :: "HashType \<Rightarrow> nat"

definition EvpHashFromHashType :: "HashType \<Rightarrow> HashType StatusOr" where
  "EvpHashFromHashType hash_type =
     (case hash_type of
        SHA1 \<Rightarrow> Inr SHA1 | SHA224 \<Rightarrow> Inr SHA224 | SHA256 \<Rightarrow> Inr SHA256 | SHA384 \<Rightarrow> Inr SHA384 | SHA512 \<Rightarrow> Inr SHA512
      | _ \<Rightarrow> Inl kUnimplemented)"

definition GetAesGcmAeadForKeySize :: "nat \<Rightarrow> EvpAead StatusOr" where
  "GetAesGcmAeadForKeySize key_size_in_bytes =
     (if key_size_in_bytes = 16 then Inr EVP_aead_aes_128_gcm
      else if key_size_in_bytes = 32 then Inr EVP_aead_aes_256_gcm else Inl kInvalidArgument)"

definition GetAesGcmSivAeadCipherForKeySize :: "nat \<Rightarrow> EvpAead StatusOr" where
  "GetAesGcmSivAeadCipherForKeySize key_size_in_bytes =
     (if key_size_in_bytes = 16 then Inr EVP_aead_aes_128_gcm_siv
      else if key_size_in_bytes = 32 then Inr EVP_aead_aes_256_gcm_siv else Inl kInvalidArgument)"

definition GetAesCtrCipherForKeySize :: "nat \<Rightarrow> Status" where
  "GetAesCtrCipherForKeySize key_size_in_bytes =
     (if key_size_in_bytes = 16 \<or> key_size_in_bytes = 32 then OkStatus else Inl kInvalidArgument)"

subsection \<open>HKDF and HMAC\<close>

definition SslHkdf :: "Ssl \<Rightarrow> HashType \<Rightarrow> bytes \<Rightarrow> bytes \<Rightarrow> bytes \<Rightarrow> nat \<Rightarrow> bytes StatusOr" where
  "SslHkdf S evp_md ikm salt info out_len =
     (case ssl_HKDF S evp_md ikm salt info out_len of None \<Rightarrow> Inl kInternal | Some out_key \<Rightarrow> Inr out_key)"

definition ComputeHkdf :: "Ssl \<Rightarrow> HashType \<Rightarrow> bytes \<Rightarrow> bytes \<Rightarrow> bytes \<Rightarrow> nat \<Rightarrow> bytes StatusOr" where
  "ComputeHkdf S hash ikm salt info out_len =
     (case EvpHashFromHashType hash of Inl e \<Rightarrow> Inl e | Inr evp_md \<Rightarrow> SslHkdf S evp_md ikm salt info out_len)"

definition ComputeEciesHkdfSymmetricKey ::
    "Ssl \<Rightarrow> HashType \<Rightarrow> bytes \<Rightarrow> bytes \<Rightarrow> bytes \<Rightarrow> bytes \<Rightarrow> nat \<Rightarrow> bytes StatusOr" where
  "ComputeEciesHkdfSymmetricKey S hash kem_bytes shared_secret salt info out_len =
     ComputeHkdf S hash (kem_bytes @ shared_secret) salt info out_len"

text \<open>\<open>fips\<close> is \<^verbatim>\<open>CheckFipsCompatibility\<close> in the current mode, applied to the \<^verbatim>\<open>kFipsStatus\<close> of the class.\<close>

record HmacBoringSsl =
  hm_hash_type :: HashType
  hm_tag_size :: nat
  hm_key :: bytes

definition HmacBoringSsl_New :: "Ssl \<Rightarrow> (FipsCompatibility \<Rightarrow> Status) \<Rightarrow> HashType \<Rightarrow> nat \<Rightarrow> bytes \<Rightarrow> HmacBoringSsl StatusOr" where
  "HmacBoringSsl_New S fips hash_type tag_size key =
     (case fips kRequiresBoringCrypto of
        Inl e \<Rightarrow> Inl e
      | Inr _ \<Rightarrow>
          (case EvpHashFromHashType hash_type of
             Inl e \<Rightarrow> Inl e
           | Inr md \<Rightarrow>
               if EVP_MD_size S md < tag_size then Inl kInvalidArgument
               else if length key < 16 then Inl kInvalidArgument
               else Inr \<lparr>hm_hash_type = hash_type, hm_tag_size = tag_size, hm_key = key\<rparr>))"

definition ComputeMac :: "Ssl \<Rightarrow> HmacBoringSsl \<Rightarrow> bytes \<Rightarrow> bytes StatusOr" where
  "ComputeMac S m msg =
     (case EvpHashFromHashType (hm_hash_type m) of
        Inl e \<Rightarrow> Inl e
      | Inr md \<Rightarrow>
          (case ssl_HMAC S md (hm_key m) msg of None \<Rightarrow> Inl kInternal | Some buf \<Rightarrow> Inr (take (hm_tag_size m) buf)))"

definition VerifyMac :: "Ssl \<Rightarrow> HmacBoringSsl \<Rightarrow> bytes \<Rightarrow> bytes \<Rightarrow> Status" where
  "VerifyMac S m mac msg =
     (case EvpHashFromHashType (hm_hash_type m) of
        Inl e \<Rightarrow> Inl e
      | Inr md \<Rightarrow>
          if length mac \<noteq> hm_tag_size m then Inl kInvalidArgument
          else case ssl_HMAC S md (hm_key m) msg of
                 None \<Rightarrow> Inl kInternal
               | Some buf \<Rightarrow> if take (hm_tag_size m) buf \<noteq> mac then Inl kInvalidArgument else OkStatus)"

subsection \<open>One-shot AEAD\<close>

record SslOneShotAead =
  sa_aead :: EvpAead
  sa_key :: bytes
  sa_tag_size :: nat

definition CiphertextSize :: "SslOneShotAead \<Rightarrow> nat \<Rightarrow> nat" where
  "CiphertextSize a plaintext_length = plaintext_length + sa_tag_size a"

definition PlaintextSize :: "SslOneShotAead \<Rightarrow> nat \<Rightarrow> nat" where
  "PlaintextSize a ciphertext_length =
     (if ciphertext_length < sa_tag_size a then 0 else ciphertext_length - sa_tag_size a)"

definition OneShot_Encrypt :: "Ssl \<Rightarrow> SslOneShotAead \<Rightarrow> bool \<Rightarrow> bytes \<Rightarrow> bytes \<Rightarrow> bytes \<Rightarrow> nat \<Rightarrow> bytes StatusOr" where
  "OneShot_Encrypt S a overlap plaintext associated_data iv out_size =
     (if overlap then Inl kInvalidArgument
      else if out_size < CiphertextSize a (length plaintext) then Inl kInvalidArgument
      else case EVP_AEAD_CTX_seal S (sa_aead a) (sa_key a) iv plaintext associated_data of
             None \<Rightarrow> Inl kInternal
           | Some out \<Rightarrow> Inr out)"

definition OneShot_Decrypt :: "Ssl \<Rightarrow> SslOneShotAead \<Rightarrow> bool \<Rightarrow> bytes \<Rightarrow> bytes \<Rightarrow> bytes \<Rightarrow> nat \<Rightarrow> bytes StatusOr" where
  "OneShot_Decrypt S a overlap ciphertext associated_data iv out_size =
     (if overlap then Inl kInvalidArgument
      else if length ciphertext < sa_tag_size a then Inl kInvalidArgument
      else if out_size < PlaintextSize a (length ciphertext) then Inl kInvalidArgument
      else case EVP_AEAD_CTX_open S (sa_aead a) (sa_key a) iv ciphertext associated_data of
             None \<Rightarrow> Inl kInternal
           | Some out \<Rightarrow> Inr out)"

definition CreateAesGcmOneShotCrypter :: "Ssl \<Rightarrow> bytes \<Rightarrow> SslOneShotAead StatusOr" where
  "CreateAesGcmOneShotCrypter S key =
     (case GetAesGcmAeadForKeySize (length key) of
        Inl e \<Rightarrow> Inl e
      | Inr aead_cipher \<Rightarrow>
          if \<not> EVP_AEAD_CTX_new S aead_cipher key 16 then Inl kInternal
          else Inr \<lparr>sa_aead = aead_cipher, sa_key = key, sa_tag_size = 16\<rparr>)"

definition CreateAesGcmSivOneShotCrypter :: "Ssl \<Rightarrow> bytes \<Rightarrow> SslOneShotAead StatusOr" where
  "CreateAesGcmSivOneShotCrypter S key =
     (case GetAesGcmSivAeadCipherForKeySize (length key) of
        Inl e \<Rightarrow> Inl e
      | Inr aead_cipher \<Rightarrow>
          if \<not> EVP_AEAD_CTX_new S aead_cipher key 16 then Inl kInternal
          else Inr \<lparr>sa_aead = aead_cipher, sa_key = key, sa_tag_size = 16\<rparr>)"

definition CreateXchacha20Poly1305OneShotCrypter :: "Ssl \<Rightarrow> bytes \<Rightarrow> SslOneShotAead StatusOr" where
  "CreateXchacha20Poly1305OneShotCrypter S key =
     (if length key \<noteq> 32 then Inl kInvalidArgument
      else if \<not> EVP_AEAD_CTX_new S EVP_aead_xchacha20_poly1305 key 16 then Inl kInternal
      else Inr \<lparr>sa_aead = EVP_aead_xchacha20_poly1305, sa_key = key, sa_tag_size = 16\<rparr>)"

subsection \<open>AES-GCM\<close>

record ZeroCopyAesGcmBoringSsl =
  zc_aead :: SslOneShotAead
  zc_output_prefix :: bytes

definition ZeroCopyAesGcmBoringSsl_New :: "Ssl \<Rightarrow> bytes \<Rightarrow> ZeroCopyAesGcmBoringSsl StatusOr" where
  "ZeroCopyAesGcmBoringSsl_New S key =
     (case CreateAesGcmOneShotCrypter S key of Inl e \<Rightarrow> Inl e | Inr a \<Rightarrow> Inr \<lparr>zc_aead = a, zc_output_prefix = []\<rparr>)"

text \<open>From an \<^verbatim>\<open>AesGcmKey\<close>: its IV and tag sizes, its bytes and its output prefix.\<close>

definition ZeroCopyAesGcmBoringSsl_New_from_key ::
    "Ssl \<Rightarrow> nat \<Rightarrow> nat \<Rightarrow> bytes \<Rightarrow> bytes \<Rightarrow> ZeroCopyAesGcmBoringSsl StatusOr" where
  "ZeroCopyAesGcmBoringSsl_New_from_key S iv_size tag_size key_bytes output_prefix =
     (if iv_size \<noteq> 12 then Inl kInvalidArgument
      else if tag_size \<noteq> 16 then Inl kInvalidArgument
      else case CreateAesGcmOneShotCrypter S key_bytes of
             Inl e \<Rightarrow> Inl e
           | Inr a \<Rightarrow> Inr \<lparr>zc_aead = a, zc_output_prefix = output_prefix\<rparr>)"

definition MaxEncryptionSize :: "ZeroCopyAesGcmBoringSsl \<Rightarrow> nat \<Rightarrow> nat" where
  "MaxEncryptionSize z plaintext_size = length (zc_output_prefix z) + 12 + CiphertextSize (zc_aead z) plaintext_size"

definition ZeroCopy_Encrypt ::
    "Ssl \<Rightarrow> (nat \<Rightarrow> bytes option) \<Rightarrow> ZeroCopyAesGcmBoringSsl \<Rightarrow> bool \<Rightarrow> bytes \<Rightarrow> bytes \<Rightarrow> nat \<Rightarrow> bytes StatusOr" where
  "ZeroCopy_Encrypt S rand z overlap plaintext associated_data buffer_size =
     (if buffer_size < MaxEncryptionSize z (length plaintext) then Inl kInvalidArgument
      else if overlap then Inl kFailedPrecondition
      else case rand 12 of
             None \<Rightarrow> Inl kInternal
           | Some iv \<Rightarrow>
               (case OneShot_Encrypt S (zc_aead z) False plaintext associated_data iv
                       (buffer_size - length (zc_output_prefix z) - 12) of
                  Inl e \<Rightarrow> Inl e
                | Inr ct \<Rightarrow> Inr (zc_output_prefix z @ iv @ ct)))"

definition MaxDecryptionSize :: "ZeroCopyAesGcmBoringSsl \<Rightarrow> nat \<Rightarrow> nat" where
  "MaxDecryptionSize z ciphertext_size = ciphertext_size - length (zc_output_prefix z) - 12 - 16"

definition ZeroCopy_Decrypt :: "Ssl \<Rightarrow> ZeroCopyAesGcmBoringSsl \<Rightarrow> bool \<Rightarrow> bytes \<Rightarrow> bytes \<Rightarrow> nat \<Rightarrow> bytes StatusOr" where
  "ZeroCopy_Decrypt S z overlap ciphertext associated_data buffer_size =
     (let p = zc_output_prefix z
      in if length ciphertext < length p + 12 + 16 then Inl kInvalidArgument
         else if buffer_size < MaxDecryptionSize z (length ciphertext) then Inl kInvalidArgument
         else if overlap then Inl kFailedPrecondition
         else if p \<noteq> [] \<and> take (length p) ciphertext \<noteq> p then Inl kInvalidArgument
         else let c = drop (length p) ciphertext
              in OneShot_Decrypt S (zc_aead z) False (drop 12 c) associated_data (take 12 c) buffer_size)"

definition AeadFromZeroCopy_Encrypt ::
    "Ssl \<Rightarrow> (nat \<Rightarrow> bytes option) \<Rightarrow> ZeroCopyAesGcmBoringSsl \<Rightarrow> bytes \<Rightarrow> bytes \<Rightarrow> bytes StatusOr" where
  "AeadFromZeroCopy_Encrypt S rand z plaintext associated_data =
     ZeroCopy_Encrypt S rand z False plaintext associated_data (MaxEncryptionSize z (length plaintext))"

definition AeadFromZeroCopy_Decrypt :: "Ssl \<Rightarrow> ZeroCopyAesGcmBoringSsl \<Rightarrow> bytes \<Rightarrow> bytes \<Rightarrow> bytes StatusOr" where
  "AeadFromZeroCopy_Decrypt S z ciphertext associated_data =
     ZeroCopy_Decrypt S z False ciphertext associated_data (MaxDecryptionSize z (length ciphertext))"

definition AesGcmBoringSsl_New :: "Ssl \<Rightarrow> (FipsCompatibility \<Rightarrow> Status) \<Rightarrow> bytes \<Rightarrow> ZeroCopyAesGcmBoringSsl StatusOr" where
  "AesGcmBoringSsl_New S fips key = (case fips kRequiresBoringCrypto of Inl e \<Rightarrow> Inl e | Inr _ \<Rightarrow> ZeroCopyAesGcmBoringSsl_New S key)"

subsection \<open>AES-GCM-SIV and XChaCha20-Poly1305\<close>

definition AesGcmSivBoringSsl_New :: "Ssl \<Rightarrow> (FipsCompatibility \<Rightarrow> Status) \<Rightarrow> bytes \<Rightarrow> SslOneShotAead StatusOr" where
  "AesGcmSivBoringSsl_New S fips key = (case fips kNotFips of Inl e \<Rightarrow> Inl e | Inr _ \<Rightarrow> CreateAesGcmSivOneShotCrypter S key)"

definition AesGcmSiv_Encrypt ::
    "Ssl \<Rightarrow> (nat \<Rightarrow> bytes option) \<Rightarrow> SslOneShotAead \<Rightarrow> bytes \<Rightarrow> bytes \<Rightarrow> bytes StatusOr" where
  "AesGcmSiv_Encrypt S rand a plaintext associated_data =
     (case rand 12 of
        None \<Rightarrow> Inl kInternal
      | Some nonce \<Rightarrow>
          (case OneShot_Encrypt S a False plaintext associated_data nonce (CiphertextSize a (length plaintext)) of
             Inl e \<Rightarrow> Inl e
           | Inr ct \<Rightarrow> Inr (nonce @ ct)))"

definition AesGcmSiv_Decrypt :: "Ssl \<Rightarrow> SslOneShotAead \<Rightarrow> bytes \<Rightarrow> bytes \<Rightarrow> bytes StatusOr" where
  "AesGcmSiv_Decrypt S a ciphertext associated_data =
     (if length ciphertext < 12 + 16 then Inl kInvalidArgument
      else OneShot_Decrypt S a False (drop 12 ciphertext) associated_data (take 12 ciphertext)
             (PlaintextSize a (length ciphertext - 12)))"

definition XChacha20Poly1305BoringSsl_New :: "Ssl \<Rightarrow> (FipsCompatibility \<Rightarrow> Status) \<Rightarrow> bytes \<Rightarrow> SslOneShotAead StatusOr" where
  "XChacha20Poly1305BoringSsl_New S fips key =
     (case fips kNotFips of Inl e \<Rightarrow> Inl e | Inr _ \<Rightarrow> CreateXchacha20Poly1305OneShotCrypter S key)"

definition XChacha20Poly1305_Encrypt ::
    "Ssl \<Rightarrow> (nat \<Rightarrow> bytes option) \<Rightarrow> SslOneShotAead \<Rightarrow> bytes \<Rightarrow> bytes \<Rightarrow> bytes StatusOr" where
  "XChacha20Poly1305_Encrypt S rand a plaintext associated_data =
     (case rand 24 of
        None \<Rightarrow> Inl kInternal
      | Some nonce \<Rightarrow>
          (case OneShot_Encrypt S a False plaintext associated_data nonce (CiphertextSize a (length plaintext)) of
             Inl e \<Rightarrow> Inl e
           | Inr ct \<Rightarrow> Inr (nonce @ ct)))"

definition XChacha20Poly1305_Decrypt :: "Ssl \<Rightarrow> SslOneShotAead \<Rightarrow> bytes \<Rightarrow> bytes \<Rightarrow> bytes StatusOr" where
  "XChacha20Poly1305_Decrypt S a ciphertext associated_data =
     (if length ciphertext < 24 + 16 then Inl kInvalidArgument
      else OneShot_Decrypt S a False (drop 24 ciphertext) associated_data (take 24 ciphertext)
             (PlaintextSize a (length ciphertext - 24)))"

subsection \<open>AES-CTR\<close>

record AesCtrBoringSsl =
  ctr_key :: bytes
  ctr_iv_size :: nat

definition AesCtrBoringSsl_New :: "(FipsCompatibility \<Rightarrow> Status) \<Rightarrow> bytes \<Rightarrow> int \<Rightarrow> AesCtrBoringSsl StatusOr" where
  "AesCtrBoringSsl_New fips key iv_size =
     (case fips kRequiresBoringCrypto of
        Inl e \<Rightarrow> Inl e
      | Inr _ \<Rightarrow>
          (case GetAesCtrCipherForKeySize (length key) of
             Inl e \<Rightarrow> Inl e
           | Inr _ \<Rightarrow>
               if iv_size < 12 \<or> iv_size > 16 then Inl kInvalidArgument
               else Inr \<lparr>ctr_key = key, ctr_iv_size = nat iv_size\<rparr>))"

definition iv_block :: "bytes \<Rightarrow> bytes" where
  "iv_block iv = take 16 iv @ replicate (16 - length iv) 0"

text \<open>\<open>iv\<close> is what \<^verbatim>\<open>Random::GetRandomBytes(iv_size_)\<close> returned.\<close>

definition AesCtr_Encrypt :: "Ssl \<Rightarrow> bytes \<Rightarrow> AesCtrBoringSsl \<Rightarrow> bytes \<Rightarrow> bytes StatusOr" where
  "AesCtr_Encrypt S iv c plaintext =
     (case GetAesCtrCipherForKeySize (length (ctr_key c)) of
        Inl e \<Rightarrow> Inl e
      | Inr _ \<Rightarrow>
          (case ssl_ctr_Encrypt S (ctr_key c) (iv_block iv) plaintext of
             None \<Rightarrow> Inl kInternal
           | Some ct \<Rightarrow> if length ct \<noteq> length plaintext then Inl kInternal else Inr (iv @ ct)))"

definition AesCtr_Decrypt :: "Ssl \<Rightarrow> AesCtrBoringSsl \<Rightarrow> bytes \<Rightarrow> bytes StatusOr" where
  "AesCtr_Decrypt S c ciphertext =
     (if length ciphertext < ctr_iv_size c then Inl kInvalidArgument
      else case GetAesCtrCipherForKeySize (length (ctr_key c)) of
             Inl e \<Rightarrow> Inl e
           | Inr _ \<Rightarrow>
               (case ssl_ctr_Decrypt S (ctr_key c) (iv_block (take (ctr_iv_size c) ciphertext)) (drop (ctr_iv_size c) ciphertext) of
                  None \<Rightarrow> Inl kInternal
                | Some pt \<Rightarrow> if length pt \<noteq> length ciphertext - ctr_iv_size c then Inl kInternal else Inr pt))"

subsection \<open>Encrypt-then-authenticate\<close>

fun long_to_bytes :: "nat \<Rightarrow> u64 \<Rightarrow> bytes \<Rightarrow> bytes" where
  "long_to_bytes 0 value acc = acc"
| "long_to_bytes (Suc i) value acc = long_to_bytes i (drop_bit 8 value) (ucast (value AND 0xff) # acc)"

definition longToBigEndianStr :: "u64 \<Rightarrow> bytes" where
  "longToBigEndianStr value = long_to_bytes 8 value []"

record EncryptThenAuthenticate =
  ea_Encrypt :: "bytes \<Rightarrow> bytes StatusOr"
  ea_Decrypt :: "bytes \<Rightarrow> bytes StatusOr"
  ea_ComputeMac :: "bytes \<Rightarrow> bytes StatusOr"
  ea_VerifyMac :: "bytes \<Rightarrow> bytes \<Rightarrow> Status"
  ea_tag_size :: byte

definition EncryptThenAuthenticate_New ::
    "(bytes \<Rightarrow> bytes StatusOr) \<Rightarrow> (bytes \<Rightarrow> bytes StatusOr) \<Rightarrow> (bytes \<Rightarrow> bytes StatusOr) \<Rightarrow> (bytes \<Rightarrow> bytes \<Rightarrow> Status) \<Rightarrow> byte \<Rightarrow>
     EncryptThenAuthenticate StatusOr" where
  "EncryptThenAuthenticate_New enc dec compute verify tag_size =
     (if unat tag_size < 10 then Inl kInvalidArgument
      else Inr \<lparr>ea_Encrypt = enc, ea_Decrypt = dec, ea_ComputeMac = compute, ea_VerifyMac = verify, ea_tag_size = tag_size\<rparr>)"

text \<open>The sizes are \<^verbatim>\<open>uint64_t\<close>: the product with 8 wraps around, and the test finds out.\<close>

definition ad_size_in_bits :: "bytes \<Rightarrow> u64 StatusOr" where
  "ad_size_in_bits associated_data =
     (let in_bytes = (word_of_nat (length associated_data) :: u64); in_bits = in_bytes * 8
      in if in_bits div 8 \<noteq> in_bytes then Inl kInvalidArgument else Inr in_bits)"

definition EtA_Encrypt :: "EncryptThenAuthenticate \<Rightarrow> bytes \<Rightarrow> bytes \<Rightarrow> bytes StatusOr" where
  "EtA_Encrypt E plaintext associated_data =
     (case ad_size_in_bits associated_data of
        Inl e \<Rightarrow> Inl e
      | Inr in_bits \<Rightarrow>
          (case ea_Encrypt E plaintext of
             Inl e \<Rightarrow> Inl e
           | Inr ciphertext \<Rightarrow>
               (case ea_ComputeMac E (associated_data @ ciphertext @ longToBigEndianStr in_bits) of
                  Inl e \<Rightarrow> Inl e
                | Inr tag \<Rightarrow> if length tag \<noteq> unat (ea_tag_size E) then Inl kInternal else Inr (ciphertext @ tag))))"

definition EtA_Decrypt :: "EncryptThenAuthenticate \<Rightarrow> bytes \<Rightarrow> bytes \<Rightarrow> bytes StatusOr" where
  "EtA_Decrypt E ciphertext associated_data =
     (let t = unat (ea_tag_size E)
      in if length ciphertext < t then Inl kInvalidArgument
         else case ad_size_in_bits associated_data of
                Inl e \<Rightarrow> Inl e
              | Inr in_bits \<Rightarrow>
                  let payload = take (length ciphertext - t) ciphertext; tag = drop (length ciphertext - t) ciphertext
                  in case ea_VerifyMac E tag (associated_data @ payload @ longToBigEndianStr in_bits) of
                       Inl e \<Rightarrow> Inl e
                     | Inr _ \<Rightarrow> ea_Decrypt E payload)"

subsection \<open>Envelope encryption\<close>

definition LoadBigEndian32 :: "bytes \<Rightarrow> u32" where
  "LoadBigEndian32 bs =
     push_bit 24 (ucast (bs ! 0)) OR push_bit 16 (ucast (bs ! 1)) OR push_bit 8 (ucast (bs ! 2)) OR ucast (bs ! 3)"

definition IsSupportedKmsEnvelopeAeadDekKeyType :: "bytes \<Rightarrow> bool" where
  "IsSupportedKmsEnvelopeAeadDekKeyType key_type \<longleftrightarrow>
     key_type \<in> set (map ascii
       [''type.googleapis.com/google.crypto.tink.AesGcmKey'',
        ''type.googleapis.com/google.crypto.tink.XChaCha20Poly1305Key'',
        ''type.googleapis.com/google.crypto.tink.AesCtrHmacAeadKey'',
        ''type.googleapis.com/google.crypto.tink.AesEaxKey'',
        ''type.googleapis.com/google.crypto.tink.AesGcmSivKey''])"

definition GetEnvelopeCiphertext :: "bytes \<Rightarrow> bytes \<Rightarrow> bytes" where
  "GetEnvelopeCiphertext encrypted_dek encrypted_plaintext =
     StoreBigEndian32 (word_of_nat (length encrypted_dek)) @ encrypted_dek @ encrypted_plaintext"

record KmsEnvelopeAead =
  dek_template :: KeyTemplate
  remote_aead :: AeadFns

text \<open>\<open>prim\<close> is the index of \<^verbatim>\<open>Aead\<close> among the primitives of the registry \<open>R\<close>.\<close>

definition KmsEnvelopeAead_New ::
    "(AeadFns, 'f) Registry \<Rightarrow> nat \<Rightarrow> KeyTemplate \<Rightarrow> AeadFns option \<Rightarrow> KmsEnvelopeAead StatusOr" where
  "KmsEnvelopeAead_New R prim tmpl remote =
     (if \<not> IsSupportedKmsEnvelopeAeadDekKeyType (kt_type_url tmpl) then Inl kInvalidArgument
      else case remote of
             None \<Rightarrow> Inl kInvalidArgument
           | Some a \<Rightarrow>
               (case Registry_get_key_manager R prim (kt_type_url tmpl) of
                  Inl e \<Rightarrow> Inl e
                | Inr _ \<Rightarrow> Inr \<lparr>dek_template = tmpl, remote_aead = a\<rparr>))"

text \<open>A primitive that is null would be dereferenced; the result is then \<open>None\<close>.\<close>

definition with_primitive :: "'p option StatusOr \<Rightarrow> ('p \<Rightarrow> 'a StatusOr) \<Rightarrow> 'a StatusOr option" where
  "with_primitive r f = (case r of Inl e \<Rightarrow> Some (Inl e) | Inr None \<Rightarrow> None | Inr (Some p) \<Rightarrow> Some (f p))"

definition KmsEnvelope_Encrypt ::
    "(AeadFns, 'f) Registry \<Rightarrow> nat \<Rightarrow> KmsEnvelopeAead \<Rightarrow> bytes \<Rightarrow> bytes \<Rightarrow> bytes StatusOr option" where
  "KmsEnvelope_Encrypt R prim k plaintext associated_data =
     (case Registry_NewKeyData R (dek_template k) of
        Inl e \<Rightarrow> Some (Inl e)
      | Inr dek \<Rightarrow>
          (case aead_Encrypt (remote_aead k) (key_value dek) [] of
             Inl e \<Rightarrow> Some (Inl e)
           | Inr encrypted_dek \<Rightarrow>
               if length encrypted_dek > 4096 then Some (Inl kInvalidArgument)
               else with_primitive (GetPrimitive R prim dek) (\<lambda>aead.
                      case aead_Encrypt aead plaintext associated_data of
                        Inl e \<Rightarrow> Inl e
                      | Inr c \<Rightarrow> Inr (GetEnvelopeCiphertext encrypted_dek c))))"

definition KmsEnvelope_Decrypt ::
    "(AeadFns, 'f) Registry \<Rightarrow> nat \<Rightarrow> KmsEnvelopeAead \<Rightarrow> bytes \<Rightarrow> bytes \<Rightarrow> bytes StatusOr option" where
  "KmsEnvelope_Decrypt R prim k ciphertext associated_data =
     (if length ciphertext < 4 then Some (Inl kInvalidArgument)
      else
        let n = unat (LoadBigEndian32 ciphertext)
        in if n > 4096 \<or> n > length ciphertext - 4 then Some (Inl kInvalidArgument)
           else case aead_Decrypt (remote_aead k) (take n (drop 4 ciphertext)) [] of
                  Inl _ \<Rightarrow> Some (Inl kInvalidArgument)
                | Inr dek \<Rightarrow>
                    with_primitive
                      (GetPrimitive R prim \<lparr>type_url = kt_type_url (dek_template k), key_value = dek, key_material_type = SYMMETRIC\<rparr>)
                      (\<lambda>aead. aead_Decrypt aead (drop (4 + n) ciphertext) associated_data))"

section \<open>The AEADs decrypt what they encrypted\<close>

text \<open>What is assumed of BoringSSL: opening inverts sealing, and the tag has 16 bytes; AES-CTR keeps the length and is inverted;
  the output of HMAC has the size of the hash.\<close>

definition aead_laws :: "Ssl \<Rightarrow> bool" where
  "aead_laws S \<longleftrightarrow>
     (\<forall>alg key iv pt ad ct. EVP_AEAD_CTX_seal S alg key iv pt ad = Some ct \<longrightarrow>
        length ct = length pt + 16 \<and> EVP_AEAD_CTX_open S alg key iv ct ad = Some pt)"

definition ctr_laws :: "Ssl \<Rightarrow> bool" where
  "ctr_laws S \<longleftrightarrow>
     (\<forall>key iv pt ct. ssl_ctr_Encrypt S key iv pt = Some ct \<longrightarrow> length ct = length pt \<and> ssl_ctr_Decrypt S key iv ct = Some pt)"

definition hmac_laws :: "Ssl \<Rightarrow> bool" where
  "hmac_laws S \<longleftrightarrow> (\<forall>h key msg t. ssl_HMAC S h key msg = Some t \<longrightarrow> length t = EVP_MD_size S h)"

definition rand_laws :: "(nat \<Rightarrow> bytes option) \<Rightarrow> bool" where
  "rand_laws rand \<longleftrightarrow> (\<forall>n r. rand n = Some r \<longrightarrow> length r = n)"

lemma aead_lawsD:
  "\<lbrakk>aead_laws S; EVP_AEAD_CTX_seal S alg key iv pt ad = Some ct\<rbrakk>
   \<Longrightarrow> length ct = length pt + 16 \<and> EVP_AEAD_CTX_open S alg key iv ct ad = Some pt"
  unfolding aead_laws_def by blast

lemma ctr_lawsD:
  "\<lbrakk>ctr_laws S; ssl_ctr_Encrypt S key iv pt = Some ct\<rbrakk> \<Longrightarrow> length ct = length pt \<and> ssl_ctr_Decrypt S key iv ct = Some pt"
  unfolding ctr_laws_def by blast

lemma hmac_lawsD: "\<lbrakk>hmac_laws S; ssl_HMAC S h key msg = Some t\<rbrakk> \<Longrightarrow> length t = EVP_MD_size S h"
  unfolding hmac_laws_def by blast

lemma OneShot_Encrypt_ok:
  assumes S: "aead_laws S" and t: "sa_tag_size a = 16" and e: "OneShot_Encrypt S a b pt ad iv n = Inr ct"
  shows "length ct = length pt + 16 \<and> (\<forall>m \<ge> length pt. OneShot_Decrypt S a False ct ad iv m = Inr pt)"
proof -
  from e have "EVP_AEAD_CTX_seal S (sa_aead a) (sa_key a) iv pt ad = Some ct"
    by (auto simp: OneShot_Encrypt_def split: if_splits option.splits)
  from aead_lawsD [OF S this] t show ?thesis by (simp add: OneShot_Decrypt_def PlaintextSize_def)
qed

lemma Create_tag_size:
  "CreateAesGcmOneShotCrypter S key = Inr a \<Longrightarrow> sa_tag_size a = 16"
  "CreateAesGcmSivOneShotCrypter S key = Inr a \<Longrightarrow> sa_tag_size a = 16"
  "CreateXchacha20Poly1305OneShotCrypter S key = Inr a \<Longrightarrow> sa_tag_size a = 16"
  by (auto simp: CreateAesGcmOneShotCrypter_def CreateAesGcmSivOneShotCrypter_def CreateXchacha20Poly1305OneShotCrypter_def
      split: sum.splits if_splits)

lemma AesGcm_roundtrip:
  assumes S: "aead_laws S" "rand_laws rand" and t: "sa_tag_size (zc_aead z) = 16"
    and e: "AeadFromZeroCopy_Encrypt S rand z pt ad = Inr c"
  shows "AeadFromZeroCopy_Decrypt S z c ad = Inr pt \<and> length c = length (zc_output_prefix z) + 28 + length pt"
proof -
  from e obtain iv ct where iv: "rand 12 = Some iv" and
    ct: "OneShot_Encrypt S (zc_aead z) False pt ad iv (CiphertextSize (zc_aead z) (length pt)) = Inr ct" and
    c: "c = zc_output_prefix z @ iv @ ct"
    by (auto simp: AeadFromZeroCopy_Encrypt_def ZeroCopy_Encrypt_def MaxEncryptionSize_def split: option.splits sum.splits if_splits)
  have "length iv = 12" using S(2) iv by (simp add: rand_laws_def)
  with OneShot_Encrypt_ok [OF S(1) t ct] c show ?thesis
    by (simp add: AeadFromZeroCopy_Decrypt_def ZeroCopy_Decrypt_def MaxDecryptionSize_def Let_def)
qed

lemma AesGcmSiv_roundtrip:
  assumes S: "aead_laws S" "rand_laws rand" and t: "sa_tag_size a = 16" and e: "AesGcmSiv_Encrypt S rand a pt ad = Inr c"
  shows "AesGcmSiv_Decrypt S a c ad = Inr pt \<and> length c = 28 + length pt"
proof -
  from e obtain iv ct where iv: "rand 12 = Some iv" and
    ct: "OneShot_Encrypt S a False pt ad iv (CiphertextSize a (length pt)) = Inr ct" and c: "c = iv @ ct"
    by (auto simp: AesGcmSiv_Encrypt_def split: option.splits sum.splits)
  have "length iv = 12" using S(2) iv by (simp add: rand_laws_def)
  with OneShot_Encrypt_ok [OF S(1) t ct] c t show ?thesis by (simp add: AesGcmSiv_Decrypt_def PlaintextSize_def)
qed

lemma XChacha20Poly1305_roundtrip:
  assumes S: "aead_laws S" "rand_laws rand" and t: "sa_tag_size a = 16"
    and e: "XChacha20Poly1305_Encrypt S rand a pt ad = Inr c"
  shows "XChacha20Poly1305_Decrypt S a c ad = Inr pt \<and> length c = 40 + length pt"
proof -
  from e obtain iv ct where iv: "rand 24 = Some iv" and
    ct: "OneShot_Encrypt S a False pt ad iv (CiphertextSize a (length pt)) = Inr ct" and c: "c = iv @ ct"
    by (auto simp: XChacha20Poly1305_Encrypt_def split: option.splits sum.splits)
  have "length iv = 24" using S(2) iv by (simp add: rand_laws_def)
  with OneShot_Encrypt_ok [OF S(1) t ct] c t show ?thesis by (simp add: XChacha20Poly1305_Decrypt_def PlaintextSize_def)
qed

lemma HMAC_verifies:
  assumes S: "hmac_laws S" and n: "HmacBoringSsl_New S fips h n key = Inr m" and c: "ComputeMac S m msg = Inr t"
  shows "length t = n \<and> VerifyMac S m t msg = OkStatus"
proof -
  from n have m: "m = \<lparr>hm_hash_type = h, hm_tag_size = n, hm_key = key\<rparr>" and h: "EvpHashFromHashType h = Inr h" "n \<le> EVP_MD_size S h"
    by (auto simp: HmacBoringSsl_New_def EvpHashFromHashType_def split: sum.splits if_splits HashType.splits)
  from c m h(1) obtain buf where b: "ssl_HMAC S h key msg = Some buf" "t = take n buf"
    by (auto simp: ComputeMac_def split: option.splits)
  with hmac_lawsD [OF S b(1)] m h show ?thesis by (simp add: VerifyMac_def)
qed

lemma AesCtr_roundtrip:
  assumes S: "ctr_laws S" and iv: "length iv = ctr_iv_size c" and e: "AesCtr_Encrypt S iv c pt = Inr ct"
  shows "AesCtr_Decrypt S c ct = Inr pt \<and> length ct = ctr_iv_size c + length pt"
proof -
  from e obtain x where x: "GetAesCtrCipherForKeySize (length (ctr_key c)) = OkStatus" "ssl_ctr_Encrypt S (ctr_key c) (iv_block iv) pt = Some x"
    "ct = iv @ x" by (auto simp: AesCtr_Encrypt_def split: sum.splits option.splits if_splits)
  from ctr_lawsD [OF S x(2)] x(1,3) iv show ?thesis by (simp add: AesCtr_Decrypt_def)
qed

lemma EtA_roundtrip:
  assumes cipher: "\<And>ct. ea_Encrypt E pt = Inr ct \<Longrightarrow> ea_Decrypt E ct = Inr pt"
    and mac: "\<And>msg t. ea_ComputeMac E msg = Inr t \<Longrightarrow> ea_VerifyMac E t msg = OkStatus"
    and e: "EtA_Encrypt E pt ad = Inr c"
  shows "EtA_Decrypt E c ad = Inr pt"
  using e cipher mac by (auto simp: EtA_Encrypt_def EtA_Decrypt_def Let_def split: sum.splits if_splits)

text \<open>AES-CTR with HMAC, as the key manager for \<^verbatim>\<open>AesCtrHmacAeadKey\<close> puts it together.\<close>

definition AesCtrHmac_New :: "Ssl \<Rightarrow> bytes \<Rightarrow> AesCtrBoringSsl \<Rightarrow> HmacBoringSsl \<Rightarrow> byte \<Rightarrow> EncryptThenAuthenticate StatusOr" where
  "AesCtrHmac_New S iv c m tag_size =
     EncryptThenAuthenticate_New (AesCtr_Encrypt S iv c) (AesCtr_Decrypt S c) (ComputeMac S m) (VerifyMac S m) tag_size"

lemma AesGcmBoringSsl_New_roundtrip:
  assumes S: "aead_laws S" "rand_laws rand" and n: "AesGcmBoringSsl_New S fips key = Inr z"
    and e: "AeadFromZeroCopy_Encrypt S rand z pt ad = Inr c"
  shows "AeadFromZeroCopy_Decrypt S z c ad = Inr pt \<and> length c = 12 + length pt + 16"
proof -
  from n have "sa_tag_size (zc_aead z) = 16" "zc_output_prefix z = []"
    by (auto simp: AesGcmBoringSsl_New_def ZeroCopyAesGcmBoringSsl_New_def dest: Create_tag_size(1) split: sum.splits)
  from AesGcm_roundtrip [OF S this(1) e] this(2) show ?thesis by simp
qed

lemma AesGcm_key_roundtrip:
  assumes S: "aead_laws S" "rand_laws rand" and n: "ZeroCopyAesGcmBoringSsl_New_from_key S k t key p = Inr z"
    and e: "AeadFromZeroCopy_Encrypt S rand z pt ad = Inr c"
  shows "AeadFromZeroCopy_Decrypt S z c ad = Inr pt \<and> length c = length p + 12 + length pt + 16"
proof -
  from n have "sa_tag_size (zc_aead z) = 16" "zc_output_prefix z = p"
    by (auto simp: ZeroCopyAesGcmBoringSsl_New_from_key_def dest: Create_tag_size(1) split: sum.splits if_splits)
  from AesGcm_roundtrip [OF S this(1) e] this(2) show ?thesis by simp
qed

lemma AesCtrHmac_roundtrip:
  assumes S: "ctr_laws S" "hmac_laws S" and c: "AesCtrBoringSsl_New fips key k = Inr c" and m: "HmacBoringSsl_New S fips h n hkey = Inr m"
    and iv: "length iv = nat k" and E: "AesCtrHmac_New S iv c m t = Inr E" and e: "EtA_Encrypt E pt ad = Inr ct"
  shows "EtA_Decrypt E ct ad = Inr pt \<and> length ct = nat k + length pt + n"
proof -
  have k: "length iv = ctr_iv_size c" using c iv by (auto simp: AesCtrBoringSsl_New_def split: sum.splits if_splits)
  have E': "ea_Encrypt E = AesCtr_Encrypt S iv c" "ea_Decrypt E = AesCtr_Decrypt S c" "ea_ComputeMac E = ComputeMac S m"
    "ea_VerifyMac E = VerifyMac S m" using E by (auto simp: AesCtrHmac_New_def EncryptThenAuthenticate_New_def split: if_splits)
  from e obtain x tag msg where x: "AesCtr_Encrypt S iv c pt = Inr x" "ComputeMac S m msg = Inr tag" "ct = x @ tag"
    by (auto simp: EtA_Encrypt_def E' split: sum.splits if_splits)
  have "length ct = nat k + length pt + n"
    using x AesCtr_roundtrip [OF S(1) k x(1)] HMAC_verifies [OF S(2) m x(2)] k iv by simp
  moreover have "EtA_Decrypt E ct ad = Inr pt"
    using EtA_roundtrip [OF _ _ e] AesCtr_roundtrip [OF S(1) k, of pt] HMAC_verifies [OF S(2) m] E' by metis
  ultimately show ?thesis by blast
qed

text \<open>
  (C27) Every AEAD of \<^verbatim>\<open>tink/subtle\<close> over BoringSSL decrypts what it encrypted, under the same associated data:
  AES-GCM with any output prefix, AES-GCM-SIV, XChaCha20-Poly1305 and AES-CTR with HMAC. The ciphertexts are longer
  than the plaintexts by exactly the prefix, the IV and the tag.
\<close>

theorem subtle_aead_roundtrip:
  assumes "aead_laws S" and "ctr_laws S" and "hmac_laws S" and "rand_laws rand"
  shows "(\<forall>fips key z pt ad c. AesGcmBoringSsl_New S fips key = Inr z \<and> AeadFromZeroCopy_Encrypt S rand z pt ad = Inr c
           \<longrightarrow> AeadFromZeroCopy_Decrypt S z c ad = Inr pt \<and> length c = 12 + length pt + 16) \<and>
    (\<forall>n t key p z pt ad c. ZeroCopyAesGcmBoringSsl_New_from_key S n t key p = Inr z \<and> AeadFromZeroCopy_Encrypt S rand z pt ad = Inr c
           \<longrightarrow> AeadFromZeroCopy_Decrypt S z c ad = Inr pt \<and> length c = length p + 12 + length pt + 16) \<and>
    (\<forall>fips key a pt ad c. AesGcmSivBoringSsl_New S fips key = Inr a \<and> AesGcmSiv_Encrypt S rand a pt ad = Inr c
           \<longrightarrow> AesGcmSiv_Decrypt S a c ad = Inr pt \<and> length c = 12 + length pt + 16) \<and>
    (\<forall>fips key a pt ad c. XChacha20Poly1305BoringSsl_New S fips key = Inr a \<and> XChacha20Poly1305_Encrypt S rand a pt ad = Inr c
           \<longrightarrow> XChacha20Poly1305_Decrypt S a c ad = Inr pt \<and> length c = 24 + length pt + 16) \<and>
    (\<forall>fips key k c h n hkey m iv t E pt ad ct. AesCtrBoringSsl_New fips key k = Inr c \<and> HmacBoringSsl_New S fips h n hkey = Inr m \<and>
            length iv = nat k \<and> AesCtrHmac_New S iv c m t = Inr E \<and> EtA_Encrypt E pt ad = Inr ct
           \<longrightarrow> EtA_Decrypt E ct ad = Inr pt \<and> length ct = nat k + length pt + n)"
proof (intro conjI allI impI; (elim conjE)?)
  fix fips key z pt ad c assume "AesGcmBoringSsl_New S fips key = Inr z" "AeadFromZeroCopy_Encrypt S rand z pt ad = Inr c"
  from AesGcmBoringSsl_New_roundtrip [OF assms(1,4) this]
  show "AeadFromZeroCopy_Decrypt S z c ad = Inr pt" "length c = 12 + length pt + 16" by blast+
next
  fix n t key p z pt ad c
  assume "ZeroCopyAesGcmBoringSsl_New_from_key S n t key p = Inr z" "AeadFromZeroCopy_Encrypt S rand z pt ad = Inr c"
  from AesGcm_key_roundtrip [OF assms(1,4) this]
  show "AeadFromZeroCopy_Decrypt S z c ad = Inr pt" "length c = length p + 12 + length pt + 16" by blast+
next
  fix fips key a pt ad c assume n: "AesGcmSivBoringSsl_New S fips key = Inr a" and e: "AesGcmSiv_Encrypt S rand a pt ad = Inr c"
  from n have "sa_tag_size a = 16" by (auto simp: AesGcmSivBoringSsl_New_def dest: Create_tag_size(2) split: sum.splits)
  from AesGcmSiv_roundtrip [OF assms(1,4) this e]
  show "AesGcmSiv_Decrypt S a c ad = Inr pt" "length c = 12 + length pt + 16" by simp_all
next
  fix fips key a pt ad c
  assume n: "XChacha20Poly1305BoringSsl_New S fips key = Inr a" and e: "XChacha20Poly1305_Encrypt S rand a pt ad = Inr c"
  from n have "sa_tag_size a = 16" by (auto simp: XChacha20Poly1305BoringSsl_New_def dest: Create_tag_size(3) split: sum.splits)
  from XChacha20Poly1305_roundtrip [OF assms(1,4) this e]
  show "XChacha20Poly1305_Decrypt S a c ad = Inr pt" "length c = 24 + length pt + 16" by simp_all
qed (use AesCtrHmac_roundtrip [OF assms(2,3)] in blast)+

text \<open>A crypto library that satisfies the hypotheses: the tags are the first bytes of the IV or of the message.\<close>

definition pad_to :: "nat \<Rightarrow> bytes \<Rightarrow> bytes" where
  "pad_to n bs = take n bs @ replicate (n - length bs) 0"

fun sample_md_size :: "HashType \<Rightarrow> nat" where
  "sample_md_size SHA1 = 20"
| "sample_md_size SHA224 = 28"
| "sample_md_size SHA256 = 32"
| "sample_md_size SHA384 = 48"
| "sample_md_size SHA512 = 64"
| "sample_md_size UNKNOWN_HASH = 20"

definition sample_ssl :: Ssl where
  "sample_ssl =
     \<lparr>EVP_AEAD_CTX_new = (\<lambda>alg key n. True),
      EVP_AEAD_CTX_seal = (\<lambda>alg key iv pt ad. Some (pt @ pad_to 16 iv)),
      EVP_AEAD_CTX_open = (\<lambda>alg key iv ct ad.
        if 16 \<le> length ct \<and> drop (length ct - 16) ct = pad_to 16 iv then Some (take (length ct - 16) ct) else None),
      ssl_HKDF = (\<lambda>h ikm salt info n. Some (pad_to n (ikm @ salt @ info))),
      ssl_HMAC = (\<lambda>h key msg. Some (pad_to (sample_md_size h) (rev (take 12 msg)))),
      ssl_ctr_Encrypt = (\<lambda>key iv pt. Some pt), ssl_ctr_Decrypt = (\<lambda>key iv ct. Some ct), EVP_MD_size = sample_md_size\<rparr>"

definition sample_rand :: "nat \<Rightarrow> bytes option" where
  "sample_rand n = Some (replicate n 5)"

lemma length_pad_to [simp]: "length (pad_to n bs) = n"
  by (simp add: pad_to_def)

lemma sample_ssl_laws: "aead_laws sample_ssl" "ctr_laws sample_ssl" "hmac_laws sample_ssl" "rand_laws sample_rand"
  by (simp_all add: aead_laws_def ctr_laws_def hmac_laws_def rand_laws_def sample_ssl_def sample_rand_def)

definition sample_gcm :: ZeroCopyAesGcmBoringSsl where
  "sample_gcm = \<lparr>zc_aead = \<lparr>sa_aead = EVP_aead_aes_128_gcm, sa_key = replicate 16 7, sa_tag_size = 16\<rparr>, zc_output_prefix = []\<rparr>"

theorem subtle_aead_roundtrip_witness:
  "AesGcmBoringSsl_New sample_ssl (\<lambda>_. OkStatus) (replicate 16 7) = Inr sample_gcm \<and>
   (\<exists>c. AeadFromZeroCopy_Encrypt sample_ssl sample_rand sample_gcm [1, 2] [3] = Inr c \<and>
        AeadFromZeroCopy_Decrypt sample_ssl sample_gcm c [3] = Inr [1, 2])"
proof -
  have n: "AesGcmBoringSsl_New sample_ssl (\<lambda>_. OkStatus) (replicate 16 7) = Inr sample_gcm"
    by (simp add: AesGcmBoringSsl_New_def ZeroCopyAesGcmBoringSsl_New_def CreateAesGcmOneShotCrypter_def
        GetAesGcmAeadForKeySize_def sample_gcm_def sample_ssl_def)
  obtain c where c: "AeadFromZeroCopy_Encrypt sample_ssl sample_rand sample_gcm [1, 2] [3] = Inr c"
    by (simp add: AeadFromZeroCopy_Encrypt_def ZeroCopy_Encrypt_def OneShot_Encrypt_def MaxEncryptionSize_def CiphertextSize_def
        sample_rand_def sample_ssl_def sample_gcm_def)
  from subtle_aead_roundtrip [OF sample_ssl_laws, THEN conjunct1, rule_format, OF conjI [OF n c]] n c show ?thesis by blast
qed

section \<open>Encrypt-then-authenticate\<close>

lemma long_to_bytes_append: "long_to_bytes n v acc = long_to_bytes n v [] @ acc"
proof (induction n arbitrary: v acc)
  case (Suc n)
  have "long_to_bytes (Suc n) v acc = long_to_bytes n (drop_bit 8 v) [] @ ucast (v AND 0xff) # acc"
    using Suc [of "drop_bit 8 v" "ucast (v AND 0xff) # acc"] by simp
  also have "\<dots> = long_to_bytes (Suc n) v [] @ acc" using Suc [of "drop_bit 8 v" "[ucast (v AND 0xff)]"] by simp
  finally show ?case .
qed simp

lemma length_long_to_bytes: "length (long_to_bytes n v acc) = n + length acc"
  by (induction n arbitrary: v acc) simp_all

lemma low_byte_bit: "bit (ucast (v AND 0xff) :: byte) k \<longleftrightarrow> k < 8 \<and> bit (v :: u64) k"
proof -
  have m: "(0xff :: u64) = mask 8" by (simp add: mask_eq_exp_minus_1)
  show ?thesis unfolding m by (auto simp: bit_simps)
qed

lemma long_to_bytes_inj:
  assumes "long_to_bytes n v [] = long_to_bytes n w []" and "k < 8 * n"
  shows "bit v k = bit w k"
  using assms
proof (induction n arbitrary: v w k)
  case (Suc n)
  have "long_to_bytes n (drop_bit 8 v) [] @ [ucast (v AND 0xff)] = long_to_bytes n (drop_bit 8 w) [] @ [ucast (w AND 0xff)]"
    using Suc.prems(1) long_to_bytes_append [of n "drop_bit 8 v" "[ucast (v AND 0xff)]"]
      long_to_bytes_append [of n "drop_bit 8 w" "[ucast (w AND 0xff)]"] by simp
  then have e: "long_to_bytes n (drop_bit 8 v) [] = long_to_bytes n (drop_bit 8 w) []"
    "(ucast (v AND 0xff) :: byte) = ucast (w AND 0xff)" by simp_all
  show ?case
  proof (cases "k < 8")
    case True
    with low_byte_bit [of v k] low_byte_bit [of w k] e(2) show ?thesis by simp
  next
    case False
    with Suc.prems(2) have "k - 8 < 8 * n" by simp
    from Suc.IH [OF e(1) this] False show ?thesis by (simp add: bit_drop_bit_eq)
  qed
qed simp

lemma longToBigEndianStr_inj: "longToBigEndianStr v = longToBigEndianStr w \<longleftrightarrow> v = w"
proof
  assume "longToBigEndianStr v = longToBigEndianStr w"
  then have "bit v k = bit w k" if "k < 64" for k
    using long_to_bytes_inj [of 8 v w k] that by (simp add: longToBigEndianStr_def)
  then show "v = w" by (intro bit_word_eqI) simp
qed simp

lemma length_longToBigEndianStr [simp]: "length (longToBigEndianStr v) = 8"
  by (simp add: longToBigEndianStr_def length_long_to_bytes)

text \<open>The overflow test: it passes exactly for associated data shorter than \<open>2 ^ 61\<close> bytes, whose size in bits fits.\<close>

lemma ad_size_in_bits_ok:
  assumes l: "length ad < 2 ^ 64"
  shows "ad_size_in_bits ad = (if length ad < 2 ^ 61 then Inr (word_of_nat (8 * length ad)) else Inl kInvalidArgument)"
proof -
  let ?w = "word_of_nat (length ad) :: u64"
  have u: "unat ?w = length ad" using l by (simp add: unat_of_nat)
  have m: "unat (?w * 8) = 8 * length ad mod 2 ^ 64" by (simp add: unat_word_ariths u mult.commute)
  have d: "?w * 8 div 8 = ?w \<longleftrightarrow> (8 * length ad mod 2 ^ 64) div 8 = length ad"
    by (simp add: word_unat_eq_iff unat_div u m)
  have "(8 * length ad mod 2 ^ 64) div 8 = length ad \<longleftrightarrow> length ad < 2 ^ 61"
  proof
    assume "(8 * length ad mod 2 ^ 64) div 8 = length ad"
    moreover have "(8 * length ad mod 2 ^ 64) div 8 < 2 ^ 61"
      by (rule less_mult_imp_div_less) (simp add: mod_less_divisor)
    ultimately show "length ad < 2 ^ 61" by simp
  next
    assume "length ad < 2 ^ 61"
    then have "8 * length ad < 2 ^ 64" by simp
    then show "(8 * length ad mod 2 ^ 64) div 8 = length ad" by simp
  qed
  with d show ?thesis by (auto simp: ad_size_in_bits_def Let_def mult.commute)
qed

lemma unat_size_in_bits: "length ad < 2 ^ 61 \<Longrightarrow> unat (8 * word_of_nat (length ad) :: u64) = 8 * length ad"
proof -
  assume "length ad < 2 ^ 61"
  then have "unat (word_of_nat (8 * length ad) :: u64) = 8 * length ad" unfolding unat_of_nat by simp
  then show ?thesis by simp
qed

text \<open>
  (C28) The size of the associated data is computed without overflow: \<^verbatim>\<open>Encrypt\<close> and \<^verbatim>\<open>Decrypt\<close> refuse
  associated data of \<open>2 ^ 61\<close> bytes or more, and for all other data the size in bits is exact. So the input of the MAC
  determines both the associated data and the ciphertext: no two pairs are authenticated by the same input.
\<close>

theorem eta_mac_input_unambiguous:
  assumes "length ad < 2 ^ 64" and "length ad' < 2 ^ 64"
  shows "(length ad < 2 ^ 61 \<longrightarrow> (\<exists>n. ad_size_in_bits ad = Inr n \<and> unat n = 8 * length ad)) \<and>
         (2 ^ 61 \<le> length ad \<longrightarrow> (\<forall>E x. isl (EtA_Encrypt E x ad) \<and> isl (EtA_Decrypt E x ad))) \<and>
         (\<forall>n n' c c'. ad_size_in_bits ad = Inr n \<and> ad_size_in_bits ad' = Inr n' \<and>
            ad @ c @ longToBigEndianStr n = ad' @ c' @ longToBigEndianStr n' \<longrightarrow> ad = ad' \<and> c = c')"
proof (intro conjI allI impI)
  assume "length ad < 2 ^ 61"
  with ad_size_in_bits_ok [OF assms(1)] show "\<exists>n. ad_size_in_bits ad = Inr n \<and> unat n = 8 * length ad"
    using unat_size_in_bits [of ad] by simp
next
  fix E x assume "2 ^ 61 \<le> length ad"
  with ad_size_in_bits_ok [OF assms(1)] have "ad_size_in_bits ad = Inl kInvalidArgument" by simp
  then show "isl (EtA_Encrypt E x ad)" "isl (EtA_Decrypt E x ad)" by (simp_all add: EtA_Encrypt_def EtA_Decrypt_def Let_def)
next
  fix n n' c c' assume h: "ad_size_in_bits ad = Inr n \<and> ad_size_in_bits ad' = Inr n' \<and>
    ad @ c @ longToBigEndianStr n = ad' @ c' @ longToBigEndianStr n'"
  then have "(ad @ c) @ longToBigEndianStr n = (ad' @ c') @ longToBigEndianStr n'" by simp
  then have "ad @ c = ad' @ c' \<and> longToBigEndianStr n = longToBigEndianStr n'"
    using append_eq_append_conv [of "ad @ c" "ad' @ c'" "longToBigEndianStr n" "longToBigEndianStr n'"] by force
  then have e: "ad @ c = ad' @ c'" "n = n'" using longToBigEndianStr_inj by blast+
  have "unat n = 8 * length ad" "unat n' = 8 * length ad'"
    using h ad_size_in_bits_ok [OF assms(1)] ad_size_in_bits_ok [OF assms(2)] unat_size_in_bits [of ad] unat_size_in_bits [of ad']
    by (auto split: if_splits)
  with e(2) have "length ad = length ad'" by simp
  with e(1) show "ad = ad'" "c = c'" by (simp_all add: append_eq_append_conv)
qed

theorem eta_mac_input_unambiguous_witness:
  "[1 :: byte] @ [2] @ longToBigEndianStr 8 \<noteq> [] @ [1, 2] @ longToBigEndianStr 0 \<and>
   (\<exists>n. ad_size_in_bits [1] = Inr n \<and> unat n = 8)"
  using eta_mac_input_unambiguous [of "[1]" "[]"] by (auto simp: ad_size_in_bits_ok)

section \<open>Envelope encryption\<close>

lemma LoadBigEndian32_Store: "LoadBigEndian32 (StoreBigEndian32 v @ x) = v"
proof -
  have b: "bit (ucast (ucast (0xff AND drop_bit k v) :: byte) :: u32) n \<longleftrightarrow> n < 8 \<and> bit v (k + n)" for k n
    using prefix_byte_bit [of k v n] by (auto simp: bit_ucast_iff dest: bit_imp_le_length)
  show ?thesis
  proof (rule bit_word_eqI)
    fix n assume n: "n < LENGTH(32)"
    have b0: "bit (ucast (ucast (0xff AND v) :: byte) :: u32) n \<longleftrightarrow> n < 8 \<and> bit v n" for n
      using b [of 0 n] by simp
    consider "n < 8" | "8 \<le> n" "n < 16" | "16 \<le> n" "n < 24" | "24 \<le> n" "n < 32" using n by fastforce
    then show "bit (LoadBigEndian32 (StoreBigEndian32 v @ x)) n = bit v n"
      by cases (auto simp: LoadBigEndian32_def StoreBigEndian32_def bit_or_iff bit_push_bit_iff b b0)
  qed
qed

text \<open>
  (C29) Envelope encryption: what \<^verbatim>\<open>Encrypt\<close> returns is the size of the encrypted key, the encrypted key and the
  encrypted plaintext, and \<^verbatim>\<open>Decrypt\<close> gets the plaintext back. It is assumed that the registry makes keys of the type of the
  template, with symmetric material, that the remote AEAD decrypts the key it encrypted, and that the primitive of the
  key decrypts what it encrypted. The size written is never cut off.
\<close>

theorem kms_envelope_roundtrip:
  assumes keys: "\<And>dek. Registry_NewKeyData R (dek_template k) = Inr dek \<Longrightarrow>
      type_url dek = kt_type_url (dek_template k) \<and> key_material_type dek = SYMMETRIC"
    and remote: "\<And>x y. aead_Encrypt (remote_aead k) x [] = Inr y \<Longrightarrow> aead_Decrypt (remote_aead k) y [] = Inr x"
    and primitive: "\<And>dek a x ad y. \<lbrakk>GetPrimitive R prim dek = Inr (Some a); aead_Encrypt a x ad = Inr y\<rbrakk> \<Longrightarrow> aead_Decrypt a y ad = Inr x"
    and enc: "KmsEnvelope_Encrypt R prim k pt ad = Some (Inr c)"
  shows "KmsEnvelope_Decrypt R prim k c ad = Some (Inr pt) \<and>
    (\<exists>d x. c = StoreBigEndian32 (word_of_nat (length d)) @ d @ x \<and> unat (LoadBigEndian32 c) = length d \<and> length d \<le> 4096)"
proof -
  from enc obtain dek d a x where dek: "Registry_NewKeyData R (dek_template k) = Inr dek" and
    d: "aead_Encrypt (remote_aead k) (key_value dek) [] = Inr d" "length d \<le> 4096" and
    a: "GetPrimitive R prim dek = Inr (Some a)" "aead_Encrypt a pt ad = Inr x" and
    c: "c = StoreBigEndian32 (word_of_nat (length d)) @ d @ x"
    by (auto simp: KmsEnvelope_Encrypt_def with_primitive_def GetEnvelopeCiphertext_def
        split: sum.splits option.splits if_splits)
  have n: "unat (LoadBigEndian32 c) = length d"
    unfolding c LoadBigEndian32_Store using d(2) by (simp add: unat_of_nat)
  have "dek = \<lparr>type_url = kt_type_url (dek_template k), key_value = key_value dek, key_material_type = SYMMETRIC\<rparr>"
    using keys [OF dek] by simp
  then have "GetPrimitive R prim \<lparr>type_url = kt_type_url (dek_template k), key_value = key_value dek, key_material_type = SYMMETRIC\<rparr> =
      Inr (Some a)" using a(1) by simp
  moreover have "take (length d) (drop 4 c) = d" "drop (4 + length d) c = x" "4 + length d \<le> length c" by (simp_all add: c)
  ultimately have "KmsEnvelope_Decrypt R prim k c ad = Some (Inr pt)"
    using remote [OF d(1)] primitive [OF a] d(2) n by (simp add: KmsEnvelope_Decrypt_def with_primitive_def Let_def)
  with c n d(2) show ?thesis by blast
qed

definition sample_aead :: AeadFns where
  "sample_aead =
     \<lparr>aead_Encrypt = (\<lambda>x ad. Inr (x @ [1])), aead_Decrypt = (\<lambda>y ad. if y = [] then Inl kInvalidArgument else Inr (butlast y))\<rparr>"

definition sample_kms :: KmsEnvelopeAead where
  "sample_kms =
     \<lparr>dek_template = \<lparr>kt_type_url = ascii ''type.googleapis.com/google.crypto.tink.AesGcmKey'', kt_value = [], kt_output_prefix_type = RAW\<rparr>,
      remote_aead = sample_aead\<rparr>"

definition sample_dek :: KeyData where
  "sample_dek = \<lparr>type_url = kt_type_url (dek_template sample_kms), key_value = [42], key_material_type = SYMMETRIC\<rparr>"

definition kms_registry :: "(AeadFns, unit) Registry" where
  "kms_registry =
     Registry_empty\<lparr>key_type_info_store :=
       [kt_type_url (dek_template sample_kms) \<mapsto>
         \<lparr>key_manager_type_index = 0, public_key_type_manager_type_index = None, new_key_allowed = True,
          primitive_to_manager = [0 \<mapsto> (\<lambda>kd. Inr (Some sample_aead))], key_factory = (\<lambda>_. Inr sample_dek),
          private_key_factory = None, key_deriver = None\<rparr>]\<rparr>"

theorem kms_envelope_roundtrip_witness:
  "KmsEnvelope_Encrypt kms_registry 0 sample_kms [7] [8] = Some (Inr (StoreBigEndian32 2 @ [42, 1] @ [7, 1])) \<and>
   KmsEnvelope_Decrypt kms_registry 0 sample_kms (StoreBigEndian32 2 @ [42, 1] @ [7, 1]) [8] = Some (Inr [7])"
proof -
  let ?url = "kt_type_url (dek_template sample_kms)"
  have k: "Registry_NewKeyData kms_registry (dek_template sample_kms) = Inr sample_dek"
    by (simp add: Registry_NewKeyData_def get_key_type_info_def store_Get_def kms_registry_def)
  have p: "GetPrimitive kms_registry 0 kd = Inr (Some a) \<Longrightarrow> a = sample_aead" for kd a
    by (auto simp: GetPrimitive_def get_key_type_info_def store_Get_def kms_registry_def Info_GetPrimitive_def
        Info_get_key_manager_def Registry_empty_def split: if_splits)
  have d: "GetPrimitive kms_registry 0 sample_dek = Inr (Some sample_aead)"
    by (simp add: GetPrimitive_def get_key_type_info_def store_Get_def kms_registry_def Info_GetPrimitive_def
        Info_get_key_manager_def sample_dek_def)
  have r: "remote_aead sample_kms = sample_aead" by (simp add: sample_kms_def)
  have e: "KmsEnvelope_Encrypt kms_registry 0 sample_kms [7] [8] = Some (Inr (StoreBigEndian32 2 @ [42, 1] @ [7, 1]))"
    using k d r by (simp add: KmsEnvelope_Encrypt_def with_primitive_def GetEnvelopeCiphertext_def sample_aead_def)
      (simp add: sample_dek_def)
  have "KmsEnvelope_Decrypt kms_registry 0 sample_kms (StoreBigEndian32 2 @ [42, 1] @ [7, 1]) [8] = Some (Inr [7])"
    by (rule kms_envelope_roundtrip [THEN conjunct1, OF _ _ _ e])
      (use k r in \<open>auto simp: sample_aead_def dest!: p\<close>, simp_all add: sample_dek_def)
  with e show ?thesis by blast
qed

end
