(* ===== verification/Streaming_Segments.thy ===== *)
theory Streaming_Segments
  imports Streaming_Aead Subtle_Aead
begin

text \<open>
  The two segment encrypters: AES-GCM with HKDF (\<^verbatim>\<open>tink/subtle/aes_gcm_hkdf_streaming.cc\<close>,
  \<^verbatim>\<open>aes_gcm_hkdf_stream_segment_encrypter.cc\<close>, \<^verbatim>\<open>aes_gcm_hkdf_stream_segment_decrypter.cc\<close>) and
  AES-CTR with HMAC (\<^verbatim>\<open>tink/subtle/aes_ctr_hmac_streaming.cc\<close>), and
  \<^verbatim>\<open>NonceBasedStreamingAead\<close>, which puts the streams on top of them. Both are shown to satisfy the contracts of
  \<open>Streaming_Aead\<close>; over the adapters of \<open>Streams\<close> this gives the round trip of a whole stream.

  The sizes in the parameters are \<^verbatim>\<open>int\<close>s, here unbounded; segment numbers are \<^verbatim>\<open>int64_t\<close>, here natural
  numbers: they start at 0 and are checked against \<^verbatim>\<open>uint32_t\<close> before every use. Random salts and nonce prefixes are
  arguments.
\<close>

section \<open>Definitions\<close>

subsection \<open>AES-GCM-HKDF\<close>

record GcmEncParams =
  gp_key :: bytes
  gp_salt :: bytes
  gp_ciphertext_offset :: int
  gp_ciphertext_segment_size :: int

definition GcmEnc_Validate :: "GcmEncParams \<Rightarrow> Status" where
  "GcmEnc_Validate params =
     (if length (gp_key params) \<noteq> 16 \<and> length (gp_key params) \<noteq> 32 then Inl kInvalidArgument
      else if length (gp_key params) \<noteq> length (gp_salt params) then Inl kInvalidArgument
      else if gp_ciphertext_offset params < 0 then Inl kInvalidArgument
      else
        let header_size = 1 + int (length (gp_salt params)) + 7
        in if gp_ciphertext_segment_size params \<le> gp_ciphertext_offset params + header_size + 16 then Inl kInvalidArgument
           else OkStatus)"

definition CreateHeader :: "bytes \<Rightarrow> bytes \<Rightarrow> bytes" where
  "CreateHeader salt nonce_prefix = word_of_nat (1 + length salt + 7) # salt @ nonce_prefix"

definition ConstructNonce :: "bytes \<Rightarrow> u32 \<Rightarrow> bool \<Rightarrow> bytes" where
  "ConstructNonce nonce_prefix segment_number is_last_segment =
     nonce_prefix @ StoreBigEndian32 segment_number @ [if is_last_segment then 1 else 0]"

record GcmEncrypter =
  ge_aead :: SslOneShotAead
  ge_nonce_prefix :: bytes
  ge_header :: bytes
  ge_ciphertext_segment_size :: int
  ge_ciphertext_offset :: int
  ge_segment_number :: nat

definition ge_get_plaintext_segment_size :: "GcmEncrypter \<Rightarrow> int" where
  "ge_get_plaintext_segment_size e = ge_ciphertext_segment_size e - 16"

definition GcmEnc_New :: "Ssl \<Rightarrow> bytes \<Rightarrow> GcmEncParams \<Rightarrow> GcmEncrypter StatusOr" where
  "GcmEnc_New S nonce_prefix params =
     (case GcmEnc_Validate params of
        Inl e \<Rightarrow> Inl e
      | Inr _ \<Rightarrow>
          (case CreateAesGcmOneShotCrypter S (gp_key params) of
             Inl e \<Rightarrow> Inl e
           | Inr aead \<Rightarrow>
               Inr \<lparr>ge_aead = aead, ge_nonce_prefix = nonce_prefix, ge_header = CreateHeader (gp_salt params) nonce_prefix,
                    ge_ciphertext_segment_size = gp_ciphertext_segment_size params,
                    ge_ciphertext_offset = gp_ciphertext_offset params, ge_segment_number = 0\<rparr>))"

text \<open>Both encrypters and both decrypters refuse a segment number that does not leave room for the last segment.\<close>

definition too_many_segments :: "nat \<Rightarrow> bool \<Rightarrow> bool" where
  "too_many_segments segment_number is_last_segment \<longleftrightarrow>
     segment_number > 2 ^ 32 - 1 \<or> (segment_number = 2 ^ 32 - 1 \<and> \<not> is_last_segment)"

definition GcmEnc_EncryptSegment :: "Ssl \<Rightarrow> bytes \<Rightarrow> bool \<Rightarrow> GcmEncrypter \<Rightarrow> bytes StatusOr \<times> GcmEncrypter" where
  "GcmEnc_EncryptSegment S plaintext is_last_segment e =
     (if int (length plaintext) > ge_get_plaintext_segment_size e then (Inl kInvalidArgument, e)
      else if too_many_segments (ge_segment_number e) is_last_segment then (Inl kInvalidArgument, e)
      else
        case OneShot_Encrypt S (ge_aead e) False plaintext []
               (ConstructNonce (ge_nonce_prefix e) (word_of_nat (ge_segment_number e)) is_last_segment) (length plaintext + 16) of
          Inl err \<Rightarrow> (Inl err, e)
        | Inr ct \<Rightarrow> (Inr ct, e\<lparr>ge_segment_number := Suc (ge_segment_number e)\<rparr>))"

definition GcmEnc_ops :: "Ssl \<Rightarrow> GcmEncrypter SegmentEncrypter" where
  "GcmEnc_ops S =
     \<lparr>se_EncryptSegment = GcmEnc_EncryptSegment S, se_get_header = ge_header,
      se_get_plaintext_segment_size = ge_get_plaintext_segment_size, se_get_ciphertext_offset = ge_ciphertext_offset\<rparr>"

record GcmDecParams =
  gd_ikm :: bytes
  gd_hkdf_hash :: HashType
  gd_derived_key_size :: int
  gd_ciphertext_offset :: int
  gd_ciphertext_segment_size :: int
  gd_associated_data :: bytes

definition GcmDec_Validate :: "GcmDecParams \<Rightarrow> Status" where
  "GcmDec_Validate params =
     (if gd_hkdf_hash params \<notin> {SHA1, SHA256, SHA512} then Inl kInvalidArgument
      else if gd_derived_key_size params \<noteq> 16 \<and> gd_derived_key_size params \<noteq> 32 then Inl kInvalidArgument
      else if length (gd_ikm params) < 16 \<or> length (gd_ikm params) < nat (gd_derived_key_size params) then Inl kInvalidArgument
      else if gd_ciphertext_offset params < 0 then Inl kInvalidArgument
      else
        let header_size = 1 + gd_derived_key_size params + 7
        in if gd_ciphertext_segment_size params \<le> gd_ciphertext_offset params + header_size + 16 then Inl kInvalidArgument
           else OkStatus)"

text \<open>\<open>gc_state\<close>: after \<^verbatim>\<open>Init\<close>, the nonce prefix and the AEAD for the derived key.\<close>

record GcmDecrypter =
  gc_params :: GcmDecParams
  gc_state :: "(bytes \<times> SslOneShotAead) option"

definition gc_get_header_size :: "GcmDecrypter \<Rightarrow> int" where
  "gc_get_header_size d = 1 + gd_derived_key_size (gc_params d) + 7"

definition GcmDec_New :: "GcmDecParams \<Rightarrow> GcmDecrypter StatusOr" where
  "GcmDec_New params =
     (case GcmDec_Validate params of Inl e \<Rightarrow> Inl e | Inr _ \<Rightarrow> Inr \<lparr>gc_params = params, gc_state = None\<rparr>)"

definition GcmDec_Init :: "Ssl \<Rightarrow> bytes \<Rightarrow> GcmDecrypter \<Rightarrow> Status \<times> GcmDecrypter" where
  "GcmDec_Init S header d =
     (let P = gc_params d; n = nat (gd_derived_key_size P)
      in if gc_state d \<noteq> None then (Inl kFailedPrecondition, d)
         else if length header \<noteq> nat (gc_get_header_size d) then (Inl kInvalidArgument, d)
         else if int (unat (header ! 0)) \<noteq> gc_get_header_size d then (Inl kInvalidArgument, d)
         else
           let salt = take n (drop 1 header); nonce_prefix = take 7 (drop (1 + n) header)
           in case ComputeHkdf S (gd_hkdf_hash P) (gd_ikm P) salt (gd_associated_data P) n of
                Inl e \<Rightarrow> (Inl e, d)
              | Inr key \<Rightarrow>
                  (case CreateAesGcmOneShotCrypter S key of
                     Inl e \<Rightarrow> (Inl e, d)
                   | Inr aead \<Rightarrow> (OkStatus, d\<lparr>gc_state := Some (nonce_prefix, aead)\<rparr>)))"

definition gc_get_plaintext_segment_size :: "GcmDecrypter \<Rightarrow> int" where
  "gc_get_plaintext_segment_size d = gd_ciphertext_segment_size (gc_params d) - 16"

definition GcmDec_DecryptSegment :: "Ssl \<Rightarrow> bytes \<Rightarrow> nat \<Rightarrow> bool \<Rightarrow> GcmDecrypter \<Rightarrow> bytes StatusOr" where
  "GcmDec_DecryptSegment S ciphertext segment_number is_last_segment d =
     (case gc_state d of
        None \<Rightarrow> Inl kFailedPrecondition
      | Some (nonce_prefix, aead) \<Rightarrow>
          if int (length ciphertext) > gd_ciphertext_segment_size (gc_params d) then Inl kInvalidArgument
          else if length ciphertext < 16 then Inl kInvalidArgument
          else if too_many_segments segment_number is_last_segment then Inl kInvalidArgument
          else OneShot_Decrypt S aead False ciphertext []
                 (nonce_prefix @ StoreBigEndian32 (word_of_nat segment_number) @ [if is_last_segment then 1 else 0])
                 (length ciphertext - 16))"

definition GcmDec_ops :: "Ssl \<Rightarrow> GcmDecrypter SegmentDecrypter" where
  "GcmDec_ops S =
     \<lparr>sd_DecryptSegment = GcmDec_DecryptSegment S, sd_Init = GcmDec_Init S, sd_get_header_size = gc_get_header_size,
      sd_get_plaintext_segment_size = gc_get_plaintext_segment_size,
      sd_get_ciphertext_segment_size = (\<lambda>d. gd_ciphertext_segment_size (gc_params d)),
      sd_get_ciphertext_offset = (\<lambda>d. gd_ciphertext_offset (gc_params d))\<rparr>"

record AesGcmHkdfStreaming =
  gs_ikm :: bytes
  gs_hkdf_hash :: HashType
  gs_derived_key_size :: int
  gs_ciphertext_segment_size :: int
  gs_ciphertext_offset :: int

definition AesGcmHkdfStreaming_Validate :: "AesGcmHkdfStreaming \<Rightarrow> Status" where
  "AesGcmHkdfStreaming_Validate params =
     (if gs_hkdf_hash params \<notin> {SHA1, SHA256, SHA512} then Inl kInvalidArgument
      else if gs_derived_key_size params \<noteq> 16 \<and> gs_derived_key_size params \<noteq> 32 then Inl kInvalidArgument
      else if length (gs_ikm params) < 16 \<or> length (gs_ikm params) < nat (gs_derived_key_size params) then Inl kInvalidArgument
      else if gs_ciphertext_offset params < 0 then Inl kInvalidArgument
      else if gs_ciphertext_segment_size params \<le> gs_ciphertext_offset params + gs_derived_key_size params + 16
      then Inl kInvalidArgument
      else OkStatus)"

definition AesGcmHkdfStreaming_New :: "(FipsCompatibility \<Rightarrow> Status) \<Rightarrow> AesGcmHkdfStreaming \<Rightarrow> AesGcmHkdfStreaming StatusOr" where
  "AesGcmHkdfStreaming_New fips params =
     (case fips kNotFips of
        Inl e \<Rightarrow> Inl e
      | Inr _ \<Rightarrow> (case AesGcmHkdfStreaming_Validate params of Inl e \<Rightarrow> Inl e | Inr _ \<Rightarrow> Inr params))"

definition Gcm_NewSegmentEncrypter :: "Ssl \<Rightarrow> bytes \<Rightarrow> bytes \<Rightarrow> AesGcmHkdfStreaming \<Rightarrow> bytes \<Rightarrow> GcmEncrypter StatusOr" where
  "Gcm_NewSegmentEncrypter S salt nonce_prefix G associated_data =
     (case ComputeHkdf S (gs_hkdf_hash G) (gs_ikm G) salt associated_data (nat (gs_derived_key_size G)) of
        Inl e \<Rightarrow> Inl e
      | Inr key \<Rightarrow>
          GcmEnc_New S nonce_prefix
            \<lparr>gp_key = key, gp_salt = salt, gp_ciphertext_offset = gs_ciphertext_offset G,
             gp_ciphertext_segment_size = gs_ciphertext_segment_size G\<rparr>)"

definition Gcm_NewSegmentDecrypter :: "AesGcmHkdfStreaming \<Rightarrow> bytes \<Rightarrow> GcmDecrypter StatusOr" where
  "Gcm_NewSegmentDecrypter G associated_data =
     GcmDec_New
       \<lparr>gd_ikm = gs_ikm G, gd_hkdf_hash = gs_hkdf_hash G, gd_derived_key_size = gs_derived_key_size G,
        gd_ciphertext_offset = gs_ciphertext_offset G, gd_ciphertext_segment_size = gs_ciphertext_segment_size G,
        gd_associated_data = associated_data\<rparr>"

subsection \<open>AES-CTR-HMAC\<close>

definition NonceForSegment :: "bytes \<Rightarrow> nat \<Rightarrow> bool \<Rightarrow> bytes" where
  "NonceForSegment nonce_prefix segment_number is_last_segment =
     nonce_prefix @ StoreBigEndian32 (word_of_nat segment_number) @ [if is_last_segment then 1 else 0] @ replicate 4 0"

record AesCtrHmacStreaming =
  cs_ikm :: bytes
  cs_hkdf_algo :: HashType
  cs_key_size :: int
  cs_ciphertext_segment_size :: int
  cs_ciphertext_offset :: int
  cs_tag_algo :: HashType
  cs_tag_size :: int

definition DeriveKeys :: "Ssl \<Rightarrow> AesCtrHmacStreaming \<Rightarrow> bytes \<Rightarrow> bytes \<Rightarrow> (bytes \<times> bytes) StatusOr" where
  "DeriveKeys S P salt associated_data =
     (case ComputeHkdf S (cs_hkdf_algo P) (cs_ikm P) salt associated_data (nat (cs_key_size P) + 32) of
        Inl e \<Rightarrow> Inl e
      | Inr key_material \<Rightarrow> Inr (take (nat (cs_key_size P)) key_material, drop (nat (cs_key_size P)) key_material))"

definition CtrHmac_Validate :: "AesCtrHmacStreaming \<Rightarrow> Status" where
  "CtrHmac_Validate params =
     (if cs_key_size params \<noteq> 16 \<and> cs_key_size params \<noteq> 32 then Inl kInvalidArgument
      else if length (cs_ikm params) < nat (cs_key_size params) then Inl kInvalidArgument
      else if cs_hkdf_algo params \<notin> {SHA1, SHA256, SHA512} then Inl kInvalidArgument
      else
        let header_size = 1 + cs_key_size params + 7
        in if cs_ciphertext_segment_size params \<le> cs_ciphertext_offset params + header_size + cs_tag_size params
           then Inl kInvalidArgument
           else if cs_ciphertext_offset params < 0 then Inl kInvalidArgument
           else if cs_tag_size params < 10 then Inl kInvalidArgument
           else if cs_tag_algo params \<notin> {SHA1, SHA256, SHA512} then Inl kInvalidArgument
           else if cs_tag_algo params = SHA1 \<and> cs_tag_size params > 20 \<or> cs_tag_algo params = SHA256 \<and> cs_tag_size params > 32 \<or>
                   cs_tag_algo params = SHA512 \<and> cs_tag_size params > 64
           then Inl kInvalidArgument
           else OkStatus)"

definition AesCtrHmacStreaming_New :: "(FipsCompatibility \<Rightarrow> Status) \<Rightarrow> AesCtrHmacStreaming \<Rightarrow> AesCtrHmacStreaming StatusOr" where
  "AesCtrHmacStreaming_New fips params =
     (case fips kNotFips of
        Inl e \<Rightarrow> Inl e
      | Inr _ \<Rightarrow> (case CtrHmac_Validate params of Inl e \<Rightarrow> Inl e | Inr _ \<Rightarrow> Inr params))"

definition MakeHeader :: "bytes \<Rightarrow> bytes \<Rightarrow> bytes" where
  "MakeHeader salt nonce_prefix = [word_of_nat (1 + length salt + length nonce_prefix)] @ salt @ nonce_prefix"

record CtrHmacEncrypter =
  ce_key_value :: bytes
  ce_header :: bytes
  ce_nonce_prefix :: bytes
  ce_ciphertext_segment_size :: int
  ce_ciphertext_offset :: int
  ce_tag_size :: int
  ce_mac :: HmacBoringSsl
  ce_segment_number :: nat

definition CtrHmac_NewSegmentEncrypter ::
    "Ssl \<Rightarrow> (FipsCompatibility \<Rightarrow> Status) \<Rightarrow> bytes \<Rightarrow> bytes \<Rightarrow> AesCtrHmacStreaming \<Rightarrow> bytes \<Rightarrow> CtrHmacEncrypter StatusOr" where
  "CtrHmac_NewSegmentEncrypter S fips salt nonce_prefix params associated_data =
     (case CtrHmac_Validate params of
        Inl e \<Rightarrow> Inl e
      | Inr _ \<Rightarrow>
          (case DeriveKeys S params salt associated_data of
             Inl e \<Rightarrow> Inl e
           | Inr (key, hmac_key) \<Rightarrow>
               (case HmacBoringSsl_New S fips (cs_tag_algo params) (nat (cs_tag_size params)) hmac_key of
                  Inl e \<Rightarrow> Inl e
                | Inr mac \<Rightarrow>
                    Inr \<lparr>ce_key_value = key, ce_header = MakeHeader salt nonce_prefix, ce_nonce_prefix = nonce_prefix,
                         ce_ciphertext_segment_size = cs_ciphertext_segment_size params,
                         ce_ciphertext_offset = cs_ciphertext_offset params, ce_tag_size = cs_tag_size params, ce_mac = mac,
                         ce_segment_number = 0\<rparr>)))"

text \<open>
  \<^verbatim>\<open>EncryptSensitive\<close> and \<^verbatim>\<open>DecryptSensitive\<close>: one call of the cipher, with the key size checked before and the
  output size after.
\<close>

definition ctr_crypt :: "(bytes \<Rightarrow> bytes \<Rightarrow> bytes \<Rightarrow> bytes option) \<Rightarrow> bytes \<Rightarrow> bytes \<Rightarrow> bytes \<Rightarrow> bytes StatusOr" where
  "ctr_crypt cipher key nonce input =
     (case GetAesCtrCipherForKeySize (length key) of
        Inl e \<Rightarrow> Inl e
      | Inr _ \<Rightarrow>
          (case cipher key nonce input of
             None \<Rightarrow> Inl kInternal
           | Some out \<Rightarrow> if length out \<noteq> length input then Inl kInternal else Inr out))"

definition CtrHmac_EncryptSegment :: "Ssl \<Rightarrow> bytes \<Rightarrow> bool \<Rightarrow> CtrHmacEncrypter \<Rightarrow> bytes StatusOr \<times> CtrHmacEncrypter" where
  "CtrHmac_EncryptSegment S plaintext is_last_segment e =
     (if int (length plaintext) > ce_ciphertext_segment_size e - ce_tag_size e then (Inl kInvalidArgument, e)
      else if too_many_segments (ce_segment_number e) is_last_segment then (Inl kInvalidArgument, e)
      else
        let nonce = NonceForSegment (ce_nonce_prefix e) (ce_segment_number e) is_last_segment
        in case ctr_crypt (ssl_ctr_Encrypt S) (ce_key_value e) nonce plaintext of
             Inl err \<Rightarrow> (Inl err, e)
           | Inr ct \<Rightarrow>
               (case ComputeMac S (ce_mac e) (nonce @ ct) of
                  Inl err \<Rightarrow> (Inl err, e)
                | Inr tag \<Rightarrow> (Inr (ct @ take (nat (ce_tag_size e)) tag), e\<lparr>ce_segment_number := Suc (ce_segment_number e)\<rparr>)))"

definition CtrHmacEnc_ops :: "Ssl \<Rightarrow> CtrHmacEncrypter SegmentEncrypter" where
  "CtrHmacEnc_ops S =
     \<lparr>se_EncryptSegment = CtrHmac_EncryptSegment S, se_get_header = ce_header,
      se_get_plaintext_segment_size = (\<lambda>e. ce_ciphertext_segment_size e - ce_tag_size e),
      se_get_ciphertext_offset = ce_ciphertext_offset\<rparr>"

record CtrHmacDecrypter =
  cd_params :: AesCtrHmacStreaming
  cd_associated_data :: bytes
  cd_state :: "(bytes \<times> bytes \<times> HmacBoringSsl) option"

definition CtrHmac_NewSegmentDecrypter :: "AesCtrHmacStreaming \<Rightarrow> bytes \<Rightarrow> CtrHmacDecrypter StatusOr" where
  "CtrHmac_NewSegmentDecrypter params associated_data =
     (case CtrHmac_Validate params of
        Inl e \<Rightarrow> Inl e
      | Inr _ \<Rightarrow> Inr \<lparr>cd_params = params, cd_associated_data = associated_data, cd_state = None\<rparr>)"

definition cd_get_header_size :: "CtrHmacDecrypter \<Rightarrow> int" where
  "cd_get_header_size d = 1 + cs_key_size (cd_params d) + 7"

definition CtrHmacDec_Init :: "Ssl \<Rightarrow> (FipsCompatibility \<Rightarrow> Status) \<Rightarrow> bytes \<Rightarrow> CtrHmacDecrypter \<Rightarrow> Status \<times> CtrHmacDecrypter" where
  "CtrHmacDec_Init S fips header d =
     (let P = cd_params d; n = nat (cs_key_size P)
      in if cd_state d \<noteq> None then (Inl kFailedPrecondition, d)
         else if length header \<noteq> nat (cd_get_header_size d) then (Inl kInvalidArgument, d)
         else if unat (header ! 0) \<noteq> length header then (Inl kInvalidArgument, d)
         else
           let salt = take n (drop 1 header); nonce_prefix = take 7 (drop (1 + n) header)
           in case DeriveKeys S P salt (cd_associated_data d) of
                Inl e \<Rightarrow> (Inl e, d)
              | Inr (key, hmac_key) \<Rightarrow>
                  (case HmacBoringSsl_New S fips (cs_tag_algo P) (nat (cs_tag_size P)) hmac_key of
                     Inl e \<Rightarrow> (Inl e, d)
                   | Inr mac \<Rightarrow> (OkStatus, d\<lparr>cd_state := Some (nonce_prefix, key, mac)\<rparr>)))"

definition CtrHmac_DecryptSegment :: "Ssl \<Rightarrow> bytes \<Rightarrow> nat \<Rightarrow> bool \<Rightarrow> CtrHmacDecrypter \<Rightarrow> bytes StatusOr" where
  "CtrHmac_DecryptSegment S ciphertext segment_number is_last_segment d =
     (case cd_state d of
        None \<Rightarrow> Inl kFailedPrecondition
      | Some (nonce_prefix, key, mac) \<Rightarrow>
          let t = nat (cs_tag_size (cd_params d))
          in if int (length ciphertext) > cs_ciphertext_segment_size (cd_params d) then Inl kInvalidArgument
             else if length ciphertext < t then Inl kInvalidArgument
             else if too_many_segments segment_number is_last_segment then Inl kInvalidArgument
             else
               let pt_size = length ciphertext - t; nonce = NonceForSegment nonce_prefix segment_number is_last_segment
               in case VerifyMac S mac (drop pt_size ciphertext) (nonce @ take pt_size ciphertext) of
                    Inl e \<Rightarrow> Inl e
                  | Inr _ \<Rightarrow> ctr_crypt (ssl_ctr_Decrypt S) key nonce (take pt_size ciphertext))"

definition CtrHmacDec_ops :: "Ssl \<Rightarrow> (FipsCompatibility \<Rightarrow> Status) \<Rightarrow> CtrHmacDecrypter SegmentDecrypter" where
  "CtrHmacDec_ops S fips =
     \<lparr>sd_DecryptSegment = CtrHmac_DecryptSegment S, sd_Init = CtrHmacDec_Init S fips, sd_get_header_size = cd_get_header_size,
      sd_get_plaintext_segment_size = (\<lambda>d. cs_ciphertext_segment_size (cd_params d) - cs_tag_size (cd_params d)),
      sd_get_ciphertext_segment_size = (\<lambda>d. cs_ciphertext_segment_size (cd_params d)),
      sd_get_ciphertext_offset = (\<lambda>d. cs_ciphertext_offset (cd_params d))\<rparr>"

subsection \<open>Nonce-based streaming AEAD\<close>

definition NewEncryptingStream :: "'e SegmentEncrypter \<Rightarrow> 'e StatusOr \<Rightarrow> 'd option \<Rightarrow> ('e, 'd) EncStream StatusOr" where
  "NewEncryptingStream sops segment_encrypter_result ciphertext_destination =
     (case segment_encrypter_result of
        Inl e \<Rightarrow> Inl e
      | Inr enc \<Rightarrow> Enc_New sops (Some enc) ciphertext_destination)"

definition NewDecryptingStream :: "'e SegmentDecrypter \<Rightarrow> 'e StatusOr \<Rightarrow> 's option \<Rightarrow> ('e, 's) DecStream StatusOr" where
  "NewDecryptingStream sops segment_decrypter_result ciphertext_source =
     (case segment_decrypter_result of
        Inl e \<Rightarrow> Inl e
      | Inr dec \<Rightarrow> Dec_New sops (Some dec) ciphertext_source)"

text \<open>A client that writes its data piece by piece, and closes the stream.\<close>

fun write_all :: "'s OutputStream \<Rightarrow> bytes list \<Rightarrow> 's \<Rightarrow> (Status \<times> 's) option" where
  "write_all ops [] s = os_Close ops s"
| "write_all ops (x # xs) s =
     do {
       (st, s') \<leftarrow> WriteToStream ops x s;
       (case st of Inl e \<Rightarrow> Some (Inl e, s') | Inr _ \<Rightarrow> write_all ops xs s')
     }"

section \<open>The segment encrypters satisfy the contracts\<close>

definition gcm_E :: "Ssl \<Rightarrow> SslOneShotAead \<Rightarrow> bytes \<Rightarrow> nat \<Rightarrow> nat \<Rightarrow> bool \<Rightarrow> bytes \<Rightarrow> bytes option" where
  "gcm_E S a np p n lst pt =
     (if p < length pt \<or> too_many_segments n lst then None
      else case OneShot_Encrypt S a False pt [] (ConstructNonce np (word_of_nat n) lst) (length pt + 16) of
             Inl _ \<Rightarrow> None
           | Inr ct \<Rightarrow> Some ct)"

definition gcm_enc_rep :: "SslOneShotAead \<Rightarrow> bytes \<Rightarrow> bytes \<Rightarrow> nat \<Rightarrow> nat \<Rightarrow> GcmEncrypter \<Rightarrow> nat \<Rightarrow> bool" where
  "gcm_enc_rep a np h f p e n \<longleftrightarrow>
     ge_aead e = a \<and> ge_nonce_prefix e = np \<and> ge_header e = h \<and> ge_segment_number e = n \<and>
     ge_ciphertext_segment_size e = int p + 16 \<and> int p - ge_ciphertext_offset e - int (length h) = int f \<and> 0 < f \<and> 0 < p"

interpretation gcm_enc: segment_encrypter "GcmEnc_ops S" "gcm_enc_rep a np h f p" "gcm_E S a np p" h f p for S a np h f p
  by unfold_locales
    (auto simp: GcmEnc_ops_def GcmEnc_EncryptSegment_def gcm_enc_rep_def gcm_E_def ge_get_plaintext_segment_size_def
      split: if_splits sum.splits)

definition ctr_E :: "Ssl \<Rightarrow> bytes \<Rightarrow> HmacBoringSsl \<Rightarrow> bytes \<Rightarrow> nat \<Rightarrow> nat \<Rightarrow> nat \<Rightarrow> bool \<Rightarrow> bytes \<Rightarrow> bytes option" where
  "ctr_E S key mac np t p n lst pt =
     (if p < length pt \<or> too_many_segments n lst then None
      else case ctr_crypt (ssl_ctr_Encrypt S) key (NonceForSegment np n lst) pt of
             Inl _ \<Rightarrow> None
           | Inr ct \<Rightarrow>
               (case ComputeMac S mac (NonceForSegment np n lst @ ct) of
                  Inl _ \<Rightarrow> None
                | Inr tag \<Rightarrow> Some (ct @ take t tag)))"

definition ctr_enc_rep ::
    "bytes \<Rightarrow> HmacBoringSsl \<Rightarrow> bytes \<Rightarrow> nat \<Rightarrow> bytes \<Rightarrow> nat \<Rightarrow> nat \<Rightarrow> CtrHmacEncrypter \<Rightarrow> nat \<Rightarrow> bool" where
  "ctr_enc_rep key mac np t h f p e n \<longleftrightarrow>
     ce_key_value e = key \<and> ce_mac e = mac \<and> ce_nonce_prefix e = np \<and> ce_header e = h \<and> ce_segment_number e = n \<and>
     ce_tag_size e = int t \<and> ce_ciphertext_segment_size e = int p + int t \<and>
     int p - ce_ciphertext_offset e - int (length h) = int f \<and> 0 < f \<and> 0 < p"

interpretation ctr_enc: segment_encrypter "CtrHmacEnc_ops S" "ctr_enc_rep key mac np t h f p" "ctr_E S key mac np t p" h f p
  for S key mac np t h f p
  by unfold_locales
    (auto simp: CtrHmacEnc_ops_def CtrHmac_EncryptSegment_def ctr_enc_rep_def ctr_E_def Let_def split: if_splits sum.splits)

text \<open>What BoringSSL returns from \<^verbatim>\<open>EVP_AEAD_CTX_open\<close> is shorter than the ciphertext by the tag.\<close>

definition aead_open_laws :: "Ssl \<Rightarrow> bool" where
  "aead_open_laws S \<longleftrightarrow>
     (\<forall>alg key iv ct ad pt. EVP_AEAD_CTX_open S alg key iv ct ad = Some pt \<longrightarrow> length ct = length pt + 16)"

definition gcm_dec_inv :: "Ssl \<Rightarrow> nat \<Rightarrow> nat \<Rightarrow> nat \<Rightarrow> GcmDecrypter \<Rightarrow> bool" where
  "gcm_dec_inv S hs f p d \<longleftrightarrow>
     aead_open_laws S \<and> gc_get_header_size d = int hs \<and> gd_ciphertext_segment_size (gc_params d) = int p \<and>
     int p - gd_ciphertext_offset (gc_params d) - int hs = int f \<and> 0 < hs \<and> 16 < f \<and> 16 < p"

lemma GcmDec_Init_params: "GcmDec_Init S x d = (st, d') \<Longrightarrow> gc_params d' = gc_params d"
  by (auto simp: GcmDec_Init_def Let_def split: if_splits sum.splits)

lemma GcmDec_DecryptSegment_length:
  "\<lbrakk>aead_open_laws S; GcmDec_DecryptSegment S c i lst d = Inr pt\<rbrakk> \<Longrightarrow> length c = length pt + 16"
  unfolding aead_open_laws_def
  by (auto simp: GcmDec_DecryptSegment_def OneShot_Decrypt_def split: if_splits option.splits)

interpretation gcm_dec: segment_decrypter "GcmDec_ops S" "gcm_dec_inv S hs f p" hs f p for S hs f p
proof (unfold_locales, goal_cases)
  case (5 e x e')
  then show ?case by (auto simp: GcmDec_ops_def gcm_dec_inv_def gc_get_header_size_def dest: GcmDec_Init_params)
next
  case (6 e c i)
  then show ?case by (auto simp: GcmDec_ops_def gcm_dec_inv_def dest: GcmDec_DecryptSegment_length)
qed (auto simp: GcmDec_ops_def gcm_dec_inv_def)

definition ctr_dec_inv :: "nat \<Rightarrow> nat \<Rightarrow> nat \<Rightarrow> CtrHmacDecrypter \<Rightarrow> bool" where
  "ctr_dec_inv hs f p d \<longleftrightarrow>
     cd_get_header_size d = int hs \<and> cs_ciphertext_segment_size (cd_params d) = int p \<and>
     int p - cs_ciphertext_offset (cd_params d) - int hs = int f \<and> 0 < hs \<and> nat (cs_tag_size (cd_params d)) < f \<and>
     nat (cs_tag_size (cd_params d)) < p"

lemma CtrHmacDec_Init_params: "CtrHmacDec_Init S fips x d = (st, d') \<Longrightarrow> cd_params d' = cd_params d"
  by (auto simp: CtrHmacDec_Init_def Let_def split: if_splits sum.splits)

lemma ctr_crypt_length: "ctr_crypt cipher key nonce x = Inr y \<Longrightarrow> length y = length x"
  by (auto simp: ctr_crypt_def split: sum.splits option.splits if_splits)

lemma CtrHmac_DecryptSegment_length:
  "CtrHmac_DecryptSegment S c i lst d = Inr pt \<Longrightarrow> length c = length pt + nat (cs_tag_size (cd_params d))"
  by (auto simp: CtrHmac_DecryptSegment_def Let_def dest!: ctr_crypt_length split: if_splits option.splits sum.splits)

interpretation ctr_dec: segment_decrypter "CtrHmacDec_ops S fips" "ctr_dec_inv hs f p" hs f p for S fips hs f p
proof (unfold_locales, goal_cases)
  case (5 e x e')
  then show ?case by (auto simp: CtrHmacDec_ops_def ctr_dec_inv_def cd_get_header_size_def dest: CtrHmacDec_Init_params)
next
  case (6 e c i)
  then show ?case by (auto simp: CtrHmacDec_ops_def ctr_dec_inv_def dest: CtrHmac_DecryptSegment_length)
qed (auto simp: CtrHmacDec_ops_def ctr_dec_inv_def)

text \<open>So the streams over them satisfy the stream contracts, on top of the adapters for the standard streams.\<close>

interpretation gcm_out: encrypting_stream "GcmEnc_ops S" "gcm_enc_rep a np h f p" "gcm_E S a np p" h f p
  Ostream_ops ostream_rep ostream_final c0 for S a np h f p c0
  by unfold_locales

interpretation gcm_live: live_encrypting_stream "GcmEnc_ops S" "gcm_enc_rep a np h f p" "gcm_E S a np p" h f p
  Ostream_ops ostream_live for S a np h f p
  by unfold_locales

interpretation gcm_in: decrypting_stream "GcmDec_ops S" "gcm_dec_inv S hs f p" hs f p Istream_ops istream_rep for S hs f p
  by unfold_locales

interpretation ctr_out: encrypting_stream "CtrHmacEnc_ops S" "ctr_enc_rep key mac np t h f p" "ctr_E S key mac np t p" h f p
  Ostream_ops ostream_rep ostream_final c0 for S key mac np t h f p c0
  by unfold_locales

interpretation ctr_live: live_encrypting_stream "CtrHmacEnc_ops S" "ctr_enc_rep key mac np t h f p" "ctr_E S key mac np t p" h f p
  Ostream_ops ostream_live for S key mac np t h f p
  by unfold_locales

interpretation ctr_in: decrypting_stream "CtrHmacDec_ops S fips" "ctr_dec_inv hs f p" hs f p Istream_ops istream_rep
  for S fips hs f p
  by unfold_locales

section \<open>Round trip of a stream\<close>

text \<open>A client that reads pieces of the given sizes until the stream ends.\<close>

fun read_all :: "'s InputStream \<Rightarrow> int list \<Rightarrow> 's \<Rightarrow> (Status \<times> bytes \<times> 's) option" where
  "read_all ops [] s = Some (OkStatus, [], s)"
| "read_all ops (n # ns) s =
     do {
       (st, out, s') \<leftarrow> ReadFromStream ops n s;
       (case st of
          Inl e \<Rightarrow> Some (Inl e, out, s')
        | Inr _ \<Rightarrow> do { (st', out', s'') \<leftarrow> read_all ops ns s'; Some (st', out @ out', s'') })
     }"

context output_stream
begin

lemma write_all_final: "\<lbrakk>rep s d n; write_all ops xs s = Some (OkStatus, s')\<rbrakk> \<Longrightarrow> final s' (d @ concat xs)"
proof (induction xs arbitrary: s d n)
  case Nil
  then show ?case using close by simp
next
  case (Cons x xs)
  then obtain s1 where w: "WriteToStream ops x s = Some (OkStatus, s1)" "write_all ops xs s1 = Some (OkStatus, s')"
    by (auto simp: bind_eq_Some_conv split: sum.splits) (metis old.unit.exhaust sum.exhaust)
  from WriteToStream_rep [OF w(1) Cons.prems(1)] Cons.IH [OF _ w(2)] show ?case by fastforce
qed

end

context live_output_stream
begin

lemma write_all_returns: "live s \<Longrightarrow> \<exists>r s'. write_all ops xs s = Some (r, s')"
proof (induction xs arbitrary: s)
  case Nil
  then show ?case using close_returns by fastforce
next
  case (Cons x xs)
  from WriteToStream_returns [OF Cons.prems, of x] obtain r s1 where "WriteToStream ops x s = Some (r, s1)" "live s1" by blast
  with Cons.IH [of s1] show ?case by (cases r) auto
qed

end

context input_stream
begin

lemma read_all_result:
  "\<lbrakk>rep s l d e; \<forall>n \<in> set ns. 0 < n\<rbrakk> \<Longrightarrow>
   \<exists>s'. read_all ops ns s = Some (if nat (sum_list ns) \<le> length d then OkStatus else Inl e, take (nat (sum_list ns)) d, s')"
proof (induction ns arbitrary: s l d)
  case (Cons n ns)
  have n: "0 < n" "0 \<le> sum_list ns" using Cons.prems(2) by (auto intro: sum_list_nonneg less_imp_le)
  then have add: "nat (sum_list (n # ns)) = nat n + nat (sum_list ns)" by (simp add: nat_add_distrib)
  show ?case
  proof (cases "nat n \<le> length d")
    case True
    from ReadFromStream_data [OF Cons.prems(1) n(1) True] obtain s1 l1 where
      r: "ReadFromStream ops n s = Some (OkStatus, take (nat n) d, s1)" "rep s1 l1 (drop (nat n) d) e" by blast
    from Cons.IH [OF r(2)] Cons.prems(2) obtain s2 where
      i: "read_all ops ns s1 = Some (if nat (sum_list ns) \<le> length (drop (nat n) d) then OkStatus else Inl e,
        take (nat (sum_list ns)) (drop (nat n) d), s2)" by auto
    have "nat (sum_list ns) \<le> length (drop (nat n) d) \<longleftrightarrow> nat (sum_list (n # ns)) \<le> length d" using True add by auto
    with r(1) i show ?thesis unfolding add take_add by simp
  next
    case False
    then have "length d < nat n" by simp
    from ReadFromStream_end [OF Cons.prems(1) this] False add show ?thesis by auto
  qed
qed simp

end

text \<open>The two reference functions and the header, under the laws that connect an encrypter and a decrypter.\<close>

lemma dec_all_enc_from:
  assumes init: "sd_Init dops h dec = (OkStatus, dec')"
    and seg: "\<And>i lst pt c. E i lst pt = Some c \<Longrightarrow> sd_DecryptSegment dops c i lst dec' = Inr pt \<and> length c = length pt + ov"
    and not_last: "\<And>n x c. last_segment 0 f p pt = (n, x) \<Longrightarrow> E n True x = Some c \<Longrightarrow> isl (sd_DecryptSegment dops c n False dec')"
    and "0 < f" and "0 < p" and "enc_from E 0 f p pt = Some c"
  shows "dec_all dops dec (length h) (f + ov) (p + ov) kOutOfRange (h @ c) = (pt, kOutOfRange)"
proof -
  have "dec_from (\<lambda>i lst c. sd_DecryptSegment dops c i lst dec') 0 (f + ov) (p + ov) kOutOfRange c = (pt, kOutOfRange)"
    by (rule dec_from_enc_from [of E]) (use assms in auto)
  then show ?thesis using init by (simp add: dec_all_def)
qed

text \<open>Sealed data does not open under another nonce.\<close>

definition aead_nonce_laws :: "Ssl \<Rightarrow> bool" where
  "aead_nonce_laws S \<longleftrightarrow>
     (\<forall>alg key iv iv' pt ad ct. EVP_AEAD_CTX_seal S alg key iv pt ad = Some ct \<and> length iv = 12 \<and> length iv' = 12 \<and> iv' \<noteq> iv \<longrightarrow>
        EVP_AEAD_CTX_open S alg key iv' ct ad = None)"

lemma gcm_dec_E:
  assumes S: "aead_laws S" and a: "sa_tag_size a = 16"
    and d: "gc_state d = Some (np, a)" "gd_ciphertext_segment_size (gc_params d) = int p + 16"
    and E: "gcm_E S a np p i lst pt = Some c"
  shows "GcmDec_DecryptSegment S c i lst d = Inr pt \<and> length c = length pt + 16"
proof -
  from E have l: "\<not> too_many_segments i lst" "length pt \<le> p"
    and e: "OneShot_Encrypt S a False pt [] (ConstructNonce np (word_of_nat i) lst) (length pt + 16) = Inr c"
    by (auto simp: gcm_E_def split: if_splits sum.splits)
  from OneShot_Encrypt_ok [OF S a e] l d show ?thesis
    by (simp add: GcmDec_DecryptSegment_def ConstructNonce_def)
qed

lemma ConstructNonce_last: "ConstructNonce np n True \<noteq> ConstructNonce np n False"
  by (simp add: ConstructNonce_def)

lemma length_ConstructNonce: "length (ConstructNonce np n lst) = length np + 5"
  by (simp add: ConstructNonce_def)

lemma gcm_dec_not_last:
  assumes S: "aead_nonce_laws S" and np: "length np = 7" and d: "gc_state d = Some (np, a)"
    and E: "gcm_E S a np p i True pt = Some c"
  shows "isl (GcmDec_DecryptSegment S c i False d)"
proof -
  from E have "OneShot_Encrypt S a False pt [] (ConstructNonce np (word_of_nat i) True) (length pt + 16) = Inr c"
    by (auto simp: gcm_E_def split: if_splits sum.splits)
  then have "EVP_AEAD_CTX_seal S (sa_aead a) (sa_key a) (ConstructNonce np (word_of_nat i) True) pt [] = Some c"
    by (auto simp: OneShot_Encrypt_def split: if_splits option.splits)
  moreover have "length (ConstructNonce np (word_of_nat i) True) = 12" "length (ConstructNonce np (word_of_nat i) False) = 12"
    "ConstructNonce np (word_of_nat i) False \<noteq> ConstructNonce np (word_of_nat i) True"
    using np ConstructNonce_last by (simp_all add: length_ConstructNonce) metis
  ultimately have "EVP_AEAD_CTX_open S (sa_aead a) (sa_key a) (ConstructNonce np (word_of_nat i) False) c [] = None"
    using S unfolding aead_nonce_laws_def by blast
  then show ?thesis using d by (simp add: GcmDec_DecryptSegment_def OneShot_Decrypt_def ConstructNonce_def)
qed
text \<open>A segment encrypter and a segment decrypter for the same parameters and associated data.\<close>

lemma gcm_pair:
  assumes e: "Gcm_NewSegmentEncrypter S salt np G ad = Inr e" and d: "Gcm_NewSegmentDecrypter G ad = Inr d"
    and salt: "length salt = nat (gs_derived_key_size G)" and np: "length np = 7" and S: "aead_open_laws S"
  obtains a h f p d' where "gcm_enc_rep a np h f p e 0" "gcm_dec_inv S (length h) (f + 16) (p + 16) d" "0 < f" "0 < p"
    "GcmDec_Init S h d = (OkStatus, d')" "gc_state d' = Some (np, a)" "gc_params d' = gc_params d" "sa_tag_size a = 16"
    "gd_ciphertext_segment_size (gc_params d') = int p + 16" "h = CreateHeader salt np"
proof -
  let ?h = "CreateHeader salt np" and ?off = "gs_ciphertext_offset G" and ?cs = "gs_ciphertext_segment_size G"
  from e obtain key where k: "ComputeHkdf S (gs_hkdf_hash G) (gs_ikm G) salt ad (nat (gs_derived_key_size G)) = Inr key"
    and n: "GcmEnc_New S np \<lparr>gp_key = key, gp_salt = salt, gp_ciphertext_offset = ?off, gp_ciphertext_segment_size = ?cs\<rparr> = Inr e"
    by (auto simp: Gcm_NewSegmentEncrypter_def split: sum.splits)
  from n obtain a where a: "CreateAesGcmOneShotCrypter S key = Inr a"
    and e': "e = \<lparr>ge_aead = a, ge_nonce_prefix = np, ge_header = ?h, ge_ciphertext_segment_size = ?cs,
              ge_ciphertext_offset = ?off, ge_segment_number = 0\<rparr>"
    and v: "GcmEnc_Validate \<lparr>gp_key = key, gp_salt = salt, gp_ciphertext_offset = ?off, gp_ciphertext_segment_size = ?cs\<rparr> = OkStatus"
    by (auto simp: GcmEnc_New_def split: sum.splits)
  from d have d': "d = \<lparr>gc_params = \<lparr>gd_ikm = gs_ikm G, gd_hkdf_hash = gs_hkdf_hash G, gd_derived_key_size = gs_derived_key_size G,
        gd_ciphertext_offset = ?off, gd_ciphertext_segment_size = ?cs, gd_associated_data = ad\<rparr>, gc_state = None\<rparr>"
    and dk: "gs_derived_key_size G = 16 \<or> gs_derived_key_size G = 32"
    by (auto simp: Gcm_NewSegmentDecrypter_def GcmDec_New_def GcmDec_Validate_def split: sum.splits if_splits)
  from v dk salt have sz: "0 \<le> ?off" "?cs > ?off + 8 + int (length salt) + 16"
    by (auto simp: GcmEnc_Validate_def Let_def split: if_splits)
  let ?p = "nat (?cs - 16)" and ?f = "nat (?cs - 16 - ?off - int (length ?h))"
  have lh: "length ?h = 8 + length salt" by (simp add: CreateHeader_def np)
  have hs: "int (length ?h) = 1 + gs_derived_key_size G + 7" using lh salt dk by auto
  have h0: "int (unat (?h ! 0)) = 1 + gs_derived_key_size G + 7" using salt dk by (auto simp: CreateHeader_def)
  let ?d = "d\<lparr>gc_state := Some (np, a)\<rparr>"
  have "take (length salt) (drop 1 ?h) = salt" "take 7 (drop (1 + length salt) ?h) = np" using np by (simp_all add: CreateHeader_def)
  then have "GcmDec_Init S ?h d = (OkStatus, ?d)"
    using hs h0 k a salt np unfolding d' by (auto simp: GcmDec_Init_def gc_get_header_size_def Let_def)
  moreover have "gcm_enc_rep a np ?h ?f ?p e 0" using sz lh by (auto simp: gcm_enc_rep_def e')
  moreover have "gcm_dec_inv S (length ?h) (?f + 16) (?p + 16) d"
    using sz lh hs S unfolding d' by (auto simp: gcm_dec_inv_def gc_get_header_size_def)
  moreover have "0 < ?f" "0 < ?p" "gd_ciphertext_segment_size (gc_params ?d) = int ?p + 16" using sz lh by (auto simp: d')
  moreover have "gc_state ?d = Some (np, a)" "gc_params ?d = gc_params d" by simp_all
  ultimately show ?thesis using Create_tag_size(1) [OF a] by (intro that [of a ?h ?f ?p ?d]) blast+
qed
lemma gcm_written_plain:
  assumes S: "aead_laws S" "aead_open_laws S" "aead_nonce_laws S"
    and salt: "length salt = nat (gs_derived_key_size G)" and np: "length np = 7"
    and enc: "NewEncryptingStream (GcmEnc_ops S) (Gcm_NewSegmentEncrypter S salt np G ad) (Some (OstreamOutputStream_new out k)) = Inr s"
    and d: "Gcm_NewSegmentDecrypter G ad = Inr d"
    and wr: "write_all (Enc_ops (GcmEnc_ops S) Ostream_ops) xs s = Some (OkStatus, s')"
    and x: "os_written (oo_output (es_ct_destination s')) = os_written out @ x"
  shows "\<exists>hs f p. gcm_dec_inv S hs f p d \<and> dec_all (GcmDec_ops S) d hs f p kOutOfRange x = (concat xs, kOutOfRange)"
proof -
  from enc obtain e where e: "Gcm_NewSegmentEncrypter S salt np G ad = Inr e"
    "Enc_New (GcmEnc_ops S) (Some e) (Some (OstreamOutputStream_new out k)) = Inr s"
    by (auto simp: NewEncryptingStream_def split: sum.splits)
  obtain a h f p d' where
    P: "gcm_enc_rep a np h f p e 0" "gcm_dec_inv S (length h) (f + 16) (p + 16) d" "0 < f" "0 < p"
    "GcmDec_Init S h d = (OkStatus, d')" "gc_state d' = Some (np, a)" "sa_tag_size a = 16"
    "gd_ciphertext_segment_size (gc_params d') = int p + 16"
    by (rule gcm_pair [OF e(1) d salt np S(2)]) (rule that)
  from gcm_out.enc.write_all_final [OF gcm_out.enc_rep_New [OF e(2) P(1) ostream_rep_new] wr] obtain c where
    c: "enc_from (gcm_E S a np p) 0 f p (concat xs) = Some c" "ostream_final (es_ct_destination s') (os_written out @ h @ c)"
    unfolding gcm_out.enc_final_def by auto
  have hc: "x = h @ c" using c(2) x by (simp add: ostream_final_def)
  have i: "sd_Init (GcmDec_ops S) h d = (OkStatus, d')" using P(5) by (simp add: GcmDec_ops_def)
  have "dec_all (GcmDec_ops S) d (length h) (f + 16) (p + 16) kOutOfRange (h @ c) = (concat xs, kOutOfRange)"
    by (rule dec_all_enc_from [OF i _ _ P(3,4) c(1)])
      (use gcm_dec_E [OF S(1) P(7,6,8)] gcm_dec_not_last [OF S(3) np P(6)] in \<open>auto simp: GcmDec_ops_def\<close>)
  with P(2) hc show ?thesis by blast
qed

lemma gcm_written_rep:
  assumes S: "aead_laws S" "aead_open_laws S" "aead_nonce_laws S"
    and salt: "length salt = nat (gs_derived_key_size G)" and np: "length np = 7"
    and enc: "NewEncryptingStream (GcmEnc_ops S) (Gcm_NewSegmentEncrypter S salt np G ad) (Some (OstreamOutputStream_new out k)) = Inr s"
    and dec: "NewDecryptingStream (GcmDec_ops S) (Gcm_NewSegmentDecrypter G ad) (Some (IstreamInputStream_new inp k')) = Inr r"
    and wr: "write_all (Enc_ops (GcmEnc_ops S) Ostream_ops) xs s = Some (OkStatus, s')"
    and inp: "os_written (oo_output (es_ct_destination s')) = os_written out @ in_rest inp" "\<not> in_fails inp" "\<not> in_at_eof inp" "\<not> in_bad inp"
  shows "\<exists>hs f p. gcm_in.dec_rep S hs f p r [] (concat xs) kOutOfRange"
proof -
  from dec obtain d where d: "Gcm_NewSegmentDecrypter G ad = Inr d"
    "Dec_New (GcmDec_ops S) (Some d) (Some (IstreamInputStream_new inp k')) = Inr r"
    by (auto simp: NewDecryptingStream_def split: sum.splits)
  from gcm_written_plain [OF S salt np enc d(1) wr inp(1)] obtain hs f p where
    P: "gcm_dec_inv S hs f p d" "dec_all (GcmDec_ops S) d hs f p kOutOfRange (in_rest inp) = (concat xs, kOutOfRange)" by blast
  have "istream_rep (IstreamInputStream_new inp k') [] (in_rest inp) kOutOfRange"
    using istream_rep_new [OF inp(3,4), of k'] inp(2) by simp
  from gcm_in.dec_rep_New [OF d(2) P(1) this P(2)] show ?thesis by blast
qed

text \<open>
  (C30) Round trip of AES-GCM-HKDF streaming encryption. The plaintext is written in pieces of any sizes to an encrypting
  stream over a standard output stream, which is then closed. If all this succeeds, a decrypting stream for the same
  key and associated data over what came after the bytes already there returns exactly the plaintext, in pieces of any sizes,
  and reports the end of the stream exactly when more bytes are asked for. Every read returns.
\<close>

theorem gcm_stream_roundtrip:
  assumes S: "aead_laws S" "aead_open_laws S" "aead_nonce_laws S"
    and salt: "length salt = nat (gs_derived_key_size G)" and np: "length np = 7"
    and enc: "NewEncryptingStream (GcmEnc_ops S) (Gcm_NewSegmentEncrypter S salt np G ad) (Some (OstreamOutputStream_new out k)) = Inr s"
    and dec: "NewDecryptingStream (GcmDec_ops S) (Gcm_NewSegmentDecrypter G ad) (Some (IstreamInputStream_new inp k')) = Inr r"
    and wr: "write_all (Enc_ops (GcmEnc_ops S) Ostream_ops) xs s = Some (OkStatus, s')"
    and inp: "os_written (oo_output (es_ct_destination s')) = os_written out @ in_rest inp" "\<not> in_fails inp" "\<not> in_at_eof inp" "\<not> in_bad inp"
    and ns: "\<forall>n \<in> set ns. 0 < n"
  shows "\<exists>r'. read_all (Dec_ops (GcmDec_ops S) Istream_ops) ns r =
    Some (if nat (sum_list ns) \<le> length (concat xs) then OkStatus else Inl kOutOfRange, take (nat (sum_list ns)) (concat xs), r')"
proof -
  from gcm_written_rep [OF S salt np enc dec wr inp] obtain hs f p where "gcm_in.dec_rep S hs f p r [] (concat xs) kOutOfRange" by blast
  from gcm_in.dec.read_all_result [OF this ns] show ?thesis .
qed

text \<open>
  Of the MAC one thing is needed, about one segment of the stream only: the tag of the last segment, as truncated, is not
  the one the same bytes would have as a segment that is not last. The plaintext of the first segment is shorter by the
  header and the offset.
\<close>

definition last_tag_differs :: "Ssl \<Rightarrow> AesCtrHmacStreaming \<Rightarrow> bytes \<Rightarrow> bytes \<Rightarrow> bytes \<Rightarrow> bytes \<Rightarrow> bool" where
  "last_tag_differs S G salt np ad pt \<longleftrightarrow>
     (let p = cs_ciphertext_segment_size G - cs_tag_size G;
          (n, x) = last_segment 0 (nat (p - cs_ciphertext_offset G - (8 + cs_key_size G))) (nat p) pt;
          t = nat (cs_tag_size G)
      in \<forall>key hkey ct tag tag'.
           DeriveKeys S G salt ad = Inr (key, hkey) \<and> ctr_crypt (ssl_ctr_Encrypt S) key (NonceForSegment np n True) x = Inr ct \<and>
           ssl_HMAC S (cs_tag_algo G) hkey (NonceForSegment np n True @ ct) = Some tag \<and>
           ssl_HMAC S (cs_tag_algo G) hkey (NonceForSegment np n False @ ct) = Some tag' \<longrightarrow>
           take t tag \<noteq> take t tag')"

lemma ctr_crypt_inverse:
  assumes S: "ctr_laws S" and e: "ctr_crypt (ssl_ctr_Encrypt S) key nonce x = Inr y"
  shows "ctr_crypt (ssl_ctr_Decrypt S) key nonce y = Inr x"
proof -
  from e have k: "GetAesCtrCipherForKeySize (length key) = OkStatus" and y: "ssl_ctr_Encrypt S key nonce x = Some y"
    by (auto simp: ctr_crypt_def split: sum.splits option.splits if_splits)
  from ctr_lawsD [OF S y] k show ?thesis by (simp add: ctr_crypt_def)
qed

lemma ctr_dec_E:
  assumes S: "ctr_laws S" "hmac_laws S" and m: "HmacBoringSsl_New S fips h t hkey = Inr mac"
    and d: "cd_state d = Some (np, key, mac)" "cs_ciphertext_segment_size (cd_params d) = int p + int t" "cs_tag_size (cd_params d) = int t"
    and E: "ctr_E S key mac np t p i lst pt = Some c"
  shows "CtrHmac_DecryptSegment S c i lst d = Inr pt \<and> length c = length pt + t"
proof -
  from E obtain ct tag where l: "\<not> too_many_segments i lst" "length pt \<le> p"
    and ct: "ctr_crypt (ssl_ctr_Encrypt S) key (NonceForSegment np i lst) pt = Inr ct"
    and tag: "ComputeMac S mac (NonceForSegment np i lst @ ct) = Inr tag" and c: "c = ct @ take t tag"
    by (auto simp: ctr_E_def split: if_splits sum.splits)
  from HMAC_verifies [OF S(2) m tag] have v: "length tag = t" "VerifyMac S mac tag (NonceForSegment np i lst @ ct) = OkStatus" by blast+
  have "length c - t = length ct" "length c = length pt + t" "take (length ct) c = ct" "drop (length ct) c = tag"
    using c v(1) ctr_crypt_length [OF ct] by simp_all
  with v(2) ctr_crypt_inverse [OF S(1) ct] l d show ?thesis by (simp add: CtrHmac_DecryptSegment_def Let_def)
qed

lemma ctr_dec_not_last:
  assumes S: "hmac_laws S" and m: "HmacBoringSsl_New S fips h t hkey = Inr mac"
    and d: "cd_state d = Some (np, key, mac)" "cs_tag_size (cd_params d) = int t"
    and E: "ctr_E S key mac np t p i True pt = Some c"
    and differs: "\<And>ct b b'. ctr_crypt (ssl_ctr_Encrypt S) key (NonceForSegment np i True) pt = Inr ct \<Longrightarrow>
      ssl_HMAC S h hkey (NonceForSegment np i True @ ct) = Some b \<Longrightarrow> ssl_HMAC S h hkey (NonceForSegment np i False @ ct) = Some b' \<Longrightarrow>
      take t b \<noteq> take t b'"
  shows "isl (CtrHmac_DecryptSegment S c i False d)"
proof -
  from m have mac: "mac = \<lparr>hm_hash_type = h, hm_tag_size = t, hm_key = hkey\<rparr>" and h: "EvpHashFromHashType h = Inr h"
    by (auto simp: HmacBoringSsl_New_def EvpHashFromHashType_def split: sum.splits if_splits HashType.splits)
  from E obtain ct tag where ct: "ctr_crypt (ssl_ctr_Encrypt S) key (NonceForSegment np i True) pt = Inr ct"
    and tag: "ComputeMac S mac (NonceForSegment np i True @ ct) = Inr tag" and c: "c = ct @ take t tag"
    by (auto simp: ctr_E_def split: if_splits sum.splits)
  from tag obtain b where b: "ssl_HMAC S h hkey (NonceForSegment np i True @ ct) = Some b" "tag = take t b"
    by (auto simp: ComputeMac_def mac h split: option.splits)
  have lt: "length tag = t" using HMAC_verifies [OF S m tag] by blast
  have "take t b' \<noteq> tag" if "ssl_HMAC S h hkey (NonceForSegment np i False @ ct) = Some b'" for b'
    using differs [OF ct b(1) that] b(2) by simp
  then have "isl (VerifyMac S mac tag (NonceForSegment np i False @ ct))"
    by (auto simp: VerifyMac_def mac h split: option.splits)
  moreover have "take (length ct) c = ct" "drop (length ct) c = tag" "length c - t = length ct" using c lt by simp_all
  ultimately show ?thesis using d by (auto simp: CtrHmac_DecryptSegment_def Let_def split: sum.splits)
qed

lemma ctr_pair:
  assumes e: "CtrHmac_NewSegmentEncrypter S fips salt np G ad = Inr e" and d: "CtrHmac_NewSegmentDecrypter G ad = Inr d"
    and salt: "length salt = nat (cs_key_size G)" and np: "length np = 7"
  obtains key mac t hkey h f p d' where "ctr_enc_rep key mac np t h f p e 0" "ctr_dec_inv (length h) (f + t) (p + t) d" "0 < f" "0 < p"
    "CtrHmacDec_Init S fips h d = (OkStatus, d')" "cd_state d' = Some (np, key, mac)" "cs_tag_size (cd_params d') = int t"
    "cs_ciphertext_segment_size (cd_params d') = int p + int t"
    "HmacBoringSsl_New S fips (cs_tag_algo G) t hkey = Inr mac" "DeriveKeys S G salt ad = Inr (key, hkey)" "t = nat (cs_tag_size G)"
    "p = nat (cs_ciphertext_segment_size G - cs_tag_size G)"
    "f = nat (cs_ciphertext_segment_size G - cs_tag_size G - cs_ciphertext_offset G - (8 + cs_key_size G))"
proof -
  let ?h = "MakeHeader salt np" and ?off = "cs_ciphertext_offset G" and ?cs = "cs_ciphertext_segment_size G"
    and ?t = "nat (cs_tag_size G)"
  from e obtain key hkey mac where k: "DeriveKeys S G salt ad = Inr (key, hkey)"
    and m: "HmacBoringSsl_New S fips (cs_tag_algo G) ?t hkey = Inr mac"
    and e': "e = \<lparr>ce_key_value = key, ce_header = ?h, ce_nonce_prefix = np, ce_ciphertext_segment_size = ?cs,
              ce_ciphertext_offset = ?off, ce_tag_size = cs_tag_size G, ce_mac = mac, ce_segment_number = 0\<rparr>"
    and v: "CtrHmac_Validate G = OkStatus"
    by (auto simp: CtrHmac_NewSegmentEncrypter_def split: sum.splits)
  from d have d': "d = \<lparr>cd_params = G, cd_associated_data = ad, cd_state = None\<rparr>"
    by (auto simp: CtrHmac_NewSegmentDecrypter_def split: sum.splits)
  from v have dk: "cs_key_size G = 16 \<or> cs_key_size G = 32" and sz: "0 \<le> ?off" "10 \<le> cs_tag_size G"
    "?cs > ?off + 8 + cs_key_size G + cs_tag_size G"
    by (auto simp: CtrHmac_Validate_def Let_def split: if_splits)
  let ?p = "nat (?cs - cs_tag_size G)" and ?f = "nat (?cs - cs_tag_size G - ?off - int (length ?h))"
  have lh: "length ?h = 8 + length salt" by (simp add: MakeHeader_def np)
  have hs: "int (length ?h) = 1 + cs_key_size G + 7" using lh salt dk by auto
  have h0: "unat (?h ! 0) = length ?h" using salt dk np by (auto simp: MakeHeader_def)
  let ?d = "d\<lparr>cd_state := Some (np, key, mac)\<rparr>"
  have "take (length salt) (drop 1 ?h) = salt" "take 7 (drop (1 + length salt) ?h) = np" using np by (simp_all add: MakeHeader_def)
  then have "CtrHmacDec_Init S fips ?h d = (OkStatus, ?d)"
    using hs h0 k m salt np unfolding d' by (auto simp: CtrHmacDec_Init_def cd_get_header_size_def Let_def)
  moreover have "ctr_enc_rep key mac np ?t ?h ?f ?p e 0" using sz lh hs dk by (auto simp: ctr_enc_rep_def e')
  moreover have "ctr_dec_inv (length ?h) (?f + ?t) (?p + ?t) d"
    using sz lh hs dk unfolding d' by (auto simp: ctr_dec_inv_def cd_get_header_size_def)
  moreover have "0 < ?f" "0 < ?p" "cs_ciphertext_segment_size (cd_params ?d) = int ?p + int ?t"
    "cs_tag_size (cd_params ?d) = int ?t" using sz lh hs dk by (auto simp: d')
  moreover have "cd_state ?d = Some (np, key, mac)" by simp
  moreover have "?f = nat (?cs - cs_tag_size G - ?off - (8 + cs_key_size G))" using hs by simp
  ultimately show ?thesis using m k by (intro that [of key mac ?t ?h ?f ?p ?d hkey]) blast+
qed

text \<open>
  (C33) Round trip of AES-CTR-HMAC streaming encryption: what is written in pieces of any sizes to an encrypting stream over a standard
  output stream, which is then closed, is exactly what a decrypting stream for the same key and associated data returns, in pieces of
  any sizes, and the end of the stream is reported exactly when more bytes are asked for. The tag of the last segment must not
  collide with the tag of the same segment taken as one that is not last; of no other tags this is assumed.
\<close>

theorem ctr_hmac_stream_roundtrip:
  assumes S: "ctr_laws S" "hmac_laws S"
    and tag: "last_tag_differs S G salt np ad (concat xs)"
    and salt: "length salt = nat (cs_key_size G)" and np: "length np = 7"
    and enc: "NewEncryptingStream (CtrHmacEnc_ops S) (CtrHmac_NewSegmentEncrypter S fips salt np G ad)
      (Some (OstreamOutputStream_new out k)) = Inr s"
    and dec: "NewDecryptingStream (CtrHmacDec_ops S fips) (CtrHmac_NewSegmentDecrypter G ad) (Some (IstreamInputStream_new inp k')) = Inr r"
    and wr: "write_all (Enc_ops (CtrHmacEnc_ops S) Ostream_ops) xs s = Some (OkStatus, s')"
    and inp: "os_written (oo_output (es_ct_destination s')) = os_written out @ in_rest inp" "\<not> in_fails inp" "\<not> in_at_eof inp" "\<not> in_bad inp"
    and ns: "\<forall>n \<in> set ns. 0 < n"
  shows "\<exists>r'. read_all (Dec_ops (CtrHmacDec_ops S fips) Istream_ops) ns r =
    Some (if nat (sum_list ns) \<le> length (concat xs) then OkStatus else Inl kOutOfRange, take (nat (sum_list ns)) (concat xs), r')"
proof -
  from enc obtain e where e: "CtrHmac_NewSegmentEncrypter S fips salt np G ad = Inr e"
    "Enc_New (CtrHmacEnc_ops S) (Some e) (Some (OstreamOutputStream_new out k)) = Inr s"
    by (auto simp: NewEncryptingStream_def split: sum.splits)
  from dec obtain d where d: "CtrHmac_NewSegmentDecrypter G ad = Inr d"
    "Dec_New (CtrHmacDec_ops S fips) (Some d) (Some (IstreamInputStream_new inp k')) = Inr r"
    by (auto simp: NewDecryptingStream_def split: sum.splits)
  obtain key mac t hkey h f p d' where
    P: "ctr_enc_rep key mac np t h f p e 0" "ctr_dec_inv (length h) (f + t) (p + t) d" "0 < f" "0 < p"
    "CtrHmacDec_Init S fips h d = (OkStatus, d')" "cd_state d' = Some (np, key, mac)" "cs_tag_size (cd_params d') = int t"
    "cs_ciphertext_segment_size (cd_params d') = int p + int t"
    "HmacBoringSsl_New S fips (cs_tag_algo G) t hkey = Inr mac" "DeriveKeys S G salt ad = Inr (key, hkey)" "t = nat (cs_tag_size G)"
    "p = nat (cs_ciphertext_segment_size G - cs_tag_size G)"
    "f = nat (cs_ciphertext_segment_size G - cs_tag_size G - cs_ciphertext_offset G - (8 + cs_key_size G))"
    by (rule ctr_pair [OF e(1) d(1) salt np]) (rule that)
  from ctr_out.enc.write_all_final [OF ctr_out.enc_rep_New [OF e(2) P(1) ostream_rep_new] wr] obtain c where
    c: "enc_from (ctr_E S key mac np t p) 0 f p (concat xs) = Some c" "ostream_final (es_ct_destination s') (os_written out @ h @ c)"
    unfolding ctr_out.enc_final_def by auto
  have hc: "in_rest inp = h @ c" using c(2) inp(1) by (simp add: ostream_final_def)
  have i: "sd_Init (CtrHmacDec_ops S fips) h d = (OkStatus, d')" using P(5) by (simp add: CtrHmacDec_ops_def)
  have "dec_all (CtrHmacDec_ops S fips) d (length h) (f + t) (p + t) kOutOfRange (h @ c) = (concat xs, kOutOfRange)"
  proof (rule dec_all_enc_from [OF i _ _ P(3,4) c(1)])
    fix i lst pt c
    assume "ctr_E S key mac np t p i lst pt = Some c"
    from ctr_dec_E [OF S P(9,6,8,7) this] show "sd_DecryptSegment (CtrHmacDec_ops S fips) c i lst d' = Inr pt \<and> length c = length pt + t"
      by (simp add: CtrHmacDec_ops_def)
  next
    fix n x c
    assume l: "last_segment 0 f p (concat xs) = (n, x)" and E: "ctr_E S key mac np t p n True x = Some c"
    have "isl (CtrHmac_DecryptSegment S c n False d')"
      by (rule ctr_dec_not_last [OF S(2) P(9,6,7) E])
        (use tag l P(10) in \<open>auto simp: last_tag_differs_def Let_def P(11-13) [symmetric]\<close>)
    then show "isl (sd_DecryptSegment (CtrHmacDec_ops S fips) c n False d')" by (simp add: CtrHmacDec_ops_def)
  qed
  moreover have "istream_rep (IstreamInputStream_new inp k') [] (h @ c) kOutOfRange"
    using istream_rep_new [OF inp(3,4), of k'] inp(2) hc by simp
  ultimately show ?thesis
    using ctr_in.dec.read_all_result [OF ctr_in.dec_rep_New [OF d(2) P(2)] ns] by blast
qed

section \<open>Writing a stream returns\<close>

lemma gcm_new_rep:
  assumes "Gcm_NewSegmentEncrypter S salt np G ad = Inr e" and "length np = 7"
  shows "\<exists>a h f p. gcm_enc_rep a np h f p e 0"
proof -
  from assms(1) obtain key a where e: "e = \<lparr>ge_aead = a, ge_nonce_prefix = np, ge_header = CreateHeader salt np,
      ge_ciphertext_segment_size = gs_ciphertext_segment_size G, ge_ciphertext_offset = gs_ciphertext_offset G, ge_segment_number = 0\<rparr>"
    and v: "GcmEnc_Validate \<lparr>gp_key = key, gp_salt = salt, gp_ciphertext_offset = gs_ciphertext_offset G,
      gp_ciphertext_segment_size = gs_ciphertext_segment_size G\<rparr> = OkStatus"
    by (auto simp: Gcm_NewSegmentEncrypter_def GcmEnc_New_def split: sum.splits)
  let ?p = "gs_ciphertext_segment_size G - 16" and ?h = "CreateHeader salt np"
  have "0 \<le> gs_ciphertext_offset G" "gs_ciphertext_segment_size G > gs_ciphertext_offset G + int (length ?h) + 16"
    using v assms(2) by (auto simp: GcmEnc_Validate_def CreateHeader_def Let_def split: if_splits)
  then have "gcm_enc_rep a np ?h (nat (?p - gs_ciphertext_offset G - int (length ?h))) (nat ?p) e 0"
    unfolding e gcm_enc_rep_def by auto
  then show ?thesis by blast
qed

lemma ctr_new_rep:
  assumes "CtrHmac_NewSegmentEncrypter S fips salt np G ad = Inr e" and "length np = 7" and "length salt = nat (cs_key_size G)"
  shows "\<exists>key mac t h f p. ctr_enc_rep key mac np t h f p e 0"
proof -
  from assms(1) have "CtrHmac_NewSegmentDecrypter G ad = Inr \<lparr>cd_params = G, cd_associated_data = ad, cd_state = None\<rparr>"
    by (auto simp: CtrHmac_NewSegmentEncrypter_def CtrHmac_NewSegmentDecrypter_def split: sum.splits)
  then show ?thesis by (rule ctr_pair [OF assms(1) _ assms(3,2)]) blast
qed

text \<open>
  (C34) Writing pieces of any sizes to an encrypting stream over a standard output stream and closing it always returns, with
  success or with an error, if the buffer of the standard stream takes at least one byte of each write. This holds for
  both segment encrypters, and after errors too.
\<close>

theorem stream_encryption_returns:
  assumes out: "\<forall>j. 0 < os_accepts out j" and np: "length np = 7"
  shows "(\<forall>S salt G ad s xs. NewEncryptingStream (GcmEnc_ops S) (Gcm_NewSegmentEncrypter S salt np G ad)
             (Some (OstreamOutputStream_new out k)) = Inr s \<longrightarrow>
            (\<exists>r s'. write_all (Enc_ops (GcmEnc_ops S) Ostream_ops) xs s = Some (r, s'))) \<and>
         (\<forall>S fips salt G ad s xs. length salt = nat (cs_key_size G) \<and>
             NewEncryptingStream (CtrHmacEnc_ops S) (CtrHmac_NewSegmentEncrypter S fips salt np G ad)
               (Some (OstreamOutputStream_new out k)) = Inr s \<longrightarrow>
            (\<exists>r s'. write_all (Enc_ops (CtrHmacEnc_ops S) Ostream_ops) xs s = Some (r, s')))"
proof (intro conjI allI impI; (elim conjE)?)
  fix S salt G ad s xs
  assume "NewEncryptingStream (GcmEnc_ops S) (Gcm_NewSegmentEncrypter S salt np G ad) (Some (OstreamOutputStream_new out k)) = Inr s"
  then obtain e where e: "Gcm_NewSegmentEncrypter S salt np G ad = Inr e"
    "Enc_New (GcmEnc_ops S) (Some e) (Some (OstreamOutputStream_new out k)) = Inr s"
    by (auto simp: NewEncryptingStream_def split: sum.splits)
  from gcm_new_rep [OF e(1) np] obtain a h f p where "gcm_enc_rep a np h f p e 0" by blast
  from gcm_live.enc.write_all_returns [OF gcm_live.enc_live_New [OF e(2) this ostream_live_new [OF out]]]
  show "\<exists>r s'. write_all (Enc_ops (GcmEnc_ops S) Ostream_ops) xs s = Some (r, s')" .
next
  fix S fips salt G ad s xs
  assume salt: "length salt = nat (cs_key_size G)" and
    "NewEncryptingStream (CtrHmacEnc_ops S) (CtrHmac_NewSegmentEncrypter S fips salt np G ad) (Some (OstreamOutputStream_new out k)) = Inr s"
  then obtain e where e: "CtrHmac_NewSegmentEncrypter S fips salt np G ad = Inr e"
    "Enc_New (CtrHmacEnc_ops S) (Some e) (Some (OstreamOutputStream_new out k)) = Inr s"
    by (auto simp: NewEncryptingStream_def split: sum.splits)
  from ctr_new_rep [OF e(1) np salt] obtain key mac t h f p where "ctr_enc_rep key mac np t h f p e 0" by blast
  from ctr_live.enc.write_all_returns [OF ctr_live.enc_live_New [OF e(2) this ostream_live_new [OF out]]]
  show "\<exists>r s'. write_all (Enc_ops (CtrHmacEnc_ops S) Ostream_ops) xs s = Some (r, s')" .
qed

section \<open>Nonces\<close>

text \<open>
  The segments that a segment encrypter returns when it is asked to encrypt the given plaintexts one after the other,
  each as the last segment or not; a segment that is refused, or fails, is not among them.
\<close>

fun returned_segments :: "'e SegmentEncrypter \<Rightarrow> 'e \<Rightarrow> (bytes \<times> bool) list \<Rightarrow> (bytes \<times> bool \<times> bytes) list" where
  "returned_segments sops e [] = []"
| "returned_segments sops e ((pt, lst) # xs) =
     (case se_EncryptSegment sops pt lst e of
        (Inl _, e') \<Rightarrow> returned_segments sops e' xs
      | (Inr ct, e') \<Rightarrow> (pt, lst, ct) # returned_segments sops e' xs)"

lemma too_many_bound: "\<not> too_many_segments n lst \<Longrightarrow> n < 2 ^ 32"
  by (auto simp: too_many_segments_def)

lemma word_of_nat_inj: "\<lbrakk>m < 2 ^ 32; n < 2 ^ 32\<rbrakk> \<Longrightarrow> (word_of_nat m :: u32) = word_of_nat n \<longleftrightarrow> m = n"
  by (simp add: word_unat_eq_iff unat_of_nat)

text \<open>
  A segment encrypter whose segment number goes up with every segment it returns, and stays otherwise: the \<open>i\<close>-th segment
  from a state on is encrypted under the number of the state plus \<open>i\<close>.
\<close>

locale counting_encrypter =
  fixes sops :: "'e SegmentEncrypter" and number :: "'e \<Rightarrow> nat" and enc :: "'e \<Rightarrow> nat \<Rightarrow> bool \<Rightarrow> bytes \<Rightarrow> bytes \<Rightarrow> bool"
  assumes error: "se_EncryptSegment sops pt lst e = (Inl x, e') \<Longrightarrow> e' = e"
    and ok: "se_EncryptSegment sops pt lst e = (Inr ct, e') \<Longrightarrow>
      number e' = Suc (number e) \<and> number e < 2 ^ 32 \<and> enc e (number e) lst pt ct \<and> enc e' = enc e"
begin

lemma returned_bound: "number e \<le> 2 ^ 32 \<Longrightarrow> number e + length (returned_segments sops e xs) \<le> 2 ^ 32"
proof (induction xs arbitrary: e)
  case (Cons x xs)
  obtain pt lst r e' where x: "x = (pt, lst)" "se_EncryptSegment sops pt lst e = (r, e')" by (metis surj_pair)
  show ?case
  proof (cases r)
    case (Inl y)
    with x error [of pt lst e y e'] Cons show ?thesis by simp
  next
    case (Inr ct)
    with x ok [of pt lst e ct e'] Cons.IH [of e'] show ?thesis by simp
  qed
qed simp

lemma returned_nth:
  "i < length (returned_segments sops e xs) \<Longrightarrow> returned_segments sops e xs ! i = (pt, lst, ct) \<Longrightarrow> enc e (number e + i) lst pt ct"
proof (induction xs arbitrary: e i)
  case (Cons x xs)
  obtain pt' lst' r e' where x: "x = (pt', lst')" "se_EncryptSegment sops pt' lst' e = (r, e')" by (metis surj_pair)
  show ?case
  proof (cases r)
    case (Inl y)
    with x error [of pt' lst' e y e'] Cons show ?thesis by simp
  next
    case (Inr ct')
    note e' = ok [OF x(2) [unfolded Inr]]
    with x Inr Cons.prems Cons.IH [of "i - 1" e'] show ?thesis by (cases i) auto
  qed
qed simp

end

text \<open>A segment is encrypted under the given nonce: it is what the cipher makes of the plaintext and that nonce.\<close>

definition gcm_encrypted :: "Ssl \<Rightarrow> GcmEncrypter \<Rightarrow> bytes \<Rightarrow> bytes \<Rightarrow> bytes \<Rightarrow> bool" where
  "gcm_encrypted S e nonce pt ct \<longleftrightarrow> OneShot_Encrypt S (ge_aead e) False pt [] nonce (length pt + 16) = Inr ct"

definition ctr_encrypted :: "Ssl \<Rightarrow> CtrHmacEncrypter \<Rightarrow> bytes \<Rightarrow> bytes \<Rightarrow> bytes \<Rightarrow> bool" where
  "ctr_encrypted S e nonce pt ct \<longleftrightarrow>
     (\<exists>x tag. ctr_crypt (ssl_ctr_Encrypt S) (ce_key_value e) nonce pt = Inr x \<and> ComputeMac S (ce_mac e) (nonce @ x) = Inr tag \<and>
        ct = x @ take (nat (ce_tag_size e)) tag)"

interpretation gcm_counting: counting_encrypter "GcmEnc_ops S" ge_segment_number
  "\<lambda>e n lst. gcm_encrypted S e (ConstructNonce (ge_nonce_prefix e) (word_of_nat n) lst)" for S
  by unfold_locales
    (auto simp: GcmEnc_ops_def GcmEnc_EncryptSegment_def gcm_encrypted_def fun_eq_iff dest: too_many_bound
      split: if_split_asm sum.split_asm)

interpretation ctr_counting: counting_encrypter "CtrHmacEnc_ops S" ce_segment_number
  "\<lambda>e n lst. ctr_encrypted S e (NonceForSegment (ce_nonce_prefix e) n lst)" for S
  by unfold_locales
    (auto simp: CtrHmacEnc_ops_def CtrHmac_EncryptSegment_def ctr_encrypted_def fun_eq_iff Let_def dest: too_many_bound
      split: if_split_asm sum.split_asm)

lemma nonces_inj:
  assumes "i < 2 ^ 32" "j < 2 ^ 32"
  shows "ConstructNonce np (word_of_nat i) l = ConstructNonce np (word_of_nat j) l' \<Longrightarrow> i = j"
    and "NonceForSegment np i l = NonceForSegment np j l' \<Longrightarrow> i = j"
proof -
  have "i = j" if "StoreBigEndian32 (word_of_nat i) @ x = StoreBigEndian32 (word_of_nat j) @ y" for x y
  proof -
    have "StoreBigEndian32 (word_of_nat i) = StoreBigEndian32 (word_of_nat j)" using that by simp
    then show ?thesis using assms by (simp add: StoreBigEndian32_inj word_of_nat_inj)
  qed
  then show "ConstructNonce np (word_of_nat i) l = ConstructNonce np (word_of_nat j) l' \<Longrightarrow> i = j"
    and "NonceForSegment np i l = NonceForSegment np j l' \<Longrightarrow> i = j"
    unfolding ConstructNonce_def NonceForSegment_def by blast+
qed

text \<open>
  (C32) No two segments of a stream are encrypted under the same nonce. For every nonce prefix there are nonces, different for
  different numbers below \<open>2 ^ 32\<close>, such that with every crypto library, key and salt the \<open>i\<close>-th segment that a fresh segment encrypter
  with this prefix returns, whatever it is asked to encrypt, as last segments or not, is what the cipher makes of the plaintext under the
  \<open>i\<close>-th nonce; and it returns at most \<open>2 ^ 32\<close> segments, so that the 32-bit counter in the nonce never wraps around.
  This holds for both encrypters; of AES-CTR-HMAC the tag is computed over the same nonce. A failed attempt returns no segment,
  and the next attempt has its number.
\<close>

theorem segment_nonces_distinct:
  "(\<exists>N. (\<forall>i j l l'. i < 2 ^ 32 \<and> j < 2 ^ 32 \<and> N i l = N j l' \<longrightarrow> i = j) \<and>
      (\<forall>S salt G ad e xs. Gcm_NewSegmentEncrypter S salt np G ad = Inr e \<longrightarrow>
         length (returned_segments (GcmEnc_ops S) e xs) \<le> 2 ^ 32 \<and>
         (\<forall>i pt l ct. i < length (returned_segments (GcmEnc_ops S) e xs) \<and> returned_segments (GcmEnc_ops S) e xs ! i = (pt, l, ct) \<longrightarrow>
            gcm_encrypted S e (N i l) pt ct))) \<and>
   (\<exists>N. (\<forall>i j l l'. i < 2 ^ 32 \<and> j < 2 ^ 32 \<and> N i l = N j l' \<longrightarrow> i = j) \<and>
      (\<forall>S fips salt G ad e xs. CtrHmac_NewSegmentEncrypter S fips salt np G ad = Inr e \<longrightarrow>
         length (returned_segments (CtrHmacEnc_ops S) e xs) \<le> 2 ^ 32 \<and>
         (\<forall>i pt l ct. i < length (returned_segments (CtrHmacEnc_ops S) e xs) \<and> returned_segments (CtrHmacEnc_ops S) e xs ! i = (pt, l, ct) \<longrightarrow>
            ctr_encrypted S e (N i l) pt ct)))"
proof -
  have g: "ge_segment_number e = 0" "ge_nonce_prefix e = np" if "Gcm_NewSegmentEncrypter S salt np G ad = Inr e" for S salt G ad e
    using that by (auto simp: Gcm_NewSegmentEncrypter_def GcmEnc_New_def split: sum.splits)
  have c: "ce_segment_number e = 0" "ce_nonce_prefix e = np" if "CtrHmac_NewSegmentEncrypter S fips salt np G ad = Inr e"
    for S fips salt G ad e
    using that by (auto simp: CtrHmac_NewSegmentEncrypter_def split: sum.splits)
  have gcm: "length (returned_segments (GcmEnc_ops S) e xs) \<le> 2 ^ 32 \<and>
      (\<forall>i pt l ct. i < length (returned_segments (GcmEnc_ops S) e xs) \<and> returned_segments (GcmEnc_ops S) e xs ! i = (pt, l, ct) \<longrightarrow>
         gcm_encrypted S e (ConstructNonce np (word_of_nat i) l) pt ct)"
    if e: "Gcm_NewSegmentEncrypter S salt np G ad = Inr e" for S salt G ad e xs
    using gcm_counting.returned_bound [of e S xs] gcm_counting.returned_nth [of _ S e xs] g [OF e] by simp
  have ctr: "length (returned_segments (CtrHmacEnc_ops S) e xs) \<le> 2 ^ 32 \<and>
      (\<forall>i pt l ct. i < length (returned_segments (CtrHmacEnc_ops S) e xs) \<and> returned_segments (CtrHmacEnc_ops S) e xs ! i = (pt, l, ct) \<longrightarrow>
         ctr_encrypted S e (NonceForSegment np i l) pt ct)"
    if e: "CtrHmac_NewSegmentEncrypter S fips salt np G ad = Inr e" for S fips salt G ad e xs
    using ctr_counting.returned_bound [of e S xs] ctr_counting.returned_nth [of _ S e xs] c [OF e] by simp
  show ?thesis
  proof (rule conjI)
    show "\<exists>N. (\<forall>i j l l'. i < 2 ^ 32 \<and> j < 2 ^ 32 \<and> N i l = N j l' \<longrightarrow> i = j) \<and>
      (\<forall>S salt G ad e xs. Gcm_NewSegmentEncrypter S salt np G ad = Inr e \<longrightarrow>
         length (returned_segments (GcmEnc_ops S) e xs) \<le> 2 ^ 32 \<and>
         (\<forall>i pt l ct. i < length (returned_segments (GcmEnc_ops S) e xs) \<and> returned_segments (GcmEnc_ops S) e xs ! i = (pt, l, ct) \<longrightarrow>
            gcm_encrypted S e (N i l) pt ct))"
      using gcm nonces_inj(1) by (intro exI [of _ "\<lambda>i. ConstructNonce np (word_of_nat i)"]) blast
    show "\<exists>N. (\<forall>i j l l'. i < 2 ^ 32 \<and> j < 2 ^ 32 \<and> N i l = N j l' \<longrightarrow> i = j) \<and>
      (\<forall>S fips salt G ad e xs. CtrHmac_NewSegmentEncrypter S fips salt np G ad = Inr e \<longrightarrow>
         length (returned_segments (CtrHmacEnc_ops S) e xs) \<le> 2 ^ 32 \<and>
         (\<forall>i pt l ct. i < length (returned_segments (CtrHmacEnc_ops S) e xs) \<and> returned_segments (CtrHmacEnc_ops S) e xs ! i = (pt, l, ct) \<longrightarrow>
            ctr_encrypted S e (N i l) pt ct))"
      using ctr nonces_inj(2) by (intro exI [of _ "NonceForSegment np"]) blast
  qed
qed

section \<open>What a decrypting stream accepts\<close>

text \<open>The ciphertext of a list of segments: each under its own number, and the last one, and only that, as last.\<close>

fun enc_segments :: "(nat \<Rightarrow> bool \<Rightarrow> bytes \<Rightarrow> bytes option) \<Rightarrow> nat \<Rightarrow> bytes list \<Rightarrow> bytes option" where
  "enc_segments E i [] = None"
| "enc_segments E i [s] = E i True s"
| "enc_segments E i (s # ss) = do { c \<leftarrow> E i False s; cs \<leftarrow> enc_segments E (Suc i) ss; Some (c @ cs) }"

text \<open>All segments but the last are full: the first has \<open>f\<close> bytes, the others \<open>p\<close>.\<close>

fun full_segments :: "nat \<Rightarrow> nat \<Rightarrow> bytes list \<Rightarrow> bool" where
  "full_segments f p [] = False"
| "full_segments f p [s] = (length s \<le> f)"
| "full_segments f p (s # ss) = (length s = f \<and> full_segments p p ss)"

lemma dec_from_accepts:
  assumes dec: "\<And>i lst c pt. D i lst c = Inr pt \<Longrightarrow> E i lst pt = Some c \<and> length c = length pt + ov"
    and err: "\<And>i lst c. D i lst c \<noteq> Inl kOutOfRange"
    and "0 < p" and "0 < f" and "dec_from D i (f + ov) (p + ov) e x = (pt, kOutOfRange)"
  shows "\<exists>segs c t. concat segs = pt \<and> full_segments f p segs \<and> enc_segments E i segs = Some c \<and> x = c @ t"
  using assms(4,5)
proof (induction "length x" arbitrary: i f x pt rule: less_induct)
  case less
  let ?f = "f + ov" and ?p = "p + ov"
  have last: "\<exists>segs c t. concat segs = pt \<and> full_segments f p segs \<and> enc_segments E i segs = Some c \<and> x = c @ t"
    if "D i True y = Inr pt" "length y \<le> ?f" "x = y @ t" for y t
  proof -
    from dec [OF that(1)] that(2) have "full_segments f p [pt]" "enc_segments E i [pt] = Some y" by auto
    with that(3) show ?thesis by (metis concat.simps(1,2) append_Nil2)
  qed
  show ?case
  proof (cases "length x < ?f")
    case True
    with less.prems obtain y where "D i True x = y" "e = kOutOfRange" "y = Inr pt"
      using err [of i True x] by (subst (asm) dec_from.simps) (auto split: if_splits sum.splits)
    with last [of x "[]"] True show ?thesis by simp
  next
    case False
    show ?thesis
    proof (cases "D i False (take ?f x)")
      case (Inl er)
      with less.prems False have "D i True (take ?f x) = Inr pt"
        using err [of i True "take ?f x"] by (subst (asm) dec_from.simps) (auto split: sum.splits)
      with last [of "take ?f x" "drop ?f x"] show ?thesis by simp
    next
      case (Inr s)
      obtain r e' where r: "dec_from D (Suc i) ?p ?p e (drop ?f x) = (r, e')" by fastforce
      with less.prems False Inr have pt: "pt = s @ r" "e' = kOutOfRange" by (subst (asm) dec_from.simps, simp)+
      have "length (drop ?f x) < length x" using False less.prems(1) by simp
      from less.hyps [OF this \<open>0 < p\<close> r [unfolded pt(2)]] obtain segs c t where
        h: "concat segs = r" "full_segments p p segs" "enc_segments E (Suc i) segs = Some c" "drop ?f x = c @ t" by blast
      from h(2) obtain s' ss where segs: "segs = s' # ss" by (cases segs) auto
      from dec [OF Inr] False have E: "E i False s = Some (take ?f x)" "length s = f" by auto
      have "enc_segments E i (s # segs) = Some (take ?f x @ c)" using E(1) h(3) by (simp add: segs)
      moreover have "full_segments f p (s # segs)" using E(2) h(2) by (simp add: segs)
      moreover have "x = (take ?f x @ c) @ t" using h(4) by (metis append.assoc append_take_drop_id)
      moreover have "concat (s # segs) = pt" using h(1) pt(1) by simp
      ultimately show ?thesis by blast
    qed
  qed
qed

text \<open>Opening succeeds only for what sealing the result gives.\<close>

definition aead_unique_laws :: "Ssl \<Rightarrow> bool" where
  "aead_unique_laws S \<longleftrightarrow>
     (\<forall>alg key iv ct ad pt. EVP_AEAD_CTX_open S alg key iv ct ad = Some pt \<longrightarrow> EVP_AEAD_CTX_seal S alg key iv pt ad = Some ct)"

lemma GcmDec_DecryptSegment_accepts:
  assumes S: "aead_open_laws S" "aead_unique_laws S" and a: "sa_tag_size a = 16" and d: "gc_state d = Some (np, a)"
    "gd_ciphertext_segment_size (gc_params d) = int p + 16" and ok: "GcmDec_DecryptSegment S c i lst d = Inr pt"
  shows "gcm_E S a np p i lst pt = Some c \<and> length c = length pt + 16"
proof -
  have l: "length c = length pt + 16" by (rule GcmDec_DecryptSegment_length [OF S(1) ok])
  from ok d have o: "EVP_AEAD_CTX_open S (sa_aead a) (sa_key a) (ConstructNonce np (word_of_nat i) lst) c [] = Some pt"
    "\<not> too_many_segments i lst" "length c \<le> p + 16"
    by (auto simp: GcmDec_DecryptSegment_def OneShot_Decrypt_def ConstructNonce_def split: if_splits option.splits)
  from o(1) S(2) have "EVP_AEAD_CTX_seal S (sa_aead a) (sa_key a) (ConstructNonce np (word_of_nat i) lst) pt [] = Some c"
    unfolding aead_unique_laws_def by blast
  with o l a show ?thesis by (simp add: gcm_E_def OneShot_Encrypt_def CiphertextSize_def)
qed

lemma GcmDec_DecryptSegment_error: "GcmDec_DecryptSegment S c i lst d \<noteq> Inl kOutOfRange"
  by (auto simp: GcmDec_DecryptSegment_def OneShot_Decrypt_def split: option.splits)

lemma ComputeHkdf_error: "ComputeHkdf S hash ikm salt ad n \<noteq> Inl kOutOfRange"
  by (auto simp: ComputeHkdf_def SslHkdf_def EvpHashFromHashType_def split: HashType.splits option.splits)

lemma CreateAesGcmOneShotCrypter_error: "CreateAesGcmOneShotCrypter S key \<noteq> Inl kOutOfRange"
  by (auto simp: CreateAesGcmOneShotCrypter_def GetAesGcmAeadForKeySize_def)

lemma GcmDec_Init_error: "fst (GcmDec_Init S h d) \<noteq> Inl kOutOfRange"
  using ComputeHkdf_error CreateAesGcmOneShotCrypter_error
  by (auto simp: GcmDec_Init_def Let_def split: sum.splits)

lemma dec_all_ok:
  assumes "dec_all sops d hs f p e x = (q, kOutOfRange)" and "fst (sd_Init sops (take hs x) d) \<noteq> Inl kOutOfRange"
  shows "\<exists>d'. hs \<le> length x \<and> sd_Init sops (take hs x) d = (OkStatus, d') \<and>
    dec_from (\<lambda>i lst c. sd_DecryptSegment sops c i lst d') 0 f p e (drop hs x) = (q, kOutOfRange)"
  using assms by (auto simp: dec_all_def split: if_splits prod.splits sum.splits)

lemma GcmDec_Init_ok:
  assumes "GcmDec_Init S h d = (OkStatus, d')"
  obtains key a where
    "ComputeHkdf S (gd_hkdf_hash (gc_params d)) (gd_ikm (gc_params d)) (take (nat (gd_derived_key_size (gc_params d))) (drop 1 h))
       (gd_associated_data (gc_params d)) (nat (gd_derived_key_size (gc_params d))) = Inr key"
    "CreateAesGcmOneShotCrypter S key = Inr a" "sa_tag_size a = 16" "gc_params d' = gc_params d"
    "gc_state d' = Some (take 7 (drop (1 + nat (gd_derived_key_size (gc_params d))) h), a)"
proof -
  from assms obtain key a where
    "ComputeHkdf S (gd_hkdf_hash (gc_params d)) (gd_ikm (gc_params d)) (take (nat (gd_derived_key_size (gc_params d))) (drop 1 h))
       (gd_associated_data (gc_params d)) (nat (gd_derived_key_size (gc_params d))) = Inr key"
    "CreateAesGcmOneShotCrypter S key = Inr a"
    "d' = d\<lparr>gc_state := Some (take 7 (drop (1 + nat (gd_derived_key_size (gc_params d))) h), a)\<rparr>"
    by (auto simp: GcmDec_Init_def Let_def split: if_splits sum.splits)
  then show ?thesis using that Create_tag_size(1) by simp
qed

lemma gcm_dec_new:
  assumes "Gcm_NewSegmentDecrypter G ad = Inr d" and S: "aead_open_laws S"
  obtains hs f p where "gcm_dec_inv S hs (f + 16) (p + 16) d" "0 < f" "0 < p" "int hs = 8 + gs_derived_key_size G"
    "int p = gs_ciphertext_segment_size G - 16" "int f = gs_ciphertext_segment_size G - 16 - gs_ciphertext_offset G - int hs"
    "gc_params d = \<lparr>gd_ikm = gs_ikm G, gd_hkdf_hash = gs_hkdf_hash G, gd_derived_key_size = gs_derived_key_size G,
        gd_ciphertext_offset = gs_ciphertext_offset G, gd_ciphertext_segment_size = gs_ciphertext_segment_size G,
        gd_associated_data = ad\<rparr>"
proof -
  let ?hs = "nat (8 + gs_derived_key_size G)" and ?p = "nat (gs_ciphertext_segment_size G - 16)"
  let ?f = "nat (gs_ciphertext_segment_size G - 16 - gs_ciphertext_offset G - int ?hs)"
  from assms(1) have d: "d = \<lparr>gc_params = \<lparr>gd_ikm = gs_ikm G, gd_hkdf_hash = gs_hkdf_hash G, gd_derived_key_size = gs_derived_key_size G,
        gd_ciphertext_offset = gs_ciphertext_offset G, gd_ciphertext_segment_size = gs_ciphertext_segment_size G,
        gd_associated_data = ad\<rparr>, gc_state = None\<rparr>"
    and v: "gs_derived_key_size G = 16 \<or> gs_derived_key_size G = 32" "0 \<le> gs_ciphertext_offset G"
      "gs_ciphertext_segment_size G > gs_ciphertext_offset G + 8 + gs_derived_key_size G + 16"
    by (auto simp: Gcm_NewSegmentDecrypter_def GcmDec_New_def GcmDec_Validate_def Let_def split: sum.splits if_splits)
  have "gcm_dec_inv S ?hs (?f + 16) (?p + 16) d" "0 < ?f" "0 < ?p" "int ?hs = 8 + gs_derived_key_size G"
    "int ?p = gs_ciphertext_segment_size G - 16" "int ?f = gs_ciphertext_segment_size G - 16 - gs_ciphertext_offset G - int ?hs"
    using v S unfolding d by (auto simp: gcm_dec_inv_def gc_get_header_size_def)
  then show ?thesis using d by (intro that [of ?hs ?f ?p]) simp_all
qed

text \<open>
  (C31) What a decrypting stream returns is authentic: if reading an AES-GCM-HKDF stream to its end gives some plaintext, then what
  the source contained is a header, followed by the segments of this plaintext, each sealed under the key derived from the
  header, under its own number, all but the last one full, and the last one, and only this, sealed as last. So segments cannot be
  reordered, dropped, duplicated or cut off. (Bytes after a last segment may remain in the source.)
\<close>

theorem gcm_stream_accepts:
  assumes S: "aead_open_laws S" "aead_unique_laws S"
    and dec: "NewDecryptingStream (GcmDec_ops S) (Gcm_NewSegmentDecrypter G ad) (Some (IstreamInputStream_new inp k)) = Inr r"
    and inp: "\<not> in_at_eof inp" "\<not> in_bad inp" and ns: "\<forall>n \<in> set ns. 0 < n"
    and rd: "read_all (Dec_ops (GcmDec_ops S) Istream_ops) ns r = Some (Inl kOutOfRange, pt, r')"
  shows "\<exists>h key a f p segs c t. in_rest inp = h @ c @ t \<and> int (length h) = 8 + gs_derived_key_size G \<and>
    ComputeHkdf S (gs_hkdf_hash G) (gs_ikm G) (take (nat (gs_derived_key_size G)) (drop 1 h)) ad (nat (gs_derived_key_size G)) = Inr key \<and>
    CreateAesGcmOneShotCrypter S key = Inr a \<and> int p = gs_ciphertext_segment_size G - 16 \<and>
    int f = int p - gs_ciphertext_offset G - int (length h) \<and> full_segments f p segs \<and> concat segs = pt \<and>
    enc_segments (gcm_E S a (drop (1 + nat (gs_derived_key_size G)) h) p) 0 segs = Some c"
proof -
  let ?e = "if in_fails inp then kInternal else kOutOfRange" and ?dk = "nat (gs_derived_key_size G)"
  from dec obtain d where d: "Gcm_NewSegmentDecrypter G ad = Inr d"
    "Dec_New (GcmDec_ops S) (Some d) (Some (IstreamInputStream_new inp k)) = Inr r"
    by (auto simp: NewDecryptingStream_def split: sum.splits)
  obtain hs f p where P: "gcm_dec_inv S hs (f + 16) (p + 16) d" "0 < f" "0 < p" "int hs = 8 + gs_derived_key_size G"
    "int p = gs_ciphertext_segment_size G - 16" "int f = gs_ciphertext_segment_size G - 16 - gs_ciphertext_offset G - int hs"
    "gc_params d = \<lparr>gd_ikm = gs_ikm G, gd_hkdf_hash = gs_hkdf_hash G, gd_derived_key_size = gs_derived_key_size G,
        gd_ciphertext_offset = gs_ciphertext_offset G, gd_ciphertext_segment_size = gs_ciphertext_segment_size G,
        gd_associated_data = ad\<rparr>" by (rule gcm_dec_new [OF d(1) S(1)]) (rule that)
  obtain q e where q: "dec_all (GcmDec_ops S) d hs (f + 16) (p + 16) ?e (in_rest inp) = (q, e)" by fastforce
  from gcm_in.dec.read_all_result [OF gcm_in.dec_rep_New [OF d(2) P(1) istream_rep_new [OF inp] q] ns] rd
  have e: "e = kOutOfRange" and pt: "pt = q" by (auto split: if_splits)
  let ?h = "take hs (in_rest inp)"
  obtain d' where len: "hs \<le> length (in_rest inp)" and i: "GcmDec_Init S ?h d = (OkStatus, d')" and
    f: "dec_from (\<lambda>i lst c. GcmDec_DecryptSegment S c i lst d') 0 (f + 16) (p + 16) ?e (drop hs (in_rest inp)) = (q, kOutOfRange)"
    using dec_all_ok [OF q [unfolded e]] GcmDec_Init_error unfolding GcmDec_ops_def by auto
  obtain key a where K: "ComputeHkdf S (gs_hkdf_hash G) (gs_ikm G) (take ?dk (drop 1 ?h)) ad ?dk = Inr key"
    "CreateAesGcmOneShotCrypter S key = Inr a" "sa_tag_size a = 16" "gc_params d' = gc_params d"
    "gc_state d' = Some (take 7 (drop (1 + ?dk) ?h), a)" using GcmDec_Init_ok [OF i] unfolding P(7) by auto
  have np: "take 7 (drop (1 + ?dk) ?h) = drop (1 + ?dk) ?h" using P(4) len by simp
  have "\<exists>segs c t. concat segs = q \<and> full_segments f p segs \<and>
      enc_segments (gcm_E S a (drop (1 + ?dk) ?h) p) 0 segs = Some c \<and> drop hs (in_rest inp) = c @ t"
  proof (rule dec_from_accepts [OF _ _ P(3,2) f])
    fix i lst c pt assume "GcmDec_DecryptSegment S c i lst d' = Inr pt"
    from GcmDec_DecryptSegment_accepts [OF S K(3,5) _ this, of p] K(4) P(5,7) np
    show "gcm_E S a (drop (1 + ?dk) ?h) p i lst pt = Some c \<and> length c = length pt + 16" by simp
  qed (rule GcmDec_DecryptSegment_error)
  then obtain segs c t where G: "concat segs = q" "full_segments f p segs"
    "enc_segments (gcm_E S a (drop (1 + ?dk) ?h) p) 0 segs = Some c" "drop hs (in_rest inp) = c @ t" by blast
  have "in_rest inp = ?h @ c @ t" using G(4) by (metis append_take_drop_id)
  moreover have "int (length ?h) = 8 + gs_derived_key_size G" "int f = int p - gs_ciphertext_offset G - int (length ?h)"
    using P(4,5,6) len by simp_all
  ultimately show ?thesis using K(1,2) P(5) G(1-3) pt by blast
qed

section \<open>Samples\<close>

lemma write_loop_Nil: "write_loop ops [] a u s = Some (Inr (a, u), s)"
  by (simp add: write_loop.simps)

lemma write_loop_step:
  assumes "c \<noteq> []"
  shows "write_loop ops c a u s =
     do {
       (r, s') \<leftarrow> os_Next ops s;
       (case r of
          Inl e \<Rightarrow> Some (Inl e, s')
        | Inr n \<Rightarrow> write_loop ops (drop (min n (length c)) c) n (min n (length c)) (os_Store ops (take (min n (length c)) c) s'))
     }"
  using assms by (subst write_loop.simps) simp

definition sample_gs :: AesGcmHkdfStreaming where
  "sample_gs = \<lparr>gs_ikm = replicate 16 3, gs_hkdf_hash = SHA256, gs_derived_key_size = 16, gs_ciphertext_segment_size = 43, gs_ciphertext_offset = 0\<rparr>"

definition sample_out :: ostream where
  "sample_out = \<lparr>os_written = [], os_accepts = (\<lambda>_. 1000), os_calls = 0, os_good = True, os_flushes = True\<rparr>"

lemma sample_ssl_stream_laws: "aead_open_laws sample_ssl" "aead_nonce_laws sample_ssl" "aead_unique_laws sample_ssl"
    apply (auto simp: aead_open_laws_def aead_nonce_laws_def aead_unique_laws_def sample_ssl_def pad_to_def split: if_splits)
  by (metis append_take_drop_id)

definition sample_header :: bytes where
  "sample_header = CreateHeader (replicate 16 1) (replicate 7 2)"

definition sample_tag :: "nat \<Rightarrow> bool \<Rightarrow> bytes" where
  "sample_tag i lst = pad_to 16 (ConstructNonce (replicate 7 2) (word_of_nat i) lst)"

lemma sample_lengths [simp]: "length sample_header = 24" "length (sample_tag i lst) = 16"
  by (simp_all add: sample_header_def sample_tag_def CreateHeader_def)

definition sample_gcm_aead :: SslOneShotAead where
  "sample_gcm_aead = \<lparr>sa_aead = EVP_aead_aes_128_gcm, sa_key = pad_to 16 (replicate 16 3 @ replicate 16 1 @ [9]), sa_tag_size = 16\<rparr>"

definition sample_encrypter :: "nat \<Rightarrow> GcmEncrypter" where
  "sample_encrypter i = \<lparr>ge_aead = sample_gcm_aead, ge_nonce_prefix = replicate 7 2, ge_header = sample_header,
     ge_ciphertext_segment_size = 43, ge_ciphertext_offset = 0, ge_segment_number = i\<rparr>"

lemma sample_new: "Gcm_NewSegmentEncrypter sample_ssl (replicate 16 1) (replicate 7 2) sample_gs [9] = Inr (sample_encrypter 0)"
  by (simp add: Gcm_NewSegmentEncrypter_def ComputeHkdf_def EvpHashFromHashType_def SslHkdf_def GcmEnc_New_def GcmEnc_Validate_def
      CreateAesGcmOneShotCrypter_def GetAesGcmAeadForKeySize_def sample_encrypter_def sample_gcm_aead_def sample_header_def
      sample_gs_def sample_ssl_def)

lemma sample_encrypt:
  "length pt \<le> 27 \<Longrightarrow> i < 2 ^ 32 - 1 \<Longrightarrow>
   GcmEnc_EncryptSegment sample_ssl pt lst (sample_encrypter i) = (Inr (pt @ sample_tag i lst), sample_encrypter (Suc i))"
  by (simp add: GcmEnc_EncryptSegment_def ge_get_plaintext_segment_size_def too_many_segments_def OneShot_Encrypt_def CiphertextSize_def
      sample_encrypter_def sample_gcm_aead_def sample_tag_def sample_ssl_def)

definition sample_stream :: "(GcmEncrypter, OstreamOutputStream) EncStream" where
  "sample_stream = \<lparr>es_segment_encrypter = sample_encrypter 0, es_ct_destination = OstreamOutputStream_new sample_out 100,
     es_pt_buffer = [0, 0, 0], es_pt_to_encrypt = [], es_position = 0, es_is_first_segment = True, es_count_backedup = 3,
     es_pt_buffer_offset = 0, es_status = OkStatus\<rparr>"

lemma sample_stream_new:
  "NewEncryptingStream (GcmEnc_ops sample_ssl) (Gcm_NewSegmentEncrypter sample_ssl (replicate 16 1) (replicate 7 2) sample_gs [9])
     (Some (OstreamOutputStream_new sample_out 100)) = Inr sample_stream"
  unfolding sample_new
  by (simp add: NewEncryptingStream_def Enc_New_def GcmEnc_ops_def ge_get_plaintext_segment_size_def vector_resize_def
      sample_stream_def sample_encrypter_def) (simp add: numeral_eq_Suc)

text \<open>Writing to an ostream adapter whose buffer is large enough only fills the buffer.\<close>

definition out_state :: "bytes \<Rightarrow> nat \<Rightarrow> OstreamOutputStream" where
  "out_state w k =
     \<lparr>oo_buffer_size = 100, oo_output = sample_out, oo_buffer = Some (w @ replicate (100 - length w) 0), oo_count_in_buffer = length w,
      oo_count_backedup = 100 - length w, oo_position = int (length w), oo_buffer_offset = k, oo_status = OkStatus\<rparr>"

lemma out_first:
  assumes "0 < length x" and "length x < 100"
  shows "WriteToStream Ostream_ops x (OstreamOutputStream_new sample_out 100) = Some (OkStatus, out_state x 0)"
proof -
  have x: "x \<noteq> []" using assms(1) by auto
  have m: "min 100 (length x) = length x" using assms(2) by simp
  have "write_loop Ostream_ops x 0 0 (OstreamOutputStream_new sample_out 100) =
      write_loop Ostream_ops [] 100 (length x)
        \<lparr>oo_buffer_size = 100, oo_output = sample_out, oo_buffer = Some (x @ replicate (100 - length x) 0), oo_count_in_buffer = 100,
         oo_count_backedup = 0, oo_position = 100, oo_buffer_offset = 0, oo_status = OkStatus\<rparr>"
    unfolding write_loop_step [OF x]
    by (simp add: Ostream_ops_def OstreamOutputStream_Next_def OstreamOutputStream_new_def OstreamOutputStream_Store_def m)
  then show ?thesis using assms
    by (auto simp: WriteToStream_def write_loop_Nil Ostream_ops_def OstreamOutputStream_BackUp_def out_state_def Let_def)
qed

lemma out_more:
  assumes "0 < length x" and "length w + length x < 100"
  shows "WriteToStream Ostream_ops x (out_state w k) = Some (OkStatus, out_state (w @ x) (length w))"
proof -
  have x: "x \<noteq> []" using assms(1) by auto
  let ?n = "100 - length w"
  have m: "min ?n (length x) = length x" "0 < ?n" using assms(2) by simp_all
  have "write_loop Ostream_ops x 0 0 (out_state w k) =
      write_loop Ostream_ops [] ?n (length x)
        \<lparr>oo_buffer_size = 100, oo_output = sample_out, oo_buffer = Some (w @ x @ replicate (?n - length x) 0), oo_count_in_buffer = 100,
         oo_count_backedup = 0, oo_position = 100, oo_buffer_offset = length w, oo_status = OkStatus\<rparr>"
    unfolding write_loop_step [OF x] using m
    by (simp add: Ostream_ops_def OstreamOutputStream_Next_def OstreamOutputStream_Store_def out_state_def)
  then show ?thesis using assms
    by (auto simp: WriteToStream_def write_loop_Nil Ostream_ops_def OstreamOutputStream_BackUp_def out_state_def Let_def nat_diff_distrib)
qed

lemma out_close:
  "0 < length w \<Longrightarrow> length w < 100 \<Longrightarrow>
   \<exists>s'. OstreamOutputStream_Close (out_state w k) = (OkStatus, s') \<and> os_written (oo_output s') = w"
  by (simp add: OstreamOutputStream_Close_def out_state_def Let_def ostream_write_def sputn_def ostream_flush_def sample_out_def)

lemma sample_encrypter_ops [simp]:
  "se_get_header (GcmEnc_ops S) (sample_encrypter i) = sample_header"
  "se_get_plaintext_segment_size (GcmEnc_ops S) (sample_encrypter i) = 27"
  "se_get_ciphertext_offset (GcmEnc_ops S) (sample_encrypter i) = 0"
  "se_EncryptSegment (GcmEnc_ops S) pt lst e = GcmEnc_EncryptSegment S pt lst e"
  by (simp_all add: GcmEnc_ops_def sample_encrypter_def ge_get_plaintext_segment_size_def)

lemma Enc_ops_simps [simp]:
  "os_Next (Enc_ops sops dops) = Enc_Next sops dops" "os_Store (Enc_ops sops dops) = Enc_Store"
  "os_BackUp (Enc_ops sops dops) = Enc_BackUp" "os_Close (Enc_ops sops dops) = Enc_Close sops dops"
  by (simp_all add: Enc_ops_def)

lemma os_Close_Ostream: "os_Close Ostream_ops s = Some (OstreamOutputStream_Close s)"
  by (simp add: Ostream_ops_def)

definition sample_ciphertext :: bytes where
  "sample_ciphertext = sample_header @ [1, 2, 3] @ sample_tag 0 False @ [4, 5] @ sample_tag 1 True"

definition sample_written :: "(GcmEncrypter, OstreamOutputStream) EncStream" where
  "sample_written = \<lparr>es_segment_encrypter = sample_encrypter 0, es_ct_destination = out_state sample_header 0,
     es_pt_buffer = [4, 5] @ replicate 25 0, es_pt_to_encrypt = [1, 2, 3], es_position = 5, es_is_first_segment = False, es_count_backedup = 25,
     es_pt_buffer_offset = 0, es_status = OkStatus\<rparr>"

lemma sample_write:
  "WriteToStream (Enc_ops (GcmEnc_ops sample_ssl) Ostream_ops) [1, 2, 3, 4, 5] sample_stream = Some (OkStatus, sample_written)"
  by (simp add: WriteToStream_def write_loop_step write_loop_Nil Enc_Next_def Enc_write_header_def Enc_Store_def Enc_BackUp_def
      sample_stream_def sample_written_def out_first [unfolded WriteToStream_def] vector_resize_def Let_def)

lemma sample_write_segment:
  assumes "es_segment_encrypter s = sample_encrypter i" and "es_ct_destination s = out_state w k" and "length pt \<le> 27" and "i < 2 ^ 32 - 1"
    and "length w + length pt < 84"
  shows "Enc_write_segment (GcmEnc_ops sample_ssl) Ostream_ops pt lst s =
    Some (OkStatus, s\<lparr>es_segment_encrypter := sample_encrypter (Suc i), es_ct_destination := out_state (w @ pt @ sample_tag i lst) (length w),
      es_status := OkStatus\<rparr>)"
  using assms by (simp add: Enc_write_segment_def sample_encrypt out_more)

lemma sample_close:
  "\<exists>s'. Enc_Close (GcmEnc_ops sample_ssl) Ostream_ops sample_written = Some (OkStatus, s') \<and>
        os_written (oo_output (es_ct_destination s')) = sample_ciphertext"
proof -
  let ?h = "sample_header @ [1, 2, 3] @ sample_tag 0 False"
  obtain d where d: "OstreamOutputStream_Close (out_state (?h @ [4, 5] @ sample_tag (Suc 0) True) (length ?h)) = (OkStatus, d)"
    "os_written (oo_output d) = ?h @ [4, 5] @ sample_tag (Suc 0) True"
    using out_close [of "?h @ [4, 5] @ sample_tag (Suc 0) True" "length ?h"] by auto
  then show ?thesis
    by (simp add: Enc_Close_def Enc_finish_def Enc_or_close_def Enc_close_destination_def sample_write_segment
        sample_written_def vector_resize_def Let_def sample_ciphertext_def os_Close_Ostream)
qed

definition sample_in :: istream where
  "sample_in = \<lparr>in_rest = sample_ciphertext, in_fails = False, in_at_eof = False, in_bad = False\<rparr>"

lemma sample_stream_written:
  "\<exists>s'. write_all (Enc_ops (GcmEnc_ops sample_ssl) Ostream_ops) [[1, 2, 3, 4, 5]] sample_stream = Some (OkStatus, s') \<and>
        os_written (oo_output (es_ct_destination s')) = os_written sample_out @ in_rest sample_in"
  using sample_close by (simp add: sample_write sample_out_def sample_in_def)

lemma sample_reader:
  "\<exists>r. NewDecryptingStream (GcmDec_ops sample_ssl) (Gcm_NewSegmentDecrypter sample_gs [9]) (Some (IstreamInputStream_new sample_in 64)) = Inr r"
  by (simp add: NewDecryptingStream_def Gcm_NewSegmentDecrypter_def GcmDec_New_def GcmDec_Validate_def sample_gs_def Dec_New_def GcmDec_ops_def
      gc_get_header_size_def)

lemma sample_in_good: "\<not> in_fails sample_in" "\<not> in_at_eof sample_in" "\<not> in_bad sample_in"
  by (simp_all add: sample_in_def)

theorem gcm_stream_roundtrip_witness:
  "\<exists>r r'. NewDecryptingStream (GcmDec_ops sample_ssl) (Gcm_NewSegmentDecrypter sample_gs [9]) (Some (IstreamInputStream_new sample_in 64)) = Inr r \<and>
     read_all (Dec_ops (GcmDec_ops sample_ssl) Istream_ops) [4, 7] r = Some (Inl kOutOfRange, [1, 2, 3, 4, 5], r')"
proof -
  obtain s' where w: "write_all (Enc_ops (GcmEnc_ops sample_ssl) Ostream_ops) [[1, 2, 3, 4, 5]] sample_stream = Some (OkStatus, s')"
    "os_written (oo_output (es_ct_destination s')) = os_written sample_out @ in_rest sample_in" using sample_stream_written by blast
  obtain r where r: "NewDecryptingStream (GcmDec_ops sample_ssl) (Gcm_NewSegmentDecrypter sample_gs [9]) (Some (IstreamInputStream_new sample_in 64)) = Inr r"
    using sample_reader by blast
  from gcm_stream_roundtrip [OF sample_ssl_laws(1) sample_ssl_stream_laws(1,2) _ _ sample_stream_new r w sample_in_good, of "[4, 7]"] r
  show ?thesis by (simp add: sample_gs_def)
qed

theorem gcm_stream_accepts_witness:
  "\<exists>r r'. NewDecryptingStream (GcmDec_ops sample_ssl) (Gcm_NewSegmentDecrypter sample_gs [9]) (Some (IstreamInputStream_new sample_in 64)) = Inr r \<and>
     read_all (Dec_ops (GcmDec_ops sample_ssl) Istream_ops) [4, 7] r = Some (Inl kOutOfRange, [1, 2, 3, 4, 5], r') \<and>
     (\<exists>h segs c t. in_rest sample_in = h @ c @ t \<and> length h = 24 \<and> full_segments 3 27 segs \<and> concat segs = [1, 2, 3, 4, 5])"
proof -
  obtain s' where w: "write_all (Enc_ops (GcmEnc_ops sample_ssl) Ostream_ops) [[1, 2, 3, 4, 5]] sample_stream = Some (OkStatus, s')"
    "os_written (oo_output (es_ct_destination s')) = os_written sample_out @ in_rest sample_in" using sample_stream_written by blast
  obtain r where r: "NewDecryptingStream (GcmDec_ops sample_ssl) (Gcm_NewSegmentDecrypter sample_gs [9]) (Some (IstreamInputStream_new sample_in 64)) = Inr r"
    using sample_reader by blast
  from gcm_written_rep [OF sample_ssl_laws(1) sample_ssl_stream_laws(1,2) _ _ sample_stream_new r w sample_in_good] obtain hs f p
    where "gcm_in.dec_rep sample_ssl hs f p r [] [1, 2, 3, 4, 5] kOutOfRange" by (auto simp: sample_gs_def)
  from gcm_in.dec.read_all_result [OF this, of "[4, 7]"] obtain r' where
    rd: "read_all (Dec_ops (GcmDec_ops sample_ssl) Istream_ops) [4, 7] r = Some (Inl kOutOfRange, [1, 2, 3, 4, 5], r')" by auto
  obtain h f p segs c t where "in_rest sample_in = h @ c @ t" "int (length h) = 8 + gs_derived_key_size sample_gs"
    "int p = gs_ciphertext_segment_size sample_gs - 16" "int f = int p - gs_ciphertext_offset sample_gs - int (length h)"
    "full_segments f p segs" "concat segs = [1, 2, 3, 4, 5]"
    using gcm_stream_accepts [OF sample_ssl_stream_laws(1,3) r sample_in_good(2,3) _ rd] by auto
  moreover from this have "length h = 24" "f = 3" "p = 27" by (simp_all add: sample_gs_def)
  ultimately show ?thesis using r rd by blast
qed

theorem stream_encryption_returns_witness:
  "\<exists>r s'. write_all (Enc_ops (GcmEnc_ops sample_ssl) Ostream_ops) [replicate 100 7, [], [8]] sample_stream = Some (r, s')"
proof -
  have "\<forall>j. 0 < os_accepts sample_out j" "length (replicate 7 2 :: bytes) = 7" by (simp_all add: sample_out_def)
  from stream_encryption_returns [OF this, of 100] sample_stream_new show ?thesis by blast
qed

theorem segment_nonces_distinct_witness:
  "\<exists>N :: nat \<Rightarrow> bool \<Rightarrow> bytes. (\<forall>i j l l'. i < 2 ^ 32 \<and> j < 2 ^ 32 \<and> N i l = N j l' \<longrightarrow> i = j) \<and>
     gcm_encrypted sample_ssl (sample_encrypter 0) (N 1 True) [2] ([2] @ sample_tag 1 True)"
proof -
  have r: "returned_segments (GcmEnc_ops sample_ssl) (sample_encrypter 0) [([1], False), ([2], True)] ! 1 = ([2], True, [2] @ sample_tag 1 True)"
    "1 < length (returned_segments (GcmEnc_ops sample_ssl) (sample_encrypter 0) [([1], False), ([2], True)])"
    by (simp_all add: sample_encrypt)
  from segment_nonces_distinct [THEN conjunct1, of "replicate 7 2"] obtain N :: "nat \<Rightarrow> bool \<Rightarrow> bytes"
    where "\<forall>i j l l'. i < 2 ^ 32 \<and> j < 2 ^ 32 \<and> N i l = N j l' \<longrightarrow> i = j"
      "\<forall>S salt G ad e xs. Gcm_NewSegmentEncrypter S salt (replicate 7 2) G ad = Inr e \<longrightarrow>
         length (returned_segments (GcmEnc_ops S) e xs) \<le> 2 ^ 32 \<and>
         (\<forall>i pt l ct. i < length (returned_segments (GcmEnc_ops S) e xs) \<and> returned_segments (GcmEnc_ops S) e xs ! i = (pt, l, ct) \<longrightarrow>
            gcm_encrypted S e (N i l) pt ct)"
    by (elim exE conjE)
  with r sample_new show ?thesis by blast
qed

definition sample_cs :: AesCtrHmacStreaming where
  "sample_cs = \<lparr>cs_ikm = replicate 16 3, cs_hkdf_algo = SHA256, cs_key_size = 16, cs_ciphertext_segment_size = 43, cs_ciphertext_offset = 0,
     cs_tag_algo = SHA256, cs_tag_size = 16\<rparr>"

definition sample_cs_header :: bytes where
  "sample_cs_header = MakeHeader (replicate 16 1) (replicate 7 2)"

definition sample_cs_mac :: HmacBoringSsl where
  "sample_cs_mac = \<lparr>hm_hash_type = SHA256, hm_tag_size = 16, hm_key = drop 16 (pad_to 48 (replicate 16 3 @ replicate 16 1 @ [9]))\<rparr>"

definition sample_cs_encrypter :: "nat \<Rightarrow> CtrHmacEncrypter" where
  "sample_cs_encrypter i = \<lparr>ce_key_value = replicate 16 3, ce_header = sample_cs_header,
     ce_nonce_prefix = replicate 7 2, ce_ciphertext_segment_size = 43, ce_ciphertext_offset = 0, ce_tag_size = 16, ce_mac = sample_cs_mac,
     ce_segment_number = i\<rparr>"

definition sample_cs_stream :: "(CtrHmacEncrypter, OstreamOutputStream) EncStream" where
  "sample_cs_stream = \<lparr>es_segment_encrypter = sample_cs_encrypter 0, es_ct_destination = OstreamOutputStream_new sample_out 100,
     es_pt_buffer = [0, 0, 0], es_pt_to_encrypt = [], es_position = 0, es_is_first_segment = True, es_count_backedup = 3,
     es_pt_buffer_offset = 0, es_status = OkStatus\<rparr>"

definition sample_cs_in :: istream where
  "sample_cs_in = \<lparr>in_rest = sample_cs_header @ [1, 2] @ [1, 0, 0, 0, 0, 2, 2, 2, 2, 2, 2, 2, 0, 0, 0, 0],
     in_fails = False, in_at_eof = False, in_bad = False\<rparr>"

lemma sample_last_tag: "last_tag_differs sample_ssl sample_cs (replicate 16 1) (replicate 7 2) [9] [1, 2]"
proof -
  have l: "last_segment 0 (nat (27 - 0 - (8 + 16))) (nat 27) [1, 2] = (0, [1, 2])" by (subst last_segment.simps) simp
  have "take 16 t ! 0 = b" if "ssl_HMAC sample_ssl SHA256 hkey (NonceForSegment (replicate 7 2) 0 l @ ct) = Some t" "b = (if l then 1 else 0)"
    for hkey l ct t b
    using that by (auto simp: sample_ssl_def NonceForSegment_def StoreBigEndian32_def pad_to_def)
  from this [of _ True _ _ 1] this [of _ False _ _ 0] have "take 16 t \<noteq> take 16 t'"
    if "ssl_HMAC sample_ssl SHA256 hkey (NonceForSegment (replicate 7 2) 0 True @ ct) = Some t"
      "ssl_HMAC sample_ssl SHA256 hkey (NonceForSegment (replicate 7 2) 0 False @ ct) = Some t'" for hkey ct t t'
    using that by (metis zero_neq_one)
  then show ?thesis using l by (auto simp: last_tag_differs_def sample_cs_def)
qed

lemma sample_cs_new:
  "NewEncryptingStream (CtrHmacEnc_ops sample_ssl)
     (CtrHmac_NewSegmentEncrypter sample_ssl (\<lambda>_. OkStatus) (replicate 16 1) (replicate 7 2) sample_cs [9])
     (Some (OstreamOutputStream_new sample_out 100)) = Inr sample_cs_stream"
proof -
  have "CtrHmac_NewSegmentEncrypter sample_ssl (\<lambda>_. OkStatus) (replicate 16 1) (replicate 7 2) sample_cs [9] = Inr (sample_cs_encrypter 0)"
    by (simp add: CtrHmac_NewSegmentEncrypter_def CtrHmac_Validate_def DeriveKeys_def ComputeHkdf_def EvpHashFromHashType_def SslHkdf_def
        HmacBoringSsl_New_def sample_cs_def sample_ssl_def sample_cs_encrypter_def sample_cs_mac_def sample_cs_header_def pad_to_def)
  then show ?thesis
    by (simp add: NewEncryptingStream_def Enc_New_def CtrHmacEnc_ops_def vector_resize_def sample_cs_encrypter_def MakeHeader_def
        sample_cs_header_def sample_cs_stream_def numeral_eq_Suc)
qed
lemma sample_cs_ops [simp]:
  "se_get_header (CtrHmacEnc_ops S) (sample_cs_encrypter i) = sample_cs_header"
  "se_get_plaintext_segment_size (CtrHmacEnc_ops S) (sample_cs_encrypter i) = 27"
  "se_EncryptSegment (CtrHmacEnc_ops S) pt lst e = CtrHmac_EncryptSegment S pt lst e"
  "length (sample_cs_header) = 24"
  by (simp_all add: CtrHmacEnc_ops_def sample_cs_encrypter_def MakeHeader_def sample_cs_header_def)

lemma sample_cs_encrypt:
  "CtrHmac_EncryptSegment sample_ssl [1, 2] True (sample_cs_encrypter 0) =
     (Inr ([1, 2] @ [1, 0, 0, 0, 0, 2, 2, 2, 2, 2, 2, 2, 0, 0, 0, 0]), sample_cs_encrypter 1)"
proof -
  have n: "NonceForSegment (replicate 7 2) 0 True = [2, 2, 2, 2, 2, 2, 2, 0, 0, 0, 0, 1, 0, 0, 0, 0]" by code_simp
  have p: "pad_to 32 [1, 0, 0, 0, 0, 2, 2, 2, 2, 2, 2, 2] = [1, 0, 0, 0, 0, 2, 2, 2, 2, 2, 2, 2, 0, 0, 0, 0] @ replicate 16 0"
    by code_simp
  have "ctr_crypt (ssl_ctr_Encrypt sample_ssl) (replicate 16 3) nonce [1, 2] = Inr [1, 2]" for nonce
    by (simp add: ctr_crypt_def GetAesCtrCipherForKeySize_def sample_ssl_def)
  moreover have "ComputeMac sample_ssl sample_cs_mac (NonceForSegment (replicate 7 2) 0 True @ [1, 2]) =
      Inr [1, 0, 0, 0, 0, 2, 2, 2, 2, 2, 2, 2, 0, 0, 0, 0]"
    unfolding n by (simp add: ComputeMac_def EvpHashFromHashType_def sample_cs_mac_def sample_ssl_def p)
  ultimately show ?thesis
    by (simp add: CtrHmac_EncryptSegment_def sample_cs_encrypter_def too_many_segments_def Let_def)
qed

definition sample_cs_end :: "(CtrHmacEncrypter, OstreamOutputStream) EncStream" where
  "sample_cs_end = \<lparr>es_segment_encrypter = sample_cs_encrypter 0, es_ct_destination = out_state sample_cs_header 0,
     es_pt_buffer = [1, 2, 0], es_pt_to_encrypt = [], es_position = 2, es_is_first_segment = False, es_count_backedup = 1,
     es_pt_buffer_offset = 0, es_status = OkStatus\<rparr>"

lemma sample_cs_write:
  "WriteToStream (Enc_ops (CtrHmacEnc_ops sample_ssl) Ostream_ops) [1, 2] sample_cs_stream = Some (OkStatus, sample_cs_end)"
  by (simp add: WriteToStream_def write_loop_step write_loop_Nil Enc_Next_def Enc_write_header_def Enc_Store_def Enc_BackUp_def
      sample_cs_stream_def sample_cs_end_def out_first [unfolded WriteToStream_def] Let_def)

lemma sample_cs_written:
  "\<exists>s'. write_all (Enc_ops (CtrHmacEnc_ops sample_ssl) Ostream_ops) [[1, 2]] sample_cs_stream = Some (OkStatus, s') \<and>
        os_written (oo_output (es_ct_destination s')) = os_written sample_out @ in_rest sample_cs_in"
proof -
  let ?c = "[1, 2] @ [1, 0, 0, 0, 0, 2, 2, 2, 2, 2, 2, 2, 0, 0, 0, 0] :: bytes"
  obtain d where d: "OstreamOutputStream_Close (out_state (sample_cs_header @ ?c) (length sample_cs_header)) = (OkStatus, d)"
    "os_written (oo_output d) = sample_cs_header @ ?c" using out_close [of "sample_cs_header @ ?c" "length sample_cs_header"] by auto
  have "vector_resize (Suc (Suc 0)) [1, 2, 0] = [1, 2]" by (simp add: vector_resize_def)
  with d show ?thesis
    by (simp add: sample_cs_write Enc_Close_def Enc_finish_def Enc_or_close_def Enc_close_destination_def Enc_write_segment_def
        sample_cs_encrypt out_more os_Close_Ostream Let_def sample_cs_end_def sample_out_def sample_cs_in_def)
qed

theorem ctr_hmac_stream_roundtrip_witness:
  "\<exists>r r'. NewDecryptingStream (CtrHmacDec_ops sample_ssl (\<lambda>_. OkStatus)) (CtrHmac_NewSegmentDecrypter sample_cs [9])
       (Some (IstreamInputStream_new sample_cs_in 64)) = Inr r \<and>
     read_all (Dec_ops (CtrHmacDec_ops sample_ssl (\<lambda>_. OkStatus)) Istream_ops) [1, 7] r = Some (Inl kOutOfRange, [1, 2], r')"
proof -
  obtain s' where w: "write_all (Enc_ops (CtrHmacEnc_ops sample_ssl) Ostream_ops) [[1, 2]] sample_cs_stream = Some (OkStatus, s')"
    "os_written (oo_output (es_ct_destination s')) = os_written sample_out @ in_rest sample_cs_in" using sample_cs_written by blast
  obtain r where r: "NewDecryptingStream (CtrHmacDec_ops sample_ssl (\<lambda>_. OkStatus)) (CtrHmac_NewSegmentDecrypter sample_cs [9])
      (Some (IstreamInputStream_new sample_cs_in 64)) = Inr r"
    by (simp add: NewDecryptingStream_def CtrHmac_NewSegmentDecrypter_def CtrHmac_Validate_def sample_cs_def Dec_New_def CtrHmacDec_ops_def
        cd_get_header_size_def)
  from ctr_hmac_stream_roundtrip [OF sample_ssl_laws(2,3) _ _ _ sample_cs_new r w, of "[1, 7]"] r
  show ?thesis using sample_last_tag by (simp add: sample_cs_def sample_cs_in_def)
qed

end
