(* ===== verification/Random_Access.thy ===== *)
theory Random_Access
  imports Streaming_Segments
begin

text \<open>
  Random access to encrypted streams (\<^verbatim>\<open>tink/subtle/decrypting_random_access_stream.cc\<close>,
  \<^verbatim>\<open>tink/util/buffer.cc\<close>, \<^verbatim>\<open>tink/util/file_random_access_stream.cc\<close>). A
  \<^verbatim>\<open>RandomAccessStream\<close> is a record of operations over the state of the stream; its contract, for a stream
  that holds fixed bytes, is a locale. Files satisfy it, and the decrypting stream over any source that does satisfies it for
  the plaintext. So what was written through an encrypting stream can be read at any position.

  A \<^verbatim>\<open>Buffer\<close> is its memory block and the size in use; callers pass existing buffers, so the tests for null have no
  counterpart. \<^verbatim>\<open>int\<close> values are mathematical integers except where the source tests for overflow of 64-bit values,
  which wrap around (\<open>int64\<close>).
\<close>

section \<open>Definitions\<close>

subsection \<open>Buffers\<close>

record Buffer =
  b_mem_block :: bytes
  b_size :: nat

definition allocated_size :: "Buffer \<Rightarrow> int" where
  "allocated_size b = int (length (b_mem_block b))"

definition Buffer_New :: "int \<Rightarrow> Buffer StatusOr" where
  "Buffer_New n = (if n \<le> 0 then Inl kInvalidArgument else Inr \<lparr>b_mem_block = replicate (nat n) 0, b_size = nat n\<rparr>)"

definition Buffer_NewNonOwning :: "bytes option \<Rightarrow> int \<Rightarrow> Buffer StatusOr" where
  "Buffer_NewNonOwning mem_block n =
     (if n \<le> 0 then Inl kInvalidArgument
      else case mem_block of
             None \<Rightarrow> Inl kInvalidArgument
           | Some mem \<Rightarrow> Inr \<lparr>b_mem_block = take (nat n) mem, b_size = nat n\<rparr>)"

definition set_size :: "int \<Rightarrow> Buffer \<Rightarrow> Status \<times> Buffer" where
  "set_size new_size b =
     (if new_size < 0 \<or> new_size > allocated_size b then (Inl kInvalidArgument, b)
      else (OkStatus, b\<lparr>b_size := nat new_size\<rparr>))"

text \<open>Bytes copied into the memory block, and the bytes in use.\<close>

definition copy_to :: "nat \<Rightarrow> bytes \<Rightarrow> Buffer \<Rightarrow> Buffer" where
  "copy_to offset bs b =
     b\<lparr>b_mem_block := take offset (b_mem_block b) @ bs @ drop (offset + length bs) (b_mem_block b)\<rparr>"

definition buffer_bytes :: "Buffer \<Rightarrow> bytes" where
  "buffer_bytes b = take (b_size b) (b_mem_block b)"

subsection \<open>Random access streams\<close>

record 's RandomAccess =
  ra_PRead :: "int \<Rightarrow> int \<Rightarrow> Buffer \<Rightarrow> 's \<Rightarrow> ((Status \<times> Buffer) \<times> 's) option"
  ra_size :: "'s \<Rightarrow> (int StatusOr \<times> 's) option"

text \<open>
  A file: its bytes, how many of them one call of \<^verbatim>\<open>pread\<close> returns at most, and whether \<^verbatim>\<open>pread\<close> or
  \<^verbatim>\<open>fstat\<close> fail.
\<close>

record FileRandomAccessStream =
  rf_contents :: bytes
  rf_limit :: nat
  rf_error :: bool
  rf_no_size :: bool

definition pread :: "nat \<Rightarrow> nat \<Rightarrow> FileRandomAccessStream \<Rightarrow> bytes option" where
  "pread cnt position file =
     (if rf_error file then None else Some (take (min cnt (rf_limit file)) (drop position (rf_contents file))))"

definition File_PRead :: "int \<Rightarrow> int \<Rightarrow> Buffer \<Rightarrow> FileRandomAccessStream \<Rightarrow> Status \<times> Buffer" where
  "File_PRead position cnt dest_buffer file =
     (if cnt \<le> 0 then (Inl kInvalidArgument, dest_buffer)
      else if cnt > allocated_size dest_buffer then (Inl kInvalidArgument, dest_buffer)
      else if position < 0 then (Inl kInvalidArgument, dest_buffer)
      else
        let (st, buf) = set_size cnt dest_buffer
        in case st of
             Inl e \<Rightarrow> (Inl e, buf)
           | Inr _ \<Rightarrow>
               (case pread (nat cnt) (nat position) file of
                  None \<Rightarrow> (Inl kUnknown, snd (set_size 0 buf))
                | Some [] \<Rightarrow> (Inl kOutOfRange, snd (set_size 0 buf))
                | Some bs \<Rightarrow> set_size (int (length bs)) (copy_to 0 bs buf)))"

definition File_size :: "FileRandomAccessStream \<Rightarrow> int StatusOr" where
  "File_size file = (if rf_no_size file then Inl kUnavailable else Inr (int (length (rf_contents file))))"

definition File_ops :: "FileRandomAccessStream RandomAccess" where
  "File_ops =
     \<lparr>ra_PRead = (\<lambda>position cnt buf file. Some (File_PRead position cnt buf file, file)),
      ra_size = (\<lambda>file. Some (File_size file, file))\<rparr>"

subsection \<open>The decrypting random access stream\<close>

definition int64 :: "int \<Rightarrow> int" where
  "int64 i = signed_take_bit 63 i"

record ('e, 's) DecRandomAccess =
  dr_segment_decrypter :: 'e
  dr_ct_source :: 's
  dr_status :: Status
  dr_header_size :: int
  dr_ct_offset :: int
  dr_ct_segment_size :: int
  dr_pt_segment_size :: int
  dr_ct_segment_overhead :: int
  dr_segment_count :: int
  dr_pt_size :: int

definition DecRA_New :: "'e SegmentDecrypter \<Rightarrow> 'e option \<Rightarrow> 's option \<Rightarrow> ('e, 's) DecRandomAccess StatusOr" where
  "DecRA_New sops dec_opt ciphertext_source =
     (case dec_opt of
        None \<Rightarrow> Inl kInvalidArgument
      | Some dec \<Rightarrow>
          (case ciphertext_source of
             None \<Rightarrow> Inl kInvalidArgument
           | Some src \<Rightarrow>
               if sd_get_ciphertext_offset sops dec < 0 then Inl kInvalidArgument
               else if sd_get_plaintext_segment_size sops dec - sd_get_ciphertext_offset sops dec - sd_get_header_size sops dec \<le> 0
               then Inl kInvalidArgument
               else Inr \<lparr>dr_segment_decrypter = dec, dr_ct_source = src, dr_status = Inl kUnavailable, dr_header_size = 0,
                         dr_ct_offset = 0, dr_ct_segment_size = 0, dr_pt_segment_size = 0, dr_ct_segment_overhead = 0,
                         dr_segment_count = 0, dr_pt_size = 0\<rparr>))"

text \<open>
  \<^verbatim>\<open>InitializeIfNeeded\<close>, in two steps: the header is read and passed to the decrypter; then the number of segments and
  the size of the plaintext are computed from the size of the source.
\<close>

definition DecRA_read_header ::
    "'e SegmentDecrypter \<Rightarrow> 's RandomAccess \<Rightarrow> ('e, 's) DecRandomAccess \<Rightarrow> ('e, 's) DecRandomAccess option" where
  "DecRA_read_header sops rops s =
     (let dec = dr_segment_decrypter s; header_size = sd_get_header_size sops dec; ct_offset = sd_get_ciphertext_offset sops dec;
          s0 = s\<lparr>dr_header_size := header_size, dr_ct_offset := ct_offset\<rparr>
      in case Buffer_New header_size of
           Inl e \<Rightarrow> Some (s0\<lparr>dr_status := Inl e\<rparr>)
         | Inr buf0 \<Rightarrow>
             do {
               ((st, buf), src) \<leftarrow> ra_PRead rops ct_offset header_size buf0 (dr_ct_source s0);
               (let s1 = s0\<lparr>dr_ct_source := src, dr_status := (if st = Inl kOutOfRange then Inl kInvalidArgument else st)\<rparr>
                in if st \<noteq> OkStatus then Some s1
                   else let (st', dec') = sd_Init sops (take (nat header_size) (b_mem_block buf)) dec
                        in Some (s1\<lparr>dr_segment_decrypter := dec', dr_status := st'\<rparr>))
             })"

definition DecRA_compute_size ::
    "'e SegmentDecrypter \<Rightarrow> 's RandomAccess \<Rightarrow> ('e, 's) DecRandomAccess \<Rightarrow> ('e, 's) DecRandomAccess option" where
  "DecRA_compute_size sops rops s =
     (let ct_segment_size = sd_get_ciphertext_segment_size sops (dr_segment_decrypter s);
          pt_segment_size = sd_get_plaintext_segment_size sops (dr_segment_decrypter s);
          overhead1 = ct_segment_size - pt_segment_size;
          s0 = s\<lparr>dr_ct_segment_size := ct_segment_size, dr_pt_segment_size := pt_segment_size, dr_ct_segment_overhead := overhead1\<rparr>
      in do {
           (r, src) \<leftarrow> ra_size rops (dr_ct_source s0);
           (let s1 = s0\<lparr>dr_ct_source := src\<rparr>
            in case r of
                 Inl e \<Rightarrow> Some (s1\<lparr>dr_status := Inl e\<rparr>)
               | Inr ct_size \<Rightarrow>
                   let segment_count = ct_size div ct_segment_size + (if ct_size mod ct_segment_size > 0 then 1 else 0);
                       s2 = s1\<lparr>dr_segment_count := segment_count\<rparr>;
                       overhead = overhead1 * segment_count + dr_ct_offset s2 + dr_header_size s2
                   in Some (if segment_count - 1 > 2 ^ 32 - 1 then s2\<lparr>dr_status := Inl kInvalidArgument\<rparr>
                            else if overhead > ct_size then s2\<lparr>dr_status := Inl kInvalidArgument\<rparr>
                            else s2\<lparr>dr_pt_size := ct_size - overhead\<rparr>))
         })"

definition InitializeIfNeeded ::
    "'e SegmentDecrypter \<Rightarrow> 's RandomAccess \<Rightarrow> ('e, 's) DecRandomAccess \<Rightarrow> ('e, 's) DecRandomAccess option" where
  "InitializeIfNeeded sops rops s =
     (if dr_status s \<noteq> Inl kUnavailable then Some s
      else do {
             s' \<leftarrow> DecRA_read_header sops rops s;
             (if dr_status s' \<noteq> OkStatus then Some s' else DecRA_compute_size sops rops s')
           })"

definition GetSegmentNr :: "('e, 's) DecRandomAccess \<Rightarrow> int \<Rightarrow> int" where
  "GetSegmentNr s pt_position = (pt_position + dr_ct_offset s + dr_header_size s) div dr_pt_segment_size s"

definition GetPlaintextOffset :: "('e, 's) DecRandomAccess \<Rightarrow> int \<Rightarrow> int" where
  "GetPlaintextOffset s pt_position =
     (if GetSegmentNr s pt_position = 0 then pt_position
      else (pt_position + dr_ct_offset s + dr_header_size s) mod dr_pt_segment_size s)"

text \<open>The status, the buffer for the ciphertext and the plaintext segment, which keeps its old value if nothing is decrypted.\<close>

definition ReadAndDecryptSegment ::
    "'e SegmentDecrypter \<Rightarrow> 's RandomAccess \<Rightarrow> int \<Rightarrow> Buffer \<Rightarrow> bytes \<Rightarrow> ('e, 's) DecRandomAccess \<Rightarrow>
     ((Status \<times> Buffer \<times> bytes) \<times> ('e, 's) DecRandomAccess) option" where
  "ReadAndDecryptSegment sops rops segment_nr ct_buffer pt_segment s =
     (let ct_position0 = int64 (segment_nr * dr_ct_segment_size s)
      in if ct_position0 div dr_ct_segment_size s \<noteq> segment_nr then Some ((Inl kOutOfRange, ct_buffer, pt_segment), s)
         else
           let ct_position = (if segment_nr = 0 then dr_ct_offset s + dr_header_size s else ct_position0);
               segment_size = (if segment_nr = 0 then dr_ct_segment_size s - ct_position else dr_ct_segment_size s);
               is_last_segment = (segment_nr = dr_segment_count s - 1)
           in do {
                ((st, buf), src) \<leftarrow> ra_PRead rops ct_position segment_size ct_buffer (dr_ct_source s);
                (let s' = s\<lparr>dr_ct_source := src\<rparr>
                 in if st = OkStatus \<or> (is_last_segment \<and> b_size buf > 0 \<and> st = Inl kOutOfRange)
                    then case sd_DecryptSegment sops (buffer_bytes buf) (nat segment_nr) is_last_segment (dr_segment_decrypter s) of
                           Inl e \<Rightarrow> Some ((Inl e, buf, pt_segment), s')
                         | Inr pt \<Rightarrow> Some ((if is_last_segment then Inl kOutOfRange else OkStatus, buf, pt), s')
                    else Some ((st, buf, pt_segment), s'))
              })"

partial_function (option) pread_loop ::
    "'e SegmentDecrypter \<Rightarrow> 's RandomAccess \<Rightarrow> int \<Rightarrow> int \<Rightarrow> int \<Rightarrow> nat \<Rightarrow> int \<Rightarrow> Buffer \<Rightarrow> bytes \<Rightarrow> Buffer \<Rightarrow> ('e, 's) DecRandomAccess \<Rightarrow>
     ((Status \<times> Buffer) \<times> ('e, 's) DecRandomAccess) option" where
  "pread_loop sops rops position cnt pt_offset read_count remaining ct_buffer pt_segment dest_buffer s =
     (if remaining \<le> 0 then Some ((OkStatus, dest_buffer), s)
      else do {
        ((st, ct_buf, pt), s') \<leftarrow> ReadAndDecryptSegment sops rops (GetSegmentNr s (position + int read_count)) ct_buffer pt_segment s;
        (if st = OkStatus \<or> st = Inl kOutOfRange
         then
           let pt_count = int (length pt) - pt_offset;
               to_copy_count = min pt_count remaining;
               (st', dest) = set_size (int read_count + to_copy_count) dest_buffer
           in case st' of
                Inl e \<Rightarrow> Some ((Inl e, dest), s')
              | Inr _ \<Rightarrow>
                  let dest' = copy_to read_count (take (nat to_copy_count) (drop (nat pt_offset) pt)) dest
                  in if st = Inl kOutOfRange \<and> to_copy_count = pt_count then Some ((st, dest'), s')
                     else pread_loop sops rops position cnt 0 (read_count + nat to_copy_count) (cnt - int (b_size dest')) ct_buf pt
                            dest' s'
         else Some ((st, dest_buffer), s'))
      })"

definition DecRA_size ::
    "'e SegmentDecrypter \<Rightarrow> 's RandomAccess \<Rightarrow> ('e, 's) DecRandomAccess \<Rightarrow> (int StatusOr \<times> ('e, 's) DecRandomAccess) option" where
  "DecRA_size sops rops s =
     do {
       s' \<leftarrow> InitializeIfNeeded sops rops s;
       Some (case dr_status s' of Inl e \<Rightarrow> Inl e | Inr _ \<Rightarrow> Inr (dr_pt_size s'), s')
     }"

definition PReadAndDecrypt ::
    "'e SegmentDecrypter \<Rightarrow> 's RandomAccess \<Rightarrow> int \<Rightarrow> int \<Rightarrow> Buffer \<Rightarrow> ('e, 's) DecRandomAccess \<Rightarrow>
     ((Status \<times> Buffer) \<times> ('e, 's) DecRandomAccess) option" where
  "PReadAndDecrypt sops rops position cnt dest_buffer s =
     (if position < 0 \<or> cnt < 0 \<or> cnt > allocated_size dest_buffer \<or> b_size dest_buffer \<noteq> 0
      then Some ((Inl kInternal, dest_buffer), s)
      else if position > 2 ^ 63 - 1 - cnt then Some ((Inl kOutOfRange, dest_buffer), s)
      else do {
        (r, s') \<leftarrow> DecRA_size sops rops s;
        (if (case r of Inr pt_size \<Rightarrow> position > pt_size | Inl _ \<Rightarrow> False) then Some ((Inl kOutOfRange, dest_buffer), s')
         else case Buffer_New (dr_ct_segment_size s') of
                Inl _ \<Rightarrow> Some ((Inl kInvalidArgument, dest_buffer), s')
              | Inr ct_buffer \<Rightarrow>
                  pread_loop sops rops position cnt (GetPlaintextOffset s' position) 0 cnt ct_buffer [] dest_buffer s')
      })"

definition DecRA_PRead ::
    "'e SegmentDecrypter \<Rightarrow> 's RandomAccess \<Rightarrow> int \<Rightarrow> int \<Rightarrow> Buffer \<Rightarrow> ('e, 's) DecRandomAccess \<Rightarrow>
     ((Status \<times> Buffer) \<times> ('e, 's) DecRandomAccess) option" where
  "DecRA_PRead sops rops position cnt dest_buffer s =
     (let (st, buf) = set_size 0 dest_buffer
      in case st of
           Inl e \<Rightarrow> Some ((Inl e, buf), s)
         | Inr _ \<Rightarrow>
             if cnt < 0 then Some ((Inl kInvalidArgument, buf), s)
             else if cnt > allocated_size buf then Some ((Inl kInvalidArgument, buf), s)
             else if position < 0 then Some ((Inl kInvalidArgument, buf), s)
             else do {
               s' \<leftarrow> InitializeIfNeeded sops rops s;
               (case dr_status s' of
                  Inl e \<Rightarrow> Some ((Inl e, buf), s')
                | Inr _ \<Rightarrow>
                    if position > dr_pt_size s' then Some ((Inl kInvalidArgument, buf), s')
                    else PReadAndDecrypt sops rops position cnt buf s')
             })"

definition DecRA_ops :: "'e SegmentDecrypter \<Rightarrow> 's RandomAccess \<Rightarrow> ('e, 's) DecRandomAccess RandomAccess" where
  "DecRA_ops sops rops = \<lparr>ra_PRead = DecRA_PRead sops rops, ra_size = DecRA_size sops rops\<rparr>"

text \<open>\<^verbatim>\<open>NonceBasedStreamingAead::NewDecryptingRandomAccessStream\<close>.\<close>

definition NewDecryptingRandomAccessStream ::
    "'e SegmentDecrypter \<Rightarrow> 'e StatusOr \<Rightarrow> 's option \<Rightarrow> ('e, 's) DecRandomAccess StatusOr" where
  "NewDecryptingRandomAccessStream sops segment_decrypter_result ciphertext_source =
     (case segment_decrypter_result of
        Inl e \<Rightarrow> Inl e
      | Inr dec \<Rightarrow> DecRA_New sops (Some dec) ciphertext_source)"

section \<open>The contract of random access streams\<close>

text \<open>
  A stream that holds the bytes \<open>x\<close>: reading gives the bytes at the position, as many as there are; the end of the stream is
  reported at the end of \<open>x\<close>, may be reported when the read reaches it, and never before.
\<close>

locale random_access =
  fixes ops :: "'s RandomAccess" and holds :: "'s \<Rightarrow> bytes \<Rightarrow> bool"
  assumes PRead: "\<lbrakk>holds s x; 0 < n; n \<le> length (b_mem_block b); pos \<le> length x; int pos + int n < 2 ^ 63\<rbrakk> \<Longrightarrow>
      \<exists>st b' s'. ra_PRead ops (int pos) (int n) b s = Some ((st, b'), s') \<and> holds s' x \<and>
        length (b_mem_block b') = length (b_mem_block b) \<and> b_size b' = length (take n (drop pos x)) \<and>
        buffer_bytes b' = take n (drop pos x) \<and> (st = OkStatus \<or> st = Inl kOutOfRange) \<and>
        (pos + n < length x \<longrightarrow> st = OkStatus) \<and> (pos = length x \<longrightarrow> st = Inl kOutOfRange)"
    and size: "holds s x \<Longrightarrow> \<exists>s'. ra_size ops s = Some (Inr (int (length x)), s') \<and> holds s' x"

lemma length_copy_to: "off + length bs \<le> length (b_mem_block b) \<Longrightarrow> length (b_mem_block (copy_to off bs b)) = length (b_mem_block b)"
  by (simp add: copy_to_def)

lemma b_size_copy_to [simp]: "b_size (copy_to off bs b) = b_size b"
  by (simp add: copy_to_def)

lemma copy_to_prefix:
  "\<lbrakk>off + length bs \<le> length (b_mem_block b)\<rbrakk> \<Longrightarrow>
   take (off + length bs) (b_mem_block (copy_to off bs b)) = take off (b_mem_block b) @ bs"
  by (simp add: copy_to_def)

text \<open>A file whose reads are complete and do not fail.\<close>

definition file_holds :: "FileRandomAccessStream \<Rightarrow> bytes \<Rightarrow> bool" where
  "file_holds file x \<longleftrightarrow> rf_contents file = x \<and> length x \<le> rf_limit file \<and> \<not> rf_error file \<and> \<not> rf_no_size file"

lemma File_PRead_holds:
  assumes f: "file_holds f x" and n: "0 < n" "n \<le> length (b_mem_block b)" and p: "pos \<le> length x"
  shows "\<exists>st b'. File_PRead (int pos) (int n) b f = (st, b') \<and>
        length (b_mem_block b') = length (b_mem_block b) \<and> b_size b' = length (take n (drop pos x)) \<and>
        buffer_bytes b' = take n (drop pos x) \<and> (st = OkStatus \<or> st = Inl kOutOfRange) \<and>
        (pos + n < length x \<longrightarrow> st = OkStatus) \<and> (pos = length x \<longrightarrow> st = Inl kOutOfRange)"
proof -
  let ?d = "take n (drop pos x)"
  have r: "pread n pos f = Some ?d"
    using f p by (auto simp: pread_def file_holds_def min_def)
  show ?thesis
  proof (cases ?d)
    case Nil
    with n have "length x \<le> pos" by simp
    with p have "pos = length x" by simp
    with r n show ?thesis by (simp add: File_PRead_def set_size_def allocated_size_def buffer_bytes_def)
  next
    case (Cons a as)
    have l: "length (a # as) \<le> length (b_mem_block b)" using n(2) unfolding Cons [symmetric] by simp
    have "pos \<noteq> length x" using Cons by auto
    moreover have "nat (int (length (a # as))) = length (a # as)" by (rule nat_int)
    ultimately show ?thesis using r n l unfolding Cons
      by (simp add: File_PRead_def set_size_def allocated_size_def buffer_bytes_def copy_to_def del: of_nat_Suc)
  qed
qed

interpretation file_ra: random_access File_ops file_holds
proof
  fix s x n pos and b :: Buffer
  assume "file_holds s x" "0 < n" "n \<le> length (b_mem_block b)" "pos \<le> length x" "int pos + int n < 2 ^ 63"
  from File_PRead_holds [OF this(1-4)] \<open>file_holds s x\<close>
  show "\<exists>st b' s'. ra_PRead File_ops (int pos) (int n) b s = Some ((st, b'), s') \<and> file_holds s' x \<and>
        length (b_mem_block b') = length (b_mem_block b) \<and> b_size b' = length (take n (drop pos x)) \<and>
        buffer_bytes b' = take n (drop pos x) \<and> (st = OkStatus \<or> st = Inl kOutOfRange) \<and>
        (pos + n < length x \<longrightarrow> st = OkStatus) \<and> (pos = length x \<longrightarrow> st = Inl kOutOfRange)"
    by (auto simp: File_ops_def)
qed (simp add: File_ops_def File_size_def file_holds_def)

section \<open>Positions and segments\<close>

text \<open>
  A stream is laid out as if the first segment started \<open>o'\<close> bytes earlier, at the beginning of the source: the plaintext and the
  ciphertext of segment \<open>i\<close>, and the number of the last segment.
\<close>

definition pt_seg :: "nat \<Rightarrow> nat \<Rightarrow> bytes \<Rightarrow> nat \<Rightarrow> bytes" where
  "pt_seg o' p pt i = (if i = 0 then take (p - o') pt else take p (drop (i * p - o') pt))"

definition ct_seg :: "nat \<Rightarrow> nat \<Rightarrow> bytes \<Rightarrow> nat \<Rightarrow> bytes" where
  "ct_seg o' cs x i = (if i = 0 then take (cs - o') (drop o' x) else take cs (drop (i * cs) x))"

definition last_seg :: "nat \<Rightarrow> nat \<Rightarrow> bytes \<Rightarrow> nat" where
  "last_seg o' p pt = (o' + length pt - 1) div p"

lemma pt_seg_from:
  assumes "0 < p" and "o' < p"
  shows "drop (if (q + o') div p = 0 then q else (q + o') mod p) (pt_seg o' p pt ((q + o') div p)) =
    take (p - (q + o') mod p) (drop q pt)"
proof (cases "(q + o') div p = 0")
  case True
  then have "q + o' < p" using assms(1) by (simp add: div_eq_0_iff)
  with True show ?thesis by (simp add: pt_seg_def drop_take add.commute)
next
  case False
  have "(q + o') div p * p + (q + o') mod p = q + o'" by simp
  moreover have "o' \<le> (q + o') div p * p" using False assms by (metis Suc_le_eq less_imp_le_nat mult_le_mono1 nat_mult_1 neq0_conv order_trans One_nat_def)
  ultimately have "(q + o') mod p + ((q + o') div p * p - o') = q" by linarith
  with False show ?thesis by (simp add: pt_seg_def drop_take)
qed

lemma last_seg_bounds:
  assumes "0 < p" and "0 < o'"
  shows "last_seg o' p pt * p < o' + length pt" and "o' + length pt \<le> Suc (last_seg o' p pt) * p"
proof -
  have "last_seg o' p pt * p \<le> o' + length pt - 1" unfolding last_seg_def by simp
  then show "last_seg o' p pt * p < o' + length pt" using assms(2) by linarith
  have "o' + length pt - 1 < Suc (last_seg o' p pt) * p" unfolding last_seg_def using assms(1)
    by (metis dividend_less_div_times add.commute mult_Suc)
  then show "o' + length pt \<le> Suc (last_seg o' p pt) * p" by linarith
qed

lemma segment_nr_le:
  assumes "0 < p" and "0 < o'" and "q < length pt"
  shows "(q + o') div p \<le> last_seg o' p pt"
  unfolding last_seg_def using assms by (intro div_le_mono) linarith

lemma segment_nr_past:
  assumes "0 < p" and "0 < o'" and "q \<le> length pt" and "last_seg o' p pt < (q + o') div p"
  shows "q = length pt" and "(q + o') div p = Suc (last_seg o' p pt)" and "(q + o') mod p = 0"
    and "o' + length pt = Suc (last_seg o' p pt) * p"
proof -
  let ?L = "last_seg o' p pt"
  show q: "q = length pt" using segment_nr_le [OF assms(1,2)] assms(3,4) by (metis le_neq_implies_less not_le)
  have "Suc ?L * p \<le> (q + o') div p * p" using assms(4) by (intro mult_le_mono1) simp
  also have "\<dots> \<le> q + o'" by simp
  finally show e: "o' + length pt = Suc ?L * p" using last_seg_bounds(2) [OF assms(1,2), of pt] q by linarith
  then have "q + o' = Suc ?L * p" using q by simp
  then show "(q + o') div p = Suc ?L" "(q + o') mod p = 0" using assms(1) by simp_all
qed

text \<open>How much of the plaintext the segment at a position still has.\<close>

lemma segment_rest:
  assumes "0 < p" and "0 < o'" and "q \<le> length pt"
  shows "(q + o') div p = last_seg o' p pt \<Longrightarrow> take (p - (q + o') mod p) (drop q pt) = drop q pt"
    and "(q + o') div p < last_seg o' p pt \<Longrightarrow>
      0 < p - (q + o') mod p \<and> q + (p - (q + o') mod p) < length pt \<and> (q + (p - (q + o') mod p) + o') mod p = 0 \<and>
      (q + (p - (q + o') mod p) + o') div p = Suc ((q + o') div p)"
proof -
  let ?L = "last_seg o' p pt" and ?n = "(q + o') div p" and ?m = "(q + o') mod p"
  have s: "?n * p + ?m = q + o'" and m: "?m < p" using assms(1) by simp_all
  show "take (p - ?m) (drop q pt) = drop q pt" if "?n = ?L"
    using last_seg_bounds(2) [OF assms(1,2), of pt] s that by simp
  assume l: "?n < ?L"
  then have "Suc ?n * p \<le> ?L * p" by (intro mult_le_mono1) simp
  then have "Suc ?n * p < o' + length pt" using last_seg_bounds(1) [OF assms(1,2), of pt] by linarith
  moreover have e: "q + (p - ?m) + o' = Suc ?n * p" using s m unfolding mult_Suc by linarith
  ultimately have "q + (p - ?m) < length pt" by linarith
  then show "0 < p - ?m \<and> q + (p - ?m) < length pt \<and> (q + (p - ?m) + o') mod p = 0 \<and> (q + (p - ?m) + o') div p = Suc ?n"
    using m assms(1) unfolding e by simp
qed

lemma seg_Suc:
  assumes "o' < p"
  shows "pt_seg o' p pt (Suc k) = pt_seg 0 p (drop (p - o') pt) k"
    and "length y = cs \<Longrightarrow> ct_seg o' cs (y @ c) (Suc k) = ct_seg 0 cs c k"
proof -
  have "Suc k * p - o' = k * p + (p - o')" using assms by simp
  then show "pt_seg o' p pt (Suc k) = pt_seg 0 p (drop (p - o') pt) k" using assms by (cases k) (simp_all add: pt_seg_def)
  assume y: "length y = cs"
  then show "ct_seg o' cs (y @ c) (Suc k) = ct_seg 0 cs c k" by (cases k) (simp_all add: ct_seg_def)
qed

lemma enc_from_segments:
  assumes len: "\<And>i lst s c. E i lst s = Some c \<Longrightarrow> length c = length s + ov" and p: "0 < p"
  shows "\<lbrakk>enc_from E j (p - o') p pt = Some c; o' < p; 0 < o' + length pt; length y = o'\<rbrakk> \<Longrightarrow>
    length c = length pt + ov * Suc (last_seg o' p pt) \<and>
    (\<forall>i \<le> last_seg o' p pt. E (j + i) (i = last_seg o' p pt) (pt_seg o' p pt i) = Some (ct_seg o' (p + ov) (y @ c) i))"
proof (induction "length pt" arbitrary: j o' pt c y rule: less_induct)
  case less
  let ?f = "p - o'"
  show ?case
  proof (cases "length pt \<le> ?f")
    case True
    with less.prems(1) have e: "E j True pt = Some c" by (simp add: enc_from_last)
    have "o' + length pt - 1 < p" using True less.prems(2) by linarith
    then have L: "last_seg o' p pt = 0" by (simp add: last_seg_def)
    show ?thesis using e len [OF e] True less.prems(2,4) L by (simp add: pt_seg_def ct_seg_def)
  next
    case False
    let ?pt = "drop ?f pt"
    have "enc_from E j ?f p pt = do { c \<leftarrow> E j False (take ?f pt); cs \<leftarrow> enc_from E (Suc j) p p ?pt; Some (c @ cs) }"
      using enc_from_append [of "take ?f pt" ?f ?pt E j p] False less.prems(2) by simp
    with less.prems(1) obtain c0 c1 where c: "E j False (take ?f pt) = Some c0" "enc_from E (Suc j) p p ?pt = Some c1" "c = c0 @ c1"
      by (auto simp: bind_eq_Some_conv)
    have l0: "length c0 = ?f + ov" using len [OF c(1)] False by simp
    have "length ?pt < length pt" "0 < 0 + length ?pt" using False less.prems(2) by simp_all
    from less.hyps [OF this(1), of "Suc j" 0 c1 "[]"] c(2) this(2) p have IH:
      "length c1 = length ?pt + ov * Suc (last_seg 0 p ?pt)"
      "\<forall>i \<le> last_seg 0 p ?pt. E (Suc j + i) (i = last_seg 0 p ?pt) (pt_seg 0 p ?pt i) = Some (ct_seg 0 (p + ov) c1 i)"
      by simp_all
    have "o' + length pt - 1 = p + (length ?pt - 1)" using False less.prems(2) by simp
    then have L: "last_seg o' p pt = Suc (last_seg 0 p ?pt)" using p by (simp add: last_seg_def div_add_self1)
    have "E (j + i) (i = last_seg o' p pt) (pt_seg o' p pt i) = Some (ct_seg o' (p + ov) (y @ c) i)" if i: "i \<le> last_seg o' p pt" for i
    proof (cases i)
      case 0
      then show ?thesis using c(1,3) L l0 less.prems(2,4) by (simp add: pt_seg_def ct_seg_def)
    next
      case (Suc k)
      have "length (y @ c0) = p + ov" using l0 less.prems(2,4) by simp
      from seg_Suc(2) [OF less.prems(2) this] have "ct_seg o' (p + ov) (y @ c) i = ct_seg 0 (p + ov) c1 k"
        using c(3) Suc by simp
      with IH(2) i Suc L show ?thesis by (simp add: seg_Suc(1) [OF less.prems(2)])
    qed
    moreover have "length c = length pt + ov * Suc (last_seg o' p pt)" using IH(1) c(3) l0 L False by simp
    ultimately show ?thesis by blast
  qed
qed

section \<open>The decrypting stream\<close>

text \<open>
  The sizes are now those of plaintext segments, and \<open>ov\<close> is what a segment grows by when it is encrypted. The ciphertext segment
  size is an \<^verbatim>\<open>int\<close>.
\<close>

locale decrypting_random_access =
  segment_decrypter sops inv hs "f + ov" "p + ov" + src: random_access rops holds
  for sops :: "'e SegmentDecrypter" and inv hs f p ov and rops :: "'s RandomAccess" and holds +
  assumes plaintext_size: "inv e \<Longrightarrow> sd_get_plaintext_segment_size sops e = int p"
    and offset: "inv e \<Longrightarrow> 0 \<le> sd_get_ciphertext_offset sops e"
    and first_positive: "inv e \<Longrightarrow> 0 < f"
    and overhead: "inv e \<Longrightarrow> 0 < ov"
    and small: "inv e \<Longrightarrow> p + ov < 2 ^ 31"
begin

text \<open>The distance of the first segment from the beginning of the source.\<close>

definition start :: nat where
  "start = p - f"

lemma start_facts:
  assumes "inv e"
  shows "0 < p" "start < p" "hs \<le> start" "p - start = f" "sd_get_ciphertext_offset sops e = int start - int hs" "0 < hs" "0 < start"
proof -
  have "int p - sd_get_ciphertext_offset sops e - int hs = int f" using first_size [OF assms] by simp
  then show "0 < p" "start < p" "hs \<le> start" "p - start = f" "sd_get_ciphertext_offset sops e = int start - int hs" "0 < hs" "0 < start"
    using offset [OF assms] first_positive [OF assms] sizes_positive [OF assms] unfolding start_def by linarith+
qed

text \<open>An initialized stream over the source \<open>x\<close> with plaintext \<open>pt\<close>.\<close>

definition ready :: "bytes \<Rightarrow> ('e, 's) DecRandomAccess \<Rightarrow> bytes \<Rightarrow> bool" where
  "ready x s pt \<longleftrightarrow>
     dr_status s = OkStatus \<and> inv (dr_segment_decrypter s) \<and> holds (dr_ct_source s) x \<and>
     dr_header_size s = int hs \<and> dr_ct_offset s = int start - int hs \<and> dr_ct_segment_size s = int (p + ov) \<and>
     dr_pt_segment_size s = int p \<and> dr_segment_count s = int (Suc (last_seg start p pt)) \<and> dr_pt_size s = int (length pt) \<and>
     last_seg start p pt < 2 ^ 32 \<and> length x = start + length pt + ov * Suc (last_seg start p pt) \<and>
     (\<forall>i \<le> last_seg start p pt.
        sd_DecryptSegment sops (ct_seg start (p + ov) x i) i (i = last_seg start p pt) (dr_segment_decrypter s) = Inr (pt_seg start p pt i))"

lemma ready_numbers:
  assumes "ready x s pt"
  shows "GetSegmentNr s (int q) = int ((q + start) div p)"
    and "GetPlaintextOffset s (int q) = int (if (q + start) div p = 0 then q else (q + start) mod p)"
proof -
  have e: "int q + dr_ct_offset s + dr_header_size s = int (q + start)" "dr_pt_segment_size s = int p" using assms by (simp_all add: ready_def)
  show n: "GetSegmentNr s (int q) = int ((q + start) div p)" unfolding GetSegmentNr_def e by (simp only: zdiv_int)
  show "GetPlaintextOffset s (int q) = int (if (q + start) div p = 0 then q else (q + start) mod p)"
    unfolding GetPlaintextOffset_def n e by (simp add: zmod_int)
qed

lemma int64_small: "0 \<le> i \<Longrightarrow> i < 2 ^ 63 \<Longrightarrow> int64 i = i"
  by (simp add: int64_def signed_take_bit_int_eq_self)

lemma ct_position_small:
  assumes "inv e" and "i \<le> 2 ^ 32"
  shows "int64 (int i * int (p + ov)) = int (i * (p + ov))" and "int64 (int i * int (p + ov)) div int (p + ov) = int i"
proof -
  have "int i * int (p + ov) \<le> 2 ^ 32 * int (p + ov)" using assms(2) by (intro mult_right_mono) simp_all
  also have "\<dots> < 2 ^ 63" using small [OF assms(1)] by simp
  finally show e: "int64 (int i * int (p + ov)) = int (i * (p + ov))" by (simp add: int64_small)
  show "int64 (int i * int (p + ov)) div int (p + ov) = int i" unfolding e using start_facts(1) [OF assms(1)] by simp
qed

lemma ReadAndDecryptSegment_ready:
  assumes r: "ready x s pt" and i: "i \<le> last_seg start p pt" and b: "length (b_mem_block b) = p + ov"
  shows "\<exists>b' s'. ReadAndDecryptSegment sops rops (int i) b seg s =
      Some ((if i = last_seg start p pt then Inl kOutOfRange else OkStatus, b', pt_seg start p pt i), s') \<and>
    ready x s' pt \<and> length (b_mem_block b') = p + ov"
proof -
  let ?L = "last_seg start p pt" and ?d = "dr_segment_decrypter s"
  have R: "inv ?d" "holds (dr_ct_source s) x" "dr_header_size s = int hs" "dr_ct_offset s = int start - int hs"
    "dr_ct_segment_size s = int (p + ov)" "dr_segment_count s = int (Suc ?L)" "?L < 2 ^ 32"
    "length x = start + length pt + ov * Suc ?L"
    "sd_DecryptSegment sops (ct_seg start (p + ov) x i) i (i = ?L) ?d = Inr (pt_seg start p pt i)"
    using r i by (auto simp: ready_def)
  note F = start_facts [OF R(1)]
  let ?pos = "if i = 0 then start else i * (p + ov)" and ?n = "if i = 0 then p + ov - start else p + ov"
  have L: "?L * p < start + length pt" "start + length pt \<le> Suc ?L * p" using last_seg_bounds [OF F(1,7)] by simp_all
  have ipos: "i * (p + ov) \<le> ?L * (p + ov)" using i by (rule mult_le_mono1)
  have Lx: "?L * (p + ov) < length x" using L(1) R(8) by (simp add: algebra_simps)
  have last: "?pos + ?n < length x" if "i < ?L"
  proof -
    have "Suc i * (p + ov) \<le> ?L * (p + ov)" using that by (intro mult_le_mono1) simp
    moreover have "?pos + ?n = Suc i * (p + ov)" using F(2) by simp
    ultimately show ?thesis using Lx by linarith
  qed
  have pos: "?pos < length x"
  proof (cases "i = 0")
    case False
    then have "?pos = i * (p + ov)" by simp
    with ipos Lx show ?thesis by linarith
  qed (use R(8) overhead [OF R(1)] in simp)
  have "Suc i \<le> 2 ^ 32" using i R(7) by simp
  then have "Suc i * (p + ov) \<le> 2 ^ 32 * (p + ov)" by (rule mult_le_mono1)
  also have "\<dots> < 2 ^ 63" using small [OF R(1)] by simp
  finally have "?pos + ?n < 2 ^ 63" using F(2) by simp
  then have "int (?pos + ?n) < int (2 ^ 63)" by (rule of_nat_less_iff [THEN iffD2])
  then have "int ?pos + int ?n < 2 ^ 63" by (simp only: of_nat_add of_nat_power of_nat_numeral)
  moreover have "0 < ?n" "?n \<le> length (b_mem_block b)" using F(1,2) b by simp_all
  ultimately obtain st b' src' where P: "ra_PRead rops (int ?pos) (int ?n) b (dr_ct_source s) = Some ((st, b'), src')" "holds src' x"
    "length (b_mem_block b') = p + ov" "b_size b' = length (take ?n (drop ?pos x))" "buffer_bytes b' = take ?n (drop ?pos x)"
    "st = OkStatus \<or> st = Inl kOutOfRange" "?pos + ?n < length x \<longrightarrow> st = OkStatus"
    using src.PRead [OF R(2), of ?n b ?pos] pos b by auto
  have ct: "buffer_bytes b' = ct_seg start (p + ov) x i" using P(5) by (simp add: ct_seg_def)
  have ok: "st = OkStatus \<or> (i = ?L \<and> 0 < b_size b' \<and> st = Inl kOutOfRange)"
    using P(4,6,7) last pos i \<open>0 < ?n\<close> by (cases "i = ?L") auto
  have "i \<le> 2 ^ 32" using \<open>Suc i \<le> 2 ^ 32\<close> by simp
  note C = ct_position_small [OF R(1) this]
  have e: "(if int i = 0 then dr_ct_offset s + dr_header_size s else int64 (int i * int (p + ov))) = int ?pos"
    "(if int i = 0 then int (p + ov) - int ?pos else int (p + ov)) = int ?n" unfolding C R(3,4) using F(2) by simp_all
  have l: "(int i = int (Suc ?L) - 1) = (i = ?L)" by auto
  have "ReadAndDecryptSegment sops rops (int i) b seg s =
      Some ((if i = ?L then Inl kOutOfRange else OkStatus, b', pt_seg start p pt i), s\<lparr>dr_ct_source := src'\<rparr>)"
    unfolding ReadAndDecryptSegment_def Let_def R(5,6) C(2) e l P(1) using ok by (auto simp: ct R(9) simp del: of_nat_add)
  moreover have "ready x (s\<lparr>dr_ct_source := src'\<rparr>) pt" using r P(2) by (simp add: ready_def)
  ultimately show ?thesis using P(3) by blast
qed
end

lemma set_size_ok: "n \<le> length (b_mem_block b) \<Longrightarrow> set_size (int n) b = (OkStatus, b\<lparr>b_size := n\<rparr>)"
  by (simp add: set_size_def allocated_size_def)

lemma pread_loop_stop: "pread_loop sops rops pos cnt po rc 0 ct seg dest s = Some ((OkStatus, dest), s)"
  by (subst pread_loop.simps) simp

text \<open>One turn of the loop, after the segment was read: \<open>k\<close> bytes are copied.\<close>

lemma pread_loop_step:
  assumes rd: "ReadAndDecryptSegment sops rops (GetSegmentNr s (int pos + int rc)) ct seg s = Some ((st, ct', sg), s')"
    and n: "0 < n" and st: "st = OkStatus \<or> st = Inl kOutOfRange" and po: "po \<le> length sg" and k: "k = min (length sg - po) n"
    and dest: "rc + k \<le> length (b_mem_block dest)"
  shows "pread_loop sops rops (int pos) (int (rc + n)) (int po) rc (int n) ct seg dest s =
    (let dest' = copy_to rc (take k (drop po sg)) (dest\<lparr>b_size := rc + k\<rparr>)
     in if st = Inl kOutOfRange \<and> length sg - po \<le> n then Some ((st, dest'), s')
        else pread_loop sops rops (int pos) (int (rc + n)) 0 (rc + k) (int (n - k)) ct' sg dest' s')"
proof -
  have a: "int (length sg) - int po = int (length sg - po)" using po by simp
  have b: "min (int (length sg - po)) (int n) = int k" by (simp add: k)
  have c: "set_size (int rc + int k) dest = (OkStatus, dest\<lparr>b_size := rc + k\<rparr>)" using set_size_ok [OF dest] by simp
  have d: "int (rc + n) - int (rc + k) = int (n - k)" using k by simp
  have e: "(int k = int (length sg - po)) = (length sg - po \<le> n)" using k by auto
  have f: "(if int n \<le> 0 then x else y) = y" for x y :: "((Status \<times> Buffer) \<times> ('e, 's) DecRandomAccess) option" using n by simp
  have g: "b_size (dest\<lparr>b_size := rc + k\<rparr>) = rc + k" by simp
  show ?thesis
    by (subst pread_loop.simps)
      (simp only: rd f a b c d e g st Let_def bind.bind_lunit prod.case sum.case if_True nat_int b_size_copy_to Buffer.select_convs)
qed

text \<open>
  The plaintext segment of the loop keeps its value when nothing could be read. So if the source ends before a segment that is not the
  last one, as when a file is cut after the stream was initialized, the bytes of the segment before are copied a second time, and the
  end of the stream is reported.
\<close>

lemma ReadAndDecryptSegment_truncated:
  assumes "int64 (nr * dr_ct_segment_size s) div dr_ct_segment_size s = nr" and "nr \<noteq> 0" and "nr \<noteq> dr_segment_count s - 1"
    and "ra_PRead rops (int64 (nr * dr_ct_segment_size s)) (dr_ct_segment_size s) ct (dr_ct_source s) = Some ((Inl kOutOfRange, ct'), src')"
  shows "ReadAndDecryptSegment sops rops nr ct seg s = Some ((Inl kOutOfRange, ct', seg), s\<lparr>dr_ct_source := src'\<rparr>)"
  using assms by (simp add: ReadAndDecryptSegment_def Let_def)

lemma pread_stale_segment:
  assumes r1: "ReadAndDecryptSegment sops rops (GetSegmentNr s (int pos + int 0)) ct seg s = Some ((OkStatus, ct', sg), s')"
    and r2: "ReadAndDecryptSegment sops rops (GetSegmentNr s' (int pos + int (length sg))) ct' sg s' = Some ((Inl kOutOfRange, ct'', sg), s'')"
    and n: "0 < length sg" "2 * length sg \<le> n" "n \<le> length (b_mem_block dest)"
  shows "\<exists>dest'. pread_loop sops rops (int pos) (int n) 0 0 (int n) ct seg dest s = Some ((Inl kOutOfRange, dest'), s'') \<and>
    buffer_bytes dest' = sg @ sg"
proof -
  let ?k = "length sg"
  let ?d1 = "copy_to 0 sg (dest\<lparr>b_size := ?k\<rparr>)"
  have m: "?k = min (?k - 0) n" "?k = min (?k - 0) (n - ?k)" and l: "0 + ?k \<le> length (b_mem_block dest)" and n0: "0 < n" "0 < n - ?k"
    using n by linarith+
  have d1: "?k + ?k \<le> length (b_mem_block ?d1)" "take ?k (b_mem_block ?d1) = sg" using n by (simp_all add: copy_to_def)
  have "pread_loop sops rops (int pos) (int n) 0 0 (int n) ct seg dest s =
      pread_loop sops rops (int pos) (int n) 0 ?k (int (n - ?k)) ct' sg ?d1 s'"
    using pread_loop_step [OF r1 n0(1) _ le0 m(1) l] by (simp add: Let_def)
  also have "\<dots> = Some ((Inl kOutOfRange, copy_to ?k sg (?d1\<lparr>b_size := ?k + ?k\<rparr>)), s'')"
    using pread_loop_step [OF r2 n0(2) _ le0 m(2) d1(1)] n(2) by (simp add: Let_def le_diff_conv2)
  finally show ?thesis using n d1(2) copy_to_prefix [of ?k sg "?d1\<lparr>b_size := ?k + ?k\<rparr>"] d1(1) by (simp add: buffer_bytes_def)
qed

context decrypting_random_access
begin

lemma ReadAndDecryptSegment_past:
  assumes r: "ready x s pt" and e: "start + length pt = Suc (last_seg start p pt) * p" and b: "length (b_mem_block b) = p + ov"
  shows "\<exists>b' s'. ReadAndDecryptSegment sops rops (int (Suc (last_seg start p pt))) b seg s = Some ((Inl kOutOfRange, b', seg), s') \<and>
    ready x s' pt \<and> length (b_mem_block b') = p + ov"
proof -
  let ?L = "last_seg start p pt" and ?pos = "Suc (last_seg start p pt) * (p + ov)"
  have R: "inv (dr_segment_decrypter s)" "holds (dr_ct_source s) x" "dr_ct_segment_size s = int (p + ov)"
    "dr_segment_count s = int (Suc ?L)" "?L < 2 ^ 32" "length x = start + length pt + ov * Suc ?L" using r by (auto simp: ready_def)
  have x: "length x = ?pos" using R(6) e by (simp add: algebra_simps)
  have "?pos + (p + ov) = (Suc ?L + 1) * (p + ov)" by simp
  also have "\<dots> \<le> (2 ^ 32 + 1) * (p + ov)" using R(5) by (intro mult_le_mono1) simp
  also have "\<dots> \<le> (2 ^ 32 + 1) * (2 ^ 31 - 1)" using small [OF R(1)] by (intro mult_le_mono2) simp
  also have "\<dots> < 2 ^ 63" by simp
  finally have "int (?pos + (p + ov)) < int (2 ^ 63)" by (rule of_nat_less_iff [THEN iffD2])
  then have "int ?pos + int (p + ov) < 2 ^ 63" by (simp only: of_nat_add of_nat_power of_nat_numeral)
  then obtain b' src' where P: "ra_PRead rops (int ?pos) (int (p + ov)) b (dr_ct_source s) = Some ((Inl kOutOfRange, b'), src')" "holds src' x"
    "length (b_mem_block b') = p + ov"
    using src.PRead [OF R(2), of "p + ov" b ?pos] x b start_facts(1) [OF R(1)] by auto
  have C: "int64 (int (Suc ?L) * int (p + ov)) = int ?pos" "int64 (int (Suc ?L) * int (p + ov)) div int (p + ov) = int (Suc ?L)"
    using ct_position_small [OF R(1), of "Suc ?L"] R(5) by simp_all
  have l: "(int (Suc ?L) = int (Suc ?L) - 1) = False" "(int (Suc ?L) = 0) = False" by simp_all
  have "ReadAndDecryptSegment sops rops (int (Suc ?L)) b seg s = Some ((Inl kOutOfRange, b', seg), s\<lparr>dr_ct_source := src'\<rparr>)"
    unfolding ReadAndDecryptSegment_def Let_def R(3,4) C(2) unfolding C(1) l if_False P(1) by simp
  moreover have "ready x (s\<lparr>dr_ct_source := src'\<rparr>) pt" using r P(2) by (simp add: ready_def)
  ultimately show ?thesis using P(3) by blast
qed

text \<open>The offset in its segment of a position in the plaintext.\<close>

definition offset_in :: "nat \<Rightarrow> nat" where
  "offset_in q = (if (q + start) div p = 0 then q else (q + start) mod p)"

lemma offset_in_le:
  assumes "inv e" and "q \<le> length pt"
  shows "offset_in q \<le> length (pt_seg start p pt ((q + start) div p))"
proof (cases "(q + start) div p = 0")
  case True
  then have "q + start < p" using start_facts(1) [OF assms(1)] by (simp add: div_eq_0_iff)
  with True assms(2) show ?thesis by (simp add: offset_in_def pt_seg_def)
next
  case False
  let ?n = "(q + start) div p" and ?m = "(q + start) mod p"
  have s: "?n * p + ?m = q + start" "?m < p" using start_facts(1) [OF assms(1)] by simp_all
  have "1 * p \<le> ?n * p" using False by (intro mult_le_mono1) simp
  then have "?n * p - start + ?m = q" using s start_facts(2) [OF assms(1)] by linarith
  with assms(2) s(2) False show ?thesis by (simp add: offset_in_def pt_seg_def)
qed

lemma copied:
  assumes "take rc (b_mem_block dest) = take rc (drop pos pt)" and "drop po sg = take j (drop (pos + rc) pt)" and "k \<le> length sg - po"
    and "rc + k \<le> length (b_mem_block dest)" and "dest' = copy_to rc (take k (drop po sg)) (dest\<lparr>b_size := rc + k\<rparr>)"
  shows "length (b_mem_block dest') = length (b_mem_block dest)" "b_size dest' = rc + k"
    "take (rc + k) (b_mem_block dest') = take (rc + k) (drop pos pt)"
proof -
  let ?bs = "take k (drop po sg)"
  have l: "length ?bs = k" using assms(3) by simp
  show "length (b_mem_block dest') = length (b_mem_block dest)" "b_size dest' = rc + k"
    using l assms(4) unfolding assms(5) by (simp_all add: length_copy_to)
  have "k \<le> j" using l unfolding assms(2) by simp
  then have "?bs = take k (drop (pos + rc) pt)" unfolding assms(2) by simp
  moreover have "take (rc + k) (b_mem_block dest') = take rc (b_mem_block dest) @ ?bs"
    using copy_to_prefix [of rc ?bs "dest\<lparr>b_size := rc + k\<rparr>"] l assms(4) unfolding assms(5) by simp
  ultimately show "take (rc + k) (b_mem_block dest') = take (rc + k) (drop pos pt)"
    using assms(1) take_add [of rc k "drop pos pt"] by (simp add: add.commute)
qed

lemma pread_loop_ready:
  "\<lbrakk>ready x s pt; pos + rc \<le> length pt; rc + n \<le> length (b_mem_block dest); length (b_mem_block ct) = p + ov; b_size dest = rc;
    take rc (b_mem_block dest) = take rc (drop pos pt); 0 < n \<longrightarrow> po = offset_in (pos + rc);
    (pos + rc + start) div p \<le> last_seg start p pt \<or> seg = []\<rbrakk> \<Longrightarrow>
   \<exists>dest' s'. pread_loop sops rops (int pos) (int (rc + n)) (int po) rc (int n) ct seg dest s =
       Some ((if 0 < n \<and> length pt \<le> pos + (rc + n) then Inl kOutOfRange else OkStatus, dest'), s') \<and> ready x s' pt \<and>
     length (b_mem_block dest') = length (b_mem_block dest) \<and> b_size dest' = length (take (rc + n) (drop pos pt)) \<and>
     buffer_bytes dest' = take (rc + n) (drop pos pt)"
proof (induction n arbitrary: rc po ct seg dest s rule: less_induct)
  case (less n)
  let ?q = "pos + rc" and ?L = "last_seg start p pt" and ?nr = "(pos + rc + start) div p" and ?m = "(pos + rc + start) mod p"
  have I: "inv (dr_segment_decrypter s)" using less.prems(1) by (simp add: ready_def)
  note F = start_facts [OF I]
  have nr: "GetSegmentNr s (int pos + int rc) = int ?nr" using ready_numbers(1) [OF less.prems(1), of ?q] by simp
  consider "n = 0" | "0 < n" "?L < ?nr" | "0 < n" "?nr = ?L" | "0 < n" "?nr < ?L" by linarith
  then show ?case
  proof cases
    case 1
    then show ?thesis using less.prems by (simp add: pread_loop_stop buffer_bytes_def)
  next
    case 2
    note P = segment_nr_past [OF F(1,7) less.prems(2) 2(2)]
    have o: "offset_in ?q = 0" "po = 0" using P(2,3) less.prems(7) 2(1) by (simp_all add: offset_in_def)
    have sg: "seg = []" using less.prems(8) 2(2) by simp
    obtain ct' s' where rd: "ReadAndDecryptSegment sops rops (GetSegmentNr s (int pos + int rc)) ct seg s = Some ((Inl kOutOfRange, ct', seg), s')"
      "ready x s' pt" using ReadAndDecryptSegment_past [OF less.prems(1) P(4) less.prems(4)] unfolding nr P(2) by blast
    from pread_loop_step [OF rd(1) 2(1), of po 0 dest] sg less.prems(3,5) show ?thesis using rd(2) P(1) less.prems(2,5,6) 2(1)
      by (simp add: o copy_to_def buffer_bytes_def)
  next
    case 3
    let ?sg = "pt_seg start p pt ?nr"
    obtain ct' s' where rd: "ReadAndDecryptSegment sops rops (GetSegmentNr s (int pos + int rc)) ct seg s = Some ((Inl kOutOfRange, ct', ?sg), s')"
      "ready x s' pt" "length (b_mem_block ct') = p + ov"
      using ReadAndDecryptSegment_ready [OF less.prems(1) _ less.prems(4), of ?nr seg] 3(2) unfolding nr by auto
    have o: "po = offset_in ?q" using less.prems(7) 3(1) by simp
    have po: "po \<le> length ?sg" using offset_in_le [OF I less.prems(2)] unfolding o .
    have rest: "drop po ?sg = take (p - ?m) (drop ?q pt)" "drop po ?sg = drop ?q pt"
      using pt_seg_from [OF F(1,2), of ?q pt] segment_rest(1) [OF F(1,7) less.prems(2) 3(2)] unfolding o offset_in_def by simp_all
    then have len: "length ?sg - po = length pt - ?q" by (metis length_drop)
    define k where "k = min (length ?sg - po) n"
    define dest' where "dest' = copy_to rc (take k (drop po ?sg)) (dest\<lparr>b_size := rc + k\<rparr>)"
    have k: "k \<le> length ?sg - po" "rc + k \<le> length (b_mem_block dest)" using less.prems(3) unfolding k_def by simp_all
    note C = copied [OF less.prems(6) rest(1) k dest'_def]
    note step = pread_loop_step [OF rd(1) 3(1) _ po k_def k(2), unfolded Let_def, folded dest'_def]
    show ?thesis
    proof (cases "length ?sg - po \<le> n")
      case True
      then have "length pt \<le> pos + (rc + n)" "k = length pt - ?q" using len less.prems(2) unfolding k_def by simp_all
      then show ?thesis using step True rd(2) C 3(1) less.prems(2) by (simp add: buffer_bytes_def)
    next
      case False
      then have "\<not> length pt \<le> pos + (rc + n)" "k = n" using len less.prems(2) unfolding k_def by simp_all
      then show ?thesis using step False rd(2) C less.prems(2) by (simp add: pread_loop_stop buffer_bytes_def)
    qed
  next
    case 4
    let ?sg = "pt_seg start p pt ?nr"
    obtain ct' s' where rd: "ReadAndDecryptSegment sops rops (GetSegmentNr s (int pos + int rc)) ct seg s = Some ((OkStatus, ct', ?sg), s')"
      "ready x s' pt" "length (b_mem_block ct') = p + ov"
      using ReadAndDecryptSegment_ready [OF less.prems(1) _ less.prems(4), of ?nr seg] 4(2) unfolding nr by auto
    have o: "po = offset_in ?q" using less.prems(7) 4(1) by simp
    have po: "po \<le> length ?sg" using offset_in_le [OF I less.prems(2)] unfolding o .
    note R = segment_rest(2) [OF F(1,7) less.prems(2) 4(2)]
    have rest: "drop po ?sg = take (p - ?m) (drop ?q pt)"
      using pt_seg_from [OF F(1,2), of ?q pt] unfolding o offset_in_def by simp
    then have "length (drop po ?sg) = length (take (p - ?m) (drop ?q pt))" by simp
    moreover have "p - ?m \<le> length pt - ?q" using R by linarith
    ultimately have len: "length ?sg - po = p - ?m" by simp
    define k where "k = min (length ?sg - po) n"
    define dest' where "dest' = copy_to rc (take k (drop po ?sg)) (dest\<lparr>b_size := rc + k\<rparr>)"
    have k: "k \<le> length ?sg - po" "rc + k \<le> length (b_mem_block dest)" using less.prems(3) unfolding k_def by simp_all
    note C = copied [OF less.prems(6) rest k dest'_def]
    note step = pread_loop_step [OF rd(1) 4(1) _ po k_def k(2), unfolded Let_def, folded dest'_def]
    have kn: "0 < k" "k \<le> n" "n - k < n" "rc + k + (n - k) = rc + n" using R len 4(1) unfolding k_def by auto
    have q': "pos + (rc + k) < length pt" using R k(1) len by simp
    have off: "0 < n - k \<longrightarrow> 0 = offset_in (pos + (rc + k))"
    proof
      assume "0 < n - k"
      then have "k = p - ?m" using len unfolding k_def by simp
      then have "pos + (rc + k) = ?q + (p - ?m)" by simp
      then show "0 = offset_in (pos + (rc + k))" unfolding offset_in_def using R by (metis nat.distinct(1))
    qed
    have "\<exists>dest'' s''. pread_loop sops rops (int pos) (int (rc + k + (n - k))) (int 0) (rc + k) (int (n - k)) ct' ?sg dest' s' =
       Some ((if 0 < n - k \<and> length pt \<le> pos + (rc + k + (n - k)) then Inl kOutOfRange else OkStatus, dest''), s'') \<and> ready x s'' pt \<and>
     length (b_mem_block dest'') = length (b_mem_block dest') \<and> b_size dest'' = length (take (rc + k + (n - k)) (drop pos pt)) \<and>
     buffer_bytes dest'' = take (rc + k + (n - k)) (drop pos pt)"
      using less.prems(3) C(1) kn(2) q' segment_nr_le [OF F(1,7) q']
      by (intro less.IH [OF kn(3) rd(2) _ _ rd(3) C(2,3) off]) simp_all
    moreover have "(0 < n - k \<and> length pt \<le> pos + (rc + n)) = (0 < n \<and> length pt \<le> pos + (rc + n))"
      using q' kn by auto
    ultimately show ?thesis using step C(1) unfolding kn(4) by simp
  qed
qed
end

context decrypting_random_access
begin

text \<open>A stream that was not used yet, over a source whose header and segments decrypt to \<open>pt\<close>.\<close>

definition fresh :: "bytes \<Rightarrow> ('e, 's) DecRandomAccess \<Rightarrow> bytes \<Rightarrow> bool" where
  "fresh x s pt \<longleftrightarrow>
     dr_status s = Inl kUnavailable \<and> inv (dr_segment_decrypter s) \<and> holds (dr_ct_source s) x \<and>
     last_seg start p pt < 2 ^ 32 \<and> length x = start + length pt + ov * Suc (last_seg start p pt) \<and>
     (\<exists>dec'. sd_Init sops (take hs (drop (start - hs) x)) (dr_segment_decrypter s) = (OkStatus, dec') \<and>
        (\<forall>i \<le> last_seg start p pt.
           sd_DecryptSegment sops (ct_seg start (p + ov) x i) i (i = last_seg start p pt) dec' = Inr (pt_seg start p pt i)))"

definition dra_holds :: "('e, 's) DecRandomAccess \<Rightarrow> bytes \<Rightarrow> bool" where
  "dra_holds s pt \<longleftrightarrow> (\<exists>x. ready x s pt \<or> fresh x s pt)"

lemma DecRA_read_header_fresh:
  assumes s: "dr_status s = Inl kUnavailable" "inv (dr_segment_decrypter s)" "holds (dr_ct_source s) x" "start < length x"
    and i: "sd_Init sops (take hs (drop (start - hs) x)) (dr_segment_decrypter s) = (OkStatus, dec')"
  shows "\<exists>src'. DecRA_read_header sops rops s =
      Some (s\<lparr>dr_header_size := int hs, dr_ct_offset := int start - int hs, dr_ct_source := src', dr_segment_decrypter := dec', dr_status := OkStatus\<rparr>) \<and>
    holds src' x"
proof -
  note F = start_facts [OF s(2)]
  have "int (start - hs) + int hs = int start" using F(3) by simp
  also have "\<dots> < 2 ^ 63" using F(2) small [OF s(2)] by simp
  finally have small': "int (start - hs) + int hs < 2 ^ 63" .
  let ?b = "\<lparr>b_mem_block = replicate hs 0, b_size = hs\<rparr> :: Buffer"
  have b: "Buffer_New (int hs) = Inr ?b" using F(6) by (simp add: Buffer_New_def)
  obtain b' src' where P: "ra_PRead rops (int (start - hs)) (int hs) ?b (dr_ct_source s) = Some ((OkStatus, b'), src')"
    "holds src' x" "length (b_mem_block b') = hs" "b_size b' = length (take hs (drop (start - hs) x))" "buffer_bytes b' = take hs (drop (start - hs) x)"
    using src.PRead [OF s(3) F(6), of ?b "start - hs"] F(3) s(4) small' less_or_eq_imp_le diff_le_self [of start hs] by force
  have h: "take hs (b_mem_block b') = take hs (drop (start - hs) x)" using P(3,4,5) s(4) F(3) by (simp add: buffer_bytes_def)
  have o: "sd_get_ciphertext_offset sops (dr_segment_decrypter s) = int (start - hs)" "int start - int hs = int (start - hs)"
    using F(3,5) by simp_all
  show ?thesis
    using P(1,2) h i unfolding DecRA_read_header_def Let_def header_size [OF s(2)] o b by (intro exI [of _ src']) simp
qed

lemma segment_count:
  assumes "inv e" and "n = start + length pt + ov * Suc (last_seg start p pt)"
  shows "int n div int (p + ov) + (if int n mod int (p + ov) > 0 then 1 else 0) = int (Suc (last_seg start p pt))"
proof -
  let ?L = "last_seg start p pt" and ?cs = "p + ov"
  note F = start_facts [OF assms(1)]
  have b: "?L * p < start + length pt" "start + length pt \<le> Suc ?L * p" using last_seg_bounds [OF F(1,7)] by simp_all
  define r where "r = start + length pt - ?L * p + ov"
  have n: "n = ?L * ?cs + r" using b(1) unfolding assms(2) r_def by (simp add: algebra_simps)
  have r: "0 < r" "r \<le> ?cs" using b unfolding r_def by simp_all
  have "n div ?cs + (if n mod ?cs > 0 then 1 else 0) = Suc ?L"
  proof (cases "r = ?cs")
    case True
    then have "n = Suc ?L * ?cs" using n by simp
    then show ?thesis using F(1) by simp
  next
    case False
    with r F(1) have "?cs \<noteq> 0" "r < ?cs" by simp_all
    then have "n div ?cs = ?L" "n mod ?cs = r" unfolding n by (metis div_mult_self3 div_less add_0_right, metis mod_mult_self3 mod_less)
    with r(1) show ?thesis by simp
  qed
  then have "int (n div ?cs + (if n mod ?cs > 0 then 1 else 0)) = int (Suc ?L)" by simp
  moreover have "int n mod int ?cs > 0 \<longleftrightarrow> n mod ?cs > 0" "int n div int ?cs = int (n div ?cs)"
    by (simp_all only: zmod_int [symmetric] zdiv_int [symmetric] of_nat_0_less_iff)
  ultimately show ?thesis by auto
qed

lemma Initialize_fresh:
  assumes f: "fresh x s pt"
  shows "\<exists>s'. InitializeIfNeeded sops rops s = Some s' \<and> ready x s' pt"
proof -
  let ?L = "last_seg start p pt"
  from f obtain dec' where A: "dr_status s = Inl kUnavailable" "inv (dr_segment_decrypter s)" "holds (dr_ct_source s) x" "?L < 2 ^ 32"
    "length x = start + length pt + ov * Suc ?L"
    "sd_Init sops (take hs (drop (start - hs) x)) (dr_segment_decrypter s) = (OkStatus, dec')"
    "\<forall>i \<le> ?L. sd_DecryptSegment sops (ct_seg start (p + ov) x i) i (i = ?L) dec' = Inr (pt_seg start p pt i)"
    by (auto simp: fresh_def)
  have d: "inv dec'" by (rule init [OF A(2,6)])
  have "start < length x" using A(5) overhead [OF d] by simp
  from DecRA_read_header_fresh [OF A(1-3) this A(6)] obtain src1 where
    h: "DecRA_read_header sops rops s = Some (s\<lparr>dr_header_size := int hs, dr_ct_offset := int start - int hs, dr_ct_source := src1,
        dr_segment_decrypter := dec', dr_status := OkStatus\<rparr>)" (is "_ = Some ?s1") and h1: "holds src1 x" by blast
  from src.size [OF h1] obtain src2 where z: "ra_size rops src1 = Some (Inr (int (length x)), src2)" "holds src2 x" by blast
  let ?s2 = "?s1\<lparr>dr_ct_segment_size := int (p + ov), dr_pt_segment_size := int p, dr_ct_segment_overhead := int ov, dr_ct_source := src2,
      dr_segment_count := int (Suc ?L), dr_pt_size := int (length pt)\<rparr>"
  have e: "int (p + ov) - int p = int ov" "\<not> int (Suc ?L) - 1 > 2 ^ 32 - 1" using A(4) by simp_all
  have ovh: "int ov * int (Suc ?L) + (int start - int hs) + int hs = int (ov * Suc ?L + start)" by (simp add: algebra_simps)
  have pt: "\<not> int (ov * Suc ?L + start) > int (length x)" "int (length x) - int (ov * Suc ?L + start) = int (length pt)"
    using A(5) by simp_all
  have "DecRA_compute_size sops rops ?s1 = Some ?s2"
    unfolding DecRA_compute_size_def Let_def using z(1) e(2) pt(1)
    by (simp add: segment_size [OF d] plaintext_size [OF d] segment_count [OF d A(5)] e(1) ovh pt(2)
        del: of_nat_Suc of_nat_add mult_Suc_right)
  then have "InitializeIfNeeded sops rops s = Some ?s2" by (simp add: InitializeIfNeeded_def A(1) h)
  moreover have "ready x ?s2 pt" using z(2) d A(4,5,7) by (simp add: ready_def)
  ultimately show ?thesis by blast
qed
end

context decrypting_random_access
begin

lemma ready_initialized: "ready x s pt \<Longrightarrow> InitializeIfNeeded sops rops s = Some s"
  by (simp add: InitializeIfNeeded_def ready_def)

lemma Initialize_holds:
  assumes "dra_holds s pt"
  shows "\<exists>x s'. InitializeIfNeeded sops rops s = Some s' \<and> ready x s' pt"
  using assms Initialize_fresh ready_initialized unfolding dra_holds_def by blast

lemma DecRA_size_holds:
  assumes "dra_holds s pt"
  shows "\<exists>s'. DecRA_size sops rops s = Some (Inr (int (length pt)), s') \<and> dra_holds s' pt"
  using Initialize_holds [OF assms] by (auto simp: DecRA_size_def ready_def dra_holds_def)

lemma DecRA_PRead_holds:
  assumes h: "dra_holds s pt" and n: "n \<le> length (b_mem_block b)" and pos: "pos \<le> length pt" and small: "int pos + int n < 2 ^ 63"
  shows "\<exists>b' s'. DecRA_PRead sops rops (int pos) (int n) b s =
      Some ((if 0 < n \<and> length pt \<le> pos + n then Inl kOutOfRange else OkStatus, b'), s') \<and> dra_holds s' pt \<and>
    length (b_mem_block b') = length (b_mem_block b) \<and> b_size b' = length (take n (drop pos pt)) \<and> buffer_bytes b' = take n (drop pos pt)"
proof -
  let ?b = "b\<lparr>b_size := 0\<rparr>"
  from Initialize_holds [OF h] obtain x s' where i: "InitializeIfNeeded sops rops s = Some s'" "ready x s' pt" by blast
  then have R: "inv (dr_segment_decrypter s')" "dr_status s' = OkStatus" "dr_pt_size s' = int (length pt)" "dr_ct_segment_size s' = int (p + ov)"
    by (auto simp: ready_def)
  note F = start_facts [OF R(1)]
  let ?ct = "\<lparr>b_mem_block = replicate (p + ov) 0, b_size = p + ov\<rparr> :: Buffer"
  have ct: "Buffer_New (int (p + ov)) = Inr ?ct" using F(1) nat_int [of "p + ov"] by (simp add: Buffer_New_def del: of_nat_add nat_int)
  have z: "set_size 0 b = (OkStatus, ?b)" using set_size_ok [of 0 b] by simp
  have past: "(pos + 0 + start) div p \<le> last_seg start p pt \<or> [] = []" by simp
  obtain b' s'' where L: "pread_loop sops rops (int pos) (int n) (int (offset_in pos)) 0 (int n) ?ct [] ?b s' =
       Some ((if 0 < n \<and> length pt \<le> pos + n then Inl kOutOfRange else OkStatus, b'), s'')" "ready x s'' pt"
     "length (b_mem_block b') = length (b_mem_block b)" "b_size b' = length (take n (drop pos pt))" "buffer_bytes b' = take n (drop pos pt)"
    using pread_loop_ready [OF i(2) _ _ _ _ _ _ past, of n ?b ?ct "offset_in pos"] pos n by auto
  have o: "GetPlaintextOffset s' (int pos) = int (offset_in pos)" using ready_numbers(2) [OF i(2)] by (simp add: offset_in_def)
  have "PReadAndDecrypt sops rops (int pos) (int n) ?b s' =
      Some ((if 0 < n \<and> length pt \<le> pos + n then Inl kOutOfRange else OkStatus, b'), s'')"
    using small n pos L(1) unfolding PReadAndDecrypt_def
    by (simp add: DecRA_size_def ready_initialized [OF i(2)] R(2,3,4) ct o allocated_size_def del: of_nat_add)
  then have "DecRA_PRead sops rops (int pos) (int n) b s =
      Some ((if 0 < n \<and> length pt \<le> pos + n then Inl kOutOfRange else OkStatus, b'), s'')"
    using n pos by (simp add: DecRA_PRead_def z i(1) R(2,3) allocated_size_def)
  with L(2-5) show ?thesis unfolding dra_holds_def by blast
qed

lemma fresh_New:
  assumes "DecRA_New sops (Some dec) (Some src) = Inr s" and "inv dec" and "holds src x"
    and "last_seg start p pt < 2 ^ 32" and "length x = start + length pt + ov * Suc (last_seg start p pt)"
    and "sd_Init sops (take hs (drop (start - hs) x)) dec = (OkStatus, dec')"
    and "\<And>i. i \<le> last_seg start p pt \<Longrightarrow>
      sd_DecryptSegment sops (ct_seg start (p + ov) x i) i (i = last_seg start p pt) dec' = Inr (pt_seg start p pt i)"
  shows "dra_holds s pt"
proof -
  have "dr_status s = Inl kUnavailable" "dr_segment_decrypter s = dec" "dr_ct_source s = src"
    using assms(1) by (auto simp: DecRA_New_def split: if_splits)
  with assms(2-) show ?thesis unfolding dra_holds_def fresh_def by auto
qed

end

sublocale decrypting_random_access \<subseteq> dra: random_access "DecRA_ops sops rops" dra_holds
proof
  fix s pt n pos and b :: Buffer
  assume "dra_holds s pt" "0 < n" "n \<le> length (b_mem_block b)" "pos \<le> length pt" "int pos + int n < 2 ^ 63"
  from DecRA_PRead_holds [OF this(1,3-)] \<open>0 < n\<close>
  show "\<exists>st b' s'. ra_PRead (DecRA_ops sops rops) (int pos) (int n) b s = Some ((st, b'), s') \<and> dra_holds s' pt \<and>
        length (b_mem_block b') = length (b_mem_block b) \<and> b_size b' = length (take n (drop pos pt)) \<and>
        buffer_bytes b' = take n (drop pos pt) \<and> (st = OkStatus \<or> st = Inl kOutOfRange) \<and>
        (pos + n < length pt \<longrightarrow> st = OkStatus) \<and> (pos = length pt \<longrightarrow> st = Inl kOutOfRange)"
    by (auto simp: DecRA_ops_def)
qed (use DecRA_size_holds in \<open>simp add: DecRA_ops_def\<close>)

text \<open>A client that reads any number of ranges, each into a buffer of its own.\<close>

fun pread_all :: "'s RandomAccess \<Rightarrow> (nat \<times> nat) list \<Rightarrow> 's \<Rightarrow> ((Status \<times> bytes) list \<times> 's) option" where
  "pread_all ops [] s = Some ([], s)"
| "pread_all ops ((pos, n) # rs) s =
     do {
       ((st, b), s') \<leftarrow> ra_PRead ops (int pos) (int n) \<lparr>b_mem_block = replicate n 0, b_size = n\<rparr> s;
       (rs', s'') \<leftarrow> pread_all ops rs s';
       Some ((st, buffer_bytes b) # rs', s'')
     }"

context decrypting_random_access
begin

lemma pread_all_holds:
  "\<lbrakk>dra_holds s pt; \<forall>(pos, n) \<in> set rs. pos \<le> length pt \<and> int pos + int n < 2 ^ 63\<rbrakk> \<Longrightarrow>
   \<exists>s'. pread_all (DecRA_ops sops rops) rs s =
     Some (map (\<lambda>(pos, n). (if 0 < n \<and> length pt \<le> pos + n then Inl kOutOfRange else OkStatus, take n (drop pos pt))) rs, s') \<and> dra_holds s' pt"
proof (induction rs arbitrary: s)
  case (Cons r rs)
  obtain pos n where r: "r = (pos, n)" by fastforce
  let ?b = "\<lparr>b_mem_block = replicate n 0, b_size = n\<rparr> :: Buffer"
  from Cons.prems(2) have "n \<le> length (b_mem_block ?b)" "pos \<le> length pt" "int pos + int n < 2 ^ 63" by (simp_all add: r)
  from DecRA_PRead_holds [OF Cons.prems(1) this] obtain b' s' where
    p: "DecRA_PRead sops rops (int pos) (int n) ?b s = Some ((if 0 < n \<and> length pt \<le> pos + n then Inl kOutOfRange else OkStatus, b'), s')"
    "dra_holds s' pt" "buffer_bytes b' = take n (drop pos pt)" by blast
  from Cons.IH [OF p(2)] Cons.prems(2) p(1,3) show ?case by (auto simp: r DecRA_ops_def)
qed simp

end

section \<open>Random access to what was written as a stream\<close>

definition gcm_ra_inv :: "Ssl \<Rightarrow> nat \<Rightarrow> nat \<Rightarrow> nat \<Rightarrow> GcmDecrypter \<Rightarrow> bool" where
  "gcm_ra_inv S hs f p d \<longleftrightarrow> gcm_dec_inv S hs (f + 16) (p + 16) d \<and> 0 \<le> gd_ciphertext_offset (gc_params d) \<and> p + 16 < 2 ^ 31"

interpretation gcm_ra: decrypting_random_access "GcmDec_ops S" "gcm_ra_inv S hs f p" hs f p 16 File_ops file_holds for S hs f p
proof (unfold_locales, goal_cases)
  case (5 e x e')
  then show ?case using gcm_dec.init [of S hs "f + 16" "p + 16" e x e'] by (auto simp: gcm_ra_inv_def GcmDec_ops_def dest: GcmDec_Init_params)
next
  case (6 e c i)
  then show ?case using gcm_dec.not_empty unfolding gcm_ra_inv_def by blast
qed (auto simp: gcm_ra_inv_def gcm_dec_inv_def GcmDec_ops_def gc_get_plaintext_segment_size_def)

definition ctr_ra_inv :: "nat \<Rightarrow> nat \<Rightarrow> nat \<Rightarrow> nat \<Rightarrow> CtrHmacDecrypter \<Rightarrow> bool" where
  "ctr_ra_inv t hs f p d \<longleftrightarrow> ctr_dec_inv hs (f + t) (p + t) d \<and> 0 \<le> cs_ciphertext_offset (cd_params d) \<and> p + t < 2 ^ 31 \<and>
     cs_tag_size (cd_params d) = int t \<and> 0 < t"

interpretation ctr_ra: decrypting_random_access "CtrHmacDec_ops S fips" "ctr_ra_inv t hs f p" hs f p t File_ops file_holds for S fips t hs f p
proof (unfold_locales, goal_cases)
  case (5 e x e')
  then show ?case using ctr_dec.init [of hs "f + t" "p + t" e S fips x e']
    by (auto simp: ctr_ra_inv_def CtrHmacDec_ops_def dest: CtrHmacDec_Init_params)
next
  case (6 e c i)
  then show ?case using ctr_dec.not_empty unfolding ctr_ra_inv_def by blast
qed (auto simp: ctr_ra_inv_def ctr_dec_inv_def CtrHmacDec_ops_def)

context decrypting_random_access
begin

lemma holds_of_enc_from:
  assumes n: "DecRA_New sops (Some dec) (Some src) = Inr s" and i: "inv dec" and x: "holds src (y @ h @ c)"
    and h: "length h = hs" and y: "int (length y) = sd_get_ciphertext_offset sops dec" and init: "sd_Init sops h dec = (OkStatus, dec')"
    and c: "enc_from E 0 f p pt = Some c"
    and E: "\<And>i lst s c. E i lst s = Some c \<Longrightarrow> sd_DecryptSegment sops c i lst dec' = Inr s \<and> length c = length s + ov \<and> i < 2 ^ 32"
  shows "dra_holds s pt"
proof -
  note F = start_facts [OF i]
  let ?L = "last_seg start p pt"
  have o: "length (y @ h) = start" using y h F(3,5) by simp
  have len: "\<And>i lst s c. E i lst s = Some c \<Longrightarrow> length c = length s + ov" using E by blast
  have "enc_from E 0 (p - start) p pt = Some c" "0 < start + length pt" using c F(4,7) by simp_all
  from enc_from_segments [OF len F(1) this(1) F(2) this(2) o] have
    G: "length c = length pt + ov * Suc ?L" "\<And>i. i \<le> ?L \<Longrightarrow> E i (i = ?L) (pt_seg start p pt i) = Some (ct_seg start (p + ov) (y @ h @ c) i)"
    by auto
  show ?thesis
  proof (rule fresh_New [OF n i x])
    show "?L < 2 ^ 32" using E [OF G(2) [OF order_refl]] by blast
    show "length (y @ h @ c) = start + length pt + ov * Suc ?L" using G(1) o by simp
    have "start - hs = length y" using o h by simp
    then show "sd_Init sops (take hs (drop (start - hs) (y @ h @ c))) dec = (OkStatus, dec')" using init h by simp
  qed (use E G(2) in blast)
qed

end

lemma gcm_written_holds:
  assumes S: "aead_laws S" "aead_open_laws S"
    and salt: "length salt = nat (gs_derived_key_size G)" and np: "length np = 7"
    and enc: "NewEncryptingStream (GcmEnc_ops S) (Gcm_NewSegmentEncrypter S salt np G ad) (Some (OstreamOutputStream_new out k)) = Inr s"
    and dec: "NewDecryptingRandomAccessStream (GcmDec_ops S) (Gcm_NewSegmentDecrypter G ad) (Some file) = Inr r"
    and wr: "write_all (Enc_ops (GcmEnc_ops S) Ostream_ops) xs s = Some (OkStatus, s')"
    and ctfile: "file_holds file (os_written (oo_output (es_ct_destination s')))"
    and off: "int (length (os_written out)) = gs_ciphertext_offset G" and small: "gs_ciphertext_segment_size G < 2 ^ 31"
  shows "\<exists>hs f p. gcm_ra.dra_holds S hs f p r (concat xs)"
proof -
  from enc obtain e where e: "Gcm_NewSegmentEncrypter S salt np G ad = Inr e"
    "Enc_New (GcmEnc_ops S) (Some e) (Some (OstreamOutputStream_new out k)) = Inr s"
    by (auto simp: NewEncryptingStream_def split: sum.splits)
  from dec obtain d where d: "Gcm_NewSegmentDecrypter G ad = Inr d" "DecRA_New (GcmDec_ops S) (Some d) (Some file) = Inr r"
    by (auto simp: NewDecryptingRandomAccessStream_def split: sum.splits)
  obtain a h f p d' where
    P: "gcm_enc_rep a np h f p e 0" "gcm_dec_inv S (length h) (f + 16) (p + 16) d" "0 < f" "0 < p"
    "GcmDec_Init S h d = (OkStatus, d')" "gc_state d' = Some (np, a)" "sa_tag_size a = 16"
    "gd_ciphertext_segment_size (gc_params d') = int p + 16"
    by (rule gcm_pair [OF e(1) d(1) salt np S(2)]) (rule that)
  from gcm_out.enc.write_all_final [OF gcm_out.enc_rep_New [OF e(2) P(1) ostream_rep_new] wr] obtain c where
    c: "enc_from (gcm_E S a np p) 0 f p (concat xs) = Some c" "ostream_final (es_ct_destination s') (os_written out @ h @ c)"
    unfolding gcm_out.enc_final_def by auto
  have x: "file_holds file (os_written out @ h @ c)" using c(2) ctfile by (simp add: ostream_final_def)
  have G: "gd_ciphertext_offset (gc_params d) = gs_ciphertext_offset G" "gd_ciphertext_segment_size (gc_params d) = gs_ciphertext_segment_size G"
    using d(1) by (auto simp: Gcm_NewSegmentDecrypter_def GcmDec_New_def split: sum.splits)
  have inv: "gcm_ra_inv S (length h) f p d" using P(2) G small off by (auto simp: gcm_ra_inv_def gcm_dec_inv_def)
  have "gcm_ra.dra_holds S (length h) f p r (concat xs)"
  proof (rule gcm_ra.holds_of_enc_from [OF d(2) inv x refl _ _ c(1)])
    show "int (length (os_written out)) = sd_get_ciphertext_offset (GcmDec_ops S) d" using off G(1) by (simp add: GcmDec_ops_def)
    show "sd_Init (GcmDec_ops S) h d = (OkStatus, d')" using P(5) by (simp add: GcmDec_ops_def)
    show "sd_DecryptSegment (GcmDec_ops S) c i lst d' = Inr s \<and> length c = length s + 16 \<and> i < 2 ^ 32"
      if "gcm_E S a np p i lst s = Some c" for i lst s c
      using gcm_dec_E [OF S(1) P(7,6,8) that] that too_many_bound by (auto simp: GcmDec_ops_def gcm_E_def split: if_splits)
  qed
  then show ?thesis by blast
qed

text \<open>
  Random access to an encrypted stream. A plaintext is written in pieces of any sizes through an AES-GCM-HKDF encrypting stream,
  after as many other bytes as the key's ciphertext offset, and the stream closed. Then every read of a range through the
  decrypting random access stream over the resulting file, after any other reads, returns exactly the bytes of the plaintext in this
  range, and the end of the stream exactly if the range reaches the end. The reported size is that of the plaintext. Every read
  returns, and the segment arithmetic does not overflow.
\<close>

theorem random_access_reads:
  assumes S: "aead_laws S" "aead_open_laws S"
    and salt: "length salt = nat (gs_derived_key_size G)" and np: "length np = 7"
    and enc: "NewEncryptingStream (GcmEnc_ops S) (Gcm_NewSegmentEncrypter S salt np G ad) (Some (OstreamOutputStream_new out k)) = Inr s"
    and dec: "NewDecryptingRandomAccessStream (GcmDec_ops S) (Gcm_NewSegmentDecrypter G ad) (Some file) = Inr r"
    and wr: "write_all (Enc_ops (GcmEnc_ops S) Ostream_ops) xs s = Some (OkStatus, s')"
    and ctfile: "file_holds file (os_written (oo_output (es_ct_destination s')))"
    and off: "int (length (os_written out)) = gs_ciphertext_offset G" and small: "gs_ciphertext_segment_size G < 2 ^ 31"
    and rs: "\<forall>(pos, n) \<in> set rs. pos \<le> length (concat xs) \<and> int pos + int n < 2 ^ 63"
  shows "(\<exists>r'. pread_all (DecRA_ops (GcmDec_ops S) File_ops) rs r =
      Some (map (\<lambda>(pos, n). (if 0 < n \<and> length (concat xs) \<le> pos + n then Inl kOutOfRange else OkStatus, take n (drop pos (concat xs)))) rs, r')) \<and>
    (\<exists>r'. DecRA_size (GcmDec_ops S) File_ops r = Some (Inr (int (length (concat xs))), r'))"
proof -
  from gcm_written_holds [OF S salt np enc dec wr ctfile off small] obtain hs f p where h: "gcm_ra.dra_holds S hs f p r (concat xs)" by blast
  from gcm_ra.pread_all_holds [OF h rs] gcm_ra.DecRA_size_holds [OF h] show ?thesis by blast
qed

definition sample_file :: FileRandomAccessStream where
  "sample_file = \<lparr>rf_contents = sample_ciphertext, rf_limit = 1000, rf_error = False, rf_no_size = False\<rparr>"

theorem random_access_reads_witness:
  "\<exists>r r'. NewDecryptingRandomAccessStream (GcmDec_ops sample_ssl) (Gcm_NewSegmentDecrypter sample_gs [9]) (Some sample_file) = Inr r \<and>
     pread_all (DecRA_ops (GcmDec_ops sample_ssl) File_ops) [(2, 2), (0, 9), (5, 1)] r =
       Some ([(OkStatus, [3, 4]), (Inl kOutOfRange, [1, 2, 3, 4, 5]), (Inl kOutOfRange, [])], r')"
proof -
  obtain s' where w: "write_all (Enc_ops (GcmEnc_ops sample_ssl) Ostream_ops) [[1, 2, 3, 4, 5]] sample_stream = Some (OkStatus, s')"
    "os_written (oo_output (es_ct_destination s')) = os_written sample_out @ in_rest sample_in" using sample_stream_written by blast
  have f: "file_holds sample_file (os_written (oo_output (es_ct_destination s')))"
    unfolding w(2) by (simp add: file_holds_def sample_file_def sample_in_def sample_out_def sample_ciphertext_def)
  obtain r where r: "NewDecryptingRandomAccessStream (GcmDec_ops sample_ssl) (Gcm_NewSegmentDecrypter sample_gs [9]) (Some sample_file) = Inr r"
    by (simp add: NewDecryptingRandomAccessStream_def Gcm_NewSegmentDecrypter_def GcmDec_New_def GcmDec_Validate_def sample_gs_def DecRA_New_def
        GcmDec_ops_def gc_get_header_size_def gc_get_plaintext_segment_size_def)
  from random_access_reads [OF sample_ssl_laws(1) sample_ssl_stream_laws(1) _ _ sample_stream_new r w(1) f, of "[(2, 2), (0, 9), (5, 1)]"] r
  show ?thesis by (simp add: sample_gs_def sample_out_def)
qed

end
