(* ===== verification/Streaming_Wrapper.thy ===== *)
theory Streaming_Wrapper
  imports Random_Access
begin

text \<open>
  Streaming AEAD for keysets (\<^verbatim>\<open>tink/streamingaead/streaming_aead_wrapper.cc\<close>,
  \<^verbatim>\<open>decrypting_input_stream.cc\<close>, \<^verbatim>\<open>decrypting_random_access_stream.cc\<close>,
  \<^verbatim>\<open>buffered_input_stream.cc\<close>, \<^verbatim>\<open>shared_input_stream.h\<close>). Ciphertext streams carry no key id, so a
  decrypting stream tries the keys one after the other on the beginning of the stream, which it keeps in a buffer that can be
  rewound until a key matches.

  \<^verbatim>\<open>SharedInputStream\<close> forwards every call to the buffered stream that all attempts share. The stream that
  holds it is the only one that uses it until it is dropped, so the state of the shared stream is read back from there
  (\<open>sf_source\<close>).
\<close>

section \<open>Definitions\<close>

subsection \<open>Buffered input stream\<close>

record 's BufferedInputStream =
  bi_input_stream :: 's
  bi_count_in_buffer :: nat
  bi_count_backedup :: nat
  bi_position :: int
  bi_buffer :: bytes
  bi_buffer_offset :: nat
  bi_after_rewind :: bool
  bi_rewinding_enabled :: bool
  bi_direct_access :: bool
  bi_status :: Status

definition BufferedInputStream_new :: "'s \<Rightarrow> 's BufferedInputStream" where
  "BufferedInputStream_new input_stream' =
     \<lparr>bi_input_stream = input_stream', bi_count_in_buffer = 0, bi_count_backedup = 0, bi_position = 0,
      bi_buffer = vector_resize (4 * 1024) [], bi_buffer_offset = 0, bi_after_rewind = False, bi_rewinding_enabled = True,
      bi_direct_access = False, bi_status = OkStatus\<rparr>"

definition Buffered_direct :: "'s InputStream \<Rightarrow> 's BufferedInputStream \<Rightarrow> (bytes StatusOr \<times> 's BufferedInputStream) option" where
  "Buffered_direct iops b = do { (r, src) \<leftarrow> is_Next iops (bi_input_stream b); Some (r, b\<lparr>bi_input_stream := src\<rparr>) }"

definition Buffered_read :: "'s InputStream \<Rightarrow> 's BufferedInputStream \<Rightarrow> (bytes StatusOr \<times> 's BufferedInputStream) option" where
  "Buffered_read iops b =
     do {
       (r, src) \<leftarrow> is_Next iops (bi_input_stream b);
       (let b1 = b\<lparr>bi_after_rewind := False, bi_input_stream := src\<rparr>
        in case r of
             Inl e \<Rightarrow> Some (Inl e, b1\<lparr>bi_status := Inl e\<rparr>)
           | Inr buf \<Rightarrow>
               let n = bi_count_in_buffer b; sz = length (bi_buffer b); count_read = length buf;
                   resized = (if sz < n + count_read then vector_resize (sz + max sz count_read) (bi_buffer b) else bi_buffer b);
                   buffer' = take n resized @ buf @ drop (n + count_read) resized
               in Some (Inr (take count_read (drop n buffer')),
                        b1\<lparr>bi_buffer := buffer', bi_buffer_offset := n, bi_count_backedup := 0,
                           bi_count_in_buffer := n + count_read, bi_position := bi_position b + int count_read\<rparr>))
     }"

definition Buffered_Next :: "'s InputStream \<Rightarrow> 's BufferedInputStream \<Rightarrow> (bytes StatusOr \<times> 's BufferedInputStream) option" where
  "Buffered_Next iops b =
     (if bi_direct_access b then Buffered_direct iops b
      else case bi_status b of
             Inl e \<Rightarrow> Some (Inl e, b)
           | Inr _ \<Rightarrow>
               let n = bi_count_in_buffer b
               in if bi_after_rewind b \<and> n > 0
                  then Some (Inr (take n (bi_buffer b)), b\<lparr>bi_after_rewind := False, bi_position := int n\<rparr>)
                  else if bi_count_backedup b > 0
                  then let off = n - bi_count_backedup b
                       in Some (Inr (take (bi_count_backedup b) (drop off (bi_buffer b))),
                                b\<lparr>bi_buffer_offset := off, bi_count_backedup := 0, bi_position := int n\<rparr>)
                  else if \<not> bi_rewinding_enabled b
                  then Buffered_direct iops (b\<lparr>bi_direct_access := True, bi_buffer := []\<rparr>)
                  else Buffered_read iops b)"

definition Buffered_BackUp :: "'s InputStream \<Rightarrow> int \<Rightarrow> 's BufferedInputStream \<Rightarrow> 's BufferedInputStream" where
  "Buffered_BackUp iops cnt b =
     (if bi_direct_access b then b\<lparr>bi_input_stream := is_BackUp iops cnt (bi_input_stream b)\<rparr>
      else if isl (bi_status b) \<or> cnt < 1 \<or> bi_count_backedup b = bi_count_in_buffer b - bi_buffer_offset b then b
      else
        let actual_count = min (nat cnt) (bi_count_in_buffer b - bi_buffer_offset b - bi_count_backedup b)
        in b\<lparr>bi_count_backedup := bi_count_backedup b + actual_count, bi_position := bi_position b - int actual_count\<rparr>)"

definition DisableRewinding :: "'s BufferedInputStream \<Rightarrow> 's BufferedInputStream" where
  "DisableRewinding b = b\<lparr>bi_rewinding_enabled := False\<rparr>"

definition Rewind :: "'s BufferedInputStream \<Rightarrow> Status \<times> 's BufferedInputStream" where
  "Rewind b =
     (if \<not> bi_rewinding_enabled b then (Inl kInvalidArgument, b)
      else
        let b' = (if bi_status b = OkStatus \<or> bi_status b = Inl kOutOfRange
                  then b\<lparr>bi_status := OkStatus, bi_position := 0, bi_count_backedup := 0, bi_buffer_offset := 0, bi_after_rewind := True\<rparr>
                  else b)
        in (bi_status b', b'))"

definition Buffered_ops :: "'s InputStream \<Rightarrow> 's BufferedInputStream InputStream" where
  "Buffered_ops iops = \<lparr>is_Next = Buffered_Next iops, is_BackUp = Buffered_BackUp iops\<rparr>"

subsection \<open>Decrypting with a set of keys\<close>

text \<open>
  What is used of \<^verbatim>\<open>StreamingAead\<close> primitives: they make decrypting streams over a source, whose state is part of the
  state of the stream.
\<close>

record ('p, 'b, 's) StreamingFns =
  sf_NewDecryptingStream :: "'p \<Rightarrow> 'b \<Rightarrow> bytes \<Rightarrow> 's StatusOr"
  sf_ops :: "'s InputStream"
  sf_source :: "'s \<Rightarrow> 'b"
  sf_map_source :: "('b \<Rightarrow> 'b) \<Rightarrow> 's \<Rightarrow> 's"

record ('b, 's) SetDecStream =
  sd_buffered_ct_source :: 'b
  sd_associated_data :: bytes
  sd_attempted_matching :: bool
  sd_matching_stream :: "'s option"

definition SetDec_New :: "'b \<Rightarrow> bytes \<Rightarrow> ('b BufferedInputStream, 's) SetDecStream" where
  "SetDec_New ciphertext_source associated_data =
     \<lparr>sd_buffered_ct_source = BufferedInputStream_new ciphertext_source, sd_associated_data = associated_data,
      sd_attempted_matching = False, sd_matching_stream = None\<rparr>"

text \<open>The loop over the primitives: the result, the buffered stream, and the stream that matched.\<close>

fun match_loop ::
    "('p, 'b BufferedInputStream, 's) StreamingFns \<Rightarrow> bytes \<Rightarrow> 'p list \<Rightarrow> 'b BufferedInputStream \<Rightarrow>
     (bytes StatusOr \<times> 'b BufferedInputStream \<times> 's option) option" where
  "match_loop F ad [] b = Some (Inl kInvalidArgument, b, None)"
| "match_loop F ad (p # ps) b =
     do {
       (r, s) \<leftarrow> (case sf_NewDecryptingStream F p b ad of
                    Inl e \<Rightarrow> Some (Inl e, None)
                  | Inr s0 \<Rightarrow> do { (r, s1) \<leftarrow> is_Next (sf_ops F) s0; Some (r, Some s1) });
       (case s of
          Some s1 \<Rightarrow>
            if \<not> isl r \<or> r = Inl kOutOfRange
            then Some (r, sf_source F s1, Some (sf_map_source F DisableRewinding s1))
            else (case Rewind (sf_source F s1) of
                    (Inl e, b') \<Rightarrow> Some (Inl e, b', None)
                  | (Inr _, b') \<Rightarrow> match_loop F ad ps b')
        | None \<Rightarrow>
            (case Rewind b of
               (Inl e, b') \<Rightarrow> Some (Inl e, b', None)
             | (Inr _, b') \<Rightarrow> match_loop F ad ps b'))
     }"

definition SetDec_Next ::
    "('p, 'b BufferedInputStream, 's) StreamingFns \<Rightarrow> 'p list \<Rightarrow> ('b BufferedInputStream, 's) SetDecStream \<Rightarrow>
     (bytes StatusOr \<times> ('b BufferedInputStream, 's) SetDecStream) option" where
  "SetDec_Next F prims s =
     (case sd_matching_stream s of
        Some m \<Rightarrow> do { (r, m') \<leftarrow> is_Next (sf_ops F) m; Some (r, s\<lparr>sd_matching_stream := Some m'\<rparr>) }
      | None \<Rightarrow>
          if sd_attempted_matching s then Some (Inl kInvalidArgument, s)
          else do {
                 (r, b, m) \<leftarrow> match_loop F (sd_associated_data s) prims (sd_buffered_ct_source s);
                 Some (r, s\<lparr>sd_attempted_matching := True, sd_buffered_ct_source := b, sd_matching_stream := m\<rparr>)
               })"

definition SetDec_BackUp ::
    "('p, 'b BufferedInputStream, 's) StreamingFns \<Rightarrow> int \<Rightarrow> ('b BufferedInputStream, 's) SetDecStream \<Rightarrow> ('b BufferedInputStream, 's) SetDecStream" where
  "SetDec_BackUp F cnt s =
     (case sd_matching_stream s of None \<Rightarrow> s | Some m \<Rightarrow> s\<lparr>sd_matching_stream := Some (is_BackUp (sf_ops F) cnt m)\<rparr>)"

definition SetDec_ops ::
    "('p, 'b BufferedInputStream, 's) StreamingFns \<Rightarrow> 'p list \<Rightarrow> ('b BufferedInputStream, 's) SetDecStream InputStream" where
  "SetDec_ops F prims = \<lparr>is_Next = SetDec_Next F prims, is_BackUp = SetDec_BackUp F\<rparr>"

section \<open>The buffered stream\<close>

text \<open>A stream that reported an error keeps reporting it.\<close>

locale sticky_input_stream = input_stream ops rep
  for ops :: "'s InputStream" and rep +
  fixes failed :: "'s \<Rightarrow> absl_code \<Rightarrow> bool"
  assumes fails: "\<lbrakk>rep s l d e; is_Next ops s = Some (Inl e', s')\<rbrakk> \<Longrightarrow> failed s' e"
    and failed_next: "failed s e \<Longrightarrow> \<exists>s'. is_Next ops s = Some (Inl e, s') \<and> failed s' e"
begin

text \<open>The source still has \<open>d\<close>, or it failed after it had returned everything.\<close>

definition source_has :: "'s \<Rightarrow> bytes \<Rightarrow> absl_code \<Rightarrow> bool" where
  "source_has s d e \<longleftrightarrow> (\<exists>l. rep s l d e) \<or> (failed s e \<and> d = [])"

lemma source_has_next:
  assumes "source_has s d e"
  obtains (error) s' where "is_Next ops s = Some (Inl e, s')" "d = []" "source_has s' [] e"
  | (data) b d' s' where "is_Next ops s = Some (Inr b, s')" "d = b @ d'" "rep s' b d' e" "b = [] \<Longrightarrow> \<exists>s''. is_Next ops s' = Some (Inl e, s'')"
proof (cases "failed s e \<and> d = []")
  case True
  with failed_next [of s e] error show ?thesis by (auto simp: source_has_def)
next
  case False
  with assms obtain l where r: "rep s l d e" by (auto simp: source_has_def)
  from next_returns [OF r] obtain x s' where nx: "is_Next ops s = Some (x, s')" by auto
  show ?thesis
  proof (cases x)
    case (Inl e')
    with next_error [OF r] fails [OF r] nx have "e' = e" "d = []" "failed s' e" by auto
    with nx Inl error show ?thesis by (simp add: source_has_def)
  next
    case (Inr b)
    from next_data [OF r nx [unfolded Inr]] obtain d' where d: "d = b @ d'" "rep s' b d' e" by blast
    show ?thesis by (rule data [OF nx [unfolded Inr] d]) (use next_empty [OF r] nx Inr in blast)
  qed
qed

abbreviation buffered :: "'s BufferedInputStream \<Rightarrow> bytes" where
  "buffered b \<equiv> take (bi_count_in_buffer b) (bi_buffer b)"

abbreviation well_buffered :: "'s BufferedInputStream \<Rightarrow> bool" where
  "well_buffered b \<equiv> bi_count_in_buffer b \<le> length (bi_buffer b) \<and> bi_buffer_offset b + bi_count_backedup b \<le> bi_count_in_buffer b"

text \<open>
  A buffered stream as an input stream, and what a stream that can be rewound holds: everything that was read from the source is in
  the buffer.
\<close>

definition buf_rep :: "'s BufferedInputStream \<Rightarrow> bytes \<Rightarrow> bytes \<Rightarrow> absl_code \<Rightarrow> bool" where
  "buf_rep b l d e \<longleftrightarrow>
     (if bi_direct_access b then rep (bi_input_stream b) l d e
      else bi_status b = OkStatus \<and> well_buffered b \<and>
        (\<exists>r. source_has (bi_input_stream b) r e \<and>
          (if bi_after_rewind b \<and> 0 < bi_count_in_buffer b
           then bi_count_backedup b = 0 \<and> bi_buffer_offset b = 0 \<and> l = [] \<and> d = buffered b @ r
           else l = take (bi_count_in_buffer b - bi_buffer_offset b - bi_count_backedup b) (drop (bi_buffer_offset b) (bi_buffer b)) \<and>
                d = drop (bi_count_in_buffer b - bi_count_backedup b) (buffered b) @ r)))"

definition rewindable :: "bytes \<Rightarrow> absl_code \<Rightarrow> 's BufferedInputStream \<Rightarrow> bool" where
  "rewindable c e b \<longleftrightarrow>
     \<not> bi_direct_access b \<and> bi_rewinding_enabled b \<and> well_buffered b \<and> (bi_status b = OkStatus \<or> bi_status b = Inl e) \<and>
     (\<exists>d. source_has (bi_input_stream b) d e \<and> c = buffered b @ d)"

lemma buf_new:
  assumes "rep src l x e"
  shows "buf_rep (BufferedInputStream_new src) [] x e" and "rewindable x e (BufferedInputStream_new src)"
  using assms by (auto simp: buf_rep_def rewindable_def BufferedInputStream_new_def source_has_def)

lemma Rewind_rewindable:
  assumes "rewindable c e b" and "e = kOutOfRange \<or> bi_status b = OkStatus"
  shows "\<exists>b'. Rewind b = (OkStatus, b') \<and> buf_rep b' [] c e \<and> rewindable c e b'"
  using assms by (auto simp: Rewind_def rewindable_def buf_rep_def Let_def)

text \<open>Appending what was read to the buffer, which is enlarged if need be.\<close>

lemma Buffered_read_buffer:
  assumes n: "n \<le> length buf"
    and r: "r = (if length buf < n + length x then vector_resize (length buf + max (length buf) (length x)) buf else buf)"
    and b': "b' = take n r @ x @ drop (n + length x) r"
  shows "n + length x \<le> length b'" and "take n b' = take n buf" and "take (length x) (drop n b') = x" and "take (n + length x) b' = take n buf @ x"
proof -
  have l: "n + length x \<le> length r" using n unfolding r by (auto simp: max_def)
  have t: "take n r = take n buf" using n unfolding r by (auto simp: vector_resize_def)
  have k: "length (take n r) = n" using l by simp
  show "n + length x \<le> length b'" using l unfolding b' by simp
  show "take n b' = take n buf" unfolding b' using t k by simp
  show "take (length x) (drop n b') = x" unfolding b' using k by simp
  show "take (n + length x) b' = take n buf @ x" unfolding b' using t k by simp
qed

lemma Buffered_read_cases:
  assumes s: "source_has (bi_input_stream b) r e" and w: "bi_count_in_buffer b \<le> length (bi_buffer b)" and st: "bi_status b = OkStatus"
  obtains (error) src where "Buffered_read ops b = Some (Inl e, b\<lparr>bi_after_rewind := False, bi_input_stream := src, bi_status := Inl e\<rparr>)"
      "r = []" "source_has src [] e"
  | (data) x r' b' where "Buffered_read ops b = Some (Inr x, b')" "r = x @ r'" "rep (bi_input_stream b') x r' e"
      "x = [] \<Longrightarrow> \<exists>s''. is_Next ops (bi_input_stream b') = Some (Inl e, s'')"
      "bi_rewinding_enabled b' = bi_rewinding_enabled b" "bi_direct_access b' = bi_direct_access b" "\<not> bi_after_rewind b'"
      "bi_count_backedup b' = 0" "bi_status b' = OkStatus" "bi_buffer_offset b' = bi_count_in_buffer b"
      "bi_count_in_buffer b' = bi_count_in_buffer b + length x" "bi_count_in_buffer b' \<le> length (bi_buffer b')"
      "take (length x) (drop (bi_count_in_buffer b) (bi_buffer b')) = x" "buffered b' = buffered b @ x"
  using s
proof (cases rule: source_has_next)
  case (error s')
  then show ?thesis by (intro that(1)) (simp_all add: Buffered_read_def)
next
  case (data x r' s')
  let ?n = "bi_count_in_buffer b" and ?buf = "bi_buffer b"
  define rs where "rs = (if length ?buf < ?n + length x then vector_resize (length ?buf + max (length ?buf) (length x)) ?buf else ?buf)"
  define nb where "nb = take ?n rs @ x @ drop (?n + length x) rs"
  note B = Buffered_read_buffer [OF w rs_def nb_def]
  let ?b = "b\<lparr>bi_after_rewind := False, bi_input_stream := s', bi_buffer := nb, bi_buffer_offset := ?n, bi_count_backedup := 0,
      bi_count_in_buffer := ?n + length x, bi_position := bi_position b + int (length x)\<rparr>"
  have "Buffered_read ops b = Some (Inr x, ?b)"
    unfolding Buffered_read_def data(1) Let_def bind.bind_lunit prod.case sum.case rs_def [symmetric] nb_def [symmetric] B(3) by simp
  then show ?thesis using data B st by (intro that(2) [of x ?b r']) simp_all
qed

lemma Buffered_read_rewindable:
  assumes r: "rewindable c e b" and st: "bi_status b = OkStatus" and rd: "Buffered_read ops b = Some (x, b')"
  shows "rewindable c e b'"
proof -
  from r obtain d where R: "\<not> bi_direct_access b" "bi_rewinding_enabled b" "well_buffered b" "source_has (bi_input_stream b) d e"
    "c = buffered b @ d" by (auto simp: rewindable_def)
  have w: "bi_count_in_buffer b \<le> length (bi_buffer b)" using R(3) by simp
  from R(4) w st show ?thesis
  proof (cases rule: Buffered_read_cases)
    case (error src)
    then show ?thesis using rd R by (auto simp: rewindable_def)
  next
    case (data y r' b1)
    then have "source_has (bi_input_stream b1) r' e" by (auto simp: source_has_def)
    moreover have "b' = b1" using data(1) rd by simp
    moreover have "c = buffered b1 @ r'" using R(5) data(2,14) by simp
    ultimately show ?thesis using data R(1-3) unfolding rewindable_def by auto
  qed
qed

lemma Buffered_Next_rewindable:
  assumes r: "rewindable c e b" and n: "Buffered_Next ops b = Some (x, b')"
  shows "rewindable c e b'"
proof (cases "bi_status b")
  case (Inl er)
  then show ?thesis using r n by (simp add: Buffered_Next_def rewindable_def)
next
  case (Inr u)
  then have "bi_status b = OkStatus" by simp
  then show ?thesis using r n Buffered_read_rewindable [OF r]
    by (auto simp: Buffered_Next_def rewindable_def Let_def split: if_splits)
qed

lemma Buffered_BackUp_rewindable: "rewindable c e b \<Longrightarrow> rewindable c e (Buffered_BackUp ops j b)"
  by (auto simp: Buffered_BackUp_def rewindable_def Let_def min_def)

end

context sticky_input_stream
begin

lemma buf_direct:
  assumes s: "source_has src r e" and b: "bi_direct_access b" "bi_input_stream b = src"
  obtains (error) b' where "Buffered_direct ops b = Some (Inl e, b')" "r = []"
  | (data) x r' b' where "Buffered_direct ops b = Some (Inr x, b')" "r = x @ r'" "buf_rep b' x r' e"
      "x = [] \<Longrightarrow> \<exists>b''. Buffered_Next ops b' = Some (Inl e, b'')"
  using s
proof (cases rule: source_has_next)
  case (error s')
  then show ?thesis using b by (intro that(1)) (simp_all add: Buffered_direct_def)
next
  case (data x r' s')
  let ?b = "b\<lparr>bi_input_stream := s'\<rparr>"
  show ?thesis
  proof (rule that(2))
    show "Buffered_direct ops b = Some (Inr x, ?b)" using data b by (simp add: Buffered_direct_def)
    show "buf_rep ?b x r' e" using data b by (simp add: buf_rep_def)
    show "\<exists>b''. Buffered_Next ops ?b = Some (Inl e, b'')" if "x = []"
      using data(4) [OF that] b by (auto simp: Buffered_Next_def Buffered_direct_def)
  qed (use data in blast)
qed

text \<open>The ways a call of \<^verbatim>\<open>Next\<close> comes out.\<close>

lemma Buffered_Next_cases:
  assumes r: "buf_rep b l d e"
  obtains (error) b' where "Buffered_Next ops b = Some (Inl e, b')" "d = []"
  | (data) x d' b' where "Buffered_Next ops b = Some (Inr x, b')" "d = x @ d'" "buf_rep b' x d' e"
      "x = [] \<Longrightarrow> \<exists>b''. Buffered_Next ops b' = Some (Inl e, b'')"
proof (cases "bi_direct_access b")
  case True
  then have "source_has (bi_input_stream b) d e" using r by (auto simp: buf_rep_def source_has_def)
  from this True refl show ?thesis
  proof (cases rule: buf_direct)
    case (error b')
    with True show ?thesis by (intro that(1)) (simp_all add: Buffered_Next_def)
  next
    case (data x r' b')
    with True show ?thesis by (intro that(2) [of x b' r']) (simp_all add: Buffered_Next_def)
  qed
next
  case dir: False
  note R = r [unfolded buf_rep_def if_not_P [OF dir]]
  let ?n = "bi_count_in_buffer b" and ?u = "bi_count_backedup b" and ?o = "bi_buffer_offset b"
  consider "bi_after_rewind b" "0 < ?n" | "\<not> (bi_after_rewind b \<and> 0 < ?n)" "0 < ?u"
    | "\<not> (bi_after_rewind b \<and> 0 < ?n)" "?u = 0" "\<not> bi_rewinding_enabled b"
    | "\<not> (bi_after_rewind b \<and> 0 < ?n)" "?u = 0" "bi_rewinding_enabled b" using neq0_conv by blast
  then show ?thesis
  proof cases
    case 1
    with R obtain x where x: "source_has (bi_input_stream b) x e" "?u = 0" "?o = 0" "d = buffered b @ x" by auto
    let ?b = "b\<lparr>bi_after_rewind := False, bi_position := int ?n\<rparr>"
    show ?thesis
    proof (rule that(2))
      show "Buffered_Next ops b = Some (Inr (buffered b), ?b)" using R dir 1 by (simp add: Buffered_Next_def Let_def)
      show "buf_rep ?b (buffered b) x e" using R dir x by (auto simp: buf_rep_def)
      show "\<exists>b''. Buffered_Next ops ?b = Some (Inl e, b'')" if "buffered b = []" using that R 1 by simp
    qed (rule x(4))
  next
    case 2
    with R obtain x where x: "source_has (bi_input_stream b) x e" "d = drop (?n - ?u) (buffered b) @ x" by auto
    let ?x = "take ?u (drop (?n - ?u) (bi_buffer b))"
    have e: "drop (?n - ?u) (buffered b) = ?x" using R by (simp add: drop_take)
    let ?b = "b\<lparr>bi_buffer_offset := ?n - ?u, bi_count_backedup := 0, bi_position := int ?n\<rparr>"
    have u: "?n - (?n - ?u) = ?u" using R by simp
    show ?thesis
    proof (rule that(2))
      show "Buffered_Next ops b = Some (Inr ?x, ?b)" using R dir 2 by (simp add: Buffered_Next_def Let_def)
      show "d = ?x @ x" using x(2) unfolding e .
      show "buf_rep ?b ?x x e" using R dir 2 x(1) u by (auto simp: buf_rep_def)
      show "\<exists>b''. Buffered_Next ops ?b = Some (Inl e, b'')" if x0: "?x = []"
      proof -
        have "0 < length ?x" using R 2(2) by auto
        with x0 show ?thesis by simp
      qed
    qed
  next
    case 3
    with R have s: "source_has (bi_input_stream b) d e" by auto
    let ?b = "b\<lparr>bi_direct_access := True, bi_buffer := []\<rparr>"
    have n: "Buffered_Next ops b = Buffered_direct ops ?b" using 3 R dir by (auto simp: Buffered_Next_def Let_def)
    have "bi_direct_access ?b" "bi_input_stream ?b = bi_input_stream b" by simp_all
    with s show ?thesis
    proof (cases rule: buf_direct)
      case (error b')
      then show ?thesis by (intro that(1)) (simp_all add: n)
    next
      case (data x r' b')
      then show ?thesis by (intro that(2) [of x b' r']) (simp_all add: n)
    qed
  next
    case 4
    with R have s: "source_has (bi_input_stream b) d e" and w: "?n \<le> length (bi_buffer b)" and st: "bi_status b = OkStatus" by auto
    have n: "Buffered_Next ops b = Buffered_read ops b" using 4 R dir by (auto simp: Buffered_Next_def Let_def)
    from s w st show ?thesis
    proof (cases rule: Buffered_read_cases)
      case (error src)
      then show ?thesis by (intro that(1)) (simp_all add: n)
    next
      case (data x r' b')
      show ?thesis
      proof (rule that(2))
        show "Buffered_Next ops b = Some (Inr x, b')" using data(1) n by simp
        have "source_has (bi_input_stream b') r' e" using data(3) by (auto simp: source_has_def)
        then show "buf_rep b' x r' e" using data dir unfolding buf_rep_def by auto
        show "\<exists>b''. Buffered_Next ops b' = Some (Inl e, b'')" if x: "x = []"
          using data(4) [OF x] data(5-9) 4(3) dir by (auto simp: Buffered_Next_def Buffered_read_def Let_def)
      qed (use data in blast)
    qed
  qed
qed

lemma Buffered_BackUp_rep:
  assumes r: "buf_rep b (l @ g) d e" and j: "nat j = length g"
  shows "buf_rep (Buffered_BackUp ops j b) l (g @ d) e"
proof (cases "bi_direct_access b")
  case True
  then show ?thesis using r j give_back by (simp add: buf_rep_def Buffered_BackUp_def)
next
  case dir: False
  note R = r [unfolded buf_rep_def if_not_P [OF dir]]
  let ?n = "bi_count_in_buffer b" and ?u = "bi_count_backedup b" and ?o = "bi_buffer_offset b"
  show ?thesis
  proof (cases "g = []")
    case True
    then show ?thesis using r j dir by (simp add: Buffered_BackUp_def)
  next
    case False
    then have nr: "\<not> (bi_after_rewind b \<and> 0 < ?n)" using R by (auto split: if_splits)
    from R nr obtain x where x: "source_has (bi_input_stream b) x e" "d = drop (?n - ?u) (buffered b) @ x" by auto
    have lg: "l @ g = take (?n - ?o - ?u) (drop ?o (bi_buffer b))" using R nr by auto
    have "?n - ?o - ?u \<le> length (drop ?o (bi_buffer b))" using R by auto
    with lg have len: "length l + length g = ?n - ?o - ?u" by (metis length_append length_take min.absorb2)
    have m: "min (nat j) (?n - ?o - ?u) = length g" "\<not> j < 1" "?u \<noteq> ?n - ?o" using j len False by auto
    let ?b = "b\<lparr>bi_count_backedup := ?u + length g, bi_position := bi_position b - int (length g)\<rparr>"
    have b': "Buffered_BackUp ops j b = ?b" using m R dir by (auto simp: Buffered_BackUp_def Let_def)
    have n: "length (buffered b) = ?n" "?o + ?u \<le> ?n" using R by auto
    have tk: "take k (drop ?o (buffered b)) = take k (drop ?o (bi_buffer b))" if "k \<le> ?n - ?o" for k
      using that by (simp add: drop_take min_def)
    have lg': "l @ g = take (length (buffered b) - ?o - ?u) (drop ?o (buffered b))" using lg tk [of "?n - ?o - ?u"] n(1) by simp
    have len': "length l + length g = length (buffered b) - ?o - ?u" using len n(1) by simp
    note B = buffer_give_back [OF lg' len']
    have l: "l = take (?n - ?o - (?u + length g)) (drop ?o (bi_buffer b))" using B(1) tk [of "?n - ?o - (?u + length g)"] n(1) by simp
    have d: "g @ d = drop (?n - (?u + length g)) (buffered b) @ x" using B(2) n x(2) by simp
    have w: "?o + (?u + length g) \<le> ?n" using len n False m(3) by linarith
    show ?thesis unfolding b' buf_rep_def using dir nr R x(1) l d w by auto
  qed
qed

end

sublocale sticky_input_stream \<subseteq> buf: input_stream "Buffered_ops ops" buf_rep
proof (unfold_locales, goal_cases)
  case (1 s l d e b s')
  from 1(1) show ?case by (cases rule: Buffered_Next_cases) (use 1(2) in \<open>auto simp: Buffered_ops_def\<close>)
next
  case (2 s l d e e' s')
  from 2(1) show ?case by (cases rule: Buffered_Next_cases) (use 2(2) in \<open>auto simp: Buffered_ops_def\<close>)
next
  case (3 s l d e)
  then show ?case by (cases rule: Buffered_Next_cases) (auto simp: Buffered_ops_def)
next
  case (4 s l d e s')
  from 4(1) show ?case by (cases rule: Buffered_Next_cases) (use 4(2) in \<open>auto simp: Buffered_ops_def\<close>)
next
  case (5 s l g d e j)
  then show ?case using Buffered_BackUp_rep by (simp add: Buffered_ops_def)
qed

interpretation sticky_istream: sticky_input_stream Istream_ops istream_rep "\<lambda>s e. ii_status s = Inl e"
  by unfold_locales
    (auto simp: Istream_ops_def istream_rep_def IstreamInputStream_Next_def istream_read_def Let_def split: if_splits)

section \<open>Trying the keys\<close>

text \<open>
  Decrypting streams over a shared, buffered source. \<open>plain p ad x\<close> gives the plaintext of the ciphertext stream \<open>x\<close> under key \<open>p\<close> and the
  status it ends with, or nothing if no stream can be made; reading keeps the source rewindable, and disabling this does not matter to the
  stream.
\<close>

locale key_streams =
  src: sticky_input_stream iops irep failed + str: input_stream "sf_ops F" rep
  for iops :: "'b InputStream" and irep failed
    and F :: "('p, 'b BufferedInputStream, 's) StreamingFns" and rep +
  fixes plain :: "'p \<Rightarrow> bytes \<Rightarrow> bytes \<Rightarrow> (bytes \<times> absl_code) option \<Rightarrow> bool"
  assumes new_stream: "\<lbrakk>plain p ad x (Some (d, e)); src.buf_rep b [] x kOutOfRange\<rbrakk> \<Longrightarrow>
      \<exists>s. sf_NewDecryptingStream F p b ad = Inr s \<and> rep s [] d e \<and> sf_source F s = b"
    and no_stream: "plain p ad x None \<Longrightarrow> isl (sf_NewDecryptingStream F p b ad)"
    and next_source: "\<lbrakk>src.rewindable c kOutOfRange (sf_source F s); is_Next (sf_ops F) s = Some (r, s')\<rbrakk> \<Longrightarrow>
      src.rewindable c kOutOfRange (sf_source F s')"
    and disable: "rep s l d e \<Longrightarrow> rep (sf_map_source F DisableRewinding s) l d e"
    and empty_end: "\<lbrakk>rep s l d e; is_Next (sf_ops F) s = Some (Inr [], s')\<rbrakk> \<Longrightarrow>
      e = kOutOfRange \<and> (\<exists>s''. is_Next (sf_ops F) (sf_map_source F DisableRewinding s') = Some (Inl kOutOfRange, s''))"
begin

definition rejected :: "bytes \<Rightarrow> bytes \<Rightarrow> 'p \<Rightarrow> bool" where
  "rejected ad x p \<longleftrightarrow> plain p ad x None \<or> (\<exists>e. plain p ad x (Some ([], e)) \<and> e \<noteq> kOutOfRange)"

abbreviation at_start :: "bytes \<Rightarrow> 'b BufferedInputStream \<Rightarrow> bool" where
  "at_start x b \<equiv> src.buf_rep b [] x kOutOfRange \<and> src.rewindable x kOutOfRange b"

lemma rewound:
  assumes "src.rewindable x kOutOfRange b"
  obtains b' where "Rewind b = (OkStatus, b')" "at_start x b'"
  using src.Rewind_rewindable [OF assms] by blast

lemma match_rejected:
  assumes "at_start x b" and "rejected ad x p"
  shows "\<exists>b'. match_loop F ad (p # ps) b = match_loop F ad ps b' \<and> at_start x b'"
proof (cases "plain p ad x None")
  case True
  then obtain e where e: "sf_NewDecryptingStream F p b ad = Inl e" using no_stream [OF True, of b] by (auto simp: isl_def)
  obtain b' where "Rewind b = (OkStatus, b')" "at_start x b'" using assms(1) by (auto elim: rewound)
  with e show ?thesis by auto
next
  case False
  then obtain e where pl: "plain p ad x (Some ([], e))" "e \<noteq> kOutOfRange" using assms(2) by (auto simp: rejected_def)
  from new_stream [OF pl(1)] assms(1) obtain s where s: "sf_NewDecryptingStream F p b ad = Inr s" "rep s [] [] e" "sf_source F s = b" by blast
  from str.next_returns [OF s(2)] obtain r s' where n: "is_Next (sf_ops F) s = Some (r, s')" by auto
  have r: "r = Inl e"
  proof (cases r)
    case (Inl e')
    with str.next_error [OF s(2)] n show ?thesis by simp
  next
    case (Inr y)
    with str.next_data [OF s(2)] n have "y = []" by auto
    with empty_end [OF s(2)] n Inr pl(2) show ?thesis by blast
  qed
  from next_source [OF _ n] assms(1) s(3) have "src.rewindable x kOutOfRange (sf_source F s')" by simp
  then obtain b' where "Rewind (sf_source F s') = (OkStatus, b')" "at_start x b'" by (auto elim: rewound)
  with s(1) n r pl(2) show ?thesis by auto
qed

lemma match_prefix:
  "\<lbrakk>at_start x b; \<forall>p \<in> set ps. rejected ad x p\<rbrakk> \<Longrightarrow> \<exists>b'. match_loop F ad (ps @ qs) b = match_loop F ad qs b' \<and> at_start x b'"
proof (induction ps arbitrary: b)
  case (Cons p ps)
  then obtain b1 where "match_loop F ad (p # (ps @ qs)) b = match_loop F ad (ps @ qs) b1" "at_start x b1"
    using match_rejected [of b x ad p "ps @ qs"] by auto
  with Cons.IH [of b1] Cons.prems(2) show ?case by auto
qed auto

text \<open>The first key that is not rejected decides.\<close>

lemma match_found:
  assumes b: "at_start x b" and rj: "\<forall>p \<in> set ps. rejected ad x p" and pl: "plain p ad x (Some (d, e))" and acc: "d \<noteq> [] \<or> e = kOutOfRange"
  obtains (error) b' m where "match_loop F ad (ps @ p # qs) b = Some (Inl e, b', Some m)" "d = []"
  | (data) y d' b' m where "match_loop F ad (ps @ p # qs) b = Some (Inr y, b', Some m)" "d = y @ d'" "rep m y d' e"
      "y = [] \<Longrightarrow> \<exists>m'. is_Next (sf_ops F) m = Some (Inl e, m')"
proof -
  obtain b1 where b1: "match_loop F ad (ps @ p # qs) b = match_loop F ad (p # qs) b1" "at_start x b1" using match_prefix [OF b rj] by blast
  from new_stream [OF pl] b1(2) obtain s where s: "sf_NewDecryptingStream F p b1 ad = Inr s" "rep s [] d e" by blast
  from str.next_returns [OF s(2)] obtain r s' where n: "is_Next (sf_ops F) s = Some (r, s')" by auto
  show ?thesis
  proof (cases r)
    case (Inl e')
    with str.next_error [OF s(2)] n have "e' = e" "d = []" by auto
    with acc s(1) n Inl b1(1) show ?thesis by (intro that(1)) auto
  next
    case (Inr y)
    from str.next_data [OF s(2)] n Inr obtain d' where d: "d = y @ d'" "rep s' y d' e" by blast
    show ?thesis
    proof (rule that(2))
      show "match_loop F ad (ps @ p # qs) b = Some (Inr y, sf_source F s', Some (sf_map_source F DisableRewinding s'))"
        using s(1) n Inr b1(1) by simp
      show "rep (sf_map_source F DisableRewinding s') y d' e" by (rule disable [OF d(2)])
      show "\<exists>m'. is_Next (sf_ops F) (sf_map_source F DisableRewinding s') = Some (Inl e, m')" if "y = []"
        using empty_end [OF s(2)] n Inr that by auto
    qed (rule d(1))
  qed
qed

text \<open>The stream of the keyset.\<close>

definition set_rep :: "'p list \<Rightarrow> ('b BufferedInputStream, 's) SetDecStream \<Rightarrow> bytes \<Rightarrow> bytes \<Rightarrow> absl_code \<Rightarrow> bool" where
  "set_rep prims s l d e \<longleftrightarrow>
     (case sd_matching_stream s of
        Some m \<Rightarrow> rep m l d e
      | None \<Rightarrow> \<not> sd_attempted_matching s \<and> l = [] \<and> (d \<noteq> [] \<or> e = kOutOfRange) \<and>
          (\<exists>x ps p qs. prims = ps @ p # qs \<and> at_start x (sd_buffered_ct_source s) \<and>
             (\<forall>q \<in> set ps. rejected (sd_associated_data s) x q) \<and> plain p (sd_associated_data s) x (Some (d, e))))"

lemma set_next_cases:
  assumes r: "set_rep prims s l d e"
  obtains (error) s' where "SetDec_Next F prims s = Some (Inl e, s')" "d = []"
  | (data) y d' s' where "SetDec_Next F prims s = Some (Inr y, s')" "d = y @ d'" "set_rep prims s' y d' e"
      "y = [] \<Longrightarrow> \<exists>s''. SetDec_Next F prims s' = Some (Inl e, s'')"
proof (cases "sd_matching_stream s")
  case (Some m)
  with r have m: "rep m l d e" by (simp add: set_rep_def)
  from str.next_returns [OF m] obtain x m' where n: "is_Next (sf_ops F) m = Some (x, m')" by auto
  show ?thesis
  proof (cases x)
    case (Inl e')
    with str.next_error [OF m] n Some show ?thesis by (intro that(1)) (auto simp: SetDec_Next_def)
  next
    case (Inr y)
    from str.next_data [OF m] n Inr obtain d' where d: "d = y @ d'" "rep m' y d' e" by blast
    have "\<exists>m''. is_Next (sf_ops F) m' = Some (Inl e, m'')" if "y = []" using str.next_empty [OF m] n Inr that by blast
    with d n Inr Some show ?thesis
      by (intro that(2) [of y "s\<lparr>sd_matching_stream := Some m'\<rparr>" d']) (auto simp: SetDec_Next_def set_rep_def)
  qed
next
  case None
  with r obtain x ps p qs where R: "\<not> sd_attempted_matching s" "d \<noteq> [] \<or> e = kOutOfRange" "prims = ps @ p # qs"
    "at_start x (sd_buffered_ct_source s)" "\<forall>q \<in> set ps. rejected (sd_associated_data s) x q" "plain p (sd_associated_data s) x (Some (d, e))"
    by (auto simp: set_rep_def)
  from R(4,5,6,2) show ?thesis
  proof (cases rule: match_found [where qs = qs])
    case (error b' m)
    then show ?thesis using R(1,3) None by (intro that(1)) (auto simp: SetDec_Next_def)
  next
    case (data y d' b' m)
    then show ?thesis using R(1,3) None
      by (intro that(2) [of y "s\<lparr>sd_attempted_matching := True, sd_buffered_ct_source := b', sd_matching_stream := Some m\<rparr>" d'])
        (auto simp: SetDec_Next_def set_rep_def)
  qed
qed

end

sublocale key_streams \<subseteq> keys: input_stream "SetDec_ops F prims" "set_rep prims" for prims
proof (unfold_locales, goal_cases)
  case (1 s l d e b s')
  from 1(1) show ?case by (cases rule: set_next_cases) (use 1(2) in \<open>auto simp: SetDec_ops_def\<close>)
next
  case (2 s l d e e' s')
  from 2(1) show ?case by (cases rule: set_next_cases) (use 2(2) in \<open>auto simp: SetDec_ops_def\<close>)
next
  case (3 s l d e)
  then show ?case by (cases rule: set_next_cases) (auto simp: SetDec_ops_def)
next
  case (4 s l d e s')
  from 4(1) show ?case by (cases rule: set_next_cases) (use 4(2) in \<open>auto simp: SetDec_ops_def\<close>)
next
  case (5 s l g d e j)
  then show ?case using str.give_back by (auto simp: SetDec_ops_def SetDec_BackUp_def set_rep_def split: option.splits)
qed

section \<open>What reading does to a source\<close>

text \<open>A decrypting stream only calls \<^verbatim>\<open>Next\<close> and \<^verbatim>\<open>BackUp\<close> on its source, so it keeps what these keep.\<close>

definition keeps :: "'s InputStream \<Rightarrow> ('s \<Rightarrow> bool) \<Rightarrow> bool" where
  "keeps ops P \<longleftrightarrow> (\<forall>s r s'. P s \<and> is_Next ops s = Some (r, s') \<longrightarrow> P s') \<and> (\<forall>j s. P s \<longrightarrow> P (is_BackUp ops j s))"

lemma keepsD: "keeps ops P \<Longrightarrow> P s \<Longrightarrow> is_Next ops s = Some (r, s') \<Longrightarrow> P s'" "keeps ops P \<Longrightarrow> P s \<Longrightarrow> P (is_BackUp ops j s)"
  unfolding keeps_def by blast+

lemma read_loop_keeps:
  assumes "read_loop ops k out a u s = Some y"
  shows "keeps ops P \<longrightarrow> P s \<longrightarrow> P (snd (snd (snd (snd y))))"
proof (rule read_loop.raw_induct [OF _ assms], goal_cases)
  case (1 read_loop' ops k out a u s y)
  show ?case
  proof (intro impI)
    assume K: "keeps ops P" "P s"
    show "P (snd (snd (snd (snd y))))"
    proof (cases "k = 0")
      case True
      then show ?thesis using 1(2) K by auto
    next
      case False
      with 1(2) obtain r s1 where n: "is_Next ops s = Some (r, s1)" by (auto simp: bind_eq_Some_conv)
      note k = keepsD(1) [OF K n]
      show ?thesis
      proof (cases r)
        case (Inl e)
        then show ?thesis using 1(2) n k False by auto
      next
        case (Inr b)
        then have "read_loop' ops (k - min (length b) k) (out @ take (min (length b) k) b) (length b) (min (length b) k) s1 = Some y"
          using 1(2) n False by simp
        from 1(1) [OF this] K(1) k show ?thesis by blast
      qed
    qed
  qed
qed

lemma ReadFromStream_keeps:
  assumes "ReadFromStream ops n s = Some (st, out, s')" and "keeps ops P" and "P s"
  shows "P s'"
proof (cases "n \<le> 0")
  case True
  then show ?thesis using assms by (simp add: ReadFromStream_def)
next
  case False
  with assms(1) obtain st1 o1 a u s1 where r: "read_loop ops (nat n) [] 0 0 s = Some (st1, o1, a, u, s1)"
    by (auto simp: ReadFromStream_def bind_eq_Some_conv)
  have "P s1" using read_loop_keeps [OF r, of P] assms(2,3) by simp
  with keepsD(2) [OF assms(2)] show ?thesis using assms(1) False r by (auto simp: ReadFromStream_def split: sum.splits if_splits)
qed

lemma Dec_read_segment_keeps:
  assumes "Dec_read_segment sops iops s = Some (st, s')" and "keeps iops P" and "P (ds_ct_source s)"
  shows "P (ds_ct_source s')"
proof -
  from assms(1) obtain st1 ct src where r: "ReadFromStream iops (int (length (ds_ct_buffer s))) (ds_ct_source s) = Some (st1, ct, src)"
    by (auto simp: Dec_read_segment_def bind_eq_Some_conv)
  have "P src" by (rule ReadFromStream_keeps [OF r assms(2,3)])
  moreover have "ds_ct_source s' = src" using assms(1) r by (auto simp: Dec_read_segment_def Let_def split: if_splits sum.splits)
  ultimately show ?thesis by simp
qed

lemma Dec_read_header_keeps:
  assumes "Dec_read_header sops iops s = Some (st, s')" and "keeps iops P" and "P (ds_ct_source s)"
  shows "P (ds_ct_source s')"
proof -
  from assms(1) obtain st1 h src where r: "ReadFromStream iops (sd_get_header_size sops (ds_segment_decrypter s)) (ds_ct_source s) = Some (st1, h, src)"
    by (auto simp: Dec_read_header_def bind_eq_Some_conv)
  have "P src" by (rule ReadFromStream_keeps [OF r assms(2,3)])
  moreover have "ds_ct_source s' = src" using assms(1) r by (auto simp: Dec_read_header_def Let_def split: if_splits sum.splits prod.splits)
  ultimately show ?thesis by simp
qed

lemma Dec_Next_keeps:
  assumes n: "Dec_Next sops iops s = Some (r, s')" and K: "keeps iops P" and P: "P (ds_ct_source s)"
  shows "P (ds_ct_source s')"
proof (cases "ds_status s")
  case (Inl e)
  then show ?thesis using n P by (simp add: Dec_Next_def)
next
  case (Inr u)
  note seg = Dec_read_segment_keeps [OF _ K]
  show ?thesis
  proof (cases "ds_is_initialized s")
    case False
    with n Inr obtain st s1 where h: "Dec_read_header sops iops s = Some (st, s1)" by (auto simp: Dec_Next_def bind_eq_Some_conv)
    have P1: "P (ds_ct_source s1)" by (rule Dec_read_header_keeps [OF h K P])
    show ?thesis
    proof (cases st)
      case (Inl e)
      then show ?thesis using n Inr False h P1 by (simp add: Dec_Next_def)
    next
      case r: (Inr v)
      let ?s = "s1\<lparr>ds_is_initialized := True, ds_count_backedup := 0\<rparr>"
      from n Inr False h r obtain st2 s2 where g: "Dec_read_segment sops iops ?s = Some (st2, s2)" by (auto simp: Dec_Next_def bind_eq_Some_conv)
      have "P (ds_ct_source s2)" using seg [OF g] P1 by simp
      then show ?thesis using n Inr False h r g by (auto simp: Dec_Next_def split: sum.splits)
    qed
  next
    case init: True
    show ?thesis
    proof (cases "ds_count_backedup s > 0 \<or> ds_read_last_segment s")
      case True
      then show ?thesis using n Inr init P by (auto simp: Dec_Next_def Let_def split: if_splits)
    next
      case False
      let ?s = "s\<lparr>ds_segment_number := Suc (ds_segment_number s),
          ds_ct_buffer := vector_resize (nat (sd_get_ciphertext_segment_size sops (ds_segment_decrypter s))) (ds_ct_buffer s)\<rparr>"
      from n Inr init False obtain st2 s2 where g: "Dec_read_segment sops iops ?s = Some (st2, s2)"
        by (auto simp: Dec_Next_def bind_eq_Some_conv)
      have "P (ds_ct_source s2)" using seg [OF g] P by simp
      then show ?thesis using n Inr init False g by (auto simp: Dec_Next_def split: sum.splits)
    qed
  qed
qed

context sticky_input_stream
begin

lemma rewindable_kept: "keeps (Buffered_ops ops) (rewindable c e)"
  unfolding keeps_def Buffered_ops_def using Buffered_Next_rewindable Buffered_BackUp_rewindable by auto

lemma DisableRewinding_rep: "buf_rep b l d e \<Longrightarrow> buf_rep (DisableRewinding b) l d e"
  by (simp add: buf_rep_def DisableRewinding_def split del: if_split cong: if_cong)

end

context decrypting_stream
begin

lemma dec_rep_source:
  assumes "dec_rep s l d e" and g: "\<And>x l d e. irep x l d e \<Longrightarrow> irep (g x) l d e"
  shows "dec_rep (s\<lparr>ds_ct_source := g (ds_ct_source s)\<rparr>) l d e"
proof -
  have "to_come (s\<lparr>ds_ct_source := g (ds_ct_source s)\<rparr>) r e" if "to_come s r e" for r
    using that g unfolding to_come_def by (auto split: if_splits) metis
  moreover have "\<exists>l x es. irep (g (ds_ct_source s)) l x es \<and> (d, e) = dec_all sops (ds_segment_decrypter s) hs f p es x"
    if "irep (ds_ct_source s) l x es" "(d, e) = dec_all sops (ds_segment_decrypter s) hs f p es x" for l x es using that g by blast
  ultimately show ?thesis using assms(1) unfolding dec_rep_def by (auto split: if_splits)
qed

lemma dec_empty_end:
  assumes "dec_rep s l d e" and "Dec_Next sops iops s = Some (Inr [], s')"
  shows "e = kOutOfRange \<and> (\<exists>s''. Dec_Next sops iops (s'\<lparr>ds_ct_source := src\<rparr>) = Some (Inl kOutOfRange, s''))"
proof -
  from Dec_Next_ok [OF assms(1)] assms(2) obtain d' where "dec_rep s' [] d' e" "ds_is_initialized s'" "ds_read_last_segment s'"
    "ds_count_backedup s' = 0" "e = kOutOfRange" by (auto simp: next_ok_def)
  then show ?thesis by (simp add: Dec_Next_def dec_rep_def)
qed

end

section \<open>Keysets of AES-GCM-HKDF and AES-CTR-HMAC keys\<close>

text \<open>
  The two implementations of \<^verbatim>\<open>StreamingAead\<close> and their decrypting streams. A call on a stream is a call on the one
  or the other.
\<close>

datatype StreamingKey = GcmKey AesGcmHkdfStreaming | CtrKey AesCtrHmacStreaming

type_synonym 'b KeyDecStream = "(GcmDecrypter, 'b) DecStream + (CtrHmacDecrypter, 'b) DecStream"

definition Key_NewDecryptingStream ::
    "Ssl \<Rightarrow> (FipsCompatibility \<Rightarrow> Status) \<Rightarrow> StreamingKey \<Rightarrow> 'b \<Rightarrow> bytes \<Rightarrow> 'b KeyDecStream StatusOr" where
  "Key_NewDecryptingStream S fips key src ad =
     (case key of
        GcmKey G \<Rightarrow> map_sum id Inl (NewDecryptingStream (GcmDec_ops S) (Gcm_NewSegmentDecrypter G ad) (Some src))
      | CtrKey C \<Rightarrow> map_sum id Inr (NewDecryptingStream (CtrHmacDec_ops S fips) (CtrHmac_NewSegmentDecrypter C ad) (Some src)))"

definition KeyStream_ops :: "Ssl \<Rightarrow> (FipsCompatibility \<Rightarrow> Status) \<Rightarrow> 'b InputStream \<Rightarrow> 'b KeyDecStream InputStream" where
  "KeyStream_ops S fips iops =
     \<lparr>is_Next = (\<lambda>s. case s of
        Inl g \<Rightarrow> do { (r, g') \<leftarrow> Dec_Next (GcmDec_ops S) iops g; Some (r, Inl g') }
      | Inr c \<Rightarrow> do { (r, c') \<leftarrow> Dec_Next (CtrHmacDec_ops S fips) iops c; Some (r, Inr c') }),
      is_BackUp = (\<lambda>j. map_sum (Dec_BackUp j) (Dec_BackUp j))\<rparr>"

definition key_stream_fns ::
    "Ssl \<Rightarrow> (FipsCompatibility \<Rightarrow> Status) \<Rightarrow> 'b InputStream \<Rightarrow> (StreamingKey, 'b, 'b KeyDecStream) StreamingFns" where
  "key_stream_fns S fips iops =
     \<lparr>sf_NewDecryptingStream = Key_NewDecryptingStream S fips, sf_ops = KeyStream_ops S fips iops,
      sf_source = (\<lambda>s. case s of Inl g \<Rightarrow> ds_ct_source g | Inr c \<Rightarrow> ds_ct_source c),
      sf_map_source = (\<lambda>h. map_sum (\<lambda>g. g\<lparr>ds_ct_source := h (ds_ct_source g)\<rparr>) (\<lambda>c. c\<lparr>ds_ct_source := h (ds_ct_source c)\<rparr>))\<rparr>"

text \<open>\<^verbatim>\<open>StreamingAeadWrapper\<close>: the primary key encrypts, and all keys are tried to decrypt.\<close>

definition Streaming_Validate :: "'p PrimitiveSet option \<Rightarrow> Status" where
  "Streaming_Validate primitives =
     (case primitives of
        None \<Rightarrow> Inl kInternal
      | Some S \<Rightarrow> if get_primary S = None then Inl kInvalidArgument else OkStatus)"

definition StreamingAeadWrapper_Wrap :: "'p PrimitiveSet option \<Rightarrow> 'p PrimitiveSet StatusOr" where
  "StreamingAeadWrapper_Wrap primitives =
     (case Streaming_Validate primitives of Inl e \<Rightarrow> Inl e | Inr _ \<Rightarrow> Inr (the primitives))"

definition StreamingSet_NewEncryptingStream ::
    "('p \<Rightarrow> 'd \<Rightarrow> bytes \<Rightarrow> 'o StatusOr) \<Rightarrow> 'p PrimitiveSet \<Rightarrow> 'd \<Rightarrow> bytes \<Rightarrow> 'o StatusOr" where
  "StreamingSet_NewEncryptingStream new S dest ad = new (pe_primitive (the (get_primary S))) dest ad"

text \<open>The plaintext of a ciphertext stream under a key.\<close>

definition key_plain ::
    "Ssl \<Rightarrow> (FipsCompatibility \<Rightarrow> Status) \<Rightarrow> StreamingKey \<Rightarrow> bytes \<Rightarrow> bytes \<Rightarrow> (bytes \<times> absl_code) option" where
  "key_plain S fips key ad x =
     (case key of
        GcmKey G \<Rightarrow>
          (case Gcm_NewSegmentDecrypter G ad of
             Inl _ \<Rightarrow> None
           | Inr d \<Rightarrow>
               let hs = nat (8 + gs_derived_key_size G); p = nat (gs_ciphertext_segment_size G)
               in Some (dec_all (GcmDec_ops S) d hs (p - nat (gs_ciphertext_offset G) - hs) p kOutOfRange x))
      | CtrKey C \<Rightarrow>
          (case CtrHmac_NewSegmentDecrypter C ad of
             Inl _ \<Rightarrow> None
           | Inr d \<Rightarrow>
               let hs = nat (8 + cs_key_size C); p = nat (cs_ciphertext_segment_size C)
               in Some (dec_all (CtrHmacDec_ops S fips) d hs (p - nat (cs_ciphertext_offset C) - hs) p kOutOfRange x)))"

interpretation gcm_buf: decrypting_stream "GcmDec_ops S" "gcm_dec_inv S hs f p" hs f p "Buffered_ops Istream_ops" sticky_istream.buf_rep
  for S hs f p
  by unfold_locales

interpretation ctr_buf: decrypting_stream "CtrHmacDec_ops S fips" "ctr_dec_inv hs f p" hs f p "Buffered_ops Istream_ops" sticky_istream.buf_rep
  for S fips hs f p
  by unfold_locales

definition key_stream_rep ::
    "Ssl \<Rightarrow> (FipsCompatibility \<Rightarrow> Status) \<Rightarrow> IstreamInputStream BufferedInputStream KeyDecStream \<Rightarrow> bytes \<Rightarrow> bytes \<Rightarrow> absl_code \<Rightarrow> bool" where
  "key_stream_rep S fips s l d e \<longleftrightarrow>
     (case s of
        Inl g \<Rightarrow> \<exists>hs f p. gcm_buf.dec_rep S hs f p g l d e
      | Inr c \<Rightarrow> \<exists>hs f p. ctr_buf.dec_rep S fips hs f p c l d e)"

lemma gcm_dec_made:
  assumes "Gcm_NewSegmentDecrypter G ad = Inr d" and "aead_open_laws S"
  defines "hs \<equiv> nat (8 + gs_derived_key_size G)" and "p \<equiv> nat (gs_ciphertext_segment_size G)"
  shows "gcm_dec_inv S hs (p - nat (gs_ciphertext_offset G) - hs) p d"
proof -
  obtain hs' f' p' where P: "gcm_dec_inv S hs' (f' + 16) (p' + 16) d" "int hs' = 8 + gs_derived_key_size G"
    "int p' = gs_ciphertext_segment_size G - 16" "int f' = gs_ciphertext_segment_size G - 16 - gs_ciphertext_offset G - int hs'"
    by (rule gcm_dec_new [OF assms(1,2)]) (rule that)
  have o: "0 \<le> gs_ciphertext_offset G"
    using assms(1) by (auto simp: Gcm_NewSegmentDecrypter_def GcmDec_New_def GcmDec_Validate_def split: sum.splits if_splits)
  have "hs = hs'" "p = p' + 16" "p - nat (gs_ciphertext_offset G) - hs = f' + 16" using P(2-4) o unfolding hs_def p_def by linarith+
  with P(1) show ?thesis by simp
qed

lemma ctr_dec_made:
  assumes "CtrHmac_NewSegmentDecrypter C ad = Inr d"
  defines "hs \<equiv> nat (8 + cs_key_size C)" and "p \<equiv> nat (cs_ciphertext_segment_size C)"
  shows "ctr_dec_inv hs (p - nat (cs_ciphertext_offset C) - hs) p d"
proof -
  have d: "d = \<lparr>cd_params = C, cd_associated_data = ad, cd_state = None\<rparr>" and v: "CtrHmac_Validate C = OkStatus"
    using assms(1) by (auto simp: CtrHmac_NewSegmentDecrypter_def split: sum.splits)
  have k: "cs_key_size C = 16 \<or> cs_key_size C = 32" and o: "0 \<le> cs_ciphertext_offset C" "10 \<le> cs_tag_size C"
    "cs_ciphertext_segment_size C > cs_ciphertext_offset C + 8 + cs_key_size C + cs_tag_size C"
    using v by (auto simp: CtrHmac_Validate_def Let_def split: if_splits)
  have "int hs = 8 + cs_key_size C" "int p = cs_ciphertext_segment_size C" using k o unfolding hs_def p_def by auto
  then show ?thesis using k o unfolding d ctr_dec_inv_def cd_get_header_size_def by auto
qed

context segment_decrypter
begin

lemma Dec_New_made: "inv d \<Longrightarrow> \<exists>s. Dec_New sops (Some d) (Some src) = Inr s \<and> ds_ct_source s = src"
  using first_size [of d] sizes_positive [of d] by (simp add: Dec_New_def Let_def segment_size header_size)

end

text \<open>The laws of \<open>key_streams\<close>; they rest on the law of authenticated opening only.\<close>

lemma key_new_stream:
  assumes S: "aead_open_laws S" and pl: "key_plain S fips key ad x = Some (d, e)" and b: "sticky_istream.buf_rep b [] x kOutOfRange"
  shows "\<exists>s. Key_NewDecryptingStream S fips key b ad = Inr s \<and> key_stream_rep S fips s [] d e \<and>
    sf_source (key_stream_fns S fips iops) s = b"
proof (cases key)
  case (GcmKey G)
  with pl obtain dc where dc: "Gcm_NewSegmentDecrypter G ad = Inr dc"
    and da: "dec_all (GcmDec_ops S) dc (nat (8 + gs_derived_key_size G))
      (nat (gs_ciphertext_segment_size G) - nat (gs_ciphertext_offset G) - nat (8 + gs_derived_key_size G))
      (nat (gs_ciphertext_segment_size G)) kOutOfRange x = (d, e)" by (auto simp: key_plain_def Let_def split: sum.splits)
  note inv = gcm_dec_made [OF dc S]
  from gcm_dec.Dec_New_made [OF inv, of b] obtain s where s: "Dec_New (GcmDec_ops S) (Some dc) (Some b) = Inr s" "ds_ct_source s = b" by blast
  from gcm_buf.dec_rep_New [OF s(1) inv b da] have "key_stream_rep S fips (Inl s) [] d e"
    unfolding key_stream_rep_def by auto
  with dc s GcmKey show ?thesis
    by (intro exI [of _ "Inl s"]) (simp add: Key_NewDecryptingStream_def NewDecryptingStream_def key_stream_fns_def)
next
  case (CtrKey C)
  with pl obtain dc where dc: "CtrHmac_NewSegmentDecrypter C ad = Inr dc"
    and da: "dec_all (CtrHmacDec_ops S fips) dc (nat (8 + cs_key_size C))
      (nat (cs_ciphertext_segment_size C) - nat (cs_ciphertext_offset C) - nat (8 + cs_key_size C))
      (nat (cs_ciphertext_segment_size C)) kOutOfRange x = (d, e)" by (auto simp: key_plain_def Let_def split: sum.splits)
  note inv = ctr_dec_made [OF dc]
  from ctr_dec.Dec_New_made [OF inv, where src = b and S = S and fips = fips] obtain s where s: "Dec_New (CtrHmacDec_ops S fips) (Some dc) (Some b) = Inr s" "ds_ct_source s = b" by blast
  from ctr_buf.dec_rep_New [OF s(1) inv b da] have "key_stream_rep S fips (Inr s) [] d e"
    unfolding key_stream_rep_def by auto
  with dc s CtrKey show ?thesis
    by (intro exI [of _ "Inr s"]) (simp add: Key_NewDecryptingStream_def NewDecryptingStream_def key_stream_fns_def)
qed

lemma key_no_stream: "key_plain S fips key ad x = None \<Longrightarrow> isl (Key_NewDecryptingStream S fips key b ad)"
  by (auto simp: key_plain_def Key_NewDecryptingStream_def NewDecryptingStream_def Let_def split: StreamingKey.splits sum.splits)

abbreviation buffered_fns ::
    "Ssl \<Rightarrow> (FipsCompatibility \<Rightarrow> Status) \<Rightarrow>
     (StreamingKey, IstreamInputStream BufferedInputStream, IstreamInputStream BufferedInputStream KeyDecStream) StreamingFns" where
  "buffered_fns S fips \<equiv> key_stream_fns S fips (Buffered_ops Istream_ops)"

lemma key_stream_simps [simp]:
  "is_Next (sf_ops (key_stream_fns S fips iops)) (Inl g) = do { (r, g') \<leftarrow> Dec_Next (GcmDec_ops S) iops g; Some (r, Inl g') }"
  "is_Next (sf_ops (key_stream_fns S fips iops)) (Inr c) = do { (r, c') \<leftarrow> Dec_Next (CtrHmacDec_ops S fips) iops c; Some (r, Inr c') }"
  "is_BackUp (sf_ops (key_stream_fns S fips iops)) j (Inl g) = Inl (Dec_BackUp j g)"
  "is_BackUp (sf_ops (key_stream_fns S fips iops)) j (Inr c) = Inr (Dec_BackUp j c)"
  "sf_source (key_stream_fns S fips iops) (Inl g) = ds_ct_source g" "sf_source (key_stream_fns S fips iops) (Inr c) = ds_ct_source c"
  "sf_map_source (key_stream_fns S fips iops) h (Inl g) = Inl (g\<lparr>ds_ct_source := h (ds_ct_source g)\<rparr>)"
  "sf_map_source (key_stream_fns S fips iops) h (Inr c) = Inr (c\<lparr>ds_ct_source := h (ds_ct_source c)\<rparr>)"
  by (simp_all add: key_stream_fns_def KeyStream_ops_def)

text \<open>The contract of a stream carries over from the two kinds of streams.\<close>

lemma key_stream_cases:
  assumes "key_stream_rep S fips s l d e"
  obtains (gcm) g hs f p where "s = Inl g" "gcm_buf.dec_rep S hs f p g l d e"
  | (ctr) c hs f p where "s = Inr c" "ctr_buf.dec_rep S fips hs f p c l d e"
  using assms unfolding key_stream_rep_def by (cases s) auto

lemma key_stream_repI:
  "gcm_buf.dec_rep S hs f p g l d e \<Longrightarrow> key_stream_rep S fips (Inl g) l d e"
  "ctr_buf.dec_rep S fips hs f p c l d e \<Longrightarrow> key_stream_rep S fips (Inr c) l d e"
  unfolding key_stream_rep_def by auto

lemma key_stream_next:
  assumes "key_stream_rep S fips s l d e" and "is_Next (sf_ops (buffered_fns S fips)) s = Some (Inr b, s')"
  shows "\<exists>d'. d = b @ d' \<and> key_stream_rep S fips s' b d' e"
  using assms(1)
proof (cases rule: key_stream_cases)
  case (gcm g hs f p)
  with assms(2) obtain g' where g: "Dec_Next (GcmDec_ops S) (Buffered_ops Istream_ops) g = Some (Inr b, g')" "s' = Inl g'"
    by (auto simp: bind_eq_Some_conv)
  from gcm_buf.dec.next_data [OF gcm(2), unfolded Dec_ops_def InputStream.select_convs, OF g(1)] obtain d' where "d = b @ d'"
    "gcm_buf.dec_rep S hs f p g' b d' e" by blast
  with key_stream_repI(1) [OF this(2), of fips] g(2) show ?thesis by simp
next
  case (ctr c hs f p)
  with assms(2) obtain c' where c: "Dec_Next (CtrHmacDec_ops S fips) (Buffered_ops Istream_ops) c = Some (Inr b, c')" "s' = Inr c'"
    by (auto simp: bind_eq_Some_conv)
  from ctr_buf.dec.next_data [OF ctr(2), unfolded Dec_ops_def InputStream.select_convs, OF c(1)] obtain d' where "d = b @ d'"
    "ctr_buf.dec_rep S fips hs f p c' b d' e" by blast
  with key_stream_repI(2) [OF this(2)] c(2) show ?thesis by simp
qed

lemma key_stream_error:
  assumes "key_stream_rep S fips s l d e" and "is_Next (sf_ops (buffered_fns S fips)) s = Some (Inl e', s')"
  shows "d = [] \<and> e' = e"
  using assms(1)
proof (cases rule: key_stream_cases)
  case (gcm g hs f p)
  with assms(2) obtain g' where g: "Dec_Next (GcmDec_ops S) (Buffered_ops Istream_ops) g = Some (Inl e', g')"
    by (auto simp: bind_eq_Some_conv)
  from gcm_buf.dec.next_error [OF gcm(2), unfolded Dec_ops_def InputStream.select_convs, OF g] show ?thesis .
next
  case (ctr c hs f p)
  with assms(2) obtain c' where c: "Dec_Next (CtrHmacDec_ops S fips) (Buffered_ops Istream_ops) c = Some (Inl e', c')"
    by (auto simp: bind_eq_Some_conv)
  from ctr_buf.dec.next_error [OF ctr(2), unfolded Dec_ops_def InputStream.select_convs, OF c] show ?thesis .
qed

lemma key_stream_empty:
  assumes "key_stream_rep S fips s l d e" and "is_Next (sf_ops (buffered_fns S fips)) s = Some (Inr [], s')"
  shows "e = kOutOfRange \<and> (\<exists>s''. is_Next (sf_ops (buffered_fns S fips)) (sf_map_source (buffered_fns S fips) h s') = Some (Inl kOutOfRange, s''))"
  using assms(1)
proof (cases rule: key_stream_cases)
  case (gcm g hs f p)
  with assms(2) obtain g' where g: "Dec_Next (GcmDec_ops S) (Buffered_ops Istream_ops) g = Some (Inr [], g')" "s' = Inl g'"
    by (auto simp: bind_eq_Some_conv)
  from gcm_buf.dec_empty_end [OF gcm(2) g(1), of "h (ds_ct_source g')"] g(2) show ?thesis by auto
next
  case (ctr c hs f p)
  with assms(2) obtain c' where c: "Dec_Next (CtrHmacDec_ops S fips) (Buffered_ops Istream_ops) c = Some (Inr [], c')" "s' = Inr c'"
    by (auto simp: bind_eq_Some_conv)
  from ctr_buf.dec_empty_end [OF ctr(2) c(1), of "h (ds_ct_source c')"] c(2) show ?thesis by auto
qed

lemma key_stream_returns:
  assumes "key_stream_rep S fips s l d e"
  shows "is_Next (sf_ops (buffered_fns S fips)) s \<noteq> None"
  using assms
proof (cases rule: key_stream_cases)
  case (gcm g hs f p)
  with gcm_buf.dec.next_returns [OF gcm(2)] show ?thesis by (auto simp: Dec_ops_def)
next
  case (ctr c hs f p)
  with ctr_buf.dec.next_returns [OF ctr(2)] show ?thesis by (auto simp: Dec_ops_def)
qed

lemma key_stream_back:
  assumes "key_stream_rep S fips s (l @ g) d e" and "nat j = length g"
  shows "key_stream_rep S fips (is_BackUp (sf_ops (buffered_fns S fips)) j s) l (g @ d) e"
  using assms(1)
proof (cases rule: key_stream_cases)
  case (gcm t hs f p)
  with key_stream_repI(1) [OF gcm_buf.Dec_BackUp_rep [OF gcm(2) assms(2)]] show ?thesis by simp
next
  case (ctr c hs f p)
  with key_stream_repI(2) [OF ctr_buf.Dec_BackUp_rep [OF ctr(2) assms(2)]] show ?thesis by simp
qed

lemma key_stream_disable:
  assumes "key_stream_rep S fips s l d e"
  shows "key_stream_rep S fips (sf_map_source (buffered_fns S fips) DisableRewinding s) l d e"
  using assms
proof (cases rule: key_stream_cases)
  case (gcm g hs f p)
  with key_stream_repI(1) [OF gcm_buf.dec_rep_source [OF gcm(2), of DisableRewinding]] sticky_istream.DisableRewinding_rep
  show ?thesis by simp
next
  case (ctr c hs f p)
  with key_stream_repI(2) [OF ctr_buf.dec_rep_source [OF ctr(2), of DisableRewinding]] sticky_istream.DisableRewinding_rep
  show ?thesis by simp
qed

lemma key_stream_source:
  assumes "sticky_istream.rewindable x e (sf_source (buffered_fns S fips) s)"
    and "is_Next (sf_ops (buffered_fns S fips)) s = Some (r, s')"
  shows "sticky_istream.rewindable x e (sf_source (buffered_fns S fips) s')"
proof (cases s)
  case (Inl g)
  with assms(2) obtain g' where "Dec_Next (GcmDec_ops S) (Buffered_ops Istream_ops) g = Some (r, g')" "s' = Inl g'"
    by (auto simp: bind_eq_Some_conv)
  with Dec_Next_keeps [OF this(1) sticky_istream.rewindable_kept] assms(1) Inl show ?thesis by simp
next
  case (Inr c)
  with assms(2) obtain c' where "Dec_Next (CtrHmacDec_ops S fips) (Buffered_ops Istream_ops) c = Some (r, c')" "s' = Inr c'"
    by (auto simp: bind_eq_Some_conv)
  with Dec_Next_keeps [OF this(1) sticky_istream.rewindable_kept] assms(1) Inr show ?thesis by simp
qed

text \<open>No error can become the end of a stream by itself; so the empty end of a stream is reported in the second call.\<close>

interpretation key_set: key_streams Istream_ops istream_rep "\<lambda>s e. ii_status s = Inl e" "buffered_fns S fips" "key_stream_rep S fips"
  "\<lambda>key ad x r. aead_open_laws S \<and> key_plain S fips key ad x = r" for S fips
proof (unfold_locales, goal_cases)
  case (1 s l d e b s')
  then show ?case by (rule key_stream_next)
next
  case (2 s l d e e' s')
  then show ?case by (rule key_stream_error)
next
  case (3 s l d e)
  then show ?case by (rule key_stream_returns)
next
  case (4 s l d e s')
  from key_stream_empty [OF 4, of id] have "e = kOutOfRange" by blast
  moreover have "sf_map_source (buffered_fns S fips) id s' = s'" by (cases s') simp_all
  ultimately show ?case using key_stream_empty [OF 4, of id] by simp
next
  case (5 s l g d e j)
  then show ?case by (rule key_stream_back)
next
  case (6 p ad x d e b)
  then show ?case using key_new_stream [of S fips p ad x d e b] by (simp add: key_stream_fns_def)
next
  case (7 p ad x b)
  then show ?case using key_no_stream [of S fips p ad x b] by (simp add: key_stream_fns_def)
next
  case (8 c s r s')
  then show ?case by (rule key_stream_source)
next
  case (9 s l d e)
  then show ?case by (rule key_stream_disable)
next
  case (10 s l d e s')
  then show ?case by (rule key_stream_empty)
qed

section \<open>Round trip with a keyset\<close>

text \<open>A key is passed over if no stream can be made with it, or if the first read fails with an error other than the end of the stream.\<close>

definition key_rejects :: "Ssl \<Rightarrow> (FipsCompatibility \<Rightarrow> Status) \<Rightarrow> bytes \<Rightarrow> IstreamInputStream \<Rightarrow> StreamingKey \<Rightarrow> bool" where
  "key_rejects S fips ad src key =
     (case Key_NewDecryptingStream S fips key src ad of
        Inl _ \<Rightarrow> True
      | Inr s \<Rightarrow>
          (case is_Next (KeyStream_ops S fips Istream_ops) s of
             Some (Inl e, _) \<Rightarrow> e \<noteq> kOutOfRange
           | _ \<Rightarrow> False))"

lemma key_rejectedI:
  assumes "aead_open_laws S" and "key_plain S fips key ad x = None \<or> (key_plain S fips key ad x = Some ([], e) \<and> e \<noteq> kOutOfRange)"
  shows "key_set.rejected S fips ad x key"
  unfolding key_set.rejected_def using assms by auto

lemma gcm_key_rejects:
  assumes S: "aead_open_laws S" and src: "istream_rep src [] x kOutOfRange" and rj: "key_rejects S fips ad src (GcmKey G)"
  shows "key_set.rejected S fips ad x (GcmKey G)"
proof (cases "Gcm_NewSegmentDecrypter G ad")
  case (Inl e)
  then show ?thesis by (intro key_rejectedI [OF S]) (simp add: key_plain_def)
next
  case (Inr dc)
  let ?hs = "nat (8 + gs_derived_key_size G)" and ?p = "nat (gs_ciphertext_segment_size G)"
  let ?f = "?p - nat (gs_ciphertext_offset G) - ?hs"
  note inv = gcm_dec_made [OF Inr S]
  obtain d e where da: "dec_all (GcmDec_ops S) dc ?hs ?f ?p kOutOfRange x = (d, e)" by (meson surj_pair)
  obtain s where s: "Dec_New (GcmDec_ops S) (Some dc) (Some src) = Inr s" using gcm_dec.Dec_New_made [OF inv, of src] by blast
  from gcm_in.dec_rep_New [OF s inv src da] have R: "gcm_in.dec_rep S ?hs ?f ?p s [] d e" .
  from rj Inr s obtain e' s' where n: "Dec_Next (GcmDec_ops S) Istream_ops s = Some (Inl e', s')" "e' \<noteq> kOutOfRange"
    by (auto simp: key_rejects_def Key_NewDecryptingStream_def NewDecryptingStream_def KeyStream_ops_def bind_eq_Some_conv
        split: option.splits sum.splits)
  from gcm_in.dec.next_error [OF R, unfolded Dec_ops_def InputStream.select_convs, OF n(1)] have "d = []" "e = e'" by simp_all
  then show ?thesis using Inr da n(2) by (intro key_rejectedI [OF S, of _ _ _ _ e]) (simp add: key_plain_def)
qed

lemma ctr_key_rejects:
  assumes S: "aead_open_laws S" and src: "istream_rep src [] x kOutOfRange" and rj: "key_rejects S fips ad src (CtrKey C)"
  shows "key_set.rejected S fips ad x (CtrKey C)"
proof (cases "CtrHmac_NewSegmentDecrypter C ad")
  case (Inl e)
  then show ?thesis by (intro key_rejectedI [OF S]) (simp add: key_plain_def)
next
  case (Inr dc)
  let ?hs = "nat (8 + cs_key_size C)" and ?p = "nat (cs_ciphertext_segment_size C)"
  let ?f = "?p - nat (cs_ciphertext_offset C) - ?hs"
  note inv = ctr_dec_made [OF Inr]
  obtain d e where da: "dec_all (CtrHmacDec_ops S fips) dc ?hs ?f ?p kOutOfRange x = (d, e)" by (meson surj_pair)
  obtain s where s: "Dec_New (CtrHmacDec_ops S fips) (Some dc) (Some src) = Inr s" using ctr_dec.Dec_New_made [OF inv, where src = src and S = S and fips = fips] by blast
  from ctr_in.dec_rep_New [OF s inv src da] have R: "ctr_in.dec_rep S fips ?hs ?f ?p s [] d e" .
  from rj Inr s obtain e' s' where n: "Dec_Next (CtrHmacDec_ops S fips) Istream_ops s = Some (Inl e', s')" "e' \<noteq> kOutOfRange"
    by (auto simp: key_rejects_def Key_NewDecryptingStream_def NewDecryptingStream_def KeyStream_ops_def bind_eq_Some_conv
        split: option.splits sum.splits)
  from ctr_in.dec.next_error [OF R, unfolded Dec_ops_def InputStream.select_convs, OF n(1)] have "d = []" "e = e'" by simp_all
  then show ?thesis using Inr da n(2) by (intro key_rejectedI [OF S, of _ _ _ _ e]) (simp add: key_plain_def)
qed

lemma key_rejects_rejected:
  assumes "aead_open_laws S" and "istream_rep src [] x kOutOfRange" and "key_rejects S fips ad src key"
  shows "key_set.rejected S fips ad x key"
  using assms gcm_key_rejects ctr_key_rejects by (cases key) auto

lemma gcm_key_plain:
  assumes S: "aead_laws S" "aead_open_laws S" "aead_nonce_laws S"
    and salt: "length salt = nat (gs_derived_key_size G)" and np: "length np = 7"
    and enc: "NewEncryptingStream (GcmEnc_ops S) (Gcm_NewSegmentEncrypter S salt np G ad) (Some (OstreamOutputStream_new out k)) = Inr s"
    and d: "Gcm_NewSegmentDecrypter G ad = Inr d"
    and wr: "write_all (Enc_ops (GcmEnc_ops S) Ostream_ops) xs s = Some (OkStatus, s')"
    and x: "os_written (oo_output (es_ct_destination s')) = os_written out @ x"
  shows "key_plain S fips (GcmKey G) ad x = Some (concat xs, kOutOfRange)"
proof -
  from gcm_written_plain [OF S salt np enc d wr x] obtain hs f p where
    P: "gcm_dec_inv S hs f p d" "dec_all (GcmDec_ops S) d hs f p kOutOfRange x = (concat xs, kOutOfRange)" by blast
  note M = gcm_dec_made [OF d S(2)]
  have "hs = nat (8 + gs_derived_key_size G)" "p = nat (gs_ciphertext_segment_size G)"
    "f = nat (gs_ciphertext_segment_size G) - nat (gs_ciphertext_offset G) - nat (8 + gs_derived_key_size G)"
    using P(1) M unfolding gcm_dec_inv_def by linarith+
  then show ?thesis using P(2) d by (simp add: key_plain_def)
qed

text \<open>
  (C35) Round trip of streaming encryption with a keyset. A plaintext is written, in pieces of any sizes, to an encrypting stream of one of
  the AES-GCM-HKDF keys. The decrypting stream of the keyset tries the keys in turn over a buffer of the ciphertext that it rewinds after each failure.
  If the keys before that one reject the ciphertext when they are used alone, the stream of the keyset returns exactly the plaintext, whatever the
  sizes of the reads, and reports the end of the stream exactly when more bytes are asked for; none of the bytes that were consumed
  in the failed attempts is lost, and none of the later keys is used. Every read returns.
\<close>

theorem keyset_stream_roundtrip:
  assumes S: "aead_laws S" "aead_open_laws S" "aead_nonce_laws S"
    and salt: "length salt = nat (gs_derived_key_size G)" and np: "length np = 7"
    and enc: "NewEncryptingStream (GcmEnc_ops S) (Gcm_NewSegmentEncrypter S salt np G ad) (Some (OstreamOutputStream_new out k)) = Inr s"
    and d: "Gcm_NewSegmentDecrypter G ad = Inr d"
    and wr: "write_all (Enc_ops (GcmEnc_ops S) Ostream_ops) xs s = Some (OkStatus, s')"
    and inp: "os_written (oo_output (es_ct_destination s')) = os_written out @ in_rest inp" "\<not> in_fails inp" "\<not> in_at_eof inp" "\<not> in_bad inp"
    and before: "\<forall>key \<in> set before. key_rejects S fips ad (IstreamInputStream_new inp k') key"
    and ns: "\<forall>n \<in> set ns. 0 < n"
  shows "\<exists>r'. read_all (SetDec_ops (buffered_fns S fips) (before @ GcmKey G # after)) ns (SetDec_New (IstreamInputStream_new inp k') ad) =
    Some (if nat (sum_list ns) \<le> length (concat xs) then OkStatus else Inl kOutOfRange, take (nat (sum_list ns)) (concat xs), r')"
proof -
  let ?src = "IstreamInputStream_new inp k'" and ?keys = "before @ GcmKey G # after"
  have r: "istream_rep ?src [] (in_rest inp) kOutOfRange" using istream_rep_new [OF inp(3,4), of k'] inp(2) by simp
  note pl = gcm_key_plain [OF S salt np enc d wr inp(1), of fips]
  have rj: "\<forall>key \<in> set before. key_set.rejected S fips ad (in_rest inp) key" using before key_rejects_rejected [OF S(2) r] by blast
  have "key_set.set_rep S fips ?keys (SetDec_New ?src ad) [] (concat xs) kOutOfRange"
    unfolding key_set.set_rep_def SetDec_New_def using sticky_istream.buf_new [OF r] rj pl S(2) by auto
  from key_set.keys.read_all_result [OF this ns] show ?thesis .
qed

text \<open>A keyset whose first key cannot be used for streams with this segment size, and whose second key derives keys of another size.\<close>

definition sample_other_keys :: "StreamingKey list" where
  "sample_other_keys =
     [GcmKey (sample_gs\<lparr>gs_ciphertext_segment_size := 1\<rparr>), GcmKey (sample_gs\<lparr>gs_derived_key_size := 32, gs_ikm := replicate 32 3, gs_ciphertext_segment_size := 59\<rparr>)]"

lemma sample_other_keys_reject:
  "\<forall>key \<in> set sample_other_keys. key_rejects sample_ssl (\<lambda>_. OkStatus) [9] (IstreamInputStream_new sample_in 64) key"
proof -
  have "istream_rep (IstreamInputStream_new sample_in 64) [] sample_ciphertext kOutOfRange"
    using istream_rep_new [OF sample_in_good(2,3), of 64] sample_in_good(1) by (simp add: sample_in_def)
  from istream.ReadFromStream_data [OF this, of 40] obtain s' where
    r: "ReadFromStream Istream_ops 40 (IstreamInputStream_new sample_in 64) = Some (OkStatus, take 40 sample_ciphertext, s')"
    by (auto simp: sample_ciphertext_def)
  have h: "take 40 sample_ciphertext ! 0 = 24" "length (take 40 sample_ciphertext) = 40"
    by (simp_all add: sample_ciphertext_def sample_header_def CreateHeader_def)
  show ?thesis using r h
    by (simp add: sample_other_keys_def key_rejects_def Key_NewDecryptingStream_def NewDecryptingStream_def Gcm_NewSegmentDecrypter_def
        GcmDec_New_def GcmDec_Validate_def sample_gs_def Dec_New_def GcmDec_ops_def gc_get_header_size_def KeyStream_ops_def
        Dec_Next_def Dec_read_header_def GcmDec_Init_def)
qed

theorem keyset_stream_roundtrip_witness:
  "\<exists>r'. read_all (SetDec_ops (buffered_fns sample_ssl (\<lambda>_. OkStatus)) (sample_other_keys @ [GcmKey sample_gs])) [4, 7]
      (SetDec_New (IstreamInputStream_new sample_in 64) [9]) = Some (Inl kOutOfRange, [1, 2, 3, 4, 5], r')"
proof -
  obtain s' where w: "write_all (Enc_ops (GcmEnc_ops sample_ssl) Ostream_ops) [[1, 2, 3, 4, 5]] sample_stream = Some (OkStatus, s')"
    "os_written (oo_output (es_ct_destination s')) = os_written sample_out @ in_rest sample_in" using sample_stream_written by blast
  obtain d where d: "Gcm_NewSegmentDecrypter sample_gs [9] = Inr d"
    using sample_reader by (auto simp: NewDecryptingStream_def split: sum.splits)
  from keyset_stream_roundtrip [OF sample_ssl_laws(1) sample_ssl_stream_laws(1,2) _ _ sample_stream_new d w sample_in_good sample_other_keys_reject, of "[4, 7]" "[]"]
  show ?thesis by (simp add: sample_gs_def)
qed

end
