(* ===== verification/Keyset_Random_Access.thy ===== *)
theory Keyset_Random_Access
  imports Streaming_Wrapper
begin

text \<open>
  Random access to encrypted streams with a keyset (\<^verbatim>\<open>tink/streamingaead/decrypting_random_access_stream.cc\<close>,
  \<^verbatim>\<open>shared_random_access_stream.h\<close>). The first call tries the keys in turn, by reading one byte at position 0, and the
  stream of the first key that can is used from then on. The random access contract of the streams of single keys carries over to the stream of
  the keyset.

  \<^verbatim>\<open>SharedRandomAccessStream\<close> forwards every call to the ciphertext source that all attempts share; its state is read back
  from the stream that was tried (\<open>raf_source\<close>). The lock is held during the attempt, so that one attempt is made.
\<close>

section \<open>Definitions\<close>

record ('p, 'b, 's) RandomAccessFns =
  raf_New :: "'p \<Rightarrow> 'b \<Rightarrow> bytes \<Rightarrow> 's StatusOr"
  raf_ops :: "'s RandomAccess"
  raf_source :: "'s \<Rightarrow> 'b"

record ('b, 's) SetRandomAccess =
  sr_ciphertext_source :: 'b
  sr_associated_data :: bytes
  sr_attempted_matching :: bool
  sr_matching_stream :: "'s option"

definition SetRA_New :: "'p list option \<Rightarrow> 'b option \<Rightarrow> bytes \<Rightarrow> ('b, 's) SetRandomAccess StatusOr" where
  "SetRA_New primitives ciphertext_source associated_data =
     (case primitives of
        None \<Rightarrow> Inl kInvalidArgument
      | Some _ \<Rightarrow>
          (case ciphertext_source of
             None \<Rightarrow> Inl kInvalidArgument
           | Some src \<Rightarrow>
               Inr \<lparr>sr_ciphertext_source = src, sr_associated_data = associated_data, sr_attempted_matching = False, sr_matching_stream = None\<rparr>))"

text \<open>The loop over the primitives; all of them read into the same buffer.\<close>

fun match_ra_loop :: "('p, 'b, 's) RandomAccessFns \<Rightarrow> bytes \<Rightarrow> 'p list \<Rightarrow> Buffer \<Rightarrow> 'b \<Rightarrow> ('b \<times> 's option) option" where
  "match_ra_loop F ad [] buf b = Some (b, None)"
| "match_ra_loop F ad (p # ps) buf b =
     (case raf_New F p b ad of
        Inl _ \<Rightarrow> match_ra_loop F ad ps buf b
      | Inr s \<Rightarrow>
          do {
            ((st, buf'), s') \<leftarrow> ra_PRead (raf_ops F) 0 1 buf s;
            (if st = OkStatus \<or> st = Inl kOutOfRange then Some (raf_source F s', Some s')
             else match_ra_loop F ad ps buf' (raf_source F s'))
          })"

definition GetMatchedStream ::
    "('p, 'b, 's) RandomAccessFns \<Rightarrow> 'p list \<Rightarrow> ('b, 's) SetRandomAccess \<Rightarrow> ('s StatusOr \<times> ('b, 's) SetRandomAccess) option" where
  "GetMatchedStream F prims s =
     (if sr_attempted_matching s
      then Some (case sr_matching_stream s of None \<Rightarrow> Inl kInvalidArgument | Some m \<Rightarrow> Inr m, s)
      else
        let s1 = s\<lparr>sr_attempted_matching := True\<rparr>
        in case Buffer_New 1 of
             Inl e \<Rightarrow> Some (Inl e, s1)
           | Inr buf \<Rightarrow>
               do {
                 (b, m) \<leftarrow> match_ra_loop F (sr_associated_data s) prims buf (sr_ciphertext_source s);
                 Some (case m of None \<Rightarrow> Inl kInvalidArgument | Some t \<Rightarrow> Inr t, s1\<lparr>sr_ciphertext_source := b, sr_matching_stream := m\<rparr>)
               })"

definition SetRA_PRead ::
    "('p, 'b, 's) RandomAccessFns \<Rightarrow> 'p list \<Rightarrow> int \<Rightarrow> int \<Rightarrow> Buffer \<Rightarrow> ('b, 's) SetRandomAccess \<Rightarrow>
     ((Status \<times> Buffer) \<times> ('b, 's) SetRandomAccess) option" where
  "SetRA_PRead F prims position cnt dest_buffer s =
     (if cnt < 0 then Some ((Inl kInvalidArgument, dest_buffer), s)
      else if cnt > allocated_size dest_buffer then Some ((Inl kInvalidArgument, dest_buffer), s)
      else if position < 0 then Some ((Inl kInvalidArgument, dest_buffer), s)
      else do {
             (r, s1) \<leftarrow> GetMatchedStream F prims s;
             (case r of
                Inl e \<Rightarrow> Some ((Inl e, dest_buffer), s1)
              | Inr m \<Rightarrow>
                  do { (res, m') \<leftarrow> ra_PRead (raf_ops F) position cnt dest_buffer m; Some (res, s1\<lparr>sr_matching_stream := Some m'\<rparr>) })
           })"

definition SetRA_size ::
    "('p, 'b, 's) RandomAccessFns \<Rightarrow> 'p list \<Rightarrow> ('b, 's) SetRandomAccess \<Rightarrow> (int StatusOr \<times> ('b, 's) SetRandomAccess) option" where
  "SetRA_size F prims s =
     do {
       (r, s1) \<leftarrow> GetMatchedStream F prims s;
       (case r of
          Inl e \<Rightarrow> Some (Inl e, s1)
        | Inr m \<Rightarrow> do { (res, m') \<leftarrow> ra_size (raf_ops F) m; Some (res, s1\<lparr>sr_matching_stream := Some m'\<rparr>) })
     }"

definition SetRA_ops :: "('p, 'b, 's) RandomAccessFns \<Rightarrow> 'p list \<Rightarrow> ('b, 's) SetRandomAccess RandomAccess" where
  "SetRA_ops F prims = \<lparr>ra_PRead = SetRA_PRead F prims, ra_size = SetRA_size F prims\<rparr>"

section \<open>The stream of a keyset\<close>

text \<open>A key is passed over on the source \<open>b\<close> if no stream can be made, or if reading one byte fails, not at the end of the stream.\<close>

definition ra_rejects :: "('p, 'b, 's) RandomAccessFns \<Rightarrow> bytes \<Rightarrow> 'b \<Rightarrow> 'p \<Rightarrow> bool" where
  "ra_rejects F ad b p \<longleftrightarrow>
     (case raf_New F p b ad of
        Inl _ \<Rightarrow> True
      | Inr s \<Rightarrow> \<forall>buf. length (b_mem_block buf) = 1 \<longrightarrow>
          (\<exists>e buf' s'. ra_PRead (raf_ops F) 0 1 buf s = Some ((Inl e, buf'), s') \<and> e \<noteq> kOutOfRange))"

text \<open>
  Streams of single keys that follow the contract for random access, over a source that is not changed by reading.
\<close>

locale key_random_access = str: random_access "raf_ops F" holds
  for F :: "('p, 'b, 's) RandomAccessFns" and holds +
  fixes made :: "'b \<Rightarrow> 's \<Rightarrow> bool"
  assumes makes: "raf_New F p b ad = Inr s \<Longrightarrow> made b s"
    and source_kept: "\<lbrakk>made b s; ra_PRead (raf_ops F) pos n buf s = Some ((st, buf'), s')\<rbrakk> \<Longrightarrow>
      raf_source F s' = b \<and> length (b_mem_block buf') = length (b_mem_block buf)"
begin

lemma match_rejected:
  assumes rj: "ra_rejects F ad b p" and buf: "length (b_mem_block buf) = 1"
  shows "\<exists>buf'. match_ra_loop F ad (p # ps) buf b = match_ra_loop F ad ps buf' b \<and> length (b_mem_block buf') = 1"
proof (cases "raf_New F p b ad")
  case (Inl e)
  with buf show ?thesis by auto
next
  case (Inr s)
  with rj buf obtain e buf' s' where r: "ra_PRead (raf_ops F) 0 1 buf s = Some ((Inl e, buf'), s')" "e \<noteq> kOutOfRange"
    by (auto simp: ra_rejects_def)
  from source_kept [OF makes [OF Inr] r(1)] buf r Inr show ?thesis by auto
qed

lemma match_found:
  assumes "\<forall>p \<in> set ps. ra_rejects F ad b p" and "length (b_mem_block buf) = 1" and "raf_New F p b ad = Inr s" and "holds s x"
  shows "\<exists>b' m. match_ra_loop F ad (ps @ p # qs) buf b = Some (b', Some m) \<and> holds m x"
  using assms(1,2)
proof (induction ps arbitrary: buf)
  case Nil
  from str.PRead [OF assms(4), of 1 buf 0] Nil.prems(2) obtain st buf' s' where
    "ra_PRead (raf_ops F) 0 1 buf s = Some ((st, buf'), s')" "holds s' x" "st = OkStatus \<or> st = Inl kOutOfRange" by auto
  with assms(3) show ?case by auto
next
  case (Cons q ps)
  from match_rejected [of ad b q buf "ps @ p # qs"] Cons.prems obtain buf' where
    "match_ra_loop F ad (q # (ps @ p # qs)) buf b = match_ra_loop F ad (ps @ p # qs) buf' b" "length (b_mem_block buf') = 1" by auto
  with Cons.IH [of buf'] Cons.prems(1) show ?case by simp
qed

definition set_holds :: "'p list \<Rightarrow> ('b, 's) SetRandomAccess \<Rightarrow> bytes \<Rightarrow> bool" where
  "set_holds prims s x \<longleftrightarrow>
     (if sr_attempted_matching s then \<exists>m. sr_matching_stream s = Some m \<and> holds m x
      else \<exists>ps p qs m. prims = ps @ p # qs \<and> (\<forall>q \<in> set ps. ra_rejects F (sr_associated_data s) (sr_ciphertext_source s) q) \<and>
        raf_New F p (sr_ciphertext_source s) (sr_associated_data s) = Inr m \<and> holds m x)"

lemma GetMatchedStream_holds:
  assumes "set_holds prims s x"
  shows "\<exists>m s'. GetMatchedStream F prims s = Some (Inr m, s') \<and> holds m x \<and> sr_attempted_matching s'"
proof (cases "sr_attempted_matching s")
  case True
  with assms show ?thesis by (auto simp: set_holds_def GetMatchedStream_def)
next
  case False
  with assms obtain ps p qs m where "prims = ps @ p # qs" "\<forall>q \<in> set ps. ra_rejects F (sr_associated_data s) (sr_ciphertext_source s) q"
    "raf_New F p (sr_ciphertext_source s) (sr_associated_data s) = Inr m" "holds m x" by (auto simp: set_holds_def)
  with match_found [OF this(2) _ this(3,4), of "\<lparr>b_mem_block = [0], b_size = 1\<rparr>" qs] False
  show ?thesis by (auto simp: GetMatchedStream_def Buffer_New_def)
qed

end

sublocale key_random_access \<subseteq> set_ra: random_access "SetRA_ops F prims" "set_holds prims" for prims
proof
  fix s x n pos and b :: Buffer
  assume A: "set_holds prims s x" "0 < n" "n \<le> length (b_mem_block b)" "pos \<le> length x" "int pos + int n < 2 ^ 63"
  from GetMatchedStream_holds [OF A(1)] obtain m s1 where m: "GetMatchedStream F prims s = Some (Inr m, s1)" "holds m x" "sr_attempted_matching s1"
    by blast
  from str.PRead [OF m(2) A(2-)] obtain st b' m' where r: "ra_PRead (raf_ops F) (int pos) (int n) b m = Some ((st, b'), m')" "holds m' x"
    "length (b_mem_block b') = length (b_mem_block b) \<and> b_size b' = length (take n (drop pos x)) \<and>
        buffer_bytes b' = take n (drop pos x) \<and> (st = OkStatus \<or> st = Inl kOutOfRange) \<and>
        (pos + n < length x \<longrightarrow> st = OkStatus) \<and> (pos = length x \<longrightarrow> st = Inl kOutOfRange)" by blast
  have "ra_PRead (SetRA_ops F prims) (int pos) (int n) b s = Some ((st, b'), s1\<lparr>sr_matching_stream := Some m'\<rparr>)"
    "set_holds prims (s1\<lparr>sr_matching_stream := Some m'\<rparr>) x"
    using r(1,2) m A(3) by (simp_all add: SetRA_ops_def SetRA_PRead_def set_holds_def allocated_size_def)
  with r(3) show "\<exists>st b' s'. ra_PRead (SetRA_ops F prims) (int pos) (int n) b s = Some ((st, b'), s') \<and> set_holds prims s' x \<and>
        length (b_mem_block b') = length (b_mem_block b) \<and> b_size b' = length (take n (drop pos x)) \<and>
        buffer_bytes b' = take n (drop pos x) \<and> (st = OkStatus \<or> st = Inl kOutOfRange) \<and>
        (pos + n < length x \<longrightarrow> st = OkStatus) \<and> (pos = length x \<longrightarrow> st = Inl kOutOfRange)" by blast
next
  fix s x
  assume "set_holds prims s x"
  from GetMatchedStream_holds [OF this] obtain m s1 where m: "GetMatchedStream F prims s = Some (Inr m, s1)" "holds m x" "sr_attempted_matching s1"
    by blast
  from str.size [OF m(2)] m show "\<exists>s'. ra_size (SetRA_ops F prims) s = Some (Inr (int (length x)), s') \<and> set_holds prims s' x"
    by (auto simp: SetRA_ops_def SetRA_size_def set_holds_def)
qed

context random_access
begin

lemma pread_all_contract:
  "\<lbrakk>holds s x; \<forall>(pos, n) \<in> set rs. 0 < n \<and> pos \<le> length x \<and> int pos + int n < 2 ^ 63\<rbrakk> \<Longrightarrow>
   \<exists>res s'. pread_all ops rs s = Some (res, s') \<and>
     list_all2 (\<lambda>(pos, n) (st, y). y = take n (drop pos x) \<and>
       (st = OkStatus \<and> pos < length x \<or> st = Inl kOutOfRange \<and> length x \<le> pos + n)) rs res"
proof (induction rs arbitrary: s)
  case (Cons r rs)
  obtain pos n where r: "r = (pos, n)" by fastforce
  let ?b = "\<lparr>b_mem_block = replicate n 0, b_size = n\<rparr> :: Buffer"
  from Cons.prems(2) have "0 < n" "n \<le> length (b_mem_block ?b)" "pos \<le> length x" "int pos + int n < 2 ^ 63" by (simp_all add: r)
  from PRead [OF Cons.prems(1) this] obtain st b' s' where
    p: "ra_PRead ops (int pos) (int n) ?b s = Some ((st, b'), s')" "holds s' x" "buffer_bytes b' = take n (drop pos x)"
    and e: "st = OkStatus \<or> st = Inl kOutOfRange" "pos + n < length x \<longrightarrow> st = OkStatus" "pos = length x \<longrightarrow> st = Inl kOutOfRange" by blast
  have "st = OkStatus \<and> pos < length x \<or> st = Inl kOutOfRange \<and> length x \<le> pos + n" using e \<open>pos \<le> length x\<close> by auto
  from Cons.IH [OF p(2)] Cons.prems(2) obtain res s'' where "pread_all ops rs s' = Some (res, s'')"
    "list_all2 (\<lambda>(pos, n) (st, y). y = take n (drop pos x) \<and>
       (st = OkStatus \<and> pos < length x \<or> st = Inl kOutOfRange \<and> length x \<le> pos + n)) rs res" by auto
  with p(1,3) \<open>st = OkStatus \<and> pos < length x \<or> st = Inl kOutOfRange \<and> length x \<le> pos + n\<close> show ?case by (auto simp: r)
qed simp

end

section \<open>Keys over a file\<close>

text \<open>Reading a file does not change it, and reading leaves the size of a buffer as it is.\<close>

lemma length_copy_some:
  assumes "int off + n \<le> int (length (b_mem_block b))" and "length bs \<le> nat n"
  shows "length (b_mem_block (copy_to off bs b)) = length (b_mem_block b)"
  using assms by (cases "0 \<le> n") (auto simp: copy_to_def)

lemma ReadAndDecryptSegment_file:
  "ReadAndDecryptSegment sops File_ops i ct seg s = Some (r, s') \<Longrightarrow> dr_ct_source s' = dr_ct_source s"
  by (auto simp: ReadAndDecryptSegment_def File_ops_def Let_def split: if_splits sum.splits prod.splits)

lemma pread_loop_file:
  assumes "pread_loop sops rops pos cnt po rc rem ct seg dest s = Some y"
  shows "rops = File_ops \<longrightarrow> dr_ct_source (snd y) = dr_ct_source s \<and> length (b_mem_block (snd (fst y))) = length (b_mem_block dest)"
proof (rule pread_loop.raw_induct [OF _ assms], goal_cases)
  case (1 loop sops rops pos cnt po rc rem ct seg dest s y)
  show ?case
  proof (cases "rem \<le> 0")
    case True
    then show ?thesis using 1(2) by auto
  next
    case False
    with 1(2) obtain st ct' pt s1 where
      r: "ReadAndDecryptSegment sops rops (GetSegmentNr s (pos + int rc)) ct seg s = Some ((st, ct', pt), s1)"
      by (auto simp: bind_eq_Some_conv)
    define tc where "tc = min (int (length pt) - po) rem"
    let ?d = "dest\<lparr>b_size := nat (int rc + tc)\<rparr>"
    let ?d' = "copy_to rc (take (nat tc) (drop (nat po) pt)) ?d"
    show ?thesis
    proof (intro impI)
      assume F: "rops = File_ops"
      note src = ReadAndDecryptSegment_file [OF r [unfolded F]]
      show "dr_ct_source (snd y) = dr_ct_source s \<and> length (b_mem_block (snd (fst y))) = length (b_mem_block dest)"
      proof (cases "(st = OkStatus \<or> st = Inl kOutOfRange) \<and> set_size (int rc + tc) dest = (OkStatus, ?d)")
        case True
        then have "int rc + tc \<le> int (length (b_mem_block dest))" by (auto simp: set_size_def allocated_size_def split: if_splits)
        then have l: "length (b_mem_block ?d') = length (b_mem_block dest)" using length_copy_some [of rc tc ?d "take (nat tc) (drop (nat po) pt)"] by simp
        show ?thesis
        proof (cases "st = Inl kOutOfRange \<and> tc = int (length pt) - po")
          case stop: True
          then show ?thesis using 1(2) r False True src l by (auto simp: Let_def simp flip: tc_def)
        next
          case cont: False
          have "(if st = Inl kOutOfRange \<and> tc = int (length pt) - po then Some ((st, ?d'), s1)
              else loop sops rops pos cnt 0 (rc + nat tc) (cnt - int (b_size ?d')) ct' pt ?d' s1) = Some y"
            using 1(2) r False True unfolding tc_def by (simp add: Let_def)
          then have "loop sops rops pos cnt 0 (rc + nat tc) (cnt - int (b_size ?d')) ct' pt ?d' s1 = Some y"
            unfolding if_not_P [OF cont] .
          from 1(1) [OF this] F l src show ?thesis by simp
        qed
      next
        case no: False
        then have "y = ((st, dest), s1) \<or> (\<exists>e. y = ((Inl e, dest), s1))"
          using 1(2) r False by (auto simp: Let_def set_size_def simp flip: tc_def split: if_splits sum.splits prod.splits)
        then show ?thesis using src by auto
      qed
    qed
  qed
qed

lemma Initialize_file: "InitializeIfNeeded sops File_ops s = Some s' \<Longrightarrow> dr_ct_source s' = dr_ct_source s"
  by (auto simp: InitializeIfNeeded_def DecRA_read_header_def DecRA_compute_size_def File_ops_def Let_def bind_eq_Some_conv
      split: if_splits sum.splits prod.splits)

lemma DecRA_PRead_file:
  assumes "DecRA_PRead sops File_ops pos n buf s = Some ((st, buf'), s')"
  shows "dr_ct_source s' = dr_ct_source s \<and> length (b_mem_block buf') = length (b_mem_block buf)"
proof -
  have z: "set_size 0 buf = (OkStatus, buf\<lparr>b_size := 0\<rparr>)" by (simp add: set_size_def allocated_size_def)
  have P: "dr_ct_source s' = dr_ct_source s1 \<and> length (b_mem_block buf') = length (b_mem_block b1)"
    if p: "PReadAndDecrypt sops File_ops pos n b1 s1 = Some ((st, buf'), s')" for s1 b1
    using p by (auto simp: PReadAndDecrypt_def DecRA_size_def bind_eq_Some_conv split: if_splits sum.splits
        dest!: Initialize_file pread_loop_file)
  from assms show ?thesis
    by (auto simp: DecRA_PRead_def z bind_eq_Some_conv split: if_splits sum.splits dest!: Initialize_file dest: P)
qed

text \<open>The random access streams of the two kinds of keys, and the functions the keyset stream uses.\<close>

type_synonym 'b KeyRAStream = "(GcmDecrypter, 'b) DecRandomAccess + (CtrHmacDecrypter, 'b) DecRandomAccess"

definition Key_NewDecryptingRandomAccessStream ::
    "Ssl \<Rightarrow> (FipsCompatibility \<Rightarrow> Status) \<Rightarrow> StreamingKey \<Rightarrow> 'b \<Rightarrow> bytes \<Rightarrow> 'b KeyRAStream StatusOr" where
  "Key_NewDecryptingRandomAccessStream S fips key src ad =
     (case key of
        GcmKey G \<Rightarrow> map_sum id Inl (NewDecryptingRandomAccessStream (GcmDec_ops S) (Gcm_NewSegmentDecrypter G ad) (Some src))
      | CtrKey C \<Rightarrow> map_sum id Inr (NewDecryptingRandomAccessStream (CtrHmacDec_ops S fips) (CtrHmac_NewSegmentDecrypter C ad) (Some src)))"

definition KeyRA_ops :: "Ssl \<Rightarrow> (FipsCompatibility \<Rightarrow> Status) \<Rightarrow> 'b RandomAccess \<Rightarrow> 'b KeyRAStream RandomAccess" where
  "KeyRA_ops S fips rops =
     \<lparr>ra_PRead = (\<lambda>pos n buf s. case s of
        Inl g \<Rightarrow> do { (r, g') \<leftarrow> DecRA_PRead (GcmDec_ops S) rops pos n buf g; Some (r, Inl g') }
      | Inr c \<Rightarrow> do { (r, c') \<leftarrow> DecRA_PRead (CtrHmacDec_ops S fips) rops pos n buf c; Some (r, Inr c') }),
      ra_size = (\<lambda>s. case s of
        Inl g \<Rightarrow> do { (r, g') \<leftarrow> DecRA_size (GcmDec_ops S) rops g; Some (r, Inl g') }
      | Inr c \<Rightarrow> do { (r, c') \<leftarrow> DecRA_size (CtrHmacDec_ops S fips) rops c; Some (r, Inr c') })\<rparr>"

definition key_ra_fns :: "Ssl \<Rightarrow> (FipsCompatibility \<Rightarrow> Status) \<Rightarrow> 'b RandomAccess \<Rightarrow> (StreamingKey, 'b, 'b KeyRAStream) RandomAccessFns" where
  "key_ra_fns S fips rops =
     \<lparr>raf_New = Key_NewDecryptingRandomAccessStream S fips, raf_ops = KeyRA_ops S fips rops,
      raf_source = (\<lambda>s. case s of Inl g \<Rightarrow> dr_ct_source g | Inr c \<Rightarrow> dr_ct_source c)\<rparr>"

definition key_ra_holds :: "Ssl \<Rightarrow> (FipsCompatibility \<Rightarrow> Status) \<Rightarrow> FileRandomAccessStream KeyRAStream \<Rightarrow> bytes \<Rightarrow> bool" where
  "key_ra_holds S fips s x \<longleftrightarrow>
     (case s of
        Inl g \<Rightarrow> \<exists>hs f p. gcm_ra.dra_holds S hs f p g x
      | Inr c \<Rightarrow> \<exists>t hs f p. ctr_ra.dra_holds S fips t hs f p c x)"

lemma key_ra_simps [simp]:
  "raf_New (key_ra_fns S fips rops) = Key_NewDecryptingRandomAccessStream S fips"
  "ra_PRead (raf_ops (key_ra_fns S fips rops)) pos n buf (Inl g) = do { (r, g') \<leftarrow> DecRA_PRead (GcmDec_ops S) rops pos n buf g; Some (r, Inl g') }"
  "ra_PRead (raf_ops (key_ra_fns S fips rops)) pos n buf (Inr c) = do { (r, c') \<leftarrow> DecRA_PRead (CtrHmacDec_ops S fips) rops pos n buf c; Some (r, Inr c') }"
  "ra_size (raf_ops (key_ra_fns S fips rops)) (Inl g) = do { (r, g') \<leftarrow> DecRA_size (GcmDec_ops S) rops g; Some (r, Inl g') }"
  "ra_size (raf_ops (key_ra_fns S fips rops)) (Inr c) = do { (r, c') \<leftarrow> DecRA_size (CtrHmacDec_ops S fips) rops c; Some (r, Inr c') }"
  "raf_source (key_ra_fns S fips rops) (Inl g) = dr_ct_source g" "raf_source (key_ra_fns S fips rops) (Inr c) = dr_ct_source c"
  by (simp_all add: key_ra_fns_def KeyRA_ops_def)

text \<open>Results of a read that satisfy the contract, for one kind of stream and for the sum of both.\<close>

lemma key_ra_gcm:
  assumes "gcm_ra.dra_holds S hs f p g x"
  shows "key_ra_holds S fips (Inl g) x"
  using assms unfolding key_ra_holds_def by auto

lemma key_ra_ctr:
  assumes "ctr_ra.dra_holds S fips t hs f p c x"
  shows "key_ra_holds S fips (Inr c) x"
  using assms unfolding key_ra_holds_def by auto

lemma key_ra_PRead:
  assumes h: "key_ra_holds S fips s x" and n: "0 < n" "n \<le> length (b_mem_block b)" "pos \<le> length x" "int pos + int n < 2 ^ 63"
  shows "\<exists>st b' s'. ra_PRead (raf_ops (key_ra_fns S fips File_ops)) (int pos) (int n) b s = Some ((st, b'), s') \<and> key_ra_holds S fips s' x \<and>
        length (b_mem_block b') = length (b_mem_block b) \<and> b_size b' = length (take n (drop pos x)) \<and>
        buffer_bytes b' = take n (drop pos x) \<and> (st = OkStatus \<or> st = Inl kOutOfRange) \<and>
        (pos + n < length x \<longrightarrow> st = OkStatus) \<and> (pos = length x \<longrightarrow> st = Inl kOutOfRange)"
proof (cases s)
  case (Inl g)
  with h obtain hs f p where g: "gcm_ra.dra_holds S hs f p g x" by (auto simp: key_ra_holds_def)
  obtain st b' g' where r: "DecRA_PRead (GcmDec_ops S) File_ops (int pos) (int n) b g = Some ((st, b'), g')" "gcm_ra.dra_holds S hs f p g' x"
    and q: "length (b_mem_block b') = length (b_mem_block b) \<and> b_size b' = length (take n (drop pos x)) \<and>
        buffer_bytes b' = take n (drop pos x) \<and> (st = OkStatus \<or> st = Inl kOutOfRange) \<and>
        (pos + n < length x \<longrightarrow> st = OkStatus) \<and> (pos = length x \<longrightarrow> st = Inl kOutOfRange)"
    using gcm_ra.dra.PRead [OF g n] unfolding DecRA_ops_def RandomAccess.select_convs by blast
  show ?thesis
    by (intro exI [of _ st] exI [of _ b'] exI [of _ "Inl g'"] conjI q [THEN conjunct1] q [THEN conjunct2, THEN conjunct1]) (use r key_ra_gcm [OF r(2)] q Inl in auto)
next
  case (Inr c)
  with h obtain t hs f p where c: "ctr_ra.dra_holds S fips t hs f p c x" by (auto simp: key_ra_holds_def)
  obtain st b' c' where r: "DecRA_PRead (CtrHmacDec_ops S fips) File_ops (int pos) (int n) b c = Some ((st, b'), c')" "ctr_ra.dra_holds S fips t hs f p c' x"
    and q: "length (b_mem_block b') = length (b_mem_block b) \<and> b_size b' = length (take n (drop pos x)) \<and>
        buffer_bytes b' = take n (drop pos x) \<and> (st = OkStatus \<or> st = Inl kOutOfRange) \<and>
        (pos + n < length x \<longrightarrow> st = OkStatus) \<and> (pos = length x \<longrightarrow> st = Inl kOutOfRange)"
    using ctr_ra.dra.PRead [OF c n] unfolding DecRA_ops_def RandomAccess.select_convs by blast
  show ?thesis
    by (intro exI [of _ st] exI [of _ b'] exI [of _ "Inr c'"] conjI q [THEN conjunct1] q [THEN conjunct2, THEN conjunct1]) (use r key_ra_ctr [OF r(2)] q Inr in auto)
qed

lemma key_ra_size:
  assumes h: "key_ra_holds S fips s x"
  shows "\<exists>s'. ra_size (raf_ops (key_ra_fns S fips File_ops)) s = Some (Inr (int (length x)), s') \<and> key_ra_holds S fips s' x"
proof (cases s)
  case (Inl g)
  with h obtain hs f p where g: "gcm_ra.dra_holds S hs f p g x" by (auto simp: key_ra_holds_def)
  from gcm_ra.DecRA_size_holds [OF g] obtain g' where "DecRA_size (GcmDec_ops S) File_ops g = Some (Inr (int (length x)), g')" "gcm_ra.dra_holds S hs f p g' x"
    by blast
  with key_ra_gcm [OF this(2), of fips] Inl show ?thesis by auto
next
  case (Inr c)
  with h obtain t hs f p where c: "ctr_ra.dra_holds S fips t hs f p c x" by (auto simp: key_ra_holds_def)
  from ctr_ra.DecRA_size_holds [OF c] obtain c' where "DecRA_size (CtrHmacDec_ops S fips) File_ops c = Some (Inr (int (length x)), c')"
    "ctr_ra.dra_holds S fips t hs f p c' x" by blast
  with key_ra_ctr [OF this(2)] Inr show ?thesis by auto
qed

interpretation key_ra: key_random_access "key_ra_fns S fips File_ops" "key_ra_holds S fips" "\<lambda>b s. raf_source (key_ra_fns S fips File_ops) s = b"
  for S fips
proof (unfold_locales, goal_cases)
  case (1 s x n b pos)
  then show ?case by (rule key_ra_PRead)
next
  case (2 s x)
  then show ?case by (rule key_ra_size)
next
  case (3 p b ad s)
  then show ?case
    by (auto simp: Key_NewDecryptingRandomAccessStream_def NewDecryptingRandomAccessStream_def DecRA_New_def
        split: StreamingKey.splits sum.splits if_splits)
next
  case (4 b s pos n buf st buf' s')
  then show ?case by (cases s) (auto simp: bind_eq_Some_conv dest: DecRA_PRead_file)
qed

text \<open>
  (C36) Random access with a keyset. A plaintext is written with one of the AES-GCM-HKDF keys of the keyset, after as many bytes as its
  ciphertext offset. If the keys before it fail to read the file, every read of a range through the random access stream of the keyset returns exactly the
  bytes of the plaintext in that range, the first read as well as all later ones, whatever the failed attempts
  did; the end of the stream is reported if the range starts at the end of the plaintext and never before the range reaches it. The reported
  size is that of the plaintext.
\<close>

theorem keyset_random_access:
  assumes S: "aead_laws S" "aead_open_laws S"
    and salt: "length salt = nat (gs_derived_key_size G)" and np: "length np = 7"
    and enc: "NewEncryptingStream (GcmEnc_ops S) (Gcm_NewSegmentEncrypter S salt np G ad) (Some (OstreamOutputStream_new out k)) = Inr s"
    and dec: "NewDecryptingRandomAccessStream (GcmDec_ops S) (Gcm_NewSegmentDecrypter G ad) (Some file) = Inr r"
    and wr: "write_all (Enc_ops (GcmEnc_ops S) Ostream_ops) xs s = Some (OkStatus, s')"
    and ctfile: "file_holds file (os_written (oo_output (es_ct_destination s')))"
    and off: "int (length (os_written out)) = gs_ciphertext_offset G" and small: "gs_ciphertext_segment_size G < 2 ^ 31"
    and before: "\<forall>key \<in> set before. ra_rejects (key_ra_fns S fips File_ops) ad file key"
    and rs: "\<forall>(pos, n) \<in> set rs. 0 < n \<and> pos \<le> length (concat xs) \<and> int pos + int n < 2 ^ 63"
    and new: "SetRA_New (Some (before @ GcmKey G # after)) (Some file) ad = Inr t"
  shows "(\<exists>res t'. pread_all (SetRA_ops (key_ra_fns S fips File_ops) (before @ GcmKey G # after)) rs t = Some (res, t') \<and>
      list_all2 (\<lambda>(pos, n) (st, y). y = take n (drop pos (concat xs)) \<and>
        (st = OkStatus \<and> pos < length (concat xs) \<or> st = Inl kOutOfRange \<and> length (concat xs) \<le> pos + n)) rs res) \<and>
    (\<exists>t'. SetRA_size (key_ra_fns S fips File_ops) (before @ GcmKey G # after) t = Some (Inr (int (length (concat xs))), t'))"
proof -
  let ?keys = "before @ GcmKey G # after"
  from gcm_written_holds [OF S salt np enc dec wr ctfile off small] obtain hs f p where "gcm_ra.dra_holds S hs f p r (concat xs)" by blast
  from key_ra_gcm [OF this] have h: "key_ra_holds S fips (Inl r) (concat xs)" .
  have k: "raf_New (key_ra_fns S fips File_ops) (GcmKey G) file ad = Inr (Inl r)"
    using dec by (simp add: Key_NewDecryptingRandomAccessStream_def)
  have t: "t = \<lparr>sr_ciphertext_source = file, sr_associated_data = ad, sr_attempted_matching = False, sr_matching_stream = None\<rparr>"
    using new by (simp add: SetRA_New_def)
  have "key_ra.set_holds S fips ?keys t (concat xs)" unfolding key_ra.set_holds_def using before k h by (auto simp: t)
  with key_ra.set_ra.pread_all_contract [OF this rs] key_ra.set_ra.size [OF this] show ?thesis by (auto simp: SetRA_ops_def)
qed

lemma sample_file_header: "take 40 sample_ciphertext ! 0 = 24" "40 \<le> length sample_ciphertext"
  by (simp_all add: sample_ciphertext_def sample_header_def CreateHeader_def)

lemma sample_file_PRead:
  "File_PRead 0 40 \<lparr>b_mem_block = replicate 40 0, b_size = 40\<rparr> sample_file =
     (OkStatus, \<lparr>b_mem_block = take 40 sample_ciphertext, b_size = 40\<rparr>)"
proof -
  have "take 40 sample_ciphertext \<noteq> []" using sample_file_header(2) by auto
  then obtain y ys where "take 40 sample_ciphertext = y # ys" by (meson neq_Nil_conv)
  moreover from this have "length (y # ys) = 40" using sample_file_header(2) by (metis length_take min.absorb2)
  ultimately show ?thesis
    by (simp add: File_PRead_def allocated_size_def set_size_def pread_def sample_file_def copy_to_def)
qed

lemma sample_other_keys_ra_reject:
  "\<forall>key \<in> set sample_other_keys. ra_rejects (key_ra_fns sample_ssl (\<lambda>_. OkStatus) File_ops) [9] sample_file key"
  using sample_file_PRead sample_file_header
  by (simp add: sample_other_keys_def ra_rejects_def Key_NewDecryptingRandomAccessStream_def NewDecryptingRandomAccessStream_def
      Gcm_NewSegmentDecrypter_def GcmDec_New_def GcmDec_Validate_def sample_gs_def DecRA_New_def GcmDec_ops_def gc_get_header_size_def
      gc_get_plaintext_segment_size_def DecRA_PRead_def set_size_def allocated_size_def InitializeIfNeeded_def DecRA_read_header_def
      Buffer_New_def File_ops_def GcmDec_Init_def)

theorem keyset_random_access_witness:
  "\<exists>t res t'. SetRA_New (Some (sample_other_keys @ [GcmKey sample_gs])) (Some sample_file) [9] = Inr t \<and>
     pread_all (SetRA_ops (key_ra_fns sample_ssl (\<lambda>_. OkStatus) File_ops) (sample_other_keys @ [GcmKey sample_gs])) [(2, 2), (5, 1)] t =
       Some (res, t') \<and> res = [(OkStatus, [3, 4]), (Inl kOutOfRange, [])]"
proof -
  obtain s' where w: "write_all (Enc_ops (GcmEnc_ops sample_ssl) Ostream_ops) [[1, 2, 3, 4, 5]] sample_stream = Some (OkStatus, s')"
    "os_written (oo_output (es_ct_destination s')) = os_written sample_out @ in_rest sample_in" using sample_stream_written by blast
  have f: "file_holds sample_file (os_written (oo_output (es_ct_destination s')))"
    unfolding w(2) by (simp add: file_holds_def sample_file_def sample_in_def sample_out_def sample_ciphertext_def)
  obtain r where r: "NewDecryptingRandomAccessStream (GcmDec_ops sample_ssl) (Gcm_NewSegmentDecrypter sample_gs [9]) (Some sample_file) = Inr r"
    by (simp add: NewDecryptingRandomAccessStream_def Gcm_NewSegmentDecrypter_def GcmDec_New_def GcmDec_Validate_def sample_gs_def DecRA_New_def
        GcmDec_ops_def gc_get_header_size_def gc_get_plaintext_segment_size_def)
  obtain t :: "(FileRandomAccessStream, FileRandomAccessStream KeyRAStream) SetRandomAccess" where
    t: "SetRA_New (Some (sample_other_keys @ [GcmKey sample_gs])) (Some sample_file) [9] = Inr t" by (simp add: SetRA_New_def)
  from keyset_random_access [OF sample_ssl_laws(1) sample_ssl_stream_laws(1) _ _ sample_stream_new r w(1) f _ _ sample_other_keys_ra_reject _ t,
      of "[(2, 2), (5, 1)]"]
  show ?thesis using t by (auto simp: sample_gs_def sample_out_def list_all2_Cons1)
qed

end
