(* ===== verification/Jwt_Token.thy ===== *)
theory Jwt_Token
  imports Complex_Main Primitive_Wrappers "HOL-Library.Finite_Map"
begin

text \<open>
  JSON web tokens: \<^verbatim>\<open>tink/jwt/raw_jwt.cc\<close>, \<^verbatim>\<open>verified_jwt.cc\<close>, \<^verbatim>\<open>jwt_validator.cc\<close> and
  \<^verbatim>\<open>internal/json_util.cc\<close>. A token is a type header and a JSON object; the builder collects claims and the first error, the validator
  checks times, type, issuer and audience.

  A \<^verbatim>\<open>google::protobuf::Value\<close> is a datatype with a constructor for each kind, a \<^verbatim>\<open>Struct\<close> a finite map from names to values.
  The conversion from and to JSON text is a parameter (the protocol buffer library). Numbers are real: the values NaN and infinity, which JSON does not have,
  are not represented. A time is a number of ticks of \<^verbatim>\<open>absl::Time\<close> (a quarter of a nanosecond) since the epoch, a duration a number of ticks; the two infinite times are
  not represented.
\<close>

section \<open>Definitions\<close>

subsection \<open>JSON values\<close>

datatype Value =
    KindNotSet
  | NullValue
  | NumberValue real
  | StringValue bytes
  | BoolValue bool
  | StructValue "(bytes, Value) fmap"
  | ListValue "Value list"

type_synonym Struct = "(bytes, Value) fmap"

datatype KindCase = kKindNotSet | kNullValue | kNumberValue | kStringValue | kBoolValue | kStructValue | kListValue

fun kind_case :: "Value \<Rightarrow> KindCase" where
  "kind_case KindNotSet = kKindNotSet"
| "kind_case NullValue = kNullValue"
| "kind_case (NumberValue _) = kNumberValue"
| "kind_case (StringValue _) = kStringValue"
| "kind_case (BoolValue _) = kBoolValue"
| "kind_case (StructValue _) = kStructValue"
| "kind_case (ListValue _) = kListValue"

text \<open>The accessors return a default if the value is of another kind.\<close>

fun string_value :: "Value \<Rightarrow> bytes" where
  "string_value (StringValue s) = s"
| "string_value _ = []"

fun number_value :: "Value \<Rightarrow> real" where
  "number_value (NumberValue x) = x"
| "number_value _ = 0"

fun bool_value :: "Value \<Rightarrow> bool" where
  "bool_value (BoolValue b) = b"
| "bool_value _ = False"

fun struct_value :: "Value \<Rightarrow> Struct" where
  "struct_value (StructValue s) = s"
| "struct_value _ = fmempty"

fun list_value :: "Value \<Rightarrow> Value list" where
  "list_value (ListValue vs) = vs"
| "list_value _ = []"

text \<open>\<^verbatim>\<open>JsonStringToMessage\<close> and \<^verbatim>\<open>MessageToJsonString\<close> of the protocol buffer library.\<close>

record Json =
  JsonToStruct :: "bytes \<Rightarrow> Struct option"
  JsonToList :: "bytes \<Rightarrow> Value list option"
  StructToJson :: "Struct \<Rightarrow> bytes StatusOr"
  ListToJson :: "Value list \<Rightarrow> bytes StatusOr"

definition JsonStringToProtoStruct :: "Json \<Rightarrow> bytes \<Rightarrow> Struct StatusOr" where
  "JsonStringToProtoStruct J json_string = (case JsonToStruct J json_string of None \<Rightarrow> Inl kInvalidArgument | Some proto \<Rightarrow> Inr proto)"

definition JsonStringToProtoList :: "Json \<Rightarrow> bytes \<Rightarrow> Value list StatusOr" where
  "JsonStringToProtoList J json_string = (case JsonToList J json_string of None \<Rightarrow> Inl kInvalidArgument | Some proto \<Rightarrow> Inr proto)"

definition ProtoStructToJsonString :: "Json \<Rightarrow> Struct \<Rightarrow> bytes StatusOr" where
  "ProtoStructToJsonString J proto = StructToJson J proto"

definition ProtoListToJsonString :: "Json \<Rightarrow> Value list \<Rightarrow> bytes StatusOr" where
  "ProtoListToJsonString J proto = ListToJson J proto"

subsection \<open>Claims\<close>

definition kJwtClaimIssuer :: bytes where "kJwtClaimIssuer = ascii ''iss''"
definition kJwtClaimSubject :: bytes where "kJwtClaimSubject = ascii ''sub''"
definition kJwtClaimAudience :: bytes where "kJwtClaimAudience = ascii ''aud''"
definition kJwtClaimExpiration :: bytes where "kJwtClaimExpiration = ascii ''exp''"
definition kJwtClaimNotBefore :: bytes where "kJwtClaimNotBefore = ascii ''nbf''"
definition kJwtClaimIssuedAt :: bytes where "kJwtClaimIssuedAt = ascii ''iat''"
definition kJwtClaimJwtId :: bytes where "kJwtClaimJwtId = ascii ''jti''"

definition kJwtTimestampMax :: int where "kJwtTimestampMax = 253402300799"

definition IsRegisteredClaimName :: "bytes \<Rightarrow> bool" where
  "IsRegisteredClaimName name \<longleftrightarrow>
     name = kJwtClaimIssuer \<or> name = kJwtClaimSubject \<or> name = kJwtClaimAudience \<or> name = kJwtClaimExpiration \<or>
     name = kJwtClaimNotBefore \<or> name = kJwtClaimIssuedAt \<or> name = kJwtClaimJwtId"

definition ValidatePayloadName :: "bytes \<Rightarrow> Status" where
  "ValidatePayloadName name = (if IsRegisteredClaimName name then Inl kInvalidArgument else OkStatus)"

definition HasClaimOfKind :: "Struct \<Rightarrow> bytes \<Rightarrow> KindCase \<Rightarrow> bool" where
  "HasClaimOfKind json_proto name kind =
     (if IsRegisteredClaimName name then False
      else case fmlookup json_proto name of None \<Rightarrow> False | Some value \<Rightarrow> kind_case value = kind)"

definition ClaimIsNotAString :: "Struct \<Rightarrow> bytes \<Rightarrow> bool" where
  "ClaimIsNotAString json_proto name =
     (case fmlookup json_proto name of None \<Rightarrow> False | Some value \<Rightarrow> kind_case value \<noteq> kStringValue)"

definition ClaimIsNotAList :: "Struct \<Rightarrow> bytes \<Rightarrow> bool" where
  "ClaimIsNotAList json_proto name =
     (case fmlookup json_proto name of None \<Rightarrow> False | Some value \<Rightarrow> kind_case value \<noteq> kListValue)"

definition ClaimIsNotATimestamp :: "Struct \<Rightarrow> bytes \<Rightarrow> bool" where
  "ClaimIsNotATimestamp json_proto name =
     (case fmlookup json_proto name of
        None \<Rightarrow> False
      | Some value \<Rightarrow>
          if kind_case value \<noteq> kNumberValue then True
          else number_value value > of_int kJwtTimestampMax \<or> number_value value < 0)"

type_synonym Time = int
type_synonym Duration = int

definition ticks :: int where "ticks = 4000000000"

definition FromUnixSeconds :: "int \<Rightarrow> Time" where "FromUnixSeconds s = s * ticks"
definition ToUnixSeconds :: "Time \<Rightarrow> int" where "ToUnixSeconds t = t div ticks"

definition TimeToTimestamp :: "Time \<Rightarrow> int" where "TimeToTimestamp t = ToUnixSeconds t"

text \<open>The conversion of a number to an integer drops the fraction.\<close>

definition truncate_number :: "real \<Rightarrow> int" where
  "truncate_number x = (if x < 0 then \<lceil>x\<rceil> else \<lfloor>x\<rfloor>)"

definition TimestampToTime :: "real \<Rightarrow> Time" where
  "TimestampToTime timestamp =
     (if timestamp > of_int kJwtTimestampMax then FromUnixSeconds kJwtTimestampMax
      else FromUnixSeconds (truncate_number timestamp))"

definition ValidateAudienceClaim :: "Struct \<Rightarrow> Status" where
  "ValidateAudienceClaim json_proto =
     (case fmlookup json_proto kJwtClaimAudience of
        None \<Rightarrow> OkStatus
      | Some value \<Rightarrow>
          if kind_case value = kStringValue then OkStatus
          else if kind_case value \<noteq> kListValue then Inl kInvalidArgument
          else if length (list_value value) < 1 then Inl kInvalidArgument
          else if list_ex (\<lambda>v. kind_case v \<noteq> kStringValue) (list_value value) then Inl kInvalidArgument
          else OkStatus)"

subsection \<open>Tokens\<close>

record RawJwt =
  rj_type_header :: "bytes option"
  rj_json_proto :: Struct

definition FromJson :: "Json \<Rightarrow> bytes option \<Rightarrow> bytes \<Rightarrow> RawJwt StatusOr" where
  "FromJson J type_header json_payload =
     (case JsonStringToProtoStruct J json_payload of
        Inl e \<Rightarrow> Inl e
      | Inr proto \<Rightarrow>
          if ClaimIsNotAString proto kJwtClaimIssuer \<or> ClaimIsNotAString proto kJwtClaimSubject \<or>
             ClaimIsNotATimestamp proto kJwtClaimExpiration \<or> ClaimIsNotATimestamp proto kJwtClaimNotBefore \<or>
             ClaimIsNotATimestamp proto kJwtClaimIssuedAt
          then Inl kInvalidArgument
          else case ValidateAudienceClaim proto of
                 Inl e \<Rightarrow> Inl e
               | Inr _ \<Rightarrow> Inr \<lparr>rj_type_header = type_header, rj_json_proto = proto\<rparr>)"

definition GetJsonPayload :: "Json \<Rightarrow> RawJwt \<Rightarrow> bytes StatusOr" where
  "GetJsonPayload J t = ProtoStructToJsonString J (rj_json_proto t)"

definition HasTypeHeader :: "RawJwt \<Rightarrow> bool" where
  "HasTypeHeader t \<longleftrightarrow> rj_type_header t \<noteq> None"

definition GetTypeHeader :: "RawJwt \<Rightarrow> bytes StatusOr" where
  "GetTypeHeader t = (case rj_type_header t of None \<Rightarrow> Inl kInvalidArgument | Some ty \<Rightarrow> Inr ty)"

text \<open>\<open>contains\<close>, and the common part of the getters of single claims.\<close>

definition has_claim :: "bytes \<Rightarrow> RawJwt \<Rightarrow> bool" where
  "has_claim name t \<longleftrightarrow> fmlookup (rj_json_proto t) name \<noteq> None"

definition get_claim :: "absl_code \<Rightarrow> KindCase \<Rightarrow> (Value \<Rightarrow> 'a) \<Rightarrow> bytes \<Rightarrow> RawJwt \<Rightarrow> 'a StatusOr" where
  "get_claim missing kind value_of name t =
     (case fmlookup (rj_json_proto t) name of
        None \<Rightarrow> Inl missing
      | Some value \<Rightarrow> if kind_case value \<noteq> kind then Inl kInvalidArgument else Inr (value_of value))"

definition HasIssuer :: "RawJwt \<Rightarrow> bool" where "HasIssuer = has_claim kJwtClaimIssuer"
definition GetIssuer :: "RawJwt \<Rightarrow> bytes StatusOr" where "GetIssuer = get_claim kInvalidArgument kStringValue string_value kJwtClaimIssuer"
definition HasSubject :: "RawJwt \<Rightarrow> bool" where "HasSubject = has_claim kJwtClaimSubject"
definition GetSubject :: "RawJwt \<Rightarrow> bytes StatusOr" where "GetSubject = get_claim kInvalidArgument kStringValue string_value kJwtClaimSubject"
definition HasAudiences :: "RawJwt \<Rightarrow> bool" where "HasAudiences = has_claim kJwtClaimAudience"

definition GetAudiences :: "RawJwt \<Rightarrow> bytes list StatusOr" where
  "GetAudiences t =
     (case fmlookup (rj_json_proto t) kJwtClaimAudience of
        None \<Rightarrow> Inl kNotFound
      | Some v \<Rightarrow>
          if kind_case v \<noteq> kListValue then Inr [string_value v]
          else if list_ex (\<lambda>x. kind_case x \<noteq> kStringValue) (list_value v) then Inl kInvalidArgument
          else Inr (map string_value (list_value v)))"

definition HasJwtId :: "RawJwt \<Rightarrow> bool" where "HasJwtId = has_claim kJwtClaimJwtId"
definition GetJwtId :: "RawJwt \<Rightarrow> bytes StatusOr" where "GetJwtId = get_claim kNotFound kStringValue string_value kJwtClaimJwtId"
definition HasExpiration :: "RawJwt \<Rightarrow> bool" where "HasExpiration = has_claim kJwtClaimExpiration"
definition GetExpiration :: "RawJwt \<Rightarrow> Time StatusOr" where "GetExpiration = get_claim kNotFound kNumberValue (\<lambda>v. TimestampToTime (number_value v)) kJwtClaimExpiration"
definition HasNotBefore :: "RawJwt \<Rightarrow> bool" where "HasNotBefore = has_claim kJwtClaimNotBefore"
definition GetNotBefore :: "RawJwt \<Rightarrow> Time StatusOr" where "GetNotBefore = get_claim kNotFound kNumberValue (\<lambda>v. TimestampToTime (number_value v)) kJwtClaimNotBefore"
definition HasIssuedAt :: "RawJwt \<Rightarrow> bool" where "HasIssuedAt = has_claim kJwtClaimIssuedAt"
definition GetIssuedAt :: "RawJwt \<Rightarrow> Time StatusOr" where "GetIssuedAt = get_claim kNotFound kNumberValue (\<lambda>v. TimestampToTime (number_value v)) kJwtClaimIssuedAt"

definition IsNullClaim :: "bytes \<Rightarrow> RawJwt \<Rightarrow> bool" where "IsNullClaim name t = HasClaimOfKind (rj_json_proto t) name kNullValue"
definition HasBooleanClaim :: "bytes \<Rightarrow> RawJwt \<Rightarrow> bool" where "HasBooleanClaim name t = HasClaimOfKind (rj_json_proto t) name kBoolValue"
definition HasStringClaim :: "bytes \<Rightarrow> RawJwt \<Rightarrow> bool" where "HasStringClaim name t = HasClaimOfKind (rj_json_proto t) name kStringValue"
definition HasNumberClaim :: "bytes \<Rightarrow> RawJwt \<Rightarrow> bool" where "HasNumberClaim name t = HasClaimOfKind (rj_json_proto t) name kNumberValue"
definition HasJsonObjectClaim :: "bytes \<Rightarrow> RawJwt \<Rightarrow> bool" where "HasJsonObjectClaim name t = HasClaimOfKind (rj_json_proto t) name kStructValue"
definition HasJsonArrayClaim :: "bytes \<Rightarrow> RawJwt \<Rightarrow> bool" where "HasJsonArrayClaim name t = HasClaimOfKind (rj_json_proto t) name kListValue"

definition get_custom_claim :: "KindCase \<Rightarrow> (Value \<Rightarrow> 'a) \<Rightarrow> bytes \<Rightarrow> RawJwt \<Rightarrow> 'a StatusOr" where
  "get_custom_claim kind value_of name t =
     (case ValidatePayloadName name of Inl e \<Rightarrow> Inl e | Inr _ \<Rightarrow> get_claim kNotFound kind value_of name t)"

definition GetBooleanClaim :: "bytes \<Rightarrow> RawJwt \<Rightarrow> bool StatusOr" where "GetBooleanClaim = get_custom_claim kBoolValue bool_value"
definition GetStringClaim :: "bytes \<Rightarrow> RawJwt \<Rightarrow> bytes StatusOr" where "GetStringClaim = get_custom_claim kStringValue string_value"
definition GetNumberClaim :: "bytes \<Rightarrow> RawJwt \<Rightarrow> real StatusOr" where "GetNumberClaim = get_custom_claim kNumberValue number_value"

definition GetJsonObjectClaim :: "Json \<Rightarrow> bytes \<Rightarrow> RawJwt \<Rightarrow> bytes StatusOr" where
  "GetJsonObjectClaim J name t =
     (case get_custom_claim kStructValue struct_value name t of Inl e \<Rightarrow> Inl e | Inr proto \<Rightarrow> ProtoStructToJsonString J proto)"

definition GetJsonArrayClaim :: "Json \<Rightarrow> bytes \<Rightarrow> RawJwt \<Rightarrow> bytes StatusOr" where
  "GetJsonArrayClaim J name t =
     (case get_custom_claim kListValue list_value name t of Inl e \<Rightarrow> Inl e | Inr vs \<Rightarrow> ProtoListToJsonString J vs)"

text \<open>The names come in no particular order.\<close>

definition CustomClaimNames :: "RawJwt \<Rightarrow> bytes fset" where
  "CustomClaimNames t = ffilter (\<lambda>name. \<not> IsRegisteredClaimName name) (fmdom (rj_json_proto t))"

text \<open>A \<^verbatim>\<open>VerifiedJwt\<close> holds a token and has the getters of the token.\<close>

record VerifiedJwt =
  vj_raw_jwt :: RawJwt

subsection \<open>The builder\<close>

record RawJwtBuilder =
  rb_type_header :: "bytes option"
  rb_json_proto :: Struct
  rb_error :: "absl_code option"
  rb_without_expiration :: bool

definition RawJwtBuilder_new :: RawJwtBuilder where
  "RawJwtBuilder_new = \<lparr>rb_type_header = None, rb_json_proto = fmempty, rb_error = None, rb_without_expiration = False\<rparr>"

definition set_field :: "bytes \<Rightarrow> Value \<Rightarrow> RawJwtBuilder \<Rightarrow> RawJwtBuilder" where
  "set_field name value b = b\<lparr>rb_json_proto := fmupd name value (rb_json_proto b)\<rparr>"

definition set_error :: "absl_code \<Rightarrow> RawJwtBuilder \<Rightarrow> RawJwtBuilder" where
  "set_error e b = (if rb_error b = None then b\<lparr>rb_error := Some e\<rparr> else b)"

definition SetTypeHeader :: "bytes \<Rightarrow> RawJwtBuilder \<Rightarrow> RawJwtBuilder" where
  "SetTypeHeader ty b = b\<lparr>rb_type_header := Some ty\<rparr>"

definition SetIssuer :: "bytes \<Rightarrow> RawJwtBuilder \<Rightarrow> RawJwtBuilder" where
  "SetIssuer issuer = set_field kJwtClaimIssuer (StringValue issuer)"

definition SetSubject :: "bytes \<Rightarrow> RawJwtBuilder \<Rightarrow> RawJwtBuilder" where
  "SetSubject subject = set_field kJwtClaimSubject (StringValue subject)"

definition SetAudience :: "bytes \<Rightarrow> RawJwtBuilder \<Rightarrow> RawJwtBuilder" where
  "SetAudience audience b =
     (if ClaimIsNotAString (rb_json_proto b) kJwtClaimAudience then b\<lparr>rb_error := Some kInvalidArgument\<rparr>
      else set_field kJwtClaimAudience (StringValue audience) b)"

text \<open>\<^verbatim>\<open>mutable_list_value\<close> makes the value a list when it is called, that is, if there is an audience.\<close>

definition SetAudiences :: "bytes list \<Rightarrow> RawJwtBuilder \<Rightarrow> RawJwtBuilder" where
  "SetAudiences audiences b =
     (if ClaimIsNotAList (rb_json_proto b) kJwtClaimAudience then b\<lparr>rb_error := Some kInvalidArgument\<rparr>
      else set_field kJwtClaimAudience
             (foldl (\<lambda>v a. ListValue (list_value v @ [StringValue a])) KindNotSet audiences) b)"

definition AddAudience :: "bytes \<Rightarrow> RawJwtBuilder \<Rightarrow> RawJwtBuilder" where
  "AddAudience audience b =
     (if ClaimIsNotAList (rb_json_proto b) kJwtClaimAudience then b\<lparr>rb_error := Some kInvalidArgument\<rparr>
      else
        let v = (case fmlookup (rb_json_proto b) kJwtClaimAudience of None \<Rightarrow> KindNotSet | Some v \<Rightarrow> v)
        in set_field kJwtClaimAudience (ListValue (list_value v @ [StringValue audience])) b)"

definition SetJwtId :: "bytes \<Rightarrow> RawJwtBuilder \<Rightarrow> RawJwtBuilder" where
  "SetJwtId jwid = set_field kJwtClaimJwtId (StringValue jwid)"

definition WithoutExpiration :: "RawJwtBuilder \<Rightarrow> RawJwtBuilder" where
  "WithoutExpiration b = b\<lparr>rb_without_expiration := True\<rparr>"

definition set_time :: "bytes \<Rightarrow> Time \<Rightarrow> RawJwtBuilder \<Rightarrow> RawJwtBuilder" where
  "set_time name t b =
     (let timestamp = TimeToTimestamp t
      in if timestamp > kJwtTimestampMax \<or> timestamp < 0 then set_error kInvalidArgument b
         else set_field name (NumberValue (of_int timestamp)) b)"

definition SetExpiration :: "Time \<Rightarrow> RawJwtBuilder \<Rightarrow> RawJwtBuilder" where "SetExpiration = set_time kJwtClaimExpiration"
definition SetNotBefore :: "Time \<Rightarrow> RawJwtBuilder \<Rightarrow> RawJwtBuilder" where "SetNotBefore = set_time kJwtClaimNotBefore"
definition SetIssuedAt :: "Time \<Rightarrow> RawJwtBuilder \<Rightarrow> RawJwtBuilder" where "SetIssuedAt = set_time kJwtClaimIssuedAt"

definition add_claim :: "bytes \<Rightarrow> Value StatusOr \<Rightarrow> RawJwtBuilder \<Rightarrow> RawJwtBuilder" where
  "add_claim name value b =
     (case ValidatePayloadName name of
        Inl e \<Rightarrow> set_error e b
      | Inr _ \<Rightarrow> (case value of Inl e \<Rightarrow> set_error e b | Inr v \<Rightarrow> set_field name v b))"

definition AddNullClaim :: "bytes \<Rightarrow> RawJwtBuilder \<Rightarrow> RawJwtBuilder" where "AddNullClaim name = add_claim name (Inr NullValue)"
definition AddBooleanClaim :: "bytes \<Rightarrow> bool \<Rightarrow> RawJwtBuilder \<Rightarrow> RawJwtBuilder" where "AddBooleanClaim name v = add_claim name (Inr (BoolValue v))"
definition AddStringClaim :: "bytes \<Rightarrow> bytes \<Rightarrow> RawJwtBuilder \<Rightarrow> RawJwtBuilder" where "AddStringClaim name v = add_claim name (Inr (StringValue v))"
definition AddNumberClaim :: "bytes \<Rightarrow> real \<Rightarrow> RawJwtBuilder \<Rightarrow> RawJwtBuilder" where "AddNumberClaim name v = add_claim name (Inr (NumberValue v))"

definition AddJsonObjectClaim :: "Json \<Rightarrow> bytes \<Rightarrow> bytes \<Rightarrow> RawJwtBuilder \<Rightarrow> RawJwtBuilder" where
  "AddJsonObjectClaim J name object_value = add_claim name (map_sum id StructValue (JsonStringToProtoStruct J object_value))"

definition AddJsonArrayClaim :: "Json \<Rightarrow> bytes \<Rightarrow> bytes \<Rightarrow> RawJwtBuilder \<Rightarrow> RawJwtBuilder" where
  "AddJsonArrayClaim J name array_value = add_claim name (map_sum id ListValue (JsonStringToProtoList J array_value))"

definition RawJwtBuilder_Build :: "RawJwtBuilder \<Rightarrow> RawJwt StatusOr" where
  "RawJwtBuilder_Build b =
     (case rb_error b of
        Some e \<Rightarrow> Inl e
      | None \<Rightarrow>
          if fmlookup (rb_json_proto b) kJwtClaimExpiration = None \<and> \<not> rb_without_expiration b then Inl kInvalidArgument
          else if fmlookup (rb_json_proto b) kJwtClaimExpiration \<noteq> None \<and> rb_without_expiration b then Inl kInvalidArgument
          else Inr \<lparr>rj_type_header = rb_type_header b, rj_json_proto = rb_json_proto b\<rparr>)"

text \<open>The calls a program can make on a builder.\<close>

datatype builder_call =
    CallSetTypeHeader bytes | CallSetIssuer bytes | CallSetSubject bytes | CallSetAudience bytes | CallSetAudiences "bytes list"
  | CallAddAudience bytes | CallSetJwtId bytes | CallWithoutExpiration | CallSetExpiration Time | CallSetNotBefore Time
  | CallSetIssuedAt Time | CallAddNullClaim bytes | CallAddBooleanClaim bytes bool | CallAddStringClaim bytes bytes
  | CallAddNumberClaim bytes real | CallAddJsonObjectClaim bytes bytes | CallAddJsonArrayClaim bytes bytes

fun builder_step :: "Json \<Rightarrow> builder_call \<Rightarrow> RawJwtBuilder \<Rightarrow> RawJwtBuilder" where
  "builder_step J (CallSetTypeHeader x) = SetTypeHeader x"
| "builder_step J (CallSetIssuer x) = SetIssuer x"
| "builder_step J (CallSetSubject x) = SetSubject x"
| "builder_step J (CallSetAudience x) = SetAudience x"
| "builder_step J (CallSetAudiences xs) = SetAudiences xs"
| "builder_step J (CallAddAudience x) = AddAudience x"
| "builder_step J (CallSetJwtId x) = SetJwtId x"
| "builder_step J CallWithoutExpiration = WithoutExpiration"
| "builder_step J (CallSetExpiration t) = SetExpiration t"
| "builder_step J (CallSetNotBefore t) = SetNotBefore t"
| "builder_step J (CallSetIssuedAt t) = SetIssuedAt t"
| "builder_step J (CallAddNullClaim n) = AddNullClaim n"
| "builder_step J (CallAddBooleanClaim n v) = AddBooleanClaim n v"
| "builder_step J (CallAddStringClaim n v) = AddStringClaim n v"
| "builder_step J (CallAddNumberClaim n v) = AddNumberClaim n v"
| "builder_step J (CallAddJsonObjectClaim n v) = AddJsonObjectClaim J n v"
| "builder_step J (CallAddJsonArrayClaim n v) = AddJsonArrayClaim J n v"

definition builder_run :: "Json \<Rightarrow> builder_call list \<Rightarrow> RawJwtBuilder" where
  "builder_run J cs = fold (builder_step J) cs RawJwtBuilder_new"

section \<open>Types of the registered claims\<close>

lemmas jwt_name_defs = kJwtClaimIssuer_def kJwtClaimSubject_def kJwtClaimAudience_def kJwtClaimExpiration_def kJwtClaimNotBefore_def
  kJwtClaimIssuedAt_def kJwtClaimJwtId_def

lemma jwt_names_neq [simp]:
  "kJwtClaimIssuer \<noteq> kJwtClaimSubject" "kJwtClaimIssuer \<noteq> kJwtClaimAudience" "kJwtClaimIssuer \<noteq> kJwtClaimExpiration" "kJwtClaimIssuer \<noteq> kJwtClaimNotBefore" "kJwtClaimIssuer \<noteq> kJwtClaimIssuedAt" "kJwtClaimIssuer \<noteq> kJwtClaimJwtId"
  "kJwtClaimSubject \<noteq> kJwtClaimIssuer" "kJwtClaimSubject \<noteq> kJwtClaimAudience" "kJwtClaimSubject \<noteq> kJwtClaimExpiration" "kJwtClaimSubject \<noteq> kJwtClaimNotBefore" "kJwtClaimSubject \<noteq> kJwtClaimIssuedAt" "kJwtClaimSubject \<noteq> kJwtClaimJwtId"
  "kJwtClaimAudience \<noteq> kJwtClaimIssuer" "kJwtClaimAudience \<noteq> kJwtClaimSubject" "kJwtClaimAudience \<noteq> kJwtClaimExpiration" "kJwtClaimAudience \<noteq> kJwtClaimNotBefore" "kJwtClaimAudience \<noteq> kJwtClaimIssuedAt" "kJwtClaimAudience \<noteq> kJwtClaimJwtId"
  "kJwtClaimExpiration \<noteq> kJwtClaimIssuer" "kJwtClaimExpiration \<noteq> kJwtClaimSubject" "kJwtClaimExpiration \<noteq> kJwtClaimAudience" "kJwtClaimExpiration \<noteq> kJwtClaimNotBefore" "kJwtClaimExpiration \<noteq> kJwtClaimIssuedAt" "kJwtClaimExpiration \<noteq> kJwtClaimJwtId"
  "kJwtClaimNotBefore \<noteq> kJwtClaimIssuer" "kJwtClaimNotBefore \<noteq> kJwtClaimSubject" "kJwtClaimNotBefore \<noteq> kJwtClaimAudience" "kJwtClaimNotBefore \<noteq> kJwtClaimExpiration" "kJwtClaimNotBefore \<noteq> kJwtClaimIssuedAt" "kJwtClaimNotBefore \<noteq> kJwtClaimJwtId"
  "kJwtClaimIssuedAt \<noteq> kJwtClaimIssuer" "kJwtClaimIssuedAt \<noteq> kJwtClaimSubject" "kJwtClaimIssuedAt \<noteq> kJwtClaimAudience" "kJwtClaimIssuedAt \<noteq> kJwtClaimExpiration" "kJwtClaimIssuedAt \<noteq> kJwtClaimNotBefore" "kJwtClaimIssuedAt \<noteq> kJwtClaimJwtId"
  "kJwtClaimJwtId \<noteq> kJwtClaimIssuer" "kJwtClaimJwtId \<noteq> kJwtClaimSubject" "kJwtClaimJwtId \<noteq> kJwtClaimAudience" "kJwtClaimJwtId \<noteq> kJwtClaimExpiration" "kJwtClaimJwtId \<noteq> kJwtClaimNotBefore" "kJwtClaimJwtId \<noteq> kJwtClaimIssuedAt"
  by (simp_all add: jwt_name_defs ascii_def)

text \<open>
  What \<^verbatim>\<open>FromJson\<close> checks, as a property of the object; \<^verbatim>\<open>SetAudiences\<close> with no audience adds the case of an
  audience whose kind is not set.
\<close>

definition audience_typed :: "Struct \<Rightarrow> bool" where
  "audience_typed p \<longleftrightarrow> ValidateAudienceClaim p = OkStatus \<or> fmlookup p kJwtClaimAudience = Some KindNotSet"

definition claims_typed :: "Struct \<Rightarrow> bool" where
  "claims_typed p \<longleftrightarrow>
     \<not> ClaimIsNotAString p kJwtClaimIssuer \<and> \<not> ClaimIsNotAString p kJwtClaimSubject \<and>
     \<not> ClaimIsNotATimestamp p kJwtClaimExpiration \<and> \<not> ClaimIsNotATimestamp p kJwtClaimNotBefore \<and>
     \<not> ClaimIsNotATimestamp p kJwtClaimIssuedAt \<and> audience_typed p"

lemmas claim_check_defs = ClaimIsNotAString_def ClaimIsNotATimestamp_def audience_typed_def ValidateAudienceClaim_def

lemma FromJson_typed: "FromJson J ty js = Inr t \<Longrightarrow> claims_typed (rj_json_proto t)"
  by (auto simp: FromJson_def claims_typed_def audience_typed_def split: sum.splits if_splits)

lemma claims_typed_other: "\<not> IsRegisteredClaimName n \<Longrightarrow> claims_typed (fmupd n v p) = claims_typed p"
  by (simp add: claims_typed_def claim_check_defs IsRegisteredClaimName_def)

lemma audience_list: "xs \<noteq> [] \<Longrightarrow> foldl (\<lambda>v a. ListValue (list_value v @ [StringValue a])) KindNotSet xs = ListValue (map StringValue xs)"
proof (induction xs rule: rev_induct)
  case (snoc x xs)
  then show ?case by (cases "xs = []") simp_all
qed simp

lemma audience_added:
  assumes "claims_typed p" and "\<not> ClaimIsNotAList p kJwtClaimAudience"
  shows "claims_typed (fmupd kJwtClaimAudience
    (ListValue (list_value (case fmlookup p kJwtClaimAudience of None \<Rightarrow> KindNotSet | Some v \<Rightarrow> v) @ [StringValue a])) p)"
  using assms by (auto simp: claims_typed_def claim_check_defs ClaimIsNotAList_def list_ex_iff split: option.splits if_splits)

lemma builder_step_typed:
  assumes "claims_typed (rb_json_proto b)"
  shows "claims_typed (rb_json_proto (builder_step J c b))"
proof (cases c)
  case (CallSetAudiences xs)
  with assms show ?thesis
    by (cases "xs = []") (auto simp: SetAudiences_def set_field_def audience_list claims_typed_def claim_check_defs list_ex_iff)
next
  case (CallAddAudience a)
  with assms audience_added show ?thesis by (simp add: AddAudience_def set_field_def Let_def)
next
  case (CallSetAudience a)
  with assms show ?thesis by (simp add: SetAudience_def set_field_def) (simp add: claims_typed_def claim_check_defs)
next
  case (CallSetIssuer a)
  with assms show ?thesis by (simp add: SetIssuer_def set_field_def) (simp add: claims_typed_def claim_check_defs)
next
  case (CallSetSubject a)
  with assms show ?thesis by (simp add: SetSubject_def set_field_def) (simp add: claims_typed_def claim_check_defs)
next
  case (CallSetJwtId a)
  with assms show ?thesis by (simp add: SetJwtId_def set_field_def) (simp add: claims_typed_def claim_check_defs)
next
  case (CallSetExpiration u)
  with assms show ?thesis
    by (simp add: SetExpiration_def set_time_def set_field_def set_error_def Let_def) (simp add: claims_typed_def claim_check_defs)
next
  case (CallSetNotBefore u)
  with assms show ?thesis
    by (simp add: SetNotBefore_def set_time_def set_field_def set_error_def Let_def) (simp add: claims_typed_def claim_check_defs)
next
  case (CallSetIssuedAt u)
  with assms show ?thesis
    by (simp add: SetIssuedAt_def set_time_def set_field_def set_error_def Let_def) (simp add: claims_typed_def claim_check_defs)
qed (use assms claims_typed_other in \<open>simp_all add: SetTypeHeader_def WithoutExpiration_def AddNullClaim_def AddBooleanClaim_def
    AddStringClaim_def AddNumberClaim_def AddJsonObjectClaim_def AddJsonArrayClaim_def add_claim_def set_error_def set_field_def
    ValidatePayloadName_def split: sum.splits\<close>)

lemma builder_run_typed: "claims_typed (rb_json_proto (builder_run J cs))"
proof (induction cs rule: rev_induct)
  case Nil
  show ?case by (simp add: builder_run_def RawJwtBuilder_new_def claims_typed_def claim_check_defs)
next
  case (snoc c cs)
  then show ?case using builder_step_typed [of "builder_run J cs" J c] by (auto simp: builder_run_def)
qed

lemma builder_step_jwt_id:
  "\<not> ClaimIsNotAString (rb_json_proto b) kJwtClaimJwtId \<Longrightarrow> \<not> ClaimIsNotAString (rb_json_proto (builder_step J c b)) kJwtClaimJwtId"
  by (cases c)
    (auto simp: SetTypeHeader_def SetIssuer_def SetSubject_def SetAudience_def SetAudiences_def AddAudience_def SetJwtId_def
      WithoutExpiration_def SetExpiration_def SetNotBefore_def SetIssuedAt_def set_time_def AddNullClaim_def AddBooleanClaim_def
      AddStringClaim_def AddNumberClaim_def AddJsonObjectClaim_def AddJsonArrayClaim_def add_claim_def set_error_def set_field_def
      ValidatePayloadName_def IsRegisteredClaimName_def ClaimIsNotAString_def Let_def split: sum.split)

lemma builder_run_jwt_id: "\<not> ClaimIsNotAString (rb_json_proto (builder_run J cs)) kJwtClaimJwtId"
proof (induction cs rule: rev_induct)
  case Nil
  show ?case by (simp add: builder_run_def RawJwtBuilder_new_def ClaimIsNotAString_def)
next
  case (snoc c cs)
  then show ?case using builder_step_jwt_id [of "builder_run J cs" J c] by (simp add: builder_run_def)
qed

lemma Build_proto: "RawJwtBuilder_Build b = Inr t \<Longrightarrow> rj_json_proto t = rb_json_proto b"
  by (auto simp: RawJwtBuilder_Build_def split: option.splits if_splits)

text \<open>Without a call of \<^verbatim>\<open>SetAudiences\<close> with no audience, the object passes all checks of \<^verbatim>\<open>FromJson\<close>.\<close>

definition json_typed :: "Struct \<Rightarrow> bool" where
  "json_typed p \<longleftrightarrow> claims_typed p \<and> ValidateAudienceClaim p = OkStatus"

lemma builder_step_audience:
  assumes "fmlookup (rb_json_proto b) kJwtClaimAudience \<noteq> Some KindNotSet" and "c \<noteq> CallSetAudiences []"
  shows "fmlookup (rb_json_proto (builder_step J c b)) kJwtClaimAudience \<noteq> Some KindNotSet"
  using assms
  by (cases c)
    (auto simp: SetTypeHeader_def SetIssuer_def SetSubject_def SetAudience_def SetAudiences_def AddAudience_def SetJwtId_def
      WithoutExpiration_def SetExpiration_def SetNotBefore_def SetIssuedAt_def set_time_def AddNullClaim_def AddBooleanClaim_def
      AddStringClaim_def AddNumberClaim_def AddJsonObjectClaim_def AddJsonArrayClaim_def add_claim_def set_error_def set_field_def
      ValidatePayloadName_def IsRegisteredClaimName_def audience_list Let_def split: sum.split)

lemma builder_run_audience:
  "CallSetAudiences [] \<notin> set cs \<Longrightarrow> fmlookup (rb_json_proto (builder_run J cs)) kJwtClaimAudience \<noteq> Some KindNotSet"
proof (induction cs rule: rev_induct)
  case Nil
  show ?case by (simp add: builder_run_def RawJwtBuilder_new_def)
next
  case (snoc c cs)
  then show ?case using builder_step_audience [of "builder_run J cs" c J] by (auto simp: builder_run_def)
qed

lemma Build_typed:
  assumes "CallSetAudiences [] \<notin> set cs" and "RawJwtBuilder_Build (builder_run J cs) = Inr t"
  shows "json_typed (rj_json_proto t)"
  using builder_run_typed [of J cs] builder_run_audience [OF assms(1), of J] Build_proto [OF assms(2)]
  by (auto simp: json_typed_def claims_typed_def audience_typed_def)

lemma timestamp_range:
  assumes "0 \<le> x" and "x \<le> of_int kJwtTimestampMax"
  shows "0 \<le> TimestampToTime x" and "TimestampToTime x \<le> FromUnixSeconds kJwtTimestampMax"
proof -
  have "0 \<le> \<lfloor>x\<rfloor>" "\<lfloor>x\<rfloor> \<le> kJwtTimestampMax" using assms by (simp, linarith)
  with assms show "0 \<le> TimestampToTime x" "TimestampToTime x \<le> FromUnixSeconds kJwtTimestampMax"
    by (simp_all add: TimestampToTime_def truncate_number_def FromUnixSeconds_def ticks_def)
qed

lemma typed_time:
  assumes "\<not> ClaimIsNotATimestamp (rj_json_proto t) name"
  shows "if has_claim name t
    then \<exists>u. get_claim kNotFound kNumberValue (\<lambda>v. TimestampToTime (number_value v)) name t = Inr u \<and> 0 \<le> u \<and> u \<le> FromUnixSeconds kJwtTimestampMax
    else get_claim kNotFound kNumberValue (\<lambda>v. TimestampToTime (number_value v)) name t = Inl kNotFound"
  using assms timestamp_range by (auto simp: ClaimIsNotATimestamp_def has_claim_def get_claim_def split: if_splits)

lemma typed_string:
  assumes "\<not> ClaimIsNotAString (rj_json_proto t) name"
  shows "if has_claim name t then \<exists>s. get_claim e kStringValue string_value name t = Inr s
    else get_claim e kStringValue string_value name t = Inl e"
  using assms by (auto simp: ClaimIsNotAString_def has_claim_def get_claim_def)

lemma typed_audiences:
  assumes "audience_typed (rj_json_proto t)"
  shows "if HasAudiences t then \<exists>as. GetAudiences t = Inr as \<and> as \<noteq> [] else GetAudiences t = Inl kNotFound"
  using assms
  by (auto simp: audience_typed_def ValidateAudienceClaim_def HasAudiences_def has_claim_def GetAudiences_def split: if_splits)

lemmas claim_defs = HasIssuer_def GetIssuer_def HasSubject_def GetSubject_def HasExpiration_def GetExpiration_def
  HasNotBefore_def GetNotBefore_def HasIssuedAt_def GetIssuedAt_def HasJwtId_def GetJwtId_def

text \<open>
  (C37) The registered claims of a token have their types. Whatever token is parsed from JSON text or made by any sequence of calls of the
  builder: if it has an issuer, a subject, an audience, an expiration, a not-before or an issued-at claim, the getter returns a value, the
  audiences are not empty, and the times lie between the epoch and the end of the year 9999; if it does not have the claim, the getter
  returns an error. The same holds of the token id if the token comes from the builder; in JSON text its type is not checked, and the
  getter then fails if it is not a string.
\<close>

theorem raw_jwt_well_typed:
  assumes "FromJson J ty json = Inr t \<or> RawJwtBuilder_Build (builder_run J cs) = Inr t"
  shows "(if HasIssuer t then \<exists>s. GetIssuer t = Inr s else GetIssuer t = Inl kInvalidArgument) \<and>
    (if HasSubject t then \<exists>s. GetSubject t = Inr s else GetSubject t = Inl kInvalidArgument) \<and>
    (if HasAudiences t then \<exists>as. GetAudiences t = Inr as \<and> as \<noteq> [] else GetAudiences t = Inl kNotFound) \<and>
    (if HasExpiration t then \<exists>u. GetExpiration t = Inr u \<and> 0 \<le> u \<and> u \<le> FromUnixSeconds kJwtTimestampMax
     else GetExpiration t = Inl kNotFound) \<and>
    (if HasNotBefore t then \<exists>u. GetNotBefore t = Inr u \<and> 0 \<le> u \<and> u \<le> FromUnixSeconds kJwtTimestampMax
     else GetNotBefore t = Inl kNotFound) \<and>
    (if HasIssuedAt t then \<exists>u. GetIssuedAt t = Inr u \<and> 0 \<le> u \<and> u \<le> FromUnixSeconds kJwtTimestampMax
     else GetIssuedAt t = Inl kNotFound) \<and>
    (if HasJwtId t
     then (\<exists>s. GetJwtId t = Inr s) \<or> GetJwtId t = Inl kInvalidArgument \<and> RawJwtBuilder_Build (builder_run J cs) \<noteq> Inr t
     else GetJwtId t = Inl kNotFound)"
proof -
  have "claims_typed (rj_json_proto t)" using assms FromJson_typed builder_run_typed Build_proto by metis
  note typed = this [unfolded claims_typed_def]
  have "if HasJwtId t
     then (\<exists>s. GetJwtId t = Inr s) \<or> GetJwtId t = Inl kInvalidArgument \<and> RawJwtBuilder_Build (builder_run J cs) \<noteq> Inr t
     else GetJwtId t = Inl kNotFound"
    using Build_proto [of "builder_run J cs" t] builder_run_jwt_id [of J cs]
    by (auto simp: HasJwtId_def GetJwtId_def has_claim_def get_claim_def ClaimIsNotAString_def)
  with typed typed_string [of t kJwtClaimIssuer kInvalidArgument] typed_string [of t kJwtClaimSubject kInvalidArgument]
    typed_time [of t kJwtClaimExpiration] typed_time [of t kJwtClaimNotBefore] typed_time [of t kJwtClaimIssuedAt] typed_audiences [of t]
  show ?thesis unfolding claim_defs by blast
qed

text \<open>\<^verbatim>\<open>SetAudiences\<close> with no audience leaves a value without a kind, which the getter takes for one empty audience.\<close>

lemma empty_audiences:
  "map_sum id GetAudiences (RawJwtBuilder_Build (builder_run J [CallSetAudiences [], CallWithoutExpiration])) = Inr (Inr [[]])"
  by (simp add: builder_run_def RawJwtBuilder_Build_def RawJwtBuilder_new_def SetAudiences_def WithoutExpiration_def ClaimIsNotAList_def
      set_field_def GetAudiences_def)

text \<open>JSON text for a fixed list of objects, their positions.\<close>

definition table_json :: "Struct list \<Rightarrow> Json" where
  "table_json ss =
     \<lparr>JsonToStruct = (\<lambda>b. case b of [w] \<Rightarrow> if unat w < length ss then Some (ss ! unat w) else None | _ \<Rightarrow> None),
      JsonToList = (\<lambda>_. None),
      StructToJson = (\<lambda>s. case List.find (\<lambda>i. ss ! i = s) [0..<length ss] of None \<Rightarrow> Inl kInvalidArgument | Some i \<Rightarrow> Inr [word_of_nat i]),
      ListToJson = (\<lambda>_. Inl kInvalidArgument)\<rparr>"

definition sample_calls :: "builder_call list" where
  "sample_calls = [CallSetIssuer [1], CallAddAudience [2], CallAddAudience [3], CallSetExpiration (7 * ticks + 5), CallAddStringClaim [9] [8]]"

definition sample_token :: RawJwt where
  "sample_token = \<lparr>rj_type_header = None,
     rj_json_proto = fmupd [9] (StringValue [8]) (fmupd kJwtClaimExpiration (NumberValue 7)
       (fmupd kJwtClaimAudience (ListValue [StringValue [2], StringValue [3]])
       (fmupd kJwtClaimAudience (ListValue [StringValue [2]]) (fmupd kJwtClaimIssuer (StringValue [1]) fmempty))))\<rparr>"

lemma sample_token_built: "RawJwtBuilder_Build (builder_run J sample_calls) = Inr sample_token"
proof -
  have n: "\<not> IsRegisteredClaimName [9]" "([9] :: bytes) \<noteq> kJwtClaimExpiration" by (simp_all add: IsRegisteredClaimName_def jwt_name_defs ascii_def)
  have u: "TimeToTimestamp (7 * ticks + 5) = 7" by (simp add: TimeToTimestamp_def ToUnixSeconds_def ticks_def)
  show ?thesis using n u
    by (simp add: sample_calls_def builder_run_def RawJwtBuilder_Build_def RawJwtBuilder_new_def SetIssuer_def AddAudience_def SetExpiration_def
        set_time_def AddStringClaim_def add_claim_def ValidatePayloadName_def ClaimIsNotAList_def set_field_def sample_token_def kJwtTimestampMax_def)
qed

theorem raw_jwt_well_typed_witness:
  "RawJwtBuilder_Build (builder_run (table_json []) sample_calls) = Inr sample_token \<and> HasAudiences sample_token \<and>
   (\<exists>as. GetAudiences sample_token = Inr as \<and> as \<noteq> [])"
proof -
  have "HasAudiences sample_token" by (simp add: HasAudiences_def has_claim_def sample_token_def)
  with raw_jwt_well_typed [of "table_json []" None "[]" sample_token sample_calls] sample_token_built [of "table_json []"]
  show ?thesis by simp
qed

end
