(* ===== verification/Jwt_Validator.thy ===== *)
theory Jwt_Validator
  imports Jwt_Token
begin

text \<open>
  The validator of tokens (\<^verbatim>\<open>tink/jwt/jwt_validator.cc\<close>) and its builder. The time of the system clock is an argument of the functions that
  read it.
\<close>

section \<open>Definitions\<close>

definition kJwtMaxClockSkew :: Duration where "kJwtMaxClockSkew = 10 * 60 * ticks"

record JwtValidatorBuilder =
  jb_expected_type_header :: "bytes option"
  jb_expected_issuer :: "bytes option"
  jb_expected_audience :: "bytes option"
  jb_ignore_type_header :: bool
  jb_ignore_issuer :: bool
  jb_ignore_audiences :: bool
  jb_allow_missing_expiration :: bool
  jb_expect_issued_in_the_past :: bool
  jb_clock_skew :: Duration
  jb_fixed_now :: "Time option"

record JwtValidator =
  jv_expected_type_header :: "bytes option"
  jv_expected_issuer :: "bytes option"
  jv_expected_audience :: "bytes option"
  jv_ignore_type_header :: bool
  jv_ignore_issuer :: bool
  jv_ignore_audiences :: bool
  jv_allow_missing_expiration :: bool
  jv_expect_issued_in_the_past :: bool
  jv_clock_skew :: Duration
  jv_fixed_now :: "Time option"

definition JwtValidator_of :: "JwtValidatorBuilder \<Rightarrow> JwtValidator" where
  "JwtValidator_of b =
     \<lparr>jv_expected_type_header = jb_expected_type_header b, jv_expected_issuer = jb_expected_issuer b,
      jv_expected_audience = jb_expected_audience b, jv_ignore_type_header = jb_ignore_type_header b,
      jv_ignore_issuer = jb_ignore_issuer b, jv_ignore_audiences = jb_ignore_audiences b,
      jv_allow_missing_expiration = jb_allow_missing_expiration b, jv_expect_issued_in_the_past = jb_expect_issued_in_the_past b,
      jv_clock_skew = jb_clock_skew b, jv_fixed_now = jb_fixed_now b\<rparr>"

definition validator_now :: "Time \<Rightarrow> JwtValidator \<Rightarrow> Time" where
  "validator_now clock V = (case jv_fixed_now V of Some now \<Rightarrow> now | None \<Rightarrow> clock)"

definition ValidateTimestamps :: "Time \<Rightarrow> JwtValidator \<Rightarrow> RawJwt \<Rightarrow> Status" where
  "ValidateTimestamps clock V t =
     (let now = validator_now clock V
      in if \<not> HasExpiration t \<and> \<not> jv_allow_missing_expiration V then Inl kInvalidArgument
         else
           let exp_status =
                 (if HasExpiration t
                  then case GetExpiration t of
                         Inl e \<Rightarrow> Inl e
                       | Inr expiration \<Rightarrow> if expiration \<le> now - jv_clock_skew V then Inl kInvalidArgument else OkStatus
                  else OkStatus);
               nbf_status =
                 (if HasNotBefore t
                  then case GetNotBefore t of
                         Inl e \<Rightarrow> Inl e
                       | Inr not_before \<Rightarrow> if not_before > now + jv_clock_skew V then Inl kInvalidArgument else OkStatus
                  else OkStatus);
               iat_status =
                 (if jv_expect_issued_in_the_past V
                  then case GetIssuedAt t of
                         Inl e \<Rightarrow> Inl e
                       | Inr issued_at \<Rightarrow> if issued_at > now + jv_clock_skew V then Inl kInvalidArgument else OkStatus
                  else OkStatus)
           in case exp_status of Inl e \<Rightarrow> Inl e | Inr _ \<Rightarrow> (case nbf_status of Inl e \<Rightarrow> Inl e | Inr _ \<Rightarrow> iat_status))"

definition ValidateTypeHeader :: "JwtValidator \<Rightarrow> RawJwt \<Rightarrow> Status" where
  "ValidateTypeHeader V t =
     (case jv_expected_type_header V of
        Some expected \<Rightarrow>
          if \<not> HasTypeHeader t then Inl kInvalidArgument
          else (case GetTypeHeader t of Inl e \<Rightarrow> Inl e | Inr ty \<Rightarrow> if expected \<noteq> ty then Inl kInvalidArgument else OkStatus)
      | None \<Rightarrow> if HasTypeHeader t \<and> \<not> jv_ignore_type_header V then Inl kInvalidArgument else OkStatus)"

definition ValidateIssuer :: "JwtValidator \<Rightarrow> RawJwt \<Rightarrow> Status" where
  "ValidateIssuer V t =
     (case jv_expected_issuer V of
        Some expected \<Rightarrow>
          if \<not> HasIssuer t then Inl kInvalidArgument
          else (case GetIssuer t of Inl e \<Rightarrow> Inl e | Inr issuer \<Rightarrow> if expected \<noteq> issuer then Inl kInvalidArgument else OkStatus)
      | None \<Rightarrow> if HasIssuer t \<and> \<not> jv_ignore_issuer V then Inl kInvalidArgument else OkStatus)"

definition ValidateAudiences :: "JwtValidator \<Rightarrow> RawJwt \<Rightarrow> Status" where
  "ValidateAudiences V t =
     (case jv_expected_audience V of
        Some expected \<Rightarrow>
          if \<not> HasAudiences t then Inl kInvalidArgument
          else (case GetAudiences t of
                  Inl e \<Rightarrow> Inl e
                | Inr audiences \<Rightarrow> if expected \<notin> set audiences then Inl kInvalidArgument else OkStatus)
      | None \<Rightarrow> if HasAudiences t \<and> \<not> jv_ignore_audiences V then Inl kInvalidArgument else OkStatus)"

definition JwtValidator_Validate :: "Time \<Rightarrow> JwtValidator \<Rightarrow> RawJwt \<Rightarrow> Status" where
  "JwtValidator_Validate clock V t =
     (case ValidateTimestamps clock V t of
        Inl e \<Rightarrow> Inl e
      | Inr _ \<Rightarrow>
          (case ValidateTypeHeader V t of
             Inl e \<Rightarrow> Inl e
           | Inr _ \<Rightarrow> (case ValidateIssuer V t of Inl e \<Rightarrow> Inl e | Inr _ \<Rightarrow> ValidateAudiences V t)))"

definition JwtValidatorBuilder_new :: JwtValidatorBuilder where
  "JwtValidatorBuilder_new =
     \<lparr>jb_expected_type_header = None, jb_expected_issuer = None, jb_expected_audience = None, jb_ignore_type_header = False,
      jb_ignore_issuer = False, jb_ignore_audiences = False, jb_allow_missing_expiration = False,
      jb_expect_issued_in_the_past = False, jb_clock_skew = 0, jb_fixed_now = None\<rparr>"

definition ExpectTypeHeader :: "bytes \<Rightarrow> JwtValidatorBuilder \<Rightarrow> JwtValidatorBuilder" where "ExpectTypeHeader x b = b\<lparr>jb_expected_type_header := Some x\<rparr>"
definition ExpectIssuer :: "bytes \<Rightarrow> JwtValidatorBuilder \<Rightarrow> JwtValidatorBuilder" where "ExpectIssuer x b = b\<lparr>jb_expected_issuer := Some x\<rparr>"
definition ExpectAudience :: "bytes \<Rightarrow> JwtValidatorBuilder \<Rightarrow> JwtValidatorBuilder" where "ExpectAudience x b = b\<lparr>jb_expected_audience := Some x\<rparr>"
definition IgnoreTypeHeader :: "JwtValidatorBuilder \<Rightarrow> JwtValidatorBuilder" where "IgnoreTypeHeader b = b\<lparr>jb_ignore_type_header := True\<rparr>"
definition IgnoreIssuer :: "JwtValidatorBuilder \<Rightarrow> JwtValidatorBuilder" where "IgnoreIssuer b = b\<lparr>jb_ignore_issuer := True\<rparr>"
definition IgnoreAudiences :: "JwtValidatorBuilder \<Rightarrow> JwtValidatorBuilder" where "IgnoreAudiences b = b\<lparr>jb_ignore_audiences := True\<rparr>"
definition AllowMissingExpiration :: "JwtValidatorBuilder \<Rightarrow> JwtValidatorBuilder" where "AllowMissingExpiration b = b\<lparr>jb_allow_missing_expiration := True\<rparr>"
definition ExpectIssuedInThePast :: "JwtValidatorBuilder \<Rightarrow> JwtValidatorBuilder" where "ExpectIssuedInThePast b = b\<lparr>jb_expect_issued_in_the_past := True\<rparr>"
definition SetClockSkew :: "Duration \<Rightarrow> JwtValidatorBuilder \<Rightarrow> JwtValidatorBuilder" where "SetClockSkew d b = b\<lparr>jb_clock_skew := d\<rparr>"
definition SetFixedNow :: "Time \<Rightarrow> JwtValidatorBuilder \<Rightarrow> JwtValidatorBuilder" where "SetFixedNow u b = b\<lparr>jb_fixed_now := Some u\<rparr>"

definition JwtValidatorBuilder_Build :: "JwtValidatorBuilder \<Rightarrow> JwtValidator StatusOr" where
  "JwtValidatorBuilder_Build b =
     (if jb_expected_type_header b \<noteq> None \<and> jb_ignore_type_header b then Inl kInvalidArgument
      else if jb_expected_issuer b \<noteq> None \<and> jb_ignore_issuer b then Inl kInvalidArgument
      else if jb_expected_audience b \<noteq> None \<and> jb_ignore_audiences b then Inl kInvalidArgument
      else if jb_clock_skew b > kJwtMaxClockSkew then Inl kInvalidArgument
      else Inr (JwtValidator_of b))"

section \<open>What a validator accepts\<close>

lemma ValidateTypeHeader_ok:
  "ValidateTypeHeader V t = OkStatus \<longleftrightarrow>
     (case jv_expected_type_header V of Some ty \<Rightarrow> rj_type_header t = Some ty | None \<Rightarrow> rj_type_header t = None \<or> jv_ignore_type_header V)"
  by (auto simp: ValidateTypeHeader_def HasTypeHeader_def GetTypeHeader_def split: option.splits)

lemma get_claim_missing: "\<not> has_claim name t \<Longrightarrow> get_claim e kind f name t = Inl e"
  by (simp add: has_claim_def get_claim_def)

lemma ValidateIssuer_ok:
  "ValidateIssuer V t = OkStatus \<longleftrightarrow>
     (case jv_expected_issuer V of Some i \<Rightarrow> GetIssuer t = Inr i | None \<Rightarrow> \<not> HasIssuer t \<or> jv_ignore_issuer V)"
  using get_claim_missing [of kJwtClaimIssuer t kInvalidArgument kStringValue string_value]
  by (auto simp: ValidateIssuer_def HasIssuer_def GetIssuer_def split: option.splits sum.splits if_splits)

lemma GetAudiences_missing: "\<not> HasAudiences t \<Longrightarrow> GetAudiences t = Inl kNotFound"
  by (simp add: HasAudiences_def has_claim_def GetAudiences_def)

lemma ValidateAudiences_ok:
  "ValidateAudiences V t = OkStatus \<longleftrightarrow>
     (case jv_expected_audience V of
        Some a \<Rightarrow> \<exists>as. GetAudiences t = Inr as \<and> a \<in> set as
      | None \<Rightarrow> \<not> HasAudiences t \<or> jv_ignore_audiences V)"
  using GetAudiences_missing [of t] by (auto simp: ValidateAudiences_def split: option.splits sum.splits if_splits)

lemma ValidateTimestamps_ok:
  assumes "claims_typed (rj_json_proto t)"
  shows "ValidateTimestamps clock V t = OkStatus \<longleftrightarrow>
     (if HasExpiration t then \<exists>u. GetExpiration t = Inr u \<and> validator_now clock V < u + jv_clock_skew V else jv_allow_missing_expiration V) \<and>
     (\<forall>u. GetNotBefore t = Inr u \<longrightarrow> u \<le> validator_now clock V + jv_clock_skew V) \<and>
     (jv_expect_issued_in_the_past V \<longrightarrow> (\<exists>u. GetIssuedAt t = Inr u \<and> u \<le> validator_now clock V + jv_clock_skew V))"
proof -
  have n: "HasNotBefore t \<Longrightarrow> \<exists>u. GetNotBefore t = Inr u" "\<not> HasNotBefore t \<Longrightarrow> GetNotBefore t = Inl kNotFound"
    using typed_time [of t kJwtClaimNotBefore] get_claim_missing assms
    by (auto simp: claims_typed_def HasNotBefore_def GetNotBefore_def)
  have e: "HasExpiration t \<Longrightarrow> \<exists>u. GetExpiration t = Inr u" using typed_time [of t kJwtClaimExpiration] assms
    by (auto simp: claims_typed_def HasExpiration_def GetExpiration_def)
  show ?thesis unfolding ValidateTimestamps_def Let_def using n e
    by (cases "HasExpiration t"; cases "HasNotBefore t"; cases "jv_expect_issued_in_the_past V"; cases "GetIssuedAt t")
      (auto split: if_splits)
qed

text \<open>
  (C38) A validator made by its builder accepts exactly the tokens that satisfy what was asked for. For every token parsed from JSON: it has not expired, or has no
  expiration and this is allowed; it may be used already; if that is expected, it was issued in the past; its type, issuer and audience are the expected
  ones, or it has none, or they are ignored. Times are compared with the clock or the fixed time, with a tolerance that the builder limits to
  ten minutes. So no accepted token expired more than ten minutes ago.
\<close>

theorem validator_accepts_exactly:
  assumes V: "JwtValidatorBuilder_Build b = Inr V" and t: "FromJson J ty json = Inr t"
  shows "(JwtValidator_Validate clock V t = OkStatus \<longleftrightarrow>
     (if HasExpiration t then \<exists>u. GetExpiration t = Inr u \<and> validator_now clock V < u + jb_clock_skew b else jb_allow_missing_expiration b) \<and>
     (\<forall>u. GetNotBefore t = Inr u \<longrightarrow> u \<le> validator_now clock V + jb_clock_skew b) \<and>
     (jb_expect_issued_in_the_past b \<longrightarrow> (\<exists>u. GetIssuedAt t = Inr u \<and> u \<le> validator_now clock V + jb_clock_skew b)) \<and>
     (case jb_expected_type_header b of Some x \<Rightarrow> ty = Some x | None \<Rightarrow> ty = None \<or> jb_ignore_type_header b) \<and>
     (case jb_expected_issuer b of Some i \<Rightarrow> GetIssuer t = Inr i | None \<Rightarrow> \<not> HasIssuer t \<or> jb_ignore_issuer b) \<and>
     (case jb_expected_audience b of
        Some a \<Rightarrow> \<exists>as. GetAudiences t = Inr as \<and> a \<in> set as
      | None \<Rightarrow> \<not> HasAudiences t \<or> jb_ignore_audiences b)) \<and>
   (JwtValidator_Validate clock V t = OkStatus \<longrightarrow>
     (\<forall>u. GetExpiration t = Inr u \<longrightarrow> validator_now clock V < u + 600 * ticks))"
proof -
  have v: "V = JwtValidator_of b" and s: "jb_clock_skew b \<le> 600 * ticks"
    using V by (auto simp: JwtValidatorBuilder_Build_def kJwtMaxClockSkew_def split: if_splits)
  have ty: "rj_type_header t = ty" using t by (auto simp: FromJson_def split: sum.splits if_splits)
  have ok: "JwtValidator_Validate clock V t = OkStatus \<longleftrightarrow>
      ValidateTimestamps clock V t = OkStatus \<and> ValidateTypeHeader V t = OkStatus \<and> ValidateIssuer V t = OkStatus \<and> ValidateAudiences V t = OkStatus"
    by (auto simp: JwtValidator_Validate_def split: sum.splits)
  have x: "GetExpiration t = Inr u \<Longrightarrow> HasExpiration t" for u
    by (auto simp: GetExpiration_def HasExpiration_def get_claim_def has_claim_def split: option.splits)
  have vs: "jv_clock_skew V = jb_clock_skew b" "jv_allow_missing_expiration V = jb_allow_missing_expiration b"
    "jv_expect_issued_in_the_past V = jb_expect_issued_in_the_past b" "jv_expected_type_header V = jb_expected_type_header b"
    "jv_ignore_type_header V = jb_ignore_type_header b" "jv_expected_issuer V = jb_expected_issuer b" "jv_ignore_issuer V = jb_ignore_issuer b"
    "jv_expected_audience V = jb_expected_audience b" "jv_ignore_audiences V = jb_ignore_audiences b" by (simp_all add: v JwtValidator_of_def)
  note iff = ok [unfolded ValidateTimestamps_ok [OF FromJson_typed [OF t]] ValidateTypeHeader_ok ValidateIssuer_ok ValidateAudiences_ok vs ty conj_assoc]
  show ?thesis
  proof (intro conjI impI allI)
    fix u
    assume "JwtValidator_Validate clock V t = OkStatus" and u: "GetExpiration t = Inr u"
    with iff x [OF u] have "validator_now clock V < u + jb_clock_skew b" by simp
    with s show "validator_now clock V < u + 600 * ticks" by linarith
  qed (rule iff)
qed

definition sample_validator_builder :: JwtValidatorBuilder where
  "sample_validator_builder = SetClockSkew ticks (ExpectAudience [3] (ExpectIssuer [1] JwtValidatorBuilder_new))"

lemma sample_token_parsed: "FromJson (table_json [rj_json_proto sample_token]) None [0] = Inr sample_token"
proof -
  have n: "([9] :: bytes) \<noteq> kJwtClaimIssuer" "([9] :: bytes) \<noteq> kJwtClaimSubject" "([9] :: bytes) \<noteq> kJwtClaimExpiration" "([9] :: bytes) \<noteq> kJwtClaimNotBefore"
    "([9] :: bytes) \<noteq> kJwtClaimIssuedAt" "([9] :: bytes) \<noteq> kJwtClaimAudience" by (simp_all add: jwt_name_defs ascii_def)
  then show ?thesis
    by (simp add: FromJson_def JsonStringToProtoStruct_def table_json_def sample_token_def claim_check_defs kJwtTimestampMax_def)
qed

theorem validator_accepts_exactly_witness:
  "\<exists>V. JwtValidatorBuilder_Build sample_validator_builder = Inr V \<and> FromJson (table_json [rj_json_proto sample_token]) None [0] = Inr sample_token \<and>
     JwtValidator_Validate (7 * ticks) V sample_token = OkStatus \<and> JwtValidator_Validate (8 * ticks) V sample_token \<noteq> OkStatus"
proof -
  have n: "([9] :: bytes) \<noteq> kJwtClaimIssuer" "([9] :: bytes) \<noteq> kJwtClaimExpiration" "([9] :: bytes) \<noteq> kJwtClaimNotBefore" "([9] :: bytes) \<noteq> kJwtClaimAudience"
    by (simp_all add: jwt_name_defs ascii_def)
  let ?V = "JwtValidator_of sample_validator_builder"
  have V: "JwtValidatorBuilder_Build sample_validator_builder = Inr ?V"
    by (simp add: JwtValidatorBuilder_Build_def sample_validator_builder_def SetClockSkew_def ExpectAudience_def ExpectIssuer_def
        JwtValidatorBuilder_new_def kJwtMaxClockSkew_def ticks_def)
  have g: "HasExpiration sample_token" "GetExpiration sample_token = Inr (7 * ticks)" "GetNotBefore sample_token = Inl kNotFound"
    "GetIssuer sample_token = Inr [1]" "GetAudiences sample_token = Inr [[2], [3]]" "validator_now u ?V = u" for u
    using n by (simp_all add: HasExpiration_def has_claim_def GetExpiration_def get_claim_def GetNotBefore_def GetIssuer_def GetAudiences_def
        sample_token_def TimestampToTime_def truncate_number_def kJwtTimestampMax_def FromUnixSeconds_def validator_now_def JwtValidator_of_def
        sample_validator_builder_def SetClockSkew_def ExpectAudience_def ExpectIssuer_def JwtValidatorBuilder_new_def)
  have b: "jb_clock_skew sample_validator_builder = ticks" "\<not> jb_expect_issued_in_the_past sample_validator_builder"
    "jb_expected_type_header sample_validator_builder = None" "jb_expected_issuer sample_validator_builder = Some [1]"
    "jb_expected_audience sample_validator_builder = Some [3]"
    by (simp_all add: sample_validator_builder_def SetClockSkew_def ExpectAudience_def ExpectIssuer_def JwtValidatorBuilder_new_def)
  have k: "0 < ticks" by (simp add: ticks_def)
  show ?thesis
    using V sample_token_parsed validator_accepts_exactly [OF V sample_token_parsed, of "7 * ticks"]
      validator_accepts_exactly [OF V sample_token_parsed, of "8 * ticks"] g b k by (intro exI [of _ ?V]) simp
qed

end
