(* ===== verification/Jwt.thy ===== *)
theory Jwt
  imports Jwt_Validator Subtle_Aead
begin

text \<open>
  Signed tokens: the compact format (\<^verbatim>\<open>tink/jwt/internal/jwt_format.cc\<close>), tokens with a MAC
  (\<^verbatim>\<open>jwt_mac_impl.cc\<close>, \<^verbatim>\<open>jwt_mac_wrapper.cc\<close>) and with a signature
  (\<^verbatim>\<open>jwt_public_key_sign_impl.cc\<close>, \<^verbatim>\<open>jwt_public_key_verify_impl.cc\<close> and their wrappers).

  The code for MACs and for signatures does the same steps with another primitive; they are shared here, and a locale states once what they give. Base64
  (\<^verbatim>\<open>absl::WebSafeBase64Escape\<close> and \<^verbatim>\<open>WebSafeBase64Unescape\<close>) is a parameter.
\<close>

section \<open>Definitions\<close>

subsection \<open>The compact format\<close>

record Base64 =
  WebSafeBase64Escape :: "bytes \<Rightarrow> bytes"
  WebSafeBase64Unescape :: "bytes \<Rightarrow> bytes option"

definition isValidUrlsafeBase64Char :: "byte \<Rightarrow> bool" where
  "isValidUrlsafeBase64Char c \<longleftrightarrow>
     (97 \<le> c \<and> c \<le> 122) \<or> (65 \<le> c \<and> c \<le> 90) \<or> (48 \<le> c \<and> c \<le> 57) \<or> (c = 45 \<or> c = 95)"

definition StrictWebSafeBase64Unescape :: "Base64 \<Rightarrow> bytes \<Rightarrow> bytes option" where
  "StrictWebSafeBase64Unescape B src = (if list_ex (\<lambda>c. \<not> isValidUrlsafeBase64Char c) src then None else WebSafeBase64Unescape B src)"

definition EncodeHeader :: "Base64 \<Rightarrow> bytes \<Rightarrow> bytes" where "EncodeHeader B = WebSafeBase64Escape B"
definition DecodeHeader :: "Base64 \<Rightarrow> bytes \<Rightarrow> bytes option" where "DecodeHeader B = StrictWebSafeBase64Unescape B"
definition EncodePayload :: "Base64 \<Rightarrow> bytes \<Rightarrow> bytes" where "EncodePayload B = WebSafeBase64Escape B"
definition DecodePayload :: "Base64 \<Rightarrow> bytes \<Rightarrow> bytes option" where "DecodePayload B = StrictWebSafeBase64Unescape B"
definition EncodeSignature :: "Base64 \<Rightarrow> bytes \<Rightarrow> bytes" where "EncodeSignature B = WebSafeBase64Escape B"
definition DecodeSignature :: "Base64 \<Rightarrow> bytes \<Rightarrow> bytes option" where "DecodeSignature B = StrictWebSafeBase64Unescape B"

definition GetKid :: "Base64 \<Rightarrow> u32 \<Rightarrow> OutputPrefixType \<Rightarrow> bytes option" where
  "GetKid B key prefix_type =
     (if prefix_type \<noteq> TINK then None else Some (WebSafeBase64Escape B (StoreBigEndian32 key)))"

definition GetKeyId :: "Base64 \<Rightarrow> bytes \<Rightarrow> u32 option" where
  "GetKeyId B kid =
     (case StrictWebSafeBase64Unescape B kid of
        None \<Rightarrow> None
      | Some decoded_kid \<Rightarrow> if length decoded_kid \<noteq> 4 then None else Some (LoadBigEndian32 decoded_kid))"

definition set_string :: "string \<Rightarrow> bytes option \<Rightarrow> Struct \<Rightarrow> Struct" where
  "set_string name value s = (case value of None \<Rightarrow> s | Some v \<Rightarrow> fmupd (ascii name) (StringValue v) s)"

definition jwt_header :: "bytes \<Rightarrow> bytes option \<Rightarrow> bytes option \<Rightarrow> Struct" where
  "jwt_header algorithm type_header kid = fmupd (ascii ''alg'') (StringValue algorithm) (set_string ''typ'' type_header (set_string ''kid'' kid fmempty))"

definition Jwt_CreateHeader :: "Json \<Rightarrow> Base64 \<Rightarrow> bytes \<Rightarrow> bytes option \<Rightarrow> bytes option \<Rightarrow> bytes StatusOr" where
  "Jwt_CreateHeader J B algorithm type_header kid =
     (case ProtoStructToJsonString J (jwt_header algorithm type_header kid) of
        Inl e \<Rightarrow> Inl e
      | Inr json_header \<Rightarrow> Inr (EncodeHeader B json_header))"

definition ValidateKidInHeader :: "Value \<Rightarrow> bytes \<Rightarrow> Status" where
  "ValidateKidInHeader kid_in_header kid =
     (if kind_case kid_in_header \<noteq> kStringValue then Inl kInvalidArgument
      else if string_value kid_in_header \<noteq> kid then Inl kInvalidArgument
      else OkStatus)"

definition ValidateHeader :: "Struct \<Rightarrow> bytes \<Rightarrow> bytes option \<Rightarrow> bytes option \<Rightarrow> Status" where
  "ValidateHeader header algorithm tink_kid custom_kid =
     (case fmlookup header (ascii ''alg'') of
        None \<Rightarrow> Inl kInvalidArgument
      | Some alg \<Rightarrow>
          if kind_case alg \<noteq> kStringValue then Inl kInvalidArgument
          else if string_value alg \<noteq> algorithm then Inl kInvalidArgument
          else if fmlookup header (ascii ''crit'') \<noteq> None then Inl kInvalidArgument
          else if tink_kid \<noteq> None \<and> custom_kid \<noteq> None then Inl kInvalidArgument
          else
            let kid_it = fmlookup header (ascii ''kid'');
                tink_status =
                  (case tink_kid of
                     None \<Rightarrow> OkStatus
                   | Some k \<Rightarrow> (case kid_it of None \<Rightarrow> Inl kInvalidArgument | Some v \<Rightarrow> ValidateKidInHeader v k));
                custom_status =
                  (case custom_kid of
                     None \<Rightarrow> OkStatus
                   | Some k \<Rightarrow> (case kid_it of None \<Rightarrow> OkStatus | Some v \<Rightarrow> ValidateKidInHeader v k))
            in case tink_status of
                 Inl e \<Rightarrow> Inl e
               | Inr _ \<Rightarrow>
                   (case custom_status of
                      Inl e \<Rightarrow> Inl e
                    | Inr _ \<Rightarrow>
                        (case fmlookup header (ascii ''typ'') of
                           None \<Rightarrow> OkStatus
                         | Some typ \<Rightarrow> if kind_case typ \<noteq> kStringValue then Inl kInvalidArgument else OkStatus)))"

definition Header_GetTypeHeader :: "Struct \<Rightarrow> bytes option" where
  "Header_GetTypeHeader header =
     (case fmlookup header (ascii ''typ'') of
        None \<Rightarrow> None
      | Some value \<Rightarrow> if kind_case value \<noteq> kStringValue then None else Some (string_value value))"

subsection \<open>Signing and verifying\<close>

text \<open>\<^verbatim>\<open>find_last_of\<close> with the two substrings around the position, and \<^verbatim>\<open>StrSplit\<close>.\<close>

fun str_split :: "byte \<Rightarrow> bytes \<Rightarrow> bytes list" where
  "str_split c [] = [[]]"
| "str_split c (x # xs) = (if x = c then [] # str_split c xs else (x # hd (str_split c xs)) # tl (str_split c xs))"

definition split_last :: "byte \<Rightarrow> bytes \<Rightarrow> (bytes \<times> bytes) option" where
  "split_last c s =
     (if c \<in> set s
      then Some (rev (tl (dropWhile (\<lambda>x. x \<noteq> c) (rev s))), rev (takeWhile (\<lambda>x. x \<noteq> c) (rev s)))
      else None)"

definition dot :: byte where "dot = 46"

definition sign_and_encode ::
    "Json \<Rightarrow> Base64 \<Rightarrow> (bytes \<Rightarrow> bytes StatusOr) \<Rightarrow> bytes \<Rightarrow> bytes option \<Rightarrow> bytes option \<Rightarrow> RawJwt \<Rightarrow> bytes option \<Rightarrow> bytes StatusOr" where
  "sign_and_encode J B sign algorithm custom_kid own_kid token kid =
     (if own_kid \<noteq> None \<and> kid \<noteq> own_kid then Inl kInvalidArgument
      else if custom_kid \<noteq> None \<and> kid \<noteq> None then Inl kInvalidArgument
      else
        case Jwt_CreateHeader J B algorithm (rj_type_header token) (if custom_kid \<noteq> None then custom_kid else kid) of
          Inl e \<Rightarrow> Inl e
        | Inr encoded_header \<Rightarrow>
            (case GetJsonPayload J token of
               Inl e \<Rightarrow> Inl e
             | Inr payload \<Rightarrow>
                 let unsigned_token = encoded_header @ [dot] @ EncodePayload B payload
                 in case sign unsigned_token of
                      Inl e \<Rightarrow> Inl e
                    | Inr tag \<Rightarrow> Inr (unsigned_token @ [dot] @ EncodeSignature B tag)))"

definition decode_token :: "Json \<Rightarrow> Base64 \<Rightarrow> bytes \<Rightarrow> bytes option \<Rightarrow> bytes option \<Rightarrow> bytes \<Rightarrow> RawJwt StatusOr" where
  "decode_token J B algorithm custom_kid kid unsigned_token =
     (let parts = str_split dot unsigned_token
      in if length parts \<noteq> 2 then Inl kInvalidArgument
         else case DecodeHeader B (parts ! 0) of
                None \<Rightarrow> Inl kInvalidArgument
              | Some json_header \<Rightarrow>
                  (case JsonStringToProtoStruct J json_header of
                     Inl e \<Rightarrow> Inl e
                   | Inr header \<Rightarrow>
                       (case ValidateHeader header algorithm kid custom_kid of
                          Inl e \<Rightarrow> Inl e
                        | Inr _ \<Rightarrow>
                            (case DecodePayload B (parts ! 1) of
                               None \<Rightarrow> Inl kInvalidArgument
                             | Some json_payload \<Rightarrow> FromJson J (Header_GetTypeHeader header) json_payload))))"

definition verify_and_decode ::
    "Json \<Rightarrow> Base64 \<Rightarrow> (bytes \<Rightarrow> bytes \<Rightarrow> Status) \<Rightarrow> bytes \<Rightarrow> bytes option \<Rightarrow> bytes option \<Rightarrow> Time \<Rightarrow> bytes \<Rightarrow> JwtValidator \<Rightarrow>
     bytes option \<Rightarrow> VerifiedJwt StatusOr" where
  "verify_and_decode J B verify algorithm custom_kid own_kid clock token_text validator kid =
     (if own_kid \<noteq> None \<and> kid \<noteq> own_kid then Inl kInvalidArgument
      else
        case split_last dot token_text of
          None \<Rightarrow> Inl kInvalidArgument
        | Some (unsigned_token, encoded_signature) \<Rightarrow>
            (case DecodeSignature B encoded_signature of
               None \<Rightarrow> Inl kInvalidArgument
             | Some signature \<Rightarrow>
                 (case verify signature unsigned_token of
                    Inl _ \<Rightarrow> Inl kUnauthenticated
                  | Inr _ \<Rightarrow>
                      (case decode_token J B algorithm custom_kid kid unsigned_token of
                         Inl e \<Rightarrow> Inl e
                       | Inr raw_jwt \<Rightarrow>
                           (case JwtValidator_Validate clock validator raw_jwt of
                              Inl e \<Rightarrow> Inl e
                            | Inr _ \<Rightarrow> Inr \<lparr>vj_raw_jwt = raw_jwt\<rparr>)))))"

record JwtMacImpl =
  mi_mac :: MacFns
  mi_algorithm :: bytes
  mi_custom_kid :: "bytes option"
  mi_kid :: "bytes option"

definition JwtMacImpl_WithKid :: "MacFns \<Rightarrow> bytes \<Rightarrow> bytes \<Rightarrow> JwtMacImpl" where
  "JwtMacImpl_WithKid mac algorithm kid = \<lparr>mi_mac = mac, mi_algorithm = algorithm, mi_custom_kid = None, mi_kid = Some kid\<rparr>"
definition JwtMacImpl_RawWithCustomKid :: "MacFns \<Rightarrow> bytes \<Rightarrow> bytes \<Rightarrow> JwtMacImpl" where
  "JwtMacImpl_RawWithCustomKid mac algorithm custom_kid = \<lparr>mi_mac = mac, mi_algorithm = algorithm, mi_custom_kid = Some custom_kid, mi_kid = None\<rparr>"
definition JwtMacImpl_Raw :: "MacFns \<Rightarrow> bytes \<Rightarrow> JwtMacImpl" where
  "JwtMacImpl_Raw mac algorithm = \<lparr>mi_mac = mac, mi_algorithm = algorithm, mi_custom_kid = None, mi_kid = None\<rparr>"

definition ComputeMacAndEncodeWithKid :: "Json \<Rightarrow> Base64 \<Rightarrow> JwtMacImpl \<Rightarrow> RawJwt \<Rightarrow> bytes option \<Rightarrow> bytes StatusOr" where
  "ComputeMacAndEncodeWithKid J B m = sign_and_encode J B (mac_ComputeMac (mi_mac m)) (mi_algorithm m) (mi_custom_kid m) (mi_kid m)"

definition VerifyMacAndDecodeWithKid ::
    "Json \<Rightarrow> Base64 \<Rightarrow> JwtMacImpl \<Rightarrow> Time \<Rightarrow> bytes \<Rightarrow> JwtValidator \<Rightarrow> bytes option \<Rightarrow> VerifiedJwt StatusOr" where
  "VerifyMacAndDecodeWithKid J B m = verify_and_decode J B (mac_VerifyMac (mi_mac m)) (mi_algorithm m) (mi_custom_kid m) (mi_kid m)"

record JwtPublicKeySignImpl =
  si_sign :: PublicKeySign
  si_algorithm :: bytes
  si_custom_kid :: "bytes option"
  si_kid :: "bytes option"

record JwtPublicKeyVerifyImpl =
  vi_verify :: PublicKeyVerify
  vi_algorithm :: bytes
  vi_custom_kid :: "bytes option"
  vi_kid :: "bytes option"

definition JwtPublicKeySignImpl_WithKid :: "PublicKeySign \<Rightarrow> bytes \<Rightarrow> bytes \<Rightarrow> JwtPublicKeySignImpl" where
  "JwtPublicKeySignImpl_WithKid sign algorithm kid = \<lparr>si_sign = sign, si_algorithm = algorithm, si_custom_kid = None, si_kid = Some kid\<rparr>"
definition JwtPublicKeySignImpl_RawWithCustomKid :: "PublicKeySign \<Rightarrow> bytes \<Rightarrow> bytes \<Rightarrow> JwtPublicKeySignImpl" where
  "JwtPublicKeySignImpl_RawWithCustomKid sign algorithm custom_kid =
     \<lparr>si_sign = sign, si_algorithm = algorithm, si_custom_kid = Some custom_kid, si_kid = None\<rparr>"
definition JwtPublicKeySignImpl_Raw :: "PublicKeySign \<Rightarrow> bytes \<Rightarrow> JwtPublicKeySignImpl" where
  "JwtPublicKeySignImpl_Raw sign algorithm = \<lparr>si_sign = sign, si_algorithm = algorithm, si_custom_kid = None, si_kid = None\<rparr>"
definition JwtPublicKeyVerifyImpl_WithKid :: "PublicKeyVerify \<Rightarrow> bytes \<Rightarrow> bytes \<Rightarrow> JwtPublicKeyVerifyImpl" where
  "JwtPublicKeyVerifyImpl_WithKid verify algorithm kid = \<lparr>vi_verify = verify, vi_algorithm = algorithm, vi_custom_kid = None, vi_kid = Some kid\<rparr>"
definition JwtPublicKeyVerifyImpl_RawWithCustomKid :: "PublicKeyVerify \<Rightarrow> bytes \<Rightarrow> bytes \<Rightarrow> JwtPublicKeyVerifyImpl" where
  "JwtPublicKeyVerifyImpl_RawWithCustomKid verify algorithm custom_kid =
     \<lparr>vi_verify = verify, vi_algorithm = algorithm, vi_custom_kid = Some custom_kid, vi_kid = None\<rparr>"
definition JwtPublicKeyVerifyImpl_Raw :: "PublicKeyVerify \<Rightarrow> bytes \<Rightarrow> JwtPublicKeyVerifyImpl" where
  "JwtPublicKeyVerifyImpl_Raw verify algorithm = \<lparr>vi_verify = verify, vi_algorithm = algorithm, vi_custom_kid = None, vi_kid = None\<rparr>"

definition SignAndEncodeWithKid :: "Json \<Rightarrow> Base64 \<Rightarrow> JwtPublicKeySignImpl \<Rightarrow> RawJwt \<Rightarrow> bytes option \<Rightarrow> bytes StatusOr" where
  "SignAndEncodeWithKid J B s = sign_and_encode J B (si_sign s) (si_algorithm s) (si_custom_kid s) (si_kid s)"

definition VerifyAndDecodeWithKid ::
    "Json \<Rightarrow> Base64 \<Rightarrow> JwtPublicKeyVerifyImpl \<Rightarrow> Time \<Rightarrow> bytes \<Rightarrow> JwtValidator \<Rightarrow> bytes option \<Rightarrow> VerifiedJwt StatusOr" where
  "VerifyAndDecodeWithKid J B v = verify_and_decode J B (vi_verify v) (vi_algorithm v) (vi_custom_kid v) (vi_kid v)"

subsection \<open>Keysets\<close>

definition jwt_prefixes_ok :: "'p PEntry list \<Rightarrow> bool" where
  "jwt_prefixes_ok es \<longleftrightarrow> list_all (\<lambda>e. pe_output_prefix_type e = RAW \<or> pe_output_prefix_type e = TINK) es"

definition JwtMac_Validate :: "'c wrap_env \<Rightarrow> 'p PrimitiveSet option \<Rightarrow> Status" where
  "JwtMac_Validate env set_ptr =
     (case set_ptr of
        None \<Rightarrow> Inl kInternal
      | Some S \<Rightarrow>
          if get_primary S = None then Inl kInvalidArgument
          else if \<not> jwt_prefixes_ok (get_all (hash_order env) S) then Inl kInvalidArgument
          else OkStatus)"

definition JwtVerify_Validate :: "'c wrap_env \<Rightarrow> 'p PrimitiveSet option \<Rightarrow> Status" where
  "JwtVerify_Validate env set_ptr =
     (case set_ptr of
        None \<Rightarrow> Inl kInternal
      | Some S \<Rightarrow> if \<not> jwt_prefixes_ok (get_all (hash_order env) S) then Inl kInvalidArgument else OkStatus)"

text \<open>The loop over all entries: the first that accepts, or the last error that is not a failed verification.\<close>

fun jwt_verify_loop :: "('p PEntry \<Rightarrow> VerifiedJwt StatusOr) \<Rightarrow> 'p PEntry list \<Rightarrow> absl_code option \<Rightarrow> VerifiedJwt StatusOr \<times> 'p PEntry option" where
  "jwt_verify_loop f [] interesting = (Inl (case interesting of None \<Rightarrow> kInvalidArgument | Some e \<Rightarrow> e), None)"
| "jwt_verify_loop f (x # xs) interesting =
     (case f x of
        Inr verified \<Rightarrow> (Inr verified, Some x)
      | Inl e \<Rightarrow> jwt_verify_loop f xs (if e \<noteq> kUnauthenticated then Some e else interesting))"

definition jwt_log :: "'c option \<Rightarrow> 'p PEntry option \<Rightarrow> 'c log" where
  "jwt_log client found = log_to client (case found of None \<Rightarrow> LogFailure | Some e \<Rightarrow> Log (pe_key_id e) 1)"

record 'c JwtMacSetWrapper =
  jm_set :: "JwtMacImpl PrimitiveSet"
  jm_order :: "bytes list"
  jm_compute_client :: "'c option"
  jm_verify_client :: "'c option"

definition ComputeMacAndEncode :: "Json \<Rightarrow> Base64 \<Rightarrow> 'c JwtMacSetWrapper \<Rightarrow> RawJwt \<Rightarrow> (bytes StatusOr \<times> 'c log) option" where
  "ComputeMacAndEncode J B w token =
     (case get_primary (jm_set w) of
        None \<Rightarrow> None
      | Some primary \<Rightarrow>
          let kid = GetKid B (pe_key_id primary) (pe_output_prefix_type primary);
              r = ComputeMacAndEncodeWithKid J B (pe_primitive primary) token kid
          in Some (r, jwt_log (jm_compute_client w) (if isl r then None else Some primary)))"

definition VerifyMacAndDecode :: "Json \<Rightarrow> Base64 \<Rightarrow> 'c JwtMacSetWrapper \<Rightarrow> Time \<Rightarrow> bytes \<Rightarrow> JwtValidator \<Rightarrow> VerifiedJwt StatusOr \<times> 'c log" where
  "VerifyMacAndDecode J B w clock token_text validator =
     (let (r, found) = jwt_verify_loop
            (\<lambda>e. VerifyMacAndDecodeWithKid J B (pe_primitive e) clock token_text validator (GetKid B (pe_key_id e) (pe_output_prefix_type e)))
            (get_all (jm_order w) (jm_set w)) None
      in (r, jwt_log (jm_verify_client w) found))"

definition JwtMacWrapper_Wrap :: "'c wrap_env \<Rightarrow> JwtMacImpl PrimitiveSet option \<Rightarrow> 'c JwtMacSetWrapper StatusOr" where
  "JwtMacWrapper_Wrap env set_ptr =
     (case JwtMac_Validate env set_ptr of
        Inl e \<Rightarrow> Inl e
      | Inr _ \<Rightarrow>
          let S = the set_ptr
          in case MonitoringClientFactory_New env of
               None \<Rightarrow> Inr \<lparr>jm_set = S, jm_order = hash_order env, jm_compute_client = None, jm_verify_client = None\<rparr>
             | Some factory \<Rightarrow>
                 (case MonitoringKeySetInfoFromPrimitiveSet env S of
                    Inl e \<Rightarrow> Inl e
                  | Inr info \<Rightarrow>
                      (case monitoring_client factory ''jwtmac'' ''compute'' info of
                         Inl e \<Rightarrow> Inl e
                       | Inr compute \<Rightarrow>
                           (case monitoring_client factory ''jwtmac'' ''verify'' info of
                              Inl e \<Rightarrow> Inl e
                            | Inr verify \<Rightarrow>
                                Inr \<lparr>jm_set = S, jm_order = hash_order env, jm_compute_client = Some compute, jm_verify_client = Some verify\<rparr>))))"

record 'c JwtPublicKeySignSetWrapper =
  js_set :: "JwtPublicKeySignImpl PrimitiveSet"
  js_client :: "'c option"

definition SignAndEncode :: "Json \<Rightarrow> Base64 \<Rightarrow> 'c JwtPublicKeySignSetWrapper \<Rightarrow> RawJwt \<Rightarrow> (bytes StatusOr \<times> 'c log) option" where
  "SignAndEncode J B w token =
     (case get_primary (js_set w) of
        None \<Rightarrow> None
      | Some primary \<Rightarrow>
          let r = SignAndEncodeWithKid J B (pe_primitive primary) token (GetKid B (pe_key_id primary) (pe_output_prefix_type primary))
          in Some (r, jwt_log (js_client w) (if isl r then None else Some primary)))"

definition JwtPublicKeySignWrapper_Wrap :: "'c wrap_env \<Rightarrow> JwtPublicKeySignImpl PrimitiveSet option \<Rightarrow> 'c JwtPublicKeySignSetWrapper StatusOr" where
  "JwtPublicKeySignWrapper_Wrap env set_ptr =
     (case JwtMac_Validate env set_ptr of
        Inl e \<Rightarrow> Inl e
      | Inr _ \<Rightarrow>
          let S = the set_ptr
          in case MonitoringClientFactory_New env of
               None \<Rightarrow> Inr \<lparr>js_set = S, js_client = None\<rparr>
             | Some factory \<Rightarrow>
                 (case MonitoringKeySetInfoFromPrimitiveSet env S of
                    Inl e \<Rightarrow> Inl e
                  | Inr info \<Rightarrow>
                      (case monitoring_client factory ''jwtsign'' ''sign'' info of
                         Inl e \<Rightarrow> Inl e
                       | Inr client \<Rightarrow> Inr \<lparr>js_set = S, js_client = Some client\<rparr>)))"

record 'c JwtPublicKeyVerifySetWrapper =
  jp_set :: "JwtPublicKeyVerifyImpl PrimitiveSet"
  jp_order :: "bytes list"
  jp_client :: "'c option"

definition VerifyAndDecode ::
    "Json \<Rightarrow> Base64 \<Rightarrow> 'c JwtPublicKeyVerifySetWrapper \<Rightarrow> Time \<Rightarrow> bytes \<Rightarrow> JwtValidator \<Rightarrow> VerifiedJwt StatusOr \<times> 'c log" where
  "VerifyAndDecode J B w clock token_text validator =
     (let (r, found) = jwt_verify_loop
            (\<lambda>e. VerifyAndDecodeWithKid J B (pe_primitive e) clock token_text validator (GetKid B (pe_key_id e) (pe_output_prefix_type e)))
            (get_all (jp_order w) (jp_set w)) None
      in (r, jwt_log (jp_client w) found))"

definition JwtPublicKeyVerifyWrapper_Wrap :: "'c wrap_env \<Rightarrow> JwtPublicKeyVerifyImpl PrimitiveSet option \<Rightarrow> 'c JwtPublicKeyVerifySetWrapper StatusOr" where
  "JwtPublicKeyVerifyWrapper_Wrap env set_ptr =
     (case JwtVerify_Validate env set_ptr of
        Inl e \<Rightarrow> Inl e
      | Inr _ \<Rightarrow>
          let S = the set_ptr
          in case MonitoringClientFactory_New env of
               None \<Rightarrow> Inr \<lparr>jp_set = S, jp_order = hash_order env, jp_client = None\<rparr>
             | Some factory \<Rightarrow>
                 (case MonitoringKeySetInfoFromPrimitiveSet env S of
                    Inl e \<Rightarrow> Inl e
                  | Inr info \<Rightarrow>
                      (case monitoring_client factory ''jwtverify'' ''verify'' info of
                         Inl e \<Rightarrow> Inl e
                       | Inr client \<Rightarrow> Inr \<lparr>jp_set = S, jp_order = hash_order env, jp_client = Some client\<rparr>)))"

section \<open>Splitting and encoding\<close>

lemma str_split_not_Nil [simp]: "str_split c xs \<noteq> []"
  by (induction xs) auto

lemma str_split_free: "c \<notin> set b \<Longrightarrow> str_split c b = [b]"
  by (induction b) auto

lemma str_split_two: "c \<notin> set a \<Longrightarrow> c \<notin> set b \<Longrightarrow> str_split c (a @ c # b) = [a, b]"
  by (induction a) (auto simp: str_split_free)

lemma str_split_one: "length (str_split c s) = 1 \<Longrightarrow> str_split c s = [s]"
  by (induction s) (auto split: if_splits)

lemma str_split_join: "length (str_split c s) = 2 \<Longrightarrow> s = str_split c s ! 0 @ [c] @ str_split c s ! 1"
proof (induction s)
  case (Cons x s)
  show ?case
  proof (cases "x = c")
    case True
    with Cons.prems have "length (str_split c s) = 1" by simp
    from str_split_one [OF this] True show ?thesis by simp
  next
    case False
    obtain p ps where p: "str_split c s = p # ps" by (cases "str_split c s") auto
    with False Cons.prems have "length (str_split c s) = 2" by simp
    from Cons.IH [OF this] p False show ?thesis by (cases ps) auto
  qed
qed simp

lemma split_last_append: "c \<notin> set b \<Longrightarrow> split_last c (a @ c # b) = Some (a, b)"
proof -
  assume b: "c \<notin> set b"
  have "takeWhile (\<lambda>x. x \<noteq> c) (rev b @ c # rev a) = rev b" "dropWhile (\<lambda>x. x \<noteq> c) (rev b @ c # rev a) = c # rev a"
    using b by (subst takeWhile_append2 dropWhile_append2; auto)+
  then show ?thesis by (simp add: split_last_def)
qed

lemma split_last_join: "split_last c s = Some (a, b) \<Longrightarrow> s = a @ [c] @ b"
proof -
  assume "split_last c s = Some (a, b)"
  then have m: "c \<in> set (rev s)" and a: "a = rev (tl (dropWhile (\<lambda>x. x \<noteq> c) (rev s)))" and b: "b = rev (takeWhile (\<lambda>x. x \<noteq> c) (rev s))"
    by (auto simp: split_last_def split: if_splits)
  have n: "dropWhile (\<lambda>x. x \<noteq> c) (rev s) \<noteq> []" using m by (auto simp: dropWhile_eq_Nil_conv)
  then have "dropWhile (\<lambda>x. x \<noteq> c) (rev s) = c # rev a" using hd_dropWhile [OF n] a by (metis list.collapse rev_rev_ident)
  then have "rev s = rev b @ c # rev a" using b by (metis rev_rev_ident takeWhile_dropWhile_id)
  then show ?thesis by (metis append.assoc append_Cons append_Nil rev_append rev_rev_ident rev.simps(2))
qed

text \<open>The documented behaviour of the Base64 functions: no padding, the URL-safe alphabet, and decoding inverts encoding.\<close>

definition base64_laws :: "Base64 \<Rightarrow> bool" where
  "base64_laws B \<longleftrightarrow>
     (\<forall>x. WebSafeBase64Unescape B (WebSafeBase64Escape B x) = Some x \<and> list_all isValidUrlsafeBase64Char (WebSafeBase64Escape B x))"

lemma escape_no_dot: "base64_laws B \<Longrightarrow> dot \<notin> set (WebSafeBase64Escape B x)"
proof -
  have "\<not> isValidUrlsafeBase64Char dot" by (simp add: isValidUrlsafeBase64Char_def dot_def)
  then show "base64_laws B \<Longrightarrow> ?thesis" by (auto simp: base64_laws_def list_all_iff)
qed

lemma strict_unescape: "base64_laws B \<Longrightarrow> StrictWebSafeBase64Unescape B (WebSafeBase64Escape B x) = Some x"
  by (auto simp: base64_laws_def StrictWebSafeBase64Unescape_def list_all_iff list_ex_iff)

lemmas encode_defs = EncodeHeader_def DecodeHeader_def EncodePayload_def DecodePayload_def EncodeSignature_def DecodeSignature_def

text \<open>JSON text of an object is parsed to that object.\<close>

definition json_inverse :: "Json \<Rightarrow> Struct \<Rightarrow> bool" where
  "json_inverse J s \<longleftrightarrow> (\<forall>t. StructToJson J s = Inr t \<longrightarrow> JsonToStruct J t = Some s)"

lemma header_names [simp]:
  "ascii ''alg'' \<noteq> ascii ''typ''" "ascii ''alg'' \<noteq> ascii ''kid''" "ascii ''alg'' \<noteq> ascii ''crit''" "ascii ''typ'' \<noteq> ascii ''alg''"
  "ascii ''typ'' \<noteq> ascii ''kid''" "ascii ''typ'' \<noteq> ascii ''crit''" "ascii ''kid'' \<noteq> ascii ''alg''" "ascii ''kid'' \<noteq> ascii ''typ''"
  "ascii ''kid'' \<noteq> ascii ''crit''"
  by (simp_all add: ascii_def)

lemma jwt_header_lookup:
  "fmlookup (jwt_header alg ty k) (ascii ''alg'') = Some (StringValue alg)"
  "fmlookup (jwt_header alg ty k) (ascii ''typ'') = map_option StringValue ty"
  "fmlookup (jwt_header alg ty k) (ascii ''kid'') = map_option StringValue k"
  "fmlookup (jwt_header alg ty k) (ascii ''crit'') = None"
  by (auto simp: jwt_header_def set_string_def split: option.splits)

lemma jwt_header_valid:
  assumes "\<not> (custom \<noteq> None \<and> kid \<noteq> None)"
  shows "ValidateHeader (jwt_header alg ty (if custom \<noteq> None then custom else kid)) alg kid custom = OkStatus"
  using assms by (auto simp: ValidateHeader_def jwt_header_lookup ValidateKidInHeader_def Let_def split: option.splits)

lemma jwt_header_type: "Header_GetTypeHeader (jwt_header alg ty k) = ty"
  by (cases ty) (simp_all add: Header_GetTypeHeader_def jwt_header_lookup)

lemma FromJson_printed:
  assumes "json_typed (rj_json_proto t)" and "json_inverse J (rj_json_proto t)" and "GetJsonPayload J t = Inr p"
  shows "FromJson J (rj_type_header t) p = Inr t"
  using assms by (auto simp: FromJson_def GetJsonPayload_def ProtoStructToJsonString_def JsonStringToProtoStruct_def json_inverse_def
      json_typed_def claims_typed_def split: option.splits)

lemma decode_encoded:
  assumes B: "base64_laws B" and typed: "json_typed (rj_json_proto t)"
    and J: "json_inverse J (rj_json_proto t)" "json_inverse J (jwt_header alg (rj_type_header t) k)"
    and k: "k = (if custom \<noteq> None then custom else kid)" "\<not> (custom \<noteq> None \<and> kid \<noteq> None)"
    and h: "Jwt_CreateHeader J B alg (rj_type_header t) k = Inr h" and p: "GetJsonPayload J t = Inr p"
  shows "decode_token J B alg custom kid (h @ [dot] @ EncodePayload B p) = Inr t"
proof -
  from h obtain jh where jh: "StructToJson J (jwt_header alg (rj_type_header t) k) = Inr jh" "h = WebSafeBase64Escape B jh"
    by (auto simp: Jwt_CreateHeader_def ProtoStructToJsonString_def encode_defs split: sum.splits)
  have s: "str_split dot (h @ [dot] @ EncodePayload B p) = [h, EncodePayload B p]"
    using str_split_two escape_no_dot [OF B] jh(2) by (simp add: encode_defs)
  have "JsonStringToProtoStruct J jh = Inr (jwt_header alg (rj_type_header t) k)"
    using J(2) jh(1) by (simp add: json_inverse_def JsonStringToProtoStruct_def)
  then show ?thesis unfolding decode_token_def Let_def s
    using jwt_header_valid [OF k(2), of alg "rj_type_header t"] k(1) jh(2) strict_unescape [OF B] FromJson_printed [OF typed J(1) p]
    by (simp add: encode_defs jwt_header_type)
qed

section \<open>One key\<close>

text \<open>A way of signing: what a signing key signs, its verification keys accept.\<close>

locale jwt_scheme =
  fixes sign :: "'k \<Rightarrow> bytes \<Rightarrow> bytes StatusOr" and verify :: "'v \<Rightarrow> bytes \<Rightarrow> bytes \<Rightarrow> Status" and pair :: "'k \<Rightarrow> 'v \<Rightarrow> bool"
  assumes correct: "\<lbrakk>pair k v; sign k x = Inr s\<rbrakk> \<Longrightarrow> verify v s x = OkStatus"
begin

lemma encoded_decoded:
  assumes kv: "pair k v" and B: "base64_laws B" and typed: "json_typed (rj_json_proto t)"
    and J: "json_inverse J (rj_json_proto t)" "\<And>h. json_inverse J (jwt_header alg (rj_type_header t) h)"
    and e: "sign_and_encode J B (sign k) alg custom own t kid = Inr text"
  shows "verify_and_decode J B (verify v) alg custom own clock text V kid =
    (case JwtValidator_Validate clock V t of Inl e \<Rightarrow> Inl e | Inr _ \<Rightarrow> Inr \<lparr>vj_raw_jwt = t\<rparr>)"
proof -
  let ?k = "if custom \<noteq> None then custom else kid"
  from e have o: "\<not> (own \<noteq> None \<and> kid \<noteq> own)" and c: "\<not> (custom \<noteq> None \<and> kid \<noteq> None)"
    by (auto simp: sign_and_encode_def split: if_splits)
  from e o c obtain h p s where h: "Jwt_CreateHeader J B alg (rj_type_header t) ?k = Inr h" and p: "GetJsonPayload J t = Inr p"
    and s: "sign k (h @ [dot] @ EncodePayload B p) = Inr s" and tx: "text = (h @ [dot] @ EncodePayload B p) @ dot # EncodeSignature B s"
    unfolding sign_and_encode_def by (auto simp: Let_def split: if_splits sum.splits)
  have "split_last dot text = Some (h @ [dot] @ EncodePayload B p, EncodeSignature B s)"
    unfolding tx by (rule split_last_append) (use escape_no_dot [OF B] in \<open>simp add: encode_defs\<close>)
  then show ?thesis using o decode_encoded [OF B typed J(1) J(2) refl c h p] correct [OF kv s] strict_unescape [OF B]
    by (auto simp: verify_and_decode_def encode_defs)
qed

end

interpretation mac_scheme: jwt_scheme mac_ComputeMac mac_VerifyMac
  "\<lambda>m m'. m' = m \<and> (\<forall>x s. mac_ComputeMac m x = Inr s \<longrightarrow> mac_VerifyMac m s x = OkStatus)"
  by unfold_locales auto

interpretation sig_scheme: jwt_scheme "\<lambda>k :: PublicKeySign. k" "\<lambda>v :: PublicKeyVerify. v"
  "\<lambda>k v. \<forall>x s. k x = Inr s \<longrightarrow> v s x = OkStatus"
  by unfold_locales auto

text \<open>What acceptance means, whatever the key.\<close>

definition jwt_accepted ::
    "Json \<Rightarrow> Base64 \<Rightarrow> (bytes \<Rightarrow> bytes \<Rightarrow> Status) \<Rightarrow> bytes \<Rightarrow> bytes option \<Rightarrow> bytes option \<Rightarrow> Time \<Rightarrow> bytes \<Rightarrow> JwtValidator \<Rightarrow> RawJwt \<Rightarrow> bool" where
  "jwt_accepted J B ver alg custom kid clock text V t \<longleftrightarrow>
     (\<exists>h p s sig jh jp H. text = h @ [dot] @ p @ [dot] @ s \<and> StrictWebSafeBase64Unescape B s = Some sig \<and> ver sig (h @ [dot] @ p) = OkStatus \<and>
        StrictWebSafeBase64Unescape B h = Some jh \<and> JsonToStruct J jh = Some H \<and> fmlookup H (ascii ''alg'') = Some (StringValue alg) \<and>
        fmlookup H (ascii ''crit'') = None \<and> (\<forall>k. kid = Some k \<longrightarrow> fmlookup H (ascii ''kid'') = Some (StringValue k)) \<and>
        (\<forall>k v. custom = Some k \<and> fmlookup H (ascii ''kid'') = Some v \<longrightarrow> v = StringValue k) \<and>
        StrictWebSafeBase64Unescape B p = Some jp \<and> FromJson J (Header_GetTypeHeader H) jp = Inr t \<and> JwtValidator_Validate clock V t = OkStatus)"

lemma string_kind: "kind_case v = kStringValue \<longleftrightarrow> v = StringValue (string_value v)"
  by (cases v) auto

lemma ValidateHeader_ok:
  assumes "ValidateHeader H alg kid custom = OkStatus"
  shows "fmlookup H (ascii ''alg'') = Some (StringValue alg)" "fmlookup H (ascii ''crit'') = None"
    "\<forall>k. kid = Some k \<longrightarrow> fmlookup H (ascii ''kid'') = Some (StringValue k)"
    "\<forall>k v. custom = Some k \<and> fmlookup H (ascii ''kid'') = Some v \<longrightarrow> v = StringValue k"
  using assms by (auto simp: ValidateHeader_def ValidateKidInHeader_def Let_def string_kind split: option.splits if_splits sum.splits)

lemma verify_and_decode_accepted:
  assumes "verify_and_decode J B ver alg custom own clock text V kid = Inr vj"
  shows "jwt_accepted J B ver alg custom kid clock text V (vj_raw_jwt vj)"
proof -
  from assms obtain u s sig where s: "split_last dot text = Some (u, s)" "DecodeSignature B s = Some sig" "ver sig u = OkStatus"
    and d: "decode_token J B alg custom kid u = Inr (vj_raw_jwt vj)" and v: "JwtValidator_Validate clock V (vj_raw_jwt vj) = OkStatus"
    by (auto simp: verify_and_decode_def split: if_splits option.splits prod.splits sum.splits)
  let ?parts = "str_split dot u"
  from d obtain jh H jp where p: "length ?parts = 2" "DecodeHeader B (?parts ! 0) = Some jh" "JsonToStruct J jh = Some H"
    "ValidateHeader H alg kid custom = OkStatus" "DecodePayload B (?parts ! 1) = Some jp" "FromJson J (Header_GetTypeHeader H) jp = Inr (vj_raw_jwt vj)"
    by (auto simp: decode_token_def Let_def JsonStringToProtoStruct_def split: if_splits option.splits sum.splits)
  have u: "u = ?parts ! 0 @ [dot] @ ?parts ! 1" by (rule str_split_join [OF p(1)])
  have t: "text = ?parts ! 0 @ [dot] @ ?parts ! 1 @ [dot] @ s" using split_last_join [OF s(1)] u by (metis append.assoc)
  show ?thesis unfolding jwt_accepted_def
    by (rule exI [of _ "?parts ! 0"], rule exI [of _ "?parts ! 1"], rule exI [of _ s], rule exI [of _ sig], rule exI [of _ jh], rule exI [of _ jp],
        rule exI [of _ H]) (use t s u [symmetric] p v ValidateHeader_ok [OF p(4)] in \<open>simp add: encode_defs\<close>)
qed

text \<open>All keys that accept a text return the same token.\<close>

lemma decode_token_unique:
  "decode_token J B a c k u = Inr t \<Longrightarrow> decode_token J B a' c' k' u = Inr t' \<Longrightarrow> t = t'"
  by (auto simp: decode_token_def Let_def split: if_splits option.splits sum.splits)

lemma verify_and_decode_unique:
  "verify_and_decode J B ver a c own clock text V k = Inr x \<Longrightarrow> verify_and_decode J B ver' a' c' own' clock text V k' = Inr y \<Longrightarrow> x = y"
  by (auto simp: verify_and_decode_def split: if_splits option.splits prod.splits sum.splits dest: decode_token_unique)

section \<open>Keysets\<close>

lemma jwt_verify_loop_found:
  assumes "x \<in> set es" and "f x = Inr r" and "\<And>y r'. y \<in> set es \<Longrightarrow> f y = Inr r' \<Longrightarrow> r' = r"
  shows "\<exists>y \<in> set es. jwt_verify_loop f es i = (Inr r, Some y) \<and> f y = Inr r"
  using assms
proof (induction es arbitrary: i)
  case (Cons z es)
  show ?case
  proof (cases "f z")
    case (Inl e)
    with Cons.prems have "x \<in> set es" by auto
    with Cons.IH [OF this Cons.prems(2)] Cons.prems(3) Inl show ?thesis by auto
  next
    case (Inr r')
    with Cons.prems(3) [of z r'] show ?thesis by auto
  qed
qed simp

lemma jwt_verify_loop_accepts:
  "jwt_verify_loop f es i = (Inr r, found) \<Longrightarrow> \<exists>x \<in> set es. found = Some x \<and> f x = Inr r"
  by (induction es arbitrary: i) (auto split: sum.splits)

lemma jwt_verify_loop_none:
  assumes "\<And>x r. x \<in> set es \<Longrightarrow> f x \<noteq> Inr r"
  shows "\<exists>e. jwt_verify_loop f es i = (Inl e, None)"
  using assms
proof (induction es arbitrary: i)
  case (Cons z es)
  then obtain e where "f z = Inl e" by (cases "f z") auto
  with Cons show ?case by auto
qed simp

text \<open>
  A text that one entry decodes to the token \<open>t\<close>, if the validator accepts \<open>t\<close>: then the loop returns \<open>t\<close> whatever the other
  entries are, and if not, it fails.
\<close>

lemma jwt_loop_result:
  assumes x: "x \<in> set es" and r: "f x = (case JwtValidator_Validate clock V t of Inl e \<Rightarrow> Inl e | Inr _ \<Rightarrow> Inr \<lparr>vj_raw_jwt = t\<rparr>)"
    and same: "\<And>e u. f e = Inr u \<Longrightarrow> u = \<lparr>vj_raw_jwt = t\<rparr> \<and> JwtValidator_Validate clock V t = OkStatus"
  shows "(JwtValidator_Validate clock V t = OkStatus \<longrightarrow> (\<exists>y \<in> set es. jwt_verify_loop f es None = (Inr \<lparr>vj_raw_jwt = t\<rparr>, Some y))) \<and>
    (JwtValidator_Validate clock V t \<noteq> OkStatus \<longrightarrow> (\<exists>e. jwt_verify_loop f es None = (Inl e, None)))"
proof (intro conjI impI)
  assume "JwtValidator_Validate clock V t = OkStatus"
  then have "f x = Inr \<lparr>vj_raw_jwt = t\<rparr>" using r by simp
  from jwt_verify_loop_found [of x es f, OF x this, of None] same
  show "\<exists>y \<in> set es. jwt_verify_loop f es None = (Inr \<lparr>vj_raw_jwt = t\<rparr>, Some y)" by blast
next
  assume "JwtValidator_Validate clock V t \<noteq> OkStatus"
  then show "\<exists>e. jwt_verify_loop f es None = (Inl e, None)" using jwt_verify_loop_none [of es f None] same by blast
qed

text \<open>If the signature of the encoded text is accepted, all keys that accept the text decode it to the token that was encoded.\<close>

lemma encoded_unique:
  assumes B: "base64_laws B" and typed: "json_typed (rj_json_proto t)"
    and J: "json_inverse J (rj_json_proto t)" "\<And>h. json_inverse J (jwt_header alg (rj_type_header t) h)"
    and e: "sign_and_encode J B sg alg custom own t kid = Inr text"
    and v: "verify_and_decode J B ver alg' custom' own' clock text V kid' = Inr u"
  shows "u = \<lparr>vj_raw_jwt = t\<rparr> \<and> JwtValidator_Validate clock V t = OkStatus"
proof -
  let ?k = "if custom \<noteq> None then custom else kid"
  from e have c: "\<not> (custom \<noteq> None \<and> kid \<noteq> None)" by (auto simp: sign_and_encode_def split: if_splits)
  from e c obtain h p s where h: "Jwt_CreateHeader J B alg (rj_type_header t) ?k = Inr h" and p: "GetJsonPayload J t = Inr p"
    and tx: "text = (h @ [dot] @ EncodePayload B p) @ dot # EncodeSignature B s"
    unfolding sign_and_encode_def by (auto simp: Let_def split: if_splits sum.splits)
  have "split_last dot text = Some (h @ [dot] @ EncodePayload B p, EncodeSignature B s)"
    unfolding tx by (rule split_last_append) (use escape_no_dot [OF B] in \<open>simp add: encode_defs\<close>)
  with v have d: "decode_token J B alg' custom' kid' (h @ [dot] @ EncodePayload B p) = Inr (vj_raw_jwt u)"
    and ok: "JwtValidator_Validate clock V (vj_raw_jwt u) = OkStatus"
    by (auto simp: verify_and_decode_def split: if_splits option.splits sum.splits)
  from decode_token_unique [OF d decode_encoded [OF B typed J(1) J(2) refl c h p]] ok show ?thesis by (cases u) simp
qed

text \<open>
  (C39) Tokens with a MAC round trip through keysets. A token made with the builder is encoded and authenticated with the primary key of a keyset. Every keyset that
  has this key, with its id and prefix type, as one of its enabled keys, decodes the text to exactly the token, claims and
  type header included, if the validator accepts the token, whatever its other keys are; if the validator rejects the token, verification fails. The text
  is never taken for another token.
\<close>

theorem jwt_mac_roundtrip:
  assumes B: "base64_laws B" and cs: "CallSetAudiences [] \<notin> set cs" and t: "RawJwtBuilder_Build (builder_run J cs) = Inr t"
    and w: "JwtMacWrapper_Wrap env (Some S) = Inr w" and w': "JwtMacWrapper_Wrap env' (Some S') = Inr w'"
    and p: "get_primary S = Some p" and e: "e \<in> set (get_all (hash_order env') S')" "pe_primitive e = pe_primitive p"
      "pe_key_id e = pe_key_id p" "pe_output_prefix_type e = pe_output_prefix_type p"
    and mac: "\<forall>x s. mac_ComputeMac (mi_mac (pe_primitive p)) x = Inr s \<longrightarrow> mac_VerifyMac (mi_mac (pe_primitive p)) s x = OkStatus"
    and J: "json_inverse J (rj_json_proto t)" "\<forall>h. json_inverse J (jwt_header (mi_algorithm (pe_primitive p)) (rj_type_header t) h)"
    and enc_text: "ComputeMacAndEncode J B w t = Some (Inr token_text, lg)"
  shows "(JwtValidator_Validate clock V t = OkStatus \<longrightarrow> fst (VerifyMacAndDecode J B w' clock token_text V) = Inr \<lparr>vj_raw_jwt = t\<rparr>) \<and>
    (JwtValidator_Validate clock V t \<noteq> OkStatus \<longrightarrow> isl (fst (VerifyMacAndDecode J B w' clock token_text V)))"
proof -
  let ?m = "pe_primitive p" and ?kid = "\<lambda>e. GetKid B (pe_key_id e) (pe_output_prefix_type e)"
  let ?f = "\<lambda>e. VerifyMacAndDecodeWithKid J B (pe_primitive e) clock token_text V (?kid e)"
  have sw: "jm_set w = S" "jm_set w' = S'" "jm_order w' = hash_order env'"
    using w w' by (auto simp: JwtMacWrapper_Wrap_def Let_def split: sum.splits option.splits)
  have typed: "json_typed (rj_json_proto t)" by (rule Build_typed [OF cs t])
  have enc: "sign_and_encode J B (mac_ComputeMac (mi_mac ?m)) (mi_algorithm ?m) (mi_custom_kid ?m) (mi_kid ?m) t (?kid p) = Inr token_text"
    using enc_text p sw(1) by (simp add: ComputeMacAndEncode_def ComputeMacAndEncodeWithKid_def Let_def)
  have J2: "\<And>h. json_inverse J (jwt_header (mi_algorithm ?m) (rj_type_header t) h)" using J(2) by blast
  have pair: "mi_mac ?m = mi_mac ?m \<and> (\<forall>x s. mac_ComputeMac (mi_mac ?m) x = Inr s \<longrightarrow> mac_VerifyMac (mi_mac ?m) s x = OkStatus)" using mac by blast
  have r: "?f e = (case JwtValidator_Validate clock V t of Inl e \<Rightarrow> Inl e | Inr _ \<Rightarrow> Inr \<lparr>vj_raw_jwt = t\<rparr>)"
    using mac_scheme.encoded_decoded [OF pair B typed J(1) J2 enc] e(2-4) by (simp add: VerifyMacAndDecodeWithKid_def)
  have f: "?f e = verify_and_decode J B (mac_VerifyMac (mi_mac (pe_primitive e))) (mi_algorithm (pe_primitive e)) (mi_custom_kid (pe_primitive e))
      (mi_kid (pe_primitive e)) clock token_text V (?kid e)" for e by (simp add: VerifyMacAndDecodeWithKid_def)
  have same: "u = \<lparr>vj_raw_jwt = t\<rparr> \<and> JwtValidator_Validate clock V t = OkStatus" if "?f x = Inr u" for x u
    using encoded_unique [OF B typed J(1) J2 enc that [unfolded f]] .
  let ?es = "get_all (hash_order env') S'"
  have "(JwtValidator_Validate clock V t = OkStatus \<longrightarrow> (\<exists>y \<in> set ?es. jwt_verify_loop ?f ?es None = (Inr \<lparr>vj_raw_jwt = t\<rparr>, Some y))) \<and>
    (JwtValidator_Validate clock V t \<noteq> OkStatus \<longrightarrow> (\<exists>e. jwt_verify_loop ?f ?es None = (Inl e, None)))"
    by (rule jwt_loop_result [where f = ?f, OF e(1) r]) (rule same)
  with sw show ?thesis by (auto simp: VerifyMacAndDecode_def)
qed

text \<open>The same for signatures, with the primary private key of one keyset and its public key in another.\<close>

theorem jwt_signature_roundtrip:
  assumes B: "base64_laws B" and cs: "CallSetAudiences [] \<notin> set cs" and t: "RawJwtBuilder_Build (builder_run J cs) = Inr t"
    and w: "JwtPublicKeySignWrapper_Wrap env (Some S) = Inr w" and w': "JwtPublicKeyVerifyWrapper_Wrap env' (Some S') = Inr w'"
    and p: "get_primary S = Some p" and e: "e \<in> set (get_all (hash_order env') S')" "pe_key_id e = pe_key_id p"
      "pe_output_prefix_type e = pe_output_prefix_type p" "vi_algorithm (pe_primitive e) = si_algorithm (pe_primitive p)"
      "vi_custom_kid (pe_primitive e) = si_custom_kid (pe_primitive p)" "vi_kid (pe_primitive e) = si_kid (pe_primitive p)"
    and sig: "\<forall>x s. si_sign (pe_primitive p) x = Inr s \<longrightarrow> vi_verify (pe_primitive e) s x = OkStatus"
    and J: "json_inverse J (rj_json_proto t)" "\<forall>h. json_inverse J (jwt_header (si_algorithm (pe_primitive p)) (rj_type_header t) h)"
    and enc_text: "SignAndEncode J B w t = Some (Inr token_text, lg)"
  shows "(JwtValidator_Validate clock V t = OkStatus \<longrightarrow> fst (VerifyAndDecode J B w' clock token_text V) = Inr \<lparr>vj_raw_jwt = t\<rparr>) \<and>
    (JwtValidator_Validate clock V t \<noteq> OkStatus \<longrightarrow> isl (fst (VerifyAndDecode J B w' clock token_text V)))"
proof -
  let ?m = "pe_primitive p" and ?kid = "\<lambda>e. GetKid B (pe_key_id e) (pe_output_prefix_type e)" and ?kid' = "\<lambda>e. GetKid B (pe_key_id e) (pe_output_prefix_type e)"
  let ?f = "\<lambda>e. VerifyAndDecodeWithKid J B (pe_primitive e) clock token_text V (?kid' e)"
  have sw: "js_set w = S" "jp_set w' = S'" "jp_order w' = hash_order env'"
    using w w' by (auto simp: JwtPublicKeySignWrapper_Wrap_def JwtPublicKeyVerifyWrapper_Wrap_def Let_def split: sum.splits option.splits)
  have typed: "json_typed (rj_json_proto t)" by (rule Build_typed [OF cs t])
  have enc: "sign_and_encode J B (si_sign ?m) (si_algorithm ?m) (si_custom_kid ?m) (si_kid ?m) t (?kid p) = Inr token_text"
    using enc_text p sw(1) by (simp add: SignAndEncode_def SignAndEncodeWithKid_def Let_def)
  have J2: "\<And>h. json_inverse J (jwt_header (si_algorithm ?m) (rj_type_header t) h)" using J(2) by blast
  have r: "?f e = (case JwtValidator_Validate clock V t of Inl e \<Rightarrow> Inl e | Inr _ \<Rightarrow> Inr \<lparr>vj_raw_jwt = t\<rparr>)"
    using sig_scheme.encoded_decoded [OF sig B typed J(1) J2 enc] e(2-) by (simp add: VerifyAndDecodeWithKid_def)
  have f: "?f e = verify_and_decode J B (vi_verify (pe_primitive e)) (vi_algorithm (pe_primitive e)) (vi_custom_kid (pe_primitive e))
      (vi_kid (pe_primitive e)) clock token_text V (?kid' e)" for e by (simp add: VerifyAndDecodeWithKid_def)
  have same: "u = \<lparr>vj_raw_jwt = t\<rparr> \<and> JwtValidator_Validate clock V t = OkStatus" if "?f x = Inr u" for x u
    using encoded_unique [OF B typed J(1) J2 enc that [unfolded f]] .
  let ?es = "get_all (hash_order env') S'"
  have "(JwtValidator_Validate clock V t = OkStatus \<longrightarrow> (\<exists>y \<in> set ?es. jwt_verify_loop ?f ?es None = (Inr \<lparr>vj_raw_jwt = t\<rparr>, Some y))) \<and>
    (JwtValidator_Validate clock V t \<noteq> OkStatus \<longrightarrow> (\<exists>e. jwt_verify_loop ?f ?es None = (Inl e, None)))"
    by (rule jwt_loop_result [where f = ?f, OF e(1) r]) (rule same)
  with sw show ?thesis by (auto simp: VerifyAndDecode_def)
qed

text \<open>The key id in the header of a token of a TINK key is that of the key.\<close>

lemma kid_roundtrip: "base64_laws B \<Longrightarrow> GetKid B key TINK = Some kid \<Longrightarrow> GetKeyId B kid = Some key"
  using LoadBigEndian32_Store [of key "[]"] by (auto simp: GetKid_def GetKeyId_def strict_unescape StoreBigEndian32_def)

text \<open>
  (C40) What the verifier of a keyset accepts. If verification returns a token, then some enabled key of the keyset verified the signature over
  the header and the payload; the header names the algorithm of this key, has no critical extensions and, for a TINK key, the id of the key, and a custom key id if it
  has one and the key does; the token is exactly what the payload and the header say; and the validator accepted it. The monitoring
  client is told of the same key.
\<close>

theorem jwt_verify_sound:
  assumes w: "JwtPublicKeyVerifyWrapper_Wrap env (Some S) = Inr w" and v: "VerifyAndDecode J B w clock token_text V = (Inr vj, lg)"
  shows "\<exists>e \<in> set (get_all (hash_order env) S). lg = log_to (jp_client w) (Log (pe_key_id e) 1) \<and>
    (\<exists>h p s sig jh jp H. token_text = h @ [dot] @ p @ [dot] @ s \<and> DecodeSignature B s = Some sig \<and>
       vi_verify (pe_primitive e) sig (h @ [dot] @ p) = OkStatus \<and> DecodeHeader B h = Some jh \<and> JsonToStruct J jh = Some H \<and>
       fmlookup H (ascii ''alg'') = Some (StringValue (vi_algorithm (pe_primitive e))) \<and> fmlookup H (ascii ''crit'') = None \<and>
       (pe_output_prefix_type e = TINK \<longrightarrow>
          fmlookup H (ascii ''kid'') = Some (StringValue (WebSafeBase64Escape B (StoreBigEndian32 (pe_key_id e))))) \<and>
       (\<forall>k x. vi_custom_kid (pe_primitive e) = Some k \<and> fmlookup H (ascii ''kid'') = Some x \<longrightarrow> x = StringValue k) \<and>
       DecodePayload B p = Some jp \<and> FromJson J (Header_GetTypeHeader H) jp = Inr (vj_raw_jwt vj) \<and>
       JwtValidator_Validate clock V (vj_raw_jwt vj) = OkStatus)"
proof -
  have sw: "jp_set w = S" "jp_order w = hash_order env"
    using w by (auto simp: JwtPublicKeyVerifyWrapper_Wrap_def Let_def split: sum.splits option.splits)
  let ?f = "\<lambda>e. VerifyAndDecodeWithKid J B (pe_primitive e) clock token_text V (GetKid B (pe_key_id e) (pe_output_prefix_type e))"
  obtain found where l: "jwt_verify_loop ?f (get_all (hash_order env) S) None = (Inr vj, found)" and lg: "lg = jwt_log (jp_client w) found"
    using v sw by (auto simp: VerifyAndDecode_def split: prod.splits)
  from jwt_verify_loop_accepts [OF l] obtain e where e: "e \<in> set (get_all (hash_order env) S)" "found = Some e" "?f e = Inr vj" by blast
  from verify_and_decode_accepted [OF e(3) [unfolded VerifyAndDecodeWithKid_def]]
  obtain h p s sig jh jp H where a: "token_text = h @ [dot] @ p @ [dot] @ s" "DecodeSignature B s = Some sig"
       "vi_verify (pe_primitive e) sig (h @ [dot] @ p) = OkStatus" "DecodeHeader B h = Some jh" "JsonToStruct J jh = Some H"
       "fmlookup H (ascii ''alg'') = Some (StringValue (vi_algorithm (pe_primitive e)))" "fmlookup H (ascii ''crit'') = None"
       "\<forall>k. GetKid B (pe_key_id e) (pe_output_prefix_type e) = Some k \<longrightarrow> fmlookup H (ascii ''kid'') = Some (StringValue k)"
       "\<forall>k x. vi_custom_kid (pe_primitive e) = Some k \<and> fmlookup H (ascii ''kid'') = Some x \<longrightarrow> x = StringValue k"
       "DecodePayload B p = Some jp" "FromJson J (Header_GetTypeHeader H) jp = Inr (vj_raw_jwt vj)"
       "JwtValidator_Validate clock V (vj_raw_jwt vj) = OkStatus"
    unfolding jwt_accepted_def encode_defs by blast
  have k: "pe_output_prefix_type e = TINK \<longrightarrow> fmlookup H (ascii ''kid'') = Some (StringValue (WebSafeBase64Escape B (StoreBigEndian32 (pe_key_id e))))"
    using a(8) by (simp add: GetKid_def)
  show ?thesis
    by (rule bexI [OF _ e(1)], rule conjI, (simp add: lg e(2) jwt_log_def), intro exI conjI) (rule a k)+
qed

section \<open>Samples\<close>

text \<open>An encoding with the letters a and b that satisfies the laws of Base64, and a keyset with one TINK key.\<close>

fun unary_decode :: "nat \<Rightarrow> bytes \<Rightarrow> bytes option" where
  "unary_decode n [] = (if n = 0 then Some [] else None)"
| "unary_decode n (c # cs) = (if c = 97 then unary_decode (Suc n) cs else map_option ((#) (word_of_nat n)) (unary_decode 0 cs))"

definition unary_base64 :: Base64 where
  "unary_base64 = \<lparr>WebSafeBase64Escape = (\<lambda>x. concat (map (\<lambda>b. replicate (unat b) 97 @ [98]) x)), WebSafeBase64Unescape = unary_decode 0\<rparr>"

lemma unary_decode_run: "unary_decode n (replicate k 97 @ 98 # xs) = map_option ((#) (word_of_nat (n + k))) (unary_decode 0 xs)"
  by (induction k arbitrary: n) (simp_all add: add.assoc)

lemma unary_base64_laws: "base64_laws unary_base64"
proof -
  have "unary_decode 0 (concat (map (\<lambda>b. replicate (unat b) 97 @ [98]) x)) = Some x" for x :: bytes
    by (induction x) (simp_all add: unary_decode_run)
  moreover have "list_all isValidUrlsafeBase64Char (concat (map (\<lambda>b. replicate (unat b) 97 @ [98]) x))" for x :: bytes
    by (induction x) (auto simp: isValidUrlsafeBase64Char_def list_all_iff)
  ultimately show ?thesis by (simp add: base64_laws_def unary_base64_def)
qed

lemma table_json_inverse: "length ss \<le> 256 \<Longrightarrow> json_inverse (table_json ss) s"
  unfolding json_inverse_def table_json_def
  by (auto simp: find_Some_iff unat_of_nat split: option.splits)

definition sample_jwt_entry :: "'p \<Rightarrow> 'p PEntry" where
  "sample_jwt_entry p = \<lparr>pe_address = 0, pe_primitive = p, pe_identifier = [], pe_key_id = 7, pe_status = ENABLED, pe_output_prefix_type = TINK,
     pe_key_type_url = []\<rparr>"

definition sample_jwt_set :: "'p \<Rightarrow> 'p PrimitiveSet" where
  "sample_jwt_set p = \<lparr>ps_primary = Some (sample_jwt_entry p), is_mutable = False, ps_primitives = [[] \<mapsto> [sample_jwt_entry p]],
     ps_in_keyset_order = [sample_jwt_entry p], ps_annotations = []\<rparr>"

definition sample_jwt_env :: "unit wrap_env" where
  "sample_jwt_env = \<lparr>MonitoringClientFactory_New = None, hash_order = [[]], OutputPrefixType_Name = (\<lambda>_. [])\<rparr>"

definition sample_jwt_json :: Json where
  "sample_jwt_json = table_json [rj_json_proto sample_token, jwt_header [72] None (GetKid unary_base64 7 TINK)]"

definition sample_jwt_mac :: JwtMacImpl where
  "sample_jwt_mac = JwtMacImpl_Raw \<lparr>mac_ComputeMac = ComputeMac sample_ssl \<lparr>hm_hash_type = SHA256, hm_tag_size = 16, hm_key = replicate 16 1\<rparr>,
     mac_VerifyMac = VerifyMac sample_ssl \<lparr>hm_hash_type = SHA256, hm_tag_size = 16, hm_key = replicate 16 1\<rparr>\<rparr> [72]"

lemma sample_hmac:
  "\<exists>s. ComputeMac sample_ssl \<lparr>hm_hash_type = SHA256, hm_tag_size = 16, hm_key = replicate 16 1\<rparr> x = Inr s"
  "ComputeMac sample_ssl \<lparr>hm_hash_type = SHA256, hm_tag_size = 16, hm_key = replicate 16 1\<rparr> x = Inr s \<Longrightarrow>
     VerifyMac sample_ssl \<lparr>hm_hash_type = SHA256, hm_tag_size = 16, hm_key = replicate 16 1\<rparr> s x = OkStatus"
proof -
  show "\<exists>s. ComputeMac sample_ssl \<lparr>hm_hash_type = SHA256, hm_tag_size = 16, hm_key = replicate 16 1\<rparr> x = Inr s"
    by (simp add: ComputeMac_def EvpHashFromHashType_def sample_ssl_def)
  have "HmacBoringSsl_New sample_ssl (\<lambda>_. OkStatus) SHA256 16 (replicate 16 1) = Inr \<lparr>hm_hash_type = SHA256, hm_tag_size = 16, hm_key = replicate 16 1\<rparr>"
    by (simp add: HmacBoringSsl_New_def EvpHashFromHashType_def sample_ssl_def)
  from HMAC_verifies [OF sample_ssl_laws(3) this] show
    "ComputeMac sample_ssl \<lparr>hm_hash_type = SHA256, hm_tag_size = 16, hm_key = replicate 16 1\<rparr> x = Inr s \<Longrightarrow>
     VerifyMac sample_ssl \<lparr>hm_hash_type = SHA256, hm_tag_size = 16, hm_key = replicate 16 1\<rparr> s x = OkStatus" by blast
qed

lemma sample_jwt_simps:
  "get_primary (sample_jwt_set p) = Some (sample_jwt_entry p)" "get_all (hash_order sample_jwt_env) (sample_jwt_set p) = [sample_jwt_entry p]"
  "pe_primitive (sample_jwt_entry p) = p" "pe_key_id (sample_jwt_entry p) = 7" "pe_output_prefix_type (sample_jwt_entry p) = TINK"
  "MonitoringClientFactory_New sample_jwt_env = None"
  by (simp_all add: get_primary_def get_all_def sample_jwt_set_def sample_jwt_env_def sample_jwt_entry_def)

lemma sample_jwt_encoded:
  assumes "\<And>x. \<exists>s. sg x = Inr s"
  shows "\<exists>token_text. sign_and_encode sample_jwt_json unary_base64 sg [72] None None sample_token (GetKid unary_base64 7 TINK) = Inr token_text"
proof -
  let ?h = "jwt_header [72] None (GetKid unary_base64 7 TINK)"
  have "rj_type_header sample_token = None" by (simp add: sample_token_def)
  moreover have "\<exists>x. StructToJson sample_jwt_json ?h = Inr x" "\<exists>x. StructToJson sample_jwt_json (rj_json_proto sample_token) = Inr x"
    by (simp_all add: sample_jwt_json_def table_json_def upt_rec)
  ultimately obtain x y where "StructToJson sample_jwt_json ?h = Inr x" "StructToJson sample_jwt_json (rj_json_proto sample_token) = Inr y"
    "rj_type_header sample_token = None" by blast
  moreover obtain s where "sg (WebSafeBase64Escape unary_base64 x @ dot # WebSafeBase64Escape unary_base64 y) = Inr s" using assms by blast
  ultimately show ?thesis
    by (simp add: sign_and_encode_def Jwt_CreateHeader_def ProtoStructToJsonString_def GetJsonPayload_def Let_def encode_defs)
qed

lemma sample_jwt_valid: "JwtValidator_Validate (7 * ticks) (JwtValidator_of sample_validator_builder) sample_token = OkStatus"
proof -
  have n: "([9] :: bytes) \<noteq> kJwtClaimIssuer" "([9] :: bytes) \<noteq> kJwtClaimExpiration" "([9] :: bytes) \<noteq> kJwtClaimNotBefore" "([9] :: bytes) \<noteq> kJwtClaimAudience"
    by (simp_all add: jwt_name_defs ascii_def)
  then show ?thesis
    by (simp add: JwtValidator_Validate_def ValidateTimestamps_def ValidateTypeHeader_def ValidateIssuer_def ValidateAudiences_def validator_now_def Let_def
        JwtValidator_of_def sample_validator_builder_def SetClockSkew_def ExpectAudience_def ExpectIssuer_def JwtValidatorBuilder_new_def
        sample_token_def HasExpiration_def GetExpiration_def HasNotBefore_def HasTypeHeader_def HasIssuer_def GetIssuer_def HasAudiences_def
        GetAudiences_def has_claim_def get_claim_def TimestampToTime_def truncate_number_def kJwtTimestampMax_def FromUnixSeconds_def ticks_def)
qed

theorem jwt_mac_roundtrip_witness:
  "\<exists>w token_text lg. JwtMacWrapper_Wrap sample_jwt_env (Some (sample_jwt_set sample_jwt_mac)) = Inr w \<and>
     ComputeMacAndEncode sample_jwt_json unary_base64 w sample_token = Some (Inr token_text, lg) \<and>
     fst (VerifyMacAndDecode sample_jwt_json unary_base64 w (7 * ticks) token_text (JwtValidator_of sample_validator_builder)) = Inr \<lparr>vj_raw_jwt = sample_token\<rparr>"
proof -
  let ?S = "sample_jwt_set sample_jwt_mac" and ?p = "sample_jwt_entry sample_jwt_mac"
  obtain w where w: "JwtMacWrapper_Wrap sample_jwt_env (Some ?S) = Inr w" "jm_set w = ?S"
    by (simp add: JwtMacWrapper_Wrap_def JwtMac_Validate_def jwt_prefixes_ok_def sample_jwt_simps)
  obtain token_text where c: "sign_and_encode sample_jwt_json unary_base64 (mac_ComputeMac (mi_mac sample_jwt_mac)) [72] None None sample_token
      (GetKid unary_base64 7 TINK) = Inr token_text"
    using sample_jwt_encoded sample_hmac(1) by (auto simp: sample_jwt_mac_def JwtMacImpl_Raw_def)
  have m: "mi_algorithm sample_jwt_mac = [72]" "mi_custom_kid sample_jwt_mac = None" "mi_kid sample_jwt_mac = None"
    by (simp_all add: sample_jwt_mac_def JwtMacImpl_Raw_def)
  obtain lg where e: "ComputeMacAndEncode sample_jwt_json unary_base64 w sample_token = Some (Inr token_text, lg)"
    using c m w(2) by (simp add: ComputeMacAndEncode_def ComputeMacAndEncodeWithKid_def sample_jwt_simps)
  have mac: "\<forall>x s. mac_ComputeMac (mi_mac (pe_primitive ?p)) x = Inr s \<longrightarrow> mac_VerifyMac (mi_mac (pe_primitive ?p)) s x = OkStatus"
    using sample_hmac(2) by (simp add: sample_jwt_simps sample_jwt_mac_def JwtMacImpl_Raw_def)
  have J: "json_inverse sample_jwt_json s" for s unfolding sample_jwt_json_def by (rule table_json_inverse) simp
  have t: "CallSetAudiences [] \<notin> set sample_calls" by (simp add: sample_calls_def)
  from jwt_mac_roundtrip [OF unary_base64_laws t sample_token_built w(1) w(1) _ _ _ _ _ mac J _ e, of ?p "7 * ticks" "JwtValidator_of sample_validator_builder"]
  show ?thesis using w(1) e J sample_jwt_valid by (auto simp: sample_jwt_simps)
qed

definition sample_jwt_signer :: JwtPublicKeySignImpl where
  "sample_jwt_signer = JwtPublicKeySignImpl_Raw (\<lambda>x. Inr [5]) [72]"

definition sample_jwt_verifier :: JwtPublicKeyVerifyImpl where
  "sample_jwt_verifier = JwtPublicKeyVerifyImpl_Raw (\<lambda>s x. if s = [5] then OkStatus else Inl kInvalidArgument) [72]"

theorem jwt_verify_sound_witness:
  "\<exists>w token_text. JwtPublicKeyVerifyWrapper_Wrap sample_jwt_env (Some (sample_jwt_set sample_jwt_verifier)) = Inr w \<and>
     fst (VerifyAndDecode sample_jwt_json unary_base64 w (7 * ticks) token_text (JwtValidator_of sample_validator_builder)) = Inr \<lparr>vj_raw_jwt = sample_token\<rparr> \<and>
     (\<exists>h p s. token_text = h @ [dot] @ p @ [dot] @ s \<and> DecodeSignature unary_base64 s = Some [5])"
proof -
  let ?S = "sample_jwt_set sample_jwt_signer" and ?p = "sample_jwt_entry sample_jwt_signer" and ?e = "sample_jwt_entry sample_jwt_verifier"
  let ?S' = "sample_jwt_set sample_jwt_verifier" and ?V = "JwtValidator_of sample_validator_builder"
  obtain w where w: "JwtPublicKeySignWrapper_Wrap sample_jwt_env (Some ?S) = Inr w" "js_set w = ?S"
    by (simp add: JwtPublicKeySignWrapper_Wrap_def JwtMac_Validate_def jwt_prefixes_ok_def sample_jwt_simps)
  obtain w' where w': "JwtPublicKeyVerifyWrapper_Wrap sample_jwt_env (Some ?S') = Inr w'"
    by (simp add: JwtPublicKeyVerifyWrapper_Wrap_def JwtVerify_Validate_def jwt_prefixes_ok_def sample_jwt_simps)
  have m: "si_sign sample_jwt_signer = (\<lambda>x. Inr [5])" "si_algorithm sample_jwt_signer = [72]" "si_custom_kid sample_jwt_signer = None" "si_kid sample_jwt_signer = None"
    "vi_verify sample_jwt_verifier s x = (if s = [5] then OkStatus else Inl kInvalidArgument)" "vi_algorithm sample_jwt_verifier = [72]"
    "vi_custom_kid sample_jwt_verifier = None" "vi_kid sample_jwt_verifier = None" for s x
    by (simp_all add: sample_jwt_signer_def JwtPublicKeySignImpl_Raw_def sample_jwt_verifier_def JwtPublicKeyVerifyImpl_Raw_def)
  obtain token_text where c: "sign_and_encode sample_jwt_json unary_base64 (\<lambda>x. Inr [5]) [72] None None sample_token (GetKid unary_base64 7 TINK) = Inr token_text"
    using sample_jwt_encoded [of "\<lambda>x. Inr [5]"] by auto
  obtain lg where e: "SignAndEncode sample_jwt_json unary_base64 w sample_token = Some (Inr token_text, lg)"
    using c m w(2) by (simp add: SignAndEncode_def SignAndEncodeWithKid_def sample_jwt_simps)
  have J: "json_inverse sample_jwt_json s" for s unfolding sample_jwt_json_def by (rule table_json_inverse) simp
  have t: "CallSetAudiences [] \<notin> set sample_calls" by (simp add: sample_calls_def)
  from jwt_signature_roundtrip [where clock = "7 * ticks" and V = ?V and p = ?p and e = ?e, OF unary_base64_laws t sample_token_built w(1) w' _ _ _ _ _ _ _ _ J _ e]
  have r: "fst (VerifyAndDecode sample_jwt_json unary_base64 w' (7 * ticks) token_text ?V) = Inr \<lparr>vj_raw_jwt = sample_token\<rparr>"
    using sample_jwt_valid J by (simp add: sample_jwt_simps m)
  then obtain lg' where v: "VerifyAndDecode sample_jwt_json unary_base64 w' (7 * ticks) token_text ?V = (Inr \<lparr>vj_raw_jwt = sample_token\<rparr>, lg')"
    by (cases "VerifyAndDecode sample_jwt_json unary_base64 w' (7 * ticks) token_text ?V") simp
  from jwt_verify_sound [OF w' v] obtain h p s sig where "token_text = h @ [dot] @ p @ [dot] @ s" "DecodeSignature unary_base64 s = Some sig"
    "vi_verify sample_jwt_verifier sig (h @ [dot] @ p) = OkStatus" by (auto simp: sample_jwt_simps)
  with r w' show ?thesis by (auto simp: m split: if_splits)
qed

end
