(* ===== verification/Key_Serialization.thy ===== *)
theory Key_Serialization
  imports Keyset_Handle Primitive_Set
begin

text \<open>
  What the key classes and their proto serializations share (\<^verbatim>\<open>tink/*/*_key.cc\<close>, \<^verbatim>\<open>*_parameters.cc\<close>,
  \<^verbatim>\<open>internal/*_proto_serialization_impl.cc\<close>): variants and output prefixes, hash types, conversions
  between \<^verbatim>\<open>int\<close>, \<^verbatim>\<open>uint32_t\<close> and \<^verbatim>\<open>size_t\<close>, the serialization of parameters as a key template, and the
  interface of a format: what it parses is valid, and what is valid and can be written is parsed
  back. The theories of the key classes provide the formats.

  \<^verbatim>\<open>int\<close> values are integers; a value that is stored is in the range of \<^verbatim>\<open>int\<close> (\<open>is_int\<close>), and the
  conversions wrap. A token for secret key access is a truth value. Serialization returns an option:
  \<open>None\<close> is a failed check of the message serializer, which aborts the process.
\<close>

section \<open>Shared definitions\<close>

subsection \<open>Status, integers and message access\<close>

definition with_ok :: "'a StatusOr \<Rightarrow> ('a \<Rightarrow> 'b StatusOr) \<Rightarrow> 'b StatusOr" where
  "with_ok r f = (case r of Inl e \<Rightarrow> Inl e | Inr v \<Rightarrow> f v)"

definition is_int :: "int \<Rightarrow> bool" where
  "is_int i \<longleftrightarrow> - (2 ^ 31) \<le> i \<and> i < 2 ^ 31"

definition int_of_uint32 :: "u32 \<Rightarrow> int" where
  "int_of_uint32 w = sint w"

definition int_of_size :: "nat \<Rightarrow> int" where
  "int_of_size n = sint (word_of_nat n :: u32)"

definition uint32_of_int :: "int \<Rightarrow> u32" where
  "uint32_of_int i = word_of_int i"

text \<open>\<^verbatim>\<open>MessageField::value\<close>: the message, or the default one if none is set.\<close>

definition sub_at :: "message \<Rightarrow> nat \<Rightarrow> message \<Rightarrow> message" where
  "sub_at m i d = value_or d (message_at m i)"

subsection \<open>Variants\<close>

text \<open>
  The \<^verbatim>\<open>Variant\<close> enums of the parameters classes: \<open>kLegacy\<close> exists only for MACs, and \<open>kOtherVariant\<close>
  is any other value, as \<^verbatim>\<open>kDoNotUseInsteadUseDefaultWhenWritingSwitchStatements\<close>.
\<close>

datatype Variant = kTink | kCrunchy | kLegacy | kNoPrefix | kOtherVariant

definition supported_variants :: "Variant list" where
  "supported_variants = [kTink, kCrunchy, kNoPrefix]"

definition Mac_supported_variants :: "Variant list" where
  "Mac_supported_variants = [kTink, kCrunchy, kLegacy, kNoPrefix]"

definition HasIdRequirement :: "Variant \<Rightarrow> bool" where
  "HasIdRequirement v \<longleftrightarrow> v \<noteq> kNoPrefix"

text \<open>The conversions of the AEADs and the deterministic AEAD; legacy prefixes are read as crunchy.\<close>

fun ToVariant :: "OutputPrefixType \<Rightarrow> Variant StatusOr" where
  "ToVariant LEGACY = Inr kCrunchy"
| "ToVariant CRUNCHY = Inr kCrunchy"
| "ToVariant RAW = Inr kNoPrefix"
| "ToVariant TINK = Inr kTink"
| "ToVariant _ = Inl kInvalidArgument"

fun ToOutputPrefixType :: "Variant \<Rightarrow> OutputPrefixType StatusOr" where
  "ToOutputPrefixType kCrunchy = Inr CRUNCHY"
| "ToOutputPrefixType kNoPrefix = Inr RAW"
| "ToOutputPrefixType kTink = Inr TINK"
| "ToOutputPrefixType _ = Inl kInvalidArgument"

fun Mac_ToVariant :: "OutputPrefixType \<Rightarrow> Variant StatusOr" where
  "Mac_ToVariant CRUNCHY = Inr kCrunchy"
| "Mac_ToVariant LEGACY = Inr kLegacy"
| "Mac_ToVariant RAW = Inr kNoPrefix"
| "Mac_ToVariant TINK = Inr kTink"
| "Mac_ToVariant _ = Inl kInvalidArgument"

fun Mac_ToOutputPrefixType :: "Variant \<Rightarrow> OutputPrefixType StatusOr" where
  "Mac_ToOutputPrefixType kCrunchy = Inr CRUNCHY"
| "Mac_ToOutputPrefixType kLegacy = Inr LEGACY"
| "Mac_ToOutputPrefixType kNoPrefix = Inr RAW"
| "Mac_ToOutputPrefixType kTink = Inr TINK"
| "Mac_ToOutputPrefixType _ = Inl kInvalidArgument"

definition prefix_with_id :: "byte \<Rightarrow> u32 option \<Rightarrow> bytes StatusOr" where
  "prefix_with_id b id_requirement =
     (case id_requirement of None \<Rightarrow> Inl kInvalidArgument | Some i \<Rightarrow> Inr (ComputeOutputPrefix b i))"

fun Key_ComputeOutputPrefix :: "Variant \<Rightarrow> u32 option \<Rightarrow> bytes StatusOr" where
  "Key_ComputeOutputPrefix kNoPrefix _ = Inr []"
| "Key_ComputeOutputPrefix kCrunchy i = prefix_with_id 0 i"
| "Key_ComputeOutputPrefix kTink i = prefix_with_id 1 i"
| "Key_ComputeOutputPrefix _ _ = Inl kInvalidArgument"

fun Mac_ComputeOutputPrefix :: "Variant \<Rightarrow> u32 option \<Rightarrow> bytes StatusOr" where
  "Mac_ComputeOutputPrefix kNoPrefix _ = Inr []"
| "Mac_ComputeOutputPrefix kLegacy i = prefix_with_id 0 i"
| "Mac_ComputeOutputPrefix kCrunchy i = prefix_with_id 0 i"
| "Mac_ComputeOutputPrefix kTink i = prefix_with_id 1 i"
| "Mac_ComputeOutputPrefix _ _ = Inl kInvalidArgument"

subsection \<open>Hash types\<close>

datatype KeyHashType = kSha1 | kSha224 | kSha256 | kSha384 | kSha512 | kOtherHash

datatype HashTypeTP = kUnknownHashTP | kSha1TP | kSha384TP | kSha256TP | kSha512TP | kSha224TP | kOtherHashTP u32

definition HashTypeTP_IsValid :: "u32 \<Rightarrow> bool" where
  "HashTypeTP_IsValid v \<longleftrightarrow> v \<le> 5"

fun HashTypeTP_value :: "HashTypeTP \<Rightarrow> u32" where
  "HashTypeTP_value kUnknownHashTP = 0"
| "HashTypeTP_value kSha1TP = 1"
| "HashTypeTP_value kSha384TP = 2"
| "HashTypeTP_value kSha256TP = 3"
| "HashTypeTP_value kSha512TP = 4"
| "HashTypeTP_value kSha224TP = 5"
| "HashTypeTP_value (kOtherHashTP v) = v"

definition HashTypeTP_of :: "u32 \<Rightarrow> HashTypeTP" where
  "HashTypeTP_of v = (if v = 0 then kUnknownHashTP else if v = 1 then kSha1TP else if v = 2 then kSha384TP
     else if v = 3 then kSha256TP else if v = 4 then kSha512TP else if v = 5 then kSha224TP else kOtherHashTP v)"

fun ToHashType :: "HashTypeTP \<Rightarrow> KeyHashType StatusOr" where
  "ToHashType kSha1TP = Inr kSha1"
| "ToHashType kSha224TP = Inr kSha224"
| "ToHashType kSha256TP = Inr kSha256"
| "ToHashType kSha384TP = Inr kSha384"
| "ToHashType kSha512TP = Inr kSha512"
| "ToHashType _ = Inl kInvalidArgument"

fun ToProtoHashType :: "KeyHashType \<Rightarrow> HashTypeTP StatusOr" where
  "ToProtoHashType kSha1 = Inr kSha1TP"
| "ToProtoHashType kSha224 = Inr kSha224TP"
| "ToProtoHashType kSha256 = Inr kSha256TP"
| "ToProtoHashType kSha384 = Inr kSha384TP"
| "ToProtoHashType kSha512 = Inr kSha512TP"
| "ToProtoHashType kOtherHash = Inl kInvalidArgument"

text \<open>The largest tag for a hash function (\<open>None\<close>: not a supported hash type).\<close>

fun max_tag_size :: "KeyHashType \<Rightarrow> int option" where
  "max_tag_size kSha1 = Some 20"
| "max_tag_size kSha224 = Some 28"
| "max_tag_size kSha256 = Some 32"
| "max_tag_size kSha384 = Some 48"
| "max_tag_size kSha512 = Some 64"
| "max_tag_size kOtherHash = None"

subsection \<open>Keys with an output prefix\<close>

text \<open>
  The members of the key classes: parameters, the secret (for most classes its bytes), id requirement
  and output prefix. The classes without an id requirement (PRFs, streaming AEADs) hold the first two.
\<close>

record ('p, 'b) SymmetricKey =
  key_parameters :: 'p
  key_bytes :: 'b
  id_requirement :: "u32 option"
  key_output_prefix :: bytes

record 'p RawKey =
  raw_parameters :: 'p
  raw_key_bytes :: bytes

text \<open>The end of the \<^verbatim>\<open>Create\<close> functions: the id requirement has to fit the variant.\<close>

definition create_with_id ::
    "(Variant \<Rightarrow> u32 option \<Rightarrow> bytes StatusOr) \<Rightarrow> Variant \<Rightarrow> 'p \<Rightarrow> 'b \<Rightarrow> u32 option \<Rightarrow>
     ('p, 'b) SymmetricKey StatusOr" where
  "create_with_id compute_prefix v p kb i =
     (if HasIdRequirement v \<and> i = None then Inl kInvalidArgument
      else if \<not> HasIdRequirement v \<and> i \<noteq> None then Inl kInvalidArgument
      else with_ok (compute_prefix v i)
        (\<lambda>output_prefix. Inr \<lparr>key_parameters = p, key_bytes = kb, id_requirement = i, key_output_prefix = output_prefix\<rparr>))"

subsection \<open>Serialized parameters\<close>

text \<open>A \<^verbatim>\<open>ProtoParametersSerialization\<close> holds a key template.\<close>

definition ProtoParametersSerialization_Create ::
    "bytes \<Rightarrow> OutputPrefixType \<Rightarrow> bytes \<Rightarrow> KeyTemplate StatusOr" where
  "ProtoParametersSerialization_Create url prefix serialized_proto =
     (if \<not> IsPrintableAscii url then Inl kInvalidArgument
      else Inr \<lparr>kt_type_url = url, kt_value = serialized_proto, kt_output_prefix_type = prefix\<rparr>)"

definition ProtoParametersSerialization_Create_template :: "KeyTemplate \<Rightarrow> KeyTemplate StatusOr" where
  "ProtoParametersSerialization_Create_template key_template =
     (if \<not> IsPrintableAscii (kt_type_url key_template) then Inl kInvalidArgument else Inr key_template)"

text \<open>The calls that end the serializers: of parameters and of a symmetric key.\<close>

definition parameters_serialization ::
    "crc_fns \<Rightarrow> (nat \<Rightarrow> byte) \<Rightarrow> bytes \<Rightarrow> OutputPrefixType \<Rightarrow> message \<Rightarrow> KeyTemplate StatusOr option" where
  "parameters_serialization C junk url prefix m =
     map_option (ProtoParametersSerialization_Create url prefix) (SerializeAsString C junk m)"

definition key_serialization ::
    "crc_fns \<Rightarrow> (nat \<Rightarrow> byte) \<Rightarrow> bytes \<Rightarrow> OutputPrefixType \<Rightarrow> u32 option \<Rightarrow> message \<Rightarrow> ProtoKeySerialization StatusOr option" where
  "key_serialization C junk url prefix i m =
     map_option (\<lambda>s. ProtoKeySerialization_Create url (sd_buffer s) SYMMETRIC prefix i) (SerializeAsSecretData C junk m)"


section \<open>Lemmas\<close>

declare uint_at.simps [simp del] bytes_at.simps [simp del] message_at.simps [simp del]

lemmas access_defs = uint_at.simps bytes_at.simps message_at.simps sub_at_def value_or_def

named_theorems message_defs \<open>definitions of the messages of key classes\<close>

lemma with_ok_simps [simp]: "with_ok (Inl e) f = Inl e" "with_ok (Inr v) f = f v"
  by (simp_all add: with_ok_def)

lemma with_ok_Inr [simp]: "with_ok r f = Inr y \<longleftrightarrow> (\<exists>v. r = Inr v \<and> f v = Inr y)"
  by (cases r) simp_all

lemma sint_word_of_int [simp]: "is_int i \<Longrightarrow> int_of_uint32 (uint32_of_int i) = i"
  by (simp add: is_int_def int_of_uint32_def uint32_of_int_def signed_of_int signed_take_bit_int_eq_self)

lemma int_of_uint32_is_int [simp]: "is_int (int_of_uint32 w)"
  using sint_range_size [of w] by (simp add: is_int_def int_of_uint32_def word_size)

lemma int_of_size_is_int [simp]: "is_int (int_of_size n)"
  using int_of_uint32_is_int by (simp add: int_of_size_def int_of_uint32_def)

lemma int_of_size_int: "is_int (int n) \<Longrightarrow> int_of_size n = int n"
  using sint_word_of_int [of "int n"] by (simp add: int_of_size_def int_of_uint32_def uint32_of_int_def)

lemma hash_roundtrip:
  "ToProtoHashType h = Inr t \<Longrightarrow> ToHashType (HashTypeTP_of (HashTypeTP_value t)) = Inr h \<and> HashTypeTP_IsValid (HashTypeTP_value t)"
  by (cases h) (auto simp: HashTypeTP_of_def HashTypeTP_IsValid_def)

lemma ToHashType_supported: "ToHashType t = Inr h \<Longrightarrow> \<exists>t'. ToProtoHashType h = Inr t'"
  by (cases t) auto

lemma max_tag_size_proto: "max_tag_size h = Some n \<Longrightarrow> \<exists>t. ToProtoHashType h = Inr t"
  by (cases h) auto

lemma variant_roundtrip: "ToOutputPrefixType v = Inr p \<Longrightarrow> ToVariant p = Inr v \<and> (p = RAW \<longleftrightarrow> v = kNoPrefix)"
  by (cases v) auto

lemma Mac_variant_roundtrip:
  "Mac_ToOutputPrefixType v = Inr p \<Longrightarrow> Mac_ToVariant p = Inr v \<and> (p = RAW \<longleftrightarrow> v = kNoPrefix)"
  by (cases v) auto

lemma supported_prefix: "v \<in> set supported_variants \<Longrightarrow> \<exists>p. ToOutputPrefixType v = Inr p"
  by (auto simp: supported_variants_def)

lemma Mac_supported_prefix: "v \<in> set Mac_supported_variants \<Longrightarrow> \<exists>p. Mac_ToOutputPrefixType v = Inr p"
  by (auto simp: Mac_supported_variants_def)

subsection \<open>Sizes of messages\<close>

lemma bit_width_le: "bit_width (w :: 'a::len word) \<le> LENGTH('a)"
  using unsigned_less [of w] by (simp add: bit_width_def bit_width_nat_le_iff)

lemma VarintLength_bound: "VarintLength w \<le> 10"
  using bit_width_le [of w] div_le_mono [of "bit_width w + 6" 70 7] by (simp add: VarintLength_def Let_def)

lemma tag_bytes_le: "valid_field_number n \<Longrightarrow> known_wire_type t \<Longrightarrow> length (tag_bytes t n) \<le> 10"
  using bit_width_le [of n] by (simp add: tag_bytes_length WireTypeAndFieldNumberLength_def)

lemma length_delimited_le: "valid_field_number n \<Longrightarrow> length (length_delimited n bs) \<le> length bs + 20"
  using tag_bytes_le [of n kLengthDelimited] VarintLength_bound [of "word_of_nat (length bs)"]
  by (simp add: length_delimited_def varint_bytes_length)

lemma field_bytes_le:
  "valid_field_number n \<Longrightarrow> length (field_bytes (Uint32Field n options v)) \<le> 20"
  "valid_field_number n \<Longrightarrow> length (field_bytes (EnumField n is_valid d options v)) \<le> 20"
  "valid_field_number n \<Longrightarrow> length (field_bytes (SecretDataField n options (Some (SecretDataFromStringView C kv)))) \<le> length kv + 20"
  "valid_field_number n \<Longrightarrow> length (field_bytes (BytesField n options (Some bs))) \<le> length bs + 20"
  "valid_field_number n \<Longrightarrow> length (field_bytes (MessageField n options proto (Some m))) \<le> length (message_bytes m) + 20"
  using tag_bytes_le [of n kVarint] VarintLength_bound length_delimited_le [of n]
  by (auto simp: varint_bytes_length intro: order_trans add_mono)

subsection \<open>Serializing and parsing a message\<close>

lemma ParseFromString_message_bytes:
  assumes "wf_message C m" and "length (message_bytes m) < 2 ^ 32" and "Message_Clear m0 = Message_Clear m"
  shows "ParseFromString C m0 (message_bytes m) = Some m"
  using ParseFromStringImpl_message_bytes [OF assms, of None] by (auto simp: ParseFromString_def)

lemma parameters_roundtripI:
  assumes "wf_message C m" and "IsPrintableAscii url" and "Message_Clear blank = Message_Clear m" and "length (message_bytes m) < 2 ^ 32"
    and "serialize C junk p = parameters_serialization C junk url prefix m"
    and "\<And>t. kt_type_url t = url \<Longrightarrow> kt_output_prefix_type t = prefix \<Longrightarrow> ParseFromString C blank (kt_value t) = Some m \<Longrightarrow>
      parse C t = Inr p"
  shows "\<exists>t. serialize C junk p = Some (Inr t) \<and> parse C t = Inr p"
  using assms ParseFromString_message_bytes [OF assms(1,4,3)]
  by (simp add: parameters_serialization_def SerializeAsString_bytes ProtoParametersSerialization_Create_def)

lemma key_roundtripI:
  assumes "crc_laws C" and "wf_message C m" and "IsPrintableAscii url" and "Message_Clear blank = Message_Clear m"
    and "length (message_bytes m) < 2 ^ 32" and "prefix = RAW \<longleftrightarrow> i = None"
    and "serialize C junk k = key_serialization C junk url prefix i m"
    and "\<And>s. pks_type_url s = url \<Longrightarrow> pks_output_prefix_type s = prefix \<Longrightarrow> pks_id_requirement s = i \<Longrightarrow>
      ParseFromString C blank (pks_serialized_key s) = Some m \<Longrightarrow> parse C s = Inr k"
  shows "\<exists>s. serialize C junk k = Some (Inr s) \<and> parse C s = Inr k"
  using assms ParseFromString_message_bytes [OF assms(2,5,4)]
  by (simp add: key_serialization_def SerializeAsSecretData_bytes ProtoKeySerialization_Create_def)

text \<open>What \<^verbatim>\<open>ProtoKeySerialization::Create\<close> returns.\<close>

definition wf_serialization :: "ProtoKeySerialization \<Rightarrow> bool" where
  "wf_serialization s \<longleftrightarrow> IsPrintableAscii (pks_type_url s) \<and> (pks_output_prefix_type s = RAW \<longleftrightarrow> pks_id_requirement s = None)"

lemma key_serialization_shape:
  "key_serialization C junk url prefix i m = Some (Inr s) \<Longrightarrow>
     pks_type_url s = url \<and> pks_key_material_type s = SYMMETRIC \<and> wf_serialization s"
  by (auto simp: key_serialization_def ProtoKeySerialization_Create_def wf_serialization_def split: if_splits)

lemma keyset_key_roundtrip:
  assumes "wf_serialization s" and "CreateKeysetKeyFromProtoKeySerialization s i st = Inr key"
  shows "ToProtoKeySerialization key = Inr s \<and> key_id key = i \<and> status key = st"
  using assms
  by (auto simp: CreateKeysetKeyFromProtoKeySerialization_def ToKeysetKey_def ToProtoKeySerialization_def
      ProtoKeySerialization_Create_def wf_serialization_def get_key_data_def value_or_def split: option.split_asm if_split_asm)


subsection \<open>Created keys\<close>

lemma create_with_id_Inr:
  "create_with_id compute_prefix v p kb i = Inr k \<Longrightarrow>
     key_parameters k = p \<and> key_bytes k = kb \<and> id_requirement k = i \<and> (i = None \<longleftrightarrow> v = kNoPrefix)"
  by (auto simp: create_with_id_def HasIdRequirement_def split: if_splits)

lemma valid_created:
  assumes "create_with_id compute_prefix v p kb i = Inr k"
  shows "create_with_id compute_prefix v (key_parameters k) (key_bytes k) (id_requirement k) = Inr k"
  using assms create_with_id_Inr [OF assms] by simp

lemma is_int_small [simp]: "0 \<le> i \<Longrightarrow> i < 2 ^ 31 \<Longrightarrow> is_int i"
  by (simp add: is_int_def)

lemma key_fits: "l \<le> n + k \<Longrightarrow> is_int (int n) \<Longrightarrow> k < 2 ^ 30 \<Longrightarrow> l < 2 ^ 32"
  by (simp add: is_int_def)


section \<open>Interfaces\<close>

text \<open>
  A format: what is parsed is valid and can be written, and what is valid, can be written and fits
  into a message is parsed back. \<open>crc_fns\<close> and the contents of fresh buffers are arguments of every
  operation.
\<close>

locale proto_format =
  fixes parse :: "crc_fns \<Rightarrow> 's \<Rightarrow> 'k StatusOr"
    and serialize :: "crc_fns \<Rightarrow> (nat \<Rightarrow> byte) \<Rightarrow> 'k \<Rightarrow> 's StatusOr option"
    and valid :: "'k \<Rightarrow> bool"
    and writable :: "'k \<Rightarrow> bool"
    and fits :: "'k \<Rightarrow> bool"
  assumes parse_valid: "parse C s = Inr k \<Longrightarrow> valid k \<and> writable k"
    and serialize_parse: "crc_laws C \<Longrightarrow> valid k \<Longrightarrow> writable k \<Longrightarrow> fits k \<Longrightarrow>
      \<exists>s. serialize C junk k = Some (Inr s) \<and> parse C s = Inr k"
begin

lemma reparse:
  assumes "crc_laws C" and "parse C s = Inr k" and "fits k"
  shows "\<exists>s'. serialize C junk k = Some (Inr s') \<and> parse C s' = Inr k"
  using serialize_parse assms parse_valid by blast

lemma serialize_injective:
  assumes "crc_laws C" and "valid k" "writable k" "fits k" and "valid k'" "writable k'" "fits k'"
    and "serialize C junk k = serialize C junk k'"
  shows "k = k'"
  using serialize_parse [OF assms(1-4), of junk] serialize_parse [OF assms(1,5-7), of junk] assms(8) by auto

end

text \<open>
  The format of a class of secret keys: it has a type URL, and both directions need a token for
  secret key access.
\<close>

locale secret_key_format = proto_format "\<lambda>C s. ParseKey C s True" "\<lambda>C junk k. SerializeKey C junk k True" valid writable fits
  for ParseKey :: "crc_fns \<Rightarrow> ProtoKeySerialization \<Rightarrow> bool \<Rightarrow> 'k StatusOr"
    and SerializeKey :: "crc_fns \<Rightarrow> (nat \<Rightarrow> byte) \<Rightarrow> 'k \<Rightarrow> bool \<Rightarrow> ProtoKeySerialization StatusOr option"
    and valid writable fits +
  fixes url :: bytes
  assumes parse_token: "\<exists>e. ParseKey C s False = Inl e"
    and serialize_token: "\<exists>e. SerializeKey C junk k False = Some (Inl e)"
    and parse_url: "ParseKey C s True = Inr k \<Longrightarrow> pks_type_url s = url"
    and serialize_url: "SerializeKey C junk k True = Some (Inr s) \<Longrightarrow>
      pks_type_url s = url \<and> pks_key_material_type s = SYMMETRIC \<and> wf_serialization s"
begin

lemma token_needed:
  "ParseKey C s t = Inr k \<Longrightarrow> t"
  "SerializeKey C junk k t = Some (Inr s') \<Longrightarrow> t"
  using parse_token [of C s] serialize_token [of C junk k] by (metis Inl_Inr_False option.inject)+

end

end
