(* ===== verification/Mac_Keys.thy ===== *)
theory Mac_Keys
  imports Key_Serialization
begin

text \<open>
  HMAC and AES-CMAC keys: \<^verbatim>\<open>tink/mac/hmac_parameters.cc\<close>, \<^verbatim>\<open>hmac_key.cc\<close>, \<^verbatim>\<open>aes_cmac_parameters.cc\<close>,
  \<^verbatim>\<open>aes_cmac_key.cc\<close>, the proto serializations of \<^verbatim>\<open>tink/mac/internal/\<close>, and the messages of
  \<^verbatim>\<open>proto/hmac.tinkpb.h\<close>, which the AEAD with HMAC uses as well.
\<close>

section \<open>HMAC\<close>

record HmacParameters =
  hmac_key_size :: int
  hmac_tag_size :: int
  hmac_hash_type :: KeyHashType
  hmac_variant :: Variant

definition ValidateTagSizeBytes :: "int \<Rightarrow> KeyHashType \<Rightarrow> Status" where
  "ValidateTagSizeBytes tag_size h =
     (if tag_size < 10 then Inl kInvalidArgument
      else case max_tag_size h of
        None \<Rightarrow> Inl kInvalidArgument
      | Some largest \<Rightarrow> if tag_size > largest then Inl kInvalidArgument else OkStatus)"

definition HmacParameters_Create :: "int \<Rightarrow> int \<Rightarrow> KeyHashType \<Rightarrow> Variant \<Rightarrow> HmacParameters StatusOr" where
  "HmacParameters_Create key_size tag_size h v =
     (if key_size < 16 then Inl kInvalidArgument
      else with_ok (ValidateTagSizeBytes tag_size h) (\<lambda>_.
        if v \<notin> set Mac_supported_variants then Inl kInvalidArgument
        else Inr \<lparr>hmac_key_size = key_size, hmac_tag_size = tag_size, hmac_hash_type = h, hmac_variant = v\<rparr>))"

text \<open>\<open>None\<close> is the fatal error for an unknown variant, which no parameters object has.\<close>

definition total_tag_size :: "int \<Rightarrow> Variant \<Rightarrow> int option" where
  "total_tag_size tag_size v =
     (case v of kNoPrefix \<Rightarrow> Some tag_size | kOtherVariant \<Rightarrow> None | _ \<Rightarrow> Some (tag_size + int kNonRawPrefixSize))"

definition Hmac_TotalTagSizeInBytes :: "HmacParameters \<Rightarrow> int option" where
  "Hmac_TotalTagSizeInBytes p = total_tag_size (hmac_tag_size p) (hmac_variant p)"

type_synonym HmacKey = "(HmacParameters, bytes) SymmetricKey"

definition HmacKey_Create :: "HmacParameters \<Rightarrow> bytes \<Rightarrow> u32 option \<Rightarrow> HmacKey StatusOr" where
  "HmacKey_Create p kb i =
     (if hmac_key_size p \<noteq> int (length kb) then Inl kInvalidArgument
      else create_with_id Mac_ComputeOutputPrefix (hmac_variant p) p kb i)"

definition Hmac_TypeUrl :: bytes where
  "Hmac_TypeUrl = ascii ''type.googleapis.com/google.crypto.tink.HmacKey''"

definition HmacParamsTP :: "HashTypeTP \<times> u32 \<Rightarrow> message" where [message_defs]:
  "HmacParamsTP = (\<lambda>(h, tag_size).
     [EnumField 1 HashTypeTP_IsValid 0 kImplicit (Some (HashTypeTP_value h)), Uint32Field 2 kImplicit (Some tag_size)])"

abbreviation HmacParams_blank :: message where
  "HmacParams_blank \<equiv> HmacParamsTP (kUnknownHashTP, 0)"

definition HmacKeyFormatTP :: "(HashTypeTP \<times> u32) option \<Rightarrow> u32 \<Rightarrow> u32 \<Rightarrow> message" where [message_defs]:
  "HmacKeyFormatTP params key_size version =
     [MessageField 1 kExplicit HmacParams_blank (map_option HmacParamsTP params),
      Uint32Field 2 kImplicit (Some key_size), Uint32Field 3 kImplicit (Some version)]"

definition HmacKeyTP :: "crc_fns \<Rightarrow> u32 \<Rightarrow> (HashTypeTP \<times> u32) option \<Rightarrow> bytes \<Rightarrow> message" where [message_defs]:
  "HmacKeyTP C version params kv =
     [Uint32Field 1 kImplicit (Some version),
      MessageField 2 kExplicit HmacParams_blank (map_option HmacParamsTP params),
      SecretDataField 3 kImplicit (Some (SecretDataFromStringView C kv))]"

definition Hmac_ParseParameters :: "crc_fns \<Rightarrow> KeyTemplate \<Rightarrow> HmacParameters StatusOr" where
  "Hmac_ParseParameters C key_template =
     (if kt_type_url key_template \<noteq> Hmac_TypeUrl then Inl kInvalidArgument
      else case ParseFromString C (HmacKeyFormatTP None 0 0) (kt_value key_template) of
        None \<Rightarrow> Inl kInvalidArgument
      | Some proto_key_format \<Rightarrow>
          let params = sub_at proto_key_format 0 HmacParams_blank
          in if uint_at proto_key_format 2 \<noteq> 0 then Inl kInvalidArgument
             else with_ok (Mac_ToVariant (kt_output_prefix_type key_template))
               (\<lambda>v. with_ok (ToHashType (HashTypeTP_of (uint_at params 0)))
                 (\<lambda>h. HmacParameters_Create (int_of_uint32 (uint_at proto_key_format 1)) (int_of_uint32 (uint_at params 1)) h v)))"

definition Hmac_SerializeParameters :: "crc_fns \<Rightarrow> (nat \<Rightarrow> byte) \<Rightarrow> HmacParameters \<Rightarrow> KeyTemplate StatusOr option" where
  "Hmac_SerializeParameters C junk p =
     (case Mac_ToOutputPrefixType (hmac_variant p) of
        Inl e \<Rightarrow> Some (Inl e)
      | Inr prefix \<Rightarrow>
          case ToProtoHashType (hmac_hash_type p) of
            Inl e \<Rightarrow> Some (Inl e)
          | Inr proto_hash_type \<Rightarrow>
              parameters_serialization C junk Hmac_TypeUrl prefix
                (HmacKeyFormatTP (Some (proto_hash_type, uint32_of_int (hmac_tag_size p))) (uint32_of_int (hmac_key_size p)) 0))"

definition Hmac_ParseKey :: "crc_fns \<Rightarrow> ProtoKeySerialization \<Rightarrow> bool \<Rightarrow> HmacKey StatusOr" where
  "Hmac_ParseKey C s token =
     (if pks_type_url s \<noteq> Hmac_TypeUrl then Inl kInvalidArgument
      else if \<not> token then Inl kInvalidArgument
      else case ParseFromString C (HmacKeyTP C 0 None []) (pks_serialized_key s) of
        None \<Rightarrow> Inl kInvalidArgument
      | Some proto_key \<Rightarrow>
          let params = sub_at proto_key 1 HmacParams_blank
          in if uint_at proto_key 0 \<noteq> 0 then Inl kInvalidArgument
             else with_ok (Mac_ToVariant (pks_output_prefix_type s))
               (\<lambda>v. with_ok (ToHashType (HashTypeTP_of (uint_at params 0)))
                 (\<lambda>h. with_ok (HmacParameters_Create (int_of_size (length (bytes_at proto_key 2))) (int_of_uint32 (uint_at params 1)) h v)
                   (\<lambda>p. HmacKey_Create p (bytes_at proto_key 2) (pks_id_requirement s)))))"

definition Hmac_SerializeKey :: "crc_fns \<Rightarrow> (nat \<Rightarrow> byte) \<Rightarrow> HmacKey \<Rightarrow> bool \<Rightarrow> ProtoKeySerialization StatusOr option" where
  "Hmac_SerializeKey C junk key token =
     (if \<not> token then Some (Inl kInvalidArgument)
      else case ToProtoHashType (hmac_hash_type (key_parameters key)) of
        Inl e \<Rightarrow> Some (Inl e)
      | Inr proto_hash_type \<Rightarrow>
          case Mac_ToOutputPrefixType (hmac_variant (key_parameters key)) of
            Inl e \<Rightarrow> Some (Inl e)
          | Inr prefix \<Rightarrow>
              key_serialization C junk Hmac_TypeUrl prefix (id_requirement key)
                (HmacKeyTP C 0 (Some (proto_hash_type, uint32_of_int (hmac_tag_size (key_parameters key)))) (key_bytes key)))"

definition HmacParameters_valid :: "HmacParameters \<Rightarrow> bool" where
  "HmacParameters_valid p \<longleftrightarrow> is_int (hmac_key_size p) \<and>
     HmacParameters_Create (hmac_key_size p) (hmac_tag_size p) (hmac_hash_type p) (hmac_variant p) = Inr p"

definition HmacKey_valid :: "HmacKey \<Rightarrow> bool" where
  "HmacKey_valid k \<longleftrightarrow> HmacParameters_valid (key_parameters k) \<and>
     HmacKey_Create (key_parameters k) (key_bytes k) (id_requirement k) = Inr k"

subsection \<open>The format of HMAC keys\<close>

lemma blank_hmac_params: "HashTypeTP_IsValid 0" by (simp add: HashTypeTP_IsValid_def)

lemma wf_Hmac [simp]:
  "HashTypeTP_IsValid (HashTypeTP_value h) \<Longrightarrow> wf_message C (HmacKeyFormatTP (Some (h, tag)) ks v)"
  "HashTypeTP_IsValid (HashTypeTP_value h) \<Longrightarrow> wf_message C (HmacKeyTP C v (Some (h, tag)) kv)"
  by (simp_all add: wf_message_def message_defs FieldsAreSorted_def Message_Clear_def blank_hmac_params)

lemma Clear_Hmac [simp]: "Message_Clear (HmacKeyFormatTP params ks v) = HmacKeyFormatTP None 0 0"
    "Message_Clear (HmacKeyTP C v params kv) = HmacKeyTP C 0 None []"
  by (simp_all add: Message_Clear_def message_defs)

lemma Hmac_access [simp]:
  "sub_at (HmacKeyFormatTP (Some params) ks v) 0 d = HmacParamsTP params"
  "uint_at (HmacKeyFormatTP po ks v) (Suc 0) = ks" "uint_at (HmacKeyFormatTP po ks v) 2 = v"
  "uint_at (HmacKeyTP C v po kv) 0 = v" "sub_at (HmacKeyTP C v (Some params) kv) (Suc 0) d = HmacParamsTP params"
  "bytes_at (HmacKeyTP C v po kv) 2 = kv"
  "uint_at (HmacParamsTP (h, tag)) 0 = HashTypeTP_value h" "uint_at (HmacParamsTP (h, tag)) (Suc 0) = tag"
  by (simp_all add: message_defs access_defs)

lemma HmacParamsTP_size: "length (message_bytes (HmacParamsTP params)) \<le> 40"
  by (cases params)
    (use field_bytes_le(2) [of 1 HashTypeTP_IsValid 0 kImplicit "Some (HashTypeTP_value (fst params))"]
        field_bytes_le(1) [of 2 kImplicit "Some (snd params)"] in \<open>simp add: HmacParamsTP_def\<close>)

lemma HmacKeyFormatTP_size: "length (message_bytes (HmacKeyFormatTP (Some params) ks v)) < 2 ^ 32"
  using field_bytes_le(1) [of 2 kImplicit "Some ks"] field_bytes_le(1) [of 3 kImplicit "Some v"] HmacParamsTP_size [of params]
    field_bytes_le(5) [of 1 kExplicit HmacParams_blank "HmacParamsTP params"]
  by (simp add: HmacKeyFormatTP_def)

lemma HmacKeyTP_size: "length (message_bytes (HmacKeyTP C v (Some params) kv)) \<le> length kv + 100"
  using field_bytes_le(1) [of 1 kImplicit "Some v"] field_bytes_le(3) [of 3 kImplicit C kv] HmacParamsTP_size [of params]
    field_bytes_le(5) [of 2 kExplicit HmacParams_blank "HmacParamsTP params"]
  by (simp add: HmacKeyTP_def)

lemma Hmac_url [simp]: "IsPrintableAscii Hmac_TypeUrl"
  by (simp add: Hmac_TypeUrl_def IsPrintableAscii_def ascii_def)

lemma HmacParameters_Create_Inr:
  assumes "HmacParameters_Create ks tag h v = Inr p"
  shows "p = \<lparr>hmac_key_size = ks, hmac_tag_size = tag, hmac_hash_type = h, hmac_variant = v\<rparr> \<and> v \<in> set Mac_supported_variants \<and>
    (\<exists>t. ToProtoHashType h = Inr t) \<and> is_int tag"
proof -
  have r: "p = \<lparr>hmac_key_size = ks, hmac_tag_size = tag, hmac_hash_type = h, hmac_variant = v\<rparr>" "v \<in> set Mac_supported_variants"
    "ValidateTagSizeBytes tag h = OkStatus"
    using assms by (auto simp: HmacParameters_Create_def split: if_split_asm)
  from r(3) obtain n where "max_tag_size h = Some n" "10 \<le> tag" "tag \<le> n"
    by (auto simp: ValidateTagSizeBytes_def split: if_split_asm option.split_asm)
  moreover have "n \<le> 64" using calculation(1) by (cases h) auto
  ultimately show ?thesis using r max_tag_size_proto [of h n] by simp
qed

lemma HmacKey_Create_Inr:
  assumes "HmacKey_Create p kb i = Inr k"
  shows "key_parameters k = p \<and> key_bytes k = kb \<and> id_requirement k = i \<and>
    hmac_key_size p = int (length kb) \<and> (i = None \<longleftrightarrow> hmac_variant p = kNoPrefix)"
proof -
  have c: "hmac_key_size p = int (length kb)" "create_with_id Mac_ComputeOutputPrefix (hmac_variant p) p kb i = Inr k"
    using assms by (simp_all add: HmacKey_Create_def split: if_split_asm)
  from create_with_id_Inr [OF c(2)] c(1) show ?thesis by simp
qed

interpretation hmac_parameters: proto_format Hmac_ParseParameters Hmac_SerializeParameters HmacParameters_valid
  "\<lambda>p. True" "\<lambda>p. True"
proof (unfold_locales, goal_cases)
  case (1 C t p)
  then obtain w tag h v where "HmacParameters_Create (int_of_uint32 w) tag h v = Inr p"
    by (auto simp: Hmac_ParseParameters_def Let_def split: if_split_asm option.split_asm)
  with HmacParameters_Create_Inr [OF this] show ?case by (simp add: HmacParameters_valid_def)
next
  case (2 C p junk)
  then have b: "is_int (hmac_key_size p)" "HmacParameters_Create (hmac_key_size p) (hmac_tag_size p) (hmac_hash_type p) (hmac_variant p) = Inr p"
    by (simp_all add: HmacParameters_valid_def)
  note c = HmacParameters_Create_Inr [OF b(2)]
  from c obtain prefix where prefix: "Mac_ToOutputPrefixType (hmac_variant p) = Inr prefix" using Mac_supported_prefix by blast
  from c obtain t where t: "ToProtoHashType (hmac_hash_type p) = Inr t" by blast
  show ?case
    by (rule parameters_roundtripI [where m = "HmacKeyFormatTP (Some (t, uint32_of_int (hmac_tag_size p))) (uint32_of_int (hmac_key_size p)) 0"
          and blank = "HmacKeyFormatTP None 0 0" and url = Hmac_TypeUrl and prefix = prefix])
      (use b c prefix Mac_variant_roundtrip [OF prefix] t hash_roundtrip [OF t] HmacKeyFormatTP_size in
        \<open>simp_all add: Hmac_SerializeParameters_def Hmac_ParseParameters_def\<close>)
qed

interpretation hmac_key: secret_key_format Hmac_ParseKey Hmac_SerializeKey HmacKey_valid "\<lambda>k. True" "\<lambda>k. True" Hmac_TypeUrl
proof (unfold_locales, goal_cases)
  case (1 C s k)
  then obtain tag h v p kb where b: "HmacParameters_Create (int_of_size (length kb)) tag h v = Inr p"
    and c: "HmacKey_Create p kb (pks_id_requirement s) = Inr k"
    by (auto simp: Hmac_ParseKey_def Let_def split: if_split_asm option.split_asm)
  from b HmacParameters_Create_Inr [OF b] HmacKey_Create_Inr [OF c] c int_of_size_is_int [of "length kb"] show ?case
    by (simp add: HmacKey_valid_def HmacParameters_valid_def)
next
  case (2 C k junk)
  let ?p = "key_parameters k"
  from 2 have b: "is_int (hmac_key_size ?p)"
    "HmacParameters_Create (hmac_key_size ?p) (hmac_tag_size ?p) (hmac_hash_type ?p) (hmac_variant ?p) = Inr ?p"
    and k: "HmacKey_Create ?p (key_bytes k) (id_requirement k) = Inr k"
    by (simp_all add: HmacKey_valid_def HmacParameters_valid_def)
  note c = HmacParameters_Create_Inr [OF b(2)] and l = HmacKey_Create_Inr [OF k]
  from c obtain prefix where prefix: "Mac_ToOutputPrefixType (hmac_variant ?p) = Inr prefix" using Mac_supported_prefix by blast
  from c obtain t where t: "ToProtoHashType (hmac_hash_type ?p) = Inr t" by blast
  show ?case
    by (rule key_roundtripI [where m = "HmacKeyTP C 0 (Some (t, uint32_of_int (hmac_tag_size ?p))) (key_bytes k)"
          and blank = "HmacKeyTP C 0 None []" and url = Hmac_TypeUrl and prefix = prefix and i = "id_requirement k"])
      (use 2 b c k l prefix Mac_variant_roundtrip [OF prefix] t hash_roundtrip [OF t] key_fits [OF HmacKeyTP_size] in
        \<open>simp_all add: Hmac_SerializeKey_def Hmac_ParseKey_def int_of_size_int\<close>)
qed (auto simp: Hmac_ParseKey_def Hmac_SerializeKey_def dest: key_serialization_shape split: if_split_asm sum.split_asm)


section \<open>AES-CMAC\<close>

record AesCmacParameters =
  cmac_key_size :: int
  cmac_tag_size :: int
  cmac_variant :: Variant

definition AesCmacParameters_Create :: "int \<Rightarrow> int \<Rightarrow> Variant \<Rightarrow> AesCmacParameters StatusOr" where
  "AesCmacParameters_Create key_size tag_size v =
     (if key_size \<noteq> 16 \<and> key_size \<noteq> 32 then Inl kInvalidArgument
      else if tag_size < 10 then Inl kInvalidArgument
      else if tag_size > 16 then Inl kInvalidArgument
      else if v \<notin> set Mac_supported_variants then Inl kInvalidArgument
      else Inr \<lparr>cmac_key_size = key_size, cmac_tag_size = tag_size, cmac_variant = v\<rparr>)"

definition AesCmac_TotalTagSizeInBytes :: "AesCmacParameters \<Rightarrow> int option" where
  "AesCmac_TotalTagSizeInBytes p = total_tag_size (cmac_tag_size p) (cmac_variant p)"

type_synonym AesCmacKey = "(AesCmacParameters, bytes) SymmetricKey"

definition AesCmacKey_Create :: "AesCmacParameters \<Rightarrow> bytes \<Rightarrow> u32 option \<Rightarrow> AesCmacKey StatusOr" where
  "AesCmacKey_Create p kb i =
     (if cmac_key_size p \<noteq> int (length kb) then Inl kInvalidArgument
      else create_with_id Mac_ComputeOutputPrefix (cmac_variant p) p kb i)"

definition AesCmac_TypeUrl :: bytes where
  "AesCmac_TypeUrl = ascii ''type.googleapis.com/google.crypto.tink.AesCmacKey''"

definition AesCmacParamProto :: "u32 \<Rightarrow> message" where [message_defs]:
  "AesCmacParamProto tag_size = [Uint32Field 1 kImplicit (Some tag_size)]"

definition AesCmacKeyProto :: "crc_fns \<Rightarrow> u32 \<Rightarrow> bytes option \<Rightarrow> u32 option \<Rightarrow> message" where [message_defs]:
  "AesCmacKeyProto C version kv params =
     [Uint32Field 1 kImplicit (Some version),
      SecretDataField 2 kExplicit (map_option (SecretDataFromStringView C) kv),
      MessageField 3 kExplicit (AesCmacParamProto 0) (map_option AesCmacParamProto params)]"

definition AesCmacKeyFormatProto :: "u32 \<Rightarrow> u32 option \<Rightarrow> message" where [message_defs]:
  "AesCmacKeyFormatProto key_size params =
     [Uint32Field 1 kImplicit (Some key_size),
      MessageField 2 kExplicit (AesCmacParamProto 0) (map_option AesCmacParamProto params)]"

definition AesCmac_ParseParameters :: "crc_fns \<Rightarrow> KeyTemplate \<Rightarrow> AesCmacParameters StatusOr" where
  "AesCmac_ParseParameters C key_template =
     (if kt_type_url key_template \<noteq> AesCmac_TypeUrl then Inl kInvalidArgument
      else case ParseFromString C (AesCmacKeyFormatProto 0 None) (kt_value key_template) of
        None \<Rightarrow> Inl kInvalidArgument
      | Some proto_key_format \<Rightarrow>
          with_ok (Mac_ToVariant (kt_output_prefix_type key_template))
            (\<lambda>v. AesCmacParameters_Create (int_of_uint32 (uint_at proto_key_format 0))
               (int_of_uint32 (uint_at (sub_at proto_key_format 1 (AesCmacParamProto 0)) 0)) v))"

definition AesCmac_SerializeParameters :: "crc_fns \<Rightarrow> (nat \<Rightarrow> byte) \<Rightarrow> AesCmacParameters \<Rightarrow> KeyTemplate StatusOr option" where
  "AesCmac_SerializeParameters C junk p =
     (case Mac_ToOutputPrefixType (cmac_variant p) of
        Inl e \<Rightarrow> Some (Inl e)
      | Inr prefix \<Rightarrow>
          parameters_serialization C junk AesCmac_TypeUrl prefix
            (AesCmacKeyFormatProto (uint32_of_int (cmac_key_size p)) (Some (uint32_of_int (cmac_tag_size p)))))"

definition AesCmac_ParseKey :: "crc_fns \<Rightarrow> ProtoKeySerialization \<Rightarrow> bool \<Rightarrow> AesCmacKey StatusOr" where
  "AesCmac_ParseKey C s token =
     (if pks_type_url s \<noteq> AesCmac_TypeUrl then Inl kInvalidArgument
      else if \<not> token then Inl kInvalidArgument
      else case ParseFromString C (AesCmacKeyProto C 0 None None) (pks_serialized_key s) of
        None \<Rightarrow> Inl kInvalidArgument
      | Some proto_key \<Rightarrow>
          if uint_at proto_key 0 \<noteq> 0 then Inl kInvalidArgument
          else with_ok (Mac_ToVariant (pks_output_prefix_type s))
            (\<lambda>v. with_ok (AesCmacParameters_Create (int_of_size (length (bytes_at proto_key 1)))
                 (int_of_uint32 (uint_at (sub_at proto_key 2 (AesCmacParamProto 0)) 0)) v)
               (\<lambda>p. AesCmacKey_Create p (bytes_at proto_key 1) (pks_id_requirement s))))"

definition AesCmac_SerializeKey :: "crc_fns \<Rightarrow> (nat \<Rightarrow> byte) \<Rightarrow> AesCmacKey \<Rightarrow> bool \<Rightarrow> ProtoKeySerialization StatusOr option" where
  "AesCmac_SerializeKey C junk key token =
     (if \<not> token then Some (Inl kInvalidArgument)
      else case Mac_ToOutputPrefixType (cmac_variant (key_parameters key)) of
        Inl e \<Rightarrow> Some (Inl e)
      | Inr prefix \<Rightarrow>
          key_serialization C junk AesCmac_TypeUrl prefix (id_requirement key)
            (AesCmacKeyProto C 0 (Some (key_bytes key)) (Some (uint32_of_int (cmac_tag_size (key_parameters key))))))"

definition AesCmacParameters_valid :: "AesCmacParameters \<Rightarrow> bool" where
  "AesCmacParameters_valid p \<longleftrightarrow> AesCmacParameters_Create (cmac_key_size p) (cmac_tag_size p) (cmac_variant p) = Inr p"

definition AesCmacKey_valid :: "AesCmacKey \<Rightarrow> bool" where
  "AesCmacKey_valid k \<longleftrightarrow> AesCmacParameters_valid (key_parameters k) \<and>
     AesCmacKey_Create (key_parameters k) (key_bytes k) (id_requirement k) = Inr k"

subsection \<open>The format of AES-CMAC keys\<close>

lemma wf_AesCmac [simp]: "wf_message C (AesCmacKeyFormatProto ks (Some tag))" "wf_message C (AesCmacKeyProto C v (Some kv) (Some tag))"
  by (simp_all add: wf_message_def message_defs FieldsAreSorted_def Message_Clear_def)

lemma Clear_AesCmac [simp]: "Message_Clear (AesCmacKeyFormatProto ks params) = AesCmacKeyFormatProto 0 None"
    "Message_Clear (AesCmacKeyProto C v kv params) = AesCmacKeyProto C 0 None None"
  by (simp_all add: Message_Clear_def message_defs SecretDataField_Clear_def)

lemma AesCmac_access [simp]:
  "uint_at (AesCmacKeyFormatProto ks po) 0 = ks"
  "sub_at (AesCmacKeyFormatProto ks (Some tag)) (Suc 0) d = AesCmacParamProto tag"
  "uint_at (AesCmacKeyProto C v kvo po) 0 = v" "bytes_at (AesCmacKeyProto C v (Some kv) po) (Suc 0) = kv"
  "sub_at (AesCmacKeyProto C v kvo (Some tag)) 2 d = AesCmacParamProto tag" "uint_at (AesCmacParamProto tag) 0 = tag"
  by (simp_all add: message_defs access_defs)

lemma AesCmacKeyFormatProto_size: "length (message_bytes (AesCmacKeyFormatProto ks (Some tag))) < 2 ^ 32"
  using field_bytes_le(1) [of 1 kImplicit "Some ks"] field_bytes_le(1) [of 1 kImplicit "Some tag"]
    field_bytes_le(5) [of 2 kExplicit "AesCmacParamProto 0" "AesCmacParamProto tag"]
  by (simp add: AesCmacKeyFormatProto_def AesCmacParamProto_def)

lemma AesCmacKeyProto_size: "length (message_bytes (AesCmacKeyProto C v (Some kv) (Some tag))) \<le> length kv + 100"
  using field_bytes_le(1) [of 1 kImplicit "Some v"] field_bytes_le(3) [of 2 kExplicit C kv] field_bytes_le(1) [of 1 kImplicit "Some tag"]
    field_bytes_le(5) [of 3 kExplicit "AesCmacParamProto 0" "AesCmacParamProto tag"]
  by (simp add: AesCmacKeyProto_def AesCmacParamProto_def)

lemma AesCmac_url [simp]: "IsPrintableAscii AesCmac_TypeUrl"
  by (simp add: AesCmac_TypeUrl_def IsPrintableAscii_def ascii_def)

lemma AesCmacParameters_Create_Inr:
  assumes "AesCmacParameters_Create ks tag v = Inr p"
  shows "p = \<lparr>cmac_key_size = ks, cmac_tag_size = tag, cmac_variant = v\<rparr> \<and> v \<in> set Mac_supported_variants \<and> is_int ks \<and> is_int tag"
  using assms by (auto simp: AesCmacParameters_Create_def split: if_split_asm)

lemma AesCmacKey_Create_Inr:
  assumes "AesCmacKey_Create p kb i = Inr k"
  shows "key_parameters k = p \<and> key_bytes k = kb \<and> id_requirement k = i \<and>
    cmac_key_size p = int (length kb) \<and> (i = None \<longleftrightarrow> cmac_variant p = kNoPrefix)"
proof -
  have c: "cmac_key_size p = int (length kb)" "create_with_id Mac_ComputeOutputPrefix (cmac_variant p) p kb i = Inr k"
    using assms by (simp_all add: AesCmacKey_Create_def split: if_split_asm)
  from create_with_id_Inr [OF c(2)] c(1) show ?thesis by simp
qed

interpretation aes_cmac_parameters: proto_format AesCmac_ParseParameters AesCmac_SerializeParameters AesCmacParameters_valid
  "\<lambda>p. True" "\<lambda>p. True"
proof (unfold_locales, goal_cases)
  case (1 C t p)
  then obtain ks tag v where "AesCmacParameters_Create ks tag v = Inr p"
    by (auto simp: AesCmac_ParseParameters_def split: if_split_asm option.split_asm)
  with AesCmacParameters_Create_Inr [OF this] show ?case by (simp add: AesCmacParameters_valid_def)
next
  case (2 C p junk)
  then have b: "AesCmacParameters_Create (cmac_key_size p) (cmac_tag_size p) (cmac_variant p) = Inr p"
    by (simp add: AesCmacParameters_valid_def)
  note c = AesCmacParameters_Create_Inr [OF b]
  from c obtain prefix where prefix: "Mac_ToOutputPrefixType (cmac_variant p) = Inr prefix" using Mac_supported_prefix by blast
  show ?case
    by (rule parameters_roundtripI [where blank = "AesCmacKeyFormatProto 0 None" and url = AesCmac_TypeUrl and prefix = prefix
          and m = "AesCmacKeyFormatProto (uint32_of_int (cmac_key_size p)) (Some (uint32_of_int (cmac_tag_size p)))"])
      (use b c prefix Mac_variant_roundtrip [OF prefix] AesCmacKeyFormatProto_size in
        \<open>simp_all add: AesCmac_SerializeParameters_def AesCmac_ParseParameters_def\<close>)
qed

interpretation aes_cmac_key: secret_key_format AesCmac_ParseKey AesCmac_SerializeKey AesCmacKey_valid "\<lambda>k. True" "\<lambda>k. True" AesCmac_TypeUrl
proof (unfold_locales, goal_cases)
  case (1 C s k)
  then obtain ks tag v p kb where b: "AesCmacParameters_Create ks tag v = Inr p"
    and c: "AesCmacKey_Create p kb (pks_id_requirement s) = Inr k"
    by (auto simp: AesCmac_ParseKey_def split: if_split_asm option.split_asm)
  from b AesCmacParameters_Create_Inr [OF b] AesCmacKey_Create_Inr [OF c] c show ?case
    by (simp add: AesCmacKey_valid_def AesCmacParameters_valid_def)
next
  case (2 C k junk)
  let ?p = "key_parameters k"
  from 2 have b: "AesCmacParameters_Create (cmac_key_size ?p) (cmac_tag_size ?p) (cmac_variant ?p) = Inr ?p"
    and k: "AesCmacKey_Create ?p (key_bytes k) (id_requirement k) = Inr k"
    by (simp_all add: AesCmacKey_valid_def AesCmacParameters_valid_def)
  note c = AesCmacParameters_Create_Inr [OF b] and l = AesCmacKey_Create_Inr [OF k]
  from c obtain prefix where prefix: "Mac_ToOutputPrefixType (cmac_variant ?p) = Inr prefix" using Mac_supported_prefix by blast
  show ?case
    by (rule key_roundtripI [where m = "AesCmacKeyProto C 0 (Some (key_bytes k)) (Some (uint32_of_int (cmac_tag_size ?p)))"
          and blank = "AesCmacKeyProto C 0 None None" and url = AesCmac_TypeUrl and prefix = prefix and i = "id_requirement k"])
      (use 2 b c k l prefix Mac_variant_roundtrip [OF prefix] key_fits [OF AesCmacKeyProto_size] in
        \<open>simp_all add: AesCmac_SerializeKey_def AesCmac_ParseKey_def int_of_size_int\<close>)
qed (auto simp: AesCmac_ParseKey_def AesCmac_SerializeKey_def dest: key_serialization_shape split: if_split_asm sum.split_asm)

end
