(* ===== verification/Aead_Keys.thy ===== *)
theory Aead_Keys
  imports Mac_Keys
begin

text \<open>
  AES-GCM, AES-GCM-SIV and AES-EAX keys (\<^verbatim>\<open>tink/aead/\<close>) and AES-SIV keys (\<^verbatim>\<open>tink/daead/\<close>): the parameters and key
  classes, the messages, and the proto serializations of \<^verbatim>\<open>tink/aead/internal/\<close> and \<^verbatim>\<open>tink/daead/internal/\<close>.
  AES-GCM parameters can be written only with an IV of 12 and a tag of 16 bytes, AES-EAX parameters
  only with a tag of 16 bytes.
\<close>

section \<open>AES-GCM\<close>

record AesGcmParameters =
  gcm_key_size :: int
  gcm_iv_size :: int
  gcm_tag_size :: int
  gcm_variant :: Variant

definition AesGcmParameters_Build :: "int \<Rightarrow> int \<Rightarrow> int \<Rightarrow> Variant \<Rightarrow> AesGcmParameters StatusOr" where
  "AesGcmParameters_Build key_size iv_size tag_size v =
     (if key_size \<noteq> 16 \<and> key_size \<noteq> 24 \<and> key_size \<noteq> 32 then Inl kInvalidArgument
      else if iv_size \<le> 0 then Inl kInvalidArgument
      else if tag_size < 12 \<or> 16 < tag_size then Inl kInvalidArgument
      else if v \<notin> set supported_variants then Inl kInvalidArgument
      else Inr \<lparr>gcm_key_size = key_size, gcm_iv_size = iv_size, gcm_tag_size = tag_size, gcm_variant = v\<rparr>)"

type_synonym AesGcmKey = "(AesGcmParameters, bytes) SymmetricKey"

definition AesGcmKey_Create :: "AesGcmParameters \<Rightarrow> bytes \<Rightarrow> u32 option \<Rightarrow> AesGcmKey StatusOr" where
  "AesGcmKey_Create p kb i =
     (if gcm_key_size p \<noteq> int (length kb) then Inl kInvalidArgument
      else create_with_id Key_ComputeOutputPrefix (gcm_variant p) p kb i)"

definition AesGcm_TypeUrl :: bytes where
  "AesGcm_TypeUrl = ascii ''type.googleapis.com/google.crypto.tink.AesGcmKey''"

definition AesGcmKeyFormatTP :: "u32 \<Rightarrow> u32 \<Rightarrow> message" where [message_defs]:
  "AesGcmKeyFormatTP key_size version =
     [Uint32Field 2 kImplicit (Some key_size), Uint32Field 3 kImplicit (Some version)]"

definition AesGcmKeyTP :: "crc_fns \<Rightarrow> u32 \<Rightarrow> bytes option \<Rightarrow> message" where [message_defs]:
  "AesGcmKeyTP C version kv =
     [Uint32Field 1 kImplicit (Some version), SecretDataField 3 kExplicit (map_option (SecretDataFromStringView C) kv)]"

definition AesGcm_ValidateParamsForProto :: "AesGcmParameters \<Rightarrow> Status" where
  "AesGcm_ValidateParamsForProto p =
     (if gcm_iv_size p \<noteq> 12 then Inl kInvalidArgument
      else if gcm_tag_size p \<noteq> 16 then Inl kInvalidArgument
      else OkStatus)"

definition AesGcm_ParseParameters :: "crc_fns \<Rightarrow> KeyTemplate \<Rightarrow> AesGcmParameters StatusOr" where
  "AesGcm_ParseParameters C key_template =
     (if kt_type_url key_template \<noteq> AesGcm_TypeUrl then Inl kInvalidArgument
      else case ParseFromString C (AesGcmKeyFormatTP 0 0) (kt_value key_template) of
        None \<Rightarrow> Inl kInvalidArgument
      | Some proto_key_format \<Rightarrow>
          if uint_at proto_key_format 1 \<noteq> 0 then Inl kInvalidArgument
          else with_ok (ToVariant (kt_output_prefix_type key_template))
            (\<lambda>v. AesGcmParameters_Build (int_of_uint32 (uint_at proto_key_format 0)) 12 16 v))"

definition AesGcm_SerializeParameters :: "crc_fns \<Rightarrow> (nat \<Rightarrow> byte) \<Rightarrow> AesGcmParameters \<Rightarrow> KeyTemplate StatusOr option" where
  "AesGcm_SerializeParameters C junk p =
     (case AesGcm_ValidateParamsForProto p of
        Inl e \<Rightarrow> Some (Inl e)
      | Inr _ \<Rightarrow>
          case ToOutputPrefixType (gcm_variant p) of
            Inl e \<Rightarrow> Some (Inl e)
          | Inr prefix \<Rightarrow>
              parameters_serialization C junk AesGcm_TypeUrl prefix (AesGcmKeyFormatTP (uint32_of_int (gcm_key_size p)) 0))"

definition AesGcm_ParseKey :: "crc_fns \<Rightarrow> ProtoKeySerialization \<Rightarrow> bool \<Rightarrow> AesGcmKey StatusOr" where
  "AesGcm_ParseKey C s token =
     (if pks_type_url s \<noteq> AesGcm_TypeUrl then Inl kInvalidArgument
      else if \<not> token then Inl kInvalidArgument
      else case ParseFromString C (AesGcmKeyTP C 0 None) (pks_serialized_key s) of
        None \<Rightarrow> Inl kInvalidArgument
      | Some proto_key \<Rightarrow>
          if uint_at proto_key 0 \<noteq> 0 then Inl kInvalidArgument
          else with_ok (ToVariant (pks_output_prefix_type s))
            (\<lambda>v. with_ok (AesGcmParameters_Build (int_of_size (length (bytes_at proto_key 1))) 12 16 v)
              (\<lambda>p. AesGcmKey_Create p (bytes_at proto_key 1) (pks_id_requirement s))))"

definition AesGcm_SerializeKey :: "crc_fns \<Rightarrow> (nat \<Rightarrow> byte) \<Rightarrow> AesGcmKey \<Rightarrow> bool \<Rightarrow> ProtoKeySerialization StatusOr option" where
  "AesGcm_SerializeKey C junk key token =
     (case AesGcm_ValidateParamsForProto (key_parameters key) of
        Inl e \<Rightarrow> Some (Inl e)
      | Inr _ \<Rightarrow>
          if \<not> token then Some (Inl kInvalidArgument)
          else case ToOutputPrefixType (gcm_variant (key_parameters key)) of
            Inl e \<Rightarrow> Some (Inl e)
          | Inr prefix \<Rightarrow>
              key_serialization C junk AesGcm_TypeUrl prefix (id_requirement key) (AesGcmKeyTP C 0 (Some (key_bytes key))))"

definition AesGcmParameters_valid :: "AesGcmParameters \<Rightarrow> bool" where
  "AesGcmParameters_valid p \<longleftrightarrow>
     AesGcmParameters_Build (gcm_key_size p) (gcm_iv_size p) (gcm_tag_size p) (gcm_variant p) = Inr p"

definition AesGcmKey_valid :: "AesGcmKey \<Rightarrow> bool" where
  "AesGcmKey_valid k \<longleftrightarrow> AesGcmParameters_valid (key_parameters k) \<and>
     AesGcmKey_Create (key_parameters k) (key_bytes k) (id_requirement k) = Inr k"

subsection \<open>The format of AES-GCM keys\<close>

lemma wf_AesGcm [simp]: "wf_message C (AesGcmKeyFormatTP ks v)" "wf_message C (AesGcmKeyTP C v (Some kv))"
  by (simp_all add: wf_message_def message_defs FieldsAreSorted_def)

lemma Clear_AesGcm [simp]: "Message_Clear (AesGcmKeyFormatTP ks v) = AesGcmKeyFormatTP 0 0"
    "Message_Clear (AesGcmKeyTP C v kv) = AesGcmKeyTP C 0 None"
  by (simp_all add: Message_Clear_def message_defs SecretDataField_Clear_def)

lemma AesGcm_access [simp]:
  "uint_at (AesGcmKeyFormatTP ks v) 0 = ks" "uint_at (AesGcmKeyFormatTP ks v) (Suc 0) = v"
  "uint_at (AesGcmKeyTP C v kvo) 0 = v" "bytes_at (AesGcmKeyTP C v (Some kv)) (Suc 0) = kv"
  by (simp_all add: message_defs access_defs)

lemma AesGcmKeyFormatTP_size: "length (message_bytes (AesGcmKeyFormatTP ks v)) < 2 ^ 32"
  using field_bytes_le(1) [of 2 kImplicit "Some ks"] field_bytes_le(1) [of 3 kImplicit "Some v"]
  by (simp add: message_defs)

lemma AesGcmKeyTP_size: "length (message_bytes (AesGcmKeyTP C v (Some kv))) \<le> length kv + 40"
  using field_bytes_le(1) [of 1 kImplicit "Some v"] field_bytes_le(3) [of 3 kExplicit C kv]
  by (simp add: message_defs)

lemma AesGcm_url [simp]: "IsPrintableAscii AesGcm_TypeUrl"
  by (simp add: AesGcm_TypeUrl_def IsPrintableAscii_def ascii_def)

lemma AesGcmParameters_Create_Inr:
  assumes "AesGcmParameters_Build ks iv tag v = Inr p"
  shows "p = \<lparr>gcm_key_size = ks, gcm_iv_size = iv, gcm_tag_size = tag, gcm_variant = v\<rparr> \<and> v \<in> set supported_variants \<and> is_int ks"
  using assms by (auto simp: AesGcmParameters_Build_def split: if_split_asm)

lemma AesGcmKey_Create_Inr:
  assumes "AesGcmKey_Create p kb i = Inr k"
  shows "key_parameters k = p \<and> key_bytes k = kb \<and> id_requirement k = i \<and>
    gcm_key_size p = int (length kb) \<and> (i = None \<longleftrightarrow> gcm_variant p = kNoPrefix)"
proof -
  have c: "gcm_key_size p = int (length kb)" "create_with_id Key_ComputeOutputPrefix (gcm_variant p) p kb i = Inr k"
    using assms by (simp_all add: AesGcmKey_Create_def split: if_split_asm)
  from create_with_id_Inr [OF c(2)] c(1) show ?thesis by simp
qed

interpretation aes_gcm_parameters: proto_format AesGcm_ParseParameters AesGcm_SerializeParameters AesGcmParameters_valid
  "\<lambda>p. AesGcm_ValidateParamsForProto p = OkStatus" "\<lambda>p. True"
proof (unfold_locales, goal_cases)
  case (1 C t p)
  then obtain ks v where "AesGcmParameters_Build ks 12 16 v = Inr p"
    by (auto simp: AesGcm_ParseParameters_def Let_def split: if_split_asm option.split_asm)
  with AesGcmParameters_Create_Inr [OF this] show ?case by (simp add: AesGcmParameters_valid_def AesGcm_ValidateParamsForProto_def)
next
  case (2 C p junk)
  then have b: "AesGcmParameters_Build (gcm_key_size p) 12 16 (gcm_variant p) = Inr p"
    by (auto simp: AesGcmParameters_valid_def AesGcm_ValidateParamsForProto_def split: if_split_asm)
  note c = AesGcmParameters_Create_Inr [OF b]
  from c obtain prefix where prefix: "ToOutputPrefixType (gcm_variant p) = Inr prefix" using supported_prefix by blast
  show ?case
    by (rule parameters_roundtripI [where blank = "AesGcmKeyFormatTP 0 0" and url = AesGcm_TypeUrl and prefix = prefix
          and m = "AesGcmKeyFormatTP (uint32_of_int (gcm_key_size p)) 0"])
      (use 2 b c prefix variant_roundtrip [OF prefix] AesGcmKeyFormatTP_size in
        \<open>simp_all add: AesGcm_SerializeParameters_def AesGcm_ParseParameters_def AesGcm_ValidateParamsForProto_def\<close>)
qed

interpretation aes_gcm_key: secret_key_format AesGcm_ParseKey AesGcm_SerializeKey AesGcmKey_valid "\<lambda>k. AesGcm_ValidateParamsForProto (key_parameters k) = OkStatus" "\<lambda>k. True" AesGcm_TypeUrl
proof (unfold_locales, goal_cases)
  case (1 C s k)
  then obtain ks v p kb where b: "AesGcmParameters_Build ks 12 16 v = Inr p"
    and c: "AesGcmKey_Create p kb (pks_id_requirement s) = Inr k"
    by (auto simp: AesGcm_ParseKey_def Let_def split: if_split_asm option.split_asm)
  from b AesGcmParameters_Create_Inr [OF b] AesGcmKey_Create_Inr [OF c] c show ?case
    by (simp add: AesGcmKey_valid_def AesGcmParameters_valid_def AesGcm_ValidateParamsForProto_def)
next
  case (2 C k junk)
  let ?p = "key_parameters k"
  from 2 have b: "AesGcmParameters_Build (gcm_key_size ?p) 12 16 (gcm_variant ?p) = Inr ?p"
    and k: "AesGcmKey_Create ?p (key_bytes k) (id_requirement k) = Inr k"
    by (auto simp: AesGcmKey_valid_def AesGcmParameters_valid_def AesGcm_ValidateParamsForProto_def split: if_split_asm)
  note c = AesGcmParameters_Create_Inr [OF b] and l = AesGcmKey_Create_Inr [OF k]
  from c obtain prefix where prefix: "ToOutputPrefixType (gcm_variant ?p) = Inr prefix" using supported_prefix by blast
  show ?case
    by (rule key_roundtripI [where m = "AesGcmKeyTP C 0 (Some (key_bytes k))" and blank = "AesGcmKeyTP C 0 None"
          and url = AesGcm_TypeUrl and prefix = prefix and i = "id_requirement k"])
      (use 2 b c k l prefix variant_roundtrip [OF prefix] key_fits [OF AesGcmKeyTP_size] in
        \<open>simp_all add: AesGcm_SerializeKey_def AesGcm_ParseKey_def int_of_size_int AesGcm_ValidateParamsForProto_def\<close>)
qed (auto simp: AesGcm_ParseKey_def AesGcm_SerializeKey_def AesGcm_ValidateParamsForProto_def dest: key_serialization_shape split: if_split_asm sum.split_asm)

section \<open>AES-GCM-SIV\<close>

record AesGcmSivParameters =
  gcmsiv_key_size :: int
  gcmsiv_variant :: Variant

definition AesGcmSivParameters_Create :: "int \<Rightarrow> Variant \<Rightarrow> AesGcmSivParameters StatusOr" where
  "AesGcmSivParameters_Create key_size v =
     (if key_size \<noteq> 16 \<and> key_size \<noteq> 32 then Inl kInvalidArgument
      else if v \<notin> set supported_variants then Inl kInvalidArgument
      else Inr \<lparr>gcmsiv_key_size = key_size, gcmsiv_variant = v\<rparr>)"

type_synonym AesGcmSivKey = "(AesGcmSivParameters, bytes) SymmetricKey"

definition AesGcmSivKey_Create :: "AesGcmSivParameters \<Rightarrow> bytes \<Rightarrow> u32 option \<Rightarrow> AesGcmSivKey StatusOr" where
  "AesGcmSivKey_Create p kb i =
     (if gcmsiv_key_size p \<noteq> int (length kb) then Inl kInvalidArgument
      else create_with_id Key_ComputeOutputPrefix (gcmsiv_variant p) p kb i)"

definition AesGcmSiv_TypeUrl :: bytes where
  "AesGcmSiv_TypeUrl = ascii ''type.googleapis.com/google.crypto.tink.AesGcmSivKey''"

definition AesGcmSivKeyFormatTP :: "u32 \<Rightarrow> u32 \<Rightarrow> message" where [message_defs]:
  "AesGcmSivKeyFormatTP version key_size =
     [Uint32Field 1 kImplicit (Some version), Uint32Field 2 kImplicit (Some key_size)]"

definition AesGcmSivKeyTP :: "crc_fns \<Rightarrow> u32 \<Rightarrow> bytes option \<Rightarrow> message" where [message_defs]:
  "AesGcmSivKeyTP C version kv =
     [Uint32Field 1 kImplicit (Some version), SecretDataField 3 kExplicit (map_option (SecretDataFromStringView C) kv)]"

definition AesGcmSiv_ParseParameters :: "crc_fns \<Rightarrow> KeyTemplate \<Rightarrow> AesGcmSivParameters StatusOr" where
  "AesGcmSiv_ParseParameters C key_template =
     (if kt_type_url key_template \<noteq> AesGcmSiv_TypeUrl then Inl kInvalidArgument
      else case ParseFromString C (AesGcmSivKeyFormatTP 0 0) (kt_value key_template) of
        None \<Rightarrow> Inl kInvalidArgument
      | Some key_format \<Rightarrow>
          if uint_at key_format 0 \<noteq> 0 then Inl kInvalidArgument
          else with_ok (ToVariant (kt_output_prefix_type key_template))
            (\<lambda>v. AesGcmSivParameters_Create (int_of_uint32 (uint_at key_format 1)) v))"

definition AesGcmSiv_SerializeParameters :: "crc_fns \<Rightarrow> (nat \<Rightarrow> byte) \<Rightarrow> AesGcmSivParameters \<Rightarrow> KeyTemplate StatusOr option" where
  "AesGcmSiv_SerializeParameters C junk p =
     (case ToOutputPrefixType (gcmsiv_variant p) of
        Inl e \<Rightarrow> Some (Inl e)
      | Inr prefix \<Rightarrow>
          parameters_serialization C junk AesGcmSiv_TypeUrl prefix (AesGcmSivKeyFormatTP 0 (uint32_of_int (gcmsiv_key_size p))))"

definition AesGcmSiv_ParseKey :: "crc_fns \<Rightarrow> ProtoKeySerialization \<Rightarrow> bool \<Rightarrow> AesGcmSivKey StatusOr" where
  "AesGcmSiv_ParseKey C s token =
     (if \<not> token then Inl kPermissionDenied
      else if pks_type_url s \<noteq> AesGcmSiv_TypeUrl then Inl kInvalidArgument
      else case ParseFromString C (AesGcmSivKeyTP C 0 None) (pks_serialized_key s) of
        None \<Rightarrow> Inl kInvalidArgument
      | Some key_struct \<Rightarrow>
          if uint_at key_struct 0 \<noteq> 0 then Inl kInvalidArgument
          else with_ok (ToVariant (pks_output_prefix_type s))
            (\<lambda>v. with_ok (AesGcmSivParameters_Create (int_of_size (length (bytes_at key_struct 1))) v)
              (\<lambda>p. AesGcmSivKey_Create p (bytes_at key_struct 1) (pks_id_requirement s))))"

definition AesGcmSiv_SerializeKey :: "crc_fns \<Rightarrow> (nat \<Rightarrow> byte) \<Rightarrow> AesGcmSivKey \<Rightarrow> bool \<Rightarrow> ProtoKeySerialization StatusOr option" where
  "AesGcmSiv_SerializeKey C junk key token =
     (if \<not> token then Some (Inl kPermissionDenied)
      else case ToOutputPrefixType (gcmsiv_variant (key_parameters key)) of
        Inl e \<Rightarrow> Some (Inl e)
      | Inr prefix \<Rightarrow>
          key_serialization C junk AesGcmSiv_TypeUrl prefix (id_requirement key) (AesGcmSivKeyTP C 0 (Some (key_bytes key))))"

definition AesGcmSivParameters_valid :: "AesGcmSivParameters \<Rightarrow> bool" where
  "AesGcmSivParameters_valid p \<longleftrightarrow> AesGcmSivParameters_Create (gcmsiv_key_size p) (gcmsiv_variant p) = Inr p"

definition AesGcmSivKey_valid :: "AesGcmSivKey \<Rightarrow> bool" where
  "AesGcmSivKey_valid k \<longleftrightarrow> AesGcmSivParameters_valid (key_parameters k) \<and>
     AesGcmSivKey_Create (key_parameters k) (key_bytes k) (id_requirement k) = Inr k"

subsection \<open>The format of AES-GCM-SIV keys\<close>

lemma wf_AesGcmSiv [simp]: "wf_message C (AesGcmSivKeyFormatTP v ks)" "wf_message C (AesGcmSivKeyTP C v (Some kv))"
  by (simp_all add: wf_message_def message_defs FieldsAreSorted_def)

lemma Clear_AesGcmSiv [simp]: "Message_Clear (AesGcmSivKeyFormatTP v ks) = AesGcmSivKeyFormatTP 0 0"
    "Message_Clear (AesGcmSivKeyTP C v kv) = AesGcmSivKeyTP C 0 None"
  by (simp_all add: Message_Clear_def message_defs SecretDataField_Clear_def)

lemma AesGcmSiv_access [simp]:
  "uint_at (AesGcmSivKeyFormatTP v ks) 0 = v" "uint_at (AesGcmSivKeyFormatTP v ks) (Suc 0) = ks"
  "uint_at (AesGcmSivKeyTP C v kvo) 0 = v" "bytes_at (AesGcmSivKeyTP C v (Some kv)) (Suc 0) = kv"
  by (simp_all add: message_defs access_defs)

lemma AesGcmSivKeyFormatTP_size: "length (message_bytes (AesGcmSivKeyFormatTP v ks)) < 2 ^ 32"
  using field_bytes_le(1) [of 1 kImplicit "Some v"] field_bytes_le(1) [of 2 kImplicit "Some ks"]
  by (simp add: message_defs)

lemma AesGcmSivKeyTP_size: "length (message_bytes (AesGcmSivKeyTP C v (Some kv))) \<le> length kv + 40"
  using field_bytes_le(1) [of 1 kImplicit "Some v"] field_bytes_le(3) [of 3 kExplicit C kv]
  by (simp add: message_defs)

lemma AesGcmSiv_url [simp]: "IsPrintableAscii AesGcmSiv_TypeUrl"
  by (simp add: AesGcmSiv_TypeUrl_def IsPrintableAscii_def ascii_def)

lemma AesGcmSivParameters_Create_Inr:
  assumes "AesGcmSivParameters_Create ks v = Inr p"
  shows "p = \<lparr>gcmsiv_key_size = ks, gcmsiv_variant = v\<rparr> \<and> v \<in> set supported_variants \<and> is_int ks"
  using assms by (auto simp: AesGcmSivParameters_Create_def split: if_split_asm)

lemma AesGcmSivKey_Create_Inr:
  assumes "AesGcmSivKey_Create p kb i = Inr k"
  shows "key_parameters k = p \<and> key_bytes k = kb \<and> id_requirement k = i \<and>
    gcmsiv_key_size p = int (length kb) \<and> (i = None \<longleftrightarrow> gcmsiv_variant p = kNoPrefix)"
proof -
  have c: "gcmsiv_key_size p = int (length kb)" "create_with_id Key_ComputeOutputPrefix (gcmsiv_variant p) p kb i = Inr k"
    using assms by (simp_all add: AesGcmSivKey_Create_def split: if_split_asm)
  from create_with_id_Inr [OF c(2)] c(1) show ?thesis by simp
qed

interpretation aes_gcm_siv_parameters: proto_format AesGcmSiv_ParseParameters AesGcmSiv_SerializeParameters AesGcmSivParameters_valid
  "\<lambda>p. True" "\<lambda>p. True"
proof (unfold_locales, goal_cases)
  case (1 C t p)
  then obtain ks v where "AesGcmSivParameters_Create ks v = Inr p"
    by (auto simp: AesGcmSiv_ParseParameters_def Let_def split: if_split_asm option.split_asm)
  with AesGcmSivParameters_Create_Inr [OF this] show ?case by (simp add: AesGcmSivParameters_valid_def)
next
  case (2 C p junk)
  then have b: "AesGcmSivParameters_Create (gcmsiv_key_size p) (gcmsiv_variant p) = Inr p"
    by (auto simp: AesGcmSivParameters_valid_def split: if_split_asm)
  note c = AesGcmSivParameters_Create_Inr [OF b]
  from c obtain prefix where prefix: "ToOutputPrefixType (gcmsiv_variant p) = Inr prefix" using supported_prefix by blast
  show ?case
    by (rule parameters_roundtripI [where blank = "AesGcmSivKeyFormatTP 0 0" and url = AesGcmSiv_TypeUrl and prefix = prefix
          and m = "AesGcmSivKeyFormatTP 0 (uint32_of_int (gcmsiv_key_size p))"])
      (use 2 b c prefix variant_roundtrip [OF prefix] AesGcmSivKeyFormatTP_size in
        \<open>simp_all add: AesGcmSiv_SerializeParameters_def AesGcmSiv_ParseParameters_def\<close>)
qed

interpretation aes_gcm_siv_key: secret_key_format AesGcmSiv_ParseKey AesGcmSiv_SerializeKey AesGcmSivKey_valid "\<lambda>k. True" "\<lambda>k. True" AesGcmSiv_TypeUrl
proof (unfold_locales, goal_cases)
  case (1 C s k)
  then obtain ks v p kb where b: "AesGcmSivParameters_Create ks v = Inr p"
    and c: "AesGcmSivKey_Create p kb (pks_id_requirement s) = Inr k"
    by (auto simp: AesGcmSiv_ParseKey_def Let_def split: if_split_asm option.split_asm)
  from b AesGcmSivParameters_Create_Inr [OF b] AesGcmSivKey_Create_Inr [OF c] c show ?case
    by (simp add: AesGcmSivKey_valid_def AesGcmSivParameters_valid_def)
next
  case (2 C k junk)
  let ?p = "key_parameters k"
  from 2 have b: "AesGcmSivParameters_Create (gcmsiv_key_size ?p) (gcmsiv_variant ?p) = Inr ?p"
    and k: "AesGcmSivKey_Create ?p (key_bytes k) (id_requirement k) = Inr k"
    by (auto simp: AesGcmSivKey_valid_def AesGcmSivParameters_valid_def split: if_split_asm)
  note c = AesGcmSivParameters_Create_Inr [OF b] and l = AesGcmSivKey_Create_Inr [OF k]
  from c obtain prefix where prefix: "ToOutputPrefixType (gcmsiv_variant ?p) = Inr prefix" using supported_prefix by blast
  show ?case
    by (rule key_roundtripI [where m = "AesGcmSivKeyTP C 0 (Some (key_bytes k))" and blank = "AesGcmSivKeyTP C 0 None"
          and url = AesGcmSiv_TypeUrl and prefix = prefix and i = "id_requirement k"])
      (use 2 b c k l prefix variant_roundtrip [OF prefix] key_fits [OF AesGcmSivKeyTP_size] in
        \<open>simp_all add: AesGcmSiv_SerializeKey_def AesGcmSiv_ParseKey_def int_of_size_int\<close>)
qed (auto simp: AesGcmSiv_ParseKey_def AesGcmSiv_SerializeKey_def dest: key_serialization_shape split: if_split_asm sum.split_asm)

section \<open>AES-EAX\<close>

record AesEaxParameters =
  eax_key_size :: int
  eax_iv_size :: int
  eax_tag_size :: int
  eax_variant :: Variant

text \<open>The members of the builder are optional; the setters store a value.\<close>

definition AesEaxParameters_Build ::
    "int option \<Rightarrow> int option \<Rightarrow> int option \<Rightarrow> Variant option \<Rightarrow> AesEaxParameters StatusOr" where
  "AesEaxParameters_Build key_size iv_size tag_size variant =
     (case (key_size, iv_size, tag_size, variant) of
        (Some ks, Some iv, Some tag, Some v) \<Rightarrow>
          if ks \<noteq> 16 \<and> ks \<noteq> 24 \<and> ks \<noteq> 32 then Inl kInvalidArgument
          else if iv \<noteq> 12 \<and> iv \<noteq> 16 then Inl kInvalidArgument
          else if tag < 0 \<or> tag > 16 then Inl kInvalidArgument
          else if v \<notin> set supported_variants then Inl kInvalidArgument
          else Inr \<lparr>eax_key_size = ks, eax_iv_size = iv, eax_tag_size = tag, eax_variant = v\<rparr>
      | _ \<Rightarrow> Inl kInvalidArgument)"

type_synonym AesEaxKey = "(AesEaxParameters, bytes) SymmetricKey"

definition AesEaxKey_Create :: "AesEaxParameters \<Rightarrow> bytes \<Rightarrow> u32 option \<Rightarrow> AesEaxKey StatusOr" where
  "AesEaxKey_Create p kb i =
     (if eax_key_size p \<noteq> int (length kb) then Inl kInvalidArgument
      else create_with_id Key_ComputeOutputPrefix (eax_variant p) p kb i)"

definition AesEax_TypeUrl :: bytes where
  "AesEax_TypeUrl = ascii ''type.googleapis.com/google.crypto.tink.AesEaxKey''"

definition AesEaxParamsTP :: "u32 \<Rightarrow> message" where [message_defs]:
  "AesEaxParamsTP iv_size = [Uint32Field 1 kImplicit (Some iv_size)]"

definition AesEaxKeyFormatTP :: "u32 option \<Rightarrow> u32 \<Rightarrow> message" where [message_defs]:
  "AesEaxKeyFormatTP params key_size =
     [MessageField 1 kExplicit (AesEaxParamsTP 0) (map_option AesEaxParamsTP params), Uint32Field 2 kImplicit (Some key_size)]"

definition AesEaxKeyTP :: "crc_fns \<Rightarrow> u32 \<Rightarrow> u32 option \<Rightarrow> bytes option \<Rightarrow> message" where [message_defs]:
  "AesEaxKeyTP C version params kv =
     [Uint32Field 1 kImplicit (Some version),
      MessageField 2 kExplicit (AesEaxParamsTP 0) (map_option AesEaxParamsTP params),
      SecretDataField 3 kExplicit (map_option (SecretDataFromStringView C) kv)]"

definition AesEax_GetProtoParams :: "AesEaxParameters \<Rightarrow> message StatusOr" where
  "AesEax_GetProtoParams p =
     (if eax_tag_size p \<noteq> 16 then Inl kInvalidArgument else Inr (AesEaxParamsTP (uint32_of_int (eax_iv_size p))))"

definition AesEax_ParseParameters :: "crc_fns \<Rightarrow> KeyTemplate \<Rightarrow> AesEaxParameters StatusOr" where
  "AesEax_ParseParameters C key_template =
     (if kt_type_url key_template \<noteq> AesEax_TypeUrl then Inl kInvalidArgument
      else case ParseFromString C (AesEaxKeyFormatTP None 0) (kt_value key_template) of
        None \<Rightarrow> Inl kInvalidArgument
      | Some fmt \<Rightarrow>
          with_ok (ToVariant (kt_output_prefix_type key_template))
            (\<lambda>v. AesEaxParameters_Build (Some (int_of_uint32 (uint_at fmt 1)))
               (Some (int_of_uint32 (uint_at (sub_at fmt 0 (AesEaxParamsTP 0)) 0))) (Some 16) (Some v)))"

definition AesEax_SerializeParameters :: "crc_fns \<Rightarrow> (nat \<Rightarrow> byte) \<Rightarrow> AesEaxParameters \<Rightarrow> KeyTemplate StatusOr option" where
  "AesEax_SerializeParameters C junk p =
     (case AesEax_GetProtoParams p of
        Inl e \<Rightarrow> Some (Inl e)
      | Inr params \<Rightarrow>
          case ToOutputPrefixType (eax_variant p) of
            Inl e \<Rightarrow> Some (Inl e)
          | Inr prefix \<Rightarrow>
              parameters_serialization C junk AesEax_TypeUrl prefix
                (AesEaxKeyFormatTP (Some (uint_at params 0)) (uint32_of_int (eax_key_size p))))"

definition AesEax_ParseKey :: "crc_fns \<Rightarrow> ProtoKeySerialization \<Rightarrow> bool \<Rightarrow> AesEaxKey StatusOr" where
  "AesEax_ParseKey C s token =
     (if pks_type_url s \<noteq> AesEax_TypeUrl then Inl kInvalidArgument
      else if \<not> token then Inl kInvalidArgument
      else case ParseFromString C (AesEaxKeyTP C 0 None None) (pks_serialized_key s) of
        None \<Rightarrow> Inl kInvalidArgument
      | Some key \<Rightarrow>
          if uint_at key 0 \<noteq> 0 then Inl kInvalidArgument
          else with_ok (ToVariant (pks_output_prefix_type s))
            (\<lambda>v. with_ok (AesEaxParameters_Build (Some (int_of_size (length (bytes_at key 2))))
                 (Some (int_of_uint32 (uint_at (sub_at key 1 (AesEaxParamsTP 0)) 0))) (Some 16) (Some v))
              (\<lambda>p. AesEaxKey_Create p (bytes_at key 2) (pks_id_requirement s))))"

definition AesEax_SerializeKey :: "crc_fns \<Rightarrow> (nat \<Rightarrow> byte) \<Rightarrow> AesEaxKey \<Rightarrow> bool \<Rightarrow> ProtoKeySerialization StatusOr option" where
  "AesEax_SerializeKey C junk key token =
     (case AesEax_GetProtoParams (key_parameters key) of
        Inl e \<Rightarrow> Some (Inl e)
      | Inr params \<Rightarrow>
          if \<not> token then Some (Inl kInvalidArgument)
          else case ToOutputPrefixType (eax_variant (key_parameters key)) of
            Inl e \<Rightarrow> Some (Inl e)
          | Inr prefix \<Rightarrow>
              key_serialization C junk AesEax_TypeUrl prefix (id_requirement key)
                (AesEaxKeyTP C 0 (Some (uint_at params 0)) (Some (key_bytes key))))"

definition AesEaxParameters_valid :: "AesEaxParameters \<Rightarrow> bool" where
  "AesEaxParameters_valid p \<longleftrightarrow>
     AesEaxParameters_Build (Some (eax_key_size p)) (Some (eax_iv_size p)) (Some (eax_tag_size p)) (Some (eax_variant p)) = Inr p"

definition AesEaxKey_valid :: "AesEaxKey \<Rightarrow> bool" where
  "AesEaxKey_valid k \<longleftrightarrow> AesEaxParameters_valid (key_parameters k) \<and>
     AesEaxKey_Create (key_parameters k) (key_bytes k) (id_requirement k) = Inr k"

subsection \<open>The format of AES-EAX keys\<close>

lemma wf_AesEax [simp]: "wf_message C (AesEaxKeyFormatTP (Some iv) ks)" "wf_message C (AesEaxKeyTP C v (Some iv) (Some kv))"
  by (simp_all add: wf_message_def message_defs FieldsAreSorted_def Message_Clear_def)

lemma Clear_AesEax [simp]: "Message_Clear (AesEaxKeyFormatTP params ks) = AesEaxKeyFormatTP None 0"
    "Message_Clear (AesEaxKeyTP C v params kv) = AesEaxKeyTP C 0 None None"
  by (simp_all add: Message_Clear_def message_defs SecretDataField_Clear_def)

lemma AesEax_access [simp]:
  "sub_at (AesEaxKeyFormatTP (Some iv) ks) 0 d = AesEaxParamsTP iv" "uint_at (AesEaxKeyFormatTP po ks) (Suc 0) = ks"
  "uint_at (AesEaxKeyTP C v po kvo) 0 = v" "sub_at (AesEaxKeyTP C v (Some iv) kvo) (Suc 0) d = AesEaxParamsTP iv"
  "bytes_at (AesEaxKeyTP C v po (Some kv)) 2 = kv" "uint_at (AesEaxParamsTP iv) 0 = iv"
  by (simp_all add: message_defs access_defs)

lemma AesEaxKeyFormatTP_size: "length (message_bytes (AesEaxKeyFormatTP (Some iv) ks)) < 2 ^ 32"
  using field_bytes_le(1) [of 2 kImplicit "Some ks"] field_bytes_le(1) [of 1 kImplicit "Some iv"]
    field_bytes_le(5) [of 1 kExplicit "AesEaxParamsTP 0" "AesEaxParamsTP iv"]
  by (simp add: AesEaxKeyFormatTP_def AesEaxParamsTP_def)

lemma AesEaxKeyTP_size: "length (message_bytes (AesEaxKeyTP C v (Some iv) (Some kv))) \<le> length kv + 100"
  using field_bytes_le(1) [of 1 kImplicit "Some v"] field_bytes_le(3) [of 3 kExplicit C kv] field_bytes_le(1) [of 1 kImplicit "Some iv"]
    field_bytes_le(5) [of 2 kExplicit "AesEaxParamsTP 0" "AesEaxParamsTP iv"]
  by (simp add: AesEaxKeyTP_def AesEaxParamsTP_def)

lemma AesEax_url [simp]: "IsPrintableAscii AesEax_TypeUrl"
  by (simp add: AesEax_TypeUrl_def IsPrintableAscii_def ascii_def)

lemma AesEaxParameters_Create_Inr:
  assumes "AesEaxParameters_Build (Some ks) (Some iv) (Some tag) (Some v) = Inr p"
  shows "p = \<lparr>eax_key_size = ks, eax_iv_size = iv, eax_tag_size = tag, eax_variant = v\<rparr> \<and> v \<in> set supported_variants \<and> is_int ks \<and> is_int iv"
  using assms by (auto simp: AesEaxParameters_Build_def split: if_split_asm)

lemma AesEaxKey_Create_Inr:
  assumes "AesEaxKey_Create p kb i = Inr k"
  shows "key_parameters k = p \<and> key_bytes k = kb \<and> id_requirement k = i \<and>
    eax_key_size p = int (length kb) \<and> (i = None \<longleftrightarrow> eax_variant p = kNoPrefix)"
proof -
  have c: "eax_key_size p = int (length kb)" "create_with_id Key_ComputeOutputPrefix (eax_variant p) p kb i = Inr k"
    using assms by (simp_all add: AesEaxKey_Create_def split: if_split_asm)
  from create_with_id_Inr [OF c(2)] c(1) show ?thesis by simp
qed

interpretation aes_eax_parameters: proto_format AesEax_ParseParameters AesEax_SerializeParameters AesEaxParameters_valid
  "\<lambda>p. eax_tag_size p = 16" "\<lambda>p. True"
proof (unfold_locales, goal_cases)
  case (1 C t p)
  then obtain ks iv v where "AesEaxParameters_Build (Some ks) (Some iv) (Some 16) (Some v) = Inr p"
    by (auto simp: AesEax_ParseParameters_def Let_def split: if_split_asm option.split_asm)
  with AesEaxParameters_Create_Inr [OF this] show ?case by (simp add: AesEaxParameters_valid_def AesEax_GetProtoParams_def)
next
  case (2 C p junk)
  then have b: "AesEaxParameters_Build (Some (eax_key_size p)) (Some (eax_iv_size p)) (Some 16) (Some (eax_variant p)) = Inr p"
    by (auto simp: AesEaxParameters_valid_def AesEax_GetProtoParams_def split: if_split_asm)
  note c = AesEaxParameters_Create_Inr [OF b]
  from c obtain prefix where prefix: "ToOutputPrefixType (eax_variant p) = Inr prefix" using supported_prefix by blast
  show ?case
    by (rule parameters_roundtripI [where blank = "AesEaxKeyFormatTP None 0" and url = AesEax_TypeUrl and prefix = prefix
          and m = "AesEaxKeyFormatTP (Some (uint32_of_int (eax_iv_size p))) (uint32_of_int (eax_key_size p))"])
      (use 2 b c prefix variant_roundtrip [OF prefix] AesEaxKeyFormatTP_size in
        \<open>simp_all add: AesEax_SerializeParameters_def AesEax_ParseParameters_def AesEax_GetProtoParams_def\<close>)
qed

interpretation aes_eax_key: secret_key_format AesEax_ParseKey AesEax_SerializeKey AesEaxKey_valid "\<lambda>k. eax_tag_size (key_parameters k) = 16" "\<lambda>k. True" AesEax_TypeUrl
proof (unfold_locales, goal_cases)
  case (1 C s k)
  then obtain ks iv v p kb where b: "AesEaxParameters_Build (Some ks) (Some iv) (Some 16) (Some v) = Inr p"
    and c: "AesEaxKey_Create p kb (pks_id_requirement s) = Inr k"
    by (auto simp: AesEax_ParseKey_def Let_def split: if_split_asm option.split_asm)
  from b AesEaxParameters_Create_Inr [OF b] AesEaxKey_Create_Inr [OF c] c show ?case
    by (simp add: AesEaxKey_valid_def AesEaxParameters_valid_def AesEax_GetProtoParams_def)
next
  case (2 C k junk)
  let ?p = "key_parameters k"
  from 2 have b: "AesEaxParameters_Build (Some (eax_key_size ?p)) (Some (eax_iv_size ?p)) (Some 16) (Some (eax_variant ?p)) = Inr ?p"
    and k: "AesEaxKey_Create ?p (key_bytes k) (id_requirement k) = Inr k"
    by (auto simp: AesEaxKey_valid_def AesEaxParameters_valid_def AesEax_GetProtoParams_def split: if_split_asm)
  note c = AesEaxParameters_Create_Inr [OF b] and l = AesEaxKey_Create_Inr [OF k]
  from c obtain prefix where prefix: "ToOutputPrefixType (eax_variant ?p) = Inr prefix" using supported_prefix by blast
  show ?case
    by (rule key_roundtripI [where m = "AesEaxKeyTP C 0 (Some (uint32_of_int (eax_iv_size ?p))) (Some (key_bytes k))" and blank = "AesEaxKeyTP C 0 None None"
          and url = AesEax_TypeUrl and prefix = prefix and i = "id_requirement k"])
      (use 2 b c k l prefix variant_roundtrip [OF prefix] key_fits [OF AesEaxKeyTP_size] in
        \<open>simp_all add: AesEax_SerializeKey_def AesEax_ParseKey_def int_of_size_int AesEax_GetProtoParams_def\<close>)
qed (auto simp: AesEax_ParseKey_def AesEax_SerializeKey_def AesEax_GetProtoParams_def dest: key_serialization_shape split: if_split_asm sum.split_asm)

section \<open>AES-SIV\<close>

record AesSivParameters =
  siv_key_size :: int
  siv_variant :: Variant

definition AesSivParameters_Create :: "int \<Rightarrow> Variant \<Rightarrow> AesSivParameters StatusOr" where
  "AesSivParameters_Create key_size v =
     (if key_size \<noteq> 32 \<and> key_size \<noteq> 48 \<and> key_size \<noteq> 64 then Inl kInvalidArgument
      else if v \<notin> set supported_variants then Inl kInvalidArgument
      else Inr \<lparr>siv_key_size = key_size, siv_variant = v\<rparr>)"

type_synonym AesSivKey = "(AesSivParameters, bytes) SymmetricKey"

definition AesSivKey_Create :: "AesSivParameters \<Rightarrow> bytes \<Rightarrow> u32 option \<Rightarrow> AesSivKey StatusOr" where
  "AesSivKey_Create p kb i =
     (if siv_key_size p \<noteq> int (length kb) then Inl kInvalidArgument
      else create_with_id Key_ComputeOutputPrefix (siv_variant p) p kb i)"

definition AesSiv_TypeUrl :: bytes where
  "AesSiv_TypeUrl = ascii ''type.googleapis.com/google.crypto.tink.AesSivKey''"

definition AesSivKeyFormatTP :: "u32 \<Rightarrow> u32 \<Rightarrow> message" where [message_defs]:
  "AesSivKeyFormatTP key_size version =
     [Uint32Field 1 kImplicit (Some key_size), Uint32Field 2 kImplicit (Some version)]"

definition AesSivKeyTP :: "crc_fns \<Rightarrow> u32 \<Rightarrow> bytes option \<Rightarrow> message" where [message_defs]:
  "AesSivKeyTP C version kv =
     [Uint32Field 1 kImplicit (Some version), SecretDataField 2 kExplicit (map_option (SecretDataFromStringView C) kv)]"

definition AesSiv_ParseParameters :: "crc_fns \<Rightarrow> KeyTemplate \<Rightarrow> AesSivParameters StatusOr" where
  "AesSiv_ParseParameters C key_template =
     (if kt_type_url key_template \<noteq> AesSiv_TypeUrl then Inl kInvalidArgument
      else case ParseFromString C (AesSivKeyFormatTP 0 0) (kt_value key_template) of
        None \<Rightarrow> Inl kInvalidArgument
      | Some proto_key_format \<Rightarrow>
          if uint_at proto_key_format 1 \<noteq> 0 then Inl kInvalidArgument
          else with_ok (ToVariant (kt_output_prefix_type key_template))
            (\<lambda>v. AesSivParameters_Create (int_of_uint32 (uint_at proto_key_format 0)) v))"

definition AesSiv_SerializeParameters :: "crc_fns \<Rightarrow> (nat \<Rightarrow> byte) \<Rightarrow> AesSivParameters \<Rightarrow> KeyTemplate StatusOr option" where
  "AesSiv_SerializeParameters C junk p =
     (case ToOutputPrefixType (siv_variant p) of
        Inl e \<Rightarrow> Some (Inl e)
      | Inr prefix \<Rightarrow>
          parameters_serialization C junk AesSiv_TypeUrl prefix (AesSivKeyFormatTP (uint32_of_int (siv_key_size p)) 0))"

definition AesSiv_ParseKey :: "crc_fns \<Rightarrow> ProtoKeySerialization \<Rightarrow> bool \<Rightarrow> AesSivKey StatusOr" where
  "AesSiv_ParseKey C s token =
     (if pks_type_url s \<noteq> AesSiv_TypeUrl then Inl kInvalidArgument
      else if \<not> token then Inl kInvalidArgument
      else case ParseFromString C (AesSivKeyTP C 0 None) (pks_serialized_key s) of
        None \<Rightarrow> Inl kInvalidArgument
      | Some proto_key \<Rightarrow>
          if uint_at proto_key 0 \<noteq> 0 then Inl kInvalidArgument
          else with_ok (ToVariant (pks_output_prefix_type s))
            (\<lambda>v. with_ok (AesSivParameters_Create (int_of_size (length (bytes_at proto_key 1))) v)
              (\<lambda>p. AesSivKey_Create p (bytes_at proto_key 1) (pks_id_requirement s))))"

definition AesSiv_SerializeKey :: "crc_fns \<Rightarrow> (nat \<Rightarrow> byte) \<Rightarrow> AesSivKey \<Rightarrow> bool \<Rightarrow> ProtoKeySerialization StatusOr option" where
  "AesSiv_SerializeKey C junk key token =
     (if \<not> token then Some (Inl kInvalidArgument)
      else case ToOutputPrefixType (siv_variant (key_parameters key)) of
        Inl e \<Rightarrow> Some (Inl e)
      | Inr prefix \<Rightarrow>
          key_serialization C junk AesSiv_TypeUrl prefix (id_requirement key) (AesSivKeyTP C 0 (Some (key_bytes key))))"

definition AesSivParameters_valid :: "AesSivParameters \<Rightarrow> bool" where
  "AesSivParameters_valid p \<longleftrightarrow> AesSivParameters_Create (siv_key_size p) (siv_variant p) = Inr p"

definition AesSivKey_valid :: "AesSivKey \<Rightarrow> bool" where
  "AesSivKey_valid k \<longleftrightarrow> AesSivParameters_valid (key_parameters k) \<and>
     AesSivKey_Create (key_parameters k) (key_bytes k) (id_requirement k) = Inr k"

subsection \<open>The format of AES-SIV keys\<close>

lemma wf_AesSiv [simp]: "wf_message C (AesSivKeyFormatTP ks v)" "wf_message C (AesSivKeyTP C v (Some kv))"
  by (simp_all add: wf_message_def message_defs FieldsAreSorted_def)

lemma Clear_AesSiv [simp]: "Message_Clear (AesSivKeyFormatTP ks v) = AesSivKeyFormatTP 0 0"
    "Message_Clear (AesSivKeyTP C v kv) = AesSivKeyTP C 0 None"
  by (simp_all add: Message_Clear_def message_defs SecretDataField_Clear_def)

lemma AesSiv_access [simp]:
  "uint_at (AesSivKeyFormatTP ks v) 0 = ks" "uint_at (AesSivKeyFormatTP ks v) (Suc 0) = v"
  "uint_at (AesSivKeyTP C v kvo) 0 = v" "bytes_at (AesSivKeyTP C v (Some kv)) (Suc 0) = kv"
  by (simp_all add: message_defs access_defs)

lemma AesSivKeyFormatTP_size: "length (message_bytes (AesSivKeyFormatTP ks v)) < 2 ^ 32"
  using field_bytes_le(1) [of 1 kImplicit "Some ks"] field_bytes_le(1) [of 2 kImplicit "Some v"]
  by (simp add: message_defs)

lemma AesSivKeyTP_size: "length (message_bytes (AesSivKeyTP C v (Some kv))) \<le> length kv + 40"
  using field_bytes_le(1) [of 1 kImplicit "Some v"] field_bytes_le(3) [of 2 kExplicit C kv]
  by (simp add: message_defs)

lemma AesSiv_url [simp]: "IsPrintableAscii AesSiv_TypeUrl"
  by (simp add: AesSiv_TypeUrl_def IsPrintableAscii_def ascii_def)

lemma AesSivParameters_Create_Inr:
  assumes "AesSivParameters_Create ks v = Inr p"
  shows "p = \<lparr>siv_key_size = ks, siv_variant = v\<rparr> \<and> v \<in> set supported_variants \<and> is_int ks"
  using assms by (auto simp: AesSivParameters_Create_def split: if_split_asm)

lemma AesSivKey_Create_Inr:
  assumes "AesSivKey_Create p kb i = Inr k"
  shows "key_parameters k = p \<and> key_bytes k = kb \<and> id_requirement k = i \<and>
    siv_key_size p = int (length kb) \<and> (i = None \<longleftrightarrow> siv_variant p = kNoPrefix)"
proof -
  have c: "siv_key_size p = int (length kb)" "create_with_id Key_ComputeOutputPrefix (siv_variant p) p kb i = Inr k"
    using assms by (simp_all add: AesSivKey_Create_def split: if_split_asm)
  from create_with_id_Inr [OF c(2)] c(1) show ?thesis by simp
qed

interpretation aes_siv_parameters: proto_format AesSiv_ParseParameters AesSiv_SerializeParameters AesSivParameters_valid
  "\<lambda>p. True" "\<lambda>p. True"
proof (unfold_locales, goal_cases)
  case (1 C t p)
  then obtain ks v where "AesSivParameters_Create ks v = Inr p"
    by (auto simp: AesSiv_ParseParameters_def Let_def split: if_split_asm option.split_asm)
  with AesSivParameters_Create_Inr [OF this] show ?case by (simp add: AesSivParameters_valid_def)
next
  case (2 C p junk)
  then have b: "AesSivParameters_Create (siv_key_size p) (siv_variant p) = Inr p"
    by (auto simp: AesSivParameters_valid_def split: if_split_asm)
  note c = AesSivParameters_Create_Inr [OF b]
  from c obtain prefix where prefix: "ToOutputPrefixType (siv_variant p) = Inr prefix" using supported_prefix by blast
  show ?case
    by (rule parameters_roundtripI [where blank = "AesSivKeyFormatTP 0 0" and url = AesSiv_TypeUrl and prefix = prefix
          and m = "AesSivKeyFormatTP (uint32_of_int (siv_key_size p)) 0"])
      (use 2 b c prefix variant_roundtrip [OF prefix] AesSivKeyFormatTP_size in
        \<open>simp_all add: AesSiv_SerializeParameters_def AesSiv_ParseParameters_def\<close>)
qed

interpretation aes_siv_key: secret_key_format AesSiv_ParseKey AesSiv_SerializeKey AesSivKey_valid "\<lambda>k. True" "\<lambda>k. True" AesSiv_TypeUrl
proof (unfold_locales, goal_cases)
  case (1 C s k)
  then obtain ks v p kb where b: "AesSivParameters_Create ks v = Inr p"
    and c: "AesSivKey_Create p kb (pks_id_requirement s) = Inr k"
    by (auto simp: AesSiv_ParseKey_def Let_def split: if_split_asm option.split_asm)
  from b AesSivParameters_Create_Inr [OF b] AesSivKey_Create_Inr [OF c] c show ?case
    by (simp add: AesSivKey_valid_def AesSivParameters_valid_def)
next
  case (2 C k junk)
  let ?p = "key_parameters k"
  from 2 have b: "AesSivParameters_Create (siv_key_size ?p) (siv_variant ?p) = Inr ?p"
    and k: "AesSivKey_Create ?p (key_bytes k) (id_requirement k) = Inr k"
    by (auto simp: AesSivKey_valid_def AesSivParameters_valid_def split: if_split_asm)
  note c = AesSivParameters_Create_Inr [OF b] and l = AesSivKey_Create_Inr [OF k]
  from c obtain prefix where prefix: "ToOutputPrefixType (siv_variant ?p) = Inr prefix" using supported_prefix by blast
  show ?case
    by (rule key_roundtripI [where m = "AesSivKeyTP C 0 (Some (key_bytes k))" and blank = "AesSivKeyTP C 0 None"
          and url = AesSiv_TypeUrl and prefix = prefix and i = "id_requirement k"])
      (use 2 b c k l prefix variant_roundtrip [OF prefix] key_fits [OF AesSivKeyTP_size] in
        \<open>simp_all add: AesSiv_SerializeKey_def AesSiv_ParseKey_def int_of_size_int\<close>)
qed (auto simp: AesSiv_ParseKey_def AesSiv_SerializeKey_def dest: key_serialization_shape split: if_split_asm sum.split_asm)

end
