(* ===== verification/Chacha_Keys.thy ===== *)
theory Chacha_Keys
  imports Key_Serialization
begin

text \<open>
  ChaCha20-Poly1305, XChaCha20-Poly1305 and X-AES-GCM keys: their parameters and key classes in
  \<^verbatim>\<open>tink/aead/\<close> and their proto serializations in \<^verbatim>\<open>tink/aead/internal/\<close>.
\<close>

section \<open>ChaCha20-Poly1305\<close>

record ChaCha20Poly1305Parameters =
  chacha_variant :: Variant

definition ChaCha20Poly1305Parameters_Create :: "Variant \<Rightarrow> ChaCha20Poly1305Parameters StatusOr" where
  "ChaCha20Poly1305Parameters_Create v =
     (if v \<notin> set supported_variants then Inl kInvalidArgument else Inr \<lparr>chacha_variant = v\<rparr>)"

type_synonym ChaCha20Poly1305Key = "(ChaCha20Poly1305Parameters, bytes) SymmetricKey"

definition ChaCha20Poly1305Key_Create :: "Variant \<Rightarrow> bytes \<Rightarrow> u32 option \<Rightarrow> ChaCha20Poly1305Key StatusOr" where
  "ChaCha20Poly1305Key_Create v kb i =
     (if length kb \<noteq> 32 then Inl kInvalidArgument
      else if v \<noteq> kNoPrefix \<and> i = None then Inl kInvalidArgument
      else if v = kNoPrefix \<and> i \<noteq> None then Inl kInvalidArgument
      else with_ok (ChaCha20Poly1305Parameters_Create v)
        (\<lambda>p. with_ok (Key_ComputeOutputPrefix v i)
          (\<lambda>output_prefix. Inr \<lparr>key_parameters = p, key_bytes = kb, id_requirement = i, key_output_prefix = output_prefix\<rparr>)))"

definition ChaCha20Poly1305_TypeUrl :: bytes where
  "ChaCha20Poly1305_TypeUrl = ascii ''type.googleapis.com/google.crypto.tink.ChaCha20Poly1305Key''"

definition ChaCha20Poly1305KeyFormatTP :: "message" where [message_defs]:
  "ChaCha20Poly1305KeyFormatTP = []"

definition ChaCha20Poly1305KeyTP :: "crc_fns \<Rightarrow> u32 \<Rightarrow> bytes option \<Rightarrow> message" where [message_defs]:
  "ChaCha20Poly1305KeyTP C version kv =
     [Uint32Field 1 kImplicit (Some version), SecretDataField 2 kExplicit (map_option (SecretDataFromStringView C) kv)]"

definition ChaCha20Poly1305_ParseParameters :: "crc_fns \<Rightarrow> KeyTemplate \<Rightarrow> ChaCha20Poly1305Parameters StatusOr" where
  "ChaCha20Poly1305_ParseParameters C key_template =
     (if kt_type_url key_template \<noteq> ChaCha20Poly1305_TypeUrl then Inl kInvalidArgument
      else case ParseFromString C ChaCha20Poly1305KeyFormatTP (kt_value key_template) of
        None \<Rightarrow> Inl kInvalidArgument
      | Some proto_key_format \<Rightarrow>
          with_ok (ToVariant (kt_output_prefix_type key_template)) (\<lambda>v. ChaCha20Poly1305Parameters_Create v))"

definition ChaCha20Poly1305_SerializeParameters :: "crc_fns \<Rightarrow> (nat \<Rightarrow> byte) \<Rightarrow> ChaCha20Poly1305Parameters \<Rightarrow> KeyTemplate StatusOr option" where
  "ChaCha20Poly1305_SerializeParameters C junk p =
     (case ToOutputPrefixType (chacha_variant p) of
        Inl e \<Rightarrow> Some (Inl e)
      | Inr prefix \<Rightarrow> parameters_serialization C junk ChaCha20Poly1305_TypeUrl prefix ChaCha20Poly1305KeyFormatTP)"

definition ChaCha20Poly1305_ParseKey :: "crc_fns \<Rightarrow> ProtoKeySerialization \<Rightarrow> bool \<Rightarrow> ChaCha20Poly1305Key StatusOr" where
  "ChaCha20Poly1305_ParseKey C s token =
     (if pks_type_url s \<noteq> ChaCha20Poly1305_TypeUrl then Inl kInvalidArgument
      else if \<not> token then Inl kInvalidArgument
      else case ParseFromString C (ChaCha20Poly1305KeyTP C 0 None) (pks_serialized_key s) of
        None \<Rightarrow> Inl kInvalidArgument
      | Some proto_key \<Rightarrow>
          if uint_at proto_key 0 \<noteq> 0 then Inl kInvalidArgument
          else with_ok (ToVariant (pks_output_prefix_type s))
            (\<lambda>v. with_ok (ChaCha20Poly1305Parameters_Create v)
              (\<lambda>p. ChaCha20Poly1305Key_Create (chacha_variant p) (bytes_at proto_key 1) (pks_id_requirement s))))"

definition ChaCha20Poly1305_SerializeKey :: "crc_fns \<Rightarrow> (nat \<Rightarrow> byte) \<Rightarrow> ChaCha20Poly1305Key \<Rightarrow> bool \<Rightarrow> ProtoKeySerialization StatusOr option" where
  "ChaCha20Poly1305_SerializeKey C junk key token =
     (if \<not> token then Some (Inl kInvalidArgument)
      else case ToOutputPrefixType (chacha_variant (key_parameters key)) of
        Inl e \<Rightarrow> Some (Inl e)
      | Inr prefix \<Rightarrow>
          key_serialization C junk ChaCha20Poly1305_TypeUrl prefix (id_requirement key) (ChaCha20Poly1305KeyTP C 0 (Some (key_bytes key))))"

definition ChaCha20Poly1305Parameters_valid :: "ChaCha20Poly1305Parameters \<Rightarrow> bool" where
  "ChaCha20Poly1305Parameters_valid p \<longleftrightarrow> ChaCha20Poly1305Parameters_Create (chacha_variant p) = Inr p"

definition ChaCha20Poly1305Key_valid :: "ChaCha20Poly1305Key \<Rightarrow> bool" where
  "ChaCha20Poly1305Key_valid k \<longleftrightarrow> ChaCha20Poly1305Parameters_valid (key_parameters k) \<and>
     ChaCha20Poly1305Key_Create (chacha_variant (key_parameters k)) (key_bytes k) (id_requirement k) = Inr k"

subsection \<open>The format of ChaCha20-Poly1305 keys\<close>

lemma wf_ChaCha20Poly1305 [simp]: "wf_message C ChaCha20Poly1305KeyFormatTP" "wf_message C (ChaCha20Poly1305KeyTP C v (Some kv))"
  by (simp_all add: wf_message_def message_defs FieldsAreSorted_def)

lemma Clear_ChaCha20Poly1305 [simp]: "Message_Clear ChaCha20Poly1305KeyFormatTP = ChaCha20Poly1305KeyFormatTP"
    "Message_Clear (ChaCha20Poly1305KeyTP C v kv) = ChaCha20Poly1305KeyTP C 0 None"
  by (simp_all add: Message_Clear_def message_defs SecretDataField_Clear_def)

lemma ChaCha20Poly1305_access [simp]:
  "uint_at (ChaCha20Poly1305KeyTP C v kvo) 0 = v" "bytes_at (ChaCha20Poly1305KeyTP C v (Some kv)) (Suc 0) = kv"
  by (simp_all add: message_defs access_defs)

lemma ChaCha20Poly1305KeyFormatTP_size: "length (message_bytes ChaCha20Poly1305KeyFormatTP) < 2 ^ 32"
  by (simp add: message_defs)

lemma ChaCha20Poly1305KeyTP_size: "length (message_bytes (ChaCha20Poly1305KeyTP C v (Some kv))) \<le> length kv + 40"
  using field_bytes_le(1) [of 1 kImplicit "Some v"] field_bytes_le(3) [of 2 kExplicit C kv]
  by (simp add: message_defs)

lemma ChaCha20Poly1305_url [simp]: "IsPrintableAscii ChaCha20Poly1305_TypeUrl"
  by (simp add: ChaCha20Poly1305_TypeUrl_def IsPrintableAscii_def ascii_def)

lemma ChaCha20Poly1305Parameters_Create_Inr:
  assumes "ChaCha20Poly1305Parameters_Create v = Inr p"
  shows "p = \<lparr>chacha_variant = v\<rparr> \<and> v \<in> set supported_variants"
  using assms by (auto simp: ChaCha20Poly1305Parameters_Create_def split: if_split_asm)

lemma ChaCha20Poly1305Key_Create_Inr:
  assumes "ChaCha20Poly1305Key_Create v kb i = Inr k"
  shows "key_parameters k = \<lparr>chacha_variant = v\<rparr> \<and> key_bytes k = kb \<and> id_requirement k = i \<and>
    length kb = 32 \<and> (i = None \<longleftrightarrow> v = kNoPrefix)"
  using assms by (auto simp: ChaCha20Poly1305Key_Create_def dest: ChaCha20Poly1305Parameters_Create_Inr split: if_split_asm)

interpretation chacha20_poly1305_parameters: proto_format ChaCha20Poly1305_ParseParameters ChaCha20Poly1305_SerializeParameters ChaCha20Poly1305Parameters_valid
  "\<lambda>p. True" "\<lambda>p. True"
proof (unfold_locales, goal_cases)
  case (1 C t p)
  then obtain v where "ChaCha20Poly1305Parameters_Create v = Inr p"
    by (auto simp: ChaCha20Poly1305_ParseParameters_def Let_def split: if_split_asm option.split_asm)
  with ChaCha20Poly1305Parameters_Create_Inr [OF this] show ?case by (simp add: ChaCha20Poly1305Parameters_valid_def)
next
  case (2 C p junk)
  then have b: "ChaCha20Poly1305Parameters_Create (chacha_variant p) = Inr p"
    by (auto simp: ChaCha20Poly1305Parameters_valid_def split: if_split_asm)
  note c = ChaCha20Poly1305Parameters_Create_Inr [OF b]
  from c obtain prefix where prefix: "ToOutputPrefixType (chacha_variant p) = Inr prefix" using supported_prefix by blast
  show ?case
    by (rule parameters_roundtripI [where blank = "ChaCha20Poly1305KeyFormatTP" and url = ChaCha20Poly1305_TypeUrl and prefix = prefix
          and m = "ChaCha20Poly1305KeyFormatTP"])
      (use 2 b c prefix variant_roundtrip [OF prefix] ChaCha20Poly1305KeyFormatTP_size in
        \<open>simp_all add: ChaCha20Poly1305_SerializeParameters_def ChaCha20Poly1305_ParseParameters_def\<close>)
qed

interpretation chacha20_poly1305_key: secret_key_format ChaCha20Poly1305_ParseKey ChaCha20Poly1305_SerializeKey ChaCha20Poly1305Key_valid "\<lambda>k. True" "\<lambda>k. True" ChaCha20Poly1305_TypeUrl
proof (unfold_locales, goal_cases)
  case (1 C s k)
  then obtain v p kb where b: "ChaCha20Poly1305Parameters_Create v = Inr p"
    and c: "ChaCha20Poly1305Key_Create (chacha_variant p) kb (pks_id_requirement s) = Inr k"
    by (auto simp: ChaCha20Poly1305_ParseKey_def Let_def split: if_split_asm option.split_asm)
  from b ChaCha20Poly1305Parameters_Create_Inr [OF b] ChaCha20Poly1305Key_Create_Inr [OF c] c show ?case
    by (simp add: ChaCha20Poly1305Key_valid_def ChaCha20Poly1305Parameters_valid_def)
next
  case (2 C k junk)
  let ?p = "key_parameters k"
  from 2 have b: "ChaCha20Poly1305Parameters_Create (chacha_variant ?p) = Inr ?p"
    and k: "ChaCha20Poly1305Key_Create (chacha_variant ?p) (key_bytes k) (id_requirement k) = Inr k"
    by (auto simp: ChaCha20Poly1305Key_valid_def ChaCha20Poly1305Parameters_valid_def split: if_split_asm)
  note c = ChaCha20Poly1305Parameters_Create_Inr [OF b] and l = ChaCha20Poly1305Key_Create_Inr [OF k]
  from c obtain prefix where prefix: "ToOutputPrefixType (chacha_variant ?p) = Inr prefix" using supported_prefix by blast
  show ?case
    by (rule key_roundtripI [where m = "ChaCha20Poly1305KeyTP C 0 (Some (key_bytes k))" and blank = "ChaCha20Poly1305KeyTP C 0 None"
          and url = ChaCha20Poly1305_TypeUrl and prefix = prefix and i = "id_requirement k"])
      (use 2 b c k l prefix variant_roundtrip [OF prefix] key_fits [OF ChaCha20Poly1305KeyTP_size] in
        \<open>simp_all add: ChaCha20Poly1305_SerializeKey_def ChaCha20Poly1305_ParseKey_def int_of_size_int\<close>)
qed (auto simp: ChaCha20Poly1305_ParseKey_def ChaCha20Poly1305_SerializeKey_def dest: key_serialization_shape split: if_split_asm sum.split_asm)

section \<open>XChaCha20-Poly1305\<close>

record XChaCha20Poly1305Parameters =
  xchacha_variant :: Variant

definition XChaCha20Poly1305Parameters_Create :: "Variant \<Rightarrow> XChaCha20Poly1305Parameters StatusOr" where
  "XChaCha20Poly1305Parameters_Create v =
     (if v \<notin> set supported_variants then Inl kInvalidArgument else Inr \<lparr>xchacha_variant = v\<rparr>)"

type_synonym XChaCha20Poly1305Key = "(XChaCha20Poly1305Parameters, bytes) SymmetricKey"

definition XChaCha20Poly1305Key_Create :: "Variant \<Rightarrow> bytes \<Rightarrow> u32 option \<Rightarrow> XChaCha20Poly1305Key StatusOr" where
  "XChaCha20Poly1305Key_Create v kb i =
     (if length kb \<noteq> 32 then Inl kInvalidArgument
      else if v \<noteq> kNoPrefix \<and> i = None then Inl kInvalidArgument
      else if v = kNoPrefix \<and> i \<noteq> None then Inl kInvalidArgument
      else with_ok (XChaCha20Poly1305Parameters_Create v)
        (\<lambda>p. with_ok (Key_ComputeOutputPrefix v i)
          (\<lambda>output_prefix. Inr \<lparr>key_parameters = p, key_bytes = kb, id_requirement = i, key_output_prefix = output_prefix\<rparr>)))"

definition XChaCha20Poly1305_TypeUrl :: bytes where
  "XChaCha20Poly1305_TypeUrl = ascii ''type.googleapis.com/google.crypto.tink.XChaCha20Poly1305Key''"

definition XChaCha20Poly1305KeyFormatTP :: "u32 \<Rightarrow> message" where [message_defs]:
  "XChaCha20Poly1305KeyFormatTP version = [Uint32Field 1 kImplicit (Some version)]"

definition XChaCha20Poly1305KeyTP :: "crc_fns \<Rightarrow> u32 \<Rightarrow> bytes option \<Rightarrow> message" where [message_defs]:
  "XChaCha20Poly1305KeyTP C version kv =
     [Uint32Field 1 kImplicit (Some version), SecretDataField 3 kExplicit (map_option (SecretDataFromStringView C) kv)]"

definition XChaCha20Poly1305_ParseParameters :: "crc_fns \<Rightarrow> KeyTemplate \<Rightarrow> XChaCha20Poly1305Parameters StatusOr" where
  "XChaCha20Poly1305_ParseParameters C key_template =
     (if kt_type_url key_template \<noteq> XChaCha20Poly1305_TypeUrl then Inl kInvalidArgument
      else case ParseFromString C (XChaCha20Poly1305KeyFormatTP 0) (kt_value key_template) of
        None \<Rightarrow> Inl kInvalidArgument
      | Some proto_key_format \<Rightarrow>
          if uint_at proto_key_format 0 \<noteq> 0 then Inl kInvalidArgument
          else with_ok (ToVariant (kt_output_prefix_type key_template)) (\<lambda>v. XChaCha20Poly1305Parameters_Create v))"

definition XChaCha20Poly1305_SerializeParameters :: "crc_fns \<Rightarrow> (nat \<Rightarrow> byte) \<Rightarrow> XChaCha20Poly1305Parameters \<Rightarrow> KeyTemplate StatusOr option" where
  "XChaCha20Poly1305_SerializeParameters C junk p =
     (case ToOutputPrefixType (xchacha_variant p) of
        Inl e \<Rightarrow> Some (Inl e)
      | Inr prefix \<Rightarrow> parameters_serialization C junk XChaCha20Poly1305_TypeUrl prefix (XChaCha20Poly1305KeyFormatTP 0))"

definition XChaCha20Poly1305_ParseKey :: "crc_fns \<Rightarrow> ProtoKeySerialization \<Rightarrow> bool \<Rightarrow> XChaCha20Poly1305Key StatusOr" where
  "XChaCha20Poly1305_ParseKey C s token =
     (if pks_type_url s \<noteq> XChaCha20Poly1305_TypeUrl then Inl kInvalidArgument
      else if \<not> token then Inl kInvalidArgument
      else case ParseFromString C (XChaCha20Poly1305KeyTP C 0 None) (pks_serialized_key s) of
        None \<Rightarrow> Inl kInvalidArgument
      | Some proto_key \<Rightarrow>
          if uint_at proto_key 0 \<noteq> 0 then Inl kInvalidArgument
          else with_ok (ToVariant (pks_output_prefix_type s))
            (\<lambda>v. with_ok (XChaCha20Poly1305Parameters_Create v)
              (\<lambda>p. XChaCha20Poly1305Key_Create (xchacha_variant p) (bytes_at proto_key 1) (pks_id_requirement s))))"

definition XChaCha20Poly1305_SerializeKey :: "crc_fns \<Rightarrow> (nat \<Rightarrow> byte) \<Rightarrow> XChaCha20Poly1305Key \<Rightarrow> bool \<Rightarrow> ProtoKeySerialization StatusOr option" where
  "XChaCha20Poly1305_SerializeKey C junk key token =
     (if \<not> token then Some (Inl kInvalidArgument)
      else case ToOutputPrefixType (xchacha_variant (key_parameters key)) of
        Inl e \<Rightarrow> Some (Inl e)
      | Inr prefix \<Rightarrow>
          key_serialization C junk XChaCha20Poly1305_TypeUrl prefix (id_requirement key) (XChaCha20Poly1305KeyTP C 0 (Some (key_bytes key))))"

definition XChaCha20Poly1305Parameters_valid :: "XChaCha20Poly1305Parameters \<Rightarrow> bool" where
  "XChaCha20Poly1305Parameters_valid p \<longleftrightarrow> XChaCha20Poly1305Parameters_Create (xchacha_variant p) = Inr p"

definition XChaCha20Poly1305Key_valid :: "XChaCha20Poly1305Key \<Rightarrow> bool" where
  "XChaCha20Poly1305Key_valid k \<longleftrightarrow> XChaCha20Poly1305Parameters_valid (key_parameters k) \<and>
     XChaCha20Poly1305Key_Create (xchacha_variant (key_parameters k)) (key_bytes k) (id_requirement k) = Inr k"

subsection \<open>The format of XChaCha20-Poly1305 keys\<close>

lemma wf_XChaCha20Poly1305 [simp]: "wf_message C (XChaCha20Poly1305KeyFormatTP v)" "wf_message C (XChaCha20Poly1305KeyTP C v (Some kv))"
  by (simp_all add: wf_message_def message_defs FieldsAreSorted_def)

lemma Clear_XChaCha20Poly1305 [simp]: "Message_Clear (XChaCha20Poly1305KeyFormatTP v) = (XChaCha20Poly1305KeyFormatTP 0)"
    "Message_Clear (XChaCha20Poly1305KeyTP C v kv) = XChaCha20Poly1305KeyTP C 0 None"
  by (simp_all add: Message_Clear_def message_defs SecretDataField_Clear_def)

lemma XChaCha20Poly1305_access [simp]:
  "uint_at (XChaCha20Poly1305KeyFormatTP v) 0 = v"
  "uint_at (XChaCha20Poly1305KeyTP C v kvo) 0 = v" "bytes_at (XChaCha20Poly1305KeyTP C v (Some kv)) (Suc 0) = kv"
  by (simp_all add: message_defs access_defs)

lemma XChaCha20Poly1305KeyFormatTP_size: "length (message_bytes (XChaCha20Poly1305KeyFormatTP v)) < 2 ^ 32"
  using field_bytes_le(1) [of 1 kImplicit "Some v"]
  by (simp add: message_defs)

lemma XChaCha20Poly1305KeyTP_size: "length (message_bytes (XChaCha20Poly1305KeyTP C v (Some kv))) \<le> length kv + 40"
  using field_bytes_le(1) [of 1 kImplicit "Some v"] field_bytes_le(3) [of 3 kExplicit C kv]
  by (simp add: message_defs)

lemma XChaCha20Poly1305_url [simp]: "IsPrintableAscii XChaCha20Poly1305_TypeUrl"
  by (simp add: XChaCha20Poly1305_TypeUrl_def IsPrintableAscii_def ascii_def)

lemma XChaCha20Poly1305Parameters_Create_Inr:
  assumes "XChaCha20Poly1305Parameters_Create v = Inr p"
  shows "p = \<lparr>xchacha_variant = v\<rparr> \<and> v \<in> set supported_variants"
  using assms by (auto simp: XChaCha20Poly1305Parameters_Create_def split: if_split_asm)

lemma XChaCha20Poly1305Key_Create_Inr:
  assumes "XChaCha20Poly1305Key_Create v kb i = Inr k"
  shows "key_parameters k = \<lparr>xchacha_variant = v\<rparr> \<and> key_bytes k = kb \<and> id_requirement k = i \<and>
    length kb = 32 \<and> (i = None \<longleftrightarrow> v = kNoPrefix)"
  using assms by (auto simp: XChaCha20Poly1305Key_Create_def dest: XChaCha20Poly1305Parameters_Create_Inr split: if_split_asm)

interpretation xchacha20_poly1305_parameters: proto_format XChaCha20Poly1305_ParseParameters XChaCha20Poly1305_SerializeParameters XChaCha20Poly1305Parameters_valid
  "\<lambda>p. True" "\<lambda>p. True"
proof (unfold_locales, goal_cases)
  case (1 C t p)
  then obtain v where "XChaCha20Poly1305Parameters_Create v = Inr p"
    by (auto simp: XChaCha20Poly1305_ParseParameters_def Let_def split: if_split_asm option.split_asm)
  with XChaCha20Poly1305Parameters_Create_Inr [OF this] show ?case by (simp add: XChaCha20Poly1305Parameters_valid_def)
next
  case (2 C p junk)
  then have b: "XChaCha20Poly1305Parameters_Create (xchacha_variant p) = Inr p"
    by (auto simp: XChaCha20Poly1305Parameters_valid_def split: if_split_asm)
  note c = XChaCha20Poly1305Parameters_Create_Inr [OF b]
  from c obtain prefix where prefix: "ToOutputPrefixType (xchacha_variant p) = Inr prefix" using supported_prefix by blast
  show ?case
    by (rule parameters_roundtripI [where blank = "XChaCha20Poly1305KeyFormatTP 0" and url = XChaCha20Poly1305_TypeUrl and prefix = prefix
          and m = "XChaCha20Poly1305KeyFormatTP 0"])
      (use 2 b c prefix variant_roundtrip [OF prefix] XChaCha20Poly1305KeyFormatTP_size in
        \<open>simp_all add: XChaCha20Poly1305_SerializeParameters_def XChaCha20Poly1305_ParseParameters_def\<close>)
qed

interpretation xchacha20_poly1305_key: secret_key_format XChaCha20Poly1305_ParseKey XChaCha20Poly1305_SerializeKey XChaCha20Poly1305Key_valid "\<lambda>k. True" "\<lambda>k. True" XChaCha20Poly1305_TypeUrl
proof (unfold_locales, goal_cases)
  case (1 C s k)
  then obtain v p kb where b: "XChaCha20Poly1305Parameters_Create v = Inr p"
    and c: "XChaCha20Poly1305Key_Create (xchacha_variant p) kb (pks_id_requirement s) = Inr k"
    by (auto simp: XChaCha20Poly1305_ParseKey_def Let_def split: if_split_asm option.split_asm)
  from b XChaCha20Poly1305Parameters_Create_Inr [OF b] XChaCha20Poly1305Key_Create_Inr [OF c] c show ?case
    by (simp add: XChaCha20Poly1305Key_valid_def XChaCha20Poly1305Parameters_valid_def)
next
  case (2 C k junk)
  let ?p = "key_parameters k"
  from 2 have b: "XChaCha20Poly1305Parameters_Create (xchacha_variant ?p) = Inr ?p"
    and k: "XChaCha20Poly1305Key_Create (xchacha_variant ?p) (key_bytes k) (id_requirement k) = Inr k"
    by (auto simp: XChaCha20Poly1305Key_valid_def XChaCha20Poly1305Parameters_valid_def split: if_split_asm)
  note c = XChaCha20Poly1305Parameters_Create_Inr [OF b] and l = XChaCha20Poly1305Key_Create_Inr [OF k]
  from c obtain prefix where prefix: "ToOutputPrefixType (xchacha_variant ?p) = Inr prefix" using supported_prefix by blast
  show ?case
    by (rule key_roundtripI [where m = "XChaCha20Poly1305KeyTP C 0 (Some (key_bytes k))" and blank = "XChaCha20Poly1305KeyTP C 0 None"
          and url = XChaCha20Poly1305_TypeUrl and prefix = prefix and i = "id_requirement k"])
      (use 2 b c k l prefix variant_roundtrip [OF prefix] key_fits [OF XChaCha20Poly1305KeyTP_size] in
        \<open>simp_all add: XChaCha20Poly1305_SerializeKey_def XChaCha20Poly1305_ParseKey_def int_of_size_int\<close>)
qed (auto simp: XChaCha20Poly1305_ParseKey_def XChaCha20Poly1305_SerializeKey_def dest: key_serialization_shape split: if_split_asm sum.split_asm)

section \<open>X-AES-GCM\<close>

record XAesGcmParameters =
  xaes_variant :: Variant
  xaes_salt_size :: int

definition XAesGcmParameters_Create :: "Variant \<Rightarrow> int \<Rightarrow> XAesGcmParameters StatusOr" where
  "XAesGcmParameters_Create v salt_size =
     (if v \<noteq> kTink \<and> v \<noteq> kNoPrefix then Inl kInvalidArgument
      else if salt_size < 8 \<or> salt_size > 12 then Inl kInvalidArgument
      else Inr \<lparr>xaes_variant = v, xaes_salt_size = salt_size\<rparr>)"

fun XAesGcm_ComputeOutputPrefix :: "Variant \<Rightarrow> u32 option \<Rightarrow> bytes StatusOr" where
  "XAesGcm_ComputeOutputPrefix kNoPrefix _ = Inr []"
| "XAesGcm_ComputeOutputPrefix kTink i = prefix_with_id 1 i"
| "XAesGcm_ComputeOutputPrefix _ _ = Inl kInvalidArgument"

type_synonym XAesGcmKey = "(XAesGcmParameters, bytes) SymmetricKey"

definition XAesGcmKey_Create :: "XAesGcmParameters \<Rightarrow> bytes \<Rightarrow> u32 option \<Rightarrow> XAesGcmKey StatusOr" where
  "XAesGcmKey_Create p kb i =
     (if length kb \<noteq> 32 then Inl kInvalidArgument
      else create_with_id XAesGcm_ComputeOutputPrefix (xaes_variant p) p kb i)"

definition XAesGcm_TypeUrl :: bytes where
  "XAesGcm_TypeUrl = ascii ''type.googleapis.com/google.crypto.tink.XAesGcmKey''"

fun XAesGcm_ToVariant :: "OutputPrefixType \<Rightarrow> Variant StatusOr" where
  "XAesGcm_ToVariant RAW = Inr kNoPrefix"
| "XAesGcm_ToVariant TINK = Inr kTink"
| "XAesGcm_ToVariant _ = Inl kInvalidArgument"

fun XAesGcm_ToOutputPrefixType :: "Variant \<Rightarrow> OutputPrefixType StatusOr" where
  "XAesGcm_ToOutputPrefixType kNoPrefix = Inr RAW"
| "XAesGcm_ToOutputPrefixType kTink = Inr TINK"
| "XAesGcm_ToOutputPrefixType _ = Inl kInvalidArgument"

definition XAesGcmParamsTP :: "u32 \<Rightarrow> message" where [message_defs]:
  "XAesGcmParamsTP salt_size = [Uint32Field 1 kImplicit (Some salt_size)]"

definition XAesGcmKeyFormatTP :: "u32 \<Rightarrow> u32 option \<Rightarrow> message" where [message_defs]:
  "XAesGcmKeyFormatTP version params =
     [Uint32Field 1 kImplicit (Some version), MessageField 3 kExplicit (XAesGcmParamsTP 0) (map_option XAesGcmParamsTP params)]"

definition XAesGcmKeyTP :: "crc_fns \<Rightarrow> u32 \<Rightarrow> u32 option \<Rightarrow> bytes option \<Rightarrow> message" where [message_defs]:
  "XAesGcmKeyTP C version params kv =
     [Uint32Field 1 kImplicit (Some version),
      MessageField 2 kExplicit (XAesGcmParamsTP 0) (map_option XAesGcmParamsTP params),
      SecretDataField 3 kExplicit (map_option (SecretDataFromStringView C) kv)]"

definition XAesGcm_ParseParameters :: "crc_fns \<Rightarrow> KeyTemplate \<Rightarrow> XAesGcmParameters StatusOr" where
  "XAesGcm_ParseParameters C key_template =
     (if kt_type_url key_template \<noteq> XAesGcm_TypeUrl then Inl kInvalidArgument
      else case ParseFromString C (XAesGcmKeyFormatTP 0 None) (kt_value key_template) of
        None \<Rightarrow> Inl kInvalidArgument
      | Some proto_key_format \<Rightarrow>
          if uint_at proto_key_format 0 \<noteq> 0 then Inl kInvalidArgument
          else with_ok (XAesGcm_ToVariant (kt_output_prefix_type key_template))
            (\<lambda>v. XAesGcmParameters_Create v (int_of_uint32 (uint_at (sub_at proto_key_format 1 (XAesGcmParamsTP 0)) 0))))"

definition XAesGcm_SerializeParameters :: "crc_fns \<Rightarrow> (nat \<Rightarrow> byte) \<Rightarrow> XAesGcmParameters \<Rightarrow> KeyTemplate StatusOr option" where
  "XAesGcm_SerializeParameters C junk p =
     (case XAesGcm_ToOutputPrefixType (xaes_variant p) of
        Inl e \<Rightarrow> Some (Inl e)
      | Inr prefix \<Rightarrow>
          parameters_serialization C junk XAesGcm_TypeUrl prefix (XAesGcmKeyFormatTP 0 (Some (uint32_of_int (xaes_salt_size p)))))"

definition XAesGcm_ParseKey :: "crc_fns \<Rightarrow> ProtoKeySerialization \<Rightarrow> bool \<Rightarrow> XAesGcmKey StatusOr" where
  "XAesGcm_ParseKey C s token =
     (if pks_type_url s \<noteq> XAesGcm_TypeUrl then Inl kInvalidArgument
      else if \<not> token then Inl kPermissionDenied
      else case ParseFromString C (XAesGcmKeyTP C 0 None None) (pks_serialized_key s) of
        None \<Rightarrow> Inl kInvalidArgument
      | Some proto_key \<Rightarrow>
          if uint_at proto_key 0 \<noteq> 0 then Inl kInvalidArgument
          else with_ok (XAesGcm_ToVariant (pks_output_prefix_type s))
            (\<lambda>v. with_ok (XAesGcmParameters_Create v (int_of_uint32 (uint_at (sub_at proto_key 1 (XAesGcmParamsTP 0)) 0)))
              (\<lambda>p. XAesGcmKey_Create p (bytes_at proto_key 2) (pks_id_requirement s))))"

definition XAesGcm_SerializeKey :: "crc_fns \<Rightarrow> (nat \<Rightarrow> byte) \<Rightarrow> XAesGcmKey \<Rightarrow> bool \<Rightarrow> ProtoKeySerialization StatusOr option" where
  "XAesGcm_SerializeKey C junk key token =
     (if \<not> token then Some (Inl kPermissionDenied)
      else case XAesGcm_ToOutputPrefixType (xaes_variant (key_parameters key)) of
        Inl e \<Rightarrow> Some (Inl e)
      | Inr prefix \<Rightarrow>
          key_serialization C junk XAesGcm_TypeUrl prefix (id_requirement key)
            (XAesGcmKeyTP C 0 (Some (uint32_of_int (xaes_salt_size (key_parameters key)))) (Some (key_bytes key))))"

definition XAesGcmParameters_valid :: "XAesGcmParameters \<Rightarrow> bool" where
  "XAesGcmParameters_valid p \<longleftrightarrow> XAesGcmParameters_Create (xaes_variant p) (xaes_salt_size p) = Inr p"

definition XAesGcmKey_valid :: "XAesGcmKey \<Rightarrow> bool" where
  "XAesGcmKey_valid k \<longleftrightarrow> XAesGcmParameters_valid (key_parameters k) \<and>
     XAesGcmKey_Create (key_parameters k) (key_bytes k) (id_requirement k) = Inr k"

subsection \<open>The format of X-AES-GCM keys\<close>

lemma wf_XAesGcm [simp]: "wf_message C (XAesGcmKeyFormatTP v (Some salt))" "wf_message C (XAesGcmKeyTP C v (Some salt) (Some kv))"
  by (simp_all add: wf_message_def message_defs FieldsAreSorted_def Message_Clear_def)

lemma Clear_XAesGcm [simp]: "Message_Clear (XAesGcmKeyFormatTP v params) = XAesGcmKeyFormatTP 0 None"
    "Message_Clear (XAesGcmKeyTP C v params kv) = XAesGcmKeyTP C 0 None None"
  by (simp_all add: Message_Clear_def message_defs SecretDataField_Clear_def)

lemma XAesGcm_access [simp]:
  "uint_at (XAesGcmKeyFormatTP v po) 0 = v" "sub_at (XAesGcmKeyFormatTP v (Some salt)) (Suc 0) d = XAesGcmParamsTP salt"
  "uint_at (XAesGcmKeyTP C v po kvo) 0 = v" "sub_at (XAesGcmKeyTP C v (Some salt) kvo) (Suc 0) d = XAesGcmParamsTP salt"
  "bytes_at (XAesGcmKeyTP C v po (Some kv)) 2 = kv" "uint_at (XAesGcmParamsTP salt) 0 = salt"
  by (simp_all add: message_defs access_defs)

lemma XAesGcmKeyFormatTP_size: "length (message_bytes (XAesGcmKeyFormatTP v (Some salt))) < 2 ^ 32"
  using field_bytes_le(1) [of 1 kImplicit "Some v"] field_bytes_le(1) [of 1 kImplicit "Some salt"]
    field_bytes_le(5) [of 3 kExplicit "XAesGcmParamsTP 0" "XAesGcmParamsTP salt"]
  by (simp add: XAesGcmKeyFormatTP_def XAesGcmParamsTP_def)

lemma XAesGcmKeyTP_size: "length (message_bytes (XAesGcmKeyTP C v (Some salt) (Some kv))) \<le> length kv + 100"
  using field_bytes_le(1) [of 1 kImplicit "Some v"] field_bytes_le(3) [of 3 kExplicit C kv] field_bytes_le(1) [of 1 kImplicit "Some salt"]
    field_bytes_le(5) [of 2 kExplicit "XAesGcmParamsTP 0" "XAesGcmParamsTP salt"]
  by (simp add: XAesGcmKeyTP_def XAesGcmParamsTP_def)

lemma XAesGcm_url [simp]: "IsPrintableAscii XAesGcm_TypeUrl"
  by (simp add: XAesGcm_TypeUrl_def IsPrintableAscii_def ascii_def)

lemma XAesGcm_variant_roundtrip:
  "XAesGcm_ToOutputPrefixType v = Inr prefix \<Longrightarrow> XAesGcm_ToVariant prefix = Inr v \<and> (prefix = RAW \<longleftrightarrow> v = kNoPrefix)"
  by (cases v) auto

lemma XAesGcmParameters_Create_Inr:
  assumes "XAesGcmParameters_Create v salt = Inr p"
  shows "p = \<lparr>xaes_variant = v, xaes_salt_size = salt\<rparr> \<and> is_int salt \<and> (\<exists>prefix. XAesGcm_ToOutputPrefixType v = Inr prefix)"
  using assms by (auto simp: XAesGcmParameters_Create_def split: if_split_asm)

lemma XAesGcmKey_Create_Inr:
  assumes "XAesGcmKey_Create p kb i = Inr k"
  shows "key_parameters k = p \<and> key_bytes k = kb \<and> id_requirement k = i \<and>
    length kb = 32 \<and> (i = None \<longleftrightarrow> xaes_variant p = kNoPrefix)"
proof -
  have c: "length kb = 32" "create_with_id XAesGcm_ComputeOutputPrefix (xaes_variant p) p kb i = Inr k"
    using assms by (simp_all add: XAesGcmKey_Create_def split: if_split_asm)
  from create_with_id_Inr [OF c(2)] c(1) show ?thesis by simp
qed

interpretation x_aes_gcm_parameters: proto_format XAesGcm_ParseParameters XAesGcm_SerializeParameters XAesGcmParameters_valid
  "\<lambda>p. True" "\<lambda>p. True"
proof (unfold_locales, goal_cases)
  case (1 C t p)
  then obtain v salt where "XAesGcmParameters_Create v salt = Inr p"
    by (auto simp: XAesGcm_ParseParameters_def Let_def split: if_split_asm option.split_asm)
  with XAesGcmParameters_Create_Inr [OF this] show ?case by (simp add: XAesGcmParameters_valid_def)
next
  case (2 C p junk)
  then have b: "XAesGcmParameters_Create (xaes_variant p) (xaes_salt_size p) = Inr p"
    by (auto simp: XAesGcmParameters_valid_def split: if_split_asm)
  note c = XAesGcmParameters_Create_Inr [OF b]
  from c obtain prefix where prefix: "XAesGcm_ToOutputPrefixType (xaes_variant p) = Inr prefix" by blast
  show ?case
    by (rule parameters_roundtripI [where blank = "XAesGcmKeyFormatTP 0 None" and url = XAesGcm_TypeUrl and prefix = prefix
          and m = "XAesGcmKeyFormatTP 0 (Some (uint32_of_int (xaes_salt_size p)))"])
      (use 2 b c prefix XAesGcm_variant_roundtrip [OF prefix] XAesGcmKeyFormatTP_size in
        \<open>simp_all add: XAesGcm_SerializeParameters_def XAesGcm_ParseParameters_def\<close>)
qed

interpretation x_aes_gcm_key: secret_key_format XAesGcm_ParseKey XAesGcm_SerializeKey XAesGcmKey_valid "\<lambda>k. True" "\<lambda>k. True" XAesGcm_TypeUrl
proof (unfold_locales, goal_cases)
  case (1 C s k)
  then obtain v salt p kb where b: "XAesGcmParameters_Create v salt = Inr p"
    and c: "XAesGcmKey_Create p kb (pks_id_requirement s) = Inr k"
    by (auto simp: XAesGcm_ParseKey_def Let_def split: if_split_asm option.split_asm)
  from b XAesGcmParameters_Create_Inr [OF b] XAesGcmKey_Create_Inr [OF c] c show ?case
    by (simp add: XAesGcmKey_valid_def XAesGcmParameters_valid_def)
next
  case (2 C k junk)
  let ?p = "key_parameters k"
  from 2 have b: "XAesGcmParameters_Create (xaes_variant ?p) (xaes_salt_size ?p) = Inr ?p"
    and k: "XAesGcmKey_Create ?p (key_bytes k) (id_requirement k) = Inr k"
    by (auto simp: XAesGcmKey_valid_def XAesGcmParameters_valid_def split: if_split_asm)
  note c = XAesGcmParameters_Create_Inr [OF b] and l = XAesGcmKey_Create_Inr [OF k]
  from c obtain prefix where prefix: "XAesGcm_ToOutputPrefixType (xaes_variant ?p) = Inr prefix" by blast
  show ?case
    by (rule key_roundtripI [where m = "XAesGcmKeyTP C 0 (Some (uint32_of_int (xaes_salt_size ?p))) (Some (key_bytes k))" and blank = "XAesGcmKeyTP C 0 None None"
          and url = XAesGcm_TypeUrl and prefix = prefix and i = "id_requirement k"])
      (use 2 b c k l prefix XAesGcm_variant_roundtrip [OF prefix] key_fits [OF XAesGcmKeyTP_size] in
        \<open>simp_all add: XAesGcm_SerializeKey_def XAesGcm_ParseKey_def int_of_size_int\<close>)
qed (auto simp: XAesGcm_ParseKey_def XAesGcm_SerializeKey_def dest: key_serialization_shape split: if_split_asm sum.split_asm)

end
