(* ===== verification/Ctr_Hmac_Keys.thy ===== *)
theory Ctr_Hmac_Keys
  imports Mac_Keys
begin

text \<open>
  AES-CTR-HMAC AEAD keys: \<^verbatim>\<open>tink/aead/aes_ctr_hmac_aead_parameters.cc\<close>, \<^verbatim>\<open>aes_ctr_hmac_aead_key.cc\<close>, the
  messages of \<^verbatim>\<open>tink/aead/internal/aes_ctr_hmac_proto_structs.h\<close> and the proto serialization. A key has two
  secrets, and its messages contain the messages of an HMAC key.
\<close>

section \<open>AES-CTR-HMAC\<close>

record AesCtrHmacAeadParameters =
  ctr_aes_key_size :: int
  ctr_hmac_key_size :: int
  ctr_iv_size :: int
  ctr_tag_size :: int
  ctr_hash_type :: KeyHashType
  ctr_variant :: Variant

text \<open>The members of the builder are optional; the setters store a value.\<close>

definition AesCtrHmacAeadParameters_Build ::
    "int option \<Rightarrow> int option \<Rightarrow> int option \<Rightarrow> int option \<Rightarrow> KeyHashType option \<Rightarrow> Variant option \<Rightarrow>
     AesCtrHmacAeadParameters StatusOr" where
  "AesCtrHmacAeadParameters_Build aes_size mac_size iv_size tag_size hash_type variant =
     (case (aes_size, mac_size, iv_size, tag_size, hash_type, variant) of
        (Some aks, Some hks, Some iv, Some tag, Some h, Some v) \<Rightarrow>
          if aks \<noteq> 16 \<and> aks \<noteq> 24 \<and> aks \<noteq> 32 then Inl kInvalidArgument
          else if hks < 16 then Inl kInvalidArgument
          else if iv < 12 \<or> iv > 16 then Inl kInvalidArgument
          else if tag < 10 then Inl kInvalidArgument
          else (case max_tag_size h of
              None \<Rightarrow> Inl kInvalidArgument
            | Some largest \<Rightarrow>
                if tag > largest then Inl kInvalidArgument
                else if v \<notin> set supported_variants then Inl kInvalidArgument
                else Inr \<lparr>ctr_aes_key_size = aks, ctr_hmac_key_size = hks, ctr_iv_size = iv, ctr_tag_size = tag,
                          ctr_hash_type = h, ctr_variant = v\<rparr>)
      | _ \<Rightarrow> Inl kInvalidArgument)"

record AesCtrHmacKeyBytes =
  aes_key_bytes :: bytes
  hmac_key_bytes :: bytes

type_synonym AesCtrHmacAeadKey = "(AesCtrHmacAeadParameters, AesCtrHmacKeyBytes) SymmetricKey"

definition AesCtrHmacAeadKey_Build ::
    "AesCtrHmacAeadParameters option \<Rightarrow> bytes option \<Rightarrow> bytes option \<Rightarrow> u32 option \<Rightarrow> AesCtrHmacAeadKey StatusOr" where
  "AesCtrHmacAeadKey_Build parameters aes_bytes hmac_bytes i =
     (case (parameters, aes_bytes, hmac_bytes) of
        (Some p, Some ab, Some hb) \<Rightarrow>
          if ctr_aes_key_size p \<noteq> int (length ab) then Inl kInvalidArgument
          else if ctr_hmac_key_size p \<noteq> int (length hb) then Inl kInvalidArgument
          else create_with_id Key_ComputeOutputPrefix (ctr_variant p) p \<lparr>aes_key_bytes = ab, hmac_key_bytes = hb\<rparr> i
      | _ \<Rightarrow> Inl kInvalidArgument)"

definition AesCtrHmacAead_TypeUrl :: bytes where
  "AesCtrHmacAead_TypeUrl = ascii ''type.googleapis.com/google.crypto.tink.AesCtrHmacAeadKey''"

definition AesCtrParamsTP :: "u32 \<Rightarrow> message" where [message_defs]:
  "AesCtrParamsTP iv_size = [Uint32Field 1 kImplicit (Some iv_size)]"

definition AesCtrKeyFormatTP :: "u32 option \<Rightarrow> u32 \<Rightarrow> message" where [message_defs]:
  "AesCtrKeyFormatTP params key_size =
     [MessageField 1 kExplicit (AesCtrParamsTP 0) (map_option AesCtrParamsTP params), Uint32Field 2 kImplicit (Some key_size)]"

definition AesCtrHmacAeadKeyFormatTP :: "message option \<Rightarrow> message option \<Rightarrow> message" where [message_defs]:
  "AesCtrHmacAeadKeyFormatTP aes_ctr_key_format hmac_key_format =
     [MessageField 1 kExplicit (AesCtrKeyFormatTP None 0) aes_ctr_key_format,
      MessageField 2 kExplicit (HmacKeyFormatTP None 0 0) hmac_key_format]"

definition AesCtrKeyTP :: "crc_fns \<Rightarrow> u32 \<Rightarrow> u32 option \<Rightarrow> bytes option \<Rightarrow> message" where [message_defs]:
  "AesCtrKeyTP C version params kv =
     [Uint32Field 1 kImplicit (Some version),
      MessageField 2 kExplicit (AesCtrParamsTP 0) (map_option AesCtrParamsTP params),
      SecretDataField 3 kExplicit (map_option (SecretDataFromStringView C) kv)]"

definition AesCtrHmacAeadKeyTP :: "crc_fns \<Rightarrow> u32 \<Rightarrow> message option \<Rightarrow> message option \<Rightarrow> message" where [message_defs]:
  "AesCtrHmacAeadKeyTP C version aes_ctr_key hmac_key =
     [Uint32Field 1 kImplicit (Some version),
      MessageField 2 kExplicit (AesCtrKeyTP C 0 None None) aes_ctr_key,
      MessageField 3 kExplicit (HmacKeyTP C 0 None []) hmac_key]"

definition AesCtrHmacAead_ParseParameters :: "crc_fns \<Rightarrow> KeyTemplate \<Rightarrow> AesCtrHmacAeadParameters StatusOr" where
  "AesCtrHmacAead_ParseParameters C key_template =
     (if kt_type_url key_template \<noteq> AesCtrHmacAead_TypeUrl then Inl kInvalidArgument
      else case ParseFromString C (AesCtrHmacAeadKeyFormatTP None None) (kt_value key_template) of
        None \<Rightarrow> Inl kInvalidArgument
      | Some fmt \<Rightarrow>
          let aes = sub_at fmt 0 (AesCtrKeyFormatTP None 0);
              hmac = sub_at fmt 1 (HmacKeyFormatTP None 0 0);
              hmac_params = sub_at hmac 0 HmacParams_blank
          in if uint_at hmac 2 \<noteq> 0 then Inl kInvalidArgument
             else with_ok (ToVariant (kt_output_prefix_type key_template))
               (\<lambda>v. with_ok (ToHashType (HashTypeTP_of (uint_at hmac_params 0)))
                 (\<lambda>h. AesCtrHmacAeadParameters_Build (Some (int_of_uint32 (uint_at aes 1))) (Some (int_of_uint32 (uint_at hmac 1)))
                    (Some (int_of_uint32 (uint_at (sub_at aes 0 (AesCtrParamsTP 0)) 0))) (Some (int_of_uint32 (uint_at hmac_params 1)))
                    (Some h) (Some v))))"

definition AesCtrHmacAead_SerializeParameters ::
    "crc_fns \<Rightarrow> (nat \<Rightarrow> byte) \<Rightarrow> AesCtrHmacAeadParameters \<Rightarrow> KeyTemplate StatusOr option" where
  "AesCtrHmacAead_SerializeParameters C junk p =
     (case ToOutputPrefixType (ctr_variant p) of
        Inl e \<Rightarrow> Some (Inl e)
      | Inr prefix \<Rightarrow>
          case ToProtoHashType (ctr_hash_type p) of
            Inl e \<Rightarrow> Some (Inl e)
          | Inr hash_type \<Rightarrow>
              parameters_serialization C junk AesCtrHmacAead_TypeUrl prefix
                (AesCtrHmacAeadKeyFormatTP
                  (Some (AesCtrKeyFormatTP (Some (uint32_of_int (ctr_iv_size p))) (uint32_of_int (ctr_aes_key_size p))))
                  (Some (HmacKeyFormatTP (Some (hash_type, uint32_of_int (ctr_tag_size p))) (uint32_of_int (ctr_hmac_key_size p)) 0))))"

definition AesCtrHmacAead_ParseKey :: "crc_fns \<Rightarrow> ProtoKeySerialization \<Rightarrow> bool \<Rightarrow> AesCtrHmacAeadKey StatusOr" where
  "AesCtrHmacAead_ParseKey C s token =
     (if pks_type_url s \<noteq> AesCtrHmacAead_TypeUrl then Inl kInvalidArgument
      else if \<not> token then Inl kPermissionDenied
      else case ParseFromString C (AesCtrHmacAeadKeyTP C 0 None None) (pks_serialized_key s) of
        None \<Rightarrow> Inl kInvalidArgument
      | Some key \<Rightarrow>
          let aes = sub_at key 1 (AesCtrKeyTP C 0 None None);
              hmac = sub_at key 2 (HmacKeyTP C 0 None []);
              hmac_params = sub_at hmac 1 HmacParams_blank
          in if uint_at key 0 \<noteq> 0 then Inl kInvalidArgument
             else if uint_at aes 0 \<noteq> 0 then Inl kInvalidArgument
             else if uint_at hmac 0 \<noteq> 0 then Inl kInvalidArgument
             else with_ok (ToVariant (pks_output_prefix_type s))
               (\<lambda>v. with_ok (ToHashType (HashTypeTP_of (uint_at hmac_params 0)))
                 (\<lambda>h. with_ok (AesCtrHmacAeadParameters_Build
                       (Some (int_of_size (length (bytes_at aes 2)))) (Some (int_of_size (length (bytes_at hmac 2))))
                       (Some (int_of_uint32 (uint_at (sub_at aes 1 (AesCtrParamsTP 0)) 0))) (Some (int_of_uint32 (uint_at hmac_params 1)))
                       (Some h) (Some v))
                   (\<lambda>p. AesCtrHmacAeadKey_Build (Some p) (Some (bytes_at aes 2)) (Some (bytes_at hmac 2)) (pks_id_requirement s)))))"

definition AesCtrHmacAead_SerializeKey ::
    "crc_fns \<Rightarrow> (nat \<Rightarrow> byte) \<Rightarrow> AesCtrHmacAeadKey \<Rightarrow> bool \<Rightarrow> ProtoKeySerialization StatusOr option" where
  "AesCtrHmacAead_SerializeKey C junk key token =
     (let p = key_parameters key
      in if \<not> token then Some (Inl kPermissionDenied)
         else case ToProtoHashType (ctr_hash_type p) of
           Inl e \<Rightarrow> Some (Inl e)
         | Inr hash_type \<Rightarrow>
             case ToOutputPrefixType (ctr_variant p) of
               Inl e \<Rightarrow> Some (Inl e)
             | Inr prefix \<Rightarrow>
                 key_serialization C junk AesCtrHmacAead_TypeUrl prefix (id_requirement key)
                   (AesCtrHmacAeadKeyTP C 0
                     (Some (AesCtrKeyTP C 0 (Some (uint32_of_int (ctr_iv_size p))) (Some (aes_key_bytes (key_bytes key)))))
                     (Some (HmacKeyTP C 0 (Some (hash_type, uint32_of_int (ctr_tag_size p))) (hmac_key_bytes (key_bytes key))))))"

definition AesCtrHmacAeadParameters_valid :: "AesCtrHmacAeadParameters \<Rightarrow> bool" where
  "AesCtrHmacAeadParameters_valid p \<longleftrightarrow> is_int (ctr_hmac_key_size p) \<and>
     AesCtrHmacAeadParameters_Build (Some (ctr_aes_key_size p)) (Some (ctr_hmac_key_size p)) (Some (ctr_iv_size p))
       (Some (ctr_tag_size p)) (Some (ctr_hash_type p)) (Some (ctr_variant p)) = Inr p"

definition AesCtrHmacAeadKey_valid :: "AesCtrHmacAeadKey \<Rightarrow> bool" where
  "AesCtrHmacAeadKey_valid k \<longleftrightarrow> AesCtrHmacAeadParameters_valid (key_parameters k) \<and>
     AesCtrHmacAeadKey_Build (Some (key_parameters k)) (Some (aes_key_bytes (key_bytes k))) (Some (hmac_key_bytes (key_bytes k)))
       (id_requirement k) = Inr k"

subsection \<open>The format of AES-CTR-HMAC keys\<close>

lemma wf_AesCtr [simp]: "wf_message C (AesCtrKeyFormatTP (Some iv) ks)" "wf_message C (AesCtrKeyTP C v (Some iv) (Some kv))"
    "wf_message C (AesCtrKeyFormatTP None 0)" "wf_message C (AesCtrKeyTP C 0 None None)"
    "wf_message C (HmacKeyFormatTP None 0 0)" "wf_message C (HmacKeyTP C 0 None [])"
  by (simp_all add: wf_message_def message_defs FieldsAreSorted_def Message_Clear_def blank_hmac_params)

lemma Clear_AesCtr [simp]: "Message_Clear (AesCtrKeyFormatTP params ks) = AesCtrKeyFormatTP None 0"
    "Message_Clear (AesCtrKeyTP C v params kv) = AesCtrKeyTP C 0 None None"
  by (simp_all add: Message_Clear_def message_defs SecretDataField_Clear_def)

lemma wf_AesCtrHmacAead:
  assumes "HashTypeTP_IsValid (HashTypeTP_value h)"
  shows "wf_message C (AesCtrHmacAeadKeyFormatTP (Some (AesCtrKeyFormatTP (Some iv) aks)) (Some (HmacKeyFormatTP (Some (h, tag)) hks v)))"
    and "wf_message C (AesCtrHmacAeadKeyTP C v (Some (AesCtrKeyTP C v' (Some iv) (Some akv))) (Some (HmacKeyTP C v'' (Some (h, tag)) hkv)))"
  using wf_AesCtr [of C, unfolded wf_message_def] wf_Hmac [OF assms, of C, unfolded wf_message_def]
  by (simp_all add: wf_message_def AesCtrHmacAeadKeyFormatTP_def AesCtrHmacAeadKeyTP_def FieldsAreSorted_def)

lemma Clear_AesCtrHmacAead [simp]:
  "Message_Clear (AesCtrHmacAeadKeyFormatTP aes hmac) = AesCtrHmacAeadKeyFormatTP None None"
  "Message_Clear (AesCtrHmacAeadKeyTP C v aes hmac) = AesCtrHmacAeadKeyTP C 0 None None"
  by (simp_all add: Message_Clear_def AesCtrHmacAeadKeyFormatTP_def AesCtrHmacAeadKeyTP_def)

lemma AesCtrHmacAead_access [simp]:
  "sub_at (AesCtrKeyFormatTP (Some iv) ks) 0 d = AesCtrParamsTP iv" "uint_at (AesCtrKeyFormatTP po ks) (Suc 0) = ks"
  "uint_at (AesCtrKeyTP C v po kvo) 0 = v" "sub_at (AesCtrKeyTP C v (Some iv) kvo) (Suc 0) d = AesCtrParamsTP iv"
  "bytes_at (AesCtrKeyTP C v po (Some kv)) 2 = kv" "uint_at (AesCtrParamsTP iv) 0 = iv"
  "sub_at (AesCtrHmacAeadKeyFormatTP (Some aes) hmac) 0 d = aes" "sub_at (AesCtrHmacAeadKeyFormatTP aeso (Some hm)) (Suc 0) d = hm"
  "uint_at (AesCtrHmacAeadKeyTP C v aeso hmac) 0 = v" "sub_at (AesCtrHmacAeadKeyTP C v (Some aes) hmac) (Suc 0) d = aes"
  "sub_at (AesCtrHmacAeadKeyTP C v aeso (Some hm)) 2 d = hm"
  by (simp_all add: AesCtrKeyFormatTP_def AesCtrKeyTP_def AesCtrParamsTP_def AesCtrHmacAeadKeyFormatTP_def AesCtrHmacAeadKeyTP_def access_defs)

lemma AesCtrKeyFormatTP_size: "length (message_bytes (AesCtrKeyFormatTP (Some iv) ks)) \<le> 60"
  using field_bytes_le(1) [of 2 kImplicit "Some ks"] field_bytes_le(1) [of 1 kImplicit "Some iv"]
    field_bytes_le(5) [of 1 kExplicit "AesCtrParamsTP 0" "AesCtrParamsTP iv"]
  by (simp add: AesCtrKeyFormatTP_def AesCtrParamsTP_def)

lemma AesCtrKeyTP_size: "length (message_bytes (AesCtrKeyTP C v (Some iv) (Some kv))) \<le> length kv + 100"
  using field_bytes_le(1) [of 1 kImplicit "Some v"] field_bytes_le(3) [of 3 kExplicit C kv] field_bytes_le(1) [of 1 kImplicit "Some iv"]
    field_bytes_le(5) [of 2 kExplicit "AesCtrParamsTP 0" "AesCtrParamsTP iv"]
  by (simp add: AesCtrKeyTP_def AesCtrParamsTP_def)

lemma HmacKeyFormatTP_small: "length (message_bytes (HmacKeyFormatTP (Some params) ks v)) \<le> 100"
  using field_bytes_le(1) [of 2 kImplicit "Some ks"] field_bytes_le(1) [of 3 kImplicit "Some v"] HmacParamsTP_size [of params]
    field_bytes_le(5) [of 1 kExplicit HmacParams_blank "HmacParamsTP params"]
  by (simp add: HmacKeyFormatTP_def)

lemma AesCtrHmacAeadKeyFormatTP_size:
  "length (message_bytes (AesCtrHmacAeadKeyFormatTP (Some (AesCtrKeyFormatTP (Some iv) aks)) (Some (HmacKeyFormatTP (Some params) hks v)))) < 2 ^ 32"
  using AesCtrKeyFormatTP_size [of iv aks] HmacKeyFormatTP_small [of params hks v]
    field_bytes_le(5) [of 1 kExplicit "AesCtrKeyFormatTP None 0" "AesCtrKeyFormatTP (Some iv) aks"]
    field_bytes_le(5) [of 2 kExplicit "HmacKeyFormatTP None 0 0" "HmacKeyFormatTP (Some params) hks v"]
  by (simp add: AesCtrHmacAeadKeyFormatTP_def)

lemma AesCtrHmacAeadKeyTP_size:
  "length (message_bytes (AesCtrHmacAeadKeyTP C v (Some (AesCtrKeyTP C v' (Some iv) (Some akv))) (Some (HmacKeyTP C v'' (Some params) hkv))))
     \<le> length hkv + (length akv + 260)"
  using AesCtrKeyTP_size [of C v' iv akv] HmacKeyTP_size [of C v'' params hkv] field_bytes_le(1) [of 1 kImplicit "Some v"]
    field_bytes_le(5) [of 2 kExplicit "AesCtrKeyTP C 0 None None" "AesCtrKeyTP C v' (Some iv) (Some akv)"]
    field_bytes_le(5) [of 3 kExplicit "HmacKeyTP C 0 None []" "HmacKeyTP C v'' (Some params) hkv"]
  by (simp add: AesCtrHmacAeadKeyTP_def)

lemma AesCtrHmacAead_url [simp]: "IsPrintableAscii AesCtrHmacAead_TypeUrl"
  by (simp add: AesCtrHmacAead_TypeUrl_def IsPrintableAscii_def ascii_def)

lemma AesCtrHmacAeadParameters_Build_Inr:
  assumes "AesCtrHmacAeadParameters_Build (Some aks) (Some hks) (Some iv) (Some tag) (Some h) (Some v) = Inr p"
  shows "p = \<lparr>ctr_aes_key_size = aks, ctr_hmac_key_size = hks, ctr_iv_size = iv, ctr_tag_size = tag, ctr_hash_type = h, ctr_variant = v\<rparr>"
    and "v \<in> set supported_variants" and "\<exists>t. ToProtoHashType h = Inr t" and "is_int tag" and "is_int iv" and "is_int aks" and "aks \<le> 32"
proof -
  obtain n where n: "max_tag_size h = Some n" "10 \<le> tag" "tag \<le> n"
    and r: "p = \<lparr>ctr_aes_key_size = aks, ctr_hmac_key_size = hks, ctr_iv_size = iv, ctr_tag_size = tag, ctr_hash_type = h, ctr_variant = v\<rparr>"
      "v \<in> set supported_variants" "12 \<le> iv" "iv \<le> 16" "aks = 16 \<or> aks = 24 \<or> aks = 32"
    using assms by (auto simp: AesCtrHmacAeadParameters_Build_def split: if_split_asm option.split_asm)
  have "n \<le> 64" using n(1) by (cases h) auto
  with n r max_tag_size_proto [of h n] show "\<exists>t. ToProtoHashType h = Inr t" "is_int tag" "is_int iv" "is_int aks" "aks \<le> 32"
    by auto
  show "p = \<lparr>ctr_aes_key_size = aks, ctr_hmac_key_size = hks, ctr_iv_size = iv, ctr_tag_size = tag, ctr_hash_type = h, ctr_variant = v\<rparr>"
    "v \<in> set supported_variants" by (fact r)+
qed

lemma AesCtrHmacAeadKey_Build_Inr:
  assumes "AesCtrHmacAeadKey_Build (Some p) (Some ab) (Some hb) i = Inr k"
  shows "key_parameters k = p \<and> key_bytes k = \<lparr>aes_key_bytes = ab, hmac_key_bytes = hb\<rparr> \<and> id_requirement k = i \<and>
    ctr_aes_key_size p = int (length ab) \<and> ctr_hmac_key_size p = int (length hb) \<and> (i = None \<longleftrightarrow> ctr_variant p = kNoPrefix)"
proof -
  have c: "ctr_aes_key_size p = int (length ab)" "ctr_hmac_key_size p = int (length hb)"
    "create_with_id Key_ComputeOutputPrefix (ctr_variant p) p \<lparr>aes_key_bytes = ab, hmac_key_bytes = hb\<rparr> i = Inr k"
    using assms by (simp_all add: AesCtrHmacAeadKey_Build_def split: if_split_asm)
  from create_with_id_Inr [OF c(3)] c(1,2) show ?thesis by simp
qed

interpretation aes_ctr_hmac_parameters: proto_format AesCtrHmacAead_ParseParameters AesCtrHmacAead_SerializeParameters
  AesCtrHmacAeadParameters_valid "\<lambda>p. True" "\<lambda>p. True"
proof (unfold_locales, goal_cases)
  case (1 C t p)
  then obtain aks hks iv tag h v
    where "AesCtrHmacAeadParameters_Build (Some aks) (Some (int_of_uint32 hks)) (Some iv) (Some tag) (Some h) (Some v) = Inr p"
    by (auto simp: AesCtrHmacAead_ParseParameters_def Let_def split: if_split_asm option.split_asm)
  with AesCtrHmacAeadParameters_Build_Inr(1) [OF this] show ?case by (simp add: AesCtrHmacAeadParameters_valid_def)
next
  case (2 C p junk)
  then have b: "is_int (ctr_hmac_key_size p)" "AesCtrHmacAeadParameters_Build (Some (ctr_aes_key_size p)) (Some (ctr_hmac_key_size p))
      (Some (ctr_iv_size p)) (Some (ctr_tag_size p)) (Some (ctr_hash_type p)) (Some (ctr_variant p)) = Inr p"
    by (simp_all add: AesCtrHmacAeadParameters_valid_def)
  note c = AesCtrHmacAeadParameters_Build_Inr [OF b(2)]
  from c obtain prefix where prefix: "ToOutputPrefixType (ctr_variant p) = Inr prefix" using supported_prefix by blast
  from c obtain t where t: "ToProtoHashType (ctr_hash_type p) = Inr t" by blast
  show ?case
    by (rule parameters_roundtripI [where blank = "AesCtrHmacAeadKeyFormatTP None None" and url = AesCtrHmacAead_TypeUrl and prefix = prefix
          and m = "AesCtrHmacAeadKeyFormatTP (Some (AesCtrKeyFormatTP (Some (uint32_of_int (ctr_iv_size p))) (uint32_of_int (ctr_aes_key_size p))))
                     (Some (HmacKeyFormatTP (Some (t, uint32_of_int (ctr_tag_size p))) (uint32_of_int (ctr_hmac_key_size p)) 0))"])
      (use b c(2-6) prefix variant_roundtrip [OF prefix] t hash_roundtrip [OF t] AesCtrHmacAeadKeyFormatTP_size in
        \<open>simp_all add: AesCtrHmacAead_SerializeParameters_def AesCtrHmacAead_ParseParameters_def wf_AesCtrHmacAead\<close>)
qed

interpretation aes_ctr_hmac_key: secret_key_format AesCtrHmacAead_ParseKey AesCtrHmacAead_SerializeKey AesCtrHmacAeadKey_valid
  "\<lambda>k. True" "\<lambda>k. True" AesCtrHmacAead_TypeUrl
proof (unfold_locales, goal_cases)
  case (1 C s k)
  then obtain aks iv tag h v p ab hb
    where b: "AesCtrHmacAeadParameters_Build (Some aks) (Some (int_of_size (length hb))) (Some iv) (Some tag) (Some h) (Some v) = Inr p"
      and c: "AesCtrHmacAeadKey_Build (Some p) (Some ab) (Some hb) (pks_id_requirement s) = Inr k"
    by (auto simp: AesCtrHmacAead_ParseKey_def Let_def split: if_split_asm option.split_asm)
  from b AesCtrHmacAeadParameters_Build_Inr(1) [OF b] AesCtrHmacAeadKey_Build_Inr [OF c] c int_of_size_is_int [of "length hb"] show ?case
    by (simp add: AesCtrHmacAeadKey_valid_def AesCtrHmacAeadParameters_valid_def)
next
  case (2 C k junk)
  let ?p = "key_parameters k" and ?ab = "aes_key_bytes (key_bytes k)" and ?hb = "hmac_key_bytes (key_bytes k)"
  from 2 have b: "is_int (ctr_hmac_key_size ?p)"
    "AesCtrHmacAeadParameters_Build (Some (ctr_aes_key_size ?p)) (Some (ctr_hmac_key_size ?p))
      (Some (ctr_iv_size ?p)) (Some (ctr_tag_size ?p)) (Some (ctr_hash_type ?p)) (Some (ctr_variant ?p)) = Inr ?p"
    and k: "AesCtrHmacAeadKey_Build (Some ?p) (Some ?ab) (Some ?hb) (id_requirement k) = Inr k"
    by (simp_all add: AesCtrHmacAeadKey_valid_def AesCtrHmacAeadParameters_valid_def)
  note c = AesCtrHmacAeadParameters_Build_Inr [OF b(2)] and l = AesCtrHmacAeadKey_Build_Inr [OF k]
  from c obtain prefix where prefix: "ToOutputPrefixType (ctr_variant ?p) = Inr prefix" using supported_prefix by blast
  from c obtain t where t: "ToProtoHashType (ctr_hash_type ?p) = Inr t" by blast
  show ?case
    by (rule key_roundtripI [where blank = "AesCtrHmacAeadKeyTP C 0 None None" and url = AesCtrHmacAead_TypeUrl and prefix = prefix
          and i = "id_requirement k"
          and m = "AesCtrHmacAeadKeyTP C 0 (Some (AesCtrKeyTP C 0 (Some (uint32_of_int (ctr_iv_size ?p))) (Some ?ab)))
                     (Some (HmacKeyTP C 0 (Some (t, uint32_of_int (ctr_tag_size ?p))) ?hb))"])
      (use 2 b c(2-7) k l prefix variant_roundtrip [OF prefix] t hash_roundtrip [OF t] key_fits [OF AesCtrHmacAeadKeyTP_size] in
        \<open>simp_all add: AesCtrHmacAead_SerializeKey_def AesCtrHmacAead_ParseKey_def wf_AesCtrHmacAead int_of_size_int Let_def\<close>)
qed (auto simp: AesCtrHmacAead_ParseKey_def AesCtrHmacAead_SerializeKey_def Let_def
    dest: key_serialization_shape split: if_split_asm sum.split_asm)

end
