(* ===== verification/Prf_Keys.thy ===== *)
theory Prf_Keys
  imports Key_Serialization
begin

text \<open>
  PRF keys: parameters and keys of \<^verbatim>\<open>tink/prf/\<close> (HMAC, HKDF and AES-CMAC) and their proto serializations
  in \<^verbatim>\<open>tink/prf/internal/\<close>. PRFs have no output prefix: only the prefix type RAW is accepted.
\<close>

definition supported_hashes :: "KeyHashType list" where
  "supported_hashes = [kSha1, kSha224, kSha256, kSha384, kSha512]"

lemma supported_hashes_proto: "h \<in> set supported_hashes \<Longrightarrow> \<exists>t. ToProtoHashType h = Inr t"
  by (auto simp: supported_hashes_def)

section \<open>HMAC PRF\<close>

record HmacPrfParameters =
  hmacprf_key_size :: int
  hmacprf_hash_type :: KeyHashType

definition HmacPrfParameters_Create :: "int \<Rightarrow> KeyHashType \<Rightarrow> HmacPrfParameters StatusOr" where
  "HmacPrfParameters_Create key_size h =
     (if key_size < 16 then Inl kInvalidArgument
      else if h \<notin> set supported_hashes then Inl kInvalidArgument
      else Inr \<lparr>hmacprf_key_size = key_size, hmacprf_hash_type = h\<rparr>)"

type_synonym HmacPrfKey = "HmacPrfParameters RawKey"

definition HmacPrfKey_Create :: "HmacPrfParameters \<Rightarrow> bytes \<Rightarrow> HmacPrfKey StatusOr" where
  "HmacPrfKey_Create p kb =
     (if hmacprf_key_size p \<noteq> int (length kb) then Inl kInvalidArgument
      else Inr \<lparr>raw_parameters = p, raw_key_bytes = kb\<rparr>)"

definition HmacPrf_TypeUrl :: bytes where
  "HmacPrf_TypeUrl = ascii ''type.googleapis.com/google.crypto.tink.HmacPrfKey''"

definition HmacPrfParamsTP :: "HashTypeTP option \<Rightarrow> message" where [message_defs]:
  "HmacPrfParamsTP h = [EnumField 1 HashTypeTP_IsValid 0 kExplicit (map_option HashTypeTP_value h)]"

definition HmacPrfKeyTP :: "crc_fns \<Rightarrow> u32 \<Rightarrow> message option \<Rightarrow> bytes option \<Rightarrow> message" where [message_defs]:
  "HmacPrfKeyTP C version params kv =
     [Uint32Field 1 kImplicit (Some version), MessageField 2 kExplicit (HmacPrfParamsTP None) params,
      SecretDataField 3 kExplicit (map_option (SecretDataFromStringView C) kv)]"

definition HmacPrfKeyFormatTP :: "message option \<Rightarrow> u32 \<Rightarrow> u32 \<Rightarrow> message" where [message_defs]:
  "HmacPrfKeyFormatTP params key_size version =
     [MessageField 1 kExplicit (HmacPrfParamsTP None) params,
      Uint32Field 2 kImplicit (Some key_size), Uint32Field 3 kImplicit (Some version)]"

definition HmacPrf_ParseParameters :: "crc_fns \<Rightarrow> KeyTemplate \<Rightarrow> HmacPrfParameters StatusOr" where
  "HmacPrf_ParseParameters C key_template =
     (if kt_type_url key_template \<noteq> HmacPrf_TypeUrl then Inl kInvalidArgument
      else if kt_output_prefix_type key_template \<noteq> RAW then Inl kInvalidArgument
      else case ParseFromString C (HmacPrfKeyFormatTP None 0 0) (kt_value key_template) of
        None \<Rightarrow> Inl kInvalidArgument
      | Some proto_key_format \<Rightarrow>
          if uint_at proto_key_format 2 \<noteq> 0 then Inl kInvalidArgument
          else with_ok (ToHashType (HashTypeTP_of (uint_at (sub_at proto_key_format 0 (HmacPrfParamsTP None)) 0)))
            (\<lambda>h. HmacPrfParameters_Create (int_of_uint32 (uint_at proto_key_format 1)) h))"

definition HmacPrf_SerializeParameters :: "crc_fns \<Rightarrow> (nat \<Rightarrow> byte) \<Rightarrow> HmacPrfParameters \<Rightarrow> KeyTemplate StatusOr option" where
  "HmacPrf_SerializeParameters C junk p =
     (case ToProtoHashType (hmacprf_hash_type p) of
        Inl e \<Rightarrow> Some (Inl e)
      | Inr h \<Rightarrow>
          parameters_serialization C junk HmacPrf_TypeUrl RAW
            (HmacPrfKeyFormatTP (Some (HmacPrfParamsTP (Some h))) (uint32_of_int (hmacprf_key_size p)) 0))"

definition HmacPrf_ParseKey :: "crc_fns \<Rightarrow> ProtoKeySerialization \<Rightarrow> bool \<Rightarrow> HmacPrfKey StatusOr" where
  "HmacPrf_ParseKey C s token =
     (if pks_type_url s \<noteq> HmacPrf_TypeUrl then Inl kInvalidArgument
      else if \<not> token then Inl kPermissionDenied
      else if pks_output_prefix_type s \<noteq> RAW then Inl kInvalidArgument
      else case ParseFromString C (HmacPrfKeyTP C 0 None None) (pks_serialized_key s) of
        None \<Rightarrow> Inl kInvalidArgument
      | Some proto_key \<Rightarrow>
          if uint_at proto_key 0 \<noteq> 0 then Inl kInvalidArgument
          else with_ok (ToHashType (HashTypeTP_of (uint_at (sub_at proto_key 1 (HmacPrfParamsTP None)) 0)))
            (\<lambda>h. with_ok (HmacPrfParameters_Create (int_of_size (length (bytes_at proto_key 2))) h)
              (\<lambda>p. HmacPrfKey_Create p (bytes_at proto_key 2))))"

definition HmacPrf_SerializeKey :: "crc_fns \<Rightarrow> (nat \<Rightarrow> byte) \<Rightarrow> HmacPrfKey \<Rightarrow> bool \<Rightarrow> ProtoKeySerialization StatusOr option" where
  "HmacPrf_SerializeKey C junk key token =
     (if \<not> token then Some (Inl kPermissionDenied)
      else case ToProtoHashType (hmacprf_hash_type (raw_parameters key)) of
        Inl e \<Rightarrow> Some (Inl e)
      | Inr h \<Rightarrow>
          key_serialization C junk HmacPrf_TypeUrl RAW None
            (HmacPrfKeyTP C 0 (Some (HmacPrfParamsTP (Some h))) (Some (raw_key_bytes key))))"

definition HmacPrfParameters_valid :: "HmacPrfParameters \<Rightarrow> bool" where
  "HmacPrfParameters_valid p \<longleftrightarrow> is_int (hmacprf_key_size p) \<and>
     HmacPrfParameters_Create (hmacprf_key_size p) (hmacprf_hash_type p) = Inr p"

definition HmacPrfKey_valid :: "HmacPrfKey \<Rightarrow> bool" where
  "HmacPrfKey_valid k \<longleftrightarrow> HmacPrfParameters_valid (raw_parameters k) \<and>
     HmacPrfKey_Create (raw_parameters k) (raw_key_bytes k) = Inr k"

subsection \<open>The format of HMAC PRF keys\<close>

lemma wf_HmacPrf:
  assumes "HashTypeTP_IsValid (HashTypeTP_value h)"
  shows "wf_message C (HmacPrfKeyFormatTP (Some (HmacPrfParamsTP (Some h))) ks v)"
    and "wf_message C (HmacPrfKeyTP C v (Some (HmacPrfParamsTP (Some h))) (Some kv))"
  using assms by (simp_all add: wf_message_def message_defs FieldsAreSorted_def Message_Clear_def EnumField_Clear_def)

lemma Clear_HmacPrf [simp]: "Message_Clear (HmacPrfKeyFormatTP params ks v) = HmacPrfKeyFormatTP None 0 0"
    "Message_Clear (HmacPrfKeyTP C v params kv) = HmacPrfKeyTP C 0 None None"
  by (simp_all add: Message_Clear_def HmacPrfKeyFormatTP_def HmacPrfKeyTP_def SecretDataField_Clear_def)

lemma HmacPrf_access [simp]:
  "sub_at (HmacPrfKeyFormatTP (Some params) ks v) 0 d = params" "uint_at (HmacPrfKeyFormatTP po ks v) (Suc 0) = ks"
  "uint_at (HmacPrfKeyFormatTP po ks v) 2 = v" "uint_at (HmacPrfKeyTP C v po kvo) 0 = v"
  "sub_at (HmacPrfKeyTP C v (Some params) kvo) (Suc 0) d = params" "bytes_at (HmacPrfKeyTP C v po (Some kv)) 2 = kv"
  "uint_at (HmacPrfParamsTP (Some h)) 0 = HashTypeTP_value h"
  by (simp_all add: message_defs access_defs)

lemma HmacPrfKeyFormatTP_size: "length (message_bytes (HmacPrfKeyFormatTP (Some (HmacPrfParamsTP (Some h))) ks v)) < 2 ^ 32"
  using field_bytes_le(1) [of 2 kImplicit "Some ks"] field_bytes_le(1) [of 3 kImplicit "Some v"]
    field_bytes_le(2) [of 1 HashTypeTP_IsValid 0 kExplicit "Some (HashTypeTP_value h)"]
    field_bytes_le(5) [of 1 kExplicit "HmacPrfParamsTP None" "HmacPrfParamsTP (Some h)"]
  by (simp add: HmacPrfKeyFormatTP_def HmacPrfParamsTP_def)

lemma HmacPrfKeyTP_size: "length (message_bytes (HmacPrfKeyTP C v (Some (HmacPrfParamsTP (Some h))) (Some kv))) \<le> length kv + 100"
  using field_bytes_le(1) [of 1 kImplicit "Some v"] field_bytes_le(3) [of 3 kExplicit C kv]
    field_bytes_le(2) [of 1 HashTypeTP_IsValid 0 kExplicit "Some (HashTypeTP_value h)"]
    field_bytes_le(5) [of 2 kExplicit "HmacPrfParamsTP None" "HmacPrfParamsTP (Some h)"]
  by (simp add: HmacPrfKeyTP_def HmacPrfParamsTP_def)

lemma HmacPrf_url [simp]: "IsPrintableAscii HmacPrf_TypeUrl"
  by (simp add: HmacPrf_TypeUrl_def IsPrintableAscii_def ascii_def)

lemma HmacPrfParameters_Create_Inr:
  assumes "HmacPrfParameters_Create ks h = Inr p"
  shows "p = \<lparr>hmacprf_key_size = ks, hmacprf_hash_type = h\<rparr> \<and> (\<exists>t. ToProtoHashType h = Inr t)"
  using assms supported_hashes_proto by (auto simp: HmacPrfParameters_Create_def split: if_split_asm)

lemma HmacPrfKey_Create_Inr:
  "HmacPrfKey_Create p kb = Inr k \<Longrightarrow> raw_parameters k = p \<and> raw_key_bytes k = kb \<and> hmacprf_key_size p = int (length kb)"
  by (auto simp: HmacPrfKey_Create_def split: if_split_asm)

interpretation hmac_prf_parameters: proto_format HmacPrf_ParseParameters HmacPrf_SerializeParameters HmacPrfParameters_valid
  "\<lambda>p. True" "\<lambda>p. True"
proof (unfold_locales, goal_cases)
  case (1 C t p)
  then obtain w h where b: "HmacPrfParameters_Create (int_of_uint32 w) h = Inr p"
    by (auto simp: HmacPrf_ParseParameters_def Let_def split: if_split_asm option.split_asm)
  with HmacPrfParameters_Create_Inr [OF b] show ?case by (auto simp: HmacPrfParameters_valid_def)
next
  case (2 C p junk)
  then have b: "HmacPrfParameters_Create (hmacprf_key_size p) (hmacprf_hash_type p) = Inr p" "is_int (hmacprf_key_size p)"
    by (auto simp: HmacPrfParameters_valid_def)
  note c = HmacPrfParameters_Create_Inr [OF b(1)]
  from c obtain h where h: "ToProtoHashType (hmacprf_hash_type p) = Inr h" by blast
  show ?case
    by (rule parameters_roundtripI [where blank = "HmacPrfKeyFormatTP None 0 0" and url = HmacPrf_TypeUrl and prefix = RAW
          and m = "HmacPrfKeyFormatTP (Some (HmacPrfParamsTP (Some h))) (uint32_of_int (hmacprf_key_size p)) 0"])
      (use 2 b c h hash_roundtrip [OF h] HmacPrfKeyFormatTP_size in
        \<open>simp_all add: HmacPrf_SerializeParameters_def HmacPrf_ParseParameters_def wf_HmacPrf\<close>)
qed

interpretation hmac_prf_key: secret_key_format HmacPrf_ParseKey HmacPrf_SerializeKey HmacPrfKey_valid "\<lambda>k. True" "\<lambda>k. True" HmacPrf_TypeUrl
proof (unfold_locales, goal_cases)
  case (1 C s k)
  then obtain h p kb where b: "HmacPrfParameters_Create (int_of_size (length kb)) h = Inr p"
    and c: "HmacPrfKey_Create p kb = Inr k"
    by (auto simp: HmacPrf_ParseKey_def Let_def split: if_split_asm option.split_asm)
  from b HmacPrfParameters_Create_Inr [OF b] HmacPrfKey_Create_Inr [OF c] c int_of_size_is_int [of "length kb"] show ?case
    by (auto simp: HmacPrfKey_valid_def HmacPrfParameters_valid_def)
next
  case (2 C k junk)
  let ?p = "raw_parameters k"
  from 2 have b: "HmacPrfParameters_Create (hmacprf_key_size ?p) (hmacprf_hash_type ?p) = Inr ?p" "is_int (hmacprf_key_size ?p)"
    and k: "HmacPrfKey_Create ?p (raw_key_bytes k) = Inr k"
    by (auto simp: HmacPrfKey_valid_def HmacPrfParameters_valid_def)
  note c = HmacPrfParameters_Create_Inr [OF b(1)] and l = HmacPrfKey_Create_Inr [OF k]
  from c obtain h where h: "ToProtoHashType (hmacprf_hash_type ?p) = Inr h" by blast
  show ?case
    by (rule key_roundtripI [where m = "HmacPrfKeyTP C 0 (Some (HmacPrfParamsTP (Some h))) (Some (raw_key_bytes k))" and blank = "HmacPrfKeyTP C 0 None None"
          and url = HmacPrf_TypeUrl and prefix = RAW and i = None])
      (use 2 b c k l h hash_roundtrip [OF h] key_fits [OF HmacPrfKeyTP_size] in
        \<open>simp_all add: HmacPrf_SerializeKey_def HmacPrf_ParseKey_def int_of_size_int wf_HmacPrf\<close>)
qed (auto simp: HmacPrf_ParseKey_def HmacPrf_SerializeKey_def wf_HmacPrf dest: key_serialization_shape split: if_split_asm sum.split_asm)

section \<open>AES-CMAC PRF\<close>

record AesCmacPrfParameters =
  cmacprf_key_size :: int

definition AesCmacPrfParameters_Create :: "int \<Rightarrow> AesCmacPrfParameters StatusOr" where
  "AesCmacPrfParameters_Create key_size =
     (if key_size \<noteq> 16 \<and> key_size \<noteq> 32 then Inl kInvalidArgument else Inr \<lparr>cmacprf_key_size = key_size\<rparr>)"

type_synonym AesCmacPrfKey = "AesCmacPrfParameters RawKey"

definition AesCmacPrfKey_Create :: "bytes \<Rightarrow> AesCmacPrfKey StatusOr" where
  "AesCmacPrfKey_Create kb =
     with_ok (AesCmacPrfParameters_Create (int_of_size (length kb))) (\<lambda>p. Inr \<lparr>raw_parameters = p, raw_key_bytes = kb\<rparr>)"

definition AesCmacPrf_TypeUrl :: bytes where
  "AesCmacPrf_TypeUrl = ascii ''type.googleapis.com/google.crypto.tink.AesCmacPrfKey''"

definition AesCmacPrfKeyFormatTP :: "u32 \<Rightarrow> u32 \<Rightarrow> message" where [message_defs]:
  "AesCmacPrfKeyFormatTP key_size version =
     [Uint32Field 1 kImplicit (Some key_size), Uint32Field 2 kImplicit (Some version)]"

definition AesCmacPrfKeyTP :: "crc_fns \<Rightarrow> u32 \<Rightarrow> bytes option \<Rightarrow> message" where [message_defs]:
  "AesCmacPrfKeyTP C version kv =
     [Uint32Field 1 kImplicit (Some version), SecretDataField 2 kExplicit (map_option (SecretDataFromStringView C) kv)]"

definition AesCmacPrf_ParseParameters :: "crc_fns \<Rightarrow> KeyTemplate \<Rightarrow> AesCmacPrfParameters StatusOr" where
  "AesCmacPrf_ParseParameters C key_template =
     (if kt_type_url key_template \<noteq> AesCmacPrf_TypeUrl then Inl kInvalidArgument
      else if kt_output_prefix_type key_template \<noteq> RAW then Inl kInvalidArgument
      else case ParseFromString C (AesCmacPrfKeyFormatTP 0 0) (kt_value key_template) of
        None \<Rightarrow> Inl kInvalidArgument
      | Some proto_key_format \<Rightarrow>
          if uint_at proto_key_format 1 \<noteq> 0 then Inl kInvalidArgument
          else AesCmacPrfParameters_Create (int_of_uint32 (uint_at proto_key_format 0)))"

definition AesCmacPrf_SerializeParameters :: "crc_fns \<Rightarrow> (nat \<Rightarrow> byte) \<Rightarrow> AesCmacPrfParameters \<Rightarrow> KeyTemplate StatusOr option" where
  "AesCmacPrf_SerializeParameters C junk p =
     parameters_serialization C junk AesCmacPrf_TypeUrl RAW (AesCmacPrfKeyFormatTP (uint32_of_int (cmacprf_key_size p)) 0)"

definition AesCmacPrf_ParseKey :: "crc_fns \<Rightarrow> ProtoKeySerialization \<Rightarrow> bool \<Rightarrow> AesCmacPrfKey StatusOr" where
  "AesCmacPrf_ParseKey C s token =
     (if pks_type_url s \<noteq> AesCmacPrf_TypeUrl then Inl kInvalidArgument
      else if \<not> token then Inl kPermissionDenied
      else if pks_output_prefix_type s \<noteq> RAW then Inl kInvalidArgument
      else case ParseFromString C (AesCmacPrfKeyTP C 0 None) (pks_serialized_key s) of
        None \<Rightarrow> Inl kInvalidArgument
      | Some proto_key \<Rightarrow>
          if uint_at proto_key 0 \<noteq> 0 then Inl kInvalidArgument
          else AesCmacPrfKey_Create (bytes_at proto_key 1))"

definition AesCmacPrf_SerializeKey :: "crc_fns \<Rightarrow> (nat \<Rightarrow> byte) \<Rightarrow> AesCmacPrfKey \<Rightarrow> bool \<Rightarrow> ProtoKeySerialization StatusOr option" where
  "AesCmacPrf_SerializeKey C junk key token =
     (if \<not> token then Some (Inl kPermissionDenied)
      else key_serialization C junk AesCmacPrf_TypeUrl RAW None (AesCmacPrfKeyTP C 0 (Some (raw_key_bytes key))))"

text \<open>
  A key is valid if it was created and its size is in the range of \<^verbatim>\<open>int\<close>: \<^verbatim>\<open>Create\<close> converts the size,
  so a key of \<open>2 ^ 32 + 16\<close> bytes would pass as one of 16 bytes.
\<close>

definition AesCmacPrfParameters_valid :: "AesCmacPrfParameters \<Rightarrow> bool" where
  "AesCmacPrfParameters_valid p \<longleftrightarrow> AesCmacPrfParameters_Create (cmacprf_key_size p) = Inr p"

definition AesCmacPrfKey_valid :: "AesCmacPrfKey \<Rightarrow> bool" where
  "AesCmacPrfKey_valid k \<longleftrightarrow> AesCmacPrfKey_Create (raw_key_bytes k) = Inr k"

subsection \<open>The format of AES-CMAC PRF keys\<close>

lemma wf_AesCmacPrf [simp]: "wf_message C (AesCmacPrfKeyFormatTP ks v)" "wf_message C (AesCmacPrfKeyTP C v (Some kv))"
  by (simp_all add: wf_message_def message_defs FieldsAreSorted_def)

lemma Clear_AesCmacPrf [simp]: "Message_Clear (AesCmacPrfKeyFormatTP ks v) = AesCmacPrfKeyFormatTP 0 0"
    "Message_Clear (AesCmacPrfKeyTP C v kv) = AesCmacPrfKeyTP C 0 None"
  by (simp_all add: Message_Clear_def message_defs SecretDataField_Clear_def)

lemma AesCmacPrf_access [simp]:
  "uint_at (AesCmacPrfKeyFormatTP ks v) 0 = ks" "uint_at (AesCmacPrfKeyFormatTP ks v) (Suc 0) = v"
  "uint_at (AesCmacPrfKeyTP C v kvo) 0 = v" "bytes_at (AesCmacPrfKeyTP C v (Some kv)) (Suc 0) = kv"
  by (simp_all add: message_defs access_defs)

lemma AesCmacPrfKeyFormatTP_size: "length (message_bytes (AesCmacPrfKeyFormatTP ks v)) < 2 ^ 32"
  using field_bytes_le(1) [of 1 kImplicit "Some ks"] field_bytes_le(1) [of 2 kImplicit "Some v"]
  by (simp add: message_defs)

lemma AesCmacPrfKeyTP_size: "length (message_bytes (AesCmacPrfKeyTP C v (Some kv))) \<le> length kv + 40"
  using field_bytes_le(1) [of 1 kImplicit "Some v"] field_bytes_le(3) [of 2 kExplicit C kv]
  by (simp add: message_defs)

lemma AesCmacPrf_url [simp]: "IsPrintableAscii AesCmacPrf_TypeUrl"
  by (simp add: AesCmacPrf_TypeUrl_def IsPrintableAscii_def ascii_def)

lemma AesCmacPrfParameters_Create_Inr:
  "AesCmacPrfParameters_Create ks = Inr p \<Longrightarrow> p = \<lparr>cmacprf_key_size = ks\<rparr> \<and> is_int ks"
  by (auto simp: AesCmacPrfParameters_Create_def split: if_split_asm)

interpretation aes_cmac_prf_parameters: proto_format AesCmacPrf_ParseParameters AesCmacPrf_SerializeParameters AesCmacPrfParameters_valid
  "\<lambda>p. True" "\<lambda>p. True"
proof (unfold_locales, goal_cases)
  case (1 C t p)
  then obtain ks where b: "AesCmacPrfParameters_Create ks = Inr p"
    by (auto simp: AesCmacPrf_ParseParameters_def split: if_split_asm option.split_asm)
  with AesCmacPrfParameters_Create_Inr [OF b] show ?case by (auto simp: AesCmacPrfParameters_valid_def)
next
  case (2 C p junk)
  then have b: "AesCmacPrfParameters_Create (cmacprf_key_size p) = Inr p"
    by (auto simp: AesCmacPrfParameters_valid_def)
  show ?case
    by (rule parameters_roundtripI [where blank = "AesCmacPrfKeyFormatTP 0 0" and url = AesCmacPrf_TypeUrl and prefix = RAW
          and m = "AesCmacPrfKeyFormatTP (uint32_of_int (cmacprf_key_size p)) 0"])
      (use b AesCmacPrfParameters_Create_Inr [OF b] AesCmacPrfKeyFormatTP_size in
        \<open>simp_all add: AesCmacPrf_SerializeParameters_def AesCmacPrf_ParseParameters_def\<close>)
qed

interpretation aes_cmac_prf_key: secret_key_format AesCmacPrf_ParseKey AesCmacPrf_SerializeKey AesCmacPrfKey_valid "\<lambda>k. True"
  "\<lambda>k. length (raw_key_bytes k) < 2 ^ 31" AesCmacPrf_TypeUrl
proof (unfold_locales, goal_cases)
  case (1 C s k)
  then obtain kb where "AesCmacPrfKey_Create kb = Inr k"
    by (auto simp: AesCmacPrf_ParseKey_def split: if_split_asm option.split_asm)
  then show ?case by (auto simp: AesCmacPrfKey_valid_def AesCmacPrfKey_Create_def)
next
  case (2 C k junk)
  show ?case
    by (rule key_roundtripI [where m = "AesCmacPrfKeyTP C 0 (Some (raw_key_bytes k))" and blank = "AesCmacPrfKeyTP C 0 None"
          and url = AesCmacPrf_TypeUrl and prefix = RAW and i = None])
      (use 2 key_fits [OF AesCmacPrfKeyTP_size] in
        \<open>simp_all add: AesCmacPrf_SerializeKey_def AesCmacPrf_ParseKey_def AesCmacPrfKey_valid_def\<close>)
qed (auto simp: AesCmacPrf_ParseKey_def AesCmacPrf_SerializeKey_def dest: key_serialization_shape split: if_split_asm)

section \<open>HKDF PRF\<close>

record HkdfPrfParameters =
  hkdf_key_size :: int
  hkdf_hash_type :: KeyHashType
  hkdf_salt :: "bytes option"

text \<open>The constructor replaces an empty salt by none.\<close>

definition HkdfPrfParameters_Create :: "int \<Rightarrow> KeyHashType \<Rightarrow> bytes option \<Rightarrow> HkdfPrfParameters StatusOr" where
  "HkdfPrfParameters_Create key_size h salt =
     (if key_size < 16 then Inl kInvalidArgument
      else if h \<notin> set supported_hashes then Inl kInvalidArgument
      else Inr \<lparr>hkdf_key_size = key_size, hkdf_hash_type = h, hkdf_salt = (if salt = Some [] then None else salt)\<rparr>)"

type_synonym HkdfPrfKey = "HkdfPrfParameters RawKey"

definition HkdfPrfKey_Create :: "HkdfPrfParameters \<Rightarrow> bytes \<Rightarrow> HkdfPrfKey StatusOr" where
  "HkdfPrfKey_Create p kb =
     (if hkdf_key_size p \<noteq> int (length kb) then Inl kInvalidArgument
      else Inr \<lparr>raw_parameters = p, raw_key_bytes = kb\<rparr>)"

definition HkdfPrf_TypeUrl :: bytes where
  "HkdfPrf_TypeUrl = ascii ''type.googleapis.com/google.crypto.tink.HkdfPrfKey''"

definition HkdfPrfParamsTP :: "HashTypeTP option \<Rightarrow> bytes option \<Rightarrow> message" where [message_defs]:
  "HkdfPrfParamsTP h salt =
     [EnumField 1 HashTypeTP_IsValid 0 kExplicit (map_option HashTypeTP_value h), BytesField 2 kExplicit salt]"

definition HkdfPrfKeyTP :: "crc_fns \<Rightarrow> u32 \<Rightarrow> message option \<Rightarrow> bytes option \<Rightarrow> message" where [message_defs]:
  "HkdfPrfKeyTP C version params kv =
     [Uint32Field 1 kImplicit (Some version), MessageField 2 kExplicit (HkdfPrfParamsTP None None) params,
      SecretDataField 3 kExplicit (map_option (SecretDataFromStringView C) kv)]"

definition HkdfPrfKeyFormatTP :: "message option \<Rightarrow> u32 \<Rightarrow> u32 \<Rightarrow> message" where [message_defs]:
  "HkdfPrfKeyFormatTP params key_size version =
     [MessageField 1 kExplicit (HkdfPrfParamsTP None None) params,
      Uint32Field 2 kImplicit (Some key_size), Uint32Field 3 kImplicit (Some version)]"

text \<open>An empty salt in the message is no salt.\<close>

definition salt_of :: "bytes \<Rightarrow> bytes option" where
  "salt_of salt = (if salt \<noteq> [] then Some salt else None)"

definition HkdfPrf_ParseParameters :: "crc_fns \<Rightarrow> KeyTemplate \<Rightarrow> HkdfPrfParameters StatusOr" where
  "HkdfPrf_ParseParameters C key_template =
     (if kt_type_url key_template \<noteq> HkdfPrf_TypeUrl then Inl kInvalidArgument
      else if kt_output_prefix_type key_template \<noteq> RAW then Inl kInvalidArgument
      else case ParseFromString C (HkdfPrfKeyFormatTP None 0 0) (kt_value key_template) of
        None \<Rightarrow> Inl kInvalidArgument
      | Some proto_key_format \<Rightarrow>
          let params = sub_at proto_key_format 0 (HkdfPrfParamsTP None None)
          in if uint_at proto_key_format 2 \<noteq> 0 then Inl kInvalidArgument
             else with_ok (ToHashType (HashTypeTP_of (uint_at params 0)))
               (\<lambda>h. HkdfPrfParameters_Create (int_of_uint32 (uint_at proto_key_format 1)) h (salt_of (bytes_at params 1))))"

definition HkdfPrf_SerializeParameters :: "crc_fns \<Rightarrow> (nat \<Rightarrow> byte) \<Rightarrow> HkdfPrfParameters \<Rightarrow> KeyTemplate StatusOr option" where
  "HkdfPrf_SerializeParameters C junk p =
     (case ToProtoHashType (hkdf_hash_type p) of
        Inl e \<Rightarrow> Some (Inl e)
      | Inr h \<Rightarrow>
          parameters_serialization C junk HkdfPrf_TypeUrl RAW
            (HkdfPrfKeyFormatTP (Some (HkdfPrfParamsTP (Some h) (hkdf_salt p))) (uint32_of_int (hkdf_key_size p)) 0))"

definition HkdfPrf_ParseKey :: "crc_fns \<Rightarrow> ProtoKeySerialization \<Rightarrow> bool \<Rightarrow> HkdfPrfKey StatusOr" where
  "HkdfPrf_ParseKey C s token =
     (if pks_type_url s \<noteq> HkdfPrf_TypeUrl then Inl kInvalidArgument
      else if \<not> token then Inl kPermissionDenied
      else if pks_output_prefix_type s \<noteq> RAW then Inl kInvalidArgument
      else case ParseFromString C (HkdfPrfKeyTP C 0 None None) (pks_serialized_key s) of
        None \<Rightarrow> Inl kInvalidArgument
      | Some proto_key \<Rightarrow>
          let params = sub_at proto_key 1 (HkdfPrfParamsTP None None)
          in if uint_at proto_key 0 \<noteq> 0 then Inl kInvalidArgument
             else with_ok (ToHashType (HashTypeTP_of (uint_at params 0)))
               (\<lambda>h. with_ok (HkdfPrfParameters_Create (int_of_size (length (bytes_at proto_key 2))) h (salt_of (bytes_at params 1)))
                 (\<lambda>p. HkdfPrfKey_Create p (bytes_at proto_key 2))))"

definition HkdfPrf_SerializeKey :: "crc_fns \<Rightarrow> (nat \<Rightarrow> byte) \<Rightarrow> HkdfPrfKey \<Rightarrow> bool \<Rightarrow> ProtoKeySerialization StatusOr option" where
  "HkdfPrf_SerializeKey C junk key token =
     (if \<not> token then Some (Inl kPermissionDenied)
      else case ToProtoHashType (hkdf_hash_type (raw_parameters key)) of
        Inl e \<Rightarrow> Some (Inl e)
      | Inr h \<Rightarrow>
          key_serialization C junk HkdfPrf_TypeUrl RAW None
            (HkdfPrfKeyTP C 0 (Some (HkdfPrfParamsTP (Some h) (hkdf_salt (raw_parameters key)))) (Some (raw_key_bytes key))))"

definition HkdfPrfParameters_valid :: "HkdfPrfParameters \<Rightarrow> bool" where
  "HkdfPrfParameters_valid p \<longleftrightarrow> is_int (hkdf_key_size p) \<and>
     HkdfPrfParameters_Create (hkdf_key_size p) (hkdf_hash_type p) (hkdf_salt p) = Inr p"

definition HkdfPrfKey_valid :: "HkdfPrfKey \<Rightarrow> bool" where
  "HkdfPrfKey_valid k \<longleftrightarrow> HkdfPrfParameters_valid (raw_parameters k) \<and>
     HkdfPrfKey_Create (raw_parameters k) (raw_key_bytes k) = Inr k"

text \<open>A salt is bounded by the classes only in that messages have to fit into memory.\<close>

definition hkdf_salt_fits :: "HkdfPrfParameters \<Rightarrow> bool" where
  "hkdf_salt_fits p \<longleftrightarrow> (case hkdf_salt p of None \<Rightarrow> True | Some salt \<Rightarrow> length salt < 2 ^ 30)"

subsection \<open>The format of HKDF PRF keys\<close>

lemma wf_HkdfPrf:
  assumes "HashTypeTP_IsValid (HashTypeTP_value h)"
  shows "wf_message C (HkdfPrfKeyFormatTP (Some (HkdfPrfParamsTP (Some h) salt)) ks v)"
    and "wf_message C (HkdfPrfKeyTP C v (Some (HkdfPrfParamsTP (Some h) salt)) (Some kv))"
  using assms by (simp_all add: wf_message_def message_defs FieldsAreSorted_def Message_Clear_def EnumField_Clear_def BytesField_Clear_def)

lemma Clear_HkdfPrf [simp]: "Message_Clear (HkdfPrfKeyFormatTP params ks v) = HkdfPrfKeyFormatTP None 0 0"
    "Message_Clear (HkdfPrfKeyTP C v params kv) = HkdfPrfKeyTP C 0 None None"
  by (simp_all add: Message_Clear_def HkdfPrfKeyFormatTP_def HkdfPrfKeyTP_def SecretDataField_Clear_def)

lemma HkdfPrf_access [simp]:
  "sub_at (HkdfPrfKeyFormatTP (Some params) ks v) 0 d = params" "uint_at (HkdfPrfKeyFormatTP po ks v) (Suc 0) = ks"
  "uint_at (HkdfPrfKeyFormatTP po ks v) 2 = v" "uint_at (HkdfPrfKeyTP C v po kvo) 0 = v"
  "sub_at (HkdfPrfKeyTP C v (Some params) kvo) (Suc 0) d = params" "bytes_at (HkdfPrfKeyTP C v po (Some kv)) 2 = kv"
  "uint_at (HkdfPrfParamsTP (Some h) salt) 0 = HashTypeTP_value h"
  "salt \<noteq> Some [] \<Longrightarrow> salt_of (bytes_at (HkdfPrfParamsTP ho salt) (Suc 0)) = salt"
  by (auto simp: message_defs access_defs salt_of_def split: option.split)

lemma HkdfPrfParamsTP_size:
  assumes "case salt of None \<Rightarrow> True | Some s \<Rightarrow> length s < 2 ^ 30"
  shows "length (message_bytes (HkdfPrfParamsTP (Some h) salt)) \<le> 2 ^ 30 + 40"
proof (cases salt)
  case None
  then show ?thesis
    using field_bytes_le(2) [of 1 HashTypeTP_IsValid 0 kExplicit "Some (HashTypeTP_value h)"]
    by (simp add: HkdfPrfParamsTP_def BytesField_RequiresSerialization_def)
next
  case (Some s)
  then show ?thesis
    using assms field_bytes_le(2) [of 1 HashTypeTP_IsValid 0 kExplicit "Some (HashTypeTP_value h)"] field_bytes_le(4) [of 2 kExplicit s]
    by (simp add: HkdfPrfParamsTP_def)
qed

lemma HkdfPrfKeyFormatTP_size:
  assumes "case salt of None \<Rightarrow> True | Some s \<Rightarrow> length s < 2 ^ 30"
  shows "length (message_bytes (HkdfPrfKeyFormatTP (Some (HkdfPrfParamsTP (Some h) salt)) ks v)) < 2 ^ 32"
  using field_bytes_le(1) [of 2 kImplicit "Some ks"] field_bytes_le(1) [of 3 kImplicit "Some v"] HkdfPrfParamsTP_size [OF assms, of h]
    field_bytes_le(5) [of 1 kExplicit "HkdfPrfParamsTP None None" "HkdfPrfParamsTP (Some h) salt"]
  by (simp add: HkdfPrfKeyFormatTP_def)

lemma HkdfPrfKeyTP_size:
  assumes "case salt of None \<Rightarrow> True | Some s \<Rightarrow> length s < 2 ^ 30" and "is_int (int (length kv))"
  shows "length (message_bytes (HkdfPrfKeyTP C v (Some (HkdfPrfParamsTP (Some h) salt)) (Some kv))) < 2 ^ 32"
  using field_bytes_le(1) [of 1 kImplicit "Some v"] field_bytes_le(3) [of 3 kExplicit C kv] HkdfPrfParamsTP_size [OF assms(1), of h]
    field_bytes_le(5) [of 2 kExplicit "HkdfPrfParamsTP None None" "HkdfPrfParamsTP (Some h) salt"] assms(2)
  by (simp add: HkdfPrfKeyTP_def is_int_def)

lemma HkdfPrf_url [simp]: "IsPrintableAscii HkdfPrf_TypeUrl"
  by (simp add: HkdfPrf_TypeUrl_def IsPrintableAscii_def ascii_def)

lemma HkdfPrfParameters_Create_Inr:
  assumes "HkdfPrfParameters_Create ks h salt = Inr p"
  shows "p = \<lparr>hkdf_key_size = ks, hkdf_hash_type = h, hkdf_salt = (if salt = Some [] then None else salt)\<rparr> \<and> (\<exists>t. ToProtoHashType h = Inr t)"
  using assms supported_hashes_proto by (auto simp: HkdfPrfParameters_Create_def split: if_split_asm)

lemma HkdfPrfParameters_Create_salt:
  "HkdfPrfParameters_Create ks h salt = Inr p \<Longrightarrow> hkdf_salt p \<noteq> Some []"
  by (auto simp: HkdfPrfParameters_Create_def split: if_split_asm)

lemma HkdfPrfKey_Create_Inr:
  "HkdfPrfKey_Create p kb = Inr k \<Longrightarrow> raw_parameters k = p \<and> raw_key_bytes k = kb \<and> hkdf_key_size p = int (length kb)"
  by (auto simp: HkdfPrfKey_Create_def split: if_split_asm)

lemma salt_of_nonempty [simp]: "salt_of s \<noteq> Some []"
  by (simp add: salt_of_def)

interpretation hkdf_prf_parameters: proto_format HkdfPrf_ParseParameters HkdfPrf_SerializeParameters HkdfPrfParameters_valid
  "\<lambda>p. True" "\<lambda>p. hkdf_salt_fits p"
proof (unfold_locales, goal_cases)
  case (1 C t p)
  then obtain w h salt where b: "HkdfPrfParameters_Create (int_of_uint32 w) h (salt_of salt) = Inr p"
    by (auto simp: HkdfPrf_ParseParameters_def Let_def split: if_split_asm option.split_asm)
  with HkdfPrfParameters_Create_Inr [OF b] show ?case by (auto simp: HkdfPrfParameters_valid_def)
next
  case (2 C p junk)
  then have b: "HkdfPrfParameters_Create (hkdf_key_size p) (hkdf_hash_type p) (hkdf_salt p) = Inr p" "is_int (hkdf_key_size p)"
    by (auto simp: HkdfPrfParameters_valid_def)
  note c = HkdfPrfParameters_Create_Inr [OF b(1)]
  from c obtain h where h: "ToProtoHashType (hkdf_hash_type p) = Inr h" by blast
  show ?case
    by (rule parameters_roundtripI [where blank = "HkdfPrfKeyFormatTP None 0 0" and url = HkdfPrf_TypeUrl and prefix = RAW
          and m = "HkdfPrfKeyFormatTP (Some (HkdfPrfParamsTP (Some h) (hkdf_salt p))) (uint32_of_int (hkdf_key_size p)) 0"])
      (use 2 b h hash_roundtrip [OF h] HkdfPrfKeyFormatTP_size HkdfPrfParameters_Create_salt [OF b(1)] in
        \<open>simp_all add: HkdfPrf_SerializeParameters_def HkdfPrf_ParseParameters_def wf_HkdfPrf hkdf_salt_fits_def Let_def\<close>)
qed

interpretation hkdf_prf_key: secret_key_format HkdfPrf_ParseKey HkdfPrf_SerializeKey HkdfPrfKey_valid "\<lambda>k. True" "\<lambda>k. hkdf_salt_fits (raw_parameters k)" HkdfPrf_TypeUrl
proof (unfold_locales, goal_cases)
  case (1 C s k)
  then obtain h salt p kb where b: "HkdfPrfParameters_Create (int_of_size (length kb)) h (salt_of salt) = Inr p"
    and c: "HkdfPrfKey_Create p kb = Inr k"
    by (auto simp: HkdfPrf_ParseKey_def Let_def split: if_split_asm option.split_asm)
  from b HkdfPrfParameters_Create_Inr [OF b] HkdfPrfKey_Create_Inr [OF c] c int_of_size_is_int [of "length kb"] show ?case
    by (auto simp: HkdfPrfKey_valid_def HkdfPrfParameters_valid_def)
next
  case (2 C k junk)
  let ?p = "raw_parameters k"
  from 2 have b: "HkdfPrfParameters_Create (hkdf_key_size ?p) (hkdf_hash_type ?p) (hkdf_salt ?p) = Inr ?p" "is_int (hkdf_key_size ?p)"
    and k: "HkdfPrfKey_Create ?p (raw_key_bytes k) = Inr k"
    by (auto simp: HkdfPrfKey_valid_def HkdfPrfParameters_valid_def)
  note c = HkdfPrfParameters_Create_Inr [OF b(1)] and l = HkdfPrfKey_Create_Inr [OF k]
  from c obtain h where h: "ToProtoHashType (hkdf_hash_type ?p) = Inr h" by blast
  show ?case
    by (rule key_roundtripI [where m = "HkdfPrfKeyTP C 0 (Some (HkdfPrfParamsTP (Some h) (hkdf_salt ?p))) (Some (raw_key_bytes k))" and blank = "HkdfPrfKeyTP C 0 None None"
          and url = HkdfPrf_TypeUrl and prefix = RAW and i = None])
      (use 2 b k l h hash_roundtrip [OF h] HkdfPrfKeyTP_size HkdfPrfParameters_Create_salt [OF b(1)] in
        \<open>simp_all add: HkdfPrf_SerializeKey_def HkdfPrf_ParseKey_def int_of_size_int wf_HkdfPrf hkdf_salt_fits_def Let_def\<close>)
qed (auto simp: HkdfPrf_ParseKey_def HkdfPrf_SerializeKey_def wf_HkdfPrf hkdf_salt_fits_def Let_def dest: key_serialization_shape split: if_split_asm sum.split_asm)

end
