(* ===== verification/Streaming_Keys.thy ===== *)
theory Streaming_Keys
  imports Key_Serialization
begin

text \<open>
  Streaming AEAD keys: parameters and keys of \<^verbatim>\<open>tink/streamingaead/\<close> (AES-GCM-HKDF and AES-CTR-HMAC) and
  their proto serializations in \<^verbatim>\<open>tink/streamingaead/internal/\<close>. Streaming keys have no output prefix;
  the parsers accept any prefix type and the serializers write RAW.
\<close>

text \<open>The hash types of streaming AEADs.\<close>

fun FromProtoHashType :: "HashTypeTP \<Rightarrow> KeyHashType StatusOr" where
  "FromProtoHashType kSha1TP = Inr kSha1"
| "FromProtoHashType kSha256TP = Inr kSha256"
| "FromProtoHashType kSha512TP = Inr kSha512"
| "FromProtoHashType _ = Inl kInvalidArgument"

fun Streaming_ToProtoHashType :: "KeyHashType \<Rightarrow> HashTypeTP StatusOr" where
  "Streaming_ToProtoHashType kSha1 = Inr kSha1TP"
| "Streaming_ToProtoHashType kSha256 = Inr kSha256TP"
| "Streaming_ToProtoHashType kSha512 = Inr kSha512TP"
| "Streaming_ToProtoHashType _ = Inl kInvalidArgument"

lemma streaming_hash_roundtrip:
  "Streaming_ToProtoHashType h = Inr t \<Longrightarrow>
     FromProtoHashType (HashTypeTP_of (HashTypeTP_value t)) = Inr h \<and> HashTypeTP_IsValid (HashTypeTP_value t)"
  by (cases h) (auto simp: HashTypeTP_of_def HashTypeTP_IsValid_def)

section \<open>AES-GCM-HKDF\<close>

record AesGcmHkdfStreamingParameters =
  ghs_key_size :: int
  ghs_derived_key_size :: int
  ghs_hash_type :: KeyHashType
  ghs_segment_size :: int

text \<open>The members of the builder are optional; the setters store a value.\<close>

definition AesGcmHkdfStreamingParameters_Build ::
    "int option \<Rightarrow> int option \<Rightarrow> KeyHashType option \<Rightarrow> int option \<Rightarrow> AesGcmHkdfStreamingParameters StatusOr" where
  "AesGcmHkdfStreamingParameters_Build key_size derived_key_size hash_type segment_size =
     (case (key_size, derived_key_size, hash_type, segment_size) of
        (Some ks, Some dks, Some h, Some seg) \<Rightarrow>
          if dks \<noteq> 16 \<and> dks \<noteq> 32 then Inl kInvalidArgument
          else if ks < dks then Inl kInvalidArgument
          else if seg < dks + 24 then Inl kInvalidArgument
          else if seg > 2 ^ 31 - 1 then Inl kInvalidArgument
          else if h \<notin> {kSha1, kSha256, kSha512} then Inl kInvalidArgument
          else Inr \<lparr>ghs_key_size = ks, ghs_derived_key_size = dks, ghs_hash_type = h, ghs_segment_size = seg\<rparr>
      | _ \<Rightarrow> Inl kInvalidArgument)"

type_synonym AesGcmHkdfStreamingKey = "AesGcmHkdfStreamingParameters RawKey"

definition AesGcmHkdfStreamingKey_Create :: "AesGcmHkdfStreamingParameters \<Rightarrow> bytes \<Rightarrow> AesGcmHkdfStreamingKey StatusOr" where
  "AesGcmHkdfStreamingKey_Create p initial_key_material =
     (if ghs_key_size p \<noteq> int (length initial_key_material) then Inl kInvalidArgument
      else Inr \<lparr>raw_parameters = p, raw_key_bytes = initial_key_material\<rparr>)"

definition AesGcmHkdfStreaming_TypeUrl :: bytes where
  "AesGcmHkdfStreaming_TypeUrl = ascii ''type.googleapis.com/google.crypto.tink.AesGcmHkdfStreamingKey''"

definition AesGcmHkdfStreamingParamsTP :: "u32 \<Rightarrow> u32 \<Rightarrow> HashTypeTP option \<Rightarrow> message" where [message_defs]:
  "AesGcmHkdfStreamingParamsTP segment_size derived_key_size hkdf_hash_type =
     [Uint32Field 1 kImplicit (Some segment_size), Uint32Field 2 kImplicit (Some derived_key_size),
      EnumField 3 HashTypeTP_IsValid 0 kExplicit (map_option HashTypeTP_value hkdf_hash_type)]"

abbreviation AesGcmHkdfStreamingParams_blank :: message where
  "AesGcmHkdfStreamingParams_blank \<equiv> AesGcmHkdfStreamingParamsTP 0 0 None"

definition AesGcmHkdfStreamingKeyFormatTP :: "message option \<Rightarrow> u32 \<Rightarrow> u32 \<Rightarrow> message" where [message_defs]:
  "AesGcmHkdfStreamingKeyFormatTP params key_size version =
     [MessageField 1 kExplicit AesGcmHkdfStreamingParams_blank params,
      Uint32Field 2 kImplicit (Some key_size), Uint32Field 3 kImplicit (Some version)]"

definition AesGcmHkdfStreamingKeyTP :: "crc_fns \<Rightarrow> u32 \<Rightarrow> message option \<Rightarrow> bytes option \<Rightarrow> message" where [message_defs]:
  "AesGcmHkdfStreamingKeyTP C version params kv =
     [Uint32Field 1 kImplicit (Some version), MessageField 2 kExplicit AesGcmHkdfStreamingParams_blank params,
      SecretDataField 3 kExplicit (map_option (SecretDataFromStringView C) kv)]"

definition AesGcmHkdfStreaming_ToParameters :: "message \<Rightarrow> int \<Rightarrow> AesGcmHkdfStreamingParameters StatusOr" where
  "AesGcmHkdfStreaming_ToParameters params key_size =
     with_ok (FromProtoHashType (HashTypeTP_of (uint_at params 2)))
       (\<lambda>h. AesGcmHkdfStreamingParameters_Build (Some key_size) (Some (int_of_uint32 (uint_at params 1))) (Some h)
          (Some (int_of_uint32 (uint_at params 0))))"

definition AesGcmHkdfStreaming_FromParameters :: "AesGcmHkdfStreamingParameters \<Rightarrow> message StatusOr" where
  "AesGcmHkdfStreaming_FromParameters p =
     with_ok (Streaming_ToProtoHashType (ghs_hash_type p))
       (\<lambda>h. Inr (AesGcmHkdfStreamingParamsTP (uint32_of_int (ghs_segment_size p)) (uint32_of_int (ghs_derived_key_size p)) (Some h)))"

definition AesGcmHkdfStreaming_ParseParameters :: "crc_fns \<Rightarrow> KeyTemplate \<Rightarrow> AesGcmHkdfStreamingParameters StatusOr" where
  "AesGcmHkdfStreaming_ParseParameters C key_template =
     (if kt_type_url key_template \<noteq> AesGcmHkdfStreaming_TypeUrl then Inl kInvalidArgument
      else case ParseFromString C (AesGcmHkdfStreamingKeyFormatTP None 0 0) (kt_value key_template) of
        None \<Rightarrow> Inl kInvalidArgument
      | Some fmt \<Rightarrow>
          if uint_at fmt 2 \<noteq> 0 then Inl kInvalidArgument
          else AesGcmHkdfStreaming_ToParameters (sub_at fmt 0 AesGcmHkdfStreamingParams_blank) (int_of_uint32 (uint_at fmt 1)))"

definition AesGcmHkdfStreaming_SerializeParameters ::
    "crc_fns \<Rightarrow> (nat \<Rightarrow> byte) \<Rightarrow> AesGcmHkdfStreamingParameters \<Rightarrow> KeyTemplate StatusOr option" where
  "AesGcmHkdfStreaming_SerializeParameters C junk p =
     (case AesGcmHkdfStreaming_FromParameters p of
        Inl e \<Rightarrow> Some (Inl e)
      | Inr params \<Rightarrow>
          parameters_serialization C junk AesGcmHkdfStreaming_TypeUrl RAW
            (AesGcmHkdfStreamingKeyFormatTP (Some params) (uint32_of_int (ghs_key_size p)) 0))"

definition AesGcmHkdfStreaming_ParseKey :: "crc_fns \<Rightarrow> ProtoKeySerialization \<Rightarrow> bool \<Rightarrow> AesGcmHkdfStreamingKey StatusOr" where
  "AesGcmHkdfStreaming_ParseKey C s token =
     (if \<not> token then Inl kPermissionDenied
      else if pks_type_url s \<noteq> AesGcmHkdfStreaming_TypeUrl then Inl kInvalidArgument
      else case ParseFromString C (AesGcmHkdfStreamingKeyTP C 0 None None) (pks_serialized_key s) of
        None \<Rightarrow> Inl kInvalidArgument
      | Some key \<Rightarrow>
          if uint_at key 0 \<noteq> 0 then Inl kInvalidArgument
          else with_ok (AesGcmHkdfStreaming_ToParameters (sub_at key 1 AesGcmHkdfStreamingParams_blank) (int_of_size (length (bytes_at key 2))))
            (\<lambda>p. AesGcmHkdfStreamingKey_Create p (bytes_at key 2)))"

definition AesGcmHkdfStreaming_SerializeKey ::
    "crc_fns \<Rightarrow> (nat \<Rightarrow> byte) \<Rightarrow> AesGcmHkdfStreamingKey \<Rightarrow> bool \<Rightarrow> ProtoKeySerialization StatusOr option" where
  "AesGcmHkdfStreaming_SerializeKey C junk key token =
     (if \<not> token then Some (Inl kPermissionDenied)
      else case AesGcmHkdfStreaming_FromParameters (raw_parameters key) of
        Inl e \<Rightarrow> Some (Inl e)
      | Inr params \<Rightarrow>
          key_serialization C junk AesGcmHkdfStreaming_TypeUrl RAW None
            (AesGcmHkdfStreamingKeyTP C 0 (Some params) (Some (raw_key_bytes key))))"

definition AesGcmHkdfStreamingParameters_valid :: "AesGcmHkdfStreamingParameters \<Rightarrow> bool" where
  "AesGcmHkdfStreamingParameters_valid p \<longleftrightarrow> is_int (ghs_key_size p) \<and>
     AesGcmHkdfStreamingParameters_Build (Some (ghs_key_size p)) (Some (ghs_derived_key_size p)) (Some (ghs_hash_type p))
       (Some (ghs_segment_size p)) = Inr p"

definition AesGcmHkdfStreamingKey_valid :: "AesGcmHkdfStreamingKey \<Rightarrow> bool" where
  "AesGcmHkdfStreamingKey_valid k \<longleftrightarrow> AesGcmHkdfStreamingParameters_valid (raw_parameters k) \<and>
     AesGcmHkdfStreamingKey_Create (raw_parameters k) (raw_key_bytes k) = Inr k"

subsection \<open>The format of AES-GCM-HKDF keys\<close>

lemma wf_AesGcmHkdfStreaming:
  assumes "HashTypeTP_IsValid (HashTypeTP_value h)"
  shows "wf_message C (AesGcmHkdfStreamingKeyFormatTP (Some (AesGcmHkdfStreamingParamsTP seg dks (Some h))) ks v)"
    and "wf_message C (AesGcmHkdfStreamingKeyTP C v (Some (AesGcmHkdfStreamingParamsTP seg dks (Some h))) (Some kv))"
  using assms by (simp_all add: wf_message_def message_defs FieldsAreSorted_def Message_Clear_def EnumField_Clear_def)

lemma Clear_AesGcmHkdfStreaming [simp]:
  "Message_Clear (AesGcmHkdfStreamingKeyFormatTP params ks v) = AesGcmHkdfStreamingKeyFormatTP None 0 0"
  "Message_Clear (AesGcmHkdfStreamingKeyTP C v params kv) = AesGcmHkdfStreamingKeyTP C 0 None None"
  by (simp_all add: Message_Clear_def AesGcmHkdfStreamingKeyFormatTP_def AesGcmHkdfStreamingKeyTP_def SecretDataField_Clear_def)

lemma AesGcmHkdfStreaming_access [simp]:
  "sub_at (AesGcmHkdfStreamingKeyFormatTP (Some params) ks v) 0 d = params" "uint_at (AesGcmHkdfStreamingKeyFormatTP po ks v) (Suc 0) = ks"
  "uint_at (AesGcmHkdfStreamingKeyFormatTP po ks v) 2 = v" "uint_at (AesGcmHkdfStreamingKeyTP C v po kvo) 0 = v"
  "sub_at (AesGcmHkdfStreamingKeyTP C v (Some params) kvo) (Suc 0) d = params" "bytes_at (AesGcmHkdfStreamingKeyTP C v po (Some kv)) 2 = kv"
  "uint_at (AesGcmHkdfStreamingParamsTP seg dks (Some h)) 2 = HashTypeTP_value h"
  "uint_at (AesGcmHkdfStreamingParamsTP seg dks ho) 0 = seg" "uint_at (AesGcmHkdfStreamingParamsTP seg dks ho) (Suc 0) = dks"
  by (simp_all add: message_defs access_defs)

lemma AesGcmHkdfStreamingParamsTP_size: "length (message_bytes (AesGcmHkdfStreamingParamsTP seg dks (Some h))) \<le> 60"
  using field_bytes_le(1) [of 1 kImplicit "Some seg"] field_bytes_le(1) [of 2 kImplicit "Some dks"]
    field_bytes_le(2) [of 3 HashTypeTP_IsValid 0 kExplicit "Some (HashTypeTP_value h)"]
  by (simp add: AesGcmHkdfStreamingParamsTP_def)

lemma AesGcmHkdfStreamingKeyFormatTP_size:
  "length (message_bytes (AesGcmHkdfStreamingKeyFormatTP (Some (AesGcmHkdfStreamingParamsTP seg dks (Some h))) ks v)) < 2 ^ 32"
  using field_bytes_le(1) [of 2 kImplicit "Some ks"] field_bytes_le(1) [of 3 kImplicit "Some v"] AesGcmHkdfStreamingParamsTP_size [of seg dks h]
    field_bytes_le(5) [of 1 kExplicit AesGcmHkdfStreamingParams_blank "AesGcmHkdfStreamingParamsTP seg dks (Some h)"]
  by (simp add: AesGcmHkdfStreamingKeyFormatTP_def)

lemma AesGcmHkdfStreamingKeyTP_size:
  "length (message_bytes (AesGcmHkdfStreamingKeyTP C v (Some (AesGcmHkdfStreamingParamsTP seg dks (Some h))) (Some kv))) \<le> length kv + 200"
  using field_bytes_le(1) [of 1 kImplicit "Some v"] field_bytes_le(3) [of 3 kExplicit C kv] AesGcmHkdfStreamingParamsTP_size [of seg dks h]
    field_bytes_le(5) [of 2 kExplicit AesGcmHkdfStreamingParams_blank "AesGcmHkdfStreamingParamsTP seg dks (Some h)"]
  by (simp add: AesGcmHkdfStreamingKeyTP_def)

lemma AesGcmHkdfStreaming_url [simp]: "IsPrintableAscii AesGcmHkdfStreaming_TypeUrl"
  by (simp add: AesGcmHkdfStreaming_TypeUrl_def IsPrintableAscii_def ascii_def)

lemma AesGcmHkdfStreamingParameters_Build_Inr:
  assumes "AesGcmHkdfStreamingParameters_Build (Some ks) (Some dks) (Some h) (Some seg) = Inr p"
  shows "p = \<lparr>ghs_key_size = ks, ghs_derived_key_size = dks, ghs_hash_type = h, ghs_segment_size = seg\<rparr> \<and>
    (\<exists>t. Streaming_ToProtoHashType h = Inr t) \<and> is_int dks \<and> is_int seg"
  using assms by (auto simp: AesGcmHkdfStreamingParameters_Build_def is_int_def split: if_split_asm)

lemma AesGcmHkdfStreamingKey_Create_Inr:
  "AesGcmHkdfStreamingKey_Create p kb = Inr k \<Longrightarrow> raw_parameters k = p \<and> raw_key_bytes k = kb \<and> ghs_key_size p = int (length kb)"
  by (auto simp: AesGcmHkdfStreamingKey_Create_def split: if_split_asm)

interpretation aes_gcm_hkdf_streaming_parameters: proto_format AesGcmHkdfStreaming_ParseParameters AesGcmHkdfStreaming_SerializeParameters AesGcmHkdfStreamingParameters_valid
  "\<lambda>p. True" "\<lambda>p. True"
proof (unfold_locales, goal_cases)
  case (1 C t p)
  then obtain w dks h seg where b: "AesGcmHkdfStreamingParameters_Build (Some (int_of_uint32 w)) (Some dks) (Some h) (Some seg) = Inr p"
    by (auto simp: AesGcmHkdfStreaming_ParseParameters_def AesGcmHkdfStreaming_ToParameters_def Let_def split: if_split_asm option.split_asm)
  with AesGcmHkdfStreamingParameters_Build_Inr [OF b] show ?case by (auto simp: AesGcmHkdfStreamingParameters_valid_def)
next
  case (2 C p junk)
  then have b: "AesGcmHkdfStreamingParameters_Build (Some (ghs_key_size p)) (Some (ghs_derived_key_size p)) (Some (ghs_hash_type p)) (Some (ghs_segment_size p)) = Inr p" "is_int (ghs_key_size p)"
    by (auto simp: AesGcmHkdfStreamingParameters_valid_def)
  note c = AesGcmHkdfStreamingParameters_Build_Inr [OF b(1)]
  from c obtain h where h: "Streaming_ToProtoHashType (ghs_hash_type p) = Inr h" by blast
  show ?case
    by (rule parameters_roundtripI [where blank = "AesGcmHkdfStreamingKeyFormatTP None 0 0" and url = AesGcmHkdfStreaming_TypeUrl and prefix = RAW
          and m = "AesGcmHkdfStreamingKeyFormatTP (Some (AesGcmHkdfStreamingParamsTP (uint32_of_int (ghs_segment_size p))
                   (uint32_of_int (ghs_derived_key_size p)) (Some h))) (uint32_of_int (ghs_key_size p)) 0"])
      (use 2 b c h streaming_hash_roundtrip [OF h] AesGcmHkdfStreamingKeyFormatTP_size in
        \<open>simp_all add: AesGcmHkdfStreaming_SerializeParameters_def AesGcmHkdfStreaming_ParseParameters_def AesGcmHkdfStreaming_ToParameters_def AesGcmHkdfStreaming_FromParameters_def wf_AesGcmHkdfStreaming\<close>)
qed

interpretation aes_gcm_hkdf_streaming_key: secret_key_format AesGcmHkdfStreaming_ParseKey AesGcmHkdfStreaming_SerializeKey AesGcmHkdfStreamingKey_valid "\<lambda>k. True" "\<lambda>k. True" AesGcmHkdfStreaming_TypeUrl
proof (unfold_locales, goal_cases)
  case (1 C s k)
  then obtain dks h seg p kb where b: "AesGcmHkdfStreamingParameters_Build (Some (int_of_size (length kb))) (Some dks) (Some h) (Some seg) = Inr p"
    and c: "AesGcmHkdfStreamingKey_Create p kb = Inr k"
    by (auto simp: AesGcmHkdfStreaming_ParseKey_def AesGcmHkdfStreaming_ToParameters_def Let_def split: if_split_asm option.split_asm)
  from b AesGcmHkdfStreamingParameters_Build_Inr [OF b] AesGcmHkdfStreamingKey_Create_Inr [OF c] c int_of_size_is_int [of "length kb"] show ?case
    by (auto simp: AesGcmHkdfStreamingKey_valid_def AesGcmHkdfStreamingParameters_valid_def)
next
  case (2 C k junk)
  let ?p = "raw_parameters k"
  from 2 have b: "AesGcmHkdfStreamingParameters_Build (Some (ghs_key_size ?p)) (Some (ghs_derived_key_size ?p)) (Some (ghs_hash_type ?p)) (Some (ghs_segment_size ?p)) = Inr ?p" "is_int (ghs_key_size ?p)"
    and k: "AesGcmHkdfStreamingKey_Create ?p (raw_key_bytes k) = Inr k"
    by (auto simp: AesGcmHkdfStreamingKey_valid_def AesGcmHkdfStreamingParameters_valid_def)
  note c = AesGcmHkdfStreamingParameters_Build_Inr [OF b(1)] and l = AesGcmHkdfStreamingKey_Create_Inr [OF k]
  from c obtain h where h: "Streaming_ToProtoHashType (ghs_hash_type ?p) = Inr h" by blast
  show ?case
    by (rule key_roundtripI [where m = "AesGcmHkdfStreamingKeyTP C 0 (Some (AesGcmHkdfStreamingParamsTP (uint32_of_int (ghs_segment_size ?p))
             (uint32_of_int (ghs_derived_key_size ?p)) (Some h))) (Some (raw_key_bytes k))" and blank = "AesGcmHkdfStreamingKeyTP C 0 None None"
          and url = AesGcmHkdfStreaming_TypeUrl and prefix = RAW and i = None])
      (use 2 b c k l h streaming_hash_roundtrip [OF h] key_fits [OF AesGcmHkdfStreamingKeyTP_size] in
        \<open>simp_all add: AesGcmHkdfStreaming_SerializeKey_def AesGcmHkdfStreaming_ParseKey_def int_of_size_int AesGcmHkdfStreaming_ToParameters_def AesGcmHkdfStreaming_FromParameters_def wf_AesGcmHkdfStreaming\<close>)
qed (auto simp: AesGcmHkdfStreaming_ParseKey_def AesGcmHkdfStreaming_SerializeKey_def AesGcmHkdfStreaming_FromParameters_def wf_AesGcmHkdfStreaming dest: key_serialization_shape split: if_split_asm sum.split_asm)

section \<open>AES-CTR-HMAC\<close>

record AesCtrHmacStreamingParameters =
  chs_key_size :: int
  chs_derived_key_size :: int
  chs_hkdf_hash_type :: KeyHashType
  chs_hmac_hash_type :: KeyHashType
  chs_tag_size :: int
  chs_segment_size :: int

text \<open>The largest tags, and by that the supported hash types.\<close>

fun streaming_max_tag_size :: "KeyHashType \<Rightarrow> int option" where
  "streaming_max_tag_size kSha1 = Some 20"
| "streaming_max_tag_size kSha256 = Some 32"
| "streaming_max_tag_size kSha512 = Some 64"
| "streaming_max_tag_size _ = None"

text \<open>
  The smallest segment size is a sum of \<^verbatim>\<open>int\<close> values, computed before the tag size is checked: here it
  wraps. In C++ an overflow is undefined behaviour.
\<close>

definition min_segment_size :: "int \<Rightarrow> int \<Rightarrow> int" where
  "min_segment_size derived_key_size tag_size = int_of_uint32 (uint32_of_int (derived_key_size + tag_size + 9))"

definition AesCtrHmacStreamingParameters_Build ::
    "int option \<Rightarrow> int option \<Rightarrow> KeyHashType option \<Rightarrow> KeyHashType option \<Rightarrow> int option \<Rightarrow> int option \<Rightarrow>
     AesCtrHmacStreamingParameters StatusOr" where
  "AesCtrHmacStreamingParameters_Build key_size derived_key_size hkdf_hash hmac_hash tag_size segment_size =
     (case (key_size, derived_key_size, hkdf_hash, hmac_hash, tag_size, segment_size) of
        (Some ks, Some dks, Some hkdf, Some hmac, Some tag, Some seg) \<Rightarrow>
          if dks \<noteq> 16 \<and> dks \<noteq> 32 then Inl kInvalidArgument
          else if ks < dks then Inl kInvalidArgument
          else if seg < min_segment_size dks tag then Inl kInvalidArgument
          else if tag < 10 then Inl kInvalidArgument
          else if streaming_max_tag_size hkdf = None then Inl kInvalidArgument
          else (case streaming_max_tag_size hmac of
              None \<Rightarrow> Inl kInvalidArgument
            | Some largest \<Rightarrow>
                if tag > largest then Inl kInvalidArgument
                else Inr \<lparr>chs_key_size = ks, chs_derived_key_size = dks, chs_hkdf_hash_type = hkdf, chs_hmac_hash_type = hmac,
                          chs_tag_size = tag, chs_segment_size = seg\<rparr>)
      | _ \<Rightarrow> Inl kInvalidArgument)"

type_synonym AesCtrHmacStreamingKey = "AesCtrHmacStreamingParameters RawKey"

definition AesCtrHmacStreamingKey_Create :: "AesCtrHmacStreamingParameters \<Rightarrow> bytes \<Rightarrow> AesCtrHmacStreamingKey StatusOr" where
  "AesCtrHmacStreamingKey_Create p initial_key_material =
     (if chs_key_size p \<noteq> int (length initial_key_material) then Inl kInvalidArgument
      else Inr \<lparr>raw_parameters = p, raw_key_bytes = initial_key_material\<rparr>)"

definition AesCtrHmacStreaming_TypeUrl :: bytes where
  "AesCtrHmacStreaming_TypeUrl = ascii ''type.googleapis.com/google.crypto.tink.AesCtrHmacStreamingKey''"

definition StreamingHmacParamsTP :: "HashTypeTP option \<Rightarrow> u32 \<Rightarrow> message" where [message_defs]:
  "StreamingHmacParamsTP h tag_size =
     [EnumField 1 HashTypeTP_IsValid 0 kExplicit (map_option HashTypeTP_value h), Uint32Field 2 kImplicit (Some tag_size)]"

definition AesCtrHmacStreamingParamsTP :: "u32 \<Rightarrow> u32 \<Rightarrow> HashTypeTP option \<Rightarrow> message option \<Rightarrow> message" where [message_defs]:
  "AesCtrHmacStreamingParamsTP segment_size derived_key_size hkdf_hash_type hmac_params =
     [Uint32Field 1 kImplicit (Some segment_size), Uint32Field 2 kImplicit (Some derived_key_size),
      EnumField 3 HashTypeTP_IsValid 0 kExplicit (map_option HashTypeTP_value hkdf_hash_type),
      MessageField 4 kExplicit (StreamingHmacParamsTP None 0) hmac_params]"

abbreviation AesCtrHmacStreamingParams_blank :: message where
  "AesCtrHmacStreamingParams_blank \<equiv> AesCtrHmacStreamingParamsTP 0 0 None None"

definition AesCtrHmacStreamingKeyFormatTP :: "message option \<Rightarrow> u32 \<Rightarrow> u32 \<Rightarrow> message" where [message_defs]:
  "AesCtrHmacStreamingKeyFormatTP params key_size version =
     [MessageField 1 kExplicit AesCtrHmacStreamingParams_blank params,
      Uint32Field 2 kImplicit (Some key_size), Uint32Field 3 kImplicit (Some version)]"

definition AesCtrHmacStreamingKeyTP :: "crc_fns \<Rightarrow> u32 \<Rightarrow> message option \<Rightarrow> bytes option \<Rightarrow> message" where [message_defs]:
  "AesCtrHmacStreamingKeyTP C version params kv =
     [Uint32Field 1 kImplicit (Some version), MessageField 2 kExplicit AesCtrHmacStreamingParams_blank params,
      SecretDataField 3 kExplicit (map_option (SecretDataFromStringView C) kv)]"

definition AesCtrHmacStreaming_ToParameters :: "message \<Rightarrow> int \<Rightarrow> AesCtrHmacStreamingParameters StatusOr" where
  "AesCtrHmacStreaming_ToParameters params key_size =
     (let hmac_params = sub_at params 3 (StreamingHmacParamsTP None 0)
      in with_ok (FromProtoHashType (HashTypeTP_of (uint_at params 2)))
        (\<lambda>hkdf. with_ok (FromProtoHashType (HashTypeTP_of (uint_at hmac_params 0)))
          (\<lambda>hmac. AesCtrHmacStreamingParameters_Build (Some key_size) (Some (int_of_uint32 (uint_at params 1))) (Some hkdf) (Some hmac)
             (Some (int_of_uint32 (uint_at hmac_params 1))) (Some (int_of_uint32 (uint_at params 0))))))"

definition AesCtrHmacStreaming_FromParameters :: "AesCtrHmacStreamingParameters \<Rightarrow> message StatusOr" where
  "AesCtrHmacStreaming_FromParameters p =
     with_ok (Streaming_ToProtoHashType (chs_hkdf_hash_type p))
       (\<lambda>hkdf. with_ok (Streaming_ToProtoHashType (chs_hmac_hash_type p))
         (\<lambda>hmac. Inr (AesCtrHmacStreamingParamsTP (uint32_of_int (chs_segment_size p)) (uint32_of_int (chs_derived_key_size p)) (Some hkdf)
            (Some (StreamingHmacParamsTP (Some hmac) (uint32_of_int (chs_tag_size p)))))))"

definition AesCtrHmacStreaming_ParseParameters :: "crc_fns \<Rightarrow> KeyTemplate \<Rightarrow> AesCtrHmacStreamingParameters StatusOr" where
  "AesCtrHmacStreaming_ParseParameters C key_template =
     (if kt_type_url key_template \<noteq> AesCtrHmacStreaming_TypeUrl then Inl kInvalidArgument
      else case ParseFromString C (AesCtrHmacStreamingKeyFormatTP None 0 0) (kt_value key_template) of
        None \<Rightarrow> Inl kInvalidArgument
      | Some fmt \<Rightarrow>
          if uint_at fmt 2 \<noteq> 0 then Inl kInvalidArgument
          else AesCtrHmacStreaming_ToParameters (sub_at fmt 0 AesCtrHmacStreamingParams_blank) (int_of_uint32 (uint_at fmt 1)))"

definition AesCtrHmacStreaming_SerializeParameters ::
    "crc_fns \<Rightarrow> (nat \<Rightarrow> byte) \<Rightarrow> AesCtrHmacStreamingParameters \<Rightarrow> KeyTemplate StatusOr option" where
  "AesCtrHmacStreaming_SerializeParameters C junk p =
     (case AesCtrHmacStreaming_FromParameters p of
        Inl e \<Rightarrow> Some (Inl e)
      | Inr params \<Rightarrow>
          parameters_serialization C junk AesCtrHmacStreaming_TypeUrl RAW
            (AesCtrHmacStreamingKeyFormatTP (Some params) (uint32_of_int (chs_key_size p)) 0))"

definition AesCtrHmacStreaming_ParseKey :: "crc_fns \<Rightarrow> ProtoKeySerialization \<Rightarrow> bool \<Rightarrow> AesCtrHmacStreamingKey StatusOr" where
  "AesCtrHmacStreaming_ParseKey C s token =
     (if \<not> token then Inl kPermissionDenied
      else if pks_type_url s \<noteq> AesCtrHmacStreaming_TypeUrl then Inl kInvalidArgument
      else case ParseFromString C (AesCtrHmacStreamingKeyTP C 0 None None) (pks_serialized_key s) of
        None \<Rightarrow> Inl kInvalidArgument
      | Some key \<Rightarrow>
          if uint_at key 0 \<noteq> 0 then Inl kInvalidArgument
          else with_ok (AesCtrHmacStreaming_ToParameters (sub_at key 1 AesCtrHmacStreamingParams_blank) (int_of_size (length (bytes_at key 2))))
            (\<lambda>p. AesCtrHmacStreamingKey_Create p (bytes_at key 2)))"

definition AesCtrHmacStreaming_SerializeKey ::
    "crc_fns \<Rightarrow> (nat \<Rightarrow> byte) \<Rightarrow> AesCtrHmacStreamingKey \<Rightarrow> bool \<Rightarrow> ProtoKeySerialization StatusOr option" where
  "AesCtrHmacStreaming_SerializeKey C junk key token =
     (if \<not> token then Some (Inl kPermissionDenied)
      else case AesCtrHmacStreaming_FromParameters (raw_parameters key) of
        Inl e \<Rightarrow> Some (Inl e)
      | Inr params \<Rightarrow>
          key_serialization C junk AesCtrHmacStreaming_TypeUrl RAW None
            (AesCtrHmacStreamingKeyTP C 0 (Some params) (Some (raw_key_bytes key))))"

text \<open>Valid parameters: the sizes are \<^verbatim>\<open>int\<close> values and \<^verbatim>\<open>Build\<close> accepts them.\<close>

definition AesCtrHmacStreamingParameters_valid :: "AesCtrHmacStreamingParameters \<Rightarrow> bool" where
  "AesCtrHmacStreamingParameters_valid p \<longleftrightarrow> is_int (chs_key_size p) \<and> is_int (chs_segment_size p) \<and>
     AesCtrHmacStreamingParameters_Build (Some (chs_key_size p)) (Some (chs_derived_key_size p)) (Some (chs_hkdf_hash_type p))
       (Some (chs_hmac_hash_type p)) (Some (chs_tag_size p)) (Some (chs_segment_size p)) = Inr p"

definition AesCtrHmacStreamingKey_valid :: "AesCtrHmacStreamingKey \<Rightarrow> bool" where
  "AesCtrHmacStreamingKey_valid k \<longleftrightarrow> AesCtrHmacStreamingParameters_valid (raw_parameters k) \<and>
     AesCtrHmacStreamingKey_Create (raw_parameters k) (raw_key_bytes k) = Inr k"

subsection \<open>The format of AES-CTR-HMAC streaming keys\<close>

lemma wf_AesCtrHmacStreaming:
  assumes "HashTypeTP_IsValid (HashTypeTP_value h)" and "HashTypeTP_IsValid (HashTypeTP_value h')"
  shows "wf_message C (AesCtrHmacStreamingKeyFormatTP
      (Some (AesCtrHmacStreamingParamsTP seg dks (Some h) (Some (StreamingHmacParamsTP (Some h') tag)))) ks v)"
    and "wf_message C (AesCtrHmacStreamingKeyTP C v
      (Some (AesCtrHmacStreamingParamsTP seg dks (Some h) (Some (StreamingHmacParamsTP (Some h') tag)))) (Some kv))"
  using assms by (simp_all add: wf_message_def message_defs FieldsAreSorted_def Message_Clear_def EnumField_Clear_def)

lemma Clear_AesCtrHmacStreaming [simp]:
  "Message_Clear (AesCtrHmacStreamingKeyFormatTP params ks v) = AesCtrHmacStreamingKeyFormatTP None 0 0"
  "Message_Clear (AesCtrHmacStreamingKeyTP C v params kv) = AesCtrHmacStreamingKeyTP C 0 None None"
  by (simp_all add: Message_Clear_def AesCtrHmacStreamingKeyFormatTP_def AesCtrHmacStreamingKeyTP_def SecretDataField_Clear_def)

lemma AesCtrHmacStreaming_access [simp]:
  "sub_at (AesCtrHmacStreamingKeyFormatTP (Some params) ks v) 0 d = params" "uint_at (AesCtrHmacStreamingKeyFormatTP po ks v) (Suc 0) = ks"
  "uint_at (AesCtrHmacStreamingKeyFormatTP po ks v) 2 = v" "uint_at (AesCtrHmacStreamingKeyTP C v po kvo) 0 = v"
  "sub_at (AesCtrHmacStreamingKeyTP C v (Some params) kvo) (Suc 0) d = params" "bytes_at (AesCtrHmacStreamingKeyTP C v po (Some kv)) 2 = kv"
  "uint_at (AesCtrHmacStreamingParamsTP seg dks (Some h) po) 2 = HashTypeTP_value h"
  "uint_at (AesCtrHmacStreamingParamsTP seg dks ho po) 0 = seg" "uint_at (AesCtrHmacStreamingParamsTP seg dks ho po) (Suc 0) = dks"
  "sub_at (AesCtrHmacStreamingParamsTP seg dks ho (Some params)) 3 d = params"
  "uint_at (StreamingHmacParamsTP (Some h) tag) 0 = HashTypeTP_value h" "uint_at (StreamingHmacParamsTP ho tag) (Suc 0) = tag"
  by (simp_all add: message_defs access_defs numeral_3_eq_3)

lemma AesCtrHmacStreamingParamsTP_size:
  "length (message_bytes (AesCtrHmacStreamingParamsTP seg dks (Some h) (Some (StreamingHmacParamsTP (Some h') tag)))) \<le> 120"
  using field_bytes_le(1) [of 1 kImplicit "Some seg"] field_bytes_le(1) [of 2 kImplicit "Some dks"] field_bytes_le(1) [of 2 kImplicit "Some tag"]
    field_bytes_le(2) [of 3 HashTypeTP_IsValid 0 kExplicit "Some (HashTypeTP_value h)"]
    field_bytes_le(2) [of 1 HashTypeTP_IsValid 0 kExplicit "Some (HashTypeTP_value h')"]
    field_bytes_le(5) [of 4 kExplicit "StreamingHmacParamsTP None 0" "StreamingHmacParamsTP (Some h') tag"]
  by (simp add: AesCtrHmacStreamingParamsTP_def StreamingHmacParamsTP_def)

lemma AesCtrHmacStreamingKeyFormatTP_size:
  "length (message_bytes (AesCtrHmacStreamingKeyFormatTP
     (Some (AesCtrHmacStreamingParamsTP seg dks (Some h) (Some (StreamingHmacParamsTP (Some h') tag)))) ks v)) < 2 ^ 32"
  using field_bytes_le(1) [of 2 kImplicit "Some ks"] field_bytes_le(1) [of 3 kImplicit "Some v"] AesCtrHmacStreamingParamsTP_size [of seg dks h h' tag]
    field_bytes_le(5) [of 1 kExplicit AesCtrHmacStreamingParams_blank
      "AesCtrHmacStreamingParamsTP seg dks (Some h) (Some (StreamingHmacParamsTP (Some h') tag))"]
  by (simp add: AesCtrHmacStreamingKeyFormatTP_def)

lemma AesCtrHmacStreamingKeyTP_size:
  "length (message_bytes (AesCtrHmacStreamingKeyTP C v
     (Some (AesCtrHmacStreamingParamsTP seg dks (Some h) (Some (StreamingHmacParamsTP (Some h') tag)))) (Some kv))) \<le> length kv + 200"
  using field_bytes_le(1) [of 1 kImplicit "Some v"] field_bytes_le(3) [of 3 kExplicit C kv] AesCtrHmacStreamingParamsTP_size [of seg dks h h' tag]
    field_bytes_le(5) [of 2 kExplicit AesCtrHmacStreamingParams_blank
      "AesCtrHmacStreamingParamsTP seg dks (Some h) (Some (StreamingHmacParamsTP (Some h') tag))"]
  by (simp add: AesCtrHmacStreamingKeyTP_def)

lemma AesCtrHmacStreaming_url [simp]: "IsPrintableAscii AesCtrHmacStreaming_TypeUrl"
  by (simp add: AesCtrHmacStreaming_TypeUrl_def IsPrintableAscii_def ascii_def)

lemma streaming_max_tag_size_proto: "streaming_max_tag_size h = Some n \<Longrightarrow> (\<exists>t. Streaming_ToProtoHashType h = Inr t) \<and> n \<le> 64"
  by (cases h) auto

lemma AesCtrHmacStreamingParameters_Build_Inr:
  assumes "AesCtrHmacStreamingParameters_Build (Some ks) (Some dks) (Some h) (Some h') (Some tag) (Some seg) = Inr p"
  shows "p = \<lparr>chs_key_size = ks, chs_derived_key_size = dks, chs_hkdf_hash_type = h, chs_hmac_hash_type = h', chs_tag_size = tag,
      chs_segment_size = seg\<rparr> \<and> (\<exists>t. Streaming_ToProtoHashType h = Inr t) \<and> (\<exists>t. Streaming_ToProtoHashType h' = Inr t) \<and>
    is_int dks \<and> is_int tag"
proof -
  obtain n n' where "streaming_max_tag_size h = Some n" "streaming_max_tag_size h' = Some n'" "10 \<le> tag" "tag \<le> n'" "dks = 16 \<or> dks = 32"
    "p = \<lparr>chs_key_size = ks, chs_derived_key_size = dks, chs_hkdf_hash_type = h, chs_hmac_hash_type = h', chs_tag_size = tag, chs_segment_size = seg\<rparr>"
    using assms by (auto simp: AesCtrHmacStreamingParameters_Build_def split: if_split_asm option.split_asm)
  with streaming_max_tag_size_proto [of h n] streaming_max_tag_size_proto [of h' n'] show ?thesis by auto
qed

lemma AesCtrHmacStreamingKey_Create_Inr:
  "AesCtrHmacStreamingKey_Create p kb = Inr k \<Longrightarrow> raw_parameters k = p \<and> raw_key_bytes k = kb \<and> chs_key_size p = int (length kb)"
  by (auto simp: AesCtrHmacStreamingKey_Create_def split: if_split_asm)

interpretation aes_ctr_hmac_streaming_parameters: proto_format AesCtrHmacStreaming_ParseParameters AesCtrHmacStreaming_SerializeParameters AesCtrHmacStreamingParameters_valid
  "\<lambda>p. True" "\<lambda>p. True"
proof (unfold_locales, goal_cases)
  case (1 C t p)
  then obtain w dks h h2 tag seg where b: "AesCtrHmacStreamingParameters_Build (Some (int_of_uint32 w)) (Some dks) (Some h) (Some h2) (Some tag) (Some (int_of_uint32 seg)) = Inr p"
    by (auto simp: AesCtrHmacStreaming_ParseParameters_def AesCtrHmacStreaming_ToParameters_def Let_def split: if_split_asm option.split_asm)
  with AesCtrHmacStreamingParameters_Build_Inr [OF b] show ?case by (auto simp: AesCtrHmacStreamingParameters_valid_def)
next
  case (2 C p junk)
  then have b: "AesCtrHmacStreamingParameters_Build (Some (chs_key_size p)) (Some (chs_derived_key_size p)) (Some (chs_hkdf_hash_type p))
      (Some (chs_hmac_hash_type p)) (Some (chs_tag_size p)) (Some (chs_segment_size p)) = Inr p" "is_int (chs_key_size p)" "is_int (chs_segment_size p)"
    by (auto simp: AesCtrHmacStreamingParameters_valid_def)
  note c = AesCtrHmacStreamingParameters_Build_Inr [OF b(1)]
  from c obtain h h2 where h: "Streaming_ToProtoHashType (chs_hkdf_hash_type p) = Inr h" and h2: "Streaming_ToProtoHashType (chs_hmac_hash_type p) = Inr h2"
    by blast
  show ?case
    by (rule parameters_roundtripI [where blank = "AesCtrHmacStreamingKeyFormatTP None 0 0" and url = AesCtrHmacStreaming_TypeUrl and prefix = RAW
          and m = "AesCtrHmacStreamingKeyFormatTP (Some (AesCtrHmacStreamingParamsTP (uint32_of_int (chs_segment_size p))
                   (uint32_of_int (chs_derived_key_size p)) (Some h) (Some (StreamingHmacParamsTP (Some h2) (uint32_of_int (chs_tag_size p))))))
                   (uint32_of_int (chs_key_size p)) 0"])
      (use 2 b c h h2 streaming_hash_roundtrip [OF h] streaming_hash_roundtrip [OF h2] AesCtrHmacStreamingKeyFormatTP_size in
        \<open>simp_all add: AesCtrHmacStreaming_SerializeParameters_def AesCtrHmacStreaming_ParseParameters_def AesCtrHmacStreaming_ToParameters_def AesCtrHmacStreaming_FromParameters_def wf_AesCtrHmacStreaming Let_def\<close>)
qed

interpretation aes_ctr_hmac_streaming_key: secret_key_format AesCtrHmacStreaming_ParseKey AesCtrHmacStreaming_SerializeKey AesCtrHmacStreamingKey_valid "\<lambda>k. True" "\<lambda>k. True" AesCtrHmacStreaming_TypeUrl
proof (unfold_locales, goal_cases)
  case (1 C s k)
  then obtain dks h h2 tag seg p kb where b: "AesCtrHmacStreamingParameters_Build (Some (int_of_size (length kb))) (Some dks) (Some h) (Some h2) (Some tag)
      (Some (int_of_uint32 seg)) = Inr p"
    and c: "AesCtrHmacStreamingKey_Create p kb = Inr k"
    by (auto simp: AesCtrHmacStreaming_ParseKey_def AesCtrHmacStreaming_ToParameters_def Let_def split: if_split_asm option.split_asm)
  from b AesCtrHmacStreamingParameters_Build_Inr [OF b] AesCtrHmacStreamingKey_Create_Inr [OF c] c int_of_size_is_int [of "length kb"] show ?case
    by (auto simp: AesCtrHmacStreamingKey_valid_def AesCtrHmacStreamingParameters_valid_def)
next
  case (2 C k junk)
  let ?p = "raw_parameters k"
  from 2 have b: "AesCtrHmacStreamingParameters_Build (Some (chs_key_size ?p)) (Some (chs_derived_key_size ?p)) (Some (chs_hkdf_hash_type ?p))
      (Some (chs_hmac_hash_type ?p)) (Some (chs_tag_size ?p)) (Some (chs_segment_size ?p)) = Inr ?p" "is_int (chs_key_size ?p)" "is_int (chs_segment_size ?p)"
    and k: "AesCtrHmacStreamingKey_Create ?p (raw_key_bytes k) = Inr k"
    by (auto simp: AesCtrHmacStreamingKey_valid_def AesCtrHmacStreamingParameters_valid_def)
  note c = AesCtrHmacStreamingParameters_Build_Inr [OF b(1)] and l = AesCtrHmacStreamingKey_Create_Inr [OF k]
  from c obtain h h2 where h: "Streaming_ToProtoHashType (chs_hkdf_hash_type ?p) = Inr h" and h2: "Streaming_ToProtoHashType (chs_hmac_hash_type ?p) = Inr h2"
    by blast
  show ?case
    by (rule key_roundtripI [where m = "AesCtrHmacStreamingKeyTP C 0 (Some (AesCtrHmacStreamingParamsTP (uint32_of_int (chs_segment_size ?p))
             (uint32_of_int (chs_derived_key_size ?p)) (Some h) (Some (StreamingHmacParamsTP (Some h2) (uint32_of_int (chs_tag_size ?p))))))
             (Some (raw_key_bytes k))" and blank = "AesCtrHmacStreamingKeyTP C 0 None None"
          and url = AesCtrHmacStreaming_TypeUrl and prefix = RAW and i = None])
      (use 2 b c k l h h2 streaming_hash_roundtrip [OF h] streaming_hash_roundtrip [OF h2] key_fits [OF AesCtrHmacStreamingKeyTP_size] in
        \<open>simp_all add: AesCtrHmacStreaming_SerializeKey_def AesCtrHmacStreaming_ParseKey_def int_of_size_int AesCtrHmacStreaming_ToParameters_def AesCtrHmacStreaming_FromParameters_def wf_AesCtrHmacStreaming Let_def\<close>)
qed (auto simp: AesCtrHmacStreaming_ParseKey_def AesCtrHmacStreaming_SerializeKey_def AesCtrHmacStreaming_FromParameters_def wf_AesCtrHmacStreaming Let_def dest: key_serialization_shape split: if_split_asm sum.split_asm)

end
