(* ===== verification/Tink_Keys.thy ===== *)
theory Tink_Keys
  imports Aead_Keys Chacha_Keys Ctr_Hmac_Keys Prf_Keys Streaming_Keys
begin

text \<open>
  The keys and parameters of the library as one type each. The source has class hierarchies under
  \<^verbatim>\<open>Key\<close> and \<^verbatim>\<open>Parameters\<close> and tells the classes apart by \<^verbatim>\<open>typeid\<close> and \<^verbatim>\<open>dynamic_cast\<close>; here there is a
  constructor for every modelled class, one for the legacy classes of \<^verbatim>\<open>internal/legacy_proto_key.h\<close> and
  \<^verbatim>\<open>internal/legacy_proto_parameters.h\<close>, and one for the classes that are not modelled: a class number
  and an object of an unspecified type.
\<close>

section \<open>Definitions\<close>

subsection \<open>Classes and objects\<close>

datatype KeyClass =
    AesCtrHmacAeadClass
  | AesEaxClass
  | AesGcmClass
  | AesGcmSivClass
  | ChaCha20Poly1305Class
  | XAesGcmClass
  | XChaCha20Poly1305Class
  | AesSivClass
  | AesCmacClass
  | HmacClass
  | AesCmacPrfClass
  | HkdfPrfClass
  | HmacPrfClass
  | AesCtrHmacStreamingClass
  | AesGcmHkdfStreamingClass
  | LegacyClass
  | OtherClass nat

datatype 'o TinkKey =
    AesCtrHmacAead_Key AesCtrHmacAeadKey
  | AesEax_Key AesEaxKey
  | AesGcm_Key AesGcmKey
  | AesGcmSiv_Key AesGcmSivKey
  | ChaCha20Poly1305_Key ChaCha20Poly1305Key
  | XAesGcm_Key XAesGcmKey
  | XChaCha20Poly1305_Key XChaCha20Poly1305Key
  | AesSiv_Key AesSivKey
  | AesCmac_Key AesCmacKey
  | Hmac_Key HmacKey
  | AesCmacPrf_Key AesCmacPrfKey
  | HkdfPrf_Key HkdfPrfKey
  | HmacPrf_Key HmacPrfKey
  | AesCtrHmacStreaming_Key AesCtrHmacStreamingKey
  | AesGcmHkdfStreaming_Key AesGcmHkdfStreamingKey
  | LegacyProtoKey ProtoKeySerialization
  | Other_Key nat 'o

datatype 'o TinkParameters =
    AesCtrHmacAead_Parameters AesCtrHmacAeadParameters
  | AesEax_Parameters AesEaxParameters
  | AesGcm_Parameters AesGcmParameters
  | AesGcmSiv_Parameters AesGcmSivParameters
  | ChaCha20Poly1305_Parameters ChaCha20Poly1305Parameters
  | XAesGcm_Parameters XAesGcmParameters
  | XChaCha20Poly1305_Parameters XChaCha20Poly1305Parameters
  | AesSiv_Parameters AesSivParameters
  | AesCmac_Parameters AesCmacParameters
  | Hmac_Parameters HmacParameters
  | AesCmacPrf_Parameters AesCmacPrfParameters
  | HkdfPrf_Parameters HkdfPrfParameters
  | HmacPrf_Parameters HmacPrfParameters
  | AesCtrHmacStreaming_Parameters AesCtrHmacStreamingParameters
  | AesGcmHkdfStreaming_Parameters AesGcmHkdfStreamingParameters
  | LegacyProtoParameters KeyTemplate
  | Other_Parameters nat 'o

fun key_class :: "'o TinkKey \<Rightarrow> KeyClass" where
  "key_class (AesCtrHmacAead_Key k) = AesCtrHmacAeadClass"
| "key_class (AesEax_Key k) = AesEaxClass"
| "key_class (AesGcm_Key k) = AesGcmClass"
| "key_class (AesGcmSiv_Key k) = AesGcmSivClass"
| "key_class (ChaCha20Poly1305_Key k) = ChaCha20Poly1305Class"
| "key_class (XAesGcm_Key k) = XAesGcmClass"
| "key_class (XChaCha20Poly1305_Key k) = XChaCha20Poly1305Class"
| "key_class (AesSiv_Key k) = AesSivClass"
| "key_class (AesCmac_Key k) = AesCmacClass"
| "key_class (Hmac_Key k) = HmacClass"
| "key_class (AesCmacPrf_Key k) = AesCmacPrfClass"
| "key_class (HkdfPrf_Key k) = HkdfPrfClass"
| "key_class (HmacPrf_Key k) = HmacPrfClass"
| "key_class (AesCtrHmacStreaming_Key k) = AesCtrHmacStreamingClass"
| "key_class (AesGcmHkdfStreaming_Key k) = AesGcmHkdfStreamingClass"
| "key_class (LegacyProtoKey s) = LegacyClass"
| "key_class (Other_Key n ob) = OtherClass n"

fun parameters_class :: "'o TinkParameters \<Rightarrow> KeyClass" where
  "parameters_class (AesCtrHmacAead_Parameters p) = AesCtrHmacAeadClass"
| "parameters_class (AesEax_Parameters p) = AesEaxClass"
| "parameters_class (AesGcm_Parameters p) = AesGcmClass"
| "parameters_class (AesGcmSiv_Parameters p) = AesGcmSivClass"
| "parameters_class (ChaCha20Poly1305_Parameters p) = ChaCha20Poly1305Class"
| "parameters_class (XAesGcm_Parameters p) = XAesGcmClass"
| "parameters_class (XChaCha20Poly1305_Parameters p) = XChaCha20Poly1305Class"
| "parameters_class (AesSiv_Parameters p) = AesSivClass"
| "parameters_class (AesCmac_Parameters p) = AesCmacClass"
| "parameters_class (Hmac_Parameters p) = HmacClass"
| "parameters_class (AesCmacPrf_Parameters p) = AesCmacPrfClass"
| "parameters_class (HkdfPrf_Parameters p) = HkdfPrfClass"
| "parameters_class (HmacPrf_Parameters p) = HmacPrfClass"
| "parameters_class (AesCtrHmacStreaming_Parameters p) = AesCtrHmacStreamingClass"
| "parameters_class (AesGcmHkdfStreaming_Parameters p) = AesGcmHkdfStreamingClass"
| "parameters_class (LegacyProtoParameters t) = LegacyClass"
| "parameters_class (Other_Parameters n ob) = OtherClass n"

subsection \<open>Legacy keys\<close>

definition CheckKeyAccess :: "KeyMaterialType \<Rightarrow> bool \<Rightarrow> Status" where
  "CheckKeyAccess material token =
     (if (material = SYMMETRIC \<or> material = ASYMMETRIC_PRIVATE) \<and> \<not> token then Inl kPermissionDenied else OkStatus)"

definition LegacyProtoKey_Create :: "ProtoKeySerialization \<Rightarrow> bool \<Rightarrow> 'o TinkKey StatusOr" where
  "LegacyProtoKey_Create s token =
     with_ok (CheckKeyAccess (pks_key_material_type s) token) (\<lambda>_. Inr (LegacyProtoKey s))"

definition LegacyProtoKey_Serialization :: "ProtoKeySerialization \<Rightarrow> bool \<Rightarrow> ProtoKeySerialization StatusOr" where
  "LegacyProtoKey_Serialization s token =
     with_ok (CheckKeyAccess (pks_key_material_type s) token) (\<lambda>_. Inr s)"

definition LegacyProtoKey_HasIdRequirement :: "ProtoKeySerialization \<Rightarrow> bool" where
  "LegacyProtoKey_HasIdRequirement s \<longleftrightarrow> pks_output_prefix_type s \<noteq> RAW"

definition LegacyProtoParameters_HasIdRequirement :: "KeyTemplate \<Rightarrow> bool" where
  "LegacyProtoParameters_HasIdRequirement t \<longleftrightarrow> kt_output_prefix_type t \<noteq> RAW"

subsection \<open>Well-formed objects\<close>

text \<open>
  The objects the \<^verbatim>\<open>Create\<close> and \<^verbatim>\<open>Build\<close> functions of the modelled classes return (\<open>key_valid\<close>), those
  among them their proto format can express (\<open>key_writable\<close>), and those that fit into a message
  (\<open>key_fits\<close>).
\<close>

fun key_valid :: "'o TinkKey \<Rightarrow> bool" where
  "key_valid (AesCtrHmacAead_Key k) \<longleftrightarrow> AesCtrHmacAeadKey_valid k"
| "key_valid (AesEax_Key k) \<longleftrightarrow> AesEaxKey_valid k"
| "key_valid (AesGcm_Key k) \<longleftrightarrow> AesGcmKey_valid k"
| "key_valid (AesGcmSiv_Key k) \<longleftrightarrow> AesGcmSivKey_valid k"
| "key_valid (ChaCha20Poly1305_Key k) \<longleftrightarrow> ChaCha20Poly1305Key_valid k"
| "key_valid (XAesGcm_Key k) \<longleftrightarrow> XAesGcmKey_valid k"
| "key_valid (XChaCha20Poly1305_Key k) \<longleftrightarrow> XChaCha20Poly1305Key_valid k"
| "key_valid (AesSiv_Key k) \<longleftrightarrow> AesSivKey_valid k"
| "key_valid (AesCmac_Key k) \<longleftrightarrow> AesCmacKey_valid k"
| "key_valid (Hmac_Key k) \<longleftrightarrow> HmacKey_valid k"
| "key_valid (AesCmacPrf_Key k) \<longleftrightarrow> AesCmacPrfKey_valid k"
| "key_valid (HkdfPrf_Key k) \<longleftrightarrow> HkdfPrfKey_valid k"
| "key_valid (HmacPrf_Key k) \<longleftrightarrow> HmacPrfKey_valid k"
| "key_valid (AesCtrHmacStreaming_Key k) \<longleftrightarrow> AesCtrHmacStreamingKey_valid k"
| "key_valid (AesGcmHkdfStreaming_Key k) \<longleftrightarrow> AesGcmHkdfStreamingKey_valid k"
| "key_valid (LegacyProtoKey s) \<longleftrightarrow> False"
| "key_valid (Other_Key n ob) \<longleftrightarrow> False"

fun key_writable :: "'o TinkKey \<Rightarrow> bool" where
  "key_writable (AesEax_Key k) \<longleftrightarrow> eax_tag_size (key_parameters k) = 16"
| "key_writable (AesGcm_Key k) \<longleftrightarrow> AesGcm_ValidateParamsForProto (key_parameters k) = OkStatus"
| "key_writable _ \<longleftrightarrow> True"

fun key_fits :: "'o TinkKey \<Rightarrow> bool" where
  "key_fits (AesCmacPrf_Key k) \<longleftrightarrow> length (raw_key_bytes k) < 2 ^ 31"
| "key_fits (HkdfPrf_Key k) \<longleftrightarrow> hkdf_salt_fits (raw_parameters k)"
| "key_fits _ \<longleftrightarrow> True"

fun parameters_valid :: "'o TinkParameters \<Rightarrow> bool" where
  "parameters_valid (AesCtrHmacAead_Parameters p) \<longleftrightarrow> AesCtrHmacAeadParameters_valid p"
| "parameters_valid (AesEax_Parameters p) \<longleftrightarrow> AesEaxParameters_valid p"
| "parameters_valid (AesGcm_Parameters p) \<longleftrightarrow> AesGcmParameters_valid p"
| "parameters_valid (AesGcmSiv_Parameters p) \<longleftrightarrow> AesGcmSivParameters_valid p"
| "parameters_valid (ChaCha20Poly1305_Parameters p) \<longleftrightarrow> ChaCha20Poly1305Parameters_valid p"
| "parameters_valid (XAesGcm_Parameters p) \<longleftrightarrow> XAesGcmParameters_valid p"
| "parameters_valid (XChaCha20Poly1305_Parameters p) \<longleftrightarrow> XChaCha20Poly1305Parameters_valid p"
| "parameters_valid (AesSiv_Parameters p) \<longleftrightarrow> AesSivParameters_valid p"
| "parameters_valid (AesCmac_Parameters p) \<longleftrightarrow> AesCmacParameters_valid p"
| "parameters_valid (Hmac_Parameters p) \<longleftrightarrow> HmacParameters_valid p"
| "parameters_valid (AesCmacPrf_Parameters p) \<longleftrightarrow> AesCmacPrfParameters_valid p"
| "parameters_valid (HkdfPrf_Parameters p) \<longleftrightarrow> HkdfPrfParameters_valid p"
| "parameters_valid (HmacPrf_Parameters p) \<longleftrightarrow> HmacPrfParameters_valid p"
| "parameters_valid (AesCtrHmacStreaming_Parameters p) \<longleftrightarrow> AesCtrHmacStreamingParameters_valid p"
| "parameters_valid (AesGcmHkdfStreaming_Parameters p) \<longleftrightarrow> AesGcmHkdfStreamingParameters_valid p"
| "parameters_valid (LegacyProtoParameters t) \<longleftrightarrow> False"
| "parameters_valid (Other_Parameters n ob) \<longleftrightarrow> False"

fun parameters_writable :: "'o TinkParameters \<Rightarrow> bool" where
  "parameters_writable (AesEax_Parameters p) \<longleftrightarrow> eax_tag_size p = 16"
| "parameters_writable (AesGcm_Parameters p) \<longleftrightarrow> AesGcm_ValidateParamsForProto p = OkStatus"
| "parameters_writable _ \<longleftrightarrow> True"

fun parameters_fits :: "'o TinkParameters \<Rightarrow> bool" where
  "parameters_fits (HkdfPrf_Parameters p) \<longleftrightarrow> hkdf_salt_fits p"
| "parameters_fits _ \<longleftrightarrow> True"

section \<open>Lemmas\<close>

lemma key_valid_class: "key_valid k \<Longrightarrow> key_class k \<noteq> LegacyClass \<and> (\<forall>n. key_class k \<noteq> OtherClass n)"
  by (cases k) auto

lemma parameters_valid_class:
  "parameters_valid p \<Longrightarrow> parameters_class p \<noteq> LegacyClass \<and> (\<forall>n. parameters_class p \<noteq> OtherClass n)"
  by (cases p) auto

lemma legacy_access:
  "LegacyProtoKey_Create s token = Inr k \<longleftrightarrow> k = LegacyProtoKey s \<and> CheckKeyAccess (pks_key_material_type s) token = OkStatus"
  "LegacyProtoKey_Serialization s token = Inr s' \<longleftrightarrow> s' = s \<and> CheckKeyAccess (pks_key_material_type s) token = OkStatus"
  by (auto simp: LegacyProtoKey_Create_def LegacyProtoKey_Serialization_def)

lemma CheckKeyAccess_token [simp]: "CheckKeyAccess material True = OkStatus"
  by (simp add: CheckKeyAccess_def)

end
