(* ===== verification/Serialization_Registry.thy ===== *)
theory Serialization_Registry
  imports Tink_Keys
begin

text \<open>
  The serialization registry (\<^verbatim>\<open>internal/serialization_registry.cc\<close>, \<^verbatim>\<open>mutable_serialization_registry.cc\<close>,
  \<^verbatim>\<open>key_parser.h\<close>, \<^verbatim>\<open>key_serializer.h\<close>, \<^verbatim>\<open>parameters_parser.h\<close>, \<^verbatim>\<open>parameters_serializer.h\<close>,
  \<^verbatim>\<open>parser_index.h\<close>, \<^verbatim>\<open>serializer_index.h\<close>) and what \<^verbatim>\<open>global_serialization_registry.cc\<close> registers of the
  modelled key classes.

  Parser and serializer objects are compared by address, so an object is a record with an address.
  The conversion functions an object holds work on one class; the object's \<^verbatim>\<open>dynamic_cast\<close> to that class
  is the option of the stored function. The locks of the mutable registry make its operations atomic:
  each is a function on the registry it protects.
\<close>

section \<open>Definitions\<close>

subsection \<open>Serializations and indices\<close>

text \<open>
  The subclasses of \<^verbatim>\<open>Serialization\<close>: a serialized key, serialized parameters, and others, which have
  only an object identifier.
\<close>

datatype Serialization = KeySerialization ProtoKeySerialization | ParametersSerialization KeyTemplate
  | OtherSerialization nat bytes

datatype SerializationType = kProtoKeySerialization | kProtoParametersSerialization | kOtherSerialization nat

fun ObjectIdentifier :: "Serialization \<Rightarrow> bytes" where
  "ObjectIdentifier (KeySerialization s) = pks_type_url s"
| "ObjectIdentifier (ParametersSerialization t) = kt_type_url t"
| "ObjectIdentifier (OtherSerialization n identifier) = identifier"

fun serialization_type :: "Serialization \<Rightarrow> SerializationType" where
  "serialization_type (KeySerialization s) = kProtoKeySerialization"
| "serialization_type (ParametersSerialization t) = kProtoParametersSerialization"
| "serialization_type (OtherSerialization n identifier) = kOtherSerialization n"

type_synonym ParserIndex = "SerializationType \<times> bytes"
type_synonym SerializerIndex = "KeyClass \<times> SerializationType"

definition ParserIndex_Create :: "Serialization \<Rightarrow> ParserIndex" where
  "ParserIndex_Create serialization = (serialization_type serialization, ObjectIdentifier serialization)"

subsection \<open>Parsers and serializers\<close>

record 'o ParametersParser =
  pp_address :: nat
  pp_object_identifier :: bytes
  pp_function :: "crc_fns \<Rightarrow> KeyTemplate \<Rightarrow> 'o TinkParameters StatusOr"

record 'o ParametersSerializer =
  ps_address :: nat
  ps_class :: KeyClass
  ps_function :: "'o TinkParameters \<Rightarrow> (crc_fns \<Rightarrow> (nat \<Rightarrow> byte) \<Rightarrow> KeyTemplate StatusOr option) option"

record 'o KeyParser =
  kp_address :: nat
  kp_object_identifier :: bytes
  kp_function :: "crc_fns \<Rightarrow> ProtoKeySerialization \<Rightarrow> bool \<Rightarrow> 'o TinkKey StatusOr"

record 'o KeySerializer =
  ks_address :: nat
  ks_class :: KeyClass
  ks_function :: "'o TinkKey \<Rightarrow> (crc_fns \<Rightarrow> (nat \<Rightarrow> byte) \<Rightarrow> bool \<Rightarrow> ProtoKeySerialization StatusOr option) option"

definition ParametersParser_Index :: "'o ParametersParser \<Rightarrow> ParserIndex" where
  "ParametersParser_Index parser = (kProtoParametersSerialization, pp_object_identifier parser)"

definition KeyParser_Index :: "'o KeyParser \<Rightarrow> ParserIndex" where
  "KeyParser_Index parser = (kProtoKeySerialization, kp_object_identifier parser)"

definition ParametersSerializer_Index :: "'o ParametersSerializer \<Rightarrow> SerializerIndex" where
  "ParametersSerializer_Index serializer = (ps_class serializer, kProtoParametersSerialization)"

definition KeySerializer_Index :: "'o KeySerializer \<Rightarrow> SerializerIndex" where
  "KeySerializer_Index serializer = (ks_class serializer, kProtoKeySerialization)"

definition ParametersParserImpl_ParseParameters ::
    "crc_fns \<Rightarrow> 'o ParametersParser \<Rightarrow> Serialization \<Rightarrow> 'o TinkParameters StatusOr" where
  "ParametersParserImpl_ParseParameters C parser serialization =
     (if ObjectIdentifier serialization \<noteq> pp_object_identifier parser then Inl kInvalidArgument
      else case serialization of
             ParametersSerialization t \<Rightarrow> pp_function parser C t
           | _ \<Rightarrow> Inl kInvalidArgument)"

definition KeyParserImpl_ParseKey ::
    "crc_fns \<Rightarrow> 'o KeyParser \<Rightarrow> Serialization \<Rightarrow> bool \<Rightarrow> 'o TinkKey StatusOr" where
  "KeyParserImpl_ParseKey C parser serialization token =
     (if ObjectIdentifier serialization \<noteq> kp_object_identifier parser then Inl kInvalidArgument
      else case serialization of
             KeySerialization s \<Rightarrow> kp_function parser C s token
           | _ \<Rightarrow> Inl kInvalidArgument)"

definition ParametersSerializerImpl_SerializeParameters ::
    "crc_fns \<Rightarrow> (nat \<Rightarrow> byte) \<Rightarrow> 'o ParametersSerializer \<Rightarrow> 'o TinkParameters \<Rightarrow> KeyTemplate StatusOr option" where
  "ParametersSerializerImpl_SerializeParameters C junk serializer p =
     (case ps_function serializer p of None \<Rightarrow> Some (Inl kInvalidArgument) | Some f \<Rightarrow> f C junk)"

definition KeySerializerImpl_SerializeKey ::
    "crc_fns \<Rightarrow> (nat \<Rightarrow> byte) \<Rightarrow> 'o KeySerializer \<Rightarrow> 'o TinkKey \<Rightarrow> bool \<Rightarrow> ProtoKeySerialization StatusOr option" where
  "KeySerializerImpl_SerializeKey C junk serializer k token =
     (case ks_function serializer k of None \<Rightarrow> Some (Inl kInvalidArgument) | Some f \<Rightarrow> f C junk token)"

subsection \<open>The registry and its builder\<close>

text \<open>A builder has the members of a registry; building and copying keep them.\<close>

record 'o SerializationRegistry =
  parameters_parsers :: "ParserIndex \<rightharpoonup> 'o ParametersParser"
  parameters_serializers :: "SerializerIndex \<rightharpoonup> 'o ParametersSerializer"
  key_parsers :: "ParserIndex \<rightharpoonup> 'o KeyParser"
  key_serializers :: "SerializerIndex \<rightharpoonup> 'o KeySerializer"

definition SerializationRegistry_empty :: "'o SerializationRegistry" where
  "SerializationRegistry_empty = \<lparr>parameters_parsers = Map.empty, parameters_serializers = Map.empty,
     key_parsers = Map.empty, key_serializers = Map.empty\<rparr>"

text \<open>
  The body of the four register functions: a different object at the index is an error, and \<^verbatim>\<open>insert\<close>
  does not replace an entry.
\<close>

definition register_object :: "('a \<Rightarrow> nat) \<Rightarrow> ('i \<rightharpoonup> 'a) \<Rightarrow> 'i \<Rightarrow> 'a \<Rightarrow> ('i \<rightharpoonup> 'a) StatusOr" where
  "register_object address m index ob =
     (case m index of
        None \<Rightarrow> Inr (m(index \<mapsto> ob))
      | Some old \<Rightarrow> if address old \<noteq> address ob then Inl kAlreadyExists else Inr m)"

type_synonym 'o registration = "'o SerializationRegistry \<Rightarrow> Status \<times> 'o SerializationRegistry"

definition Builder_RegisterParametersParser :: "'o ParametersParser \<Rightarrow> 'o registration" where
  "Builder_RegisterParametersParser parser b =
     (case register_object pp_address (parameters_parsers b) (ParametersParser_Index parser) parser of
        Inl e \<Rightarrow> (Inl e, b)
      | Inr m \<Rightarrow> (OkStatus, b\<lparr>parameters_parsers := m\<rparr>))"

definition Builder_RegisterParametersSerializer :: "'o ParametersSerializer \<Rightarrow> 'o registration" where
  "Builder_RegisterParametersSerializer serializer b =
     (case register_object ps_address (parameters_serializers b) (ParametersSerializer_Index serializer) serializer of
        Inl e \<Rightarrow> (Inl e, b)
      | Inr m \<Rightarrow> (OkStatus, b\<lparr>parameters_serializers := m\<rparr>))"

definition Builder_RegisterKeyParser :: "'o KeyParser \<Rightarrow> 'o registration" where
  "Builder_RegisterKeyParser parser b =
     (case register_object kp_address (key_parsers b) (KeyParser_Index parser) parser of
        Inl e \<Rightarrow> (Inl e, b)
      | Inr m \<Rightarrow> (OkStatus, b\<lparr>key_parsers := m\<rparr>))"

definition Builder_RegisterKeySerializer :: "'o KeySerializer \<Rightarrow> 'o registration" where
  "Builder_RegisterKeySerializer serializer b =
     (case register_object ks_address (key_serializers b) (KeySerializer_Index serializer) serializer of
        Inl e \<Rightarrow> (Inl e, b)
      | Inr m \<Rightarrow> (OkStatus, b\<lparr>key_serializers := m\<rparr>))"

text \<open>The mutable registry registers with a builder that is a copy of it, and keeps its state on errors.\<close>

definition Mutable_register :: "'o registration \<Rightarrow> 'o registration" where
  "Mutable_register f registry =
     (let builder = registry; (status, builder') = f builder
      in if status \<noteq> OkStatus then (status, registry) else (OkStatus, builder'))"

definition Mutable_RegisterParametersParser :: "'o ParametersParser \<Rightarrow> 'o registration" where
  "Mutable_RegisterParametersParser parser = Mutable_register (Builder_RegisterParametersParser parser)"

definition Mutable_RegisterParametersSerializer :: "'o ParametersSerializer \<Rightarrow> 'o registration" where
  "Mutable_RegisterParametersSerializer serializer = Mutable_register (Builder_RegisterParametersSerializer serializer)"

definition Mutable_RegisterKeyParser :: "'o KeyParser \<Rightarrow> 'o registration" where
  "Mutable_RegisterKeyParser parser = Mutable_register (Builder_RegisterKeyParser parser)"

definition Mutable_RegisterKeySerializer :: "'o KeySerializer \<Rightarrow> 'o registration" where
  "Mutable_RegisterKeySerializer serializer = Mutable_register (Builder_RegisterKeySerializer serializer)"

definition Mutable_Reset :: "'o SerializationRegistry \<Rightarrow> 'o SerializationRegistry" where
  "Mutable_Reset registry = SerializationRegistry_empty"

subsection \<open>Parsing and serializing\<close>

definition Registry_ParseParameters ::
    "crc_fns \<Rightarrow> 'o SerializationRegistry \<Rightarrow> Serialization \<Rightarrow> 'o TinkParameters StatusOr" where
  "Registry_ParseParameters C r serialization =
     (case parameters_parsers r (ParserIndex_Create serialization) of
        None \<Rightarrow> Inl kNotFound
      | Some parser \<Rightarrow> ParametersParserImpl_ParseParameters C parser serialization)"

definition Registry_ParseParametersWithLegacyFallback ::
    "crc_fns \<Rightarrow> 'o SerializationRegistry \<Rightarrow> Serialization \<Rightarrow> 'o TinkParameters StatusOr" where
  "Registry_ParseParametersWithLegacyFallback C r serialization =
     (let parameters = Registry_ParseParameters C r serialization
      in if parameters = Inl kNotFound
         then case serialization of
                ParametersSerialization t \<Rightarrow> Inr (LegacyProtoParameters t)
              | _ \<Rightarrow> Inl kInternal
         else parameters)"

definition Registry_SerializeParameters ::
    "crc_fns \<Rightarrow> (nat \<Rightarrow> byte) \<Rightarrow> 'o SerializationRegistry \<Rightarrow> 'o TinkParameters \<Rightarrow> KeyTemplate StatusOr option" where
  "Registry_SerializeParameters C junk r p =
     (case parameters_serializers r (parameters_class p, kProtoParametersSerialization) of
        None \<Rightarrow> Some (Inl kNotFound)
      | Some serializer \<Rightarrow> ParametersSerializerImpl_SerializeParameters C junk serializer p)"

definition Registry_ParseKey ::
    "crc_fns \<Rightarrow> 'o SerializationRegistry \<Rightarrow> Serialization \<Rightarrow> bool \<Rightarrow> 'o TinkKey StatusOr" where
  "Registry_ParseKey C r serialization token =
     (case key_parsers r (ParserIndex_Create serialization) of
        None \<Rightarrow> Inl kNotFound
      | Some parser \<Rightarrow> KeyParserImpl_ParseKey C parser serialization token)"

text \<open>The fallback takes a token that is not optional.\<close>

definition Registry_ParseKeyWithLegacyFallback ::
    "crc_fns \<Rightarrow> 'o SerializationRegistry \<Rightarrow> Serialization \<Rightarrow> 'o TinkKey StatusOr" where
  "Registry_ParseKeyWithLegacyFallback C r serialization =
     (let key = Registry_ParseKey C r serialization True
      in if key = Inl kNotFound
         then case serialization of
                KeySerialization s \<Rightarrow> LegacyProtoKey_Create s True
              | _ \<Rightarrow> Inl kInternal
         else key)"

definition Registry_SerializeKey ::
    "crc_fns \<Rightarrow> (nat \<Rightarrow> byte) \<Rightarrow> 'o SerializationRegistry \<Rightarrow> 'o TinkKey \<Rightarrow> bool \<Rightarrow> ProtoKeySerialization StatusOr option" where
  "Registry_SerializeKey C junk r k token =
     (case key_serializers r (key_class k, kProtoKeySerialization) of
        None \<Rightarrow> Some (Inl kNotFound)
      | Some serializer \<Rightarrow> KeySerializerImpl_SerializeKey C junk serializer k token)"

subsection \<open>Registering a key class\<close>

text \<open>The four objects of a key class.\<close>

record 'o KeyFormat =
  parameters_parser :: "'o ParametersParser"
  parameters_serializer :: "'o ParametersSerializer"
  key_parser :: "'o KeyParser"
  key_serializer :: "'o KeySerializer"

definition on_ok :: "Status \<times> 'o SerializationRegistry \<Rightarrow> 'o registration \<Rightarrow> Status \<times> 'o SerializationRegistry" where
  "on_ok sb f = (if fst sb \<noteq> OkStatus then sb else f (snd sb))"

definition RegisterProtoSerializationWithRegistryBuilder :: "'o KeyFormat \<Rightarrow> 'o registration" where
  "RegisterProtoSerializationWithRegistryBuilder format builder =
     on_ok (on_ok (on_ok (Builder_RegisterParametersParser (parameters_parser format) builder)
         (Builder_RegisterParametersSerializer (parameters_serializer format)))
         (Builder_RegisterKeyParser (key_parser format)))
         (Builder_RegisterKeySerializer (key_serializer format))"

definition RegisterProtoSerializationWithMutableRegistry :: "'o KeyFormat \<Rightarrow> 'o registration" where
  "RegisterProtoSerializationWithMutableRegistry format registry =
     on_ok (on_ok (on_ok (Mutable_RegisterParametersParser (parameters_parser format) registry)
         (Mutable_RegisterParametersSerializer (parameters_serializer format)))
         (Mutable_RegisterKeyParser (key_parser format)))
         (Mutable_RegisterKeySerializer (key_serializer format))"

text \<open>
  The objects of a class with the given address, type URL and conversion functions; \<open>mk\<close> makes an
  object of the class from its members and \<open>dest\<close> is the \<^verbatim>\<open>dynamic_cast\<close> to the class.
\<close>

definition make_format ::
    "nat \<Rightarrow> KeyClass \<Rightarrow> bytes \<Rightarrow>
     ('p \<Rightarrow> 'o TinkParameters) \<Rightarrow> ('o TinkParameters \<Rightarrow> 'p option) \<Rightarrow>
     (crc_fns \<Rightarrow> KeyTemplate \<Rightarrow> 'p StatusOr) \<Rightarrow> (crc_fns \<Rightarrow> (nat \<Rightarrow> byte) \<Rightarrow> 'p \<Rightarrow> KeyTemplate StatusOr option) \<Rightarrow>
     ('k \<Rightarrow> 'o TinkKey) \<Rightarrow> ('o TinkKey \<Rightarrow> 'k option) \<Rightarrow>
     (crc_fns \<Rightarrow> ProtoKeySerialization \<Rightarrow> bool \<Rightarrow> 'k StatusOr) \<Rightarrow>
     (crc_fns \<Rightarrow> (nat \<Rightarrow> byte) \<Rightarrow> 'k \<Rightarrow> bool \<Rightarrow> ProtoKeySerialization StatusOr option) \<Rightarrow> 'o KeyFormat" where
  "make_format address c url mk_p dest_p parse_p serialize_p mk_k dest_k parse_k serialize_k =
     \<lparr>parameters_parser = \<lparr>pp_address = address, pp_object_identifier = url,
        pp_function = (\<lambda>C t. with_ok (parse_p C t) (\<lambda>p. Inr (mk_p p)))\<rparr>,
      parameters_serializer = \<lparr>ps_address = address, ps_class = c,
        ps_function = (\<lambda>p. map_option (\<lambda>p' C junk. serialize_p C junk p') (dest_p p))\<rparr>,
      key_parser = \<lparr>kp_address = address, kp_object_identifier = url,
        kp_function = (\<lambda>C s token. with_ok (parse_k C s token) (\<lambda>k. Inr (mk_k k)))\<rparr>,
      key_serializer = \<lparr>ks_address = address, ks_class = c,
        ks_function = (\<lambda>k. map_option (\<lambda>k' C junk token. serialize_k C junk k' token) (dest_k k))\<rparr>\<rparr>"

definition AesCtrHmacAeadFormat :: "'o KeyFormat" where
  "AesCtrHmacAeadFormat = make_format 1 AesCtrHmacAeadClass AesCtrHmacAead_TypeUrl
     AesCtrHmacAead_Parameters (\<lambda>p. case p of AesCtrHmacAead_Parameters p' \<Rightarrow> Some p' | _ \<Rightarrow> None) AesCtrHmacAead_ParseParameters AesCtrHmacAead_SerializeParameters
     AesCtrHmacAead_Key (\<lambda>k. case k of AesCtrHmacAead_Key k' \<Rightarrow> Some k' | _ \<Rightarrow> None) AesCtrHmacAead_ParseKey AesCtrHmacAead_SerializeKey"

definition AesEaxFormat :: "'o KeyFormat" where
  "AesEaxFormat = make_format 2 AesEaxClass AesEax_TypeUrl
     AesEax_Parameters (\<lambda>p. case p of AesEax_Parameters p' \<Rightarrow> Some p' | _ \<Rightarrow> None) AesEax_ParseParameters AesEax_SerializeParameters
     AesEax_Key (\<lambda>k. case k of AesEax_Key k' \<Rightarrow> Some k' | _ \<Rightarrow> None) AesEax_ParseKey AesEax_SerializeKey"

definition AesGcmFormat :: "'o KeyFormat" where
  "AesGcmFormat = make_format 3 AesGcmClass AesGcm_TypeUrl
     AesGcm_Parameters (\<lambda>p. case p of AesGcm_Parameters p' \<Rightarrow> Some p' | _ \<Rightarrow> None) AesGcm_ParseParameters AesGcm_SerializeParameters
     AesGcm_Key (\<lambda>k. case k of AesGcm_Key k' \<Rightarrow> Some k' | _ \<Rightarrow> None) AesGcm_ParseKey AesGcm_SerializeKey"

definition AesGcmSivFormat :: "'o KeyFormat" where
  "AesGcmSivFormat = make_format 4 AesGcmSivClass AesGcmSiv_TypeUrl
     AesGcmSiv_Parameters (\<lambda>p. case p of AesGcmSiv_Parameters p' \<Rightarrow> Some p' | _ \<Rightarrow> None) AesGcmSiv_ParseParameters AesGcmSiv_SerializeParameters
     AesGcmSiv_Key (\<lambda>k. case k of AesGcmSiv_Key k' \<Rightarrow> Some k' | _ \<Rightarrow> None) AesGcmSiv_ParseKey AesGcmSiv_SerializeKey"

definition ChaCha20Poly1305Format :: "'o KeyFormat" where
  "ChaCha20Poly1305Format = make_format 5 ChaCha20Poly1305Class ChaCha20Poly1305_TypeUrl
     ChaCha20Poly1305_Parameters (\<lambda>p. case p of ChaCha20Poly1305_Parameters p' \<Rightarrow> Some p' | _ \<Rightarrow> None) ChaCha20Poly1305_ParseParameters ChaCha20Poly1305_SerializeParameters
     ChaCha20Poly1305_Key (\<lambda>k. case k of ChaCha20Poly1305_Key k' \<Rightarrow> Some k' | _ \<Rightarrow> None) ChaCha20Poly1305_ParseKey ChaCha20Poly1305_SerializeKey"

definition XAesGcmFormat :: "'o KeyFormat" where
  "XAesGcmFormat = make_format 6 XAesGcmClass XAesGcm_TypeUrl
     XAesGcm_Parameters (\<lambda>p. case p of XAesGcm_Parameters p' \<Rightarrow> Some p' | _ \<Rightarrow> None) XAesGcm_ParseParameters XAesGcm_SerializeParameters
     XAesGcm_Key (\<lambda>k. case k of XAesGcm_Key k' \<Rightarrow> Some k' | _ \<Rightarrow> None) XAesGcm_ParseKey XAesGcm_SerializeKey"

definition XChaCha20Poly1305Format :: "'o KeyFormat" where
  "XChaCha20Poly1305Format = make_format 7 XChaCha20Poly1305Class XChaCha20Poly1305_TypeUrl
     XChaCha20Poly1305_Parameters (\<lambda>p. case p of XChaCha20Poly1305_Parameters p' \<Rightarrow> Some p' | _ \<Rightarrow> None) XChaCha20Poly1305_ParseParameters XChaCha20Poly1305_SerializeParameters
     XChaCha20Poly1305_Key (\<lambda>k. case k of XChaCha20Poly1305_Key k' \<Rightarrow> Some k' | _ \<Rightarrow> None) XChaCha20Poly1305_ParseKey XChaCha20Poly1305_SerializeKey"

definition AesSivFormat :: "'o KeyFormat" where
  "AesSivFormat = make_format 8 AesSivClass AesSiv_TypeUrl
     AesSiv_Parameters (\<lambda>p. case p of AesSiv_Parameters p' \<Rightarrow> Some p' | _ \<Rightarrow> None) AesSiv_ParseParameters AesSiv_SerializeParameters
     AesSiv_Key (\<lambda>k. case k of AesSiv_Key k' \<Rightarrow> Some k' | _ \<Rightarrow> None) AesSiv_ParseKey AesSiv_SerializeKey"

definition AesCmacFormat :: "'o KeyFormat" where
  "AesCmacFormat = make_format 9 AesCmacClass AesCmac_TypeUrl
     AesCmac_Parameters (\<lambda>p. case p of AesCmac_Parameters p' \<Rightarrow> Some p' | _ \<Rightarrow> None) AesCmac_ParseParameters AesCmac_SerializeParameters
     AesCmac_Key (\<lambda>k. case k of AesCmac_Key k' \<Rightarrow> Some k' | _ \<Rightarrow> None) AesCmac_ParseKey AesCmac_SerializeKey"

definition HmacFormat :: "'o KeyFormat" where
  "HmacFormat = make_format 10 HmacClass Hmac_TypeUrl
     Hmac_Parameters (\<lambda>p. case p of Hmac_Parameters p' \<Rightarrow> Some p' | _ \<Rightarrow> None) Hmac_ParseParameters Hmac_SerializeParameters
     Hmac_Key (\<lambda>k. case k of Hmac_Key k' \<Rightarrow> Some k' | _ \<Rightarrow> None) Hmac_ParseKey Hmac_SerializeKey"

definition AesCmacPrfFormat :: "'o KeyFormat" where
  "AesCmacPrfFormat = make_format 11 AesCmacPrfClass AesCmacPrf_TypeUrl
     AesCmacPrf_Parameters (\<lambda>p. case p of AesCmacPrf_Parameters p' \<Rightarrow> Some p' | _ \<Rightarrow> None) AesCmacPrf_ParseParameters AesCmacPrf_SerializeParameters
     AesCmacPrf_Key (\<lambda>k. case k of AesCmacPrf_Key k' \<Rightarrow> Some k' | _ \<Rightarrow> None) AesCmacPrf_ParseKey AesCmacPrf_SerializeKey"

definition HkdfPrfFormat :: "'o KeyFormat" where
  "HkdfPrfFormat = make_format 12 HkdfPrfClass HkdfPrf_TypeUrl
     HkdfPrf_Parameters (\<lambda>p. case p of HkdfPrf_Parameters p' \<Rightarrow> Some p' | _ \<Rightarrow> None) HkdfPrf_ParseParameters HkdfPrf_SerializeParameters
     HkdfPrf_Key (\<lambda>k. case k of HkdfPrf_Key k' \<Rightarrow> Some k' | _ \<Rightarrow> None) HkdfPrf_ParseKey HkdfPrf_SerializeKey"

definition HmacPrfFormat :: "'o KeyFormat" where
  "HmacPrfFormat = make_format 13 HmacPrfClass HmacPrf_TypeUrl
     HmacPrf_Parameters (\<lambda>p. case p of HmacPrf_Parameters p' \<Rightarrow> Some p' | _ \<Rightarrow> None) HmacPrf_ParseParameters HmacPrf_SerializeParameters
     HmacPrf_Key (\<lambda>k. case k of HmacPrf_Key k' \<Rightarrow> Some k' | _ \<Rightarrow> None) HmacPrf_ParseKey HmacPrf_SerializeKey"

definition AesCtrHmacStreamingFormat :: "'o KeyFormat" where
  "AesCtrHmacStreamingFormat = make_format 14 AesCtrHmacStreamingClass AesCtrHmacStreaming_TypeUrl
     AesCtrHmacStreaming_Parameters (\<lambda>p. case p of AesCtrHmacStreaming_Parameters p' \<Rightarrow> Some p' | _ \<Rightarrow> None) AesCtrHmacStreaming_ParseParameters AesCtrHmacStreaming_SerializeParameters
     AesCtrHmacStreaming_Key (\<lambda>k. case k of AesCtrHmacStreaming_Key k' \<Rightarrow> Some k' | _ \<Rightarrow> None) AesCtrHmacStreaming_ParseKey AesCtrHmacStreaming_SerializeKey"

definition AesGcmHkdfStreamingFormat :: "'o KeyFormat" where
  "AesGcmHkdfStreamingFormat = make_format 15 AesGcmHkdfStreamingClass AesGcmHkdfStreaming_TypeUrl
     AesGcmHkdfStreaming_Parameters (\<lambda>p. case p of AesGcmHkdfStreaming_Parameters p' \<Rightarrow> Some p' | _ \<Rightarrow> None) AesGcmHkdfStreaming_ParseParameters AesGcmHkdfStreaming_SerializeParameters
     AesGcmHkdfStreaming_Key (\<lambda>k. case k of AesGcmHkdfStreaming_Key k' \<Rightarrow> Some k' | _ \<Rightarrow> None) AesGcmHkdfStreaming_ParseKey AesGcmHkdfStreaming_SerializeKey"

definition RegisterAesCtrHmacAeadProtoSerializationWithRegistryBuilder :: "'o registration" where
  "RegisterAesCtrHmacAeadProtoSerializationWithRegistryBuilder = RegisterProtoSerializationWithRegistryBuilder AesCtrHmacAeadFormat"

definition RegisterAesEaxProtoSerializationWithRegistryBuilder :: "'o registration" where
  "RegisterAesEaxProtoSerializationWithRegistryBuilder = RegisterProtoSerializationWithRegistryBuilder AesEaxFormat"

definition RegisterAesGcmProtoSerializationWithRegistryBuilder :: "'o registration" where
  "RegisterAesGcmProtoSerializationWithRegistryBuilder = RegisterProtoSerializationWithRegistryBuilder AesGcmFormat"

definition RegisterAesGcmSivProtoSerializationWithRegistryBuilder :: "'o registration" where
  "RegisterAesGcmSivProtoSerializationWithRegistryBuilder = RegisterProtoSerializationWithRegistryBuilder AesGcmSivFormat"

definition RegisterChaCha20Poly1305ProtoSerializationWithRegistryBuilder :: "'o registration" where
  "RegisterChaCha20Poly1305ProtoSerializationWithRegistryBuilder = RegisterProtoSerializationWithRegistryBuilder ChaCha20Poly1305Format"

definition RegisterXAesGcmProtoSerializationWithRegistryBuilder :: "'o registration" where
  "RegisterXAesGcmProtoSerializationWithRegistryBuilder = RegisterProtoSerializationWithRegistryBuilder XAesGcmFormat"

definition RegisterXChaCha20Poly1305ProtoSerializationWithRegistryBuilder :: "'o registration" where
  "RegisterXChaCha20Poly1305ProtoSerializationWithRegistryBuilder = RegisterProtoSerializationWithRegistryBuilder XChaCha20Poly1305Format"

definition RegisterAesSivProtoSerializationWithRegistryBuilder :: "'o registration" where
  "RegisterAesSivProtoSerializationWithRegistryBuilder = RegisterProtoSerializationWithRegistryBuilder AesSivFormat"

definition RegisterAesCmacProtoSerializationWithRegistryBuilder :: "'o registration" where
  "RegisterAesCmacProtoSerializationWithRegistryBuilder = RegisterProtoSerializationWithRegistryBuilder AesCmacFormat"

definition RegisterHmacProtoSerializationWithRegistryBuilder :: "'o registration" where
  "RegisterHmacProtoSerializationWithRegistryBuilder = RegisterProtoSerializationWithRegistryBuilder HmacFormat"

definition RegisterAesCmacPrfProtoSerializationWithRegistryBuilder :: "'o registration" where
  "RegisterAesCmacPrfProtoSerializationWithRegistryBuilder = RegisterProtoSerializationWithRegistryBuilder AesCmacPrfFormat"

definition RegisterHkdfPrfProtoSerializationWithRegistryBuilder :: "'o registration" where
  "RegisterHkdfPrfProtoSerializationWithRegistryBuilder = RegisterProtoSerializationWithRegistryBuilder HkdfPrfFormat"

definition RegisterHmacPrfProtoSerializationWithRegistryBuilder :: "'o registration" where
  "RegisterHmacPrfProtoSerializationWithRegistryBuilder = RegisterProtoSerializationWithRegistryBuilder HmacPrfFormat"

definition RegisterAesCtrHmacStreamingProtoSerializationWithRegistryBuilder :: "'o registration" where
  "RegisterAesCtrHmacStreamingProtoSerializationWithRegistryBuilder = RegisterProtoSerializationWithRegistryBuilder AesCtrHmacStreamingFormat"

definition RegisterAesGcmHkdfStreamingProtoSerializationWithRegistryBuilder :: "'o registration" where
  "RegisterAesGcmHkdfStreamingProtoSerializationWithRegistryBuilder = RegisterProtoSerializationWithRegistryBuilder AesGcmHkdfStreamingFormat"

definition RegisterAesCtrHmacAeadProtoSerializationWithMutableRegistry :: "'o registration" where
  "RegisterAesCtrHmacAeadProtoSerializationWithMutableRegistry = RegisterProtoSerializationWithMutableRegistry AesCtrHmacAeadFormat"

definition RegisterAesEaxProtoSerializationWithMutableRegistry :: "'o registration" where
  "RegisterAesEaxProtoSerializationWithMutableRegistry = RegisterProtoSerializationWithMutableRegistry AesEaxFormat"

definition RegisterAesGcmProtoSerializationWithMutableRegistry :: "'o registration" where
  "RegisterAesGcmProtoSerializationWithMutableRegistry = RegisterProtoSerializationWithMutableRegistry AesGcmFormat"

definition RegisterAesGcmSivProtoSerializationWithMutableRegistry :: "'o registration" where
  "RegisterAesGcmSivProtoSerializationWithMutableRegistry = RegisterProtoSerializationWithMutableRegistry AesGcmSivFormat"

definition RegisterChaCha20Poly1305ProtoSerializationWithMutableRegistry :: "'o registration" where
  "RegisterChaCha20Poly1305ProtoSerializationWithMutableRegistry = RegisterProtoSerializationWithMutableRegistry ChaCha20Poly1305Format"

definition RegisterXAesGcmProtoSerializationWithMutableRegistry :: "'o registration" where
  "RegisterXAesGcmProtoSerializationWithMutableRegistry = RegisterProtoSerializationWithMutableRegistry XAesGcmFormat"

definition RegisterXChaCha20Poly1305ProtoSerializationWithMutableRegistry :: "'o registration" where
  "RegisterXChaCha20Poly1305ProtoSerializationWithMutableRegistry = RegisterProtoSerializationWithMutableRegistry XChaCha20Poly1305Format"

definition RegisterAesSivProtoSerializationWithMutableRegistry :: "'o registration" where
  "RegisterAesSivProtoSerializationWithMutableRegistry = RegisterProtoSerializationWithMutableRegistry AesSivFormat"

definition RegisterAesCmacProtoSerializationWithMutableRegistry :: "'o registration" where
  "RegisterAesCmacProtoSerializationWithMutableRegistry = RegisterProtoSerializationWithMutableRegistry AesCmacFormat"

definition RegisterHmacProtoSerializationWithMutableRegistry :: "'o registration" where
  "RegisterHmacProtoSerializationWithMutableRegistry = RegisterProtoSerializationWithMutableRegistry HmacFormat"

definition RegisterAesCmacPrfProtoSerializationWithMutableRegistry :: "'o registration" where
  "RegisterAesCmacPrfProtoSerializationWithMutableRegistry = RegisterProtoSerializationWithMutableRegistry AesCmacPrfFormat"

definition RegisterHkdfPrfProtoSerializationWithMutableRegistry :: "'o registration" where
  "RegisterHkdfPrfProtoSerializationWithMutableRegistry = RegisterProtoSerializationWithMutableRegistry HkdfPrfFormat"

definition RegisterHmacPrfProtoSerializationWithMutableRegistry :: "'o registration" where
  "RegisterHmacPrfProtoSerializationWithMutableRegistry = RegisterProtoSerializationWithMutableRegistry HmacPrfFormat"

definition RegisterAesCtrHmacStreamingProtoSerializationWithMutableRegistry :: "'o registration" where
  "RegisterAesCtrHmacStreamingProtoSerializationWithMutableRegistry = RegisterProtoSerializationWithMutableRegistry AesCtrHmacStreamingFormat"

definition RegisterAesGcmHkdfStreamingProtoSerializationWithMutableRegistry :: "'o registration" where
  "RegisterAesGcmHkdfStreamingProtoSerializationWithMutableRegistry = RegisterProtoSerializationWithMutableRegistry AesGcmHkdfStreamingFormat"

subsection \<open>The global registry\<close>

text \<open>
  The registrations of the modelled classes, in the order of the source; a registration that fails is
  a failed \<^verbatim>\<open>ABSL_CHECK_OK\<close> (\<open>None\<close>). The source registers five more classes (KMS AEAD and four
  signature schemes) in between; the theorems hold for every registry that extends this one.
\<close>

fun check_ok :: "'o registration list \<Rightarrow> 'o SerializationRegistry \<Rightarrow> 'o SerializationRegistry option" where
  "check_ok [] b = Some b"
| "check_ok (f # fs) b = (if fst (f b) \<noteq> OkStatus then None else check_ok fs (snd (f b)))"

definition GlobalSerializationRegistry :: "'o SerializationRegistry option" where
  "GlobalSerializationRegistry = check_ok [
     RegisterAesCtrHmacAeadProtoSerializationWithRegistryBuilder,
     RegisterAesEaxProtoSerializationWithRegistryBuilder,
     RegisterAesGcmProtoSerializationWithRegistryBuilder,
     RegisterAesGcmSivProtoSerializationWithRegistryBuilder,
     RegisterChaCha20Poly1305ProtoSerializationWithRegistryBuilder,
     RegisterXAesGcmProtoSerializationWithRegistryBuilder,
     RegisterXChaCha20Poly1305ProtoSerializationWithRegistryBuilder,
     RegisterAesSivProtoSerializationWithRegistryBuilder,
     RegisterAesCmacProtoSerializationWithRegistryBuilder,
     RegisterHmacProtoSerializationWithRegistryBuilder,
     RegisterAesCmacPrfProtoSerializationWithRegistryBuilder,
     RegisterHkdfPrfProtoSerializationWithRegistryBuilder,
     RegisterHmacPrfProtoSerializationWithRegistryBuilder,
     RegisterAesCtrHmacStreamingProtoSerializationWithRegistryBuilder,
     RegisterAesGcmHkdfStreamingProtoSerializationWithRegistryBuilder] SerializationRegistry_empty"

definition registry_extends :: "'o SerializationRegistry \<Rightarrow> 'o SerializationRegistry \<Rightarrow> bool" where
  "registry_extends r r' \<longleftrightarrow> parameters_parsers r \<subseteq>\<^sub>m parameters_parsers r' \<and>
     parameters_serializers r \<subseteq>\<^sub>m parameters_serializers r' \<and> key_parsers r \<subseteq>\<^sub>m key_parsers r' \<and>
     key_serializers r \<subseteq>\<^sub>m key_serializers r'"

definition format_registered :: "'o KeyFormat \<Rightarrow> 'o SerializationRegistry \<Rightarrow> bool" where
  "format_registered f r \<longleftrightarrow>
     parameters_parsers r (ParametersParser_Index (parameters_parser f)) = Some (parameters_parser f) \<and>
     parameters_serializers r (ParametersSerializer_Index (parameters_serializer f)) = Some (parameters_serializer f) \<and>
     key_parsers r (KeyParser_Index (key_parser f)) = Some (key_parser f) \<and>
     key_serializers r (KeySerializer_Index (key_serializer f)) = Some (key_serializer f)"

definition global_formats :: "'o KeyFormat list" where
  "global_formats = [AesCtrHmacAeadFormat, AesEaxFormat, AesGcmFormat, AesGcmSivFormat, ChaCha20Poly1305Format, XAesGcmFormat, XChaCha20Poly1305Format, AesSivFormat, AesCmacFormat, HmacFormat, AesCmacPrfFormat, HkdfPrfFormat, HmacPrfFormat, AesCtrHmacStreamingFormat, AesGcmHkdfStreamingFormat]"


section \<open>Registration\<close>

lemmas index_defs = ParametersParser_Index_def KeyParser_Index_def ParametersSerializer_Index_def
  KeySerializer_Index_def ParserIndex_Create_def

lemmas builder_defs = Builder_RegisterParametersParser_def Builder_RegisterParametersSerializer_def
  Builder_RegisterKeyParser_def Builder_RegisterKeySerializer_def

lemmas mutable_defs = Mutable_RegisterParametersParser_def Mutable_RegisterParametersSerializer_def
  Mutable_RegisterKeyParser_def Mutable_RegisterKeySerializer_def

lemma map_le_Some: "m \<subseteq>\<^sub>m m' \<Longrightarrow> m x = Some y \<Longrightarrow> m' x = Some y"
  by (auto simp: map_le_def dom_def)

lemma format_registered_extends: "format_registered f r \<Longrightarrow> registry_extends r r' \<Longrightarrow> format_registered f r'"
  by (auto simp: registry_extends_def format_registered_def intro: map_le_Some)

text \<open>A registration operation never changes an entry, and an error leaves the registry as it is.\<close>

locale registration_op =
  fixes register :: "'o registration"
  assumes extends: "registry_extends r (snd (register r))"
begin

lemma keeps_format: "format_registered f r \<Longrightarrow> format_registered f (snd (register r))"
  by (erule format_registered_extends) (rule extends)

end

lemma registry_extends_refl [simp]: "registry_extends r r"
  by (simp add: registry_extends_def)

lemma registry_extends_trans [trans]: "registry_extends r r' \<Longrightarrow> registry_extends r' r'' \<Longrightarrow> registry_extends r r''"
  by (auto simp: registry_extends_def intro: map_le_trans)

lemma register_object_le: "register_object address m i ob = Inr m' \<Longrightarrow> m \<subseteq>\<^sub>m m'"
  by (auto simp: register_object_def map_le_def split: option.split_asm if_split_asm)

lemma builder_extends:
  "registry_extends b (snd (Builder_RegisterParametersParser pp b))"
  "registry_extends b (snd (Builder_RegisterParametersSerializer ps b))"
  "registry_extends b (snd (Builder_RegisterKeyParser kp b))"
  "registry_extends b (snd (Builder_RegisterKeySerializer ks b))"
  by (auto simp: builder_defs registry_extends_def split: sum.split dest: register_object_le)

lemma builder_error:
  "fst (Builder_RegisterParametersParser pp b) \<noteq> OkStatus \<Longrightarrow> snd (Builder_RegisterParametersParser pp b) = b"
  "fst (Builder_RegisterParametersSerializer ps b) \<noteq> OkStatus \<Longrightarrow> snd (Builder_RegisterParametersSerializer ps b) = b"
  "fst (Builder_RegisterKeyParser kp b) \<noteq> OkStatus \<Longrightarrow> snd (Builder_RegisterKeyParser kp b) = b"
  "fst (Builder_RegisterKeySerializer ks b) \<noteq> OkStatus \<Longrightarrow> snd (Builder_RegisterKeySerializer ks b) = b"
  by (auto simp: builder_defs split: sum.split_asm)

text \<open>Copying the registry and assigning it back makes no difference: a failed step of a builder changes nothing.\<close>

lemma mutable_is_builder:
  "Mutable_RegisterParametersParser pp = Builder_RegisterParametersParser pp"
  "Mutable_RegisterParametersSerializer ps = Builder_RegisterParametersSerializer ps"
  "Mutable_RegisterKeyParser kp = Builder_RegisterKeyParser kp"
  "Mutable_RegisterKeySerializer ks = Builder_RegisterKeySerializer ks"
  by (auto simp: mutable_defs Mutable_register_def builder_defs fun_eq_iff split: sum.split)

lemma mutable_format_is_builder:
  "RegisterProtoSerializationWithMutableRegistry f = RegisterProtoSerializationWithRegistryBuilder f"
  by (simp add: fun_eq_iff RegisterProtoSerializationWithMutableRegistry_def RegisterProtoSerializationWithRegistryBuilder_def
      mutable_is_builder)

lemma on_ok_extends:
  assumes "registry_extends b (snd sb)" and "\<And>b. registry_extends b (snd (f b))"
  shows "registry_extends b (snd (on_ok sb f))"
  using assms registry_extends_trans by (auto simp: on_ok_def)

interpretation parameters_parser_op: registration_op "Builder_RegisterParametersParser pp" for pp
  by unfold_locales (rule builder_extends)

interpretation parameters_serializer_op: registration_op "Builder_RegisterParametersSerializer ps" for ps
  by unfold_locales (rule builder_extends)

interpretation key_parser_op: registration_op "Builder_RegisterKeyParser kp" for kp
  by unfold_locales (rule builder_extends)

interpretation key_serializer_op: registration_op "Builder_RegisterKeySerializer ks" for ks
  by unfold_locales (rule builder_extends)

interpretation format_op: registration_op "RegisterProtoSerializationWithRegistryBuilder f" for f
  by unfold_locales (simp add: RegisterProtoSerializationWithRegistryBuilder_def on_ok_extends builder_extends)

subsection \<open>Registering several formats\<close>

abbreviation format_url :: "'o KeyFormat \<Rightarrow> bytes" where
  "format_url f \<equiv> kp_object_identifier (key_parser f)"

abbreviation format_class :: "'o KeyFormat \<Rightarrow> KeyClass" where
  "format_class f \<equiv> ks_class (key_serializer f)"

definition wf_format :: "'o KeyFormat \<Rightarrow> bool" where
  "wf_format f \<longleftrightarrow> pp_object_identifier (parameters_parser f) = format_url f \<and> ps_class (parameters_serializer f) = format_class f"

definition fresh_format :: "'o KeyFormat \<Rightarrow> 'o SerializationRegistry \<Rightarrow> bool" where
  "fresh_format f r \<longleftrightarrow>
     parameters_parsers r (kProtoParametersSerialization, format_url f) = None \<and>
     parameters_serializers r (format_class f, kProtoParametersSerialization) = None \<and>
     key_parsers r (kProtoKeySerialization, format_url f) = None \<and>
     key_serializers r (format_class f, kProtoKeySerialization) = None"

lemma register_fresh:
  assumes "wf_format f" and "fresh_format f b"
  shows "\<exists>b'. RegisterProtoSerializationWithRegistryBuilder f b = (OkStatus, b') \<and> format_registered f b' \<and>
    (\<forall>g. fresh_format g b \<longrightarrow> format_url g \<noteq> format_url f \<longrightarrow> format_class g \<noteq> format_class f \<longrightarrow> fresh_format g b')"
  using assms
  by (simp add: wf_format_def fresh_format_def RegisterProtoSerializationWithRegistryBuilder_def on_ok_def builder_defs
      register_object_def index_defs format_registered_def)

lemma check_ok_formats:
  assumes "\<forall>f\<in>set fs. wf_format f \<and> fresh_format f b" and "distinct (map format_url fs)" and "distinct (map format_class fs)"
  shows "\<exists>r. check_ok (map RegisterProtoSerializationWithRegistryBuilder fs) b = Some r \<and> registry_extends b r \<and>
    (\<forall>f\<in>set fs. format_registered f r)"
  using assms
proof (induction fs arbitrary: b)
  case (Cons f fs)
  obtain b' where b': "RegisterProtoSerializationWithRegistryBuilder f b = (OkStatus, b')" "format_registered f b'"
    "\<forall>g. fresh_format g b \<longrightarrow> format_url g \<noteq> format_url f \<longrightarrow> format_class g \<noteq> format_class f \<longrightarrow> fresh_format g b'"
    using register_fresh [of f b] Cons.prems by auto
  have fs: "\<forall>g\<in>set fs. wf_format g \<and> fresh_format g b'"
  proof
    fix g
    assume "g \<in> set fs"
    with Cons.prems have "format_url g \<in> set (map format_url fs)" "format_class g \<in> set (map format_class fs)"
        "wf_format g" "fresh_format g b"
      by auto
    moreover have "format_url f \<notin> set (map format_url fs)" "format_class f \<notin> set (map format_class fs)"
      using Cons.prems by auto
    ultimately have "format_url g \<noteq> format_url f" "format_class g \<noteq> format_class f" "wf_format g" "fresh_format g b"
      by metis+
    with b'(3) show "wf_format g \<and> fresh_format g b'" by blast
  qed
  obtain r where "check_ok (map RegisterProtoSerializationWithRegistryBuilder fs) b' = Some r" "registry_extends b' r"
    "\<forall>g\<in>set fs. format_registered g r"
    using Cons.IH [OF fs] Cons.prems(2,3) by auto
  with b'(1,2) format_op.extends [of b f] show ?case
    by (auto intro: registry_extends_trans format_registered_extends)
qed simp

section \<open>The formats of the key classes\<close>

text \<open>The objects of a class whose conversions satisfy the laws of a format, among those of a registry.\<close>

locale class_format =
  params: proto_format parse_p serialize_p valid_p writable_p fits_p +
  key: secret_key_format parse_k serialize_k valid_k writable_k fits_k url
  for parse_p serialize_p valid_p writable_p fits_p parse_k serialize_k valid_k writable_k fits_k url +
  fixes address :: nat and c :: KeyClass
    and mk_p :: "'p \<Rightarrow> 'o TinkParameters" and dest_p and mk_k :: "'k \<Rightarrow> 'o TinkKey" and dest_k and format
  assumes format_def: "format = make_format address c url mk_p dest_p parse_p serialize_p mk_k dest_k parse_k serialize_k"
    and dest_p: "dest_p (mk_p p) = Some p" and dest_k: "dest_k (mk_k k) = Some k"
    and dest_k_mk: "dest_k k' = Some k \<Longrightarrow> k' = mk_k k"
    and parse_p_url: "parse_p C t = Inr p \<Longrightarrow> kt_type_url t = url"
    and class_p: "parameters_class (mk_p p) = c" and class_k: "key_class (mk_k k) = c"
begin

lemma wf: "wf_format format" "format_url format = url" "format_class format = c"
  by (simp_all add: wf_format_def format_def make_format_def)

lemma key_parser_at:
  "format_registered format r \<Longrightarrow> pks_type_url s = url \<Longrightarrow>
     Registry_ParseKey C r (KeySerialization s) token = with_ok (parse_k C s token) (\<lambda>k. Inr (mk_k k))"
  by (simp add: format_registered_def format_def make_format_def index_defs Registry_ParseKey_def KeyParserImpl_ParseKey_def)

lemma key_serializer_at:
  "format_registered format r \<Longrightarrow> Registry_SerializeKey C junk r (mk_k k) token = serialize_k C junk k token"
  by (simp add: format_registered_def format_def make_format_def index_defs Registry_SerializeKey_def
      KeySerializerImpl_SerializeKey_def class_k dest_k)

lemma parameters_parser_at:
  "format_registered format r \<Longrightarrow> kt_type_url t = url \<Longrightarrow>
     Registry_ParseParameters C r (ParametersSerialization t) = with_ok (parse_p C t) (\<lambda>p. Inr (mk_p p))"
  by (simp add: format_registered_def format_def make_format_def index_defs Registry_ParseParameters_def
      ParametersParserImpl_ParseParameters_def)

lemma parameters_serializer_at:
  "format_registered format r \<Longrightarrow> Registry_SerializeParameters C junk r (mk_p p) = serialize_p C junk p"
  by (simp add: format_registered_def format_def make_format_def index_defs Registry_SerializeParameters_def
      ParametersSerializerImpl_SerializeParameters_def class_p dest_p)

lemma key_roundtrip:
  assumes "format_registered format r" and "crc_laws C" and "valid_k k" "writable_k k" "fits_k k"
  shows "\<exists>s. Registry_SerializeKey C junk r (mk_k k) True = Some (Inr s) \<and>
    Registry_ParseKey C r (KeySerialization s) True = Inr (mk_k k) \<and> pks_key_material_type s = SYMMETRIC \<and> wf_serialization s"
proof -
  from key.serialize_parse [OF assms(2-5)] obtain s where s: "serialize_k C junk k True = Some (Inr s)" "parse_k C s True = Inr k"
    by blast
  with key.serialize_url [OF s(1)] show ?thesis by (simp add: key_serializer_at key_parser_at assms(1))
qed

lemma parameters_roundtrip:
  assumes "format_registered format r" and "crc_laws C" and "valid_p p" "writable_p p" "fits_p p"
  shows "\<exists>t. Registry_SerializeParameters C junk r (mk_p p) = Some (Inr t) \<and>
    Registry_ParseParameters C r (ParametersSerialization t) = Inr (mk_p p)"
proof -
  from params.serialize_parse [OF assms(2-5)] obtain t where t: "serialize_p C junk p = Some (Inr t)" "parse_p C t = Inr p" by blast
  then have "kt_type_url t = url" by (auto dest: parse_p_url)
  with t show ?thesis by (simp add: parameters_serializer_at parameters_parser_at assms(1))
qed

lemma key_parsed:
  assumes "format_registered format r" and "pks_type_url s = url"
    and "Registry_ParseKey C r (KeySerialization s) token = Inr k"
  shows "token \<and> (\<exists>k'. k = mk_k k' \<and> valid_k k' \<and> writable_k k')"
  using assms(3) key.token_needed(1) [of C s token] key.parse_valid [of C s] by (auto simp: key_parser_at assms(1,2))

lemma key_without_token:
  assumes "format_registered format r"
  shows "\<exists>e. Registry_SerializeKey C junk r (mk_k k) False = Some (Inl e)"
  using key.serialize_token by (simp add: key_serializer_at assms)

end

interpretation aes_ctr_hmac_class: class_format AesCtrHmacAead_ParseParameters AesCtrHmacAead_SerializeParameters AesCtrHmacAeadParameters_valid
  "\<lambda>p. True" "\<lambda>p. True" AesCtrHmacAead_ParseKey AesCtrHmacAead_SerializeKey AesCtrHmacAeadKey_valid "\<lambda>k. True"
  "\<lambda>k. True" AesCtrHmacAead_TypeUrl 1 AesCtrHmacAeadClass
  AesCtrHmacAead_Parameters "\<lambda>p. case p of AesCtrHmacAead_Parameters p' \<Rightarrow> Some p' | _ \<Rightarrow> None"
  AesCtrHmacAead_Key "\<lambda>k. case k of AesCtrHmacAead_Key k' \<Rightarrow> Some k' | _ \<Rightarrow> None" AesCtrHmacAeadFormat
  by unfold_locales (auto simp: AesCtrHmacAeadFormat_def AesCtrHmacAead_ParseParameters_def Let_def split: TinkKey.split_asm if_split_asm option.split_asm)

interpretation aes_eax_class: class_format AesEax_ParseParameters AesEax_SerializeParameters AesEaxParameters_valid
  "\<lambda>p. eax_tag_size p = 16" "\<lambda>p. True" AesEax_ParseKey AesEax_SerializeKey AesEaxKey_valid "\<lambda>k. eax_tag_size (key_parameters k) = 16"
  "\<lambda>k. True" AesEax_TypeUrl 2 AesEaxClass
  AesEax_Parameters "\<lambda>p. case p of AesEax_Parameters p' \<Rightarrow> Some p' | _ \<Rightarrow> None"
  AesEax_Key "\<lambda>k. case k of AesEax_Key k' \<Rightarrow> Some k' | _ \<Rightarrow> None" AesEaxFormat
  by unfold_locales (auto simp: AesEaxFormat_def AesEax_ParseParameters_def Let_def split: TinkKey.split_asm if_split_asm option.split_asm)

interpretation aes_gcm_class: class_format AesGcm_ParseParameters AesGcm_SerializeParameters AesGcmParameters_valid
  "\<lambda>p. AesGcm_ValidateParamsForProto p = OkStatus" "\<lambda>p. True" AesGcm_ParseKey AesGcm_SerializeKey AesGcmKey_valid "\<lambda>k. AesGcm_ValidateParamsForProto (key_parameters k) = OkStatus"
  "\<lambda>k. True" AesGcm_TypeUrl 3 AesGcmClass
  AesGcm_Parameters "\<lambda>p. case p of AesGcm_Parameters p' \<Rightarrow> Some p' | _ \<Rightarrow> None"
  AesGcm_Key "\<lambda>k. case k of AesGcm_Key k' \<Rightarrow> Some k' | _ \<Rightarrow> None" AesGcmFormat
  by unfold_locales (auto simp: AesGcmFormat_def AesGcm_ParseParameters_def Let_def split: TinkKey.split_asm if_split_asm option.split_asm)

interpretation aes_gcm_siv_class: class_format AesGcmSiv_ParseParameters AesGcmSiv_SerializeParameters AesGcmSivParameters_valid
  "\<lambda>p. True" "\<lambda>p. True" AesGcmSiv_ParseKey AesGcmSiv_SerializeKey AesGcmSivKey_valid "\<lambda>k. True"
  "\<lambda>k. True" AesGcmSiv_TypeUrl 4 AesGcmSivClass
  AesGcmSiv_Parameters "\<lambda>p. case p of AesGcmSiv_Parameters p' \<Rightarrow> Some p' | _ \<Rightarrow> None"
  AesGcmSiv_Key "\<lambda>k. case k of AesGcmSiv_Key k' \<Rightarrow> Some k' | _ \<Rightarrow> None" AesGcmSivFormat
  by unfold_locales (auto simp: AesGcmSivFormat_def AesGcmSiv_ParseParameters_def Let_def split: TinkKey.split_asm if_split_asm option.split_asm)

interpretation chacha20_poly1305_class: class_format ChaCha20Poly1305_ParseParameters ChaCha20Poly1305_SerializeParameters ChaCha20Poly1305Parameters_valid
  "\<lambda>p. True" "\<lambda>p. True" ChaCha20Poly1305_ParseKey ChaCha20Poly1305_SerializeKey ChaCha20Poly1305Key_valid "\<lambda>k. True"
  "\<lambda>k. True" ChaCha20Poly1305_TypeUrl 5 ChaCha20Poly1305Class
  ChaCha20Poly1305_Parameters "\<lambda>p. case p of ChaCha20Poly1305_Parameters p' \<Rightarrow> Some p' | _ \<Rightarrow> None"
  ChaCha20Poly1305_Key "\<lambda>k. case k of ChaCha20Poly1305_Key k' \<Rightarrow> Some k' | _ \<Rightarrow> None" ChaCha20Poly1305Format
  by unfold_locales (auto simp: ChaCha20Poly1305Format_def ChaCha20Poly1305_ParseParameters_def Let_def split: TinkKey.split_asm if_split_asm option.split_asm)

interpretation x_aes_gcm_class: class_format XAesGcm_ParseParameters XAesGcm_SerializeParameters XAesGcmParameters_valid
  "\<lambda>p. True" "\<lambda>p. True" XAesGcm_ParseKey XAesGcm_SerializeKey XAesGcmKey_valid "\<lambda>k. True"
  "\<lambda>k. True" XAesGcm_TypeUrl 6 XAesGcmClass
  XAesGcm_Parameters "\<lambda>p. case p of XAesGcm_Parameters p' \<Rightarrow> Some p' | _ \<Rightarrow> None"
  XAesGcm_Key "\<lambda>k. case k of XAesGcm_Key k' \<Rightarrow> Some k' | _ \<Rightarrow> None" XAesGcmFormat
  by unfold_locales (auto simp: XAesGcmFormat_def XAesGcm_ParseParameters_def Let_def split: TinkKey.split_asm if_split_asm option.split_asm)

interpretation xchacha20_poly1305_class: class_format XChaCha20Poly1305_ParseParameters XChaCha20Poly1305_SerializeParameters XChaCha20Poly1305Parameters_valid
  "\<lambda>p. True" "\<lambda>p. True" XChaCha20Poly1305_ParseKey XChaCha20Poly1305_SerializeKey XChaCha20Poly1305Key_valid "\<lambda>k. True"
  "\<lambda>k. True" XChaCha20Poly1305_TypeUrl 7 XChaCha20Poly1305Class
  XChaCha20Poly1305_Parameters "\<lambda>p. case p of XChaCha20Poly1305_Parameters p' \<Rightarrow> Some p' | _ \<Rightarrow> None"
  XChaCha20Poly1305_Key "\<lambda>k. case k of XChaCha20Poly1305_Key k' \<Rightarrow> Some k' | _ \<Rightarrow> None" XChaCha20Poly1305Format
  by unfold_locales (auto simp: XChaCha20Poly1305Format_def XChaCha20Poly1305_ParseParameters_def Let_def split: TinkKey.split_asm if_split_asm option.split_asm)

interpretation aes_siv_class: class_format AesSiv_ParseParameters AesSiv_SerializeParameters AesSivParameters_valid
  "\<lambda>p. True" "\<lambda>p. True" AesSiv_ParseKey AesSiv_SerializeKey AesSivKey_valid "\<lambda>k. True"
  "\<lambda>k. True" AesSiv_TypeUrl 8 AesSivClass
  AesSiv_Parameters "\<lambda>p. case p of AesSiv_Parameters p' \<Rightarrow> Some p' | _ \<Rightarrow> None"
  AesSiv_Key "\<lambda>k. case k of AesSiv_Key k' \<Rightarrow> Some k' | _ \<Rightarrow> None" AesSivFormat
  by unfold_locales (auto simp: AesSivFormat_def AesSiv_ParseParameters_def Let_def split: TinkKey.split_asm if_split_asm option.split_asm)

interpretation aes_cmac_class: class_format AesCmac_ParseParameters AesCmac_SerializeParameters AesCmacParameters_valid
  "\<lambda>p. True" "\<lambda>p. True" AesCmac_ParseKey AesCmac_SerializeKey AesCmacKey_valid "\<lambda>k. True"
  "\<lambda>k. True" AesCmac_TypeUrl 9 AesCmacClass
  AesCmac_Parameters "\<lambda>p. case p of AesCmac_Parameters p' \<Rightarrow> Some p' | _ \<Rightarrow> None"
  AesCmac_Key "\<lambda>k. case k of AesCmac_Key k' \<Rightarrow> Some k' | _ \<Rightarrow> None" AesCmacFormat
  by unfold_locales (auto simp: AesCmacFormat_def AesCmac_ParseParameters_def Let_def split: TinkKey.split_asm if_split_asm option.split_asm)

interpretation hmac_class: class_format Hmac_ParseParameters Hmac_SerializeParameters HmacParameters_valid
  "\<lambda>p. True" "\<lambda>p. True" Hmac_ParseKey Hmac_SerializeKey HmacKey_valid "\<lambda>k. True"
  "\<lambda>k. True" Hmac_TypeUrl 10 HmacClass
  Hmac_Parameters "\<lambda>p. case p of Hmac_Parameters p' \<Rightarrow> Some p' | _ \<Rightarrow> None"
  Hmac_Key "\<lambda>k. case k of Hmac_Key k' \<Rightarrow> Some k' | _ \<Rightarrow> None" HmacFormat
  by unfold_locales (auto simp: HmacFormat_def Hmac_ParseParameters_def Let_def split: TinkKey.split_asm if_split_asm option.split_asm)

interpretation aes_cmac_prf_class: class_format AesCmacPrf_ParseParameters AesCmacPrf_SerializeParameters AesCmacPrfParameters_valid
  "\<lambda>p. True" "\<lambda>p. True" AesCmacPrf_ParseKey AesCmacPrf_SerializeKey AesCmacPrfKey_valid "\<lambda>k. True"
  "\<lambda>k. length (raw_key_bytes k) < 2 ^ 31" AesCmacPrf_TypeUrl 11 AesCmacPrfClass
  AesCmacPrf_Parameters "\<lambda>p. case p of AesCmacPrf_Parameters p' \<Rightarrow> Some p' | _ \<Rightarrow> None"
  AesCmacPrf_Key "\<lambda>k. case k of AesCmacPrf_Key k' \<Rightarrow> Some k' | _ \<Rightarrow> None" AesCmacPrfFormat
  by unfold_locales (auto simp: AesCmacPrfFormat_def AesCmacPrf_ParseParameters_def Let_def split: TinkKey.split_asm if_split_asm option.split_asm)

interpretation hkdf_prf_class: class_format HkdfPrf_ParseParameters HkdfPrf_SerializeParameters HkdfPrfParameters_valid
  "\<lambda>p. True" "\<lambda>p. hkdf_salt_fits p" HkdfPrf_ParseKey HkdfPrf_SerializeKey HkdfPrfKey_valid "\<lambda>k. True"
  "\<lambda>k. hkdf_salt_fits (raw_parameters k)" HkdfPrf_TypeUrl 12 HkdfPrfClass
  HkdfPrf_Parameters "\<lambda>p. case p of HkdfPrf_Parameters p' \<Rightarrow> Some p' | _ \<Rightarrow> None"
  HkdfPrf_Key "\<lambda>k. case k of HkdfPrf_Key k' \<Rightarrow> Some k' | _ \<Rightarrow> None" HkdfPrfFormat
  by unfold_locales (auto simp: HkdfPrfFormat_def HkdfPrf_ParseParameters_def Let_def split: TinkKey.split_asm if_split_asm option.split_asm)

interpretation hmac_prf_class: class_format HmacPrf_ParseParameters HmacPrf_SerializeParameters HmacPrfParameters_valid
  "\<lambda>p. True" "\<lambda>p. True" HmacPrf_ParseKey HmacPrf_SerializeKey HmacPrfKey_valid "\<lambda>k. True"
  "\<lambda>k. True" HmacPrf_TypeUrl 13 HmacPrfClass
  HmacPrf_Parameters "\<lambda>p. case p of HmacPrf_Parameters p' \<Rightarrow> Some p' | _ \<Rightarrow> None"
  HmacPrf_Key "\<lambda>k. case k of HmacPrf_Key k' \<Rightarrow> Some k' | _ \<Rightarrow> None" HmacPrfFormat
  by unfold_locales (auto simp: HmacPrfFormat_def HmacPrf_ParseParameters_def Let_def split: TinkKey.split_asm if_split_asm option.split_asm)

interpretation aes_ctr_hmac_streaming_class: class_format AesCtrHmacStreaming_ParseParameters AesCtrHmacStreaming_SerializeParameters AesCtrHmacStreamingParameters_valid
  "\<lambda>p. True" "\<lambda>p. True" AesCtrHmacStreaming_ParseKey AesCtrHmacStreaming_SerializeKey AesCtrHmacStreamingKey_valid "\<lambda>k. True"
  "\<lambda>k. True" AesCtrHmacStreaming_TypeUrl 14 AesCtrHmacStreamingClass
  AesCtrHmacStreaming_Parameters "\<lambda>p. case p of AesCtrHmacStreaming_Parameters p' \<Rightarrow> Some p' | _ \<Rightarrow> None"
  AesCtrHmacStreaming_Key "\<lambda>k. case k of AesCtrHmacStreaming_Key k' \<Rightarrow> Some k' | _ \<Rightarrow> None" AesCtrHmacStreamingFormat
  by unfold_locales (auto simp: AesCtrHmacStreamingFormat_def AesCtrHmacStreaming_ParseParameters_def Let_def split: TinkKey.split_asm if_split_asm option.split_asm)

interpretation aes_gcm_hkdf_streaming_class: class_format AesGcmHkdfStreaming_ParseParameters AesGcmHkdfStreaming_SerializeParameters AesGcmHkdfStreamingParameters_valid
  "\<lambda>p. True" "\<lambda>p. True" AesGcmHkdfStreaming_ParseKey AesGcmHkdfStreaming_SerializeKey AesGcmHkdfStreamingKey_valid "\<lambda>k. True"
  "\<lambda>k. True" AesGcmHkdfStreaming_TypeUrl 15 AesGcmHkdfStreamingClass
  AesGcmHkdfStreaming_Parameters "\<lambda>p. case p of AesGcmHkdfStreaming_Parameters p' \<Rightarrow> Some p' | _ \<Rightarrow> None"
  AesGcmHkdfStreaming_Key "\<lambda>k. case k of AesGcmHkdfStreaming_Key k' \<Rightarrow> Some k' | _ \<Rightarrow> None" AesGcmHkdfStreamingFormat
  by unfold_locales (auto simp: AesGcmHkdfStreamingFormat_def AesGcmHkdfStreaming_ParseParameters_def Let_def split: TinkKey.split_asm if_split_asm option.split_asm)

end
