(* ===== verification/Global_Registry.thy ===== *)
theory Global_Registry
  imports Serialization_Registry
begin

text \<open>
  What the global serialization registry guarantees: its registrations succeed, and every registry
  that extends it parses what it serializes, parses only valid objects, and gives out and takes in
  secret keys only with a token. The last section connects the registry to the keyset handle, which
  takes its functions as a record.
\<close>

section \<open>The functions of the keyset handle\<close>

text \<open>
  The functions a keyset handle uses, taken from a registry. \<open>get_public_key\<close> stands for the classes
  with public keys, which are not modelled. A serialization that aborts has no counterpart in the
  record; the theorems are about those that return.
\<close>

definition registry_key_fns ::
    "crc_fns \<Rightarrow> (nat \<Rightarrow> byte) \<Rightarrow> ('o TinkKey \<Rightarrow> 'o TinkKey option) \<Rightarrow> 'o SerializationRegistry \<Rightarrow> 'o TinkKey key_fns" where
  "registry_key_fns C junk get_public_key r =
     \<lparr>ParseKeyWithLegacyFallback = (\<lambda>s. Registry_ParseKeyWithLegacyFallback C r (KeySerialization s)),
      SerializeKey = (\<lambda>k. case Registry_SerializeKey C junk r k True of Some res \<Rightarrow> res | None \<Rightarrow> Inl kInternal),
      LegacySerialization = (\<lambda>k. case k of LegacyProtoKey s \<Rightarrow> Some (LegacyProtoKey_Serialization s True) | _ \<Rightarrow> None),
      GetPublicKey = get_public_key\<rparr>"

section \<open>Lemmas\<close>

lemmas global_wf = aes_ctr_hmac_class.wf
  aes_eax_class.wf
  aes_gcm_class.wf
  aes_gcm_siv_class.wf
  chacha20_poly1305_class.wf
  x_aes_gcm_class.wf
  xchacha20_poly1305_class.wf
  aes_siv_class.wf
  aes_cmac_class.wf
  hmac_class.wf
  aes_cmac_prf_class.wf
  hkdf_prf_class.wf
  hmac_prf_class.wf
  aes_ctr_hmac_streaming_class.wf
  aes_gcm_hkdf_streaming_class.wf

lemmas url_defs = AesCtrHmacAead_TypeUrl_def
  AesEax_TypeUrl_def
  AesGcm_TypeUrl_def
  AesGcmSiv_TypeUrl_def
  ChaCha20Poly1305_TypeUrl_def
  XAesGcm_TypeUrl_def
  XChaCha20Poly1305_TypeUrl_def
  AesSiv_TypeUrl_def
  AesCmac_TypeUrl_def
  Hmac_TypeUrl_def
  AesCmacPrf_TypeUrl_def
  HkdfPrf_TypeUrl_def
  HmacPrf_TypeUrl_def
  AesCtrHmacStreaming_TypeUrl_def
  AesGcmHkdfStreaming_TypeUrl_def

lemmas register_defs = RegisterAesCtrHmacAeadProtoSerializationWithRegistryBuilder_def
  RegisterAesEaxProtoSerializationWithRegistryBuilder_def
  RegisterAesGcmProtoSerializationWithRegistryBuilder_def
  RegisterAesGcmSivProtoSerializationWithRegistryBuilder_def
  RegisterChaCha20Poly1305ProtoSerializationWithRegistryBuilder_def
  RegisterXAesGcmProtoSerializationWithRegistryBuilder_def
  RegisterXChaCha20Poly1305ProtoSerializationWithRegistryBuilder_def
  RegisterAesSivProtoSerializationWithRegistryBuilder_def
  RegisterAesCmacProtoSerializationWithRegistryBuilder_def
  RegisterHmacProtoSerializationWithRegistryBuilder_def
  RegisterAesCmacPrfProtoSerializationWithRegistryBuilder_def
  RegisterHkdfPrfProtoSerializationWithRegistryBuilder_def
  RegisterHmacPrfProtoSerializationWithRegistryBuilder_def
  RegisterAesCtrHmacStreamingProtoSerializationWithRegistryBuilder_def
  RegisterAesGcmHkdfStreamingProtoSerializationWithRegistryBuilder_def


lemma global_urls_distinct: "distinct (map format_url global_formats)"
  by (simp add: global_formats_def global_wf url_defs ascii_eq)

lemma global_classes_distinct: "distinct (map format_class global_formats)"
  by (simp add: global_formats_def global_wf)

lemma global_formats_wf: "\<forall>f\<in>set global_formats. wf_format f"
  by (simp add: global_formats_def global_wf)

lemma global_registrations:
  "GlobalSerializationRegistry = check_ok (map RegisterProtoSerializationWithRegistryBuilder global_formats) SerializationRegistry_empty"
  by (simp only: GlobalSerializationRegistry_def global_formats_def register_defs list.map)

lemma global_registry:
  "\<exists>g. GlobalSerializationRegistry = Some g \<and> (\<forall>f\<in>set global_formats. format_registered f g)"
proof -
  have "\<forall>f\<in>set global_formats. wf_format f \<and> fresh_format f SerializationRegistry_empty"
    using global_formats_wf by (simp add: fresh_format_def SerializationRegistry_empty_def)
  from check_ok_formats [OF this global_urls_distinct global_classes_distinct] show ?thesis
    unfolding global_registrations by blast
qed

lemma global_registered:
  fixes g :: "'o SerializationRegistry"
  assumes "GlobalSerializationRegistry = Some g" and "registry_extends g r" and "f \<in> set global_formats"
  shows "format_registered f r"
proof -
  obtain g' :: "'o SerializationRegistry" where "GlobalSerializationRegistry = Some g'" "\<forall>f\<in>set global_formats. format_registered f g'"
    using global_registry by blast
  with assms(1,3) have "format_registered f g" by (metis option.inject)
  then show ?thesis using assms(2) by (rule format_registered_extends)
qed

lemma global_format_members:
  "AesCtrHmacAeadFormat \<in> set global_formats"
  "AesEaxFormat \<in> set global_formats"
  "AesGcmFormat \<in> set global_formats"
  "AesGcmSivFormat \<in> set global_formats"
  "ChaCha20Poly1305Format \<in> set global_formats"
  "XAesGcmFormat \<in> set global_formats"
  "XChaCha20Poly1305Format \<in> set global_formats"
  "AesSivFormat \<in> set global_formats"
  "AesCmacFormat \<in> set global_formats"
  "HmacFormat \<in> set global_formats"
  "AesCmacPrfFormat \<in> set global_formats"
  "HkdfPrfFormat \<in> set global_formats"
  "HmacPrfFormat \<in> set global_formats"
  "AesCtrHmacStreamingFormat \<in> set global_formats"
  "AesGcmHkdfStreamingFormat \<in> set global_formats"
  by (simp_all add: global_formats_def)

subsection \<open>Keys and parameters in a registry that has the formats\<close>

lemma key_roundtrip_registered:
  assumes r: "\<And>f. f \<in> set global_formats \<Longrightarrow> format_registered f r" and C: "crc_laws C"
    and k: "key_valid k" "key_writable k" "key_fits k"
  shows "\<exists>s. Registry_SerializeKey C junk r k True = Some (Inr s) \<and>
    Registry_ParseKey C r (KeySerialization s) True = Inr k \<and> pks_key_material_type s = SYMMETRIC \<and> wf_serialization s"
  using k by (cases k) (simp_all add:
    aes_ctr_hmac_class.key_roundtrip [OF r [OF global_format_members(1)] C]
    aes_eax_class.key_roundtrip [OF r [OF global_format_members(2)] C]
    aes_gcm_class.key_roundtrip [OF r [OF global_format_members(3)] C]
    aes_gcm_siv_class.key_roundtrip [OF r [OF global_format_members(4)] C]
    chacha20_poly1305_class.key_roundtrip [OF r [OF global_format_members(5)] C]
    x_aes_gcm_class.key_roundtrip [OF r [OF global_format_members(6)] C]
    xchacha20_poly1305_class.key_roundtrip [OF r [OF global_format_members(7)] C]
    aes_siv_class.key_roundtrip [OF r [OF global_format_members(8)] C]
    aes_cmac_class.key_roundtrip [OF r [OF global_format_members(9)] C]
    hmac_class.key_roundtrip [OF r [OF global_format_members(10)] C]
    aes_cmac_prf_class.key_roundtrip [OF r [OF global_format_members(11)] C]
    hkdf_prf_class.key_roundtrip [OF r [OF global_format_members(12)] C]
    hmac_prf_class.key_roundtrip [OF r [OF global_format_members(13)] C]
    aes_ctr_hmac_streaming_class.key_roundtrip [OF r [OF global_format_members(14)] C]
    aes_gcm_hkdf_streaming_class.key_roundtrip [OF r [OF global_format_members(15)] C])

lemma parameters_roundtrip_registered:
  assumes r: "\<And>f. f \<in> set global_formats \<Longrightarrow> format_registered f r" and C: "crc_laws C"
    and p: "parameters_valid p" "parameters_writable p" "parameters_fits p"
  shows "\<exists>t. Registry_SerializeParameters C junk r p = Some (Inr t) \<and> Registry_ParseParameters C r (ParametersSerialization t) = Inr p"
  using p by (cases p) (simp_all add:
    aes_ctr_hmac_class.parameters_roundtrip [OF r [OF global_format_members(1)] C]
    aes_eax_class.parameters_roundtrip [OF r [OF global_format_members(2)] C]
    aes_gcm_class.parameters_roundtrip [OF r [OF global_format_members(3)] C]
    aes_gcm_siv_class.parameters_roundtrip [OF r [OF global_format_members(4)] C]
    chacha20_poly1305_class.parameters_roundtrip [OF r [OF global_format_members(5)] C]
    x_aes_gcm_class.parameters_roundtrip [OF r [OF global_format_members(6)] C]
    xchacha20_poly1305_class.parameters_roundtrip [OF r [OF global_format_members(7)] C]
    aes_siv_class.parameters_roundtrip [OF r [OF global_format_members(8)] C]
    aes_cmac_class.parameters_roundtrip [OF r [OF global_format_members(9)] C]
    hmac_class.parameters_roundtrip [OF r [OF global_format_members(10)] C]
    aes_cmac_prf_class.parameters_roundtrip [OF r [OF global_format_members(11)] C]
    hkdf_prf_class.parameters_roundtrip [OF r [OF global_format_members(12)] C]
    hmac_prf_class.parameters_roundtrip [OF r [OF global_format_members(13)] C]
    aes_ctr_hmac_streaming_class.parameters_roundtrip [OF r [OF global_format_members(14)] C]
    aes_gcm_hkdf_streaming_class.parameters_roundtrip [OF r [OF global_format_members(15)] C])

lemma key_parsed_registered:
  assumes r: "\<And>f. f \<in> set global_formats \<Longrightarrow> format_registered f r"
    and s: "pks_type_url s \<in> set (map format_url global_formats)"
    and k: "Registry_ParseKey C r (KeySerialization s) token = Inr k"
  shows "token \<and> key_valid k \<and> key_writable k"
proof -
  from s consider "pks_type_url s = AesCtrHmacAead_TypeUrl"
    | "pks_type_url s = AesEax_TypeUrl"
    | "pks_type_url s = AesGcm_TypeUrl"
    | "pks_type_url s = AesGcmSiv_TypeUrl"
    | "pks_type_url s = ChaCha20Poly1305_TypeUrl"
    | "pks_type_url s = XAesGcm_TypeUrl"
    | "pks_type_url s = XChaCha20Poly1305_TypeUrl"
    | "pks_type_url s = AesSiv_TypeUrl"
    | "pks_type_url s = AesCmac_TypeUrl"
    | "pks_type_url s = Hmac_TypeUrl"
    | "pks_type_url s = AesCmacPrf_TypeUrl"
    | "pks_type_url s = HkdfPrf_TypeUrl"
    | "pks_type_url s = HmacPrf_TypeUrl"
    | "pks_type_url s = AesCtrHmacStreaming_TypeUrl"
    | "pks_type_url s = AesGcmHkdfStreaming_TypeUrl"
    by (auto simp: global_formats_def global_wf)
  then show ?thesis
  proof cases
    case 1
    from aes_ctr_hmac_class.key_parsed [OF r [OF global_format_members(1)] this k] show ?thesis by auto
  next
    case 2
    from aes_eax_class.key_parsed [OF r [OF global_format_members(2)] this k] show ?thesis by auto
  next
    case 3
    from aes_gcm_class.key_parsed [OF r [OF global_format_members(3)] this k] show ?thesis by auto
  next
    case 4
    from aes_gcm_siv_class.key_parsed [OF r [OF global_format_members(4)] this k] show ?thesis by auto
  next
    case 5
    from chacha20_poly1305_class.key_parsed [OF r [OF global_format_members(5)] this k] show ?thesis by auto
  next
    case 6
    from x_aes_gcm_class.key_parsed [OF r [OF global_format_members(6)] this k] show ?thesis by auto
  next
    case 7
    from xchacha20_poly1305_class.key_parsed [OF r [OF global_format_members(7)] this k] show ?thesis by auto
  next
    case 8
    from aes_siv_class.key_parsed [OF r [OF global_format_members(8)] this k] show ?thesis by auto
  next
    case 9
    from aes_cmac_class.key_parsed [OF r [OF global_format_members(9)] this k] show ?thesis by auto
  next
    case 10
    from hmac_class.key_parsed [OF r [OF global_format_members(10)] this k] show ?thesis by auto
  next
    case 11
    from aes_cmac_prf_class.key_parsed [OF r [OF global_format_members(11)] this k] show ?thesis by auto
  next
    case 12
    from hkdf_prf_class.key_parsed [OF r [OF global_format_members(12)] this k] show ?thesis by auto
  next
    case 13
    from hmac_prf_class.key_parsed [OF r [OF global_format_members(13)] this k] show ?thesis by auto
  next
    case 14
    from aes_ctr_hmac_streaming_class.key_parsed [OF r [OF global_format_members(14)] this k] show ?thesis by auto
  next
    case 15
    from aes_gcm_hkdf_streaming_class.key_parsed [OF r [OF global_format_members(15)] this k] show ?thesis by auto
  qed
qed

lemma key_token_registered:
  assumes r: "\<And>f. f \<in> set global_formats \<Longrightarrow> format_registered f r"
    and k: "key_class k \<in> set (map format_class global_formats)"
  shows "\<exists>e. Registry_SerializeKey C junk r k False = Some (Inl e)"
  using k by (cases k) (simp_all add: global_formats_def global_wf
    aes_ctr_hmac_class.key_without_token [OF r [OF global_format_members(1)]]
    aes_eax_class.key_without_token [OF r [OF global_format_members(2)]]
    aes_gcm_class.key_without_token [OF r [OF global_format_members(3)]]
    aes_gcm_siv_class.key_without_token [OF r [OF global_format_members(4)]]
    chacha20_poly1305_class.key_without_token [OF r [OF global_format_members(5)]]
    x_aes_gcm_class.key_without_token [OF r [OF global_format_members(6)]]
    xchacha20_poly1305_class.key_without_token [OF r [OF global_format_members(7)]]
    aes_siv_class.key_without_token [OF r [OF global_format_members(8)]]
    aes_cmac_class.key_without_token [OF r [OF global_format_members(9)]]
    hmac_class.key_without_token [OF r [OF global_format_members(10)]]
    aes_cmac_prf_class.key_without_token [OF r [OF global_format_members(11)]]
    hkdf_prf_class.key_without_token [OF r [OF global_format_members(12)]]
    hmac_prf_class.key_without_token [OF r [OF global_format_members(13)]]
    aes_ctr_hmac_streaming_class.key_without_token [OF r [OF global_format_members(14)]]
    aes_gcm_hkdf_streaming_class.key_without_token [OF r [OF global_format_members(15)]])

text \<open>Through the functions of the keyset handle: a modelled key, or a legacy key of a type without a parser.\<close>

definition keyset_key :: "'o SerializationRegistry \<Rightarrow> 'o TinkKey \<Rightarrow> bool" where
  "keyset_key r k \<longleftrightarrow> key_valid k \<and> key_writable k \<and> key_fits k \<or>
     (\<exists>s. k = LegacyProtoKey s \<and> wf_serialization s \<and> key_parsers r (kProtoKeySerialization, pks_type_url s) = None \<and>
        key_serializers r (LegacyClass, kProtoKeySerialization) = None)"

lemma fallback_registered:
  "Registry_ParseKey C r serialization True = Inr k \<Longrightarrow> Registry_ParseKeyWithLegacyFallback C r serialization = Inr k"
  by (simp add: Registry_ParseKeyWithLegacyFallback_def)

lemma fallback_legacy:
  "key_parsers r (kProtoKeySerialization, pks_type_url s) = None \<Longrightarrow>
     Registry_ParseKeyWithLegacyFallback C r (KeySerialization s) = Inr (LegacyProtoKey s)"
  by (simp add: Registry_ParseKeyWithLegacyFallback_def Registry_ParseKey_def ParserIndex_Create_def LegacyProtoKey_Create_def)

lemma keyset_key_serialization:
  assumes r: "\<And>f. f \<in> set global_formats \<Longrightarrow> format_registered f r" and C: "crc_laws C" and k: "keyset_key r k"
  shows "\<exists>s. GetProtoKeySerialization (registry_key_fns C junk pub r) k = Inr s \<and> wf_serialization s \<and>
    Registry_ParseKeyWithLegacyFallback C r (KeySerialization s) = Inr k"
proof (cases "\<exists>s. k = LegacyProtoKey s")
  case True
  then obtain s where s: "k = LegacyProtoKey s" by blast
  with k have "wf_serialization s" "key_parsers r (kProtoKeySerialization, pks_type_url s) = None"
    "key_serializers r (LegacyClass, kProtoKeySerialization) = None" by (auto simp: keyset_key_def)
  then show ?thesis
    by (simp add: s GetProtoKeySerialization_def SerializeLegacyKey_def registry_key_fns_def Registry_SerializeKey_def
        LegacyProtoKey_Serialization_def fallback_legacy)
next
  case False
  with k have "key_valid k" "key_writable k" "key_fits k" by (auto simp: keyset_key_def)
  from key_roundtrip_registered [OF r C this, of junk] show ?thesis
    by (auto simp: GetProtoKeySerialization_def registry_key_fns_def fallback_registered)
qed

section \<open>Properties\<close>

text \<open>
  (C4) Serialization through the global registry. The registrations of the fifteen modelled key classes succeed, and in every
  registry that has them, whatever else it has:
  a key that the \<^verbatim>\<open>Create\<close> function of its class can return and its proto format can express is serialized with a token for
  secret key access, as symmetric key material, and the serialization is parsed back to the same key, with and without the
  fallback to legacy keys;
  the parameters of keys round trip in the same way;
  a serialization with the type URL of a modelled class is parsed only with a token, and only to a key that the \<^verbatim>\<open>Create\<close>
  function of its class can return and that can be written again;
  without a token no key of these classes is serialized.
\<close>

theorem registered_serialization_correct:
  assumes C: "crc_laws C"
  shows "\<exists>g :: 'o SerializationRegistry. GlobalSerializationRegistry = Some g \<and>
    (\<forall>r. registry_extends g r \<longrightarrow>
       (\<forall>k. key_valid k \<and> key_writable k \<and> key_fits k \<longrightarrow>
          (\<exists>s. Registry_SerializeKey C junk r k True = Some (Inr s) \<and> pks_key_material_type s = SYMMETRIC \<and>
             Registry_ParseKey C r (KeySerialization s) True = Inr k \<and>
             Registry_ParseKeyWithLegacyFallback C r (KeySerialization s) = Inr k)) \<and>
       (\<forall>p. parameters_valid p \<and> parameters_writable p \<and> parameters_fits p \<longrightarrow>
          (\<exists>t. Registry_SerializeParameters C junk r p = Some (Inr t) \<and>
             Registry_ParseParameters C r (ParametersSerialization t) = Inr p \<and>
             Registry_ParseParametersWithLegacyFallback C r (ParametersSerialization t) = Inr p)) \<and>
       (\<forall>s token k. pks_type_url s \<in> set (map format_url (global_formats :: 'o KeyFormat list)) \<and>
          Registry_ParseKey C r (KeySerialization s) token = Inr k \<longrightarrow> token \<and> key_valid k \<and> key_writable k) \<and>
       (\<forall>k. key_class k \<in> set (map format_class (global_formats :: 'o KeyFormat list)) \<longrightarrow>
          (\<exists>e. Registry_SerializeKey C junk r k False = Some (Inl e))))"
proof -
  obtain g :: "'o SerializationRegistry" where g: "GlobalSerializationRegistry = Some g" using global_registry by blast
  show ?thesis
  proof (intro exI [of _ g] conjI allI impI)
    show "GlobalSerializationRegistry = Some g" by (rule g)
  next
    fix r :: "'o SerializationRegistry" and k :: "'o TinkKey"
    assume r: "registry_extends g r" and k: "key_valid k \<and> key_writable k \<and> key_fits k"
    show "\<exists>s. Registry_SerializeKey C junk r k True = Some (Inr s) \<and> pks_key_material_type s = SYMMETRIC \<and>
       Registry_ParseKey C r (KeySerialization s) True = Inr k \<and> Registry_ParseKeyWithLegacyFallback C r (KeySerialization s) = Inr k"
      using key_roundtrip_registered [OF global_registered [OF g r] C, of k junk] k fallback_registered by blast
  next
    fix r :: "'o SerializationRegistry" and p :: "'o TinkParameters"
    assume r: "registry_extends g r" and p: "parameters_valid p \<and> parameters_writable p \<and> parameters_fits p"
    show "\<exists>t. Registry_SerializeParameters C junk r p = Some (Inr t) \<and> Registry_ParseParameters C r (ParametersSerialization t) = Inr p \<and>
       Registry_ParseParametersWithLegacyFallback C r (ParametersSerialization t) = Inr p"
      using parameters_roundtrip_registered [OF global_registered [OF g r] C, of p junk] p
      by (auto simp: Registry_ParseParametersWithLegacyFallback_def)
  next
    fix r :: "'o SerializationRegistry" and s token and k :: "'o TinkKey"
    assume r: "registry_extends g r" and s: "pks_type_url s \<in> set (map format_url (global_formats :: 'o KeyFormat list)) \<and>
      Registry_ParseKey C r (KeySerialization s) token = Inr k"
    show "token" "key_valid k" "key_writable k" using key_parsed_registered [OF global_registered [OF g r]] s by blast+
  next
    fix r :: "'o SerializationRegistry" and k :: "'o TinkKey"
    assume r: "registry_extends g r" and k: "key_class k \<in> set (map format_class (global_formats :: 'o KeyFormat list))"
    show "\<exists>e. Registry_SerializeKey C junk r k False = Some (Inl e)"
      using key_token_registered [OF global_registered [OF g r]] k by blast
  qed
qed

text \<open>
  Keys in keysets. With the functions of a registry that extends the global one, a keyset key made from a key object, of a modelled class or a
  legacy key of a type that has no parser, gives back the same object when an entry is made from it, with the given
  status and id; making the keyset key fails only if the key requires another id.
\<close>

theorem keyset_keys_round_trip:
  assumes "GlobalSerializationRegistry = Some g" and "registry_extends g r" and "crc_laws C" and "keyset_key r k"
    and "FromKeyStatusType st = Inr entry_st" and K: "K = registry_key_fns C junk pub r"
  shows "\<exists>s. GetProtoKeySerialization K k = Inr s \<and>
    (if pks_id_requirement s = None \<or> pks_id_requirement s = Some i
     then \<exists>key. CreateKeysetKey K k i st = Inr key \<and>
       CreateEntry K key primary = Inr \<lparr>entry_key = k, entry_status = entry_st, entry_id = i, is_primary = (i = primary)\<rparr>
     else CreateKeysetKey K k i st = Inl kInvalidArgument)"
proof -
  obtain s where s: "GetProtoKeySerialization K k = Inr s" "wf_serialization s"
    "Registry_ParseKeyWithLegacyFallback C r (KeySerialization s) = Inr k"
    using keyset_key_serialization [OF global_registered [OF assms(1,2)] assms(3,4)] unfolding K by blast
  have "CreateEntry K key primary = Inr \<lparr>entry_key = k, entry_status = entry_st, entry_id = i, is_primary = (i = primary)\<rparr>"
    if "CreateKeysetKeyFromProtoKeySerialization s i st = Inr key" for key
    using keyset_key_roundtrip [OF s(2) that] s(3) assms(5) by (simp add: CreateEntry_def K registry_key_fns_def)
  with s(1) show ?thesis
    by (auto simp: CreateKeysetKey_def CreateKeysetKeyFromProtoKeySerialization_def split: option.split)
qed

subsection \<open>A key\<close>

definition sample_gcm_parameters :: AesGcmParameters where
  "sample_gcm_parameters = \<lparr>gcm_key_size = 16, gcm_iv_size = 12, gcm_tag_size = 16, gcm_variant = kTink\<rparr>"

definition sample_gcm_key :: AesGcmKey where
  "sample_gcm_key = \<lparr>key_parameters = sample_gcm_parameters, key_bytes = replicate 16 7, id_requirement = Some 5,
     key_output_prefix = ComputeOutputPrefix 1 5\<rparr>"

lemma sample_gcm_ok:
  "key_valid (AesGcm_Key sample_gcm_key)" "key_writable (AesGcm_Key sample_gcm_key)" "key_fits (AesGcm_Key sample_gcm_key)"
  "parameters_valid (AesGcm_Parameters sample_gcm_parameters)" "parameters_writable (AesGcm_Parameters sample_gcm_parameters)"
  "parameters_fits (AesGcm_Parameters sample_gcm_parameters)"
  by (simp_all add: sample_gcm_key_def sample_gcm_parameters_def AesGcmKey_valid_def AesGcmParameters_valid_def AesGcmParameters_Build_def
      AesGcmKey_Create_def create_with_id_def HasIdRequirement_def prefix_with_id_def AesGcm_ValidateParamsForProto_def supported_variants_def)

theorem registered_serialization_correct_witness:
  "\<exists>(g :: unit SerializationRegistry) s t e. GlobalSerializationRegistry = Some g \<and>
     Registry_SerializeKey sum_crc (\<lambda>_. 0) g (AesGcm_Key sample_gcm_key) True = Some (Inr s) \<and>
     Registry_ParseKey sum_crc g (KeySerialization s) True = Inr (AesGcm_Key sample_gcm_key) \<and>
     Registry_SerializeParameters sum_crc (\<lambda>_. 0) g (AesGcm_Parameters sample_gcm_parameters) = Some (Inr t) \<and>
     Registry_ParseParameters sum_crc g (ParametersSerialization t) = Inr (AesGcm_Parameters sample_gcm_parameters) \<and>
     Registry_SerializeKey sum_crc (\<lambda>_. 0) g (AesGcm_Key sample_gcm_key) False = Some (Inl e)"
proof -
  have "key_class (AesGcm_Key sample_gcm_key :: unit TinkKey) \<in> set (map format_class (global_formats :: unit KeyFormat list))"
    by (simp add: global_formats_def global_wf)
  with registered_serialization_correct [OF sum_crc_laws, of "\<lambda>_. 0", where 'o = unit] sample_gcm_ok registry_extends_refl
  show ?thesis by metis
qed

theorem keyset_keys_round_trip_witness:
  "\<exists>(g :: unit SerializationRegistry) s. GlobalSerializationRegistry = Some g \<and>
     GetProtoKeySerialization (registry_key_fns sum_crc (\<lambda>_. 0) (\<lambda>_. None) g) (AesGcm_Key sample_gcm_key) = Inr s"
proof -
  obtain g :: "unit SerializationRegistry" where g: "GlobalSerializationRegistry = Some g" using global_registry by blast
  have k: "keyset_key g (AesGcm_Key sample_gcm_key)" using sample_gcm_ok by (simp add: keyset_key_def)
  from keyset_keys_round_trip [OF g registry_extends_refl sum_crc_laws k FromKeyStatusType.simps(1) refl] g show ?thesis by blast
qed

end
