(* ===== verification/Spec2Isabelle.thy ===== *)
theory Spec2Isabelle
  imports Keyset_Builder Primitive_Wrappers Registry Keyset_Random_Access Jwt Global_Registry
begin

text \<open>
  A verification of the core of Tink for C++ (\<^verbatim>\<open>tink/\<close>): how keys are serialized, kept in keysets and
  managed, how a keyset becomes one primitive, the symmetric and streaming primitives themselves, and
  JSON web tokens.

  \<^bold>\<open>The program.\<close> A \<^emph>\<open>keyset\<close> is a list of keys with ids and statuses, one of which is primary. Users hold it
  in a \<^emph>\<open>keyset handle\<close>, change it with the \<^emph>\<open>keyset manager\<close> or make it with the \<^emph>\<open>handle builder\<close>. Keys are stored as
  protocol buffers, which a parser of Tink's own reads and writes; the \<^emph>\<open>serialization registry\<close> maps type
  URLs and classes to the functions that convert between key objects and their serializations. To use
  a keyset, the \<^emph>\<open>registry\<close> makes a primitive of every enabled key, the primitives are put into a \<^emph>\<open>primitive set\<close> under the
  output prefixes of their keys, and a \<^emph>\<open>wrapper\<close> turns the set into one primitive: it encrypts or signs with the primary
  key and decrypts or verifies with whatever key matches, and tells a monitoring client about it. The
  primitives of single keys are thin layers over BoringSSL. Streaming AEADs work on byte streams, cut
  into segments. JSON web tokens put a token format, with a validator, on top of MACs and signatures.

  \<^bold>\<open>The theories\<close>, in the order of their imports. The names of the definitions are those of the source;
  a prefix tells functions of the same name apart.

  \<^item> \<open>Tink_Prelude\<close>: bytes, words, status values, shared lemmas.
  \<^item> \<open>Proto_Wire\<close> (\<^verbatim>\<open>internal/proto_parsing_helpers.cc\<close>, \<^verbatim>\<open>proto_parser_state.h\<close>): varints, tags, length-delimited fields,
    skipping of unknown fields and groups, over explicit parsing and serialization states that carry the running CRC.
    Shown: round trips, exact sizes, the nesting limit of groups.
  \<^item> \<open>Proto_Message\<close> (\<^verbatim>\<open>internal/proto_parser_message.{h,cc}\<close> and the field classes): messages as lists of fields,
    serialization, parsing, \<^verbatim>\<open>SecretData\<close>. Shown: every well-formed message is parsed back from its serialization,
    the CRC of secret data is the CRC of the bytes, also for arbitrary input.
  \<^item> \<open>Tink_Proto\<close> (\<^verbatim>\<open>proto/tink.tinkpb.h\<close>): keyset messages as records and as parser messages, with their round trip.
  \<^item> \<open>Keyset_Manager\<close> (\<^verbatim>\<open>util/validation.cc\<close>, \<^verbatim>\<open>util/keyset_util.cc\<close>, \<^verbatim>\<open>core/keyset_manager.cc\<close>): validation as a loop and as a predicate,
    and every operation of the manager. An operation returns its status and the keyset it leaves
    behind; the loops return the keys they have written to together with the status, so that a failure keeps what was written
    before it. Shown: the invariant of managed keysets, failures change nothing, destroyed keys stay destroyed.
  \<^item> \<open>Keyset_Handle\<close>, \<open>Keyset_Builder\<close> (\<^verbatim>\<open>core/keyset_handle.cc\<close>, \<^verbatim>\<open>core/keyset_handle_builder.cc\<close>): handles with their entries, encryption of
    keysets, the checks for secret material, public keysets, the builder. A failed \<^verbatim>\<open>ABSL_CHECK\<close> is the value \<open>None\<close>.
    Shown: what is encrypted is read back, no secret leaves or enters without a token, exactly when
    \<^verbatim>\<open>GetPrimary\<close> crashes, what \<^verbatim>\<open>Build\<close> returns.
  \<^item> \<open>Primitive_Set\<close> (\<^verbatim>\<open>internal/primitive_set.h\<close>, \<^verbatim>\<open>core/crypto_format.cc\<close>, \<^verbatim>\<open>internal/keyset_wrapper_impl.h\<close>): the hash map of entries refines
    a list of entries; the set made of a keyset consists of its enabled keys.
  \<^item> \<open>Primitive_Wrappers\<close> (\<^verbatim>\<open>aead/aead_wrapper.cc\<close> and the other seven wrappers): what the wrapped operations accept, key
    rotation, monitoring events.
  \<^item> \<open>Registry\<close> (\<^verbatim>\<open>internal/registry_impl.{h,cc}\<close>, \<^verbatim>\<open>key_type_info_store\<close>, \<^verbatim>\<open>keyset_wrapper_store\<close>, \<^verbatim>\<open>fips_utils\<close>): registrations as a step
    relation; what is registered is never replaced, and FIPS mode admits only managers that need BoringCrypto.
    A wrapper receives the monitoring factory that is registered when it is called.
  \<^item> \<open>Subtle_Aead\<close> (\<^verbatim>\<open>subtle/\<close>, \<^verbatim>\<open>aead/internal/ssl_aead.cc\<close>, \<^verbatim>\<open>aead/kms_envelope_aead.cc\<close>): AES-GCM, AES-GCM-SIV, XChaCha20-Poly1305, AES-CTR-HMAC, HMAC,
    HKDF and envelope encryption; round trips and the unambiguous MAC input.
  \<^item> \<open>Streams\<close>, \<open>Streaming_Aead\<close>, \<open>Streaming_Segments\<close>, \<open>Streaming_Wrapper\<close>, \<open>Random_Access\<close>, \<open>Keyset_Random_Access\<close> (\<^verbatim>\<open>util/*_stream.cc\<close>, \<^verbatim>\<open>subtle/streaming_aead_*\<close>,
    \<^verbatim>\<open>subtle/aes_gcm_hkdf_*\<close>, \<^verbatim>\<open>subtle/aes_ctr_hmac_streaming.cc\<close>, \<^verbatim>\<open>streamingaead/\<close>): streams and segment crypters are records of operations over
    a state, their contracts are locales, and the locales are interpreted on the adapters and crypters of the
    source. Shown: round trips in pieces of any sizes, what a decrypting stream accepts, distinct nonces,
    termination, trial decryption with the keys of a keyset, random access.
  \<^item> \<open>Jwt_Token\<close>, \<open>Jwt_Validator\<close>, \<open>Jwt\<close> (\<^verbatim>\<open>jwt/raw_jwt.cc\<close>, \<^verbatim>\<open>jwt/jwt_validator.cc\<close>, \<^verbatim>\<open>jwt/internal/jwt_*\<close>): claims and their accessors, the token builder,
    the validator as a predicate, signing and verification with a keyset.
  \<^item> \<open>Key_Serialization\<close> and \<open>Mac_Keys\<close>, \<open>Aead_Keys\<close>, \<open>Chacha_Keys\<close>, \<open>Ctr_Hmac_Keys\<close>, \<open>Prf_Keys\<close>, \<open>Streaming_Keys\<close> (\<^verbatim>\<open>*_parameters.cc\<close>, \<^verbatim>\<open>*_key.cc\<close>,
    \<^verbatim>\<open>internal/*_proto_serialization_impl.cc\<close>): fifteen key classes with their parameters, messages, parsers and serializers. The contract of a
    format is a locale, interpreted thirty times: for the keys and for the parameters of every class.
  \<^item> \<open>Tink_Keys\<close>, \<open>Serialization_Registry\<close>, \<open>Global_Registry\<close> (\<^verbatim>\<open>internal/serialization_registry.{h,cc}\<close>, \<^verbatim>\<open>mutable_serialization_registry.cc\<close>, \<^verbatim>\<open>legacy_proto_key.cc\<close>,
    \<^verbatim>\<open>global_serialization_registry.cc\<close>): key objects as one type, the registry with its builder, what the global registry guarantees, and
    its connection to the keyset handle.

  \<^bold>\<open>Conventions.\<close> An \<^verbatim>\<open>absl::StatusOr\<close> is a sum, with the status code on the left; error texts are not modelled. State is passed
  explicitly. Integers are words where they wrap; \<^verbatim>\<open>int\<close> sizes are integers, with the conversions to and from \<^verbatim>\<open>uint32_t\<close> and \<^verbatim>\<open>size_t\<close>
  written out in the key classes. An operation under a mutex is one step. \<^verbatim>\<open>typeid\<close> values are numbers or the
  constructors of a type.

  \<^bold>\<open>Loops.\<close> Loops over data are recursive functions. The parser (\<open>Parse\<close>), the skipping of groups, the writing of varints and the binary
  search for a field are total, with termination proofs; the parser ends because every step consumes input.
  Loops that may run forever, drawing unused key ids and copying through streams, are partial functions into the
  option type, and that they return is proved under conditions on the source of random ids and on the standard stream.
  There is no fuel. The bounds in the theorems are those of the code: messages below \<open>2 ^ 32\<close> bytes, \<open>2 ^ 32\<close>
  segments, at most 100 groups open at once.

  \<^bold>\<open>Parameters.\<close> Code that is not in the repository is an argument of the definitions, with named hypotheses: the
  CRC functions of Abseil (\<open>crc_laws\<close>), BoringSSL (the record \<open>Ssl\<close> with \<open>aead_laws\<close>, \<open>ctr_laws\<close>, \<open>hmac_laws\<close> and others), Base64 and the JSON
  format, the standard streams, random values and the clock. Key managers and monitoring clients are records of
  functions. Every property with such a hypothesis has an instance in which it holds. That a tag of the last segment of a
  stream does not collide is assumed for that stream only.

  \<^bold>\<open>Not modelled.\<close> Hybrid and signature primitives with their key classes (nearly all of their work is done by
  BoringSSL), KMS clients, keyset readers and writers for JSON and PEM, configurations, the key managers of single
  key types and the key templates, JWT key classes and JWK sets, chunked MACs, keyset derivation, the variants for
  OpenSSL, wiping of memory and protection against core dumps. The global registry also registers
  the legacy KMS, ECDSA, Ed25519, ML-DSA and SLH-DSA classes; what is shown of it holds of every registry that extends the
  modelled registrations.
\<close>

end
